(* ===== verification/Lora_Prelude.thy ===== *)
theory Lora_Prelude
  imports Main "HOL-Library.Word"
begin

text \<open>
  Shared vocabulary of the development: machine integers at their C++ widths, byte strings,
  the limits of \<^verbatim>\<open>core/limits.h\<close> and \<^verbatim>\<open>protocol/limits.h\<close>, big-endian integers, saturating
  tick arithmetic, and the list operations the C++ code performs with the standard algorithms
  (\<^verbatim>\<open>std::find_if\<close> with \<^verbatim>\<open>erase\<close>, \<^verbatim>\<open>std::copy\<close> into a fixed buffer).
\<close>

unbundle bit_operations_syntax

named_theorems limits \<open>the numeric limits of the program\<close>
named_theorems wire \<open>sizes and positions of wire fields\<close>

section \<open>Types\<close>

type_synonym byte = "8 word"
type_synonym bytes = "byte list"
type_synonym u16 = "16 word"
type_synonym u32 = "32 word"
type_synonym u64 = "64 word"
type_synonym ('a, 'e) result = "'e + 'a"

abbreviation u64_max :: u64 where "u64_max \<equiv> - 1"

fun has_value :: "('a, 'e) result \<Rightarrow> bool" where
  "has_value (Inr _) = True"
| "has_value (Inl _) = False"

lemma has_value_iff: "has_value r \<longleftrightarrow> (\<exists>v. r = Inr v)"
  by (cases r) auto

text \<open>A string literal of the program as bytes.\<close>

definition ascii :: "string \<Rightarrow> bytes" where
  "ascii s = map of_char s"

section \<open>Limits\<close>

definition kMaxUserIdBytes :: nat where [limits, simp]: "kMaxUserIdBytes = 24"
definition kMaxPostBodyBytes :: nat where [limits, simp]: "kMaxPostBodyBytes = 160"
definition kMaxMentions :: nat where [limits, simp]: "kMaxMentions = 4"
definition kMaxQueuedLocalPosts :: nat where [limits, simp]: "kMaxQueuedLocalPosts = 16"
definition kMaxTimelineEntries :: nat where [limits, simp]: "kMaxTimelineEntries = 256"

definition kMinimumDatagramMtu :: nat where [limits, simp]: "kMinimumDatagramMtu = 48"
definition kMaximumDatagramBytes :: nat where [limits, simp]: "kMaximumDatagramBytes = 255"

definition kFrameHeaderBytes :: nat where [limits, simp]: "kFrameHeaderBytes = 28"
definition kMinimumTransportMtu :: nat where
  [limits, simp]: "kMinimumTransportMtu = kMinimumDatagramMtu"
definition kMaximumTransportMtu :: nat where
  [limits, simp]: "kMaximumTransportMtu = kMaximumDatagramBytes"
definition kMaximumFramePayloadBytes :: nat where
  [limits, simp]: "kMaximumFramePayloadBytes = kMaximumTransportMtu - kFrameHeaderBytes"
definition kMinimumEncodedPostBytes :: nat where [limits, simp]: "kMinimumEncodedPostBytes = 46"
definition kMaximumEncodedPostBytes :: nat where [limits, simp]: "kMaximumEncodedPostBytes = 316"
definition kMaximumFragments :: nat where [limits, simp]: "kMaximumFragments = 16"

definition is_supported_mtu :: "nat \<Rightarrow> bool" where
  "is_supported_mtu mtu \<longleftrightarrow> kMinimumTransportMtu \<le> mtu \<and> mtu \<le> kMaximumTransportMtu"

definition frame_payload_capacity :: "nat \<Rightarrow> nat" where
  "frame_payload_capacity mtu = (if is_supported_mtu mtu then mtu - kFrameHeaderBytes else 0)"

lemma payload_capacity_bounds [wire]:
  "is_supported_mtu mtu \<Longrightarrow> 20 \<le> frame_payload_capacity mtu \<and> frame_payload_capacity mtu \<le> 227"
  by (auto simp: is_supported_mtu_def frame_payload_capacity_def)

section \<open>Bit operations as arithmetic\<close>

named_theorems unat_bits \<open>bit operations on words, read through unat\<close>

lemma unat_take_bit_mod [unat_bits]: "unat (take_bit k w) = unat w mod 2 ^ k"
  unfolding unsigned_take_bit_eq by (simp add: take_bit_eq_mod)

lemma unat_drop_bit_div [unat_bits]: "unat (drop_bit k w) = unat w div 2 ^ k"
  unfolding unat_drop_bit_eq by (simp add: drop_bit_eq_div)

lemma unat_push_bit_mult [unat_bits]:
  "unat (push_bit k (w :: 'a::len word)) = (unat w * 2 ^ k) mod 2 ^ LENGTH('a)"
  unfolding unsigned_push_bit_eq by (simp add: take_bit_eq_mod push_bit_eq_mult)

lemma unat_ucast_mod [unat_bits]:
  "unat (ucast (w :: 'a::len word) :: 'b::len word) = unat w mod 2 ^ LENGTH('b)"
  unfolding unsigned_ucast_eq by (simp add: take_bit_eq_mod)

lemma mod_untag: "k * m \<le> n \<Longrightarrow> n < k * m + m \<Longrightarrow> n = k * m + n mod (m::nat)"
proof -
  assume "k * m \<le> n" "n < k * m + m"
  then obtain q where "n = k * m + q" "q < m" by (metis le_Suc_ex nat_add_left_cancel_less)
  then show "n = k * m + n mod m" by simp
qed

lemma less_16_cases:
  "n < 16 \<Longrightarrow> n \<in> {0, 1, 2, 3, 4, 5, 6, 7, 8, 9, 10, 11, 12, 13, 14, 15 :: nat}"
proof -
  have "set [0..<16] = {0, 1, 2, 3, 4, 5, 6, 7, 8, 9, 10, 11, 12, 13, 14, 15 :: nat}" by code_simp
  moreover assume "n < 16"
  then have "n \<in> set [0..<16]" by simp
  ultimately show ?thesis by (simp only:)
qed

lemma unat_byte_bound: "unat (c :: byte) < 256"
proof -
  have "unat c < 2 ^ LENGTH(8)" by (rule unsigned_less)
  then show ?thesis by simp
qed

lemma or_tag_add:
  fixes t x :: "'a::len word"
  assumes "take_bit k t = 0" "take_bit k x = x"
  shows "t OR x = t + x"
proof -
  have "t AND x = 0"
  proof (rule bit_word_eqI)
    fix n
    have "bit t n \<Longrightarrow> k \<le> n"
      using assms(1) by (metis bit_take_bit_iff bit_0_eq bot_apply not_le_imp_less bot_bool_def)
    moreover have "bit x n \<Longrightarrow> n < k"
      using assms(2) by (metis bit_take_bit_iff)
    ultimately show "bit (t AND x) n = bit 0 n" by (auto simp: bit_and_iff)
  qed
  then show ?thesis by (simp add: disjunctive_add_eq_or)
qed

text \<open>Disjoint fields: an \<open>OR\<close> of a tag with a value below the tag's lowest bit is a sum.\<close>

lemma unat_or_disjoint:
  fixes t x :: "'a::len word"
  assumes "take_bit k t = 0" "unat x < 2 ^ k" "unat t + unat x < 2 ^ LENGTH('a)"
  shows "unat (t OR x) = unat t + unat x"
proof -
  have "take_bit k x = x" using assms(2) by (simp only: word_unat_eq_iff unat_take_bit_mod mod_less)
  then have "t OR x = t + x" by (rule or_tag_add [OF assms(1)])
  with assms(3) show ?thesis by (simp add: unat_word_ariths)
qed

section \<open>Saturating ticks\<close>

definition saturating_add :: "u64 \<Rightarrow> u64 \<Rightarrow> u64" where
  "saturating_add value increment =
     (if value > u64_max - increment then u64_max else value + increment)"

lemma unat_u64_max: "unat u64_max = 2 ^ 64 - 1"
  by (simp add: unsigned_minus_1_eq_mask mask_eq_exp_minus_1)

lemma unat_u64_bound: "unat (a :: u64) \<le> 2 ^ 64 - 1"
proof -
  have "unat a < 2 ^ LENGTH(64)" by (rule unsigned_less)
  then show ?thesis by simp
qed

lemma unat_u64_succ:
  assumes "(a :: u64) \<noteq> u64_max"
  shows "unat (a + 1) = unat a + 1"
proof -
  have "unat a \<noteq> 2 ^ 64 - 1" using assms unat_u64_max by (metis word_unat_eq_iff)
  then have "unat a + 1 < 2 ^ LENGTH(64)" using unat_u64_bound [of a] by simp
  then show ?thesis by (simp add: unat_word_ariths)
qed

lemma u64_succ_greater: "(a :: u64) \<noteq> u64_max \<Longrightarrow> a < a + 1"
  by (simp add: word_less_nat_alt unat_u64_succ)

lemma unat_saturating_add:
  "unat (saturating_add a b) = min (unat a + unat b) (2 ^ 64 - 1)"
proof -
  have diff: "unat (u64_max - b) = (2 ^ 64 - 1) - unat b"
    by (subst unat_sub) (simp_all only: word_order.extremum unat_u64_max)
  have b: "unat b \<le> 2 ^ 64 - 1" by (rule unat_u64_bound)
  show ?thesis
  proof (cases "u64_max - b < a")
    case True
    then have "(2 ^ 64 - 1) - unat b < unat a" by (simp only: word_less_nat_alt diff)
    then have "min (unat a + unat b) (2 ^ 64 - 1) = (2 ^ 64 - 1 :: nat)" by linarith
    with True show ?thesis unfolding saturating_add_def by (simp only: unat_u64_max if_True)
  next
    case False
    then have le: "unat a + unat b \<le> 2 ^ 64 - 1"
      using b by (simp add: word_less_nat_alt diff not_less)
    then have "unat (a + b) = unat a + unat b"
      by (subst unat_add_lem [THEN iffD1]) auto
    with False le show ?thesis unfolding saturating_add_def by (simp add: min_def)
  qed
qed

lemma saturating_add_ge: "a \<le> saturating_add a b"
  using unat_u64_bound [of a] by (simp add: word_le_nat_alt unat_saturating_add)

section \<open>Big-endian integers\<close>

text \<open>
  \<open>be_encode n w\<close> is the value's low \<open>n\<close> bytes, most significant first; \<open>be_decode\<close> is the
  shift-and-or loop that reads them back.
\<close>

fun be_encode :: "nat \<Rightarrow> 'a::len word \<Rightarrow> bytes" where
  "be_encode 0 w = []"
| "be_encode (Suc n) w = be_encode n (drop_bit 8 w) @ [ucast w]"

definition be_decode :: "bytes \<Rightarrow> 'a::len word" where
  "be_decode bs = foldl (\<lambda>v b. push_bit 8 v OR ucast b) 0 bs"

lemma length_be_encode [simp, wire]: "length (be_encode n w) = n"
  by (induction n arbitrary: w) auto

lemma be_decode_snoc: "be_decode (bs @ [b]) = push_bit 8 (be_decode bs) OR ucast b"
  by (simp add: be_decode_def)

lemma be_decode_Nil [simp]: "be_decode [] = 0"
  by (simp add: be_decode_def)

lemma word_join_split: "push_bit 8 (drop_bit 8 w) OR ucast (ucast w :: byte) = w"
  by (rule bit_word_eqI) (auto simp: bit_simps)

lemma be_decode_encode_take: "be_decode (be_encode n w) = take_bit (8 * n) w"
proof (induction n arbitrary: w)
  case 0
  then show ?case by simp
next
  case (Suc n)
  have "push_bit 8 (take_bit (8 * n) (drop_bit 8 w)) OR ucast (ucast w :: byte)
      = take_bit (8 * Suc n) w"
    by (rule bit_word_eqI) (auto simp: bit_simps)
  then show ?case by (simp add: be_decode_snoc Suc)
qed

lemma be_decode_encode:
  fixes w :: "'a::len word"
  assumes "LENGTH('a) \<le> 8 * n"
  shows "be_decode (be_encode n w) = w"
  using assms by (simp add: be_decode_encode_take take_bit_word_eq_self)

lemma bit_be_decode_bound: "bit (be_decode bs :: 'a::len word) i \<Longrightarrow> i < 8 * length bs"
proof (induction bs arbitrary: i rule: rev_induct)
  case Nil
  then show ?case by simp
next
  case (snoc b bs)
  show ?case
  proof (cases "i < 8")
    case True
    then show ?thesis by simp
  next
    case False
    with snoc.prems have "bit (be_decode bs :: 'a word) (i - 8)"
      by (auto simp: be_decode_snoc bit_simps dest: bit_imp_le_length)
    from snoc.IH [OF this] show ?thesis by simp
  qed
qed

lemma be_encode_decode:
  fixes bs :: bytes
  assumes "8 * length bs \<le> LENGTH('a::len)"
  shows "be_encode (length bs) (be_decode bs :: 'a word) = bs"
  using assms
proof (induction bs rule: rev_induct)
  case Nil
  then show ?case by simp
next
  case (snoc b bs)
  let ?v = "be_decode bs :: 'a word"
  have low: "ucast (push_bit 8 ?v OR ucast b) = b"
    using snoc.prems by (intro bit_word_eqI) (auto simp: bit_simps)
  have high: "drop_bit 8 (push_bit 8 ?v OR ucast b) = ?v"
    using snoc.prems
    by (intro bit_word_eqI) (auto simp: bit_simps dest: bit_be_decode_bound bit_imp_le_length)
  have "be_encode (length bs) ?v = bs" using snoc by simp
  then show ?case by (simp only: be_decode_snoc length_append_singleton be_encode.simps low high)
qed

lemma be_encode_inj:
  fixes v w :: "'a::len word"
  assumes "be_encode n v = be_encode n w" "LENGTH('a) \<le> 8 * n"
  shows "v = w"
  using assms by (metis be_decode_encode)

section \<open>List operations of the standard algorithms\<close>

text \<open>\<open>erase_first P xs\<close>: \<^verbatim>\<open>find_if\<close>, then \<^verbatim>\<open>erase\<close> at the iterator found.\<close>

fun erase_first :: "('a \<Rightarrow> bool) \<Rightarrow> 'a list \<Rightarrow> 'a list" where
  "erase_first P [] = []"
| "erase_first P (x # xs) = (if P x then xs else x # erase_first P xs)"

lemma set_erase_first_subset: "set (erase_first P xs) \<subseteq> set xs"
  by (induction xs) auto

lemma erase_first_in: "x \<in> set (erase_first P xs) \<Longrightarrow> x \<in> set xs"
  by (rule subsetD [OF set_erase_first_subset])

lemma length_erase_first:
  "\<exists>x \<in> set xs. P x \<Longrightarrow> length (erase_first P xs) = length xs - 1"
proof (induction xs)
  case (Cons x xs)
  show ?case
  proof (cases "P x")
    case False
    with Cons have "length (erase_first P xs) = length xs - 1" "xs \<noteq> []" by auto
    with False show ?thesis by (cases xs) simp_all
  qed simp
qed simp

lemma length_erase_first_le: "length (erase_first P xs) \<le> length xs"
  by (induction xs) auto

lemma distinct_map_erase_first: "distinct (map f xs) \<Longrightarrow> distinct (map f (erase_first P xs))"
  by (induction xs) (auto dest: erase_first_in)

lemma sorted_wrt_erase_first: "sorted_wrt R xs \<Longrightarrow> sorted_wrt R (erase_first P xs)"
  by (induction xs) (auto dest: erase_first_in)

lemma find_Some_set: "List.find P xs = Some x \<Longrightarrow> x \<in> set xs \<and> P x"
  by (auto simp: find_Some_iff)

lemma find_None_set: "List.find P xs = None \<longleftrightarrow> (\<forall>x \<in> set xs. \<not> P x)"
  by (auto simp: find_None_iff)

lemma erase_first_none: "\<forall>x \<in> set xs. \<not> P x \<Longrightarrow> erase_first P xs = xs"
  by (induction xs) auto

lemma set_erase_first_keep: "x \<in> set xs \<Longrightarrow> \<not> P x \<Longrightarrow> x \<in> set (erase_first P xs)"
  by (induction xs) auto

lemma filter_erase_first_le: "length (filter Q (erase_first P xs)) \<le> length (filter Q xs)"
  by (induction xs) auto

lemma filter_erase_first_disj:
  "(\<And>x. P x \<Longrightarrow> \<not> Q x) \<Longrightarrow> filter Q (erase_first P xs) = filter Q xs"
  by (induction xs) auto

text \<open>\<open>find_index P xs\<close>: the position \<^verbatim>\<open>find_if\<close> returns, the length when there is none.\<close>

fun find_index :: "('a \<Rightarrow> bool) \<Rightarrow> 'a list \<Rightarrow> nat" where
  "find_index P [] = 0"
| "find_index P (x # xs) = (if P x then 0 else Suc (find_index P xs))"

lemma find_index_le: "find_index P xs \<le> length xs"
  by (induction xs) auto

lemma find_index_found: "find_index P xs < length xs \<Longrightarrow> P (xs ! find_index P xs)"
  by (induction xs) auto

lemma find_index_none: "find_index P xs = length xs \<longleftrightarrow> (\<forall>x \<in> set xs. \<not> P x)"
  by (induction xs) auto

lemma find_index_before: "j < find_index P xs \<Longrightarrow> \<not> P (xs ! j)"
  by (induction xs arbitrary: j) (auto simp: nth_Cons' split: if_splits)

lemma find_index_unique:
  "i < length xs \<Longrightarrow> P (xs ! i) \<Longrightarrow> (\<And>j. j < i \<Longrightarrow> \<not> P (xs ! j)) \<Longrightarrow> find_index P xs = i"
proof (induction xs arbitrary: i)
  case (Cons x xs)
  show ?case
  proof (cases i)
    case 0
    with Cons.prems show ?thesis by simp
  next
    case (Suc k)
    have "\<not> P x" using Cons.prems(3) [of 0] Suc by simp
    moreover have "find_index P xs = k"
    proof (rule Cons.IH)
      show "k < length xs" "P (xs ! k)" using Cons.prems(1,2) Suc by simp_all
      show "\<not> P (xs ! j)" if "j < k" for j using Cons.prems(3) [of "Suc j"] Suc that by simp
    qed
    ultimately show ?thesis using Suc by simp
  qed
qed simp

text \<open>\<open>copy_at off src dst\<close>: \<^verbatim>\<open>std::copy\<close> of a range into a buffer at an offset.\<close>

definition copy_at :: "nat \<Rightarrow> 'a list \<Rightarrow> 'a list \<Rightarrow> 'a list" where
  "copy_at off src dst = take off dst @ src @ drop (off + length src) dst"

lemma length_copy_at [simp]:
  "off + length src \<le> length dst \<Longrightarrow> length (copy_at off src dst) = length dst"
  by (simp add: copy_at_def)

lemma nth_copy_at:
  assumes "off + length src \<le> length dst" "i < length dst"
  shows "copy_at off src dst ! i =
    (if off \<le> i \<and> i < off + length src then src ! (i - off) else dst ! i)"
  using assms by (auto simp: copy_at_def nth_append min_def)

text \<open>\<open>slice off n xs\<close>: the range \<^verbatim>\<open>[begin + off, begin + off + n)\<close>.\<close>

definition slice :: "nat \<Rightarrow> nat \<Rightarrow> 'a list \<Rightarrow> 'a list" where
  "slice off n xs = take n (drop off xs)"

lemma length_slice [simp]: "off + n \<le> length xs \<Longrightarrow> length (slice off n xs) = n"
  by (simp add: slice_def)

lemma nth_slice: "off + n \<le> length xs \<Longrightarrow> i < n \<Longrightarrow> slice off n xs ! i = xs ! (off + i)"
  by (simp add: slice_def)

lemma slice_append_drop: "slice off n xs @ slice (off + n) m xs = slice off (n + m) xs"
  by (simp add: slice_def take_add drop_drop add.commute [of n off])

lemma slice_copy_at_same:
  "off + length src \<le> length dst \<Longrightarrow> slice off (length src) (copy_at off src dst) = src"
  by (simp add: slice_def copy_at_def)

lemma slice_copy_at_disjoint:
  assumes "off + length src \<le> length dst" "o' + n \<le> off \<or> off + length src \<le> o'"
    "o' + n \<le> length dst"
  shows "slice o' n (copy_at off src dst) = slice o' n dst"
  using assms by (intro nth_equalityI) (auto simp: nth_slice nth_copy_at)

end
