(* ===== verification/Core_Uuid.thy ===== *)
theory Core_Uuid
  imports Lora_Prelude "HOL-Library.List_Lexorder"
begin

text \<open>
  Model of \<^verbatim>\<open>src/core/uuid.cpp\<close>: 16-byte UUIDs, their text form, version-4 generation, and the typed
  identifiers \<open>InstallId\<close> and \<open>MessageId\<close>. A \<^verbatim>\<open>std::array<uint8_t, 16>\<close> is a byte list of length 16
  (\<open>uuid_wf\<close>). The random port is the outcome of its \<^verbatim>\<open>fill\<close> call: \<open>None\<close> when it returns false, else
  the bytes it wrote.
\<close>

section \<open>UUIDs\<close>

type_synonym uuid = bytes

definition uuid_wf :: "uuid \<Rightarrow> bool" where
  "uuid_wf u \<longleftrightarrow> length u = 16"

text \<open>\<open>None\<close> is the C++ return value -1.\<close>

definition hex_value :: "byte \<Rightarrow> byte option" where
  "hex_value value =
     (if 0x30 \<le> value \<and> value \<le> 0x39 then Some (value - 0x30)
      else if 0x61 \<le> value \<and> value \<le> 0x66 then Some (value - 0x61 + 10)
      else if 0x41 \<le> value \<and> value \<le> 0x46 then Some (value - 0x41 + 10)
      else None)"

definition dash_index :: "nat \<Rightarrow> bool" where
  "dash_index index \<longleftrightarrow> index = 8 \<or> index = 13 \<or> index = 18 \<or> index = 23"

text \<open>The parsing loop: the characters left, the index, the nibble index and the array so far.\<close>

fun uuid_parse_loop :: "bytes \<Rightarrow> nat \<Rightarrow> nat \<Rightarrow> uuid \<Rightarrow> (nat \<times> uuid) option" where
  "uuid_parse_loop [] index nibble_index out = Some (nibble_index, out)"
| "uuid_parse_loop (c # cs) index nibble_index out =
     (if dash_index index then uuid_parse_loop cs (Suc index) nibble_index out
      else (case hex_value c of None \<Rightarrow> None
            | Some nibble \<Rightarrow>
                let byte_index = nibble_index div 2;
                    out' = (if nibble_index mod 2 = 0 then out[byte_index := push_bit 4 nibble]
                            else out[byte_index := (out ! byte_index) OR nibble])
                in uuid_parse_loop cs (Suc index) (Suc nibble_index) out'))"

definition uuid_parse :: "bytes \<Rightarrow> uuid option" where
  "uuid_parse value =
     (if length value \<noteq> 36 \<or> value ! 8 \<noteq> 0x2d \<or> value ! 13 \<noteq> 0x2d \<or> value ! 18 \<noteq> 0x2d \<or>
         value ! 23 \<noteq> 0x2d then None
      else (case uuid_parse_loop value 0 0 (replicate 16 0) of None \<Rightarrow> None
            | Some (nibble_index, out) \<Rightarrow> if nibble_index \<noteq> 32 then None else Some out))"

definition uuid_generate_v4 :: "bytes option \<Rightarrow> uuid option" where
  "uuid_generate_v4 fill =
     map_option (\<lambda>bs. bs[6 := (bs ! 6 AND 0x0f) OR 0x40, 8 := (bs ! 8 AND 0x3f) OR 0x80]) fill"

definition hex_digit :: "byte \<Rightarrow> byte" where
  "hex_digit n = (if n < 10 then 0x30 + n else 0x61 + (n - 10))"

fun uuid_to_string_loop :: "bytes \<Rightarrow> nat \<Rightarrow> bytes" where
  "uuid_to_string_loop [] index = []"
| "uuid_to_string_loop (b # bs) index =
     (if index = 4 \<or> index = 6 \<or> index = 8 \<or> index = 10 then [0x2d] else []) @
     [hex_digit (drop_bit 4 b AND 0x0f), hex_digit (b AND 0x0f)] @ uuid_to_string_loop bs (Suc index)"

definition uuid_to_string :: "uuid \<Rightarrow> bytes" where
  "uuid_to_string u = uuid_to_string_loop u 0"

definition uuid_is_nil :: "uuid \<Rightarrow> bool" where
  "uuid_is_nil u \<longleftrightarrow> list_all (\<lambda>b. b = 0) u"

definition uuid_is_v4 :: "uuid \<Rightarrow> bool" where
  "uuid_is_v4 u \<longleftrightarrow> \<not> uuid_is_nil u \<and> u ! 6 AND 0xf0 = 0x40 \<and> u ! 8 AND 0xc0 = 0x80"

definition uuid_hash :: "uuid \<Rightarrow> u64" where
  "uuid_hash u = fold (\<lambda>b h. (h XOR ucast b) * 1099511628211) u 14695981039346656037"

section \<open>Typed identifiers\<close>

datatype id_error = InvalidUuidV4 | RandomUnavailableId
datatype install_id = InstallId (install_uuid: uuid)
datatype message_id = MessageId (message_uuid: uuid)

definition install_id_from_uuid :: "uuid \<Rightarrow> (install_id, id_error) result" where
  "install_id_from_uuid value =
     (if \<not> uuid_is_v4 value then Inl InvalidUuidV4 else Inr (InstallId value))"

definition install_id_generate :: "bytes option \<Rightarrow> (install_id, id_error) result" where
  "install_id_generate fill =
     (case uuid_generate_v4 fill of None \<Rightarrow> Inl RandomUnavailableId
      | Some value \<Rightarrow> install_id_from_uuid value)"

definition message_id_from_uuid :: "uuid \<Rightarrow> (message_id, id_error) result" where
  "message_id_from_uuid value =
     (if \<not> uuid_is_v4 value then Inl InvalidUuidV4 else Inr (MessageId value))"

definition message_id_generate :: "bytes option \<Rightarrow> (message_id, id_error) result" where
  "message_id_generate fill =
     (case uuid_generate_v4 fill of None \<Rightarrow> Inl RandomUnavailableId
      | Some value \<Rightarrow> message_id_from_uuid value)"

text \<open>\<^verbatim>\<open>operator<\<close> on identifiers is the lexicographic order of the byte arrays, and the order of their types.\<close>

definition message_id_less :: "message_id \<Rightarrow> message_id \<Rightarrow> bool" where
  "message_id_less a b \<longleftrightarrow> message_uuid a < message_uuid b"

definition install_id_less :: "install_id \<Rightarrow> install_id \<Rightarrow> bool" where
  "install_id_less a b \<longleftrightarrow> install_uuid a < install_uuid b"

instantiation message_id :: linorder
begin

definition less_message_id :: "message_id \<Rightarrow> message_id \<Rightarrow> bool" where
  "less_message_id a b \<longleftrightarrow> message_id_less a b"

definition less_eq_message_id :: "message_id \<Rightarrow> message_id \<Rightarrow> bool" where
  "less_eq_message_id a b \<longleftrightarrow> message_uuid a \<le> message_uuid b"

instance
  by standard (auto simp: less_message_id_def message_id_less_def less_eq_message_id_def message_id.expand)

end

instantiation install_id :: linorder
begin

definition less_install_id :: "install_id \<Rightarrow> install_id \<Rightarrow> bool" where
  "less_install_id a b \<longleftrightarrow> install_id_less a b"

definition less_eq_install_id :: "install_id \<Rightarrow> install_id \<Rightarrow> bool" where
  "less_eq_install_id a b \<longleftrightarrow> install_uuid a \<le> install_uuid b"

instance
  by standard (auto simp: less_install_id_def install_id_less_def less_eq_install_id_def install_id.expand)

end

definition uuid_ok :: "uuid \<Rightarrow> bool" where
  "uuid_ok u \<longleftrightarrow> uuid_wf u \<and> uuid_is_v4 u"

section \<open>Lemmas\<close>

lemma install_id_from_uuid_Inr [simp]:
  "install_id_from_uuid u = Inr i \<longleftrightarrow> i = InstallId u \<and> uuid_is_v4 u"
  by (auto simp: install_id_from_uuid_def)

lemma message_id_from_uuid_Inr [simp]:
  "message_id_from_uuid u = Inr m \<longleftrightarrow> m = MessageId u \<and> uuid_is_v4 u"
  by (auto simp: message_id_from_uuid_def)

lemma install_id_from_uuid_v4 [simp]: "uuid_is_v4 u \<Longrightarrow> install_id_from_uuid u = Inr (InstallId u)"
  by (simp add: install_id_from_uuid_def)

lemma message_id_from_uuid_v4 [simp]: "uuid_is_v4 u \<Longrightarrow> message_id_from_uuid u = Inr (MessageId u)"
  by (simp add: message_id_from_uuid_def)

lemma byte_bits_cases: "n < LENGTH(8) \<Longrightarrow> n \<in> {0, 1, 2, 3, 4, 5, 6, 7}"
  by auto

lemma version_bits: "((b :: byte) AND 0x0f OR 0x40) AND 0xf0 = 0x40"
  by (rule bit_word_eqI, drule byte_bits_cases) (auto simp: bit_simps)

lemma variant_bits: "((b :: byte) AND 0x3f OR 0x80) AND 0xc0 = 0x80"
  by (rule bit_word_eqI, drule byte_bits_cases) (auto simp: bit_simps)

lemma generate_v4_ok:
  assumes "length bs = 16"
  shows "\<exists>u. uuid_generate_v4 (Some bs) = Some u \<and> uuid_ok u"
proof -
  define u where "u = bs[6 := (bs ! 6 AND 0x0f) OR 0x40, 8 := (bs ! 8 AND 0x3f) OR 0x80]"
  have l: "length u = 16" and u6: "u ! 6 AND 0xf0 = 0x40" and u8: "u ! 8 AND 0xc0 = 0x80"
    using assms by (simp_all add: u_def version_bits variant_bits)
  have "u ! 6 \<noteq> 0" using u6 by auto
  moreover have "u ! 6 \<in> set u" using l by (intro nth_mem) simp
  ultimately have "\<not> uuid_is_nil u" by (auto simp: uuid_is_nil_def list_all_iff)
  then have "uuid_ok u" using l u6 u8 by (simp add: uuid_ok_def uuid_wf_def uuid_is_v4_def)
  then show ?thesis by (auto simp: uuid_generate_v4_def u_def)
qed

lemma generate_ids_succeed:
  assumes "length bs = 16"
  shows "\<exists>u. uuid_ok u \<and> message_id_generate (Some bs) = Inr (MessageId u)
    \<and> install_id_generate (Some bs) = Inr (InstallId u)"
  using generate_v4_ok [OF assms]
  by (auto simp: message_id_generate_def install_id_generate_def uuid_ok_def)

lemma generate_ids_fail [simp]:
  "message_id_generate None = Inl RandomUnavailableId"
  "install_id_generate None = Inl RandomUnavailableId"
  by (simp_all add: message_id_generate_def install_id_generate_def uuid_generate_v4_def)

section \<open>Text form\<close>

lemma nibble_bound: "unat ((b :: byte) AND 0x0f) < 16"
proof -
  have "unat (b AND 0x0f) \<le> unat (0x0f :: byte)"
    by (rule word_and_le1 [THEN word_le_nat_alt [THEN iffD1]])
  then show ?thesis by simp
qed

lemma hex_value_digit:
  assumes "unat n < 16"
  shows "hex_value (hex_digit n) = Some n"
proof -
  from assms have "unat n \<in> {0, 1, 2, 3, 4, 5, 6, 7, 8, 9, 10, 11, 12, 13, 14, 15}"
    by (rule less_16_cases)
  then have "n \<in> {0, 1, 2, 3, 4, 5, 6, 7, 8, 9, 10, 11, 12, 13, 14, 15}"
    by (simp add: word_unat_eq_iff)
  then show ?thesis by (elim insertE emptyE) (simp_all add: hex_value_def hex_digit_def)
qed

definition hi_nibble :: "byte \<Rightarrow> byte" where "hi_nibble b = drop_bit 4 b AND 0x0f"
definition lo_nibble :: "byte \<Rightarrow> byte" where "lo_nibble b = b AND 0x0f"

lemma hex_value_nibbles [simp]:
  "hex_value (hex_digit (hi_nibble b)) = Some (hi_nibble b)"
  "hex_value (hex_digit (lo_nibble b)) = Some (lo_nibble b)"
  by (simp_all add: hi_nibble_def lo_nibble_def hex_value_digit nibble_bound)

lemma join_nibbles [simp]: "push_bit 4 (hi_nibble b) OR lo_nibble b = b"
  unfolding hi_nibble_def lo_nibble_def
  by (rule bit_word_eqI, drule byte_bits_cases) (auto simp: bit_simps)

lemma uuid_to_string_loop_nibbles:
  "uuid_to_string_loop (b # bs) i =
     (if i = 4 \<or> i = 6 \<or> i = 8 \<or> i = 10 then [0x2d] else []) @
     [hex_digit (hi_nibble b), hex_digit (lo_nibble b)] @ uuid_to_string_loop bs (Suc i)"
  by (simp add: hi_nibble_def lo_nibble_def)

text \<open>The text index at which byte \<open>k\<close> starts, before a possible dash.\<close>

definition text_index :: "nat \<Rightarrow> nat" where
  "text_index k = 2 * k + of_bool (4 < k) + of_bool (6 < k) + of_bool (8 < k) + of_bool (10 < k)"

lemma parse_loop_pair:
  assumes "\<not> dash_index i" "\<not> dash_index (Suc i)" "k < length out"
  shows "uuid_parse_loop (hex_digit (hi_nibble b) # hex_digit (lo_nibble b) # cs) i (2 * k) out =
    uuid_parse_loop cs (Suc (Suc i)) (2 * Suc k) (out[k := b])"
  using assms by (simp add: Let_def)

lemma text_index_step:
  assumes "k < 16"
  defines "i \<equiv> text_index k" and "d \<equiv> of_bool (k = 4 \<or> k = 6 \<or> k = 8 \<or> k = 10)"
  shows "dash_index i \<longleftrightarrow> k = 4 \<or> k = 6 \<or> k = 8 \<or> k = 10"
    "\<not> dash_index (i + d)" "\<not> dash_index (Suc (i + d))" "Suc (Suc (i + d)) = text_index (Suc k)"
proof -
  from assms(1) have "k \<in> {0, 1, 2, 3, 4, 5, 6, 7, 8, 9, 10, 11, 12, 13, 14, 15}"
    by (rule less_16_cases)
  then show "dash_index i \<longleftrightarrow> k = 4 \<or> k = 6 \<or> k = 8 \<or> k = 10"
    "\<not> dash_index (i + d)" "\<not> dash_index (Suc (i + d))" "Suc (Suc (i + d)) = text_index (Suc k)"
    by (auto simp: i_def d_def text_index_def dash_index_def)
qed

lemma parse_loop_to_string:
  "k + length bs = 16 \<Longrightarrow> length out = 16 \<Longrightarrow>
   uuid_parse_loop (uuid_to_string_loop bs k) (text_index k) (2 * k) out = Some (32, take k out @ bs)"
proof (induction bs arbitrary: k out)
  case Nil
  then show ?case by simp
next
  case (Cons b bs)
  define dash where "dash \<longleftrightarrow> k = 4 \<or> k = 6 \<or> k = 8 \<or> k = 10"
  have k: "k < 16" using Cons.prems by simp
  note idx = text_index_step [OF k, folded dash_def]
  let ?pair = "hex_digit (hi_nibble b) # hex_digit (lo_nibble b) # uuid_to_string_loop bs (Suc k)"
  have "uuid_parse_loop (uuid_to_string_loop (b # bs) k) (text_index k) (2 * k) out =
      uuid_parse_loop ?pair (text_index k + of_bool dash) (2 * k) out"
    using idx(1) by (cases dash)
      (simp_all add: uuid_to_string_loop_nibbles dash_def del: uuid_to_string_loop.simps(2))
  also have "\<dots> = uuid_parse_loop (uuid_to_string_loop bs (Suc k)) (text_index (Suc k)) (2 * Suc k)
      (out[k := b])"
    by (subst parse_loop_pair) (use idx k Cons.prems in simp_all)
  also have "\<dots> = Some (32, take (Suc k) (out[k := b]) @ bs)"
    using Cons.prems by (intro Cons.IH) simp_all
  finally show ?case using Cons.prems by (simp add: take_Suc_conv_app_nth)
qed

lemma uuid_to_string_dashes:
  assumes "uuid_wf u"
  shows "length (uuid_to_string u) = 36" "uuid_to_string u ! 8 = 0x2d" "uuid_to_string u ! 13 = 0x2d"
    "uuid_to_string u ! 18 = 0x2d" "uuid_to_string u ! 23 = 0x2d"
  using assms unfolding uuid_to_string_def uuid_wf_def
  by (auto simp: numeral_eq_Suc length_Suc_conv)

section \<open>Properties\<close>

text \<open>parsing the canonical text form of a 16-byte UUID returns the UUID.\<close>

theorem uuid_text_roundtrip:
  assumes "uuid_wf u"
  shows "uuid_parse (uuid_to_string u) = Some u"
proof -
  have "uuid_parse_loop (uuid_to_string u) 0 0 (replicate 16 0) = Some (32, u)"
    using parse_loop_to_string [of 0 u "replicate 16 0"] assms
    by (simp add: uuid_to_string_def uuid_wf_def text_index_def)
  then show ?thesis using uuid_to_string_dashes [OF assms] by (simp add: uuid_parse_def)
qed

theorem uuid_text_roundtrip_witness:
  "uuid_wf (replicate 16 0xa7) \<and>
   uuid_parse (uuid_to_string (replicate 16 0xa7)) = Some (replicate 16 0xa7)"
  using uuid_text_roundtrip [of "replicate 16 0xa7"] by (simp add: uuid_wf_def)

end
