(* ===== verification/Core_Text.thy ===== *)
theory Core_Text
  imports Lora_Prelude
begin

text \<open>
  Model of \<^verbatim>\<open>src/core/text.cpp\<close>: the strict UTF-8 scanner \<open>visit_utf8\<close>, the scalar classes, the
  validator \<open>validate_text\<close> behind \<open>UserId::create\<close> and \<open>PostBody::create\<close>, and the encoder
  \<open>encode_utf8\<close> of \<^verbatim>\<open>src/viewmodel/text_editor.cpp\<close>, which serves as the reference: the scanner
  accepts exactly the concatenations of encoded Unicode scalar values, and reads them back.
\<close>

section \<open>Definitions\<close>

datatype text_error = EmptyText | TooLong | InvalidUtf8 | ForbiddenCharacter | EdgeWhitespace

text \<open>The branch on the lead byte: the initial code point bits and the sequence length.\<close>

definition utf8_lead :: "byte \<Rightarrow> (u32 \<times> nat) option" where
  "utf8_lead first =
     (if first \<le> 0x7f then Some (ucast first, 1)
      else if 0xc2 \<le> first \<and> first \<le> 0xdf then Some (ucast first AND 0x1f, 2)
      else if 0xe0 \<le> first \<and> first \<le> 0xef then Some (ucast first AND 0x0f, 3)
      else if 0xf0 \<le> first \<and> first \<le> 0xf4 then Some (ucast first AND 0x07, 4)
      else None)"

text \<open>The inner loop over the continuation bytes.\<close>

fun utf8_continue :: "bytes \<Rightarrow> u32 \<Rightarrow> u32 option" where
  "utf8_continue [] codepoint = Some codepoint"
| "utf8_continue (continuation # rest) codepoint =
     (if continuation AND 0xc0 \<noteq> 0x80 then None
      else utf8_continue rest (push_bit 6 codepoint OR (ucast continuation AND 0x3f)))"

text \<open>The checks for overlong forms, surrogates and values above the Unicode range.\<close>

definition utf8_ill_formed :: "nat \<Rightarrow> u32 \<Rightarrow> bool" where
  "utf8_ill_formed count codepoint \<longleftrightarrow>
     (count = 2 \<and> codepoint < 0x80) \<or> (count = 3 \<and> codepoint < 0x800) \<or>
     (count = 4 \<and> codepoint < 0x10000) \<or>
     (0xd800 \<le> codepoint \<and> codepoint \<le> 0xdfff) \<or> 0x10ffff < codepoint"

text \<open>One iteration of the outer loop at the current index: the code point and its length.\<close>

definition utf8_step :: "bytes \<Rightarrow> (u32 \<times> nat) option" where
  "utf8_step value =
     (case utf8_lead (value ! 0) of None \<Rightarrow> None
      | Some (lead, count) \<Rightarrow>
          if count > length value then None
          else (case utf8_continue (slice 1 (count - 1) value) lead of None \<Rightarrow> None
                | Some codepoint \<Rightarrow>
                    if utf8_ill_formed count codepoint then None else Some (codepoint, count)))"

lemma utf8_lead_count: "utf8_lead b = Some (l, n) \<Longrightarrow> 0 < n"
  by (auto simp: utf8_lead_def split: if_splits)

lemma utf8_step_count: "utf8_step v = Some (cp, n) \<Longrightarrow> 0 < n \<and> n \<le> length v"
  by (auto simp: utf8_step_def dest: utf8_lead_count split: option.splits if_splits prod.splits)

text \<open>
  The loop, with the lambda's captured variables as the state \<open>s\<close>; the flag is the C++ return
  value. The index into the string is the suffix still to read.
\<close>

function visit_utf8 :: "(u32 \<Rightarrow> 's \<Rightarrow> 's) \<Rightarrow> bytes \<Rightarrow> 's \<Rightarrow> bool \<times> 's" where
  "visit_utf8 visitor value s =
     (if value = [] then (True, s)
      else (case utf8_step value of None \<Rightarrow> (False, s)
            | Some (codepoint, count) \<Rightarrow>
                visit_utf8 visitor (drop count value) (visitor codepoint s)))"
  by pat_completeness auto
termination
  by (relation "measure (\<lambda>(f, v, s). length v)") (auto dest: utf8_step_count)

declare visit_utf8.simps [simp del]

definition is_whitespace :: "u32 \<Rightarrow> bool" where
  "is_whitespace codepoint \<longleftrightarrow>
     codepoint \<in> {0x0009, 0x000a, 0x000b, 0x000c, 0x000d, 0x0020, 0x0085, 0x00a0, 0x1680,
       0x2000, 0x2001, 0x2002, 0x2003, 0x2004, 0x2005, 0x2006, 0x2007, 0x2008, 0x2009, 0x200a,
       0x2028, 0x2029, 0x202f, 0x205f, 0x3000}"

definition is_bidi_format :: "u32 \<Rightarrow> bool" where
  "is_bidi_format codepoint \<longleftrightarrow>
     codepoint = 0x061c \<or> codepoint = 0x200e \<or> codepoint = 0x200f \<or>
     (0x202a \<le> codepoint \<and> codepoint \<le> 0x202e) \<or>
     (0x2066 \<le> codepoint \<and> codepoint \<le> 0x2069)"

definition is_unicode_line_separator :: "u32 \<Rightarrow> bool" where
  "is_unicode_line_separator codepoint \<longleftrightarrow> codepoint = 0x2028 \<or> codepoint = 0x2029"

definition is_noncharacter :: "u32 \<Rightarrow> bool" where
  "is_noncharacter codepoint \<longleftrightarrow>
     (0xfdd0 \<le> codepoint \<and> codepoint \<le> 0xfdef) \<or>
     codepoint AND 0xffff = 0xfffe \<or> codepoint AND 0xffff = 0xffff"

definition is_control :: "u32 \<Rightarrow> bool" where
  "is_control codepoint \<longleftrightarrow> codepoint \<le> 0x1f \<or> (0x7f \<le> codepoint \<and> codepoint \<le> 0x9f)"

text \<open>The variables the visitor of \<open>validate_text\<close> captures by reference.\<close>

record text_scan =
  forbidden :: bool
  has_non_whitespace :: bool
  has_codepoint :: bool
  first_codepoint :: u32
  last_codepoint :: u32

definition initial_scan :: text_scan where
  "initial_scan = \<lparr>forbidden = False, has_non_whitespace = False, has_codepoint = False,
     first_codepoint = 0, last_codepoint = 0\<rparr>"

definition forbidden_codepoint :: "bool \<Rightarrow> u32 \<Rightarrow> bool" where
  "forbidden_codepoint user_id codepoint \<longleftrightarrow>
     (let allowed_line_feed = (\<not> user_id \<and> codepoint = 0x000a)
      in (is_control codepoint \<and> \<not> allowed_line_feed) \<or> is_unicode_line_separator codepoint \<or>
         is_bidi_format codepoint \<or> is_noncharacter codepoint)"

definition scan_codepoint :: "bool \<Rightarrow> u32 \<Rightarrow> text_scan \<Rightarrow> text_scan" where
  "scan_codepoint user_id codepoint s =
     (let s1 = (if \<not> has_codepoint s
                then s\<lparr>first_codepoint := codepoint, has_codepoint := True\<rparr> else s);
          s2 = s1\<lparr>last_codepoint := codepoint,
                 has_non_whitespace := has_non_whitespace s1 \<or> \<not> is_whitespace codepoint\<rparr>
      in if forbidden_codepoint user_id codepoint then s2\<lparr>forbidden := True\<rparr> else s2)"

text \<open>\<open>None\<close> stands for \<^verbatim>\<open>TextError::None\<close>.\<close>

definition validate_text :: "bytes \<Rightarrow> nat \<Rightarrow> bool \<Rightarrow> text_error option" where
  "validate_text value maximum_bytes user_id =
     (if value = [] then Some EmptyText
      else if length value > maximum_bytes then Some TooLong
      else (let (valid, s) = visit_utf8 (scan_codepoint user_id) value initial_scan
            in if \<not> valid then Some InvalidUtf8
               else if forbidden s then Some ForbiddenCharacter
               else if \<not> has_non_whitespace s then Some EmptyText
               else if user_id \<and> (is_whitespace (first_codepoint s) \<or>
                                  is_whitespace (last_codepoint s)) then Some EdgeWhitespace
               else None))"

definition is_valid_utf8 :: "bytes \<Rightarrow> bool" where
  "is_valid_utf8 value = fst (visit_utf8 (\<lambda>_ s. s) value ())"

datatype user_id = UserId (user_id_value: bytes)
datatype post_body = PostBody (post_body_value: bytes)

definition user_id_create :: "bytes \<Rightarrow> (user_id, text_error) result" where
  "user_id_create value =
     (case validate_text value kMaxUserIdBytes True of
        Some error \<Rightarrow> Inl error | None \<Rightarrow> Inr (UserId value))"

definition post_body_create :: "bytes \<Rightarrow> (post_body, text_error) result" where
  "post_body_create value =
     (case validate_text value kMaxPostBodyBytes False of
        Some error \<Rightarrow> Inl error | None \<Rightarrow> Inr (PostBody value))"

text \<open>The editor's encoder; the empty list is its return value 0, "no encoding".\<close>

definition encode_utf8 :: "u32 \<Rightarrow> bytes" where
  "encode_utf8 codepoint =
     (if codepoint \<le> 0x7f then [ucast codepoint]
      else if codepoint \<le> 0x7ff then
        [ucast (0xc0 OR drop_bit 6 codepoint), ucast (0x80 OR (codepoint AND 0x3f))]
      else if 0xd800 \<le> codepoint \<and> codepoint \<le> 0xdfff then []
      else if codepoint \<le> 0xffff then
        [ucast (0xe0 OR drop_bit 12 codepoint),
         ucast (0x80 OR (drop_bit 6 codepoint AND 0x3f)),
         ucast (0x80 OR (codepoint AND 0x3f))]
      else if codepoint \<le> 0x10ffff then
        [ucast (0xf0 OR drop_bit 18 codepoint),
         ucast (0x80 OR (drop_bit 12 codepoint AND 0x3f)),
         ucast (0x80 OR (drop_bit 6 codepoint AND 0x3f)),
         ucast (0x80 OR (codepoint AND 0x3f))]
      else [])"

text \<open>The Unicode scalar values.\<close>

definition is_scalar :: "u32 \<Rightarrow> bool" where
  "is_scalar cp \<longleftrightarrow> cp \<le> 0x10ffff \<and> \<not> (0xd800 \<le> cp \<and> cp \<le> 0xdfff)"

section \<open>Byte classes as arithmetic\<close>

lemma and_masks:
  fixes w :: u32
  shows "w AND 0x3f = take_bit 6 w" "w AND 0x1f = take_bit 5 w" "w AND 0x0f = take_bit 4 w"
    "w AND 0x07 = take_bit 3 w"
  by (simp_all add: take_bit_eq_mask mask_eq_exp_minus_1)

lemma is_continuation_iff: "(c :: byte) AND 0xc0 = 0x80 \<longleftrightarrow> 128 \<le> unat c \<and> unat c < 192"
proof -
  have "c AND 0xc0 = push_bit 6 (drop_bit 6 c)"
  proof (rule bit_word_eqI)
    fix n assume "n < LENGTH(8)"
    then have "n \<in> {0,1,2,3,4,5,6,7}" by auto
    then show "bit (c AND 0xc0) n = bit (push_bit 6 (drop_bit 6 c)) n"
      by (auto simp: bit_simps)
  qed
  then have "unat (c AND 0xc0) = (unat c div 2 ^ 6 * 2 ^ 6) mod 2 ^ LENGTH(8)"
    by (simp only: unat_bits)
  moreover have "c AND 0xc0 = 0x80 \<longleftrightarrow> unat (c AND 0xc0) = 128"
    by (simp add: word_unat_eq_iff)
  moreover have "unat c div 64 * 64 < 256" using unat_byte_bound [of c] by linarith
  ultimately have "c AND 0xc0 = 0x80 \<longleftrightarrow> unat c div 64 = 2" by simp
  also have "\<dots> \<longleftrightarrow> 128 \<le> unat c \<and> unat c < 192" by linarith
  finally show ?thesis .
qed

lemma unat_continuation_join:
  fixes cp :: u32 and c :: byte
  assumes "unat cp < 2 ^ 20"
  shows "unat (push_bit 6 cp OR (ucast c AND 0x3f)) = 64 * unat cp + unat c mod 64"
proof -
  have p: "unat (push_bit 6 cp) = 64 * unat cp"
    unfolding unat_bits using assms by simp
  have c: "unat (take_bit 6 (ucast c :: u32)) = unat c mod 64"
    unfolding unat_bits using unat_byte_bound [of c] by simp
  have "take_bit 6 (push_bit 6 cp) = 0" by (simp add: take_bit_push_bit)
  then show ?thesis unfolding and_masks using assms
    by (subst unat_or_disjoint [of 6]) (simp_all only: p c, simp_all)
qed

lemma unat_tagged_low:
  fixes cp :: u32
  shows "unat (ucast (0x80 OR (cp AND 0x3f)) :: byte) = 128 + unat cp mod 64"
proof -
  have "unat (0x80 OR take_bit 6 cp) = 128 + unat cp mod 64"
    by (subst unat_or_disjoint [of 6]) (simp_all only: unat_take_bit_mod, simp_all)
  then show ?thesis unfolding and_masks unat_ucast_mod by simp
qed

lemma unat_tagged_lead:
  fixes cp tag :: u32
  assumes "take_bit k tag = 0" "unat cp div 2 ^ s < 2 ^ k" "unat tag + 2 ^ k \<le> 256"
  shows "unat (ucast (tag OR drop_bit s cp) :: byte) = unat tag + unat cp div 2 ^ s"
proof -
  have "unat (tag OR drop_bit s cp) = unat tag + unat cp div 2 ^ s"
    using assms by (subst unat_or_disjoint [of k]) (simp_all only: unat_drop_bit_div, simp_all)
  then show ?thesis unfolding unat_ucast_mod using assms by simp
qed

lemma unat_lead_bits:
  fixes b :: byte
  shows "unat (ucast b AND 0x1f :: u32) = unat b mod 32" "unat (ucast b AND 0x0f :: u32) = unat b mod 16"
   "unat (ucast b AND 0x07 :: u32) = unat b mod 8" "unat (ucast b :: u32) = unat b"
  unfolding and_masks unat_bits using unat_byte_bound [of b] by simp_all

section \<open>The scanner against the encoder\<close>

definition is_tail :: "byte \<Rightarrow> bool" where
  "is_tail c \<longleftrightarrow> 128 \<le> unat c \<and> unat c < 192"

lemmas word_order_nat = word_le_nat_alt word_less_nat_alt

definition join_tail :: "u32 \<Rightarrow> byte \<Rightarrow> u32" where
  "join_tail cp c = push_bit 6 cp OR (ucast c AND 0x3f)"

lemma unat_join_tail: "unat cp < 2 ^ 20 \<Longrightarrow> unat (join_tail cp c) = 64 * unat cp + unat c mod 64"
  unfolding join_tail_def by (rule unat_continuation_join)

lemma utf8_continue_Cons_tail:
  "utf8_continue (c # cs) cp = (if is_tail c then utf8_continue cs (join_tail cp c) else None)"
  by (simp add: is_tail_def is_continuation_iff join_tail_def)

declare utf8_continue.simps(2) [simp del]

lemma ill_formed_nat:
  "utf8_ill_formed n cp \<longleftrightarrow>
     (n = 2 \<and> unat cp < 0x80) \<or> (n = 3 \<and> unat cp < 0x800) \<or> (n = 4 \<and> unat cp < 0x10000) \<or>
     (0xd800 \<le> unat cp \<and> unat cp \<le> 0xdfff) \<or> 0x10ffff < unat cp"
  by (simp add: utf8_ill_formed_def word_order_nat)

lemma lead_nat:
  "utf8_lead b =
     (if unat b \<le> 127 then Some (ucast b, 1)
      else if 194 \<le> unat b \<and> unat b \<le> 223 then Some (ucast b AND 0x1f, 2)
      else if 224 \<le> unat b \<and> unat b \<le> 239 then Some (ucast b AND 0x0f, 3)
      else if 240 \<le> unat b \<and> unat b \<le> 244 then Some (ucast b AND 0x07, 4)
      else None)"
  by (simp add: utf8_lead_def word_order_nat)

text \<open>The step on a lead byte of each class, with the sequence laid out.\<close>

lemma utf8_step_on_lead:
  assumes "utf8_lead b = Some (l, Suc n)"
  shows "utf8_step (b # r) =
    (if length r < n then None
     else (case utf8_continue (take n r) l of None \<Rightarrow> None
           | Some cp \<Rightarrow> if utf8_ill_formed (Suc n) cp then None else Some (cp, Suc n)))"
  using assms by (simp add: utf8_step_def slice_def)

lemma step_lead1:
  assumes "unat b < 128"
  shows "utf8_step (b # r) = Some (cp, n) \<longleftrightarrow> n = 1 \<and> unat cp = unat b"
proof -
  have l: "utf8_lead b = Some (ucast b, Suc 0)" using assms by (simp add: lead_nat)
  have "\<not> utf8_ill_formed (Suc 0) (ucast b)"
    unfolding ill_formed_nat unat_lead_bits using assms by simp
  then show ?thesis by (auto simp: utf8_step_on_lead [OF l] word_unat_eq_iff unat_lead_bits)
qed

lemma step_lead2:
  assumes "194 \<le> unat b" "unat b \<le> 223"
  shows "utf8_step (b # c # r) = Some (cp, n) \<longleftrightarrow>
    n = 2 \<and> is_tail c \<and> unat cp = 64 * (unat b mod 32) + unat c mod 64"
proof -
  have l: "utf8_lead b = Some (ucast b AND 0x1f, Suc (Suc 0))" using assms by (simp add: lead_nat)
  define cp2 where "cp2 = join_tail (ucast b AND 0x1f) c"
  have v: "unat cp2 = 64 * (unat b mod 32) + unat c mod 64"
    unfolding cp2_def by (subst unat_join_tail) (simp_all only: unat_lead_bits, simp_all)
  have "unat b = 192 + unat b mod 32" using mod_untag [of 6 32 "unat b"] assms by simp
  then have "2 \<le> unat b mod 32" "unat b mod 32 < 32" "unat c mod 64 < 64" using assms by simp_all
  then have "\<not> utf8_ill_formed (Suc (Suc 0)) cp2" unfolding ill_formed_nat v by linarith
  then have "utf8_step (b # c # r) = (if is_tail c then Some (cp2, 2) else None)"
    by (simp add: utf8_step_on_lead [OF l] utf8_continue_Cons_tail cp2_def)
  then show ?thesis unfolding v [symmetric] by (auto simp: word_unat_eq_iff)
qed

lemma step_lead3:
  assumes "224 \<le> unat b" "unat b \<le> 239"
  shows "utf8_step (b # c # d # r) = Some (cp, n) \<longleftrightarrow>
    n = 3 \<and> is_tail c \<and> is_tail d \<and>
    unat cp = 4096 * (unat b mod 16) + 64 * (unat c mod 64) + unat d mod 64 \<and>
    0x800 \<le> unat cp \<and> \<not> (0xd800 \<le> unat cp \<and> unat cp \<le> 0xdfff)"
proof -
  have l: "utf8_lead b = Some (ucast b AND 0x0f, Suc (Suc (Suc 0)))"
    using assms by (simp add: lead_nat)
  define cp2 where "cp2 = join_tail (ucast b AND 0x0f) c"
  define cp3 where "cp3 = join_tail cp2 d"
  have v2: "unat cp2 = 64 * (unat b mod 16) + unat c mod 64"
    unfolding cp2_def by (subst unat_join_tail) (simp_all only: unat_lead_bits, simp_all)
  have v: "unat cp3 = 4096 * (unat b mod 16) + 64 * (unat c mod 64) + unat d mod 64"
    unfolding cp3_def by (subst unat_join_tail) (simp_all only: v2, simp_all)
  have "unat b mod 16 < 16" "unat c mod 64 < 64" "unat d mod 64 < 64" by simp_all
  then have "unat cp3 \<le> 0x10ffff" unfolding v by linarith
  then have "utf8_ill_formed (Suc (Suc (Suc 0))) cp3 \<longleftrightarrow>
      unat cp3 < 0x800 \<or> (0xd800 \<le> unat cp3 \<and> unat cp3 \<le> 0xdfff)"
    unfolding ill_formed_nat by auto
  then have "utf8_step (b # c # d # r) =
      (if is_tail c \<and> is_tail d \<and> 0x800 \<le> unat cp3 \<and> \<not> (0xd800 \<le> unat cp3 \<and> unat cp3 \<le> 0xdfff)
       then Some (cp3, 3) else None)"
    by (auto simp add: utf8_step_on_lead [OF l] utf8_continue_Cons_tail cp3_def cp2_def)
  then show ?thesis unfolding v [symmetric] by (auto simp: word_unat_eq_iff)
qed

lemma step_lead4:
  assumes "240 \<le> unat b" "unat b \<le> 244"
  shows "utf8_step (b # c # d # e # r) = Some (cp, n) \<longleftrightarrow>
    n = 4 \<and> is_tail c \<and> is_tail d \<and> is_tail e \<and>
    unat cp = 262144 * (unat b mod 8) + 4096 * (unat c mod 64) + 64 * (unat d mod 64) + unat e mod 64 \<and>
    0x10000 \<le> unat cp \<and> unat cp \<le> 0x10ffff"
proof -
  have l: "utf8_lead b = Some (ucast b AND 0x07, Suc (Suc (Suc (Suc 0))))"
    using assms by (simp add: lead_nat)
  define cp2 where "cp2 = join_tail (ucast b AND 0x07) c"
  define cp3 where "cp3 = join_tail cp2 d"
  define cp4 where "cp4 = join_tail cp3 e"
  have v2: "unat cp2 = 64 * (unat b mod 8) + unat c mod 64"
    unfolding cp2_def by (subst unat_join_tail) (simp_all only: unat_lead_bits, simp_all)
  have v3: "unat cp3 = 4096 * (unat b mod 8) + 64 * (unat c mod 64) + unat d mod 64"
    unfolding cp3_def by (subst unat_join_tail) (simp_all only: v2, simp_all)
  have v: "unat cp4 =
      262144 * (unat b mod 8) + 4096 * (unat c mod 64) + 64 * (unat d mod 64) + unat e mod 64"
  proof -
    have "unat b mod 8 < 8" "unat c mod 64 < 64" "unat d mod 64 < 64" by simp_all
    then have "unat cp3 < 2 ^ 20" unfolding v3 using assms by simp
    from unat_join_tail [OF this, of e] show ?thesis unfolding cp4_def v3 by simp
  qed
  have "utf8_ill_formed (Suc (Suc (Suc (Suc 0)))) cp4 \<longleftrightarrow> unat cp4 < 0x10000 \<or> 0x10ffff < unat cp4"
    unfolding ill_formed_nat by auto
  then have "utf8_step (b # c # d # e # r) =
      (if is_tail c \<and> is_tail d \<and> is_tail e \<and> 0x10000 \<le> unat cp4 \<and> unat cp4 \<le> 0x10ffff
       then Some (cp4, 4) else None)"
    by (auto simp add: utf8_step_on_lead [OF l] utf8_continue_Cons_tail cp4_def cp3_def cp2_def)
  then show ?thesis unfolding v [symmetric] by (auto simp: word_unat_eq_iff)
qed

text \<open>The bytes of a scalar value as numbers, from the code point's base-64 digits.\<close>

definition utf8_digits :: "nat \<Rightarrow> nat list" where
  "utf8_digits c =
     (if c < 0x80 then [c]
      else if c < 0x800 then [192 + c div 64, 128 + c mod 64]
      else if c < 0x10000 then [224 + c div 4096, 128 + c div 64 mod 64, 128 + c mod 64]
      else [240 + c div 262144, 128 + c div 4096 mod 64, 128 + c div 64 mod 64, 128 + c mod 64])"

lemma is_scalar_nat:
  "is_scalar cp \<longleftrightarrow> unat cp \<le> 0x10ffff \<and> \<not> (0xd800 \<le> unat cp \<and> unat cp \<le> 0xdfff)"
  by (simp add: is_scalar_def word_order_nat)

lemma unat_tagged_leads:
  fixes cp :: u32
  shows "unat cp < 0x800 \<Longrightarrow> unat (ucast (0xc0 OR drop_bit 6 cp) :: byte) = 192 + unat cp div 64"
    and "unat cp < 0x10000 \<Longrightarrow> unat (ucast (0xe0 OR drop_bit 12 cp) :: byte) = 224 + unat cp div 4096"
    and "unat cp \<le> 0x10ffff \<Longrightarrow> unat (ucast (0xf0 OR drop_bit 18 cp) :: byte) = 240 + unat cp div 262144"
  using unat_tagged_lead [of 5 "0xc0" cp 6] unat_tagged_lead [of 4 "0xe0" cp 12]
    unat_tagged_lead [of 3 "0xf0" cp 18]
  by (simp_all)

lemma unat_ascii: "unat (cp :: u32) < 0x80 \<Longrightarrow> unat (ucast cp :: byte) = unat cp"
  unfolding unat_ucast_mod by simp

lemma encode_digits: "is_scalar cp \<Longrightarrow> map unat (encode_utf8 cp) = utf8_digits (unat cp)"
  unfolding is_scalar_nat encode_utf8_def utf8_digits_def
  by (simp add: word_order_nat unat_tagged_leads unat_tagged_low unat_ascii unat_drop_bit_div)

lemma map_unat_eq: "map unat (xs :: bytes) = map unat ys \<longleftrightarrow> xs = ys"
  by (rule inj_map_eq_map) (simp add: inj_def word_unat_eq_iff)

lemma take_encode_iff:
  "is_scalar cp \<Longrightarrow> take n v = encode_utf8 cp \<longleftrightarrow> map unat (take n v) = utf8_digits (unat cp)"
  using map_unat_eq by (metis encode_digits)

lemma digits2:
  assumes "2 \<le> x" "x < 32" "y < 64"
  shows "utf8_digits (64 * x + y) = [192 + x, 128 + y]"
  using assms by (simp add: utf8_digits_def)

lemma base64: "z < (64::nat) \<Longrightarrow> (64 * a + z) div 64 = a" "z < (64::nat) \<Longrightarrow> (64 * a + z) mod 64 = z"
  by simp_all

lemma div_base64: "(n::nat) div 4096 = n div 64 div 64" "n div 262144 = n div 64 div 64 div 64"
  by (simp_all add: div_mult2_eq [symmetric])

lemma digits3:
  assumes "x < 16" "y < 64" "z < 64" "0x800 \<le> 4096 * x + 64 * y + z"
  shows "utf8_digits (4096 * x + 64 * y + z) = [224 + x, 128 + y, 128 + z]"
proof -
  define n where "n = 4096 * x + 64 * y + z"
  have "n = 64 * (64 * x + y) + z" by (simp add: n_def)
  with assms(1-3) have "n div 64 = 64 * x + y" "n mod 64 = z" by (simp_all only: base64)
  then have "n div 4096 = x" "n div 64 mod 64 = y" "n mod 64 = z"
    using assms(1-3) by (simp_all only: base64 div_base64)
  moreover have "0x800 \<le> n" "n < 0x10000" using assms n_def by simp_all
  ultimately show ?thesis by (simp add: utf8_digits_def flip: n_def)
qed

lemma digits4:
  assumes "x < 8" "y < 64" "z < 64" "w < 64" "0x10000 \<le> 262144 * x + 4096 * y + 64 * z + w"
  shows "utf8_digits (262144 * x + 4096 * y + 64 * z + w) = [240 + x, 128 + y, 128 + z, 128 + w]"
proof -
  define n where "n = 262144 * x + 4096 * y + 64 * z + w"
  have "n = 64 * (64 * (64 * x + y) + z) + w" by (simp add: n_def)
  with assms(1-4) have "n div 64 = 64 * (64 * x + y) + z" "n mod 64 = w" by (simp_all only: base64)
  then have "n div 262144 = x" "n div 4096 mod 64 = y" "n div 64 mod 64 = z" "n mod 64 = w"
    using assms(1-4) by (simp_all only: base64 div_base64)
  moreover have "0x10000 \<le> n" using assms n_def by simp
  ultimately show ?thesis by (simp add: utf8_digits_def flip: n_def)
qed

lemma tail_split: "is_tail c \<Longrightarrow> unat c = 128 + unat c mod 64"
  using mod_untag [of 2 64 "unat c"] by (simp add: is_tail_def)

text \<open>Soundness of one step: what it accepts is the encoding of the scalar value it reports.\<close>

lemma step_sound:
  assumes "utf8_step v = Some (cp, n)" "v \<noteq> []"
  shows "is_scalar cp \<and> n = length (utf8_digits (unat cp)) \<and> map unat (take n v) = utf8_digits (unat cp)"
proof -
  from assms obtain b r where v: "v = b # r" by (cases v) auto
  from assms v obtain l m where l: "utf8_lead b = Some (l, m)"
    by (auto simp: utf8_step_def split: option.splits)
  have len: "n \<le> length v" using utf8_step_count assms by blast
  have m: "m = n" using assms(1) l v by (auto simp: utf8_step_def split: option.splits if_splits)
  consider "unat b < 128" "n = 1" | "194 \<le> unat b" "unat b \<le> 223" "n = 2"
    | "224 \<le> unat b" "unat b \<le> 239" "n = 3" | "240 \<le> unat b" "unat b \<le> 244" "n = 4"
    using l m by (auto simp: lead_nat split: if_splits)
  then show ?thesis
  proof cases
    case 1
    with assms v have "unat cp = unat b" by (simp add: step_lead1)
    with 1 v show ?thesis by (simp add: is_scalar_nat utf8_digits_def)
  next
    case 2
    then obtain c r' where r: "v = b # c # r'" using len v by (cases r) auto
    have x: "unat b = 192 + unat b mod 32" using mod_untag [of 6 32 "unat b"] 2 by simp
    then have x2: "2 \<le> unat b mod 32" using 2 by linarith
    from assms r 2 have t: "is_tail c" and cp: "unat cp = 64 * (unat b mod 32) + unat c mod 64"
      by (simp_all add: step_lead2)
    have dig: "utf8_digits (unat cp) = [unat b, unat c]"
      unfolding cp using x x2 tail_split [OF t] by (subst digits2) simp_all
    have "unat b mod 32 < 32" "unat c mod 64 < 64" by simp_all
    then have "is_scalar cp" unfolding is_scalar_nat cp by linarith
    with 2 r dig show ?thesis by simp
  next
    case 3
    then obtain c d r' where r: "v = b # c # d # r'" using len v by (cases r; cases "tl r") auto
    have x: "unat b mod 16 < 16" "unat b = 224 + unat b mod 16"
      using mod_untag [of 14 16 "unat b"] 3 by simp_all
    from assms(1) have "utf8_step (b # c # d # r') = Some (cp, n)" unfolding r .
    then have t: "is_tail c" "is_tail d"
      and cp: "unat cp = 4096 * (unat b mod 16) + 64 * (unat c mod 64) + unat d mod 64"
      and lo: "0x800 \<le> unat cp" and sur: "\<not> (0xd800 \<le> unat cp \<and> unat cp \<le> 0xdfff)"
      unfolding step_lead3 [OF 3(1,2)] by blast+
    have dig: "utf8_digits (unat cp) = [unat b, unat c, unat d]"
      unfolding cp using x tail_split [OF t(1)] tail_split [OF t(2)] lo cp by (subst digits3) simp_all
    have "unat c mod 64 < 64" "unat d mod 64 < 64" by simp_all
    then have "unat cp \<le> 0x10ffff" using x cp by linarith
    with 3 r dig sur show ?thesis by (simp add: is_scalar_nat)
  next
    case 4
    then obtain c d e r' where r: "v = b # c # d # e # r'"
      using len v by (cases r; cases "tl r"; cases "tl (tl r)") auto
    have x: "unat b mod 8 < 8" "unat b = 240 + unat b mod 8"
      using mod_untag [of 30 8 "unat b"] 4 by simp_all
    from assms r 4 have t: "is_tail c" "is_tail d" "is_tail e"
      and cp: "unat cp = 262144 * (unat b mod 8) + 4096 * (unat c mod 64) + 64 * (unat d mod 64)
        + unat e mod 64" and lo: "0x10000 \<le> unat cp" and hi: "unat cp \<le> 0x10ffff"
      by (simp_all add: step_lead4)
    have dig: "utf8_digits (unat cp) = [unat b, unat c, unat d, unat e]"
      unfolding cp using x tail_split [OF t(1)] tail_split [OF t(2)] tail_split [OF t(3)] lo cp
      by (subst digits4) simp_all
    with 4 r lo hi show ?thesis by (simp add: is_scalar_nat)
  qed
qed

lemma mod_tags:
  "q < 32 \<Longrightarrow> (192 + q) mod 32 = (q::nat)" "q < 16 \<Longrightarrow> (224 + q) mod 16 = (q::nat)"
  "q < 5 \<Longrightarrow> (240 + q) mod 8 = (q::nat)" "q < 64 \<Longrightarrow> (128 + q) mod 64 = (q::nat)"
  using mod_untag [of 6 32 "192 + q"] mod_untag [of 14 16 "224 + q"] mod_untag [of 30 8 "240 + q"]
    mod_untag [of 2 64 "128 + q"] by simp_all

text \<open>Completeness: the encoding of a scalar value is read back, whatever follows it.\<close>

lemma step_complete:
  assumes "is_scalar cp" "map unat bs = utf8_digits (unat cp)"
  shows "utf8_step (bs @ rest) = Some (cp, length bs)"
proof -
  define c where "c = unat cp"
  have c: "c \<le> 0x10ffff" "\<not> (0xd800 \<le> c \<and> c \<le> 0xdfff)" using assms(1) by (simp_all add: is_scalar_nat c_def)
  have bs: "map unat bs = utf8_digits c" using assms(2) c_def by simp
  define q1 q2 q3 where "q1 = c div 64" and "q2 = q1 div 64" and "q3 = q2 div 64"
  define r0 r1 r2 where "r0 = c mod 64" and "r1 = q1 mod 64" and "r2 = q2 mod 64"
  have eqs: "c = 64 * q1 + r0" "q1 = 64 * q2 + r1" "q2 = 64 * q3 + r2"
    by (simp_all add: q1_def q2_def q3_def r0_def r1_def r2_def)
  have rs: "r0 < 64" "r1 < 64" "r2 < 64" by (simp_all add: r0_def r1_def r2_def)
  consider "c < 0x80" | "0x80 \<le> c" "c < 0x800" | "0x800 \<le> c" "c < 0x10000" | "0x10000 \<le> c"
    by linarith
  then show ?thesis
  proof cases
    case 1
    then obtain b where "bs = [b]" "unat b = c" using bs by (auto simp: utf8_digits_def map_eq_Cons_conv)
    with 1 show ?thesis by (simp add: step_lead1 c_def)
  next
    case 2
    then have "utf8_digits c = [192 + q1, 128 + r0]" by (simp add: utf8_digits_def q1_def r0_def)
    then obtain b d where b: "bs = [b, d]" "unat b = 192 + q1" "unat d = 128 + r0"
      using bs by (auto simp: map_eq_Cons_conv)
    have "2 \<le> q1" "q1 < 32" using 2 eqs rs by linarith+
    then have "unat b mod 32 = q1" "unat d mod 64 = r0" "is_tail d" "194 \<le> unat b" "unat b \<le> 223"
      using b rs by (simp_all add: is_tail_def mod_tags)
    then show ?thesis using b eqs by (simp add: step_lead2 flip: c_def)
  next
    case 3
    then have "utf8_digits c = [224 + q2, 128 + r1, 128 + r0]"
      by (simp add: utf8_digits_def q2_def q1_def r0_def r1_def div_base64)
    then obtain b d e where b: "bs = [b, d, e]" "unat b = 224 + q2" "unat d = 128 + r1"
      "unat e = 128 + r0" using bs by (auto simp: map_eq_Cons_conv)
    have "q2 < 16" using 3 eqs rs by linarith
    then have "unat b mod 16 = q2" "unat d mod 64 = r1" "unat e mod 64 = r0" "is_tail d" "is_tail e"
      "224 \<le> unat b" "unat b \<le> 239" using b rs by (simp_all add: is_tail_def mod_tags)
    moreover have "c = 4096 * q2 + 64 * r1 + r0" using eqs by simp
    ultimately show ?thesis using b c 3 by (simp add: step_lead3 flip: c_def)
  next
    case 4
    then have "utf8_digits c = [240 + q3, 128 + r2, 128 + r1, 128 + r0]"
      by (simp add: utf8_digits_def q3_def q2_def q1_def r0_def r1_def r2_def div_base64)
    then obtain b d e f where b: "bs = [b, d, e, f]" "unat b = 240 + q3" "unat d = 128 + r2"
      "unat e = 128 + r1" "unat f = 128 + r0" using bs by (auto simp: map_eq_Cons_conv)
    have "q3 < 5" using c eqs rs by linarith
    then have "unat b mod 8 = q3" "unat d mod 64 = r2" "unat e mod 64 = r1" "unat f mod 64 = r0"
      "is_tail d" "is_tail e" "is_tail f" "240 \<le> unat b" "unat b \<le> 244"
      using b rs by (simp_all add: is_tail_def mod_tags)
    moreover have "c = 262144 * q3 + 4096 * r2 + 64 * r1 + r0" using eqs by simp
    ultimately show ?thesis using b c 4 by (simp add: step_lead4 flip: c_def)
  qed
qed

lemma encode_utf8_nonempty: "is_scalar cp \<Longrightarrow> encode_utf8 cp \<noteq> []"
  by (auto simp: is_scalar_def encode_utf8_def)

lemma length_encode_digits: "is_scalar cp \<Longrightarrow> length (encode_utf8 cp) = length (utf8_digits (unat cp))"
  by (metis encode_digits length_map)

lemma utf8_step_iff:
  assumes "v \<noteq> []"
  shows "utf8_step v = Some (cp, n) \<longleftrightarrow>
    is_scalar cp \<and> n = length (encode_utf8 cp) \<and> take n v = encode_utf8 cp"
proof
  assume "utf8_step v = Some (cp, n)"
  then show "is_scalar cp \<and> n = length (encode_utf8 cp) \<and> take n v = encode_utf8 cp"
    using step_sound [OF _ assms] take_encode_iff length_encode_digits by metis
next
  assume "is_scalar cp \<and> n = length (encode_utf8 cp) \<and> take n v = encode_utf8 cp"
  then show "utf8_step v = Some (cp, n)"
    using step_complete [of cp "encode_utf8 cp" "drop n v"] encode_digits by (metis append_take_drop_id)
qed

lemma visit_utf8_encoded:
  "\<forall>cp \<in> set cps. is_scalar cp \<Longrightarrow>
     visit_utf8 f (concat (map encode_utf8 cps)) s = (True, fold f cps s)"
proof (induction cps arbitrary: s)
  case Nil
  then show ?case by (simp add: visit_utf8.simps)
next
  case (Cons cp cps)
  let ?v = "concat (map encode_utf8 (cp # cps))"
  have "?v \<noteq> []" using Cons.prems encode_utf8_nonempty by simp
  moreover from this have "utf8_step ?v = Some (cp, length (encode_utf8 cp))"
    using Cons.prems by (simp add: utf8_step_iff)
  ultimately have "visit_utf8 f ?v s = visit_utf8 f (concat (map encode_utf8 cps)) (f cp s)"
    by (subst visit_utf8.simps) (simp only: if_False option.case prod.case, simp)
  with Cons show ?case by simp
qed

lemma visit_utf8_accepts:
  "fst (visit_utf8 f v s) \<Longrightarrow> \<exists>cps. (\<forall>cp \<in> set cps. is_scalar cp) \<and> v = concat (map encode_utf8 cps)"
proof (induction f v s rule: visit_utf8.induct)
  case (1 f v s)
  show ?case
  proof (cases "v = []")
    case True
    then show ?thesis by (intro exI [of _ "[]"]) simp
  next
    case False
    with "1.prems" obtain cp n where st: "utf8_step v = Some (cp, n)"
      by (subst (asm) visit_utf8.simps) (auto split: option.splits)
    with False "1.prems" have "fst (visit_utf8 f (drop n v) (f cp s))"
      by (subst (asm) visit_utf8.simps) simp
    with "1.IH" [OF False st refl] obtain cps where
      cps: "\<forall>cp \<in> set cps. is_scalar cp" "drop n v = concat (map encode_utf8 cps)" by blast
    from st False have "is_scalar cp" "take n v = encode_utf8 cp" unfolding utf8_step_iff [OF False] by blast+
    then have "v = encode_utf8 cp @ concat (map encode_utf8 cps)"
      using cps append_take_drop_id [of n v] by simp
    with cps \<open>is_scalar cp\<close> show ?thesis by (intro exI [of _ "cp # cps"]) simp
  qed
qed

section \<open>Validation\<close>

lemma is_valid_utf8_iff_encoded:
  "is_valid_utf8 v \<longleftrightarrow> (\<exists>cps. list_all is_scalar cps \<and> v = concat (map encode_utf8 cps))"
proof
  assume "is_valid_utf8 v"
  then show "\<exists>cps. list_all is_scalar cps \<and> v = concat (map encode_utf8 cps)"
    unfolding is_valid_utf8_def list_all_iff by (rule visit_utf8_accepts)
next
  assume "\<exists>cps. list_all is_scalar cps \<and> v = concat (map encode_utf8 cps)"
  then show "is_valid_utf8 v"
    by (auto simp: is_valid_utf8_def list_all_iff visit_utf8_encoded)
qed

lemma visit_utf8_valid: "fst (visit_utf8 f v s) \<longleftrightarrow> is_valid_utf8 v"
  unfolding is_valid_utf8_iff_encoded list_all_iff
  using visit_utf8_accepts visit_utf8_encoded by (metis fst_conv)

text \<open>What the visitor of \<open>validate_text\<close> has computed after a non-empty run of code points.\<close>

lemma fold_scan_codepoint:
  "cps \<noteq> [] \<Longrightarrow> fold (scan_codepoint uid) cps initial_scan =
     \<lparr>forbidden = list_ex (forbidden_codepoint uid) cps,
      has_non_whitespace = \<not> list_all is_whitespace cps,
      has_codepoint = True, first_codepoint = hd cps, last_codepoint = last cps\<rparr>"
proof (induction cps rule: rev_nonempty_induct)
  case (single cp)
  then show ?case by (simp add: scan_codepoint_def initial_scan_def Let_def)
next
  case (snoc cp cps)
  then show ?case by (auto simp: scan_codepoint_def Let_def list_ex_iff list_all_iff)
qed

definition text_verdict :: "u32 list \<Rightarrow> nat \<Rightarrow> nat \<Rightarrow> bool \<Rightarrow> text_error option" where
  "text_verdict cps len maximum uid =
     (if cps = [] then Some EmptyText
      else if len > maximum then Some TooLong
      else if list_ex (forbidden_codepoint uid) cps then Some ForbiddenCharacter
      else if list_all is_whitespace cps then Some EmptyText
      else if uid \<and> (is_whitespace (hd cps) \<or> is_whitespace (last cps)) then Some EdgeWhitespace
      else None)"

lemma validate_text_encoded:
  assumes "list_all is_scalar cps"
  shows "validate_text (concat (map encode_utf8 cps)) m uid =
    text_verdict cps (length (concat (map encode_utf8 cps))) m uid"
proof (cases "cps = []")
  case True
  then show ?thesis by (simp add: validate_text_def text_verdict_def)
next
  case False
  then have "is_scalar (hd cps)" using assms by (simp add: list_all_iff)
  then have "encode_utf8 (hd cps) \<noteq> []" by (rule encode_utf8_nonempty)
  then have "concat (map encode_utf8 cps) \<noteq> []" using False by (cases cps) auto
  moreover have "visit_utf8 (scan_codepoint uid) (concat (map encode_utf8 cps)) initial_scan =
      (True, fold (scan_codepoint uid) cps initial_scan)"
    using assms by (simp add: visit_utf8_encoded list_all_iff)
  ultimately show ?thesis using False
    by (simp add: validate_text_def text_verdict_def fold_scan_codepoint del: concat_eq_Nil_conv)
qed

lemma validate_text_valid:
  assumes "validate_text v m uid = None"
  shows "v \<noteq> []" "length v \<le> m" "is_valid_utf8 v"
  using assms visit_utf8_valid [of "scan_codepoint uid" v initial_scan]
  by (auto simp: validate_text_def split: if_splits prod.splits)

definition user_id_ok :: "user_id \<Rightarrow> bool" where
  "user_id_ok u \<longleftrightarrow> validate_text (user_id_value u) kMaxUserIdBytes True = None"

definition post_body_ok :: "post_body \<Rightarrow> bool" where
  "post_body_ok b \<longleftrightarrow> validate_text (post_body_value b) kMaxPostBodyBytes False = None"

lemma user_id_create_Inr [simp]:
  "user_id_create v = Inr u \<longleftrightarrow> u = UserId v \<and> user_id_ok u"
  by (auto simp: user_id_create_def user_id_ok_def split: option.splits)

lemma post_body_create_Inr [simp]:
  "post_body_create v = Inr b \<longleftrightarrow> b = PostBody v \<and> post_body_ok b"
  by (auto simp: post_body_create_def post_body_ok_def split: option.splits)

lemma user_id_create_ok [simp]: "user_id_ok (UserId v) \<Longrightarrow> user_id_create v = Inr (UserId v)"
  and post_body_create_ok [simp]: "post_body_ok (PostBody v) \<Longrightarrow> post_body_create v = Inr (PostBody v)"
  by simp_all

lemma user_id_ok_length: "user_id_ok u \<Longrightarrow> 1 \<le> length (user_id_value u) \<and> length (user_id_value u) \<le> 24"
  using validate_text_valid [of "user_id_value u" 24 True]
  by (cases "user_id_value u") (auto simp: user_id_ok_def)

lemma post_body_ok_length: "post_body_ok b \<Longrightarrow> 1 \<le> length (post_body_value b) \<and> length (post_body_value b) \<le> 160"
  using validate_text_valid [of "post_body_value b" 160 False]
  by (cases "post_body_value b") (auto simp: post_body_ok_def)

section \<open>Properties\<close>

text \<open>C40: \<open>is_valid_utf8\<close> accepts a byte string exactly when it is a concatenation of the encodings,
  as the compose editor produces them, of Unicode scalar values; so overlong forms, surrogates,
  truncated sequences and values above U+10FFFF are all rejected, and nothing else is.\<close>

theorem is_valid_utf8_characterisation:
  "is_valid_utf8 v \<longleftrightarrow> (\<exists>cps. list_all is_scalar cps \<and> v = concat (map encode_utf8 cps))"
  by (rule is_valid_utf8_iff_encoded)

text \<open>\<open>validate_text\<close> accepts a byte string exactly when it is the encoding of a non-empty list of
  scalar values within the byte budget, with no forbidden code point and at least one that is not
  white space, and, for a user id, with no white space at either edge.\<close>

theorem validate_text_accepts_iff:
  "validate_text v m uid = None \<longleftrightarrow>
     (\<exists>cps. list_all is_scalar cps \<and> v = concat (map encode_utf8 cps) \<and> cps \<noteq> [] \<and> length v \<le> m \<and>
        \<not> list_ex (forbidden_codepoint uid) cps \<and> \<not> list_all is_whitespace cps \<and>
        \<not> (uid \<and> (is_whitespace (hd cps) \<or> is_whitespace (last cps))))"
proof
  assume none: "validate_text v m uid = None"
  then obtain cps where cps: "list_all is_scalar cps" "v = concat (map encode_utf8 cps)"
    using validate_text_valid(3) is_valid_utf8_iff_encoded by blast
  with none validate_text_encoded [OF cps(1), of m uid] have "text_verdict cps (length v) m uid = None"
    by simp
  with cps show "\<exists>cps. list_all is_scalar cps \<and> v = concat (map encode_utf8 cps) \<and> cps \<noteq> [] \<and>
      length v \<le> m \<and> \<not> list_ex (forbidden_codepoint uid) cps \<and> \<not> list_all is_whitespace cps \<and>
      \<not> (uid \<and> (is_whitespace (hd cps) \<or> is_whitespace (last cps)))"
    by (intro exI [of _ cps]) (simp add: text_verdict_def split: if_splits)
qed (auto simp: validate_text_encoded text_verdict_def)

end
