(* ===== verification/Storage_Settings.thy ===== *)
theory Storage_Settings
  imports Core_Uuid Core_Text
begin

text \<open>
  Model of \<^verbatim>\<open>src/adapters/storage/settings_json.cpp\<close> and \<^verbatim>\<open>src/persistence/settings_record.h\<close>: the strict JSON reader of
  the settings file, the extraction of the settings record, and the writer. A parser is a function from the
  characters that are left to an error or to a result with the characters left after it; a read position in the C++ text is
  the suffix from that position.
\<close>

section \<open>Definitions\<close>

datatype stored_locale = English | Japanese | SimplifiedChinese

definition stored_locale_code :: "stored_locale \<Rightarrow> bytes" where
  "stored_locale_code l =
     (case l of English \<Rightarrow> ascii ''en'' | Japanese \<Rightarrow> ascii ''ja'' | SimplifiedChinese \<Rightarrow> ascii ''zh-Hans'')"

record settings_record =
  generation :: u64
  st_install_id :: install_id
  st_user_id :: user_id
  sender_sequence_high_watermark :: u64
  st_locale :: stored_locale
  history_initialized :: bool
  st_skip_title :: bool

datatype settings_json_error =
  JsonTooLarge | JsonInvalidUtf8 | MalformedJson | ExcessiveNesting | DuplicateKey | UnknownKey | MissingKey | WrongType
| UnsupportedFormat | UnsupportedSchemaVersion | InvalidGeneration | InvalidInstallUuid | JsonInvalidUserId
| JsonInvalidSenderSequence | InvalidLocale

definition kMaxSettingsJsonBytes :: nat where [simp]: "kMaxSettingsJsonBytes = 16 * 1024"
definition kMaximumJsonNesting :: nat where "kMaximumJsonNesting = 12"
definition kSettingsFormat :: bytes where "kSettingsFormat = ascii ''lora-messenger.settings''"

text \<open>A value with the member its type uses; a scalar keeps its text.\<close>

datatype json_value =
  JsonNull | JsonBoolean bytes | JsonNumber bytes | JsonString bytes
| JsonObject "(bytes \<times> json_value) list" | JsonArray "json_value list"

type_synonym 'a json_parser = "bytes \<Rightarrow> ('a \<times> bytes, settings_json_error) result"

subsection \<open>Tokens\<close>

definition is_json_space :: "byte \<Rightarrow> bool" where
  "is_json_space c \<longleftrightarrow> c = 0x20 \<or> c = 0x09 \<or> c = 0x0a \<or> c = 0x0d"

definition skip_whitespace :: "bytes \<Rightarrow> bytes" where
  "skip_whitespace input = dropWhile is_json_space input"

definition consume :: "byte \<Rightarrow> bytes \<Rightarrow> bool \<times> bytes" where
  "consume expected input =
     (case input of [] \<Rightarrow> (False, input) | c # rest \<Rightarrow> if c = expected then (True, rest) else (False, input))"

definition consume_literal :: "bytes \<Rightarrow> json_value \<Rightarrow> json_value json_parser" where
  "consume_literal literal v input =
     (if take (length literal) input \<noteq> literal then Inl MalformedJson else Inr (v, drop (length literal) input))"

fun hex_digits :: "bytes \<Rightarrow> u32 \<Rightarrow> u32 option" where
  "hex_digits [] out = Some out"
| "hex_digits (c # cs) out =
     (case hex_value c of None \<Rightarrow> None | Some v \<Rightarrow> hex_digits cs (push_bit 4 out OR ucast v))"

definition parse_hex_quad :: "bytes \<Rightarrow> u32 option" where
  "parse_hex_quad input = (if length input < 4 then None else hex_digits (take 4 input) 0)"

definition append_utf8 :: "bytes \<Rightarrow> u32 \<Rightarrow> bytes" where
  "append_utf8 out codepoint = out @
     (if codepoint \<le> 0x7f then [ucast codepoint]
      else if codepoint \<le> 0x7ff then
        [ucast (0xc0 OR drop_bit 6 codepoint), ucast (0x80 OR (codepoint AND 0x3f))]
      else if codepoint \<le> 0xffff then
        [ucast (0xe0 OR drop_bit 12 codepoint), ucast (0x80 OR (drop_bit 6 codepoint AND 0x3f)),
         ucast (0x80 OR (codepoint AND 0x3f))]
      else
        [ucast (0xf0 OR drop_bit 18 codepoint), ucast (0x80 OR (drop_bit 12 codepoint AND 0x3f)),
         ucast (0x80 OR (drop_bit 6 codepoint AND 0x3f)), ucast (0x80 OR (codepoint AND 0x3f))])"

text \<open>The escape \<open>u\<close> after the backslash, a surrogate pair taking a second one.\<close>

definition parse_unicode_escape :: "bytes \<Rightarrow> (u32 \<times> bytes) option" where
  "parse_unicode_escape input =
     (case parse_hex_quad input of
        None \<Rightarrow> None
      | Some codepoint \<Rightarrow>
          let rest = drop 4 input
          in if 0xd800 \<le> codepoint \<and> codepoint \<le> 0xdbff
             then if length rest < 2 \<or> rest ! 0 \<noteq> 0x5c \<or> rest ! 1 \<noteq> 0x75 then None
                  else (case parse_hex_quad (drop 2 rest) of
                     None \<Rightarrow> None
                   | Some low \<Rightarrow>
                       if low < 0xdc00 \<or> low > 0xdfff then None
                       else Some (0x10000 + push_bit 10 (codepoint - 0xd800) + (low - 0xdc00), drop 6 rest))
             else if 0xdc00 \<le> codepoint \<and> codepoint \<le> 0xdfff then None
             else Some (codepoint, rest))"

definition simple_escape :: "byte \<Rightarrow> byte option" where
  "simple_escape escaped =
     (if escaped = 0x22 then Some 0x22 else if escaped = 0x5c then Some 0x5c else if escaped = 0x2f then Some 0x2f
      else if escaped = 0x62 then Some 0x08 else if escaped = 0x66 then Some 0x0c else if escaped = 0x6e then Some 0x0a
      else if escaped = 0x72 then Some 0x0d else if escaped = 0x74 then Some 0x09 else None)"

lemma unicode_escape_consumes: "parse_unicode_escape input = Some (cp, rest) \<Longrightarrow> length rest \<le> length input"
  by (auto simp: parse_unicode_escape_def Let_def split: option.splits if_splits)

function parse_string_loop :: "bytes \<Rightarrow> bytes \<Rightarrow> (bytes \<times> bytes, settings_json_error) result" where
  "parse_string_loop out [] = Inl MalformedJson"
| "parse_string_loop out (c # rest) =
     (if c = 0x22 then Inr (out, rest)
      else if c < 0x20 then Inl MalformedJson
      else if c \<noteq> 0x5c then parse_string_loop (out @ [c]) rest
      else case rest of
        [] \<Rightarrow> Inl MalformedJson
      | escaped # rest \<Rightarrow>
          (case simple_escape escaped of
             Some c \<Rightarrow> parse_string_loop (out @ [c]) rest
           | None \<Rightarrow>
               if escaped \<noteq> 0x75 then Inl MalformedJson
               else (case parse_unicode_escape rest of
                  None \<Rightarrow> Inl MalformedJson
                | Some (codepoint, rest) \<Rightarrow> parse_string_loop (append_utf8 out codepoint) rest)))"
  by pat_completeness auto
termination
  by (relation "measure (length o snd)") (auto dest!: unicode_escape_consumes)

definition parse_string :: "bytes json_parser" where
  "parse_string input =
     (case consume 0x22 input of (False, _) \<Rightarrow> Inl MalformedJson | (True, rest) \<Rightarrow> parse_string_loop [] rest)"

definition is_digit :: "byte \<Rightarrow> bool" where
  "is_digit c \<longleftrightarrow> 0x30 \<le> c \<and> c \<le> 0x39"

text \<open>One digit or more.\<close>

definition skip_digits :: "bytes \<Rightarrow> (bytes, settings_json_error) result" where
  "skip_digits input =
     (if input = [] \<or> \<not> is_digit (hd input) then Inl MalformedJson else Inr (dropWhile is_digit input))"

definition skip_integer_part :: "bytes \<Rightarrow> (bytes, settings_json_error) result" where
  "skip_integer_part input =
     (case consume 0x30 input of
        (True, rest) \<Rightarrow> if rest \<noteq> [] \<and> is_digit (hd rest) then Inl MalformedJson else Inr rest
      | (False, input) \<Rightarrow>
          if input = [] \<or> hd input < 0x31 \<or> hd input > 0x39 then Inl MalformedJson else Inr (dropWhile is_digit input))"

definition skip_fraction :: "bytes \<Rightarrow> (bytes, settings_json_error) result" where
  "skip_fraction input = (case consume 0x2e input of (True, rest) \<Rightarrow> skip_digits rest | (False, input) \<Rightarrow> Inr input)"

definition skip_exponent :: "bytes \<Rightarrow> (bytes, settings_json_error) result" where
  "skip_exponent input =
     (case input of
        [] \<Rightarrow> Inr []
      | c # rest \<Rightarrow>
          if c = 0x65 \<or> c = 0x45
          then skip_digits (if rest \<noteq> [] \<and> (hd rest = 0x2b \<or> hd rest = 0x2d) then tl rest else rest)
          else Inr input)"

definition parse_number :: "json_value json_parser" where
  "parse_number input =
     (let (minus, rest) = consume 0x2d input
      in if minus \<and> rest = [] then Inl MalformedJson
         else case skip_integer_part rest of
           Inl e \<Rightarrow> Inl e
         | Inr rest \<Rightarrow>
             (case skip_fraction rest of
                Inl e \<Rightarrow> Inl e
              | Inr rest \<Rightarrow>
                  (case skip_exponent rest of
                     Inl e \<Rightarrow> Inl e
                   | Inr rest \<Rightarrow> Inr (JsonNumber (take (length input - length rest) input), rest))))"

subsection \<open>Values\<close>

text \<open>The values without nesting; the first character is there.\<close>

definition parse_scalar :: "json_value json_parser" where
  "parse_scalar input =
     (let token = hd input
      in if token = 0x22 then (case parse_string input of Inl e \<Rightarrow> Inl e | Inr (s, rest) \<Rightarrow> Inr (JsonString s, rest))
         else if token = 0x74 then consume_literal (ascii ''true'') (JsonBoolean (ascii ''true'')) input
         else if token = 0x66 then consume_literal (ascii ''false'') (JsonBoolean (ascii ''false'')) input
         else if token = 0x6e then consume_literal (ascii ''null'') JsonNull input
         else if token = 0x2d \<or> is_digit token then parse_number input
         else Inl MalformedJson)"

text \<open>The member loop with a bound on its rounds: every round consumes characters, so the length of the
  input bounds them.\<close>

fun object_loop ::
  "json_value json_parser \<Rightarrow> nat \<Rightarrow> (bytes \<times> json_value) list \<Rightarrow> json_value json_parser" where
  "object_loop value_parser 0 members input = Inl MalformedJson"
| "object_loop value_parser (Suc rounds) members input =
     (if input = [] \<or> hd input \<noteq> 0x22 then Inl MalformedJson
      else case parse_string input of
        Inl e \<Rightarrow> Inl e
      | Inr (key, rest) \<Rightarrow>
          if list_ex (\<lambda>existing. fst existing = key) members then Inl DuplicateKey
          else (case consume 0x3a (skip_whitespace rest) of
             (False, _) \<Rightarrow> Inl MalformedJson
           | (True, rest) \<Rightarrow>
               (case value_parser (skip_whitespace rest) of
                  Inl e \<Rightarrow> Inl e
                | Inr (v, rest) \<Rightarrow>
                    let members = members @ [(key, v)]
                    in (case consume 0x7d (skip_whitespace rest) of
                          (True, rest) \<Rightarrow> Inr (JsonObject members, rest)
                        | (False, rest) \<Rightarrow>
                            (case consume 0x2c rest of
                               (False, _) \<Rightarrow> Inl MalformedJson
                             | (True, rest) \<Rightarrow> object_loop value_parser rounds members (skip_whitespace rest))))))"

definition parse_object :: "json_value json_parser \<Rightarrow> json_value json_parser" where
  "parse_object value_parser input =
     (case consume 0x7d (skip_whitespace input) of
        (True, rest) \<Rightarrow> Inr (JsonObject [], rest)
      | (False, rest) \<Rightarrow> object_loop value_parser (length rest) [] rest)"

fun array_loop :: "json_value json_parser \<Rightarrow> nat \<Rightarrow> json_value list \<Rightarrow> json_value json_parser" where
  "array_loop value_parser 0 elements input = Inl MalformedJson"
| "array_loop value_parser (Suc rounds) elements input =
     (if input = [] then Inl MalformedJson
      else case value_parser input of
        Inl e \<Rightarrow> Inl e
      | Inr (v, rest) \<Rightarrow>
          let elements = elements @ [v]
          in (case consume 0x5d (skip_whitespace rest) of
                (True, rest) \<Rightarrow> Inr (JsonArray elements, rest)
              | (False, rest) \<Rightarrow>
                  (case consume 0x2c rest of
                     (False, _) \<Rightarrow> Inl MalformedJson
                   | (True, rest) \<Rightarrow> array_loop value_parser rounds elements (skip_whitespace rest))))"

definition parse_array :: "json_value json_parser \<Rightarrow> json_value json_parser" where
  "parse_array value_parser input =
     (case consume 0x5d (skip_whitespace input) of
        (True, rest) \<Rightarrow> Inr (JsonArray [], rest)
      | (False, rest) \<Rightarrow> array_loop value_parser (length rest) [] rest)"

text \<open>The argument is the nesting that is left, \<open>kMaximumJsonNesting\<close> less the depth of the C++ call.\<close>

primrec parse_value :: "nat \<Rightarrow> json_value json_parser" where
  "parse_value 0 = (\<lambda>input.
     case input of
       [] \<Rightarrow> Inl MalformedJson
     | token # rest \<Rightarrow> if token = 0x7b \<or> token = 0x5b then Inl ExcessiveNesting else parse_scalar input)"
| "parse_value (Suc nesting) = (\<lambda>input.
     case input of
       [] \<Rightarrow> Inl MalformedJson
     | token # rest \<Rightarrow>
         if token = 0x7b then parse_object (parse_value nesting) rest
         else if token = 0x5b then parse_array (parse_value nesting) rest
         else parse_scalar input)"

definition json_parse :: "bytes \<Rightarrow> (json_value, settings_json_error) result" where
  "json_parse input =
     (case parse_value kMaximumJsonNesting (skip_whitespace input) of
        Inl e \<Rightarrow> Inl e
      | Inr (v, rest) \<Rightarrow> if skip_whitespace rest \<noteq> [] then Inl MalformedJson else Inr v)"

subsection \<open>The settings record\<close>

fun json_object :: "json_value \<Rightarrow> (bytes \<times> json_value) list" where
  "json_object (JsonObject members) = members"
| "json_object _ = []"

fun json_scalar :: "json_value \<Rightarrow> bytes" where
  "json_scalar (JsonBoolean s) = s"
| "json_scalar (JsonNumber s) = s"
| "json_scalar (JsonString s) = s"
| "json_scalar _ = []"

fun is_json_string :: "json_value \<Rightarrow> bool" where
  "is_json_string (JsonString _) = True" | "is_json_string _ = False"

fun is_json_number :: "json_value \<Rightarrow> bool" where
  "is_json_number (JsonNumber _) = True" | "is_json_number _ = False"

fun is_json_boolean :: "json_value \<Rightarrow> bool" where
  "is_json_boolean (JsonBoolean _) = True" | "is_json_boolean _ = False"

fun is_json_object :: "json_value \<Rightarrow> bool" where
  "is_json_object (JsonObject _) = True" | "is_json_object _ = False"

definition json_member :: "json_value \<Rightarrow> bytes \<Rightarrow> json_value option" where
  "json_member v key = map_of (json_object v) key"

definition has_only_keys :: "json_value \<Rightarrow> bytes list \<Rightarrow> bool" where
  "has_only_keys v allowed \<longleftrightarrow> list_all (\<lambda>member. fst member \<in> set allowed) (json_object v)"

fun canonical_uint64_loop :: "bytes \<Rightarrow> u64 \<Rightarrow> u64 option" where
  "canonical_uint64_loop [] acc = Some acc"
| "canonical_uint64_loop (c # cs) acc =
     (if c < 0x30 \<or> c > 0x39 then None
      else let digit = ucast (c - 0x30)
           in if acc > (u64_max - digit) div 10 then None else canonical_uint64_loop cs (acc * 10 + digit))"

definition parse_canonical_uint64 :: "bytes \<Rightarrow> u64 option" where
  "parse_canonical_uint64 value =
     (if value = [] \<or> (length value > 1 \<and> hd value = 0x30) then None else canonical_uint64_loop value 0)"

definition read_identity ::
  "json_value \<Rightarrow> (install_id \<times> user_id \<times> u64, settings_json_error) result" where
  "read_identity identity =
     (if \<not> has_only_keys identity [ascii ''install_uuid'', ascii ''user_id'', ascii ''sender_sequence_high_watermark'']
      then Inl UnknownKey
      else case (json_member identity (ascii ''install_uuid''), json_member identity (ascii ''user_id''),
                 json_member identity (ascii ''sender_sequence_high_watermark'')) of
        (Some uuid_value, Some user_value, Some sequence_value) \<Rightarrow>
          if \<not> is_json_string uuid_value \<or> \<not> is_json_string user_value \<or> \<not> is_json_string sequence_value then Inl WrongType
          else (case uuid_parse (json_scalar uuid_value) of
             None \<Rightarrow> Inl InvalidInstallUuid
           | Some uuid \<Rightarrow>
               if uuid_to_string uuid \<noteq> json_scalar uuid_value \<or> \<not> uuid_is_v4 uuid then Inl InvalidInstallUuid
               else (case install_id_from_uuid uuid of
                  Inl _ \<Rightarrow> Inl InvalidInstallUuid
                | Inr install_id \<Rightarrow>
                    (case user_id_create (json_scalar user_value) of
                       Inl _ \<Rightarrow> Inl JsonInvalidUserId
                     | Inr parsed_user_id \<Rightarrow>
                         (case parse_canonical_uint64 (json_scalar sequence_value) of
                            None \<Rightarrow> Inl JsonInvalidSenderSequence
                          | Some parsed \<Rightarrow> Inr (install_id, parsed_user_id, parsed)))))
      | _ \<Rightarrow> Inl MissingKey)"

definition read_locale :: "bytes \<Rightarrow> stored_locale option" where
  "read_locale code =
     (if code = ascii ''en'' then Some English
      else if code = ascii ''ja'' then Some Japanese
      else if code = ascii ''zh-Hans'' then Some SimplifiedChinese
      else None)"

definition read_ui :: "bool \<Rightarrow> json_value \<Rightarrow> (stored_locale \<times> bool, settings_json_error) result" where
  "read_ui schema_v2 ui =
     (if \<not> has_only_keys ui (if schema_v2 then [ascii ''locale'', ascii ''skip_title''] else [ascii ''locale'']) then Inl UnknownKey
      else case json_member ui (ascii ''locale'') of
        None \<Rightarrow> Inl MissingKey
      | Some locale \<Rightarrow>
          let skip_title = json_member ui (ascii ''skip_title'')
          in if schema_v2 \<and> skip_title = None then Inl MissingKey
             else if \<not> is_json_string locale \<or> (schema_v2 \<and> \<not> is_json_boolean (the skip_title)) then Inl WrongType
             else (case read_locale (json_scalar locale) of
                None \<Rightarrow> Inl InvalidLocale
              | Some l \<Rightarrow> Inr (l, schema_v2 \<and> json_scalar (the skip_title) = ascii ''true'')))"

definition read_history :: "json_value \<Rightarrow> (bool, settings_json_error) result" where
  "read_history history =
     (if \<not> has_only_keys history [ascii ''initialized''] then Inl UnknownKey
      else case json_member history (ascii ''initialized'') of
        None \<Rightarrow> Inl MissingKey
      | Some initialized \<Rightarrow>
          if \<not> is_json_boolean initialized then Inl WrongType
          else Inr (json_scalar initialized = ascii ''true''))"

definition read_settings :: "json_value \<Rightarrow> (settings_record, settings_json_error) result" where
  "read_settings root =
     (if \<not> is_json_object root then Inl WrongType
      else if \<not> has_only_keys root [ascii ''format'', ascii ''schema_version'', ascii ''generation'', ascii ''identity'',
                                    ascii ''ui'', ascii ''history''] then Inl UnknownKey
      else case (json_member root (ascii ''format''), json_member root (ascii ''schema_version''),
                 json_member root (ascii ''generation''), json_member root (ascii ''identity''),
                 json_member root (ascii ''ui''), json_member root (ascii ''history'')) of
        (Some format, Some schema_version, Some gen, Some identity, Some ui, Some history) \<Rightarrow>
          if \<not> is_json_string format \<or> \<not> is_json_number schema_version \<or> \<not> is_json_string gen \<or>
             \<not> is_json_object identity \<or> \<not> is_json_object ui \<or> \<not> is_json_object history then Inl WrongType
          else if json_scalar format \<noteq> kSettingsFormat then Inl UnsupportedFormat
          else let schema_v1 = (json_scalar schema_version = ascii ''1'');
                   schema_v2 = (json_scalar schema_version = ascii ''2'')
          in if \<not> schema_v1 \<and> \<not> schema_v2 then Inl UnsupportedSchemaVersion
             else (case parse_canonical_uint64 (json_scalar gen) of
                None \<Rightarrow> Inl InvalidGeneration
              | Some parsed_generation \<Rightarrow>
                  if parsed_generation = 0 then Inl InvalidGeneration
                  else (case read_identity identity of
                     Inl e \<Rightarrow> Inl e
                   | Inr (install_id, user_id, sender_sequence) \<Rightarrow>
                       (case read_ui schema_v2 ui of
                          Inl e \<Rightarrow> Inl e
                        | Inr (locale, skip_title) \<Rightarrow>
                            (case read_history history of
                               Inl e \<Rightarrow> Inl e
                             | Inr initialized \<Rightarrow>
                                 Inr \<lparr>generation = parsed_generation, st_install_id = install_id, st_user_id = user_id,
                                   sender_sequence_high_watermark = sender_sequence, st_locale = locale,
                                   history_initialized = initialized, st_skip_title = skip_title\<rparr>))))
      | _ \<Rightarrow> Inl MissingKey)"

definition parse_settings_json :: "bytes \<Rightarrow> (settings_record, settings_json_error) result" where
  "parse_settings_json json =
     (if length json > kMaxSettingsJsonBytes then Inl JsonTooLarge
      else if \<not> is_valid_utf8 json then Inl JsonInvalidUtf8
      else case json_parse json of Inl e \<Rightarrow> Inl e | Inr root \<Rightarrow> read_settings root)"

subsection \<open>The writer\<close>

definition json_escape :: "byte \<Rightarrow> bytes" where
  "json_escape c =
     (if c = 0x22 then [0x5c, 0x22] else if c = 0x5c then [0x5c, 0x5c] else if c = 0x08 then [0x5c, 0x62]
      else if c = 0x0c then [0x5c, 0x66] else if c = 0x0a then [0x5c, 0x6e] else if c = 0x0d then [0x5c, 0x72]
      else if c = 0x09 then [0x5c, 0x74]
      else if c < 0x20 then [0x5c, 0x75, 0x30, 0x30, hex_digit (drop_bit 4 c AND 0x0f), hex_digit (c AND 0x0f)]
      else [c])"

definition append_json_string :: "bytes \<Rightarrow> bytes \<Rightarrow> bytes" where
  "append_json_string out value = out @ [0x22] @ concat (map json_escape value) @ [0x22]"

text \<open>\<^verbatim>\<open>std::to_string\<close> of an unsigned number.\<close>

fun to_decimal :: "nat \<Rightarrow> bytes" where
  "to_decimal n = (if n < 10 then [0x30 + of_nat n] else to_decimal (n div 10) @ [0x30 + of_nat (n mod 10)])"

declare to_decimal.simps [simp del]

definition serialize_settings_json :: "settings_record \<Rightarrow> (bytes, settings_json_error) result" where
  "serialize_settings_json st =
     (if generation st = 0 then Inl InvalidGeneration
      else let locale = stored_locale_code (st_locale st)
      in if locale = [] then Inl InvalidLocale
      else let out = ascii ''{\"format\":'';
               out = append_json_string out kSettingsFormat;
               out = out @ ascii '',\"schema_version\":2,\"generation\":'';
               out = append_json_string out (to_decimal (unat (generation st)));
               out = out @ ascii '',\"identity\":{\"install_uuid\":'';
               out = append_json_string out (uuid_to_string (install_uuid (st_install_id st)));
               out = out @ ascii '',\"user_id\":'';
               out = append_json_string out (user_id_value (st_user_id st));
               out = out @ ascii '',\"sender_sequence_high_watermark\":'';
               out = append_json_string out (to_decimal (unat (sender_sequence_high_watermark st)));
               out = out @ ascii ''},\"ui\":{\"locale\":'';
               out = append_json_string out locale;
               out = out @ ascii '',\"skip_title\":'';
               out = out @ (if st_skip_title st then ascii ''true'' else ascii ''false'');
               out = out @ ascii ''},\"history\":{\"initialized\":'';
               out = out @ (if history_initialized st then ascii ''true'' else ascii ''false'');
               out = out @ ascii ''}}'' @ [0x0a]
      in if length out > kMaxSettingsJsonBytes then Inl JsonTooLarge else Inr out)"

section \<open>Tokens, read and written\<close>

lemma consume_simps [simp]:
  "consume c (c # rest) = (True, rest)" "d \<noteq> c \<Longrightarrow> consume c (d # rest) = (False, d # rest)" "consume c [] = (False, [])"
  by (simp_all add: consume_def)

lemma consume_True [simp]: "consume c input = (True, rest) \<longleftrightarrow> input = c # rest"
  by (auto simp: consume_def split: list.splits if_splits)

lemma consume_False [simp]: "consume c input = (False, rest) \<longleftrightarrow> rest = input \<and> (input = [] \<or> hd input \<noteq> c)"
  by (auto simp: consume_def split: list.splits if_splits)

lemma skip_whitespace_stop [simp]: "\<not> is_json_space c \<Longrightarrow> skip_whitespace (c # rest) = c # rest"
  by (simp add: skip_whitespace_def)

lemma skip_whitespace_Nil [simp]: "skip_whitespace [] = []"
  by (simp add: skip_whitespace_def)

lemma skip_whitespace_length: "length (skip_whitespace input) \<le> length input"
  by (simp add: skip_whitespace_def length_dropWhile_le)

text \<open>Strings.\<close>

lemma control_escape_quads:
  "list_all (\<lambda>n. hex_digits [0x30, 0x30, hex_digit (drop_bit 4 (of_nat n) AND 0x0f), hex_digit (of_nat n AND 0x0f)] 0 =
     Some (of_nat n) \<and> ucast (of_nat n :: u32) = (of_nat n :: byte)) [0..<32]"
  by code_simp

lemma control_escape:
  assumes "(c :: byte) < 0x20"
  shows "parse_unicode_escape ([0x30, 0x30, hex_digit (drop_bit 4 c AND 0x0f), hex_digit (c AND 0x0f)] @ rest) = Some (ucast c, rest)"
    "append_utf8 out (ucast c) = out @ [c]"
proof -
  let ?q = "[0x30, 0x30, hex_digit (drop_bit 4 c AND 0x0f), hex_digit (c AND 0x0f)]"
  have n: "unat c < 32" using assms by (simp add: word_less_nat_alt)
  have all: "hex_digits [0x30, 0x30, hex_digit (drop_bit 4 (of_nat n) AND 0x0f), hex_digit (of_nat n AND 0x0f)] 0 =
     Some (of_nat n) \<and> ucast (of_nat n :: u32) = (of_nat n :: byte)" if "n < 32" for n
    using control_escape_quads that by (simp only: list_all_iff set_upt atLeastLessThan_iff) simp
  have u: "(of_nat (unat c) :: byte) = c" by simp
  have q: "hex_digits ?q 0 = Some (of_nat (unat c))" "ucast (of_nat (unat c) :: u32) = c"
    using all [OF n] unfolding u by blast+
  have cp: "(of_nat (unat c) :: u32) = ucast c" by simp
  have small: "unat (ucast c :: u32) < 32" using n by (simp add: unat_ucast_mod)
  have "parse_hex_quad (?q @ rest) = Some (ucast c)" using q(1) cp by (simp add: parse_hex_quad_def)
  then show "parse_unicode_escape (?q @ rest) = Some (ucast c, rest)"
    using small by (simp add: parse_unicode_escape_def word_le_nat_alt)
  show "append_utf8 out (ucast c) = out @ [c]" using small q(2) cp by (simp add: append_utf8_def word_le_nat_alt)
qed

lemma parse_escaped: "parse_string_loop out (json_escape c @ rest) = parse_string_loop (out @ [c]) rest"
proof (cases "c < 0x20 \<and> c \<noteq> 0x08 \<and> c \<noteq> 0x0c \<and> c \<noteq> 0x0a \<and> c \<noteq> 0x0d \<and> c \<noteq> 0x09")
  case True
  then have e: "json_escape c = [0x5c, 0x75] @ [0x30, 0x30, hex_digit (drop_bit 4 c AND 0x0f), hex_digit (c AND 0x0f)]"
    by (auto simp: json_escape_def)
  show ?thesis unfolding e append_assoc using True control_escape [of c] by (simp add: simple_escape_def)
next
  case False
  then show ?thesis by (auto simp: json_escape_def simple_escape_def)
qed

lemma parse_string_written: "parse_string (append_json_string [] s @ rest) = Inr (s, rest)"
proof -
  have "parse_string_loop out (concat (map json_escape s) @ 0x22 # rest) = Inr (out @ s, rest)" for out
    by (induction s arbitrary: out) (simp_all add: parse_escaped)
  then show ?thesis by (simp add: parse_string_def append_json_string_def)
qed

lemma parse_string_loop_consumes: "parse_string_loop out input = Inr (s, rest) \<Longrightarrow> length rest < length input"
proof (induction out input rule: parse_string_loop.induct)
  case (2 out c rest0)
  then show ?case
    by (auto split: if_splits list.splits option.splits prod.splits dest!: unicode_escape_consumes) (fastforce)+
qed simp

lemma parse_string_consumes: "parse_string input = Inr (s, rest) \<Longrightarrow> length rest < length input"
  by (auto simp: parse_string_def split: prod.splits bool.splits dest!: parse_string_loop_consumes)

text \<open>Numbers: the grammar of RFC 8259.\<close>

definition digits_text :: "bytes \<Rightarrow> bool" where
  "digits_text ds \<longleftrightarrow> ds \<noteq> [] \<and> list_all is_digit ds"

definition integer_text :: "bytes \<Rightarrow> bool" where
  "integer_text i \<longleftrightarrow> i = [0x30] \<or> (digits_text i \<and> hd i \<noteq> 0x30)"

definition fraction_text :: "bytes \<Rightarrow> bool" where
  "fraction_text f \<longleftrightarrow> f = [] \<or> (hd f = 0x2e \<and> digits_text (tl f))"

definition exponent_text :: "bytes \<Rightarrow> bool" where
  "exponent_text e \<longleftrightarrow> e = [] \<or>
     (\<exists>c sign ds. e = c # sign @ ds \<and> c \<in> {0x65, 0x45} \<and> sign \<in> {[], [0x2b], [0x2d]} \<and> digits_text ds)"

definition number_text :: "bytes \<Rightarrow> bool" where
  "number_text s \<longleftrightarrow> (\<exists>m i f e. s = m @ i @ f @ e \<and> m \<in> {[], [0x2d]} \<and> integer_text i \<and> fraction_text f \<and> exponent_text e)"

definition number_stop :: "bytes \<Rightarrow> bool" where
  "number_stop rest \<longleftrightarrow> rest = [] \<or> (\<not> is_digit (hd rest) \<and> hd rest \<notin> {0x2e, 0x65, 0x45})"

lemma digits_split: "digits_text ds \<Longrightarrow> rest = [] \<or> \<not> is_digit (hd rest) \<Longrightarrow> dropWhile is_digit (ds @ rest) = rest"
  by (cases rest) (auto simp: digits_text_def list_all_iff dropWhile_append3 intro: dropWhile_append2)

lemma dropWhile_digits:
  assumes "input \<noteq> []" "is_digit (hd input)"
  shows "\<exists>ds. input = ds @ dropWhile is_digit input \<and> digits_text ds \<and> hd ds = hd input"
  using assms by (intro exI [of _ "takeWhile is_digit input"])
    (auto simp: digits_text_def list_all_iff dest: set_takeWhileD; cases input; simp)

lemma skip_digits_sound: "skip_digits input = Inr rest \<Longrightarrow> \<exists>ds. input = ds @ rest \<and> digits_text ds"
  using dropWhile_digits by (auto simp: skip_digits_def split: if_splits)

lemma skip_digits_complete:
  "digits_text ds \<Longrightarrow> rest = [] \<or> \<not> is_digit (hd rest) \<Longrightarrow> skip_digits (ds @ rest) = Inr rest"
  using digits_split by (auto simp: skip_digits_def digits_text_def hd_append list_all_iff)

lemma digit_not_zero: "is_digit c \<and> c \<noteq> 0x30 \<longleftrightarrow> \<not> (c < 0x31 \<or> c > 0x39)"
  by (auto simp: is_digit_def word_le_nat_alt word_less_nat_alt word_unat_eq_iff)

lemma skip_integer_sound: "skip_integer_part input = Inr rest \<Longrightarrow> \<exists>i. input = i @ rest \<and> integer_text i"
proof (cases "\<exists>r. input = 0x30 # r")
  case True
  moreover assume "skip_integer_part input = Inr rest"
  ultimately show ?thesis by (auto simp: skip_integer_part_def integer_text_def split: if_splits)
next
  case False
  assume r: "skip_integer_part input = Inr rest"
  then have "input \<noteq> []" "is_digit (hd input)" "hd input \<noteq> 0x30" "rest = dropWhile is_digit input"
    using False digit_not_zero [of "hd input"]
    by (auto simp: skip_integer_part_def split: prod.splits bool.splits if_splits)
  then show ?thesis using dropWhile_digits [of input] by (metis integer_text_def)
qed

lemma skip_integer_complete:
  assumes "integer_text i" "rest = [] \<or> \<not> is_digit (hd rest)"
  shows "skip_integer_part (i @ rest) = Inr rest"
proof (cases "i = [0x30]")
  case True
  then show ?thesis using assms by (auto simp: skip_integer_part_def)
next
  case False
  then obtain c cs where i: "i = c # cs" "digits_text i" "c \<noteq> 0x30"
    using assms(1) by (cases i) (auto simp: integer_text_def digits_text_def)
  then have "is_digit c" by (simp add: digits_text_def)
  then have "\<not> (c < 0x31 \<or> c > 0x39)" using i(3) digit_not_zero by blast
  then show ?thesis using digits_split [OF i(2) assms(2)] i by (simp add: skip_integer_part_def)
qed

lemma skip_fraction_sound: "skip_fraction input = Inr rest \<Longrightarrow> \<exists>f. input = f @ rest \<and> fraction_text f"
proof (cases "\<exists>r. input = 0x2e # r")
  case True
  then obtain r where r: "input = 0x2e # r" by blast
  assume "skip_fraction input = Inr rest"
  then obtain ds where "r = ds @ rest" "digits_text ds" using skip_digits_sound r by (auto simp: skip_fraction_def)
  then show ?thesis using r by (intro exI [of _ "0x2e # ds"]) (simp add: fraction_text_def)
next
  case False
  assume "skip_fraction input = Inr rest"
  then have "rest = input" using False by (auto simp: skip_fraction_def split: prod.splits bool.splits)
  then show ?thesis by (simp add: fraction_text_def)
qed

lemma skip_fraction_complete:
  assumes "fraction_text f" "rest = [] \<or> \<not> is_digit (hd rest)" "f = [] \<Longrightarrow> rest = [] \<or> hd rest \<noteq> 0x2e"
  shows "skip_fraction (f @ rest) = Inr rest"
proof (cases f)
  case Nil
  then show ?thesis using assms(3) by (cases rest) (auto simp: skip_fraction_def)
next
  case (Cons c ds)
  then show ?thesis using assms skip_digits_complete by (simp add: skip_fraction_def fraction_text_def)
qed

lemma skip_exponent_sound: "skip_exponent input = Inr rest \<Longrightarrow> \<exists>e. input = e @ rest \<and> exponent_text e"
proof (cases "\<exists>c r. input = c # r \<and> c \<in> {0x65, 0x45}")
  case True
  then obtain c r where r: "input = c # r" "c \<in> {0x65, 0x45}" by blast
  define sg where "sg = (if r \<noteq> [] \<and> (hd r = 0x2b \<or> hd r = 0x2d) then [hd r] else [])"
  define t where "t = (if r \<noteq> [] \<and> (hd r = 0x2b \<or> hd r = 0x2d) then tl r else r)"
  have sg: "sg \<in> {[], [0x2b], [0x2d]}" "r = sg @ t" by (auto simp: sg_def t_def)
  assume "skip_exponent input = Inr rest"
  then have "skip_digits t = Inr rest" using r by (auto simp: skip_exponent_def t_def)
  from skip_digits_sound [OF this] obtain ds where "t = ds @ rest" and ds: "digits_text ds" by blast
  with sg(2) have "r = sg @ ds @ rest" by simp
  then have "input = (c # sg @ ds) @ rest" using r by simp
  moreover have "exponent_text (c # sg @ ds)" using r(2) sg(1) ds unfolding exponent_text_def by blast
  ultimately show ?thesis by blast
next
  case False
  assume "skip_exponent input = Inr rest"
  then have "rest = input" using False by (auto simp: skip_exponent_def split: list.splits if_splits)
  then show ?thesis by (simp add: exponent_text_def)
qed

lemma digit_signs: "is_digit c \<Longrightarrow> c \<noteq> 0x2b \<and> c \<noteq> 0x2d \<and> c \<noteq> 0x2e \<and> c \<noteq> 0x65 \<and> c \<noteq> 0x45 \<and> c \<noteq> 0x22 \<and> c \<noteq> 0x7b \<and> c \<noteq> 0x5b"
  by (auto simp: is_digit_def)

lemma skip_exponent_complete:
  assumes "exponent_text e" "number_stop rest"
  shows "skip_exponent (e @ rest) = Inr rest"
proof (cases "e = []")
  case True
  then show ?thesis using assms(2) by (cases rest) (auto simp: skip_exponent_def number_stop_def)
next
  case False
  then obtain c sg ds where e: "e = c # sg @ ds" "c \<in> {0x65, 0x45}" "sg \<in> {[], [0x2b], [0x2d]}" "digits_text ds"
    using assms(1) by (auto simp: exponent_text_def)
  obtain x xs where ds: "ds = x # xs" "is_digit x" using e(4) by (cases ds) (auto simp: digits_text_def)
  have "(if sg @ ds @ rest \<noteq> [] \<and> (hd (sg @ ds @ rest) = 0x2b \<or> hd (sg @ ds @ rest) = 0x2d) then tl (sg @ ds @ rest)
      else sg @ ds @ rest) = ds @ rest"
    using e(3) ds digit_signs [OF ds(2)] by auto
  then show ?thesis using skip_digits_complete [OF e(4), of rest] assms(2) e(1,2)
    by (auto simp: skip_exponent_def number_stop_def)
qed

lemma parse_number_sound:
  assumes "parse_number input = Inr (v, rest)"
  shows "\<exists>s. input = s @ rest \<and> v = JsonNumber s \<and> number_text s"
proof -
  obtain b r0 where c: "consume 0x2d input = (b, r0)" by fastforce
  obtain r1 r2 where r: "skip_integer_part r0 = Inr r1" "skip_fraction r1 = Inr r2" "skip_exponent r2 = Inr rest"
    "v = JsonNumber (take (length input - length rest) input)"
    using assms c by (auto simp: parse_number_def split: if_splits sum.splits)
  define m where "m = (if b then [0x2d :: byte] else [])"
  have m: "input = m @ r0" "m \<in> {[], [0x2d]}" using c by (cases b; simp add: m_def)+
  obtain i where i: "r0 = i @ r1" "integer_text i" using skip_integer_sound [OF r(1)] by blast
  obtain f where f: "r1 = f @ r2" "fraction_text f" using skip_fraction_sound [OF r(2)] by blast
  obtain e where e: "r2 = e @ rest" "exponent_text e" using skip_exponent_sound [OF r(3)] by blast
  have "input = (m @ i @ f @ e) @ rest" using m(1) i(1) f(1) e(1) by simp
  moreover have "number_text (m @ i @ f @ e)" unfolding number_text_def using m(2) i(2) f(2) e(2) by blast
  ultimately show ?thesis using r(4) by (intro exI [of _ "m @ i @ f @ e"]) simp
qed

lemma integer_text_hd: "integer_text i \<Longrightarrow> i \<noteq> [] \<and> is_digit (hd i)"
  by (cases i) (auto simp: integer_text_def digits_text_def is_digit_def)

lemma parse_number_complete:
  assumes "number_text s" "number_stop rest"
  shows "parse_number (s @ rest) = Inr (JsonNumber s, rest)"
proof -
  obtain m i f e where s: "s = m @ i @ f @ e" "m \<in> {[], [0x2d]}" "integer_text i" "fraction_text f" "exponent_text e"
    using assms(1) by (auto simp: number_text_def)
  have stop: "rest = [] \<or> \<not> is_digit (hd rest)" "rest = [] \<or> hd rest \<noteq> 0x2e" using assms(2) by (auto simp: number_stop_def)
  have e: "e @ rest = [] \<or> \<not> is_digit (hd (e @ rest)) \<and> hd (e @ rest) \<noteq> 0x2e"
    using s(5) stop by (auto simp: exponent_text_def is_digit_def)
  have f: "f @ e @ rest = [] \<or> \<not> is_digit (hd (f @ e @ rest))"
    using s(4) e by (cases f) (auto simp: fraction_text_def is_digit_def)
  have i: "hd (i @ f @ e @ rest) \<noteq> 0x2d" "i \<noteq> []" using integer_text_hd [OF s(3)] digit_signs by auto
  have c: "consume 0x2d (s @ rest) = (m \<noteq> [], i @ f @ e @ rest)"
    using s(1,2) i by (cases "m = []") auto
  have "skip_integer_part (i @ f @ e @ rest) = Inr (f @ e @ rest)" by (rule skip_integer_complete [OF s(3) f])
  moreover have "skip_fraction (f @ e @ rest) = Inr (e @ rest)" by (rule skip_fraction_complete [OF s(4)]) (use e in auto)
  moreover have "skip_exponent (e @ rest) = Inr rest" by (rule skip_exponent_complete [OF s(5) assms(2)])
  ultimately show ?thesis using c i(2) by (simp add: parse_number_def)
qed

lemma number_text_hd: "number_text s \<Longrightarrow> s \<noteq> [] \<and> (hd s = 0x2d \<or> is_digit (hd s))"
  using integer_text_hd by (auto simp: number_text_def)

section \<open>Values, read and written\<close>

fun comma_separated :: "bytes list \<Rightarrow> bytes" where
  "comma_separated [] = []"
| "comma_separated [x] = x"
| "comma_separated (x # y # ys) = x @ [0x2c] @ comma_separated (y # ys)"

fun render :: "json_value \<Rightarrow> bytes" where
  "render JsonNull = ascii ''null''"
| "render (JsonBoolean s) = s"
| "render (JsonNumber s) = s"
| "render (JsonString s) = append_json_string [] s"
| "render (JsonObject members) =
     [0x7b] @ comma_separated (map (\<lambda>(k, v). append_json_string [] k @ [0x3a] @ render v) members) @ [0x7d]"
| "render (JsonArray elements) = [0x5b] @ comma_separated (map render elements) @ [0x5d]"

text \<open>The values a reader with the nesting \<open>n\<close> left can return.\<close>

fun scalar_ok :: "json_value \<Rightarrow> bool" where
  "scalar_ok JsonNull = True"
| "scalar_ok (JsonBoolean s) = (s = ascii ''true'' \<or> s = ascii ''false'')"
| "scalar_ok (JsonNumber s) = number_text s"
| "scalar_ok (JsonString s) = True"
| "scalar_ok _ = False"

primrec json_ok :: "nat \<Rightarrow> json_value \<Rightarrow> bool" where
  "json_ok 0 = scalar_ok"
| "json_ok (Suc n) = (\<lambda>v. case v of
     JsonObject members \<Rightarrow> distinct (map fst members) \<and> list_all (\<lambda>m. json_ok n (snd m)) members
   | JsonArray elements \<Rightarrow> list_all (json_ok n) elements
   | _ \<Rightarrow> scalar_ok v)"

lemma ascii_literals:
  "ascii ''true'' = [0x74, 0x72, 0x75, 0x65]" "ascii ''false'' = [0x66, 0x61, 0x6c, 0x73, 0x65]"
  "ascii ''null'' = [0x6e, 0x75, 0x6c, 0x6c]"
  by code_simp+

lemma parse_scalar_complete:
  assumes "scalar_ok v" "number_stop rest"
  shows "parse_scalar (render v @ rest) = Inr (v, rest)"
proof (cases v)
  case (JsonNumber s)
  obtain c cs where s: "s = c # cs" using number_text_hd assms(1) JsonNumber by (cases s) auto
  then have "c = 0x2d \<or> is_digit c" using number_text_hd [of s] assms(1) JsonNumber by simp
  then have "c \<noteq> 0x22 \<and> c \<noteq> 0x74 \<and> c \<noteq> 0x66 \<and> c \<noteq> 0x6e" by (auto simp: is_digit_def)
  with \<open>c = 0x2d \<or> is_digit c\<close> parse_number_complete [of s rest] assms s JsonNumber
  show ?thesis by (auto simp: parse_scalar_def)
next
  case (JsonString s)
  have "parse_string (append_json_string [] s @ rest) = Inr (s, rest)" by (rule parse_string_written)
  then show ?thesis using JsonString by (simp add: parse_scalar_def append_json_string_def)
qed (use assms in \<open>auto simp: parse_scalar_def ascii_literals consume_literal_def\<close>)

lemma consume_literal_sound:
  "consume_literal l u input = Inr (v, rest) \<Longrightarrow> v = u \<and> input = l @ rest"
  by (auto simp: consume_literal_def split: if_splits) (metis append_take_drop_id)

lemma parse_number_ok: "parse_number input = Inr (v, rest) \<Longrightarrow> scalar_ok v \<and> length rest < length input"
  using parse_number_sound [of input v rest] number_text_hd by auto

lemma parse_scalar_sound:
  assumes "parse_scalar input = Inr (v, rest)"
  shows "scalar_ok v \<and> length rest < length input"
  using assms
  by (auto simp: parse_scalar_def Let_def ascii_literals split: if_splits sum.splits
      dest!: parse_string_consumes consume_literal_sound parse_number_ok)

lemma render_hd:
  assumes "json_ok n v"
  obtains c cs where "render v = c # cs" "\<not> is_json_space c" "c \<noteq> 0x5d" "c \<noteq> 0x7d"
proof -
  have "\<exists>c cs. render v = c # cs \<and> \<not> is_json_space c \<and> c \<noteq> 0x5d \<and> c \<noteq> 0x7d"
  proof (cases v)
    case (JsonNumber s)
    then have "number_text s" using assms by (cases n) auto
    then show ?thesis using number_text_hd [of s] JsonNumber by (cases s) (auto simp: is_json_space_def is_digit_def)
  next
    case (JsonBoolean s)
    then have "s = ascii ''true'' \<or> s = ascii ''false''" using assms by (cases n) auto
    then show ?thesis using JsonBoolean by (auto simp: ascii_literals is_json_space_def)
  qed (auto simp: ascii_literals is_json_space_def append_json_string_def)
  then show ?thesis using that by blast
qed

lemma render_nonempty: "json_ok n v \<Longrightarrow> render v \<noteq> []"
  by (elim render_hd) simp

definition render_member :: "bytes \<times> json_value \<Rightarrow> bytes" where
  "render_member m = append_json_string [] (fst m) @ [0x3a] @ render (snd m)"

lemma render_object: "render (JsonObject ms) = 0x7b # comma_separated (map render_member ms) @ [0x7d]"
  by (simp add: render_member_def [abs_def] case_prod_unfold)

text \<open>A parser that reads back what \<open>render\<close> writes for the values \<open>vs\<close>.\<close>

definition reads :: "json_value json_parser \<Rightarrow> json_value set \<Rightarrow> bool" where
  "reads pv vs \<longleftrightarrow> (\<forall>v \<in> vs. \<forall>rest. number_stop rest \<longrightarrow>
     skip_whitespace (render v @ rest) = render v @ rest \<and> render v \<noteq> [] \<and> pv (render v @ rest) = Inr (v, rest))"

lemma number_stop_marks [simp]: "number_stop (0x7d # rest)" "number_stop (0x2c # rest)" "number_stop (0x5d # rest)"
  by (simp_all add: number_stop_def is_digit_def)

lemma object_loop_step:
  assumes r: "reads pv {v}" and k: "k \<notin> fst ` set ms" and stop: "number_stop rest"
  shows "object_loop pv (Suc rounds) ms (render_member (k, v) @ rest) =
    (case consume 0x7d (skip_whitespace rest) of
       (True, rest) \<Rightarrow> Inr (JsonObject (ms @ [(k, v)]), rest)
     | (False, rest) \<Rightarrow>
         (case consume 0x2c rest of
            (False, _) \<Rightarrow> Inl MalformedJson
          | (True, rest) \<Rightarrow> object_loop pv rounds (ms @ [(k, v)]) (skip_whitespace rest)))"
proof -
  have s: "parse_string (append_json_string [] k @ 0x3a # render v @ rest) = Inr (k, 0x3a # render v @ rest)"
    by (rule parse_string_written)
  have q: "append_json_string [] k @ 0x3a # render v @ rest = 0x22 # concat (map json_escape k) @ 0x22 # 0x3a # render v @ rest"
    by (simp add: append_json_string_def)
  have "\<not> list_ex (\<lambda>e. fst e = k) ms" using k by (auto simp: list_ex_iff)
  moreover have "skip_whitespace (0x3a # render v @ rest) = 0x3a # render v @ rest" by (simp add: is_json_space_def)
  ultimately show ?thesis using s r stop by (simp add: render_member_def q reads_def Let_def)
qed

lemma object_loop_reads:
  assumes "reads pv (snd ` set ns)" "ns \<noteq> []" "length ns \<le> rounds" "distinct (map fst (ms @ ns))"
  shows "object_loop pv rounds ms (comma_separated (map render_member ns) @ 0x7d # rest) = Inr (JsonObject (ms @ ns), rest)"
  using assms
proof (induction ns arbitrary: ms rounds)
  case (Cons n ns)
  obtain k v where n: "n = (k, v)" by (cases n)
  obtain r where r: "rounds = Suc r" using Cons.prems(3) by (cases rounds) auto
  have pv: "reads pv {v}" "reads pv (snd ` set ns)" and k: "k \<notin> fst ` set ms" using Cons.prems n by (auto simp: reads_def)
  show ?case
  proof (cases ns)
    case Nil
    then show ?thesis using object_loop_step [OF pv(1) k, of "0x7d # rest"] n r by (simp add: is_json_space_def)
  next
    case (Cons m ns')
    let ?rest = "comma_separated (map render_member ns) @ 0x7d # rest"
    have sw: "skip_whitespace ?rest = ?rest"
      using Cons by (cases ns') (simp_all add: render_member_def append_json_string_def is_json_space_def)
    have "object_loop pv r (ms @ [(k, v)]) ?rest = Inr (JsonObject ((ms @ [(k, v)]) @ ns), rest)"
      using Cons.IH [OF pv(2), of r "ms @ [(k, v)]"] Cons.prems r n Cons by simp
    then show ?thesis using object_loop_step [OF pv(1) k, of "0x2c # ?rest"] n r Cons sw
      by (simp add: is_json_space_def)
  qed
qed simp

lemma array_loop_reads:
  assumes "reads pv (set ws)" "ws \<noteq> []" "length ws \<le> rounds"
  shows "array_loop pv rounds vs (comma_separated (map render ws) @ 0x5d # rest) = Inr (JsonArray (vs @ ws), rest)"
  using assms
proof (induction ws arbitrary: vs rounds)
  case (Cons w ws)
  obtain r where r: "rounds = Suc r" using Cons.prems(3) by (cases rounds) auto
  have pv: "pv (render w @ x) = Inr (w, x)" "render w \<noteq> []" if "number_stop x" for x
    using Cons.prems(1) that by (auto simp: reads_def)
  show ?case
  proof (cases ws)
    case Nil
    then show ?thesis using pv [of "0x5d # rest"] r by (simp add: is_json_space_def)
  next
    case (Cons u us)
    let ?rest = "comma_separated (map render ws) @ 0x5d # rest"
    have ws: "reads pv (set ws)" "reads pv {u}" using Cons.prems(1) Cons by (auto simp: reads_def)
    have sw: "skip_whitespace ?rest = ?rest"
    proof (cases us)
      case Nil
      then show ?thesis using ws(2) Cons by (simp add: reads_def)
    next
      case (Cons u' us')
      then show ?thesis using ws(2) \<open>ws = u # us\<close> by (simp add: reads_def)
    qed
    have "array_loop pv r (vs @ [w]) ?rest = Inr (JsonArray ((vs @ [w]) @ ws), rest)"
      using Cons.IH [OF ws(1), of r "vs @ [w]"] Cons.prems r Cons by simp
    then show ?thesis using pv [of "0x2c # ?rest"] r Cons sw by (simp add: is_json_space_def)
  qed
qed simp


lemma comma_length: "length xs \<le> Suc (length (comma_separated xs))" "\<forall>x \<in> set xs. x \<noteq> [] \<Longrightarrow> length xs \<le> length (comma_separated xs)"
  by (induction xs rule: comma_separated.induct) (auto simp: Suc_le_eq)

lemma scalar_hd:
  assumes "scalar_ok v"
  obtains c cs where "render v = c # cs" "c \<noteq> 0x7b" "c \<noteq> 0x5b"
proof (cases v)
  case (JsonNumber s)
  then obtain c cs where s: "s = c # cs" "c = 0x2d \<or> is_digit c" using assms number_text_hd [of s] by (cases s) auto
  then have "c \<noteq> 0x7b" "c \<noteq> 0x5b" by (auto simp: is_digit_def)
  then show ?thesis using that s JsonNumber by simp
qed (use assms that in \<open>auto simp: ascii_literals append_json_string_def\<close>)

lemma parse_scalar_value:
  assumes "scalar_ok v" "number_stop rest"
  shows "parse_value n (render v @ rest) = Inr (v, rest)"
proof -
  obtain c cs where "render v = c # cs" "c \<noteq> 0x7b" "c \<noteq> 0x5b" using assms(1) by (rule scalar_hd)
  then show ?thesis using parse_scalar_complete [OF assms] by (cases n) simp_all
qed

lemma parse_value_reads: "json_ok n v \<Longrightarrow> number_stop rest \<Longrightarrow> parse_value n (render v @ rest) = Inr (v, rest)"
proof (induction n arbitrary: v rest)
  case 0
  then show ?case by (simp only: json_ok.simps parse_scalar_value)
next
  case (Suc n)
  have reads: "reads (parse_value n) {v. json_ok n v}"
  proof -
    have "skip_whitespace (render v @ rest) = render v @ rest \<and> render v \<noteq> []" if "json_ok n v" for v rest
      using that by (elim render_hd) simp
    then show ?thesis using Suc.IH by (simp add: reads_def)
  qed
  then have mono: "reads (parse_value n) V" if "V \<subseteq> {v. json_ok n v}" for V using that by (auto simp: reads_def)
  show ?case
  proof (cases v)
    case (JsonObject ms)
    have ms: "distinct (map fst ms)" "list_all (\<lambda>m. json_ok n (snd m)) ms" using Suc.prems(1) JsonObject by auto
    let ?c = "comma_separated (map render_member ms)"
    show ?thesis
    proof (cases "ms = []")
      case True
      then show ?thesis using JsonObject by (simp add: parse_object_def is_json_space_def)
    next
      case False
      have "\<forall>x \<in> set (map render_member ms). x \<noteq> []" by (simp add: render_member_def append_json_string_def)
      from comma_length(2) [OF this] have "length ms \<le> length (?c @ 0x7d # rest)" by simp
      then have loop: "object_loop (parse_value n) (length (?c @ 0x7d # rest)) [] (?c @ 0x7d # rest) = Inr (JsonObject ([] @ ms), rest)"
        using ms False by (intro object_loop_reads mono) (auto simp: list_all_iff)
      obtain cs where c: "?c = 0x22 # cs" using False
        by (cases "map render_member ms" rule: comma_separated.cases) (auto simp: render_member_def append_json_string_def)
      show ?thesis using loop JsonObject c by (simp add: render_object parse_object_def is_json_space_def del: render.simps)
    qed
  next
    case (JsonArray vs)
    have vs: "list_all (json_ok n) vs" using Suc.prems(1) JsonArray by auto
    let ?c = "comma_separated (map render vs)"
    show ?thesis
    proof (cases "vs = []")
      case True
      then show ?thesis using JsonArray by (simp add: parse_array_def is_json_space_def)
    next
      case False
      have "\<forall>x \<in> set (map render vs). x \<noteq> []" using render_nonempty vs by (auto simp: list_all_iff)
      from comma_length(2) [OF this] have "length vs \<le> length (?c @ 0x5d # rest)" by simp
      then have loop: "array_loop (parse_value n) (length (?c @ 0x5d # rest)) [] (?c @ 0x5d # rest) = Inr (JsonArray ([] @ vs), rest)"
        using vs False by (intro array_loop_reads mono) (auto simp: list_all_iff)
      obtain w ws where w: "vs = w # ws" using False by (cases vs) auto
      then have "json_ok n w" using vs by simp
      then obtain c cs where c: "render w = c # cs" "\<not> is_json_space c" "c \<noteq> 0x5d" "c \<noteq> 0x7d" by (rule render_hd)
      have "?c @ 0x5d # rest = c # tl (?c @ 0x5d # rest)" using w c(1) by (cases ws) auto
      then obtain t where t: "?c @ 0x5d # rest = c # t" by blast
      show ?thesis using loop JsonArray c t by (simp add: parse_array_def)
    qed
  qed (rule parse_scalar_value; use Suc.prems in simp)+
qed

text \<open>Every parser shortens its input.\<close>

definition consumes :: "'a json_parser \<Rightarrow> bool" where
  "consumes p \<longleftrightarrow> (\<forall>input v rest. p input = Inr (v, rest) \<longrightarrow> length rest < length input)"

lemmas consume_iff = consume_True consume_False

declare consume_iff [simp del]

lemma space_then: "consume c (skip_whitespace input) = (b, rest) \<Longrightarrow> length rest \<le> length input"
  using skip_whitespace_length [of input] by (cases b) (auto simp: consume_iff)

lemma object_loop_sound:
  assumes pv: "\<And>input v rest. pv input = Inr (v, rest) \<Longrightarrow> P v \<and> length rest < length input"
    and run: "object_loop pv rounds ms input = Inr (v, rest)" and ms: "distinct (map fst ms)" "list_all (\<lambda>m. P (snd m)) ms"
  shows "\<exists>ns. v = JsonObject ns \<and> distinct (map fst ns) \<and> list_all (\<lambda>m. P (snd m)) ns \<and> length rest < length input"
  using run ms
proof (induction rounds arbitrary: ms input)
  case (Suc rounds)
  obtain key r1 where k: "parse_string input = Inr (key, r1)" "\<not> list_ex (\<lambda>e. fst e = key) ms"
    using Suc.prems(1) by (auto split: if_splits sum.splits)
  obtain r2 where r2: "consume 0x3a (skip_whitespace r1) = (True, r2)"
    using Suc.prems(1) k by (auto split: if_splits prod.splits bool.splits)
  obtain u r3 where u: "pv (skip_whitespace r2) = Inr (u, r3)"
    using Suc.prems(1) k r2 by (auto split: if_splits sum.splits)
  note pu = pv [OF u]
  have len: "length r3 < length input"
    using parse_string_consumes [OF k(1)] space_then [OF r2] skip_whitespace_length [of r2] pu by linarith
  obtain b r4 where b: "consume 0x7d (skip_whitespace r3) = (b, r4)" by fastforce
  have len4: "length r4 < length input" using space_then [OF b] len by linarith
  have ms': "distinct (map fst (ms @ [(key, u)]))" "list_all (\<lambda>m. P (snd m)) (ms @ [(key, u)])"
    using Suc.prems k pu by (auto simp: list_ex_iff)
  show ?case
  proof (cases b)
    case True
    then have "v = JsonObject (ms @ [(key, u)]) \<and> rest = r4"
      using Suc.prems(1) k r2 u b by (auto simp: Let_def split: if_splits)
    then show ?thesis using ms' len4 by auto
  next
    case False
    then obtain r5 where r5: "consume 0x2c r4 = (True, r5)"
      using Suc.prems(1) k r2 u b by (auto simp: Let_def split: if_splits prod.splits bool.splits)
    then have "object_loop pv rounds (ms @ [(key, u)]) (skip_whitespace r5) = Inr (v, rest)"
      using Suc.prems(1) k r2 u b False by (auto simp: Let_def split: if_splits)
    from Suc.IH [OF this ms'] show ?thesis using len4 r5 skip_whitespace_length [of r5] by (auto simp: consume_iff)
  qed
qed simp

lemma array_loop_sound:
  assumes pv: "\<And>input v rest. pv input = Inr (v, rest) \<Longrightarrow> P v \<and> length rest < length input"
    and run: "array_loop pv rounds vs input = Inr (v, rest)" and vs: "list_all P vs"
  shows "\<exists>ws. v = JsonArray ws \<and> list_all P ws \<and> length rest < length input"
  using run vs
proof (induction rounds arbitrary: vs input)
  case (Suc rounds)
  obtain u r3 where u: "pv input = Inr (u, r3)"
    using Suc.prems(1) by (auto split: if_splits sum.splits)
  note pu = pv [OF u]
  obtain b r4 where b: "consume 0x5d (skip_whitespace r3) = (b, r4)" by fastforce
  have len4: "length r4 < length input" using space_then [OF b] pu by linarith
  have vs': "list_all P (vs @ [u])" using Suc.prems pu by auto
  show ?case
  proof (cases b)
    case True
    then have "v = JsonArray (vs @ [u]) \<and> rest = r4"
      using Suc.prems(1) u b by (auto simp: Let_def split: if_splits)
    then show ?thesis using vs' len4 by auto
  next
    case False
    then obtain r5 where r5: "consume 0x2c r4 = (True, r5)"
      using Suc.prems(1) u b by (auto simp: Let_def split: if_splits prod.splits bool.splits)
    then have "array_loop pv rounds (vs @ [u]) (skip_whitespace r5) = Inr (v, rest)"
      using Suc.prems(1) u b False by (auto simp: Let_def split: if_splits)
    from Suc.IH [OF this vs'] show ?thesis using len4 r5 skip_whitespace_length [of r5] by (auto simp: consume_iff)
  qed
qed simp

lemma parse_value_sound: "parse_value n input = Inr (v, rest) \<Longrightarrow> json_ok n v \<and> length rest < length input"
proof (induction n arbitrary: input v rest)
  case 0
  then show ?case using parse_scalar_sound [of input v rest] by (auto split: list.splits if_splits)
next
  case (Suc n)
  obtain c cs where i: "input = c # cs" using Suc.prems by (cases input) auto
  have scalar: "json_ok (Suc n) v" if "scalar_ok v" for v using that by (cases v) auto
  consider "c = 0x7b" | "c = 0x5b" | "c \<noteq> 0x7b" "c \<noteq> 0x5b" by blast
  then show ?case
  proof cases
    case 1
    obtain b r where r: "consume 0x7d (skip_whitespace cs) = (b, r)" by fastforce
    have "length r \<le> length cs" by (rule space_then [OF r])
    then show ?thesis
      using Suc.prems i 1 r object_loop_sound [where pv = "parse_value n" and P = "json_ok n" and rounds = "length r" and ms = "[]" and input = r and v = v and rest = rest, OF Suc.IH]
      by (cases b) (auto simp: parse_object_def)
  next
    case 2
    obtain b r where r: "consume 0x5d (skip_whitespace cs) = (b, r)" by fastforce
    have "length r \<le> length cs" by (rule space_then [OF r])
    then show ?thesis
      using Suc.prems i 2 r array_loop_sound [where pv = "parse_value n" and P = "json_ok n" and rounds = "length r" and vs = "[]" and input = r and v = v and rest = rest, OF Suc.IH]
      by (cases b) (auto simp: parse_array_def)
  next
    case 3
    then show ?thesis using Suc.prems i parse_scalar_sound [of input v rest] scalar by auto
  qed
qed

lemma parse_value_consumes: "consumes (parse_value n)"
  using parse_value_sound by (auto simp: consumes_def)

text \<open>The bound on the rounds of a loop is never reached.\<close>

lemma object_loop_rounds:
  assumes "consumes pv" "length input \<le> a" "length input \<le> b"
  shows "object_loop pv a ms input = object_loop pv b ms input"
  using assms(2,3)
proof (induction "length input" arbitrary: ms input a b rule: less_induct)
  case less
  show ?case
  proof (cases "input = []")
    case True
    then show ?thesis by (cases a; cases b) auto
  next
    case False
    then obtain a' b' where ab: "a = Suc a'" "b = Suc b'" using less.prems by (cases a; cases b) auto
    have step: "object_loop pv a' ns (skip_whitespace r5) = object_loop pv b' ns (skip_whitespace r5)"
      if "parse_string input = Inr (key, r1)" "consume 0x3a (skip_whitespace r1) = (True, r2)" "pv (skip_whitespace r2) = Inr (u, r3)"
        "consume 0x7d (skip_whitespace r3) = (False, r4)" "consume 0x2c r4 = (True, r5)" for key r1 r2 u r3 r4 r5 ns
    proof -
      have "length r3 < length (skip_whitespace r2)" using assms(1) that(3) by (auto simp: consumes_def)
      then have "length (skip_whitespace r5) < length input"
        using parse_string_consumes [OF that(1)] space_then [OF that(2)] skip_whitespace_length [of r2] space_then [OF that(4)]
          skip_whitespace_length [of r5] that(5) by (auto simp: consume_iff)
      then show ?thesis using less ab by auto
    qed
    show ?thesis unfolding ab
      by (simp add: Let_def split: sum.split prod.split bool.split) (use step in auto)
  qed
qed

lemma array_loop_rounds:
  assumes "consumes pv" "length input \<le> a" "length input \<le> b"
  shows "array_loop pv a vs input = array_loop pv b vs input"
  using assms(2,3)
proof (induction "length input" arbitrary: vs input a b rule: less_induct)
  case less
  show ?case
  proof (cases "input = []")
    case True
    then show ?thesis by (cases a; cases b) auto
  next
    case False
    then obtain a' b' where ab: "a = Suc a'" "b = Suc b'" using less.prems by (cases a; cases b) auto
    have step: "array_loop pv a' ws (skip_whitespace r5) = array_loop pv b' ws (skip_whitespace r5)"
      if "pv input = Inr (u, r3)" "consume 0x5d (skip_whitespace r3) = (False, r4)" "consume 0x2c r4 = (True, r5)" for u r3 r4 r5 ws
    proof -
      have "length r3 < length input" using assms(1) that(1) by (auto simp: consumes_def)
      then have "length (skip_whitespace r5) < length input"
        using space_then [OF that(2)] skip_whitespace_length [of r5] that(3) by (auto simp: consume_iff)
      then show ?thesis using less ab by auto
    qed
    show ?thesis unfolding ab
      by (simp add: Let_def split: sum.split prod.split bool.split) (use step in auto)
  qed
qed

section \<open>Decimal numbers\<close>

lemma to_decimal_step:
  assumes "n < 2 ^ 64"
  shows "canonical_uint64_loop (to_decimal n @ cs) 0 = canonical_uint64_loop cs (of_nat n)"
  using assms
proof (induction n arbitrary: cs rule: to_decimal.induct)
  case (1 n)
  have digit: "\<not> (0x30 + of_nat d < (0x30 :: byte) \<or> 0x30 + of_nat d > (0x39 :: byte))" "ucast (0x30 + of_nat d - 0x30 :: byte) = (of_nat d :: u64)"
    if "d < 10" for d :: nat
  proof -
    have "d \<in> {0, 1, 2, 3, 4, 5, 6, 7, 8, 9}" using that by auto
    then show "\<not> (0x30 + of_nat d < (0x30 :: byte) \<or> 0x30 + of_nat d > (0x39 :: byte))"
      "ucast (0x30 + of_nat d - 0x30 :: byte) = (of_nat d :: u64)" by auto
  qed
  have room: "\<not> of_nat a > (u64_max - of_nat d) div 10" "of_nat a * 10 + of_nat d = (of_nat (10 * a + d) :: u64)"
    if "d < 10" "10 * a + d < 2 ^ 64" for a d :: nat
  proof -
    have d: "unat (of_nat d :: u64) = d" "unat (of_nat a :: u64) = a" using that by (auto simp: unat_of_nat)
    have "unat (u64_max - of_nat d) = 2 ^ 64 - 1 - d"
      using d(1) that by (subst unat_sub) (auto simp: word_le_nat_alt unat_u64_max)
    then have "unat ((u64_max - of_nat d) div 10) = (2 ^ 64 - 1 - d) div 10" by (simp add: unat_div)
    moreover have "a \<le> (2 ^ 64 - 1 - d) div 10" using that by (simp add: less_eq_div_iff_mult_less_eq)
    ultimately show "\<not> of_nat a > (u64_max - of_nat d) div 10" using d(2) by (simp add: word_less_nat_alt)
    show "of_nat a * 10 + of_nat d = (of_nat (10 * a + d) :: u64)" by (simp add: mult.commute)
  qed
  show ?case
  proof (cases "n < 10")
    case True
    then show ?thesis using digit [OF True] room [of n 0]
      by (subst to_decimal.simps) (simp add: Let_def)
  next
    case False
    have lt: "n div 10 < 2 ^ 64" using "1.prems" by (meson div_le_dividend le_less_trans)
    have m: "n mod 10 < 10" "10 * (n div 10) + n mod 10 < 2 ^ 64" using "1.prems" by simp_all
    have "canonical_uint64_loop (to_decimal n @ cs) 0 =
        canonical_uint64_loop ((0x30 + of_nat (n mod 10)) # cs) (of_nat (n div 10))"
      using "1.IH" [OF False lt] False by (subst to_decimal.simps) simp
    also have "\<dots> = canonical_uint64_loop cs (of_nat (10 * (n div 10) + n mod 10))"
      using digit [OF m(1)] room [OF m] by (simp add: Let_def del: mult_div_mod_eq)
    finally show ?thesis by simp
  qed
qed

lemma decimal_digit: "d < 10 \<Longrightarrow> is_digit (0x30 + of_nat d)" "0 < d \<Longrightarrow> d < 10 \<Longrightarrow> (0x30 + of_nat d :: byte) \<noteq> 0x30"
proof -
  have "d < 10 \<Longrightarrow> d \<in> {0, 1, 2, 3, 4, 5, 6, 7, 8, 9}" by auto
  then show "d < 10 \<Longrightarrow> is_digit (0x30 + of_nat d)" "0 < d \<Longrightarrow> d < 10 \<Longrightarrow> (0x30 + of_nat d :: byte) \<noteq> 0x30"
    by (auto simp: is_digit_def)
qed

lemma to_decimal_digits: "to_decimal n \<noteq> [] \<and> list_all is_digit (to_decimal n)"
proof (induction n rule: to_decimal.induct)
  case (1 n)
  then show ?case using decimal_digit(1) [of n] decimal_digit(1) [of "n mod 10"]
    by (subst (1 2) to_decimal.simps) auto
qed

lemma to_decimal_hd: "0 < n \<Longrightarrow> hd (to_decimal n) \<noteq> 0x30"
proof (induction n rule: to_decimal.induct)
  case (1 n)
  then show ?case using decimal_digit(2) [of n] to_decimal_digits [of "n div 10"]
    by (subst to_decimal.simps) auto
qed

lemma to_decimal_length: "n < 10 ^ k \<Longrightarrow> 0 < k \<Longrightarrow> length (to_decimal n) \<le> k"
proof (induction n arbitrary: k rule: to_decimal.induct)
  case (1 n)
  show ?case
  proof (cases "n < 10")
    case True
    then show ?thesis using 1 by (subst to_decimal.simps) simp
  next
    case False
    then obtain j where j: "k = Suc j" "0 < j" using "1.prems" by (cases k; cases "k = 1") auto
    then have "n div 10 < 10 ^ j" using "1.prems" by (simp add: less_mult_imp_div_less)
    then show ?thesis using "1.IH" [OF False _ j(2)] False j by (subst to_decimal.simps) simp
  qed
qed

lemma canonical_uint64_roundtrip: "parse_canonical_uint64 (to_decimal (unat x)) = Some x"
proof -
  have "canonical_uint64_loop (to_decimal (unat x) @ []) 0 = Some x"
    by (subst to_decimal_step) (use unat_u64_bound [of x] in simp_all)
  moreover have "\<not> (1 < length (to_decimal (unat x)) \<and> hd (to_decimal (unat x)) = 0x30)"
  proof (cases "unat x = 0")
    case True
    then show ?thesis by (simp add: to_decimal.simps)
  next
    case False
    then show ?thesis using to_decimal_hd [of "unat x"] by simp
  qed
  ultimately show ?thesis using to_decimal_digits [of "unat x"] by (simp add: parse_canonical_uint64_def)
qed

lemma u64_decimal_length: "length (to_decimal (unat (x :: u64))) \<le> 20"
  by (rule to_decimal_length) (use unat_u64_bound [of x] in auto)

section \<open>Text\<close>

lemma unat_of_char: "unat (of_char c :: byte) = of_char c"
  by (subst of_nat_of_char [symmetric]) (simp only: unat_of_nat, simp add: take_bit_eq_mod)

lemma ascii_inject [simp]: "ascii s = ascii t \<longleftrightarrow> s = t"
proof -
  have "inj (of_char :: char \<Rightarrow> byte)"
    by (rule injI) (metis unat_of_char of_char_eqI)
  then show ?thesis by (simp add: ascii_def inj_map_eq_map)
qed

lemma utf8_append: "is_valid_utf8 a \<Longrightarrow> is_valid_utf8 b \<Longrightarrow> is_valid_utf8 (a @ b)"
  unfolding is_valid_utf8_iff_encoded
  by (elim exE conjE, rule_tac x = "cps @ cpsa" in exI) simp

lemma utf8_low:
  assumes "list_all (\<lambda>c. unat c < 0x80) v"
  shows "is_valid_utf8 v"
proof -
  have "encode_utf8 (ucast c) = [c] \<and> is_scalar (ucast c)" if "unat c < 0x80" for c :: byte
  proof -
    have u: "unat (ucast c :: u32) = unat c" using that by (simp add: unat_ucast_mod)
    then have "unat (ucast (ucast c :: u32) :: byte) = unat c" using that by (simp add: unat_ucast_mod)
    then have "ucast (ucast c :: u32) = c" by (simp add: word_unat_eq_iff)
    then show ?thesis using u that by (simp add: encode_utf8_def is_scalar_nat word_le_nat_alt)
  qed
  then have "concat (map encode_utf8 (map ucast v)) = v \<and> list_all is_scalar (map ucast v)"
    using assms by (induction v) auto
  then show ?thesis unfolding is_valid_utf8_iff_encoded by metis
qed

lemma escape_low: "unat c < 0x80 \<Longrightarrow> list_all (\<lambda>c. unat c < 0x80) (json_escape c)"
proof -
  have hex: "unat (hex_digit n) < 0x80" if "unat n < 16" for n
  proof -
    have "n \<in> {0, 1, 2, 3, 4, 5, 6, 7, 8, 9, 10, 11, 12, 13, 14, 15}"
      using less_16_cases [OF that] by (simp add: word_unat_eq_iff)
    then show ?thesis by (elim insertE emptyE) (simp_all add: hex_digit_def)
  qed
  then show "unat c < 0x80 \<Longrightarrow> list_all (\<lambda>c. unat c < 0x80) (json_escape c)"
    using hex [OF nibble_bound, of c] hex [OF nibble_bound, of "drop_bit 4 c"] by (simp add: json_escape_def)
qed

lemma escape_high: "0x80 \<le> unat c \<Longrightarrow> json_escape c = [c]"
  by (auto simp: json_escape_def word_less_nat_alt)

lemma escape_same: "list_all (\<lambda>c. json_escape c = [c]) v \<Longrightarrow> concat (map json_escape v) = v"
  by (induction v) auto

lemma encode_high: "is_scalar cp \<Longrightarrow> 0x80 \<le> unat cp \<Longrightarrow> list_all (\<lambda>c. 0x80 \<le> unat c) (encode_utf8 cp)"
proof -
  assume a: "is_scalar cp" "0x80 \<le> unat cp"
  have "list_all (\<lambda>n. 0x80 \<le> n) (map unat (encode_utf8 cp))"
    unfolding encode_digits [OF a(1)] using a(2) by (simp add: utf8_digits_def)
  then show ?thesis by (simp add: list.pred_map comp_def)
qed

lemma utf8_escaped:
  assumes "is_valid_utf8 v"
  shows "is_valid_utf8 (concat (map json_escape v))"
proof -
  obtain cps where cps: "list_all is_scalar cps" "v = concat (map encode_utf8 cps)"
    using assms unfolding is_valid_utf8_iff_encoded by blast
  have one: "is_valid_utf8 (concat (map json_escape (encode_utf8 cp)))" if "is_scalar cp" for cp
  proof (cases "unat cp < 0x80")
    case True
    then have "encode_utf8 cp = [ucast cp]" by (simp add: encode_utf8_def word_le_nat_alt)
    then show ?thesis using utf8_low [OF escape_low, of "ucast cp"] True by (simp add: unat_ascii)
  next
    case False
    then have "list_all (\<lambda>c. json_escape c = [c]) (encode_utf8 cp)"
      using encode_high [OF that] escape_high by (auto simp: list_all_iff)
    then have "concat (map json_escape (encode_utf8 cp)) = encode_utf8 cp" by (rule escape_same)
    then show ?thesis unfolding is_valid_utf8_iff_encoded using that by (auto intro!: exI [of _ "[cp]"])
  qed
  have nil: "is_valid_utf8 []" by (rule utf8_low) simp
  show ?thesis using cps(1) unfolding cps(2) by (induction cps) (auto simp: nil intro!: utf8_append one)
qed

lemma utf8_json_string: "is_valid_utf8 s \<Longrightarrow> is_valid_utf8 (append_json_string [] s)"
  unfolding append_json_string_def append_Nil
  by (intro utf8_append utf8_escaped) (auto intro: utf8_low)

lemma escape_length: "length (concat (map json_escape s)) \<le> 6 * length s"
proof (induction s)
  case (Cons c s)
  have "length (json_escape c) \<le> 6" by (auto simp: json_escape_def)
  then show ?case using Cons by simp
qed simp

lemma json_string_length: "length (append_json_string [] s) \<le> 6 * length s + 2"
  using escape_length [of s] by (simp add: append_json_string_def)

section \<open>The written settings\<close>

definition json_boolean :: "bool \<Rightarrow> json_value" where
  "json_boolean b = JsonBoolean (if b then ascii ''true'' else ascii ''false'')"

definition settings_value :: "settings_record \<Rightarrow> json_value" where
  "settings_value st = JsonObject
     [(ascii ''format'', JsonString kSettingsFormat), (ascii ''schema_version'', JsonNumber (ascii ''2'')),
      (ascii ''generation'', JsonString (to_decimal (unat (generation st)))),
      (ascii ''identity'', JsonObject
         [(ascii ''install_uuid'', JsonString (uuid_to_string (install_uuid (st_install_id st)))),
          (ascii ''user_id'', JsonString (user_id_value (st_user_id st))),
          (ascii ''sender_sequence_high_watermark'', JsonString (to_decimal (unat (sender_sequence_high_watermark st))))]),
      (ascii ''ui'', JsonObject
         [(ascii ''locale'', JsonString (stored_locale_code (st_locale st))),
          (ascii ''skip_title'', json_boolean (st_skip_title st))]),
      (ascii ''history'', JsonObject [(ascii ''initialized'', json_boolean (history_initialized st))])]"

definition settings_ok :: "settings_record \<Rightarrow> bool" where
  "settings_ok st \<longleftrightarrow> generation st \<noteq> 0 \<and> uuid_ok (install_uuid (st_install_id st)) \<and> user_id_ok (st_user_id st)"

lemma written_keys:
  "ascii ''{\"format\":'' = [0x7b] @ append_json_string [] (ascii ''format'') @ [0x3a]"
  "ascii '',\"schema_version\":2,\"generation\":'' =
     [0x2c] @ append_json_string [] (ascii ''schema_version'') @ [0x3a] @ ascii ''2'' @
     [0x2c] @ append_json_string [] (ascii ''generation'') @ [0x3a]"
  "ascii '',\"identity\":{\"install_uuid\":'' =
     [0x2c] @ append_json_string [] (ascii ''identity'') @ [0x3a, 0x7b] @ append_json_string [] (ascii ''install_uuid'') @ [0x3a]"
  "ascii '',\"user_id\":'' = [0x2c] @ append_json_string [] (ascii ''user_id'') @ [0x3a]"
  "ascii '',\"sender_sequence_high_watermark\":'' =
     [0x2c] @ append_json_string [] (ascii ''sender_sequence_high_watermark'') @ [0x3a]"
  "ascii ''},\"ui\":{\"locale\":'' =
     [0x7d, 0x2c] @ append_json_string [] (ascii ''ui'') @ [0x3a, 0x7b] @ append_json_string [] (ascii ''locale'') @ [0x3a]"
  "ascii '',\"skip_title\":'' = [0x2c] @ append_json_string [] (ascii ''skip_title'') @ [0x3a]"
  "ascii ''},\"history\":{\"initialized\":'' =
     [0x7d, 0x2c] @ append_json_string [] (ascii ''history'') @ [0x3a, 0x7b] @ append_json_string [] (ascii ''initialized'') @ [0x3a]"
  "ascii ''}}'' = [0x7d, 0x7d]"
  by code_simp+

lemma append_string: "append_json_string out s = out @ append_json_string [] s"
  by (simp add: append_json_string_def)

lemma locale_code_nonempty: "stored_locale_code l \<noteq> []"
  by (cases l) (simp_all add: stored_locale_code_def ascii_def)

lemma serialize_render:
  assumes "generation st \<noteq> 0" "length (render (settings_value st)) < kMaxSettingsJsonBytes"
  shows "serialize_settings_json st = Inr (render (settings_value st) @ [0x0a])"
proof -
  have "serialize_settings_json st =
     (let out = render (settings_value st) @ [0x0a] in if length out > kMaxSettingsJsonBytes then Inl JsonTooLarge else Inr out)"
    unfolding serialize_settings_json_def Let_def using assms(1) locale_code_nonempty [of "st_locale st"]
    by (simp only: written_keys append_string [of "_ @ _"] append_string [of "_ # _"] append_assoc append_Cons append_Nil if_False
        settings_value_def render.simps comma_separated.simps list.map prod.case json_boolean_def)
  then show ?thesis using assms(2) by simp
qed

lemma settings_value_read:
  assumes "settings_ok st"
  shows "read_settings (settings_value st) = Inr st"
proof -
  let ?u = "install_uuid (st_install_id st)"
  have u: "uuid_parse (uuid_to_string ?u) = Some ?u" "uuid_is_v4 ?u"
    using assms uuid_text_roundtrip [of ?u] by (simp_all add: settings_ok_def uuid_ok_def)
  have l: "read_locale (stored_locale_code l) = Some l" for l
    by (cases l) (simp_all add: read_locale_def stored_locale_code_def)
  have i: "InstallId ?u = st_install_id st" "UserId (user_id_value (st_user_id st)) = st_user_id st" by simp_all
  show ?thesis
    using assms u i l
    by (simp add: read_settings_def settings_value_def has_only_keys_def json_member_def read_identity_def read_ui_def
        read_history_def json_boolean_def settings_ok_def canonical_uint64_roundtrip user_id_create_ok [of "user_id_value (st_user_id st)"])
qed

lemma settings_value_ok: "json_ok kMaximumJsonNesting (settings_value st)"
proof -
  have "number_text (ascii ''2'')"
    unfolding number_text_def
    by (intro exI [of _ "[]"] exI [of _ "ascii ''2''"])
      (simp add: integer_text_def digits_text_def is_digit_def fraction_text_def exponent_text_def ascii_def)
  moreover have "json_ok n (json_boolean b)" for n b by (cases n) (simp_all add: json_boolean_def)
  moreover have "json_ok n (JsonString s)" for n s by (cases n) simp_all
  moreover have "json_ok n (JsonNumber s) \<longleftrightarrow> number_text s" for n s by (cases n) simp_all
  moreover obtain n where n: "kMaximumJsonNesting = Suc (Suc n)" using that [of 10] by (simp add: kMaximumJsonNesting_def)
  ultimately show ?thesis unfolding n settings_value_def by simp
qed

lemma json_parse_render:
  assumes "json_ok kMaximumJsonNesting v" "list_all is_json_space ws"
  shows "json_parse (render v @ ws) = Inr v"
proof -
  obtain c cs where c: "render v = c # cs" "\<not> is_json_space c" "c \<noteq> 0x5d" "c \<noteq> 0x7d" using assms(1) by (rule render_hd)
  have "number_stop ws" using assms(2) by (cases ws) (auto simp: number_stop_def is_json_space_def is_digit_def)
  from parse_value_reads [OF assms(1) this] c have "parse_value kMaximumJsonNesting (skip_whitespace (render v @ ws)) = Inr (v, ws)"
    by simp
  moreover have "skip_whitespace ws = []" using assms(2) by (simp add: skip_whitespace_def list_all_iff)
  ultimately show ?thesis by (simp add: json_parse_def)
qed

lemma json_boolean_render:
  "is_valid_utf8 (render (json_boolean b))" "length (render (json_boolean b)) \<le> 5"
  by (cases b; auto intro!: utf8_low simp: json_boolean_def ascii_literals)+

lemma utf8_ascii: "list_all (\<lambda>c. of_char c < (0x80 :: nat)) s \<Longrightarrow> is_valid_utf8 (ascii s)"
  by (rule utf8_low) (simp add: ascii_def list.pred_map comp_def unat_of_char)

lemma utf8_digits_text: "list_all is_digit ds \<Longrightarrow> is_valid_utf8 ds"
  by (rule utf8_low) (auto simp: list_all_iff is_digit_def word_le_nat_alt)

lemma hex_digit_low: "unat n < 16 \<Longrightarrow> unat (hex_digit n) < 0x80"
proof -
  assume "unat n < 16"
  then have "n \<in> {0, 1, 2, 3, 4, 5, 6, 7, 8, 9, 10, 11, 12, 13, 14, 15}"
    using less_16_cases by (simp add: word_unat_eq_iff)
  then show ?thesis by (elim insertE emptyE) (simp_all add: hex_digit_def)
qed

lemma utf8_uuid: "is_valid_utf8 (uuid_to_string u)"
proof -
  have "list_all (\<lambda>c. unat c < 0x80) (uuid_to_string_loop u i)" for i
    by (induction u arbitrary: i) (auto simp: hex_digit_low nibble_bound)
  then show ?thesis unfolding uuid_to_string_def by (rule utf8_low)
qed

lemma utf8_comma: "list_all is_valid_utf8 xs \<Longrightarrow> is_valid_utf8 (comma_separated xs)"
proof (induction xs rule: comma_separated.induct)
  case 1
  show ?case by (simp add: utf8_low)
next
  case (3 x y ys)
  have "is_valid_utf8 [0x2c]" by (rule utf8_low) simp
  then show ?case using 3 by (auto intro!: utf8_append simp del: append_Cons append_Nil)
qed simp

lemma utf8_object:
  assumes "list_all (\<lambda>m. is_valid_utf8 (fst m) \<and> is_valid_utf8 (render (snd m))) ms"
  shows "is_valid_utf8 (render (JsonObject ms))"
proof -
  have c: "is_valid_utf8 [c]" if "unat c < 0x80" for c using that by (intro utf8_low) simp
  have "is_valid_utf8 (render_member m)" if "m \<in> set ms" for m
    using assms that c [of "0x3a"] unfolding render_member_def
    by (intro utf8_append utf8_json_string) (auto simp: list_all_iff)
  then have "is_valid_utf8 (comma_separated (map render_member ms))"
    by (intro utf8_comma) (simp add: list.pred_map list_all_iff)
  then have "is_valid_utf8 ([0x7b] @ comma_separated (map render_member ms) @ [0x7d])" by (intro utf8_append c) simp_all
  then show ?thesis by (simp add: render_object del: render.simps)
qed

lemma settings_value_utf8: "settings_ok st \<Longrightarrow> is_valid_utf8 (render (settings_value st))"
proof -
  assume ok: "settings_ok st"
  have str: "is_valid_utf8 (render (JsonString s))" if "is_valid_utf8 s" for s using utf8_json_string [OF that] by simp
  have num: "is_valid_utf8 (render (JsonNumber (ascii ''2'')))" by (simp add: utf8_ascii)
  have dec: "is_valid_utf8 (to_decimal n)" for n using to_decimal_digits [of n] utf8_digits_text by blast
  have user: "is_valid_utf8 (user_id_value (st_user_id st))"
    using ok validate_text_valid(3) [of _ 24 True] by (simp add: settings_ok_def user_id_ok_def)
  have code: "is_valid_utf8 (stored_locale_code (st_locale st))"
    by (cases "st_locale st") (simp_all add: stored_locale_code_def utf8_ascii)
  show ?thesis
    unfolding settings_value_def kSettingsFormat_def
    by (simp add: utf8_object str num dec user code utf8_uuid json_boolean_render utf8_ascii del: render.simps)
qed


lemma comma_length_le: "length (comma_separated xs) \<le> sum_list (map length xs) + length xs"
  by (induction xs rule: comma_separated.induct) auto

lemma object_length:
  "length (render (JsonObject ms)) \<le> 2 + sum_list (map (\<lambda>m. 6 * length (fst m) + 4 + length (render (snd m))) ms)"
proof -
  have "length (render_member m) + 1 \<le> 6 * length (fst m) + 4 + length (render (snd m))" for m
    using json_string_length [of "fst m"] by (simp add: render_member_def)
  then have "sum_list (map (\<lambda>m. length (render_member m) + 1) ms) \<le>
      sum_list (map (\<lambda>m. 6 * length (fst m) + 4 + length (render (snd m))) ms)" by (intro sum_list_mono) auto
  moreover have "sum_list (map (\<lambda>m. length (render_member m) + 1) ms) = sum_list (map length (map render_member ms)) + length ms"
    by (induction ms) auto
  ultimately show ?thesis using comma_length_le [of "map render_member ms"] by (simp add: render_object del: render.simps)
qed

lemma length_ascii [simp]: "length (ascii s) = length s"
  by (simp add: ascii_def)

lemma settings_value_length:
  assumes "settings_ok st"
  shows "length (render (settings_value st)) < kMaxSettingsJsonBytes"
proof -
  have str: "length (render (JsonString s)) \<le> 6 * k + 2" if "length s \<le> k" for s k
    using json_string_length [of s] that by simp
  have num: "length (render (JsonNumber (ascii ''2''))) \<le> 1" by simp
  have fmt: "length kSettingsFormat \<le> 23" by (simp add: kSettingsFormat_def)
  have user: "length (user_id_value (st_user_id st)) \<le> 24" using assms user_id_ok_length by (auto simp: settings_ok_def)
  have uuid: "length (uuid_to_string (install_uuid (st_install_id st))) \<le> 36"
    using assms uuid_to_string_dashes(1) by (simp add: settings_ok_def uuid_ok_def)
  have code: "length (stored_locale_code (st_locale st)) \<le> 7" by (cases "st_locale st") (simp_all add: stored_locale_code_def)
  note parts = str [OF fmt] num str [OF u64_decimal_length] str [OF uuid] str [OF user] str [OF code] json_boolean_render(2)
  let ?i = "JsonObject [(ascii ''install_uuid'', JsonString (uuid_to_string (install_uuid (st_install_id st)))),
          (ascii ''user_id'', JsonString (user_id_value (st_user_id st))),
          (ascii ''sender_sequence_high_watermark'', JsonString (to_decimal (unat (sender_sequence_high_watermark st))))]"
  let ?u = "JsonObject [(ascii ''locale'', JsonString (stored_locale_code (st_locale st))),
          (ascii ''skip_title'', json_boolean (st_skip_title st))]"
  let ?h = "JsonObject [(ascii ''initialized'', json_boolean (history_initialized st))]"
  have "length (render ?i) \<le> 1000"
    using object_length [of "json_object ?i"] parts(4,5) parts(3) [of "sender_sequence_high_watermark st"] by (simp del: render.simps)
  moreover have "length (render ?u) \<le> 500"
    using object_length [of "json_object ?u"] parts(6) parts(7) [of "st_skip_title st"] by (simp del: render.simps)
  moreover have "length (render ?h) \<le> 500"
    using object_length [of "json_object ?h"] parts(7) [of "history_initialized st"] by (simp del: render.simps)
  ultimately show ?thesis
    using object_length [of "json_object (settings_value st)"] parts(1,2) parts(3) [of "generation st"]
    by (simp add: settings_value_def del: render.simps)
qed

lemma written_settings_parse:
  assumes "settings_ok st"
  shows "serialize_settings_json st = Inr (render (settings_value st) @ [0x0a])"
    "parse_settings_json (render (settings_value st) @ [0x0a]) = Inr st"
proof -
  have len: "length (render (settings_value st)) < kMaxSettingsJsonBytes" by (rule settings_value_length [OF assms])
  show "serialize_settings_json st = Inr (render (settings_value st) @ [0x0a])"
    using assms len by (intro serialize_render) (auto simp: settings_ok_def)
  have "is_valid_utf8 (render (settings_value st) @ [0x0a])"
    by (intro utf8_append settings_value_utf8 assms utf8_low) simp
  moreover have "json_parse (render (settings_value st) @ [0x0a]) = Inr (settings_value st)"
    by (rule json_parse_render [OF settings_value_ok]) (simp add: is_json_space_def)
  ultimately show "parse_settings_json (render (settings_value st) @ [0x0a]) = Inr st"
    using len settings_value_read [OF assms] by (simp add: parse_settings_json_def)
qed

lemma uuid_parse_wf: "uuid_parse v = Some u \<Longrightarrow> uuid_wf u"
proof -
  have "uuid_parse_loop cs i n out = Some (k, u) \<Longrightarrow> length u = length out" for cs i n out k
    by (induction cs i n out rule: uuid_parse_loop.induct) (auto simp: Let_def split: if_splits option.splits)
  then show "uuid_parse v = Some u \<Longrightarrow> uuid_wf u"
    by (fastforce simp: uuid_parse_def uuid_wf_def split: if_splits option.splits)
qed

lemma read_identity_valid:
  "read_identity v = Inr (i, u, n) \<Longrightarrow> uuid_ok (install_uuid i) \<and> user_id_ok u"
  using uuid_parse_wf
  by (auto simp: read_identity_def uuid_ok_def split: if_splits option.splits sum.splits)

lemma read_settings_valid: "read_settings v = Inr st \<Longrightarrow> settings_ok st"
  by (auto simp: read_settings_def settings_ok_def Let_def split: if_splits option.splits sum.splits dest!: read_identity_valid)

lemma parse_settings_valid: "parse_settings_json json = Inr st \<Longrightarrow> settings_ok st"
  using read_settings_valid by (auto simp: parse_settings_json_def split: if_splits sum.splits)

section \<open>Properties\<close>

text \<open>C7: The settings file loses nothing. Every valid record (positive generation, valid identity) is written within
  the size limit and read back as the same record, and every record the reader returns, from whatever text, is
  valid, so it is again written and read back unchanged.\<close>

theorem settings_file_roundtrip:
  "(settings_ok st \<longleftrightarrow> (\<exists>json. serialize_settings_json st = Inr json \<and> parse_settings_json json = Inr st)) \<and>
   (settings_ok st \<longleftrightarrow> (\<exists>json. parse_settings_json json = Inr st))"
  using written_settings_parse parse_settings_valid by blast

text \<open>The JSON reader returns exactly the values it should: a value can be read from some text if and only if its
  objects have no repeated keys, its numbers follow the number grammar and its nesting is within the limit; and it is
  then read from its own printed form with any white space after it.\<close>

theorem json_reader_values:
  "(\<exists>input. json_parse input = Inr v) \<longleftrightarrow> json_ok kMaximumJsonNesting v \<and>
     json_parse (render v @ [0x20, 0x0a]) = Inr v"
proof
  assume "\<exists>input. json_parse input = Inr v"
  then obtain input where "json_parse input = Inr v" by blast
  then have "json_ok kMaximumJsonNesting v"
    using parse_value_sound [of kMaximumJsonNesting "skip_whitespace input"]
    by (cases "parse_value kMaximumJsonNesting (skip_whitespace input)") (auto simp: json_parse_def split: if_splits)
  then show "json_ok kMaximumJsonNesting v \<and> json_parse (render v @ [0x20, 0x0a]) = Inr v"
    using json_parse_render [of v "[0x20, 0x0a]"] by (simp add: is_json_space_def)
qed blast

text \<open>The reader's loops end by themselves: any larger number of rounds gives the same result as the length of the
  text, at every nesting.\<close>

theorem json_loops_end:
  assumes "length input \<le> rounds"
  shows "object_loop (parse_value n) rounds ms input = object_loop (parse_value n) (length input) ms input \<and>
    array_loop (parse_value n) rounds vs input = array_loop (parse_value n) (length input) vs input"
  using object_loop_rounds [OF parse_value_consumes assms order_refl] array_loop_rounds [OF parse_value_consumes assms order_refl]
  by blast

theorem json_loops_end_witness:
  "object_loop (parse_value 1) 9 [] (ascii ''\"a\":1}'') = object_loop (parse_value 1) (length (ascii ''\"a\":1}'')) [] (ascii ''\"a\":1}'')"
  using json_loops_end [of "ascii ''\"a\":1}''" 9 1 "[]" "[]"] by (simp add: ascii_def)

end
