(* ===== verification/Platform_Script.thy ===== *)
theory Platform_Script
  imports Storage_Settings
begin

text \<open>
  Model of \<^verbatim>\<open>src/platform/app_script_parser.cpp\<close>: the language of the scripts that drive the program, its lexical rules, the
  percent-encoded text and the limits. A script is its bytes; the loops return \<open>Inl\<close> where the code leaves them early.
  The second half writes scripts and shows that the parser reads them back.
\<close>

unbundle bit_operations_syntax

section \<open>Definitions\<close>

definition kMaximumSourceBytes :: nat where [limits, simp]: "kMaximumSourceBytes = 16384"
definition kMaximumTokenBytes :: nat where [limits, simp]: "kMaximumTokenBytes = 512"
definition kMaximumActions :: nat where [limits, simp]: "kMaximumActions = 1024"
definition kMaximumTextBytes :: nat where [limits, simp]: "kMaximumTextBytes = 160"
definition kMinimumIntervalMilliseconds :: u32 where [limits, simp]: "kMinimumIntervalMilliseconds = 20"
definition kMaximumIntervalMilliseconds :: u32 where [limits, simp]: "kMaximumIntervalMilliseconds = 5000"
definition kDefaultIntervalMilliseconds :: u32 where [limits, simp]: "kDefaultIntervalMilliseconds = 200"
definition kMaximumWaitTicks :: u32 where [limits, simp]: "kMaximumWaitTicks = 100"
definition kMaximumAwaitTicks :: u32 where [limits, simp]: "kMaximumAwaitTicks = 50"

datatype action_type = ActionKey | ActionWait | ActionScreenshot | ActionExpect | ActionAwait | ActionCloseWindow

datatype script_key = NamedNone | NamedHome | NamedEscape | NamedUp | NamedDown | NamedLeft | NamedRight | NamedEnter
  | NamedBackspace | NamedTab

record script_action =
  sa_type :: action_type
  sa_named_key :: script_key
  sa_scalar :: u32
  sa_field :: bytes
  sa_value :: bytes

datatype script_error = ScriptNone | SourceTooLong | EmptyToken | TokenTooLong | UnknownToken | InvalidValue
  | InvalidTextEncoding | UnsafeText | TooManyActions | CloseMustBeLast

record parse_result =
  pr_actions :: "script_action list"
  pr_error :: script_error
  pr_token_index :: nat
  pr_diagnostic :: bytes

record interval_result =
  ir_milliseconds :: u32
  ir_valid :: bool
  ir_diagnostic :: bytes

definition is_ascii_space :: "byte \<Rightarrow> bool" where
  "is_ascii_space character \<longleftrightarrow>
     character = 0x20 \<or> character = 0x09 \<or> character = 0x0a \<or> character = 0x0d \<or> character = 0x0c \<or> character = 0x0b"

definition trim :: "bytes \<Rightarrow> bytes" where
  "trim value = rev (dropWhile is_ascii_space (rev (dropWhile is_ascii_space value)))"

definition ascii_upper :: "byte \<Rightarrow> byte" where
  "ascii_upper character = (if 0x61 \<le> character \<and> character \<le> 0x7a then character - 0x20 else character)"

definition ascii_equal :: "bytes \<Rightarrow> bytes \<Rightarrow> bool" where
  "ascii_equal left right \<longleftrightarrow>
     length left = length right \<and> list_all2 (\<lambda>lhs rhs. ascii_upper lhs = ascii_upper rhs) left right"

definition ascii_starts_with :: "bytes \<Rightarrow> bytes \<Rightarrow> bool" where
  "ascii_starts_with value pre \<longleftrightarrow> length pre \<le> length value \<and> ascii_equal (take (length pre) value) pre"

definition failure :: "script_error \<Rightarrow> nat \<Rightarrow> bytes \<Rightarrow> parse_result" where
  "failure error token_index diagnostic =
     \<lparr>pr_actions = [], pr_error = error, pr_token_index = token_index, pr_diagnostic = diagnostic\<rparr>"

text \<open>\<open>Inl\<close> is the result that the caller returns at once.\<close>

definition append_action :: "parse_result \<Rightarrow> script_action \<Rightarrow> nat \<Rightarrow> parse_result + parse_result" where
  "append_action result action token_index =
     (if length (pr_actions result) \<ge> kMaximumActions
      then Inl (failure TooManyActions token_index (ascii ''expanded action count exceeds 1024''))
      else Inr (result\<lparr>pr_actions := pr_actions result @ [action]\<rparr>))"

fun append_each :: "parse_result \<Rightarrow> script_action list \<Rightarrow> nat \<Rightarrow> parse_result + parse_result" where
  "append_each result [] token_index = Inr result"
| "append_each result (a # as) token_index =
     (case append_action result a token_index of
        Inl r \<Rightarrow> Inl r
      | Inr r \<Rightarrow> append_each r as token_index)"

fun decimal_loop :: "bytes \<Rightarrow> u32 \<Rightarrow> u32 option" where
  "decimal_loop [] accumulator = Some accumulator"
| "decimal_loop (character # rest) accumulator =
     (if character < 0x30 \<or> character > 0x39 then None
      else let digit = ucast (character - 0x30)
           in if accumulator > (- 1 - digit) div 10 then None
              else decimal_loop rest (accumulator * 10 + digit))"

definition parse_decimal :: "bytes \<Rightarrow> u32 option" where
  "parse_decimal value = (if value = [] then None else decimal_loop value 0)"

definition is_unreserved :: "byte \<Rightarrow> bool" where
  "is_unreserved c \<longleftrightarrow>
     (0x61 \<le> c \<and> c \<le> 0x7a) \<or> (0x41 \<le> c \<and> c \<le> 0x5a) \<or> (0x30 \<le> c \<and> c \<le> 0x39) \<or>
     c = 0x2d \<or> c = 0x2e \<or> c = 0x5f \<or> c = 0x7e"

definition script_hex_value :: "byte \<Rightarrow> int" where
  "script_hex_value c =
     (if 0x30 \<le> c \<and> c \<le> 0x39 then uint c - 0x30
      else if 0x61 \<le> c \<and> c \<le> 0x66 then 10 + uint c - 0x61
      else if 0x41 \<le> c \<and> c \<le> 0x46 then 10 + uint c - 0x41
      else - 1)"

text \<open>The loops that fill a string return \<open>Inl\<close> the diagnostic where the code returns false.\<close>

fun percent_loop :: "bytes \<Rightarrow> bytes \<Rightarrow> bytes + bytes" where
  "percent_loop [] decoded = Inr decoded"
| "percent_loop (c # rest) decoded =
     (if c = 0x25
      then (case rest of
          c1 # c2 # rest' \<Rightarrow>
            (let high = script_hex_value c1; low = script_hex_value c2
             in if high < 0 \<or> low < 0 then Inl (ascii ''TEXT contains a non-hex percent escape'')
                else if length decoded \<ge> kMaximumTextBytes then Inl (ascii ''TEXT exceeds 160 decoded UTF-8 bytes'')
                else percent_loop rest' (decoded @ [word_of_int (push_bit 4 high OR low)]))
        | _ \<Rightarrow> Inl (ascii ''TEXT contains an incomplete percent escape''))
      else if c > 0x7f \<or> \<not> is_unreserved c
      then Inl (ascii ''TEXT reserved and non-ASCII bytes must use percent escapes'')
      else if length decoded \<ge> kMaximumTextBytes then Inl (ascii ''TEXT exceeds 160 decoded UTF-8 bytes'')
      else percent_loop rest (decoded @ [c]))"

definition percent_decode :: "bytes \<Rightarrow> bytes + bytes" where
  "percent_decode encoded =
     (if encoded = [] then Inl (ascii ''TEXT value must not be empty'') else percent_loop encoded [])"

definition is_unsafe_text_scalar :: "u32 \<Rightarrow> bool" where
  "is_unsafe_text_scalar codepoint \<longleftrightarrow>
     codepoint \<le> 0x1f \<or> (0x7f \<le> codepoint \<and> codepoint \<le> 0x9f) \<or> codepoint = 0x2028 \<or> codepoint = 0x2029 \<or>
     is_bidi_format codepoint \<or> is_noncharacter codepoint"

text \<open>The parser repeats the UTF-8 scanner of \<^verbatim>\<open>core/text.cpp\<close>: the lead table, the loop over the continuation bytes and
  the range checks are those of \<open>Core_Text\<close>.\<close>

function scalars_loop :: "bytes \<Rightarrow> u32 list \<Rightarrow> bytes + u32 list" where
  "scalars_loop value scalars =
     (if value = [] then Inr scalars
      else case utf8_lead (value ! 0) of
        None \<Rightarrow> Inl (ascii ''TEXT is not valid UTF-8'')
      | Some (lead, count) \<Rightarrow>
          if count > length value then Inl (ascii ''TEXT is not valid UTF-8'')
          else case utf8_continue (slice 1 (count - 1) value) lead of
            None \<Rightarrow> Inl (ascii ''TEXT is not valid UTF-8'')
          | Some codepoint \<Rightarrow>
              if utf8_ill_formed count codepoint then Inl (ascii ''TEXT is not valid scalar UTF-8'')
              else if is_unsafe_text_scalar codepoint
              then Inl (ascii ''TEXT contains a forbidden control or format scalar'')
              else scalars_loop (drop count value) (scalars @ [codepoint]))"
  by pat_completeness auto
termination
  by (relation "measure (\<lambda>(v, s). length v)") (auto dest: utf8_lead_count)

declare scalars_loop.simps [simp del]

text \<open>With no scalar the code returns false and leaves the diagnostic empty.\<close>

definition decode_utf8_scalars :: "bytes \<Rightarrow> bytes + u32 list" where
  "decode_utf8_scalars value =
     (case scalars_loop value [] of Inl d \<Rightarrow> Inl d | Inr scalars \<Rightarrow> if scalars = [] then Inl [] else Inr scalars)"

definition is_lower_alphanumeric :: "byte \<Rightarrow> bool" where
  "is_lower_alphanumeric c \<longleftrightarrow> (0x61 \<le> c \<and> c \<le> 0x7a) \<or> (0x30 \<le> c \<and> c \<le> 0x39)"

definition is_stable_atom :: "bytes \<Rightarrow> nat \<Rightarrow> bool" where
  "is_stable_atom value maximum \<longleftrightarrow>
     \<not> (value = [] \<or> length value > maximum \<or> hd value < 0x61 \<or> hd value > 0x7a) \<and>
     list_all (\<lambda>c. (0x61 \<le> c \<and> c \<le> 0x7a) \<or> (0x30 \<le> c \<and> c \<le> 0x39) \<or> c = 0x2e \<or> c = 0x5f \<or> c = 0x2d) value"

definition is_stable_value :: "bytes \<Rightarrow> nat \<Rightarrow> bool" where
  "is_stable_value value maximum \<longleftrightarrow>
     \<not> (value = [] \<or> length value > maximum \<or> \<not> is_lower_alphanumeric (hd value)) \<and>
     list_all (\<lambda>c. (0x61 \<le> c \<and> c \<le> 0x7a) \<or> (0x30 \<le> c \<and> c \<le> 0x39) \<or> c = 0x2e \<or> c = 0x5f \<or> c = 0x2d) value"

definition is_probe_field :: "bytes \<Rightarrow> bool" where
  "is_probe_field field \<longleftrightarrow>
     field \<in> set [ascii ''screen'', ascii ''modal'', ascii ''locale'', ascii ''focus'', ascii ''status'',
       ascii ''count'', ascii ''persistence'', ascii ''newest-state'']"

definition parse_probe :: "bytes \<Rightarrow> bytes + bytes \<times> bytes" where
  "parse_probe payload =
     (let field = takeWhile (\<lambda>c. c \<noteq> 0x3a) payload; value = drop (length field + 1) payload
      in if 0x3a \<notin> set payload \<or> 0x3a \<in> set value then Inl (ascii ''expectation must use field:value'')
         else if \<not> is_stable_atom field 16 \<or> \<not> is_probe_field field
         then Inl (ascii ''expectation uses an unsupported field'')
         else if \<not> is_stable_value value 64
         then Inl (ascii ''expectation value is not a stable lowercase ASCII id'')
         else Inr (field, value))"

definition named_key_for :: "bytes \<Rightarrow> script_key" where
  "named_key_for token =
     (if ascii_equal token (ascii ''HOME'') then NamedHome
      else if ascii_equal token (ascii ''ESC'') then NamedEscape
      else if ascii_equal token (ascii ''UP'') then NamedUp
      else if ascii_equal token (ascii ''DOWN'') then NamedDown
      else if ascii_equal token (ascii ''LEFT'') then NamedLeft
      else if ascii_equal token (ascii ''RIGHT'') then NamedRight
      else if ascii_equal token (ascii ''ENTER'') then NamedEnter
      else if ascii_equal token (ascii ''BACKSPACE'') then NamedBackspace
      else if ascii_equal token (ascii ''TAB'') then NamedTab
      else NamedNone)"

definition is_safe_screenshot_stem :: "bytes \<Rightarrow> bool" where
  "is_safe_screenshot_stem stem \<longleftrightarrow>
     \<not> (stem = [] \<or> length stem > 64) \<and> is_lower_alphanumeric (hd stem) \<and> is_lower_alphanumeric (last stem) \<and>
     list_all (\<lambda>c. is_lower_alphanumeric c \<or> c = 0x2e \<or> c = 0x5f \<or> c = 0x2d) stem"

definition action_of :: "action_type \<Rightarrow> script_key \<Rightarrow> u32 \<Rightarrow> bytes \<Rightarrow> bytes \<Rightarrow> script_action" where
  "action_of t k scalar field value =
     \<lparr>sa_type = t, sa_named_key = k, sa_scalar = scalar, sa_field = field, sa_value = value\<rparr>"

text \<open>The body of the loop for one token; \<open>final\<close> is \<^verbatim>\<open>end == npos\<close>.\<close>

definition parse_token :: "bytes \<Rightarrow> bool \<Rightarrow> nat \<Rightarrow> parse_result \<Rightarrow> parse_result + parse_result" where
  "parse_token token final token_index result =
     (if token = [] then Inl (failure EmptyToken token_index (ascii ''empty script token is not allowed''))
      else if length token > kMaximumTokenBytes
      then Inl (failure TokenTooLong token_index (ascii ''script token exceeds 512 bytes''))
      else if named_key_for token \<noteq> NamedNone
      then append_action result (action_of ActionKey (named_key_for token) 0 [] []) token_index
      else if ascii_equal token (ascii ''N'') \<or> ascii_equal token (ascii ''R'') \<or> ascii_equal token (ascii ''M'') \<or>
              ascii_equal token (ascii ''S'') \<or> ascii_equal token (ascii ''D'')
      then append_action result
             (action_of ActionKey NamedNone (ucast (ascii_upper (hd token)) - 0x41 + 0x61) [] []) token_index
      else if ascii_equal token (ascii ''WAIT'')
      then append_action result (action_of ActionWait NamedNone 0 [] []) token_index
      else if ascii_starts_with token (ascii ''WAIT='')
      then (case parse_decimal (drop 5 token) of
              None \<Rightarrow> Inl (failure InvalidValue token_index (ascii ''WAIT count must be an integer from 1 through 100''))
            | Some count \<Rightarrow>
                if count = 0 \<or> count > kMaximumWaitTicks
                then Inl (failure InvalidValue token_index (ascii ''WAIT count must be an integer from 1 through 100''))
                else append_each result (replicate (unat count) (action_of ActionWait NamedNone 0 [] [])) token_index)
      else if ascii_starts_with token (ascii ''TEXT='')
      then (case percent_decode (drop 5 token) of
              Inl diagnostic \<Rightarrow> Inl (failure InvalidTextEncoding token_index diagnostic)
            | Inr decoded \<Rightarrow>
                (case decode_utf8_scalars decoded of
                   Inl diagnostic \<Rightarrow> Inl (failure UnsafeText token_index diagnostic)
                 | Inr scalars \<Rightarrow>
                     append_each result (map (\<lambda>scalar. action_of ActionKey NamedNone scalar [] []) scalars) token_index))
      else if ascii_starts_with token (ascii ''SHOT='')
      then (let stem = drop 5 token
            in if stem \<noteq> [] \<and> \<not> is_safe_screenshot_stem stem
               then Inl (failure InvalidValue token_index (ascii ''SHOT stem is not a canonical safe lowercase name''))
               else append_action result (action_of ActionScreenshot NamedNone 0 [] stem) token_index)
      else if ascii_starts_with token (ascii ''EXPECT='') \<or> ascii_starts_with token (ascii ''AWAIT='')
      then (let await = ascii_starts_with token (ascii ''AWAIT=''); prefix_size = (if await then 6 else 7)
            in case parse_probe (drop prefix_size token) of
                 Inl diagnostic \<Rightarrow> Inl (failure InvalidValue token_index diagnostic)
               | Inr (field, value) \<Rightarrow>
                   append_action result
                     (action_of (if await then ActionAwait else ActionExpect) NamedNone 0 field value) token_index)
      else if ascii_equal token (ascii ''CLOSE'')
      then (if \<not> final
            then Inl (failure CloseMustBeLast token_index (ascii ''CLOSE must be the final script token''))
            else append_action result (action_of ActionCloseWindow NamedNone 0 [] []) token_index)
      else Inl (failure UnknownToken token_index (ascii ''unknown script token'')))"

text \<open>The loop; the position is the part of the source still to read, and \<open>token_index\<close> counts the tokens before it.\<close>

function parse_loop :: "bytes \<Rightarrow> nat \<Rightarrow> parse_result \<Rightarrow> parse_result" where
  "parse_loop source token_index result =
     (let field = takeWhile (\<lambda>c. c \<noteq> 0x2c) source; final = (0x2c \<notin> set source)
      in case parse_token (trim field) final (token_index + 1) result of
           Inl r \<Rightarrow> r
         | Inr r \<Rightarrow> if final then r else parse_loop (drop (length field + 1) source) (token_index + 1) r)"
  by pat_completeness auto
termination
  by (relation "measure (\<lambda>(v, i, r). length v)") (auto simp: in_set_conv_decomp)

declare parse_loop.simps [simp del]

definition parse :: "bytes \<Rightarrow> parse_result" where
  "parse source =
     (if length source > kMaximumSourceBytes
      then failure SourceTooLong 0 (ascii ''script source exceeds 16384 bytes'')
      else let result = failure ScriptNone 0 []
           in if source = [] then result else parse_loop source 0 result)"

definition interval_error :: interval_result where
  "interval_error = \<lparr>ir_milliseconds = kDefaultIntervalMilliseconds, ir_valid = False,
     ir_diagnostic = ascii ''APP_SCRIPT_INTERVAL_MS must be an integer from 20 through 5000''\<rparr>"

definition parse_interval :: "bytes option \<Rightarrow> interval_result" where
  "parse_interval configured =
     (case configured of
        None \<Rightarrow> \<lparr>ir_milliseconds = kDefaultIntervalMilliseconds, ir_valid = True, ir_diagnostic = []\<rparr>
      | Some value \<Rightarrow>
          if length value > 10 then interval_error
          else case parse_decimal value of
            None \<Rightarrow> interval_error
          | Some parsed \<Rightarrow>
              if parsed < kMinimumIntervalMilliseconds \<or> parsed > kMaximumIntervalMilliseconds then interval_error
              else \<lparr>ir_milliseconds = parsed, ir_valid = True, ir_diagnostic = []\<rparr>)"

section \<open>Tokens\<close>

text \<open>The actions of one token, or the error it is rejected with.\<close>

definition token_actions :: "bytes \<Rightarrow> bool \<Rightarrow> (script_error \<times> bytes) + script_action list" where
  "token_actions token final =
     (if token = [] then Inl (EmptyToken, ascii ''empty script token is not allowed'')
      else if length token > 512 then Inl (TokenTooLong, ascii ''script token exceeds 512 bytes'')
      else if named_key_for token \<noteq> NamedNone then Inr [action_of ActionKey (named_key_for token) 0 [] []]
      else if ascii_equal token (ascii ''N'') \<or> ascii_equal token (ascii ''R'') \<or> ascii_equal token (ascii ''M'') \<or>
              ascii_equal token (ascii ''S'') \<or> ascii_equal token (ascii ''D'')
      then Inr [action_of ActionKey NamedNone (ucast (ascii_upper (hd token)) - 0x41 + 0x61) [] []]
      else if ascii_equal token (ascii ''WAIT'') then Inr [action_of ActionWait NamedNone 0 [] []]
      else if ascii_starts_with token (ascii ''WAIT='')
      then (case parse_decimal (drop 5 token) of
              None \<Rightarrow> Inl (InvalidValue, ascii ''WAIT count must be an integer from 1 through 100'')
            | Some count \<Rightarrow>
                if count = 0 \<or> count > 100
                then Inl (InvalidValue, ascii ''WAIT count must be an integer from 1 through 100'')
                else Inr (replicate (unat count) (action_of ActionWait NamedNone 0 [] [])))
      else if ascii_starts_with token (ascii ''TEXT='')
      then (case percent_decode (drop 5 token) of
              Inl diagnostic \<Rightarrow> Inl (InvalidTextEncoding, diagnostic)
            | Inr decoded \<Rightarrow>
                (case decode_utf8_scalars decoded of
                   Inl diagnostic \<Rightarrow> Inl (UnsafeText, diagnostic)
                 | Inr scalars \<Rightarrow> Inr (map (\<lambda>scalar. action_of ActionKey NamedNone scalar [] []) scalars)))
      else if ascii_starts_with token (ascii ''SHOT='')
      then (if drop 5 token \<noteq> [] \<and> \<not> is_safe_screenshot_stem (drop 5 token)
            then Inl (InvalidValue, ascii ''SHOT stem is not a canonical safe lowercase name'')
            else Inr [action_of ActionScreenshot NamedNone 0 [] (drop 5 token)])
      else if ascii_starts_with token (ascii ''EXPECT='') \<or> ascii_starts_with token (ascii ''AWAIT='')
      then (let await = ascii_starts_with token (ascii ''AWAIT='')
            in case parse_probe (drop (if await then 6 else 7) token) of
                 Inl diagnostic \<Rightarrow> Inl (InvalidValue, diagnostic)
               | Inr (field, value) \<Rightarrow>
                   Inr [action_of (if await then ActionAwait else ActionExpect) NamedNone 0 field value])
      else if ascii_equal token (ascii ''CLOSE'')
      then (if \<not> final then Inl (CloseMustBeLast, ascii ''CLOSE must be the final script token'')
            else Inr [action_of ActionCloseWindow NamedNone 0 [] []])
      else Inl (UnknownToken, ascii ''unknown script token''))"

lemma append_action_each: "append_action r a i = append_each r [a] i"
  by (simp split: sum.splits)

lemma case_sum_branch:
  "case_sum f g (if b then x else y) = (if b then case_sum f g x else case_sum f g y)"
  "case_sum f g (case_option x' y' z) = case_option (case_sum f g x') (\<lambda>u. case_sum f g (y' u)) z"
  "case_sum f g (case_sum f' g' w) = case_sum (\<lambda>u. case_sum f g (f' u)) (\<lambda>u. case_sum f g (g' u)) w"
  "case_sum f g (case_prod h p) = case_prod (\<lambda>u v. case_sum f g (h u v)) p"
  by (simp_all split: option.split sum.split prod.split)

lemma parse_token_actions:
  "parse_token t final i r =
     (case token_actions t final of Inl (e, d) \<Rightarrow> Inl (failure e i d) | Inr as \<Rightarrow> append_each r as i)"
  unfolding parse_token_def token_actions_def append_action_each Let_def kMaximumTokenBytes_def kMaximumWaitTicks_def
  by (simp only: case_sum_branch sum.case prod.case)

lemma append_each_eq:
  "length (pr_actions r) \<le> 1024 \<Longrightarrow> append_each r as i =
     (if length (pr_actions r) + length as \<le> 1024 then Inr (r\<lparr>pr_actions := pr_actions r @ as\<rparr>)
      else Inl (failure TooManyActions i (ascii ''expanded action count exceeds 1024'')))"
  by (induction as arbitrary: r) (auto simp: append_action_def)

fun split_commas :: "bytes \<Rightarrow> bytes list" where
  "split_commas [] = [[]]"
| "split_commas (c # cs) = (if c = 0x2c then [] # split_commas cs else (c # hd (split_commas cs)) # tl (split_commas cs))"

lemma split_commas_nonempty [simp]: "split_commas s \<noteq> []"
  by (cases s) auto

lemma split_commas_take:
  "split_commas s = takeWhile (\<lambda>c. c \<noteq> 0x2c) s #
     (if 0x2c \<in> set s then split_commas (drop (length (takeWhile (\<lambda>c. c \<noteq> 0x2c) s) + 1) s) else [])"
  by (induction s) auto

fun tokens_loop :: "bytes list \<Rightarrow> nat \<Rightarrow> parse_result \<Rightarrow> parse_result" where
  "tokens_loop [] i r = r"
| "tokens_loop (t # ts) i r = (case parse_token t (ts = []) (i + 1) r of Inl r' \<Rightarrow> r' | Inr r' \<Rightarrow> tokens_loop ts (i + 1) r')"

lemma parse_loop_tokens: "parse_loop s i r = tokens_loop (map trim (split_commas s)) i r"
proof (induction s i r rule: parse_loop.induct)
  case (1 s i r)
  then show ?case
    by (subst parse_loop.simps, subst split_commas_take) (auto simp: Let_def split: sum.splits)
qed

section \<open>What an accepted script holds\<close>

text \<open>A file name of the screenshot directory: no separator, no leading dot.\<close>

definition plain_file_name :: "bytes \<Rightarrow> bool" where
  "plain_file_name v \<longleftrightarrow> 0x2f \<notin> set v \<and> 0 \<notin> set v \<and> take 1 v \<noteq> [0x2e]"

definition action_ok :: "script_action \<Rightarrow> bool" where
  "action_ok a \<longleftrightarrow>
     (case sa_type a of
        ActionKey \<Rightarrow> sa_named_key a \<noteq> NamedNone \<or> is_scalar (sa_scalar a) \<and> \<not> forbidden_codepoint True (sa_scalar a)
      | ActionScreenshot \<Rightarrow> plain_file_name (sa_value a)
      | ActionExpect \<Rightarrow> is_probe_field (sa_field a) \<and> sa_value a \<noteq> []
      | ActionAwait \<Rightarrow> is_probe_field (sa_field a) \<and> sa_value a \<noteq> []
      | _ \<Rightarrow> True)"

lemma unsafe_forbidden: "is_unsafe_text_scalar c = forbidden_codepoint True c"
  by (auto simp: is_unsafe_text_scalar_def forbidden_codepoint_def is_control_def is_unicode_line_separator_def Let_def)

lemma scalars_loop_step:
  "scalars_loop v acc =
     (if v = [] then Inr acc
      else case utf8_step v of
        None \<Rightarrow> Inl (projl (scalars_loop v acc))
      | Some (cp, n) \<Rightarrow> if is_unsafe_text_scalar cp then Inl (projl (scalars_loop v acc))
          else scalars_loop (drop n v) (acc @ [cp]))"
  by (subst (1 2 3) scalars_loop.simps) (auto simp: utf8_step_def split: option.splits)

lemma scalars_loop_sound:
  "scalars_loop v acc = Inr out \<Longrightarrow>
     \<exists>cps. out = acc @ cps \<and> v = concat (map encode_utf8 cps) \<and> list_all (\<lambda>c. is_scalar c \<and> \<not> is_unsafe_text_scalar c) cps"
proof (induction v acc rule: scalars_loop.induct)
  case (1 v acc)
  show ?case
  proof (cases "v = []")
    case True
    then show ?thesis using "1.prems" by (simp add: scalars_loop.simps)
  next
    case False
    then obtain cp n where st: "utf8_step v = Some (cp, n)" "\<not> is_unsafe_text_scalar cp"
        "scalars_loop (drop n v) (acc @ [cp]) = Inr out"
      using "1.prems" by (subst (asm) scalars_loop_step) (auto split: option.splits if_splits)
    from st(1) obtain l where l: "utf8_lead (v ! 0) = Some (l, n)" "\<not> n > length v"
        "utf8_continue (slice 1 (n - 1) v) l = Some cp" "\<not> utf8_ill_formed n cp"
      by (auto simp: utf8_step_def split: option.splits if_splits)
    obtain cps where cps: "out = acc @ cp # cps" "drop n v = concat (map encode_utf8 cps)"
        "list_all (\<lambda>c. is_scalar c \<and> \<not> is_unsafe_text_scalar c) cps"
      using "1.IH" [OF False l(1) refl l(2,3,4) st(2,3)] by auto
    have "is_scalar cp" "take n v = encode_utf8 cp" using st(1) utf8_step_iff [OF False] by auto
    then have "v = encode_utf8 cp @ concat (map encode_utf8 cps)" using cps(2) append_take_drop_id [of n v] by metis
    then show ?thesis using cps \<open>is_scalar cp\<close> st(2) by (intro exI [of _ "cp # cps"]) simp
  qed
qed

lemma scalars_loop_complete:
  "list_all (\<lambda>c. is_scalar c \<and> \<not> is_unsafe_text_scalar c) cps \<Longrightarrow>
     scalars_loop (concat (map encode_utf8 cps)) acc = Inr (acc @ cps)"
proof (induction cps arbitrary: acc)
  case (Cons cp cps)
  let ?v = "concat (map encode_utf8 (cp # cps))"
  have "?v \<noteq> []" using Cons.prems encode_utf8_nonempty by simp
  moreover from this have "utf8_step ?v = Some (cp, length (encode_utf8 cp))"
    using Cons.prems by (simp add: utf8_step_iff)
  ultimately have "scalars_loop ?v acc = scalars_loop (concat (map encode_utf8 cps)) (acc @ [cp])"
    using Cons.prems by (subst scalars_loop_step) (simp only: if_False option.case prod.case, simp)
  with Cons show ?case by simp
qed (simp add: scalars_loop.simps)

lemma decode_utf8_scalars_iff:
  "decode_utf8_scalars v = Inr cps \<longleftrightarrow>
     cps \<noteq> [] \<and> v = concat (map encode_utf8 cps) \<and> list_all (\<lambda>c. is_scalar c \<and> \<not> is_unsafe_text_scalar c) cps"
proof
  assume "decode_utf8_scalars v = Inr cps"
  then have "scalars_loop v [] = Inr cps" "cps \<noteq> []"
    by (auto simp: decode_utf8_scalars_def split: sum.splits if_splits)
  then show "cps \<noteq> [] \<and> v = concat (map encode_utf8 cps) \<and> list_all (\<lambda>c. is_scalar c \<and> \<not> is_unsafe_text_scalar c) cps"
    using scalars_loop_sound by fastforce
next
  assume "cps \<noteq> [] \<and> v = concat (map encode_utf8 cps) \<and> list_all (\<lambda>c. is_scalar c \<and> \<not> is_unsafe_text_scalar c) cps"
  then show "decode_utf8_scalars v = Inr cps" by (simp add: decode_utf8_scalars_def scalars_loop_complete)
qed

lemma ascii_equal_single: "ascii_equal t (ascii [ch]) \<longleftrightarrow> (\<exists>c. t = [c] \<and> ascii_upper c = ascii_upper (of_char ch))"
  by (auto simp: ascii_equal_def ascii_def list_all2_Cons2)

lemma letter_scalar:
  assumes "ascii_equal t (ascii ''N'') \<or> ascii_equal t (ascii ''R'') \<or> ascii_equal t (ascii ''M'') \<or>
    ascii_equal t (ascii ''S'') \<or> ascii_equal t (ascii ''D'')"
  shows "ucast (ascii_upper (hd t)) - 0x41 + 0x61 \<in> {0x6e, 0x72, 0x6d, 0x73, 0x64 :: u32}"
proof -
  obtain c where "t = [c]" "ascii_upper c \<in> {0x4e, 0x52, 0x4d, 0x53, 0x44}"
    using assms unfolding ascii_equal_single by (auto simp: ascii_upper_def)
  then show ?thesis by auto
qed

lemma letters_ok: "s \<in> {0x6e, 0x72, 0x6d, 0x73, 0x64} \<Longrightarrow> is_scalar s \<and> \<not> forbidden_codepoint True s"
  by (auto simp: is_scalar_def forbidden_codepoint_def is_control_def is_unicode_line_separator_def is_bidi_format_def
    is_noncharacter_def Let_def)

lemma stem_plain: "stem = [] \<or> is_safe_screenshot_stem stem \<Longrightarrow> plain_file_name stem"
  by (cases stem) (auto simp: plain_file_name_def is_safe_screenshot_stem_def is_lower_alphanumeric_def list_all_iff)

lemma parse_probe_ok: "parse_probe p = Inr (f, v) \<Longrightarrow> is_probe_field f \<and> v \<noteq> []"
  by (auto simp: parse_probe_def Let_def is_stable_value_def split: if_splits)

lemma ascii_empty [simp]: "ascii s = [] \<longleftrightarrow> s = []"
  by (simp add: ascii_def)

lemma parse_probe_error: "parse_probe p = Inl d \<Longrightarrow> d \<noteq> []"
  by (auto simp: parse_probe_def Let_def split: if_splits)

lemma percent_loop_length: "percent_loop e d = Inr out \<Longrightarrow> length d \<le> length out \<and> (e \<noteq> [] \<longrightarrow> length d < length out)"
proof (induction e d rule: percent_loop.induct)
  case (2 c rest decoded)
  show ?case
  proof (cases "c = 0x25")
    case True
    then obtain c1 c2 r where rest: "rest = c1 # c2 # r" "\<not> (script_hex_value c1 < 0 \<or> script_hex_value c2 < 0)" "\<not> kMaximumTextBytes \<le> length decoded"
        "percent_loop r (decoded @ [word_of_int (push_bit 4 (script_hex_value c1) OR script_hex_value c2)]) = Inr out"
      using "2.prems" by (auto simp: Let_def split: list.splits if_splits)
    show ?thesis using "2.IH"(1) [OF True rest(1) refl refl refl rest(2,3)] rest(4) by auto
  next
    case False
    then show ?thesis using "2.prems" "2.IH"(2) by (fastforce split: if_splits)
  qed
qed simp

lemma percent_decode_nonempty: "percent_decode e = Inr out \<Longrightarrow> out \<noteq> []"
  using percent_loop_length by (fastforce simp: percent_decode_def split: if_splits)

lemma percent_loop_error: "percent_loop e d = Inl m \<Longrightarrow> m \<noteq> []"
proof (induction e d rule: percent_loop.induct)
  case (2 c rest decoded)
  show ?case
  proof (cases "c = 0x25")
    case True
    show ?thesis
    proof (cases "\<exists>c1 c2 r. rest = c1 # c2 # r \<and> \<not> (script_hex_value c1 < 0 \<or> script_hex_value c2 < 0) \<and> \<not> kMaximumTextBytes \<le> length decoded")
      case rec: True
      then obtain c1 c2 r where rest: "rest = c1 # c2 # r" "\<not> (script_hex_value c1 < 0 \<or> script_hex_value c2 < 0)" "\<not> kMaximumTextBytes \<le> length decoded"
        by blast
      show ?thesis using "2.IH"(1) [OF True rest(1) refl refl refl rest(2,3)] "2.prems" True rest by (simp add: Let_def)
    next
      case stop: False
      then show ?thesis using "2.prems" True by (auto simp: Let_def split: list.splits if_splits)
    qed
  next
    case False
    then show ?thesis using "2.prems" "2.IH"(2) by (fastforce split: if_splits)
  qed
qed simp

lemma percent_decode_error: "percent_decode e = Inl m \<Longrightarrow> m \<noteq> []"
  using percent_loop_error by (auto simp: percent_decode_def split: if_splits)

lemma scalars_loop_error: "scalars_loop v acc = Inl m \<Longrightarrow> m \<noteq> []"
proof (induction v acc rule: scalars_loop.induct)
  case (1 v acc)
  then show ?case
    by (subst (asm) (2) scalars_loop.simps) (fastforce split: option.splits if_splits)
qed

lemma decode_utf8_scalars_error: "decode_utf8_scalars v = Inl m \<Longrightarrow> v \<noteq> [] \<Longrightarrow> m \<noteq> []"
  using scalars_loop_error [of v "[]"] scalars_loop_sound [of v "[]" "[]"]
  by (auto simp: decode_utf8_scalars_def split: sum.splits if_splits)

lemma token_actions_ok:
  assumes "token_actions t final = Inr as"
  shows "list_all action_ok as \<and> ((\<exists>a \<in> set as. sa_type a = ActionCloseWindow) \<longrightarrow> final \<and> length as = 1)"
proof -
  have typed: "action_ok (action_of ActionKey NamedNone c [] [])" if "decode_utf8_scalars v = Inr cps" "c \<in> set cps" for v cps c
    using that unfolding decode_utf8_scalars_iff
    by (auto simp: list_all_iff action_ok_def action_of_def unsafe_forbidden)
  have shot: "action_ok (action_of ActionScreenshot NamedNone 0 [] stem)" if "stem = [] \<or> is_safe_screenshot_stem stem" for stem
    using stem_plain [OF that] by (simp add: action_ok_def action_of_def)
  have probe: "action_ok (action_of ActionAwait NamedNone 0 f v)" "action_ok (action_of ActionExpect NamedNone 0 f v)"
    if "parse_probe p = Inr (f, v)" for p f v
    using parse_probe_ok [OF that] by (simp_all add: action_ok_def action_of_def)
  have key: "action_ok (action_of ActionKey NamedNone (32 + ucast (ascii_upper (hd t))) [] [])"
    if "ascii_equal t (ascii ''N'') \<or> ascii_equal t (ascii ''R'') \<or> ascii_equal t (ascii ''M'') \<or>
      ascii_equal t (ascii ''S'') \<or> ascii_equal t (ascii ''D'')"
    using letters_ok [OF letter_scalar [OF that]] by (simp add: action_ok_def action_of_def)
  have named: "action_ok (action_of ActionKey k 0 [] [])" if "k \<noteq> NamedNone" for k
    using that by (simp add: action_ok_def action_of_def)
  have plain: "action_ok (action_of ActionWait k s f v)" "action_ok (action_of ActionCloseWindow k s f v)" for k s f v
    by (simp_all add: action_ok_def action_of_def)
  have type: "sa_type (action_of ty k s f v) = ty" for ty k s f v by (simp add: action_of_def)
  show ?thesis using assms unfolding token_actions_def
    by (auto simp: Let_def shot named plain type key list_all_iff intro: probe typed
      split: if_splits option.splits sum.splits)
qed

lemma token_actions_error:
  assumes "token_actions t final = Inl (e, d)"
  shows "e \<noteq> ScriptNone \<and> d \<noteq> []"
  using assms unfolding token_actions_def
  by (auto simp: Let_def dest: percent_decode_error parse_probe_error decode_utf8_scalars_error percent_decode_nonempty
    split: if_splits option.splits sum.splits)

definition accepted_ok :: "bool \<Rightarrow> parse_result \<Rightarrow> bool" where
  "accepted_ok open_end r \<longleftrightarrow>
     pr_error r = ScriptNone \<and> length (pr_actions r) \<le> 1024 \<and> list_all action_ok (pr_actions r) \<and>
     (\<forall>a \<in> set (if open_end then pr_actions r else butlast (pr_actions r)). sa_type a \<noteq> ActionCloseWindow)"

definition rejected_ok :: "nat \<Rightarrow> parse_result \<Rightarrow> bool" where
  "rejected_ok tokens r \<longleftrightarrow>
     pr_error r \<noteq> ScriptNone \<and> pr_actions r = [] \<and> pr_token_index r \<le> tokens \<and> pr_diagnostic r \<noteq> []"

lemma accepted_weaken: "accepted_ok True r \<Longrightarrow> accepted_ok b r"
  by (auto simp: accepted_ok_def dest: in_set_butlastD)

lemma parse_token_ok:
  assumes "accepted_ok True r"
  shows "case parse_token t final i r of Inl r' \<Rightarrow> rejected_ok i r' | Inr r' \<Rightarrow> accepted_ok (\<not> final) r'"
proof (cases "token_actions t final")
  case (Inl p)
  then obtain e d where "token_actions t final = Inl (e, d)" by (cases p) auto
  then show ?thesis using token_actions_error [of t final e d] by (simp add: parse_token_actions failure_def rejected_ok_def)
next
  case (Inr as)
  have len: "length (pr_actions r) \<le> 1024" using assms by (simp add: accepted_ok_def)
  show ?thesis
  proof (cases "length (pr_actions r) + length as \<le> 1024")
    case True
    have e: "parse_token t final i r = Inr (r\<lparr>pr_actions := pr_actions r @ as\<rparr>)"
      using Inr True by (simp add: parse_token_actions append_each_eq [OF len])
    note a = token_actions_ok [OF Inr]
    have "accepted_ok (\<not> final) (r\<lparr>pr_actions := pr_actions r @ as\<rparr>)"
    proof (cases "\<exists>a \<in> set as. sa_type a = ActionCloseWindow")
      case closes: True
      then obtain a0 where "as = [a0]" "final" using a by (metis length_0_conv length_Suc_conv One_nat_def)
      then show ?thesis using assms a True by (simp add: accepted_ok_def)
    next
      case False
      then show ?thesis using assms a True by (auto simp: accepted_ok_def dest!: in_set_butlastD)
    qed
    then show ?thesis by (simp add: e)
  next
    case False
    then show ?thesis using Inr by (simp add: parse_token_actions append_each_eq [OF len] failure_def rejected_ok_def)
  qed
qed

lemma tokens_loop_ok:
  "accepted_ok True r \<Longrightarrow> accepted_ok False (tokens_loop ts i r) \<or> rejected_ok (i + length ts) (tokens_loop ts i r)"
proof (induction ts arbitrary: i r)
  case Nil
  then show ?case using accepted_weaken by simp
next
  case (Cons t ts)
  note p = parse_token_ok [OF Cons.prems, where t = t and final = "ts = []" and i = "i + 1"]
  show ?case
  proof (cases "parse_token t (ts = []) (i + 1) r")
    case (Inl r')
    then show ?thesis using p by (simp add: rejected_ok_def)
  next
    case (Inr r')
    then show ?thesis using p Cons.IH [of r' "i + 1"] by (cases "ts = []") auto
  qed
qed

lemma split_commas_count: "length (split_commas s) = length (filter (\<lambda>c. c = 0x2c) s) + 1"
  by (induction s) auto

section \<open>Decimal numbers\<close>

definition decimal_value :: "bytes \<Rightarrow> nat \<Rightarrow> nat" where
  "decimal_value ds a = foldl (\<lambda>a c. 10 * a + (unat c - 0x30)) a ds"

lemma decimal_value_simps [simp]:
  "decimal_value [] a = a" "decimal_value (c # ds) a = decimal_value ds (10 * a + (unat c - 0x30))"
  "decimal_value (ds @ [c]) a = 10 * decimal_value ds a + (unat c - 0x30)"
  by (simp_all add: decimal_value_def)

lemma decimal_value_ge: "a \<le> decimal_value ds a"
proof (induction ds arbitrary: a)
  case (Cons c ds)
  have "a \<le> 10 * a + (unat c - 0x30)" by simp
  also have "\<dots> \<le> decimal_value ds (10 * a + (unat c - 0x30))" by (rule Cons.IH)
  finally show ?case by simp
qed simp

lemma decimal_step:
  fixes acc :: u32
  assumes "is_digit c"
  shows "acc > (- 1 - ucast (c - 0x30)) div 10 \<longleftrightarrow> 10 * unat acc + (unat c - 0x30) \<ge> 2 ^ 32"
    "10 * unat acc + (unat c - 0x30) < 2 ^ 32 \<Longrightarrow> unat (acc * 10 + ucast (c - 0x30)) = 10 * unat acc + (unat c - 0x30)"
proof -
  have c: "48 \<le> unat c" "unat c \<le> 57" using assms by (simp_all add: is_digit_def word_le_nat_alt)
  have d: "unat (ucast (c - 0x30) :: u32) = unat c - 48"
    using c by (subst unat_ucast_mod, subst unat_sub) (auto simp: word_le_nat_alt)
  have max32: "unat (- 1 :: u32) = 2 ^ 32 - 1" by (simp add: unsigned_minus_1_eq_mask mask_eq_exp_minus_1)
  have "unat (- 1 - ucast (c - 0x30) :: u32) = 2 ^ 32 - 1 - (unat c - 48)"
    using d c max32 by (subst unat_sub) (auto simp: word_le_nat_alt)
  then have q: "unat ((- 1 - ucast (c - 0x30)) div 10 :: u32) = (2 ^ 32 - 1 - (unat c - 48)) div 10"
    by (simp add: unat_div)
  have "(2 ^ 32 - 1 - (unat c - 48)) div 10 < unat acc \<longleftrightarrow> 2 ^ 32 - 1 - (unat c - 48) < 10 * unat acc"
    by (subst div_less_iff_less_mult) (simp_all add: mult.commute)
  also have "\<dots> \<longleftrightarrow> 10 * unat acc + (unat c - 48) \<ge> 2 ^ 32" using c by simp arith
  finally show "acc > (- 1 - ucast (c - 0x30)) div 10 \<longleftrightarrow> 10 * unat acc + (unat c - 0x30) \<ge> 2 ^ 32"
    by (simp only: word_less_nat_alt q)
  assume "10 * unat acc + (unat c - 0x30) < 2 ^ 32"
  then show "unat (acc * 10 + ucast (c - 0x30)) = 10 * unat acc + (unat c - 0x30)"
    using d by (simp add: unat_word_ariths mult.commute)
qed

lemma decimal_loop_value:
  "decimal_loop ds acc =
     (if list_all is_digit ds \<and> decimal_value ds (unat acc) < 2 ^ 32 then Some (of_nat (decimal_value ds (unat acc))) else None)"
proof (induction ds arbitrary: acc)
  case Nil
  have "unat acc < 2 ^ 32" using unsigned_less [of acc, where 'a = nat] by simp
  then show ?case by simp
next
  case (Cons c ds)
  show ?case
  proof (cases "is_digit c")
    case digit: True
    then have "\<not> (c < 0x30 \<or> c > 0x39)" by (auto simp: is_digit_def)
    show ?thesis
    proof (cases "10 * unat acc + (unat c - 0x30) < 2 ^ 32")
      case True
      then show ?thesis using digit decimal_step [OF digit, of acc] \<open>\<not> (c < 0x30 \<or> c > 0x39)\<close> by (simp add: Cons.IH Let_def)
    next
      case False
      then have "\<not> decimal_value ds (10 * unat acc + (unat c - 0x30)) < 2 ^ 32"
        using decimal_value_ge [of "10 * unat acc + (unat c - 0x30)" ds] by linarith
      then show ?thesis using False digit decimal_step(1) [OF digit, of acc] by (simp add: Let_def)
    qed
  qed (auto simp: is_digit_def not_le)
qed

lemma parse_decimal_iff:
  "parse_decimal v = Some n \<longleftrightarrow> v \<noteq> [] \<and> list_all is_digit v \<and> decimal_value v 0 < 2 ^ 32 \<and> n = of_nat (decimal_value v 0)"
  by (auto simp: parse_decimal_def decimal_loop_value)

lemma decimal_value_to_decimal: "decimal_value (to_decimal n) 0 = n"
proof (induction n rule: to_decimal.induct)
  case (1 n)
  have digit: "unat (0x30 + of_nat d :: byte) - 0x30 = d" if "d < 10" for d :: nat
  proof -
    have "d \<in> {0, 1, 2, 3, 4, 5, 6, 7, 8, 9}" using that by auto
    then show ?thesis by auto
  qed
  show ?case
  proof (cases "n < 10")
    case True
    then show ?thesis using digit by (simp add: to_decimal.simps)
  next
    case False
    then show ?thesis using 1 digit [of "n mod 10"] by (subst to_decimal.simps) simp
  qed
qed

lemma parse_to_decimal: "n < 2 ^ 32 \<Longrightarrow> parse_decimal (to_decimal n) = Some (of_nat n)"
  using to_decimal_digits [of n] by (simp add: parse_decimal_iff decimal_value_to_decimal)

section \<open>Percent escapes\<close>

definition escape_digit :: "nat \<Rightarrow> byte" where
  "escape_digit n = of_nat (if n < 10 then 0x30 + n else 0x41 + (n - 10))"

definition percent_encode :: "bytes \<Rightarrow> bytes" where
  "percent_encode v = concat (map (\<lambda>b. if is_unreserved b then [b] else [0x25, escape_digit (unat b div 16), escape_digit (unat b mod 16)]) v)"

lemma percent_encode_Cons:
  "percent_encode (b # v) =
     (if is_unreserved b then [b] else [0x25, escape_digit (unat b div 16), escape_digit (unat b mod 16)]) @ percent_encode v"
  by (simp add: percent_encode_def)

lemma escape_digit_cases: "n < 16 \<Longrightarrow> n \<in> {0, 1, 2, 3, 4, 5, 6, 7, 8, 9, 10, 11, 12, 13, 14, 15 :: nat}"
  by (auto simp: numeral_eq_Suc less_Suc_eq)

lemma escape_value_digit: "n < 16 \<Longrightarrow> script_hex_value (escape_digit n) = int n"
  by (drule escape_digit_cases, elim insertE emptyE) (simp_all add: escape_digit_def script_hex_value_def)

lemma escape_digit_unreserved: "n < 16 \<Longrightarrow> is_unreserved (escape_digit n)"
  by (drule escape_digit_cases, elim insertE emptyE) (simp_all add: escape_digit_def is_unreserved_def)

lemma nibbles_join: "(word_of_int (push_bit 4 (int (unat b div 16)) OR int (unat b mod 16)) :: byte) = b"
proof -
  have "push_bit 4 (int (unat b div 16)) AND int (unat b mod 16) = 0"
  proof -
    have "int (unat b mod 16) = take_bit 4 (int (unat b))" by (simp add: take_bit_eq_mod zmod_int)
    then show ?thesis by (auto simp: bit_eq_iff bit_simps)
  qed
  then have "push_bit 4 (int (unat b div 16)) OR int (unat b mod 16) = push_bit 4 (int (unat b div 16)) + int (unat b mod 16)"
    by (simp add: disjunctive_add_eq_or)
  also have "\<dots> = int (unat b)" by (simp add: push_bit_eq_mult zdiv_int zmod_int)
  finally show ?thesis by simp
qed

lemma percent_loop_encode:
  "length acc + length v \<le> 160 \<Longrightarrow> percent_loop (percent_encode v) acc = Inr (acc @ v)"
proof (induction v arbitrary: acc)
  case (Cons b v)
  have room: "\<not> 160 \<le> length acc" "length (acc @ [b]) + length v \<le> 160" using Cons.prems by simp_all
  have hex: "script_hex_value (escape_digit (unat b div 16)) = int (unat b div 16)"
    "script_hex_value (escape_digit (unat b mod 16)) = int (unat b mod 16)"
    using unat_byte_bound [of b] by (auto intro!: escape_value_digit)
  show ?case
  proof (cases "is_unreserved b")
    case True
    then have "b \<noteq> 0x25" "\<not> b > 0x7f" by (auto simp: is_unreserved_def word_le_nat_alt word_less_nat_alt)
    then show ?thesis using True room Cons.IH [OF room(2)] by (simp add: percent_encode_Cons)
  next
    case False
    then show ?thesis using room Cons.IH [OF room(2)] by (simp add: percent_encode_Cons Let_def hex nibbles_join)
  qed
qed (simp add: percent_encode_def)

lemma percent_encode_empty: "percent_encode v = [] \<longleftrightarrow> v = []"
  by (cases v) (simp_all add: percent_encode_def)

lemma percent_decode_encode: "v \<noteq> [] \<Longrightarrow> length v \<le> 160 \<Longrightarrow> percent_decode (percent_encode v) = Inr v"
  by (simp add: percent_decode_def percent_encode_empty percent_loop_encode)

lemma percent_encode_length: "length (percent_encode v) \<le> 3 * length v"
  by (induction v) (auto simp: percent_encode_def)

section \<open>Writing a script\<close>

datatype script_step = StepKey script_key | StepLetter byte | StepWait | StepWaits nat | StepText "u32 list" | StepShot bytes
  | StepExpect bytes bytes | StepAwait bytes bytes | StepClose

fun key_name :: "script_key \<Rightarrow> bytes" where
  "key_name NamedHome = ascii ''HOME''"
| "key_name NamedEscape = ascii ''ESC''"
| "key_name NamedUp = ascii ''UP''"
| "key_name NamedDown = ascii ''DOWN''"
| "key_name NamedLeft = ascii ''LEFT''"
| "key_name NamedRight = ascii ''RIGHT''"
| "key_name NamedEnter = ascii ''ENTER''"
| "key_name NamedBackspace = ascii ''BACKSPACE''"
| "key_name NamedTab = ascii ''TAB''"
| "key_name NamedNone = []"

fun step_token :: "script_step \<Rightarrow> bytes" where
  "step_token (StepKey k) = key_name k"
| "step_token (StepLetter c) = [c - 0x20]"
| "step_token StepWait = ascii ''WAIT''"
| "step_token (StepWaits n) = ascii ''WAIT='' @ to_decimal n"
| "step_token (StepText cps) = ascii ''TEXT='' @ percent_encode (concat (map encode_utf8 cps))"
| "step_token (StepShot stem) = ascii ''SHOT='' @ stem"
| "step_token (StepExpect field value) = ascii ''EXPECT='' @ field @ ascii '':'' @ value"
| "step_token (StepAwait field value) = ascii ''AWAIT='' @ field @ ascii '':'' @ value"
| "step_token StepClose = ascii ''CLOSE''"

fun step_actions :: "script_step \<Rightarrow> script_action list" where
  "step_actions (StepKey k) = [action_of ActionKey k 0 [] []]"
| "step_actions (StepLetter c) = [action_of ActionKey NamedNone (ucast c) [] []]"
| "step_actions StepWait = [action_of ActionWait NamedNone 0 [] []]"
| "step_actions (StepWaits n) = replicate n (action_of ActionWait NamedNone 0 [] [])"
| "step_actions (StepText cps) = map (\<lambda>c. action_of ActionKey NamedNone c [] []) cps"
| "step_actions (StepShot stem) = [action_of ActionScreenshot NamedNone 0 [] stem]"
| "step_actions (StepExpect field value) = [action_of ActionExpect NamedNone 0 field value]"
| "step_actions (StepAwait field value) = [action_of ActionAwait NamedNone 0 field value]"
| "step_actions StepClose = [action_of ActionCloseWindow NamedNone 0 [] []]"

definition probe_wf :: "bytes \<Rightarrow> bytes \<Rightarrow> bool" where
  "probe_wf field value \<longleftrightarrow> is_probe_field field \<and> is_stable_value value 64"

fun step_ok :: "script_step \<Rightarrow> bool" where
  "step_ok (StepKey k) = (k \<noteq> NamedNone)"
| "step_ok (StepLetter c) = (c \<in> {0x6e, 0x72, 0x6d, 0x73, 0x64})"
| "step_ok (StepWaits n) = (0 < n \<and> n \<le> 100)"
| "step_ok (StepText cps) = (cps \<noteq> [] \<and> list_all (\<lambda>c. is_scalar c \<and> \<not> forbidden_codepoint True c) cps \<and>
     length (concat (map encode_utf8 cps)) \<le> 160)"
| "step_ok (StepShot stem) = (stem = [] \<or> is_safe_screenshot_stem stem)"
| "step_ok (StepExpect field value) = probe_wf field value"
| "step_ok (StepAwait field value) = probe_wf field value"
| "step_ok _ = True"

text \<open>Characters that neither separate nor pad tokens.\<close>

definition token_char :: "byte \<Rightarrow> bool" where
  "token_char c \<longleftrightarrow> \<not> is_ascii_space c \<and> c \<noteq> 0x2c"

lemma token_char_ranges:
  "0x61 \<le> c \<and> c \<le> 0x7a \<Longrightarrow> token_char c" "0x30 \<le> c \<and> c \<le> 0x39 \<Longrightarrow> token_char c" "0x41 \<le> c \<and> c \<le> 0x5a \<Longrightarrow> token_char c"
  by (auto simp: token_char_def is_ascii_space_def)

lemma token_char_classes:
  "is_unreserved c \<Longrightarrow> token_char c" "is_lower_alphanumeric c \<Longrightarrow> token_char c" "is_digit c \<Longrightarrow> token_char c"
  "token_char 0x2d" "token_char 0x2e" "token_char 0x5f" "token_char 0x25" "token_char 0x3a" "token_char 0x3d"
  using token_char_ranges
  by (auto simp: is_unreserved_def is_lower_alphanumeric_def is_digit_def token_char_def is_ascii_space_def)

lemma percent_encode_chars: "list_all token_char (percent_encode v)"
proof (induction v)
  case (Cons b v)
  have "is_unreserved (escape_digit (unat b div 16))" "is_unreserved (escape_digit (unat b mod 16))"
    using unat_byte_bound [of b] by (auto intro!: escape_digit_unreserved)
  then show ?case using Cons by (simp add: percent_encode_Cons token_char_classes)
qed (simp add: percent_encode_def)

lemma probe_chars:
  assumes "probe_wf field value"
  shows "list_all token_char field" "list_all token_char value" "0x3a \<notin> set field" "0x3a \<notin> set value" "is_stable_atom field 16"
    "length field \<le> 12" "length value \<le> 64"
proof -
  have f: "is_probe_field field" and v: "is_stable_value value 64" using assms by (simp_all add: probe_wf_def)
  show "list_all token_char field" "0x3a \<notin> set field" "is_stable_atom field 16" "length field \<le> 12"
    using f by (auto simp: is_probe_field_def ascii_def token_char_def is_ascii_space_def is_stable_atom_def)
  show "list_all token_char value" "0x3a \<notin> set value" "length value \<le> 64"
    using v token_char_ranges token_char_classes by (auto simp: is_stable_value_def list_all_iff)
qed

lemma step_token_chars: "step_ok st \<Longrightarrow> list_all token_char (step_token st) \<and> step_token st \<noteq> []"
proof (cases st)
  case (StepKey k)
  then show "step_ok st \<Longrightarrow> ?thesis" by (cases k) (auto simp: ascii_def token_char_def is_ascii_space_def)
next
  case (StepWaits n)
  then show ?thesis using to_decimal_digits [of n]
    by (auto simp: ascii_def token_char_def is_ascii_space_def list_all_iff is_digit_def)
next
  case (StepShot stem)
  then show "step_ok st \<Longrightarrow> ?thesis" using token_char_classes
    by (auto simp: ascii_def is_safe_screenshot_stem_def list_all_iff intro: token_char_ranges)
next
  case (StepExpect f v)
  then show "step_ok st \<Longrightarrow> ?thesis" using probe_chars [of f v]
    by (auto simp: ascii_def token_char_classes intro: token_char_ranges)
next
  case (StepAwait f v)
  then show "step_ok st \<Longrightarrow> ?thesis" using probe_chars [of f v]
    by (auto simp: ascii_def token_char_classes intro: token_char_ranges)
next
  case (StepText cps)
  then show ?thesis using percent_encode_chars by (auto simp: ascii_def token_char_def is_ascii_space_def)
qed (auto simp: ascii_def token_char_def is_ascii_space_def)

lemma parse_probe_written: "probe_wf f v \<Longrightarrow> parse_probe (f @ 0x3a # v) = Inr (f, v)"
proof -
  assume ok: "probe_wf f v"
  note c = probe_chars [OF ok]
  have "takeWhile (\<lambda>c. c \<noteq> 0x3a) (f @ 0x3a # v) = f" using c(3) by (subst takeWhile_append2) auto
  then show ?thesis using c(3,4,5) ok by (simp add: parse_probe_def probe_wf_def)
qed

lemma token_actions_written:
  assumes "step_ok st" "st = StepClose \<Longrightarrow> final"
  shows "token_actions (step_token st) final = Inr (step_actions st)"
proof -
  note eq = ascii_equal_def ascii_starts_with_def ascii_def ascii_upper_def token_actions_def named_key_for_def
  show ?thesis
  proof (cases st)
    case (StepKey k)
    then show ?thesis using assms by (cases k) (simp_all add: eq)
  next
    case (StepLetter c)
    then show ?thesis using assms by (auto simp: eq)
  next
    case (StepWaits n)
    have "length (to_decimal n) \<le> 3" using StepWaits assms by (intro to_decimal_length) auto
    then show ?thesis using StepWaits assms parse_to_decimal [of n] to_decimal_digits [of n]
      by (auto simp: eq unat_of_nat word_less_nat_alt word_unat_eq_iff)
  next
    case (StepText cps)
    let ?v = "concat (map encode_utf8 cps)"
    have "?v \<noteq> []" using StepText assms encode_utf8_nonempty by (cases cps) auto
    then have d: "percent_decode (percent_encode ?v) = Inr ?v" using StepText assms by (simp add: percent_decode_encode)
    have s: "decode_utf8_scalars ?v = Inr cps" using StepText assms by (simp add: decode_utf8_scalars_iff unsafe_forbidden)
    have "length (percent_encode ?v) \<le> 480" using percent_encode_length [of ?v] StepText assms by simp
    then show ?thesis using StepText d s by (simp add: eq)
  next
    case (StepShot stem)
    then have "length stem \<le> 64" using assms by (auto simp: is_safe_screenshot_stem_def)
    then show ?thesis using StepShot assms by (auto simp: eq)
  next
    case (StepExpect f v)
    then show ?thesis using assms probe_chars [of f v] parse_probe_written [of f v] by (simp add: eq)
  next
    case (StepAwait f v)
    then show ?thesis using assms probe_chars [of f v] parse_probe_written [of f v] by (simp add: eq)
  qed (use assms in \<open>simp_all add: eq\<close>)
qed

text \<open>A script as written: steps with white space around them, separated by commas.\<close>

fun script_source :: "(bytes \<times> script_step \<times> bytes) list \<Rightarrow> bytes" where
  "script_source [] = []"
| "script_source [(l, st, r)] = l @ step_token st @ r"
| "script_source ((l, st, r) # p # ps) = l @ step_token st @ r @ [0x2c] @ script_source (p # ps)"

definition padding_ok :: "bytes \<times> script_step \<times> bytes \<Rightarrow> bool" where
  "padding_ok p \<longleftrightarrow> list_all is_ascii_space (fst p) \<and> list_all is_ascii_space (snd (snd p))"

definition script_ok :: "(bytes \<times> script_step \<times> bytes) list \<Rightarrow> bool" where
  "script_ok ps \<longleftrightarrow>
     ps \<noteq> [] \<and> list_all padding_ok ps \<and> list_all step_ok (map (fst \<circ> snd) ps) \<and>
     StepClose \<notin> set (butlast (map (fst \<circ> snd) ps)) \<and>
     length (script_source ps) \<le> 16384 \<and> length (concat (map (step_actions \<circ> fst \<circ> snd) ps)) \<le> 1024"

lemma trim_padded:
  assumes "list_all is_ascii_space l" "list_all is_ascii_space r" "list_all token_char t" "t \<noteq> []"
  shows "trim (l @ t @ r) = t"
proof -
  have l: "\<And>x. x \<in> set l \<Longrightarrow> is_ascii_space x" and r: "\<And>x. x \<in> set (rev r) \<Longrightarrow> is_ascii_space x"
    using assms(1,2) by (simp_all add: list_all_iff)
  have h: "\<not> is_ascii_space (hd t)" "\<not> is_ascii_space (hd (rev t))"
    using assms(3,4) by (simp_all add: list_all_iff token_char_def hd_rev)
  have "dropWhile is_ascii_space (l @ t @ r) = t @ r"
    using dropWhile_append2 [of l is_ascii_space "t @ r"] l h(1) assms(4) by (cases t) simp_all
  moreover have "dropWhile is_ascii_space (rev r @ rev t) = rev t"
    using dropWhile_append2 [of "rev r" is_ascii_space "rev t"] r h(2) assms(4) by (cases "rev t") simp_all
  ultimately show ?thesis by (simp add: trim_def)
qed

lemma split_commas_append: "0x2c \<notin> set x \<Longrightarrow> split_commas (x @ 0x2c # y) = x # split_commas y"
  by (induction x) auto

lemma split_commas_single: "0x2c \<notin> set x \<Longrightarrow> split_commas x = [x]"
  by (induction x) auto

lemma padded_no_comma:
  assumes "padding_ok (l, st, r)" "step_ok st"
  shows "0x2c \<notin> set (l @ step_token st @ r)"
  using assms step_token_chars [of st] by (auto simp: padding_ok_def list_all_iff token_char_def is_ascii_space_def)

lemma script_source_tokens:
  "ps \<noteq> [] \<Longrightarrow> list_all padding_ok ps \<Longrightarrow> list_all step_ok (map (fst \<circ> snd) ps) \<Longrightarrow>
     map trim (split_commas (script_source ps)) = map (step_token \<circ> fst \<circ> snd) ps"
proof (induction ps rule: script_source.induct)
  case (2 l st r)
  then show ?case using padded_no_comma [of l st r] step_token_chars [of st]
    by (simp add: split_commas_single trim_padded padding_ok_def)
next
  case (3 l st r p ps)
  then have "split_commas ((l @ step_token st @ r) @ 0x2c # script_source (p # ps)) = (l @ step_token st @ r) # split_commas (script_source (p # ps))"
    by (intro split_commas_append padded_no_comma) auto
  then show ?case using 3 step_token_chars [of st] by (simp add: trim_padded padding_ok_def)
qed simp

lemma tokens_loop_written:
  "list_all step_ok sts \<Longrightarrow> StepClose \<notin> set (butlast sts) \<Longrightarrow>
   length (pr_actions r) + length (concat (map step_actions sts)) \<le> 1024 \<Longrightarrow>
     tokens_loop (map step_token sts) i r = r\<lparr>pr_actions := pr_actions r @ concat (map step_actions sts)\<rparr>"
proof (induction sts arbitrary: i r)
  case (Cons st sts)
  have "token_actions (step_token st) (sts = []) = Inr (step_actions st)"
    using Cons.prems by (intro token_actions_written) (auto split: if_splits)
  then have "parse_token (step_token st) (sts = []) (i + 1) r = Inr (r\<lparr>pr_actions := pr_actions r @ step_actions st\<rparr>)"
    using Cons.prems(3) by (simp add: parse_token_actions append_each_eq)
  moreover have "StepClose \<notin> set (butlast sts)" using Cons.prems(2) by (auto split: if_splits)
  ultimately show ?case using Cons by simp
qed simp

lemma parse_accepted_or_rejected:
  "accepted_ok False (parse source) \<or> rejected_ok (length (filter (\<lambda>c. c = 0x2c) source) + 1) (parse source)"
proof -
  have start: "accepted_ok True (failure ScriptNone 0 [])" by (simp add: accepted_ok_def failure_def)
  show ?thesis
  proof (cases "length source > 16384 \<or> source = []")
    case True
    then show ?thesis using accepted_weaken [OF start] by (auto simp: parse_def failure_def rejected_ok_def)
  next
    case False
    then have "parse source = tokens_loop (map trim (split_commas source)) 0 (failure ScriptNone 0 [])"
      by (simp add: parse_def parse_loop_tokens)
    then show ?thesis using tokens_loop_ok [OF start, of "map trim (split_commas source)" 0]
      by (simp add: split_commas_count)
  qed
qed

lemma parse_written:
  assumes "script_ok ps"
  shows "parse (script_source ps) =
    \<lparr>pr_actions = concat (map (step_actions \<circ> fst \<circ> snd) ps), pr_error = ScriptNone, pr_token_index = 0, pr_diagnostic = []\<rparr>"
proof -
  have ok: "ps \<noteq> []" "list_all padding_ok ps" "list_all step_ok (map (fst \<circ> snd) ps)" "StepClose \<notin> set (butlast (map (fst \<circ> snd) ps))"
    "length (script_source ps) \<le> 16384" "length (concat (map step_actions (map (fst \<circ> snd) ps))) \<le> 1024"
    using assms by (simp_all add: script_ok_def comp_assoc)
  obtain l st r qs where ps: "ps = (l, st, r) # qs" using ok(1) by (metis list.exhaust prod.exhaust)
  have "script_source ps \<noteq> []" using ps ok(3) step_token_chars [of st] by (cases qs) auto
  then have "parse (script_source ps) = tokens_loop (map step_token (map (fst \<circ> snd) ps)) 0 (failure ScriptNone 0 [])"
    using ok(5) script_source_tokens [OF ok(1,2,3)] by (simp add: parse_def parse_loop_tokens comp_assoc)
  then show ?thesis using tokens_loop_written [OF ok(3,4), of "failure ScriptNone 0 []" 0] ok(6)
    by (simp add: failure_def comp_assoc)
qed

section \<open>Properties\<close>

text \<open>Whatever the script, the parser either accepts it with at most 1024 actions, in which every typed character is a Unicode
  scalar that a user id may contain, every screenshot name is a plain file name, every expectation names a field
  the program answers, and a window is closed only by the last action; or it
  rejects it with an error, no actions, a message, and the number of a token of the script.\<close>

theorem script_parse_safe:
  "accepted_ok False (parse source) \<or> rejected_ok (length (filter (\<lambda>c. c = 0x2c) source) + 1) (parse source)"
  by (rule parse_accepted_or_rejected)

text \<open>C36: The parser reads back every script: steps written with any white space around them and separated by
  commas, text percent-encoded, give exactly the actions of the steps in their order, when the script is within its
  limits of 16384 bytes and 1024 actions and closes the window only at the end.\<close>

theorem script_roundtrip:
  assumes "script_ok ps"
  shows "parse (script_source ps) =
    \<lparr>pr_actions = concat (map (step_actions \<circ> fst \<circ> snd) ps), pr_error = ScriptNone, pr_token_index = 0, pr_diagnostic = []\<rparr>"
  by (rule parse_written [OF assms])

theorem script_roundtrip_witness:
  "parse (ascii ''N, TEXT=hi%20%E3%81%82 ,WAIT=2,AWAIT=count:1,CLOSE'') =
     \<lparr>pr_actions = [action_of ActionKey NamedNone 0x6e [] [], action_of ActionKey NamedNone 0x68 [] [],
        action_of ActionKey NamedNone 0x69 [] [], action_of ActionKey NamedNone 0x20 [] [],
        action_of ActionKey NamedNone 0x3042 [] [], action_of ActionWait NamedNone 0 [] [],
        action_of ActionWait NamedNone 0 [] [], action_of ActionAwait NamedNone 0 (ascii ''count'') (ascii ''1''),
        action_of ActionCloseWindow NamedNone 0 [] []],
      pr_error = ScriptNone, pr_token_index = 0, pr_diagnostic = []\<rparr>"
proof -
  let ?ps = "[([], StepLetter 0x6e, []), ([0x20], StepText [0x68, 0x69, 0x20, 0x3042], [0x20]), ([], StepWaits 2, []),
    ([], StepAwait (ascii ''count'') (ascii ''1''), []), ([], StepClose, [])]"
  have src: "script_source ?ps = ascii ''N, TEXT=hi%20%E3%81%82 ,WAIT=2,AWAIT=count:1,CLOSE''"
    by (simp add: ascii_def percent_encode_def encode_utf8_def is_unreserved_def escape_digit_def to_decimal.simps [of 2])
  have "script_ok ?ps" unfolding script_ok_def src
    by (simp add: ascii_def padding_ok_def is_ascii_space_def is_scalar_def forbidden_codepoint_def is_control_def encode_utf8_def
      is_unicode_line_separator_def is_bidi_format_def is_noncharacter_def probe_wf_def is_probe_field_def is_stable_value_def
      is_lower_alphanumeric_def)
  moreover have "replicate 2 a = [a, a]" for a :: script_action by (simp add: numeral_2_eq_2)
  ultimately show ?thesis using script_roundtrip [of ?ps] unfolding src by simp
qed

text \<open>The interval of the script's timer: none configured gives 200 ms, and a configured one is accepted exactly when it is a
  decimal number of at most ten digits between 20 and 5000.\<close>

lemma parse_interval_valid_iff:
  "ir_valid (parse_interval (Some v)) \<longleftrightarrow>
     v \<noteq> [] \<and> length v \<le> 10 \<and> list_all is_digit v \<and> 20 \<le> decimal_value v 0 \<and> decimal_value v 0 \<le> 5000"
proof (cases "parse_decimal v")
  case None
  then have "\<not> (v \<noteq> [] \<and> list_all is_digit v \<and> decimal_value v 0 \<le> 5000)"
    using parse_decimal_iff [of v "of_nat (decimal_value v 0)"] by auto
  then show ?thesis using None by (auto simp: parse_interval_def interval_error_def)
next
  case (Some n)
  then have v: "v \<noteq> []" "list_all is_digit v" "decimal_value v 0 < 2 ^ 32" "n = of_nat (decimal_value v 0)"
    using parse_decimal_iff by blast+
  then have "unat n = decimal_value v 0" by (simp add: unat_of_nat)
  then show ?thesis using Some v by (auto simp: parse_interval_def interval_error_def word_less_nat_alt)
qed

end
