(* ===== verification/Model_Post.thy ===== *)
theory Model_Post
  imports Core_Text Core_Uuid
begin

text \<open>
  Model of \<^verbatim>\<open>src/model/identity.cpp\<close> and \<^verbatim>\<open>src/model/post.cpp\<close>: the local identity with its
  monotone sender sequence, and the validated, immutable post payload. \<open>post_ok\<close> is the class
  invariant of \<^verbatim>\<open>PostPayload\<close>: its constructor is private, so every payload comes from \<open>create\<close>.
  \<^verbatim>\<open>std::int64_t\<close> seconds are integers kept in range by \<open>int64_range\<close>.
\<close>

section \<open>Identity\<close>

record identity =
  identity_install_id :: install_id
  identity_user_id :: user_id
  last_issued_sender_sequence :: u64

definition identity_restore :: "install_id \<Rightarrow> user_id \<Rightarrow> u64 \<Rightarrow> identity" where
  "identity_restore i u issued =
     \<lparr>identity_install_id = i, identity_user_id = u, last_issued_sender_sequence = issued\<rparr>"

definition next_sender_sequence :: "identity \<Rightarrow> u64 option" where
  "next_sender_sequence self =
     (if last_issued_sender_sequence self = u64_max then None
      else Some (last_issued_sender_sequence self + 1))"

definition commit_sender_sequence :: "identity \<Rightarrow> u64 \<Rightarrow> bool \<times> identity" where
  "commit_sender_sequence self sequence =
     (case next_sender_sequence self of None \<Rightarrow> (False, self)
      | Some expected \<Rightarrow>
          if sequence \<noteq> expected then (False, self)
          else (True, self\<lparr>last_issued_sender_sequence := sequence\<rparr>))"

definition identity_rename :: "identity \<Rightarrow> user_id \<Rightarrow> identity" where
  "identity_rename self u = self\<lparr>identity_user_id := u\<rparr>"

definition identity_ok :: "identity \<Rightarrow> bool" where
  "identity_ok self \<longleftrightarrow>
     uuid_ok (install_uuid (identity_install_id self)) \<and> user_id_ok (identity_user_id self)"

section \<open>Posts\<close>

datatype post_error =
    InvalidMessageId | InvalidSenderId | InvalidSenderSequence | InvalidSenderUserId | InvalidBody
  | TooManyMentions | InvalidMentionId | DuplicateMention | InvalidReplyId | SelfReply

record post_payload_input =
  in_message_id :: uuid
  in_sender_id :: uuid
  in_sender_sequence :: u64
  in_sender_user_id :: bytes
  in_body :: bytes
  in_mentions :: "uuid list"
  in_reply_to :: "uuid option"
  in_sender_time :: "int option"

record post_payload =
  message_id :: message_id
  sender_id :: install_id
  sender_sequence :: u64
  sender_user_id :: user_id
  body :: post_body
  mentions :: "install_id list"
  reply_to :: "message_id option"
  sender_time :: "int option"

text \<open>The loop over the raw mentions, with the mentions accepted so far.\<close>

fun create_mentions :: "uuid list \<Rightarrow> install_id list \<Rightarrow> (install_id list, post_error) result" where
  "create_mentions [] accepted = Inr accepted"
| "create_mentions (raw_mention # rest) accepted =
     (case install_id_from_uuid raw_mention of Inl _ \<Rightarrow> Inl InvalidMentionId
      | Inr mention \<Rightarrow>
          if mention \<in> set accepted then Inl DuplicateMention
          else create_mentions rest (accepted @ [mention]))"

definition create_reply ::
  "uuid option \<Rightarrow> message_id \<Rightarrow> (message_id option, post_error) result" where
  "create_reply raw own =
     (case raw of None \<Rightarrow> Inr None
      | Some r \<Rightarrow>
          (case message_id_from_uuid r of Inl _ \<Rightarrow> Inl InvalidReplyId
           | Inr reply \<Rightarrow> if reply = own then Inl SelfReply else Inr (Some reply)))"

definition post_payload_create ::
  "post_payload_input \<Rightarrow> (post_payload, post_error) result" where
  "post_payload_create i =
     (case message_id_from_uuid (in_message_id i) of Inl _ \<Rightarrow> Inl InvalidMessageId
      | Inr mid \<Rightarrow>
     (case install_id_from_uuid (in_sender_id i) of Inl _ \<Rightarrow> Inl InvalidSenderId
      | Inr sid \<Rightarrow>
     (if in_sender_sequence i = 0 then Inl InvalidSenderSequence
      else
     (case user_id_create (in_sender_user_id i) of Inl _ \<Rightarrow> Inl InvalidSenderUserId
      | Inr uid \<Rightarrow>
     (case post_body_create (in_body i) of Inl _ \<Rightarrow> Inl InvalidBody
      | Inr text \<Rightarrow>
     (if length (in_mentions i) > kMaxMentions then Inl TooManyMentions
      else
     (case create_mentions (in_mentions i) [] of Inl e \<Rightarrow> Inl e
      | Inr ms \<Rightarrow>
     (case create_reply (in_reply_to i) mid of Inl e \<Rightarrow> Inl e
      | Inr reply \<Rightarrow>
          Inr \<lparr>message_id = mid, sender_id = sid, sender_sequence = in_sender_sequence i,
               sender_user_id = uid, body = text, mentions = ms, reply_to = reply,
               sender_time = in_sender_time i\<rparr>))))))))"

record post_draft =
  draft_body :: bytes
  draft_mentions :: "install_id list"
  draft_reply_to :: "message_id option"

section \<open>Invariants\<close>

definition int64_range :: "int \<Rightarrow> bool" where
  "int64_range t \<longleftrightarrow> - (2 ^ 63) \<le> t \<and> t < 2 ^ 63"

definition post_ok :: "post_payload \<Rightarrow> bool" where
  "post_ok p \<longleftrightarrow>
     uuid_ok (message_uuid (message_id p)) \<and> uuid_ok (install_uuid (sender_id p)) \<and>
     sender_sequence p \<noteq> 0 \<and> user_id_ok (sender_user_id p) \<and> post_body_ok (body p) \<and>
     length (mentions p) \<le> kMaxMentions \<and> distinct (mentions p) \<and>
     list_all (\<lambda>m. uuid_ok (install_uuid m)) (mentions p) \<and>
     (case reply_to p of None \<Rightarrow> True
      | Some r \<Rightarrow> uuid_ok (message_uuid r) \<and> r \<noteq> message_id p) \<and>
     (case sender_time p of None \<Rightarrow> True | Some t \<Rightarrow> int64_range t)"

text \<open>The C++ types of the input fields: arrays of 16 bytes, 64-bit seconds.\<close>

definition input_wf :: "post_payload_input \<Rightarrow> bool" where
  "input_wf i \<longleftrightarrow>
     uuid_wf (in_message_id i) \<and> uuid_wf (in_sender_id i) \<and> list_all uuid_wf (in_mentions i) \<and>
     (case in_reply_to i of None \<Rightarrow> True | Some r \<Rightarrow> uuid_wf r) \<and>
     (case in_sender_time i of None \<Rightarrow> True | Some t \<Rightarrow> int64_range t)"

text \<open>The input whose validation gives the payload back.\<close>

definition post_input :: "post_payload \<Rightarrow> post_payload_input" where
  "post_input p =
     \<lparr>in_message_id = message_uuid (message_id p), in_sender_id = install_uuid (sender_id p),
      in_sender_sequence = sender_sequence p, in_sender_user_id = user_id_value (sender_user_id p),
      in_body = post_body_value (body p), in_mentions = map install_uuid (mentions p),
      in_reply_to = map_option message_uuid (reply_to p), in_sender_time = sender_time p\<rparr>"

section \<open>Lemmas\<close>

lemma commit_next_sequence:
  assumes "next_sender_sequence i = Some s"
  shows "commit_sender_sequence i s = (True, i\<lparr>last_issued_sender_sequence := s\<rparr>)"
  using assms by (simp add: commit_sender_sequence_def)

lemma next_sequence_increases:
  assumes "next_sender_sequence i = Some s"
  shows "last_issued_sender_sequence i < s" "s \<noteq> 0"
proof -
  have n: "last_issued_sender_sequence i \<noteq> u64_max" and s: "s = last_issued_sender_sequence i + 1"
    using assms by (auto simp: next_sender_sequence_def split: if_splits)
  then show "last_issued_sender_sequence i < s" by (simp add: u64_succ_greater)
  then show "s \<noteq> 0" by auto
qed

lemma create_mentions_Inr:
  "create_mentions raws acc = Inr ms \<longleftrightarrow>
     ms = acc @ map InstallId raws \<and> list_all uuid_is_v4 raws \<and> distinct (map InstallId raws) \<and>
     set (map InstallId raws) \<inter> set acc = {}"
proof (induction raws arbitrary: acc)
  case Nil
  then show ?case by auto
next
  case (Cons r rs)
  show ?case
    by (cases "uuid_is_v4 r"; cases "InstallId r \<in> set acc")
      (auto simp: Cons.IH install_id_from_uuid_def)
qed

lemma create_reply_Inr:
  "create_reply raw own = Inr reply \<longleftrightarrow>
     reply = map_option MessageId raw \<and>
     (case raw of None \<Rightarrow> True | Some r \<Rightarrow> uuid_is_v4 r \<and> MessageId r \<noteq> own)"
  by (auto simp: create_reply_def message_id_from_uuid_def split: option.splits)

lemma create_Inr_iff:
  "post_payload_create i = Inr p \<longleftrightarrow>
     uuid_is_v4 (in_message_id i) \<and> uuid_is_v4 (in_sender_id i) \<and> in_sender_sequence i \<noteq> 0 \<and>
     user_id_ok (UserId (in_sender_user_id i)) \<and> post_body_ok (PostBody (in_body i)) \<and>
     length (in_mentions i) \<le> kMaxMentions \<and>
     (\<exists>ms reply. create_mentions (in_mentions i) [] = Inr ms \<and>
        create_reply (in_reply_to i) (MessageId (in_message_id i)) = Inr reply \<and>
        p = \<lparr>message_id = MessageId (in_message_id i), sender_id = InstallId (in_sender_id i),
             sender_sequence = in_sender_sequence i, sender_user_id = UserId (in_sender_user_id i),
             body = PostBody (in_body i), mentions = ms, reply_to = reply,
             sender_time = in_sender_time i\<rparr>)"
  unfolding post_payload_create_def
  by (auto split: sum.splits if_splits simp: not_less)


lemma create_post_ok:
  assumes "post_payload_create i = Inr p" "input_wf i"
  shows "post_ok p"
  using assms unfolding create_Inr_iff
  by (auto simp: post_ok_def input_wf_def uuid_ok_def create_mentions_Inr create_reply_Inr
      list_all_iff split: option.splits)

lemma post_ok_create:
  assumes "post_ok p"
  shows "post_payload_create (post_input p) = Inr p" "input_wf (post_input p)"
proof -
  have "map InstallId (map install_uuid (mentions p)) = mentions p"
    by (simp add: comp_def map_idI)
  then have ms: "create_mentions (map install_uuid (mentions p)) [] = Inr (mentions p)"
    using assms by (simp add: create_mentions_Inr post_ok_def uuid_ok_def list_all_iff)
  have r: "create_reply (map_option message_uuid (reply_to p)) (message_id p) = Inr (reply_to p)"
    using assms by (cases "reply_to p") (auto simp: create_reply_Inr post_ok_def uuid_ok_def)
  show "post_payload_create (post_input p) = Inr p"
    using assms ms r by (simp add: create_Inr_iff post_input_def post_ok_def uuid_ok_def)
  show "input_wf (post_input p)"
    using assms
    by (auto simp: input_wf_def post_input_def post_ok_def uuid_ok_def list_all_iff split: option.splits)
qed

lemma create_Inr_input: "post_payload_create i = Inr p \<Longrightarrow> post_input p = i"
  unfolding create_Inr_iff
  by (auto simp: post_input_def create_mentions_Inr create_reply_Inr comp_def option.map_comp option.map_ident)

section \<open>A sample post\<close>

text \<open>A post that satisfies the invariant: the witnesses of the development use it.\<close>

definition sample_uuid :: "byte \<Rightarrow> uuid" where
  "sample_uuid n = [n, 1, 2, 3, 4, 5, 0x46, 7, 0x88, 9, 10, 11, 12, 13, 14, 15]"

definition sample_post :: post_payload where
  "sample_post =
     \<lparr>message_id = MessageId (sample_uuid 1), sender_id = InstallId (sample_uuid 2),
      sender_sequence = 1, sender_user_id = UserId [0x4d, 0x69], body = PostBody [0x48, 0x69],
      mentions = [InstallId (sample_uuid 3)], reply_to = Some (MessageId (sample_uuid 4)),
      sender_time = Some (- 5)\<rparr>"

lemma sample_uuid_ok: "uuid_ok (sample_uuid n)"
  by (simp add: sample_uuid_def uuid_ok_def uuid_wf_def uuid_is_v4_def uuid_is_nil_def)

lemma sample_texts: "user_id_ok (UserId [0x4d, 0x69])" "post_body_ok (PostBody [0x48, 0x69])"
  by (simp_all add: user_id_ok_def post_body_ok_def) code_simp+

lemma sample_post_ok: "post_ok sample_post"
  using sample_uuid_ok sample_texts
  by (simp add: sample_post_def post_ok_def int64_range_def sample_uuid_def)

section \<open>Properties\<close>

text \<open>\<open>PostPayload::create\<close> succeeds with payload \<open>p\<close> exactly when the input is the field-wise
  image of \<open>p\<close> and \<open>p\<close> satisfies the payload invariant; so validation neither changes a field nor
  lets an invalid payload through, and every valid payload can be built.\<close>

theorem post_create_iff:
  assumes "input_wf i"
  shows "post_payload_create i = Inr p \<longleftrightarrow> post_ok p \<and> i = post_input p"
  using assms create_post_ok create_Inr_input post_ok_create(1) by metis

theorem post_create_iff_witness:
  "input_wf (post_input sample_post) \<and> post_payload_create (post_input sample_post) = Inr sample_post"
  using post_create_iff [of "post_input sample_post" sample_post] post_ok_create(2) [OF sample_post_ok]
    sample_post_ok by blast

end
