(* ===== verification/Lora_Interfaces.thy ===== *)
theory Lora_Interfaces
  imports Lora_Prelude
begin

text \<open>
  The contracts several components share. A \<open>bounded_ledger\<close> is a store of distinct keys that never
  grows past its bound: the timeline, the duplicate window and the table of recent frames are such
  stores. A \<open>codec\<close> is a pair of an encoder and a strict decoder: the decoder accepts exactly the
  encodings of valid values, which is what both wire formats promise. Each provider interprets the
  locale on its own operations and its properties rest on the facts proved here once.
\<close>

locale bounded_ledger =
  fixes inv :: "'s \<Rightarrow> bool"
    and keys :: "'s \<Rightarrow> 'k list"
    and bound :: "'s \<Rightarrow> nat"
    and add :: "'x \<Rightarrow> 's \<Rightarrow> 's"
  assumes inv_keys: "inv s \<Longrightarrow> distinct (keys s) \<and> length (keys s) \<le> bound s"
    and add_inv: "inv s \<Longrightarrow> inv (add x s)"
    and add_bound: "bound (add x s) = bound s"
begin

lemma fold_inv: "inv s \<Longrightarrow> inv (fold add xs s)"
  by (induction xs arbitrary: s) (auto intro: add_inv)

lemma fold_bound: "bound (fold add xs s) = bound s"
  by (induction xs arbitrary: s) (auto simp: add_bound)

lemma fold_bounded:
  assumes "inv s"
  shows "distinct (keys (fold add xs s))" "length (keys (fold add xs s)) \<le> bound s"
  using inv_keys [OF fold_inv [OF assms, of xs]] by (simp_all add: fold_bound)

end

locale codec =
  fixes valid :: "'a \<Rightarrow> bool"
    and enc :: "'a \<Rightarrow> bytes"
    and dec :: "bytes \<Rightarrow> ('a, 'e) result"
  assumes dec_enc: "valid x \<Longrightarrow> dec (enc x) = Inr x"
    and enc_dec: "dec b = Inr x \<Longrightarrow> valid x \<and> enc x = b"
begin

lemma dec_iff: "dec b = Inr x \<longleftrightarrow> valid x \<and> enc x = b"
  using dec_enc enc_dec by blast

lemma enc_inj: "valid x \<Longrightarrow> valid y \<Longrightarrow> enc x = enc y \<Longrightarrow> x = y"
  using dec_enc by (metis sum.inject(2))

lemma dec_canonical: "dec b = Inr x \<Longrightarrow> dec b' = Inr x \<Longrightarrow> b = b'"
  using enc_dec by blast

lemma rejects_iff: "(\<exists>e. dec b = Inl e) \<longleftrightarrow> (\<forall>x. valid x \<longrightarrow> enc x \<noteq> b)"
  by (cases "dec b") (auto dest: enc_dec simp: dec_enc)

end

end
