(* ===== verification/Model_Timeline.thy ===== *)
theory Model_Timeline
  imports Model_Post Lora_Interfaces
begin

text \<open>
  Model of \<^verbatim>\<open>src/model/timeline.cpp\<close>: the bounded, order-stamped history of local and received
  posts. Entries are kept oldest first. \<open>timeline_ok\<close> is the class invariant; \<open>timeline_restore\<close> accepts
  exactly the states that satisfy it, every operation keeps it, and under it an insertion is never
  refused for lack of space. An absent error (\<open>None\<close>) is the C++ enumerator \<^verbatim>\<open>None\<close>.
\<close>

section \<open>Definitions\<close>

datatype local_delivery_state = Queued | Broadcast | Failed | UnknownState

datatype entry_origin = ReceivedOrigin | LocalDelivery (local_state: local_delivery_state)

record timeline_entry =
  entry_post :: post_payload
  received_order :: u64
  origin :: entry_origin

datatype timeline_insert_error = Duplicate | Conflict | QueueFull | Full | OrderExhausted

record timeline_insert_result =
  insert_error :: "timeline_insert_error option"
  evicted_message_id :: "message_id option"
  inserted_order :: "u64 option"

datatype transition_error = NotFound | NotLocal | InvalidState
datatype reply_state = NotReply | ParentAvailable | ParentUnavailable
datatype timeline_restore_error =
  InvalidCapacity | TooManyEntries | InvalidOrder | DuplicateMessageId | TooManyQueuedEntries

record timeline =
  tl_capacity :: nat
  last_assigned_order :: u64
  entries :: "timeline_entry list"

abbreviation entry_id :: "timeline_entry \<Rightarrow> message_id" where
  "entry_id e \<equiv> message_id (entry_post e)"

text \<open>The constructor throws \<^verbatim>\<open>std::invalid_argument\<close> outside the supported range.\<close>

definition timeline_new :: "nat \<Rightarrow> u64 \<Rightarrow> timeline option" where
  "timeline_new capacity lao =
     (if capacity = 0 \<or> capacity > kMaxTimelineEntries then None
      else Some \<lparr>tl_capacity = capacity, last_assigned_order = lao, entries = []\<rparr>)"

definition entry_is_queued :: "timeline_entry \<Rightarrow> bool" where
  "entry_is_queued e \<longleftrightarrow> origin e = LocalDelivery Queued"

text \<open>The validation loop of \<open>restore\<close>: the entries seen, those left, the previous order and the
  number of queued entries.\<close>

fun timeline_restore_loop ::
  "u64 \<Rightarrow> timeline_entry list \<Rightarrow> timeline_entry list \<Rightarrow> u64 \<Rightarrow> nat
     \<Rightarrow> (nat, timeline_restore_error) result" where
  "timeline_restore_loop lao seen [] previous_order queued = Inr queued"
| "timeline_restore_loop lao seen (e # es) previous_order queued =
     (if received_order e = 0 \<or> received_order e > lao \<or>
         (seen \<noteq> [] \<and> received_order e \<le> previous_order) then Inl InvalidOrder
      else if list_ex (\<lambda>existing. entry_id existing = entry_id e) seen then Inl DuplicateMessageId
      else timeline_restore_loop lao (seen @ [e]) es (received_order e)
             (if entry_is_queued e then Suc queued else queued))"

definition timeline_restore ::
  "nat \<Rightarrow> u64 \<Rightarrow> timeline_entry list \<Rightarrow> (timeline, timeline_restore_error) result" where
  "timeline_restore capacity lao es =
     (if capacity = 0 \<or> capacity > kMaxTimelineEntries then Inl InvalidCapacity
      else if length es > capacity then Inl TooManyEntries
      else (case timeline_restore_loop lao [] es 0 0 of Inl e \<Rightarrow> Inl e
            | Inr queued \<Rightarrow>
                if queued > min kMaxQueuedLocalPosts (capacity - 1) then Inl TooManyQueuedEntries
                else Inr \<lparr>tl_capacity = capacity, last_assigned_order = lao, entries = es\<rparr>))"

definition queued_capacity :: "timeline \<Rightarrow> nat" where
  "queued_capacity t = min kMaxQueuedLocalPosts (tl_capacity t - 1)"

definition queued_count :: "timeline \<Rightarrow> nat" where
  "queued_count t = length (filter entry_is_queued (entries t))"

definition timeline_find :: "timeline \<Rightarrow> message_id \<Rightarrow> timeline_entry option" where
  "timeline_find t mid = List.find (\<lambda>e. entry_id e = mid) (entries t)"

definition newest_at :: "timeline \<Rightarrow> nat \<Rightarrow> timeline_entry option" where
  "newest_at t index =
     (if index \<ge> length (entries t) then None
      else Some (entries t ! (length (entries t) - 1 - index)))"

definition reply_state_of :: "timeline \<Rightarrow> timeline_entry \<Rightarrow> reply_state" where
  "reply_state_of t e =
     (case reply_to (entry_post e) of None \<Rightarrow> NotReply
      | Some parent \<Rightarrow>
          (case timeline_find t parent of Some _ \<Rightarrow> ParentAvailable | None \<Rightarrow> ParentUnavailable))"

definition entry_mentions :: "timeline_entry \<Rightarrow> install_id \<Rightarrow> bool" where
  "entry_mentions e i \<longleftrightarrow> i \<in> set (mentions (entry_post e))"

text \<open>The entry the loop of \<open>eviction_index\<close> stops at: not protected, not queued.\<close>

definition evictable :: "message_id option \<Rightarrow> timeline_entry \<Rightarrow> bool" where
  "evictable protected_id e \<longleftrightarrow> protected_id \<noteq> Some (entry_id e) \<and> \<not> entry_is_queued e"

definition eviction_index :: "timeline \<Rightarrow> message_id option \<Rightarrow> nat option" where
  "eviction_index t protected_id =
     (let index = find_index (evictable protected_id) (entries t)
      in if index < length (entries t) then Some index else None)"

definition insertion_availability ::
  "timeline \<Rightarrow> message_id option \<Rightarrow> timeline_insert_error option" where
  "insertion_availability t protected_id =
     (if last_assigned_order t = u64_max then Some OrderExhausted
      else if length (entries t) < tl_capacity t \<or> eviction_index t protected_id \<noteq> None then None
      else Some Full)"

definition insert_refused :: "timeline_insert_error \<Rightarrow> timeline_insert_result" where
  "insert_refused e = \<lparr>insert_error = Some e, evicted_message_id = None, inserted_order = None\<rparr>"

definition timeline_insert ::
  "timeline \<Rightarrow> post_payload \<Rightarrow> entry_origin \<Rightarrow> message_id option
     \<Rightarrow> timeline_insert_result \<times> timeline" where
  "timeline_insert t post orig protected_id =
     (case timeline_find t (message_id post) of
        Some existing \<Rightarrow>
          (insert_refused (if entry_post existing = post then Duplicate else Conflict), t)
      | None \<Rightarrow>
          if orig = LocalDelivery Queued \<and> queued_count t \<ge> queued_capacity t
          then (insert_refused QueueFull, t)
          else (case insertion_availability t protected_id of
                  Some e \<Rightarrow> (insert_refused e, t)
                | None \<Rightarrow>
                    let next_order = last_assigned_order t + 1;
                        candidate = \<lparr>entry_post = post, received_order = next_order, origin = orig\<rparr>;
                        (evicted, kept) =
                          (if length (entries t) = tl_capacity t
                           then let index = the (eviction_index t protected_id)
                                in (Some (entry_id (entries t ! index)),
                                    take index (entries t) @ drop (Suc index) (entries t))
                           else (None, entries t))
                    in (\<lparr>insert_error = None, evicted_message_id = evicted,
                         inserted_order = Some next_order\<rparr>,
                        t\<lparr>entries := kept @ [candidate], last_assigned_order := next_order\<rparr>)))"

definition insert_received :: "timeline \<Rightarrow> post_payload \<Rightarrow> timeline_insert_result \<times> timeline" where
  "insert_received t post = timeline_insert t post ReceivedOrigin None"

definition insert_local ::
  "timeline \<Rightarrow> post_payload \<Rightarrow> local_delivery_state \<Rightarrow> timeline_insert_result \<times> timeline" where
  "insert_local t post initial_state =
     timeline_insert t post (LocalDelivery initial_state) (reply_to post)"

text \<open>\<open>find_mutable\<close> and the assignment through the pointer it returns.\<close>

definition set_origin_at :: "nat \<Rightarrow> entry_origin \<Rightarrow> timeline_entry list \<Rightarrow> timeline_entry list" where
  "set_origin_at i orig es = es[i := (es ! i)\<lparr>origin := orig\<rparr>]"

definition timeline_transition ::
  "timeline \<Rightarrow> message_id \<Rightarrow> local_delivery_state \<Rightarrow> transition_error option \<times> timeline" where
  "timeline_transition t mid target =
     (let i = find_index (\<lambda>e. entry_id e = mid) (entries t)
      in if i = length (entries t) then (Some NotFound, t)
         else (case origin (entries t ! i) of
                 ReceivedOrigin \<Rightarrow> (Some NotLocal, t)
               | LocalDelivery state \<Rightarrow>
                   if state = target then (None, t)
                   else if state \<noteq> Queued then (Some InvalidState, t)
                   else (None, t\<lparr>entries := set_origin_at i (LocalDelivery target) (entries t)\<rparr>)))"

definition timeline_mark_broadcast ::
  "timeline \<Rightarrow> message_id \<Rightarrow> transition_error option \<times> timeline" where
  "timeline_mark_broadcast t mid = timeline_transition t mid Broadcast"

definition timeline_mark_failed ::
  "timeline \<Rightarrow> message_id \<Rightarrow> transition_error option \<times> timeline" where
  "timeline_mark_failed t mid = timeline_transition t mid Failed"

section \<open>Invariant\<close>

definition timeline_ok :: "timeline \<Rightarrow> bool" where
  "timeline_ok t \<longleftrightarrow>
     0 < tl_capacity t \<and> tl_capacity t \<le> kMaxTimelineEntries \<and>
     length (entries t) \<le> tl_capacity t \<and>
     sorted_wrt (<) (0 # map received_order (entries t) ) \<and>
     list_all (\<lambda>e. received_order e \<le> last_assigned_order t) (entries t) \<and>
     distinct (map entry_id (entries t)) \<and>
     queued_count t \<le> queued_capacity t"

section \<open>Lemmas\<close>

lemma take_drop_find_index:
  "find_index P xs < length xs \<Longrightarrow>
     take (find_index P xs) xs @ drop (Suc (find_index P xs)) xs = erase_first P xs"
  by (induction xs) auto

lemma find_index_lt_iff: "find_index P xs < length xs \<longleftrightarrow> (\<exists>x \<in> set xs. P x)"
  using find_index_le [of P xs] find_index_none [of P xs] by (auto simp: le_less)

lemma eviction_index_None: "eviction_index t prot = None \<longleftrightarrow> (\<forall>e \<in> set (entries t). \<not> evictable prot e)"
  by (auto simp: eviction_index_def Let_def find_index_lt_iff)

text \<open>The entries an insertion keeps: the oldest evictable one goes when the timeline is full.\<close>

definition kept_entries :: "timeline \<Rightarrow> message_id option \<Rightarrow> timeline_entry list" where
  "kept_entries t prot =
     (if length (entries t) = tl_capacity t then erase_first (evictable prot) (entries t) else entries t)"

definition stamped :: "timeline \<Rightarrow> post_payload \<Rightarrow> entry_origin \<Rightarrow> timeline_entry" where
  "stamped t p orig = \<lparr>entry_post = p, received_order = last_assigned_order t + 1, origin = orig\<rparr>"

lemma availability_None:
  "insertion_availability t prot = None \<longleftrightarrow>
     last_assigned_order t \<noteq> u64_max \<and>
     (length (entries t) < tl_capacity t \<or> (\<exists>e \<in> set (entries t). evictable prot e))"
  by (auto simp: insertion_availability_def eviction_index_None)

lemma eviction_index_Some:
  "\<exists>e \<in> set (entries t). evictable prot e \<Longrightarrow>
     eviction_index t prot = Some (find_index (evictable prot) (entries t))"
  by (simp add: eviction_index_def Let_def find_index_lt_iff)

definition evicted_id :: "timeline \<Rightarrow> message_id option \<Rightarrow> message_id option" where
  "evicted_id t prot =
     (if length (entries t) = tl_capacity t
      then Some (entry_id (entries t ! find_index (evictable prot) (entries t))) else None)"

lemma timeline_insert_available:
  assumes "timeline_find t (message_id p) = None"
    "\<not> (orig = LocalDelivery Queued \<and> queued_count t \<ge> queued_capacity t)"
    "insertion_availability t prot = None" "length (entries t) \<le> tl_capacity t"
  shows "timeline_insert t p orig prot =
    (\<lparr>insert_error = None, evicted_message_id = evicted_id t prot,
      inserted_order = Some (last_assigned_order t + 1)\<rparr>,
     t\<lparr>entries := kept_entries t prot @ [stamped t p orig],
       last_assigned_order := last_assigned_order t + 1\<rparr>)"
proof (cases "length (entries t) = tl_capacity t")
  case True
  then have ev: "\<exists>e \<in> set (entries t). evictable prot e"
    using assms(3) by (auto simp: availability_None)
  then have "find_index (evictable prot) (entries t) < length (entries t)"
    by (simp add: find_index_lt_iff)
  from take_drop_find_index [OF this] show ?thesis using True assms
    by (auto simp: timeline_insert_def Let_def eviction_index_Some [OF ev] kept_entries_def
        stamped_def evicted_id_def)
next
  case False
  then show ?thesis using assms
    by (auto simp: timeline_insert_def Let_def kept_entries_def stamped_def evicted_id_def)
qed

lemma timeline_insert_success:
  assumes ins: "timeline_insert t p orig prot = (r, t')" and r: "insert_error r = None"
    and len: "length (entries t) \<le> tl_capacity t"
  shows "t' = t\<lparr>entries := kept_entries t prot @ [stamped t p orig],
                 last_assigned_order := last_assigned_order t + 1\<rparr>"
    "timeline_find t (message_id p) = None" "last_assigned_order t \<noteq> u64_max"
    "orig = LocalDelivery Queued \<Longrightarrow> queued_count t < queued_capacity t"
    "length (entries t) = tl_capacity t \<Longrightarrow> \<exists>e \<in> set (entries t). evictable prot e"
    "evicted_message_id r = evicted_id t prot" "inserted_order r = Some (last_assigned_order t + 1)"
proof -
  have f: "timeline_find t (message_id p) = None"
    and q: "\<not> (orig = LocalDelivery Queued \<and> queued_count t \<ge> queued_capacity t)"
    and a: "insertion_availability t prot = None"
    using ins r
    by (auto simp: timeline_insert_def insert_refused_def split: option.splits if_splits)
  note eq = timeline_insert_available [OF f q a len]
  show "t' = t\<lparr>entries := kept_entries t prot @ [stamped t p orig],
                 last_assigned_order := last_assigned_order t + 1\<rparr>"
    "evicted_message_id r = evicted_id t prot" "inserted_order r = Some (last_assigned_order t + 1)"
    using ins unfolding eq by auto
  show "timeline_find t (message_id p) = None" "last_assigned_order t \<noteq> u64_max"
    "orig = LocalDelivery Queued \<Longrightarrow> queued_count t < queued_capacity t"
    "length (entries t) = tl_capacity t \<Longrightarrow> \<exists>e \<in> set (entries t). evictable prot e"
    using f q a by (auto simp: availability_None)
qed

lemma timeline_insert_refused:
  assumes "timeline_insert t p orig prot = (r, t')" "insert_error r \<noteq> None"
  shows "t' = t" "evicted_message_id r = None" "inserted_order r = None"
  using assms
  by (auto simp: timeline_insert_def insert_refused_def Let_def split: option.splits if_splits)

lemma find_None_entry: "timeline_find t mid = None \<longleftrightarrow> mid \<notin> entry_id ` set (entries t)"
  by (auto simp: timeline_find_def find_None_iff)

lemma queued_count_append:
  "queued_count (t\<lparr>entries := es @ [e]\<rparr>) =
     length (filter entry_is_queued es) + of_bool (entry_is_queued e)"
  by (simp add: queued_count_def)

lemma length_kept:
  assumes "length (entries t) \<le> tl_capacity t" "0 < tl_capacity t"
    "length (entries t) = tl_capacity t \<Longrightarrow> \<exists>e \<in> set (entries t). evictable prot e"
  shows "length (kept_entries t prot) < tl_capacity t"
  using assms by (auto simp: kept_entries_def length_erase_first)

lemma set_kept_subset: "set (kept_entries t prot) \<subseteq> set (entries t)"
  by (auto simp: kept_entries_def dest: erase_first_in)

lemma kept_sorted: "sorted_wrt R (map f (entries t)) \<Longrightarrow> sorted_wrt R (map f (kept_entries t prot))"
  by (simp add: kept_entries_def sorted_wrt_map sorted_wrt_erase_first)

lemma kept_queued_le: "length (filter entry_is_queued (kept_entries t prot)) \<le> queued_count t"
  by (simp add: kept_entries_def queued_count_def filter_erase_first_le)

lemma timeline_insert_ok:
  assumes ok: "timeline_ok t" and ins: "timeline_insert t p orig prot = (r, t')"
  shows "timeline_ok t'"
proof (cases "insert_error r")
  case (Some e)
  with timeline_insert_refused(1) [OF ins] ok show ?thesis by simp
next
  case None
  have len: "length (entries t) \<le> tl_capacity t" and cap: "0 < tl_capacity t"
    using ok by (simp_all add: timeline_ok_def)
  note s = timeline_insert_success [OF ins None len]
  let ?k = "kept_entries t prot" and ?n = "last_assigned_order t + 1"
  have gt: "last_assigned_order t < ?n" using s(3) by (rule u64_succ_greater)
  have le: "\<forall>e \<in> set ?k. received_order e < ?n"
    using ok set_kept_subset [of t prot] gt
    by (fastforce simp: timeline_ok_def list_all_iff)
  have k_sorted: "sorted_wrt (<) (map received_order ?k)"
    using ok by (auto simp: timeline_ok_def intro!: kept_sorted)
  have pos: "\<forall>e \<in> set ?k. 0 < received_order e"
    using ok set_kept_subset [of t prot] by (auto simp: timeline_ok_def)
  have "0 < ?n" using gt by (metis word_gt_0 word_not_simps(1) word_coorder.not_eq_extremum)
  then have sorted: "sorted_wrt (<) (0 # map received_order (?k @ [stamped t p orig]))"
    using k_sorted le pos by (auto simp: sorted_wrt_append stamped_def)
  have dist: "distinct (map entry_id (?k @ [stamped t p orig]))"
    using ok s(2) set_kept_subset [of t prot]
    by (auto simp: timeline_ok_def find_None_entry kept_entries_def stamped_def
        distinct_map_erase_first dest: erase_first_in split: if_splits)
  have q: "length (filter entry_is_queued ?k) + of_bool (entry_is_queued (stamped t p orig))
      \<le> queued_capacity t"
    using s(4) kept_queued_le [of t prot] ok
    by (auto simp: timeline_ok_def entry_is_queued_def stamped_def)
  have "length (?k @ [stamped t p orig]) \<le> tl_capacity t"
    using length_kept [OF len cap, of prot] s(5) by simp
  then show ?thesis
    using ok sorted dist q le
    unfolding s(1) timeline_ok_def queued_capacity_def
    by (auto simp: queued_count_def list_all_iff stamped_def less_imp_le)
qed


text \<open>Space: what cannot be evicted is queued or the protected parent, and these never fill the
  timeline.\<close>

lemma non_evictable_bound:
  assumes "distinct (map entry_id es)"
  shows "length (filter (\<lambda>e. \<not> evictable prot e) es) \<le>
    length (filter entry_is_queued es) + of_bool (prot \<noteq> None)"
  using assms
proof (induction es)
  case Nil
  then show ?case by simp
next
  case (Cons e es)
  show ?case
  proof (cases "prot = Some (entry_id e)")
    case False
    with Cons show ?thesis by (auto simp: evictable_def)
  next
    case True
    with Cons.prems have "filter (\<lambda>e. \<not> evictable prot e) es = filter entry_is_queued es"
      by (intro filter_cong) (auto simp: evictable_def)
    with True show ?thesis by (auto simp: evictable_def)
  qed
qed

lemma evictable_exists:
  assumes "timeline_ok t" "length (entries t) = tl_capacity t"
    "prot = None \<or> queued_count t < queued_capacity t"
  shows "\<exists>e \<in> set (entries t). evictable prot e"
proof (rule ccontr)
  assume "\<not> ?thesis"
  then have "filter (\<lambda>e. \<not> evictable prot e) (entries t) = entries t"
    by (auto simp: filter_id_conv)
  then have "tl_capacity t \<le> queued_count t + of_bool (prot \<noteq> None)"
    using non_evictable_bound [of "entries t" prot] assms(1,2) unfolding queued_count_def
    by (simp add: timeline_ok_def)
  moreover have "queued_count t + of_bool (prot \<noteq> None) \<le> tl_capacity t - 1"
    using assms(1,3) by (auto simp: timeline_ok_def queued_capacity_def)
  moreover have "0 < tl_capacity t" using assms(1) by (simp add: timeline_ok_def)
  ultimately show False by linarith
qed

lemma insert_never_full:
  assumes "timeline_ok t" "timeline_insert t p orig prot = (r, t')"
    "prot = None \<or> orig = LocalDelivery Queued"
  shows "insert_error r \<noteq> Some Full"
proof
  assume f: "insert_error r = Some Full"
  then have "insertion_availability t prot = Some Full"
    and q: "\<not> (orig = LocalDelivery Queued \<and> queued_count t \<ge> queued_capacity t)"
    using assms(2)
    by (auto simp: timeline_insert_def insert_refused_def Let_def split: option.splits if_splits)
  then have "\<not> length (entries t) < tl_capacity t" "eviction_index t prot = None"
    by (auto simp: insertion_availability_def split: if_splits)
  moreover from this have "length (entries t) = tl_capacity t"
    using assms(1) by (simp add: timeline_ok_def)
  ultimately show False
    using evictable_exists [OF assms(1), of prot] assms(3) q by (auto simp: eviction_index_None)
qed

section \<open>Lookup after insertion\<close>

lemma find_append: "List.find P (xs @ ys) = (case List.find P xs of None \<Rightarrow> List.find P ys | Some x \<Rightarrow> Some x)"
  by (induction xs) auto

lemma find_erase_first:
  assumes "distinct (map f xs)" "\<exists>x \<in> set xs. P x"
  shows "List.find (\<lambda>x. f x = k) (erase_first P xs) =
    (if k = f (xs ! find_index P xs) then None else List.find (\<lambda>x. f x = k) xs)"
  using assms
proof (induction xs)
  case Nil
  then show ?case by simp
next
  case (Cons x xs)
  show ?case
  proof (cases "P x")
    case True
    then show ?thesis using Cons.prems(1)
      by (auto simp: find_None_iff) (metis image_eqI)
  next
    case False
    with Cons.prems have ex: "\<exists>x \<in> set xs. P x" by auto
    then have "xs ! find_index P xs \<in> set xs" by (simp add: find_index_lt_iff)
    then have "f x \<noteq> f (xs ! find_index P xs)" using Cons.prems by auto
    with False Cons ex show ?thesis by auto
  qed
qed

lemma find_after_insert:
  assumes ok: "timeline_ok t" and ins: "timeline_insert t p orig prot = (r, t')"
    and r: "insert_error r = None"
  shows "timeline_find t' mid =
    (if mid = message_id p then Some (stamped t p orig)
     else if Some mid = evicted_message_id r then None else timeline_find t mid)"
proof -
  have len: "length (entries t) \<le> tl_capacity t" and d: "distinct (map entry_id (entries t))"
    using ok by (simp_all add: timeline_ok_def)
  note s = timeline_insert_success [OF ins r len]
  have kept: "List.find (\<lambda>e. entry_id e = mid) (kept_entries t prot) =
      (if Some mid = evicted_message_id r then None else timeline_find t mid)"
    using find_erase_first [OF d s(5), of mid] unfolding s(6)
    by (auto simp: kept_entries_def evicted_id_def timeline_find_def)
  show ?thesis
  proof (cases "mid = message_id p")
    case True
    then have "timeline_find t mid = None" using s(2) by simp
    then show ?thesis using kept True by (simp add: s(1) timeline_find_def find_append stamped_def)
  next
    case False
    then show ?thesis using kept
      by (simp add: s(1) timeline_find_def find_append stamped_def split: option.splits)
  qed
qed

lemma evicted_was_evictable:
  assumes ok: "timeline_ok t" and ins: "timeline_insert t p orig prot = (r, t')"
    and ev: "evicted_message_id r = Some mid"
  shows "\<exists>e. timeline_find t mid = Some e \<and> \<not> entry_is_queued e \<and> prot \<noteq> Some mid"
proof -
  have len: "length (entries t) \<le> tl_capacity t" and d: "distinct (map entry_id (entries t))"
    using ok by (simp_all add: timeline_ok_def)
  have r: "insert_error r = None" using timeline_insert_refused(2) [OF ins] ev by (cases "insert_error r") auto
  note s = timeline_insert_success [OF ins r len]
  let ?i = "find_index (evictable prot) (entries t)"
  have full: "length (entries t) = tl_capacity t" and mid: "mid = entry_id (entries t ! ?i)"
    using ev unfolding s(6) by (auto simp: evicted_id_def split: if_splits)
  have i: "?i < length (entries t)" using s(5) [OF full] by (simp add: find_index_lt_iff)
  then have evi: "evictable prot (entries t ! ?i)" by (rule find_index_found)
  have "timeline_find t mid = Some (entries t ! ?i)"
    unfolding timeline_find_def mid find_Some_iff
    using i d by (intro exI [of _ ?i]) (auto simp: distinct_conv_nth)
  with evi mid show ?thesis by (auto simp: evictable_def)
qed

section \<open>Delivery transitions\<close>

lemma set_origin_at_maps:
  assumes "i < length es"
  shows "map entry_post (set_origin_at i orig es) = map entry_post es"
    "map received_order (set_origin_at i orig es) = map received_order es"
    "length (set_origin_at i orig es) = length es"
  using assms by (auto simp: set_origin_at_def map_update list_update_same_conv)

lemma filter_update_drop:
  "i < length es \<Longrightarrow> \<not> P x \<Longrightarrow> length (filter P (es[i := x])) \<le> length (filter P es)"
  by (induction es arbitrary: i) (auto split: nat.splits simp: le_SucI)

lemma timeline_transition_cases:
  obtains "timeline_transition t mid target = (Some NotFound, t)" "timeline_find t mid = None"
  | e where "timeline_find t mid = Some e" "origin e = ReceivedOrigin"
      "timeline_transition t mid target = (Some NotLocal, t)"
  | e where "timeline_find t mid = Some e" "origin e = LocalDelivery target"
      "timeline_transition t mid target = (None, t)"
  | e s where "timeline_find t mid = Some e" "origin e = LocalDelivery s" "s \<noteq> target" "s \<noteq> Queued"
      "timeline_transition t mid target = (Some InvalidState, t)"
  | i where "i < length (entries t)" "timeline_find t mid = Some (entries t ! i)"
      "entry_id (entries t ! i) = mid" "origin (entries t ! i) = LocalDelivery Queued"
      "target \<noteq> Queued"
      "timeline_transition t mid target =
         (None, t\<lparr>entries := set_origin_at i (LocalDelivery target) (entries t)\<rparr>)"
proof -
  let ?i = "find_index (\<lambda>e. entry_id e = mid) (entries t)"
  show ?thesis
  proof (cases "?i < length (entries t)")
    case False
    then have i: "?i = length (entries t)" using find_index_le [of "\<lambda>e. entry_id e = mid" "entries t"] by simp
    then have "timeline_find t mid = None"
      unfolding timeline_find_def find_None_iff using False [unfolded find_index_lt_iff] by auto
    with i show ?thesis by (intro that(1)) (simp_all add: timeline_transition_def)
  next
    case True
    then have id: "entry_id (entries t ! ?i) = mid" by (rule find_index_found)
    have f: "timeline_find t mid = Some (entries t ! ?i)"
      unfolding timeline_find_def find_Some_iff
      using True id find_index_before [of _ "\<lambda>e. entry_id e = mid" "entries t"]
      by (intro exI [of _ ?i]) auto
    show ?thesis
    proof (cases "origin (entries t ! ?i)")
      case ReceivedOrigin
      with True f show ?thesis by (intro that(2)) (simp_all add: timeline_transition_def)
    next
      case (LocalDelivery s)
      with True f id that(3,4,5) show ?thesis
        by (cases "s = target"; cases "s = Queued") (simp_all add: timeline_transition_def)
    qed
  qed
qed

lemma timeline_transition_ok:
  assumes ok: "timeline_ok t"
  shows "timeline_ok (snd (timeline_transition t mid target))"
proof (rule timeline_transition_cases [of t mid target])
  fix i assume i: "i < length (entries t)" and target: "target \<noteq> Queued"
    and eq: "timeline_transition t mid target =
         (None, t\<lparr>entries := set_origin_at i (LocalDelivery target) (entries t)\<rparr>)"
  let ?es = "set_origin_at i (LocalDelivery target) (entries t)"
  note m = set_origin_at_maps [OF i, of "LocalDelivery target"]
  have ids: "map entry_id ?es = map entry_id (entries t)"
    using arg_cong [OF m(1), of "map message_id"] by (simp add: comp_def)
  have q: "length (filter entry_is_queued ?es) \<le> length (filter entry_is_queued (entries t))"
    unfolding set_origin_at_def
    by (rule filter_update_drop [OF i]) (simp add: entry_is_queued_def target)
  have ords: "list_all (\<lambda>e. received_order e \<le> n) ?es = list_all (\<lambda>e. received_order e \<le> n) (entries t)" for n
    using arg_cong [OF m(2), of "list_all (\<lambda>x. x \<le> n)"] by (simp add: list.pred_map comp_def)
  show ?thesis using ok q m(3)
    unfolding eq timeline_ok_def queued_capacity_def queued_count_def
    by (simp add: ids m(2) ords)
qed (use ok in simp_all)

lemma find_update_key:
  assumes "i < length xs" "f (xs ! i) = f y" "distinct (map f xs)"
  shows "List.find (\<lambda>x. f x = k) (xs[i := y]) =
    (if k = f y then Some y else List.find (\<lambda>x. f x = k) xs)"
  using assms
proof (induction xs arbitrary: i)
  case (Cons x xs)
  show ?case
  proof (cases i)
    case 0
    with Cons.prems show ?thesis by auto
  next
    case (Suc j)
    with Cons.prems have "f x \<noteq> f y" by (auto simp: image_iff dest!: nth_mem)
    with Suc Cons show ?thesis by auto
  qed
qed simp

lemma find_after_transition:
  assumes ok: "timeline_ok t"
  shows "timeline_find (snd (timeline_transition t mid target)) k =
    (case timeline_find t k of None \<Rightarrow> None
     | Some e \<Rightarrow> Some (if k = mid \<and> origin e = LocalDelivery Queued
                     then e\<lparr>origin := LocalDelivery target\<rparr> else e))"
proof (rule timeline_transition_cases [of t mid target])
  fix i assume i: "i < length (entries t)" and id: "entry_id (entries t ! i) = mid"
    and f: "timeline_find t mid = Some (entries t ! i)"
    and q: "origin (entries t ! i) = LocalDelivery Queued"
    and eq: "timeline_transition t mid target =
         (None, t\<lparr>entries := set_origin_at i (LocalDelivery target) (entries t)\<rparr>)"
  have d: "distinct (map entry_id (entries t))" using ok by (simp add: timeline_ok_def)
  show ?thesis
    using find_update_key [of i "entries t" entry_id, OF i _ d] f q id
    unfolding eq by (auto simp: timeline_find_def set_origin_at_def split: option.splits)
qed (auto split: option.splits)

section \<open>Restoring\<close>

lemma restore_loop_Inr:
  "timeline_restore_loop lao seen es prev q = Inr n \<longleftrightarrow>
     n = q + length (filter entry_is_queued es) \<and>
     (es \<noteq> [] \<longrightarrow> seen \<noteq> [] \<longrightarrow> prev < received_order (hd es)) \<and>
     sorted_wrt (<) (0 # map received_order es) \<and>
     list_all (\<lambda>e. received_order e \<le> lao) es \<and> distinct (map entry_id es) \<and>
     entry_id ` set seen \<inter> entry_id ` set es = {}"
proof (induction es arbitrary: seen prev q)
  case (Cons e es)
  have sorted: "sorted_wrt (<) (0 # map received_order (e # es)) \<longleftrightarrow>
     0 < received_order e \<and> (es \<noteq> [] \<longrightarrow> received_order e < received_order (hd es)) \<and>
     sorted_wrt (<) (0 # map received_order es)"
    by (cases es) (auto intro: less_trans)
  have dup: "\<not> list_ex (\<lambda>existing. entry_id existing = entry_id e) seen \<longleftrightarrow>
      entry_id e \<notin> entry_id ` set seen"
    by (auto simp: list_ex_iff image_iff)
  have nz: "0 < received_order e \<longleftrightarrow> received_order e \<noteq> 0" by (simp add: word_neq_0_conv)
  show ?case
    unfolding sorted timeline_restore_loop.simps nz
    using Cons.IH dup by (auto simp: not_le not_less)
qed auto

lemma timeline_restore_Inr:
  "timeline_restore capacity lao es = Inr t \<longleftrightarrow>
     t = \<lparr>tl_capacity = capacity, last_assigned_order = lao, entries = es\<rparr> \<and> timeline_ok t"
proof -
  have "timeline_restore capacity lao es = Inr t \<longleftrightarrow>
      0 < capacity \<and> capacity \<le> kMaxTimelineEntries \<and> length es \<le> capacity \<and>
      (\<exists>n. timeline_restore_loop lao [] es 0 0 = Inr n \<and> n \<le> min kMaxQueuedLocalPosts (capacity - 1)) \<and>
      t = \<lparr>tl_capacity = capacity, last_assigned_order = lao, entries = es\<rparr>"
    by (cases "timeline_restore_loop lao [] es 0 0") (auto simp: timeline_restore_def not_le not_less)
  then show ?thesis
    unfolding restore_loop_Inr timeline_ok_def queued_count_def queued_capacity_def by auto
qed

section \<open>The timeline as a bounded ledger\<close>

lemma timeline_insert_capacity: "tl_capacity (snd (timeline_insert t p orig prot)) = tl_capacity t"
  by (auto simp: timeline_insert_def Let_def split: option.splits)

lemma timeline_insert_ok_snd: "timeline_ok t \<Longrightarrow> timeline_ok (snd (timeline_insert t p orig prot))"
  by (cases "timeline_insert t p orig prot") (simp add: timeline_insert_ok)

lemma timeline_insert_find:
  assumes "timeline_ok t" "insert_error (fst (timeline_insert t p orig prot)) = None"
  shows "timeline_find (snd (timeline_insert t p orig prot)) (message_id p) = Some (stamped t p orig)"
  using find_after_insert [OF assms(1), of p orig prot] assms(2)
  by (cases "timeline_insert t p orig prot") simp

interpretation history: bounded_ledger timeline_ok "\<lambda>t. map entry_id (entries t)" tl_capacity
    "\<lambda>p t. snd (insert_received t p)"
  by unfold_locales
    (auto simp: insert_received_def timeline_insert_ok_snd timeline_insert_capacity,
     simp_all add: timeline_ok_def)

section \<open>Properties\<close>

definition sample_timeline :: timeline where
  "sample_timeline = \<lparr>tl_capacity = 2, last_assigned_order = 0, entries = []\<rparr>"

lemma sample_timeline_ok: "timeline_ok sample_timeline"
  by (simp add: timeline_ok_def sample_timeline_def queued_count_def)

text \<open>\<open>Timeline::restore\<close> accepts exactly the stored histories that satisfy the class invariant
  (capacity in range, entries within it, orders positive, increasing and at most the last assigned
  one, distinct message ids, queued posts within the queue's capacity) and keeps them unchanged.\<close>

theorem timeline_restore_iff:
  "timeline_restore capacity lao es = Inr t \<longleftrightarrow>
     t = \<lparr>tl_capacity = capacity, last_assigned_order = lao, entries = es\<rparr> \<and> timeline_ok t"
  by (rule timeline_restore_Inr)

text \<open>Every operation of the timeline keeps its invariant, whatever it returns; and after any
  sequence of received posts the history holds distinct messages and no more than its capacity.\<close>

theorem timeline_operations_ok:
  assumes "timeline_ok t"
  shows "timeline_ok (snd (insert_received t p)) \<and> timeline_ok (snd (insert_local t p s)) \<and>
    timeline_ok (snd (timeline_mark_broadcast t mid)) \<and> timeline_ok (snd (timeline_mark_failed t mid)) \<and>
    distinct (map entry_id (entries (fold (\<lambda>p t. snd (insert_received t p)) ps t))) \<and>
    length (entries (fold (\<lambda>p t. snd (insert_received t p)) ps t)) \<le> tl_capacity t"
  using assms history.fold_bounded [OF assms, of ps]
  by (simp add: insert_received_def insert_local_def timeline_mark_broadcast_def
      timeline_mark_failed_def timeline_insert_ok_snd timeline_transition_ok)

theorem timeline_operations_ok_witness:
  "timeline_ok (snd (insert_local sample_timeline sample_post Queued))"
  using timeline_operations_ok [OF sample_timeline_ok] by blast

text \<open>A successful insertion stores the new entry, stamped with the next order, under its message
  id; the one entry it evicts disappears, is not queued for sending and is not the parent the new
  post replies to; every other lookup is unchanged.\<close>

theorem timeline_insert_lookup:
  assumes ok: "timeline_ok t" and ins: "insert_local t p s = (r, t')"
    and r: "insert_error r = None"
  shows "timeline_find t' mid =
      (if mid = message_id p
       then Some \<lparr>entry_post = p, received_order = last_assigned_order t + 1, origin = LocalDelivery s\<rparr>
       else if evicted_message_id r = Some mid then None else timeline_find t mid) \<and>
    (evicted_message_id r = Some mid \<longrightarrow>
      reply_to p \<noteq> Some mid \<and> (\<exists>e. timeline_find t mid = Some e \<and> origin e \<noteq> LocalDelivery Queued))"
  using find_after_insert [OF ok ins [unfolded insert_local_def] r, of mid]
    evicted_was_evictable [OF ok ins [unfolded insert_local_def], of mid]
  by (auto simp: stamped_def entry_is_queued_def)

theorem timeline_insert_lookup_witness:
  "timeline_find (snd (insert_local sample_timeline sample_post Queued)) (message_id sample_post) =
     Some \<lparr>entry_post = sample_post, received_order = 1, origin = LocalDelivery Queued\<rparr>"
proof -
  have "insert_local sample_timeline sample_post Queued =
      (\<lparr>insert_error = None, evicted_message_id = None, inserted_order = Some 1\<rparr>,
       snd (insert_local sample_timeline sample_post Queued))"
    by (simp add: insert_local_def timeline_insert_def sample_timeline_def timeline_find_def Let_def
        queued_count_def queued_capacity_def insertion_availability_def)
  from timeline_insert_lookup [OF sample_timeline_ok this, of "message_id sample_post"]
  show ?thesis by (simp add: sample_timeline_def)
qed

text \<open>Space is never the reason to refuse a received post or a post queued for sending: the slot
  kept free of queued entries always leaves something to evict, the protected parent included.\<close>

theorem timeline_never_full:
  assumes "timeline_ok t"
  shows "insert_error (fst (insert_received t p)) \<noteq> Some Full \<and>
    insert_error (fst (insert_local t p Queued)) \<noteq> Some Full"
proof -
  obtain r1 t1 where 1: "insert_received t p = (r1, t1)" by (cases "insert_received t p")
  obtain r2 t2 where 2: "insert_local t p Queued = (r2, t2)" by (cases "insert_local t p Queued")
  show ?thesis
    using insert_never_full [OF assms 1 [unfolded insert_received_def]]
      insert_never_full [OF assms 2 [unfolded insert_local_def]] by (simp add: 1 2)
qed

theorem timeline_never_full_witness:
  "insert_error (fst (insert_local sample_timeline sample_post Queued)) \<noteq> Some Full"
  using timeline_never_full [OF sample_timeline_ok] by blast

text \<open>Delivery states only move from \<open>Queued\<close> to the requested terminal state, of the named local
  post alone: every other entry, received ones included, is found unchanged afterwards.\<close>

theorem timeline_mark_lookup:
  assumes "timeline_ok t"
  shows "timeline_find (snd (timeline_mark_broadcast t mid)) k =
      (case timeline_find t k of None \<Rightarrow> None
       | Some e \<Rightarrow> Some (if k = mid \<and> origin e = LocalDelivery Queued
                       then e\<lparr>origin := LocalDelivery Broadcast\<rparr> else e)) \<and>
    timeline_find (snd (timeline_mark_failed t mid)) k =
      (case timeline_find t k of None \<Rightarrow> None
       | Some e \<Rightarrow> Some (if k = mid \<and> origin e = LocalDelivery Queued
                       then e\<lparr>origin := LocalDelivery Failed\<rparr> else e))"
  unfolding timeline_mark_broadcast_def timeline_mark_failed_def
  using find_after_transition [OF assms] by blast

theorem timeline_mark_lookup_witness:
  "timeline_find (snd (timeline_mark_failed sample_timeline (message_id sample_post)))
     (message_id sample_post) = None"
  using timeline_mark_lookup [OF sample_timeline_ok, of "message_id sample_post" "message_id sample_post"]
  by (simp add: sample_timeline_def timeline_find_def)

end
