(* ===== verification/App_Messenger_State.thy ===== *)
theory App_Messenger_State
  imports Model_Timeline
begin

text \<open>
  Model of \<^verbatim>\<open>src/application/messenger_state.cpp\<close>: the commands on the identity and the timeline, each
  of which is a transaction against the durability port. The ports are parameters: \<open>command_ports\<close>
  holds what one command would be told by the random source, the clock and the two persist calls
  (\<open>None\<close> when there is no durability port). A command returns its result, the new state and the list
  of persist calls it made, in order.
\<close>

section \<open>Definitions\<close>

datatype command_error =
    NotInitialized | AlreadyInitialized | CmdInvalidUserId | CmdInvalidBody | CmdTooManyMentions
  | CmdDuplicateMention | ReplyParentUnavailable | CmdQueueFull | TimelineFull | SequenceExhausted
  | CmdOrderExhausted | RandomUnavailable | MessageIdCollision | CmdInvalidPost | DuplicatePost
  | ConflictingPost | MessageNotFound | NotLocalPost | InvalidTransition | PersistenceUnavailable

record command_result =
  cr_error :: "command_error option"
  cr_text_error :: "text_error option"
  cr_post_error :: "post_error option"
  cr_message_id :: "message_id option"
  cr_evicted :: "message_id option"

definition command_ok :: command_result where
  "command_ok = \<lparr>cr_error = None, cr_text_error = None, cr_post_error = None, cr_message_id = None,
     cr_evicted = None\<rparr>"

definition command_failed :: "command_error \<Rightarrow> command_result" where
  "command_failed e = command_ok\<lparr>cr_error := Some e\<rparr>"

datatype commit_call = PersistIdentity identity bool | PersistTimeline timeline bool

record command_ports =
  port_random :: "bytes option"
  port_clock :: "int option"
  port_commit :: "(bool \<times> bool) option"

record messenger_state =
  ms_identity :: "identity option"
  ms_timeline :: timeline

type_synonym command_outcome = "command_result \<times> messenger_state \<times> commit_call list"

datatype messenger_status = Uninitialized | Ready

definition messenger_status_of :: "messenger_state \<Rightarrow> messenger_status" where
  "messenger_status_of self = (case ms_identity self of Some _ \<Rightarrow> Ready | None \<Rightarrow> Uninitialized)"

definition messenger_new :: "nat \<Rightarrow> u64 \<Rightarrow> messenger_state option" where
  "messenger_new capacity lao =
     map_option (\<lambda>t. \<lparr>ms_identity = None, ms_timeline = t\<rparr>) (timeline_new capacity lao)"

fun map_insert_error :: "timeline_insert_error \<Rightarrow> command_error" where
  "map_insert_error Duplicate = DuplicatePost"
| "map_insert_error Conflict = ConflictingPost"
| "map_insert_error QueueFull = CmdQueueFull"
| "map_insert_error Full = TimelineFull"
| "map_insert_error OrderExhausted = CmdOrderExhausted"

definition map_insert_result :: "timeline_insert_result \<Rightarrow> command_result" where
  "map_insert_result result =
     command_ok\<lparr>cr_evicted := evicted_message_id result,
       cr_error := map_option map_insert_error (insert_error result)\<rparr>"

definition map_availability :: "timeline_insert_error \<Rightarrow> command_result" where
  "map_availability e =
     (if e = Full then command_failed TimelineFull
      else if e = OrderExhausted then command_failed CmdOrderExhausted
      else command_ok)"

text \<open>\<open>commit_ && !commit_->persist_...\<close>: whether the call failed, and the call made.\<close>

definition persist_identity :: "command_ports \<Rightarrow> identity \<Rightarrow> bool \<times> commit_call list" where
  "persist_identity ports i =
     (case port_commit ports of None \<Rightarrow> (True, [])
      | Some (ok, _) \<Rightarrow> (ok, [PersistIdentity i ok]))"

definition persist_timeline :: "command_ports \<Rightarrow> timeline \<Rightarrow> bool \<times> commit_call list" where
  "persist_timeline ports t =
     (case port_commit ports of None \<Rightarrow> (True, [])
      | Some (_, ok) \<Rightarrow> (ok, [PersistTimeline t ok]))"

definition initialize_new :: "command_ports \<Rightarrow> bytes \<Rightarrow> messenger_state \<Rightarrow> command_outcome" where
  "initialize_new ports user self =
     (if ms_identity self \<noteq> None then (command_failed AlreadyInitialized, self, [])
      else case user_id_create user of
        Inl e \<Rightarrow> ((command_failed CmdInvalidUserId)\<lparr>cr_text_error := Some e\<rparr>, self, [])
      | Inr validated \<Rightarrow>
          (case install_id_generate (port_random ports) of
             Inl _ \<Rightarrow> (command_failed RandomUnavailable, self, [])
           | Inr install \<Rightarrow>
               let candidate = identity_restore install validated 0;
                   (ok, calls) = persist_identity ports candidate
               in if \<not> ok then (command_failed PersistenceUnavailable, self, calls)
                  else (command_ok, self\<lparr>ms_identity := Some candidate\<rparr>, calls)))"

definition restore_identity :: "identity \<Rightarrow> messenger_state \<Rightarrow> command_outcome" where
  "restore_identity i self =
     (if ms_identity self \<noteq> None then (command_failed AlreadyInitialized, self, [])
      else (command_ok, self\<lparr>ms_identity := Some i\<rparr>, []))"

definition restore_state :: "identity \<Rightarrow> timeline \<Rightarrow> messenger_state \<Rightarrow> command_outcome" where
  "restore_state i t self =
     (if ms_identity self \<noteq> None then (command_failed AlreadyInitialized, self, [])
      else (command_ok, self\<lparr>ms_identity := Some i, ms_timeline := t\<rparr>, []))"

definition rename_user :: "command_ports \<Rightarrow> bytes \<Rightarrow> messenger_state \<Rightarrow> command_outcome" where
  "rename_user ports user self =
     (case ms_identity self of
        None \<Rightarrow> (command_failed NotInitialized, self, [])
      | Some i \<Rightarrow>
          (case user_id_create user of
             Inl e \<Rightarrow> ((command_failed CmdInvalidUserId)\<lparr>cr_text_error := Some e\<rparr>, self, [])
           | Inr validated \<Rightarrow>
               let candidate = identity_rename i validated;
                   (ok, calls) = persist_identity ports candidate
               in if \<not> ok then (command_failed PersistenceUnavailable, self, calls)
                  else (command_ok, self\<lparr>ms_identity := Some candidate\<rparr>, calls)))"

text \<open>The nested search for a repeated mention.\<close>

fun has_duplicate :: "'a list \<Rightarrow> bool" where
  "has_duplicate [] = False"
| "has_duplicate (x # xs) = (x \<in> set xs \<or> has_duplicate xs)"

definition compose_input :: "identity \<Rightarrow> u64 \<Rightarrow> message_id \<Rightarrow> post_draft \<Rightarrow> int option \<Rightarrow> post_payload_input" where
  "compose_input i sequence mid draft now =
     \<lparr>in_message_id = message_uuid mid, in_sender_id = install_uuid (identity_install_id i),
      in_sender_sequence = sequence, in_sender_user_id = user_id_value (identity_user_id i),
      in_body = draft_body draft, in_mentions = map install_uuid (draft_mentions draft),
      in_reply_to = map_option message_uuid (draft_reply_to draft), in_sender_time = now\<rparr>"

text \<open>The two persist calls of \<open>compose\<close>: the identity first, then the history.\<close>

definition compose_commit ::
  "command_ports \<Rightarrow> identity \<Rightarrow> timeline \<Rightarrow> timeline_insert_result \<Rightarrow> message_id \<Rightarrow> messenger_state
     \<Rightarrow> command_outcome" where
  "compose_commit ports updated_identity candidate inserted created_id self =
     (let (ok, calls) = persist_identity ports updated_identity
      in if \<not> ok then (command_failed PersistenceUnavailable, self, calls)
         else let self = self\<lparr>ms_identity := Some updated_identity\<rparr>;
                  (ok, history_calls) = persist_timeline ports candidate
              in if \<not> ok then (command_failed PersistenceUnavailable, self, calls @ history_calls)
                 else ((map_insert_result inserted)\<lparr>cr_message_id := Some created_id\<rparr>,
                       self\<lparr>ms_timeline := candidate\<rparr>, calls @ history_calls))"

definition compose :: "command_ports \<Rightarrow> post_draft \<Rightarrow> messenger_state \<Rightarrow> command_outcome" where
  "compose ports draft self =
     (case ms_identity self of
        None \<Rightarrow> (command_failed NotInitialized, self, [])
      | Some i \<Rightarrow>
      case post_body_create (draft_body draft) of
        Inl e \<Rightarrow> ((command_failed CmdInvalidBody)\<lparr>cr_text_error := Some e\<rparr>, self, [])
      | Inr _ \<Rightarrow>
      if length (draft_mentions draft) > kMaxMentions then (command_failed CmdTooManyMentions, self, [])
      else if has_duplicate (draft_mentions draft) then (command_failed CmdDuplicateMention, self, [])
      else if (case draft_reply_to draft of None \<Rightarrow> False
               | Some parent \<Rightarrow> timeline_find (ms_timeline self) parent = None)
      then (command_failed ReplyParentUnavailable, self, [])
      else if queued_count (ms_timeline self) \<ge> queued_capacity (ms_timeline self)
      then (command_failed CmdQueueFull, self, [])
      else case next_sender_sequence i of
        None \<Rightarrow> (command_failed SequenceExhausted, self, [])
      | Some sequence \<Rightarrow>
      let (committed, updated_identity) = commit_sender_sequence i sequence
      in if \<not> committed then (command_failed SequenceExhausted, self, [])
      else case insertion_availability (ms_timeline self) (draft_reply_to draft) of
        Some e \<Rightarrow> (map_availability e, self, [])
      | None \<Rightarrow>
      case message_id_generate (port_random ports) of
        Inl _ \<Rightarrow> (command_failed RandomUnavailable, self, [])
      | Inr mid \<Rightarrow>
      if timeline_find (ms_timeline self) mid \<noteq> None then (command_failed MessageIdCollision, self, [])
      else case post_payload_create (compose_input i sequence mid draft (port_clock ports)) of
        Inl e \<Rightarrow> ((command_failed CmdInvalidPost)\<lparr>cr_post_error := Some e\<rparr>, self, [])
      | Inr post \<Rightarrow>
      let (inserted, candidate) = insert_local (ms_timeline self) post Queued
      in if insert_error inserted \<noteq> None then (map_insert_result inserted, self, [])
         else compose_commit ports updated_identity candidate inserted (message_id post) self)"

definition accept_received :: "command_ports \<Rightarrow> post_payload \<Rightarrow> messenger_state \<Rightarrow> command_outcome" where
  "accept_received ports post self =
     (case ms_identity self of
        None \<Rightarrow> (command_failed NotInitialized, self, [])
      | Some _ \<Rightarrow>
          let (inserted, candidate) = insert_received (ms_timeline self) post;
              result = map_insert_result inserted
          in if cr_error result \<noteq> None then (result, self, [])
             else let (ok, calls) = persist_timeline ports candidate
                  in if \<not> ok then (command_failed PersistenceUnavailable, self, calls)
                     else (result, self\<lparr>ms_timeline := candidate\<rparr>, calls))"

fun map_transition_error :: "transition_error \<Rightarrow> command_error" where
  "map_transition_error NotFound = MessageNotFound"
| "map_transition_error NotLocal = NotLocalPost"
| "map_transition_error InvalidState = InvalidTransition"

definition messenger_transition :: "command_ports \<Rightarrow> message_id \<Rightarrow> bool \<Rightarrow> messenger_state \<Rightarrow> command_outcome" where
  "messenger_transition ports mid broadcast self =
     (case ms_identity self of
        None \<Rightarrow> (command_failed NotInitialized, self, [])
      | Some _ \<Rightarrow>
          let (e, candidate) = (if broadcast then timeline_mark_broadcast (ms_timeline self) mid
                                else timeline_mark_failed (ms_timeline self) mid)
          in case e of
               Some err \<Rightarrow> (command_failed (map_transition_error err), self, [])
             | None \<Rightarrow>
                 let (ok, calls) = persist_timeline ports candidate
                 in if \<not> ok then (command_failed PersistenceUnavailable, self, calls)
                    else (command_ok, self\<lparr>ms_timeline := candidate\<rparr>, calls))"

definition messenger_mark_broadcast :: "command_ports \<Rightarrow> message_id \<Rightarrow> messenger_state \<Rightarrow> command_outcome" where
  "messenger_mark_broadcast ports mid self = messenger_transition ports mid True self"

definition messenger_mark_failed :: "command_ports \<Rightarrow> message_id \<Rightarrow> messenger_state \<Rightarrow> command_outcome" where
  "messenger_mark_failed ports mid self = messenger_transition ports mid False self"

section \<open>Commands and runs\<close>

datatype command =
    InitializeNew bytes
  | RestoreIdentity identity
  | RestoreState identity timeline
  | RenameUser bytes
  | Compose post_draft
  | AcceptReceived post_payload
  | MarkBroadcast message_id
  | MarkFailed message_id

fun execute :: "command_ports \<Rightarrow> command \<Rightarrow> messenger_state \<Rightarrow> command_outcome" where
  "execute ports (InitializeNew u) s = initialize_new ports u s"
| "execute ports (RestoreIdentity i) s = restore_identity i s"
| "execute ports (RestoreState i t) s = restore_state i t s"
| "execute ports (RenameUser u) s = rename_user ports u s"
| "execute ports (Compose d) s = compose ports d s"
| "execute ports (AcceptReceived p) s = accept_received ports p s"
| "execute ports (MarkBroadcast mid) s = messenger_mark_broadcast ports mid s"
| "execute ports (MarkFailed mid) s = messenger_mark_failed ports mid s"

text \<open>The step relation: one command with ports and arguments that satisfy the types of the source.\<close>

definition ports_wf :: "command_ports \<Rightarrow> bool" where
  "ports_wf ports \<longleftrightarrow>
     (case port_random ports of None \<Rightarrow> True | Some b \<Rightarrow> length b = 16) \<and>
     (case port_clock ports of None \<Rightarrow> True | Some t \<Rightarrow> int64_range t)"

definition timeline_posts_ok :: "timeline \<Rightarrow> bool" where
  "timeline_posts_ok t \<longleftrightarrow> timeline_ok t \<and> list_all (\<lambda>e. post_ok (entry_post e)) (entries t)"

fun command_wf :: "command \<Rightarrow> bool" where
  "command_wf (RestoreIdentity i) \<longleftrightarrow> identity_ok i"
| "command_wf (RestoreState i t) \<longleftrightarrow> identity_ok i \<and> timeline_posts_ok t"
| "command_wf (Compose d) \<longleftrightarrow> list_all (\<lambda>m. uuid_ok (install_uuid m)) (draft_mentions d)"
| "command_wf (AcceptReceived p) \<longleftrightarrow> post_ok p"
| "command_wf _ \<longleftrightarrow> True"

text \<open>The local posts a step exposes: those of the histories it hands to the durability port or
  keeps, that the history did not hold before.\<close>

definition local_posts :: "timeline \<Rightarrow> post_payload list" where
  "local_posts t = map entry_post (filter (\<lambda>e. origin e \<noteq> ReceivedOrigin) (entries t))"

fun call_timelines :: "commit_call list \<Rightarrow> timeline list" where
  "call_timelines [] = []"
| "call_timelines (PersistTimeline t ok # cs) = t # call_timelines cs"
| "call_timelines (PersistIdentity i ok # cs) = call_timelines cs"

definition exposed_posts :: "messenger_state \<Rightarrow> commit_call list \<Rightarrow> messenger_state \<Rightarrow> post_payload list" where
  "exposed_posts s calls s' =
     remdups (filter (\<lambda>p. timeline_find (ms_timeline s) (message_id p) = None)
       (concat (map local_posts (call_timelines calls @ [ms_timeline s']))))"

record step_label =
  lb_ports :: command_ports
  lb_command :: command
  lb_result :: command_result
  lb_calls :: "commit_call list"
  lb_exposed :: "post_payload list"

inductive messenger_step :: "messenger_state \<Rightarrow> step_label \<Rightarrow> messenger_state \<Rightarrow> bool" where
  step_command: "ports_wf ports \<Longrightarrow> command_wf c \<Longrightarrow> execute ports c s = (r, s', calls) \<Longrightarrow>
    messenger_step s \<lparr>lb_ports = ports, lb_command = c, lb_result = r, lb_calls = calls,
      lb_exposed = exposed_posts s calls s'\<rparr> s'"

inductive messenger_run :: "messenger_state \<Rightarrow> step_label list \<Rightarrow> messenger_state \<Rightarrow> bool" where
  run_refl: "messenger_run s [] s"
| run_step: "messenger_run s ls s' \<Longrightarrow> messenger_step s' l s'' \<Longrightarrow> messenger_run s (ls @ [l]) s''"

inductive_cases messenger_stepE: "messenger_step s l s'"
inductive_cases messenger_run_NilE: "messenger_run s [] s'"

text \<open>What the durability port keeps: the last identity and history it accepted.\<close>

fun commit_apply :: "commit_call \<Rightarrow> messenger_state \<Rightarrow> messenger_state" where
  "commit_apply (PersistIdentity i ok) store = (if ok then store\<lparr>ms_identity := Some i\<rparr> else store)"
| "commit_apply (PersistTimeline t ok) store = (if ok then store\<lparr>ms_timeline := t\<rparr> else store)"

fun is_restore :: "command \<Rightarrow> bool" where
  "is_restore (RestoreIdentity i) = True"
| "is_restore (RestoreState i t) = True"
| "is_restore _ = False"

section \<open>Invariant\<close>

definition messenger_ok :: "messenger_state \<Rightarrow> bool" where
  "messenger_ok s \<longleftrightarrow> timeline_posts_ok (ms_timeline s) \<and>
     (case ms_identity s of None \<Rightarrow> True | Some i \<Rightarrow> identity_ok i)"

section \<open>Lemmas\<close>

lemma has_duplicate_iff [simp]: "has_duplicate xs \<longleftrightarrow> \<not> distinct xs"
  by (induction xs) auto

lemma command_result_simps [simp]:
  "cr_error command_ok = None" "cr_error (command_failed e) = Some e"
  "cr_error (map_insert_result r) = map_option map_insert_error (insert_error r)"
  "cr_error (map_insert_result r) = None \<longleftrightarrow> insert_error r = None"
  by (simp_all add: command_ok_def command_failed_def map_insert_result_def)

lemma availability_error_maps:
  "insertion_availability t prot = Some e \<Longrightarrow> cr_error (map_availability e) \<noteq> None"
  by (auto simp: insertion_availability_def map_availability_def split: if_splits)

lemma generated_message_id:
  assumes "ports_wf ports" "message_id_generate (port_random ports) = Inr mid"
  shows "uuid_ok (message_uuid mid)"
  using assms generate_ids_succeed by (cases "port_random ports") (fastforce simp: ports_wf_def)+

lemma generated_install_id:
  assumes "ports_wf ports" "install_id_generate (port_random ports) = Inr mid"
  shows "uuid_ok (install_uuid mid)"
  using assms generate_ids_succeed by (cases "port_random ports") (fastforce simp: ports_wf_def)+

lemma found_post_ok:
  assumes "timeline_posts_ok t" "timeline_find t mid = Some e"
  shows "post_ok (entry_post e)" "entry_id e = mid"
  using assms find_Some_set [of _ "entries t" e]
  by (auto simp: timeline_posts_ok_def timeline_find_def list_all_iff)

text \<open>The post a composition builds is valid: the branch for an invalid one is never taken.\<close>

lemma map_InstallId_uuid [simp]: "map (InstallId \<circ> install_uuid) xs = xs"
  by (simp add: map_idI)

definition composed_post :: "identity \<Rightarrow> u64 \<Rightarrow> message_id \<Rightarrow> post_draft \<Rightarrow> int option \<Rightarrow> post_payload" where
  "composed_post i sequence mid draft now =
     \<lparr>message_id = mid, sender_id = identity_install_id i, sender_sequence = sequence,
      sender_user_id = identity_user_id i, body = PostBody (draft_body draft),
      mentions = draft_mentions draft, reply_to = draft_reply_to draft, sender_time = now\<rparr>"

lemma compose_creates:
  assumes "identity_ok i" "sequence \<noteq> 0" "uuid_ok (message_uuid mid)"
    "post_body_ok (PostBody (draft_body d))" "length (draft_mentions d) \<le> kMaxMentions"
    "distinct (draft_mentions d)" "command_wf (Compose d)"
    "\<And>parent. draft_reply_to d = Some parent \<Longrightarrow> uuid_ok (message_uuid parent) \<and> parent \<noteq> mid"
    "case now of None \<Rightarrow> True | Some t \<Rightarrow> int64_range t"
  shows "post_payload_create (compose_input i sequence mid d now) = Inr (composed_post i sequence mid d now)"
    "post_ok (composed_post i sequence mid d now)"
proof -
  show ok: "post_ok (composed_post i sequence mid d now)"
    using assms by (auto simp: post_ok_def composed_post_def identity_ok_def split: option.splits)
  have "post_input (composed_post i sequence mid d now) = compose_input i sequence mid d now"
    by (simp add: post_input_def composed_post_def compose_input_def)
  then show "post_payload_create (compose_input i sequence mid d now) = Inr (composed_post i sequence mid d now)"
    using post_ok_create(1) [OF ok] by simp
qed

lemma messenger_okD:
  assumes "messenger_ok s"
  shows "timeline_posts_ok (ms_timeline s)" "timeline_ok (ms_timeline s)"
    "ms_identity s = Some i \<Longrightarrow> identity_ok i"
  using assms by (auto simp: messenger_ok_def timeline_posts_ok_def)

text \<open>The guards of \<open>compose\<close> that come before the insertion.\<close>

definition compose_admits :: "command_ports \<Rightarrow> post_draft \<Rightarrow> messenger_state \<Rightarrow> identity \<Rightarrow> u64 \<Rightarrow> message_id \<Rightarrow> bool" where
  "compose_admits ports d s i sequence mid \<longleftrightarrow>
     ms_identity s = Some i \<and> post_body_ok (PostBody (draft_body d)) \<and>
     length (draft_mentions d) \<le> kMaxMentions \<and> distinct (draft_mentions d) \<and>
     (case draft_reply_to d of None \<Rightarrow> True | Some parent \<Rightarrow> timeline_find (ms_timeline s) parent \<noteq> None) \<and>
     queued_count (ms_timeline s) < queued_capacity (ms_timeline s) \<and>
     next_sender_sequence i = Some sequence \<and> last_assigned_order (ms_timeline s) \<noteq> u64_max \<and>
     message_id_generate (port_random ports) = Inr mid \<and> timeline_find (ms_timeline s) mid = None"

lemma composed_post_fields [simp]:
  "message_id (composed_post i n mid d now) = mid" "sender_sequence (composed_post i n mid d now) = n"
  "sender_id (composed_post i n mid d now) = identity_install_id i"
  "reply_to (composed_post i n mid d now) = draft_reply_to d"
  by (simp_all add: composed_post_def)

lemma admitted_available:
  assumes "compose_admits ports d s i sequence mid" "messenger_ok s"
  shows "insertion_availability (ms_timeline s) (draft_reply_to d) = None"
proof -
  obtain r t where ins: "timeline_insert (ms_timeline s) (composed_post i sequence mid d None)
      (LocalDelivery Queued) (draft_reply_to d) = (r, t)" by fastforce
  have "insert_error r \<noteq> Some Full" by (rule insert_never_full [OF messenger_okD(2) [OF assms(2)] ins]) simp
  with assms(1) ins show ?thesis
    by (auto simp: compose_admits_def timeline_insert_def insert_refused_def insertion_availability_def
        split: option.splits if_splits)
qed

lemma admitted_insert:
  assumes "compose_admits ports d s i sequence mid" "messenger_ok s"
  shows "insert_local (ms_timeline s) (composed_post i sequence mid d now) Queued =
    (\<lparr>insert_error = None, evicted_message_id = evicted_id (ms_timeline s) (draft_reply_to d),
      inserted_order = Some (last_assigned_order (ms_timeline s) + 1)\<rparr>,
     (ms_timeline s)\<lparr>entries := kept_entries (ms_timeline s) (draft_reply_to d) @
         [stamped (ms_timeline s) (composed_post i sequence mid d now) (LocalDelivery Queued)],
       last_assigned_order := last_assigned_order (ms_timeline s) + 1\<rparr>)"
  unfolding insert_local_def composed_post_fields
  using assms(1) admitted_available [OF assms] messenger_okD(2) [OF assms(2)]
  by (intro timeline_insert_available) (simp_all add: compose_admits_def timeline_ok_def)

lemma admitted_compose:
  assumes ad: "compose_admits ports d s i sequence mid" and ok: "messenger_ok s" and p: "ports_wf ports"
    and c: "command_wf (Compose d)"
    and ins: "insert_local (ms_timeline s) (composed_post i sequence mid d (port_clock ports)) Queued = (r, t)"
  shows "compose ports d s = compose_commit ports (i\<lparr>last_issued_sender_sequence := sequence\<rparr>) t r mid s"
    "insert_error r = None" "post_ok (composed_post i sequence mid d (port_clock ports))"
proof -
  have mid: "uuid_ok (message_uuid mid)" using ad p generated_message_id by (simp add: compose_admits_def)
  have parent: "uuid_ok (message_uuid q) \<and> q \<noteq> mid" if q: "draft_reply_to d = Some q" for q
  proof -
    obtain e where e: "timeline_find (ms_timeline s) q = Some e"
      using ad q by (auto simp: compose_admits_def)
    show ?thesis
      using found_post_ok [OF messenger_okD(1) [OF ok] e] e ad by (auto simp: post_ok_def compose_admits_def)
  qed
  have i: "identity_ok i" and n: "sequence \<noteq> 0"
    using ad messenger_okD(3) [OF ok] next_sequence_increases(2) by (auto simp: compose_admits_def)
  have create: "post_payload_create (compose_input i sequence mid d (port_clock ports)) =
      Inr (composed_post i sequence mid d (port_clock ports))"
    and "post_ok (composed_post i sequence mid d (port_clock ports))"
    using ad p parent by (auto intro!: compose_creates i n mid c simp: compose_admits_def ports_wf_def)
  then show "post_ok (composed_post i sequence mid d (port_clock ports))" by blast
  show r: "insert_error r = None" using admitted_insert [OF ad ok, of "port_clock ports"] ins by simp
  have b: "post_body_create (draft_body d) = Inr (PostBody (draft_body d))"
    using ad by (simp add: compose_admits_def)
  show "compose ports d s = compose_commit ports (i\<lparr>last_issued_sender_sequence := sequence\<rparr>) t r mid s"
    using ad ins r create admitted_available [OF ad ok]
    by (auto simp: compose_def compose_admits_def b commit_next_sequence split: option.splits)
qed

lemma compose_refused:
  assumes na: "\<And>i sequence mid. \<not> compose_admits ports d s i sequence mid"
  shows "snd (compose ports d s) = (s, []) \<and> cr_error (fst (compose ports d s)) \<noteq> None"
proof (cases "ms_identity s")
  case None
  then show ?thesis by (simp add: compose_def)
next
  case (Some i)
  note [simp] = Some compose_def
  consider (bad) e where "post_body_create (draft_body d) = Inl e"
    | (many) b where "post_body_create (draft_body d) = Inr b" "\<not> (length (draft_mentions d) \<le> kMaxMentions \<and>
        distinct (draft_mentions d) \<and>
        (case draft_reply_to d of None \<Rightarrow> True | Some q \<Rightarrow> timeline_find (ms_timeline s) q \<noteq> None) \<and>
        queued_count (ms_timeline s) < queued_capacity (ms_timeline s))"
    | (good) b where "post_body_create (draft_body d) = Inr b" "length (draft_mentions d) \<le> kMaxMentions"
        "distinct (draft_mentions d)" "queued_count (ms_timeline s) < queued_capacity (ms_timeline s)"
        "case draft_reply_to d of None \<Rightarrow> True | Some q \<Rightarrow> timeline_find (ms_timeline s) q \<noteq> None"
    by (cases "post_body_create (draft_body d)") blast+
  then show ?thesis
  proof cases
    case bad then show ?thesis by simp
  next
    case many then show ?thesis by (auto split: option.splits simp del: post_body_create_Inr)
  next
    case good
    have reply: "\<not> (case draft_reply_to d of None \<Rightarrow> False | Some q \<Rightarrow> timeline_find (ms_timeline s) q = None)"
      using good(5) by (auto split: option.splits)
    show ?thesis
    proof (cases "next_sender_sequence i")
      case None
      then show ?thesis using good reply by (simp del: post_body_create_Inr)
    next
      case n: (Some n)
      show ?thesis
      proof (cases "insertion_availability (ms_timeline s) (draft_reply_to d)")
        case (Some e)
        then show ?thesis using good reply n
          by (simp add: commit_next_sequence availability_error_maps del: post_body_create_Inr)
      next
        case a: None
        then have "last_assigned_order (ms_timeline s) \<noteq> u64_max" by (simp add: availability_None)
        then have "timeline_find (ms_timeline s) mid \<noteq> None"
          if "message_id_generate (port_random ports) = Inr mid" for mid
          using na [of i n mid] good n that by (auto simp: compose_admits_def)
        then show ?thesis using good reply n a
          by (cases "message_id_generate (port_random ports)") (auto simp: commit_next_sequence simp del: post_body_create_Inr)
      qed
    qed
  qed
qed

text \<open>What \<open>compose\<close> does, over the guards and the two persist calls.\<close>

lemma compose_outcome:
  assumes ok: "messenger_ok s" and p: "ports_wf ports" and c: "command_wf (Compose d)"
    and run: "compose ports d s = (r, s', calls)"
  obtains (refused) "s' = s" "calls = []" "cr_error r \<noteq> None"
      "\<And>i sequence mid. \<not> compose_admits ports d s i sequence mid"
  | (admitted) i sequence mid inserted t where "compose_admits ports d s i sequence mid"
      "post_ok (composed_post i sequence mid d (port_clock ports))"
      "insert_local (ms_timeline s) (composed_post i sequence mid d (port_clock ports)) Queued = (inserted, t)"
      "insert_error inserted = None"
      "compose_commit ports (i\<lparr>last_issued_sender_sequence := sequence\<rparr>) t inserted mid s = (r, s', calls)"
proof (cases "\<exists>i sequence mid. compose_admits ports d s i sequence mid")
  case False
  then show ?thesis using compose_refused [of ports d s] run by (intro refused) auto
next
  case True
  then obtain i n mid where ad: "compose_admits ports d s i n mid" by blast
  obtain ins t where eq: "insert_local (ms_timeline s) (composed_post i n mid d (port_clock ports)) Queued = (ins, t)"
    by fastforce
  from admitted [OF ad _ eq] admitted_compose [OF ad ok p c eq] run show ?thesis by simp
qed

section \<open>The invariant\<close>

lemma insert_posts_ok:
  assumes "timeline_posts_ok t" "post_ok p" "timeline_insert t p orig prot = (r, t')"
  shows "timeline_posts_ok t'"
proof (cases "insert_error r")
  case (Some e)
  then show ?thesis using timeline_insert_refused(1) [OF assms(3)] assms(1) by simp
next
  case None
  have ok: "timeline_ok t" using assms(1) by (simp add: timeline_posts_ok_def)
  then have len: "length (entries t) \<le> tl_capacity t" by (simp add: timeline_ok_def)
  have "timeline_ok t'" by (rule timeline_insert_ok [OF ok assms(3)])
  then show ?thesis
    using assms(1,2) set_kept_subset [of t prot]
    by (auto simp: timeline_insert_success(1) [OF assms(3) None len] timeline_posts_ok_def list_all_iff stamped_def)
qed

lemma transition_posts:
  "map entry_post (entries (snd (timeline_transition t mid target))) = map entry_post (entries t)"
  by (rule timeline_transition_cases [of t mid target])
    (auto simp: set_origin_at_def map_update list_update_same_conv)

lemma transition_posts_ok:
  assumes "timeline_posts_ok t"
  shows "timeline_posts_ok (snd (timeline_transition t mid target))"
proof -
  have "list_all post_ok (map entry_post (entries (snd (timeline_transition t mid target))))"
    using assms unfolding transition_posts by (simp add: timeline_posts_ok_def list.pred_map comp_def)
  then show ?thesis
    using assms timeline_transition_ok [of t mid target]
    by (simp add: timeline_posts_ok_def list.pred_map comp_def)
qed

lemma compose_commit_outcome:
  assumes "compose_commit ports i t inserted mid s = (r, s', calls)"
  obtains (not_reserved) "s' = s" "calls = [PersistIdentity i False]" "r = command_failed PersistenceUnavailable"
  | (gap) "s' = s\<lparr>ms_identity := Some i\<rparr>" "calls = [PersistIdentity i True, PersistTimeline t False]"
      "r = command_failed PersistenceUnavailable"
  | (kept) "s' = s\<lparr>ms_identity := Some i, ms_timeline := t\<rparr>"
      "r = (map_insert_result inserted)\<lparr>cr_message_id := Some mid\<rparr>"
      "calls = (if port_commit ports = None then [] else [PersistIdentity i True, PersistTimeline t True])"
      "case port_commit ports of None \<Rightarrow> True | Some oks \<Rightarrow> oks = (True, True)"
  using assms
  by (auto simp: compose_commit_def persist_identity_def persist_timeline_def Let_def
      split: if_splits option.splits prod.splits)

lemma compose_commit_ok:
  assumes "messenger_ok s" "identity_ok i" "timeline_posts_ok t"
    "compose_commit ports i t inserted mid s = (r, s', calls)"
  shows "messenger_ok s'"
  using assms(1-3) by (cases rule: compose_commit_outcome [OF assms(4)]) (simp_all add: messenger_ok_def)

lemma compose_ok:
  assumes ok: "messenger_ok s" and p: "ports_wf ports" and c: "command_wf (Compose d)"
    and run: "compose ports d s = (r, s', calls)"
  shows "messenger_ok s'"
proof (rule compose_outcome [OF assms])
  assume "s' = s" then show ?thesis using ok by simp
next
  fix i n mid inserted t
  assume ad: "compose_admits ports d s i n mid" and post: "post_ok (composed_post i n mid d (port_clock ports))"
    and ins: "insert_local (ms_timeline s) (composed_post i n mid d (port_clock ports)) Queued = (inserted, t)"
    and commit: "compose_commit ports (i\<lparr>last_issued_sender_sequence := n\<rparr>) t inserted mid s = (r, s', calls)"
  have "identity_ok (i\<lparr>last_issued_sender_sequence := n\<rparr>)"
    using ad messenger_okD(3) [OF ok] by (simp add: compose_admits_def identity_ok_def)
  moreover have "timeline_posts_ok t"
    using insert_posts_ok [OF messenger_okD(1) [OF ok] post] ins by (simp add: insert_local_def)
  ultimately show ?thesis using compose_commit_ok [OF ok _ _ commit] by blast
qed

lemma accept_received_ok:
  assumes "messenger_ok s" "post_ok p" "accept_received ports p s = (r, s', calls)"
  shows "messenger_ok s'"
proof -
  obtain ins t where t: "insert_received (ms_timeline s) p = (ins, t)" by fastforce
  have "timeline_posts_ok t"
    using insert_posts_ok [OF messenger_okD(1) [OF assms(1)] assms(2)] t by (simp add: insert_received_def)
  then show ?thesis using assms t
    by (auto simp: accept_received_def messenger_ok_def Let_def split: option.splits if_splits prod.splits)
qed

lemma messenger_transition_ok:
  assumes "messenger_ok s" "messenger_transition ports mid b s = (r, s', calls)"
  shows "messenger_ok s'"
proof -
  have "timeline_posts_ok (snd (timeline_mark_broadcast (ms_timeline s) mid))"
    "timeline_posts_ok (snd (timeline_mark_failed (ms_timeline s) mid))"
    using messenger_okD(1) [OF assms(1)]
    by (simp_all add: timeline_mark_broadcast_def timeline_mark_failed_def transition_posts_ok)
  then show ?thesis using assms
    by (auto simp: messenger_transition_def messenger_ok_def Let_def
        split: option.splits if_splits prod.splits)
qed

lemma execute_ok:
  assumes ok: "messenger_ok s" and p: "ports_wf ports" and c: "command_wf c"
    and run: "execute ports c s = (r, s', calls)"
  shows "messenger_ok s'"
proof (cases c)
  case (InitializeNew u)
  then show ?thesis using ok run generated_install_id [OF p]
    by (auto simp: initialize_new_def messenger_ok_def identity_ok_def identity_restore_def Let_def
        split: if_splits sum.splits prod.splits)
next
  case (RenameUser u)
  then show ?thesis using ok run
    by (auto simp: rename_user_def messenger_ok_def identity_ok_def identity_rename_def Let_def
        split: option.splits if_splits sum.splits prod.splits)
next
  case (Compose d)
  then show ?thesis using compose_ok [OF ok p] c run by simp
next
  case (AcceptReceived q)
  then show ?thesis using accept_received_ok [OF ok] c run by simp
next
  case (MarkBroadcast mid)
  then show ?thesis using messenger_transition_ok [OF ok] run by (simp add: messenger_mark_broadcast_def)
next
  case (MarkFailed mid)
  then show ?thesis using messenger_transition_ok [OF ok] run by (simp add: messenger_mark_failed_def)
qed (use ok c run in \<open>auto simp: restore_identity_def restore_state_def messenger_ok_def split: if_splits\<close>)

lemma step_ok: "messenger_step s l s' \<Longrightarrow> messenger_ok s \<Longrightarrow> messenger_ok s'"
  by (auto elim!: messenger_stepE intro: execute_ok)

lemma run_ok: "messenger_run s ls s' \<Longrightarrow> messenger_ok s \<Longrightarrow> messenger_ok s'"
  by (induction rule: messenger_run.induct) (auto intro: step_ok)

section \<open>Durability\<close>

lemma persist_calls:
  "persist_identity ports i = (ok, calls) \<Longrightarrow> port_commit ports \<noteq> None \<Longrightarrow> calls = [PersistIdentity i ok]"
  "persist_timeline ports t = (ok, calls) \<Longrightarrow> port_commit ports \<noteq> None \<Longrightarrow> calls = [PersistTimeline t ok]"
  by (auto simp: persist_identity_def persist_timeline_def)

lemma compose_cases_commit:
  "(\<exists>r. compose ports d s = (r, s, [])) \<or>
   (\<exists>i t ins mid. compose ports d s = compose_commit ports i t ins mid s)"
  unfolding compose_def Let_def
  by (simp split: option.splits sum.splits prod.splits) blast

lemma execute_replay:
  assumes commit: "port_commit ports \<noteq> None" and c: "\<not> is_restore c"
    and run: "execute ports c s = (r, s', calls)"
  shows "fold commit_apply calls s = s'"
proof (cases c)
  case (Compose d)
  from compose_cases_commit [of ports d s] show ?thesis
  proof
    assume "\<exists>i t ins mid. compose ports d s = compose_commit ports i t ins mid s"
    then obtain i t ins mid where "compose_commit ports i t ins mid s = (r, s', calls)"
      using run Compose by auto
    then show ?thesis using commit by (cases rule: compose_commit_outcome) auto
  qed (use run Compose in auto)
qed (use c run commit in \<open>auto dest!: persist_calls simp: initialize_new_def rename_user_def accept_received_def
      messenger_mark_broadcast_def messenger_mark_failed_def messenger_transition_def Let_def
      split: if_splits option.splits sum.splits prod.splits\<close>)

lemma run_replay:
  assumes "messenger_run s ls s'"
    "list_all (\<lambda>l. port_commit (lb_ports l) \<noteq> None \<and> \<not> is_restore (lb_command l)) ls"
  shows "fold commit_apply (concat (map lb_calls ls)) s = s'"
  using assms
proof (induction rule: messenger_run.induct)
  case (run_step s ls s' l s'')
  from run_step(2) have "fold commit_apply (lb_calls l) s' = s''"
    using run_step.prems by (auto elim!: messenger_stepE intro: execute_replay)
  then show ?case using run_step.IH run_step.prems by simp
qed simp

section \<open>Exposed posts\<close>

definition fresh_local :: "timeline \<Rightarrow> timeline \<Rightarrow> post_payload list" where
  "fresh_local t0 t = filter (\<lambda>p. timeline_find t0 (message_id p) = None) (local_posts t)"

lemma exposed_fresh:
  "exposed_posts s calls s' =
     remdups (concat (map (fresh_local (ms_timeline s)) (call_timelines calls @ [ms_timeline s'])))"
  by (simp add: exposed_posts_def filter_concat comp_def fresh_local_def [abs_def])

lemma fresh_local_Nil:
  assumes "entry_id ` {e \<in> set (entries t). origin e \<noteq> ReceivedOrigin} \<subseteq> entry_id ` set (entries t0)"
  shows "fresh_local t0 t = []"
  using assms by (auto simp: fresh_local_def local_posts_def filter_empty_conv find_None_entry)

lemma fresh_local_self [simp]: "fresh_local t t = []"
  by (rule fresh_local_Nil) auto

lemma fresh_local_insert:
  assumes ok: "timeline_ok t" and ins: "timeline_insert t p orig prot = (r, t')" and r: "insert_error r = None"
  shows "fresh_local t t' = (if orig = ReceivedOrigin then [] else [p])"
proof -
  have len: "length (entries t) \<le> tl_capacity t" using ok by (simp add: timeline_ok_def)
  note s = timeline_insert_success [OF ins r len]
  have "filter (\<lambda>q. timeline_find t (message_id q) = None)
      (map entry_post (filter (\<lambda>e. origin e \<noteq> ReceivedOrigin) (kept_entries t prot))) = []"
    using set_kept_subset [of t prot] by (auto simp: filter_empty_conv find_None_entry)
  then show ?thesis using s(2) by (simp add: fresh_local_def local_posts_def s(1) stamped_def)
qed

lemma fresh_local_transition: "fresh_local t (snd (timeline_transition t mid target)) = []"
proof (rule fresh_local_Nil)
  have "entry_id ` set (entries (snd (timeline_transition t mid target))) = entry_id ` set (entries t)"
    using arg_cong [OF transition_posts, of "\<lambda>ps. message_id ` set ps" t mid target]
    by (simp add: image_image)
  then show "entry_id ` {e \<in> set (entries (snd (timeline_transition t mid target))). origin e \<noteq> ReceivedOrigin}
      \<subseteq> entry_id ` set (entries t)" by auto
qed

lemma compose_exposed:
  assumes ok: "messenger_ok s" and p: "ports_wf ports" and c: "command_wf (Compose d)"
    and run: "compose ports d s = (r, s', calls)" and i: "ms_identity s = Some i"
  shows "s' = s \<and> exposed_posts s calls s' = [] \<or>
    (\<exists>q. exposed_posts s calls s' = [q] \<and> next_sender_sequence i = Some (sender_sequence q) \<and>
       sender_id q = identity_install_id i \<and>
       ms_identity s' = Some (i\<lparr>last_issued_sender_sequence := sender_sequence q\<rparr>))"
proof (rule compose_outcome [OF ok p c run])
  assume "s' = s" "calls = []" then show ?thesis by (simp add: exposed_fresh)
next
  fix j n mid inserted t
  let ?q = "composed_post j n mid d (port_clock ports)"
  assume ad: "compose_admits ports d s j n mid"
    and ins: "insert_local (ms_timeline s) ?q Queued = (inserted, t)" and r: "insert_error inserted = None"
    and commit: "compose_commit ports (j\<lparr>last_issued_sender_sequence := n\<rparr>) t inserted mid s = (r, s', calls)"
  have j: "j = i" "next_sender_sequence i = Some n" using ad i by (auto simp: compose_admits_def)
  have "fresh_local (ms_timeline s) t = [?q]"
    using fresh_local_insert [OF messenger_okD(2) [OF ok] ins [unfolded insert_local_def] r] by simp
  then show ?thesis using j
    by (cases rule: compose_commit_outcome [OF commit]) (auto simp: exposed_fresh)
qed

lemma execute_unexposed:
  assumes ok: "messenger_ok s" and run: "execute ports c s = (r, s', calls)" and i: "ms_identity s = Some i"
    and c: "\<And>d. c \<noteq> Compose d"
  shows "exposed_posts s calls s' = [] \<and> (\<exists>i'. ms_identity s' = Some i' \<and>
    identity_install_id i' = identity_install_id i \<and>
    last_issued_sender_sequence i' = last_issued_sender_sequence i)"
proof (cases c)
  case (AcceptReceived p)
  obtain ins t where t: "insert_received (ms_timeline s) p = (ins, t)" by fastforce
  have "insert_error ins = None \<Longrightarrow> fresh_local (ms_timeline s) t = []"
    using fresh_local_insert [OF messenger_okD(2) [OF ok] t [unfolded insert_received_def]] by simp
  then show ?thesis using run AcceptReceived t i
    by (auto simp: accept_received_def persist_timeline_def exposed_fresh Let_def
        split: if_splits option.splits)
next
  case (MarkBroadcast mid)
  then show ?thesis using run i fresh_local_transition [of "ms_timeline s" mid Broadcast]
    by (auto simp: messenger_mark_broadcast_def messenger_transition_def timeline_mark_broadcast_def
        persist_timeline_def exposed_fresh Let_def split: if_splits option.splits prod.splits)
next
  case (MarkFailed mid)
  then show ?thesis using run i fresh_local_transition [of "ms_timeline s" mid Failed]
    by (auto simp: messenger_mark_failed_def messenger_transition_def timeline_mark_failed_def
        persist_timeline_def exposed_fresh Let_def split: if_splits option.splits prod.splits)
qed (use run i c in \<open>auto simp: initialize_new_def restore_identity_def restore_state_def rename_user_def
      persist_identity_def identity_rename_def exposed_fresh Let_def split: if_splits sum.splits option.splits\<close>)

definition sequences_advance :: "identity \<Rightarrow> post_payload list \<Rightarrow> identity \<Rightarrow> bool" where
  "sequences_advance i posts i' \<longleftrightarrow>
     identity_install_id i' = identity_install_id i \<and>
     list_all (\<lambda>p. sender_id p = identity_install_id i) posts \<and>
     sorted_wrt (<) (last_issued_sender_sequence i # map sender_sequence posts) \<and>
     list_all (\<lambda>n. n \<le> last_issued_sender_sequence i')
       (last_issued_sender_sequence i # map sender_sequence posts)"

lemma sequences_advance_append:
  "sequences_advance i ps j \<Longrightarrow> sequences_advance j qs k \<Longrightarrow> sequences_advance i (ps @ qs) k"
  by (fastforce simp: sequences_advance_def sorted_wrt_append list_all_iff)

lemma step_sequences:
  assumes "messenger_step s l s'" "messenger_ok s" "ms_identity s = Some i"
  shows "\<exists>i'. ms_identity s' = Some i' \<and> sequences_advance i (lb_exposed l) i'"
  using assms(1)
proof cases
  case (step_command ports c r calls)
  show ?thesis
  proof (cases "\<exists>d. c = Compose d")
    case True
    then obtain d where "c = Compose d" by blast
    with step_command compose_exposed [OF assms(2) _ _ _ assms(3), of ports d r s' calls] assms(3)
    show ?thesis by (auto simp: sequences_advance_def dest: next_sequence_increases)
  next
    case False
    with step_command execute_unexposed [OF assms(2) _ assms(3), of ports c r s' calls]
    show ?thesis by (auto simp: sequences_advance_def)
  qed
qed

lemma run_sequences:
  assumes "messenger_run s ls s'" "messenger_ok s" "ms_identity s = Some i"
  shows "\<exists>i'. ms_identity s' = Some i' \<and> sequences_advance i (concat (map lb_exposed ls)) i'"
  using assms
proof (induction rule: messenger_run.induct)
  case (run_refl s)
  then show ?case by (simp add: sequences_advance_def)
next
  case (run_step s ls s' l s'')
  then obtain j where j: "ms_identity s' = Some j" "sequences_advance i (concat (map lb_exposed ls)) j" by blast
  from step_sequences [OF run_step(2) run_ok [OF run_step(1) run_step.prems(1)] j(1)] j(2)
  show ?case by (auto intro: sequences_advance_append)
qed

section \<open>A sample conversation\<close>

definition sample_identity :: identity where
  "sample_identity = identity_restore (InstallId (sample_uuid 2)) (UserId [0x4d, 0x69]) 6"

definition sample_messenger :: messenger_state where
  "sample_messenger = \<lparr>ms_identity = Some sample_identity, ms_timeline = sample_timeline\<rparr>"

definition sample_ports :: "bool \<Rightarrow> command_ports" where
  "sample_ports ok = \<lparr>port_random = Some (sample_uuid 9), port_clock = Some 5, port_commit = Some (True, ok)\<rparr>"

definition sample_draft :: post_draft where
  "sample_draft = \<lparr>draft_body = [0x48, 0x69], draft_mentions = [InstallId (sample_uuid 3)], draft_reply_to = None\<rparr>"

lemma sample_messenger_ok: "messenger_ok sample_messenger"
  using sample_timeline_ok sample_uuid_ok [of 2] sample_texts(1)
  by (simp add: messenger_ok_def sample_messenger_def timeline_posts_ok_def identity_ok_def sample_identity_def
      identity_restore_def sample_timeline_def)

lemma sample_ports_wf: "ports_wf (sample_ports ok)" "command_wf (Compose sample_draft)"
  using sample_uuid_ok [of 3]
  by (simp_all add: ports_wf_def sample_ports_def int64_range_def sample_draft_def sample_uuid_def)

lemma sample_compose_results:
  "cr_error (fst (compose (sample_ports True) sample_draft sample_messenger)) = None"
  "cr_error (fst (compose (sample_ports False) sample_draft sample_messenger)) = Some PersistenceUnavailable"
  by code_simp+

lemma sample_run:
  "\<exists>l s'. messenger_run sample_messenger [l] s' \<and> lb_exposed l \<noteq> [] \<and>
     port_commit (lb_ports l) \<noteq> None \<and> \<not> is_restore (lb_command l) \<and> s' \<noteq> sample_messenger"
proof -
  let ?o = "compose (sample_ports True) sample_draft sample_messenger"
  have "messenger_step sample_messenger \<lparr>lb_ports = sample_ports True, lb_command = Compose sample_draft,
      lb_result = fst ?o, lb_calls = snd (snd ?o),
      lb_exposed = exposed_posts sample_messenger (snd (snd ?o)) (fst (snd ?o))\<rparr> (fst (snd ?o))"
    by (rule step_command) (simp_all add: sample_ports_wf [simplified])
  then have "messenger_run sample_messenger ([] @ [\<lparr>lb_ports = sample_ports True, lb_command = Compose sample_draft,
      lb_result = fst ?o, lb_calls = snd (snd ?o),
      lb_exposed = exposed_posts sample_messenger (snd (snd ?o)) (fst (snd ?o))\<rparr>]) (fst (snd ?o))"
    by (rule run_step [OF run_refl])
  moreover have "exposed_posts sample_messenger (snd (snd ?o)) (fst (snd ?o)) \<noteq> []" by code_simp
  moreover have "ms_identity (fst (snd ?o)) \<noteq> ms_identity sample_messenger" by code_simp
  moreover have "port_commit (sample_ports True) \<noteq> None" by (simp add: sample_ports_def)
  ultimately show ?thesis by fastforce
qed

section \<open>Properties\<close>

text \<open>Whatever commands run, in whatever order and with whatever the random source, the clock
  and the durability port answer, a messenger state built by the constructor keeps its invariant: a valid
  identity, a history that satisfies the timeline's invariant, and only valid posts in it.\<close>

theorem messenger_run_keeps_ok:
  assumes "messenger_new capacity lao = Some s" "messenger_run s ls s'"
  shows "messenger_ok s'"
proof -
  have "messenger_ok s" using assms(1)
    by (auto simp: messenger_new_def timeline_new_def messenger_ok_def timeline_posts_ok_def timeline_ok_def
        queued_count_def split: if_splits)
  with assms(2) show ?thesis by (rule run_ok)
qed

theorem messenger_run_keeps_ok_witness:
  "\<exists>s. messenger_new 2 0 = Some s \<and> messenger_run s [] s \<and> messenger_ok s"
  using messenger_run_keeps_ok [of 2 0 "\<lparr>ms_identity = None, ms_timeline = sample_timeline\<rparr>" "[]"]
    run_refl [of "\<lparr>ms_identity = None, ms_timeline = sample_timeline\<rparr>"]
  by (simp add: messenger_new_def timeline_new_def sample_timeline_def)

text \<open>C19: A sender sequence is never reused. Along any run of a messenger with an identity, the
  local posts that reach the history or are handed to the durability port carry strictly increasing sequence
  numbers above the last one issued before, under the same install id, and the identity's high-water
  mark stays at or above all of them, also when a persist call fails.\<close>

theorem sender_sequences_never_reused:
  assumes "messenger_ok s" "ms_identity s = Some i" "messenger_run s ls s'"
  shows "\<exists>i'. ms_identity s' = Some i' \<and> identity_install_id i' = identity_install_id i \<and>
    sorted_wrt (<) (last_issued_sender_sequence i # map sender_sequence (concat (map lb_exposed ls))) \<and>
    list_all (\<lambda>p. sender_id p = identity_install_id i \<and> sender_sequence p \<le> last_issued_sender_sequence i')
      (concat (map lb_exposed ls))"
proof -
  obtain i' where i': "ms_identity s' = Some i'" and adv: "sequences_advance i (concat (map lb_exposed ls)) i'"
    using run_sequences [OF assms(3,1,2)] by blast
  show ?thesis
    by (rule exI [of _ i']) (use i' adv in \<open>auto simp: sequences_advance_def list_all_iff\<close>)
qed

theorem sender_sequences_never_reused_witness:
  "\<exists>l s' i'. messenger_run sample_messenger [l] s' \<and> lb_exposed l \<noteq> [] \<and> ms_identity s' = Some i' \<and>
     list_all (\<lambda>p. 6 < sender_sequence p \<and> sender_sequence p \<le> last_issued_sender_sequence i') (lb_exposed l)"
proof -
  obtain l s' where l: "messenger_run sample_messenger [l] s'" "lb_exposed l \<noteq> []" using sample_run by blast
  from sender_sequences_never_reused [OF sample_messenger_ok _ l(1), of sample_identity] l show ?thesis
    by (fastforce simp: sample_messenger_def sample_identity_def identity_restore_def list_all_iff)
qed

text \<open>C20: The state in memory refines the durable one. With a durability port, replaying the persist
  calls it accepted over the state the run began with gives exactly the identity and the history in
  memory, after any run of commands (the two that load a stored state aside): nothing is shown that
  would be lost, and nothing is stored that is not shown.\<close>

theorem durable_state_refined:
  assumes "messenger_run s ls s'"
    "list_all (\<lambda>l. port_commit (lb_ports l) \<noteq> None \<and> \<not> is_restore (lb_command l)) ls"
  shows "fold commit_apply (concat (map lb_calls ls)) s = s'"
  using run_replay [OF assms] .

theorem durable_state_refined_witness:
  "\<exists>l s'. messenger_run sample_messenger [l] s' \<and> fold commit_apply (lb_calls l) sample_messenger = s' \<and>
     s' \<noteq> sample_messenger"
proof -
  obtain l s' where "messenger_run sample_messenger [l] s'" "port_commit (lb_ports l) \<noteq> None"
    "\<not> is_restore (lb_command l)" "s' \<noteq> sample_messenger" using sample_run by blast
  then show ?thesis using durable_state_refined [of sample_messenger "[l]" s'] by fastforce
qed

text \<open>C22: A command that reports an error changes nothing, with one exception: a composition whose
  sequence was reserved durably and whose history could not be stored keeps the reservation, and only that.\<close>

theorem failed_command_changes_nothing:
  assumes "messenger_ok s" "ports_wf ports" "command_wf c" "execute ports c s = (r, s', calls)"
    "cr_error r \<noteq> None"
  shows "s' = s \<or> (\<exists>d i sequence. c = Compose d \<and> ms_identity s = Some i \<and>
    next_sender_sequence i = Some sequence \<and> port_commit ports = Some (True, False) \<and>
    s' = s\<lparr>ms_identity := Some (i\<lparr>last_issued_sender_sequence := sequence\<rparr>)\<rparr>)"
proof (cases c)
  case (Compose d)
  show ?thesis
  proof (rule compose_outcome [OF assms(1,2), of d r s' calls])
    fix i n mid inserted t
    assume ad: "compose_admits ports d s i n mid" and ok: "insert_error inserted = None"
      and commit: "compose_commit ports (i\<lparr>last_issued_sender_sequence := n\<rparr>) t inserted mid s = (r, s', calls)"
    then show ?thesis using assms(5) Compose
      by (cases "port_commit ports") (auto simp: compose_admits_def compose_commit_def persist_identity_def
          persist_timeline_def map_insert_result_def command_ok_def Let_def split: if_splits)
  qed (use assms Compose in auto)
qed (use assms in \<open>auto simp: initialize_new_def restore_identity_def restore_state_def rename_user_def
      accept_received_def messenger_mark_broadcast_def messenger_mark_failed_def messenger_transition_def
      map_insert_result_def command_ok_def Let_def
      split: if_splits option.splits sum.splits prod.splits\<close>)

theorem failed_command_changes_nothing_witness:
  "\<exists>sequence. fst (snd (execute (sample_ports False) (Compose sample_draft) sample_messenger)) =
     sample_messenger\<lparr>ms_identity := Some (sample_identity\<lparr>last_issued_sender_sequence := sequence\<rparr>)\<rparr>"
proof -
  obtain r s' calls where e: "execute (sample_ports False) (Compose sample_draft) sample_messenger = (r, s', calls)"
    by (cases "execute (sample_ports False) (Compose sample_draft) sample_messenger")
  have "cr_error r \<noteq> None" using sample_compose_results(2) e by simp
  from failed_command_changes_nothing [OF sample_messenger_ok sample_ports_wf e this] e
  show ?thesis by (auto simp: sample_messenger_def sample_identity_def identity_restore_def)
qed

text \<open>C21: \<open>compose\<close> succeeds exactly when the messenger has an identity, the draft is valid, the parent
  is known, the queue, the sequence and the order are not exhausted, the random source gives an unused id
  and the durability port, if any, accepts both calls (so the checks of the built post never refuse it);
  and then the post with the draft's content is in the history, queued, under the id it returns.\<close>

theorem compose_accepts_iff:
  assumes "messenger_ok s" "ports_wf ports" "command_wf (Compose d)" "compose ports d s = (r, s', calls)"
  shows "(cr_error r = None \<longleftrightarrow> (\<exists>i sequence mid. compose_admits ports d s i sequence mid) \<and>
      (case port_commit ports of None \<Rightarrow> True | Some oks \<Rightarrow> oks = (True, True))) \<and>
    (compose_admits ports d s i sequence mid \<and> cr_error r = None \<longrightarrow>
      cr_message_id r = Some mid \<and> timeline_find (ms_timeline s') mid =
        Some \<lparr>entry_post = composed_post i sequence mid d (port_clock ports),
              received_order = last_assigned_order (ms_timeline s) + 1, origin = LocalDelivery Queued\<rparr>)"
proof (rule compose_outcome [OF assms])
  fix j n m inserted t
  assume ad: "compose_admits ports d s j n m" and e: "insert_error inserted = None"
    and ins: "insert_local (ms_timeline s) (composed_post j n m d (port_clock ports)) Queued = (inserted, t)"
    and commit: "compose_commit ports (j\<lparr>last_issued_sender_sequence := n\<rparr>) t inserted m s = (r, s', calls)"
  have uniq: "compose_admits ports d s i sequence mid \<Longrightarrow> i = j \<and> sequence = n \<and> mid = m"
    using ad by (auto simp: compose_admits_def)
  have find: "timeline_find t m = Some (stamped (ms_timeline s) (composed_post j n m d (port_clock ports)) (LocalDelivery Queued))"
    using find_after_insert [OF messenger_okD(2) [OF assms(1)] ins [unfolded insert_local_def] e, of m] by simp
  have iff: "cr_error r = None \<longleftrightarrow> (case port_commit ports of None \<Rightarrow> True | Some oks \<Rightarrow> oks = (True, True))"
    using commit e by (auto simp: compose_commit_def persist_identity_def persist_timeline_def
        map_insert_result_def command_ok_def Let_def split: if_splits option.splits)
  have "cr_error r = None \<Longrightarrow> cr_message_id r = Some m \<and> ms_timeline s' = t"
    by (cases rule: compose_commit_outcome [OF commit]) auto
  with find show ?thesis using ad iff uniq by (auto simp: stamped_def)
qed (use assms in auto)

theorem compose_accepts_iff_witness:
  "\<exists>i sequence mid. compose_admits (sample_ports True) sample_draft sample_messenger i sequence mid"
proof -
  obtain r s' calls where e: "compose (sample_ports True) sample_draft sample_messenger = (r, s', calls)"
    by (cases "compose (sample_ports True) sample_draft sample_messenger")
  from compose_accepts_iff [OF sample_messenger_ok sample_ports_wf e] sample_compose_results(1) e
  show ?thesis by simp
qed

end
