(* ===== verification/Protocol_Post_Codec.thy ===== *)
theory Protocol_Post_Codec
  imports Model_Timeline
begin

text \<open>
  Model of \<^verbatim>\<open>src/protocol/post_codec.cpp\<close>: the canonical byte form of a post. \<open>wire_layout\<close> is the format
  as one concatenation; \<open>encode_post\<close> produces it and \<open>decode_post\<close> accepts exactly the layouts of valid
  posts, so the pair is a \<open>codec\<close>. A data pointer with its size is a \<open>bytes option\<close>, \<open>None\<close> for
  \<^verbatim>\<open>nullptr\<close>.
\<close>

section \<open>Definitions\<close>

datatype post_codec_error =
  NullData | SizeOutOfRange | ReservedFlags | LengthMismatch | InvalidPost

definition kReplyPresent :: byte where [simp]: "kReplyPresent = 0x01"
definition kSenderTimePresent :: byte where [simp]: "kSenderTimePresent = 0x02"
definition kKnownFlags :: byte where [simp]: "kKnownFlags = kReplyPresent OR kSenderTimePresent"
definition kFixedPostBytes :: nat where [simp]: "kFixedPostBytes = 44"

definition append_uint64 :: "bytes \<Rightarrow> u64 \<Rightarrow> bytes" where
  "append_uint64 output value =
     output @ map (\<lambda>shift. ucast (drop_bit shift value AND 0xff)) [56, 48, 40, 32, 24, 16, 8, 0]"

definition read_uint64 :: "bytes \<Rightarrow> nat \<Rightarrow> u64" where
  "read_uint64 data offset = be_decode (slice offset 8 data)"

definition encode_signed :: "int \<Rightarrow> u64" where
  "encode_signed value =
     (if value \<ge> 0 then word_of_int value else u64_max - word_of_int (- (value + 1)))"

definition decode_signed :: "u64 \<Rightarrow> int" where
  "decode_signed value =
     (if value \<le> 0x7fffffffffffffff then uint value else -1 - uint (u64_max - value))"

definition append_uuid :: "bytes \<Rightarrow> uuid \<Rightarrow> bytes" where
  "append_uuid output u = output @ u"

definition read_uuid :: "bytes \<Rightarrow> nat \<Rightarrow> uuid" where
  "read_uuid data offset = slice offset 16 data"

definition encode_post :: "post_payload \<Rightarrow> (bytes, post_codec_error) result" where
  "encode_post post =
     (let user_id = user_id_value (sender_user_id post);
          text = post_body_value (body post);
          ms = mentions post;
          encoded_size = kFixedPostBytes + length user_id + length text + length ms * 16 +
            (if reply_to post \<noteq> None then 16 else 0) + (if sender_time post \<noteq> None then 8 else 0)
      in if length user_id > kMaxUserIdBytes \<or> length text > kMaxPostBodyBytes \<or>
            length ms > kMaxMentions \<or> encoded_size < kMinimumEncodedPostBytes \<or>
            encoded_size > kMaximumEncodedPostBytes
         then Inl SizeOutOfRange
         else let flags = (if reply_to post \<noteq> None then kReplyPresent else 0) OR
                    (if sender_time post \<noteq> None then kSenderTimePresent else 0);
                  output = [flags];
                  output = append_uuid output (message_uuid (message_id post));
                  output = append_uuid output (install_uuid (sender_id post));
                  output = append_uint64 output (sender_sequence post);
                  output = output @ [of_nat (length user_id)];
                  output = output @ [of_nat (length text)];
                  output = output @ [of_nat (length ms)];
                  output = output @ user_id;
                  output = output @ text;
                  output = foldl (\<lambda>out m. append_uuid out (install_uuid m)) output ms;
                  output = (case reply_to post of None \<Rightarrow> output
                            | Some r \<Rightarrow> append_uuid output (message_uuid r));
                  output = (case sender_time post of None \<Rightarrow> output
                            | Some t \<Rightarrow> append_uint64 output (encode_signed t))
              in if length output \<noteq> encoded_size then Inl LengthMismatch else Inr output)"

text \<open>The loop that reads the mentions, with the offset after them.\<close>

fun read_mentions :: "bytes \<Rightarrow> nat \<Rightarrow> nat \<Rightarrow> uuid list \<times> nat" where
  "read_mentions data offset 0 = ([], offset)"
| "read_mentions data offset (Suc n) =
     (let (rest, final_offset) = read_mentions data (offset + 16) n
      in (read_uuid data offset # rest, final_offset))"

text \<open>The reads that fill \<^verbatim>\<open>PostPayloadInput\<close>, with the final offset.\<close>

definition read_post_input :: "bytes \<Rightarrow> post_payload_input \<times> nat" where
  "read_post_input data =
     (let flags = data ! 0;
          user_id_size = unat (data ! 41);
          body_size = unat (data ! 42);
          mention_count = unat (data ! 43);
          offset = kFixedPostBytes;
          user = slice offset user_id_size data;
          offset = offset + user_id_size;
          text = slice offset body_size data;
          offset = offset + body_size;
          (ms, offset) = read_mentions data offset mention_count;
          (reply, offset) = (if flags AND kReplyPresent \<noteq> 0
                             then (Some (read_uuid data offset), offset + 16) else (None, offset));
          (time, offset) = (if flags AND kSenderTimePresent \<noteq> 0
                            then (Some (decode_signed (read_uint64 data offset)), offset + 8)
                            else (None, offset))
      in (\<lparr>in_message_id = read_uuid data 1, in_sender_id = read_uuid data 17,
           in_sender_sequence = read_uint64 data 33, in_sender_user_id = user, in_body = text,
           in_mentions = ms, in_reply_to = reply, in_sender_time = time\<rparr>, offset))"

definition expected_post_size :: "bytes \<Rightarrow> nat" where
  "expected_post_size data =
     kFixedPostBytes + unat (data ! 41) + unat (data ! 42) + unat (data ! 43) * 16 +
     (if data ! 0 AND kReplyPresent \<noteq> 0 then 16 else 0) +
     (if data ! 0 AND kSenderTimePresent \<noteq> 0 then 8 else 0)"

definition decode_post :: "bytes option \<Rightarrow> (post_payload, post_codec_error) result" where
  "decode_post input =
     (case input of None \<Rightarrow> Inl NullData
      | Some data \<Rightarrow>
          if length data < kMinimumEncodedPostBytes \<or> length data > kMaximumEncodedPostBytes
          then Inl SizeOutOfRange
          else if data ! 0 AND NOT kKnownFlags \<noteq> 0 then Inl ReservedFlags
          else if unat (data ! 41) > kMaxUserIdBytes \<or> unat (data ! 42) > kMaxPostBodyBytes \<or>
                  unat (data ! 43) > kMaxMentions then Inl LengthMismatch
          else if expected_post_size data \<noteq> length data then Inl LengthMismatch
          else let (i, offset) = read_post_input data
               in if offset \<noteq> length data then Inl LengthMismatch
                  else (case post_payload_create i of Inl _ \<Rightarrow> Inl InvalidPost | Inr post \<Rightarrow> Inr post))"

text \<open>The overload on a byte vector.\<close>

definition decode_post_bytes :: "bytes \<Rightarrow> (post_payload, post_codec_error) result" where
  "decode_post_bytes b = decode_post (Some b)"

definition message_tag :: "message_id \<Rightarrow> bytes" where
  "message_tag mid = take 8 (message_uuid mid)"

section \<open>The wire format\<close>

definition input_flags :: "post_payload_input \<Rightarrow> byte" where
  "input_flags i = (if in_reply_to i \<noteq> None then kReplyPresent else 0) OR
     (if in_sender_time i \<noteq> None then kSenderTimePresent else 0)"

definition wire_tail :: "post_payload_input \<Rightarrow> bytes" where
  "wire_tail i = concat (in_mentions i) @ (case in_reply_to i of None \<Rightarrow> [] | Some r \<Rightarrow> r) @
     (case in_sender_time i of None \<Rightarrow> [] | Some t \<Rightarrow> be_encode 8 (encode_signed t))"

definition wire_layout :: "post_payload_input \<Rightarrow> bytes" where
  "wire_layout i = [input_flags i] @ in_message_id i @ in_sender_id i @ be_encode 8 (in_sender_sequence i) @
     [of_nat (length (in_sender_user_id i)), of_nat (length (in_body i)), of_nat (length (in_mentions i))] @
     in_sender_user_id i @ in_body i @ wire_tail i"

definition input_small :: "post_payload_input \<Rightarrow> bool" where
  "input_small i \<longleftrightarrow> length (in_sender_user_id i) \<le> kMaxUserIdBytes \<and>
     length (in_body i) \<le> kMaxPostBodyBytes \<and> length (in_mentions i) \<le> kMaxMentions"

section \<open>Fields\<close>

lemma low_byte_mask: "ucast (w AND 0xff) = (ucast (w :: u64) :: byte)"
proof -
  have "(0xff :: u64) = mask 8" by (simp add: mask_eq_exp_minus_1)
  then have "w AND 0xff = take_bit 8 w" by (simp only: take_bit_eq_mask)
  then show ?thesis by (simp only:) (intro bit_word_eqI, auto simp: bit_simps)
qed

lemma append_uint64_be: "append_uint64 out v = out @ be_encode 8 v"
  by (simp add: append_uint64_def low_byte_mask eval_nat_numeral drop_bit_drop_bit)

lemma encode_signed_alt: "encode_signed v = word_of_int v"
  by (simp add: encode_signed_def)

lemma uint_complement: "uint (u64_max - w) = 2 ^ 64 - 1 - uint w"
proof -
  have "uint w \<le> uint u64_max" by (simp flip: word_le_def)
  then have "uint (u64_max - w) = uint u64_max - uint w" by (simp only: uint_sub_lem)
  then show ?thesis by (simp add: unsigned_minus_1_eq_mask mask_eq_exp_minus_1)
qed

lemma decode_signed_alt:
  "decode_signed w = (if uint w < 2 ^ 63 then uint w else uint w - 2 ^ 64)"
  using uint_complement [of w] by (simp add: decode_signed_def word_le_def)

lemma decode_signed_range: "int64_range (decode_signed w)"
proof -
  have "int64_range (if x < 2 ^ 63 then x else x - 2 ^ 64)" if "0 \<le> x" "x < 2 ^ 64" for x
    using that by (auto simp: int64_range_def)
  then show ?thesis using uint_lt2p [of w] by (simp add: decode_signed_alt)
qed

lemma encode_decode_signed: "encode_signed (decode_signed w) = w"
  by (simp add: encode_signed_alt decode_signed_alt)

lemma decode_encode_signed:
  assumes "int64_range v" shows "decode_signed (encode_signed v) = v"
proof (cases "v \<ge> 0")
  case True
  then have "uint (word_of_int v :: u64) = v"
    using assms by (simp add: int64_range_def uint_word_of_int)
  with True assms show ?thesis by (simp add: encode_signed_alt decode_signed_alt int64_range_def)
next
  case False
  have "(v + 2 ^ 64) mod 2 ^ 64 = v + 2 ^ 64"
    using assms False by (intro mod_pos_pos_trivial) (auto simp: int64_range_def)
  then have "uint (word_of_int v :: u64) = v + 2 ^ 64"
    by (simp only: uint_word_of_int) simp
  with False assms show ?thesis by (simp add: encode_signed_alt decode_signed_alt int64_range_def)
qed

section \<open>Layouts\<close>

lemma slice_append [wire]:
  "slice off n (xs @ ys) =
     (if off + n \<le> length xs then slice off n xs
      else if length xs \<le> off then slice (off - length xs) n ys
      else drop off xs @ take (n - (length xs - off)) ys)"
  by (auto simp: slice_def)

lemma slice_Cons [wire]: "0 < off \<Longrightarrow> slice off n (x # xs) = slice (off - 1) n xs"
  by (cases off) (simp_all add: slice_def)

lemma slice_0 [wire]: "slice 0 n xs = take n xs"
  by (simp add: slice_def)

lemma slice_pre: "length pre = off \<Longrightarrow> length x = n \<Longrightarrow> slice off n (pre @ x @ post) = x"
  by (simp add: slice_def)

lemma read_mentions_offset: "snd (read_mentions data off n) = off + 16 * n"
  by (induction n arbitrary: off) (auto simp: case_prod_unfold Let_def)

lemma read_mentions_length: "length (fst (read_mentions data off n)) = n"
  by (induction n arbitrary: off) (auto simp: case_prod_unfold Let_def)

lemma read_mentions_concat:
  "off + 16 * n \<le> length data \<Longrightarrow> concat (fst (read_mentions data off n)) = slice off (16 * n) data"
proof (induction n arbitrary: off)
  case (Suc n)
  then show ?case
    using slice_append_drop [of off 16 data "16 * n"]
    by (simp add: case_prod_unfold Let_def read_uuid_def)
qed (simp add: slice_def)

lemma read_mentions_wf:
  "off + 16 * n \<le> length data \<Longrightarrow> list_all uuid_wf (fst (read_mentions data off n))"
  by (induction n arbitrary: off) (auto simp: case_prod_unfold Let_def read_uuid_def uuid_wf_def)

lemma read_mentions_back:
  "list_all uuid_wf ms \<Longrightarrow> length pre = off \<Longrightarrow>
     read_mentions (pre @ concat ms @ post) off (length ms) = (ms, off + 16 * length ms)"
proof (induction ms arbitrary: pre off)
  case (Cons m ms)
  have "read_mentions ((pre @ m) @ concat ms @ post) (off + 16) (length ms) = (ms, off + 16 + 16 * length ms)"
    using Cons.prems by (intro Cons.IH) (auto simp: uuid_wf_def)
  then show ?case using Cons.prems by (simp add: read_uuid_def slice_pre uuid_wf_def)
qed simp

lemma input_flags_bits:
  "input_flags i AND kReplyPresent \<noteq> 0 \<longleftrightarrow> in_reply_to i \<noteq> None"
  "input_flags i AND kSenderTimePresent \<noteq> 0 \<longleftrightarrow> in_sender_time i \<noteq> None"
  "input_flags i AND NOT kKnownFlags = 0"
  by (simp_all add: input_flags_def)

lemma length_concat_wf: "list_all uuid_wf ms \<Longrightarrow> length (concat ms) = 16 * length ms"
  by (induction ms) (auto simp: uuid_wf_def)

lemma wire_layout_length:
  assumes "input_wf i"
  shows "length (wire_layout i) = kFixedPostBytes + length (in_sender_user_id i) + length (in_body i) +
    length (in_mentions i) * 16 + (if in_reply_to i \<noteq> None then 16 else 0) +
    (if in_sender_time i \<noteq> None then 8 else 0)"
  using assms
  by (auto simp: wire_layout_def wire_tail_def input_wf_def uuid_wf_def length_concat_wf split: option.splits)

lemma wire_layout_fixed:
  assumes "input_wf i" "input_small i"
  shows "wire_layout i ! 0 = input_flags i"
    "unat (wire_layout i ! 41) = length (in_sender_user_id i)"
    "unat (wire_layout i ! 42) = length (in_body i)"
    "unat (wire_layout i ! 43) = length (in_mentions i)"
    "slice 1 16 (wire_layout i) = in_message_id i" "slice 17 16 (wire_layout i) = in_sender_id i"
    "slice 33 8 (wire_layout i) = be_encode 8 (in_sender_sequence i)"
  using assms
  by (simp_all add: wire_layout_def input_wf_def uuid_wf_def input_small_def nth_append wire
      unat_of_nat del: be_encode.simps)

lemma read_post_input_fields:
  fixes d :: bytes
  defines "u \<equiv> unat (d ! 41)" and "b \<equiv> unat (d ! 42)" and "m \<equiv> unat (d ! 43)"
  defines "r \<equiv> (if d ! 0 AND kReplyPresent \<noteq> 0 then 16 else 0)"
  shows "read_post_input d =
    (\<lparr>in_message_id = slice 1 16 d, in_sender_id = slice 17 16 d,
      in_sender_sequence = be_decode (slice 33 8 d), in_sender_user_id = slice 44 u d,
      in_body = slice (44 + u) b d, in_mentions = fst (read_mentions d (44 + u + b) m),
      in_reply_to = (if d ! 0 AND kReplyPresent \<noteq> 0 then Some (slice (44 + u + b + 16 * m) 16 d) else None),
      in_sender_time = (if d ! 0 AND kSenderTimePresent \<noteq> 0
        then Some (decode_signed (be_decode (slice (44 + u + b + 16 * m + r) 8 d))) else None)\<rparr>,
     expected_post_size d)"
  unfolding read_post_input_def expected_post_size_def read_uuid_def read_uint64_def assms
  by (simp add: Let_def case_prod_unfold read_mentions_offset)

lemma read_post_input_layout:
  assumes wf: "input_wf i" and small: "input_small i"
  shows "read_post_input (wire_layout i) = (i, length (wire_layout i))"
proof -
  note f = wire_layout_fixed [OF wf small]
  define pre where "pre = [input_flags i] @ in_message_id i @ in_sender_id i @
    be_encode 8 (in_sender_sequence i) @ [of_nat (length (in_sender_user_id i)),
      of_nat (length (in_body i)), of_nat (length (in_mentions i))]"
  let ?u = "in_sender_user_id i" and ?b = "in_body i" and ?m = "in_mentions i"
  let ?r = "case in_reply_to i of None \<Rightarrow> [] | Some r \<Rightarrow> r"
  let ?t = "case in_sender_time i of None \<Rightarrow> [] | Some t \<Rightarrow> be_encode 8 (encode_signed t)"
  have pre: "length pre = 44" using wf by (simp add: pre_def input_wf_def uuid_wf_def)
  have lay: "wire_layout i = pre @ ?u @ ?b @ concat ?m @ ?r @ ?t"
    by (simp add: wire_layout_def wire_tail_def pre_def)
  have u: "slice 44 (length ?u) (wire_layout i) = ?u"
    unfolding lay by (rule slice_pre) (simp_all add: pre)
  have b: "slice (44 + length ?u) (length ?b) (wire_layout i) = ?b"
    unfolding lay using slice_pre [of "pre @ ?u"] pre by simp
  have mwf: "list_all uuid_wf ?m" using wf by (simp add: input_wf_def)
  have m: "read_mentions (wire_layout i) (44 + length ?u + length ?b) (length ?m) =
      (?m, 44 + length ?u + length ?b + 16 * length ?m)"
    unfolding lay using read_mentions_back [OF mwf, of "pre @ ?u @ ?b" _ "?r @ ?t"] pre by (simp add: add.assoc)
  let ?o = "44 + length ?u + length ?b + 16 * length ?m"
  have r: "slice ?o 16 (wire_layout i) = r" if "in_reply_to i = Some r" for r
    unfolding lay using slice_pre [of "pre @ ?u @ ?b @ concat ?m" ?o r 16 ?t] pre wf that
    by (simp add: input_wf_def uuid_wf_def length_concat_wf)
  have t: "decode_signed (be_decode (slice (?o + length ?r) 8 (wire_layout i))) = t"
    if "in_sender_time i = Some t" for t
    unfolding lay
    using slice_pre [of "pre @ ?u @ ?b @ concat ?m @ ?r" "?o + length ?r" ?t 8 "[]"] pre wf that
    by (simp add: input_wf_def length_concat_wf be_decode_encode decode_encode_signed
        del: be_encode.simps)
  have seq: "be_decode (be_encode 8 (in_sender_sequence i)) = in_sender_sequence i"
    by (rule be_decode_encode) simp
  have lr: "length ?r = (if in_reply_to i = None then 0 else 16)"
    using wf by (auto simp: input_wf_def uuid_wf_def split: option.splits)
  have fst: "fst (read_post_input (wire_layout i)) = i"
    using u b m r t lr seq unfolding read_post_input_fields f input_flags_bits fst_conv
    by (intro post_payload_input.equality) (auto split: option.splits)
  have "snd (read_post_input (wire_layout i)) = length (wire_layout i)"
    unfolding read_post_input_fields snd_conv expected_post_size_def f input_flags_bits
    using wire_layout_length [OF wf] by simp
  with fst show ?thesis by (metis prod.collapse)
qed

lemma drop_slice: "drop off xs = slice off n xs @ drop (off + n) xs"
  unfolding slice_def by (metis append_take_drop_id drop_drop add.commute)

lemma and_single_bit: "(b :: byte) AND 2 ^ n = (if bit b n then 2 ^ n else 0)"
  by (rule bit_word_eqI) (auto simp: bit_simps)

lemma input_flags_of:
  fixes b :: byte
  assumes "b AND NOT kKnownFlags = 0"
  shows "(if b AND kReplyPresent \<noteq> 0 then kReplyPresent else 0) OR
      (if b AND kSenderTimePresent \<noteq> 0 then kSenderTimePresent else 0) = b"
proof -
  have "b = (b AND kKnownFlags) OR (b AND NOT kKnownFlags)" 
    by (rule bit_word_eqI) (auto simp only: bit_or_iff bit_and_iff bit_not_iff possible_bit_word)
  also have "\<dots> = b AND (2 ^ 0 OR 2 ^ 1)" by (simp only: assms) simp
  also have "\<dots> = (b AND 2 ^ 0) OR (b AND 2 ^ 1)" by (rule bit.conj_disj_distrib)
  finally have "b = (b AND 1) OR (b AND 2)" by simp
  then show ?thesis
    using and_single_bit [of b 0] and_single_bit [of b 1] by (auto split: if_splits)
qed

lemma wire_layout_read:
  assumes len: "expected_post_size d = length d" and known: "d ! 0 AND NOT kKnownFlags = 0"
  shows "wire_layout (fst (read_post_input d)) = d" "input_wf (fst (read_post_input d))"
proof -
  define u b m where "u = unat (d ! 41)" and "b = unat (d ! 42)" and "m = unat (d ! 43)"
  define r :: nat where "r = (if d ! 0 AND kReplyPresent \<noteq> 0 then 16 else 0)"
  define t :: nat where "t = (if d ! 0 AND kSenderTimePresent \<noteq> 0 then 8 else 0)"
  note fields = read_post_input_fields [of d, folded u_def b_def m_def r_def]
  have size: "length d = 44 + u + b + 16 * m + r + t"
    using len by (simp add: expected_post_size_def u_def b_def m_def r_def t_def)
  have head: "[d ! 0] = slice 0 1 d" "[d ! 41, d ! 42, d ! 43] = slice 41 3 d"
    using size by (auto simp: slice_def list_eq_iff_nth_eq less_Suc_eq numeral_eq_Suc)
  show "input_wf (fst (read_post_input d))"
    using size read_mentions_wf [of "44 + u + b" m d]
    by (auto simp: fields input_wf_def uuid_wf_def r_def t_def decode_signed_range)
  have d: "d = slice 0 1 d @ slice 1 16 d @ slice 17 16 d @ slice 33 8 d @ slice 41 3 d @ slice 44 u d @
      slice (44 + u) b d @ slice (44 + u + b) (16 * m) d @ slice (44 + u + b + 16 * m) r d @
      slice (44 + u + b + 16 * m + r) t d"
  proof -
    have e: "slice a n d @ drop c d = drop a d" if "c = a + n" for a n c
      using drop_slice [of a d n] that by simp
    have "slice (44 + u + b + 16 * m + r) t d = drop (44 + u + b + 16 * m + r) d"
      using size by (simp add: slice_def)
    then show ?thesis by (simp only: e) (simp add: e)
  qed
  show "wire_layout (fst (read_post_input d)) = d"
  proof -
    have m_bytes: "concat (fst (read_mentions d (44 + u + b) m)) = slice (44 + u + b) (16 * m) d"
      using size by (intro read_mentions_concat) simp
    have lens: "length (slice 44 u d) = u" "length (slice (44 + u) b d) = b"
      using size by simp_all
    have reenc: "be_encode 8 (be_decode (slice off 8 d) :: u64) = slice off 8 d" if "off + 8 \<le> length d" for off
      using be_encode_decode [of "slice off 8 d", where 'a = 64] that by simp
    have counts: "of_nat u = d ! 41" "of_nat b = d ! 42" "of_nat m = d ! 43"
      by (simp_all add: u_def b_def m_def)
    have seq: "be_encode 8 (be_decode (slice 33 8 d) :: u64) = slice 33 8 d" using size by (intro reenc) simp
    have reply: "(if d ! 0 AND kReplyPresent \<noteq> 0 then slice off 16 d else []) = slice off r d" for off
      by (simp add: r_def slice_def)
    have time: "(if d ! 0 AND kSenderTimePresent \<noteq> 0
        then be_encode 8 (be_decode (slice (44 + u + b + 16 * m + r) 8 d) :: u64) else []) =
        slice (44 + u + b + 16 * m + r) t d"
      using size reenc [of "44 + u + b + 16 * m + r"] by (auto simp: t_def slice_def)
    have flags: "input_flags (fst (read_post_input d)) = d ! 0"
      using input_flags_of [OF known] by (auto simp: input_flags_def fields split: if_splits)
    have "wire_layout (fst (read_post_input d)) =
      [d ! 0] @ slice 1 16 d @ slice 17 16 d @ slice 33 8 d @ [d ! 41, d ! 42, d ! 43] @ slice 44 u d @
      slice (44 + u) b d @ slice (44 + u + b) (16 * m) d @ slice (44 + u + b + 16 * m) r d @
      slice (44 + u + b + 16 * m + r) t d"
      unfolding wire_layout_def wire_tail_def flags unfolding fields
      unfolding reply [symmetric] time [symmetric]
      by (simp add: lens seq m_bytes read_mentions_length counts encode_decode_signed del: be_encode.simps)
    then show ?thesis unfolding head using d by simp
  qed
qed

section \<open>Encoding and decoding\<close>

lemma foldl_append_uuid: "foldl (\<lambda>out m. out @ f m) out ms = out @ concat (map f ms)"
  by (induction ms arbitrary: out) simp_all

lemma post_ok_small: "post_ok p \<Longrightarrow> input_small (post_input p)"
  using user_id_ok_length [of "sender_user_id p"] post_body_ok_length [of "body p"]
  by (simp add: post_ok_def input_small_def post_input_def)

lemma post_layout_size:
  assumes "post_ok p"
  shows "46 \<le> length (wire_layout (post_input p))" "length (wire_layout (post_input p)) \<le> 316"
  using assms user_id_ok_length [of "sender_user_id p"] post_body_ok_length [of "body p"]
    post_ok_create(2) [OF assms]
  by (auto simp: wire_layout_length post_ok_def post_input_def)

lemma encode_post_layout:
  assumes ok: "post_ok p"
  shows "encode_post p = Inr (wire_layout (post_input p))"
proof -
  note size = post_layout_size [OF ok] wire_layout_length [OF post_ok_create(2) [OF ok]]
  note lens = user_id_ok_length [of "sender_user_id p"] post_body_ok_length [of "body p"]
  show ?thesis
    using ok size lens
    by (auto simp: encode_post_def Let_def post_ok_def append_uuid_def append_uint64_be foldl_append_uuid
        wire_layout_def wire_tail_def post_input_def input_flags_def uuid_ok_def uuid_wf_def
        simp del: be_encode.simps split: option.splits)
qed

lemma decode_post_layout:
  assumes ok: "post_ok p"
  shows "decode_post (Some (wire_layout (post_input p))) = Inr p"
proof -
  note wf = post_ok_create(2) [OF ok] and small = post_ok_small [OF ok]
  have "expected_post_size (wire_layout (post_input p)) = length (wire_layout (post_input p))"
    unfolding expected_post_size_def wire_layout_fixed [OF wf small] input_flags_bits
    using wire_layout_length [OF wf] by simp
  then show ?thesis
    using post_layout_size [OF ok] small post_ok_create(1) [OF ok]
    by (simp add: decode_post_def read_post_input_layout [OF wf small] wire_layout_fixed [OF wf small]
        input_flags_bits input_small_def del: kKnownFlags_def)
qed

lemma decode_post_Inr:
  "decode_post (Some b) = Inr p \<longleftrightarrow> post_ok p \<and> wire_layout (post_input p) = b"
proof
  assume "decode_post (Some b) = Inr p"
  then have known: "b ! 0 AND NOT kKnownFlags = 0" and size: "expected_post_size b = length b"
    and create: "post_payload_create (fst (read_post_input b)) = Inr p"
    by (auto simp: decode_post_def case_prod_unfold Let_def split: if_splits sum.splits)
  note r = wire_layout_read [OF size known]
  show "post_ok p \<and> wire_layout (post_input p) = b"
    using create_post_ok [OF create r(2)] create_Inr_input [OF create] r(1) by simp
qed (use decode_post_layout in blast)

interpretation post_wire: codec post_ok "\<lambda>p. projr (encode_post p)" decode_post_bytes
  by unfold_locales
    (auto simp: decode_post_bytes_def encode_post_layout decode_post_layout decode_post_Inr)

lemma length_message_tag: "post_ok p \<Longrightarrow> length (message_tag (message_id p)) = 8"
  by (simp add: post_ok_def message_tag_def uuid_ok_def uuid_wf_def)

section \<open>Properties\<close>

text \<open>Every valid post encodes, to between 46 and 316 bytes, and decoding gives it back; a byte
  string decodes to a post exactly when it is that post's encoding, so every accepted datagram is
  canonical.\<close>

theorem post_codec_roundtrip:
  assumes "post_ok p"
  shows "\<exists>b. encode_post p = Inr b \<and> decode_post (Some b) = Inr p \<and>
    kMinimumEncodedPostBytes \<le> length b \<and> length b \<le> kMaximumEncodedPostBytes"
  using encode_post_layout [OF assms] decode_post_layout [OF assms] post_layout_size [OF assms] by simp

theorem post_codec_roundtrip_witness:
  "\<exists>b. encode_post sample_post = Inr b \<and> decode_post (Some b) = Inr sample_post"
  using post_codec_roundtrip [OF sample_post_ok] by blast

text \<open>C38: The decoder is strict: it returns a post exactly for the encoding of that post, which is
  valid; whatever else arrives is an error.\<close>

theorem decode_post_strict:
  "decode_post (Some b) = Inr p \<longleftrightarrow> post_ok p \<and> encode_post p = Inr b"
  unfolding decode_post_Inr using encode_post_layout by auto

end
