(* ===== verification/Protocol_Frame_Codec.thy ===== *)
theory Protocol_Frame_Codec
  imports Protocol_Post_Codec
begin

text \<open>
  Model of \<^verbatim>\<open>src/protocol/frame_codec.cpp\<close>: the 28-byte frame header with its CRC-32, the canonical
  fragment geometry and the strict decoder. The checksum is the source's bitwise loop; each step is a
  bijection of the register, so one corrupted byte always changes the checksum.
\<close>

section \<open>Definitions\<close>

record data_frame =
  tag :: bytes
  frame_sequence :: u64
  fragment_index :: byte
  fragment_count :: byte
  total_length :: u16
  payload :: bytes

datatype frame_codec_error =
  InvalidMtu | FrameNullData | DatagramTooShort | DatagramTooLarge | BadMagic | UnsupportedVersion
  | UnsupportedType | FrameLengthMismatch | ChecksumMismatch | InvalidSenderSequence
  | InvalidTotalLength | InvalidFragment | NonCanonicalFragment

definition kFrameMagicFirst :: byte where [simp]: "kFrameMagicFirst = 0x4c"
definition kFrameMagicSecond :: byte where [simp]: "kFrameMagicSecond = 0x4d"
definition kProtocolVersion :: byte where [simp]: "kProtocolVersion = 1"
definition kDataFrameType :: byte where [simp]: "kDataFrameType = 0"

definition kControlOffset :: nat where [simp]: "kControlOffset = 2"
definition kTagOffset :: nat where [simp]: "kTagOffset = 3"
definition kSequenceOffset :: nat where [simp]: "kSequenceOffset = 11"
definition kFragmentIndexOffset :: nat where [simp]: "kFragmentIndexOffset = 19"
definition kFragmentCountOffset :: nat where [simp]: "kFragmentCountOffset = 20"
definition kTotalLengthOffset :: nat where [simp]: "kTotalLengthOffset = 21"
definition kPayloadLengthOffset :: nat where [simp]: "kPayloadLengthOffset = 23"
definition kChecksumOffset :: nat where [simp]: "kChecksumOffset = 24"

text \<open>Writes of an integer at an offset of the buffer: byte \<open>index\<close> is the value shifted right by
  \<open>8 * (n - 1 - index)\<close>.\<close>

definition be_bytes :: "nat \<Rightarrow> 'a::len word \<Rightarrow> bytes" where
  "be_bytes n value = map (\<lambda>index. ucast (drop_bit (8 * (n - 1 - index)) value AND 0xff)) [0..<n]"

definition write_uint16 :: "nat \<Rightarrow> u16 \<Rightarrow> bytes \<Rightarrow> bytes" where
  "write_uint16 offset value buffer = copy_at offset (be_bytes 2 value) buffer"

definition write_uint32 :: "nat \<Rightarrow> u32 \<Rightarrow> bytes \<Rightarrow> bytes" where
  "write_uint32 offset value buffer = copy_at offset (be_bytes 4 value) buffer"

definition write_uint64 :: "nat \<Rightarrow> u64 \<Rightarrow> bytes \<Rightarrow> bytes" where
  "write_uint64 offset value buffer = copy_at offset (be_bytes 8 value) buffer"

definition read_uint16 :: "bytes \<Rightarrow> nat \<Rightarrow> u16" where
  "read_uint16 source offset = push_bit 8 (ucast (source ! offset)) OR ucast (source ! (offset + 1))"

definition read_uint32 :: "bytes \<Rightarrow> nat \<Rightarrow> u32" where
  "read_uint32 source offset = be_decode (slice offset 4 source)"

definition frame_read_uint64 :: "bytes \<Rightarrow> nat \<Rightarrow> u64" where
  "frame_read_uint64 source offset = be_decode (slice offset 8 source)"

definition crc_bit_step :: "u32 \<Rightarrow> u32" where
  "crc_bit_step crc =
     (let msk = 0 - (crc AND 1) in drop_bit 1 crc XOR (0xedb88320 AND msk))"

definition crc_byte_step :: "u32 \<Rightarrow> byte \<Rightarrow> u32" where
  "crc_byte_step crc b = (crc_bit_step ^^ 8) (crc XOR ucast b)"

text \<open>A null pointer with a size other than zero leaves the register unchanged.\<close>

definition update_crc :: "u32 \<Rightarrow> bytes option \<Rightarrow> u32" where
  "update_crc crc data = (case data of None \<Rightarrow> crc | Some bs \<Rightarrow> foldl crc_byte_step crc bs)"

definition crc32_iso_hdlc :: "bytes option \<Rightarrow> bytes option \<Rightarrow> u32" where
  "crc32_iso_hdlc first second =
     (let crc = 0xffffffff;
          crc = update_crc crc first;
          crc = update_crc crc second
      in crc XOR 0xffffffff)"

text \<open>\<open>None\<close> is the enumerator of success. The sums are in \<^verbatim>\<open>size_t\<close> and never wrap: the operands are
  at most 16 bits wide.\<close>

definition validate_frame_fields ::
  "u64 \<Rightarrow> byte \<Rightarrow> byte \<Rightarrow> u16 \<Rightarrow> nat \<Rightarrow> nat \<Rightarrow> frame_codec_error option" where
  "validate_frame_fields sequence index count total_size payload_size mtu =
     (if sequence = 0 then Some InvalidSenderSequence
      else if unat total_size < kMinimumEncodedPostBytes \<or> unat total_size > kMaximumEncodedPostBytes
      then Some InvalidTotalLength
      else if count = 0 \<or> unat count > kMaximumFragments \<or> index \<ge> count \<or> payload_size = 0 \<or>
              payload_size > kMaximumFramePayloadBytes
      then Some InvalidFragment
      else let capacity = frame_payload_capacity mtu;
               expected_count = (unat total_size + capacity - 1) div capacity
           in if expected_count = 0 \<or> expected_count > kMaximumFragments \<or> unat count \<noteq> expected_count
              then Some NonCanonicalFragment
              else let expected_payload_size =
                         (if unat index + 1 < unat count then capacity
                          else unat total_size - capacity * (unat count - 1))
                   in if payload_size \<noteq> expected_payload_size then Some NonCanonicalFragment
                      else None)"

definition encode_frame :: "data_frame \<Rightarrow> nat \<Rightarrow> (bytes, frame_codec_error) result" where
  "encode_frame frame mtu =
     (if \<not> is_supported_mtu mtu then Inl InvalidMtu
      else case validate_frame_fields (frame_sequence frame) (fragment_index frame)
                  (fragment_count frame) (total_length frame) (length (payload frame)) mtu of
             Some e \<Rightarrow> Inl e
           | None \<Rightarrow>
               let encoded = replicate (kFrameHeaderBytes + length (payload frame)) 0;
                   encoded = encoded[0 := kFrameMagicFirst];
                   encoded = encoded[1 := kFrameMagicSecond];
                   encoded = encoded[kControlOffset := push_bit 4 kProtocolVersion OR kDataFrameType];
                   encoded = copy_at kTagOffset (tag frame) encoded;
                   encoded = write_uint64 kSequenceOffset (frame_sequence frame) encoded;
                   encoded = encoded[kFragmentIndexOffset := fragment_index frame];
                   encoded = encoded[kFragmentCountOffset := fragment_count frame];
                   encoded = write_uint16 kTotalLengthOffset (total_length frame) encoded;
                   encoded = encoded[kPayloadLengthOffset := of_nat (length (payload frame))];
                   encoded = copy_at kFrameHeaderBytes (payload frame) encoded;
                   checksum = crc32_iso_hdlc (Some (take kChecksumOffset encoded))
                     (Some (slice kFrameHeaderBytes (length (payload frame)) encoded))
               in Inr (write_uint32 kChecksumOffset checksum encoded))"

definition decode_frame :: "bytes option \<Rightarrow> nat \<Rightarrow> (data_frame, frame_codec_error) result" where
  "decode_frame input mtu =
     (if \<not> is_supported_mtu mtu then Inl InvalidMtu
      else case input of None \<Rightarrow> Inl FrameNullData
      | Some data \<Rightarrow>
          if length data < kFrameHeaderBytes + 1 then Inl DatagramTooShort
          else if length data > mtu \<or> length data > kMaximumTransportMtu then Inl DatagramTooLarge
          else if data ! 0 \<noteq> kFrameMagicFirst \<or> data ! 1 \<noteq> kFrameMagicSecond then Inl BadMagic
          else let control = data ! kControlOffset
          in if drop_bit 4 control \<noteq> kProtocolVersion then Inl UnsupportedVersion
          else if control AND 0x0f \<noteq> kDataFrameType then Inl UnsupportedType
          else let payload_size = unat (data ! kPayloadLengthOffset)
          in if payload_size = 0 \<or> length data \<noteq> kFrameHeaderBytes + payload_size
             then Inl FrameLengthMismatch
          else let expected_checksum = read_uint32 data kChecksumOffset;
                   actual_checksum = crc32_iso_hdlc (Some (take kChecksumOffset data))
                     (Some (slice kFrameHeaderBytes payload_size data))
          in if expected_checksum \<noteq> actual_checksum then Inl ChecksumMismatch
          else let sequence = frame_read_uint64 data kSequenceOffset;
                   index = data ! kFragmentIndexOffset;
                   count = data ! kFragmentCountOffset;
                   total_size = read_uint16 data kTotalLengthOffset
          in case validate_frame_fields sequence index count total_size payload_size mtu of
               Some e \<Rightarrow> Inl e
             | None \<Rightarrow>
                 Inr \<lparr>tag = slice kTagOffset 8 data, frame_sequence = sequence, fragment_index = index,
                      fragment_count = count, total_length = total_size,
                      payload = drop kFrameHeaderBytes data\<rparr>)"

definition decode_frame_bytes :: "nat \<Rightarrow> bytes \<Rightarrow> (data_frame, frame_codec_error) result" where
  "decode_frame_bytes mtu b = decode_frame (Some b) mtu"

section \<open>Specification\<close>

text \<open>The frames that exist on a link with the given MTU.\<close>

definition frame_ok :: "nat \<Rightarrow> data_frame \<Rightarrow> bool" where
  "frame_ok mtu f \<longleftrightarrow> is_supported_mtu mtu \<and> length (tag f) = 8 \<and>
     validate_frame_fields (frame_sequence f) (fragment_index f) (fragment_count f) (total_length f)
       (length (payload f)) mtu = None"

text \<open>The bytes the checksum covers before the payload.\<close>

definition frame_prefix :: "data_frame \<Rightarrow> bytes" where
  "frame_prefix f = [kFrameMagicFirst, kFrameMagicSecond, 0x10] @ tag f @
     be_encode 8 (frame_sequence f) @ [fragment_index f, fragment_count f] @
     be_encode 2 (total_length f) @ [of_nat (length (payload f))]"

definition frame_layout :: "data_frame \<Rightarrow> bytes" where
  "frame_layout f = frame_prefix f @
     be_encode 4 (crc32_iso_hdlc (Some (frame_prefix f)) (Some (payload f))) @ payload f"

section \<open>Integers in the buffer\<close>

lemma low_byte_mask_word: "ucast (w AND 0xff) = (ucast (w :: 'a::len word) :: byte)"
proof -
  have "(0xff :: 'a word) = mask 8" by (simp add: mask_eq_exp_minus_1)
  then have "w AND 0xff = take_bit 8 w" by (simp only: take_bit_eq_mask)
  then show ?thesis by (simp only:) (intro bit_word_eqI, auto simp: bit_simps)
qed

lemma be_bytes_be_encode: "be_bytes n v = be_encode n v"
proof (induction n arbitrary: v)
  case (Suc n)
  have "be_bytes (Suc n) v = be_bytes n (drop_bit 8 v) @ [ucast v]"
    unfolding be_bytes_def low_byte_mask_word
    by (auto simp: drop_bit_drop_bit simp flip: mult_Suc_right intro!: arg_cong [of _ _ "\<lambda>n. ucast (drop_bit n v)"])
  with Suc show ?case by simp
qed (simp add: be_bytes_def)

lemma read_uint16_be: "offset + 1 < length source \<Longrightarrow> read_uint16 source offset = be_decode (slice offset 2 source)"
proof -
  assume "offset + 1 < length source"
  then have "slice offset 2 source = [source ! offset, source ! (offset + 1)]"
    by (auto simp: list_eq_iff_nth_eq nth_slice less_Suc_eq numeral_2_eq_2)
  then show ?thesis by (simp add: read_uint16_def be_decode_def)
qed

section \<open>The checksum\<close>

lemma xor_cancel_iff:
  fixes a b c :: "'a::len word"
  shows "a XOR c = b XOR c \<longleftrightarrow> a = b" "c XOR a = c XOR b \<longleftrightarrow> a = b"
proof -
  have r: "(x XOR c) XOR c = x" and l: "c XOR (c XOR x) = x" for x
    by (rule bit_word_eqI, auto simp: bit_simps)+
  show "a XOR c = b XOR c \<longleftrightarrow> a = b" using r by metis
  show "c XOR a = c XOR b \<longleftrightarrow> a = b" using l by metis
qed

lemma ucast_byte_inj: "ucast (a :: byte) = (ucast b :: u32) \<longleftrightarrow> a = b"
proof -
  have "(ucast (ucast x :: u32) :: byte) = x" for x :: byte
    by (rule bit_word_eqI) (auto simp: bit_simps)
  then show ?thesis by metis
qed

lemma crc_bit_step_alt: "crc_bit_step c = drop_bit 1 c XOR (if odd c then 0xedb88320 else 0)"
proof -
  have "c AND 1 = (if odd c then 1 else 0)" by (simp add: and_one_eq odd_iff_mod_2_eq_one)
  then show ?thesis by (simp add: crc_bit_step_def Let_def)
qed

lemma crc_bit_step_top: "bit (crc_bit_step c) 31 = odd c"
proof -
  have "bit (0xedb88320 :: u32) 31" by (simp add: bit_numeral_word_iff)
  moreover have "\<not> bit c 32" using bit_imp_le_length [of c 32] by auto
  ultimately show ?thesis by (simp add: crc_bit_step_alt bit_simps)
qed

lemma crc_bit_step_inj: "inj crc_bit_step"
proof (rule injI)
  fix a b assume eq: "crc_bit_step a = crc_bit_step b"
  then have odd: "odd a = odd b" using crc_bit_step_top by metis
  with eq have "drop_bit 1 a = drop_bit 1 b"
    by (simp add: crc_bit_step_alt xor_cancel_iff)
  then have "bit a (Suc n) = bit b (Suc n)" for n
    by (metis bit_drop_bit_eq plus_1_eq_Suc comp_apply)
  moreover have "bit a 0 = bit b 0" using odd by (simp add: bit_0)
  ultimately show "a = b" by (intro bit_eqI) (metis not0_implies_Suc)
qed

lemma crc_byte_step_inj:
  "crc_byte_step c b = crc_byte_step c' b \<longleftrightarrow> c = c'"
  "crc_byte_step c b = crc_byte_step c b' \<longleftrightarrow> b = b'"
proof -
  have i: "inj (crc_bit_step ^^ 8)" using crc_bit_step_inj by (rule inj_fn)
  show "crc_byte_step c b = crc_byte_step c' b \<longleftrightarrow> c = c'"
    "crc_byte_step c b = crc_byte_step c b' \<longleftrightarrow> b = b'"
    unfolding crc_byte_step_def inj_eq [OF i] xor_cancel_iff ucast_byte_inj by (rule refl)+
qed

lemma crc_fold_inj: "foldl crc_byte_step c bs = foldl crc_byte_step c' bs \<longleftrightarrow> c = c'"
  by (induction bs arbitrary: c c') (simp_all add: crc_byte_step_inj)

lemma crc_fold_update:
  "i < length bs \<Longrightarrow> b \<noteq> bs ! i \<Longrightarrow>
     foldl crc_byte_step c (bs[i := b]) \<noteq> foldl crc_byte_step c bs"
proof (induction bs arbitrary: c i)
  case (Cons x bs)
  then show ?case by (cases i) (auto simp: crc_fold_inj crc_byte_step_inj)
qed simp

lemma crc32_append: "crc32_iso_hdlc (Some a) (Some b) = foldl crc_byte_step 0xffffffff (a @ b) XOR 0xffffffff"
  by (simp add: crc32_iso_hdlc_def update_crc_def Let_def)

lemma crc32_detects:
  assumes "i < length (a @ b)" "x \<noteq> (a @ b) ! i" "a' @ b' = (a @ b)[i := x]"
  shows "crc32_iso_hdlc (Some a') (Some b') \<noteq> crc32_iso_hdlc (Some a) (Some b)"
  unfolding crc32_append assms(3) xor_cancel_iff by (rule crc_fold_update [OF assms(1,2)])

section \<open>The frame layout\<close>

lemma copy_at_append_skip: "length xs \<le> off \<Longrightarrow> copy_at off src (xs @ ys) = xs @ copy_at (off - length xs) src ys"
  by (simp add: copy_at_def)

lemma copy_at_append_here: "length src = length xs \<Longrightarrow> copy_at 0 src (xs @ ys) = src @ ys"
  by (simp add: copy_at_def)

lemma copy_at_Cons: "0 < off \<Longrightarrow> copy_at off src (x # xs) = x # copy_at (off - 1) src xs"
  by (cases off) (simp_all add: copy_at_def)

lemma copy_at_all: "length src = length xs \<Longrightarrow> copy_at 0 src xs = src"
  by (simp add: copy_at_def)

lemmas buffer_simps = copy_at_append_skip copy_at_append_here copy_at_Cons copy_at_all
  list_update_append list_update_code nth_append

lemma blank_frame:
  "replicate (28 + n) (0 :: byte) =
     [0, 0, 0] @ replicate 8 0 @ replicate 8 0 @ [0, 0] @ replicate 2 0 @ [0] @ replicate 4 0 @ replicate n 0"
  by (simp add: replicate_add eval_nat_numeral)

lemma length_frame_prefix [simp]: "length (tag f) = 8 \<Longrightarrow> length (frame_prefix f) = 24"
  by (simp add: frame_prefix_def del: be_encode.simps)

lemma length_frame_layout: "length (tag f) = 8 \<Longrightarrow> length (frame_layout f) = 28 + length (payload f)"
  by (simp add: frame_layout_def)

lemma encode_frame_layout:
  assumes "frame_ok mtu f"
  shows "encode_frame f mtu = Inr (frame_layout f)"
proof -
  have t: "length (tag f) = 8" and m: "is_supported_mtu mtu"
    and v: "validate_frame_fields (frame_sequence f) (fragment_index f) (fragment_count f)
      (total_length f) (length (payload f)) mtu = None"
    using assms by (simp_all add: frame_ok_def)
  let ?pre = "frame_prefix f"
  define e1 where "e1 = (let encoded = replicate (kFrameHeaderBytes + length (payload f)) 0;
                   encoded = encoded[0 := kFrameMagicFirst];
                   encoded = encoded[1 := kFrameMagicSecond];
                   encoded = encoded[kControlOffset := push_bit 4 kProtocolVersion OR kDataFrameType];
                   encoded = copy_at kTagOffset (tag f) encoded;
                   encoded = write_uint64 kSequenceOffset (frame_sequence f) encoded;
                   encoded = encoded[kFragmentIndexOffset := fragment_index f];
                   encoded = encoded[kFragmentCountOffset := fragment_count f];
                   encoded = write_uint16 kTotalLengthOffset (total_length f) encoded;
                   encoded = encoded[kPayloadLengthOffset := of_nat (length (payload f))]
                 in copy_at kFrameHeaderBytes (payload f) encoded)"
  have e1: "e1 = ?pre @ replicate 4 0 @ payload f"
    unfolding e1_def Let_def write_uint64_def write_uint16_def be_bytes_be_encode kFrameHeaderBytes_def blank_frame
    by (simp add: buffer_simps t frame_prefix_def del: be_encode.simps)
  have "encode_frame f mtu = Inr (write_uint32 kChecksumOffset (crc32_iso_hdlc (Some (take kChecksumOffset e1))
                     (Some (slice kFrameHeaderBytes (length (payload f)) e1))) e1)"
    using v m by (simp add: encode_frame_def e1_def Let_def)
  also have "\<dots> = Inr (frame_layout f)"
    unfolding e1 write_uint32_def be_bytes_be_encode using t
    by (simp add: buffer_simps frame_layout_def slice_def del: be_encode.simps)
  finally show ?thesis .
qed

text \<open>Ceiling division, and what it says of the fragments: all but the last are full.\<close>

definition fragments_of :: "nat \<Rightarrow> nat \<Rightarrow> nat" where
  "fragments_of capacity n = (n + capacity - 1) div capacity"

lemma fragments_of_bounds:
  assumes "0 < capacity" "0 < n"
  shows "0 < fragments_of capacity n" "(fragments_of capacity n - 1) * capacity < n"
    "n \<le> fragments_of capacity n * capacity"
proof -
  let ?q = "fragments_of capacity n" and ?r = "(n + capacity - 1) mod capacity"
  have eq: "?q * capacity + ?r = n + capacity - 1" by (simp add: fragments_of_def)
  have r: "?r < capacity" using assms by simp
  show "n \<le> ?q * capacity" using eq r by linarith
  with assms show "0 < ?q" by (cases ?q) auto
  then have "(?q - 1) * capacity + capacity = ?q * capacity" by (cases ?q) auto
  then show "(?q - 1) * capacity < n" using eq assms by linarith
qed

lemma fragments_of_index:
  assumes "0 < capacity" "0 < n"
  shows "i < fragments_of capacity n \<longleftrightarrow> i * capacity < n"
proof
  note b = fragments_of_bounds [OF assms]
  assume "i < fragments_of capacity n"
  then have "i * capacity \<le> (fragments_of capacity n - 1) * capacity" by (intro mult_le_mono1) simp
  then show "i * capacity < n" using b(2) by linarith
next
  note b = fragments_of_bounds [OF assms]
  assume "i * capacity < n"
  then have "i * capacity < fragments_of capacity n * capacity" using b(3) by linarith
  then show "i < fragments_of capacity n" by simp
qed

lemma fragment_size_min:
  assumes "0 < capacity" "0 < n" "i < fragments_of capacity n"
  shows "(if i + 1 < fragments_of capacity n then capacity else n - capacity * (fragments_of capacity n - 1)) =
    min capacity (n - i * capacity)"
proof (cases "i + 1 < fragments_of capacity n")
  case True
  then have "(i + 1) * capacity < n" using fragments_of_index [OF assms(1,2)] by blast
  then show ?thesis using True by simp
next
  case False
  then have i: "fragments_of capacity n - 1 = i" "fragments_of capacity n = i + 1" using assms(3) by simp_all
  then have "n \<le> i * capacity + capacity" using fragments_of_bounds(3) [OF assms(1,2)] by simp
  then show ?thesis unfolding i by (simp add: mult.commute)
qed

lemma validate_fields_None:
  assumes "is_supported_mtu mtu"
  defines "capacity \<equiv> frame_payload_capacity mtu"
  shows "validate_frame_fields s i c n k mtu = None \<longleftrightarrow>
     s \<noteq> 0 \<and> 46 \<le> unat n \<and> unat n \<le> 316 \<and> unat c \<le> 16 \<and> unat i < unat c \<and>
     unat c = fragments_of capacity (unat n) \<and> k = min capacity (unat n - unat i * capacity)"
proof -
  have cap: "0 < capacity" "capacity \<le> 227"
    using payload_capacity_bounds [OF assms(1)] by (simp_all add: capacity_def)
  have size: "0 < k \<and> k \<le> 227"
    if "k = min capacity (unat n - unat i * capacity)" "unat i < unat c"
      "unat c = fragments_of capacity (unat n)" "46 \<le> unat n"
    using fragments_of_index [of capacity "unat n" "unat i"] that cap by auto
  have eq: "(if unat i + 1 < unat c then capacity else unat n - capacity * (unat c - 1)) =
      min capacity (unat n - unat i * capacity)"
    if "unat i < unat c" "unat c = fragments_of capacity (unat n)" "46 \<le> unat n"
    unfolding that(2) by (rule fragment_size_min) (use that cap in simp_all)
  have c0: "c = 0 \<longleftrightarrow> unat c = 0" by (simp add: unat_eq_0)
  show ?thesis
    unfolding validate_frame_fields_def Let_def capacity_def [symmetric] fragments_of_def [symmetric]
    using size eq c0 by (auto simp: word_le_nat_alt split: if_splits)
qed

lemma frame_layout_fields:
  assumes t: "length (tag f) = 8" and k: "length (payload f) < 256"
  shows "frame_layout f ! 0 = kFrameMagicFirst" "frame_layout f ! 1 = kFrameMagicSecond"
    "frame_layout f ! 2 = 0x10" "slice 3 8 (frame_layout f) = tag f"
    "slice 11 8 (frame_layout f) = be_encode 8 (frame_sequence f)"
    "frame_layout f ! 19 = fragment_index f" "frame_layout f ! 20 = fragment_count f"
    "slice 21 2 (frame_layout f) = be_encode 2 (total_length f)"
    "unat (frame_layout f ! 23) = length (payload f)"
    "slice 24 4 (frame_layout f) = be_encode 4 (crc32_iso_hdlc (Some (frame_prefix f)) (Some (payload f)))"
    "take 24 (frame_layout f) = frame_prefix f" "drop 28 (frame_layout f) = payload f"
  using t k
  by (simp_all add: frame_layout_def frame_prefix_def nth_append wire nth_Cons' unat_of_nat del: be_encode.simps)

lemma decode_frame_layout:
  assumes ok: "frame_ok mtu f"
  shows "decode_frame (Some (frame_layout f)) mtu = Inr f"
proof -
  have t: "length (tag f) = 8" and m: "is_supported_mtu mtu"
    and v: "validate_frame_fields (frame_sequence f) (fragment_index f) (fragment_count f)
      (total_length f) (length (payload f)) mtu = None"
    using ok by (simp_all add: frame_ok_def)
  have k: "0 < length (payload f)" "length (payload f) \<le> frame_payload_capacity mtu"
    using v [unfolded validate_fields_None [OF m]] payload_capacity_bounds [OF m]
      fragments_of_index [of "frame_payload_capacity mtu" "unat (total_length f)" "unat (fragment_index f)"]
    by auto
  then have k255: "length (payload f) < 256" "28 + length (payload f) \<le> mtu" "mtu \<le> 255"
    using m by (auto simp: frame_payload_capacity_def is_supported_mtu_def)
  note fields = frame_layout_fields [OF t k255(1)]
  have len: "length (frame_layout f) = 28 + length (payload f)" by (rule length_frame_layout [OF t])
  have total: "read_uint16 (frame_layout f) 21 = total_length f"
    using len fields(8) by (simp add: read_uint16_be be_decode_encode del: be_encode.simps)
  have pay: "slice 28 (length (payload f)) (frame_layout f) = payload f"
    using fields(12) by (simp add: slice_def)
  have control: "drop_bit 4 (0x10 :: byte) = 1" "(0x10 :: byte) AND 15 = 0" by simp_all
  show ?thesis
    using m k k255 v
    by (simp add: decode_frame_def Let_def len fields total pay control read_uint32_def
        frame_read_uint64_def be_decode_encode fields(2) [unfolded One_nat_def] del: be_encode.simps)
qed

lemma be_encode_slice:
  "off + n \<le> length d \<Longrightarrow> 8 * n \<le> LENGTH('a::len) \<Longrightarrow>
     be_encode n (be_decode (slice off n d) :: 'a word) = slice off n d"
  using be_encode_decode [of "slice off n d", where 'a = 'a] by simp

lemma decode_frame_Inr:
  "decode_frame (Some d) mtu = Inr f \<longleftrightarrow> frame_ok mtu f \<and> frame_layout f = d"
proof
  assume dec: "decode_frame (Some d) mtu = Inr f"
  let ?k = "unat (d ! 23)"
  have m: "is_supported_mtu mtu" and magic: "d ! 0 = 0x4c" "d ! 1 = 0x4d"
    and control: "drop_bit 4 (d ! 2) = 1" "d ! 2 AND 0x0f = 0"
    and len: "length d = 28 + ?k"
    and crc: "be_decode (slice 24 4 d) = crc32_iso_hdlc (Some (take 24 d)) (Some (slice 28 ?k d))"
    and v: "validate_frame_fields (be_decode (slice 11 8 d)) (d ! 19) (d ! 20) (read_uint16 d 21) ?k mtu = None"
    and f: "f = \<lparr>tag = slice 3 8 d, frame_sequence = be_decode (slice 11 8 d), fragment_index = d ! 19,
                fragment_count = d ! 20, total_length = read_uint16 d 21, payload = drop 28 d\<rparr>"
    using dec
    by (auto simp: decode_frame_def Let_def read_uint32_def frame_read_uint64_def split: if_splits option.splits)
  have ctl: "d ! 2 = 0x10"
  proof -
    have "d ! 2 = push_bit 4 (drop_bit 4 (d ! 2)) OR (d ! 2 AND mask 4)"
      by (rule bit_word_eqI) (auto simp: bit_simps)
    then show ?thesis using control by (simp add: mask_eq_exp_minus_1)
  qed
  have total: "be_encode 2 (read_uint16 d 21) = slice 21 2 d"
    using len be_encode_slice [of 21 2 d, where 'a = 16] by (simp add: read_uint16_be del: be_encode.simps)
  have head: "[d ! 0, d ! 1, d ! 2] = slice 0 3 d" "[d ! 19, d ! 20] = slice 19 2 d" "[d ! 23] = slice 23 1 d"
    using len by (auto simp: slice_def list_eq_iff_nth_eq less_Suc_eq numeral_eq_Suc)
  have e: "slice a n d @ slice c k d = slice a (n + k) d" if "c = a + n" for a n c k
    using slice_append_drop [of a n d k] that by simp
  have pre: "frame_prefix f = take 24 d"
  proof -
    have "frame_prefix f = [d ! 0, d ! 1, d ! 2] @ slice 3 8 d @ slice 11 8 d @ [d ! 19, d ! 20] @
        slice 21 2 d @ [d ! 23]"
      using len be_encode_slice [of 11 8 d, where 'a = 64]
      by (simp add: frame_prefix_def f magic ctl total del: be_encode.simps One_nat_def)
    also have "\<dots> = take 24 d" unfolding head by (simp add: e) (simp add: slice_0)
    finally show ?thesis .
  qed
  have pay: "payload f = slice 28 ?k d" using len by (simp add: f slice_def)
  have "frame_layout f = slice 0 24 d @ slice 24 4 d @ slice 28 ?k d"
    unfolding frame_layout_def pre pay crc [symmetric] using len be_encode_slice [of 24 4 d, where 'a = 32]
    by (simp add: slice_0 del: be_encode.simps)
  also have "\<dots> = d" using len by (simp add: e) (simp add: slice_def)
  finally have "frame_layout f = d" .
  moreover have "frame_ok mtu f" using m v len by (simp add: frame_ok_def f)
  ultimately show "frame_ok mtu f \<and> frame_layout f = d" by simp
qed (use decode_frame_layout in blast)

text \<open>The frame decoder of each supported MTU is a codec.\<close>

interpretation frame_wire: codec "frame_ok mtu" "\<lambda>f. projr (encode_frame f mtu)" "decode_frame_bytes mtu" for mtu
  by unfold_locales
    (auto simp: decode_frame_bytes_def encode_frame_layout decode_frame_layout decode_frame_Inr)

lemma frame_ok_size:
  assumes "frame_ok mtu f"
  shows "28 < length (frame_layout f)" "length (frame_layout f) \<le> mtu"
proof -
  have "decode_frame (Some (frame_layout f)) mtu = Inr f" by (rule decode_frame_layout [OF assms])
  then show "28 < length (frame_layout f)" "length (frame_layout f) \<le> mtu"
    by (auto simp: decode_frame_def Let_def split: if_splits)
qed

lemma frame_ok_geometry:
  assumes "frame_ok mtu f"
  defines "capacity \<equiv> frame_payload_capacity mtu" and "n \<equiv> unat (total_length f)"
  shows "frame_sequence f \<noteq> 0" "46 \<le> n" "n \<le> 316" "unat (fragment_count f) \<le> 16"
    "unat (fragment_index f) < unat (fragment_count f)"
    "unat (fragment_count f) = fragments_of capacity n"
    "length (payload f) = min capacity (n - unat (fragment_index f) * capacity)"
    "unat (fragment_index f) * capacity + length (payload f) \<le> n" "0 < length (payload f)"
    "20 \<le> capacity" "capacity \<le> 227" "length (tag f) = 8"
proof -
  have m: "is_supported_mtu mtu" using assms by (simp add: frame_ok_def)
  note cap = payload_capacity_bounds [OF m, folded capacity_def]
  note v = assms(1) [unfolded frame_ok_def validate_fields_None [OF m], folded capacity_def n_def]
  show *: "frame_sequence f \<noteq> 0" "46 \<le> n" "n \<le> 316" "unat (fragment_count f) \<le> 16"
    "unat (fragment_index f) < unat (fragment_count f)"
    "unat (fragment_count f) = fragments_of capacity n"
    "length (payload f) = min capacity (n - unat (fragment_index f) * capacity)"
    "20 \<le> capacity" "capacity \<le> 227" "length (tag f) = 8"
    using v cap by blast+
  have "unat (fragment_index f) * capacity < n"
    using fragments_of_index [of capacity n "unat (fragment_index f)"] * by simp
  with * show "unat (fragment_index f) * capacity + length (payload f) \<le> n" "0 < length (payload f)"
    by auto
qed

lemma update_around_checksum:
  fixes xs :: bytes
  assumes "28 \<le> length xs" "i < length xs" "i < 24 \<or> 28 \<le> i"
  obtains j where "take 24 (xs[i := b]) @ drop 28 (xs[i := b]) = (take 24 xs @ drop 28 xs)[j := b]"
    "j < length (take 24 xs @ drop 28 xs)" "(take 24 xs @ drop 28 xs) ! j = xs ! i"
proof (cases "i < 24")
  case True
  with assms(1) show ?thesis
    by (intro that [of i]) (auto simp: take_update_swap list_update_append nth_append)
next
  case False
  with assms have i: "28 \<le> i" by simp
  have "take 24 (xs[i := b]) = take 24 xs" "drop 28 (xs[i := b]) = (drop 28 xs)[i - 28 := b]"
    using i by (simp_all add: drop_update_swap)
  with i assms show ?thesis
    by (intro that [of "i - 4"]) (auto simp: list_update_append nth_append)
qed

lemma single_byte_corruption:
  assumes f: "frame_ok mtu f" and g: "frame_ok mtu g"
    and i: "i < length (frame_layout f)" and b: "b \<noteq> frame_layout f ! i"
  shows "frame_layout g \<noteq> (frame_layout f)[i := b]"
proof
  assume eq: "frame_layout g = (frame_layout f)[i := b]"
  have tags: "length (tag f) = 8" "length (tag g) = 8" using f g by (simp_all add: frame_ok_def)
  let ?cf = "crc32_iso_hdlc (Some (frame_prefix f)) (Some (payload f))"
  let ?cg = "crc32_iso_hdlc (Some (frame_prefix g)) (Some (payload g))"
  have take: "frame_prefix h = take 24 (frame_layout h)" and drop: "payload h = drop 28 (frame_layout h)"
    and sum: "be_encode 4 (crc32_iso_hdlc (Some (frame_prefix h)) (Some (payload h))) = slice 24 4 (frame_layout h)"
    if "length (tag h) = 8" for h
    using that by (simp_all add: frame_layout_def slice_append slice_0 del: be_encode.simps)
  note t = take [OF tags(1)] take [OF tags(2)] and d = drop [OF tags(1)] drop [OF tags(2)]
  show False
  proof (cases "i < 24 \<or> 28 \<le> i")
    case True
    then have "slice 24 4 (frame_layout g) = slice 24 4 (frame_layout f)"
      unfolding eq by (auto simp: slice_def drop_update_swap drop_update_cancel)
    then have same: "?cg = ?cf" using sum [OF tags(1)] sum [OF tags(2)] be_encode_inj [of 4 ?cg ?cf] by simp
    have "28 \<le> length (frame_layout f)" using length_frame_layout [OF tags(1)] by simp
    then obtain j where "frame_prefix g @ payload g = (frame_prefix f @ payload f)[j := b]"
      "j < length (frame_prefix f @ payload f)" "(frame_prefix f @ payload f) ! j = frame_layout f ! i"
      using update_around_checksum [OF _ i True, of b] unfolding t d eq by metis
    with crc32_detects [of j "frame_prefix f" "payload f" b] b same show False by metis
  next
    case False
    then have "frame_prefix g = frame_prefix f" "payload g = payload f"
      unfolding t d eq by simp_all
    then have "frame_layout g = frame_layout f" by (simp add: frame_layout_def)
    then show False using eq i b by (metis nth_list_update_eq)
  qed
qed

section \<open>Properties\<close>

definition sample_frame :: data_frame where
  "sample_frame = \<lparr>tag = [1, 2, 3, 4, 5, 6, 7, 8], frame_sequence = 9, fragment_index = 2,
     fragment_count = 3, total_length = 46, payload = [10, 11, 12, 13, 14, 15]\<rparr>"

lemma sample_frame_ok: "frame_ok 48 sample_frame"
  by (simp add: frame_ok_def sample_frame_def is_supported_mtu_def frame_payload_capacity_def
      validate_frame_fields_def Let_def)

text \<open>Frames with canonical fragment geometry encode on every supported MTU, within the MTU, and
  decode to themselves.\<close>

theorem frame_codec_roundtrip:
  assumes "frame_ok mtu f"
  shows "\<exists>b. encode_frame f mtu = Inr b \<and> decode_frame (Some b) mtu = Inr f \<and>
    kFrameHeaderBytes < length b \<and> length b \<le> mtu"
  using encode_frame_layout [OF assms] decode_frame_layout [OF assms] frame_ok_size [OF assms] by simp

theorem frame_codec_roundtrip_witness:
  "\<exists>b. encode_frame sample_frame 48 = Inr b \<and> decode_frame (Some b) 48 = Inr sample_frame"
  using frame_codec_roundtrip [OF sample_frame_ok] by blast

text \<open>C39: The frame decoder accepts a datagram exactly when it is the encoding of the frame it
  returns, whose fields are valid for the MTU.\<close>

theorem decode_frame_strict:
  "decode_frame (Some d) mtu = Inr f \<longleftrightarrow> frame_ok mtu f \<and> encode_frame f mtu = Inr d"
  unfolding decode_frame_Inr using encode_frame_layout by auto

text \<open>A frame with one byte corrupted, wherever it is (magic, header, checksum or payload), is
  rejected.\<close>

theorem frame_corruption_detected:
  assumes "encode_frame f mtu = Inr d" "frame_ok mtu f" "i < length d" "b \<noteq> d ! i"
  shows "\<exists>e. decode_frame (Some (d[i := b])) mtu = Inl e"
proof (cases "decode_frame (Some (d[i := b])) mtu")
  case (Inr g)
  have "frame_layout f = d" using assms(1,2) encode_frame_layout by simp
  moreover have "frame_ok mtu g" "frame_layout g = d[i := b]" using Inr decode_frame_Inr by blast+
  ultimately show ?thesis using single_byte_corruption [OF assms(2), of g i b] assms(3,4) by blast
qed simp

theorem frame_corruption_detected_witness:
  "\<exists>d e. encode_frame sample_frame 48 = Inr d \<and> decode_frame (Some (d[5 := d ! 5 + 1])) 48 = Inl e"
proof -
  have enc: "encode_frame sample_frame 48 = Inr (frame_layout sample_frame)"
    by (rule encode_frame_layout [OF sample_frame_ok])
  have "5 < length (frame_layout sample_frame)" using frame_ok_size(1) [OF sample_frame_ok] by simp
  from frame_corruption_detected [OF enc sample_frame_ok this, of "frame_layout sample_frame ! 5 + 1"]
  show ?thesis using enc by auto
qed

end
