(* ===== verification/Protocol_Fragmenter.thy ===== *)
theory Protocol_Fragmenter
  imports Protocol_Frame_Codec
begin

text \<open>
  Model of \<^verbatim>\<open>src/protocol/fragmenter.cpp\<close>: the split of an encoded post into canonical frames. For every
  valid post and supported MTU the split succeeds, and the frames are those of \<open>fragment_frames\<close>.
\<close>

section \<open>Definitions\<close>

datatype fragment_error = FragmentInvalidMtu | PostEncodeFailed | TooManyFragments | FrameEncodeFailed

text \<open>One iteration of the loop: the frame of the given index.\<close>

definition fragment_frame :: "bytes \<Rightarrow> u64 \<Rightarrow> bytes \<Rightarrow> nat \<Rightarrow> nat \<Rightarrow> nat \<Rightarrow> data_frame" where
  "fragment_frame message_tag_bytes sequence logical capacity count index =
     (let offset = index * capacity;
          payload_size = min capacity (length logical - offset)
      in \<lparr>tag = message_tag_bytes, frame_sequence = sequence, fragment_index = of_nat index,
          fragment_count = of_nat count, total_length = of_nat (length logical),
          payload = slice offset payload_size logical\<rparr>)"

text \<open>The loop over the indices: the first frame that fails to encode ends it.\<close>

fun encode_fragments :: "(nat \<Rightarrow> data_frame) \<Rightarrow> nat \<Rightarrow> nat list \<Rightarrow> bytes list \<Rightarrow> (bytes list, fragment_error) result" where
  "encode_fragments frame mtu [] frames = Inr frames"
| "encode_fragments frame mtu (index # rest) frames =
     (case encode_frame (frame index) mtu of
        Inl _ \<Rightarrow> Inl FrameEncodeFailed
      | Inr encoded \<Rightarrow> encode_fragments frame mtu rest (frames @ [encoded]))"

definition fragment_post :: "post_payload \<Rightarrow> nat \<Rightarrow> (bytes list, fragment_error) result" where
  "fragment_post post mtu =
     (if \<not> is_supported_mtu mtu then Inl FragmentInvalidMtu
      else case encode_post post of
        Inl _ \<Rightarrow> Inl PostEncodeFailed
      | Inr logical \<Rightarrow>
          let capacity = frame_payload_capacity mtu;
              count = (length logical + capacity - 1) div capacity
          in if count = 0 \<or> count > kMaximumFragments then Inl TooManyFragments
             else encode_fragments
                    (fragment_frame (message_tag (message_id post)) (sender_sequence post) logical capacity count)
                    mtu [0..<count] [])"

section \<open>Specification\<close>

definition fragment_frames :: "post_payload \<Rightarrow> nat \<Rightarrow> data_frame list" where
  "fragment_frames post mtu =
     (let logical = wire_layout (post_input post);
          capacity = frame_payload_capacity mtu;
          count = fragments_of capacity (length logical)
      in map (fragment_frame (message_tag (message_id post)) (sender_sequence post) logical capacity count)
           [0..<count])"

section \<open>Lemmas\<close>

lemma encode_fragments_Inr:
  "(\<And>i. i \<in> set is \<Longrightarrow> frame_ok mtu (frame i)) \<Longrightarrow>
     encode_fragments frame mtu is frames = Inr (frames @ map (\<lambda>i. frame_layout (frame i)) is)"
  by (induction "is" arbitrary: frames) (simp_all add: encode_frame_layout)

lemma fragments_of_bound:
  assumes "20 \<le> capacity" "46 \<le> n" "n \<le> 316"
  shows "0 < fragments_of capacity n" "fragments_of capacity n \<le> 16"
proof -
  have pos: "0 < capacity" "0 < n" using assms by simp_all
  show "0 < fragments_of capacity n" by (rule fragments_of_bounds(1) [OF pos])
  have "16 * 20 \<le> 16 * capacity" using assms(1) by simp
  then have "\<not> 16 * capacity < n" using assms(3) by linarith
  then show "fragments_of capacity n \<le> 16" using fragments_of_index [OF pos, of 16] by simp
qed

text \<open>The pieces cut at multiples of the capacity concatenate to the whole.\<close>

definition chunk :: "nat \<Rightarrow> 'a list \<Rightarrow> nat \<Rightarrow> 'a list" where
  "chunk capacity xs i = slice (i * capacity) (min capacity (length xs - i * capacity)) xs"

lemma chunk_take: "chunk capacity xs i = take capacity (drop (i * capacity) xs)"
  by (simp add: chunk_def slice_def min_def)

lemma concat_chunks: "concat (map (chunk capacity xs) [0..<n]) = take (n * capacity) xs"
proof (induction n)
  case (Suc n)
  then show ?case by (simp add: chunk_take add.commute [of capacity] take_add)
qed simp

lemma concat_all_chunks:
  assumes "0 < capacity" "0 < length xs"
  shows "concat (map (chunk capacity xs) [0..<fragments_of capacity (length xs)]) = xs"
  using fragments_of_bounds(3) [OF assms] by (simp add: concat_chunks)

lemma unat_small_byte: "n \<le> 16 \<Longrightarrow> unat (of_nat n :: byte) = n"
  by (simp add: unat_of_nat)

lemma unat_total: "n \<le> 316 \<Longrightarrow> unat (of_nat n :: u16) = n"
  by (simp add: unat_of_nat)

lemma fragment_frame_ok:
  assumes m: "is_supported_mtu mtu" and t: "length message_tag_bytes = 8" and s: "s \<noteq> 0"
    and size: "46 \<le> length logical" "length logical \<le> 316"
    and i: "i < fragments_of (frame_payload_capacity mtu) (length logical)"
  shows "frame_ok mtu (fragment_frame message_tag_bytes s logical (frame_payload_capacity mtu)
    (fragments_of (frame_payload_capacity mtu) (length logical)) i)"
proof -
  let ?c = "frame_payload_capacity mtu"
  note cap = payload_capacity_bounds [OF m]
  note n = fragments_of_bound [OF conjunct1 [OF cap] size]
  have "0 < ?c" "0 < length logical" using cap size by linarith+
  from fragments_of_index [OF this] have "i * ?c < length logical" using i by blast
  then show ?thesis
    using n m t s size i
    by (simp add: frame_ok_def validate_fields_None fragment_frame_def Let_def unat_small_byte unat_total)
qed

lemma fragment_frames_ok:
  assumes "post_ok p" "is_supported_mtu mtu" "f \<in> set (fragment_frames p mtu)"
  shows "frame_ok mtu f"
proof -
  have "sender_sequence p \<noteq> 0" using assms(1) by (simp add: post_ok_def)
  from fragment_frame_ok [OF assms(2) length_message_tag [OF assms(1)] this post_layout_size [OF assms(1)]]
  show ?thesis using assms(3) by (auto simp: fragment_frames_def Let_def)
qed

lemma fragment_post_frames:
  assumes ok: "post_ok p" and m: "is_supported_mtu mtu"
  shows "fragment_post p mtu = Inr (map frame_layout (fragment_frames p mtu))"
proof -
  let ?l = "wire_layout (post_input p)" and ?c = "frame_payload_capacity mtu"
  have "sender_sequence p \<noteq> 0" using ok by (simp add: post_ok_def)
  note f = fragment_frame_ok [OF m length_message_tag [OF ok] this post_layout_size [OF ok]]
  note n = fragments_of_bound [OF conjunct1 [OF payload_capacity_bounds [OF m]] post_layout_size [OF ok]]
  let ?f = "fragment_frame (message_tag (message_id p)) (sender_sequence p) ?l ?c (fragments_of ?c (length ?l))"
  have "encode_fragments ?f mtu [0..<fragments_of ?c (length ?l)] [] =
      Inr ([] @ map (\<lambda>i. frame_layout (?f i)) [0..<fragments_of ?c (length ?l)])"
    by (rule encode_fragments_Inr) (simp add: f)
  then show ?thesis
    using m n unfolding fragment_post_def encode_post_layout [OF ok] Let_def fragment_frames_def
      fragments_of_def [symmetric] by (simp add: comp_def)
qed

lemma fragment_frames_payloads:
  assumes ok: "post_ok p" and m: "is_supported_mtu mtu"
  shows "concat (map payload (fragment_frames p mtu)) = wire_layout (post_input p)"
proof -
  let ?l = "wire_layout (post_input p)" and ?c = "frame_payload_capacity mtu"
  have "map payload (fragment_frames p mtu) = map (chunk ?c ?l) [0..<fragments_of ?c (length ?l)]"
    by (simp add: fragment_frames_def Let_def fragment_frame_def chunk_def)
  moreover have "0 < ?c" "0 < length ?l"
    using payload_capacity_bounds [OF m] post_layout_size [OF ok] by auto
  ultimately show ?thesis using concat_all_chunks [of ?c ?l] by simp
qed

lemma length_fragment_frames:
  "length (fragment_frames p mtu) = fragments_of (frame_payload_capacity mtu) (length (wire_layout (post_input p)))"
  by (simp add: fragment_frames_def Let_def)

section \<open>Properties\<close>

text \<open>Fragmentation of a valid post on a supported MTU always succeeds, with one to sixteen
  datagrams none of which exceeds the MTU; each decodes to a frame that carries the post's tag and
  sequence and its own index, and the payloads in order are the encoded post.\<close>

theorem fragment_post_complete:
  assumes "post_ok p" "is_supported_mtu mtu"
  shows "\<exists>fs. fragment_post p mtu = Inr (map frame_layout fs) \<and> 1 \<le> length fs \<and>
    length fs \<le> kMaximumFragments \<and>
    list_all (\<lambda>f. length (frame_layout f) \<le> mtu \<and> decode_frame (Some (frame_layout f)) mtu = Inr f \<and>
      tag f = message_tag (message_id p) \<and> frame_sequence f = sender_sequence p) fs \<and>
    map (\<lambda>f. unat (fragment_index f)) fs = [0..<length fs] \<and>
    encode_post p = Inr (concat (map payload fs))"
proof -
  let ?fs = "fragment_frames p mtu"
  note size = post_layout_size [OF assms(1)] and cap = payload_capacity_bounds [OF assms(2)]
  note n = fragments_of_bound [OF conjunct1 [OF cap] size]
  have "map (\<lambda>f. unat (fragment_index f)) ?fs = [0..<length ?fs]"
    unfolding length_fragment_frames using n
    by (auto simp: fragment_frames_def Let_def fragment_frame_def intro!: map_idI unat_small_byte)
  moreover have "list_all (\<lambda>f. length (frame_layout f) \<le> mtu \<and>
      decode_frame (Some (frame_layout f)) mtu = Inr f \<and>
      tag f = message_tag (message_id p) \<and> frame_sequence f = sender_sequence p) ?fs"
    using fragment_frames_ok [OF assms] frame_ok_size(2) decode_frame_layout
    by (auto simp: list_all_iff) (auto simp: fragment_frames_def Let_def fragment_frame_def)
  ultimately show ?thesis
    using n fragment_post_frames [OF assms] fragment_frames_payloads [OF assms]
      encode_post_layout [OF assms(1)] length_fragment_frames [of p mtu] by auto
qed

theorem fragment_post_complete_witness:
  "\<exists>fs. fragment_post sample_post 48 = Inr (map frame_layout fs) \<and>
     encode_post sample_post = Inr (concat (map payload fs))"
  using fragment_post_complete [OF sample_post_ok, of 48] by (auto simp: is_supported_mtu_def)

end
