(* ===== verification/Protocol_Dedupe.thy ===== *)
theory Protocol_Dedupe
  imports Protocol_Fragmenter
begin

text \<open>
  Model of \<^verbatim>\<open>src/protocol/dedupe_window.cpp\<close>: the bounded, ordered window of messages already seen, with
  their canonical bytes. \<open>dedupe_ok\<close> is its invariant; the window is a \<open>bounded_ledger\<close>. An error of
  \<open>None\<close> is the enumerator of success.
\<close>

section \<open>Definitions\<close>

definition kDefaultSeenMessageCapacity :: nat where [simp]: "kDefaultSeenMessageCapacity = 2048"

record seen_message_record =
  seen_message_id :: message_id
  seen_order :: u64
  seen_encoded_post :: bytes

datatype dedupe_classification = NewMessage | DuplicateMessage | ConflictingMessage | InvalidMessage

datatype dedupe_error =
  DedupeInvalidCapacity | DedupeTooManyRecords | DedupeInvalidRecord | DedupeDuplicateMessageId
  | DedupeInvalidOrder | DedupeOrderExhausted | DedupeProtectedCapacity

record dedupe_window =
  dd_capacity :: nat
  last_seen_order :: u64
  dd_records :: "seen_message_record list"

definition is_canonical_record :: "seen_message_record \<Rightarrow> bool" where
  "is_canonical_record r =
     (if seen_order r = 0 then False
      else case decode_post (Some (seen_encoded_post r)) of
        Inl _ \<Rightarrow> False
      | Inr post \<Rightarrow>
          if message_id post \<noteq> seen_message_id r then False
          else (case encode_post post of Inl _ \<Rightarrow> False | Inr b \<Rightarrow> b = seen_encoded_post r))"

definition is_protected :: "message_id \<Rightarrow> message_id list \<Rightarrow> bool" where
  "is_protected mid prot \<longleftrightarrow> mid \<in> set prot"

text \<open>The constructor throws on a zero capacity.\<close>

definition dedupe_new :: "nat \<Rightarrow> dedupe_window option" where
  "dedupe_new capacity =
     (if capacity = 0 then None
      else Some \<lparr>dd_capacity = capacity, last_seen_order = 0, dd_records = []\<rparr>)"

fun dedupe_restore_loop ::
  "u64 \<Rightarrow> message_id set \<Rightarrow> u64 set \<Rightarrow> u64 \<Rightarrow> seen_message_record list \<Rightarrow> dedupe_error option" where
  "dedupe_restore_loop last_order ids orders previous [] = None"
| "dedupe_restore_loop last_order ids orders previous (r # rs) =
     (if \<not> is_canonical_record r then Some DedupeInvalidRecord
      else if seen_message_id r \<in> ids then Some DedupeDuplicateMessageId
      else if seen_order r \<in> orders \<or> seen_order r \<le> previous \<or> seen_order r > last_order
      then Some DedupeInvalidOrder
      else dedupe_restore_loop last_order (insert (seen_message_id r) ids) (insert (seen_order r) orders)
             (seen_order r) rs)"

definition dedupe_restore ::
  "nat \<Rightarrow> u64 \<Rightarrow> seen_message_record list \<Rightarrow> (dedupe_window, dedupe_error) result" where
  "dedupe_restore capacity last_order rs =
     (if capacity = 0 then Inl DedupeInvalidCapacity
      else if length rs > capacity then Inl DedupeTooManyRecords
      else case dedupe_restore_loop last_order {} {} 0 rs of
        Some e \<Rightarrow> Inl e
      | None \<Rightarrow>
          if (rs = [] \<and> last_order \<noteq> 0) \<or> (rs \<noteq> [] \<and> seen_order (last rs) \<noteq> last_order)
          then Inl DedupeInvalidOrder
          else Inr \<lparr>dd_capacity = capacity, last_seen_order = last_order, dd_records = rs\<rparr>)"

definition dedupe_classify :: "dedupe_window \<Rightarrow> message_id \<Rightarrow> bytes \<Rightarrow> dedupe_classification" where
  "dedupe_classify w mid canonical =
     (case List.find (\<lambda>r. seen_message_id r = mid) (dd_records w) of
        None \<Rightarrow> NewMessage
      | Some r \<Rightarrow> if seen_encoded_post r = canonical then DuplicateMessage else ConflictingMessage)"

definition dedupe_push :: "dedupe_window \<Rightarrow> post_payload \<Rightarrow> bytes \<Rightarrow> dedupe_window" where
  "dedupe_push w post canonical =
     (let order = last_seen_order w + 1
      in w\<lparr>last_seen_order := order,
           dd_records := dd_records w @
             [\<lparr>seen_message_id = message_id post, seen_order = order, seen_encoded_post = canonical\<rparr>]\<rparr>)"

definition dedupe_remember ::
  "dedupe_window \<Rightarrow> post_payload \<Rightarrow> bytes \<Rightarrow> message_id list \<Rightarrow> dedupe_error option \<times> dedupe_window" where
  "dedupe_remember w post canonical prot =
     (if decode_post (Some canonical) \<noteq> Inr post then (Some DedupeInvalidRecord, w)
      else if encode_post post \<noteq> Inr canonical then (Some DedupeInvalidRecord, w)
      else case dedupe_classify w (message_id post) canonical of
        DuplicateMessage \<Rightarrow> (None, w)
      | ConflictingMessage \<Rightarrow> (Some DedupeDuplicateMessageId, w)
      | InvalidMessage \<Rightarrow> (Some DedupeInvalidRecord, w)
      | NewMessage \<Rightarrow>
          if last_seen_order w = u64_max then (Some DedupeOrderExhausted, w)
          else if length (dd_records w) \<ge> dd_capacity w then
            (if \<not> list_ex (\<lambda>r. \<not> is_protected (seen_message_id r) prot) (dd_records w)
             then (Some DedupeProtectedCapacity, w)
             else (None, dedupe_push
                     (w\<lparr>dd_records := erase_first (\<lambda>r. \<not> is_protected (seen_message_id r) prot) (dd_records w)\<rparr>)
                     post canonical))
          else (None, dedupe_push w post canonical))"

section \<open>Invariant\<close>

definition record_canonical :: "seen_message_record \<Rightarrow> bool" where
  "record_canonical r \<longleftrightarrow>
     (\<exists>p. post_ok p \<and> seen_message_id r = message_id p \<and> encode_post p = Inr (seen_encoded_post r))"

definition dedupe_ok :: "dedupe_window \<Rightarrow> bool" where
  "dedupe_ok w \<longleftrightarrow>
     0 < dd_capacity w \<and> length (dd_records w) \<le> dd_capacity w \<and>
     sorted_wrt (<) (0 # map seen_order (dd_records w)) \<and>
     distinct (map seen_message_id (dd_records w)) \<and>
     list_all record_canonical (dd_records w) \<and>
     last_seen_order w = (if dd_records w = [] then 0 else seen_order (last (dd_records w)))"

section \<open>Restoring\<close>

lemma decode_post_Inr_encode: "decode_post (Some b) = Inr p \<longleftrightarrow> post_ok p \<and> encode_post p = Inr b"
  unfolding decode_post_Inr using encode_post_layout by auto

lemma is_canonical_record_iff: "is_canonical_record r \<longleftrightarrow> seen_order r \<noteq> 0 \<and> record_canonical r"
proof (cases "decode_post (Some (seen_encoded_post r))")
  case (Inl e)
  then have "\<not> record_canonical r" using decode_post_Inr_encode unfolding record_canonical_def by (metis Inl_Inr_False)
  with Inl show ?thesis by (simp add: is_canonical_record_def)
next
  case (Inr p)
  then have p: "post_ok p" "encode_post p = Inr (seen_encoded_post r)"
    using decode_post_Inr_encode by blast+
  then have "record_canonical r \<longleftrightarrow> seen_message_id r = message_id p"
    using Inr decode_post_Inr_encode [of "seen_encoded_post r"] unfolding record_canonical_def
    by (metis sum.inject(2))
  with Inr p show ?thesis by (auto simp: is_canonical_record_def)
qed

lemma dedupe_restore_loop_None:
  "orders \<subseteq> {..previous} \<Longrightarrow>
   dedupe_restore_loop last_order ids orders previous rs = None \<longleftrightarrow>
     list_all record_canonical rs \<and> distinct (map seen_message_id rs) \<and>
     ids \<inter> seen_message_id ` set rs = {} \<and> sorted_wrt (<) (previous # map seen_order rs) \<and>
     list_all (\<lambda>r. seen_order r \<le> last_order) rs"
proof (induction rs arbitrary: ids orders previous)
  case (Cons r rs)
  have sub: "insert (seen_order r) orders \<subseteq> {..seen_order r}" if "previous < seen_order r"
    using Cons.prems that by auto
  have sorted: "sorted_wrt (<) (previous # map seen_order (r # rs)) \<longleftrightarrow>
      previous < seen_order r \<and> sorted_wrt (<) (seen_order r # map seen_order rs)"
    by (auto intro: less_trans)
  have notin: "previous < seen_order r \<Longrightarrow> seen_order r \<notin> orders" using Cons.prems by auto
  have pos: "previous < seen_order r \<Longrightarrow> seen_order r \<noteq> 0" by auto
  show ?case
  proof (cases "previous < seen_order r")
    case True
    note IH = Cons.IH [OF sub [OF True], of "insert (seen_message_id r) ids"]
    show ?thesis
      unfolding sorted using True notin pos IH by (auto simp: is_canonical_record_iff not_le not_less)
  next
    case False
    then show ?thesis unfolding sorted by (auto simp: not_less)
  qed
qed simp

lemma sorted_last_max:
  "sorted_wrt (<) (map f rs) \<Longrightarrow> r \<in> set rs \<Longrightarrow> f r \<le> (f (last rs) :: 'a::linorder)"
  by (induction rs) (auto intro: less_imp_le)

lemma dedupe_restore_Inr:
  "dedupe_restore capacity last_order rs = Inr w \<longleftrightarrow>
     w = \<lparr>dd_capacity = capacity, last_seen_order = last_order, dd_records = rs\<rparr> \<and> dedupe_ok w"
proof -
  have "dedupe_restore capacity last_order rs = Inr w \<longleftrightarrow>
      0 < capacity \<and> length rs \<le> capacity \<and> dedupe_restore_loop last_order {} {} 0 rs = None \<and>
      last_order = (if rs = [] then 0 else seen_order (last rs)) \<and>
      w = \<lparr>dd_capacity = capacity, last_seen_order = last_order, dd_records = rs\<rparr>"
    by (auto simp: dedupe_restore_def not_less split: option.splits)
  moreover have "list_all (\<lambda>r. seen_order r \<le> seen_order (last rs)) rs"
    if "sorted_wrt (<) (map seen_order rs)" using sorted_last_max [OF that] by (auto simp: list_all_iff)
  ultimately show ?thesis
    by (auto simp: dedupe_restore_loop_None dedupe_ok_def split: if_splits)
qed

section \<open>Remembering\<close>

definition dedupe_kept :: "dedupe_window \<Rightarrow> message_id list \<Rightarrow> seen_message_record list" where
  "dedupe_kept w prot =
     (if length (dd_records w) \<ge> dd_capacity w
      then erase_first (\<lambda>r. \<not> is_protected (seen_message_id r) prot) (dd_records w) else dd_records w)"

lemma classify_cases:
  "dedupe_classify w mid b = NewMessage \<longleftrightarrow> mid \<notin> seen_message_id ` set (dd_records w)"
  "dedupe_classify w mid b \<noteq> InvalidMessage"
  by (auto simp: dedupe_classify_def find_None_iff split: option.splits dest: find_Some_set)

lemma remember_New:
  assumes "dedupe_remember w p b prot = (None, w')" "dedupe_classify w (message_id p) b = NewMessage"
  shows "w' = dedupe_push (w\<lparr>dd_records := dedupe_kept w prot\<rparr>) p b" "last_seen_order w \<noteq> u64_max"
    "length (dd_records w) \<ge> dd_capacity w \<Longrightarrow>
       \<exists>r \<in> set (dd_records w). \<not> is_protected (seen_message_id r) prot"
    "post_ok p" "encode_post p = Inr b"
  using assms
  by (auto simp: dedupe_remember_def dedupe_kept_def decode_post_Inr_encode list_ex_iff list_all_iff split: if_splits)

lemma remember_other:
  assumes "dedupe_remember w p b prot = (r, w')"
    "r \<noteq> None \<or> dedupe_classify w (message_id p) b \<noteq> NewMessage"
  shows "w' = w"
  using assms by (auto simp: dedupe_remember_def split: if_splits dedupe_classification.splits)

lemma remember_ok:
  assumes ok: "dedupe_ok w" and rem: "dedupe_remember w p b prot = (r, w')"
  shows "dedupe_ok w'"
proof (cases "r = None \<and> dedupe_classify w (message_id p) b = NewMessage")
  case False
  then show ?thesis using remember_other [OF rem] ok by blast
next
  case True
  note n = remember_New [of w p b prot w'] 
  have new: "message_id p \<notin> seen_message_id ` set (dd_records w)" using True classify_cases(1) by blast
  have w': "w' = dedupe_push (w\<lparr>dd_records := dedupe_kept w prot\<rparr>) p b" "last_seen_order w \<noteq> u64_max"
    and ex: "length (dd_records w) \<ge> dd_capacity w \<Longrightarrow>
       \<exists>r \<in> set (dd_records w). \<not> is_protected (seen_message_id r) prot"
    and p: "post_ok p" "encode_post p = Inr b"
    using n rem True by auto
  let ?k = "dedupe_kept w prot"
  have sub: "set ?k \<subseteq> set (dd_records w)" by (auto simp: dedupe_kept_def dest: erase_first_in)
  have len: "length ?k < dd_capacity w"
    using ok ex by (auto simp: dedupe_kept_def length_erase_first dedupe_ok_def)
  have gt: "last_seen_order w < last_seen_order w + 1" by (rule u64_succ_greater [OF w'(2)])
  have "sorted_wrt (<) (map seen_order ?k)"
    using ok by (auto simp: dedupe_ok_def dedupe_kept_def sorted_wrt_map intro: sorted_wrt_erase_first)
  moreover have "\<forall>r \<in> set ?k. 0 < seen_order r \<and> seen_order r < last_seen_order w + 1"
  proof
    fix r assume "r \<in> set ?k"
    then have r: "r \<in> set (dd_records w)" using sub by blast
    then have "seen_order r \<le> last_seen_order w"
      using ok sorted_last_max [of seen_order "dd_records w" r] by (auto simp: dedupe_ok_def)
    with gt r ok show "0 < seen_order r \<and> seen_order r < last_seen_order w + 1"
      by (auto simp: dedupe_ok_def)
  qed
  moreover have "distinct (map seen_message_id ?k)"
    using ok by (simp add: dedupe_ok_def dedupe_kept_def distinct_map_erase_first)
  moreover have "0 < last_seen_order w + 1" using gt by (rule le_less_trans [rotated]) simp
  ultimately show ?thesis
    using ok len sub new p w'(1)
    by (auto simp: dedupe_ok_def dedupe_push_def Let_def sorted_wrt_append list_all_iff record_canonical_def)
qed

interpretation seen: bounded_ledger dedupe_ok "\<lambda>w. map seen_message_id (dd_records w)" dd_capacity
    "\<lambda>(p, b, prot) w. snd (dedupe_remember w p b prot)"
proof (unfold_locales, goal_cases)
  case (1 w)
  then show ?case by (simp add: dedupe_ok_def)
next
  case (2 w x)
  then show ?case using remember_ok [of w] by (cases x) (auto, metis prod.collapse)
next
  case (3 x w)
  then show ?case
    by (cases x) (auto simp: dedupe_remember_def dedupe_push_def Let_def split: dedupe_classification.splits)
qed

lemma find_erase_first_other: "(\<And>x. P x \<Longrightarrow> \<not> Q x) \<Longrightarrow> List.find Q (erase_first P xs) = List.find Q xs"
  by (induction xs) auto

lemma classify_find_cong:
  "List.find (\<lambda>r. seen_message_id r = mid) (dd_records w') = List.find (\<lambda>r. seen_message_id r = mid) (dd_records w) \<Longrightarrow>
     dedupe_classify w' mid b = dedupe_classify w mid b"
  by (simp add: dedupe_classify_def)

lemma remember_classify_same:
  assumes rem: "dedupe_remember w p b prot = (None, w')"
  shows "dedupe_classify w' (message_id p) b' = (if b' = b then DuplicateMessage else ConflictingMessage)"
proof (cases "dedupe_classify w (message_id p) b = NewMessage")
  case True
  have "message_id p \<notin> seen_message_id ` set (dedupe_kept w prot)"
    using True by (auto simp: classify_cases(1) dedupe_kept_def dest: erase_first_in)
  then have "List.find (\<lambda>r. seen_message_id r = message_id p) (dedupe_kept w prot) = None"
    unfolding find_None_iff by (metis image_eqI)
  then show ?thesis unfolding remember_New(1) [OF rem True]
    by (simp add: dedupe_classify_def dedupe_push_def Let_def find_append)
next
  case False
  then have "w' = w" "dedupe_classify w (message_id p) b = DuplicateMessage"
    using rem by (auto simp: dedupe_remember_def split: if_splits dedupe_classification.splits)
  then show ?thesis by (auto simp: dedupe_classify_def split: option.splits if_splits)
qed

lemma remember_classify_protected:
  assumes rem: "dedupe_remember w p b prot = (r, w')" and "mid \<in> set prot" "mid \<noteq> message_id p"
  shows "dedupe_classify w' mid b' = dedupe_classify w mid b'"
proof (cases "r = None \<and> dedupe_classify w (message_id p) b = NewMessage")
  case True
  then have "w' = dedupe_push (w\<lparr>dd_records := dedupe_kept w prot\<rparr>) p b"
    using remember_New(1) rem by blast
  moreover have "List.find (\<lambda>r. seen_message_id r = mid) (dedupe_kept w prot) =
      List.find (\<lambda>r. seen_message_id r = mid) (dd_records w)"
    using assms(2) by (auto simp: dedupe_kept_def is_protected_def intro!: find_erase_first_other)
  ultimately show ?thesis using assms(3)
    by (auto simp: dedupe_push_def Let_def find_append intro!: classify_find_cong split: option.splits)
next
  case False
  then have "w' = w" using remember_other [OF rem] by blast
  then show ?thesis by simp
qed

section \<open>Properties\<close>

definition sample_window :: dedupe_window where
  "sample_window = \<lparr>dd_capacity = 1, last_seen_order = 0, dd_records = []\<rparr>"

lemma sample_window_ok: "dedupe_ok sample_window"
  by (simp add: sample_window_def dedupe_ok_def)

lemma sample_remember:
  "dedupe_remember sample_window sample_post (wire_layout (post_input sample_post)) [] =
     (None, dedupe_push sample_window sample_post (wire_layout (post_input sample_post)))"
  using encode_post_layout [OF sample_post_ok] decode_post_layout [OF sample_post_ok]
  by (simp add: dedupe_remember_def dedupe_classify_def sample_window_def)

text \<open>The duplicate window is restored exactly from the record lists that satisfy its invariant:
  at most the capacity, strictly increasing orders that end in the stored last order, distinct
  messages, and canonical bytes of the message each record names.\<close>

theorem dedupe_restore_iff:
  "dedupe_restore capacity last_order rs = Inr w \<longleftrightarrow>
     w = \<lparr>dd_capacity = capacity, last_seen_order = last_order, dd_records = rs\<rparr> \<and> dedupe_ok w"
  by (rule dedupe_restore_Inr)

text \<open>Remembering messages, in any number and order and with any outcome, keeps the window's
  invariant and never grows it past its capacity.\<close>

theorem dedupe_bounded:
  assumes "dedupe_ok w"
  shows "dedupe_ok (fold (\<lambda>(p, b, prot) w. snd (dedupe_remember w p b prot)) calls w) \<and>
    length (dd_records (fold (\<lambda>(p, b, prot) w. snd (dedupe_remember w p b prot)) calls w)) \<le> dd_capacity w"
  using seen.fold_inv [OF assms, of calls] seen.fold_bounded(2) [OF assms, of calls] by simp

theorem dedupe_bounded_witness:
  "dedupe_ok (snd (dedupe_remember sample_window sample_post [] []))"
  using dedupe_bounded [OF sample_window_ok, of "[(sample_post, [], [])]"] by simp

text \<open>After a message has been remembered, the same bytes are classified as a duplicate and any
  other bytes under its id as a conflict; and no call, whatever it evicts, changes the
  classification of a message protected by the caller.\<close>

theorem dedupe_remember_classifies:
  assumes "dedupe_remember w p b prot = (None, w')"
  shows "dedupe_classify w' (message_id p) b' = (if b' = b then DuplicateMessage else ConflictingMessage) \<and>
    (mid \<in> set prot \<and> mid \<noteq> message_id p \<longrightarrow> dedupe_classify w' mid b' = dedupe_classify w mid b')"
  using remember_classify_same [OF assms] remember_classify_protected [OF assms] by blast

theorem dedupe_remember_classifies_witness:
  "dedupe_classify (dedupe_push sample_window sample_post (wire_layout (post_input sample_post)))
     (message_id sample_post) [] = ConflictingMessage"
proof -
  have "wire_layout (post_input sample_post) \<noteq> []" by (simp add: wire_layout_def)
  then show ?thesis using dedupe_remember_classifies [OF sample_remember, of "[]"] by simp
qed

end
