(* ===== verification/Storage_History.thy ===== *)
theory Storage_History
  imports Model_Timeline Protocol_Dedupe
begin

text \<open>
  Model of the part of \<^verbatim>\<open>src/adapters/storage/sqlite_history_store.cpp\<close> that decides what may be stored: the
  validation of a snapshot against the identity it is bound to, and the reconciliation of its
  duplicate window with its entries, both of which \<^verbatim>\<open>save_snapshot\<close> performs before it writes. The
  rows the write stores are the subject of the theory of the database.
\<close>

section \<open>Definitions\<close>

record history_snapshot =
  hs_entries :: "timeline_entry list"
  hs_last_assigned_order :: u64
  hs_seen_messages :: "seen_message_record list"
  hs_last_seen_order :: u64

datatype history_error =
    InvalidPath | OpenFailed | ConfigureFailed | CorruptDatabase | WrongApplication | UnsupportedSchema
  | MigrationFailed | IdentityMismatch | InvalidData | InvalidSnapshot | ReadFailed | WriteFailed

definition snapshot_empty :: history_snapshot where
  "snapshot_empty = \<lparr>hs_entries = [], hs_last_assigned_order = 0, hs_seen_messages = [], hs_last_seen_order = 0\<rparr>"

definition entry_is_local :: "timeline_entry \<Rightarrow> bool" where
  "entry_is_local e \<longleftrightarrow> origin e \<noteq> ReceivedOrigin"

text \<open>The loop over the entries, with the ids and orders seen, the maximum and the previous order, the previous
  local sequence and the number of queued posts; it returns the maximum order.\<close>

fun validate_entries ::
  "identity \<Rightarrow> dedupe_window \<Rightarrow> message_id set \<Rightarrow> u64 set \<Rightarrow> u64 \<Rightarrow> u64 \<Rightarrow> u64 \<Rightarrow> nat
     \<Rightarrow> timeline_entry list \<Rightarrow> (u64, history_error) result" where
  "validate_entries i w ids orders maximum previous previous_local queued [] = Inr maximum"
| "validate_entries i w ids orders maximum previous previous_local queued (e # es) =
     (if received_order e = 0 \<or> received_order e \<le> previous \<or> entry_id e \<in> ids \<or> received_order e \<in> orders
      then Inl InvalidSnapshot
      else let is_local = entry_is_local e
      in if is_local \<and> (sender_id (entry_post e) \<noteq> identity_install_id i \<or>
           sender_sequence (entry_post e) > last_issued_sender_sequence i \<or>
           sender_sequence (entry_post e) \<le> previous_local)
      then Inl InvalidSnapshot
      else let previous_local = (if is_local then sender_sequence (entry_post e) else previous_local);
               queued = (if is_local \<and> entry_is_queued e then queued + 1 else queued)
      in if is_local \<and> entry_is_queued e \<and> queued > kMaxQueuedLocalPosts then Inl InvalidSnapshot
      else case encode_post (entry_post e) of
        Inl _ \<Rightarrow> Inl InvalidSnapshot
      | Inr encoded \<Rightarrow>
          if dedupe_classify w (entry_id e) encoded \<noteq> DuplicateMessage then Inl InvalidSnapshot
          else validate_entries i w (insert (entry_id e) ids) (insert (received_order e) orders)
                 (max maximum (received_order e)) (received_order e) previous_local queued es)"

definition validate_snapshot :: "history_snapshot \<Rightarrow> identity \<Rightarrow> history_error option" where
  "validate_snapshot snapshot i =
     (if length (hs_entries snapshot) > kMaxTimelineEntries then Some InvalidSnapshot
      else case dedupe_restore kDefaultSeenMessageCapacity (hs_last_seen_order snapshot) (hs_seen_messages snapshot) of
        Inl _ \<Rightarrow> Some InvalidSnapshot
      | Inr w \<Rightarrow>
          (case validate_entries i w {} {} 0 0 0 0 (hs_entries snapshot) of
             Inl e \<Rightarrow> Some e
           | Inr maximum \<Rightarrow>
               if maximum \<le> hs_last_assigned_order snapshot then None else Some InvalidSnapshot))"

fun reconcile_entries ::
  "message_id list \<Rightarrow> timeline_entry list \<Rightarrow> dedupe_window \<Rightarrow> (dedupe_window, history_error) result" where
  "reconcile_entries prot [] w = Inr w"
| "reconcile_entries prot (e # es) w =
     (case encode_post (entry_post e) of
        Inl _ \<Rightarrow> Inl InvalidSnapshot
      | Inr encoded \<Rightarrow>
          (case dedupe_classify w (entry_id e) encoded of
             ConflictingMessage \<Rightarrow> Inl InvalidSnapshot
           | InvalidMessage \<Rightarrow> Inl InvalidSnapshot
           | DuplicateMessage \<Rightarrow> reconcile_entries prot es w
           | NewMessage \<Rightarrow>
               (case dedupe_remember w (entry_post e) encoded prot of
                  (Some _, _) \<Rightarrow> Inl InvalidSnapshot
                | (None, w') \<Rightarrow> reconcile_entries prot es w')))"

definition reconcile_snapshot_dedupe :: "history_snapshot \<Rightarrow> (history_snapshot, history_error) result" where
  "reconcile_snapshot_dedupe snapshot =
     (case dedupe_restore kDefaultSeenMessageCapacity (hs_last_seen_order snapshot) (hs_seen_messages snapshot) of
        Inl _ \<Rightarrow> Inl InvalidSnapshot
      | Inr w \<Rightarrow>
          (case reconcile_entries (map entry_id (hs_entries snapshot)) (hs_entries snapshot) w of
             Inl e \<Rightarrow> Inl e
           | Inr w' \<Rightarrow> Inr (snapshot\<lparr>hs_last_seen_order := last_seen_order w', hs_seen_messages := dd_records w'\<rparr>)))"

text \<open>The checks before the write: what \<open>operation_preflight\<close> finds is an argument, and so is the write itself.\<close>

definition save_snapshot ::
  "history_error option \<Rightarrow> (history_snapshot \<Rightarrow> identity \<Rightarrow> 'db \<Rightarrow> history_error option \<times> 'db)
     \<Rightarrow> history_snapshot \<Rightarrow> identity \<Rightarrow> 'db \<Rightarrow> history_error option \<times> 'db" where
  "save_snapshot preflight write snapshot i db =
     (case reconcile_snapshot_dedupe snapshot of
        Inl e \<Rightarrow> (Some e, db)
      | Inr candidate \<Rightarrow>
          (case validate_snapshot candidate i of
             Some e \<Rightarrow> (Some e, db)
           | None \<Rightarrow>
               (case preflight of
                  Some e \<Rightarrow> (Some e, db)
                | None \<Rightarrow> write candidate i db)))"

section \<open>What a stored snapshot satisfies\<close>

text \<open>The local posts of a list of entries belong to the identity and carry increasing sequences that it
  has issued.\<close>

definition own_posts_ok :: "identity \<Rightarrow> timeline_entry list \<Rightarrow> bool" where
  "own_posts_ok i es \<longleftrightarrow>
     list_all (\<lambda>e. sender_id (entry_post e) = identity_install_id i \<and>
       sender_sequence (entry_post e) \<le> last_issued_sender_sequence i) (filter entry_is_local es) \<and>
     sorted_wrt (<) (0 # map (\<lambda>e. sender_sequence (entry_post e)) (filter entry_is_local es))"

definition remembered :: "dedupe_window \<Rightarrow> timeline_entry \<Rightarrow> bool" where
  "remembered w e \<longleftrightarrow>
     (\<exists>b. encode_post (entry_post e) = Inr b \<and> dedupe_classify w (entry_id e) b = DuplicateMessage)"

definition snapshot_ok :: "history_snapshot \<Rightarrow> identity \<Rightarrow> bool" where
  "snapshot_ok snapshot i \<longleftrightarrow>
     length (hs_entries snapshot) \<le> kMaxTimelineEntries \<and>
     sorted_wrt (<) (0 # map received_order (hs_entries snapshot)) \<and>
     list_all (\<lambda>e. received_order e \<le> hs_last_assigned_order snapshot) (hs_entries snapshot) \<and>
     distinct (map entry_id (hs_entries snapshot)) \<and>
     length (filter entry_is_queued (hs_entries snapshot)) \<le> kMaxQueuedLocalPosts \<and>
     own_posts_ok i (hs_entries snapshot) \<and>
     (\<exists>w. dedupe_restore kDefaultSeenMessageCapacity (hs_last_seen_order snapshot) (hs_seen_messages snapshot) = Inr w \<and>
        list_all (remembered w) (hs_entries snapshot))"

section \<open>Lemmas\<close>

lemma queued_is_local: "entry_is_queued e \<Longrightarrow> entry_is_local e"
  by (simp add: entry_is_queued_def entry_is_local_def)

lemma validate_entries_Inr:
  assumes "orders \<subseteq> {..previous}"
  shows "validate_entries i w ids orders maximum previous local q es = Inr m \<longleftrightarrow>
     m = fold max (map received_order es) maximum \<and>
     sorted_wrt (<) (previous # map received_order es) \<and>
     distinct (map entry_id es) \<and> ids \<inter> entry_id ` set es = {} \<and>
     list_all (\<lambda>e. sender_id (entry_post e) = identity_install_id i \<and>
       sender_sequence (entry_post e) \<le> last_issued_sender_sequence i) (filter entry_is_local es) \<and>
     sorted_wrt (<) (local # map (\<lambda>e. sender_sequence (entry_post e)) (filter entry_is_local es)) \<and>
     (filter entry_is_queued es = [] \<or> q + length (filter entry_is_queued es) \<le> kMaxQueuedLocalPosts) \<and>
     list_all (remembered w) es"
  using assms
proof (induction es arbitrary: ids orders maximum previous "local" q)
  case Nil
  then show ?case by auto
next
  case (Cons e es)
  have sub: "insert (received_order e) orders \<subseteq> {..received_order e}" if "previous < received_order e"
    using Cons.prems that by auto
  have sorted: "sorted_wrt (<) (x # y # ys) \<longleftrightarrow> x < y \<and> sorted_wrt (<) (y # ys)" for x y :: u64 and ys
    by (auto intro: less_trans)
  have fresh: "previous < received_order e \<Longrightarrow> received_order e \<notin> orders \<and> received_order e \<noteq> 0"
    using Cons.prems by auto
  show ?case
  proof (cases "previous < received_order e \<and> entry_id e \<notin> ids \<and> remembered w e")
    case False
    then show ?thesis unfolding list.map sorted
      by (auto simp: remembered_def not_less Let_def split: sum.splits)
  next
    case True
    note IH = Cons.IH [OF sub, of "insert (entry_id e) ids" "max maximum (received_order e)"]
    show ?thesis
      using True fresh IH queued_is_local [of e] unfolding list.map sorted
      by (cases "entry_is_local e"; cases "entry_is_queued e";
          auto simp: remembered_def Let_def not_less not_le sorted max.commute simp del: sorted_wrt.simps;
          blast)
  qed
qed

lemma fold_max_le: "fold max (map f xs) m \<le> b \<longleftrightarrow> m \<le> b \<and> list_all (\<lambda>x. f x \<le> b) xs" for m :: "'a::linorder"
  by (induction xs arbitrary: m) auto

lemma validate_snapshot_None: "validate_snapshot s i = None \<longleftrightarrow> snapshot_ok s i"
proof (cases "dedupe_restore kDefaultSeenMessageCapacity (hs_last_seen_order s) (hs_seen_messages s)")
  case (Inl e)
  then show ?thesis by (simp add: validate_snapshot_def snapshot_ok_def)
next
  case (Inr w)
  note v = validate_entries_Inr [of "{}" 0 i w "{}" 0 0 0 "hs_entries s"]
  have "validate_snapshot s i = None \<longleftrightarrow> length (hs_entries s) \<le> kMaxTimelineEntries \<and>
      (\<exists>m. validate_entries i w {} {} 0 0 0 0 (hs_entries s) = Inr m \<and> m \<le> hs_last_assigned_order s)"
    using Inr by (auto simp: validate_snapshot_def split: sum.splits)
  also have "\<dots> \<longleftrightarrow> snapshot_ok s i"
    using Inr v by (auto simp: snapshot_ok_def own_posts_ok_def fold_max_le)
  finally show ?thesis .
qed

end
