(* ===== verification/Storage_Sqlite.thy ===== *)
theory Storage_Sqlite
  imports Storage_History "HOL-Library.Multiset"
begin

text \<open>
  Model of the rows \<^verbatim>\<open>src/adapters/storage/sqlite_history_store.cpp\<close> writes and reads: the columns bound for
  each entry of a snapshot, the statements of the transaction that stores them one by one, and the reading of the rows a query
  delivers, with every check on their types, sizes and values. The SQLite engine is not under \<^verbatim>\<open>src\<close>: what
  its calls answer (result codes, the rows a cursor delivers) is an argument. The documented behaviour that
  the round trip needs, that a cursor delivers the rows of the table that match, sorted by the column of
  the query, is the hypothesis \<open>delivers\<close>.
\<close>

section \<open>Definitions\<close>

datatype sql_value = SqlNull | SqlInteger int | SqlText bytes | SqlBlob bytes

type_synonym sql_row = "sql_value list"

text \<open>A prepared query: the code of a failed preparation, or the rows stepped over and the code that ended the loop.\<close>

type_synonym sql_cursor = "(sql_row list \<times> int, int) result"

definition SQLITE_DONE :: int where [simp]: "SQLITE_DONE = 101"
definition SQLITE_CORRUPT :: int where [simp]: "SQLITE_CORRUPT = 11"
definition SQLITE_FORMAT :: int where [simp]: "SQLITE_FORMAT = 24"
definition SQLITE_NOTADB :: int where [simp]: "SQLITE_NOTADB = 26"

definition primary_result_code :: "int \<Rightarrow> int" where
  "primary_result_code result_code = result_code AND 0xff"

definition is_corrupt_result :: "int \<Rightarrow> bool" where
  "is_corrupt_result result_code \<longleftrightarrow>
     (let primary = primary_result_code result_code
      in primary = SQLITE_CORRUPT \<or> primary = SQLITE_NOTADB \<or> primary = SQLITE_FORMAT)"

definition error_for_result :: "int \<Rightarrow> history_error \<Rightarrow> history_error" where
  "error_for_result result_code fallback =
     (if is_corrupt_result result_code then CorruptDatabase else fallback)"

definition column :: "sql_row \<Rightarrow> nat \<Rightarrow> sql_value" where
  "column row c = (if c < length row then row ! c else SqlNull)"

text \<open>The loop that fills the array from its end.\<close>

fun encode_uint64_loop :: "nat \<Rightarrow> u64 \<Rightarrow> bytes" where
  "encode_uint64_loop 0 v = []"
| "encode_uint64_loop (Suc index) v = encode_uint64_loop index (drop_bit 8 v) @ [ucast (v AND 0xff)]"

definition encode_uint64 :: "u64 \<Rightarrow> bytes" where
  "encode_uint64 v = encode_uint64_loop 8 v"

definition decode_uint64 :: "sql_row \<Rightarrow> nat \<Rightarrow> u64 option" where
  "decode_uint64 row c =
     (case column row c of
        SqlBlob b \<Rightarrow>
          if length b \<noteq> 8 then None
          else Some (foldl (\<lambda>v index. push_bit 8 v OR ucast (b ! index)) 0 [0..<8])
      | _ \<Rightarrow> None)"

definition read_uuid_column :: "sql_row \<Rightarrow> nat \<Rightarrow> uuid option" where
  "read_uuid_column row c =
     (case column row c of SqlBlob b \<Rightarrow> if length b \<noteq> 16 then None else Some b | _ \<Rightarrow> None)"

definition read_text :: "sql_row \<Rightarrow> nat \<Rightarrow> nat \<Rightarrow> bytes option" where
  "read_text row c maximum_bytes =
     (case column row c of
        SqlText t \<Rightarrow> if t = [] \<or> length t > maximum_bytes \<or> 0 \<in> set t then None else Some t
      | _ \<Rightarrow> None)"

definition bind_uuid :: "uuid \<Rightarrow> sql_value" where
  "bind_uuid u = SqlBlob u"

definition bind_uint64 :: "u64 \<Rightarrow> sql_value" where
  "bind_uint64 v = SqlBlob (encode_uint64 v)"

subsection \<open>The metadata\<close>

record stored_metadata =
  md_initialized :: bool
  md_dedupe_initialized :: bool
  md_install_id :: bytes
  md_last_assigned_order :: u64
  md_last_seen_order :: u64

definition metadata_empty :: stored_metadata where
  "metadata_empty = \<lparr>md_initialized = False, md_dedupe_initialized = False, md_install_id = replicate 16 0,
     md_last_assigned_order = 0, md_last_seen_order = 0\<rparr>"

record meta_scan =
  ms_metadata :: stored_metadata
  saw_install_id :: bool
  saw_last_order :: bool
  saw_last_seen_order :: bool
  saw_dedupe_initialized :: bool
  row_count :: nat

definition meta_value ::
  "bytes \<Rightarrow> sql_row \<Rightarrow> meta_scan \<Rightarrow> (meta_scan, history_error) result" where
  "meta_value key row s =
     (if key = ascii ''dedupe_initialized'' then
        (case column row 1 of
           SqlBlob [b] \<Rightarrow>
             if saw_dedupe_initialized s \<or> (b \<noteq> 0 \<and> b \<noteq> 1) then Inl InvalidData
             else Inr (s\<lparr>ms_metadata := (ms_metadata s)\<lparr>md_dedupe_initialized := (b = 1)\<rparr>,
                         saw_dedupe_initialized := True\<rparr>)
         | _ \<Rightarrow> Inl InvalidData)
      else if key = ascii ''install_id'' then
        (case column row 1 of
           SqlBlob b \<Rightarrow>
             if saw_install_id s \<or> length b \<noteq> 16 then Inl InvalidData
             else Inr (s\<lparr>ms_metadata := (ms_metadata s)\<lparr>md_install_id := b\<rparr>, saw_install_id := True\<rparr>)
         | _ \<Rightarrow> Inl InvalidData)
      else if key = ascii ''last_assigned_order'' then
        (if saw_last_order s then Inl InvalidData
         else case decode_uint64 row 1 of
                None \<Rightarrow> Inl InvalidData
              | Some v \<Rightarrow> Inr (s\<lparr>ms_metadata := (ms_metadata s)\<lparr>md_last_assigned_order := v\<rparr>,
                                 saw_last_order := True\<rparr>))
      else if key = ascii ''last_seen_order'' then
        (if saw_last_seen_order s then Inl InvalidData
         else case decode_uint64 row 1 of
                None \<Rightarrow> Inl InvalidData
              | Some v \<Rightarrow> Inr (s\<lparr>ms_metadata := (ms_metadata s)\<lparr>md_last_seen_order := v\<rparr>,
                                 saw_last_seen_order := True\<rparr>))
      else Inl InvalidData)"

definition meta_row :: "sql_row \<Rightarrow> meta_scan \<Rightarrow> (meta_scan, history_error) result" where
  "meta_row row s =
     (let s = s\<lparr>row_count := row_count s + 1\<rparr>
      in if row_count s > 4 then Inl InvalidData
      else case (column row 0, column row 1) of
        (SqlText key, SqlBlob _) \<Rightarrow> if key = [] then Inl InvalidData else meta_value key row s
      | _ \<Rightarrow> Inl InvalidData)"

fun meta_rows_scan :: "sql_row list \<Rightarrow> meta_scan \<Rightarrow> (meta_scan, history_error) result" where
  "meta_rows_scan [] s = Inr s"
| "meta_rows_scan (row # rows) s =
     (case meta_row row s of Inl e \<Rightarrow> Inl e | Inr s' \<Rightarrow> meta_rows_scan rows s')"

text \<open>The counts of the other two tables are queried when there is no metadata.\<close>

definition load_metadata ::
  "sql_cursor \<Rightarrow> (int \<times> int, int) result \<Rightarrow> (stored_metadata, history_error) result" where
  "load_metadata cursor counts =
     (case cursor of
        Inl code \<Rightarrow> Inl (error_for_result code ReadFailed)
      | Inr (rows, code) \<Rightarrow>
          (case meta_rows_scan rows \<lparr>ms_metadata = metadata_empty, saw_install_id = False, saw_last_order = False,
                  saw_last_seen_order = False, saw_dedupe_initialized = False, row_count = 0\<rparr> of
             Inl e \<Rightarrow> Inl e
           | Inr s \<Rightarrow>
               if code \<noteq> SQLITE_DONE then Inl (error_for_result code ReadFailed)
               else if row_count s = 0 then
                 (case counts of
                    Inl code \<Rightarrow> Inl (error_for_result code ReadFailed)
                  | Inr (post_count, seen_count) \<Rightarrow>
                      if post_count \<noteq> 0 \<or> seen_count \<noteq> 0 then Inl InvalidData else Inr (ms_metadata s))
               else if \<not> saw_dedupe_initialized s \<or> \<not> saw_install_id s \<or> \<not> saw_last_order s \<or>
                 \<not> saw_last_seen_order s \<or> row_count s \<noteq> 4 then Inl InvalidData
               else Inr ((ms_metadata s)\<lparr>md_initialized := True\<rparr>)))"

definition identity_matches :: "stored_metadata \<Rightarrow> identity \<Rightarrow> bool" where
  "identity_matches md i \<longleftrightarrow> md_install_id md = install_uuid (identity_install_id i)"

subsection \<open>Writing a snapshot\<close>

record history_db =
  db_meta :: "sql_row list"
  db_posts :: "sql_row list"
  db_mentions :: "sql_row list"
  db_seen_messages :: "sql_row list"

definition meta_rows :: "history_snapshot \<Rightarrow> identity \<Rightarrow> sql_row list" where
  "meta_rows snapshot i =
     [[SqlText (ascii ''install_id''), SqlBlob (install_uuid (identity_install_id i))],
      [SqlText (ascii ''last_assigned_order''), bind_uint64 (hs_last_assigned_order snapshot)],
      [SqlText (ascii ''last_seen_order''), bind_uint64 (hs_last_seen_order snapshot)],
      [SqlText (ascii ''dedupe_initialized''), SqlBlob [1]]]"

text \<open>The enumerators' values.\<close>

fun local_state_int :: "local_delivery_state \<Rightarrow> int" where
  "local_state_int Queued = 0"
| "local_state_int Broadcast = 1"
| "local_state_int Failed = 2"
| "local_state_int UnknownState = 3"

definition post_row :: "timeline_entry \<Rightarrow> sql_row" where
  "post_row e =
     (let p = entry_post e
      in [bind_uuid (message_uuid (message_id p)), bind_uuid (install_uuid (sender_id p)),
          bind_uint64 (sender_sequence p), SqlText (user_id_value (sender_user_id p)),
          SqlText (post_body_value (body p)),
          (case reply_to p of Some r \<Rightarrow> bind_uuid (message_uuid r) | None \<Rightarrow> SqlNull),
          (case sender_time p of Some t \<Rightarrow> SqlInteger t | None \<Rightarrow> SqlNull),
          bind_uint64 (received_order e),
          (case origin e of LocalDelivery _ \<Rightarrow> SqlInteger 1 | ReceivedOrigin \<Rightarrow> SqlInteger 0),
          (case origin e of LocalDelivery state \<Rightarrow> SqlInteger (local_state_int state) | ReceivedOrigin \<Rightarrow> SqlNull)])"

definition mention_rows :: "timeline_entry \<Rightarrow> sql_row list" where
  "mention_rows e =
     map (\<lambda>index. [bind_uuid (message_uuid (entry_id e)), SqlInteger (int index),
                   bind_uuid (install_uuid (mentions (entry_post e) ! index))])
       [0..<length (mentions (entry_post e))]"

definition seen_row :: "seen_message_record \<Rightarrow> sql_row" where
  "seen_row r =
     [bind_uuid (message_uuid (seen_message_id r)), SqlInteger 1, SqlBlob (seen_encoded_post r),
      bind_uint64 (seen_order r)]"

text \<open>The tables that stand for a snapshot: what a write that succeeds has to leave.\<close>

definition snapshot_tables :: "history_snapshot \<Rightarrow> identity \<Rightarrow> history_db" where
  "snapshot_tables snapshot i =
     \<lparr>db_meta = meta_rows snapshot i,
      db_posts = map post_row (hs_entries snapshot),
      db_mentions = concat (map mention_rows (hs_entries snapshot)),
      db_seen_messages = map seen_row (hs_seen_messages snapshot)\<rparr>"

text \<open>The loop over the stored ledger (\<open>SELECT message_id, encoded_post, seen_order\<close>): the rows and the records left to
  compare. \<open>None\<close> is the early return of a mismatch, \<open>Some\<close> the records not reached.\<close>

fun ledger_loop :: "sql_row list \<Rightarrow> seen_message_record list \<Rightarrow> seen_message_record list option" where
  "ledger_loop [] expected = Some expected"
| "ledger_loop (row # rows) [] = None"
| "ledger_loop (row # rows) (r # rs) =
     (case (column row 0, column row 1) of
        (SqlBlob mid, SqlBlob encoded) \<Rightarrow>
          if length mid \<noteq> 16 \<or> length encoded \<noteq> length (seen_encoded_post r) then None
          else (case decode_uint64 row 2 of
             None \<Rightarrow> None
           | Some order \<Rightarrow>
               if order \<noteq> seen_order r \<or> message_uuid (seen_message_id r) \<noteq> mid \<or> seen_encoded_post r \<noteq> encoded
               then None else ledger_loop rows rs)
      | _ \<Rightarrow> None)"

definition ledger_matches_snapshot :: "sql_cursor \<Rightarrow> history_snapshot \<Rightarrow> (bool, history_error) result" where
  "ledger_matches_snapshot cursor snapshot =
     (case cursor of
        Inl code \<Rightarrow> Inl (error_for_result code ReadFailed)
      | Inr (rows, code) \<Rightarrow>
          (case ledger_loop rows (hs_seen_messages snapshot) of
             None \<Rightarrow> Inr False
           | Some left \<Rightarrow>
               if code \<noteq> SQLITE_DONE then Inl (error_for_result code ReadFailed) else Inr (left = [])))"

text \<open>A connection has the committed tables and, while a transaction is open, the tables as its statements have changed them so far. A
  statement outside a transaction changes the committed tables at once.\<close>

record sql_connection =
  cn_stored :: history_db
  cn_work :: "history_db option"

definition connection_tables :: "sql_connection \<Rightarrow> history_db" where
  "connection_tables c = (case cn_work c of Some w \<Rightarrow> w | None \<Rightarrow> cn_stored c)"

definition sql_change :: "(history_db \<Rightarrow> history_db) \<Rightarrow> sql_connection \<Rightarrow> sql_connection" where
  "sql_change f c =
     (case cn_work c of Some w \<Rightarrow> c\<lparr>cn_work := Some (f w)\<rparr> | None \<Rightarrow> c\<lparr>cn_stored := f (cn_stored c)\<rparr>)"

text \<open>The class \<^verbatim>\<open>Transaction\<close>. The argument is the extended error code of a \<^verbatim>\<open>BEGIN\<close> or \<^verbatim>\<open>COMMIT\<close> that fails.\<close>

record transaction =
  tx_active :: bool
  tx_database :: sql_connection

definition transaction_begin :: "int option \<Rightarrow> sql_connection \<Rightarrow> transaction" where
  "transaction_begin failed c =
     (case failed of
        None \<Rightarrow> \<lparr>tx_active = True, tx_database = c\<lparr>cn_work := Some (cn_stored c)\<rparr>\<rparr>
      | Some _ \<Rightarrow> \<lparr>tx_active = False, tx_database = c\<rparr>)"

definition transaction_commit :: "int option \<Rightarrow> transaction \<Rightarrow> bool \<times> transaction" where
  "transaction_commit failed tx =
     (if \<not> tx_active tx then (False, tx)
      else case failed of
        Some _ \<Rightarrow> (False, tx)
      | None \<Rightarrow> (True, tx\<lparr>tx_active := False,
          tx_database := \<lparr>cn_stored = connection_tables (tx_database tx), cn_work = None\<rparr>\<rparr>))"

text \<open>The destructor: \<^verbatim>\<open>ROLLBACK\<close> unless the transaction was committed or never began. SQLite refuses a \<^verbatim>\<open>ROLLBACK\<close> only when no transaction is
  open any more, because an error has rolled it back already; so the changes are gone in both cases.\<close>

definition transaction_end :: "transaction \<Rightarrow> sql_connection" where
  "transaction_end tx =
     (if tx_active tx then (tx_database tx)\<lparr>cn_work := None\<rparr> else tx_database tx)"

text \<open>The statements of a write, in their order, and the points at which a test can make it fail, the last two of them in a write.\<close>

datatype write_point = MigrationPostsRenamed | MigrationSeenTableCreated | SnapshotTimelineWritten | SnapshotDedupeWritten

datatype sql_operation =
    DeletePosts | DeleteSeenMessages | DeleteMeta
  | PrepareInsertMeta | PrepareInsertPost | PrepareInsertMention | PrepareInsertSeenMessage
  | InsertMeta sql_row | InsertPost sql_row | InsertMention sql_row | InsertSeenMessage sql_row
  | FailpointReached write_point

text \<open>The mentions of a post go with it (\<^verbatim>\<open>ON DELETE CASCADE\<close>).\<close>

fun operation_effect :: "sql_operation \<Rightarrow> history_db \<Rightarrow> history_db" where
  "operation_effect DeletePosts db = db\<lparr>db_posts := [], db_mentions := []\<rparr>"
| "operation_effect DeleteSeenMessages db = db\<lparr>db_seen_messages := []\<rparr>"
| "operation_effect DeleteMeta db = db\<lparr>db_meta := []\<rparr>"
| "operation_effect (InsertMeta row) db = db\<lparr>db_meta := db_meta db @ [row]\<rparr>"
| "operation_effect (InsertPost row) db = db\<lparr>db_posts := db_posts db @ [row]\<rparr>"
| "operation_effect (InsertMention row) db = db\<lparr>db_mentions := db_mentions db @ [row]\<rparr>"
| "operation_effect (InsertSeenMessage row) db = db\<lparr>db_seen_messages := db_seen_messages db @ [row]\<rparr>"
| "operation_effect _ db = db"

definition entry_operations :: "timeline_entry \<Rightarrow> sql_operation list" where
  "entry_operations e = InsertPost (post_row e) # map InsertMention (mention_rows e)"

definition write_operations :: "history_snapshot \<Rightarrow> identity \<Rightarrow> sql_operation list" where
  "write_operations snapshot i =
     [DeletePosts, DeleteSeenMessages, DeleteMeta, PrepareInsertMeta, PrepareInsertPost, PrepareInsertMention, PrepareInsertSeenMessage] @
     map InsertMeta (meta_rows snapshot i) @
     concat (map entry_operations (hs_entries snapshot)) @ [FailpointReached SnapshotTimelineWritten] @
     map (InsertSeenMessage \<circ> seen_row) (hs_seen_messages snapshot) @ [FailpointReached SnapshotDedupeWritten]"

text \<open>How an operation ends: it is done; it is refused, by a failpoint or by one of the first seven bindings of a post, for which the code returns
  \<^verbatim>\<open>WriteFailed\<close>; or a call fails with a code, before the statement took effect or, when only its reset fails, after it.\<close>

datatype sql_answer = StmtDone | StmtRefused | StmtFailed (took_effect: bool) int

definition run_operation :: "sql_answer \<Rightarrow> sql_operation \<Rightarrow> sql_connection \<Rightarrow> history_error option \<times> sql_connection" where
  "run_operation answer operation c =
     (case answer of
        StmtDone \<Rightarrow> (None, sql_change (operation_effect operation) c)
      | StmtRefused \<Rightarrow> (Some WriteFailed, c)
      | StmtFailed effect code \<Rightarrow>
          (Some (error_for_result code WriteFailed), if effect then sql_change (operation_effect operation) c else c))"

text \<open>The first failure returns; \<open>answers n\<close> is the answer to the operation number \<open>n\<close>.\<close>

fun run_operations ::
  "(nat \<Rightarrow> sql_answer) \<Rightarrow> nat \<Rightarrow> sql_operation list \<Rightarrow> sql_connection \<Rightarrow> history_error option \<times> sql_connection" where
  "run_operations answers n [] c = (None, c)"
| "run_operations answers n (operation # operations) c =
     (case run_operation (answers n) operation c of
        (Some e, c) \<Rightarrow> (Some e, c)
      | (None, c) \<Rightarrow> run_operations answers (Suc n) operations c)"

text \<open>What SQLite answers during a write: the extended error code when \<^verbatim>\<open>BEGIN IMMEDIATE\<close> or \<^verbatim>\<open>COMMIT\<close> fails, the cursors of
  the metadata and of the ledger, and the answer to each statement.\<close>

record write_io =
  wio_begin :: "int option"
  wio_meta :: sql_cursor
  wio_counts :: "(int \<times> int, int) result"
  wio_ledger :: sql_cursor
  wio_statements :: "nat \<Rightarrow> sql_answer"
  wio_commit :: "int option"

text \<open>The comparison with what is stored, before anything is changed.\<close>

definition write_checks :: "write_io \<Rightarrow> history_snapshot \<Rightarrow> identity \<Rightarrow> history_error option" where
  "write_checks io snapshot i =
     (case load_metadata (wio_meta io) (wio_counts io) of
        Inl e \<Rightarrow> Some e
      | Inr md \<Rightarrow>
          if md_initialized md \<and> \<not> identity_matches md i then Some IdentityMismatch
          else if md_initialized md \<and> (hs_last_assigned_order snapshot < md_last_assigned_order md \<or>
            hs_last_seen_order snapshot < md_last_seen_order md) then Some InvalidSnapshot
          else
            (case (if md_initialized md \<and> hs_last_seen_order snapshot = md_last_seen_order md
                   then ledger_matches_snapshot (wio_ledger io) snapshot else Inr True) of
               Inl e \<Rightarrow> Some e
             | Inr False \<Rightarrow> Some InvalidSnapshot
             | Inr True \<Rightarrow> None))"

definition write_in_transaction ::
  "write_io \<Rightarrow> history_snapshot \<Rightarrow> identity \<Rightarrow> transaction \<Rightarrow> history_error option \<times> transaction" where
  "write_in_transaction io snapshot i tx =
     (if \<not> tx_active tx
      then (Some (error_for_result (case wio_begin io of Some code \<Rightarrow> code | None \<Rightarrow> 0) WriteFailed), tx)
      else case write_checks io snapshot i of
        Some e \<Rightarrow> (Some e, tx)
      | None \<Rightarrow>
          (case run_operations (wio_statements io) 0 (write_operations snapshot i) (tx_database tx) of
             (Some e, c) \<Rightarrow> (Some e, tx\<lparr>tx_database := c\<rparr>)
           | (None, c) \<Rightarrow>
               (case transaction_commit (wio_commit io) (tx\<lparr>tx_database := c\<rparr>) of
                  (False, tx) \<Rightarrow> (Some (error_for_result (case wio_commit io of Some code \<Rightarrow> code | None \<Rightarrow> 0) WriteFailed), tx)
                | (True, tx) \<Rightarrow> (None, tx))))"

text \<open>The function: the transaction is made, the body runs, and every return runs the destructor. The tables are those a reader of the connection
  finds afterwards.\<close>

definition write_snapshot ::
  "write_io \<Rightarrow> history_snapshot \<Rightarrow> identity \<Rightarrow> history_db \<Rightarrow> history_error option \<times> history_db" where
  "write_snapshot io snapshot i db =
     (case write_in_transaction io snapshot i (transaction_begin (wio_begin io) \<lparr>cn_stored = db, cn_work = None\<rparr>) of
        (result, tx) \<Rightarrow> (result, connection_tables (transaction_end tx)))"

subsection \<open>Reading a snapshot\<close>

text \<open>One run of the mentions query: whether the message id could be bound, the rows, the final code, and whether
  the statement could be reset.\<close>

record mention_run =
  run_bound :: bool
  run_rows :: "sql_row list"
  run_code :: int
  run_reset :: bool

fun read_mention_rows :: "sql_row list \<Rightarrow> uuid list \<Rightarrow> (uuid list, history_error) result" where
  "read_mention_rows [] mention_ids = Inr mention_ids"
| "read_mention_rows (row # rows) mention_ids =
     (if length mention_ids \<ge> kMaxMentions \<or> column row 0 \<noteq> SqlInteger (int (length mention_ids)) then Inl InvalidData
      else case read_uuid_column row 1 of
        None \<Rightarrow> Inl InvalidData
      | Some mention \<Rightarrow> read_mention_rows rows (mention_ids @ [mention]))"

definition read_mention_ids :: "mention_run \<Rightarrow> (uuid list, history_error) result" where
  "read_mention_ids run =
     (if \<not> run_bound run then Inl ReadFailed
      else case read_mention_rows (run_rows run) [] of
        Inl e \<Rightarrow> Inl e
      | Inr mention_ids \<Rightarrow>
          if run_code run \<noteq> SQLITE_DONE \<or> \<not> run_reset run then Inl (error_for_result (run_code run) ReadFailed)
          else Inr mention_ids)"

definition read_reply_column :: "sql_row \<Rightarrow> (uuid option, history_error) result" where
  "read_reply_column row =
     (case column row 5 of
        SqlBlob _ \<Rightarrow> (case read_uuid_column row 5 of None \<Rightarrow> Inl InvalidData | Some r \<Rightarrow> Inr (Some r))
      | SqlNull \<Rightarrow> Inr None
      | _ \<Rightarrow> Inl InvalidData)"

definition read_time_column :: "sql_row \<Rightarrow> (int option, history_error) result" where
  "read_time_column row =
     (case column row 6 of SqlInteger t \<Rightarrow> Inr (Some t) | SqlNull \<Rightarrow> Inr None | _ \<Rightarrow> Inl InvalidData)"

fun local_state_of_int :: "int \<Rightarrow> local_delivery_state option" where
  "local_state_of_int n =
     (if n < 0 \<or> n > 3 then None
      else Some (if n = 0 then Queued else if n = 1 then Broadcast else if n = 2 then Failed else UnknownState))"

text \<open>\<^verbatim>\<open>sqlite3_column_int\<close>: the low 32 bits of the stored integer, signed.\<close>

definition column_int :: "int \<Rightarrow> int" where
  "column_int n = signed_take_bit 31 n"

text \<open>The origin columns, with the previous local sequence.\<close>

definition read_origin_columns ::
  "identity \<Rightarrow> post_payload \<Rightarrow> sql_row \<Rightarrow> u64 \<Rightarrow> (entry_origin \<times> u64, history_error) result" where
  "read_origin_columns i post row previous_local =
     (case column row 8 of
        SqlInteger origin_value \<Rightarrow>
          if column_int origin_value = 0 then
            (if column row 9 \<noteq> SqlNull then Inl InvalidData else Inr (ReceivedOrigin, previous_local))
          else if column_int origin_value = 1 then
            (case column row 9 of
               SqlInteger state \<Rightarrow>
                 (case local_state_of_int (column_int state) of
                    None \<Rightarrow> Inl InvalidData
                  | Some st \<Rightarrow>
                      if sender_id post \<noteq> identity_install_id i \<or>
                        sender_sequence post > last_issued_sender_sequence i \<or>
                        sender_sequence post \<le> previous_local then Inl InvalidData
                      else Inr (LocalDelivery st, sender_sequence post))
             | _ \<Rightarrow> Inl InvalidData)
          else Inl InvalidData
      | _ \<Rightarrow> Inl InvalidData)"

record read_state =
  rs_entries :: "timeline_entry list"
  rs_seen_orders :: "u64 set"
  rs_previous_local :: u64

text \<open>The columns every post has: the ids, the sequence, the two texts and the order.\<close>

definition read_fixed_columns ::
  "stored_metadata \<Rightarrow> sql_row \<Rightarrow> u64 set \<Rightarrow> (uuid \<times> uuid \<times> u64 \<times> bytes \<times> bytes \<times> u64) option" where
  "read_fixed_columns md row seen_orders =
     (case (read_uuid_column row 0, read_uuid_column row 1, decode_uint64 row 2) of
        (Some mid, Some sid, Some sequence) \<Rightarrow>
          if sequence = 0 then None
          else (case (read_text row 3 kMaxUserIdBytes, read_text row 4 kMaxPostBodyBytes, decode_uint64 row 7) of
             (Some user, Some text, Some order) \<Rightarrow>
               if order = 0 \<or> order \<in> seen_orders \<or> order > md_last_assigned_order md then None
               else Some (mid, sid, sequence, user, text, order)
           | _ \<Rightarrow> None)
      | _ \<Rightarrow> None)"

definition read_post_row ::
  "stored_metadata \<Rightarrow> identity \<Rightarrow> (uuid \<Rightarrow> mention_run) \<Rightarrow> sql_row \<Rightarrow> read_state
     \<Rightarrow> (read_state, history_error) result" where
  "read_post_row md i mention_query row s =
     (if length (rs_entries s) \<ge> kMaxTimelineEntries then Inl InvalidData
      else case read_fixed_columns md row (rs_seen_orders s) of
        None \<Rightarrow> Inl InvalidData
      | Some (mid, sid, sequence, user, text, order) \<Rightarrow>
      (case read_reply_column row of
        Inl e \<Rightarrow> Inl e
      | Inr reply \<Rightarrow>
      (case read_time_column row of
        Inl e \<Rightarrow> Inl e
      | Inr time \<Rightarrow>
      (case read_mention_ids (mention_query mid) of
        Inl e \<Rightarrow> Inl e
      | Inr mention_ids \<Rightarrow>
      (case post_payload_create
          \<lparr>in_message_id = mid, in_sender_id = sid, in_sender_sequence = sequence, in_sender_user_id = user,
           in_body = text, in_mentions = mention_ids, in_reply_to = reply, in_sender_time = time\<rparr> of
        Inl _ \<Rightarrow> Inl InvalidData
      | Inr post \<Rightarrow>
      (case read_origin_columns i post row (rs_previous_local s) of
        Inl e \<Rightarrow> Inl e
      | Inr (orig, previous_local) \<Rightarrow>
          Inr \<lparr>rs_entries = rs_entries s @ [\<lparr>entry_post = post, received_order = order, origin = orig\<rparr>],
               rs_seen_orders = insert order (rs_seen_orders s),
               rs_previous_local = previous_local\<rparr>))))))"

fun read_post_rows ::
  "stored_metadata \<Rightarrow> identity \<Rightarrow> (uuid \<Rightarrow> mention_run) \<Rightarrow> sql_row list \<Rightarrow> read_state
     \<Rightarrow> (read_state, history_error) result" where
  "read_post_rows md i mention_query [] s = Inr s"
| "read_post_rows md i mention_query (row # rows) s =
     (case read_post_row md i mention_query row s of
        Inl e \<Rightarrow> Inl e
      | Inr s' \<Rightarrow> read_post_rows md i mention_query rows s')"

text \<open>One row of the ledger, with the records read and the previous order.\<close>

definition read_seen_row ::
  "stored_metadata \<Rightarrow> sql_row \<Rightarrow> seen_message_record list \<times> u64 \<Rightarrow> (seen_message_record, history_error) result" where
  "read_seen_row md row = (\<lambda>(records, previous).
     if length records \<ge> kDefaultSeenMessageCapacity \<or> column row 1 \<noteq> SqlInteger 1 then Inl InvalidData
     else case column row 2 of
       SqlBlob encoded \<Rightarrow>
         (case read_uuid_column row 0 of
            None \<Rightarrow> Inl InvalidData
          | Some raw \<Rightarrow>
              if length encoded < kMinimumEncodedPostBytes \<or> length encoded > kMaximumEncodedPostBytes
              then Inl InvalidData
              else (case decode_uint64 row 3 of
                 None \<Rightarrow> Inl InvalidData
               | Some order \<Rightarrow>
                   if order = 0 \<or> order \<le> previous \<or> order > md_last_seen_order md then Inl InvalidData
                   else (case message_id_from_uuid raw of
                      Inl _ \<Rightarrow> Inl InvalidData
                    | Inr mid \<Rightarrow>
                        (case decode_post_bytes encoded of
                           Inl _ \<Rightarrow> Inl InvalidData
                         | Inr decoded \<Rightarrow>
                             if message_id decoded \<noteq> mid \<or> encode_post decoded \<noteq> Inr encoded then Inl InvalidData
                             else Inr \<lparr>seen_message_id = mid, seen_order = order, seen_encoded_post = encoded\<rparr>))))
     | _ \<Rightarrow> Inl InvalidData)"

fun read_seen_rows ::
  "stored_metadata \<Rightarrow> sql_row list \<Rightarrow> seen_message_record list \<Rightarrow> u64
     \<Rightarrow> (seen_message_record list, history_error) result" where
  "read_seen_rows md [] records previous = Inr records"
| "read_seen_rows md (row # rows) records previous =
     (case read_seen_row md row (records, previous) of
        Inl e \<Rightarrow> Inl e
      | Inr r \<Rightarrow> read_seen_rows md rows (records @ [r]) (seen_order r))"

text \<open>The answers to the queries of a read; \<open>rio_mentions_prepare\<close> is the code of a failed preparation.\<close>

record read_io =
  rio_posts :: sql_cursor
  rio_mentions_prepare :: "int option"
  rio_mentions :: "uuid \<Rightarrow> mention_run"
  rio_seen :: sql_cursor

definition snapshot_accepted ::
  "stored_metadata \<Rightarrow> identity \<Rightarrow> history_snapshot \<Rightarrow> (history_snapshot, history_error) result" where
  "snapshot_accepted md i snapshot =
     (if \<not> md_dedupe_initialized md then
        (if hs_seen_messages snapshot \<noteq> [] \<or> hs_last_seen_order snapshot \<noteq> 0 then Inl InvalidData
         else case reconcile_snapshot_dedupe snapshot of
           Inl _ \<Rightarrow> Inl InvalidData
         | Inr seeded \<Rightarrow> if validate_snapshot seeded i \<noteq> None then Inl InvalidData else Inr snapshot)
      else if validate_snapshot snapshot i \<noteq> None then Inl InvalidData
      else Inr snapshot)"

definition read_snapshot ::
  "read_io \<Rightarrow> stored_metadata \<Rightarrow> identity \<Rightarrow> (history_snapshot, history_error) result" where
  "read_snapshot io md i =
     (case rio_posts io of
        Inl code \<Rightarrow> Inl (error_for_result code ReadFailed)
      | Inr (post_rows, post_code) \<Rightarrow>
      (case rio_mentions_prepare io of
        Some code \<Rightarrow> Inl (error_for_result code ReadFailed)
      | None \<Rightarrow>
      (case read_post_rows md i (rio_mentions io) post_rows
          \<lparr>rs_entries = [], rs_seen_orders = {}, rs_previous_local = 0\<rparr> of
        Inl e \<Rightarrow> Inl e
      | Inr s \<Rightarrow>
      if post_code \<noteq> SQLITE_DONE then Inl (error_for_result post_code ReadFailed)
      else (case rio_seen io of
        Inl code \<Rightarrow> Inl (error_for_result code ReadFailed)
      | Inr (seen_rows, seen_code) \<Rightarrow>
      (case read_seen_rows md seen_rows [] 0 of
        Inl e \<Rightarrow> Inl e
      | Inr records \<Rightarrow>
      if seen_code \<noteq> SQLITE_DONE then Inl (error_for_result seen_code ReadFailed)
      else snapshot_accepted md i
        \<lparr>hs_entries = rs_entries s, hs_last_assigned_order = md_last_assigned_order md,
         hs_seen_messages = records, hs_last_seen_order = md_last_seen_order md\<rparr>)))))"

text \<open>The answers around a load: the begin, the preflight, the metadata, the commit, and the two of the write that
  seeds the ledger of a migrated database.\<close>

record load_io =
  lio_begin :: "int option"
  lio_preflight :: "history_error option"
  lio_meta :: sql_cursor
  lio_counts :: "(int \<times> int, int) result"
  lio_read :: read_io
  lio_commit :: "int option"
  lio_seed_preflight :: "history_error option"
  lio_seed_write :: write_io

definition load_snapshot ::
  "load_io \<Rightarrow> identity \<Rightarrow> history_db \<Rightarrow> (history_snapshot, history_error) result \<times> history_db" where
  "load_snapshot io i db =
     (case lio_begin io of
        Some code \<Rightarrow> (Inl (error_for_result code ReadFailed), db)
      | None \<Rightarrow>
      (case lio_preflight io of
        Some e \<Rightarrow> (Inl e, db)
      | None \<Rightarrow>
      (case load_metadata (lio_meta io) (lio_counts io) of
        Inl e \<Rightarrow> (Inl e, db)
      | Inr md \<Rightarrow>
      if \<not> md_initialized md then
        (case lio_commit io of
           Some code \<Rightarrow> (Inl (error_for_result code ReadFailed), db)
         | None \<Rightarrow> (Inr snapshot_empty, db))
      else if \<not> identity_matches md i then (Inl IdentityMismatch, db)
      else (case read_snapshot (lio_read io) md i of
        Inl e \<Rightarrow> (Inl e, db)
      | Inr snapshot \<Rightarrow>
      (case lio_commit io of
        Some code \<Rightarrow> (Inl (error_for_result code ReadFailed), db)
      | None \<Rightarrow>
      if md_dedupe_initialized md then (Inr snapshot, db)
      else (case reconcile_snapshot_dedupe snapshot of
        Inl e \<Rightarrow> (Inl e, db)
      | Inr migrated \<Rightarrow>
      (case save_snapshot (lio_seed_preflight io) (write_snapshot (lio_seed_write io)) migrated i db of
        (Some e, db') \<Rightarrow> (Inl e, db')
      | (None, db') \<Rightarrow> (Inr migrated, db'))))))))"

section \<open>What a query delivers\<close>

text \<open>SQLite's order on values: null, integers, texts and blobs, the last two byte by byte.\<close>

fun sql_le :: "sql_value \<Rightarrow> sql_value \<Rightarrow> bool" where
  "sql_le SqlNull _ \<longleftrightarrow> True"
| "sql_le (SqlInteger a) v \<longleftrightarrow> (case v of SqlNull \<Rightarrow> False | SqlInteger b \<Rightarrow> a \<le> b | _ \<Rightarrow> True)"
| "sql_le (SqlText a) v \<longleftrightarrow> (case v of SqlText b \<Rightarrow> a \<le> b | SqlBlob _ \<Rightarrow> True | _ \<Rightarrow> False)"
| "sql_le (SqlBlob a) v \<longleftrightarrow> (case v of SqlBlob b \<Rightarrow> a \<le> b | _ \<Rightarrow> False)"

text \<open>\<open>delivers P key cols rows out\<close>: \<open>out\<close> answers a query for the columns \<open>cols\<close> of the rows that satisfy \<open>P\<close>,
  ordered by the column \<open>key\<close>.\<close>

definition delivers :: "(sql_row \<Rightarrow> bool) \<Rightarrow> nat \<Rightarrow> nat list \<Rightarrow> sql_row list \<Rightarrow> sql_row list \<Rightarrow> bool" where
  "delivers P key cols rows out \<longleftrightarrow>
     (\<exists>full. mset full = mset (filter P rows) \<and>
        sorted_wrt (\<lambda>a b. sql_le (column a key) (column b key)) full \<and>
        out = map (\<lambda>r. map (column r) cols) full)"

lemma sorted_mset_unique:
  assumes "mset xs = mset ys" "sorted_wrt R xs" "sorted_wrt S ys" "\<And>a b. S a b \<Longrightarrow> \<not> R b a"
  shows "xs = ys"
  using assms(1-3)
proof (induction ys arbitrary: xs)
  case (Cons y ys)
  then obtain x xs' where xs: "xs = x # xs'" by (cases xs) auto
  have "x = y"
  proof (rule ccontr)
    assume "x \<noteq> y"
    then have "y \<in> set xs'" "x \<in> set ys"
      using Cons.prems(1) xs by (metis list.set_intros(1) set_ConsD set_mset_mset)+
    with Cons.prems(2,3) xs assms(4) show False by auto
  qed
  with Cons xs show ?case by auto
qed simp

lemma sql_le_antisym: "sql_le a b \<Longrightarrow> sql_le b a \<Longrightarrow> a = b"
  by (cases a; cases b) auto

lemma delivers_sorted:
  assumes "delivers P key cols rows out"
    "sorted_wrt (\<lambda>a b. sql_le (column a key) (column b key) \<and> column a key \<noteq> column b key) (filter P rows)"
  shows "out = map (\<lambda>r. map (column r) cols) (filter P rows)"
proof -
  obtain full where full: "mset full = mset (filter P rows)"
      "sorted_wrt (\<lambda>a b. sql_le (column a key) (column b key)) full"
      "out = map (\<lambda>r. map (column r) cols) full"
    using assms(1) by (auto simp: delivers_def)
  have "full = filter P rows"
    by (rule sorted_mset_unique [OF full(1,2) assms(2)]) (auto dest: sql_le_antisym)
  with full(3) show ?thesis by simp
qed

lemma encode_uint64_be: "encode_uint64 v = be_encode 8 v"
proof -
  have "encode_uint64_loop n v = be_encode n v" for n and v :: u64
    by (induction n arbitrary: v) (simp_all add: low_byte_mask)
  then show ?thesis by (simp add: encode_uint64_def)
qed

lemma lex_snoc:
  fixes x y :: "'a::linorder"
  assumes "length xs = length ys"
  shows "xs @ [x] < ys @ [y] \<longleftrightarrow> xs < ys \<or> (xs = ys \<and> x < y)"
  using assms by (induction xs ys rule: list_induct2) auto

lemma be_encode_less:
  fixes v w :: "'a::len word"
  assumes "unat v < 256 ^ n" "unat w < 256 ^ n" "v < w"
  shows "be_encode n v < be_encode n w"
  using assms
proof (induction n arbitrary: v w)
  case (Suc n)
  have d: "unat (drop_bit 8 v) = unat v div 256" "unat (drop_bit 8 w) = unat w div 256"
    by (simp_all add: unat_drop_bit_div)
  have b: "unat (ucast v :: byte) = unat v mod 256" "unat (ucast w :: byte) = unat w mod 256"
    by (simp_all add: unat_ucast_mod)
  have lt: "unat v < unat w" using Suc.prems(3) by (simp add: word_less_nat_alt)
  have s: "unat v div 256 < 256 ^ n" "unat w div 256 < 256 ^ n"
    using Suc.prems(1,2) by (simp_all add: less_mult_imp_div_less mult.commute)
  show ?case
  proof (cases "unat v div 256 = unat w div 256")
    case True
    then have "drop_bit 8 v = drop_bit 8 w" using d by (simp add: word_unat_eq_iff)
    moreover have "unat v mod 256 < unat w mod 256"
      using lt True div_mult_mod_eq [of "unat v" 256] div_mult_mod_eq [of "unat w" 256] by linarith
    ultimately show ?thesis by (simp add: lex_snoc word_less_nat_alt b)
  next
    case False
    then have "drop_bit 8 v < drop_bit 8 w"
      using lt d by (simp add: word_less_nat_alt)
    then have "be_encode n (drop_bit 8 v) < be_encode n (drop_bit 8 w)"
      using Suc.IH s d by simp
    then show ?thesis by (simp add: lex_snoc)
  qed
qed (simp add: word_less_nat_alt)

lemma bind_uint64_less: "v < w \<Longrightarrow> sql_le (bind_uint64 v) (bind_uint64 w) \<and> bind_uint64 v \<noteq> bind_uint64 w"
proof -
  assume "v < w"
  moreover have "unat x < 256 ^ 8" for x :: u64 using unat_u64_bound [of x] by simp
  ultimately have "encode_uint64 v < encode_uint64 w" unfolding encode_uint64_be by (intro be_encode_less)
  then show ?thesis by (auto simp: bind_uint64_def)
qed

lemma decode_bind_uint64 [simp]: "column row c = bind_uint64 v \<Longrightarrow> decode_uint64 row c = Some v"
proof -
  assume c: "column row c = bind_uint64 v"
  have "foldl (\<lambda>v index. push_bit 8 v OR ucast (b ! index)) 0 [0..<length b] = (be_decode b :: u64)" for b :: bytes
  proof -
    have "foldl (\<lambda>v index. push_bit 8 v OR ucast (b ! index)) 0 [0..<length b] =
        foldl (\<lambda>v x. push_bit 8 v OR ucast x) 0 (map ((!) b) [0..<length b])" by (simp add: foldl_map)
    then show ?thesis by (simp only: map_nth be_decode_def)
  qed
  from this [of "be_encode 8 v"] c show ?thesis
    by (simp add: decode_uint64_def bind_uint64_def encode_uint64_be be_decode_encode)
qed

section \<open>Reading back what was written\<close>

lemma encode_utf8_nonzero: "is_scalar cp \<Longrightarrow> cp \<noteq> 0 \<Longrightarrow> 0 \<notin> set (encode_utf8 cp)"
proof
  assume s: "is_scalar cp" "cp \<noteq> 0" and "0 \<in> set (encode_utf8 cp)"
  then have "0 \<in> set (map unat (encode_utf8 cp))" by force
  then have "0 \<in> set (utf8_digits (unat cp))" using encode_digits [OF s(1)] by simp
  then show False using s(2) by (auto simp: utf8_digits_def unat_eq_0 split: if_splits)
qed

lemma validate_text_no_nul: "validate_text v m uid = None \<Longrightarrow> 0 \<notin> set v"
proof -
  assume none: "validate_text v m uid = None"
  then obtain cps where cps: "list_all is_scalar cps" "v = concat (map encode_utf8 cps)"
    using validate_text_valid(3) is_valid_utf8_iff_encoded by blast
  have "text_verdict cps (length v) m uid = None" using none validate_text_encoded [OF cps(1), of m uid] cps(2) by simp
  then have "\<not> list_ex (forbidden_codepoint uid) cps" by (simp add: text_verdict_def split: if_splits)
  moreover have "forbidden_codepoint uid 0" by (simp add: forbidden_codepoint_def is_control_def)
  ultimately have "\<forall>cp \<in> set cps. cp \<noteq> 0" by (auto simp: list_ex_iff)
  then show ?thesis using cps encode_utf8_nonzero by (auto simp: list_all_iff)
qed

lemma read_post_text:
  "user_id_ok u \<Longrightarrow> column row c = SqlText (user_id_value u) \<Longrightarrow>
     read_text row c kMaxUserIdBytes = Some (user_id_value u)"
  "post_body_ok b \<Longrightarrow> column row c = SqlText (post_body_value b) \<Longrightarrow>
     read_text row c kMaxPostBodyBytes = Some (post_body_value b)"
  unfolding user_id_ok_def post_body_ok_def
  by (frule validate_text_no_nul, frule validate_text_valid(1), drule validate_text_valid(2), simp add: read_text_def)+

lemma read_bind_uuid: "uuid_wf u \<Longrightarrow> column row c = bind_uuid u \<Longrightarrow> read_uuid_column row c = Some u"
  by (simp add: read_uuid_column_def bind_uuid_def uuid_wf_def)

lemma column_int_small: "0 \<le> n \<Longrightarrow> n < 2 ^ 31 \<Longrightarrow> column_int n = n"
  by (simp add: column_int_def signed_take_bit_int_eq_self)

lemma local_state_roundtrip [simp]: "local_state_of_int (column_int (local_state_int st)) = Some st"
  by (cases st) (simp_all add: column_int_small)

lemma post_row_columns [simp]:
  "column (post_row e) 0 = bind_uuid (message_uuid (entry_id e))"
  "column (post_row e) 1 = bind_uuid (install_uuid (sender_id (entry_post e)))"
  "column (post_row e) 2 = bind_uint64 (sender_sequence (entry_post e))"
  "column (post_row e) (Suc 0) = bind_uuid (install_uuid (sender_id (entry_post e)))"
  "column (post_row e) 3 = SqlText (user_id_value (sender_user_id (entry_post e)))"
  "column (post_row e) 4 = SqlText (post_body_value (body (entry_post e)))"
  "column (post_row e) 5 = (case reply_to (entry_post e) of Some r \<Rightarrow> bind_uuid (message_uuid r) | None \<Rightarrow> SqlNull)"
  "column (post_row e) 6 = (case sender_time (entry_post e) of Some t \<Rightarrow> SqlInteger t | None \<Rightarrow> SqlNull)"
  "column (post_row e) 7 = bind_uint64 (received_order e)"
  "column (post_row e) 8 = (case origin e of LocalDelivery _ \<Rightarrow> SqlInteger 1 | ReceivedOrigin \<Rightarrow> SqlInteger 0)"
  "column (post_row e) 9 =
     (case origin e of LocalDelivery state \<Rightarrow> SqlInteger (local_state_int state) | ReceivedOrigin \<Rightarrow> SqlNull)"
  by (simp_all add: column_def post_row_def Let_def)

lemma read_mention_rows_back:
  assumes "length acc + length ms \<le> kMaxMentions" "list_all uuid_wf ms"
  shows "read_mention_rows (map (\<lambda>(n, m). [SqlInteger (int n), bind_uuid m]) (enumerate (length acc) ms)) acc =
    Inr (acc @ ms)"
  using assms
proof (induction ms arbitrary: acc)
  case (Cons m ms)
  from Cons.IH [of "acc @ [m]"] Cons.prems show ?case
    by (simp add: column_def read_uuid_column_def bind_uuid_def uuid_wf_def)
qed simp

lemma index_map_enumerate: "map (\<lambda>n. f n (xs ! n)) [0..<length xs] = map (\<lambda>(n, x). f n x) (enumerate 0 xs)"
  by (rule nth_equalityI) (simp_all add: nth_enumerate_eq)

text \<open>The mentions query of an entry delivers its mentions in order.\<close>

definition mentions_delivered :: "(uuid \<Rightarrow> mention_run) \<Rightarrow> timeline_entry \<Rightarrow> bool" where
  "mentions_delivered query e \<longleftrightarrow>
     query (message_uuid (entry_id e)) =
       \<lparr>run_bound = True,
        run_rows = map (\<lambda>index. [SqlInteger (int index), bind_uuid (install_uuid (mentions (entry_post e) ! index))])
          [0..<length (mentions (entry_post e))],
        run_code = SQLITE_DONE, run_reset = True\<rparr>"

lemma read_mentions_delivered:
  assumes "mentions_delivered query e" "post_ok (entry_post e)"
  shows "read_mention_ids (query (message_uuid (entry_id e))) = Inr (map install_uuid (mentions (entry_post e)))"
proof -
  let ?ms = "map install_uuid (mentions (entry_post e))"
  have small: "length [] + length ?ms \<le> kMaxMentions" "list_all uuid_wf ?ms"
    using assms(2) by (auto simp: post_ok_def uuid_ok_def list_all_iff)
  have "map (\<lambda>index. [SqlInteger (int index), bind_uuid (install_uuid (mentions (entry_post e) ! index))])
      [0..<length (mentions (entry_post e))] =
    map (\<lambda>index. [SqlInteger (int index), bind_uuid (?ms ! index)]) [0..<length ?ms]"
    by simp
  also have "\<dots> = map (\<lambda>(n, m). [SqlInteger (int n), bind_uuid m]) (enumerate (length []) ?ms)"
    using index_map_enumerate [of "\<lambda>n m. [SqlInteger (int n), bind_uuid m]" ?ms] by simp
  finally show ?thesis
    using assms(1) read_mention_rows_back [OF small] unfolding mentions_delivered_def read_mention_ids_def
    by (simp del: map_map)
qed

lemma read_post_row_back:
  assumes p: "post_ok (entry_post e)" and m: "mentions_delivered query e"
    and s: "length (rs_entries s) < kMaxTimelineEntries"
    and o: "received_order e \<noteq> 0" "received_order e \<notin> rs_seen_orders s" "received_order e \<le> md_last_assigned_order md"
    and l: "entry_is_local e \<Longrightarrow> sender_id (entry_post e) = identity_install_id i \<and>
      sender_sequence (entry_post e) \<le> last_issued_sender_sequence i \<and> rs_previous_local s < sender_sequence (entry_post e)"
  shows "read_post_row md i query (post_row e) s =
    Inr \<lparr>rs_entries = rs_entries s @ [e], rs_seen_orders = insert (received_order e) (rs_seen_orders s),
         rs_previous_local = (if entry_is_local e then sender_sequence (entry_post e) else rs_previous_local s)\<rparr>"
proof -
  have wf: "uuid_wf (message_uuid (entry_id e))" "uuid_wf (install_uuid (sender_id (entry_post e)))"
    using p by (auto simp: post_ok_def uuid_ok_def)
  have texts: "read_text (post_row e) 3 kMaxUserIdBytes = Some (user_id_value (sender_user_id (entry_post e)))"
    "read_text (post_row e) 4 kMaxPostBodyBytes = Some (post_body_value (body (entry_post e)))"
    using p by (auto simp: post_ok_def intro: read_post_text simp del: kMaxUserIdBytes_def kMaxPostBodyBytes_def)
  have fixed: "read_fixed_columns md (post_row e) (rs_seen_orders s) =
      Some (message_uuid (entry_id e), install_uuid (sender_id (entry_post e)), sender_sequence (entry_post e),
        user_id_value (sender_user_id (entry_post e)), post_body_value (body (entry_post e)), received_order e)"
    using p o wf by (simp add: read_fixed_columns_def post_ok_def read_bind_uuid texts not_less
        del: kMaxUserIdBytes_def kMaxPostBodyBytes_def)
  have reply: "read_reply_column (post_row e) = Inr (map_option message_uuid (reply_to (entry_post e)))"
    using p by (cases "reply_to (entry_post e)")
      (auto simp: read_reply_column_def post_ok_def uuid_ok_def read_uuid_column_def bind_uuid_def uuid_wf_def)
  have time: "read_time_column (post_row e) = Inr (sender_time (entry_post e))"
    by (cases "sender_time (entry_post e)") (auto simp: read_time_column_def)
  have orig: "read_origin_columns i (entry_post e) (post_row e) (rs_previous_local s) =
      Inr (origin e, if entry_is_local e then sender_sequence (entry_post e) else rs_previous_local s)"
    using l by (cases "origin e")
      (auto simp: read_origin_columns_def entry_is_local_def column_int_small not_less not_le simp del: local_state_of_int.simps)
  have create: "post_payload_create
      \<lparr>in_message_id = message_uuid (entry_id e), in_sender_id = install_uuid (sender_id (entry_post e)),
       in_sender_sequence = sender_sequence (entry_post e),
       in_sender_user_id = user_id_value (sender_user_id (entry_post e)),
       in_body = post_body_value (body (entry_post e)), in_mentions = map install_uuid (mentions (entry_post e)),
       in_reply_to = map_option message_uuid (reply_to (entry_post e)), in_sender_time = sender_time (entry_post e)\<rparr> =
      Inr (entry_post e)"
    using post_ok_create(1) [OF p] by (simp add: post_input_def)
  show ?thesis
    using s by (simp add: read_post_row_def fixed reply time read_mentions_delivered [OF m p] create orig)
qed

lemma read_post_rows_back:
  assumes "list_all (\<lambda>e. post_ok (entry_post e) \<and> mentions_delivered query e) es"
    "length (rs_entries s) + length es \<le> kMaxTimelineEntries"
    "rs_seen_orders s \<subseteq> {..previous}" "sorted_wrt (<) (previous # map received_order es)"
    "list_all (\<lambda>e. received_order e \<le> md_last_assigned_order md) es"
    "list_all (\<lambda>e. sender_id (entry_post e) = identity_install_id i \<and>
       sender_sequence (entry_post e) \<le> last_issued_sender_sequence i) (filter entry_is_local es)"
    "sorted_wrt (<) (rs_previous_local s # map (\<lambda>e. sender_sequence (entry_post e)) (filter entry_is_local es))"
  shows "\<exists>s'. read_post_rows md i query (map post_row es) s = Inr s' \<and> rs_entries s' = rs_entries s @ es"
  using assms
proof (induction es arbitrary: s previous)
  case (Cons e es)
  let ?s = "\<lparr>rs_entries = rs_entries s @ [e], rs_seen_orders = insert (received_order e) (rs_seen_orders s),
         rs_previous_local = (if entry_is_local e then sender_sequence (entry_post e) else rs_previous_local s)\<rparr>"
  have row: "read_post_row md i query (post_row e) s = Inr ?s"
    by (rule read_post_row_back) (use Cons.prems in auto)
  have "\<exists>s'. read_post_rows md i query (map post_row es) ?s = Inr s' \<and> rs_entries s' = rs_entries ?s @ es"
    by (rule Cons.IH [of ?s "received_order e"]) (use Cons.prems in \<open>auto split: if_splits\<close>)
  then show ?case by (simp add: row)
qed simp

lemma seen_row_columns [simp]:
  "column (seen_row r) 0 = bind_uuid (message_uuid (seen_message_id r))"
  "column (seen_row r) (Suc 0) = SqlInteger 1"
  "column (seen_row r) 2 = SqlBlob (seen_encoded_post r)"
  "column (seen_row r) 3 = bind_uint64 (seen_order r)"
  by (simp_all add: column_def seen_row_def)

lemma read_seen_row_back:
  assumes "record_canonical r" "length records < kDefaultSeenMessageCapacity" "previous < seen_order r"
    "seen_order r \<le> md_last_seen_order md"
  shows "read_seen_row md (seen_row r) (records, previous) = Inr r"
proof -
  obtain p where p: "post_ok p" "seen_message_id r = message_id p" "encode_post p = Inr (seen_encoded_post r)"
    using assms(1) by (auto simp: record_canonical_def)
  have bytes: "seen_encoded_post r = wire_layout (post_input p)" using encode_post_layout [OF p(1)] p(3) by simp
  have size: "46 \<le> length (seen_encoded_post r)" "length (seen_encoded_post r) \<le> 316"
    unfolding bytes using post_layout_size [OF p(1)] by auto
  have decode: "decode_post_bytes (seen_encoded_post r) = Inr p"
    unfolding bytes decode_post_bytes_def by (rule decode_post_layout [OF p(1)])
  have id: "read_uuid_column (seen_row r) 0 = Some (message_uuid (message_id p))" "uuid_is_v4 (message_uuid (message_id p))"
    using p by (auto simp: post_ok_def uuid_ok_def intro: read_bind_uuid)
  have "seen_order r \<noteq> 0" using assms(3) by auto
  then show ?thesis using assms size decode id p
    by (simp add: read_seen_row_def message_id_from_uuid_def not_le not_less)
qed

lemma read_seen_rows_back:
  assumes "list_all record_canonical rs" "length records + length rs \<le> kDefaultSeenMessageCapacity"
    "sorted_wrt (<) (previous # map seen_order rs)" "list_all (\<lambda>r. seen_order r \<le> md_last_seen_order md) rs"
  shows "read_seen_rows md (map seen_row rs) records previous = Inr (records @ rs)"
  using assms
proof (induction rs arbitrary: records previous)
  case (Cons r rs)
  have row: "read_seen_row md (seen_row r) (records, previous) = Inr r"
    by (rule read_seen_row_back) (use Cons.prems in auto)
  have "read_seen_rows md (map seen_row rs) (records @ [r]) (seen_order r) = Inr ((records @ [r]) @ rs)"
    by (rule Cons.IH) (use Cons.prems in auto)
  then show ?case by (simp add: row)
qed simp

text \<open>The metadata of a written snapshot.\<close>

definition written_metadata :: "history_snapshot \<Rightarrow> identity \<Rightarrow> stored_metadata" where
  "written_metadata s i =
     \<lparr>md_initialized = True, md_dedupe_initialized = True, md_install_id = install_uuid (identity_install_id i),
      md_last_assigned_order = hs_last_assigned_order s, md_last_seen_order = hs_last_seen_order s\<rparr>"

definition sorted_meta_rows :: "history_snapshot \<Rightarrow> identity \<Rightarrow> sql_row list" where
  "sorted_meta_rows s i = [meta_rows s i ! 3, meta_rows s i ! 0, meta_rows s i ! 1, meta_rows s i ! 2]"

lemma ascii_keys:
  "ascii ''dedupe_initialized'' < ascii ''install_id''" "ascii ''install_id'' < ascii ''last_assigned_order''"
  "ascii ''last_assigned_order'' < ascii ''last_seen_order''" "ascii ''dedupe_initialized'' \<noteq> []"
  by code_simp+

lemma meta_delivered:
  assumes "delivers (\<lambda>_. True) 0 [0, 1] (meta_rows s i) out"
  shows "out = sorted_meta_rows s i"
proof -
  have perm: "mset (meta_rows s i) = mset (sorted_meta_rows s i)"
    by (simp add: meta_rows_def sorted_meta_rows_def)
  have "delivers (\<lambda>_. True) 0 [0, 1] (sorted_meta_rows s i) out"
    using assms perm by (simp add: delivers_def)
  moreover have "sorted_wrt (\<lambda>a b. sql_le (column a 0) (column b 0) \<and> column a 0 \<noteq> column b 0) (sorted_meta_rows s i)"
    using ascii_keys by (auto simp: sorted_meta_rows_def meta_rows_def column_def)
  ultimately show ?thesis
    by (auto dest!: delivers_sorted simp: sorted_meta_rows_def meta_rows_def column_def)
qed

lemma ascii_keys_nonempty:
  "ascii ''install_id'' \<noteq> []" "ascii ''last_assigned_order'' \<noteq> []" "ascii ''last_seen_order'' \<noteq> []"
  by (simp_all add: ascii_def)

lemma ascii_keys_neq:
  "ascii ''install_id'' \<noteq> ascii ''dedupe_initialized''"
  "ascii ''last_assigned_order'' \<noteq> ascii ''dedupe_initialized''" "ascii ''last_assigned_order'' \<noteq> ascii ''install_id''"
  "ascii ''last_seen_order'' \<noteq> ascii ''dedupe_initialized''" "ascii ''last_seen_order'' \<noteq> ascii ''install_id''"
  "ascii ''last_seen_order'' \<noteq> ascii ''last_assigned_order''"
  using ascii_keys by (auto dest: less_trans)

lemma load_metadata_back:
  assumes "uuid_wf (install_uuid (identity_install_id i))"
  shows "load_metadata (Inr (sorted_meta_rows s i, SQLITE_DONE)) counts = Inr (written_metadata s i)"
proof -
  have "decode_uint64 [k, bind_uint64 v] (Suc 0) = Some v" for k v
    by (rule decode_bind_uint64) (simp add: column_def)
  moreover have "\<exists>b. bind_uint64 v = SqlBlob b" for v by (simp add: bind_uint64_def)
  ultimately show ?thesis
    using assms ascii_keys_neq ascii_keys_nonempty ascii_keys(4)
    by (simp add: load_metadata_def sorted_meta_rows_def meta_rows_def meta_row_def meta_value_def column_def
        written_metadata_def metadata_empty_def uuid_wf_def bind_uint64_def)
qed

text \<open>The answers of a healthy database holding the tables \<open>db\<close>.\<close>

definition cursor_delivers :: "nat \<Rightarrow> nat list \<Rightarrow> sql_row list \<Rightarrow> sql_cursor \<Rightarrow> bool" where
  "cursor_delivers key cols rows cursor \<longleftrightarrow>
     (\<exists>out. cursor = Inr (out, SQLITE_DONE) \<and> delivers (\<lambda>_. True) key cols rows out)"

definition mention_query_delivers :: "sql_row list \<Rightarrow> (uuid \<Rightarrow> mention_run) \<Rightarrow> bool" where
  "mention_query_delivers rows query \<longleftrightarrow>
     (\<forall>mid. run_bound (query mid) \<and> run_code (query mid) = SQLITE_DONE \<and> run_reset (query mid) \<and>
        delivers (\<lambda>r. column r 0 = bind_uuid mid) 1 [1, 2] rows (run_rows (query mid)))"

definition load_answers :: "load_io \<Rightarrow> history_db \<Rightarrow> bool" where
  "load_answers io db \<longleftrightarrow>
     lio_begin io = None \<and> lio_preflight io = None \<and> lio_commit io = None \<and>
     cursor_delivers 0 [0, 1] (db_meta db) (lio_meta io) \<and>
     rio_mentions_prepare (lio_read io) = None \<and>
     cursor_delivers 7 [0..<10] (db_posts db) (rio_posts (lio_read io)) \<and>
     mention_query_delivers (db_mentions db) (rio_mentions (lio_read io)) \<and>
     cursor_delivers 3 [0..<4] (db_seen_messages db) (rio_seen (lio_read io))"

lemma map_column_upt: "length r = n \<Longrightarrow> map (column r) [0..<n] = r"
  by (rule nth_equalityI) (simp_all add: column_def)

lemma posts_delivered:
  assumes "cursor_delivers 7 [0..<10] (map post_row es) cursor" "sorted_wrt (<) (map received_order es)"
  shows "cursor = Inr (map post_row es, SQLITE_DONE)"
proof -
  obtain out where out: "cursor = Inr (out, SQLITE_DONE)" "delivers (\<lambda>_. True) 7 [0..<10] (map post_row es) out"
    using assms(1) by (auto simp: cursor_delivers_def)
  have "sorted_wrt (\<lambda>a b. sql_le (column a 7) (column b 7) \<and> column a 7 \<noteq> column b 7) (map post_row es)"
    using assms(2) unfolding sorted_wrt_map
    by (rule sorted_wrt_mono_rel [rotated]) (use bind_uint64_less in auto)
  with delivers_sorted [OF out(2)] have "out = map (\<lambda>r. map (column r) [0..<10]) (map post_row es)" by simp
  also have "\<dots> = map post_row es" by (simp add: map_column_upt post_row_def Let_def del: upt.simps)
  finally show ?thesis using out(1) by simp
qed

lemma seen_delivered:
  assumes "cursor_delivers 3 [0..<4] (map seen_row rs) cursor" "sorted_wrt (<) (map seen_order rs)"
  shows "cursor = Inr (map seen_row rs, SQLITE_DONE)"
proof -
  obtain out where out: "cursor = Inr (out, SQLITE_DONE)" "delivers (\<lambda>_. True) 3 [0..<4] (map seen_row rs) out"
    using assms(1) by (auto simp: cursor_delivers_def)
  have "sorted_wrt (\<lambda>a b. sql_le (column a 3) (column b 3) \<and> column a 3 \<noteq> column b 3) (map seen_row rs)"
    using assms(2) unfolding sorted_wrt_map
    by (rule sorted_wrt_mono_rel [rotated]) (use bind_uint64_less in auto)
  with delivers_sorted [OF out(2)] have "out = map (\<lambda>r. map (column r) [0..<4]) (map seen_row rs)" by simp
  also have "\<dots> = map seen_row rs" by (simp add: map_column_upt seen_row_def del: upt.simps)
  finally show ?thesis using out(1) by simp
qed

lemma message_uuid_eq: "message_uuid a = message_uuid b \<longleftrightarrow> a = b"
  by (auto intro: message_id.expand)

lemma filter_mention_rows:
  assumes "distinct (map entry_id es)" "e \<in> set es"
  shows "filter (\<lambda>r. column r 0 = bind_uuid (message_uuid (entry_id e))) (concat (map mention_rows es)) = mention_rows e"
  using assms
proof (induction es)
  case (Cons a es)
  let ?P = "\<lambda>r. column r 0 = bind_uuid (message_uuid (entry_id e))"
  have own: "filter ?P (mention_rows b) = (if entry_id b = entry_id e then mention_rows b else [])" for b
    by (auto simp: mention_rows_def column_def bind_uuid_def filter_map comp_def message_uuid_eq)
  have none: "filter ?P (concat (map mention_rows bs)) = []" if "entry_id e \<notin> entry_id ` set bs" for bs
    using that by (induction bs) (auto simp: own)
  show ?case
  proof (cases "e = a")
    case True
    then show ?thesis using Cons.prems none [of es] own [of a] by simp
  next
    case False
    then have "e \<in> set es" "entry_id a \<noteq> entry_id e" using Cons.prems by auto
    with Cons show ?thesis by (simp add: own)
  qed
qed simp

lemma mentions_query_delivered:
  assumes "mention_query_delivers (concat (map mention_rows es)) query" "distinct (map entry_id es)" "e \<in> set es"
  shows "mentions_delivered query e"
proof -
  let ?run = "query (message_uuid (entry_id e))"
  have run: "run_bound ?run" "run_code ?run = SQLITE_DONE" "run_reset ?run"
    and d: "delivers (\<lambda>r. column r 0 = bind_uuid (message_uuid (entry_id e))) 1 [1, 2]
      (concat (map mention_rows es)) (run_rows ?run)"
    using assms(1) unfolding mention_query_delivers_def by blast+
  note rows = filter_mention_rows [OF assms(2,3)]
  have "sorted_wrt (\<lambda>a b. sql_le (column a 1) (column b 1) \<and> column a 1 \<noteq> column b 1) (mention_rows e)"
    unfolding mention_rows_def sorted_wrt_map
    by (rule sorted_wrt_mono_rel [OF _ sorted_wrt_upt]) (auto simp: column_def)
  then have "run_rows ?run = map (\<lambda>r. map (column r) [1, 2]) (mention_rows e)"
    using delivers_sorted [OF d] unfolding rows by simp
  also have "\<dots> = map (\<lambda>index. [SqlInteger (int index), bind_uuid (install_uuid (mentions (entry_post e) ! index))])
      [0..<length (mentions (entry_post e))]"
    by (simp add: mention_rows_def column_def)
  finally show ?thesis using run by (cases ?run) (simp add: mentions_delivered_def)
qed

lemma snapshot_okD:
  assumes "snapshot_ok s i"
  shows "length (hs_entries s) \<le> kMaxTimelineEntries" "sorted_wrt (<) (0 # map received_order (hs_entries s))"
    "list_all (\<lambda>e. received_order e \<le> hs_last_assigned_order s) (hs_entries s)" "distinct (map entry_id (hs_entries s))"
    "own_posts_ok i (hs_entries s)"
    "dedupe_ok \<lparr>dd_capacity = kDefaultSeenMessageCapacity, last_seen_order = hs_last_seen_order s,
       dd_records = hs_seen_messages s\<rparr>"
  using assms by (auto simp: snapshot_ok_def dedupe_restore_Inr simp del: kDefaultSeenMessageCapacity_def)

lemma dedupe_ok_orders: "dedupe_ok w \<Longrightarrow> list_all (\<lambda>r. seen_order r \<le> last_seen_order w) (dd_records w)"
  using sorted_last_max [of seen_order "dd_records w"] by (auto simp: dedupe_ok_def list_all_iff split: if_splits)

lemma own_posts_ok_mono:
  "own_posts_ok i es \<Longrightarrow> identity_install_id j = identity_install_id i \<Longrightarrow>
     last_issued_sender_sequence i \<le> last_issued_sender_sequence j \<Longrightarrow> own_posts_ok j es"
  by (auto simp: own_posts_ok_def list_all_iff)

lemma snapshot_ok_mono:
  "snapshot_ok s i \<Longrightarrow> identity_install_id j = identity_install_id i \<Longrightarrow>
     last_issued_sender_sequence i \<le> last_issued_sender_sequence j \<Longrightarrow> snapshot_ok s j"
  using own_posts_ok_mono by (auto simp: snapshot_ok_def)

lemma snapshot_eta:
  "\<lparr>hs_entries = hs_entries s, hs_last_assigned_order = hs_last_assigned_order s,
    hs_seen_messages = hs_seen_messages s, hs_last_seen_order = hs_last_seen_order s\<rparr> = s"
  by simp

lemma written_metadata_simps [simp]:
  "md_initialized (written_metadata s i)" "md_dedupe_initialized (written_metadata s i)"
  "md_install_id (written_metadata s i) = install_uuid (identity_install_id i)"
  "md_last_assigned_order (written_metadata s i) = hs_last_assigned_order s"
  "md_last_seen_order (written_metadata s i) = hs_last_seen_order s"
  by (simp_all add: written_metadata_def)

lemma load_written:
  assumes ok: "snapshot_ok s i" and posts: "list_all (\<lambda>e. post_ok (entry_post e)) (hs_entries s)"
    and wf: "uuid_wf (install_uuid (identity_install_id i))"
    and ans: "load_answers io (snapshot_tables s i)"
    and j: "identity_install_id j = identity_install_id i" "last_issued_sender_sequence i \<le> last_issued_sender_sequence j"
  shows "load_snapshot io j db = (Inr s, db)"
proof -
  note okj = snapshot_ok_mono [OF ok j] and d = snapshot_okD [OF ok]
  let ?md = "written_metadata s i"
  have meta: "load_metadata (lio_meta io) (lio_counts io) = Inr ?md"
    using ans load_metadata_back [OF wf]
    by (auto simp: load_answers_def cursor_delivers_def snapshot_tables_def dest!: meta_delivered [simplified])
  have pr: "rio_posts (lio_read io) = Inr (map post_row (hs_entries s), SQLITE_DONE)"
    by (rule posts_delivered) (use ans d(2) in \<open>auto simp: load_answers_def snapshot_tables_def\<close>)
  have sr: "rio_seen (lio_read io) = Inr (map seen_row (hs_seen_messages s), SQLITE_DONE)"
    by (rule seen_delivered) (use ans d(6) in \<open>auto simp: load_answers_def snapshot_tables_def dedupe_ok_def\<close>)
  have "list_all (\<lambda>e. post_ok (entry_post e) \<and> mentions_delivered (rio_mentions (lio_read io)) e) (hs_entries s)"
    using posts mentions_query_delivered [OF _ d(4)] ans
    by (auto simp: load_answers_def snapshot_tables_def list_all_iff)
  then obtain s' where s': "read_post_rows ?md j (rio_mentions (lio_read io)) (map post_row (hs_entries s))
      \<lparr>rs_entries = [], rs_seen_orders = {}, rs_previous_local = 0\<rparr> = Inr s'" "rs_entries s' = hs_entries s"
    using read_post_rows_back [of "rio_mentions (lio_read io)" "hs_entries s"
        "\<lparr>rs_entries = [], rs_seen_orders = {}, rs_previous_local = 0\<rparr>" 0 ?md j] d snapshot_okD(5) [OF okj]
    by (auto simp: own_posts_ok_def)
  have seen: "read_seen_rows ?md (map seen_row (hs_seen_messages s)) [] 0 = Inr (hs_seen_messages s)"
    using read_seen_rows_back [of "hs_seen_messages s" "[]" 0 ?md] d(6) dedupe_ok_orders [OF d(6)]
    by (auto simp: dedupe_ok_def)
  have "read_snapshot (lio_read io) ?md j = Inr s"
    using ans validate_snapshot_None [of s j] okj
    by (simp add: read_snapshot_def pr sr s' seen load_answers_def snapshot_accepted_def snapshot_eta)
  then show ?thesis
    using ans meta j by (simp add: load_snapshot_def load_answers_def identity_matches_def)
qed

section \<open>Saving\<close>

lemma reconcile_entries_remembered:
  "list_all (remembered w) es \<Longrightarrow> reconcile_entries prot es w = Inr w"
  by (induction es) (auto simp: remembered_def)

lemma reconcile_fields:
  assumes "reconcile_snapshot_dedupe s = Inr s'"
  shows "hs_entries s' = hs_entries s" "hs_last_assigned_order s' = hs_last_assigned_order s"
  using assms by (auto simp: reconcile_snapshot_dedupe_def split: sum.splits)

lemma reconcile_ok_same:
  assumes "snapshot_ok s i"
  shows "reconcile_snapshot_dedupe s = Inr s"
proof -
  obtain w where w: "dedupe_restore kDefaultSeenMessageCapacity (hs_last_seen_order s) (hs_seen_messages s) = Inr w"
      "list_all (remembered w) (hs_entries s)"
    using assms by (auto simp: snapshot_ok_def)
  then have "w = \<lparr>dd_capacity = kDefaultSeenMessageCapacity, last_seen_order = hs_last_seen_order s,
      dd_records = hs_seen_messages s\<rparr>" using dedupe_restore_Inr by blast
  with w show ?thesis by (simp add: reconcile_snapshot_dedupe_def reconcile_entries_remembered)
qed

text \<open>The statements of a transaction change its own tables only, and all of them together make the tables of the snapshot.\<close>

lemma run_operation_work:
  assumes "run_operation a operation c = (r, c')" "cn_work c = Some w"
  shows "cn_stored c' = cn_stored c" "\<exists>w'. cn_work c' = Some w'" "r = None \<Longrightarrow> cn_work c' = Some (operation_effect operation w)"
  using assms by (auto simp: run_operation_def sql_change_def split: sql_answer.splits if_splits)

lemma run_operations_work:
  assumes "run_operations answers n operations c = (r, c')" "cn_work c = Some w"
  shows "cn_stored c' = cn_stored c \<and> (\<exists>w'. cn_work c' = Some w') \<and> (r = None \<longrightarrow> cn_work c' = Some (fold operation_effect operations w))"
  using assms
proof (induction operations arbitrary: n c w)
  case (Cons operation operations)
  obtain r1 c1 where 1: "run_operation (answers n) operation c = (r1, c1)" by fastforce
  note w1 = run_operation_work [OF 1 Cons.prems(2)]
  show ?case
  proof (cases r1)
    case None
    then have "run_operations answers (Suc n) operations c1 = (r, c')" using Cons.prems(1) 1 by simp
    from Cons.IH [OF this w1(3) [OF None]] show ?thesis using w1(1) by simp
  next
    case (Some e)
    then show ?thesis using Cons.prems(1) 1 w1(1,2) by auto
  qed
qed simp

lemma fold_inserts:
  "fold operation_effect (map InsertMeta rows) db = db\<lparr>db_meta := db_meta db @ rows\<rparr>"
  "fold operation_effect (map InsertMention rows) db = db\<lparr>db_mentions := db_mentions db @ rows\<rparr>"
  "fold operation_effect (map (InsertSeenMessage \<circ> seen_row) rs) db =
     db\<lparr>db_seen_messages := db_seen_messages db @ map seen_row rs\<rparr>"
proof -
  show "fold operation_effect (map InsertMeta rows) db = db\<lparr>db_meta := db_meta db @ rows\<rparr>" by (induction rows arbitrary: db) simp_all
  show "fold operation_effect (map InsertMention rows) db = db\<lparr>db_mentions := db_mentions db @ rows\<rparr>" by (induction rows arbitrary: db) simp_all
  show "fold operation_effect (map (InsertSeenMessage \<circ> seen_row) rs) db =
      db\<lparr>db_seen_messages := db_seen_messages db @ map seen_row rs\<rparr>" by (induction rs arbitrary: db) simp_all
qed

lemma fold_entries:
  "fold operation_effect (concat (map entry_operations es)) db =
     db\<lparr>db_posts := db_posts db @ map post_row es, db_mentions := db_mentions db @ concat (map mention_rows es)\<rparr>"
  by (induction es arbitrary: db) (simp_all add: entry_operations_def fold_inserts)

lemma write_operations_effect: "fold operation_effect (write_operations s i) db = snapshot_tables s i"
  by (simp add: write_operations_def fold_inserts fold_entries snapshot_tables_def)

lemma run_operations_done: "run_operations (\<lambda>_. StmtDone) n operations c = (None, fold (\<lambda>op. sql_change (operation_effect op)) operations c)"
  by (induction operations arbitrary: n c) (simp_all add: run_operation_def)

lemma write_in_transaction_work:
  assumes "write_in_transaction io s i (transaction_begin (wio_begin io) \<lparr>cn_stored = db, cn_work = None\<rparr>) = (r, tx)"
  shows "if r = None then \<not> tx_active tx \<and> tx_database tx = \<lparr>cn_stored = snapshot_tables s i, cn_work = None\<rparr>
    else cn_stored (tx_database tx) = db \<and> (tx_active tx \<or> cn_work (tx_database tx) = None)"
proof (cases "wio_begin io \<noteq> None \<or> write_checks io s i \<noteq> None")
  case True
  then show ?thesis using assms by (auto simp: write_in_transaction_def transaction_begin_def split: option.splits)
next
  case False
  obtain r1 c1 where run: "run_operations (wio_statements io) 0 (write_operations s i) \<lparr>cn_stored = db, cn_work = Some db\<rparr> = (r1, c1)"
    by fastforce
  have w: "cn_stored c1 = db" "r1 = None \<Longrightarrow> cn_work c1 = Some (snapshot_tables s i)"
    using run_operations_work [OF run] by (simp_all add: write_operations_effect)
  show ?thesis
    using assms False run w
    by (auto simp: write_in_transaction_def transaction_begin_def transaction_commit_def connection_tables_def
        split: option.splits)
qed

lemma write_snapshot_atomic:
  assumes "write_snapshot io s i db = (r, db')"
  shows "db' = (if r = None then snapshot_tables s i else db)"
proof -
  obtain tx where tx: "write_in_transaction io s i (transaction_begin (wio_begin io) \<lparr>cn_stored = db, cn_work = None\<rparr>) = (r, tx)"
    "db' = connection_tables (transaction_end tx)"
    using assms by (auto simp: write_snapshot_def split: prod.splits)
  then show ?thesis using write_in_transaction_work [OF tx(1)]
    by (auto simp: transaction_end_def connection_tables_def split: if_splits)
qed

lemma write_snapshot_checked:
  assumes "write_snapshot io s i db = (None, db')"
  shows "write_checks io s i = None"
  using assms by (auto simp: write_snapshot_def write_in_transaction_def split: prod.splits option.splits if_splits)

lemma write_snapshot_healthy:
  assumes "wio_begin io = None" "write_checks io s i = None" "wio_statements io = (\<lambda>_. StmtDone)" "wio_commit io = None"
  shows "write_snapshot io s i db = (None, snapshot_tables s i)"
proof -
  obtain r db' where w: "write_snapshot io s i db = (r, db')" by fastforce
  then have "r = None" using assms
    by (auto simp: write_snapshot_def write_in_transaction_def transaction_begin_def transaction_commit_def run_operations_done)
  then show ?thesis using w write_snapshot_atomic [OF w] by simp
qed

lemma save_snapshot_outcome:
  assumes "save_snapshot preflight (write_snapshot io) s i db = (r, db')"
  shows "r \<noteq> None \<Longrightarrow> db' = db"
    "r = None \<Longrightarrow> \<exists>s'. reconcile_snapshot_dedupe s = Inr s' \<and> snapshot_ok s' i \<and> db' = snapshot_tables s' i"
  using assms validate_snapshot_None
  by (auto simp: save_snapshot_def split: sum.splits option.splits dest: write_snapshot_atomic)

lemma ledger_loop_same:
  assumes "ledger_loop (map (\<lambda>r. map (column (seen_row r)) [0, 2, 3]) rs) expected = Some []"
  shows "map (\<lambda>r. (message_uuid (seen_message_id r), seen_order r, seen_encoded_post r)) expected =
    map (\<lambda>r. (message_uuid (seen_message_id r), seen_order r, seen_encoded_post r)) rs"
  using assms
proof (induction rs arbitrary: expected)
  case (Cons r rs)
  have c: "column [a, b, c] 0 = a" "column [a, b, c] 1 = b" "column [a, b, c] (Suc 0) = b" "column [a, b, c] 2 = c" for a b c
    by (simp_all add: column_def)
  have d: "decode_uint64 [a, b, bind_uint64 v] 2 = Some v" for a b v by (rule decode_bind_uint64) (simp add: c)
  show ?case
  proof (cases expected)
    case (Cons e es)
    then have "seen_order r = seen_order e" "message_uuid (seen_message_id e) = message_uuid (seen_message_id r)"
      "seen_encoded_post e = seen_encoded_post r" 
      "ledger_loop (map (\<lambda>r. map (column (seen_row r)) [0, 2, 3]) rs) es = Some []"
      using Cons.prems by (auto simp: c d bind_uuid_def split: if_splits)
    with Cons.IH Cons show ?thesis by simp
  qed (use Cons.prems in simp)
qed simp

text \<open>The answers a write gets from a healthy database holding the tables \<open>db\<close>.\<close>

definition write_answers :: "write_io \<Rightarrow> history_db \<Rightarrow> bool" where
  "write_answers io db \<longleftrightarrow>
     cursor_delivers 0 [0, 1] (db_meta db) (wio_meta io) \<and>
     cursor_delivers 3 [0, 2, 3] (db_seen_messages db) (wio_ledger io)"

lemma ledger_delivered:
  assumes "cursor_delivers 3 [0, 2, 3] (map seen_row rs) cursor" "sorted_wrt (<) (map seen_order rs)"
  shows "cursor = Inr (map (\<lambda>r. map (column (seen_row r)) [0, 2, 3]) rs, SQLITE_DONE)"
proof -
  obtain out where out: "cursor = Inr (out, SQLITE_DONE)" "delivers (\<lambda>_. True) 3 [0, 2, 3] (map seen_row rs) out"
    using assms(1) by (auto simp: cursor_delivers_def)
  have "sorted_wrt (\<lambda>a b. sql_le (column a 3) (column b 3) \<and> column a 3 \<noteq> column b 3) (map seen_row rs)"
    using assms(2) unfolding sorted_wrt_map
    by (rule sorted_wrt_mono_rel [rotated]) (use bind_uint64_less in auto)
  with delivers_sorted [OF out(2)] have "out = map (\<lambda>r. map (column r) [0, 2, 3]) (map seen_row rs)" by simp
  then show ?thesis using out(1) by (simp add: comp_def)
qed

lemma seen_records_eq:
  fixes xs ys :: "seen_message_record list"
  assumes "map (\<lambda>r. (message_uuid (seen_message_id r), seen_order r, seen_encoded_post r)) xs =
   map (\<lambda>r. (message_uuid (seen_message_id r), seen_order r, seen_encoded_post r)) ys"
  shows "xs = ys"
  using assms by (rule map_injective) (auto simp: inj_on_def message_uuid_eq)

lemma write_advances:
  assumes w: "write_snapshot io s i (snapshot_tables s0 i0) = (None, db')"
    and ans: "write_answers io (snapshot_tables s0 i0)"
    and ok: "snapshot_ok s0 i0" and wf: "uuid_wf (install_uuid (identity_install_id i0))"
  shows "identity_install_id i = identity_install_id i0"
    "hs_last_assigned_order s0 \<le> hs_last_assigned_order s" "hs_last_seen_order s0 \<le> hs_last_seen_order s"
    "hs_last_seen_order s = hs_last_seen_order s0 \<Longrightarrow> hs_seen_messages s = hs_seen_messages s0"
proof -
  have c: "write_checks io s i = None" by (rule write_snapshot_checked [OF w])
  have meta: "load_metadata (wio_meta io) (wio_counts io) = Inr (written_metadata s0 i0)"
    using ans load_metadata_back [OF wf]
    by (auto simp: write_answers_def cursor_delivers_def snapshot_tables_def dest!: meta_delivered [simplified])
  have "sorted_wrt (<) (map seen_order (hs_seen_messages s0))"
    using snapshot_okD(6) [OF ok] by (simp add: dedupe_ok_def)
  with ans have led: "wio_ledger io = Inr (map (\<lambda>r. map (column (seen_row r)) [0, 2, 3]) (hs_seen_messages s0), SQLITE_DONE)"
    by (intro ledger_delivered) (auto simp: write_answers_def snapshot_tables_def)
  show "identity_install_id i = identity_install_id i0"
    using c meta by (auto simp: write_checks_def identity_matches_def install_id.expand
        split: option.splits if_splits)
  show "hs_last_assigned_order s0 \<le> hs_last_assigned_order s" "hs_last_seen_order s0 \<le> hs_last_seen_order s"
    using c meta by (auto simp: write_checks_def not_less split: option.splits if_splits)
  assume "hs_last_seen_order s = hs_last_seen_order s0"
  then have "ledger_matches_snapshot (wio_ledger io) s = Inr True"
    using c meta by (auto simp: write_checks_def split: option.splits if_splits sum.splits bool.splits)
  then have "ledger_loop (map (\<lambda>r. map (column (seen_row r)) [0, 2, 3]) (hs_seen_messages s0)) (hs_seen_messages s) = Some []"
    unfolding led by (auto simp: ledger_matches_snapshot_def split: option.splits)
  then show "hs_seen_messages s = hs_seen_messages s0" by (intro seen_records_eq ledger_loop_same)
qed

section \<open>A sample database\<close>

definition sample_entry :: timeline_entry where
  "sample_entry = \<lparr>entry_post = sample_post, received_order = 1, origin = ReceivedOrigin\<rparr>"

definition sample_snapshot :: history_snapshot where
  "sample_snapshot = \<lparr>hs_entries = [sample_entry], hs_last_assigned_order = 1, hs_seen_messages = [], hs_last_seen_order = 0\<rparr>"

definition sample_stored :: history_snapshot where
  "sample_stored = sample_snapshot\<lparr>hs_seen_messages :=
     [\<lparr>seen_message_id = message_id sample_post, seen_order = 1, seen_encoded_post = wire_layout (post_input sample_post)\<rparr>],
     hs_last_seen_order := 1\<rparr>"

definition sample_owner :: identity where
  "sample_owner = identity_restore (InstallId (sample_uuid 2)) (UserId [0x4d, 0x69]) 6"

definition empty_db :: history_db where
  "empty_db = \<lparr>db_meta = [], db_posts = [], db_mentions = [], db_seen_messages = []\<rparr>"

definition sample_write_io :: write_io where
  "sample_write_io = \<lparr>wio_begin = None, wio_meta = Inr ([], SQLITE_DONE), wio_counts = Inr (0, 0),
     wio_ledger = Inr ([], SQLITE_DONE), wio_statements = (\<lambda>_. StmtDone), wio_commit = None\<rparr>"

definition sample_load_io :: load_io where
  "sample_load_io =
     \<lparr>lio_begin = None, lio_preflight = None,
      lio_meta = Inr (sorted_meta_rows sample_stored sample_owner, SQLITE_DONE), lio_counts = Inr (1, 1),
      lio_read =
        \<lparr>rio_posts = Inr ([post_row sample_entry], SQLITE_DONE), rio_mentions_prepare = None,
         rio_mentions = (\<lambda>mid. \<lparr>run_bound = True,
           run_rows = map (\<lambda>r. map (column r) [1, 2]) (filter (\<lambda>r. column r 0 = bind_uuid mid) (mention_rows sample_entry)),
           run_code = SQLITE_DONE, run_reset = True\<rparr>),
         rio_seen = Inr (map seen_row (hs_seen_messages sample_stored), SQLITE_DONE)\<rparr>,
      lio_commit = None, lio_seed_preflight = None, lio_seed_write = sample_write_io\<rparr>"

lemma sample_reconcile: "reconcile_snapshot_dedupe sample_snapshot = Inr sample_stored"
proof -
  have r: "dedupe_restore kDefaultSeenMessageCapacity 0 [] =
      Inr \<lparr>dd_capacity = kDefaultSeenMessageCapacity, last_seen_order = 0, dd_records = []\<rparr>"
    by (simp add: dedupe_restore_def)
  have e: "encode_post sample_post = Inr (wire_layout (post_input sample_post))"
    by (rule encode_post_layout [OF sample_post_ok])
  show ?thesis using r e decode_post_layout [OF sample_post_ok]
    by (simp add: reconcile_snapshot_dedupe_def sample_snapshot_def sample_stored_def sample_entry_def
        dedupe_classify_def dedupe_remember_def dedupe_push_def)
qed

lemma sample_stored_ok: "snapshot_ok sample_stored sample_owner"
proof -
  let ?w = "\<lparr>dd_capacity = kDefaultSeenMessageCapacity, last_seen_order = 1, dd_records = hs_seen_messages sample_stored\<rparr>"
  have e: "encode_post sample_post = Inr (wire_layout (post_input sample_post))"
    by (rule encode_post_layout [OF sample_post_ok])
  then have "dedupe_ok ?w" using sample_post_ok
    by (auto simp: dedupe_ok_def sample_stored_def record_canonical_def)
  then have "dedupe_restore kDefaultSeenMessageCapacity (hs_last_seen_order sample_stored) (hs_seen_messages sample_stored) = Inr ?w"
    by (simp add: dedupe_restore_Inr sample_stored_def)
  moreover have "remembered ?w sample_entry"
    using e by (simp add: remembered_def sample_entry_def sample_stored_def dedupe_classify_def)
  ultimately show ?thesis
    by (simp add: snapshot_ok_def sample_stored_def sample_snapshot_def own_posts_ok_def sample_entry_def
        entry_is_local_def entry_is_queued_def)
qed

lemma sample_save:
  "save_snapshot None (write_snapshot sample_write_io) sample_snapshot sample_owner empty_db =
     (None, snapshot_tables sample_stored sample_owner)"
  using sample_reconcile sample_stored_ok validate_snapshot_None [of sample_stored sample_owner]
  by (simp add: save_snapshot_def write_snapshot_healthy write_checks_def sample_write_io_def load_metadata_def metadata_empty_def)

lemma delivers_given:
  "sorted_wrt (\<lambda>a b. sql_le (column a key) (column b key)) (filter P rows) \<Longrightarrow>
     delivers P key cols rows (map (\<lambda>r. map (column r) cols) (filter P rows))"
  unfolding delivers_def by (intro exI [of _ "filter P rows"]) simp

lemma sample_load_answers: "load_answers sample_load_io (snapshot_tables sample_stored sample_owner)"
proof -
  have "cursor_delivers 0 [0, 1] (db_meta (snapshot_tables sample_stored sample_owner)) (lio_meta sample_load_io)"
  proof -
    have "map (\<lambda>r. map (column r) [0, 1]) (sorted_meta_rows sample_stored sample_owner) = sorted_meta_rows sample_stored sample_owner"
      by (simp add: sorted_meta_rows_def meta_rows_def column_def)
    moreover have "sorted_wrt (\<lambda>a b. sql_le (column a 0) (column b 0)) (sorted_meta_rows sample_stored sample_owner)"
      using ascii_keys by (auto simp: sorted_meta_rows_def meta_rows_def column_def)
    moreover have "mset (sorted_meta_rows sample_stored sample_owner) = mset (meta_rows sample_stored sample_owner)"
      by (simp add: sorted_meta_rows_def meta_rows_def)
    ultimately have "delivers (\<lambda>_. True) 0 [0, 1] (meta_rows sample_stored sample_owner) (sorted_meta_rows sample_stored sample_owner)"
      unfolding delivers_def by (intro exI [of _ "sorted_meta_rows sample_stored sample_owner"]) simp
    then show ?thesis by (simp add: cursor_delivers_def snapshot_tables_def sample_load_io_def)
  qed
  moreover have "cursor_delivers 7 [0..<10] [post_row sample_entry] (Inr ([post_row sample_entry], SQLITE_DONE))"
    using delivers_given [of 7 "\<lambda>_. True" "[post_row sample_entry]" "[0..<10]"]
    by (simp add: cursor_delivers_def map_column_upt post_row_def Let_def del: upt.simps)
  moreover have "cursor_delivers 3 [0..<4] (map seen_row (hs_seen_messages sample_stored))
      (Inr (map seen_row (hs_seen_messages sample_stored), SQLITE_DONE))"
    using delivers_given [of 3 "\<lambda>_. True" "map seen_row (hs_seen_messages sample_stored)" "[0..<4]"]
    by (simp add: cursor_delivers_def map_column_upt seen_row_def sample_stored_def del: upt.simps)
  moreover have "sorted_wrt (\<lambda>a b. sql_le (column a 1) (column b 1)) (filter P (mention_rows sample_entry))" for P
    by (simp add: mention_rows_def sample_entry_def sample_post_def)
  ultimately show ?thesis
    using delivers_given [of 1 _ "mention_rows sample_entry" "[1, 2]"]
    by (simp add: load_answers_def sample_load_io_def snapshot_tables_def mention_query_delivers_def
        sample_stored_def sample_snapshot_def)
qed

section \<open>Properties\<close>

text \<open>C12: The validation accepts exactly the snapshots that satisfy the stored invariant: at most 256 entries in
  strictly increasing order up to the last assigned one, distinct messages, at most sixteen queued, local posts of
  the identity with increasing sequences it has issued, and a valid duplicate ledger that remembers every entry.\<close>

theorem validate_snapshot_iff: "validate_snapshot s i = None \<longleftrightarrow> snapshot_ok s i"
  by (rule validate_snapshot_None)

text \<open>C10: What has been saved is read back. When a save reports success, any later load that the database
  answers from the tables it left returns the saved entries in order, with the ledger completed by the
  posts it lacked, also after the identity was renamed or issued further sequences.\<close>

theorem saved_history_reads_back:
  assumes "save_snapshot preflight (write_snapshot io) s i db = (None, db')"
    "list_all (\<lambda>e. post_ok (entry_post e)) (hs_entries s)" "identity_ok i"
    "identity_install_id j = identity_install_id i" "last_issued_sender_sequence i \<le> last_issued_sender_sequence j"
    "load_answers lio db'"
  shows "\<exists>s'. load_snapshot lio j db' = (Inr s', db') \<and> hs_entries s' = hs_entries s \<and>
    hs_last_assigned_order s' = hs_last_assigned_order s \<and> reconcile_snapshot_dedupe s = Inr s'"
proof -
  obtain s' where s': "reconcile_snapshot_dedupe s = Inr s'" "snapshot_ok s' i" "db' = snapshot_tables s' i"
    using save_snapshot_outcome(2) [OF assms(1)] by blast
  have "load_snapshot lio j db' = (Inr s', db')"
    by (rule load_written [OF s'(2)])
      (use assms s' reconcile_fields(1) [OF s'(1)] in \<open>auto simp: identity_ok_def uuid_ok_def\<close>)
  with s' reconcile_fields [OF s'(1)] show ?thesis by blast
qed

theorem saved_history_reads_back_witness:
  "\<exists>s'. load_snapshot sample_load_io sample_owner (snapshot_tables sample_stored sample_owner) =
     (Inr s', snapshot_tables sample_stored sample_owner) \<and> hs_entries s' = [sample_entry]"
  using saved_history_reads_back [OF sample_save _ _ _ _ sample_load_answers, of sample_owner]
    sample_post_ok sample_uuid_ok [of 2] sample_texts(1)
  by (auto simp: sample_snapshot_def sample_entry_def identity_ok_def sample_owner_def identity_restore_def)

text \<open>C11: A save is atomic and only moves forward. Whichever of its statements fails, before or after it took effect, or if the
  commit fails, the end of the transaction leaves the tables as they were; and a save that
  succeeds over stored tables belongs to the same install id, keeps or raises both stored counters,
  and leaves the ledger as it was unless its counter rose.\<close>

theorem save_atomic_and_forward:
  assumes "save_snapshot preflight (write_snapshot io) s i (snapshot_tables s0 i0) = (r, db')"
    "snapshot_ok s0 i0" "identity_ok i0" "write_answers io (snapshot_tables s0 i0)"
  shows "(r \<noteq> None \<longrightarrow> db' = snapshot_tables s0 i0) \<and>
    (r = None \<longrightarrow> (\<exists>s'. db' = snapshot_tables s' i \<and> hs_entries s' = hs_entries s \<and> snapshot_ok s' i \<and>
       identity_install_id i = identity_install_id i0 \<and>
       hs_last_assigned_order s0 \<le> hs_last_assigned_order s' \<and> hs_last_seen_order s0 \<le> hs_last_seen_order s' \<and>
       (hs_last_seen_order s' = hs_last_seen_order s0 \<longrightarrow> hs_seen_messages s' = hs_seen_messages s0)))"
proof (intro conjI impI)
  assume "r \<noteq> None"
  then show "db' = snapshot_tables s0 i0" using save_snapshot_outcome(1) [OF assms(1)] by blast
next
  assume "r = None"
  then obtain s' where s': "reconcile_snapshot_dedupe s = Inr s'" "snapshot_ok s' i" "db' = snapshot_tables s' i"
    using save_snapshot_outcome(2) [OF assms(1)] by blast
  have w: "write_snapshot io s' i (snapshot_tables s0 i0) = (None, db')"
    using assms(1) s'(1,2) \<open>r = None\<close> validate_snapshot_None [of s' i]
    by (auto simp: save_snapshot_def split: option.splits)
  have wf: "uuid_wf (install_uuid (identity_install_id i0))" using assms(3) by (simp add: identity_ok_def uuid_ok_def)
  from write_advances [OF w assms(4,2) wf] s' reconcile_fields(1) [OF s'(1)]
  show "\<exists>s'. db' = snapshot_tables s' i \<and> hs_entries s' = hs_entries s \<and> snapshot_ok s' i \<and>
       identity_install_id i = identity_install_id i0 \<and>
       hs_last_assigned_order s0 \<le> hs_last_assigned_order s' \<and> hs_last_seen_order s0 \<le> hs_last_seen_order s' \<and>
       (hs_last_seen_order s' = hs_last_seen_order s0 \<longrightarrow> hs_seen_messages s' = hs_seen_messages s0)"
    by blast
qed

definition sample_rewrite_io :: write_io where
  "sample_rewrite_io = \<lparr>wio_begin = None, wio_meta = lio_meta sample_load_io, wio_counts = Inr (1, 1),
     wio_ledger = Inr (map (\<lambda>r. map (column (seen_row r)) [0, 2, 3]) (hs_seen_messages sample_stored), SQLITE_DONE),
     wio_statements = (\<lambda>_. StmtDone), wio_commit = None\<rparr>"

lemma sample_write_answers: "write_answers sample_rewrite_io (snapshot_tables sample_stored sample_owner)"
  using sample_load_answers delivers_given [of 3 "\<lambda>_. True" "map seen_row (hs_seen_messages sample_stored)" "[0, 2, 3]"]
  by (auto simp: load_answers_def write_answers_def sample_rewrite_io_def snapshot_tables_def cursor_delivers_def
      sample_stored_def comp_def)

theorem save_atomic_and_forward_witness:
  "snapshot_ok sample_stored sample_owner \<and> identity_ok sample_owner \<and>
   write_answers sample_rewrite_io (snapshot_tables sample_stored sample_owner) \<and>
   (\<exists>r db'. save_snapshot None (write_snapshot sample_rewrite_io) sample_stored sample_owner
        (snapshot_tables sample_stored sample_owner) = (r, db') \<and>
      (r \<noteq> None \<longrightarrow> db' = snapshot_tables sample_stored sample_owner))"
proof -
  obtain r db' where s: "save_snapshot None (write_snapshot sample_rewrite_io) sample_stored sample_owner
      (snapshot_tables sample_stored sample_owner) = (r, db')" by fastforce
  have i: "identity_ok sample_owner" using sample_uuid_ok [of 2] sample_texts(1)
    by (simp add: identity_ok_def sample_owner_def identity_restore_def)
  from save_atomic_and_forward [OF s sample_stored_ok i sample_write_answers] s i
  show ?thesis using sample_stored_ok sample_write_answers by blast
qed

end
