(* ===== verification/Storage_Atomic.thy ===== *)
theory Storage_Atomic
  imports Storage_Settings
begin

text \<open>
  Model of \<^verbatim>\<open>src/adapters/storage/atomic_settings_store.cpp\<close>: reading the settings file, and replacing it by way of a
  temporary file that is written, synced, closed and renamed over it. The results of the system calls are arguments; a
  call that is retried after \<open>EINTR\<close> takes its results from a list, and \<open>None\<close> says that the list ended
  before the call returned for good.

  The files are modelled as POSIX describes them: a rename replaces the content of a name at once; after a power loss
  the name has its content from before or after the renames since the last sync of the directory, and only synced content is whole.
  A run of \<open>save\<close> keeps every state of the files it goes through, the current one first.
\<close>

section \<open>Definitions\<close>

datatype atomic_settings_write_point =
  ParentDirectoryOpened | BeforeTemporaryOpen | TemporaryOpened | BeforeWrite | TemporaryWritten | BeforeFileSync
| TemporarySynced | BeforeTemporaryClose | TemporaryClosed | BeforeRename | FinalReplaced | BeforeDirectorySync
| DirectorySynced

datatype settings_store_error =
  InvalidPath | SettingsNotPresent | CreateDirectoryFailed | OpenDirectoryFailed | OpenSettingsFailed | ReadSettingsFailed
| CloseSettingsFailed | DecodeFailed | EncodeFailed | RemoveStaleTemporaryFailed | OpenTemporaryFailed
| SetTemporaryPermissionsFailed | WriteTemporaryFailed | SyncTemporaryFailed | CloseTemporaryFailed | RenameFailed
| SyncDirectoryFailed | CloseDirectoryFailed | InjectedFailure

record settings_store_failure =
  ssf_error :: settings_store_error
  ssf_system_error :: int
  ssf_json_error :: "settings_json_error option"
  ssf_write_point :: "atomic_settings_write_point option"
  ssf_final_replaced :: bool

definition ENOENT :: int where "ENOENT = 2"
definition EINTR :: int where "EINTR = 4"
definition EIO :: int where "EIO = 5"
definition EINVAL :: int where "EINVAL = 22"

definition system_failure :: "settings_store_error \<Rightarrow> int \<Rightarrow> bool \<Rightarrow> settings_store_failure" where
  "system_failure error system_error final_replaced =
     \<lparr>ssf_error = error, ssf_system_error = system_error, ssf_json_error = None, ssf_write_point = None,
      ssf_final_replaced = final_replaced\<rparr>"

definition json_failure :: "settings_store_error \<Rightarrow> settings_json_error \<Rightarrow> settings_store_failure" where
  "json_failure error json_error =
     \<lparr>ssf_error = error, ssf_system_error = 0, ssf_json_error = Some json_error, ssf_write_point = None,
      ssf_final_replaced = False\<rparr>"

definition injected_failure :: "atomic_settings_write_point \<Rightarrow> bool \<Rightarrow> settings_store_failure" where
  "injected_failure point final_replaced =
     \<lparr>ssf_error = InjectedFailure, ssf_system_error = 0, ssf_json_error = None, ssf_write_point = Some point,
      ssf_final_replaced = final_replaced\<rparr>"

subsection \<open>Paths\<close>

text \<open>The last component of an absolute path.\<close>

definition path_filename :: "bytes \<Rightarrow> bytes" where
  "path_filename path = rev (takeWhile (\<lambda>c. c \<noteq> 0x2f) (rev path))"

definition valid_path :: "bytes \<Rightarrow> bool" where
  "valid_path path \<longleftrightarrow> path \<noteq> [] \<and> hd path = 0x2f \<and> path_filename path \<noteq> [] \<and> path_filename path \<noteq> ascii ''.'' \<and>
     path_filename path \<noteq> ascii ''..''"

definition temporary_path :: "bytes \<Rightarrow> bytes" where
  "temporary_path path = path @ ascii ''.tmp''"

subsection \<open>Reading\<close>

datatype read_answer = ReadBytes bytes | ReadEnd | ReadError int

record load_settings_io =
  lsi_open :: "int option"
  lsi_stat :: "int option"
  lsi_regular :: bool
  lsi_size :: int
  lsi_reads :: "read_answer list"
  lsi_close :: "int option"

text \<open>The read loop: the failure or the contents. An empty read ends it.\<close>

fun read_loop :: "read_answer list \<Rightarrow> bytes \<Rightarrow> (settings_store_failure + bytes) option" where
  "read_loop [] contents = None"
| "read_loop (ReadBytes chunk # answers) contents =
     (if chunk = [] then Some (Inr contents)
      else if length contents > kMaxSettingsJsonBytes - length chunk
      then Some (Inl (json_failure DecodeFailed JsonTooLarge))
      else read_loop answers (contents @ chunk))"
| "read_loop (ReadEnd # answers) contents = Some (Inr contents)"
| "read_loop (ReadError e # answers) contents =
     (if e = EINTR then read_loop answers contents
      else Some (Inl (system_failure ReadSettingsFailed e False)))"

definition settings_store_load ::
  "load_settings_io \<Rightarrow> bytes \<Rightarrow> (settings_record, settings_store_failure) result option" where
  "settings_store_load io path =
     (if \<not> valid_path path then Some (Inl (system_failure InvalidPath EINVAL False))
      else case lsi_open io of
        Some e \<Rightarrow> Some (Inl (system_failure (if e = ENOENT then SettingsNotPresent else OpenSettingsFailed) e False))
      | None \<Rightarrow>
          (case lsi_stat io of
             Some e \<Rightarrow> Some (Inl (system_failure ReadSettingsFailed e False))
           | None \<Rightarrow>
               if \<not> lsi_regular io then Some (Inl (system_failure OpenSettingsFailed EINVAL False))
               else if lsi_size io < 0 \<or> lsi_size io > int kMaxSettingsJsonBytes
               then Some (Inl (json_failure DecodeFailed JsonTooLarge))
               else (case read_loop (lsi_reads io) [] of
                  None \<Rightarrow> None
                | Some (Inl f) \<Rightarrow> Some (Inl f)
                | Some (Inr contents) \<Rightarrow>
                    (case lsi_close io of
                       Some e \<Rightarrow> Some (Inl (system_failure CloseSettingsFailed e False))
                     | None \<Rightarrow>
                         (case parse_settings_json contents of
                            Inl e \<Rightarrow> Some (Inl (json_failure DecodeFailed e))
                          | Inr settings \<Rightarrow> Some (Inr settings))))))"

subsection \<open>Files\<close>

text \<open>The content of the final and the temporary name; whether the temporary content is synced; the contents the final
  name may have after a power loss, and whether one of them may be incomplete.\<close>

record settings_files =
  sf_final :: "bytes option"
  sf_temporary :: "bytes option"
  sf_synced :: bool
  sf_durable :: "bytes option list"
  sf_torn :: bool

definition files_at_rest :: "bytes option \<Rightarrow> bytes option \<Rightarrow> settings_files" where
  "files_at_rest final temporary =
     \<lparr>sf_final = final, sf_temporary = temporary, sf_synced = False, sf_durable = [final], sf_torn = False\<rparr>"

definition unlink_temporary :: "settings_files \<Rightarrow> settings_files" where
  "unlink_temporary f = f\<lparr>sf_temporary := None\<rparr>"

definition create_temporary :: "settings_files \<Rightarrow> settings_files" where
  "create_temporary f = f\<lparr>sf_temporary := Some [], sf_synced := False\<rparr>"

definition write_temporary :: "bytes \<Rightarrow> settings_files \<Rightarrow> settings_files" where
  "write_temporary chunk f = f\<lparr>sf_temporary := map_option (\<lambda>c. c @ chunk) (sf_temporary f), sf_synced := False\<rparr>"

definition sync_temporary :: "settings_files \<Rightarrow> settings_files" where
  "sync_temporary f = f\<lparr>sf_synced := True\<rparr>"

definition rename_temporary :: "settings_files \<Rightarrow> settings_files" where
  "rename_temporary f = f\<lparr>sf_final := sf_temporary f, sf_temporary := None, sf_durable := sf_durable f @ [sf_temporary f],
     sf_torn := sf_torn f \<or> \<not> sf_synced f\<rparr>"

definition sync_directory :: "settings_files \<Rightarrow> settings_files" where
  "sync_directory f = f\<lparr>sf_durable := [sf_final f]\<rparr>"

type_synonym files_run = "settings_files list"

definition file_step :: "(settings_files \<Rightarrow> settings_files) \<Rightarrow> files_run \<Rightarrow> files_run" where
  "file_step op run = op (hd run) # run"

subsection \<open>Saving\<close>

datatype write_answer = WriteCount nat | WriteError int

record save_settings_io =
  ssi_directories :: "int option"
  ssi_open_directory :: "int option"
  ssi_fail :: "atomic_settings_write_point \<Rightarrow> bool"
  ssi_unlink :: "int option"
  ssi_open_temporary :: "int option"
  ssi_chmod :: "int option"
  ssi_writes :: "write_answer list"
  ssi_syncs :: "int option list"
  ssi_close :: "int option"
  ssi_renames :: "int option list"
  ssi_directory_syncs :: "int option list"
  ssi_close_directory :: "int option"
  ssi_cleanup :: bool

text \<open>A call retried after \<open>EINTR\<close>: its last result.\<close>

fun retry_interrupted :: "int option list \<Rightarrow> int option option" where
  "retry_interrupted [] = None"
| "retry_interrupted (a # answers) = (if a = Some EINTR then retry_interrupted answers else Some a)"

text \<open>The write loop on what is left of the contents: the error if there is one, and the run.\<close>

fun write_loop :: "write_answer list \<Rightarrow> bytes \<Rightarrow> files_run \<Rightarrow> (int option \<times> files_run) option" where
  "write_loop answers [] run = Some (None, run)"
| "write_loop [] (c # cs) run = None"
| "write_loop (WriteCount n # answers) (c # cs) run =
     (if n = 0 then Some (Some EIO, run)
      else write_loop answers (drop n (c # cs)) (file_step (write_temporary (take n (c # cs))) run))"
| "write_loop (WriteError e # answers) (c # cs) run =
     (if e = EINTR then write_loop answers (c # cs) run else Some (Some e, run))"

definition cleanup_before_replace :: "save_settings_io \<Rightarrow> files_run \<Rightarrow> files_run" where
  "cleanup_before_replace io run = (if ssi_cleanup io then file_step unlink_temporary run else run)"

type_synonym save_outcome = "((unit, settings_store_failure) result \<times> files_run) option"

definition fail_before_replace :: "save_settings_io \<Rightarrow> settings_store_failure \<Rightarrow> files_run \<Rightarrow> save_outcome" where
  "fail_before_replace io failure run = Some (Inl failure, cleanup_before_replace io run)"

text \<open>The failpoints that stand next to each other before the replacement, and then the rest.\<close>

definition unless_injected ::
  "save_settings_io \<Rightarrow> atomic_settings_write_point list \<Rightarrow> files_run \<Rightarrow> save_outcome \<Rightarrow> save_outcome" where
  "unless_injected io points run rest =
     (case find (ssi_fail io) points of
        Some point \<Rightarrow> fail_before_replace io (injected_failure point False) run
      | None \<Rightarrow> rest)"

text \<open>After the rename: only the directory is left.\<close>

definition save_directory :: "save_settings_io \<Rightarrow> files_run \<Rightarrow> save_outcome" where
  "save_directory io run =
     (case find (ssi_fail io) [FinalReplaced, BeforeDirectorySync] of
        Some point \<Rightarrow> Some (Inl (injected_failure point True), run)
      | None \<Rightarrow>
          (case retry_interrupted (ssi_directory_syncs io) of
             None \<Rightarrow> None
           | Some (Some e) \<Rightarrow> Some (Inl (system_failure SyncDirectoryFailed e True), run)
           | Some None \<Rightarrow>
               let run = file_step sync_directory run
               in if ssi_fail io DirectorySynced then Some (Inl (injected_failure DirectorySynced True), run)
                  else (case ssi_close_directory io of
                     Some e \<Rightarrow> Some (Inl (system_failure CloseDirectoryFailed e True), run)
                   | None \<Rightarrow> Some (Inr (), run))))"

text \<open>The synced temporary file is closed and renamed.\<close>

definition save_replace :: "save_settings_io \<Rightarrow> files_run \<Rightarrow> save_outcome" where
  "save_replace io run =
     (case ssi_close io of
        Some e \<Rightarrow> fail_before_replace io (system_failure CloseTemporaryFailed e False) run
      | None \<Rightarrow>
          unless_injected io [TemporaryClosed, BeforeRename] run
            (case retry_interrupted (ssi_renames io) of
               None \<Rightarrow> None
             | Some (Some e) \<Rightarrow> fail_before_replace io (system_failure RenameFailed e False) run
             | Some None \<Rightarrow> save_directory io (file_step rename_temporary run)))"

text \<open>The contents are written and synced.\<close>

definition save_contents :: "save_settings_io \<Rightarrow> bytes \<Rightarrow> files_run \<Rightarrow> save_outcome" where
  "save_contents io contents run =
     (case write_loop (ssi_writes io) contents run of
        None \<Rightarrow> None
      | Some (Some e, run) \<Rightarrow> fail_before_replace io (system_failure WriteTemporaryFailed e False) run
      | Some (None, run) \<Rightarrow>
          unless_injected io [TemporaryWritten, BeforeFileSync] run
            (case retry_interrupted (ssi_syncs io) of
               None \<Rightarrow> None
             | Some (Some e) \<Rightarrow> fail_before_replace io (system_failure SyncTemporaryFailed e False) run
             | Some None \<Rightarrow>
                 let run = file_step sync_temporary run
                 in unless_injected io [TemporarySynced, BeforeTemporaryClose] run (save_replace io run)))"

text \<open>The temporary file is created with its permissions.\<close>

definition save_open :: "save_settings_io \<Rightarrow> bytes \<Rightarrow> files_run \<Rightarrow> save_outcome" where
  "save_open io contents run =
     (case ssi_open_temporary io of
        Some e \<Rightarrow> fail_before_replace io (system_failure OpenTemporaryFailed e False) run
      | None \<Rightarrow>
          let run = file_step create_temporary run
          in (case ssi_chmod io of
                Some e \<Rightarrow> fail_before_replace io (system_failure SetTemporaryPermissionsFailed e False) run
              | None \<Rightarrow> unless_injected io [TemporaryOpened, BeforeWrite] run (save_contents io contents run)))"

definition settings_store_save ::
  "save_settings_io \<Rightarrow> bytes \<Rightarrow> settings_record \<Rightarrow> settings_files \<Rightarrow> save_outcome" where
  "settings_store_save io path settings files =
     (let run = [files]
      in if \<not> valid_path path then Some (Inl (system_failure InvalidPath EINVAL False), run)
      else case serialize_settings_json settings of
        Inl e \<Rightarrow> Some (Inl (json_failure EncodeFailed e), run)
      | Inr contents \<Rightarrow>
          (case ssi_directories io of
             Some e \<Rightarrow> Some (Inl (system_failure CreateDirectoryFailed e False), run)
           | None \<Rightarrow>
               (case ssi_open_directory io of
                  Some e \<Rightarrow> Some (Inl (system_failure OpenDirectoryFailed e False), run)
                | None \<Rightarrow>
                    unless_injected io [ParentDirectoryOpened, BeforeTemporaryOpen] run
                      (case ssi_unlink io of
                         Some e \<Rightarrow>
                           if e \<noteq> ENOENT then fail_before_replace io (system_failure RemoveStaleTemporaryFailed e False) run
                           else save_open io contents run
                       | None \<Rightarrow> save_open io contents (file_step unlink_temporary run)))))"

section \<open>Replacing the file\<close>

text \<open>The states before and after the rename, for the old content and the new one.\<close>

definition not_replaced :: "bytes option \<Rightarrow> settings_files \<Rightarrow> bool" where
  "not_replaced old f \<longleftrightarrow> sf_final f = old \<and> sf_durable f = [old] \<and> \<not> sf_torn f"

definition replaced :: "bytes option \<Rightarrow> bytes \<Rightarrow> settings_files \<Rightarrow> bool" where
  "replaced old new f \<longleftrightarrow> sf_final f = Some new \<and> sf_temporary f = None \<and> sf_durable f \<in> {[old, Some new], [Some new]} \<and> \<not> sf_torn f"

definition run_atomic :: "bytes option \<Rightarrow> bytes \<Rightarrow> files_run \<Rightarrow> bool" where
  "run_atomic old new run \<longleftrightarrow> run \<noteq> [] \<and> list_all (\<lambda>f. not_replaced old f \<or> replaced old new f) run"

definition save_correct :: "bytes option \<Rightarrow> bytes \<Rightarrow> save_outcome \<Rightarrow> bool" where
  "save_correct old new out \<longleftrightarrow>
     (case out of
        None \<Rightarrow> True
      | Some (r, run) \<Rightarrow> run_atomic old new run \<and>
          (case r of
             Inl failure \<Rightarrow> if ssf_final_replaced failure then replaced old new (hd run) else not_replaced old (hd run)
           | Inr _ \<Rightarrow> replaced old new (hd run) \<and> sf_durable (hd run) = [Some new]))"

lemma run_atomic_step:
  "run_atomic old new run \<Longrightarrow> not_replaced old (op (hd run)) \<or> replaced old new (op (hd run)) \<Longrightarrow>
   run_atomic old new (file_step op run)"
  by (simp add: run_atomic_def file_step_def)

lemma not_replaced_ops [simp]:
  "not_replaced old (unlink_temporary f) = not_replaced old f" "not_replaced old (create_temporary f) = not_replaced old f"
  "not_replaced old (write_temporary chunk f) = not_replaced old f" "not_replaced old (sync_temporary f) = not_replaced old f"
  by (simp_all add: not_replaced_def unlink_temporary_def create_temporary_def write_temporary_def sync_temporary_def)

lemma temporary_ops [simp]:
  "sf_temporary (create_temporary f) = Some []" "sf_temporary (sync_temporary f) = sf_temporary f" "sf_synced (sync_temporary f)"
  by (simp_all add: create_temporary_def sync_temporary_def)

lemma hd_file_step [simp]: "hd (file_step op run) = op (hd run)"
  by (simp add: file_step_def)

lemma failure_replaced [simp]:
  "ssf_final_replaced (system_failure e n b) = b" "ssf_final_replaced (injected_failure p b) = b"
  "ssf_final_replaced (json_failure e j) = False"
  by (simp_all add: system_failure_def injected_failure_def json_failure_def)

lemma fail_before_correct:
  "run_atomic old new run \<Longrightarrow> not_replaced old (hd run) \<Longrightarrow> \<not> ssf_final_replaced failure \<Longrightarrow>
   save_correct old new (fail_before_replace io failure run)"
  by (auto simp: save_correct_def fail_before_replace_def cleanup_before_replace_def intro!: run_atomic_step)

lemma unless_injected_correct:
  "run_atomic old new run \<Longrightarrow> not_replaced old (hd run) \<Longrightarrow> save_correct old new rest \<Longrightarrow>
   save_correct old new (unless_injected io points run rest)"
  by (auto simp: unless_injected_def split: option.split intro!: fail_before_correct)

lemma save_directory_correct:
  assumes "run_atomic old new run" "replaced old new (hd run)"
  shows "save_correct old new (save_directory io run)"
proof -
  have "replaced old new (sync_directory (hd run))" using assms(2) by (auto simp: replaced_def sync_directory_def)
  then have "run_atomic old new (file_step sync_directory run)" "replaced old new (hd (file_step sync_directory run))"
    "sf_durable (hd (file_step sync_directory run)) = [Some new]"
    using assms by (auto simp: sync_directory_def replaced_def intro!: run_atomic_step)
  then show ?thesis using assms
    by (auto simp: save_correct_def save_directory_def Let_def split: option.split)
qed

lemma save_replace_correct:
  assumes "run_atomic old new run" "not_replaced old (hd run)" "sf_temporary (hd run) = Some new" "sf_synced (hd run)"
  shows "save_correct old new (save_replace io run)"
proof -
  have "replaced old new (rename_temporary (hd run))"
    using assms(2-4) by (auto simp: replaced_def not_replaced_def rename_temporary_def)
  then have "save_correct old new (save_directory io (file_step rename_temporary run))"
    using assms(1) by (intro save_directory_correct run_atomic_step) auto
  then show ?thesis using assms(1,2)
    by (auto simp: save_replace_def save_correct_def [of _ _ None] split: option.split intro!: fail_before_correct unless_injected_correct)
qed

lemma write_loop_writes:
  assumes "write_loop answers left run = Some (r, run')" "run_atomic old new run" "not_replaced old (hd run)"
    "sf_temporary (hd run) = Some written"
  shows "run_atomic old new run' \<and> not_replaced old (hd run') \<and>
    (r = None \<longrightarrow> sf_temporary (hd run') = Some (written @ left))"
  using assms
proof (induction answers left run arbitrary: written rule: write_loop.induct)
  case (3 n answers c cs run)
  show ?case
  proof (cases "n = 0")
    case False
    let ?run = "file_step (write_temporary (take n (c # cs))) run"
    have "run_atomic old new ?run" using 3 by (intro run_atomic_step) auto
    moreover have "sf_temporary (hd ?run) = Some (written @ take n (c # cs))"
      using "3.prems"(4) by (simp add: write_temporary_def)
    ultimately show ?thesis using 3 False by (auto simp del: take_Cons' drop_Cons')
  qed (use 3 in auto)
next
  case (4 e answers c cs run)
  then show ?case by (auto split: if_splits)
qed auto

lemma save_contents_correct:
  assumes "run_atomic old new run" "not_replaced old (hd run)" "sf_temporary (hd run) = Some []"
  shows "save_correct old new (save_contents io new run)"
proof (cases "write_loop (ssi_writes io) new run")
  case None
  then show ?thesis by (simp add: save_contents_def save_correct_def)
next
  case (Some x)
  obtain r run' where x: "write_loop (ssi_writes io) new run = Some (r, run')" using Some by (cases x) auto
  note w = write_loop_writes [OF x assms]
  let ?run = "file_step sync_temporary run'"
  have s: "run_atomic old new ?run" using w by (intro run_atomic_step) auto
  show ?thesis
  proof (cases r)
    case None
    then have "save_correct old new (save_replace io ?run)"
      using w s by (intro save_replace_correct) auto
    then show ?thesis using x w s None
      by (auto simp: save_contents_def Let_def save_correct_def [of _ _ None] split: option.split
          intro!: fail_before_correct unless_injected_correct)
  next
    case (Some e)
    then show ?thesis using x w by (auto simp: save_contents_def intro!: fail_before_correct)
  qed
qed

lemma save_open_correct:
  assumes "run_atomic old new run" "not_replaced old (hd run)"
  shows "save_correct old new (save_open io new run)"
proof -
  have "run_atomic old new (file_step create_temporary run)" "not_replaced old (hd (file_step create_temporary run))"
    "sf_temporary (hd (file_step create_temporary run)) = Some []"
    using assms by (auto intro!: run_atomic_step)
  then show ?thesis using assms
    by (auto simp: save_open_def Let_def split: option.split intro!: fail_before_correct unless_injected_correct save_contents_correct)
qed

lemma settings_save_correct:
  assumes "serialize_settings_json settings = Inr contents" "not_replaced (sf_final files) files"
  shows "save_correct (sf_final files) contents (settings_store_save io path settings files)"
proof -
  let ?old = "sf_final files"
  have run: "run_atomic ?old contents [files]" using assms(2) by (simp add: run_atomic_def)
  have "save_correct ?old contents (save_open io contents [files])"
    "save_correct ?old contents (save_open io contents (file_step unlink_temporary [files]))"
    using run assms(2) by (auto intro!: save_open_correct run_atomic_step)
  moreover have now: "save_correct ?old contents (Some (Inl failure, [files]))" if "\<not> ssf_final_replaced failure" for failure
    using run assms(2) that by (simp add: save_correct_def)
  ultimately show ?thesis using run assms
    by (auto simp: settings_store_save_def Let_def split: option.split intro!: fail_before_correct unless_injected_correct)
qed

section \<open>Reading it back\<close>

text \<open>Reads that deliver the content of a file.\<close>

fun reads_deliver :: "read_answer list \<Rightarrow> bytes \<Rightarrow> bool" where
  "reads_deliver [] content = False"
| "reads_deliver (ReadBytes chunk # answers) content =
     (chunk \<noteq> [] \<and> length chunk \<le> 4096 \<and> take (length chunk) content = chunk \<and> reads_deliver answers (drop (length chunk) content))"
| "reads_deliver (ReadEnd # answers) content = (content = [])"
| "reads_deliver (ReadError e # answers) content = (e = EINTR \<and> reads_deliver answers content)"

definition file_delivered :: "load_settings_io \<Rightarrow> bytes \<Rightarrow> bool" where
  "file_delivered io content \<longleftrightarrow> lsi_open io = None \<and> lsi_stat io = None \<and> lsi_regular io \<and> lsi_size io = int (length content) \<and>
     reads_deliver (lsi_reads io) content \<and> lsi_close io = None"

lemma read_loop_delivers:
  "reads_deliver answers content \<Longrightarrow> length acc + length content \<le> kMaxSettingsJsonBytes \<Longrightarrow>
   read_loop answers acc = Some (Inr (acc @ content))"
proof (induction answers content arbitrary: acc rule: reads_deliver.induct)
  case (2 chunk answers content)
  have split: "chunk @ drop (length chunk) content = content" using 2 by (metis append_take_drop_id reads_deliver.simps(2))
  then have len: "length chunk + length (drop (length chunk) content) = length content" by (metis length_append)
  then have "\<not> length acc > kMaxSettingsJsonBytes - length chunk" using 2 by simp
  moreover have "read_loop answers (acc @ chunk) = Some (Inr ((acc @ chunk) @ drop (length chunk) content))"
    using 2 len by (intro "2.IH") auto
  ultimately show ?case using "2.prems"(1) split by simp
qed auto

lemma load_delivered:
  assumes "valid_path path" "file_delivered io content" "length content \<le> kMaxSettingsJsonBytes" "parse_settings_json content = Inr st"
  shows "settings_store_load io path = Some (Inr st)"
  using assms read_loop_delivers [of "lsi_reads io" content "[]"]
  by (simp add: settings_store_load_def file_delivered_def)

section \<open>Properties\<close>

text \<open>C5: Saving the settings is atomic. Whichever system calls fail and wherever the run stops, at every moment the settings
  file has either its old content or the complete new one, also after a power loss at that moment; a successful save has
  made the new content durable, and a failure says truly whether the file was replaced.\<close>

theorem settings_save_atomic:
  assumes "serialize_settings_json settings = Inr contents" "sf_durable files = [sf_final files]" "\<not> sf_torn files"
    "settings_store_save io path settings files = Some (r, run)"
  shows "(\<forall>f \<in> set run. sf_final f \<in> {sf_final files, Some contents} \<and> set (sf_durable f) \<subseteq> {sf_final files, Some contents} \<and> \<not> sf_torn f) \<and>
    (case r of
       Inr _ \<Rightarrow> sf_final (hd run) = Some contents \<and> sf_durable (hd run) = [Some contents]
     | Inl failure \<Rightarrow> sf_final (hd run) = (if ssf_final_replaced failure then Some contents else sf_final files))"
proof -
  have "save_correct (sf_final files) contents (Some (r, run))"
    using settings_save_correct [OF assms(1), of files io path] assms by (simp add: not_replaced_def)
  then have c: "run_atomic (sf_final files) contents run" "case r of
       Inr _ \<Rightarrow> sf_final (hd run) = Some contents \<and> sf_durable (hd run) = [Some contents]
     | Inl failure \<Rightarrow> sf_final (hd run) = (if ssf_final_replaced failure then Some contents else sf_final files)"
    by (auto simp: save_correct_def replaced_def not_replaced_def split: sum.splits if_splits)
  then show ?thesis by (auto simp: run_atomic_def list_all_iff replaced_def not_replaced_def)
qed

definition sample_record :: settings_record where
  "sample_record = \<lparr>generation = 3, st_install_id = InstallId [7, 1, 2, 3, 4, 5, 0x46, 7, 0x88, 9, 10, 11, 12, 13, 14, 15],
     st_user_id = UserId [0x4d, 0x69], sender_sequence_high_watermark = 6, st_locale = Japanese,
     history_initialized = True, st_skip_title = False\<rparr>"

lemma sample_record_ok: "settings_ok sample_record"
proof -
  have "user_id_ok (UserId [0x4d, 0x69])" by code_simp
  then show ?thesis by (simp add: settings_ok_def sample_record_def uuid_ok_def uuid_wf_def uuid_is_v4_def uuid_is_nil_def)
qed

definition sample_contents :: bytes where
  "sample_contents = render (settings_value sample_record) @ [0x0a]"

lemma sample_contents_nonempty: "sample_contents \<noteq> []"
  by (simp add: sample_contents_def)

lemma sample_contents_length: "length sample_contents \<le> 4096"
  by code_simp

lemma sample_serialized: "serialize_settings_json sample_record = Inr sample_contents"
  using written_settings_parse(1) [OF sample_record_ok] by (simp add: sample_contents_def)

definition sample_path :: bytes where
  "sample_path = ascii ''/c/s''"

text \<open>A save with interrupted calls.\<close>

definition sample_save_io :: save_settings_io where
  "sample_save_io = \<lparr>ssi_directories = None, ssi_open_directory = None, ssi_fail = (\<lambda>_. False), ssi_unlink = Some ENOENT,
     ssi_open_temporary = None, ssi_chmod = None, ssi_writes = [WriteError EINTR, WriteCount (length sample_contents)],
     ssi_syncs = [Some EINTR, None], ssi_close = None, ssi_renames = [None], ssi_directory_syncs = [None],
     ssi_close_directory = None, ssi_cleanup = True\<rparr>"

lemma sample_saved: "\<exists>run. settings_store_save sample_save_io sample_path sample_record (files_at_rest None None) = Some (Inr (), run)"
proof -
  have v: "valid_path sample_path" by code_simp
  obtain x xs where x: "sample_contents = x # xs" by (cases sample_contents) (auto simp: sample_contents_def)
  have "\<exists>run'. write_loop [WriteError EINTR, WriteCount (length sample_contents)] sample_contents run = Some (None, run')" for run
    unfolding x by simp
  then obtain run' where w: "write_loop [WriteError EINTR, WriteCount (length sample_contents)] sample_contents
      (file_step create_temporary [files_at_rest None None]) = Some (None, run')" by blast
  have io: "ssi_directories sample_save_io = None" "ssi_open_directory sample_save_io = None" "ssi_fail sample_save_io = (\<lambda>_. False)"
    "ssi_unlink sample_save_io = Some ENOENT" "ssi_open_temporary sample_save_io = None" "ssi_chmod sample_save_io = None"
    "ssi_writes sample_save_io = [WriteError EINTR, WriteCount (length sample_contents)]"
    "ssi_syncs sample_save_io = [Some EINTR, None]" "ssi_close sample_save_io = None" "ssi_renames sample_save_io = [None]"
    "ssi_directory_syncs sample_save_io = [None]" "ssi_close_directory sample_save_io = None"
    by (simp_all add: sample_save_io_def)
  show ?thesis
    by (simp add: settings_store_save_def save_open_def save_contents_def save_replace_def save_directory_def unless_injected_def
        io v sample_serialized w)
qed

theorem settings_save_atomic_witness:
  "\<exists>run. settings_store_save sample_save_io sample_path sample_record (files_at_rest None None) = Some (Inr (), run) \<and>
     (\<forall>f \<in> set run. sf_final f \<in> {None, Some sample_contents}) \<and> sf_durable (hd run) = [Some sample_contents]"
proof -
  obtain run where run: "settings_store_save sample_save_io sample_path sample_record (files_at_rest None None) = Some (Inr (), run)"
    using sample_saved by blast
  show ?thesis using settings_save_atomic [OF sample_serialized _ _ run] run by (simp add: files_at_rest_def)
qed

text \<open>What was saved is loaded. After a successful save of a valid record, loading the file, in whatever pieces the
  system delivers it and however often a read is interrupted, returns that record.\<close>

theorem saved_settings_load:
  assumes "settings_ok settings" "sf_durable files = [sf_final files]" "\<not> sf_torn files"
    "settings_store_save io path settings files = Some (Inr (), run)"
    "sf_final (hd run) = Some content" "file_delivered lio content"
  shows "settings_store_load lio path = Some (Inr settings)"
proof -
  note w = written_settings_parse [OF assms(1)]
  have "save_correct (sf_final files) (render (settings_value settings) @ [0x0a]) (Some (Inr (), run))"
    using settings_save_correct [OF w(1), of files io path] assms by (simp add: not_replaced_def)
  then have "content = render (settings_value settings) @ [0x0a]" using assms(5) by (simp add: save_correct_def replaced_def)
  moreover have "valid_path path" using assms(4) by (auto simp: settings_store_save_def Let_def split: if_splits)
  ultimately show ?thesis
    using load_delivered [of path lio content settings] assms(6) w(2) settings_value_length [OF assms(1)] by simp
qed

theorem saved_settings_load_witness:
  "settings_store_load \<lparr>lsi_open = None, lsi_stat = None, lsi_regular = True, lsi_size = int (length sample_contents),
     lsi_reads = [ReadError EINTR, ReadBytes sample_contents, ReadEnd], lsi_close = None\<rparr> sample_path = Some (Inr sample_record)"
proof -
  let ?io = "\<lparr>lsi_open = None, lsi_stat = None, lsi_regular = True, lsi_size = int (length sample_contents),
     lsi_reads = [ReadError EINTR, ReadBytes sample_contents, ReadEnd], lsi_close = None\<rparr>"
  obtain run where run: "settings_store_save sample_save_io sample_path sample_record (files_at_rest None None) = Some (Inr (), run)"
    using sample_saved by blast
  have "save_correct None sample_contents (Some (Inr (), run))"
    using settings_save_correct [OF sample_serialized, of "files_at_rest None None" sample_save_io sample_path] run
    by (simp add: not_replaced_def files_at_rest_def)
  then have "sf_final (hd run) = Some sample_contents" by (simp add: save_correct_def replaced_def)
  moreover have "file_delivered ?io sample_contents"
    using sample_contents_length by (simp add: file_delivered_def sample_contents_nonempty)
  ultimately show ?thesis using saved_settings_load [OF sample_record_ok _ _ run, of sample_contents ?io] by (simp add: files_at_rest_def)
qed

end
