(* ===== verification/App_Session.thy ===== *)
theory App_Session
  imports App_Messenger_State Storage_Sqlite Storage_Atomic
begin

text \<open>
  Model of \<^verbatim>\<open>src/app/persistent_session.cpp\<close>: the session that owns the settings file, the history database, the
  two process locks and the messenger state, and is the messenger's durability port. The disk is explicit: the
  settings record of the settings file and the tables of the database. What the operating
  system, the settings file and SQLite answer are arguments. A messenger command runs with the answers the session
  gives to its persist calls, in the order in which it makes them. Exceptions of the standard library (allocation
  failure) are not modelled.
\<close>

section \<open>Definitions\<close>

datatype session_status = SessionReady | RecoveryRequired | StorageBusy | EnvironmentUnavailable | StorageUnavailable

datatype inbound_post_status =
  InAccepted | InDuplicate | InConflict | InInvalid | InTimelineFull | InOrderExhausted | InNotReady | InStorageUnavailable

record session =
  messenger :: messenger_state
  dedupe :: dedupe_window
  startup_status :: session_status
  has_paths :: bool
  has_settings_store :: bool
  settings :: "settings_record option"
  has_history :: bool
  config_lock :: bool
  data_lock :: bool
  closed :: bool

record disk =
  dk_settings :: "settings_record option"
  dk_history :: history_db

text \<open>The outcome of \<^verbatim>\<open>AtomicSettingsStore::save\<close>: a failure reports whether the file was already replaced.\<close>

datatype settings_answer = Saved | SaveFailed bool

definition settings_save :: "settings_answer \<Rightarrow> settings_record \<Rightarrow> disk \<Rightarrow> disk" where
  "settings_save ans candidate d =
     (if ans = Saved \<or> ans = SaveFailed True then d\<lparr>dk_settings := Some candidate\<rparr> else d)"

record session_io =
  sio_settings :: settings_answer
  sio_preflight :: "history_error option"
  sio_write :: write_io

definition identity_from :: "settings_record \<Rightarrow> identity" where
  "identity_from st = identity_restore (st_install_id st) (st_user_id st) (sender_sequence_high_watermark st)"

text \<open>The four lines the three settings changes share: save the candidate, and on a failure after the replacement
  require recovery.\<close>

definition commit_settings ::
  "settings_answer \<Rightarrow> settings_record \<Rightarrow> session \<Rightarrow> disk \<Rightarrow> bool \<times> session \<times> disk" where
  "commit_settings ans candidate s d =
     (case ans of
        Saved \<Rightarrow> (True, s\<lparr>settings := Some candidate\<rparr>, settings_save ans candidate d)
      | SaveFailed final_replaced \<Rightarrow>
          (False, if final_replaced then s\<lparr>startup_status := RecoveryRequired\<rparr> else s, settings_save ans candidate d))"

definition session_persist_identity ::
  "settings_answer \<Rightarrow> identity \<Rightarrow> session \<Rightarrow> disk \<Rightarrow> bool \<times> session \<times> disk" where
  "session_persist_identity ans i s d =
     (case settings s of
        None \<Rightarrow> (False, s, d)
      | Some st \<Rightarrow>
          if startup_status s \<noteq> SessionReady \<or> closed s \<or> \<not> has_settings_store s \<or> generation st = u64_max
          then (False, s, d)
          else commit_settings ans
            \<lparr>generation = generation st + 1, st_install_id = identity_install_id i, st_user_id = identity_user_id i,
             sender_sequence_high_watermark = last_issued_sender_sequence i, st_locale = st_locale st,
             history_initialized = history_initialized st, st_skip_title = st_skip_title st\<rparr> s d)"

text \<open>The loop that completes the candidate ledger: it is refused, broken, or gives the window.\<close>

datatype persist_outcome = PersistRefused | PersistBroken | PersistReady dedupe_window

fun persist_loop ::
  "timeline \<Rightarrow> message_id list \<Rightarrow> timeline_entry list \<Rightarrow> dedupe_window \<Rightarrow> persist_outcome" where
  "persist_loop current prot [] w = PersistReady w"
| "persist_loop current prot (e # es) w =
     (case encode_post (entry_post e) of
        Inl _ \<Rightarrow> PersistBroken
      | Inr encoded \<Rightarrow>
          (case dedupe_classify w (entry_id e) encoded of
             DuplicateMessage \<Rightarrow>
               if timeline_find current (entry_id e) = None then PersistRefused
               else persist_loop current prot es w
           | ConflictingMessage \<Rightarrow> PersistBroken
           | InvalidMessage \<Rightarrow> PersistBroken
           | NewMessage \<Rightarrow>
               (case dedupe_remember w (entry_post e) encoded prot of
                  (Some _, _) \<Rightarrow> PersistBroken
                | (None, w') \<Rightarrow> persist_loop current prot es w')))"

definition timeline_snapshot :: "timeline \<Rightarrow> dedupe_window \<Rightarrow> history_snapshot" where
  "timeline_snapshot t w =
     \<lparr>hs_entries = entries t, hs_last_assigned_order = last_assigned_order t,
      hs_seen_messages = dd_records w, hs_last_seen_order = last_seen_order w\<rparr>"

definition session_persist_timeline ::
  "session_io \<Rightarrow> timeline \<Rightarrow> session \<Rightarrow> disk \<Rightarrow> bool \<times> session \<times> disk" where
  "session_persist_timeline io t s d =
     (case settings s of
        None \<Rightarrow> (False, s, d)
      | Some st \<Rightarrow>
          if startup_status s \<noteq> SessionReady \<or> closed s \<or> \<not> has_history s then (False, s, d)
          else (case persist_loop (ms_timeline (messenger s)) (map entry_id (entries t)) (entries t) (dedupe s) of
             PersistRefused \<Rightarrow> (False, s, d)
           | PersistBroken \<Rightarrow> (False, s\<lparr>startup_status := RecoveryRequired\<rparr>, d)
           | PersistReady candidate \<Rightarrow>
               (case save_snapshot (sio_preflight io) (write_snapshot (sio_write io)) (timeline_snapshot t candidate)
                   (identity_from st) (dk_history d) of
                  (Some _, db) \<Rightarrow> (False, s\<lparr>startup_status := RecoveryRequired\<rparr>, d\<lparr>dk_history := db\<rparr>)
                | (None, db) \<Rightarrow> (True, s\<lparr>dedupe := candidate\<rparr>, d\<lparr>dk_history := db\<rparr>))))"

text \<open>The answers the session gives to a list of persist calls; a refused call ends the command.\<close>

fun answer_calls ::
  "session_io \<Rightarrow> commit_call list \<Rightarrow> session \<Rightarrow> disk \<Rightarrow> (bool \<times> bool) \<times> session \<times> disk" where
  "answer_calls io [] s d = ((True, True), s, d)"
| "answer_calls io (PersistIdentity i _ # cs) s d =
     (case session_persist_identity (sio_settings io) i s d of
        (False, s, d) \<Rightarrow> ((False, True), s, d)
      | (True, s, d) \<Rightarrow> (case answer_calls io cs s d of ((_, ok), s, d) \<Rightarrow> ((True, ok), s, d)))"
| "answer_calls io (PersistTimeline t _ # cs) s d =
     (case session_persist_timeline io t s d of
        (False, s, d) \<Rightarrow> ((True, False), s, d)
      | (True, s, d) \<Rightarrow> answer_calls io cs s d)"

text \<open>A command of the messenger with the session as its durability port: the persist calls it makes while they are
  accepted, the answers, and the command under these answers.\<close>

definition session_execute ::
  "session_io \<Rightarrow> command_ports \<Rightarrow> command \<Rightarrow> session \<Rightarrow> disk \<Rightarrow> command_result \<times> session \<times> disk" where
  "session_execute io ports c s d =
     (let (_, _, calls) = execute (ports\<lparr>port_commit := Some (True, True)\<rparr>) c (messenger s);
          (oks, s', d') = answer_calls io calls s d;
          (r, m, _) = execute (ports\<lparr>port_commit := Some oks\<rparr>) c (messenger s)
      in (r, s'\<lparr>messenger := m\<rparr>, d'))"

fun inbound_status_of :: "command_error option \<Rightarrow> inbound_post_status" where
  "inbound_status_of None = InAccepted"
| "inbound_status_of (Some DuplicatePost) = InDuplicate"
| "inbound_status_of (Some ConflictingPost) = InConflict"
| "inbound_status_of (Some TimelineFull) = InTimelineFull"
| "inbound_status_of (Some CmdQueueFull) = InTimelineFull"
| "inbound_status_of (Some CmdOrderExhausted) = InOrderExhausted"
| "inbound_status_of (Some PersistenceUnavailable) = InStorageUnavailable"
| "inbound_status_of (Some _) = InInvalid"

definition accept_received_post ::
  "session_io \<Rightarrow> command_ports \<Rightarrow> bytes \<Rightarrow> session \<Rightarrow> disk \<Rightarrow> inbound_post_status \<times> session \<times> disk" where
  "accept_received_post io ports canonical_post s d =
     (if startup_status s \<noteq> SessionReady \<or> closed s \<or> settings s = None \<or> \<not> has_history s then (InNotReady, s, d)
      else case decode_post_bytes canonical_post of
        Inl _ \<Rightarrow> (InInvalid, s, d)
      | Inr decoded \<Rightarrow>
          if encode_post decoded \<noteq> Inr canonical_post then (InInvalid, s, d)
          else (case dedupe_classify (dedupe s) (message_id decoded) canonical_post of
             DuplicateMessage \<Rightarrow> (InDuplicate, s, d)
           | ConflictingMessage \<Rightarrow> (InConflict, s, d)
           | InvalidMessage \<Rightarrow> (InInvalid, s, d)
           | NewMessage \<Rightarrow>
               (case session_execute io ports (AcceptReceived decoded) s d of
                  (r, s', d') \<Rightarrow> (inbound_status_of (cr_error r), s', d'))))"

definition set_locale :: "settings_answer \<Rightarrow> stored_locale \<Rightarrow> session \<Rightarrow> disk \<Rightarrow> bool \<times> session \<times> disk" where
  "set_locale ans loc s d =
     (case settings s of
        None \<Rightarrow> (False, s, d)
      | Some st \<Rightarrow>
          if startup_status s \<noteq> SessionReady \<or> closed s \<or> \<not> has_settings_store s \<or> generation st = u64_max
          then (False, s, d)
          else if st_locale st = loc then (True, s, d)
          else commit_settings ans (st\<lparr>generation := generation st + 1, st_locale := loc\<rparr>) s d)"

definition set_skip_title :: "settings_answer \<Rightarrow> bool \<Rightarrow> session \<Rightarrow> disk \<Rightarrow> bool \<times> session \<times> disk" where
  "set_skip_title ans skip s d =
     (case settings s of
        None \<Rightarrow> (False, s, d)
      | Some st \<Rightarrow>
          if startup_status s \<noteq> SessionReady \<or> closed s \<or> \<not> has_settings_store s \<or> generation st = u64_max
          then (False, s, d)
          else if st_skip_title st = skip then (True, s, d)
          else commit_settings ans (st\<lparr>generation := generation st + 1, st_skip_title := skip\<rparr>) s d)"

definition release_locks :: "session \<Rightarrow> session" where
  "release_locks s = s\<lparr>data_lock := False, config_lock := False\<rparr>"

definition session_shutdown :: "session \<Rightarrow> session" where
  "session_shutdown s = (if closed s then s else (release_locks (s\<lparr>has_history := False\<rparr>))\<lparr>closed := True\<rparr>)"

text \<open>The answers during \<^verbatim>\<open>delete_all\<close>: the probe directory, the removal of each file, the two directory syncs, and what is
  left of the history when its database file stays.\<close>

record delete_io =
  del_probe :: "history_error option"
  del_temporary :: bool
  del_settings :: bool
  del_config_sync :: bool
  del_sidecars :: bool
  del_database :: bool
  del_data_sync :: bool
  del_left :: history_db

definition delete_all :: "delete_io \<Rightarrow> session \<Rightarrow> disk \<Rightarrow> bool \<times> session \<times> disk" where
  "delete_all io s d =
     (if \<not> has_paths s \<or> \<not> config_lock s \<or> \<not> data_lock s \<or> closed s then (False, s, d)
      else if del_probe io \<noteq> None then (False, s\<lparr>startup_status := RecoveryRequired\<rparr>, d)
      else
        let d = (if del_settings io then d\<lparr>dk_settings := None\<rparr> else d);
            settings_removed = ((has_settings_store s \<longrightarrow> del_temporary io) \<and> del_settings io \<and> del_config_sync io)
        in if \<not> settings_removed then (False, s\<lparr>startup_status := RecoveryRequired\<rparr>, d)
           else
             let s = s\<lparr>settings := None, has_history := False\<rparr>;
                 d = d\<lparr>dk_history := (if del_database io then empty_db else del_left io)\<rparr>;
                 history_removed = (del_sidecars io \<and> del_database io \<and> del_data_sync io)
             in (history_removed, s\<lparr>startup_status := RecoveryRequired\<rparr>, d))"

subsection \<open>Starting up\<close>

text \<open>Opening, checking and locking one lock file.\<close>

datatype lock_answer = LockAcquired | LockOpenFailed | LockUnsafe | LockHeld | LockError

datatype settings_load = SettingsLoaded settings_record | SettingsNotFound | SettingsUnreadable

text \<open>\<^verbatim>\<open>lstat\<close> of the database: missing, failed, or found, with whether it is a regular file that is not empty.\<close>

datatype stat_answer = StatMissing | StatFailed | StatFound bool

record boot_io =
  bio_environment :: bool
  bio_directories :: bool
  bio_config_lock :: lock_answer
  bio_data_lock :: lock_answer
  bio_probe :: "history_error option"
  bio_settings :: settings_load
  bio_artifact :: bool
  bio_random :: "bytes option"
  bio_create :: settings_answer
  bio_stat :: stat_answer
  bio_open :: "history_error option"
  bio_empty_preflight :: "history_error option"
  bio_empty_write :: write_io
  bio_load :: load_io
  bio_finalize :: settings_answer
  bio_recover_preflight :: "history_error option"
  bio_recover_write :: write_io

definition acquire_one_lock :: "lock_answer \<Rightarrow> session \<Rightarrow> bool \<times> session" where
  "acquire_one_lock ans s =
     (case ans of
        LockAcquired \<Rightarrow> (True, s)
      | LockHeld \<Rightarrow> (False, s\<lparr>startup_status := StorageBusy\<rparr>)
      | _ \<Rightarrow> (False, s\<lparr>startup_status := StorageUnavailable\<rparr>))"

definition acquire_lock :: "boot_io \<Rightarrow> session \<Rightarrow> bool \<times> session" where
  "acquire_lock io s =
     (case acquire_one_lock (bio_config_lock io) s of
        (False, s) \<Rightarrow> (False, s)
      | (True, s) \<Rightarrow>
          (case acquire_one_lock (bio_data_lock io) (s\<lparr>config_lock := True\<rparr>) of
             (False, s) \<Rightarrow> (False, s\<lparr>config_lock := False\<rparr>)
           | (True, s) \<Rightarrow> (True, s\<lparr>data_lock := True\<rparr>)))"

definition open_history :: "boot_io \<Rightarrow> session \<Rightarrow> bool \<times> session" where
  "open_history io s = (if bio_open io \<noteq> None then (False, s) else (True, s\<lparr>has_history := True\<rparr>))"

definition open_empty_history :: "boot_io \<Rightarrow> settings_record \<Rightarrow> session \<Rightarrow> disk \<Rightarrow> bool \<times> session \<times> disk" where
  "open_empty_history io st s d =
     (if bio_open io \<noteq> None then (False, s\<lparr>startup_status := RecoveryRequired\<rparr>, d)
      else case save_snapshot (bio_empty_preflight io) (write_snapshot (bio_empty_write io)) snapshot_empty
          (identity_from st) (dk_history d) of
        (Some _, db) \<Rightarrow>
          (False, s\<lparr>has_history := False, startup_status := RecoveryRequired\<rparr>, d\<lparr>dk_history := db\<rparr>)
      | (None, db) \<Rightarrow> (True, s\<lparr>has_history := True\<rparr>, d\<lparr>dk_history := db\<rparr>))"

definition finalize_history_initialization ::
  "boot_io \<Rightarrow> settings_record \<Rightarrow> session \<Rightarrow> disk \<Rightarrow> bool \<times> session \<times> disk" where
  "finalize_history_initialization io st s d =
     (if history_initialized st then (True, s, d)
      else if generation st = u64_max then (False, s\<lparr>startup_status := RecoveryRequired\<rparr>, d)
      else
        let candidate = st\<lparr>generation := generation st + 1, history_initialized := True\<rparr>;
            d = settings_save (bio_finalize io) candidate d
        in case bio_finalize io of
             Saved \<Rightarrow> (True, s\<lparr>settings := Some candidate\<rparr>, d)
           | SaveFailed final_replaced \<Rightarrow>
               (False, s\<lparr>startup_status := (if final_replaced then RecoveryRequired else StorageUnavailable)\<rparr>, d))"

text \<open>\<open>messenger.restore_state\<close>, with the session as the messenger's owner.\<close>

definition session_restore :: "identity \<Rightarrow> timeline \<Rightarrow> session \<Rightarrow> bool \<times> session" where
  "session_restore i t s =
     (case restore_state i t (messenger s) of (r, m, _) \<Rightarrow> (cr_error r = None, s\<lparr>messenger := m\<rparr>))"

definition bootstrap_missing_settings :: "boot_io \<Rightarrow> session \<Rightarrow> disk \<Rightarrow> session \<times> disk" where
  "bootstrap_missing_settings io s d =
     (if bio_artifact io then (s\<lparr>startup_status := RecoveryRequired\<rparr>, d)
      else case (install_id_generate (bio_random io), user_id_create (ascii ''Mika'')) of
        (Inr install, Inr user) \<Rightarrow>
          let created = \<lparr>generation = 1, st_install_id = install, st_user_id = user, sender_sequence_high_watermark = 0,
                         st_locale = English, history_initialized = False, st_skip_title = False\<rparr>;
              d = settings_save (bio_create io) created d
          in (case bio_create io of
                SaveFailed final_replaced \<Rightarrow>
                  (s\<lparr>startup_status := (if final_replaced then RecoveryRequired else StorageUnavailable)\<rparr>, d)
              | Saved \<Rightarrow>
                  (case open_empty_history io created (s\<lparr>settings := Some created\<rparr>) d of
                     (False, s, d) \<Rightarrow> (s, d)
                   | (True, s, d) \<Rightarrow>
                       (case finalize_history_initialization io created s d of
                          (False, s, d) \<Rightarrow> (s, d)
                        | (True, s, d) \<Rightarrow>
                            (case (settings s, timeline_new kMaxTimelineEntries 0) of
                               (Some st, Some t) \<Rightarrow>
                                 (case session_restore (identity_from st) t s of
                                    (False, s) \<Rightarrow> (s\<lparr>startup_status := StorageUnavailable\<rparr>, d)
                                  | (True, s) \<Rightarrow> (s\<lparr>startup_status := SessionReady\<rparr>, d))
                             | _ \<Rightarrow> (s, d)))))
      | _ \<Rightarrow> (s\<lparr>startup_status := StorageUnavailable\<rparr>, d))"

text \<open>The queued posts of an earlier process become unknown.\<close>

definition recover_entry :: "timeline_entry \<Rightarrow> timeline_entry" where
  "recover_entry e = (if entry_is_queued e then e\<lparr>origin := LocalDelivery UnknownState\<rparr> else e)"

text \<open>From the loaded snapshot to the ready session.\<close>

definition restore_loaded :: "boot_io \<Rightarrow> identity \<Rightarrow> history_snapshot \<Rightarrow> session \<Rightarrow> disk \<Rightarrow> session \<times> disk" where
  "restore_loaded io i snapshot s d =
     (case dedupe_restore kDefaultSeenMessageCapacity (hs_last_seen_order snapshot) (hs_seen_messages snapshot) of
        Inl _ \<Rightarrow> (s\<lparr>startup_status := RecoveryRequired\<rparr>, d)
      | Inr w \<Rightarrow>
          let s = s\<lparr>dedupe := w\<rparr>;
              changed_queued = list_ex entry_is_queued (hs_entries snapshot);
              snapshot = snapshot\<lparr>hs_entries := map recover_entry (hs_entries snapshot)\<rparr>;
              (saved, db) = (if changed_queued
                then save_snapshot (bio_recover_preflight io) (write_snapshot (bio_recover_write io)) snapshot i (dk_history d)
                else (None, dk_history d));
              d = d\<lparr>dk_history := db\<rparr>
          in if saved \<noteq> None then (s\<lparr>startup_status := RecoveryRequired\<rparr>, d)
             else (case timeline_restore kMaxTimelineEntries (hs_last_assigned_order snapshot) (hs_entries snapshot) of
                Inl _ \<Rightarrow> (s\<lparr>startup_status := RecoveryRequired\<rparr>, d)
              | Inr t \<Rightarrow>
                  (case session_restore i t s of
                     (False, s) \<Rightarrow> (s\<lparr>startup_status := RecoveryRequired\<rparr>, d)
                   | (True, s) \<Rightarrow> (s\<lparr>startup_status := SessionReady\<rparr>, d))))"

text \<open>The database is opened, or created in the one resumable state of an interrupted first launch.\<close>

definition open_loaded_history :: "boot_io \<Rightarrow> settings_record \<Rightarrow> session \<Rightarrow> disk \<Rightarrow> bool \<times> session \<times> disk" where
  "open_loaded_history io st s d =
     (case bio_stat io of
        StatMissing \<Rightarrow>
          if history_initialized st \<or> sender_sequence_high_watermark st \<noteq> 0 \<or> bio_artifact io
          then (False, s\<lparr>startup_status := RecoveryRequired\<rparr>, d)
          else (case open_empty_history io st s d of
             (False, s, d) \<Rightarrow> (False, s\<lparr>startup_status := RecoveryRequired\<rparr>, d)
           | (True, s, d) \<Rightarrow> (True, s, d))
      | StatFailed \<Rightarrow> (False, s\<lparr>startup_status := StorageUnavailable\<rparr>, d)
      | StatFound usable \<Rightarrow>
          (case (if usable then open_history io s else (False, s)) of
             (False, s) \<Rightarrow> (False, s\<lparr>startup_status := RecoveryRequired\<rparr>, d)
           | (True, s) \<Rightarrow> (True, s, d)))"

definition bootstrap_loaded_settings :: "boot_io \<Rightarrow> settings_record \<Rightarrow> session \<Rightarrow> disk \<Rightarrow> session \<times> disk" where
  "bootstrap_loaded_settings io st s d =
     (case open_loaded_history io st s d of
        (False, s, d) \<Rightarrow> (s, d)
      | (True, s, d) \<Rightarrow>
          (case load_snapshot (bio_load io) (identity_from st) (dk_history d) of
             (Inl _, db) \<Rightarrow> (s\<lparr>startup_status := RecoveryRequired\<rparr>, d\<lparr>dk_history := db\<rparr>)
           | (Inr snapshot, db) \<Rightarrow>
               (case finalize_history_initialization io st s (d\<lparr>dk_history := db\<rparr>) of
                  (False, s, d) \<Rightarrow> (s, d)
                | (True, s, d) \<Rightarrow> restore_loaded io (identity_from st) snapshot s d)))"

definition session_new :: session where
  "session_new =
     \<lparr>messenger = \<lparr>ms_identity = None,
                  ms_timeline = \<lparr>tl_capacity = kMaxTimelineEntries, last_assigned_order = 0, entries = []\<rparr>\<rparr>,
      dedupe = \<lparr>dd_capacity = kDefaultSeenMessageCapacity, last_seen_order = 0, dd_records = []\<rparr>,
      startup_status = StorageUnavailable, has_paths = False, has_settings_store = False, settings = None,
      has_history = False, config_lock = False, data_lock = False, closed = False\<rparr>"

definition bootstrap :: "boot_io \<Rightarrow> disk \<Rightarrow> session \<times> disk" where
  "bootstrap io d =
     (let s = session_new
      in if \<not> bio_environment io then (s\<lparr>startup_status := EnvironmentUnavailable\<rparr>, d)
      else let s = s\<lparr>has_paths := True\<rparr>
      in if \<not> bio_directories io then (s\<lparr>startup_status := StorageUnavailable\<rparr>, d)
      else (case acquire_lock io s of
         (False, s) \<Rightarrow> (s, d)
       | (True, s) \<Rightarrow>
           if bio_probe io \<noteq> None then (s\<lparr>startup_status := RecoveryRequired\<rparr>, d)
           else let s = s\<lparr>has_settings_store := True\<rparr>
           in (case bio_settings io of
                 SettingsUnreadable \<Rightarrow> (s\<lparr>startup_status := RecoveryRequired\<rparr>, d)
               | SettingsNotFound \<Rightarrow> bootstrap_missing_settings io s d
               | SettingsLoaded st \<Rightarrow> bootstrap_loaded_settings io st (s\<lparr>settings := Some st\<rparr>) d)))"

section \<open>The candidate ledger\<close>

lemma remember_keeps_remembered:
  assumes "dedupe_remember w p b prot = (None, w')" "remembered w e" "entry_id e \<in> set prot" "entry_id e \<noteq> message_id p"
  shows "remembered w' e"
  using assms(2) remember_classify_protected [OF assms(1,3,4)] by (simp add: remembered_def)

lemma remember_remembers:
  assumes "dedupe_remember w (entry_post e) b prot = (None, w')" "encode_post (entry_post e) = Inr b"
  shows "remembered w' e"
  using remember_classify_same [OF assms(1)] assms(2) by (simp add: remembered_def)

lemma dedupe_remember_capacity: "dedupe_remember w p b prot = (r, w') \<Longrightarrow> dd_capacity w' = dd_capacity w"
  by (auto simp: dedupe_remember_def dedupe_push_def Let_def split: if_splits dedupe_classification.splits)

lemma persist_loop_Ready:
  assumes "persist_loop current prot es w = PersistReady w'" "dedupe_ok w"
    "entry_id ` set es \<subseteq> set prot" "distinct (map entry_id es)"
  shows "dedupe_ok w' \<and> dd_capacity w' = dd_capacity w \<and> list_all (remembered w') es \<and>
    (\<forall>e. remembered w e \<and> entry_id e \<in> set prot \<and> entry_id e \<notin> entry_id ` set es \<longrightarrow> remembered w' e)"
  using assms
proof (induction es arbitrary: w)
  case (Cons e es)
  obtain b where b: "encode_post (entry_post e) = Inr b" using Cons.prems(1) by (auto split: sum.splits)
  show ?case
  proof (cases "dedupe_classify w (entry_id e) b")
    case DuplicateMessage
    then have "persist_loop current prot es w = PersistReady w'" using Cons.prems(1) b by (auto split: if_splits)
    moreover have "remembered w e" using b DuplicateMessage by (simp add: remembered_def)
    ultimately show ?thesis using Cons.IH [of w] Cons.prems by auto
  next
    case NewMessage
    then obtain v where v: "dedupe_remember w (entry_post e) b prot = (None, v)"
        "persist_loop current prot es v = PersistReady w'"
      using Cons.prems(1) b by (auto split: prod.splits option.splits)
    have "dedupe_ok v" "dd_capacity v = dd_capacity w"
      using remember_ok [OF Cons.prems(2) v(1)] dedupe_remember_capacity [OF v(1)] by auto
    moreover note Cons.IH [OF v(2) \<open>dedupe_ok v\<close>] remember_remembers [OF v(1) b]
      remember_keeps_remembered [OF v(1)]
    ultimately show ?thesis using Cons.prems(3,4) by auto
  qed (use Cons.prems b in auto)
qed simp

text \<open>Entries already known leave the ledger alone; a new last entry is remembered.\<close>

lemma persist_loop_known:
  assumes "list_all (remembered w) es" "list_all (\<lambda>e. timeline_find current (entry_id e) \<noteq> None) es"
  shows "persist_loop current prot (es @ rest) w = persist_loop current prot rest w"
  using assms by (induction es) (auto simp: remembered_def)

section \<open>Local posts of the history\<close>

lemma own_posts_ok_alt:
  "own_posts_ok i (entries t) \<longleftrightarrow>
     list_all (\<lambda>p. sender_id p = identity_install_id i \<and> sender_sequence p \<le> last_issued_sender_sequence i) (local_posts t) \<and>
     sorted_wrt (<) (0 # map sender_sequence (local_posts t))"
proof -
  have "filter entry_is_local (entries t) = filter (\<lambda>e. origin e \<noteq> ReceivedOrigin) (entries t)"
    by (simp add: entry_is_local_def [abs_def])
  then show ?thesis by (simp add: own_posts_ok_def local_posts_def list.pred_map comp_def)
qed

lemma sorted_filter_erase:
  "sorted_wrt R (map f (filter Q es)) \<Longrightarrow> sorted_wrt R (map f (filter Q (erase_first P es)))"
  by (induction es) (auto dest: erase_first_in)

lemma own_posts_kept: "own_posts_ok i (entries t) \<Longrightarrow> own_posts_ok i (kept_entries t prot)"
  using sorted_filter_erase [of "(<)" "\<lambda>e. sender_sequence (entry_post e)" entry_is_local "entries t"]
  by (auto simp: own_posts_ok_def kept_entries_def list_all_iff dest: erase_first_in)

lemma own_posts_received:
  "own_posts_ok i es \<Longrightarrow> own_posts_ok i (es @ [stamped t p ReceivedOrigin])"
  by (simp add: own_posts_ok_def stamped_def entry_is_local_def)

lemma own_posts_composed:
  assumes "own_posts_ok i es" "next_sender_sequence i = Some n"
    "sender_id p = identity_install_id i" "sender_sequence p = n"
  shows "own_posts_ok (i\<lparr>last_issued_sender_sequence := n\<rparr>) (es @ [stamped t p (LocalDelivery Queued)])"
proof -
  have lt: "last_issued_sender_sequence i < n" "0 < n"
    using next_sequence_increases [OF assms(2)] by (auto simp: word_neq_0_conv)
  then show ?thesis using assms
    by (auto simp: own_posts_ok_def stamped_def entry_is_local_def list_all_iff sorted_wrt_append
        intro: le_less_trans less_imp_le)
qed

lemma local_posts_transition: "local_posts (snd (timeline_transition t mid target)) = local_posts t"
proof (rule timeline_transition_cases [of t mid target])
  fix i assume i: "i < length (entries t)" "origin (entries t ! i) = LocalDelivery Queued"
    and eq: "timeline_transition t mid target =
         (None, t\<lparr>entries := set_origin_at i (LocalDelivery target) (entries t)\<rparr>)"
  have "map entry_post (filter (\<lambda>e. origin e \<noteq> ReceivedOrigin) (es[i := (es ! i)\<lparr>origin := LocalDelivery target\<rparr>])) =
      map entry_post (filter (\<lambda>e. origin e \<noteq> ReceivedOrigin) es)"
    if "i < length es" "origin (es ! i) \<noteq> ReceivedOrigin" for es and i
    using that by (induction es arbitrary: i) (auto split: nat.splits)
  from this [OF i(1)] i(2) show ?thesis by (simp add: eq local_posts_def set_origin_at_def)
qed simp_all

lemma own_posts_transition:
  "own_posts_ok i (entries t) \<Longrightarrow> own_posts_ok i (entries (snd (timeline_transition t mid target)))"
  by (simp add: own_posts_ok_alt local_posts_transition)

lemma transition_capacity:
  "tl_capacity (snd (timeline_transition t mid target)) = tl_capacity t"
  "last_assigned_order (snd (timeline_transition t mid target)) = last_assigned_order t"
  by (auto simp: timeline_transition_def Let_def split: entry_origin.splits)

section \<open>What a command hands to the session\<close>

text \<open>The next identity and history a command may commit.\<close>

definition advances :: "identity \<Rightarrow> timeline \<Rightarrow> identity \<Rightarrow> timeline \<Rightarrow> bool" where
  "advances i t j u \<longleftrightarrow>
     identity_ok j \<and> identity_install_id j = identity_install_id i \<and>
     last_issued_sender_sequence i \<le> last_issued_sender_sequence j \<and>
     timeline_posts_ok u \<and> tl_capacity u = tl_capacity t \<and>
     (own_posts_ok i (entries t) \<longrightarrow> own_posts_ok j (entries u))"

lemma insert_advances:
  assumes "messenger_ok m" "ms_identity m = Some i" "post_ok p"
    "timeline_insert (ms_timeline m) p ReceivedOrigin prot = (r, u)"
  shows "advances i (ms_timeline m) i u"
proof (cases "insert_error r")
  case None
  have len: "length (entries (ms_timeline m)) \<le> tl_capacity (ms_timeline m)"
    using messenger_okD(2) [OF assms(1)] by (simp add: timeline_ok_def)
  show ?thesis
    using insert_posts_ok [OF messenger_okD(1) [OF assms(1)] assms(3,4)] messenger_okD(3) [OF assms(1,2)]
    by (simp add: advances_def timeline_insert_success(1) [OF assms(4) None len] own_posts_kept own_posts_received)
next
  case (Some e)
  then have "u = ms_timeline m" using timeline_insert_refused(1) [OF assms(4)] by blast
  then show ?thesis using messenger_okD [OF assms(1)] assms(2) by (simp add: advances_def)
qed

lemma transition_advances:
  assumes "messenger_ok m" "ms_identity m = Some i"
  shows "advances i (ms_timeline m) i (snd (timeline_transition (ms_timeline m) mid target))"
  using transition_posts_ok [OF messenger_okD(1) [OF assms(1)]] messenger_okD(3) [OF assms]
  by (simp add: advances_def transition_capacity own_posts_transition)

lemma compose_advances:
  assumes "messenger_ok m" "compose_admits ports d m i n mid" "post_ok (composed_post i n mid d now)"
    "insert_local (ms_timeline m) (composed_post i n mid d now) Queued = (r, u)" "insert_error r = None"
  shows "advances i (ms_timeline m) (i\<lparr>last_issued_sender_sequence := n\<rparr>) u"
proof -
  have i: "ms_identity m = Some i" "next_sender_sequence i = Some n" using assms(2) by (auto simp: compose_admits_def)
  have len: "length (entries (ms_timeline m)) \<le> tl_capacity (ms_timeline m)"
    using messenger_okD(2) [OF assms(1)] by (simp add: timeline_ok_def)
  note ins = assms(4) [unfolded insert_local_def]
  show ?thesis
    using insert_posts_ok [OF messenger_okD(1) [OF assms(1)] assms(3) ins] messenger_okD(3) [OF assms(1) i(1)]
      next_sequence_increases(1) [OF i(2)]
    by (simp add: advances_def timeline_insert_success(1) [OF ins assms(5) len] own_posts_composed [OF _ i(2)]
        own_posts_kept identity_ok_def)
qed

text \<open>
  The four things a command can do with the answers \<open>oks\<close> of the session: nothing, set the identity, set the
  history, or set the identity and then the history.
\<close>

definition answered :: "command_ports \<Rightarrow> bool \<times> bool \<Rightarrow> command_ports" where
  "answered ports oks = ports\<lparr>port_commit := Some oks\<rparr>"

lemma answered_simps [simp]:
  "port_commit (answered ports oks) = Some oks" "port_random (answered ports oks) = port_random ports"
  "port_clock (answered ports oks) = port_clock ports" "ports_wf (answered ports oks) = ports_wf ports"
  "compose_admits (answered ports oks) d m i n mid = compose_admits ports d m i n mid"
  by (simp_all add: answered_def ports_wf_def compose_admits_def)

inductive command_effect :: "command_ports \<Rightarrow> command \<Rightarrow> messenger_state \<Rightarrow> identity \<Rightarrow> bool" for ports c m i where
  effect_none: "(\<And>oks. snd (execute (answered ports oks) c m) = (m, [])) \<Longrightarrow> command_effect ports c m i"
| effect_identity: "advances i (ms_timeline m) j (ms_timeline m) \<Longrightarrow>
    (\<And>oks. snd (execute (answered ports oks) c m) =
       (if fst oks then m\<lparr>ms_identity := Some j\<rparr> else m, [PersistIdentity j (fst oks)])) \<Longrightarrow>
    command_effect ports c m i"
| effect_timeline: "advances i (ms_timeline m) i u \<Longrightarrow>
    (\<And>oks. snd (execute (answered ports oks) c m) =
       (if snd oks then m\<lparr>ms_timeline := u\<rparr> else m, [PersistTimeline u (snd oks)])) \<Longrightarrow>
    command_effect ports c m i"
| effect_both: "advances i (ms_timeline m) j (ms_timeline m) \<Longrightarrow> advances i (ms_timeline m) j u \<Longrightarrow>
    (\<And>oks. snd (execute (answered ports oks) c m) =
       (if \<not> fst oks then (m, [PersistIdentity j False])
        else if \<not> snd oks then (m\<lparr>ms_identity := Some j\<rparr>, [PersistIdentity j True, PersistTimeline u False])
        else (m\<lparr>ms_identity := Some j, ms_timeline := u\<rparr>, [PersistIdentity j True, PersistTimeline u True]))) \<Longrightarrow>
    command_effect ports c m i"

lemma advances_identity:
  assumes "messenger_ok m" "identity_ok j" "identity_install_id j = identity_install_id i"
    "last_issued_sender_sequence i \<le> last_issued_sender_sequence j"
  shows "advances i (ms_timeline m) j (ms_timeline m)"
  using assms messenger_okD(1) [OF assms(1)] own_posts_ok_mono [of i "entries (ms_timeline m)" j]
  by (simp add: advances_def)

lemma rename_effect:
  assumes m: "messenger_ok m" "ms_identity m = Some i"
  shows "command_effect ports (RenameUser u) m i"
proof (cases "user_id_create u")
  case (Inl e)
  then show ?thesis using m by (intro effect_none) (simp add: rename_user_def)
next
  case (Inr v)
  have "identity_ok (identity_rename i v)" using messenger_okD(3) [OF m] Inr
    by (auto simp: identity_ok_def identity_rename_def)
  then show ?thesis using m Inr
    by (intro effect_identity [of _ _ "identity_rename i v"] advances_identity)
      (auto simp: rename_user_def persist_identity_def identity_rename_def Let_def)
qed

lemma accept_effect:
  assumes m: "messenger_ok m" "ms_identity m = Some i" and p: "post_ok p"
  shows "command_effect ports (AcceptReceived p) m i"
proof -
  obtain r u where ins: "insert_received (ms_timeline m) p = (r, u)" by fastforce
  show ?thesis
  proof (cases "insert_error r")
    case None
    then show ?thesis
      using m ins insert_advances [OF m p ins [unfolded insert_received_def]]
      by (intro effect_timeline [of _ _ u]) (auto simp: accept_received_def persist_timeline_def Let_def)
  next
    case (Some e)
    then show ?thesis using m ins by (intro effect_none) (simp add: accept_received_def)
  qed
qed

lemma transition_effect:
  assumes m: "messenger_ok m" "ms_identity m = Some i"
    and x: "\<And>oks. execute (answered ports oks) c m = messenger_transition (answered ports oks) mid b m"
  shows "command_effect ports c m i"
proof -
  obtain r u where t: "(if b then timeline_mark_broadcast (ms_timeline m) mid else timeline_mark_failed (ms_timeline m) mid) = (r, u)"
    by (metis prod.exhaust)
  have adv: "advances i (ms_timeline m) i u"
    using t transition_advances [OF m, of mid] by (auto simp: timeline_mark_broadcast_def timeline_mark_failed_def split: if_splits)
      (metis snd_conv)+
  show ?thesis
  proof (cases r)
    case None
    with adv show ?thesis using m t x
      by (intro effect_timeline [of _ _ u]) (auto simp: messenger_transition_def persist_timeline_def Let_def)
  next
    case (Some e)
    then show ?thesis using m t x by (intro effect_none) (simp add: messenger_transition_def)
  qed
qed

lemma compose_effect:
  assumes m: "messenger_ok m" "ms_identity m = Some i" and p: "ports_wf ports" and c: "command_wf (Compose d)"
  shows "command_effect ports (Compose d) m i"
proof (cases "\<exists>n mid. compose_admits ports d m i n mid")
  case False
  then have "\<not> compose_admits (answered ports oks) d m j n mid" for oks j n mid
    using m(2) by (auto simp: compose_admits_def)
  from compose_refused [OF this] show ?thesis by (intro effect_none) simp
next
  case True
  then obtain n mid where ad: "compose_admits ports d m i n mid" by blast
  obtain r u where ins: "insert_local (ms_timeline m) (composed_post i n mid d (port_clock ports)) Queued = (r, u)"
    by fastforce
  let ?j = "i\<lparr>last_issued_sender_sequence := n\<rparr>"
  have cm: "compose (answered ports oks) d m = compose_commit (answered ports oks) ?j u r mid m" for oks
    using admitted_compose(1) [of "answered ports oks" d m i n mid r u] ad m p c ins by simp
  have ok: "insert_error r = None" "post_ok (composed_post i n mid d (port_clock ports))"
    using admitted_compose(2,3) [OF ad m(1) p c ins] .
  have next_n: "next_sender_sequence i = Some n" using ad by (simp add: compose_admits_def)
  have adv: "advances i (ms_timeline m) ?j u" by (rule compose_advances [OF m(1) ad ok(2) ins ok(1)])
  have "advances i (ms_timeline m) ?j (ms_timeline m)"
    using messenger_okD(3) [OF m] next_sequence_increases(1) [OF next_n]
    by (intro advances_identity [OF m(1)]) (simp_all add: identity_ok_def)
  then show ?thesis using adv
    by (rule effect_both) (auto simp: cm compose_commit_def persist_identity_def persist_timeline_def Let_def)
qed

lemma execute_effect:
  assumes m: "messenger_ok m" "ms_identity m = Some i" and p: "ports_wf ports" and c: "command_wf c"
  shows "command_effect ports c m i"
proof (cases c)
  case (InitializeNew u)
  then show ?thesis using m by (intro effect_none) (simp add: initialize_new_def)
next
  case (RestoreIdentity j)
  then show ?thesis using m by (intro effect_none) (simp add: restore_identity_def)
next
  case (RestoreState j t)
  then show ?thesis using m by (intro effect_none) (simp add: restore_state_def)
next
  case (MarkBroadcast mid)
  then show ?thesis using m by (intro transition_effect [where mid = mid and b = True]) (simp_all add: messenger_mark_broadcast_def)
next
  case (MarkFailed mid)
  then show ?thesis using m by (intro transition_effect [where mid = mid and b = False]) (simp_all add: messenger_mark_failed_def)
qed (use rename_effect [OF m] compose_effect [OF m p] accept_effect [OF m] c in auto)

section \<open>The durable state\<close>

text \<open>The identity \<open>i\<close> and the history \<open>t\<close> are on disk, and the ledger in memory is the stored one.\<close>

definition live :: "identity \<Rightarrow> timeline \<Rightarrow> session \<Rightarrow> disk \<Rightarrow> bool" where
  "live i t s d \<longleftrightarrow>
     (\<exists>st. settings s = Some st \<and> dk_settings d = Some st \<and> identity_from st = i \<and> history_initialized st) \<and>
     identity_ok i \<and> timeline_posts_ok t \<and> tl_capacity t = kMaxTimelineEntries \<and> own_posts_ok i (entries t) \<and>
     dedupe_ok (dedupe s) \<and> dd_capacity (dedupe s) = kDefaultSeenMessageCapacity \<and>
     list_all (remembered (dedupe s)) (entries t) \<and>
     dk_history d = snapshot_tables (timeline_snapshot t (dedupe s)) i"

definition session_live :: "session \<Rightarrow> disk \<Rightarrow> bool" where
  "session_live s d \<longleftrightarrow>
     (\<exists>i. ms_identity (messenger s) = Some i \<and> live i (ms_timeline (messenger s)) s d)"

text \<open>A disk a new session can start from.\<close>

definition disk_holds :: "settings_record \<Rightarrow> history_snapshot \<Rightarrow> disk \<Rightarrow> bool" where
  "disk_holds st snapshot d \<longleftrightarrow>
     dk_settings d = Some st \<and> history_initialized st \<and> identity_ok (identity_from st) \<and>
     dk_history d = snapshot_tables snapshot (identity_from st) \<and> snapshot_ok snapshot (identity_from st) \<and>
     list_all (\<lambda>e. post_ok (entry_post e)) (hs_entries snapshot)"

definition disk_ok :: "disk \<Rightarrow> bool" where
  "disk_ok d \<longleftrightarrow> (\<exists>st snapshot. disk_holds st snapshot d)"

lemma timeline_snapshot_simps [simp]:
  "hs_entries (timeline_snapshot t w) = entries t"
  "hs_last_assigned_order (timeline_snapshot t w) = last_assigned_order t"
  "hs_seen_messages (timeline_snapshot t w) = dd_records w"
  "hs_last_seen_order (timeline_snapshot t w) = last_seen_order w"
  by (simp_all add: timeline_snapshot_def)

lemma snapshot_tables_install:
  "identity_install_id i = identity_install_id j \<Longrightarrow> snapshot_tables s i = snapshot_tables s j"
  by (simp add: snapshot_tables_def meta_rows_def)

lemma timeline_snapshot_ok:
  assumes "timeline_ok t" "tl_capacity t = kMaxTimelineEntries" "own_posts_ok i (entries t)" "dedupe_ok w"
    "dd_capacity w = kDefaultSeenMessageCapacity" "list_all (remembered w) (entries t)"
  shows "snapshot_ok (timeline_snapshot t w) i"
proof -
  have "dedupe_restore kDefaultSeenMessageCapacity (last_seen_order w) (dd_records w) = Inr w"
    using assms(4,5) unfolding dedupe_restore_Inr by (cases w) simp
  then show ?thesis using assms
    by (auto simp: snapshot_ok_def timeline_ok_def queued_count_def queued_capacity_def
        simp del: kDefaultSeenMessageCapacity_def)
qed

lemma live_snapshot_ok: "live i t s d \<Longrightarrow> snapshot_ok (timeline_snapshot t (dedupe s)) i"
  by (auto simp: live_def timeline_posts_ok_def intro!: timeline_snapshot_ok simp del: kDefaultSeenMessageCapacity_def)

lemma live_holds:
  assumes "live i t s d"
  shows "\<exists>st. disk_holds st (timeline_snapshot t (dedupe s)) d \<and> identity_from st = i"
  using assms live_snapshot_ok [OF assms]
  by (auto simp: live_def disk_holds_def timeline_posts_ok_def)

lemma live_disk_ok: "live i t s d \<Longrightarrow> disk_ok d"
  using live_holds unfolding disk_ok_def by blast

lemma settings_identity [simp]:
  "identity_from \<lparr>generation = g, st_install_id = identity_install_id i, st_user_id = identity_user_id i,
     sender_sequence_high_watermark = last_issued_sender_sequence i, st_locale = l,
     history_initialized = h, st_skip_title = k\<rparr> = i"
  by (simp add: identity_from_def identity_restore_def)

lemma live_settings:
  assumes "live i t s d" "identity_from st = j" "history_initialized st" "identity_ok j"
    "identity_install_id j = identity_install_id i" "own_posts_ok j (entries t)"
  shows "live j t (s\<lparr>settings := Some st\<rparr>) (d\<lparr>dk_settings := Some st\<rparr>)"
  using assms snapshot_tables_install [of i j] by (auto simp: live_def)

text \<open>A settings change: accepted, it is in memory and on disk; refused, the disk is still one to start from.\<close>

lemma commit_settings_live:
  assumes l: "live i t s d" and st: "identity_from st = j" "history_initialized st" "identity_ok j"
    "identity_install_id j = identity_install_id i" "own_posts_ok j (entries t)"
    and run: "commit_settings ans st s d = (ok, s', d')"
  shows "(if ok then live j t s' d' \<and> s' = s\<lparr>settings := Some st\<rparr>
          else disk_ok d' \<and> (s' = s \<and> d' = d \<or> startup_status s' \<noteq> SessionReady)) \<and>
    messenger s' = messenger s \<and> closed s' = closed s"
proof -
  have new: "live j t (s\<lparr>settings := Some st\<rparr>) (d\<lparr>dk_settings := Some st\<rparr>)" by (rule live_settings [OF l st])
  then show ?thesis using run live_disk_ok [OF new] live_disk_ok [OF l]
    by (cases ans) (auto simp: commit_settings_def settings_save_def split: if_splits)
qed

lemma persist_identity_live:
  assumes l: "live i t s d" and adv: "advances i t j t"
    and run: "session_persist_identity ans j s d = (ok, s', d')"
  shows "(if ok then live j t s' d' \<and> startup_status s' = startup_status s
          else disk_ok d' \<and> (s' = s \<and> d' = d \<or> startup_status s' \<noteq> SessionReady)) \<and>
    messenger s' = messenger s \<and> closed s' = closed s"
proof -
  obtain st where st: "settings s = Some st" "history_initialized st" using l by (auto simp: live_def)
  have own: "own_posts_ok i (entries t)" using l by (simp add: live_def)
  let ?st = "\<lparr>generation = generation st + 1, st_install_id = identity_install_id j, st_user_id = identity_user_id j,
       sender_sequence_high_watermark = last_issued_sender_sequence j, st_locale = st_locale st,
       history_initialized = history_initialized st, st_skip_title = st_skip_title st\<rparr>"
  have "session_persist_identity ans j s d = (False, s, d) \<or> session_persist_identity ans j s d = commit_settings ans ?st s d"
    using st(1) by (simp add: session_persist_identity_def)
  then show ?thesis
  proof
    assume "session_persist_identity ans j s d = (False, s, d)"
    then show ?thesis using run live_disk_ok [OF l] by auto
  next
    assume "session_persist_identity ans j s d = commit_settings ans ?st s d"
    then have c: "commit_settings ans ?st s d = (ok, s', d')" using run by simp
    have pre: "history_initialized ?st" "identity_ok j" "identity_install_id j = identity_install_id i"
        "own_posts_ok j (entries t)"
      using adv own st(2) by (simp_all add: advances_def)
    from commit_settings_live [OF l settings_identity pre c] show ?thesis by (auto split: if_splits)
  qed
qed

lemma persist_timeline_live:
  assumes l: "live i t s d" and t: "t = ms_timeline (messenger s)"
    and u: "timeline_posts_ok u" "tl_capacity u = tl_capacity t" "own_posts_ok i (entries u)"
    and run: "session_persist_timeline io u s d = (ok, s', d')"
  shows "(if ok then live i u s' d' \<and> startup_status s' = startup_status s
          else d' = d \<and> (s' = s \<or> startup_status s' \<noteq> SessionReady)) \<and>
    messenger s' = messenger s \<and> closed s' = closed s"
proof -
  obtain st where st: "settings s = Some st" "dk_settings d = Some st" "identity_from st = i" "history_initialized st"
    using l by (auto simp: live_def)
  have d: "dedupe_ok (dedupe s)" "dd_capacity (dedupe s) = kDefaultSeenMessageCapacity" "identity_ok i"
    "tl_capacity t = kMaxTimelineEntries"
    using l by (auto simp: live_def)
  have dist: "distinct (map entry_id (entries u))" using u(1) by (simp add: timeline_posts_ok_def timeline_ok_def)
  show ?thesis
  proof (cases "persist_loop (ms_timeline (messenger s)) (map entry_id (entries u)) (entries u) (dedupe s)")
    case (PersistReady w)
    from persist_loop_Ready [OF PersistReady d(1) _ dist]
    have w: "dedupe_ok w" "dd_capacity w = kDefaultSeenMessageCapacity" "list_all (remembered w) (entries u)"
      using d(2) by auto
    have ok: "snapshot_ok (timeline_snapshot u w) i"
      by (rule timeline_snapshot_ok) (use u d w in \<open>auto simp: timeline_posts_ok_def simp del: kDefaultSeenMessageCapacity_def\<close>)
    obtain r db where save: "save_snapshot (sio_preflight io) (write_snapshot (sio_write io)) (timeline_snapshot u w) i
        (dk_history d) = (r, db)" by fastforce
    have same: "r \<noteq> None \<Longrightarrow> db = dk_history d" "r = None \<Longrightarrow> db = snapshot_tables (timeline_snapshot u w) i"
      using save_snapshot_outcome [OF save] reconcile_ok_same [OF ok] by auto
    have "live i u (s\<lparr>dedupe := w\<rparr>) (d\<lparr>dk_history := snapshot_tables (timeline_snapshot u w) i\<rparr>)"
      using st u d w by (auto simp: live_def simp del: kDefaultSeenMessageCapacity_def)
    then show ?thesis using run st PersistReady save same
      by (auto simp: session_persist_timeline_def split: if_splits option.splits)
  qed (use run st in \<open>auto simp: session_persist_timeline_def split: if_splits\<close>)
qed

section \<open>Session steps\<close>

text \<open>The invariant of a running session: the disk is always one to start from, and while the session is ready what it
  shows is what is stored, also after it was closed.\<close>

definition session_inv :: "session \<Rightarrow> disk \<Rightarrow> bool" where
  "session_inv s d \<longleftrightarrow> disk_ok d \<and> (startup_status s = SessionReady \<longrightarrow> session_live s d)"

lemma unready_answers:
  assumes "startup_status s \<noteq> SessionReady" "answer_calls io calls s d = (oks, s', d')"
  shows "s' = s \<and> d' = d"
proof (cases calls)
  case (Cons c cs)
  then show ?thesis using assms
    by (cases c) (auto simp: session_persist_identity_def session_persist_timeline_def split: option.splits)
qed (use assms in simp)

lemma session_messenger_ok: "session_live s d \<Longrightarrow> messenger_ok (messenger s)"
  by (auto simp: session_live_def live_def messenger_ok_def)

lemma session_execute_alt:
  "session_execute io ports c s d =
     (let (oks, s', d') = answer_calls io (snd (snd (execute (answered ports (True, True)) c (messenger s)))) s d
      in (fst (execute (answered ports oks) c (messenger s)),
          s'\<lparr>messenger := fst (snd (execute (answered ports oks) c (messenger s)))\<rparr>, d'))"
  by (auto simp: session_execute_def answered_def Let_def split: prod.splits)

lemma live_messenger [simp]: "live i t (s\<lparr>messenger := m\<rparr>) d \<longleftrightarrow> live i t s d"
  by (simp add: live_def)

lemma session_live_set: "live i t s d \<Longrightarrow> ms_identity m = Some i \<Longrightarrow> ms_timeline m = t \<Longrightarrow> session_live (s\<lparr>messenger := m\<rparr>) d"
  by (simp add: session_live_def)

lemma session_live_same: "session_live s d \<Longrightarrow> s1 = s \<Longrightarrow> session_live (s1\<lparr>messenger := messenger s\<rparr>) d"
  by simp

lemma execute_ready:
  assumes l: "session_live s d" and p: "ports_wf ports" and c: "command_wf c"
    and run: "session_execute io ports c s d = (r, s', d')"
  shows "disk_ok d' \<and> closed s' = closed s \<and> (startup_status s' = SessionReady \<longrightarrow> session_live s' d')"
proof -
  let ?m = "messenger s" and ?t = "ms_timeline (messenger s)"
  obtain i where i: "ms_identity ?m = Some i" and li: "live i ?t s d" using l by (auto simp: session_live_def)
  have own: "own_posts_ok i (entries ?t)" using li by (simp add: live_def)
  from execute_effect [OF session_messenger_ok [OF l] i p c] show ?thesis
  proof cases
    case effect_none
    then show ?thesis using run l live_disk_ok [OF li] by (auto simp: session_execute_alt)
  next
    case (effect_identity j)
    obtain ok s1 d1 where q: "session_persist_identity (sio_settings io) j s d = (ok, s1, d1)" by (metis prod_cases3)
    note pi = persist_identity_live [OF li effect_identity(1) q]
    have "s' = s1\<lparr>messenger := (if ok then ?m\<lparr>ms_identity := Some j\<rparr> else ?m)\<rparr> \<and> d' = d1"
      using run q by (cases ok) (simp_all add: session_execute_alt effect_identity(2))
    then show ?thesis using pi l live_disk_ok [of j ?t s1 d1]
      by (cases ok) (auto intro: session_live_set session_live_same)
  next
    case (effect_timeline u)
    obtain ok s1 d1 where q: "session_persist_timeline io u s d = (ok, s1, d1)" by (metis prod_cases3)
    have u: "timeline_posts_ok u" "tl_capacity u = tl_capacity ?t" "own_posts_ok i (entries u)"
      using effect_timeline(1) own by (auto simp: advances_def)
    note pt = persist_timeline_live [OF li refl u q]
    have "s' = s1\<lparr>messenger := (if ok then ?m\<lparr>ms_timeline := u\<rparr> else ?m)\<rparr> \<and> d' = d1"
      using run q by (cases ok) (simp_all add: session_execute_alt effect_timeline(2))
    then show ?thesis using pt l i live_disk_ok [OF li] live_disk_ok [of i u s1 d1]
      by (cases ok) (auto intro: session_live_set session_live_same)
  next
    case (effect_both j u)
    obtain ok s1 d1 where q: "session_persist_identity (sio_settings io) j s d = (ok, s1, d1)" by (metis prod_cases3)
    note pi = persist_identity_live [OF li effect_both(1) q]
    show ?thesis
    proof (cases ok)
      case False
      then have "s' = s1\<lparr>messenger := ?m\<rparr> \<and> d' = d1"
        using run q by (simp add: session_execute_alt effect_both(3))
      then show ?thesis using pi l False by (auto intro: session_live_same)
    next
      case True
      obtain ok2 s2 d2 where q2: "session_persist_timeline io u s1 d1 = (ok2, s2, d2)" by (metis prod_cases3)
      have u: "timeline_posts_ok u" "tl_capacity u = tl_capacity ?t" "own_posts_ok j (entries u)"
        using effect_both(2) own by (auto simp: advances_def)
      have l1: "live j ?t s1 d1" "messenger s1 = ?m" using pi True by auto
      note pt = persist_timeline_live [OF l1(1) _ u q2]
      have s': "s' = s2\<lparr>messenger := (if ok2 then ?m\<lparr>ms_identity := Some j, ms_timeline := u\<rparr>
          else ?m\<lparr>ms_identity := Some j\<rparr>)\<rparr> \<and> d' = d2"
        using run q q2 True by (cases ok2) (simp_all add: session_execute_alt effect_both(3))
      show ?thesis using s' pt l1 pi live_disk_ok [OF l1(1)] live_disk_ok [of j u s2 d2]
        by (cases ok2) (auto intro: session_live_set)
    qed
  qed
qed

lemma execute_inv:
  assumes inv: "session_inv s d" and p: "ports_wf ports" and c: "command_wf c"
    and run: "session_execute io ports c s d = (r, s', d')"
  shows "session_inv s' d'"
proof (cases "startup_status s = SessionReady")
  case True
  then show ?thesis using execute_ready [OF _ p c run] inv by (auto simp: session_inv_def)
next
  case False
  obtain oks s1 d1 where a: "answer_calls io (snd (snd (execute (answered ports (True, True)) c (messenger s)))) s d = (oks, s1, d1)"
    by (metis prod_cases3)
  have "s1 = s \<and> d1 = d" by (rule unready_answers [OF _ a]) (use False in auto)
  then have "d' = d" "startup_status s' = startup_status s" "closed s' = closed s"
    using run a by (auto simp: session_execute_alt)
  then show ?thesis using False inv by (auto simp: session_inv_def)
qed

lemma accept_post_inv:
  assumes inv: "session_inv s d" and p: "ports_wf ports"
    and run: "accept_received_post io ports b s d = (r, s', d')"
  shows "session_inv s' d'"
proof (cases "\<exists>q r'. decode_post_bytes b = Inr q \<and> session_execute io ports (AcceptReceived q) s d = (r', s', d')")
  case True
  then obtain q r' where q: "decode_post_bytes b = Inr q" "session_execute io ports (AcceptReceived q) s d = (r', s', d')"
    by blast
  then have "command_wf (AcceptReceived q)" by (simp add: decode_post_bytes_def decode_post_Inr_encode)
  then show ?thesis using execute_inv [OF inv p _ q(2)] by blast
next
  case False
  then have "s' = s \<and> d' = d" using run
    by (auto simp: accept_received_post_def split: if_splits sum.splits dedupe_classification.splits prod.splits)
  then show ?thesis using inv by simp
qed

lemma settings_change_inv:
  assumes inv: "session_inv s d" and st: "settings s = Some st"
    and ready: "startup_status s = SessionReady"
    and same: "identity_from st' = identity_from st" "history_initialized st' = history_initialized st"
    and run: "commit_settings ans st' s d = (ok, s', d')"
  shows "session_inv s' d'"
proof -
  obtain i where i: "ms_identity (messenger s) = Some i" "live i (ms_timeline (messenger s)) s d"
    using inv ready by (auto simp: session_inv_def session_live_def)
  have pre: "identity_from st' = i" "history_initialized st'" "identity_ok i" "identity_install_id i = identity_install_id i"
    "own_posts_ok i (entries (ms_timeline (messenger s)))"
    using i(2) st same by (auto simp: live_def)
  from commit_settings_live [OF i(2) pre run] i inv ready show ?thesis
    using live_disk_ok [of i "ms_timeline (messenger s)" s' d']
    by (auto simp: session_inv_def session_live_def split: if_splits)
qed

lemma set_locale_inv:
  "session_inv s d \<Longrightarrow> set_locale ans loc s d = (ok, s', d') \<Longrightarrow> session_inv s' d'"
  by (auto simp: set_locale_def identity_from_def split: option.splits if_splits
      intro: settings_change_inv [where st' = "x\<lparr>generation := g, st_locale := loc\<rparr>" for x g])

lemma set_skip_title_inv:
  "session_inv s d \<Longrightarrow> set_skip_title ans skip s d = (ok, s', d') \<Longrightarrow> session_inv s' d'"
  by (auto simp: set_skip_title_def identity_from_def split: option.splits if_splits
      intro: settings_change_inv [where st' = "x\<lparr>generation := g, st_skip_title := skip\<rparr>" for x g])

lemma shutdown_inv: "session_inv s d \<Longrightarrow> session_inv (session_shutdown s) d"
  by (auto simp: session_inv_def session_shutdown_def release_locks_def session_live_def live_def)

inductive session_step :: "session \<times> disk \<Rightarrow> session \<times> disk \<Rightarrow> bool" where
  step_execute: "ports_wf ports \<Longrightarrow> command_wf c \<Longrightarrow> session_execute io ports c s d = (r, s', d') \<Longrightarrow>
    session_step (s, d) (s', d')"
| step_accept: "ports_wf ports \<Longrightarrow> accept_received_post io ports b s d = (q, s', d') \<Longrightarrow> session_step (s, d) (s', d')"
| step_locale: "set_locale ans loc s d = (ok, s', d') \<Longrightarrow> session_step (s, d) (s', d')"
| step_skip_title: "set_skip_title ans skip s d = (ok, s', d') \<Longrightarrow> session_step (s, d) (s', d')"
| step_shutdown: "session_step (s, d) (session_shutdown s, d)"

inductive_cases session_stepE: "session_step (s, d) (s', d')"

lemma session_step_inv: "session_step x y \<Longrightarrow> session_inv (fst x) (snd x) \<Longrightarrow> session_inv (fst y) (snd y)"
  by (induction rule: session_step.induct)
    (auto intro: execute_inv accept_post_inv set_locale_inv set_skip_title_inv shutdown_inv)

lemma session_steps_inv: "session_step\<^sup>*\<^sup>* x y \<Longrightarrow> session_inv (fst x) (snd x) \<Longrightarrow> session_inv (fst y) (snd y)"
  by (induction rule: rtranclp_induct) (auto intro: session_step_inv)

section \<open>A healthy disk\<close>

lemma ledger_loop_own:
  assumes "list_all (\<lambda>r. length (message_uuid (seen_message_id r)) = 16) rs"
  shows "ledger_loop (map (\<lambda>r. map (column (seen_row r)) [0, 2, 3]) rs) rs = Some []"
  using assms
proof (induction rs)
  case (Cons r rs)
  have c: "column [a, b, c] 0 = a" "column [a, b, c] 1 = b" "column [a, b, c] (Suc 0) = b" "column [a, b, c] 2 = c" for a b c
    by (simp_all add: column_def)
  have d: "decode_uint64 [a, b, bind_uint64 v] 2 = Some v" for a b v by (rule decode_bind_uint64) (simp add: c)
  show ?case using Cons by (simp add: c d bind_uuid_def)
qed simp

definition write_healthy :: "write_io \<Rightarrow> history_db \<Rightarrow> bool" where
  "write_healthy io db \<longleftrightarrow> wio_begin io = None \<and> wio_statements io = (\<lambda>_. StmtDone) \<and> wio_commit io = None \<and> write_answers io db"

lemma write_succeeds:
  assumes io: "write_healthy io (snapshot_tables s0 i0)"
    and ok: "snapshot_ok s0 i0" and i: "identity_ok i0" "identity_install_id i = identity_install_id i0"
    and fwd: "hs_last_assigned_order s0 \<le> hs_last_assigned_order s" "hs_last_seen_order s0 \<le> hs_last_seen_order s"
    and same: "hs_last_seen_order s = hs_last_seen_order s0 \<Longrightarrow> hs_seen_messages s = hs_seen_messages s0"
  shows "write_snapshot io s i (snapshot_tables s0 i0) = (None, snapshot_tables s i)"
proof -
  have wf: "uuid_wf (install_uuid (identity_install_id i0))" using i(1) by (simp add: identity_ok_def uuid_ok_def)
  have meta: "load_metadata (wio_meta io) (wio_counts io) = Inr (written_metadata s0 i0)"
    using io load_metadata_back [OF wf]
    by (auto simp: write_healthy_def write_answers_def cursor_delivers_def snapshot_tables_def dest!: meta_delivered [simplified])
  have seen: "dedupe_ok \<lparr>dd_capacity = kDefaultSeenMessageCapacity, last_seen_order = hs_last_seen_order s0,
       dd_records = hs_seen_messages s0\<rparr>" by (rule snapshot_okD(6) [OF ok])
  then have "sorted_wrt (<) (map seen_order (hs_seen_messages s0))" by (simp add: dedupe_ok_def)
  with io have led: "wio_ledger io = Inr (map (\<lambda>r. map (column (seen_row r)) [0, 2, 3]) (hs_seen_messages s0), SQLITE_DONE)"
    by (intro ledger_delivered) (auto simp: write_healthy_def write_answers_def snapshot_tables_def)
  have "list_all (\<lambda>r. length (message_uuid (seen_message_id r)) = 16) (hs_seen_messages s0)"
    using seen by (auto simp: dedupe_ok_def list_all_iff record_canonical_def post_ok_def uuid_ok_def uuid_wf_def)
  from ledger_loop_own [OF this]
  have "hs_last_seen_order s = hs_last_seen_order s0 \<Longrightarrow> ledger_matches_snapshot (wio_ledger io) s = Inr True"
    using same by (simp add: ledger_matches_snapshot_def led)
  then have "write_checks io s i = None" using meta fwd i(2) by (auto simp: write_checks_def identity_matches_def not_less)
  then show ?thesis using io by (intro write_snapshot_healthy) (simp_all add: write_healthy_def)
qed

lemma save_succeeds:
  assumes "write_healthy io (snapshot_tables s0 i0)" "snapshot_ok s0 i0" "identity_ok i0"
    "identity_install_id i = identity_install_id i0"
    "hs_last_assigned_order s0 \<le> hs_last_assigned_order s" "hs_last_seen_order s0 \<le> hs_last_seen_order s"
    "hs_last_seen_order s = hs_last_seen_order s0 \<Longrightarrow> hs_seen_messages s = hs_seen_messages s0"
    "snapshot_ok s i"
  shows "save_snapshot None (write_snapshot io) s i (snapshot_tables s0 i0) = (None, snapshot_tables s i)"
  using write_succeeds [OF assms(1-7)] reconcile_ok_same [OF assms(8)] validate_snapshot_None [of s i] assms(8)
  by (simp add: save_snapshot_def)

text \<open>The answers of a start on the disk \<open>d\<close> when nothing fails.\<close>

definition boot_answers :: "boot_io \<Rightarrow> disk \<Rightarrow> bool" where
  "boot_answers io d \<longleftrightarrow>
     bio_environment io \<and> bio_directories io \<and> bio_config_lock io = LockAcquired \<and> bio_data_lock io = LockAcquired \<and>
     bio_probe io = None \<and> (\<exists>st. dk_settings d = Some st \<and> bio_settings io = SettingsLoaded st) \<and>
     bio_stat io = StatFound True \<and> bio_open io = None \<and> load_answers (bio_load io) (dk_history d) \<and>
     bio_recover_preflight io = None \<and> write_healthy (bio_recover_write io) (dk_history d)"

section \<open>Recovery\<close>

lemma recover_entry_simps [simp]:
  "entry_post (recover_entry e) = entry_post e" "received_order (recover_entry e) = received_order e"
  "entry_is_local (recover_entry e) = entry_is_local e" "entry_is_queued (recover_entry e) = False"
  by (auto simp: recover_entry_def entry_is_local_def entry_is_queued_def)

lemma recover_entry_idle: "\<not> list_ex entry_is_queued es \<Longrightarrow> map recover_entry es = es"
  by (induction es) (auto simp: recover_entry_def)

definition recover_snapshot :: "history_snapshot \<Rightarrow> history_snapshot" where
  "recover_snapshot s = s\<lparr>hs_entries := map recover_entry (hs_entries s)\<rparr>"

lemma recover_snapshot_simps [simp]:
  "hs_entries (recover_snapshot s) = map recover_entry (hs_entries s)"
  "hs_last_assigned_order (recover_snapshot s) = hs_last_assigned_order s"
  "hs_seen_messages (recover_snapshot s) = hs_seen_messages s"
  "hs_last_seen_order (recover_snapshot s) = hs_last_seen_order s"
  by (simp_all add: recover_snapshot_def)

lemma recover_snapshot_ok: "snapshot_ok s i \<Longrightarrow> snapshot_ok (recover_snapshot s) i"
proof -
  have ids: "map (\<lambda>e. entry_id (recover_entry e)) es = map entry_id es" for es by simp
  have loc: "filter (\<lambda>e. entry_is_local (recover_entry e)) es = filter entry_is_local es" for es by simp
  have q: "filter (\<lambda>e. entry_is_queued (recover_entry e)) es = []" for es by simp
  have rem: "remembered w (recover_entry e) = remembered w e" for w e by (simp add: remembered_def)
  assume "snapshot_ok s i"
  then show ?thesis
    by (auto simp: snapshot_ok_def recover_snapshot_def own_posts_ok_def comp_def filter_map list.pred_map rem)
qed

lemma snapshot_timeline_ok:
  assumes "snapshot_ok s i"
  shows "timeline_ok \<lparr>tl_capacity = kMaxTimelineEntries, last_assigned_order = hs_last_assigned_order s, entries = hs_entries s\<rparr>"
  using assms by (auto simp: snapshot_ok_def timeline_ok_def queued_count_def queued_capacity_def)

text \<open>The session a start on a stored snapshot gives.\<close>

definition recovered_session :: "settings_record \<Rightarrow> history_snapshot \<Rightarrow> session" where
  "recovered_session st snapshot =
     \<lparr>messenger = \<lparr>ms_identity = Some (identity_from st),
        ms_timeline = \<lparr>tl_capacity = kMaxTimelineEntries, last_assigned_order = hs_last_assigned_order snapshot,
          entries = map recover_entry (hs_entries snapshot)\<rparr>\<rparr>,
      dedupe = \<lparr>dd_capacity = kDefaultSeenMessageCapacity, last_seen_order = hs_last_seen_order snapshot,
        dd_records = hs_seen_messages snapshot\<rparr>,
      startup_status = SessionReady, has_paths = True, has_settings_store = True, settings = Some st,
      has_history = True, config_lock = True, data_lock = True, closed = False\<rparr>"

lemma restore_loaded_ready:
  assumes h: "disk_holds st snapshot d" and io: "bio_recover_preflight io = None" "write_healthy (bio_recover_write io) (dk_history d)"
    and s: "ms_identity (messenger s) = None" "settings s = Some st" "has_history s"
  shows "restore_loaded io (identity_from st) snapshot s d =
    (s\<lparr>dedupe := dedupe (recovered_session st snapshot), messenger := messenger (recovered_session st snapshot),
       startup_status := SessionReady\<rparr>,
     d\<lparr>dk_history := snapshot_tables (recover_snapshot snapshot) (identity_from st)\<rparr>)"
proof -
  let ?i = "identity_from st" and ?w = "dedupe (recovered_session st snapshot)"
  have ok: "snapshot_ok snapshot ?i" "identity_ok ?i" "dk_history d = snapshot_tables snapshot ?i"
    using h by (auto simp: disk_holds_def)
  have w: "dedupe_restore kDefaultSeenMessageCapacity (hs_last_seen_order snapshot) (hs_seen_messages snapshot) = Inr ?w"
    using snapshot_okD(6) [OF ok(1)] by (simp add: dedupe_restore_Inr recovered_session_def)
  have "save_snapshot None (write_snapshot (bio_recover_write io)) (recover_snapshot snapshot) ?i (dk_history d) =
      (None, snapshot_tables (recover_snapshot snapshot) ?i)"
    unfolding ok(3) by (rule save_succeeds) (use io ok recover_snapshot_ok [OF ok(1)] in auto)
  moreover have "\<not> list_ex entry_is_queued (hs_entries snapshot) \<Longrightarrow> recover_snapshot snapshot = snapshot"
    using recover_entry_idle [of "hs_entries snapshot"] by (simp add: recover_snapshot_def)
  ultimately have save: "(if list_ex entry_is_queued (hs_entries snapshot)
        then save_snapshot None (write_snapshot (bio_recover_write io)) (recover_snapshot snapshot) ?i (dk_history d)
        else (None, dk_history d)) = (None, snapshot_tables (recover_snapshot snapshot) ?i)"
    using ok(3) by auto
  have "timeline_restore kMaxTimelineEntries (hs_last_assigned_order snapshot) (map recover_entry (hs_entries snapshot)) =
      Inr (ms_timeline (messenger (recovered_session st snapshot)))"
    using snapshot_timeline_ok [OF recover_snapshot_ok [OF ok(1)]]
    by (simp add: timeline_restore_Inr recovered_session_def)
  then show ?thesis
    using w s unfolding restore_loaded_def Let_def recover_snapshot_def [symmetric] io(1) save
    by (simp add: session_restore_def restore_state_def recovered_session_def)
qed

lemma bootstrap_recovers:
  assumes h: "disk_holds st snapshot d" and io: "boot_answers io d"
  shows "bootstrap io d = (recovered_session st snapshot,
    d\<lparr>dk_history := snapshot_tables (recover_snapshot snapshot) (identity_from st)\<rparr>)"
proof -
  let ?i = "identity_from st"
  have st: "bio_settings io = SettingsLoaded st" "history_initialized st" "dk_history d = snapshot_tables snapshot ?i"
    using h io by (auto simp: disk_holds_def boot_answers_def)
  have load: "load_snapshot (bio_load io) ?i (dk_history d) = (Inr snapshot, dk_history d)"
    unfolding st(3) by (rule load_written [where i = ?i])
      (use h io in \<open>auto simp: disk_holds_def boot_answers_def identity_ok_def uuid_ok_def\<close>)
  have r: "bio_recover_preflight io = None" "write_healthy (bio_recover_write io) (dk_history d)"
    using io by (simp_all add: boot_answers_def)
  have d: "d\<lparr>dk_history := dk_history d\<rparr> = d" by simp
  show ?thesis
    using io st(1,2) load restore_loaded_ready [OF h r]
    by (simp add: boot_answers_def bootstrap_def Let_def acquire_lock_def acquire_one_lock_def bootstrap_loaded_settings_def
        open_loaded_history_def open_history_def finalize_history_initialization_def session_new_def recovered_session_def)
qed

lemma recovered_live:
  assumes h: "disk_holds st snapshot d"
  shows "session_live (recovered_session st snapshot)
    (d\<lparr>dk_history := snapshot_tables (recover_snapshot snapshot) (identity_from st)\<rparr>)"
proof -
  let ?i = "identity_from st" and ?s = "recovered_session st snapshot"
  let ?t = "ms_timeline (messenger ?s)"
  have ok: "snapshot_ok snapshot ?i" "identity_ok ?i" "dk_settings d = Some st" "history_initialized st"
    "list_all (\<lambda>e. post_ok (entry_post e)) (hs_entries snapshot)"
    using h by (auto simp: disk_holds_def)
  note rok = recover_snapshot_ok [OF ok(1)]
  have t: "timeline_posts_ok ?t" "entries ?t = hs_entries (recover_snapshot snapshot)"
    using snapshot_timeline_ok [OF rok] ok(5)
    by (auto simp: timeline_posts_ok_def recovered_session_def recover_snapshot_def list.pred_map comp_def)
  have w: "dedupe_ok (dedupe ?s)" using snapshot_okD(6) [OF ok(1)] by (simp add: recovered_session_def)
  have rem: "list_all (remembered (dedupe ?s)) (entries ?t)"
    using rok unfolding t(2) snapshot_ok_def
    by (auto simp: dedupe_restore_Inr recovered_session_def recover_snapshot_def)
  have "timeline_snapshot ?t (dedupe ?s) = recover_snapshot snapshot"
    by (simp add: timeline_snapshot_def recovered_session_def recover_snapshot_def)
  moreover have "own_posts_ok ?i (entries ?t)" using snapshot_okD(5) [OF rok] t(2) by simp
  ultimately show ?thesis using ok t w rem
    by (auto simp: session_live_def live_def) (simp_all add: recovered_session_def)
qed

lemma bootstrap_inv:
  assumes "disk_holds st snapshot d0" "boot_answers io d0" "bootstrap io d0 = (s, d)"
  shows "session_live s d" "session_inv s d"
proof -
  show "session_live s d"
    using assms(3) bootstrap_recovers [OF assms(1,2)] recovered_live [OF assms(1)] by auto
  then show "session_inv s d" by (auto simp: session_inv_def session_live_def intro: live_disk_ok)
qed

text \<open>A start after a session that keeps its invariant.\<close>

lemma inv_survives_restart:
  assumes inv: "session_inv s' d'" and boot: "boot_answers io d'"
  shows "\<exists>s'' d''. bootstrap io d' = (s'', d'') \<and> startup_status s'' = SessionReady \<and> session_live s'' d'' \<and>
    (startup_status s' = SessionReady \<longrightarrow>
       ms_identity (messenger s'') = ms_identity (messenger s') \<and> dedupe s'' = dedupe s' \<and>
       entries (ms_timeline (messenger s'')) = map recover_entry (entries (ms_timeline (messenger s'))))"
proof -
  obtain st1 snapshot1 where h: "disk_holds st1 snapshot1 d'"
      "startup_status s' = SessionReady \<Longrightarrow> ms_identity (messenger s') = Some (identity_from st1) \<and>
         snapshot1 = timeline_snapshot (ms_timeline (messenger s')) (dedupe s') \<and>
         dd_capacity (dedupe s') = kDefaultSeenMessageCapacity"
  proof (cases "startup_status s' = SessionReady")
    case True
    then obtain i where i: "ms_identity (messenger s') = Some i" "live i (ms_timeline (messenger s')) s' d'"
      using inv by (auto simp: session_inv_def session_live_def)
    moreover have "dd_capacity (dedupe s') = kDefaultSeenMessageCapacity" using i(2) by (simp add: live_def)
    ultimately show ?thesis using live_holds [OF i(2)] that by blast
  qed (use inv that in \<open>auto simp: session_inv_def disk_ok_def\<close>)
  then show ?thesis
    using bootstrap_recovers [OF h(1) boot] recovered_live [OF h(1)]
    by (cases "dedupe s'") (auto simp: recovered_session_def)
qed

section \<open>Accepting a received post\<close>

lemma protected_room:
  assumes "dedupe_ok w" "length prot < length (dd_records w)"
  shows "list_ex (\<lambda>r. \<not> is_protected (seen_message_id r) prot) (dd_records w)"
proof (rule ccontr)
  assume "\<not> ?thesis"
  then have "seen_message_id ` set (dd_records w) \<subseteq> set prot" by (auto simp: list_ex_iff is_protected_def)
  then have "card (seen_message_id ` set (dd_records w)) \<le> length prot"
    by (meson card_length card_mono finite_set le_trans)
  moreover have "card (seen_message_id ` set (dd_records w)) = length (dd_records w)"
    using assms(1) distinct_card [of "map seen_message_id (dd_records w)"] by (simp add: dedupe_ok_def)
  ultimately show False using assms(2) by simp
qed

lemma remember_new_succeeds:
  assumes w: "dedupe_ok w" "dd_capacity w = kDefaultSeenMessageCapacity" "last_seen_order w \<noteq> u64_max"
    and p: "post_ok p" "encode_post p = Inr b" and new: "dedupe_classify w (message_id p) b = NewMessage"
    and prot: "length prot \<le> kMaxTimelineEntries"
  shows "\<exists>w'. dedupe_remember w p b prot = (None, w') \<and> last_seen_order w' = last_seen_order w + 1"
proof -
  have "decode_post (Some b) = Inr p" using p by (simp add: decode_post_Inr_encode)
  moreover have "length (dd_records w) \<ge> dd_capacity w \<Longrightarrow>
      list_ex (\<lambda>r. \<not> is_protected (seen_message_id r) prot) (dd_records w)"
    using protected_room [OF w(1), of prot] w(2) prot by simp
  ultimately show ?thesis using w new p
    by (auto simp: dedupe_remember_def dedupe_push_def Let_def)
qed

lemma remembered_not_new: "remembered w e \<Longrightarrow> dedupe_classify w (entry_id e) b \<noteq> NewMessage"
  by (metis classify_cases(1) dedupe_classification.distinct(1) remembered_def)

definition session_open :: "session \<Rightarrow> bool" where
  "session_open s \<longleftrightarrow> startup_status s = SessionReady \<and> \<not> closed s \<and> has_history s \<and> has_settings_store s"

lemma new_post_inserted:
  assumes l: "live i t s d" and p: "post_ok p" "encode_post p = Inr b"
    and new: "dedupe_classify (dedupe s) (message_id p) b = NewMessage" and lao: "last_assigned_order t \<noteq> u64_max"
  shows "\<exists>r. insert_received t p = (r, t\<lparr>entries := kept_entries t None @ [stamped t p ReceivedOrigin],
      last_assigned_order := last_assigned_order t + 1\<rparr>) \<and> insert_error r = None"
proof -
  have t: "timeline_ok t" "list_all (remembered (dedupe s)) (entries t)" using l by (auto simp: live_def timeline_posts_ok_def)
  have find: "timeline_find t (message_id p) = None"
    unfolding find_None_entry using t(2) remembered_not_new [of "dedupe s" _ b] new by (auto simp: list_all_iff)
  obtain r u where ins: "timeline_insert t p ReceivedOrigin None = (r, u)" by fastforce
  have "insert_error r \<noteq> Some Full" by (rule insert_never_full [OF t(1) ins]) simp
  then have "insertion_availability t None = None"
    using ins find lao
    by (auto simp: timeline_insert_def insert_refused_def insertion_availability_def split: option.splits if_splits)
  with timeline_insert_available [of t p ReceivedOrigin None] find t(1) show ?thesis
    by (auto simp: insert_received_def timeline_ok_def)
qed

lemma persist_received:
  assumes l: "live i t s d" and t: "t = ms_timeline (messenger s)" and o: "session_open s"
    and p: "post_ok p" "encode_post p = Inr b"
    and new: "dedupe_classify (dedupe s) (message_id p) b = NewMessage"
    and u: "u = t\<lparr>entries := kept_entries t None @ [stamped t p ReceivedOrigin],
      last_assigned_order := last_assigned_order t + 1\<rparr>"
    and adv: "advances i t i u" and lao: "last_assigned_order t \<noteq> u64_max"
    and lso: "last_seen_order (dedupe s) \<noteq> u64_max"
    and io: "sio_preflight io = None" "write_healthy (sio_write io) (dk_history d)"
  shows "\<exists>w d'. session_persist_timeline io u s d = (True, s\<lparr>dedupe := w\<rparr>, d') \<and> remembered w (stamped t p ReceivedOrigin)"
proof -
  let ?prot = "map entry_id (entries u)"
  obtain st where st: "settings s = Some st" "identity_from st = i" using l by (auto simp: live_def)
  have d: "dedupe_ok (dedupe s)" "dd_capacity (dedupe s) = kDefaultSeenMessageCapacity" "identity_ok i"
    "dk_history d = snapshot_tables (timeline_snapshot t (dedupe s)) i" "list_all (remembered (dedupe s)) (entries t)"
    using l by (auto simp: live_def)
  have uok: "timeline_posts_ok u" "tl_capacity u = kMaxTimelineEntries" "own_posts_ok i (entries u)"
    using adv l by (auto simp: advances_def live_def)
  then have len: "length ?prot \<le> kMaxTimelineEntries" by (simp add: timeline_posts_ok_def timeline_ok_def)
  have dist: "distinct ?prot" using uok(1) by (simp add: timeline_posts_ok_def timeline_ok_def)
  obtain w where w: "dedupe_remember (dedupe s) p b ?prot = (None, w)" "last_seen_order w = last_seen_order (dedupe s) + 1"
    using remember_new_succeeds [OF d(1,2) lso p new len] by blast
  have known: "list_all (remembered (dedupe s)) (kept_entries t None)"
    "list_all (\<lambda>e. timeline_find t (entry_id e) \<noteq> None) (kept_entries t None)"
    using d(5) set_kept_subset [of t None] by (auto simp: list_all_iff find_None_entry)
  have loop: "persist_loop t ?prot (entries u) (dedupe s) = PersistReady w"
    using persist_loop_known [OF known] p new w(1) by (simp add: u stamped_def)
  from persist_loop_Ready [OF loop d(1) _ dist]
  have wok: "dedupe_ok w" "dd_capacity w = kDefaultSeenMessageCapacity" "list_all (remembered w) (entries u)"
    using d(2) by auto
  have ok: "snapshot_ok (timeline_snapshot u w) i"
    by (rule timeline_snapshot_ok) (use uok wok in \<open>auto simp: timeline_posts_ok_def simp del: kDefaultSeenMessageCapacity_def\<close>)
  have "save_snapshot None (write_snapshot (sio_write io)) (timeline_snapshot u w) i (dk_history d) =
      (None, snapshot_tables (timeline_snapshot u w) i)"
    unfolding d(4)
    by (rule save_succeeds)
      (use io d ok live_snapshot_ok [OF l] w(2) u64_succ_greater [OF lso] u64_succ_greater [OF lao] in
        \<open>auto simp: u less_imp_le\<close>)
  then have "session_persist_timeline io u s d =
      (True, s\<lparr>dedupe := w\<rparr>, d\<lparr>dk_history := snapshot_tables (timeline_snapshot u w) i\<rparr>)"
    using st o io(1) loop t by (simp add: session_persist_timeline_def session_open_def)
  moreover have "remembered w (stamped t p ReceivedOrigin)" using wok(3) by (simp add: u)
  ultimately show ?thesis by blast
qed

lemma accept_new_post:
  assumes l: "session_live s d" and o: "session_open s" and ports: "ports_wf ports"
    and dec: "decode_post_bytes b = Inr p"
    and new: "dedupe_classify (dedupe s) (message_id p) b = NewMessage"
    and lao: "last_assigned_order (ms_timeline (messenger s)) \<noteq> u64_max"
    and lso: "last_seen_order (dedupe s) \<noteq> u64_max"
    and io: "sio_preflight io = None" "write_healthy (sio_write io) (dk_history d)"
  shows "\<exists>s' d'. accept_received_post io ports b s d = (InAccepted, s', d') \<and> session_live s' d' \<and> session_open s' \<and>
    timeline_find (ms_timeline (messenger s')) (message_id p) =
      Some \<lparr>entry_post = p, received_order = last_assigned_order (ms_timeline (messenger s)) + 1, origin = ReceivedOrigin\<rparr> \<and>
    dedupe_classify (dedupe s') (message_id p) b = DuplicateMessage"
proof -
  let ?m = "messenger s" let ?t = "ms_timeline ?m"
  obtain i where i: "ms_identity ?m = Some i" and li: "live i ?t s d" using l by (auto simp: session_live_def)
  have p: "post_ok p" "encode_post p = Inr b" using dec by (simp_all add: decode_post_bytes_def decode_post_Inr_encode)
  define u where "u = ?t\<lparr>entries := kept_entries ?t None @ [stamped ?t p ReceivedOrigin],
      last_assigned_order := last_assigned_order ?t + 1\<rparr>"
  obtain r where ins: "insert_received ?t p = (r, u)" "insert_error r = None"
    using new_post_inserted [OF li p new lao] u_def by blast
  have adv: "advances i ?t i u"
    by (rule insert_advances [OF session_messenger_ok [OF l] i p(1) ins(1) [unfolded insert_received_def]])
  obtain w d' where w: "session_persist_timeline io u s d = (True, s\<lparr>dedupe := w\<rparr>, d')"
      "remembered w (stamped ?t p ReceivedOrigin)"
    using persist_received [OF li refl o p new u_def adv lao lso io] by blast
  let ?s = "s\<lparr>dedupe := w, messenger := ?m\<lparr>ms_timeline := u\<rparr>\<rparr>"
  have run: "session_execute io ports (AcceptReceived p) s d = (map_insert_result r, ?s, d')"
    using i ins w(1) by (simp add: session_execute_alt accept_received_def persist_timeline_def)
  have acc: "accept_received_post io ports b s d = (InAccepted, ?s, d')"
    using o li dec p(2) new run ins(2) by (auto simp: accept_received_post_def session_open_def live_def)
  have "session_live ?s d'"
    using execute_ready [OF l ports _ run] p(1) o by (simp add: session_open_def)
  moreover have "timeline_find u (message_id p) = Some (stamped ?t p ReceivedOrigin)"
    using find_after_insert [OF messenger_okD(2) [OF session_messenger_ok [OF l]] ins(1) [unfolded insert_received_def] ins(2), of "message_id p"]
    by simp
  ultimately show ?thesis using acc o w(2) p(2) by (auto simp: session_open_def stamped_def remembered_def)
qed

section \<open>A sample session\<close>

definition sample_settings :: settings_record where
  "sample_settings = \<lparr>generation = 3, st_install_id = InstallId (sample_uuid 2), st_user_id = UserId [0x4d, 0x69],
     sender_sequence_high_watermark = 6, st_locale = English, history_initialized = True, st_skip_title = False\<rparr>"

definition sample_disk :: disk where
  "sample_disk = \<lparr>dk_settings = Some sample_settings, dk_history = snapshot_tables sample_stored sample_owner\<rparr>"

definition sample_boot_io :: boot_io where
  "sample_boot_io =
     \<lparr>bio_environment = True, bio_directories = True, bio_config_lock = LockAcquired, bio_data_lock = LockAcquired,
      bio_probe = None, bio_settings = SettingsLoaded sample_settings, bio_artifact = True, bio_random = None,
      bio_create = Saved, bio_stat = StatFound True, bio_open = None, bio_empty_preflight = None,
      bio_empty_write = sample_write_io, bio_load = sample_load_io, bio_finalize = Saved,
      bio_recover_preflight = None, bio_recover_write = sample_rewrite_io\<rparr>"

lemma sample_owner_settings: "identity_from sample_settings = sample_owner"
  by (simp add: identity_from_def sample_settings_def sample_owner_def)

lemma sample_disk_holds: "disk_holds sample_settings sample_stored sample_disk"
  using sample_stored_ok sample_post_ok sample_uuid_ok [of 2] sample_texts(1)
  unfolding disk_holds_def sample_owner_settings
  by (simp add: sample_disk_def sample_settings_def sample_owner_def identity_restore_def identity_ok_def
      sample_stored_def sample_snapshot_def sample_entry_def)

lemma sample_boot_answers: "boot_answers sample_boot_io sample_disk"
  using sample_load_answers sample_write_answers
  by (simp add: boot_answers_def sample_boot_io_def sample_disk_def write_healthy_def sample_rewrite_io_def)

lemma sample_recovered:
  "recover_snapshot sample_stored = sample_stored"
  "sample_disk\<lparr>dk_history := snapshot_tables (recover_snapshot sample_stored) (identity_from sample_settings)\<rparr> = sample_disk"
  unfolding sample_owner_settings
  by (simp_all add: recover_snapshot_def sample_stored_def sample_snapshot_def sample_entry_def recover_entry_def
      entry_is_queued_def sample_disk_def)

definition sample_session :: session where
  "sample_session = recovered_session sample_settings sample_stored"

lemma sample_bootstrap: "bootstrap sample_boot_io sample_disk = (sample_session, sample_disk)"
  using bootstrap_recovers [OF sample_disk_holds sample_boot_answers] sample_recovered(2)
  by (simp add: sample_session_def)

lemma sample_session_live: "session_live sample_session sample_disk"
  using recovered_live [OF sample_disk_holds] sample_recovered(2) by (simp add: sample_session_def)

lemma sample_session_open: "session_open sample_session"
  by (simp add: session_open_def sample_session_def recovered_session_def)

definition sample_session_io :: session_io where
  "sample_session_io = \<lparr>sio_settings = Saved, sio_preflight = None, sio_write = sample_rewrite_io\<rparr>"

section \<open>Properties\<close>

text \<open>C1: Nothing a session has stored is lost. Whatever commands, received posts and settings changes
  run on a started session, and whatever of the settings file and the database fails on the way, a
  later start on the disk it leaves is ready and shows what is stored; and when the session never fell out of
  the ready state it shows the same identity, duplicate ledger and posts, the queued ones as unknown.\<close>

theorem session_survives_restart:
  assumes "disk_holds st snapshot d0" "boot_answers io0 d0" "bootstrap io0 d0 = (s, d)"
    "session_step\<^sup>*\<^sup>* (s, d) (s', d')" "boot_answers io d'"
  shows "\<exists>s'' d''. bootstrap io d' = (s'', d'') \<and> startup_status s'' = SessionReady \<and> session_live s'' d'' \<and>
    (startup_status s' = SessionReady \<longrightarrow>
       ms_identity (messenger s'') = ms_identity (messenger s') \<and> dedupe s'' = dedupe s' \<and>
       entries (ms_timeline (messenger s'')) = map recover_entry (entries (ms_timeline (messenger s'))))"
  using inv_survives_restart [OF _ assms(5)] session_steps_inv [OF assms(4)] bootstrap_inv [OF assms(1-3)] by simp

theorem session_survives_restart_witness:
  "\<exists>s'' d''. bootstrap sample_boot_io sample_disk = (s'', d'') \<and>
     entries (ms_timeline (messenger s'')) = map recover_entry (entries (ms_timeline (messenger sample_session)))"
  using session_survives_restart [OF sample_disk_holds sample_boot_answers sample_bootstrap rtranclp.rtrancl_refl
      sample_boot_answers] sample_session_open
  by (auto simp: session_open_def)

text \<open>A received post is accepted once. On an open session with a working database, bytes that are not a
  canonical post are refused; a post the ledger knows with the same bytes is a duplicate and with other bytes a
  conflict, and none of these changes memory or disk; any other post is accepted, is shown and stored under the
  next order, and is a duplicate from then on, unless a counter is exhausted.\<close>

theorem accept_received_post_outcome:
  assumes "session_live s d" "session_open s" "ports_wf ports" "sio_preflight io = None"
    "write_healthy (sio_write io) (dk_history d)"
  shows "case decode_post_bytes b of
      Inl _ \<Rightarrow> accept_received_post io ports b s d = (InInvalid, s, d)
    | Inr p \<Rightarrow>
        (case dedupe_classify (dedupe s) (message_id p) b of
           DuplicateMessage \<Rightarrow> accept_received_post io ports b s d = (InDuplicate, s, d)
         | ConflictingMessage \<Rightarrow> accept_received_post io ports b s d = (InConflict, s, d)
         | InvalidMessage \<Rightarrow> False
         | NewMessage \<Rightarrow>
             last_assigned_order (ms_timeline (messenger s)) = u64_max \<or> last_seen_order (dedupe s) = u64_max \<or>
             (\<exists>s' d'. accept_received_post io ports b s d = (InAccepted, s', d') \<and> session_live s' d' \<and> session_open s' \<and>
                timeline_find (ms_timeline (messenger s')) (message_id p) =
                  Some \<lparr>entry_post = p, received_order = last_assigned_order (ms_timeline (messenger s)) + 1,
                    origin = ReceivedOrigin\<rparr> \<and>
                dedupe_classify (dedupe s') (message_id p) b = DuplicateMessage))"
proof (cases "decode_post_bytes b")
  case (Inl e)
  then show ?thesis using assms(1,2)
    by (auto simp: accept_received_post_def session_open_def session_live_def live_def)
next
  case (Inr p)
  then have e: "encode_post p = Inr b" by (simp add: decode_post_bytes_def decode_post_Inr_encode)
  obtain st where "settings s = Some st" using assms(1) by (auto simp: session_live_def live_def)
  then show ?thesis
    using accept_new_post [OF assms(1-3) Inr _ _ _ assms(4,5)] Inr e assms(2) classify_cases(2) [of "dedupe s"]
    by (cases "dedupe_classify (dedupe s) (message_id p) b")
      (auto simp: accept_received_post_def session_open_def)
qed

theorem accept_received_post_outcome_witness:
  "accept_received_post sample_session_io (sample_ports True) (wire_layout (post_input sample_post)) sample_session sample_disk =
     (InDuplicate, sample_session, sample_disk)"
proof -
  have h: "write_healthy (sio_write sample_session_io) (dk_history sample_disk)"
    using sample_write_answers by (simp add: sample_session_io_def sample_disk_def write_healthy_def sample_rewrite_io_def)
  have "decode_post_bytes (wire_layout (post_input sample_post)) = Inr sample_post"
    unfolding decode_post_bytes_def by (rule decode_post_layout [OF sample_post_ok])
  moreover have "dedupe_classify (dedupe sample_session) (message_id sample_post) (wire_layout (post_input sample_post)) =
      DuplicateMessage"
    by (simp add: sample_session_def recovered_session_def dedupe_classify_def sample_stored_def)
  ultimately show ?thesis
    using accept_received_post_outcome [OF sample_session_live sample_session_open sample_ports_wf(1) [of True] _ h,
        where b = "wire_layout (post_input sample_post)"]
    by (simp add: sample_session_io_def)
qed

text \<open>A first start on an empty disk is ready. With sixteen random bytes and a storage that
  accepts the writes, it creates a version 4 install id with the default name and no sequence issued, an empty history bound
  to it, and marks the history as initialised, so the next start finds a stored state.\<close>

theorem first_launch_ready:
  assumes "bio_environment io" "bio_directories io" "bio_config_lock io = LockAcquired" "bio_data_lock io = LockAcquired"
    "bio_probe io = None" "bio_settings io = SettingsNotFound" "\<not> bio_artifact io" "bio_random io = Some bytes"
    "length bytes = 16" "bio_create io = Saved" "bio_finalize io = Saved" "bio_open io = None"
    "bio_empty_preflight io = None" "bio_empty_write io = \<lparr>wio_begin = None, wio_meta = Inr ([], SQLITE_DONE),
       wio_counts = Inr (0, 0), wio_ledger = Inr ([], SQLITE_DONE), wio_statements = (\<lambda>_. StmtDone), wio_commit = None\<rparr>"
  shows "\<exists>s d st. bootstrap io \<lparr>dk_settings = None, dk_history = empty_db\<rparr> = (s, d) \<and> session_open s \<and> session_live s d \<and>
    disk_holds st snapshot_empty d \<and> sender_sequence_high_watermark st = 0 \<and>
    ms_identity (messenger s) = Some (identity_from st) \<and> entries (ms_timeline (messenger s)) = []"
proof -
  obtain install where gen: "install_id_generate (bio_random io) = Inr install" "uuid_ok (install_uuid install)"
    using assms(8,9) generate_ids_succeed by fastforce
  have name: "user_id_ok (UserId (ascii ''Mika''))" by code_simp
  define st where "st = \<lparr>generation = 2, st_install_id = install, st_user_id = UserId (ascii ''Mika''),
      sender_sequence_high_watermark = 0, st_locale = English, history_initialized = True, st_skip_title = False\<rparr>"
  let ?i = "identity_from st"
  have id: "identity_ok ?i" using gen(2) name by (simp add: st_def identity_from_def identity_restore_def identity_ok_def)
  have ok: "snapshot_ok snapshot_empty ?i"
    by (simp add: snapshot_ok_def snapshot_empty_def own_posts_ok_def dedupe_restore_def)
  define d where "d = \<lparr>dk_settings = Some st, dk_history = snapshot_tables snapshot_empty ?i\<rparr>"
  have h: "disk_holds st snapshot_empty d"
    using id ok by (simp add: disk_holds_def d_def st_def snapshot_empty_def)
  have i0: "identity_from \<lparr>generation = 1, st_install_id = install, st_user_id = UserId (ascii ''Mika''),
      sender_sequence_high_watermark = 0, st_locale = English, history_initialized = False, st_skip_title = False\<rparr> = ?i"
    by (simp add: st_def identity_from_def)
  have save: "save_snapshot None (write_snapshot (bio_empty_write io)) snapshot_empty ?i empty_db =
      (None, snapshot_tables snapshot_empty ?i)"
    using reconcile_ok_same [OF ok] validate_snapshot_None [of snapshot_empty ?i] ok
    by (simp add: save_snapshot_def assms(14) write_snapshot_healthy write_checks_def load_metadata_def metadata_empty_def)
  have boot: "bootstrap io \<lparr>dk_settings = None, dk_history = empty_db\<rparr> = (recovered_session st snapshot_empty, d)"
    using assms(1-13) gen(1) name save
    by (simp add: bootstrap_def Let_def acquire_lock_def acquire_one_lock_def bootstrap_missing_settings_def
        open_empty_history_def i0 finalize_history_initialization_def settings_save_def session_restore_def
        restore_state_def timeline_new_def session_new_def)
      (simp add: recovered_session_def st_def d_def snapshot_empty_def identity_from_def)
  have "d\<lparr>dk_history := snapshot_tables (recover_snapshot snapshot_empty) ?i\<rparr> = d"
    by (simp add: d_def recover_snapshot_def snapshot_empty_def)
  then have "session_live (recovered_session st snapshot_empty) d" using recovered_live [OF h] by simp
  then show ?thesis using boot h
    by (intro exI [of _ "recovered_session st snapshot_empty"] exI [of _ d] exI [of _ st])
      (simp add: session_open_def recovered_session_def st_def snapshot_empty_def)
qed

definition fresh_boot_io :: boot_io where
  "fresh_boot_io = sample_boot_io\<lparr>bio_settings := SettingsNotFound, bio_artifact := False,
     bio_random := Some (sample_uuid 7), bio_stat := StatMissing\<rparr>"

theorem first_launch_ready_witness:
  "\<exists>s d. bootstrap fresh_boot_io \<lparr>dk_settings = None, dk_history = empty_db\<rparr> = (s, d) \<and> session_open s"
  using first_launch_ready [of fresh_boot_io "sample_uuid 7"]
  by (auto simp: fresh_boot_io_def sample_boot_io_def sample_write_io_def sample_uuid_def)

text \<open>The record a settings file stands for, and the answer the session sees of a save.\<close>

definition file_settings :: "settings_files \<Rightarrow> settings_record option" where
  "file_settings f =
     (case sf_final f of None \<Rightarrow> None
      | Some content \<Rightarrow> (case parse_settings_json content of Inl _ \<Rightarrow> None | Inr st \<Rightarrow> Some st))"

definition save_answer :: "(unit, settings_store_failure) result \<Rightarrow> settings_answer" where
  "save_answer r = (case r of Inr _ \<Rightarrow> Saved | Inl failure \<Rightarrow> SaveFailed (ssf_final_replaced failure))"

text \<open>C6: The settings store implements the settings of the session's disk. On files at rest that hold the stored record, a save of
  a valid record leaves files that hold exactly what the session's model of the disk says for the
  answer the store gave, and in between the file never holds anything but the old or the new record.\<close>

theorem settings_store_refines:
  assumes "settings_ok st" "sf_durable files = [sf_final files]" "\<not> sf_torn files" "file_settings files = dk_settings d"
    "settings_store_save io path st files = Some (r, run)"
  shows "file_settings (hd run) = dk_settings (settings_save (save_answer r) st d) \<and>
    (\<forall>f \<in> set run. file_settings f \<in> {dk_settings d, Some st})"
proof -
  note w = written_settings_parse [OF assms(1)]
  have c: "save_correct (sf_final files) (render (settings_value st) @ [0x0a]) (Some (r, run))"
    using settings_save_correct [OF w(1), of files io path] assms by (simp add: not_replaced_def)
  have same: "not_replaced (sf_final files) f \<Longrightarrow> file_settings f = dk_settings d"
    "replaced (sf_final files) (render (settings_value st) @ [0x0a]) f \<Longrightarrow> file_settings f = Some st" for f
    using assms(4) w(2) by (auto simp: not_replaced_def replaced_def file_settings_def)
  have "\<forall>f \<in> set run. file_settings f \<in> {dk_settings d, Some st}"
    using c same by (auto simp: save_correct_def run_atomic_def list_all_iff)
  moreover have "file_settings (hd run) = dk_settings (settings_save (save_answer r) st d)"
    using c same by (auto simp: save_correct_def save_answer_def settings_save_def split: sum.splits if_splits)
  ultimately show ?thesis by blast
qed

theorem settings_store_refines_witness:
  "\<exists>run. settings_store_save sample_save_io sample_path sample_record (files_at_rest None None) = Some (Inr (), run) \<and>
     file_settings (hd run) = Some sample_record"
proof -
  obtain run where run: "settings_store_save sample_save_io sample_path sample_record (files_at_rest None None) = Some (Inr (), run)"
    using sample_saved by blast
  have "file_settings (files_at_rest None None) = dk_settings (sample_disk\<lparr>dk_settings := None\<rparr>)"
    by (simp add: file_settings_def files_at_rest_def)
  from settings_store_refines [OF sample_record_ok _ _ this run] run show ?thesis
    by (simp add: files_at_rest_def save_answer_def settings_save_def)
qed

end
