(* ===== verification/Ports_Radio.thy ===== *)
theory Ports_Radio
  imports Lora_Prelude
begin

text \<open>
  Model of \<^verbatim>\<open>src/ports/radio_policy.h\<close> and \<^verbatim>\<open>src/ports/datagram_transport.h\<close>: the decisions of a
  transmit policy and the statuses of a transport. The locale \<open>transmit_budget\<close> is the contract a
  policy gives its client: how much it may still grant until a given tick, from which tick on, and
  that recording a granted datagram pays for it.
\<close>

section \<open>Definitions\<close>

datatype radio_transmit_status = TxAllowed | TxDeferred | TxLocked | TxInvalid

record radio_transmit_decision =
  decision_status :: radio_transmit_status
  not_before_tick :: u64

datatype datagram_send_status = SendAccepted | SendWouldBlock | SendDisconnected | SendClosed | SendInvalid

abbreviation decision :: "radio_transmit_status \<Rightarrow> u64 \<Rightarrow> radio_transmit_decision" where
  "decision st tick \<equiv> \<lparr>decision_status = st, not_before_tick = tick\<rparr>"

section \<open>The contract of a policy\<close>

text \<open>\<open>credit p t0 T\<close> bounds what a policy in state \<open>p\<close> can still grant at the ticks from \<open>t0\<close> to \<open>T\<close>, in the unit of
  \<open>cost\<close>, and \<open>limit p t0 T\<close> what it can grant in that window in any state with the same configuration; \<open>ready p\<close> is the first tick at which it grants anything; \<open>usable p\<close> says it has not shut
  itself down.\<close>

locale transmit_budget =
  fixes evaluate :: "u64 \<Rightarrow> nat \<Rightarrow> 'p \<Rightarrow> radio_transmit_decision \<times> 'p"
    and commit :: "u64 \<Rightarrow> nat \<Rightarrow> 'p \<Rightarrow> 'p"
    and inv :: "'p \<Rightarrow> bool"
    and usable :: "'p \<Rightarrow> bool"
    and ready :: "'p \<Rightarrow> u64"
    and credit :: "'p \<Rightarrow> u64 \<Rightarrow> u64 \<Rightarrow> nat"
    and limit :: "'p \<Rightarrow> u64 \<Rightarrow> u64 \<Rightarrow> nat"
    and cost :: "'p \<Rightarrow> nat \<Rightarrow> nat"
    and gap :: "'p \<Rightarrow> u64"
  assumes evaluate_inv: "inv p \<Longrightarrow> evaluate now n p = (d, p') \<Longrightarrow> inv p'"
    and commit_inv: "inv p \<Longrightarrow> inv (commit now n p)"
    and evaluate_credit: "inv p \<Longrightarrow> t0 \<le> now \<Longrightarrow> now \<le> T \<Longrightarrow> evaluate now n p = (d, p') \<Longrightarrow> credit p' t0 T \<le> credit p t0 T"
    and credit_limit: "inv p \<Longrightarrow> credit p t0 T \<le> limit p t0 T"
    and evaluate_keeps: "evaluate now n p = (d, p') \<Longrightarrow>
      ready p' = ready p \<and> gap p' = gap p \<and> cost p' = cost p \<and> limit p' = limit p"
    and allowed_ready: "evaluate now n p = (d, p') \<Longrightarrow> decision_status d = TxAllowed \<Longrightarrow> ready p \<le> now"
    and commit_pays: "inv p \<Longrightarrow> t0 \<le> now \<Longrightarrow> now \<le> T \<Longrightarrow> evaluate now n p = (d, p') \<Longrightarrow> decision_status d = TxAllowed \<Longrightarrow>
      credit (commit now n p') t0 T + cost p n \<le> credit p t0 T"
    and commit_keeps: "evaluate now n p = (d, p') \<Longrightarrow> decision_status d = TxAllowed \<Longrightarrow>
      usable (commit now n p') \<and> ready (commit now n p') = saturating_add now (gap p) \<and>
      gap (commit now n p') = gap p \<and> cost (commit now n p') = cost p \<and> limit (commit now n p') = limit p"

end
