(* ===== verification/Radio_Japan920.thy ===== *)
theory Radio_Japan920
  imports Ports_Radio
begin

text \<open>
  Model of \<^verbatim>\<open>src/adapters/radio/japan_920_radio_policy.cpp\<close>: the airtime token bucket of the Japan
  920 MHz profile. The airtime estimate is computed in \<^verbatim>\<open>double\<close>: a finite double is a mantissa and a
  binary exponent, and every operation of the source rounds its exact result to 53 bits, half to
  even. The magnitudes that occur (at most \<open>2 ^ 64\<close>, at least \<open>2 ^ -10\<close>) are far from overflow and
  from the subnormal range, which the model leaves out.
\<close>

section \<open>Binary64 arithmetic\<close>

datatype double = Dbl (mantissa: int) (dbl_exponent: int)

function bit_length :: "int \<Rightarrow> nat" where
  "bit_length n = (if n \<le> 0 then 0 else Suc (bit_length (n div 2)))"
  by pat_completeness auto
termination by (relation "measure nat") auto

declare bit_length.simps [simp del]

definition round53 :: "int \<Rightarrow> int \<Rightarrow> double" where
  "round53 m e =
     (let k = bit_length \<bar>m\<bar> - 53
      in if k = 0 then Dbl m e
         else let q = \<bar>m\<bar> div 2 ^ k; r = \<bar>m\<bar> mod 2 ^ k; half = 2 ^ (k - 1);
                  rounded = (if r > half \<or> (r = half \<and> odd q) then q + 1 else q)
              in Dbl (sgn m * rounded) (e + int k))"

definition dbl_of_int :: "int \<Rightarrow> double" where
  "dbl_of_int i = round53 i 0"

text \<open>The mantissa of a double at a smaller exponent.\<close>

definition mantissa_at :: "int \<Rightarrow> double \<Rightarrow> int" where
  "mantissa_at e x = mantissa x * 2 ^ nat (dbl_exponent x - e)"

definition dbl_add :: "double \<Rightarrow> double \<Rightarrow> double" where
  "dbl_add x y =
     (let e = min (dbl_exponent x) (dbl_exponent y) in round53 (mantissa_at e x + mantissa_at e y) e)"

definition dbl_neg :: "double \<Rightarrow> double" where
  "dbl_neg x = Dbl (- mantissa x) (dbl_exponent x)"

definition dbl_sub :: "double \<Rightarrow> double \<Rightarrow> double" where
  "dbl_sub x y = dbl_add x (dbl_neg y)"

definition dbl_mul :: "double \<Rightarrow> double \<Rightarrow> double" where
  "dbl_mul x y = round53 (mantissa x * mantissa y) (dbl_exponent x + dbl_exponent y)"

text \<open>Division: 128 extra quotient bits and a sticky bit for the remainder determine the rounding.\<close>

definition dbl_div :: "double \<Rightarrow> double \<Rightarrow> double" where
  "dbl_div x y =
     (let a = \<bar>mantissa x\<bar> * 2 ^ 128; b = \<bar>mantissa y\<bar>;
          q = 2 * (a div b) + (if a mod b = 0 then 0 else 1)
      in round53 (sgn (mantissa x) * sgn (mantissa y) * q) (dbl_exponent x - dbl_exponent y - 129))"

definition dbl_le :: "double \<Rightarrow> double \<Rightarrow> bool" where
  "dbl_le x y \<longleftrightarrow>
     (let e = min (dbl_exponent x) (dbl_exponent y) in mantissa_at e x \<le> mantissa_at e y)"

definition dbl_ceiling :: "double \<Rightarrow> int" where
  "dbl_ceiling x =
     (if dbl_exponent x \<ge> 0 then mantissa x * 2 ^ nat (dbl_exponent x)
      else - ((- mantissa x) div 2 ^ nat (- dbl_exponent x)))"

definition dbl_ceil :: "double \<Rightarrow> double" where
  "dbl_ceil x = dbl_of_int (dbl_ceiling x)"

definition dbl_max :: "double \<Rightarrow> double \<Rightarrow> double" where
  "dbl_max x y = (if dbl_le x y then y else x)"

definition dbl_ldexp :: "double \<Rightarrow> nat \<Rightarrow> double" where
  "dbl_ldexp x k = Dbl (mantissa x) (dbl_exponent x + int k)"

section \<open>Profile and configuration\<close>

record japan920_profile =
  frequency_hz :: u32
  bandwidth_hz :: u32
  spreading_factor :: byte
  coding_rate_denominator :: byte
  transmit_power_dbm :: byte
  preamble_symbols :: u16
  sync_word :: byte

definition japan920_profile_default :: japan920_profile where
  "japan920_profile_default =
     \<lparr>frequency_hz = 920800000, bandwidth_hz = 125000, spreading_factor = 9, coding_rate_denominator = 7,
      transmit_power_dbm = 13, preamble_symbols = 12, sync_word = 0x12\<rparr>"

definition japan920_profile_valid :: "japan920_profile \<Rightarrow> bool" where
  "japan920_profile_valid p \<longleftrightarrow>
     \<not> (bandwidth_hz p \<noteq> 125000 \<or>
        spreading_factor p < 7 \<or> spreading_factor p > 12 \<or>
        coding_rate_denominator p < 5 \<or> coding_rate_denominator p > 8 \<or>
        transmit_power_dbm p > 13 \<or> preamble_symbols p < 8 \<or> sync_word p \<noteq> 0x12) \<and>
     (let half_bandwidth = bandwidth_hz p div 2
      in frequency_hz p \<ge> 920500000 + half_bandwidth \<and> frequency_hz p \<le> 923000000 - half_bandwidth)"

record japan920_policy_config =
  jp_profile :: japan920_profile
  jp_minimum_gap_ms :: u64
  jp_bucket_capacity_ms :: u64
  jp_refill_denominator :: u32

definition japan920_policy_config_default :: japan920_policy_config where
  "japan920_policy_config_default =
     \<lparr>jp_profile = japan920_profile_default, jp_minimum_gap_ms = 100, jp_bucket_capacity_ms = 6000,
      jp_refill_denominator = 10\<rparr>"

section \<open>The policy\<close>

record japan920_policy =
  jp_config :: japan920_policy_config
  jp_tokens_ms :: u64
  jp_last_refill_tick :: u64
  jp_next_transmit_tick :: u64
  jp_clock_started :: bool
  jp_valid :: bool

definition japan920_new :: "japan920_policy_config \<Rightarrow> japan920_policy" where
  "japan920_new config =
     \<lparr>jp_config = config, jp_tokens_ms = jp_bucket_capacity_ms config, jp_last_refill_tick = 0,
      jp_next_transmit_tick = 0, jp_clock_started = False,
      jp_valid = (japan920_profile_valid (jp_profile config) \<and> jp_minimum_gap_ms config > 0 \<and>
        jp_bucket_capacity_ms config > 0 \<and> jp_refill_denominator config > 0)\<rparr>"

definition airtime_milliseconds :: "japan920_profile \<Rightarrow> nat \<Rightarrow> double" where
  "airtime_milliseconds p datagram_size =
     (let sf = dbl_of_int (uint (spreading_factor p));
          symbol_seconds = dbl_div (dbl_ldexp (dbl_of_int 1) (unat (spreading_factor p)))
                             (dbl_of_int (uint (bandwidth_hz p)));
          low_data_rate_optimization =
            (if dbl_le (dbl_div (dbl_of_int 16) (dbl_of_int 1000)) symbol_seconds
             then dbl_of_int 1 else dbl_of_int 0);
          numerator =
            dbl_add (dbl_add (dbl_sub (dbl_mul (dbl_of_int 8) (dbl_of_int (int datagram_size)))
              (dbl_mul (dbl_of_int 4) sf)) (dbl_of_int 28)) (dbl_of_int 16);
          denominator =
            dbl_mul (dbl_of_int 4) (dbl_sub sf (dbl_mul (dbl_of_int 2) low_data_rate_optimization));
          coded_groups = dbl_max (dbl_of_int 0) (dbl_ceil (dbl_div numerator denominator));
          payload_symbols =
            dbl_add (dbl_of_int 8) (dbl_mul coded_groups (dbl_of_int (uint (coding_rate_denominator p))));
          total_symbols =
            dbl_add (dbl_add (dbl_of_int (uint (preamble_symbols p))) (Dbl 17 (- 2))) payload_symbols
      in dbl_mul (dbl_mul total_symbols symbol_seconds) (dbl_of_int 1000))"

definition profile_airtime_ms :: "japan920_profile \<Rightarrow> nat \<Rightarrow> u64" where
  "profile_airtime_ms p datagram_size =
     (if \<not> japan920_profile_valid p \<or> datagram_size = 0 \<or> datagram_size > kMaximumDatagramBytes then 0
      else let milliseconds = airtime_milliseconds p datagram_size
           in if dbl_le milliseconds (dbl_of_int 0) \<or>
                 \<not> dbl_le milliseconds (dbl_of_int (uint u64_max)) then 0
              else of_int (dbl_ceiling milliseconds))"

definition estimated_airtime_ms :: "japan920_policy \<Rightarrow> nat \<Rightarrow> u64" where
  "estimated_airtime_ms self datagram_size = profile_airtime_ms (jp_profile (jp_config self)) datagram_size"

definition japan920_refill :: "u64 \<Rightarrow> japan920_policy \<Rightarrow> japan920_policy" where
  "japan920_refill now_tick self =
     (if \<not> jp_clock_started self
      then self\<lparr>jp_clock_started := True, jp_last_refill_tick := now_tick\<rparr>
      else let elapsed = now_tick - jp_last_refill_tick self;
               added = elapsed div ucast (jp_refill_denominator (jp_config self))
           in if added > 0
              then self\<lparr>jp_tokens_ms := min (jp_bucket_capacity_ms (jp_config self))
                                          (saturating_add (jp_tokens_ms self) added),
                        jp_last_refill_tick := now_tick\<rparr>
              else self)"

definition japan920_evaluate_transmit ::
  "u64 \<Rightarrow> nat \<Rightarrow> japan920_policy \<Rightarrow> radio_transmit_decision \<times> japan920_policy" where
  "japan920_evaluate_transmit now_tick datagram_size self =
     (if \<not> jp_valid self \<or> datagram_size = 0 \<or> datagram_size > kMaximumDatagramBytes
      then (decision TxInvalid 0, self)
      else if jp_clock_started self \<and> now_tick < jp_last_refill_tick self
      then (decision TxLocked 0, self\<lparr>jp_valid := False\<rparr>)
      else let self = japan920_refill now_tick self; airtime = estimated_airtime_ms self datagram_size
           in if airtime = 0 \<or> airtime > jp_bucket_capacity_ms (jp_config self)
              then (decision TxInvalid 0, self)
              else if now_tick < jp_next_transmit_tick self
              then (decision TxDeferred (jp_next_transmit_tick self), self)
              else if jp_tokens_ms self < airtime
              then let deficit = airtime - jp_tokens_ms self
                   in (decision TxDeferred (saturating_add now_tick
                         (deficit * ucast (jp_refill_denominator (jp_config self)))), self)
              else (decision TxAllowed now_tick, self))"

definition japan920_record_transmit :: "u64 \<Rightarrow> nat \<Rightarrow> japan920_policy \<Rightarrow> japan920_policy" where
  "japan920_record_transmit at_tick datagram_size self =
     (if \<not> jp_valid self then self
      else let (d, self) = japan920_evaluate_transmit at_tick datagram_size self
           in if decision_status d \<noteq> TxAllowed then self\<lparr>jp_valid := False\<rparr>
              else let airtime = estimated_airtime_ms self datagram_size
                   in self\<lparr>jp_tokens_ms := jp_tokens_ms self - airtime,
                           jp_next_transmit_tick :=
                             saturating_add at_tick (jp_minimum_gap_ms (jp_config self))\<rparr>)"

section \<open>Lemmas\<close>

text \<open>What the bucket can still grant from tick \<open>t0\<close> to tick \<open>T\<close>: its tokens and the refill until then. A bucket that will have been refilled by
  \<open>t0\<close>, or whose clock has not started, has at most its capacity then.\<close>

definition japan920_credit :: "japan920_policy \<Rightarrow> u64 \<Rightarrow> u64 \<Rightarrow> nat" where
  "japan920_credit p t0 T =
     (let d = unat (jp_refill_denominator (jp_config p))
      in if jp_clock_started p \<and> unat t0 < unat (jp_last_refill_tick p) + d
         then unat (jp_tokens_ms p) + (unat T - unat (jp_last_refill_tick p)) div d
         else unat (jp_bucket_capacity_ms (jp_config p)) + (unat T - unat t0) div d)"

definition japan920_limit :: "japan920_policy \<Rightarrow> u64 \<Rightarrow> u64 \<Rightarrow> nat" where
  "japan920_limit p t0 T =
     unat (jp_bucket_capacity_ms (jp_config p)) + (unat T - unat t0) div unat (jp_refill_denominator (jp_config p)) + 1"

definition japan920_cost :: "japan920_policy \<Rightarrow> nat \<Rightarrow> nat" where
  "japan920_cost p n = unat (estimated_airtime_ms p n)"

definition japan920_gap :: "japan920_policy \<Rightarrow> u64" where
  "japan920_gap p = jp_minimum_gap_ms (jp_config p)"

lemma div_split_le: "b \<le> c \<Longrightarrow> c \<le> (a::nat) \<Longrightarrow> (c - b) div d + (a - c) div d \<le> (a - b) div d"
  using div_add1_eq [of "c - b" "a - c" d] by simp

lemma unat_ucast_u32 [simp]: "unat (ucast (w :: u32) :: u64) = unat w"
proof -
  have "unat w < 2 ^ LENGTH(32)" by (rule unsigned_less)
  then show ?thesis by (simp add: unat_ucast_mod)
qed

lemma refill_fields [simp]:
  "jp_config (japan920_refill now p) = jp_config p"
  "jp_next_transmit_tick (japan920_refill now p) = jp_next_transmit_tick p"
  "jp_valid (japan920_refill now p) = jp_valid p" "jp_clock_started (japan920_refill now p)"
  "estimated_airtime_ms (japan920_refill now p) = estimated_airtime_ms p"
  by (auto simp: japan920_refill_def Let_def estimated_airtime_ms_def)

lemma refill_added:
  assumes "jp_clock_started p" "jp_last_refill_tick p \<le> now"
  shows "unat ((now - jp_last_refill_tick p) div ucast (jp_refill_denominator (jp_config p))) =
    (unat now - unat (jp_last_refill_tick p)) div unat (jp_refill_denominator (jp_config p))"
  using assms(2) by (simp add: unat_div unat_sub)

lemma refill_tokens_le:
  assumes "jp_clock_started p" "jp_last_refill_tick p \<le> now"
  shows "unat (min (jp_bucket_capacity_ms (jp_config p)) (saturating_add (jp_tokens_ms p)
      ((now - jp_last_refill_tick p) div ucast (jp_refill_denominator (jp_config p)))))
    \<le> unat (jp_tokens_ms p) + (unat now - unat (jp_last_refill_tick p)) div unat (jp_refill_denominator (jp_config p))"
proof -
  let ?added = "(now - jp_last_refill_tick p) div ucast (jp_refill_denominator (jp_config p))"
  have "unat (min (jp_bucket_capacity_ms (jp_config p)) (saturating_add (jp_tokens_ms p) ?added))
      \<le> unat (saturating_add (jp_tokens_ms p) ?added)"
    by (simp add: min_def word_le_nat_alt)
  also have "\<dots> \<le> unat (jp_tokens_ms p) + unat ?added" by (simp add: unat_saturating_add)
  finally show ?thesis unfolding refill_added [OF assms] .
qed

text \<open>After a refill the bucket is up to date: the next token is not due yet.\<close>

lemma refill_recent:
  assumes "\<not> (jp_clock_started p \<and> now < jp_last_refill_tick p)" "jp_refill_denominator (jp_config p) \<noteq> 0"
  shows "unat now < unat (jp_last_refill_tick (japan920_refill now p)) + unat (jp_refill_denominator (jp_config p))"
proof (cases "jp_clock_started p")
  case False
  then show ?thesis using assms(2) by (simp add: japan920_refill_def unat_gt_0)
next
  case True
  then have le: "jp_last_refill_tick p \<le> now" using assms(1) by simp
  let ?d = "unat (jp_refill_denominator (jp_config p))"
  have d: "0 < ?d" using assms(2) by (simp add: unat_gt_0)
  show ?thesis
  proof (cases "(now - jp_last_refill_tick p) div ucast (jp_refill_denominator (jp_config p)) > 0")
    case True
    then show ?thesis using \<open>jp_clock_started p\<close> d by (simp add: japan920_refill_def Let_def)
  next
    case False
    then have "(unat now - unat (jp_last_refill_tick p)) div ?d = 0"
      unfolding refill_added [OF \<open>jp_clock_started p\<close> le, symmetric] by (simp add: word_less_nat_alt)
    then have "unat now - unat (jp_last_refill_tick p) < ?d" using d by (simp add: div_eq_0_iff)
    then show ?thesis using False \<open>jp_clock_started p\<close> by (simp add: japan920_refill_def Let_def)
  qed
qed

lemma refill_credit:
  assumes clock: "\<not> (jp_clock_started p \<and> now < jp_last_refill_tick p)" and win: "t0 \<le> now" "now \<le> T"
    and den: "jp_refill_denominator (jp_config p) \<noteq> 0" and cap: "jp_tokens_ms p \<le> jp_bucket_capacity_ms (jp_config p)"
  shows "japan920_credit (japan920_refill now p) t0 T \<le> japan920_credit p t0 T"
proof -
  let ?d = "unat (jp_refill_denominator (jp_config p))" and ?q = "japan920_refill now p" and ?l = "jp_last_refill_tick p"
  have w: "unat t0 \<le> unat now" "unat now \<le> unat T" using win by (simp_all add: word_le_nat_alt)
  have q: "japan920_credit ?q t0 T = unat (jp_tokens_ms ?q) + (unat T - unat (jp_last_refill_tick ?q)) div ?d"
    using refill_recent [OF clock den] w(1) by (simp add: japan920_credit_def)
  have rest: "(unat T - unat now) div ?d \<le> (unat T - unat t0) div ?d" using w by (intro div_le_mono) simp
  show ?thesis
  proof (cases "jp_clock_started p")
    case False
    then show ?thesis using q rest cap by (simp add: japan920_credit_def japan920_refill_def word_le_nat_alt)
  next
    case True
    then have le: "?l \<le> now" using clock by simp
    note t = refill_tokens_le [OF True le]
    show ?thesis
    proof (cases "(now - ?l) div ucast (jp_refill_denominator (jp_config p)) > 0")
      case added: True
      have tok: "unat (jp_tokens_ms ?q) \<le> unat (jp_bucket_capacity_ms (jp_config p))"
        "unat (jp_tokens_ms ?q) \<le> unat (jp_tokens_ms p) + (unat now - unat ?l) div ?d"
        using True added t by (simp_all add: japan920_refill_def Let_def min_def word_le_nat_alt)
      have last: "jp_last_refill_tick ?q = now" using True added by (simp add: japan920_refill_def Let_def)
      have "(unat now - unat ?l) div ?d + (unat T - unat now) div ?d \<le> (unat T - unat ?l) div ?d"
        using le w by (intro div_split_le) (simp_all add: word_le_nat_alt)
      then show ?thesis using tok rest True unfolding q last by (simp add: japan920_credit_def Let_def)
    next
      case False
      then have "?q = p" using True by (simp add: japan920_refill_def)
      then show ?thesis by simp
    qed
  qed
qed

lemma credit_le_limit:
  assumes "jp_tokens_ms p \<le> jp_bucket_capacity_ms (jp_config p)"
  shows "japan920_credit p t0 T \<le> japan920_limit p t0 T"
proof (cases "jp_clock_started p \<and> unat t0 < unat (jp_last_refill_tick p) + unat (jp_refill_denominator (jp_config p))")
  case True
  let ?d = "unat (jp_refill_denominator (jp_config p))" and ?l = "jp_last_refill_tick p"
  have "(unat T - unat ?l) div ?d \<le> (unat T - unat t0 + ?d) div ?d" using True by (intro div_le_mono) linarith
  also have "\<dots> \<le> (unat T - unat t0) div ?d + 1" using div_add_self2 [of ?d "unat T - unat t0"] by (cases "?d = 0") (simp, metis Suc_eq_plus1 order_refl)
  finally show ?thesis using True assms by (simp add: japan920_credit_def japan920_limit_def word_le_nat_alt)
next
  case False
  then show ?thesis by (auto simp: japan920_credit_def japan920_limit_def)
qed

lemma refill_idem:
  assumes "\<not> (jp_clock_started p \<and> now < jp_last_refill_tick p)"
  shows "japan920_refill now (japan920_refill now p) = japan920_refill now p"
    "\<not> now < jp_last_refill_tick (japan920_refill now p)"
  using assms by (auto simp: japan920_refill_def Let_def)

lemma evaluate_Allowed:
  assumes "japan920_evaluate_transmit now n p = (d, q)" "decision_status d = TxAllowed"
  shows "q = japan920_refill now p" "jp_next_transmit_tick p \<le> now" "jp_valid p" "0 < n" "n \<le> kMaximumDatagramBytes"
    "\<not> (jp_clock_started p \<and> now < jp_last_refill_tick p)"
    "estimated_airtime_ms p n \<le> jp_tokens_ms q" "estimated_airtime_ms p n \<noteq> 0"
    "estimated_airtime_ms p n \<le> jp_bucket_capacity_ms (jp_config p)"
  using assms by (auto simp: japan920_evaluate_transmit_def Let_def split: if_splits)

lemma evaluate_state:
  assumes "japan920_evaluate_transmit now n p = (d, q)"
  shows "q = p \<or> q = p\<lparr>jp_valid := False\<rparr> \<or>
    q = japan920_refill now p \<and> \<not> (jp_clock_started p \<and> now < jp_last_refill_tick p)"
  using assms by (auto simp: japan920_evaluate_transmit_def Let_def split: if_splits)

lemma evaluate_again:
  assumes "japan920_evaluate_transmit now n p = (d, q)" "decision_status d = TxAllowed"
  shows "japan920_evaluate_transmit now n q = (decision TxAllowed now, q)"
  using evaluate_Allowed [OF assms] refill_idem [of p now]
  by (auto simp: japan920_evaluate_transmit_def Let_def not_less not_le)

lemma record_Allowed:
  assumes "japan920_evaluate_transmit now n p = (d, q)" "decision_status d = TxAllowed"
  shows "japan920_record_transmit now n q =
    q\<lparr>jp_tokens_ms := jp_tokens_ms q - estimated_airtime_ms p n,
      jp_next_transmit_tick := saturating_add now (jp_minimum_gap_ms (jp_config p))\<rparr>"
proof -
  have "jp_valid q" "jp_config q = jp_config p" "estimated_airtime_ms q n = estimated_airtime_ms p n"
    using evaluate_Allowed [OF assms] by simp_all
  then show ?thesis by (simp add: japan920_record_transmit_def evaluate_again [OF assms])
qed

text \<open>The bucket is never above its capacity, and a policy that has not shut down was given a valid configuration.\<close>

definition japan920_ok :: "japan920_policy \<Rightarrow> bool" where
  "japan920_ok p \<longleftrightarrow> jp_tokens_ms p \<le> jp_bucket_capacity_ms (jp_config p) \<and>
     (jp_valid p \<longrightarrow> jp_refill_denominator (jp_config p) \<noteq> 0 \<and> jp_minimum_gap_ms (jp_config p) > 0 \<and>
       japan920_profile_valid (jp_profile (jp_config p)))"

lemma japan920_new_ok: "japan920_ok (japan920_new config)"
  by (simp add: japan920_ok_def japan920_new_def word_neq_0_conv)

lemma refill_ok: "japan920_ok p \<Longrightarrow> japan920_ok (japan920_refill now p)"
  by (auto simp: japan920_ok_def japan920_refill_def Let_def)

lemma japan920_evaluate_ok:
  assumes "japan920_ok p" "japan920_evaluate_transmit now n p = (d, q)"
  shows "japan920_ok q"
  using evaluate_state [OF assms(2)] refill_ok [OF assms(1), of now] assms(1) by (auto simp: japan920_ok_def)

lemma record_ok:
  assumes "japan920_ok p"
  shows "japan920_ok (japan920_record_transmit now n p)"
proof (cases "jp_valid p")
  case True
  obtain d q where ev: "japan920_evaluate_transmit now n p = (d, q)" by fastforce
  note ok = japan920_evaluate_ok [OF assms ev]
  show ?thesis
  proof (cases "decision_status d = TxAllowed")
    case al: True
    have "estimated_airtime_ms q n \<le> jp_tokens_ms q" using evaluate_Allowed(1,7) [OF ev al] by simp
    then have "jp_tokens_ms q - estimated_airtime_ms q n \<le> jp_tokens_ms q" by (simp add: word_le_nat_alt unat_sub)
    then show ?thesis using True ev al ok by (auto simp: japan920_record_transmit_def japan920_ok_def Let_def intro: order_trans)
  next
    case False
    then show ?thesis using True ev ok by (simp add: japan920_record_transmit_def japan920_ok_def)
  qed
qed (simp add: japan920_record_transmit_def assms)

interpretation japan920: transmit_budget japan920_evaluate_transmit japan920_record_transmit japan920_ok jp_valid
    jp_next_transmit_tick japan920_credit japan920_limit japan920_cost japan920_gap
proof
  fix now :: u64 and n d and p q :: japan920_policy
  assume ev: "japan920_evaluate_transmit now n p = (d, q)"
  from evaluate_state [OF ev] show "jp_next_transmit_tick q = jp_next_transmit_tick p \<and>
      japan920_gap q = japan920_gap p \<and> japan920_cost q = japan920_cost p \<and> japan920_limit q = japan920_limit p"
    by (auto simp: japan920_gap_def japan920_cost_def japan920_limit_def estimated_airtime_ms_def fun_eq_iff)
  show "japan920_ok p \<Longrightarrow> japan920_ok q" by (rule japan920_evaluate_ok [OF _ ev])
  { fix t0 T assume ok: "japan920_ok p" and win: "t0 \<le> now" "now \<le> T"
    have same: "japan920_credit (p\<lparr>jp_valid := False\<rparr>) t0 T = japan920_credit p t0 T" by (simp add: japan920_credit_def Let_def)
    show "japan920_credit q t0 T \<le> japan920_credit p t0 T"
    proof (cases "jp_valid p")
      case True
      then show ?thesis
        using evaluate_state [OF ev] refill_credit [of p now t0 T] ok win same by (auto simp: japan920_ok_def)
    next
      case False
      then have "q = p" using ev by (simp add: japan920_evaluate_transmit_def)
      then show ?thesis by simp
    qed }
  assume al: "decision_status d = TxAllowed"
  note e = evaluate_Allowed [OF ev al] and r = record_Allowed [OF ev al]
  show "jp_next_transmit_tick p \<le> now" by (rule e(2))
  have "jp_valid q" "jp_config q = jp_config p" using e(1,3) by simp_all
  then show "jp_valid (japan920_record_transmit now n q) \<and>
      jp_next_transmit_tick (japan920_record_transmit now n q) = saturating_add now (japan920_gap p) \<and>
      japan920_gap (japan920_record_transmit now n q) = japan920_gap p \<and>
      japan920_cost (japan920_record_transmit now n q) = japan920_cost p \<and>
      japan920_limit (japan920_record_transmit now n q) = japan920_limit p"
    by (simp add: r japan920_gap_def japan920_cost_def japan920_limit_def estimated_airtime_ms_def fun_eq_iff)
  fix t0 T assume ok: "japan920_ok p" and win: "t0 \<le> now" "now \<le> T"
  have den: "jp_refill_denominator (jp_config p) \<noteq> 0" and cap: "jp_tokens_ms p \<le> jp_bucket_capacity_ms (jp_config p)"
    using ok e(3) by (simp_all add: japan920_ok_def)
  have "unat (jp_tokens_ms q - estimated_airtime_ms p n) + unat (estimated_airtime_ms p n) = unat (jp_tokens_ms q)"
    using e(7) by (simp add: unat_sub word_le_nat_alt)
  moreover have "unat t0 < unat (jp_last_refill_tick q) + unat (jp_refill_denominator (jp_config q))"
    using refill_recent [OF e(6) den] win(1) by (simp add: e(1) word_le_nat_alt)
  moreover have "jp_clock_started q" by (simp add: e(1))
  ultimately have "japan920_credit (japan920_record_transmit now n q) t0 T + japan920_cost p n = japan920_credit q t0 T"
    by (simp add: r japan920_credit_def japan920_cost_def)
  also have "\<dots> \<le> japan920_credit p t0 T" unfolding e(1) by (rule refill_credit [OF e(6) win den cap])
  finally show "japan920_credit (japan920_record_transmit now n q) t0 T + japan920_cost p n \<le> japan920_credit p t0 T" .
next
  fix now t0 T :: u64 and n and p :: japan920_policy
  assume ok: "japan920_ok p"
  then show "japan920_ok (japan920_record_transmit now n p)" by (rule record_ok)
  show "japan920_credit p t0 T \<le> japan920_limit p t0 T" using ok by (intro credit_le_limit) (simp add: japan920_ok_def)
qed

section \<open>Deferral\<close>

lemma refill_tokens_ge:
  assumes "\<not> (jp_clock_started p \<and> now < jp_last_refill_tick p)"
  shows "jp_tokens_ms p \<le> jp_bucket_capacity_ms (jp_config p) \<Longrightarrow> jp_tokens_ms p \<le> jp_tokens_ms (japan920_refill now p)"
    "jp_last_refill_tick (japan920_refill now p) \<le> now"
  using assms saturating_add_ge [of "jp_tokens_ms p"] by (auto simp: japan920_refill_def Let_def)

lemma refill_pays_deficit:
  assumes started: "jp_clock_started q" and last: "jp_last_refill_tick q \<le> now"
    and wait: "saturating_add now (deficit * ucast (jp_refill_denominator (jp_config q))) \<le> later"
    and exact: "unat deficit * unat (jp_refill_denominator (jp_config q)) < 2 ^ 64" "later \<noteq> u64_max"
    and den: "jp_refill_denominator (jp_config q) \<noteq> 0"
    and need: "need \<le> jp_bucket_capacity_ms (jp_config q)" "deficit = need - jp_tokens_ms q" "jp_tokens_ms q < need"
  shows "need \<le> jp_tokens_ms (japan920_refill later q)" "\<not> later < jp_last_refill_tick q"
proof -
  let ?d = "unat (jp_refill_denominator (jp_config q))"
  have dpos: "0 < ?d" using den by (simp add: unat_gt_0)
  have mult: "unat (deficit * ucast (jp_refill_denominator (jp_config q))) = unat deficit * ?d"
    using exact(1) by (simp add: unat_word_ariths(2))
  have "unat later < 2 ^ 64 - 1" using exact(2) unat_u64_bound [of later] unat_u64_max
    by (metis le_neq_implies_less unsigned_word_eqI)
  then have wait': "unat now + unat deficit * ?d \<le> unat later"
    using wait by (simp add: word_le_nat_alt unat_saturating_add mult)
  then have now_le: "now \<le> later" by (simp add: word_le_nat_alt)
  then show ll: "\<not> later < jp_last_refill_tick q" using last by auto
  let ?added = "(later - jp_last_refill_tick q) div ucast (jp_refill_denominator (jp_config q))"
  have "unat deficit = unat deficit * ?d div ?d" using dpos by simp
  also have "\<dots> \<le> (unat later - unat (jp_last_refill_tick q)) div ?d"
    using wait' last by (intro div_le_mono) (simp add: word_le_nat_alt)
  also have "\<dots> = unat ?added" using refill_added [OF started, of later] ll by (simp add: not_less)
  finally have added: "unat deficit \<le> unat ?added" .
  have def: "unat deficit = unat need - unat (jp_tokens_ms q)" "unat (jp_tokens_ms q) < unat need"
    using need(2,3) by (simp_all add: unat_sub word_le_nat_alt word_less_nat_alt)
  then have "0 < unat ?added" using added by linarith
  then have pos: "0 < ?added" by (simp add: word_less_nat_alt)
  have "unat need \<le> unat (saturating_add (jp_tokens_ms q) ?added)"
    using added def unat_u64_bound [of need] by (simp add: unat_saturating_add)
  then show "need \<le> jp_tokens_ms (japan920_refill later q)"
    using need(1) started pos by (simp add: japan920_refill_def Let_def word_le_nat_alt)
qed

section \<open>Properties\<close>

text \<open>C27: A deferral is honest. When the policy defers a datagram for lack of airtime, the tick it
  names is enough: with no transmission in between, the datagram is allowed at that tick and at every later one
  (provided the product that gives the wait fits 64 bits and the tick is not the saturated maximum).\<close>

theorem japan920_deferral_honest:
  assumes "japan920_evaluate_transmit now n p = (d, q)" "decision_status d = TxDeferred"
    "jp_next_transmit_tick p \<le> now" "not_before_tick d \<le> later" "later \<noteq> u64_max"
    "jp_refill_denominator (jp_config p) \<noteq> 0"
    "unat (jp_bucket_capacity_ms (jp_config p)) * unat (jp_refill_denominator (jp_config p)) < 2 ^ 64"
  shows "fst (japan920_evaluate_transmit later n q) = decision TxAllowed later"
proof -
  let ?a = "estimated_airtime_ms p n"
  have q: "q = japan920_refill now p" and v: "jp_valid p" "0 < n" "n \<le> kMaximumDatagramBytes"
    and clock: "\<not> (jp_clock_started p \<and> now < jp_last_refill_tick p)" and a: "?a \<noteq> 0" "?a \<le> jp_bucket_capacity_ms (jp_config p)"
    and short: "jp_tokens_ms q < ?a"
    and nb: "not_before_tick d = saturating_add now ((?a - jp_tokens_ms q) * ucast (jp_refill_denominator (jp_config p)))"
    using assms(1-3) by (auto simp: japan920_evaluate_transmit_def Let_def split: if_splits)
  have qf: "jp_config q = jp_config p" "jp_clock_started q" "jp_next_transmit_tick q = jp_next_transmit_tick p"
    "jp_valid q" "estimated_airtime_ms q n = ?a" using v by (simp_all add: q)
  have last: "jp_last_refill_tick q \<le> now" unfolding q by (rule refill_tokens_ge(2) [OF clock])
  have "unat (?a - jp_tokens_ms q) \<le> unat (jp_bucket_capacity_ms (jp_config p))"
    using a(2) short by (simp add: unat_sub word_le_nat_alt word_less_nat_alt)
  from mult_le_mono1 [OF this] have exact: "unat (?a - jp_tokens_ms q) * unat (jp_refill_denominator (jp_config q)) < 2 ^ 64"
    using assms(7) unfolding qf(1) by (rule le_less_trans)
  note paid = refill_pays_deficit [OF qf(2) last _ exact assms(5) _ _ refl short]
  have enough: "?a \<le> jp_tokens_ms (japan920_refill later q)" and ok: "\<not> later < jp_last_refill_tick q"
    using paid assms(4,6) nb a(2) qf(1) by auto
  have "jp_next_transmit_tick q \<le> later"
    using assms(3,4) nb saturating_add_ge [of now] qf(3) by (metis order_trans)
  then show ?thesis using enough ok qf v a
    by (simp add: japan920_evaluate_transmit_def Let_def not_less [symmetric])
qed

definition drained_policy :: japan920_policy where
  "drained_policy = (japan920_new japan920_policy_config_default)\<lparr>jp_tokens_ms := 0\<rparr>"

theorem japan920_deferral_honest_witness:
  "not_before_tick (fst (japan920_evaluate_transmit 7 1 drained_policy)) = 1287 \<and>
   fst (japan920_evaluate_transmit 1287 1 (snd (japan920_evaluate_transmit 7 1 drained_policy))) = decision TxAllowed 1287"
proof -
  have nb: "not_before_tick (fst (japan920_evaluate_transmit 7 1 drained_policy)) = 1287"
    and st: "decision_status (fst (japan920_evaluate_transmit 7 1 drained_policy)) = TxDeferred" by code_simp+
  have cfg: "jp_config drained_policy = japan920_policy_config_default" "jp_next_transmit_tick drained_policy = 0"
    by (simp_all add: drained_policy_def japan920_new_def)
  show ?thesis
    using japan920_deferral_honest [OF prod.collapse [symmetric] st, of 1287] nb
    by (simp add: cfg japan920_policy_config_default_def)
qed

end
