(* ===== verification/Radio_Lan.thy ===== *)
theory Radio_Lan
  imports Ports_Radio
begin

text \<open>
  Model of \<^verbatim>\<open>src/adapters/network/lan_broadcast_policy.cpp\<close>: the byte token bucket that guards the local
  network. \<^verbatim>\<open>std::size_t\<close> has 64 bits on the supported platforms, so the clamp of the elapsed ticks to
  the range of \<^verbatim>\<open>size_t\<close> never acts.
\<close>

section \<open>Definitions\<close>

record lan_policy_config =
  lan_minimum_gap_ms :: u64
  lan_bucket_capacity_bytes :: u64
  lan_refill_bytes_per_ms :: u64

definition lan_policy_config_default :: lan_policy_config where
  "lan_policy_config_default =
     \<lparr>lan_minimum_gap_ms = 10, lan_bucket_capacity_bytes = 4 * 1024, lan_refill_bytes_per_ms = 64\<rparr>"

record lan_policy =
  lan_config :: lan_policy_config
  lan_tokens_bytes :: u64
  lan_last_refill_tick :: u64
  lan_next_transmit_tick :: u64
  lan_clock_started :: bool
  lan_valid :: bool

definition lan_policy_new :: "lan_policy_config \<Rightarrow> lan_policy" where
  "lan_policy_new config =
     \<lparr>lan_config = config, lan_tokens_bytes = lan_bucket_capacity_bytes config, lan_last_refill_tick = 0,
      lan_next_transmit_tick = 0, lan_clock_started = False,
      lan_valid = (lan_minimum_gap_ms config > 0 \<and>
        lan_bucket_capacity_bytes config \<ge> of_nat kMaximumDatagramBytes \<and> lan_refill_bytes_per_ms config > 0)\<rparr>"

definition lan_refill :: "u64 \<Rightarrow> lan_policy \<Rightarrow> lan_policy" where
  "lan_refill now_tick self =
     (if \<not> lan_clock_started self
      then self\<lparr>lan_clock_started := True, lan_last_refill_tick := now_tick\<rparr>
      else let elapsed = now_tick - lan_last_refill_tick self
           in if elapsed = 0 then self
              else let maximum = u64_max;
                       elapsed_size = (if elapsed > maximum then maximum else elapsed);
                       added = (if elapsed_size > maximum div lan_refill_bytes_per_ms (lan_config self)
                                then maximum
                                else elapsed_size * lan_refill_bytes_per_ms (lan_config self))
                   in self\<lparr>lan_tokens_bytes := min (lan_bucket_capacity_bytes (lan_config self))
                             (if added > maximum - lan_tokens_bytes self then maximum
                              else lan_tokens_bytes self + added),
                           lan_last_refill_tick := now_tick\<rparr>)"

definition lan_evaluate_transmit ::
  "u64 \<Rightarrow> nat \<Rightarrow> lan_policy \<Rightarrow> radio_transmit_decision \<times> lan_policy" where
  "lan_evaluate_transmit now_tick datagram_size self =
     (if \<not> lan_valid self \<or> datagram_size = 0 \<or> datagram_size > kMaximumDatagramBytes
      then (decision TxInvalid 0, self)
      else if lan_clock_started self \<and> now_tick < lan_last_refill_tick self
      then (decision TxLocked 0, self\<lparr>lan_valid := False\<rparr>)
      else let self = lan_refill now_tick self
           in if now_tick < lan_next_transmit_tick self
              then (decision TxDeferred (lan_next_transmit_tick self), self)
              else if lan_tokens_bytes self < of_nat datagram_size
              then let deficit = of_nat datagram_size - lan_tokens_bytes self;
                       rate = lan_refill_bytes_per_ms (lan_config self);
                       wait = (deficit + rate - 1) div rate
                   in (decision TxDeferred (saturating_add now_tick wait), self)
              else (decision TxAllowed now_tick, self))"

definition lan_record_transmit :: "u64 \<Rightarrow> nat \<Rightarrow> lan_policy \<Rightarrow> lan_policy" where
  "lan_record_transmit at_tick datagram_size self =
     (if \<not> lan_valid self then self
      else let (d, self) = lan_evaluate_transmit at_tick datagram_size self
           in if decision_status d \<noteq> TxAllowed then self\<lparr>lan_valid := False\<rparr>
              else self\<lparr>lan_tokens_bytes := lan_tokens_bytes self - of_nat datagram_size,
                        lan_next_transmit_tick :=
                          saturating_add at_tick (lan_minimum_gap_ms (lan_config self))\<rparr>)"

section \<open>Lemmas\<close>

text \<open>What the bucket can still grant from tick \<open>t0\<close> to tick \<open>T\<close>: its tokens and the refill until then. A bucket that will be refilled at
  \<open>t0\<close> or later, or whose clock has not started, has at most its capacity then.\<close>

definition lan_credit :: "lan_policy \<Rightarrow> u64 \<Rightarrow> u64 \<Rightarrow> nat" where
  "lan_credit p t0 T =
     (let r = unat (lan_refill_bytes_per_ms (lan_config p))
      in if lan_clock_started p \<and> t0 \<le> lan_last_refill_tick p
         then unat (lan_tokens_bytes p) + (unat T - unat (lan_last_refill_tick p)) * r
         else unat (lan_bucket_capacity_bytes (lan_config p)) + (unat T - unat t0) * r)"

definition lan_limit :: "lan_policy \<Rightarrow> u64 \<Rightarrow> u64 \<Rightarrow> nat" where
  "lan_limit p t0 T =
     unat (lan_bucket_capacity_bytes (lan_config p)) + (unat T - unat t0) * unat (lan_refill_bytes_per_ms (lan_config p))"

definition lan_cost :: "lan_policy \<Rightarrow> nat \<Rightarrow> nat" where
  "lan_cost p n = n"

definition lan_gap :: "lan_policy \<Rightarrow> u64" where
  "lan_gap p = lan_minimum_gap_ms (lan_config p)"

lemma lan_refill_fields [simp]:
  "lan_config (lan_refill now p) = lan_config p" "lan_valid (lan_refill now p) = lan_valid p"
  "lan_next_transmit_tick (lan_refill now p) = lan_next_transmit_tick p" "lan_clock_started (lan_refill now p)"
  by (auto simp: lan_refill_def Let_def)

lemma not_max_less: "\<not> u64_max < x"
  by (simp add: not_less)

lemma saturating_mult_le:
  assumes "r \<noteq> (0 :: u64)"
  shows "unat (if e > u64_max div r then u64_max else e * r) \<le> unat e * unat r"
proof (cases "e > u64_max div r")
  case True
  then have "unat u64_max div unat r < unat e" by (simp add: word_less_nat_alt unat_div)
  moreover have "0 < unat r" using assms by (simp add: unat_gt_0)
  ultimately have "unat u64_max < unat e * unat r" by (simp add: div_less_iff_less_mult)
  with True show ?thesis by simp
qed (simp add: unat_word_ariths(2))

lemma saturated_tokens_le: "unat (if a > u64_max - t then u64_max else t + a) \<le> unat t + unat (a :: u64)"
proof (cases "a > u64_max - t")
  case True
  then have "unat u64_max - unat t < unat a"
    by (metis unat_sub word_less_nat_alt word_order.extremum)
  with True show ?thesis by simp
qed (simp add: unat_word_ariths(1))

lemma lan_refill_current:
  assumes "\<not> (lan_clock_started p \<and> now < lan_last_refill_tick p)"
  shows "lan_last_refill_tick (lan_refill now p) = now"
  using assms by (auto simp: lan_refill_def Let_def)

lemma lan_refill_tokens:
  assumes clock: "lan_clock_started p" "lan_last_refill_tick p \<le> now" "now \<noteq> lan_last_refill_tick p"
    and rate: "lan_refill_bytes_per_ms (lan_config p) \<noteq> 0"
  shows "unat (lan_tokens_bytes (lan_refill now p)) \<le> unat (lan_bucket_capacity_bytes (lan_config p))"
    "unat (lan_tokens_bytes (lan_refill now p)) \<le> unat (lan_tokens_bytes p) +
       (unat now - unat (lan_last_refill_tick p)) * unat (lan_refill_bytes_per_ms (lan_config p))"
proof -
  let ?r = "lan_refill_bytes_per_ms (lan_config p)" and ?e = "now - lan_last_refill_tick p" and ?t = "lan_tokens_bytes p"
  let ?a = "if ?e > u64_max div ?r then u64_max else ?e * ?r"
  let ?s = "if ?a > u64_max - ?t then u64_max else ?t + ?a"
  have tokens: "lan_tokens_bytes (lan_refill now p) = min (lan_bucket_capacity_bytes (lan_config p)) ?s"
    unfolding lan_refill_def Let_def not_max_less [THEN eq_False [THEN iffD2]] if_False
    using clock(1,3) by (simp split del: if_split)
  have "lan_tokens_bytes (lan_refill now p) \<le> lan_bucket_capacity_bytes (lan_config p)" unfolding tokens by (rule min.cobounded1)
  then show "unat (lan_tokens_bytes (lan_refill now p)) \<le> unat (lan_bucket_capacity_bytes (lan_config p))"
    by (simp add: word_le_nat_alt)
  have "unat (lan_tokens_bytes (lan_refill now p)) \<le> unat ?s"
    unfolding tokens by (simp add: min_def word_le_nat_alt)
  also have "\<dots> \<le> unat ?t + unat ?a" by (rule saturated_tokens_le)
  also have "\<dots> \<le> unat ?t + unat ?e * unat ?r" using saturating_mult_le [OF rate, of ?e] by simp
  also have "unat ?e = unat now - unat (lan_last_refill_tick p)" using clock(2) by (rule unat_sub)
  finally show "unat (lan_tokens_bytes (lan_refill now p)) \<le> unat ?t + (unat now - unat (lan_last_refill_tick p)) * unat ?r" .
qed

lemma lan_refill_credit:
  assumes clock: "\<not> (lan_clock_started p \<and> now < lan_last_refill_tick p)" and win: "t0 \<le> now" "now \<le> T"
    and rate: "lan_refill_bytes_per_ms (lan_config p) \<noteq> 0" and cap: "lan_tokens_bytes p \<le> lan_bucket_capacity_bytes (lan_config p)"
  shows "lan_credit (lan_refill now p) t0 T \<le> lan_credit p t0 T"
proof -
  let ?r = "unat (lan_refill_bytes_per_ms (lan_config p))" and ?q = "lan_refill now p" and ?l = "lan_last_refill_tick p"
  have w: "unat t0 \<le> unat now" "unat now \<le> unat T" using win by (simp_all add: word_le_nat_alt)
  have q: "lan_credit ?q t0 T = unat (lan_tokens_bytes ?q) + (unat T - unat now) * ?r"
    using win(1) by (simp add: lan_credit_def Let_def lan_refill_current [OF clock])
  have rest: "(unat T - unat now) * ?r \<le> (unat T - unat t0) * ?r" using w by (intro mult_le_mono1) simp
  show ?thesis
  proof (cases "lan_clock_started p")
    case False
    then have "lan_tokens_bytes ?q = lan_tokens_bytes p" by (simp add: lan_refill_def)
    moreover have "lan_credit p t0 T = unat (lan_bucket_capacity_bytes (lan_config p)) + (unat T - unat t0) * ?r"
      using False by (simp add: lan_credit_def Let_def)
    ultimately show ?thesis unfolding q using cap by (simp only: add_mono [OF _ rest] word_le_nat_alt)
  next
    case started: True
    then have le: "?l \<le> now" using clock by simp
    show ?thesis
    proof (cases "now = ?l")
      case True
      then show ?thesis using started by (simp add: lan_refill_def)
    next
      case False
      note t = lan_refill_tokens [OF started le False rate]
      have "(unat now - unat ?l) * ?r + (unat T - unat now) * ?r = (unat T - unat ?l) * ?r"
        using le w by (simp add: word_le_nat_alt add_mult_distrib [symmetric])
      then show ?thesis using t(2) add_mono [OF t(1) rest] started unfolding q by (simp add: lan_credit_def Let_def)
    qed
  qed
qed

lemma lan_refill_idem:
  assumes "\<not> (lan_clock_started p \<and> now < lan_last_refill_tick p)"
  shows "lan_refill now (lan_refill now p) = lan_refill now p"
    "\<not> now < lan_last_refill_tick (lan_refill now p)"
  using assms by (auto simp: lan_refill_def Let_def)

lemma lan_evaluate_Allowed:
  assumes "lan_evaluate_transmit now n p = (d, q)" "decision_status d = TxAllowed"
  shows "q = lan_refill now p" "lan_next_transmit_tick p \<le> now" "lan_valid p" "0 < n" "n \<le> kMaximumDatagramBytes"
    "\<not> (lan_clock_started p \<and> now < lan_last_refill_tick p)" "of_nat n \<le> lan_tokens_bytes q"
  using assms by (auto simp: lan_evaluate_transmit_def Let_def split: if_splits)

lemma lan_evaluate_state:
  assumes "lan_evaluate_transmit now n p = (d, q)"
  shows "q = p \<or> q = p\<lparr>lan_valid := False\<rparr> \<or>
    q = lan_refill now p \<and> lan_valid p \<and> \<not> (lan_clock_started p \<and> now < lan_last_refill_tick p)"
  using assms by (auto simp: lan_evaluate_transmit_def Let_def split: if_splits)

lemma lan_evaluate_again:
  assumes "lan_evaluate_transmit now n p = (d, q)" "decision_status d = TxAllowed"
  shows "lan_evaluate_transmit now n q = (decision TxAllowed now, q)"
  using lan_evaluate_Allowed [OF assms] lan_refill_idem [of p now]
  by (auto simp: lan_evaluate_transmit_def Let_def not_less not_le)

lemma lan_record_Allowed:
  assumes "lan_evaluate_transmit now n p = (d, q)" "decision_status d = TxAllowed"
  shows "lan_record_transmit now n q =
    q\<lparr>lan_tokens_bytes := lan_tokens_bytes q - of_nat n,
      lan_next_transmit_tick := saturating_add now (lan_minimum_gap_ms (lan_config p))\<rparr>"
proof -
  have "lan_valid q" "lan_config q = lan_config p" using lan_evaluate_Allowed [OF assms] by simp_all
  then show ?thesis by (simp add: lan_record_transmit_def lan_evaluate_again [OF assms])
qed

definition lan_ok :: "lan_policy \<Rightarrow> bool" where
  "lan_ok p \<longleftrightarrow> lan_tokens_bytes p \<le> lan_bucket_capacity_bytes (lan_config p) \<and>
     (lan_valid p \<longrightarrow> lan_refill_bytes_per_ms (lan_config p) \<noteq> 0 \<and> lan_minimum_gap_ms (lan_config p) > 0)"

lemma lan_new_ok: "lan_ok (lan_policy_new config)"
  by (simp add: lan_ok_def lan_policy_new_def word_neq_0_conv)

lemma lan_refill_ok: "lan_ok p \<Longrightarrow> lan_ok (lan_refill now p)"
  by (auto simp: lan_ok_def lan_refill_def Let_def)

lemma lan_evaluate_ok:
  assumes "lan_ok p" "lan_evaluate_transmit now n p = (d, q)"
  shows "lan_ok q"
  using lan_evaluate_state [OF assms(2)] lan_refill_ok [OF assms(1), of now] assms(1) by (auto simp: lan_ok_def)

lemma lan_record_ok:
  assumes "lan_ok p"
  shows "lan_ok (lan_record_transmit now n p)"
proof (cases "lan_valid p")
  case True
  obtain d q where ev: "lan_evaluate_transmit now n p = (d, q)" by fastforce
  note ok = lan_evaluate_ok [OF assms ev]
  show ?thesis
  proof (cases "decision_status d = TxAllowed")
    case al: True
    have "of_nat n \<le> lan_tokens_bytes q" by (rule lan_evaluate_Allowed(7) [OF ev al])
    then have "lan_tokens_bytes q - of_nat n \<le> lan_tokens_bytes q" by (simp add: word_le_nat_alt unat_sub)
    then show ?thesis using True ev al ok by (auto simp: lan_record_transmit_def lan_ok_def intro: order_trans)
  next
    case False
    then show ?thesis using True ev ok by (simp add: lan_record_transmit_def lan_ok_def)
  qed
qed (simp add: lan_record_transmit_def assms)

lemma unat_datagram: "n \<le> kMaximumDatagramBytes \<Longrightarrow> unat (of_nat n :: u64) = n"
  by (simp add: unsigned_of_nat take_bit_nat_eq_self)

interpretation lan: transmit_budget lan_evaluate_transmit lan_record_transmit lan_ok lan_valid
    lan_next_transmit_tick lan_credit lan_limit lan_cost lan_gap
proof
  fix now :: u64 and n d and p q :: lan_policy
  assume ev: "lan_evaluate_transmit now n p = (d, q)"
  from lan_evaluate_state [OF ev] show "lan_next_transmit_tick q = lan_next_transmit_tick p \<and>
      lan_gap q = lan_gap p \<and> lan_cost q = lan_cost p \<and> lan_limit q = lan_limit p"
    by (auto simp: lan_gap_def lan_cost_def lan_limit_def fun_eq_iff)
  show "lan_ok p \<Longrightarrow> lan_ok q" by (rule lan_evaluate_ok [OF _ ev])
  { fix t0 T assume ok: "lan_ok p" and win: "t0 \<le> now" "now \<le> T"
    have same: "lan_credit (p\<lparr>lan_valid := False\<rparr>) t0 T = lan_credit p t0 T" by (simp add: lan_credit_def Let_def)
    show "lan_credit q t0 T \<le> lan_credit p t0 T"
      using lan_evaluate_state [OF ev] lan_refill_credit [of p now t0 T] ok win same by (auto simp: lan_ok_def) }
  assume al: "decision_status d = TxAllowed"
  note e = lan_evaluate_Allowed [OF ev al] and r = lan_record_Allowed [OF ev al]
  show "lan_next_transmit_tick p \<le> now" by (rule e(2))
  have "lan_valid q" "lan_config q = lan_config p" using e(1,3) by simp_all
  then show "lan_valid (lan_record_transmit now n q) \<and>
      lan_next_transmit_tick (lan_record_transmit now n q) = saturating_add now (lan_gap p) \<and>
      lan_gap (lan_record_transmit now n q) = lan_gap p \<and> lan_cost (lan_record_transmit now n q) = lan_cost p \<and>
      lan_limit (lan_record_transmit now n q) = lan_limit p"
    by (simp add: r lan_gap_def lan_cost_def lan_limit_def fun_eq_iff)
  fix t0 T assume ok: "lan_ok p" and win: "t0 \<le> now" "now \<le> T"
  have rate: "lan_refill_bytes_per_ms (lan_config p) \<noteq> 0" and cap: "lan_tokens_bytes p \<le> lan_bucket_capacity_bytes (lan_config p)"
    using ok e(3) by (simp_all add: lan_ok_def)
  have "unat (lan_tokens_bytes q - of_nat n) + n = unat (lan_tokens_bytes q)"
    using e(7) unat_datagram [OF e(5)] by (simp add: unat_sub word_le_nat_alt)
  moreover have "lan_clock_started q" "t0 \<le> lan_last_refill_tick q" using win(1) lan_refill_current [OF e(6)] by (simp_all add: e(1))
  ultimately have "lan_credit (lan_record_transmit now n q) t0 T + lan_cost p n = lan_credit q t0 T"
    by (simp add: r lan_credit_def lan_cost_def)
  also have "\<dots> \<le> lan_credit p t0 T" unfolding e(1) by (rule lan_refill_credit [OF e(6) win rate cap])
  finally show "lan_credit (lan_record_transmit now n q) t0 T + lan_cost p n \<le> lan_credit p t0 T" .
next
  fix now t0 T :: u64 and n and p :: lan_policy
  assume ok: "lan_ok p"
  then show "lan_ok (lan_record_transmit now n p)" by (rule lan_record_ok)
  have tok: "unat (lan_tokens_bytes p) \<le> unat (lan_bucket_capacity_bytes (lan_config p))"
    using ok by (simp add: lan_ok_def word_le_nat_alt)
  show "lan_credit p t0 T \<le> lan_limit p t0 T"
  proof (cases "lan_clock_started p \<and> t0 \<le> lan_last_refill_tick p")
    case True
    then have "(unat T - unat (lan_last_refill_tick p)) * unat (lan_refill_bytes_per_ms (lan_config p)) \<le>
        (unat T - unat t0) * unat (lan_refill_bytes_per_ms (lan_config p))"
      by (intro mult_le_mono1 diff_le_mono2) (simp add: word_le_nat_alt)
    from add_mono [OF tok this] show ?thesis using True by (simp only: lan_credit_def lan_limit_def Let_def simp_thms if_True)
  qed (auto simp: lan_credit_def lan_limit_def)
qed

end
