(* ===== verification/App_Scheduler.thy ===== *)
theory App_Scheduler
  imports Protocol_Fragmenter Radio_Japan920 Radio_Lan "HOL-Library.Sublist"
begin

text \<open>
  Model of \<^verbatim>\<open>src/application/transmission_scheduler.cpp\<close>: the bounded queue of outgoing messages. Each
  message is offered to the transport fragment by fragment, in a primary pass that ends with the terminal event
  \<^verbatim>\<open>Broadcast\<close> and in one repeat pass. The transport is what one \<open>pump\<close> sees of it (its MTU, whether it
  is closed, what a send returns); the radio policy is a pair of functions on a policy state, so that
  the same \<open>pump\<close> runs with either policy of the program. The random source is a function from the number of
  bytes asked for to the bytes.
\<close>

section \<open>Definitions\<close>

definition kMaximumOutboundMessages :: nat where [limits, simp]: "kMaximumOutboundMessages = 16"
definition kOutboundDeadlineTicks :: u64 where [limits]: "kOutboundDeadlineTicks = 60000"

datatype scheduler_error =
  SchedInvalidMtu | SchedInvalidPost | SchedDuplicateMessage | SchedQueueFull | SchedRandomUnavailable

datatype outbound_terminal_state = OutBroadcast | OutFailed

record outbound_event =
  event_message_id :: message_id
  event_state :: outbound_terminal_state

record scheduler_metrics =
  sm_pending_messages :: nat
  sm_high_water_messages :: nat
  sm_transport_offers :: u64
  sm_accepted_datagrams :: u64
  sm_backpressure_events :: u64
  sm_policy_deferrals :: u64
  sm_failed_messages :: u64
  sm_broadcast_messages :: u64

record pending_message =
  pm_message_id :: message_id
  pm_mtu :: nat
  pm_frames :: "bytes list"
  pm_jitter :: bytes
  pm_offer_counts :: bytes
  pm_fragment_index :: nat
  pm_jitter_index :: nat
  pm_due :: u64
  pm_deadline :: u64
  pm_repeat_pass :: bool

record scheduler =
  sch_pending :: "pending_message list"
  sch_metrics :: scheduler_metrics

definition scheduler_new :: scheduler where
  "scheduler_new =
     \<lparr>sch_pending = [],
      sch_metrics = \<lparr>sm_pending_messages = 0, sm_high_water_messages = 0, sm_transport_offers = 0,
        sm_accepted_datagrams = 0, sm_backpressure_events = 0, sm_policy_deferrals = 0,
        sm_failed_messages = 0, sm_broadcast_messages = 0\<rparr>\<rparr>"

definition scaled_jitter :: "byte \<Rightarrow> u64 \<Rightarrow> u64" where
  "scaled_jitter v inclusive_maximum = (ucast v * (inclusive_maximum + 1)) div 256"

definition update_pending_metric :: "scheduler \<Rightarrow> scheduler" where
  "update_pending_metric self =
     self\<lparr>sch_metrics := (sch_metrics self)\<lparr>sm_pending_messages := length (sch_pending self),
       sm_high_water_messages := max (sm_high_water_messages (sch_metrics self)) (length (sch_pending self))\<rparr>\<rparr>"

definition pending_of_post :: "post_payload \<Rightarrow> nat \<Rightarrow> bytes list \<Rightarrow> bytes \<Rightarrow> u64 \<Rightarrow> pending_message" where
  "pending_of_post post mtu frames jitter now =
     \<lparr>pm_message_id = message_id post, pm_mtu = mtu, pm_frames = frames, pm_jitter = jitter,
      pm_offer_counts = replicate (length frames) 0, pm_fragment_index = 0, pm_jitter_index = 1,
      pm_due = saturating_add now (scaled_jitter (jitter ! 0) 250),
      pm_deadline = saturating_add now kOutboundDeadlineTicks, pm_repeat_pass = False\<rparr>"

definition scheduler_enqueue ::
  "(nat \<Rightarrow> bytes option) \<Rightarrow> post_payload \<Rightarrow> nat \<Rightarrow> u64 \<Rightarrow> scheduler \<Rightarrow> scheduler_error option \<times> scheduler" where
  "scheduler_enqueue fill post mtu now self =
     (if mtu < kMinimumTransportMtu \<or> mtu > kMaximumTransportMtu then (Some SchedInvalidMtu, self)
      else if length (sch_pending self) \<ge> kMaximumOutboundMessages then (Some SchedQueueFull, self)
      else if list_ex (\<lambda>pending. pm_message_id pending = message_id post) (sch_pending self)
      then (Some SchedDuplicateMessage, self)
      else case fragment_post post mtu of
        Inl _ \<Rightarrow> (Some SchedInvalidPost, self)
      | Inr frames \<Rightarrow>
          (case fill (2 * length frames + 2) of
             None \<Rightarrow> (Some SchedRandomUnavailable, self)
           | Some jitter \<Rightarrow>
               (None, update_pending_metric
                  (self\<lparr>sch_pending := sch_pending self @ [pending_of_post post mtu frames jitter now]\<rparr>))))"

definition erase_front :: "scheduler \<Rightarrow> scheduler" where
  "erase_front self = update_pending_metric (self\<lparr>sch_pending := tl (sch_pending self)\<rparr>)"

definition fail_front :: "scheduler \<Rightarrow> outbound_event option \<times> scheduler" where
  "fail_front self =
     (let mid = pm_message_id (hd (sch_pending self));
          self = self\<lparr>sch_pending := tl (sch_pending self)\<rparr>;
          self = self\<lparr>sch_metrics := (sch_metrics self)\<lparr>sm_failed_messages := sm_failed_messages (sch_metrics self) + 1\<rparr>\<rparr>
      in (Some \<lparr>event_message_id = mid, event_state = OutFailed\<rparr>, update_pending_metric self))"

text \<open>The recurring exit of \<open>pump\<close>: fail a message in its primary pass, drop one in its repeat pass.\<close>

definition abandon_front :: "scheduler \<Rightarrow> outbound_event option \<times> scheduler" where
  "abandon_front self =
     (if \<not> pm_repeat_pass (hd (sch_pending self)) then fail_front self else (None, erase_front self))"

definition set_front :: "pending_message \<Rightarrow> scheduler \<Rightarrow> scheduler" where
  "set_front pending self = self\<lparr>sch_pending := pending # tl (sch_pending self)\<rparr>"

text \<open>Skip to the next fragment of a repeat pass.\<close>

definition skip_fragment :: "u64 \<Rightarrow> pending_message \<Rightarrow> scheduler \<Rightarrow> scheduler" where
  "skip_fragment now pending self =
     (let pending = pending\<lparr>pm_fragment_index := pm_fragment_index pending + 1\<rparr>
      in if pm_fragment_index pending = length (pm_frames pending) then erase_front (set_front pending self)
         else set_front (pending\<lparr>pm_due := now\<rparr>) self)"

definition take_jitter :: "pending_message \<Rightarrow> u64 \<Rightarrow> u64 \<times> pending_message" where
  "take_jitter pending inclusive_maximum =
     (scaled_jitter (pm_jitter pending ! pm_jitter_index pending) inclusive_maximum,
      pending\<lparr>pm_jitter_index := pm_jitter_index pending + 1\<rparr>)"

record transport_view =
  tv_maximum_datagram_size :: nat
  tv_closed :: bool
  tv_send :: datagram_send_status

record 'p policy_ops =
  policy_evaluate :: "u64 \<Rightarrow> nat \<Rightarrow> 'p \<Rightarrow> radio_transmit_decision \<times> 'p"
  policy_record :: "u64 \<Rightarrow> nat \<Rightarrow> 'p \<Rightarrow> 'p"

type_synonym offer = "bytes \<times> datagram_send_status"

record 'p pump_outcome =
  out_event :: "outbound_event option"
  out_offers :: "offer list"
  out_policy :: 'p
  out_scheduler :: scheduler

abbreviation outcome :: "outbound_event option \<Rightarrow> offer list \<Rightarrow> 'p \<Rightarrow> scheduler \<Rightarrow> 'p pump_outcome" where
  "outcome ev ofs pol s \<equiv> \<lparr>out_event = ev, out_offers = ofs, out_policy = pol, out_scheduler = s\<rparr>"

text \<open>A send that met backpressure: a second one gives up, a first one is retried later.\<close>

definition pump_blocked :: "u64 \<Rightarrow> pending_message \<Rightarrow> scheduler \<Rightarrow> outbound_event option \<times> scheduler" where
  "pump_blocked now pending self =
     (let self = self\<lparr>sch_metrics := (sch_metrics self)\<lparr>sm_backpressure_events := sm_backpressure_events (sch_metrics self) + 1\<rparr>\<rparr>
      in if pm_offer_counts pending ! pm_fragment_index pending \<ge> 2
         then if \<not> pm_repeat_pass pending then fail_front self
              else (None, skip_fragment now pending self)
         else let (retry_jitter, pending) = take_jitter pending 100
              in (None, set_front (pending\<lparr>pm_due := saturating_add now (100 + retry_jitter)\<rparr>) self))"

text \<open>A send the transport accepted: the next fragment, the repeat pass, or the end.\<close>

definition pump_accepted :: "u64 \<Rightarrow> pending_message \<Rightarrow> scheduler \<Rightarrow> outbound_event option \<times> scheduler" where
  "pump_accepted now pending self =
     (let self = self\<lparr>sch_metrics := (sch_metrics self)\<lparr>sm_accepted_datagrams := sm_accepted_datagrams (sch_metrics self) + 1\<rparr>\<rparr>;
          pending = pending\<lparr>pm_fragment_index := pm_fragment_index pending + 1\<rparr>
      in if pm_fragment_index pending < length (pm_frames pending)
         then let (gap, pending) = take_jitter pending 50
              in (None, set_front (pending\<lparr>pm_due := saturating_add now gap\<rparr>) self)
         else if \<not> pm_repeat_pass pending
         then let (repeat_jitter, pending) =
                    take_jitter (pending\<lparr>pm_repeat_pass := True, pm_fragment_index := 0\<rparr>) 250;
                  self = self\<lparr>sch_metrics := (sch_metrics self)\<lparr>sm_broadcast_messages := sm_broadcast_messages (sch_metrics self) + 1\<rparr>\<rparr>
              in (Some \<lparr>event_message_id = pm_message_id pending, event_state = OutBroadcast\<rparr>,
                  set_front (pending\<lparr>pm_due := saturating_add now (1000 + repeat_jitter)\<rparr>) self)
         else (None, erase_front (set_front pending self)))"

definition pump_offer ::
  "'p policy_ops \<Rightarrow> u64 \<Rightarrow> transport_view \<Rightarrow> 'p \<Rightarrow> pending_message \<Rightarrow> scheduler \<Rightarrow> 'p pump_outcome" where
  "pump_offer ops now transport policy pending self =
     (let frame = pm_frames pending ! pm_fragment_index pending;
          self = self\<lparr>sch_metrics := (sch_metrics self)\<lparr>sm_transport_offers := sm_transport_offers (sch_metrics self) + 1\<rparr>\<rparr>;
          send_status = tv_send transport;
          i = pm_fragment_index pending;
          pending = pending\<lparr>pm_offer_counts := (pm_offer_counts pending)[i := pm_offer_counts pending ! i + 1]\<rparr>;
          self = set_front pending self;
          offers = [(frame, send_status)]
      in if send_status = SendWouldBlock \<or> send_status = SendDisconnected
         then let (ev, self) = pump_blocked now pending self in outcome ev offers policy self
         else if send_status \<noteq> SendAccepted
         then let (ev, self) = abandon_front self in outcome ev offers policy self
         else let policy = policy_record ops now (length frame) policy;
                  (ev, self) = pump_accepted now pending self
              in outcome ev offers policy self)"

definition pump ::
  "'p policy_ops \<Rightarrow> u64 \<Rightarrow> transport_view \<Rightarrow> 'p \<Rightarrow> scheduler \<Rightarrow> 'p pump_outcome" where
  "pump ops now transport policy self =
     (case sch_pending self of
        [] \<Rightarrow> outcome None [] policy self
      | pending # _ \<Rightarrow>
          if now \<ge> pm_deadline pending
          then let (ev, self) = abandon_front self in outcome ev [] policy self
          else if now < pm_due pending then outcome None [] policy self
          else let frame = pm_frames pending ! pm_fragment_index pending
          in if tv_maximum_datagram_size transport \<noteq> pm_mtu pending \<or> tv_closed transport
          then let (ev, self) = abandon_front self in outcome ev [] policy self
          else if pm_repeat_pass pending \<and> pm_offer_counts pending ! pm_fragment_index pending \<ge> 2
          then outcome None [] policy (skip_fragment now pending self)
          else let (d, policy) = policy_evaluate ops now (length frame) policy
          in case decision_status d of
               TxDeferred \<Rightarrow>
                 let self = self\<lparr>sch_metrics := (sch_metrics self)\<lparr>sm_policy_deferrals := sm_policy_deferrals (sch_metrics self) + 1\<rparr>\<rparr>
                 in outcome None [] policy
                      (set_front (pending\<lparr>pm_due := if not_before_tick d > now then not_before_tick d
                                                   else saturating_add now 100\<rparr>) self)
             | TxLocked \<Rightarrow> let (ev, self) = abandon_front self in outcome ev [] policy self
             | TxInvalid \<Rightarrow> let (ev, self) = abandon_front self in outcome ev [] policy self
             | TxAllowed \<Rightarrow> pump_offer ops now transport policy pending self)"

definition cancel_all :: "scheduler \<Rightarrow> scheduler" where
  "cancel_all self = update_pending_metric (self\<lparr>sch_pending := []\<rparr>)"

section \<open>The front message as a state machine\<close>

text \<open>What one \<open>pump\<close> may do to the message at the front of the queue: the offer it makes, the terminal
  state it reports, and what is left of the message.\<close>

abbreviation front_count :: "pending_message \<Rightarrow> byte" where
  "front_count m \<equiv> pm_offer_counts m ! pm_fragment_index m"

abbreviation front_frame :: "pending_message \<Rightarrow> bytes" where
  "front_frame m \<equiv> pm_frames m ! pm_fragment_index m"

definition offered :: "pending_message \<Rightarrow> pending_message" where
  "offered m = m\<lparr>pm_offer_counts := (pm_offer_counts m)[pm_fragment_index m := front_count m + 1]\<rparr>"

definition next_fragment :: "pending_message \<Rightarrow> pending_message" where
  "next_fragment m = m\<lparr>pm_fragment_index := pm_fragment_index m + 1\<rparr>"

definition jittered :: "pending_message \<Rightarrow> u64 \<Rightarrow> pending_message" where
  "jittered m t = m\<lparr>pm_jitter_index := pm_jitter_index m + 1, pm_due := t\<rparr>"

definition loss :: "pending_message \<Rightarrow> outbound_terminal_state option" where
  "loss m = (if pm_repeat_pass m then None else Some OutFailed)"

inductive front_step ::
  "pending_message \<Rightarrow> offer list \<Rightarrow> outbound_terminal_state option \<Rightarrow> pending_message option \<Rightarrow> bool" where
  wait: "front_step m [] None (Some (m\<lparr>pm_due := t\<rparr>))"
| abandon: "front_step m [] (loss m) None"
| skip: "pm_repeat_pass m \<Longrightarrow> pm_fragment_index m + 1 < length (pm_frames m) \<Longrightarrow>
    front_step m [] None (Some ((next_fragment m)\<lparr>pm_due := t\<rparr>))"
| skip_end: "pm_repeat_pass m \<Longrightarrow> front_step m [] None None"
| refused: "front_count m < 2 \<Longrightarrow> st \<noteq> SendAccepted \<Longrightarrow> front_step m [(front_frame m, st)] (loss m) None"
| retry: "front_count m < 1 \<Longrightarrow> st \<noteq> SendAccepted \<Longrightarrow>
    front_step m [(front_frame m, st)] None (Some (jittered (offered m) t))"
| pass_over: "pm_repeat_pass m \<Longrightarrow> front_count m < 2 \<Longrightarrow> st \<noteq> SendAccepted \<Longrightarrow>
    pm_fragment_index m + 1 < length (pm_frames m) \<Longrightarrow>
    front_step m [(front_frame m, st)] None (Some ((next_fragment (offered m))\<lparr>pm_due := t\<rparr>))"
| sent: "front_count m < 2 \<Longrightarrow> pm_fragment_index m + 1 < length (pm_frames m) \<Longrightarrow>
    front_step m [(front_frame m, SendAccepted)] None (Some (jittered (next_fragment (offered m)) t))"
| broadcast: "\<not> pm_repeat_pass m \<Longrightarrow> front_count m < 2 \<Longrightarrow> pm_fragment_index m + 1 = length (pm_frames m) \<Longrightarrow>
    front_step m [(front_frame m, SendAccepted)] (Some OutBroadcast)
      (Some (jittered ((offered m)\<lparr>pm_repeat_pass := True, pm_fragment_index := 0\<rparr>) t))"
| repeated: "pm_repeat_pass m \<Longrightarrow> front_count m < 2 \<Longrightarrow> front_step m [(front_frame m, SendAccepted)] None None"

section \<open>Invariant\<close>

definition offers_made :: "pending_message \<Rightarrow> nat" where
  "offers_made m = sum_list (map unat (pm_offer_counts m))"

definition pending_ok :: "pending_message \<Rightarrow> bool" where
  "pending_ok m \<longleftrightarrow>
     pm_fragment_index m < length (pm_frames m) \<and> length (pm_frames m) \<le> kMaximumFragments \<and>
     list_all (\<lambda>f. f \<noteq> [] \<and> length f \<le> pm_mtu m) (pm_frames m) \<and>
     length (pm_offer_counts m) = length (pm_frames m) \<and>
     length (pm_jitter m) = 2 * length (pm_frames m) + 2 \<and>
     list_all (\<lambda>c. c \<le> 2) (pm_offer_counts m) \<and>
     pm_jitter_index m \<le> 1 + offers_made m \<and>
     (if pm_repeat_pass m then list_all (\<lambda>c. 1 \<le> c) (pm_offer_counts m)
      else front_count m \<le> 1 \<and> list_all (\<lambda>c. 1 \<le> c) (take (pm_fragment_index m) (pm_offer_counts m)) \<and>
        list_all (\<lambda>c. c = 0) (drop (Suc (pm_fragment_index m)) (pm_offer_counts m)))"

definition scheduler_ok :: "scheduler \<Rightarrow> bool" where
  "scheduler_ok s \<longleftrightarrow>
     list_all pending_ok (sch_pending s) \<and> length (sch_pending s) \<le> kMaximumOutboundMessages \<and>
     distinct (map pm_message_id (sch_pending s)) \<and>
     sm_pending_messages (sch_metrics s) = length (sch_pending s) \<and>
     sm_pending_messages (sch_metrics s) \<le> sm_high_water_messages (sch_metrics s) \<and>
     sm_high_water_messages (sch_metrics s) \<le> kMaximumOutboundMessages"

section \<open>Refinement of \<open>pump\<close>\<close>

lemma pending_of_helpers [simp]:
  "sch_pending (update_pending_metric s) = sch_pending s" "sch_pending (erase_front s) = tl (sch_pending s)"
  "sch_pending (set_front m s) = m # tl (sch_pending s)" "sch_pending (snd (fail_front s)) = tl (sch_pending s)"
  "fst (fail_front s) = Some \<lparr>event_message_id = pm_message_id (hd (sch_pending s)), event_state = OutFailed\<rparr>"
  "sch_pending (snd (abandon_front s)) = tl (sch_pending s)"
  "fst (abandon_front s) = map_option (\<lambda>st. \<lparr>event_message_id = pm_message_id (hd (sch_pending s)), event_state = st\<rparr>)
     (loss (hd (sch_pending s)))"
  by (simp_all add: update_pending_metric_def erase_front_def set_front_def fail_front_def abandon_front_def loss_def Let_def)

definition front_event :: "pending_message \<Rightarrow> outbound_terminal_state option \<Rightarrow> outbound_event option" where
  "front_event m ev = map_option (\<lambda>st. \<lparr>event_message_id = pm_message_id m, event_state = st\<rparr>) ev"

definition after_front :: "pending_message list \<Rightarrow> pending_message option \<Rightarrow> pending_message list" where
  "after_front rest res = (case res of None \<Rightarrow> rest | Some m \<Rightarrow> m # rest)"

text \<open>The outcome of a \<open>pump\<close> on a queue with front \<open>m\<close>, seen through the front's state machine.\<close>

definition refines_front :: "pending_message \<Rightarrow> pending_message list \<Rightarrow> offer list \<Rightarrow> outbound_event option \<Rightarrow> scheduler \<Rightarrow> bool" where
  "refines_front m rest offs ev s \<longleftrightarrow>
     (\<exists>e res. front_step m offs e res \<and> ev = front_event m e \<and> sch_pending s = after_front rest res)"

lemma refinesI:
  "front_step m offs e res \<Longrightarrow> ev = front_event m e \<Longrightarrow> sch_pending s = after_front rest res \<Longrightarrow>
   refines_front m rest offs ev s"
  by (auto simp: refines_front_def)

lemma count_succ: "(c :: byte) < 2 \<Longrightarrow> unat (c + 1) = unat c + 1"
  by (simp add: unat_word_ariths(1) word_less_nat_alt)

lemma less_two_cases: "(c :: byte) < 2 \<Longrightarrow> c + 1 < 2 \<Longrightarrow> c < 1"
  using count_succ [of c] by (simp add: word_less_nat_alt)

lemma skip_refines:
  assumes "sch_pending s = x # rest" "pm_fragment_index m < length (pm_frames m)"
    "pm_fragment_index m + 1 < length (pm_frames m) \<Longrightarrow> front_step m0 offs None (Some ((next_fragment m)\<lparr>pm_due := now\<rparr>))"
    "front_step m0 offs None None"
  shows "refines_front m0 rest offs None (skip_fragment now m s)"
proof (cases "pm_fragment_index m + 1 < length (pm_frames m)")
  case True
  then show ?thesis using assms(1)
    by (intro refinesI [OF assms(3)]) (auto simp: skip_fragment_def Let_def front_event_def after_front_def next_fragment_def)
next
  case False
  then show ?thesis using assms(1,2)
    by (intro refinesI [OF assms(4)]) (auto simp: skip_fragment_def Let_def front_event_def after_front_def)
qed

lemma abandon_refines:
  assumes "sch_pending s = x # rest" "pm_message_id x = pm_message_id m" "pm_repeat_pass x = pm_repeat_pass m"
    "front_step m offs (loss m) None"
  shows "refines_front m rest offs (fst (abandon_front s)) (snd (abandon_front s))"
  using assms by (intro refinesI [OF assms(4)]) (simp_all add: front_event_def after_front_def loss_def)


lemma pending_okD:
  assumes "pending_ok m"
  shows "pm_fragment_index m < length (pm_frames m)" "length (pm_offer_counts m) = length (pm_frames m)"
    "length (pm_jitter m) = 2 * length (pm_frames m) + 2" "\<not> pm_repeat_pass m \<Longrightarrow> front_count m < 2"
    "list_all (\<lambda>c. c \<le> 2) (pm_offer_counts m)" "pm_jitter_index m \<le> 1 + offers_made m"
    "length (pm_frames m) \<le> kMaximumFragments" "list_all (\<lambda>f. f \<noteq> [] \<and> length f \<le> pm_mtu m) (pm_frames m)"
  using assms by (auto simp: pending_ok_def word_less_nat_alt word_le_nat_alt)

lemma offered_fields [simp]:
  "pm_message_id (offered m) = pm_message_id m" "pm_mtu (offered m) = pm_mtu m" "pm_frames (offered m) = pm_frames m"
  "pm_jitter (offered m) = pm_jitter m" "pm_fragment_index (offered m) = pm_fragment_index m"
  "pm_jitter_index (offered m) = pm_jitter_index m" "pm_repeat_pass (offered m) = pm_repeat_pass m"
  "pm_due (offered m) = pm_due m" "pm_deadline (offered m) = pm_deadline m"
  "pm_offer_counts (offered m) = (pm_offer_counts m)[pm_fragment_index m := front_count m + 1]"
  by (simp_all add: offered_def)

lemma blocked_refines:
  assumes "sch_pending s = offered m # rest" "pending_ok m" "front_count m < 2" "st \<noteq> SendAccepted"
  shows "refines_front m rest [(front_frame m, st)] (fst (pump_blocked now (offered m) s)) (snd (pump_blocked now (offered m) s))"
proof -
  note ok = pending_okD [OF assms(2)]
  have front: "front_count (offered m) = front_count m + 1" using ok by simp
  consider (give_up) "front_count m + 1 \<ge> 2" "\<not> pm_repeat_pass m" | (over) "front_count m + 1 \<ge> 2" "pm_repeat_pass m"
    | (again) "front_count m < 1" "\<not> front_count m + 1 \<ge> 2"
    using less_two_cases [OF assms(3)] by fastforce
  then show ?thesis
  proof cases
    case give_up
    then show ?thesis using assms(1) ok
      by (intro refinesI [OF refused [OF assms(3,4)]])
        (simp_all add: pump_blocked_def Let_def front_event_def after_front_def loss_def)
  next
    case over
    have "front_step m [(front_frame m, st)] None None" using refused [OF assms(3,4)] over(2) by (simp add: loss_def)
    moreover have "pm_fragment_index m + 1 < length (pm_frames m) \<Longrightarrow>
        front_step m [(front_frame m, st)] None (Some ((next_fragment (offered m))\<lparr>pm_due := now\<rparr>))"
      by (rule pass_over [OF over(2) assms(3,4)])
    ultimately show ?thesis using assms(1) ok over
      by (simp add: pump_blocked_def Let_def) (rule skip_refines, auto)
  next
    case again
    then show ?thesis using assms(1) ok
      by (intro refinesI [OF retry [OF again(1) assms(4)]])
        (simp_all add: pump_blocked_def Let_def front_event_def after_front_def take_jitter_def jittered_def)
  qed
qed

lemma accepted_refines:
  assumes "sch_pending s = offered m # rest" "pending_ok m" "front_count m < 2"
  shows "refines_front m rest [(front_frame m, SendAccepted)]
    (fst (pump_accepted now (offered m) s)) (snd (pump_accepted now (offered m) s))"
proof -
  note ok = pending_okD [OF assms(2)]
  consider (next_one) "pm_fragment_index m + 1 < length (pm_frames m)"
    | (last_first) "pm_fragment_index m + 1 = length (pm_frames m)" "\<not> pm_repeat_pass m"
    | (last_again) "pm_fragment_index m + 1 = length (pm_frames m)" "pm_repeat_pass m"
    using ok(1) by linarith
  then show ?thesis
  proof cases
    case next_one
    then show ?thesis using assms(1)
      by (intro refinesI [OF sent [OF assms(3) next_one]])
        (simp_all add: pump_accepted_def Let_def front_event_def after_front_def take_jitter_def jittered_def next_fragment_def)
  next
    case last_first
    then show ?thesis using assms(1)
      by (intro refinesI [OF broadcast [OF last_first(2) assms(3) last_first(1)]])
        (simp_all add: pump_accepted_def Let_def front_event_def after_front_def take_jitter_def jittered_def)
  next
    case last_again
    then show ?thesis using assms(1)
      by (intro refinesI [OF repeated [OF last_again(2) assms(3)]])
        (simp_all add: pump_accepted_def Let_def front_event_def after_front_def)
  qed
qed

lemma offer_refines:
  assumes "sch_pending s = m # rest" "pending_ok m" "front_count m < 2"
  shows "let out = pump_offer ops now tr pol m s
    in refines_front m rest (out_offers out) (out_event out) (out_scheduler out)"
proof -
  let ?s = "set_front (offered m) (s\<lparr>sch_metrics := (sch_metrics s)\<lparr>sm_transport_offers := sm_transport_offers (sch_metrics s) + 1\<rparr>\<rparr>)"
  have s: "sch_pending ?s = offered m # rest" using assms(1) by simp
  show ?thesis
  proof (cases "tv_send tr = SendWouldBlock \<or> tv_send tr = SendDisconnected")
    case True
    then have "tv_send tr \<noteq> SendAccepted" by auto
    from blocked_refines [OF s assms(2,3) this, of now] True show ?thesis
      by (simp add: pump_offer_def Let_def offered_def [symmetric] case_prod_unfold)
  next
    case False
    show ?thesis
    proof (cases "tv_send tr = SendAccepted")
      case True
      with accepted_refines [OF s assms(2,3), of now] show ?thesis
        by (simp add: pump_offer_def Let_def offered_def [symmetric] case_prod_unfold)
    next
      case other: False
      with False abandon_refines [OF s _ _ refused [OF assms(3) other]] show ?thesis
        by (simp add: pump_offer_def Let_def offered_def [symmetric] case_prod_unfold)
    qed
  qed
qed

lemma pump_refines:
  assumes s: "sch_pending s = m # rest" and ok: "pending_ok m"
  shows "let out = pump ops now tr pol s
    in refines_front m rest (out_offers out) (out_event out) (out_scheduler out)"
proof -
  have stay: "refines_front m rest [] None s"
    using wait [of m "pm_due m"] s by (intro refinesI) (auto simp: front_event_def after_front_def)
  have later: "refines_front m rest [] None (set_front (m\<lparr>pm_due := t\<rparr>) s')" if "sch_pending s' = sch_pending s" for t s'
    using wait [of m t] s that by (intro refinesI) (auto simp: front_event_def after_front_def)
  have gone: "refines_front m rest [] (fst (abandon_front s)) (snd (abandon_front s))"
    by (rule abandon_refines [OF s refl refl abandon])
  have over: "refines_front m rest [] None (skip_fragment now m s)" if "pm_repeat_pass m"
    using skip_refines [OF s pending_okD(1) [OF ok] skip [OF that] skip_end [OF that]] by simp
  have less: "front_count m < 2" if "\<not> (pm_repeat_pass m \<and> front_count m \<ge> 2)"
    using that pending_okD(4) [OF ok] by auto
  show ?thesis
  proof (cases "now \<ge> pm_deadline m \<or> now < pm_due m \<or> tv_maximum_datagram_size tr \<noteq> pm_mtu m \<or> tv_closed tr \<or>
      (pm_repeat_pass m \<and> front_count m \<ge> 2)")
    case True
    then show ?thesis using stay gone over by (auto simp: pump_def s Let_def case_prod_unfold)
  next
    case False
    then have "front_count m < 2" using less by blast
    note offer = offer_refines [OF s ok this, of ops now tr "snd (policy_evaluate ops now (length (front_frame m)) pol)"]
    show ?thesis using False offer gone later
      by (auto simp: pump_def s Let_def case_prod_unfold split: radio_transmit_status.split)
  qed
qed

section \<open>The invariant\<close>

lemma offers_made_offered:
  assumes "pm_fragment_index m < length (pm_offer_counts m)" "front_count m < 2"
  shows "offers_made (offered m) = Suc (offers_made m)"
proof -
  let ?i = "pm_fragment_index m" and ?xs = "map unat (pm_offer_counts m)"
  have "sum_list (?xs[?i := Suc (?xs ! ?i)]) = Suc (sum_list ?xs)"
    using assms(1) by (simp add: sum_list_update)
  moreover have "map unat ((pm_offer_counts m)[?i := front_count m + 1]) = ?xs[?i := Suc (?xs ! ?i)]"
    using assms count_succ [OF assms(2)] by (simp add: map_update)
  ultimately show ?thesis by (simp add: offers_made_def offered_def)
qed

lemma offers_made_bound:
  assumes "list_all (\<lambda>c. c \<le> 2) (pm_offer_counts m)"
  shows "offers_made m \<le> 2 * length (pm_offer_counts m)"
proof -
  have "sum_list (map unat cs) \<le> 2 * length cs" if "list_all (\<lambda>c. c \<le> 2) cs" for cs :: bytes
    using that by (induction cs) (auto simp: word_le_nat_alt)
  from this [OF assms] show ?thesis by (simp add: offers_made_def)
qed

text \<open>The message after one more offer of the current fragment.\<close>

lemma offered_ok:
  assumes ok: "pending_ok m" and less: "front_count m < 2"
  shows "list_all (\<lambda>c. c \<le> 2) (pm_offer_counts (offered m))" "pm_jitter_index m \<le> offers_made (offered m)"
    "pm_repeat_pass m \<Longrightarrow> list_all (\<lambda>c. 1 \<le> c) (pm_offer_counts (offered m))"
    "\<not> pm_repeat_pass m \<Longrightarrow> list_all (\<lambda>c. 1 \<le> c) (take (Suc (pm_fragment_index m)) (pm_offer_counts (offered m)))"
    "\<not> pm_repeat_pass m \<Longrightarrow> list_all (\<lambda>c. c = 0) (drop (Suc (pm_fragment_index m)) (pm_offer_counts (offered m)))"
proof -
  note d = pending_okD [OF ok]
  have i: "pm_fragment_index m < length (pm_offer_counts m)" using d by simp
  have c: "front_count m + 1 \<le> 2" "1 \<le> front_count m + 1"
    using count_succ [OF less] less by (simp_all add: word_le_nat_alt word_less_nat_alt)
  show "list_all (\<lambda>c. c \<le> 2) (pm_offer_counts (offered m))"
    using d(5) c(1) by (auto simp: list_all_iff dest!: set_update_subset_insert [THEN subsetD])
  show "pm_jitter_index m \<le> offers_made (offered m)" using d(6) offers_made_offered [OF i less] by simp
  show "list_all (\<lambda>c. 1 \<le> c) (pm_offer_counts (offered m))" if "pm_repeat_pass m"
    using ok that c(2) by (auto simp: pending_ok_def list_all_iff dest!: set_update_subset_insert [THEN subsetD])
  show "list_all (\<lambda>c. 1 \<le> c) (take (Suc (pm_fragment_index m)) (pm_offer_counts (offered m)))" if "\<not> pm_repeat_pass m"
    using ok that c(2) i by (simp add: pending_ok_def take_Suc_conv_app_nth)
  show "list_all (\<lambda>c. c = 0) (drop (Suc (pm_fragment_index m)) (pm_offer_counts (offered m)))" if "\<not> pm_repeat_pass m"
    using ok that i by (simp add: pending_ok_def drop_update_cancel)
qed

lemma offers_made_cong [simp]:
  "offers_made (next_fragment m) = offers_made m" "offers_made (jittered m t) = offers_made m"
  "offers_made (m\<lparr>pm_due := t\<rparr>) = offers_made m" "offers_made (m\<lparr>pm_repeat_pass := b, pm_fragment_index := i\<rparr>) = offers_made m"
  by (simp_all add: offers_made_def next_fragment_def jittered_def)

lemma front_step_ok:
  assumes "front_step m offs e res" "pending_ok m" "res = Some m'"
  shows "pending_ok m'"
  using assms
proof (induction rule: front_step.induct)
  case (wait m t)
  then show ?case by (auto simp: pending_ok_def)
next
  case (skip m t)
  then show ?case by (auto simp: pending_ok_def next_fragment_def offers_made_def)
next
  case (retry m st t)
  then have less: "front_count m < 2" by (auto simp: word_less_nat_alt)
  have one: "front_count m + 1 \<le> 1" using retry(1) count_succ [OF less] by (simp add: word_le_nat_alt word_less_nat_alt)
  have t: "list_all (\<lambda>c. 1 \<le> c) (take (pm_fragment_index m) (pm_offer_counts (offered m)))" if "\<not> pm_repeat_pass m"
    using offered_ok(4) [OF retry(3) less that] pending_okD [OF retry(3)] by (simp add: take_Suc_conv_app_nth)
  show ?case using retry(4) pending_okD [OF retry(3)] offered_ok [OF retry(3) less] t one
    by (auto simp: pending_ok_def jittered_def offers_made_def)
next
  case (pass_over m st t)
  then show ?case using pending_okD [OF pass_over(5)] offered_ok [OF pass_over(5,2)]
    by (auto simp: pending_ok_def next_fragment_def offers_made_def)
next
  case (sent m t)
  have tl0: "pm_offer_counts (offered m) ! Suc (pm_fragment_index m) = 0 \<and>
      list_all (\<lambda>c. c = 0) (drop (Suc (Suc (pm_fragment_index m))) (pm_offer_counts (offered m)))" if "\<not> pm_repeat_pass m"
    using offered_ok(5) [OF sent(3,1) that] sent(2) pending_okD [OF sent(3)]
    by (subst (asm) Cons_nth_drop_Suc [symmetric]) auto
  show ?case using sent pending_okD [OF sent(3)] offered_ok [OF sent(3,1)] tl0
    by (auto simp: pending_ok_def next_fragment_def jittered_def offers_made_def)
next
  case (broadcast m t)
  have "list_all (\<lambda>c. 1 \<le> c) (pm_offer_counts (offered m))"
    using offered_ok(4) [OF broadcast(4,2,1)] broadcast(3) pending_okD [OF broadcast(4)] by simp
  then show ?case using broadcast pending_okD [OF broadcast(4)] offered_ok [OF broadcast(4,2)]
    by (auto simp: pending_ok_def jittered_def offers_made_def)
qed auto

lemma front_step_kept:
  assumes "front_step m offs e (Some m')"
  shows "pm_message_id m' = pm_message_id m" "pm_frames m' = pm_frames m" "pm_mtu m' = pm_mtu m" "pm_deadline m' = pm_deadline m"
  using assms by (induction m offs e "Some m'" rule: front_step.induct) (auto simp: jittered_def next_fragment_def)

lemma pump_empty: "sch_pending s = [] \<Longrightarrow> pump ops now tr pol s = outcome None [] pol s"
  by (simp add: pump_def)

text \<open>The queue length metrics.\<close>

definition queue_metrics_ok :: "scheduler \<Rightarrow> bool" where
  "queue_metrics_ok s \<longleftrightarrow>
     sm_pending_messages (sch_metrics s) = length (sch_pending s) \<and>
     sm_pending_messages (sch_metrics s) \<le> sm_high_water_messages (sch_metrics s) \<and>
     sm_high_water_messages (sch_metrics s) \<le> kMaximumOutboundMessages"

lemma queue_metrics_update:
  "length (sch_pending s) \<le> kMaximumOutboundMessages \<Longrightarrow> sm_high_water_messages (sch_metrics s) \<le> kMaximumOutboundMessages \<Longrightarrow>
   queue_metrics_ok (update_pending_metric s)"
  by (simp add: queue_metrics_ok_def update_pending_metric_def)

lemma queue_metrics_counters [simp]:
  "queue_metrics_ok (s\<lparr>sch_metrics := (sch_metrics s)\<lparr>sm_transport_offers := v\<rparr>\<rparr>) = queue_metrics_ok s"
  "queue_metrics_ok (s\<lparr>sch_metrics := (sch_metrics s)\<lparr>sm_accepted_datagrams := v\<rparr>\<rparr>) = queue_metrics_ok s"
  "queue_metrics_ok (s\<lparr>sch_metrics := (sch_metrics s)\<lparr>sm_backpressure_events := v\<rparr>\<rparr>) = queue_metrics_ok s"
  "queue_metrics_ok (s\<lparr>sch_metrics := (sch_metrics s)\<lparr>sm_policy_deferrals := v\<rparr>\<rparr>) = queue_metrics_ok s"
  "queue_metrics_ok (s\<lparr>sch_metrics := (sch_metrics s)\<lparr>sm_broadcast_messages := v\<rparr>\<rparr>) = queue_metrics_ok s"
  "queue_metrics_ok (s\<lparr>sch_metrics := (sch_metrics s)\<lparr>sm_accepted_datagrams := v, sm_broadcast_messages := w\<rparr>\<rparr>) = queue_metrics_ok s"
  by (simp_all add: queue_metrics_ok_def)

lemma queue_metrics_helpers:
  assumes "queue_metrics_ok s"
  shows "queue_metrics_ok (erase_front s)" "queue_metrics_ok (snd (fail_front s))"
    "queue_metrics_ok (snd (abandon_front s))" "sch_pending s \<noteq> [] \<Longrightarrow> queue_metrics_ok (set_front m s)"
proof -
  show e: "queue_metrics_ok (erase_front s)" and f: "queue_metrics_ok (snd (fail_front s))"
    using assms by (auto simp: erase_front_def fail_front_def Let_def queue_metrics_ok_def update_pending_metric_def)
  show "queue_metrics_ok (snd (abandon_front s))" using e f by (simp add: abandon_front_def)
  show "sch_pending s \<noteq> [] \<Longrightarrow> queue_metrics_ok (set_front m s)"
    using assms by (auto simp: queue_metrics_ok_def set_front_def)
qed

lemma queue_metrics_front:
  assumes "queue_metrics_ok s" "sch_pending s \<noteq> []"
  shows "queue_metrics_ok (skip_fragment now m s)" "queue_metrics_ok (snd (pump_blocked now m s))"
    "queue_metrics_ok (snd (pump_accepted now m s))"
proof -
  have sk: "queue_metrics_ok (skip_fragment now m s)" if "queue_metrics_ok s" "sch_pending s \<noteq> []" for s
    using that by (simp add: skip_fragment_def Let_def queue_metrics_helpers)
  then show "queue_metrics_ok (skip_fragment now m s)" using assms .
  show "queue_metrics_ok (snd (pump_blocked now m s))" using assms
    by (simp add: pump_blocked_def Let_def sk queue_metrics_helpers take_jitter_def)
  show "queue_metrics_ok (snd (pump_accepted now m s))" using assms
    by (simp add: pump_accepted_def Let_def queue_metrics_helpers take_jitter_def)
qed

lemma queue_metrics_offer:
  assumes "queue_metrics_ok s" "sch_pending s \<noteq> []"
  shows "queue_metrics_ok (out_scheduler (pump_offer ops now tr pol m s))"
  using assms by (simp add: pump_offer_def Let_def case_prod_unfold queue_metrics_helpers queue_metrics_front)

lemma queue_metrics_pump:
  assumes "queue_metrics_ok s"
  shows "queue_metrics_ok (out_scheduler (pump ops now tr pol s))"
proof (cases "sch_pending s")
  case (Cons m rest)
  then have ne: "sch_pending s \<noteq> []" by simp
  show ?thesis using assms
    by (simp add: pump_def Cons Let_def case_prod_unfold queue_metrics_helpers queue_metrics_front [OF _ ne]
        queue_metrics_offer [OF _ ne] split: radio_transmit_status.split)
qed (simp add: pump_def assms)

lemma scheduler_okD:
  assumes "scheduler_ok s"
  shows "list_all pending_ok (sch_pending s)" "length (sch_pending s) \<le> kMaximumOutboundMessages"
    "distinct (map pm_message_id (sch_pending s))" "queue_metrics_ok s" "sch_pending s = m # rest \<Longrightarrow> pending_ok m"
  using assms by (auto simp: scheduler_ok_def queue_metrics_ok_def)

lemma pump_front:
  assumes "scheduler_ok s" "sch_pending s = m # rest"
  obtains e res where "front_step m (out_offers (pump ops now tr pol s)) e res"
    "out_event (pump ops now tr pol s) = front_event m e"
    "sch_pending (out_scheduler (pump ops now tr pol s)) = after_front rest res"
  using pump_refines [OF assms(2) scheduler_okD(5) [OF assms(1,2)], of ops now tr pol]
  by (auto simp: Let_def refines_front_def)

lemma pump_ok:
  assumes ok: "scheduler_ok s"
  shows "scheduler_ok (out_scheduler (pump ops now tr pol s))"
proof (cases "sch_pending s")
  case Nil
  then show ?thesis using ok by (simp add: pump_def)
next
  case (Cons m rest)
  obtain e res where st: "front_step m (out_offers (pump ops now tr pol s)) e res"
    and p: "sch_pending (out_scheduler (pump ops now tr pol s)) = after_front rest res"
    using pump_front [OF ok Cons, of ops now tr pol] by blast
  note d = scheduler_okD [OF ok]
  have m: "queue_metrics_ok (out_scheduler (pump ops now tr pol s))" by (rule queue_metrics_pump [OF d(4)])
  show ?thesis
  proof (cases res)
    case None
    then show ?thesis using d m p Cons by (auto simp: scheduler_ok_def after_front_def queue_metrics_ok_def)
  next
    case (Some m')
    then show ?thesis
      using d m p Cons front_step_ok [OF st d(5) [OF Cons] Some] front_step_kept(1) [of m _ e m'] st
      by (auto simp: scheduler_ok_def after_front_def queue_metrics_ok_def)
  qed
qed

lemma enqueued_ok:
  assumes "post_ok post" "is_supported_mtu mtu" "fragment_post post mtu = Inr frames" "length jitter = 2 * length frames + 2"
  shows "pending_ok (pending_of_post post mtu frames jitter now)" "offers_made (pending_of_post post mtu frames jitter now) = 0"
proof -
  let ?fs = "fragment_frames post mtu"
  have f: "frames = map frame_layout ?fs" using assms(3) fragment_post_frames [OF assms(1,2)] by simp
  note n = fragments_of_bound [OF conjunct1 [OF payload_capacity_bounds [OF assms(2)]] post_layout_size [OF assms(1)]]
  have len: "1 \<le> length frames" "length frames \<le> kMaximumFragments" using n by (simp_all add: f length_fragment_frames)
  have "\<forall>x \<in> set ?fs. frame_layout x \<noteq> [] \<and> length (frame_layout x) \<le> mtu"
  proof
    fix x assume "x \<in> set ?fs"
    then have "frame_ok mtu x" by (rule fragment_frames_ok [OF assms(1,2)])
    then show "frame_layout x \<noteq> [] \<and> length (frame_layout x) \<le> mtu" using frame_ok_size by fastforce
  qed
  then have "list_all (\<lambda>g. g \<noteq> [] \<and> length g \<le> mtu) frames" by (auto simp: f list_all_iff)
  then show "pending_ok (pending_of_post post mtu frames jitter now)"
    using len assms(4) by (cases frames) (auto simp: pending_ok_def pending_of_post_def offers_made_def list_all_iff)
  show "offers_made (pending_of_post post mtu frames jitter now) = 0"
    by (simp add: offers_made_def pending_of_post_def)
qed

text \<open>What an accepted \<open>enqueue\<close> appends.\<close>

lemma enqueue_None:
  assumes "scheduler_enqueue fill post mtu now s = (None, s')"
  shows "\<exists>frames jitter. is_supported_mtu mtu \<and> length (sch_pending s) < kMaximumOutboundMessages \<and>
    message_id post \<notin> pm_message_id ` set (sch_pending s) \<and> fragment_post post mtu = Inr frames \<and>
    fill (2 * length frames + 2) = Some jitter \<and>
    s' = update_pending_metric (s\<lparr>sch_pending := sch_pending s @ [pending_of_post post mtu frames jitter now]\<rparr>)"
  using assms
  by (auto simp: scheduler_enqueue_def is_supported_mtu_def list_ex_iff split: if_splits sum.splits option.splits)

lemma enqueue_Some: "scheduler_enqueue fill post mtu now s = (Some e, s') \<Longrightarrow> s' = s"
  by (auto simp: scheduler_enqueue_def split: if_splits sum.splits option.splits)

definition fill_wf :: "(nat \<Rightarrow> bytes option) \<Rightarrow> bool" where
  "fill_wf fill \<longleftrightarrow> (\<forall>n b. fill n = Some b \<longrightarrow> length b = n)"

lemma scheduler_enqueue_ok:
  assumes ok: "scheduler_ok s" and post: "post_ok post" and fill: "fill_wf fill"
    and enq: "scheduler_enqueue fill post mtu now s = (err, s')"
  shows "scheduler_ok s'"
proof (cases err)
  case (Some e)
  then show ?thesis using ok enq enqueue_Some by blast
next
  case None
  obtain frames jitter where a: "is_supported_mtu mtu" "length (sch_pending s) < kMaximumOutboundMessages"
    "message_id post \<notin> pm_message_id ` set (sch_pending s)" "fragment_post post mtu = Inr frames"
    "fill (2 * length frames + 2) = Some jitter"
    and s': "s' = update_pending_metric (s\<lparr>sch_pending := sch_pending s @ [pending_of_post post mtu frames jitter now]\<rparr>)"
    using enqueue_None [of fill post mtu now s s'] enq None by blast
  have "pending_ok (pending_of_post post mtu frames jitter now)"
    using a(5) fill by (intro enqueued_ok [OF post a(1,4)]) (simp add: fill_wf_def)
  moreover have "queue_metrics_ok s'" unfolding s'
    using a(2) scheduler_okD(4) [OF ok] by (intro queue_metrics_update) (auto simp: queue_metrics_ok_def)
  moreover have "pm_message_id (pending_of_post post mtu frames jitter now) = message_id post" by (simp add: pending_of_post_def)
  ultimately show ?thesis using a(2,3) scheduler_okD [OF ok]
    by (auto simp: scheduler_ok_def s' queue_metrics_ok_def)
qed

lemma cancel_ok: "scheduler_ok s \<Longrightarrow> scheduler_ok (cancel_all s)"
  by (auto simp: cancel_all_def scheduler_ok_def update_pending_metric_def)

section \<open>Runs\<close>

datatype sched_label =
    LEnqueued post_payload nat
  | LRefused scheduler_error
  | LPumped u64 "outbound_event option" "offer list"
  | LCancelled

inductive sched_step :: "'p policy_ops \<Rightarrow> scheduler \<times> 'p \<Rightarrow> sched_label \<Rightarrow> scheduler \<times> 'p \<Rightarrow> bool" for ops where
  step_enqueued: "post_ok post \<Longrightarrow> fill_wf fill \<Longrightarrow> scheduler_enqueue fill post mtu now s = (None, s') \<Longrightarrow>
    sched_step ops (s, p) (LEnqueued post mtu) (s', p)"
| step_refused: "scheduler_enqueue fill post mtu now s = (Some e, s') \<Longrightarrow> sched_step ops (s, p) (LRefused e) (s', p)"
| step_pumped: "pump ops now tr p s = out \<Longrightarrow>
    sched_step ops (s, p) (LPumped now (out_event out) (out_offers out)) (out_scheduler out, out_policy out)"
| step_cancelled: "sched_step ops (s, p) LCancelled (cancel_all s, p)"

inductive sched_run :: "'p policy_ops \<Rightarrow> scheduler \<times> 'p \<Rightarrow> sched_label list \<Rightarrow> scheduler \<times> 'p \<Rightarrow> bool" for ops where
  sched_refl: "sched_run ops c [] c"
| sched_snoc: "sched_run ops c ls c' \<Longrightarrow> sched_step ops c' l c'' \<Longrightarrow> sched_run ops c (ls @ [l]) c''"

fun label_offers :: "sched_label \<Rightarrow> offer list" where
  "label_offers (LPumped now ev offs) = offs"
| "label_offers _ = []"

definition run_offers :: "sched_label list \<Rightarrow> offer list" where
  "run_offers ls = concat (map label_offers ls)"

definition accepted_frames :: "sched_label list \<Rightarrow> bytes list" where
  "accepted_frames ls = map fst (filter (\<lambda>(f, st). st = SendAccepted) (run_offers ls))"

fun label_fragments :: "sched_label \<Rightarrow> nat" where
  "label_fragments (LEnqueued post mtu) = (case fragment_post post mtu of Inr fs \<Rightarrow> length fs | Inl _ \<Rightarrow> 0)"
| "label_fragments _ = 0"

definition fragments_enqueued :: "sched_label list \<Rightarrow> nat" where
  "fragments_enqueued ls = sum_list (map label_fragments ls)"

lemma run_measures [simp]:
  "run_offers [] = []" "run_offers (ls @ [l]) = run_offers ls @ label_offers l"
  "accepted_frames [] = []" "fragments_enqueued [] = 0"
  "accepted_frames (ls @ [l]) = accepted_frames ls @ map fst (filter (\<lambda>(f, st). st = SendAccepted) (label_offers l))"
  "fragments_enqueued (ls @ [l]) = fragments_enqueued ls + label_fragments l"
  by (simp_all add: run_offers_def accepted_frames_def fragments_enqueued_def)

lemma sched_step_ok: "sched_step ops c l c' \<Longrightarrow> scheduler_ok (fst c) \<Longrightarrow> scheduler_ok (fst c')"
  by (induction rule: sched_step.induct) (auto intro: scheduler_enqueue_ok pump_ok cancel_ok dest: enqueue_Some)

lemma sched_run_ok: "sched_run ops c ls c' \<Longrightarrow> scheduler_ok (fst c) \<Longrightarrow> scheduler_ok (fst c')"
  by (induction rule: sched_run.induct) (auto intro: sched_step_ok)

lemma scheduler_new_ok: "scheduler_ok scheduler_new"
  by (simp add: scheduler_ok_def scheduler_new_def)

section \<open>Offers\<close>

definition offers_left :: "scheduler \<Rightarrow> nat" where
  "offers_left s = sum_list (map (\<lambda>m. 2 * length (pm_frames m) - offers_made m) (sch_pending s))"

lemma front_step_offers:
  assumes "front_step m offs e res" "pending_ok m"
  shows "length offs + (case res of None \<Rightarrow> 0 | Some m' \<Rightarrow> 2 * length (pm_frames m') - offers_made m')
    \<le> 2 * length (pm_frames m) - offers_made m"
proof -
  note d = pending_okD [OF assms(2)]
  have made: "offers_made (offered m) = Suc (offers_made m) \<and> offers_made (offered m) \<le> 2 * length (pm_frames m)"
    if "front_count m < 2"
    using offers_made_offered [OF _ that] offers_made_bound [OF offered_ok(1) [OF assms(2) that]] d(1,2) by simp
  from assms(1) made show ?thesis
    by (induction rule: front_step.induct) (auto simp: next_fragment_def jittered_def offers_made_def word_less_nat_alt)
qed

lemma pump_offers_left:
  assumes ok: "scheduler_ok s"
  shows "length (out_offers (pump ops now tr p s)) + offers_left (out_scheduler (pump ops now tr p s)) \<le> offers_left s"
proof (cases "sch_pending s")
  case Nil
  then show ?thesis by (simp add: pump_empty)
next
  case (Cons m rest)
  obtain e res where "front_step m (out_offers (pump ops now tr p s)) e res"
    and "sch_pending (out_scheduler (pump ops now tr p s)) = after_front rest res"
    using pump_front [OF ok Cons, of ops now tr p] by blast
  then show ?thesis using front_step_offers [OF _ scheduler_okD(5) [OF ok Cons]] Cons
    by (fastforce simp: offers_left_def after_front_def split: option.splits)
qed

lemma step_offers_left:
  assumes "sched_step ops c l c'" "scheduler_ok (fst c)"
  shows "length (label_offers l) + offers_left (fst c') \<le> offers_left (fst c) + 2 * label_fragments l"
  using assms
proof (induction rule: sched_step.induct)
  case (step_enqueued post fill mtu now s s' p)
  then obtain frames jitter where "fragment_post post mtu = Inr frames"
    "s' = update_pending_metric (s\<lparr>sch_pending := sch_pending s @ [pending_of_post post mtu frames jitter now]\<rparr>)"
    using enqueue_None by blast
  then show ?case by (simp add: offers_left_def pending_of_post_def offers_made_def)
next
  case (step_pumped now tr p s out)
  then show ?case using pump_offers_left [of s ops now tr p] by auto
qed (auto simp: offers_left_def cancel_all_def dest: enqueue_Some)

lemma run_offers_bound:
  assumes "sched_run ops c ls c'" "scheduler_ok (fst c)"
  shows "length (run_offers ls) + offers_left (fst c') \<le> offers_left (fst c) + 2 * fragments_enqueued ls"
  using assms
proof (induction rule: sched_run.induct)
  case (sched_snoc c ls c' l c'')
  then show ?case
    using step_offers_left [OF sched_snoc(2) sched_run_ok [OF sched_snoc(1) sched_snoc.prems]] by auto
qed simp

section \<open>Terminal events\<close>

fun reports :: "message_id \<Rightarrow> sched_label \<Rightarrow> bool" where
  "reports mid (LPumped now (Some ev) offs) = (event_message_id ev = mid)"
| "reports mid _ = False"

fun enqueues :: "message_id \<Rightarrow> sched_label \<Rightarrow> bool" where
  "enqueues mid (LEnqueued post mtu) = (message_id post = mid)"
| "enqueues mid _ = False"

definition unreported :: "message_id \<Rightarrow> scheduler \<Rightarrow> nat" where
  "unreported mid s = length (filter (\<lambda>m. pm_message_id m = mid \<and> \<not> pm_repeat_pass m) (sch_pending s))"

lemma front_step_reports:
  assumes "front_step m offs e res"
  shows "of_bool (\<not> pm_repeat_pass m) =
    (of_bool (e \<noteq> None) + (case res of None \<Rightarrow> 0 | Some m' \<Rightarrow> of_bool (\<not> pm_repeat_pass m')) :: nat)"
  using assms by (induction rule: front_step.induct) (auto simp: loss_def next_fragment_def jittered_def)

lemma reports_front: "reports mid (LPumped now (front_event m e) offs) \<longleftrightarrow> e \<noteq> None \<and> pm_message_id m = mid"
  by (cases e) (auto simp: front_event_def)

lemma step_reports:
  assumes "sched_step ops c l c'" "scheduler_ok (fst c)" "l \<noteq> LCancelled"
  shows "of_bool (reports mid l) + unreported mid (fst c') = unreported mid (fst c) + of_bool (enqueues mid l)"
  using assms
proof (induction rule: sched_step.induct)
  case (step_enqueued post fill mtu now s s' p)
  then obtain frames jitter where
    "s' = update_pending_metric (s\<lparr>sch_pending := sch_pending s @ [pending_of_post post mtu frames jitter now]\<rparr>)"
    using enqueue_None by blast
  then show ?case by (auto simp: unreported_def pending_of_post_def)
next
  case (step_pumped now tr p s out)
  show ?case
  proof (cases "sch_pending s")
    case Nil
    then show ?thesis using step_pumped(1) by (simp add: pump_empty) auto
  next
    case (Cons m rest)
    obtain e res where st: "front_step m (out_offers out) e res" and ev: "out_event out = front_event m e"
      and p: "sch_pending (out_scheduler out) = after_front rest res"
      using pump_front [OF _ Cons, of ops now tr p] step_pumped by auto
    have own: "unreported mid (out_scheduler out) = unreported mid (s\<lparr>sch_pending := rest\<rparr>) +
        (case res of None \<Rightarrow> 0 | Some m' \<Rightarrow> of_bool (pm_message_id m = mid \<and> \<not> pm_repeat_pass m'))"
      using p st front_step_kept(1) [of m "out_offers out" e]
      by (cases res) (simp_all add: unreported_def after_front_def)
    have "unreported mid s = unreported mid (s\<lparr>sch_pending := rest\<rparr>) + of_bool (pm_message_id m = mid \<and> \<not> pm_repeat_pass m)"
      using Cons by (simp add: unreported_def)
    then show ?thesis using own front_step_reports [OF st]
      by (cases res; cases "pm_message_id m = mid") (simp_all add: ev reports_front)
  qed
qed (auto dest: enqueue_Some)

lemma run_reports:
  assumes "sched_run ops c ls c'" "scheduler_ok (fst c)" "LCancelled \<notin> set ls"
  shows "length (filter (reports mid) ls) + unreported mid (fst c') = unreported mid (fst c) + length (filter (enqueues mid) ls)"
  using assms
proof (induction rule: sched_run.induct)
  case (sched_snoc c ls c' l c'')
  have "of_bool (reports mid l) + unreported mid (fst c'') = unreported mid (fst c') + of_bool (enqueues mid l)"
    by (rule step_reports [OF sched_snoc(2) sched_run_ok [OF sched_snoc(1) sched_snoc.prems(1)]]) (use sched_snoc.prems in auto)
  then show ?case using sched_snoc.IH sched_snoc.prems by auto
qed simp

section \<open>Broadcast messages\<close>

abbreviation accepted_of :: "offer list \<Rightarrow> bytes list" where
  "accepted_of offs \<equiv> map fst (filter (\<lambda>(f, st). st = SendAccepted) offs)"

lemma front_step_progress:
  assumes "front_step m offs e res" "pending_ok m"
  shows "res = Some m' \<Longrightarrow> \<not> pm_repeat_pass m' \<Longrightarrow> \<not> pm_repeat_pass m \<and>
      take (pm_fragment_index m') (pm_frames m) = take (pm_fragment_index m) (pm_frames m) @ accepted_of offs"
    "e = Some OutBroadcast \<Longrightarrow> \<not> pm_repeat_pass m \<and>
      pm_frames m = take (pm_fragment_index m) (pm_frames m) @ accepted_of offs"
  using assms
  by (induction rule: front_step.induct)
    (auto simp: next_fragment_def jittered_def loss_def take_Suc_conv_app_nth pending_okD(1)
      simp flip: take_Suc_conv_app_nth split: if_splits)

definition traced :: "sched_label list \<Rightarrow> pending_message \<Rightarrow> bool" where
  "traced ls m \<longleftrightarrow>
     (\<exists>post mtu. LEnqueued post mtu \<in> set ls \<and> message_id post = pm_message_id m \<and>
        fragment_post post mtu = Inr (pm_frames m)) \<and>
     (\<not> pm_repeat_pass m \<longrightarrow> subseq (take (pm_fragment_index m) (pm_frames m)) (accepted_frames ls))"

lemma traced_snoc: "traced ls m \<Longrightarrow> traced (ls @ [l]) m"
  by (auto simp: traced_def intro: subseq_order.order_trans)

lemma traced_front:
  assumes "front_step m offs e (Some m')" "pending_ok m" "traced ls m"
  shows "traced (ls @ [LPumped now ev offs]) m'"
  using assms front_step_kept [OF assms(1)] front_step_progress(1) [OF assms(1,2) refl]
  by (auto simp: traced_def intro!: list_emb_append_mono)

lemma step_traced:
  assumes "sched_step ops c l c'" "scheduler_ok (fst c)" "list_all (traced ls) (sch_pending (fst c))"
  shows "list_all (traced (ls @ [l])) (sch_pending (fst c'))"
  using assms
proof (induction rule: sched_step.induct)
  case (step_enqueued post fill mtu now s s' p)
  then obtain frames jitter where f: "fragment_post post mtu = Inr frames"
    "s' = update_pending_metric (s\<lparr>sch_pending := sch_pending s @ [pending_of_post post mtu frames jitter now]\<rparr>)"
    using enqueue_None by blast
  have "traced (ls @ [LEnqueued post mtu]) (pending_of_post post mtu frames jitter now)"
    using f(1) by (auto simp: traced_def pending_of_post_def)
  then show ?case using f(2) step_enqueued.prems(2) by (auto simp: list_all_iff intro: traced_snoc)
next
  case (step_pumped now tr p s out)
  show ?case
  proof (cases "sch_pending s")
    case Nil
    then show ?thesis using step_pumped(1) by (simp add: pump_empty) auto
  next
    case (Cons m rest)
    obtain e res where st: "front_step m (out_offers out) e res" and "out_event out = front_event m e"
      and p: "sch_pending (out_scheduler out) = after_front rest res"
      using pump_front [OF _ Cons, of ops now tr p] step_pumped by auto
    have m: "pending_ok m" "traced ls m" using step_pumped.prems scheduler_okD(5) [OF _ Cons] Cons by auto
    have rest: "list_all (traced (ls @ [LPumped now (out_event out) (out_offers out)])) rest"
      using step_pumped.prems(2) Cons by (auto simp: list_all_iff intro: traced_snoc)
    then show ?thesis using p st traced_front [OF _ m] by (cases res) (auto simp: after_front_def)
  qed
next
  case (step_refused fill post mtu now s e s' p)
  then show ?case using enqueue_Some [OF step_refused(1)] by (auto simp: list_all_iff intro: traced_snoc)
qed (simp add: cancel_all_def)

lemma run_traced:
  assumes "sched_run ops c ls c'" "sch_pending (fst c) = []" "scheduler_ok (fst c)"
  shows "list_all (traced ls) (sch_pending (fst c'))"
  using assms
proof (induction rule: sched_run.induct)
  case (sched_snoc c ls c' l c'')
  then show ?case using step_traced [OF sched_snoc(2) sched_run_ok [OF sched_snoc(1)]] by blast
qed simp

section \<open>Draining\<close>

definition pump_once :: "'p policy_ops \<Rightarrow> u64 \<Rightarrow> transport_view \<Rightarrow> scheduler \<times> 'p \<Rightarrow> scheduler \<times> 'p" where
  "pump_once ops now tr c = (let out = pump ops now tr (snd c) (fst c) in (out_scheduler out, out_policy out))"

lemma pump_expired:
  assumes "sch_pending s = m # rest" "pm_deadline m \<le> now"
  shows "sch_pending (fst (pump_once ops now tr (s, p))) = rest" "snd (pump_once ops now tr (s, p)) = p"
  using assms by (simp_all add: pump_once_def pump_def Let_def case_prod_unfold)

lemma pump_drains:
  assumes "list_all (\<lambda>m. pm_deadline m \<le> now) (sch_pending s)"
  shows "sch_pending (fst ((pump_once ops now tr ^^ length (sch_pending s)) (s, p))) = []"
  using assms
proof (induction "sch_pending s" arbitrary: s p)
  case (Cons m rest)
  have front: "sch_pending s = m # rest" "pm_deadline m \<le> now" using Cons(2,3) by (simp_all flip: Cons(2))
  obtain s' p' where one: "pump_once ops now tr (s, p) = (s', p')" by fastforce
  have s': "sch_pending s' = rest" using pump_expired(1) [OF front, of ops tr p] one by simp
  have len: "length (sch_pending s) = Suc (length (sch_pending s'))" using front s' by simp
  have "sch_pending (fst ((pump_once ops now tr ^^ length (sch_pending s')) (s', p'))) = []"
    using Cons(1) [of s' p'] s' Cons(3) front(1) by simp
  then show ?case unfolding len by (simp add: funpow_Suc_right one del: funpow.simps)
qed simp

section \<open>The policy of a run\<close>

text \<open>What a \<open>pump\<close> does to its policy: nothing, an evaluation, or an evaluation that allowed the
  datagram and, once the transport accepted it, its recording.\<close>

lemma pump_policy:
  obtains "out_policy (pump ops now tr p s) = p" "accepted_of (out_offers (pump ops now tr p s)) = []"
  | n where "out_policy (pump ops now tr p s) = snd (policy_evaluate ops now n p)"
      "accepted_of (out_offers (pump ops now tr p s)) = []"
  | f where "decision_status (fst (policy_evaluate ops now (length f) p)) = TxAllowed"
      "out_policy (pump ops now tr p s) = policy_record ops now (length f) (snd (policy_evaluate ops now (length f) p))"
      "accepted_of (out_offers (pump ops now tr p s)) = [f]"
proof (cases "sch_pending s")
  case Nil
  then show ?thesis using that(1) by (simp add: pump_empty)
next
  case (Cons m rest)
  let ?e = "policy_evaluate ops now (length (front_frame m)) p"
  show ?thesis
  proof (cases "now \<ge> pm_deadline m \<or> now < pm_due m \<or> tv_maximum_datagram_size tr \<noteq> pm_mtu m \<or> tv_closed tr \<or>
      (pm_repeat_pass m \<and> front_count m \<ge> 2)")
    case True
    then show ?thesis using that(1) by (auto simp: pump_def Cons Let_def case_prod_unfold)
  next
    case False
    then have eq: "pump ops now tr p s = (case decision_status (fst ?e) of
        TxDeferred \<Rightarrow> pump ops now tr p s | TxLocked \<Rightarrow> pump ops now tr p s | TxInvalid \<Rightarrow> pump ops now tr p s
      | TxAllowed \<Rightarrow> pump_offer ops now tr (snd ?e) m s)"
      by (auto simp: pump_def Cons Let_def case_prod_unfold split: radio_transmit_status.split)
    show ?thesis
    proof (cases "decision_status (fst ?e) = TxAllowed")
      case True
      then have "pump ops now tr p s = pump_offer ops now tr (snd ?e) m s" using eq by simp
      then show ?thesis using that(2) [of "length (front_frame m)"] that(3) [of "front_frame m"] True
        by (auto simp: pump_offer_def Let_def case_prod_unfold split: if_splits)
    next
      case not: False
      then show ?thesis using that(2) [of "length (front_frame m)"] False
        by (cases "decision_status (fst ?e)") (auto simp: pump_def Cons Let_def case_prod_unfold)
    qed
  qed
qed

fun label_tick :: "sched_label \<Rightarrow> u64" where
  "label_tick (LPumped now ev offs) = now"
| "label_tick _ = 0"

text \<open>A step that has no tick, or one in the window from \<open>t0\<close> to \<open>T\<close>.\<close>

fun in_window :: "u64 \<Rightarrow> u64 \<Rightarrow> sched_label \<Rightarrow> bool" where
  "in_window t0 T (LPumped now ev offs) \<longleftrightarrow> t0 \<le> now \<and> now \<le> T"
| "in_window t0 T _ \<longleftrightarrow> True"

lemma in_window_all: "in_window 0 u64_max l"
  by (cases l) simp_all

fun sends :: "sched_label \<Rightarrow> bool" where
  "sends (LPumped now ev offs) = (accepted_of offs \<noteq> [])"
| "sends _ = False"

text \<open>The ticks at which the transport accepted a datagram.\<close>

definition send_ticks :: "sched_label list \<Rightarrow> u64 list" where
  "send_ticks ls = map label_tick (filter sends ls)"

lemma sched_run_split:
  "sched_run ops c (ls @ ms) c' \<Longrightarrow> \<exists>b. sched_run ops c ls b \<and> sched_run ops b ms c'"
proof (induction ms arbitrary: c' rule: rev_induct)
  case Nil
  then show ?case using sched_refl [of ops c'] by (intro exI [of _ c']) simp
next
  case (snoc m ms)
  from snoc.prems obtain d where d: "sched_run ops c (ls @ ms) d" "sched_step ops d m c'"
    by (cases rule: sched_run.cases) (auto simp flip: append_assoc)
  then show ?case using snoc.IH sched_snoc by blast
qed

context transmit_budget
begin

lemma step_budget:
  assumes "sched_step \<lparr>policy_evaluate = evaluate, policy_record = commit\<rparr> c l c'" "inv (snd c)" "in_window t0 T l"
  shows "inv (snd c') \<and> cost (snd c') = cost (snd c) \<and> gap (snd c') = gap (snd c) \<and> limit (snd c') = limit (snd c) \<and>
    credit (snd c') t0 T + sum_list (map (\<lambda>f. cost (snd c) (length f)) (accepted_of (label_offers l))) \<le> credit (snd c) t0 T \<and>
    (if sends l then ready (snd c) \<le> label_tick l \<and> ready (snd c') = saturating_add (label_tick l) (gap (snd c))
     else ready (snd c') = ready (snd c))"
  using assms
proof (induction rule: sched_step.induct)
  case (step_pumped now tr p s out)
  let ?ops = "\<lparr>policy_evaluate = evaluate, policy_record = commit\<rparr>"
  have out: "out = pump ?ops now tr p s" using step_pumped(1) by simp
  have T: "t0 \<le> now" "now \<le> T" and i: "inv p" using step_pumped.prems by simp_all
  show ?case
  proof (rule pump_policy [of ?ops now tr p s])
    fix n assume o: "out_policy (pump ?ops now tr p s) = snd (policy_evaluate ?ops now n p)"
      "accepted_of (out_offers (pump ?ops now tr p s)) = []"
    obtain d q where ev: "evaluate now n p = (d, q)" by fastforce
    show ?thesis
      using o ev evaluate_inv [OF i ev] evaluate_credit [OF i T ev] evaluate_keeps [OF ev] by (simp add: out)
  next
    fix f assume al: "decision_status (fst (policy_evaluate ?ops now (length f) p)) = TxAllowed"
      and o: "out_policy (pump ?ops now tr p s) = policy_record ?ops now (length f) (snd (policy_evaluate ?ops now (length f) p))"
        "accepted_of (out_offers (pump ?ops now tr p s)) = [f]"
    obtain d q where ev: "evaluate now (length f) p = (d, q)" by fastforce
    then have al: "decision_status d = TxAllowed" using al by simp
    have "inv (commit now (length f) q)" using commit_inv [OF evaluate_inv [OF i ev]] .
    then show ?thesis
      using o ev commit_pays [OF i T ev al] commit_keeps [OF ev al] allowed_ready [OF ev al] by (simp add: out)
  next
    assume "out_policy (pump ?ops now tr p s) = p" "accepted_of (out_offers (pump ?ops now tr p s)) = []"
    then show ?thesis using i by (simp add: out)
  qed
qed auto

lemma run_budget:
  assumes "sched_run \<lparr>policy_evaluate = evaluate, policy_record = commit\<rparr> c ls c'" "inv (snd c)"
    "list_all (in_window t0 T) ls"
  shows "inv (snd c') \<and> cost (snd c') = cost (snd c) \<and> gap (snd c') = gap (snd c) \<and> limit (snd c') = limit (snd c) \<and> ready (snd c) \<le> ready (snd c') \<and>
    credit (snd c') t0 T + sum_list (map (\<lambda>f. cost (snd c) (length f)) (accepted_frames ls)) \<le> credit (snd c) t0 T \<and>
    sorted_wrt (\<lambda>a b. saturating_add a (gap (snd c)) \<le> b) (send_ticks ls) \<and>
    list_all (\<lambda>t. saturating_add t (gap (snd c)) \<le> ready (snd c')) (send_ticks ls)"
  using assms
proof (induction rule: sched_run.induct)
  case (sched_refl c)
  then show ?case by (simp add: send_ticks_def)
next
  case (sched_snoc c ls c' l c'')
  have IH: "inv (snd c') \<and> cost (snd c') = cost (snd c) \<and> gap (snd c') = gap (snd c) \<and> limit (snd c') = limit (snd c) \<and> ready (snd c) \<le> ready (snd c') \<and>
    credit (snd c') t0 T + sum_list (map (\<lambda>f. cost (snd c) (length f)) (accepted_frames ls)) \<le> credit (snd c) t0 T \<and>
    sorted_wrt (\<lambda>a b. saturating_add a (gap (snd c)) \<le> b) (send_ticks ls) \<and>
    list_all (\<lambda>t. saturating_add t (gap (snd c)) \<le> ready (snd c')) (send_ticks ls)"
    using sched_snoc.IH sched_snoc.prems by simp
  have tick: "in_window t0 T l" using sched_snoc.prems by simp
  note step = step_budget [OF sched_snoc(2) _ tick]
  have st: "inv (snd c'') \<and> cost (snd c'') = cost (snd c) \<and> gap (snd c'') = gap (snd c) \<and> limit (snd c'') = limit (snd c) \<and>
    credit (snd c'') t0 T + sum_list (map (\<lambda>f. cost (snd c) (length f)) (accepted_of (label_offers l))) \<le> credit (snd c') t0 T \<and>
    (if sends l then ready (snd c') \<le> label_tick l \<and> ready (snd c'') = saturating_add (label_tick l) (gap (snd c))
     else ready (snd c'') = ready (snd c'))"
    using step IH by simp
  have mono: "ready (snd c') \<le> ready (snd c'')"
    using st saturating_add_ge [of "label_tick l" "gap (snd c)"] by (auto split: if_splits)
  have ticks: "send_ticks (ls @ [l]) = send_ticks ls @ (if sends l then [label_tick l] else [])"
    by (simp add: send_ticks_def)
  show ?case
    using IH st mono unfolding ticks
    by (auto simp: sorted_wrt_append list_all_iff split: if_splits intro: order_trans)
qed

text \<open>The budget of a window of a longer run.\<close>

lemma window_budget:
  assumes run: "sched_run \<lparr>policy_evaluate = evaluate, policy_record = commit\<rparr> c (ls @ ms) c'" and "inv (snd c)"
    and win: "list_all (in_window t0 T) ms"
  shows "sum_list (map (\<lambda>f. cost (snd c) (length f)) (accepted_frames ms)) \<le> limit (snd c) t0 T \<and>
    sorted_wrt (\<lambda>a b. saturating_add a (gap (snd c)) \<le> b) (send_ticks (ls @ ms))"
proof -
  have all: "list_all (in_window 0 u64_max) ks" for ks by (simp add: list_all_iff in_window_all)
  obtain b where b: "sched_run \<lparr>policy_evaluate = evaluate, policy_record = commit\<rparr> c ls b"
    "sched_run \<lparr>policy_evaluate = evaluate, policy_record = commit\<rparr> b ms c'" using sched_run_split [OF run] by blast
  have mid: "inv (snd b)" "cost (snd b) = cost (snd c)" "limit (snd b) = limit (snd c)"
    using run_budget [OF b(1) assms(2) all] by simp_all
  have "sum_list (map (\<lambda>f. cost (snd c) (length f)) (accepted_frames ms)) \<le> credit (snd b) t0 T"
    using run_budget [OF b(2) mid(1) win] unfolding mid(2) by linarith
  then show ?thesis using run_budget [OF run assms(2) all] credit_limit [OF mid(1), of t0 T] mid(3) by simp
qed

end

section \<open>A sample run\<close>

definition japan920_ops :: "japan920_policy policy_ops" where
  "japan920_ops = \<lparr>policy_evaluate = japan920_evaluate_transmit, policy_record = japan920_record_transmit\<rparr>"

text \<open>A policy that allows everything, a random source of zeros and a transport that accepts.\<close>

definition free_ops :: "unit policy_ops" where
  "free_ops = \<lparr>policy_evaluate = (\<lambda>now n p. (decision TxAllowed now, p)), policy_record = (\<lambda>now n p. p)\<rparr>"

definition sample_fill :: "nat \<Rightarrow> bytes option" where
  "sample_fill n = Some (replicate n 0)"

definition sample_transport :: transport_view where
  "sample_transport = \<lparr>tv_maximum_datagram_size = 255, tv_closed = False, tv_send = SendAccepted\<rparr>"

definition sample_scheduler :: scheduler where
  "sample_scheduler = snd (scheduler_enqueue sample_fill sample_post 255 0 scheduler_new)"

definition sample_pump :: "unit pump_outcome" where
  "sample_pump = pump free_ops 1 sample_transport () sample_scheduler"

definition sample_datagram :: bytes where
  "sample_datagram = frame_layout (hd (fragment_frames sample_post 255))"

lemma sample_fragments: "fragment_post sample_post 255 = Inr [sample_datagram]"
proof -
  have m: "is_supported_mtu 255" by (simp add: is_supported_mtu_def)
  have "length (fragment_frames sample_post 255) = 1"
    using wire_layout_length [OF post_ok_create(2) [OF sample_post_ok]]
    by (simp add: length_fragment_frames post_input_def sample_post_def fragments_of_def frame_payload_capacity_def m)
  then have "fragment_frames sample_post 255 = [hd (fragment_frames sample_post 255)]"
    by (cases "fragment_frames sample_post 255") auto
  then show ?thesis using fragment_post_frames [OF sample_post_ok m] by (metis list.map(1,2) sample_datagram_def)
qed

lemma sample_enqueued:
  "scheduler_enqueue sample_fill sample_post 255 0 scheduler_new = (None, sample_scheduler)"
  "sch_pending sample_scheduler = [pending_of_post sample_post 255 [sample_datagram] (replicate 4 0) 0]"
  by (simp_all add: sample_scheduler_def scheduler_enqueue_def sample_fragments sample_fill_def scheduler_new_def
      update_pending_metric_def)

lemma sample_pump_event:
  "out_event sample_pump = Some \<lparr>event_message_id = message_id sample_post, event_state = OutBroadcast\<rparr>"
  by (simp add: sample_pump_def pump_def sample_enqueued pending_of_post_def sample_transport_def free_ops_def
      pump_offer_def pump_accepted_def set_front_def take_jitter_def scaled_jitter_def saturating_add_def
      kOutboundDeadlineTicks_def Let_def word_le_nat_alt)

lemma sample_sched_run:
  "sched_run free_ops (scheduler_new, ())
     [LEnqueued sample_post 255, LPumped 1 (out_event sample_pump) (out_offers sample_pump)]
     (out_scheduler sample_pump, out_policy sample_pump)"
proof -
  have "sched_step free_ops (scheduler_new, ()) (LEnqueued sample_post 255) (sample_scheduler, ())"
    by (rule step_enqueued [OF sample_post_ok _ sample_enqueued(1)]) (simp add: fill_wf_def sample_fill_def)
  from sched_snoc [OF sched_snoc [OF sched_refl this] step_pumped [OF sample_pump_def [symmetric]]]
  show ?thesis by simp
qed

section \<open>Properties\<close>

text \<open>C25: Any run of the scheduler, with any policy and transport, keeps its invariant: at most sixteen
  messages with distinct ids, metrics that agree with the queue, and indices for which every read of a frame, an
  offer count and a jitter byte is inside its vector. In the whole run the transport is offered at
  most two datagrams per enqueued fragment.\<close>

theorem scheduler_run_bounds:
  assumes "sched_run ops (scheduler_new, p) ls (s, q)"
  shows "scheduler_ok s \<and>
    list_all (\<lambda>m. pm_fragment_index m < length (pm_frames m) \<and> pm_fragment_index m < length (pm_offer_counts m) \<and>
      pm_jitter_index m < length (pm_jitter m)) (sch_pending s) \<and>
    length (run_offers ls) \<le> 2 * fragments_enqueued ls"
proof -
  have ok: "scheduler_ok s" using sched_run_ok [OF assms] scheduler_new_ok by simp
  have reads: "pm_fragment_index m < length (pm_frames m) \<and> pm_fragment_index m < length (pm_offer_counts m) \<and>
      pm_jitter_index m < length (pm_jitter m)" if "pending_ok m" for m
    using pending_okD [OF that] offers_made_bound [of m] by auto
  show ?thesis
    using ok reads scheduler_okD(1) [OF ok] run_offers_bound [OF assms] scheduler_new_ok
    by (auto simp: list_all_iff offers_left_def scheduler_new_def)
qed

theorem scheduler_run_bounds_witness:
  "scheduler_ok (out_scheduler sample_pump) \<and>
   length (run_offers [LEnqueued sample_post 255, LPumped 1 (out_event sample_pump) (out_offers sample_pump)])
     \<le> 2 * fragments_enqueued [LEnqueued sample_post 255, LPumped 1 (out_event sample_pump) (out_offers sample_pump)]"
  using scheduler_run_bounds [OF sample_sched_run] by simp

lemma broadcast_report_accepted:
  assumes "sched_run ops (scheduler_new, p) (ls @ [LPumped now (Some ev) offs]) c" "event_state ev = OutBroadcast"
  shows "\<exists>post mtu frames. LEnqueued post mtu \<in> set ls \<and> message_id post = event_message_id ev \<and>
    fragment_post post mtu = Inr frames \<and> frames \<noteq> [] \<and>
    subseq frames (accepted_frames (ls @ [LPumped now (Some ev) offs]))"
proof -
  obtain c' where run: "sched_run ops (scheduler_new, p) ls c'" and step: "sched_step ops c' (LPumped now (Some ev) offs) c"
    using assms(1) by (cases rule: sched_run.cases) auto
  obtain s q out tr where c': "c' = (s, q)" and out: "pump ops now tr q s = out" "out_event out = Some ev" "out_offers out = offs"
    using step by (cases rule: sched_step.cases) auto
  have ok: "scheduler_ok s" using sched_run_ok [OF run] scheduler_new_ok c' by simp
  have tr: "list_all (traced ls) (sch_pending s)"
    using run_traced [OF run] scheduler_new_ok c' by (simp add: scheduler_new_def)
  obtain m rest where m: "sch_pending s = m # rest" using out by (cases "sch_pending s") (auto simp: pump_empty)
  obtain e res where st: "front_step m offs e res" and ev: "Some ev = front_event m e" and "sch_pending (out_scheduler out) = after_front rest res"
    using pump_front [OF ok m, of ops now tr q] out by auto
  have e: "e = Some OutBroadcast" "event_message_id ev = pm_message_id m"
    using ev assms(2) by (cases e; auto simp: front_event_def)+
  note pr = front_step_progress(2) [OF st scheduler_okD(5) [OF ok m] e(1)]
  have "traced ls m" using tr m by simp
  then obtain post mtu where post: "LEnqueued post mtu \<in> set ls" "message_id post = pm_message_id m"
      "fragment_post post mtu = Inr (pm_frames m)"
    and sub: "subseq (take (pm_fragment_index m) (pm_frames m)) (accepted_frames ls)"
    using pr by (auto simp: traced_def)
  have "subseq (take (pm_fragment_index m) (pm_frames m) @ accepted_of offs) (accepted_frames ls @ accepted_of offs)"
    by (intro list_emb_append_mono sub) simp
  then have "subseq (pm_frames m) (accepted_frames (ls @ [LPumped now (Some ev) offs]))" using pr by simp
  moreover have "pm_frames m \<noteq> []" using pending_okD(1) [OF scheduler_okD(5) [OF ok m]] by auto
  ultimately show ?thesis using post e(2) by auto
qed

text \<open>C23: A \<open>Broadcast\<close> report is true. When the scheduler reports a message as broadcast, a post with that
  id was enqueued before, and the transport has accepted every fragment of it, in order.\<close>

theorem broadcast_means_accepted:
  assumes "sched_run ops (scheduler_new, p) (ls @ [LPumped now (Some ev) offs]) c" "event_state ev = OutBroadcast"
  shows "\<exists>post mtu frames. LEnqueued post mtu \<in> set ls \<and> message_id post = event_message_id ev \<and>
    fragment_post post mtu = Inr frames \<and> frames \<noteq> [] \<and>
    subseq frames (accepted_frames (ls @ [LPumped now (Some ev) offs]))"
  using broadcast_report_accepted [OF assms] .

theorem broadcast_means_accepted_witness:
  "\<exists>frames. fragment_post sample_post 255 = Inr frames \<and> frames \<noteq> [] \<and> subseq frames (accepted_of (out_offers sample_pump))"
  using broadcast_means_accepted [of free_ops _ "[LEnqueued sample_post 255]" 1
      "\<lparr>event_message_id = message_id sample_post, event_state = OutBroadcast\<rparr>" "out_offers sample_pump"]
    sample_sched_run sample_pump_event(1)
  by (fastforce simp: accepted_frames_def run_offers_def)

text \<open>Exactly one terminal event per message. In a run that never cancels, the events reported
  for an id and the messages with that id still in their primary pass add up to the posts enqueued
  with it: no message is reported twice, and none is lost without a report.\<close>

theorem terminal_events_exact:
  assumes "sched_run ops (scheduler_new, p) ls (s, q)" "LCancelled \<notin> set ls"
  shows "length (filter (reports mid) ls) +
      length (filter (\<lambda>m. pm_message_id m = mid \<and> \<not> pm_repeat_pass m) (sch_pending s)) =
    length (filter (enqueues mid) ls)"
  using run_reports [OF assms(1) _ assms(2), of mid] scheduler_new_ok
  by (simp add: unreported_def scheduler_new_def)

theorem terminal_events_exact_witness:
  "length (filter (reports (message_id sample_post))
     [LEnqueued sample_post 255, LPumped 1 (out_event sample_pump) (out_offers sample_pump)]) +
   length (filter (\<lambda>m. pm_message_id m = message_id sample_post \<and> \<not> pm_repeat_pass m) (sch_pending (out_scheduler sample_pump))) = 1"
  using terminal_events_exact [OF sample_sched_run, of "message_id sample_post"] by simp

text \<open>C26: No message outlives its deadline. Once the deadlines of the queued messages have passed, one
  \<open>pump\<close> per message empties the queue, whatever the transport and the policy say.\<close>

theorem scheduler_drains:
  assumes "list_all (\<lambda>m. pm_deadline m \<le> now) (sch_pending s)"
  shows "sch_pending (fst ((pump_once ops now tr ^^ length (sch_pending s)) (s, p))) = []"
  using pump_drains [OF assms] .

theorem scheduler_drains_witness:
  "sch_pending sample_scheduler \<noteq> [] \<and>
   sch_pending (fst ((pump_once free_ops 60000 sample_transport ^^ length (sch_pending sample_scheduler))
     (sample_scheduler, ()))) = []"
  using scheduler_drains [of 60000 sample_scheduler free_ops sample_transport "()"]
  by (simp add: sample_enqueued pending_of_post_def kOutboundDeadlineTicks_def saturating_add_def)

text \<open>The same for the policy of the local network, which counts bytes.\<close>

lemma scheduler_lan_budget:
  assumes "sched_run \<lparr>policy_evaluate = lan_evaluate_transmit, policy_record = lan_record_transmit\<rparr>
      (scheduler_new, lan_policy_new config) (ls @ ms) (s, p)" "list_all (in_window t0 T) ms"
  shows "sum_list (map length (accepted_frames ms))
      \<le> unat (lan_bucket_capacity_bytes config) + (unat T - unat t0) * unat (lan_refill_bytes_per_ms config) \<and>
    sorted_wrt (\<lambda>a b. saturating_add a (lan_minimum_gap_ms config) \<le> b) (send_ticks (ls @ ms))"
  using lan.window_budget [of "(scheduler_new, lan_policy_new config)" ls ms "(s, p)" t0 T] assms lan_new_ok [of config]
  by (simp add: lan_limit_def lan_cost_def [abs_def] lan_gap_def lan_policy_new_def)

text \<open>C24: The airtime budget holds for the composed system from the start of the program. Take any run of the scheduler from its constructor with
  the Japan 920 MHz policy from its constructor, and any window of ticks: if the pumps of a stretch \<open>ms\<close> of the run all happen at ticks from
  \<open>t0\<close> to \<open>T\<close>, then the airtime of the datagrams the transport accepted in that stretch is at most the capacity of the bucket, one
  millisecond per refill interval of the window, and one more; and over the whole run two accepted datagrams are at least the minimum gap apart.
  No condition is put on the configuration, on the ticks before the window or on the answers of the transport.\<close>

theorem scheduler_airtime_budget:
  assumes "sched_run japan920_ops (scheduler_new, japan920_new config) (ls @ ms) (s, p)" "list_all (in_window t0 T) ms"
  shows "sum_list (map (\<lambda>f. unat (estimated_airtime_ms (japan920_new config) (length f))) (accepted_frames ms))
      \<le> unat (jp_bucket_capacity_ms config) + (unat T - unat t0) div unat (jp_refill_denominator config) + 1 \<and>
    sorted_wrt (\<lambda>a b. saturating_add a (jp_minimum_gap_ms config) \<le> b) (send_ticks (ls @ ms))"
  using japan920.window_budget [of "(scheduler_new, japan920_new config)" ls ms "(s, p)" t0 T] assms japan920_new_ok [of config]
  by (simp add: japan920_ops_def japan920_limit_def japan920_cost_def japan920_gap_def japan920_new_def)

lemma sample_datagram_size: "length sample_datagram = 116"
proof -
  have m: "is_supported_mtu 255" by (simp add: is_supported_mtu_def)
  have l: "length (wire_layout (post_input sample_post)) = 88"
    using wire_layout_length [OF post_ok_create(2) [OF sample_post_ok]] by (simp add: post_input_def sample_post_def)
  have n: "length (fragment_frames sample_post 255) = 1"
    using l by (simp add: length_fragment_frames fragments_of_def frame_payload_capacity_def m)
  have "concat (map payload (fragment_frames sample_post 255)) = wire_layout (post_input sample_post)"
    by (rule fragment_frames_payloads [OF sample_post_ok m])
  then have p: "payload (hd (fragment_frames sample_post 255)) = wire_layout (post_input sample_post)"
    using n by (cases "fragment_frames sample_post 255") auto
  have "frame_ok 255 (hd (fragment_frames sample_post 255))"
    using n by (intro fragment_frames_ok [OF sample_post_ok m]) (cases "fragment_frames sample_post 255"; simp)
  then show ?thesis using p l by (simp add: sample_datagram_def length_frame_layout frame_ok_def)
qed

lemma default_policy_allows:
  "fst (japan920_evaluate_transmit 1 116 (japan920_new japan920_policy_config_default)) = decision TxAllowed 1"
  by code_simp

theorem scheduler_airtime_budget_witness:
  "\<exists>out. out = pump japan920_ops 1 sample_transport (japan920_new japan920_policy_config_default) sample_scheduler \<and>
     sched_run japan920_ops (scheduler_new, japan920_new japan920_policy_config_default)
       [LEnqueued sample_post 255, LPumped 1 (out_event out) (out_offers out)] (out_scheduler out, out_policy out) \<and>
     accepted_frames [LPumped 1 (out_event out) (out_offers out)] = [sample_datagram] \<and>
     unat (estimated_airtime_ms (japan920_new japan920_policy_config_default) 116) \<le> 6001"
proof -
  let ?p = "japan920_new japan920_policy_config_default"
  let ?o = "pump japan920_ops 1 sample_transport ?p sample_scheduler"
  let ?l = "LPumped 1 (out_event ?o) (out_offers ?o)"
  have acc: "accepted_frames [?l] = [sample_datagram]"
    using default_policy_allows
    by (simp add: accepted_frames_def run_offers_def pump_def sample_enqueued pending_of_post_def sample_transport_def
        japan920_ops_def pump_offer_def scaled_jitter_def saturating_add_def kOutboundDeadlineTicks_def Let_def
        word_le_nat_alt case_prod_unfold sample_datagram_size)
  have "sched_step japan920_ops (scheduler_new, ?p) (LEnqueued sample_post 255) (sample_scheduler, ?p)"
    by (rule step_enqueued [OF sample_post_ok _ sample_enqueued(1)]) (simp add: fill_wf_def sample_fill_def)
  from sched_snoc [OF sched_snoc [OF sched_refl this] step_pumped [OF refl]]
  have run: "sched_run japan920_ops (scheduler_new, ?p) ([LEnqueued sample_post 255] @ [?l]) (out_scheduler ?o, out_policy ?o)" by simp
  have "list_all (in_window 1 1) [?l]" by simp
  from scheduler_airtime_budget [OF run this] acc run show ?thesis
    by (simp add: sample_datagram_size japan920_policy_config_default_def)
qed

end
