(* ===== verification/Protocol_Reassembler.thy ===== *)
theory Protocol_Reassembler
  imports Protocol_Dedupe
begin

text \<open>
  Model of the class \<open>Reassembler\<close> of \<^verbatim>\<open>src/protocol/reassembler.cpp\<close>: eight slots that collect the
  fragments of a message, keyed by tag and sender sequence, and a quarantine of at most 32 keys. The
  slot's fixed arrays are lists of 316 bytes and 16 lengths; its bitmap is a 16-bit word. An out of
  range read or write would be an index past these lists: the lemmas show that none occurs.
\<close>

section \<open>Definitions\<close>

definition kMaximumReassemblies :: nat where [simp]: "kMaximumReassemblies = 8"
definition kMaximumQuarantinedKeys :: nat where [simp]: "kMaximumQuarantinedKeys = 32"
definition kReassemblyTimeoutTicks :: u64 where [simp]: "kReassemblyTimeoutTicks = 60000"

datatype reassembly_status =
  FragmentAccepted | DuplicateFragment | Complete | CapacityExceeded | ReassemblyConflict | Quarantined
  | ReassemblyInvalidPost

record completed_post =
  completed_payload :: post_payload
  canonical_post :: bytes
  canonical_frames :: "bytes list"

type_synonym reassembly_result = "reassembly_status \<times> completed_post option"

definition saturating_deadline :: "u64 \<Rightarrow> u64 \<Rightarrow> u64" where
  "saturating_deadline start duration =
     (if start > u64_max - duration then u64_max else start + duration)"

definition deadline_reached :: "u64 \<Rightarrow> u64 \<Rightarrow> bool" where
  "deadline_reached now deadline \<longleftrightarrow> now \<ge> deadline"

definition same_key :: "bytes \<Rightarrow> u64 \<Rightarrow> bytes \<Rightarrow> u64 \<Rightarrow> bool" where
  "same_key left_tag left_sequence right_tag right_sequence \<longleftrightarrow>
     left_tag = right_tag \<and> left_sequence = right_sequence"

record slot =
  used :: bool
  slot_tag :: bytes
  slot_sequence :: u64
  slot_total :: u16
  slot_count :: byte
  received_bitmap :: u16
  slot_deadline :: u64
  slot_bytes :: bytes
  fragment_lengths :: "u16 list"

definition empty_slot :: slot where
  "empty_slot = \<lparr>used = False, slot_tag = replicate 8 0, slot_sequence = 0, slot_total = 0, slot_count = 0,
     received_bitmap = 0, slot_deadline = 0, slot_bytes = replicate kMaximumEncodedPostBytes 0,
     fragment_lengths = replicate kMaximumFragments 0\<rparr>"

record quarantined_key =
  qk_tag :: bytes
  qk_sequence :: u64
  qk_deadline :: u64

record reassembler =
  ra_mtu :: nat
  fragment_capacity :: nat
  slots :: "slot list"
  quarantined :: "quarantined_key list"
  high_water_count :: nat

definition reassembler_new :: "nat \<Rightarrow> reassembler" where
  "reassembler_new mtu =
     \<lparr>ra_mtu = mtu, fragment_capacity = (if mtu \<ge> kFrameHeaderBytes then mtu - kFrameHeaderBytes else 0),
      slots = replicate kMaximumReassemblies empty_slot, quarantined = [], high_water_count = 0\<rparr>"

definition quarantine :: "bytes \<Rightarrow> u64 \<Rightarrow> u64 \<Rightarrow> reassembler \<Rightarrow> reassembler" where
  "quarantine t sequence deadline self =
     (if list_ex (\<lambda>key. same_key (qk_tag key) (qk_sequence key) t sequence) (quarantined self) then self
      else let keys = (if length (quarantined self) \<ge> kMaximumQuarantinedKeys
                       then tl (quarantined self) else quarantined self)
           in self\<lparr>quarantined := keys @ [\<lparr>qk_tag = t, qk_sequence = sequence, qk_deadline = deadline\<rparr>]\<rparr>)"

definition purge_quarantine :: "u64 \<Rightarrow> reassembler \<Rightarrow> reassembler" where
  "purge_quarantine now self =
     self\<lparr>quarantined := filter (\<lambda>key. \<not> deadline_reached now (qk_deadline key)) (quarantined self)\<rparr>"

definition is_quarantined :: "bytes \<Rightarrow> u64 \<Rightarrow> u64 \<Rightarrow> reassembler \<Rightarrow> bool \<times> reassembler" where
  "is_quarantined t sequence now self =
     (let self = purge_quarantine now self
      in (list_ex (\<lambda>key. same_key (qk_tag key) (qk_sequence key) t sequence) (quarantined self), self))"

definition slot_expired :: "u64 \<Rightarrow> slot \<Rightarrow> bool" where
  "slot_expired now s \<longleftrightarrow> used s \<and> deadline_reached now (slot_deadline s)"

definition reassembler_expire :: "u64 \<Rightarrow> reassembler \<Rightarrow> nat \<times> reassembler" where
  "reassembler_expire now self =
     (length (filter (slot_expired now) (slots self)),
      purge_quarantine now
        (self\<lparr>slots := map (\<lambda>s. if slot_expired now s then empty_slot else s) (slots self)\<rparr>))"

definition active_count :: "reassembler \<Rightarrow> nat" where
  "active_count self = length (filter used (slots self))"

text \<open>The canonical frames of a complete slot: \<open>None\<close> when a frame fails to encode.\<close>

definition slot_frame :: "slot \<Rightarrow> nat \<Rightarrow> nat \<Rightarrow> data_frame" where
  "slot_frame s capacity index =
     \<lparr>tag = slot_tag s, frame_sequence = slot_sequence s, fragment_index = of_nat index,
      fragment_count = slot_count s, total_length = slot_total s,
      payload = slice (index * capacity) (unat (fragment_lengths s ! index)) (slot_bytes s)\<rparr>"

fun slot_frames :: "slot \<Rightarrow> nat \<Rightarrow> nat \<Rightarrow> nat list \<Rightarrow> bytes list \<Rightarrow> bytes list option" where
  "slot_frames s capacity mtu [] frames = Some frames"
| "slot_frames s capacity mtu (index # rest) frames =
     (case encode_frame (slot_frame s capacity index) mtu of
        Inl _ \<Rightarrow> None
      | Inr encoded \<Rightarrow> slot_frames s capacity mtu rest (frames @ [encoded]))"

text \<open>Resetting a slot and quarantining its key, the common exit of the three error paths.\<close>

definition reset_and_quarantine :: "nat \<Rightarrow> bytes \<Rightarrow> u64 \<Rightarrow> u64 \<Rightarrow> reassembler \<Rightarrow> reassembler" where
  "reset_and_quarantine i t sequence deadline self =
     quarantine t sequence deadline (self\<lparr>slots := (slots self)[i := empty_slot]\<rparr>)"

text \<open>The completion of a slot whose bitmap is full (lines 213 to 266).\<close>

definition complete_slot :: "nat \<Rightarrow> reassembler \<Rightarrow> reassembly_result \<times> reassembler" where
  "complete_slot i self =
     (let s = slots self ! i;
          failed = ((ReassemblyInvalidPost, None),
                    reset_and_quarantine i (slot_tag s) (slot_sequence s) (slot_deadline s) self);
          canonical = take (unat (slot_total s)) (slot_bytes s)
      in case decode_post (Some canonical) of
           Inl _ \<Rightarrow> failed
         | Inr post \<Rightarrow>
             if message_tag (message_id post) \<noteq> slot_tag s \<or> sender_sequence post \<noteq> slot_sequence s
             then failed
             else case slot_frames s (fragment_capacity self) (ra_mtu self) [0..<unat (slot_count s)] [] of
                    None \<Rightarrow> failed
                  | Some frames \<Rightarrow>
                      ((Complete, Some \<lparr>completed_payload = post, canonical_post = canonical,
                                        canonical_frames = frames\<rparr>),
                       self\<lparr>slots := (slots self)[i := empty_slot]\<rparr>))"

definition complete_mask :: "byte \<Rightarrow> u16" where
  "complete_mask count =
     (if unat count = kMaximumFragments then - 1 else push_bit (unat count) 1 - 1)"

text \<open>Storing a fragment in its slot (lines 173 to 211), then completion.\<close>

definition store_fragment :: "data_frame \<Rightarrow> nat \<Rightarrow> reassembler \<Rightarrow> reassembly_result \<times> reassembler" where
  "store_fragment frame i self =
     (let s = slots self ! i;
          index = unat (fragment_index frame);
          offset = index * fragment_capacity self;
          size = length (payload frame);
          received = push_bit index 1
      in if received_bitmap s AND received \<noteq> 0 then
           (if unat (fragment_lengths s ! index) = size \<and> slice offset size (slot_bytes s) = payload frame
            then ((DuplicateFragment, None), self)
            else ((ReassemblyConflict, None),
                  reset_and_quarantine i (tag frame) (frame_sequence frame) (slot_deadline s) self))
         else let s = s\<lparr>slot_bytes := copy_at offset (payload frame) (slot_bytes s),
                         fragment_lengths := (fragment_lengths s)[index := of_nat size],
                         received_bitmap := received_bitmap s OR received\<rparr>;
                  self = self\<lparr>slots := (slots self)[i := s]\<rparr>
              in if received_bitmap s \<noteq> complete_mask (fragment_count frame)
                 then ((FragmentAccepted, None), self)
                 else complete_slot i self)"

definition slot_matches :: "data_frame \<Rightarrow> slot \<Rightarrow> bool" where
  "slot_matches frame s \<longleftrightarrow> used s \<and> same_key (slot_tag s) (slot_sequence s) (tag frame) (frame_sequence frame)"

definition frame_rejected :: "data_frame \<Rightarrow> reassembler \<Rightarrow> bool" where
  "frame_rejected frame self \<longleftrightarrow>
     \<not> is_supported_mtu (ra_mtu self) \<or> frame_sequence frame = 0 \<or> fragment_count frame = 0 \<or>
     unat (fragment_count frame) > kMaximumFragments \<or> fragment_index frame \<ge> fragment_count frame \<or>
     unat (total_length frame) < kMinimumEncodedPostBytes \<or>
     unat (total_length frame) > kMaximumEncodedPostBytes \<or> fragment_capacity self = 0 \<or>
     (let capacity = fragment_capacity self;
          expected_count = (unat (total_length frame) + capacity - 1) div capacity;
          expected_payload = (if unat (fragment_index frame) + 1 < unat (fragment_count frame) then capacity
                              else unat (total_length frame) - capacity * (unat (fragment_count frame) - 1))
      in expected_count \<noteq> unat (fragment_count frame) \<or> length (payload frame) \<noteq> expected_payload)"

definition reassembler_accept ::
  "data_frame \<Rightarrow> u64 \<Rightarrow> reassembler \<Rightarrow> reassembly_result \<times> reassembler" where
  "reassembler_accept frame received_tick self =
     (let self = snd (reassembler_expire received_tick self)
      in if frame_rejected frame self then ((ReassemblyInvalidPost, None), self)
         else let (held, self) = is_quarantined (tag frame) (frame_sequence frame) received_tick self
         in if held then ((Quarantined, None), self)
         else let i = find_index (slot_matches frame) (slots self)
         in if i = length (slots self) then
              (let i = find_index (\<lambda>s. \<not> used s) (slots self)
               in if i = length (slots self) then ((CapacityExceeded, None), self)
                  else let s = (slots self ! i)
                             \<lparr>used := True, slot_tag := tag frame, slot_sequence := frame_sequence frame,
                              slot_total := total_length frame, slot_count := fragment_count frame,
                              slot_deadline := saturating_deadline received_tick kReassemblyTimeoutTicks\<rparr>;
                           self = self\<lparr>slots := (slots self)[i := s]\<rparr>;
                           self = self\<lparr>high_water_count := max (high_water_count self) (active_count self)\<rparr>
                       in store_fragment frame i self)
            else if slot_total (slots self ! i) \<noteq> total_length frame \<or>
                    slot_count (slots self ! i) \<noteq> fragment_count frame
            then ((ReassemblyConflict, None),
                  reset_and_quarantine i (tag frame) (frame_sequence frame) (slot_deadline (slots self ! i)) self)
            else store_fragment frame i self)"

definition reassembler_clear :: "reassembler \<Rightarrow> reassembler" where
  "reassembler_clear self =
     self\<lparr>slots := map (\<lambda>_. empty_slot) (slots self), quarantined := []\<rparr>"

section \<open>Invariant\<close>

definition slot_key :: "slot \<Rightarrow> bytes \<times> u64" where
  "slot_key s = (slot_tag s, slot_sequence s)"

definition frame_key :: "data_frame \<Rightarrow> bytes \<times> u64" where
  "frame_key f = (tag f, frame_sequence f)"

definition quarantine_keys :: "reassembler \<Rightarrow> (bytes \<times> u64) list" where
  "quarantine_keys r = map (\<lambda>k. (qk_tag k, qk_sequence k)) (quarantined r)"

text \<open>The size of fragment \<open>i\<close> of a message of \<open>n\<close> bytes.\<close>

definition piece_size :: "nat \<Rightarrow> nat \<Rightarrow> nat \<Rightarrow> nat" where
  "piece_size capacity n i = min capacity (n - i * capacity)"

definition slot_ok :: "nat \<Rightarrow> slot \<Rightarrow> bool" where
  "slot_ok capacity s \<longleftrightarrow>
     length (slot_bytes s) = kMaximumEncodedPostBytes \<and> length (fragment_lengths s) = kMaximumFragments \<and>
     length (slot_tag s) = 8 \<and>
     (if used s then
        slot_sequence s \<noteq> 0 \<and> kMinimumEncodedPostBytes \<le> unat (slot_total s) \<and>
        unat (slot_total s) \<le> kMaximumEncodedPostBytes \<and>
        unat (slot_count s) = fragments_of capacity (unat (slot_total s)) \<and>
        unat (slot_count s) \<le> kMaximumFragments \<and>
        (\<forall>i. bit (received_bitmap s) i \<longrightarrow> i < unat (slot_count s) \<and>
           unat (fragment_lengths s ! i) = piece_size capacity (unat (slot_total s)) i) \<and>
        received_bitmap s \<noteq> complete_mask (slot_count s)
      else s = empty_slot)"

definition reassembler_ok :: "reassembler \<Rightarrow> bool" where
  "reassembler_ok r \<longleftrightarrow>
     is_supported_mtu (ra_mtu r) \<and> fragment_capacity r = frame_payload_capacity (ra_mtu r) \<and>
     length (slots r) = kMaximumReassemblies \<and>
     (\<forall>i < kMaximumReassemblies. slot_ok (fragment_capacity r) (slots r ! i)) \<and>
     (\<forall>i < kMaximumReassemblies. \<forall>j < kMaximumReassemblies.
        used (slots r ! i) \<and> used (slots r ! j) \<and> slot_key (slots r ! i) = slot_key (slots r ! j) \<longrightarrow> i = j) \<and>
     length (quarantined r) \<le> kMaximumQuarantinedKeys \<and> distinct (quarantine_keys r) \<and>
     active_count r \<le> high_water_count r \<and> high_water_count r \<le> kMaximumReassemblies"

section \<open>Bitmaps\<close>

lemma bit_received: "n < 16 \<Longrightarrow> bit (push_bit i 1 :: u16) n \<longleftrightarrow> n = i"
  by (auto simp: bit_simps)

lemma received_test: "i < 16 \<Longrightarrow> (b AND push_bit i 1 :: u16) \<noteq> 0 \<longleftrightarrow> bit b i"
proof -
  assume i: "i < 16"
  have "(b AND push_bit i 1 :: u16) = (if bit b i then push_bit i 1 else 0)"
    by (rule bit_word_eqI) (auto simp: bit_simps)
  moreover have "(push_bit i 1 :: u16) \<noteq> 0" using i by simp
  ultimately show ?thesis by auto
qed

lemma bit_complete_mask:
  assumes "unat c \<le> 16"
  shows "bit (complete_mask c) n \<longleftrightarrow> n < unat c"
proof (cases "unat c = 16")
  case True
  then show ?thesis by (simp add: complete_mask_def bit_simps)
next
  case False
  have "complete_mask c = mask (unat c)" using False by (simp add: complete_mask_def mask_eq_exp_minus_1 push_bit_eq_mult)
  then show ?thesis using assms False by (auto simp: bit_simps)
qed

lemma bitmap_complete_iff:
  assumes "unat c \<le> 16"
  shows "b = complete_mask c \<longleftrightarrow> (\<forall>i. bit b i \<longleftrightarrow> i < unat c)"
  using bit_complete_mask [OF assms] by (metis bit_eqI)

lemma bit_add_received: "i < 16 \<Longrightarrow> bit (b OR push_bit i 1 :: u16) n \<longleftrightarrow> n = i \<or> bit b n"
  using bit_imp_le_length [of b n] by (auto simp: bit_simps)

section \<open>Quarantine and expiry\<close>

lemma quarantine_fields [simp]:
  "ra_mtu (quarantine t s d r) = ra_mtu r" "fragment_capacity (quarantine t s d r) = fragment_capacity r"
  "slots (quarantine t s d r) = slots r" "high_water_count (quarantine t s d r) = high_water_count r"
  "ra_mtu (purge_quarantine now r) = ra_mtu r" "fragment_capacity (purge_quarantine now r) = fragment_capacity r"
  "slots (purge_quarantine now r) = slots r" "high_water_count (purge_quarantine now r) = high_water_count r"
  by (simp_all add: quarantine_def purge_quarantine_def Let_def)

lemma quarantine_keys_bounded:
  assumes "length (quarantined r) \<le> 32" "distinct (quarantine_keys r)"
  shows "length (quarantined (quarantine t s d r)) \<le> 32" "distinct (quarantine_keys (quarantine t s d r))"
    "length (quarantined (purge_quarantine now r)) \<le> 32" "distinct (quarantine_keys (purge_quarantine now r))"
proof -
  have "length (filter P (quarantined r)) \<le> 32" for P using assms(1) length_filter_le le_trans by blast
  then show "length (quarantined (purge_quarantine now r)) \<le> 32"
    by (simp add: purge_quarantine_def)
  show "distinct (quarantine_keys (purge_quarantine now r))"
    using assms(2) by (simp add: purge_quarantine_def quarantine_keys_def distinct_map_filter)
  show "length (quarantined (quarantine t s d r)) \<le> 32"
    using assms(1) by (simp add: quarantine_def Let_def)
  have "distinct (tl (quarantine_keys r))" using assms(2) by (rule distinct_tl)
  moreover have "(t, s) \<notin> set (quarantine_keys r)"
    if "\<not> list_ex (\<lambda>key. same_key (qk_tag key) (qk_sequence key) t s) (quarantined r)"
    using that by (auto simp: quarantine_keys_def list_ex_iff list_all_iff same_key_def)
  moreover have "set (tl (quarantine_keys r)) \<subseteq> set (quarantine_keys r)"
    by (cases "quarantine_keys r") auto
  ultimately show "distinct (quarantine_keys (quarantine t s d r))"
    using assms(2) unfolding quarantine_def Let_def quarantine_keys_def
    by (cases "32 \<le> length (quarantined r)") (auto simp flip: map_tl)
qed

lemma quarantine_keys_sub:
  "set (quarantine_keys (quarantine t s d r)) \<subseteq> insert (t, s) (set (quarantine_keys r))"
  "set (quarantine_keys (purge_quarantine now r)) \<subseteq> set (quarantine_keys r)"
proof -
  have "set (tl xs) \<subseteq> set xs" for xs :: "quarantined_key list" by (cases xs) auto
  then have "(\<lambda>k. (qk_tag k, qk_sequence k)) ` set (tl (quarantined r)) \<subseteq>
     (\<lambda>k. (qk_tag k, qk_sequence k)) ` set (quarantined r)" by blast
  then show "set (quarantine_keys (quarantine t s d r)) \<subseteq> insert (t, s) (set (quarantine_keys r))"
    by (auto simp: quarantine_keys_def quarantine_def Let_def)
qed (auto simp: quarantine_keys_def purge_quarantine_def)

lemma is_quarantined_fst:
  "fst (is_quarantined t s now r) \<longleftrightarrow> (t, s) \<in> set (quarantine_keys (purge_quarantine now r))"
  by (auto simp: is_quarantined_def Let_def list_ex_iff same_key_def quarantine_keys_def)

lemma is_quarantined_snd [simp]: "snd (is_quarantined t s now r) = purge_quarantine now r"
  by (simp add: is_quarantined_def Let_def)

lemma empty_slot_ok [simp]: "slot_ok capacity empty_slot" "\<not> used empty_slot"
  by (simp_all add: slot_ok_def empty_slot_def)

text \<open>Replacing a slot: what the rest of the invariant asks for.\<close>

lemma reassembler_ok_update:
  assumes ok: "reassembler_ok r" and i: "i < 8" and s: "slot_ok (fragment_capacity r) s"
    and key: "\<And>j. used s \<Longrightarrow> j < 8 \<Longrightarrow> j \<noteq> i \<Longrightarrow> used (slots r ! j) \<Longrightarrow> slot_key (slots r ! j) \<noteq> slot_key s"
    and h: "active_count (r\<lparr>slots := (slots r)[i := s]\<rparr>) \<le> h" "h \<le> 8"
  shows "reassembler_ok (r\<lparr>slots := (slots r)[i := s], high_water_count := h\<rparr>)"
proof -
  have "j = k" if "j < 8" "k < 8" "used ((slots r)[i := s] ! j)" "used ((slots r)[i := s] ! k)"
    "slot_key ((slots r)[i := s] ! j) = slot_key ((slots r)[i := s] ! k)" for j k
    using that ok i key by (auto simp: reassembler_ok_def nth_list_update split: if_splits)
  then show ?thesis
    using ok i s h
    by (auto simp: reassembler_ok_def nth_list_update active_count_def quarantine_keys_def)
qed

lemma filter_update_le:
  "i < length xs \<Longrightarrow> (P x \<Longrightarrow> P (xs ! i)) \<Longrightarrow> length (filter P (xs[i := x])) \<le> length (filter P xs)"
  by (induction xs arbitrary: i) (auto split: nat.splits simp: le_SucI)

lemma reassembler_ok_same_use:
  assumes ok: "reassembler_ok r" and i: "i < 8" and s: "slot_ok (fragment_capacity r) s"
    and same: "used s \<Longrightarrow> used (slots r ! i) \<and> slot_key s = slot_key (slots r ! i)"
  shows "reassembler_ok (r\<lparr>slots := (slots r)[i := s]\<rparr>)"
proof -
  have "active_count (r\<lparr>slots := (slots r)[i := s]\<rparr>) \<le> active_count r"
    using ok i same by (simp add: active_count_def reassembler_ok_def filter_update_le)
  then have "reassembler_ok (r\<lparr>slots := (slots r)[i := s], high_water_count := high_water_count r\<rparr>)"
    using ok i s same by (intro reassembler_ok_update) (auto simp: reassembler_ok_def)
  then show ?thesis by simp
qed

lemma quarantine_ok: "reassembler_ok r \<Longrightarrow> reassembler_ok (quarantine t s d r)"
  "reassembler_ok r \<Longrightarrow> reassembler_ok (purge_quarantine now r)"
  using quarantine_keys_bounded [of r]
  unfolding reassembler_ok_def active_count_def quarantine_fields by auto

lemma reset_ok: "reassembler_ok r \<Longrightarrow> i < 8 \<Longrightarrow> reassembler_ok (reset_and_quarantine i t s d r)"
  unfolding reset_and_quarantine_def
  by (intro quarantine_ok reassembler_ok_same_use) simp_all

lemma expire_ok:
  assumes "reassembler_ok r" shows "reassembler_ok (snd (reassembler_expire now r))"
proof -
  let ?g = "\<lambda>s. if slot_expired now s then empty_slot else s"
  have "length (filter used (map ?g xs)) \<le> length (filter used xs)" for xs by (induction xs) auto
  then have "active_count (r\<lparr>slots := map ?g (slots r)\<rparr>) \<le> active_count r" by (simp add: active_count_def)
  then have "reassembler_ok (r\<lparr>slots := map ?g (slots r)\<rparr>)"
    using assms by (auto simp: reassembler_ok_def quarantine_keys_def split: if_splits)
  then show ?thesis by (simp add: reassembler_expire_def quarantine_ok)
qed

section \<open>Accepting a frame\<close>

lemma frame_rejected_iff:
  assumes "reassembler_ok r" "length (tag f) = 8"
  shows "\<not> frame_rejected f r \<longleftrightarrow> frame_ok (ra_mtu r) f"
proof -
  have m: "is_supported_mtu (ra_mtu r)" and c: "fragment_capacity r = frame_payload_capacity (ra_mtu r)"
    using assms by (simp_all add: reassembler_ok_def)
  let ?n = "unat (total_length f)" and ?i = "unat (fragment_index f)" and ?k = "unat (fragment_count f)"
  have pos: "0 < fragment_capacity r" using payload_capacity_bounds [OF m] c by auto
  have size: "(if ?i + 1 < ?k then fragment_capacity r else ?n - fragment_capacity r * (?k - 1)) =
      min (fragment_capacity r) (?n - ?i * fragment_capacity r)"
    if "?i < ?k" "?k = fragments_of (fragment_capacity r) ?n" "46 \<le> ?n"
    unfolding that(2) using that pos by (intro fragment_size_min) auto
  have k0: "fragment_count f = 0 \<longleftrightarrow> ?k = 0" by (simp add: unat_eq_0)
  have "\<not> frame_rejected f r \<longleftrightarrow> frame_sequence f \<noteq> 0 \<and> ?k \<le> 16 \<and> ?i < ?k \<and> 46 \<le> ?n \<and> ?n \<le> 316 \<and>
      ?k = fragments_of (fragment_capacity r) ?n \<and>
      length (payload f) = (if ?i + 1 < ?k then fragment_capacity r else ?n - fragment_capacity r * (?k - 1))"
    unfolding frame_rejected_def Let_def fragments_of_def [symmetric] k0 word_le_nat_alt
    using m pos by (simp only: de_Morgan_disj de_Morgan_conj not_not not_le not_less
        kMaximumFragments_def kMinimumEncodedPostBytes_def kMaximumEncodedPostBytes_def) (metis gr_implies_not0)
  also have "\<dots> \<longleftrightarrow> frame_ok (ra_mtu r) f"
    unfolding frame_ok_def validate_fields_None [OF m] c [symmetric] using m assms(2) size by metis
  finally show ?thesis .
qed

text \<open>A slot that collects the fragments of the frame's message.\<close>

definition slot_for :: "data_frame \<Rightarrow> slot \<Rightarrow> bool" where
  "slot_for f s \<longleftrightarrow> used s \<and> slot_key s = frame_key f \<and> slot_total s = total_length f \<and>
     slot_count s = fragment_count f"

definition filled_slot :: "data_frame \<Rightarrow> nat \<Rightarrow> slot \<Rightarrow> slot" where
  "filled_slot f capacity s =
     s\<lparr>slot_bytes := copy_at (unat (fragment_index f) * capacity) (payload f) (slot_bytes s),
       fragment_lengths := (fragment_lengths s)[unat (fragment_index f) := of_nat (length (payload f))],
       received_bitmap := received_bitmap s OR push_bit (unat (fragment_index f)) 1\<rparr>"

text \<open>A slot that may also be full: the invariant without its last conjunct.\<close>

definition slot_consistent :: "nat \<Rightarrow> slot \<Rightarrow> bool" where
  "slot_consistent capacity s \<longleftrightarrow>
     length (slot_bytes s) = 316 \<and> length (fragment_lengths s) = 16 \<and> length (slot_tag s) = 8 \<and>
     slot_sequence s \<noteq> 0 \<and> 46 \<le> unat (slot_total s) \<and> unat (slot_total s) \<le> 316 \<and>
     unat (slot_count s) = fragments_of capacity (unat (slot_total s)) \<and> unat (slot_count s) \<le> 16 \<and>
     (\<forall>i. bit (received_bitmap s) i \<longrightarrow> i < unat (slot_count s) \<and>
        unat (fragment_lengths s ! i) = piece_size capacity (unat (slot_total s)) i)"

lemma slot_ok_used:
  "used s \<Longrightarrow> slot_ok capacity s \<longleftrightarrow>
     slot_consistent capacity s \<and> received_bitmap s \<noteq> complete_mask (slot_count s)"
  by (auto simp: slot_ok_def slot_consistent_def)

lemma unat_payload_size: "n \<le> 316 \<Longrightarrow> unat (of_nat n :: u16) = n"
  by (simp add: unat_of_nat)

lemma filled_slot_consistent:
  assumes s: "slot_consistent capacity s" and f: "frame_ok mtu f" and c: "capacity = frame_payload_capacity mtu"
    and sf: "slot_for f s"
  shows "slot_consistent capacity (filled_slot f capacity s)"
proof -
  note g = frame_ok_geometry [OF f, folded c]
  have idx: "unat (fragment_index f) < 16" using g(4,5) by linarith
  have room: "unat (fragment_index f) * capacity + length (payload f) \<le> length (slot_bytes s)"
    using g(3,8) s by (simp add: slot_consistent_def)
  have size: "unat (of_nat (length (payload f)) :: u16) = piece_size capacity (unat (slot_total s)) (unat (fragment_index f))"
    using sf g(3,7,8) by (simp add: slot_for_def piece_size_def unat_payload_size)
  have count: "unat (fragment_index f) < unat (slot_count s)" using sf g(5) by (simp add: slot_for_def)
  show ?thesis
    using s room idx size count bit_add_received [OF idx, of "received_bitmap s"]
    by (auto simp: slot_consistent_def filled_slot_def nth_list_update)
qed

lemma filled_slot_keeps [simp]:
  "used (filled_slot f c s) = used s" "slot_key (filled_slot f c s) = slot_key s"
  "slot_total (filled_slot f c s) = slot_total s" "slot_count (filled_slot f c s) = slot_count s"
  "slot_tag (filled_slot f c s) = slot_tag s" "slot_sequence (filled_slot f c s) = slot_sequence s"
  "slot_deadline (filled_slot f c s) = slot_deadline s"
  by (simp_all add: filled_slot_def slot_key_def)

lemma complete_slot_fields [simp]:
  "ra_mtu (snd (complete_slot i r)) = ra_mtu r" "fragment_capacity (snd (complete_slot i r)) = fragment_capacity r"
  "slots (snd (complete_slot i r)) = (slots r)[i := empty_slot]"
  "high_water_count (snd (complete_slot i r)) = high_water_count r"
  by (auto simp: complete_slot_def Let_def reset_and_quarantine_def split: sum.splits option.splits)

lemma complete_slot_quarantine:
  "snd (complete_slot i r) = r\<lparr>slots := (slots r)[i := empty_slot]\<rparr> \<or>
   snd (complete_slot i r) =
     reset_and_quarantine i (slot_tag (slots r ! i)) (slot_sequence (slots r ! i)) (slot_deadline (slots r ! i)) r"
  by (auto simp: complete_slot_def Let_def split: sum.splits option.splits)

text \<open>Storing, in terms of the filled slot.\<close>

lemma store_fragment_alt:
  assumes "unat (fragment_index f) < 16"
  shows "store_fragment f i r =
    (let s = slots r ! i in
     if bit (received_bitmap s) (unat (fragment_index f)) then
       (if unat (fragment_lengths s ! unat (fragment_index f)) = length (payload f) \<and>
           slice (unat (fragment_index f) * fragment_capacity r) (length (payload f)) (slot_bytes s) = payload f
        then ((DuplicateFragment, None), r)
        else ((ReassemblyConflict, None),
              reset_and_quarantine i (tag f) (frame_sequence f) (slot_deadline s) r))
     else let s' = filled_slot f (fragment_capacity r) s; r' = r\<lparr>slots := (slots r)[i := s']\<rparr>
          in if received_bitmap s' \<noteq> complete_mask (fragment_count f) then ((FragmentAccepted, None), r')
             else complete_slot i r')"
  unfolding store_fragment_def Let_def received_test [OF assms] filled_slot_def by simp

lemma store_fragment_ok:
  assumes ok: "reassembler_ok r" and i: "i < 8" and f: "frame_ok (ra_mtu r) f"
    and sf: "slot_for f (slots r ! i)"
  shows "reassembler_ok (snd (store_fragment f i r))"
proof -
  let ?s = "slots r ! i" and ?c = "fragment_capacity r"
  let ?s' = "filled_slot f ?c ?s"
  note g = frame_ok_geometry [OF f]
  have idx: "unat (fragment_index f) < 16" using g(4,5) by linarith
  have c: "?c = frame_payload_capacity (ra_mtu r)" and sok: "slot_ok ?c ?s"
    using ok i unfolding reassembler_ok_def by auto
  have u: "used ?s" and cnt: "slot_count ?s = fragment_count f" using sf by (simp_all add: slot_for_def)
  have cons: "slot_consistent ?c ?s'"
    using sok u c sf f by (intro filled_slot_consistent) (simp_all add: slot_ok_used)
  have fill: "reassembler_ok (r\<lparr>slots := (slots r)[i := ?s']\<rparr>)"
    if "received_bitmap ?s' \<noteq> complete_mask (fragment_count f)"
    using that u cnt cons ok i by (intro reassembler_ok_same_use) (simp_all add: slot_ok_used)
  have fin: "reassembler_ok (snd (complete_slot i (r\<lparr>slots := (slots r)[i := ?s']\<rparr>)))"
  proof -
    have e: "reassembler_ok (r\<lparr>slots := (slots r)[i := empty_slot]\<rparr>)"
      using ok i by (intro reassembler_ok_same_use) simp_all
    show ?thesis
      using complete_slot_quarantine [of i "r\<lparr>slots := (slots r)[i := ?s']\<rparr>"] e quarantine_ok(1) [OF e]
      by (auto simp: reset_and_quarantine_def)
  qed
  show ?thesis
    unfolding store_fragment_alt [OF idx] Let_def
    using ok reset_ok [OF ok i] fill fin by auto
qed

definition allocated :: "data_frame \<Rightarrow> u64 \<Rightarrow> slot \<Rightarrow> slot" where
  "allocated f t s =
     s\<lparr>used := True, slot_tag := tag f, slot_sequence := frame_sequence f, slot_total := total_length f,
       slot_count := fragment_count f, slot_deadline := saturating_deadline t kReassemblyTimeoutTicks\<rparr>"

definition allocate :: "data_frame \<Rightarrow> u64 \<Rightarrow> nat \<Rightarrow> reassembler \<Rightarrow> reassembler" where
  "allocate f t i r =
     (let r = r\<lparr>slots := (slots r)[i := allocated f t (slots r ! i)]\<rparr>
      in r\<lparr>high_water_count := max (high_water_count r) (active_count r)\<rparr>)"

lemma purge_idem: "purge_quarantine t (purge_quarantine t r) = purge_quarantine t r"
  by (simp add: purge_quarantine_def)

lemma purge_expire [simp]: "purge_quarantine t (snd (reassembler_expire t r)) = snd (reassembler_expire t r)"
  by (simp add: reassembler_expire_def purge_idem)

lemma slot_matches_key: "slot_matches f s \<longleftrightarrow> used s \<and> slot_key s = frame_key f"
  by (auto simp: slot_matches_def same_key_def slot_key_def frame_key_def)

text \<open>The handler as one case distinction over the state after expiry.\<close>

lemma accept_alt:
  "reassembler_accept f t r =
     (let r1 = snd (reassembler_expire t r);
          i = find_index (slot_matches f) (slots r1);
          k = find_index (\<lambda>s. \<not> used s) (slots r1)
      in if frame_rejected f r1 then ((ReassemblyInvalidPost, None), r1)
         else if frame_key f \<in> set (quarantine_keys r1) then ((Quarantined, None), r1)
         else if i < length (slots r1) then
           (if slot_for f (slots r1 ! i) then store_fragment f i r1
            else ((ReassemblyConflict, None),
                  reset_and_quarantine i (tag f) (frame_sequence f) (slot_deadline (slots r1 ! i)) r1))
         else if k < length (slots r1) then store_fragment f k (allocate f t k r1)
         else ((CapacityExceeded, None), r1))"
proof -
  define r1 where "r1 = snd (reassembler_expire t r)"
  let ?i = "find_index (slot_matches f) (slots r1)" and ?k = "find_index (\<lambda>s. \<not> used s) (slots r1)"
  have q: "is_quarantined (tag f) (frame_sequence f) t r1 = (frame_key f \<in> set (quarantine_keys r1), r1)"
    by (simp add: prod_eq_iff is_quarantined_fst r1_def frame_key_def)
  have i: "?i = length (slots r1) \<longleftrightarrow> \<not> ?i < length (slots r1)" "?k = length (slots r1) \<longleftrightarrow> \<not> ?k < length (slots r1)"
    using find_index_le [of "slot_matches f" "slots r1"] find_index_le [of "\<lambda>s. \<not> used s" "slots r1"] by auto
  have m: "slot_for f (slots r1 ! ?i) \<longleftrightarrow>
      \<not> (slot_total (slots r1 ! ?i) \<noteq> total_length f \<or> slot_count (slots r1 ! ?i) \<noteq> fragment_count f)"
    if "?i < length (slots r1)"
    using find_index_found [OF that] by (auto simp: slot_for_def slot_matches_key)
  show ?thesis
    unfolding reassembler_accept_def r1_def [symmetric] Let_def q prod.case i
    using m by (simp add: allocate_def allocated_def Let_def)
qed

lemma slot_for_matches: "slot_for f s \<Longrightarrow> slot_matches f s"
  by (simp add: slot_for_def slot_matches_key)

lemma complete_mask_nonzero: "0 < unat c \<Longrightarrow> unat c \<le> 16 \<Longrightarrow> complete_mask c \<noteq> 0"
  using bit_complete_mask [of c 0] by auto

lemma allocated_ok:
  assumes "frame_ok mtu f" "capacity = frame_payload_capacity mtu"
  shows "slot_ok capacity (allocated f t empty_slot)"
proof -
  note g = frame_ok_geometry [OF assms(1), folded assms(2)]
  have "complete_mask (fragment_count f) \<noteq> 0" using g(4,5) by (intro complete_mask_nonzero) auto
  then show ?thesis
    using g by (simp add: slot_ok_def allocated_def empty_slot_def)
qed

lemma allocate_ok:
  assumes ok: "reassembler_ok r" and f: "frame_ok (ra_mtu r) f" and k: "k < 8" "\<not> used (slots r ! k)"
    and free: "\<forall>s \<in> set (slots r). \<not> slot_matches f s"
  shows "reassembler_ok (allocate f t k r)" "slot_for f (slots (allocate f t k r) ! k)"
    "ra_mtu (allocate f t k r) = ra_mtu r" "fragment_capacity (allocate f t k r) = fragment_capacity r"
    "slots (allocate f t k r) = (slots r)[k := allocated f t empty_slot]"
    "quarantine_keys (allocate f t k r) = quarantine_keys r"
proof -
  have len: "length (slots r) = 8" and c: "fragment_capacity r = frame_payload_capacity (ra_mtu r)"
    and sok: "slot_ok (fragment_capacity r) (slots r ! k)"
    using ok k unfolding reassembler_ok_def by auto
  have e: "slots r ! k = empty_slot" using sok k by (simp add: slot_ok_def)
  show f1: "slots (allocate f t k r) = (slots r)[k := allocated f t empty_slot]"
    and "ra_mtu (allocate f t k r) = ra_mtu r" "fragment_capacity (allocate f t k r) = fragment_capacity r"
    "quarantine_keys (allocate f t k r) = quarantine_keys r"
    by (simp_all add: allocate_def Let_def e quarantine_keys_def)
  show "slot_for f (slots (allocate f t k r) ! k)"
    unfolding f1 using k len by (simp add: slot_for_def allocated_def slot_key_def frame_key_def)
  have key: "slot_key (slots r ! j) \<noteq> slot_key (allocated f t empty_slot)" if "j < 8" "used (slots r ! j)" for j
    using free that len by (auto simp: slot_matches_key slot_key_def allocated_def frame_key_def dest!: bspec [OF _ nth_mem])
  have "active_count (r\<lparr>slots := xs\<rparr>) \<le> 8" if "length xs = 8" for xs
    using that length_filter_le [of used xs] by (simp add: active_count_def)
  then show "reassembler_ok (allocate f t k r)"
    unfolding allocate_def Let_def e
    using allocated_ok [OF f c] key ok k len
    by (simp, intro reassembler_ok_update) (auto simp: reassembler_ok_def active_count_def)
qed

lemma accept_ok:
  assumes ok: "reassembler_ok r" and t: "length (tag f) = 8"
  shows "reassembler_ok (snd (reassembler_accept f tick r))"
proof -
  define r1 where "r1 = snd (reassembler_expire tick r)"
  have ok1: "reassembler_ok r1" unfolding r1_def by (rule expire_ok [OF ok])
  then have len: "length (slots r1) = 8" by (simp add: reassembler_ok_def)
  let ?i = "find_index (slot_matches f) (slots r1)" and ?k = "find_index (\<lambda>s. \<not> used s) (slots r1)"
  have store: "reassembler_ok (snd (store_fragment f ?i r1))"
    if "frame_ok (ra_mtu r1) f" "?i < 8" "slot_for f (slots r1 ! ?i)"
    using that by (intro store_fragment_ok [OF ok1])
  have new: "reassembler_ok (snd (store_fragment f ?k (allocate f tick ?k r1)))"
    if "frame_ok (ra_mtu r1) f" "?k < 8" "\<not> ?i < 8"
  proof -
    have "\<not> used (slots r1 ! ?k)" using find_index_found [of "\<lambda>s. \<not> used s" "slots r1"] that len by simp
    moreover have "\<forall>s \<in> set (slots r1). \<not> slot_matches f s"
      using that(3) len find_index_lt_iff [of "slot_matches f" "slots r1"] by simp
    ultimately show ?thesis
      using allocate_ok [OF ok1 that(1,2)] that by (intro store_fragment_ok) simp_all
  qed
  show ?thesis
    unfolding accept_alt Let_def r1_def [symmetric] len
    using ok1 frame_rejected_iff [OF ok1 t] store new reset_ok [OF ok1] by auto
qed

lemma clear_ok: "reassembler_ok r \<Longrightarrow> reassembler_ok (reassembler_clear r)"
  by (auto simp: reassembler_ok_def reassembler_clear_def active_count_def quarantine_keys_def)

lemma new_ok: "is_supported_mtu mtu \<Longrightarrow> reassembler_ok (reassembler_new mtu)"
  by (auto simp: reassembler_ok_def reassembler_new_def active_count_def quarantine_keys_def
      frame_payload_capacity_def is_supported_mtu_def)

section \<open>Completion\<close>

definition post_key :: "post_payload \<Rightarrow> bytes \<times> u64" where
  "post_key p = (message_tag (message_id p), sender_sequence p)"

definition post_bytes :: "post_payload \<Rightarrow> bytes" where
  "post_bytes p = wire_layout (post_input p)"

definition post_count :: "nat \<Rightarrow> post_payload \<Rightarrow> nat" where
  "post_count mtu p = fragments_of (frame_payload_capacity mtu) (length (post_bytes p))"

definition post_fragment :: "nat \<Rightarrow> post_payload \<Rightarrow> nat \<Rightarrow> data_frame" where
  "post_fragment mtu p = fragment_frame (message_tag (message_id p)) (sender_sequence p) (post_bytes p)
     (frame_payload_capacity mtu) (post_count mtu p)"

lemma fragment_frames_alt: "fragment_frames p mtu = map (post_fragment mtu p) [0..<post_count mtu p]"
  by (simp add: fragment_frames_def Let_def post_fragment_def post_count_def post_bytes_def)

lemma post_fragment_fields [simp]:
  "frame_key (post_fragment mtu p j) = post_key p"
  "total_length (post_fragment mtu p j) = of_nat (length (post_bytes p))"
  "fragment_count (post_fragment mtu p j) = of_nat (post_count mtu p)"
  "fragment_index (post_fragment mtu p j) = of_nat j"
  "payload (post_fragment mtu p j) =
     slice (j * frame_payload_capacity mtu) (piece_size (frame_payload_capacity mtu) (length (post_bytes p)) j) (post_bytes p)"
  by (simp_all add: post_fragment_def fragment_frame_def Let_def frame_key_def post_key_def piece_size_def)

lemma post_sizes:
  assumes "post_ok p" "is_supported_mtu mtu"
  shows "46 \<le> length (post_bytes p)" "length (post_bytes p) \<le> 316"
    "unat (of_nat (length (post_bytes p)) :: u16) = length (post_bytes p)"
    "0 < post_count mtu p" "post_count mtu p \<le> 16" "unat (of_nat (post_count mtu p) :: byte) = post_count mtu p"
proof -
  show s: "46 \<le> length (post_bytes p)" "length (post_bytes p) \<le> 316"
    using post_layout_size [OF assms(1)] by (simp_all add: post_bytes_def)
  then show "unat (of_nat (length (post_bytes p)) :: u16) = length (post_bytes p)" by (simp add: unat_total)
  show c: "0 < post_count mtu p" "post_count mtu p \<le> 16"
    using fragments_of_bound [OF conjunct1 [OF payload_capacity_bounds [OF assms(2)]] s] by (simp_all add: post_count_def)
  then show "unat (of_nat (post_count mtu p) :: byte) = post_count mtu p" by (simp add: unat_small_byte)
qed

lemma post_fragment_ok:
  assumes "post_ok p" "is_supported_mtu mtu" "j < post_count mtu p"
  shows "frame_ok mtu (post_fragment mtu p j)"
  using fragment_frames_ok [OF assms(1,2)] assms(3) by (auto simp: fragment_frames_alt)

lemma slot_frames_Some:
  "(\<And>j. j \<in> set js \<Longrightarrow> frame_ok mtu (slot_frame s capacity j)) \<Longrightarrow>
     slot_frames s capacity mtu js frames = Some (frames @ map (\<lambda>j. frame_layout (slot_frame s capacity j)) js)"
  by (induction js arbitrary: frames) (simp_all add: encode_frame_layout)

lemma slice_take: "off + n \<le> m \<Longrightarrow> slice off n (take m xs) = slice off n xs"
  by (simp add: slice_def drop_take min_def)

lemma piece_inside: "0 < capacity \<Longrightarrow> i < fragments_of capacity n \<Longrightarrow> 0 < n \<Longrightarrow> i * capacity + piece_size capacity n i \<le> n"
  using fragments_of_index [of capacity n i] by (auto simp: piece_size_def)

lemma slot_frame_fragment:
  assumes s: "slot_consistent capacity s" and full: "received_bitmap s = complete_mask (slot_count s)"
    and cap: "0 < capacity" and i: "i < unat (slot_count s)"
    and canonical: "canonical = take (unat (slot_total s)) (slot_bytes s)"
  shows "slot_frame s capacity i =
    fragment_frame (slot_tag s) (slot_sequence s) canonical capacity (unat (slot_count s)) i"
proof -
  have len: "length canonical = unat (slot_total s)" using s canonical by (simp add: slot_consistent_def)
  have "bit (received_bitmap s) i" using full i s bit_complete_mask [of "slot_count s" i]
    by (simp add: slot_consistent_def)
  then have l: "unat (fragment_lengths s ! i) = piece_size capacity (unat (slot_total s)) i"
    using s by (simp add: slot_consistent_def)
  have "i * capacity + piece_size capacity (unat (slot_total s)) i \<le> unat (slot_total s)"
    using s i cap by (intro piece_inside) (auto simp: slot_consistent_def)
  then have pay: "slice (i * capacity) (piece_size capacity (unat (slot_total s)) i) (slot_bytes s) =
      slice (i * capacity) (piece_size capacity (unat (slot_total s)) i) canonical"
    unfolding canonical by (simp only: slice_take)
  show ?thesis
    unfolding slot_frame_def fragment_frame_def Let_def l pay len piece_size_def [symmetric] by simp
qed

lemma complete_slot_Complete:
  fixes r :: reassembler and i :: nat
  defines "s \<equiv> slots r ! i"
  assumes cons: "slot_consistent (fragment_capacity r) s" and full: "received_bitmap s = complete_mask (slot_count s)"
    and m: "is_supported_mtu (ra_mtu r)" and c: "fragment_capacity r = frame_payload_capacity (ra_mtu r)"
    and dec: "decode_post (Some (take (unat (slot_total s)) (slot_bytes s))) = Inr p" and key: "slot_key s = post_key p"
  shows "complete_slot i r =
    ((Complete, Some \<lparr>completed_payload = p, canonical_post = post_bytes p,
        canonical_frames = map frame_layout (fragment_frames p (ra_mtu r))\<rparr>), r\<lparr>slots := (slots r)[i := empty_slot]\<rparr>)"
proof -
  have p: "post_ok p" and b: "take (unat (slot_total s)) (slot_bytes s) = post_bytes p"
    using dec decode_post_Inr by (auto simp: post_bytes_def)
  have cap: "0 < fragment_capacity r" using payload_capacity_bounds [OF m] c by auto
  have "unat (slot_total s) = length (post_bytes p)" using cons b [symmetric] by (simp add: slot_consistent_def)
  then have count: "unat (slot_count s) = post_count (ra_mtu r) p"
    using cons c by (simp add: slot_consistent_def post_count_def)
  have frame: "slot_frame s (fragment_capacity r) j = post_fragment (ra_mtu r) p j" if "j < post_count (ra_mtu r) p" for j
    using slot_frame_fragment [OF cons full cap _ b [symmetric], of j] that key count c
    by (simp add: post_fragment_def slot_key_def post_key_def)
  have "slot_frames s (fragment_capacity r) (ra_mtu r) [0..<unat (slot_count s)] [] =
      Some ([] @ map (\<lambda>j. frame_layout (slot_frame s (fragment_capacity r) j)) [0..<unat (slot_count s)])"
    using frame post_fragment_ok [OF p m] count by (intro slot_frames_Some) simp
  also have "map (\<lambda>j. frame_layout (slot_frame s (fragment_capacity r) j)) [0..<unat (slot_count s)] =
      map frame_layout (fragment_frames p (ra_mtu r))"
    using frame count by (simp add: fragment_frames_alt)
  finally show ?thesis
    using dec key b unfolding complete_slot_def s_def [symmetric] Let_def
    by (simp add: slot_key_def post_key_def)
qed

lemma complete_slot_sound:
  assumes cons: "slot_consistent (fragment_capacity r) (slots r ! i)"
    and full: "received_bitmap (slots r ! i) = complete_mask (slot_count (slots r ! i))"
    and m: "is_supported_mtu (ra_mtu r)" and c: "fragment_capacity r = frame_payload_capacity (ra_mtu r)"
    and res: "fst (complete_slot i r) = (st, Some done)"
  shows "st = Complete \<and> post_ok (completed_payload done) \<and> slot_key (slots r ! i) = post_key (completed_payload done) \<and>
    take (unat (slot_total (slots r ! i))) (slot_bytes (slots r ! i)) = post_bytes (completed_payload done) \<and>
    canonical_post done = post_bytes (completed_payload done) \<and>
    canonical_frames done = map frame_layout (fragment_frames (completed_payload done) (ra_mtu r))"
proof -
  obtain p where dec: "decode_post (Some (take (unat (slot_total (slots r ! i))) (slot_bytes (slots r ! i)))) = Inr p"
    and key: "slot_key (slots r ! i) = post_key p"
    using res by (auto simp: complete_slot_def Let_def slot_key_def post_key_def split: sum.splits if_splits)
  show ?thesis
    using complete_slot_Complete [OF cons full m c dec key] res dec decode_post_Inr key by (auto simp: post_bytes_def)
qed

lemma complete_slot_status: "fst (fst (complete_slot i r)) \<in> {Complete, ReassemblyInvalidPost}"
  "fst (fst (complete_slot i r)) = Complete \<longleftrightarrow> snd (fst (complete_slot i r)) \<noteq> None"
  by (auto simp: complete_slot_def Let_def split: sum.splits option.splits)

lemma filled_slot_payload:
  assumes "slot_consistent capacity s" "frame_ok mtu f" "capacity = frame_payload_capacity mtu"
  shows "slice (unat (fragment_index f) * capacity) (length (payload f)) (slot_bytes (filled_slot f capacity s)) = payload f"
proof -
  have "unat (fragment_index f) * capacity + length (payload f) \<le> length (slot_bytes s)"
    using frame_ok_geometry(3,8) [OF assms(2)] assms(1,3) by (simp add: slot_consistent_def)
  then show ?thesis by (simp add: filled_slot_def slice_copy_at_same)
qed

text \<open>A frame that belongs to a post is one of its fragments.\<close>

lemma frame_is_fragment:
  assumes f: "frame_ok mtu f" and key: "frame_key f = post_key p" and n: "unat (total_length f) = length (post_bytes p)"
    and pay: "payload f = slice (unat (fragment_index f) * frame_payload_capacity mtu) (length (payload f)) (post_bytes p)"
  shows "f \<in> set (fragment_frames p mtu)"
proof -
  note g = frame_ok_geometry [OF f]
  have i: "unat (fragment_index f) < post_count mtu p" using g(5,6) n by (simp add: post_count_def)
  have "f = post_fragment mtu p (unat (fragment_index f))"
  proof (rule data_frame.equality)
    show "tag f = tag (post_fragment mtu p (unat (fragment_index f)))"
      "frame_sequence f = frame_sequence (post_fragment mtu p (unat (fragment_index f)))"
      using key by (simp_all add: frame_key_def post_key_def post_fragment_def fragment_frame_def Let_def)
    show "fragment_count f = fragment_count (post_fragment mtu p (unat (fragment_index f)))"
    proof -
      have "of_nat (unat (fragment_count f)) = (of_nat (post_count mtu p) :: byte)"
        unfolding post_count_def g(6) n by simp
      then show ?thesis by simp
    qed
    show "total_length f = total_length (post_fragment mtu p (unat (fragment_index f)))"
      by (simp flip: n)
    show "payload f = payload (post_fragment mtu p (unat (fragment_index f)))"
      using pay g(7) n by (simp add: piece_size_def)
  qed simp_all
  then show ?thesis using i by (auto simp: fragment_frames_alt)
qed

lemma store_fragment_sound:
  assumes ok: "reassembler_ok r" and i: "i < 8" and f: "frame_ok (ra_mtu r) f" and sf: "slot_for f (slots r ! i)"
    and res: "fst (store_fragment f i r) = (st, Some c)"
  shows "st = Complete \<and> post_ok (completed_payload c) \<and> canonical_post c = post_bytes (completed_payload c) \<and>
    canonical_frames c = map frame_layout (fragment_frames (completed_payload c) (ra_mtu r)) \<and>
    f \<in> set (fragment_frames (completed_payload c) (ra_mtu r))"
proof -
  let ?s = "slots r ! i" and ?cap = "fragment_capacity r"
  let ?s' = "filled_slot f ?cap ?s" and ?r = "r\<lparr>slots := (slots r)[i := filled_slot f ?cap ?s]\<rparr>"
  note g = frame_ok_geometry [OF f]
  have idx: "unat (fragment_index f) < 16" using g(4,5) by linarith
  have cap: "?cap = frame_payload_capacity (ra_mtu r)" and len: "length (slots r) = 8"
    and sok: "slot_ok ?cap ?s" and m: "is_supported_mtu (ra_mtu r)"
    using ok i unfolding reassembler_ok_def by auto
  have u: "used ?s" "slot_count ?s = fragment_count f" "slot_total ?s = total_length f" "slot_key ?s = frame_key f"
    using sf by (simp_all add: slot_for_def)
  have old: "slot_consistent ?cap ?s" using sok u by (simp add: slot_ok_used)
  then have cons: "slot_consistent ?cap ?s'" using f cap sf by (rule filled_slot_consistent)
  have at: "slots ?r ! i = ?s'" using i len by simp
  have full: "received_bitmap ?s' = complete_mask (slot_count ?s')" and fin: "fst (complete_slot i ?r) = (st, Some c)"
    using res unfolding store_fragment_alt [OF idx] Let_def by (auto simp: u split: if_splits)
  have sound: "st = Complete" "post_ok (completed_payload c)" "slot_key ?s' = post_key (completed_payload c)"
    "take (unat (slot_total ?s')) (slot_bytes ?s') = post_bytes (completed_payload c)"
    "canonical_post c = post_bytes (completed_payload c)"
    "canonical_frames c = map frame_layout (fragment_frames (completed_payload c) (ra_mtu r))"
    using complete_slot_sound [of ?r i st c] cons full m cap fin unfolding at by simp_all
  have n: "unat (total_length f) = length (post_bytes (completed_payload c))"
    using sound(4) [symmetric] cons u by (simp add: slot_consistent_def)
  have "payload f = slice (unat (fragment_index f) * ?cap) (length (payload f)) (post_bytes (completed_payload c))"
    unfolding sound(4) [symmetric] using g(8) u filled_slot_payload [OF old f cap] by (simp add: slice_take cap)
  then have "f \<in> set (fragment_frames (completed_payload c) (ra_mtu r))"
    using frame_is_fragment [OF f _ n] sound(3) u cap by simp
  with sound show ?thesis by simp
qed

lemma store_fragment_mtu: "ra_mtu (snd (store_fragment f i r)) = ra_mtu r"
  by (simp add: store_fragment_def Let_def reset_and_quarantine_def)

lemma expire_mtu [simp]: "ra_mtu (snd (reassembler_expire t r)) = ra_mtu r"
  by (simp add: reassembler_expire_def)

lemma accept_sound:
  assumes ok: "reassembler_ok r" and t: "length (tag f) = 8"
    and res: "fst (reassembler_accept f tick r) = (st, Some c)"
  shows "st = Complete \<and> post_ok (completed_payload c) \<and> canonical_post c = post_bytes (completed_payload c) \<and>
    canonical_frames c = map frame_layout (fragment_frames (completed_payload c) (ra_mtu r)) \<and>
    f \<in> set (fragment_frames (completed_payload c) (ra_mtu r))"
proof -
  define r1 where "r1 = snd (reassembler_expire tick r)"
  have ok1: "reassembler_ok r1" unfolding r1_def by (rule expire_ok [OF ok])
  then have len: "length (slots r1) = 8" by (simp add: reassembler_ok_def)
  have mtu: "ra_mtu r1 = ra_mtu r" by (simp add: r1_def)
  let ?i = "find_index (slot_matches f) (slots r1)" and ?k = "find_index (\<lambda>s. \<not> used s) (slots r1)"
  have f: "frame_ok (ra_mtu r1) f" using res frame_rejected_iff [OF ok1 t]
    unfolding accept_alt Let_def r1_def [symmetric] by (auto split: if_splits)
  from res consider (old) "?i < 8" "slot_for f (slots r1 ! ?i)" "fst (store_fragment f ?i r1) = (st, Some c)"
    | (new) "\<not> ?i < 8" "?k < 8" "fst (store_fragment f ?k (allocate f tick ?k r1)) = (st, Some c)"
    unfolding accept_alt Let_def r1_def [symmetric] len by (auto split: if_splits)
  then show ?thesis
  proof cases
    case old
    from store_fragment_sound [OF ok1 old(1) f old(2,3)] show ?thesis by (simp add: mtu)
  next
    case new
    have "\<not> used (slots r1 ! ?k)" using find_index_found [of "\<lambda>s. \<not> used s" "slots r1"] new(2) len by simp
    moreover have "\<forall>s \<in> set (slots r1). \<not> slot_matches f s"
      using new(1) len find_index_lt_iff [of "slot_matches f" "slots r1"] by simp
    ultimately have "reassembler_ok (allocate f tick ?k r1)" "slot_for f (slots (allocate f tick ?k r1) ! ?k)"
      "ra_mtu (allocate f tick ?k r1) = ra_mtu r1"
      using allocate_ok [OF ok1 f new(2)] by blast+
    with store_fragment_sound [of "allocate f tick ?k r1" ?k f st c] new f show ?thesis by (simp add: mtu)
  qed
qed

section \<open>Properties\<close>

text \<open>Every operation of the reassembler keeps its invariant, whatever frame arrives and whenever:
  eight slots, each empty or with consistent, incomplete contents, no two slots for one message, at
  most 32 quarantined keys.\<close>

theorem reassembler_operations_ok:
  assumes "reassembler_ok r" "length (tag f) = 8"
  shows "reassembler_ok (snd (reassembler_accept f tick r)) \<and>
    reassembler_ok (snd (reassembler_expire tick r)) \<and> reassembler_ok (reassembler_clear r)"
  using accept_ok [OF assms] expire_ok [OF assms(1)] clear_ok [OF assms(1)] by blast

theorem reassembler_operations_ok_witness:
  "reassembler_ok (snd (reassembler_accept sample_frame 5 (reassembler_new 48)))"
  using reassembler_operations_ok [of "reassembler_new 48" sample_frame 5] new_ok [of 48]
  by (simp add: is_supported_mtu_def sample_frame_def)

text \<open>The fixed arrays are never overrun: a frame that passes the handler's checks has an index
  below 16, and its payload ends within the 316 bytes of the slot.\<close>

theorem reassembler_no_overrun:
  assumes "reassembler_ok r" "length (tag f) = 8" "\<not> frame_rejected f r"
  shows "unat (fragment_index f) < kMaximumFragments \<and>
    unat (fragment_index f) * fragment_capacity r + length (payload f) \<le> kMaximumEncodedPostBytes"
proof -
  have f: "frame_ok (ra_mtu r) f" using assms frame_rejected_iff by blast
  have "fragment_capacity r = frame_payload_capacity (ra_mtu r)" using assms(1) by (simp add: reassembler_ok_def)
  then show ?thesis using frame_ok_geometry(3,4,5,8) [OF f] by simp
qed

theorem reassembler_no_overrun_witness:
  "unat (fragment_index sample_frame) * fragment_capacity (reassembler_new 48) + length (payload sample_frame) \<le> 316"
proof -
  have ok: "reassembler_ok (reassembler_new 48)" by (rule new_ok) (simp add: is_supported_mtu_def)
  moreover have "\<not> frame_rejected sample_frame (reassembler_new 48)"
    using frame_rejected_iff [OF ok, of sample_frame] sample_frame_ok
    by (simp add: sample_frame_def reassembler_new_def)
  ultimately show ?thesis
    using reassembler_no_overrun [of "reassembler_new 48" sample_frame] by (simp add: sample_frame_def)
qed

end
