(* ===== verification/Protocol_Reassembly.thy ===== *)
theory Protocol_Reassembly
  imports Protocol_Reassembler
begin

text \<open>
  Completeness of the reassembler: \<open>collecting\<close> describes a slot that holds some of a post's fragments,
  and each frame that arrives either adds to it, leaves it alone or completes the post. The sequence
  of frames and the ticks are arbitrary within the timeout.
\<close>

section \<open>Reassembly in any order\<close>

lemma reassembler_okD:
  assumes "reassembler_ok r"
  shows "is_supported_mtu (ra_mtu r)" "fragment_capacity r = frame_payload_capacity (ra_mtu r)"
    "length (slots r) = 8" "i < 8 \<Longrightarrow> slot_ok (fragment_capacity r) (slots r ! i)"
    "i < 8 \<Longrightarrow> j < 8 \<Longrightarrow> used (slots r ! i) \<Longrightarrow> used (slots r ! j) \<Longrightarrow>
       slot_key (slots r ! i) = slot_key (slots r ! j) \<Longrightarrow> i = j"
  using assms unfolding reassembler_ok_def by auto

text \<open>Slot \<open>i\<close> holds the fragments of \<open>p\<close> with the indices in \<open>got\<close>, until the deadline.\<close>

definition collecting :: "post_payload \<Rightarrow> nat set \<Rightarrow> u64 \<Rightarrow> nat \<Rightarrow> reassembler \<Rightarrow> bool" where
  "collecting p got deadline i r \<longleftrightarrow>
     reassembler_ok r \<and> i < 8 \<and> post_key p \<notin> set (quarantine_keys r) \<and>
     used (slots r ! i) \<and> slot_key (slots r ! i) = post_key p \<and>
     slot_total (slots r ! i) = of_nat (length (post_bytes p)) \<and>
     slot_count (slots r ! i) = of_nat (post_count (ra_mtu r) p) \<and>
     slot_deadline (slots r ! i) = deadline \<and>
     (\<forall>n. bit (received_bitmap (slots r ! i)) n \<longleftrightarrow> n \<in> got) \<and>
     (\<forall>n \<in> got. slice (n * fragment_capacity r) (piece_size (fragment_capacity r) (length (post_bytes p)) n)
        (slot_bytes (slots r ! i)) = payload (post_fragment (ra_mtu r) p n))"

lemma collectingD:
  assumes "collecting p got d i r"
  shows "reassembler_ok r" "i < 8" "post_key p \<notin> set (quarantine_keys r)" "used (slots r ! i)"
    "slot_key (slots r ! i) = post_key p" "slot_deadline (slots r ! i) = d"
    "bit (received_bitmap (slots r ! i)) n \<longleftrightarrow> n \<in> got"
    "slot_count (slots r ! i) = of_nat (post_count (ra_mtu r) p)"
    "slot_total (slots r ! i) = of_nat (length (post_bytes p))"
  using assms unfolding collecting_def by blast+

lemma collecting_sub: "collecting p got d i r \<Longrightarrow> post_ok p \<Longrightarrow> n \<in> got \<Longrightarrow> n < post_count (ra_mtu r) p"
proof -
  assume c: "collecting p got d i r" and p: "post_ok p" and n: "n \<in> got"
  note r = reassembler_okD [OF collectingD(1) [OF c]]
  have m: "is_supported_mtu (ra_mtu r)" and sok: "slot_ok (fragment_capacity r) (slots r ! i)"
    using r collectingD(2) [OF c] by blast+
  have "n < unat (slot_count (slots r ! i))" using c n sok by (auto simp: collecting_def slot_ok_def)
  then show ?thesis using c post_sizes(6) [OF p m] by (simp add: collecting_def)
qed

lemma expire_keeps_slot:
  assumes "i < length (slots r)" "tick < slot_deadline (slots r ! i)"
  shows "slots (snd (reassembler_expire tick r)) ! i = slots r ! i"
  using assms by (auto simp: reassembler_expire_def slot_expired_def deadline_reached_def)

lemma expire_collecting:
  assumes "collecting p got d i r" "tick < d"
  shows "collecting p got d i (snd (reassembler_expire tick r))"
proof -
  have "i < length (slots r)" "tick < slot_deadline (slots r ! i)"
    using assms collectingD [OF assms(1)] reassembler_okD(3) by auto
  note same = expire_keeps_slot [OF this]
  have "set (quarantine_keys (snd (reassembler_expire tick r))) \<subseteq> set (quarantine_keys r)"
    by (auto simp: reassembler_expire_def quarantine_keys_def purge_quarantine_def)
  moreover have "fragment_capacity (snd (reassembler_expire tick r)) = fragment_capacity r"
    by (simp add: reassembler_expire_def)
  ultimately show ?thesis
    using assms(1) expire_ok unfolding collecting_def same by auto
qed

lemma collecting_index:
  assumes c: "collecting p got d i r" and key: "frame_key f = post_key p"
  shows "find_index (slot_matches f) (slots r) = i"
proof (rule find_index_unique)
  note ok = collectingD [OF c]
  note len = reassembler_okD(3) [OF ok(1)]
  show "i < length (slots r)" using ok len by simp
  show "slot_matches f (slots r ! i)" using ok key by (simp add: slot_matches_key)
  fix j assume "j < i"
  then show "\<not> slot_matches f (slots r ! j)"
    using key ok reassembler_okD(5) [OF ok(1), of j i] unfolding slot_matches_key by auto
qed

lemma piece_le: "piece_size capacity n i \<le> capacity"
  by (simp add: piece_size_def)

text \<open>The step of the handler on the next fragment, after expiry.\<close>

lemma filled_slot_pieces:
  assumes c: "collecting p got d i r" and p: "post_ok p" and j: "j < post_count (ra_mtu r) p"
    and n: "n \<in> insert j got"
  shows "slice (n * fragment_capacity r) (piece_size (fragment_capacity r) (length (post_bytes p)) n)
    (slot_bytes (filled_slot (post_fragment (ra_mtu r) p j) (fragment_capacity r) (slots r ! i))) =
    payload (post_fragment (ra_mtu r) p n)"
proof -
  let ?s = "slots r ! i" and ?cap = "fragment_capacity r" and ?f = "post_fragment (ra_mtu r) p j"
  have m: "is_supported_mtu (ra_mtu r)" and cap: "?cap = frame_payload_capacity (ra_mtu r)"
    and sok: "slot_ok ?cap ?s"
    using reassembler_okD [OF collectingD(1) [OF c]] collectingD(2) [OF c] by blast+
  have f: "frame_ok (ra_mtu r) ?f" by (rule post_fragment_ok [OF p m j])
  have cons: "slot_consistent ?cap ?s" using sok c by (simp add: slot_ok_used collecting_def)
  note sz = post_sizes [OF p m]
  have ji: "unat (fragment_index ?f) = j" using j sz(5) by (simp add: unat_small_byte)
  have size: "piece_size ?cap (length (post_bytes p)) j = length (payload ?f)"
    using frame_ok_geometry(7) [OF f, unfolded ji] sz(3) unfolding piece_size_def cap by simp
  show ?thesis
  proof (cases "n = j")
    case True
    then show ?thesis using filled_slot_payload [OF cons f cap] size ji by simp
  next
    case False
    then have got: "n \<in> got" using n by simp
    then have nc: "n < post_count (ra_mtu r) p" using collecting_sub c p by blast
    have pos: "0 < ?cap" "0 < length (post_bytes p)" using payload_capacity_bounds [OF m] cap sz(1) by auto
    have inside: "k * ?cap + piece_size ?cap (length (post_bytes p)) k \<le> 316"
      if "k < post_count (ra_mtu r) p" for k
      using piece_inside [OF pos(1) _ pos(2), of k] that sz(2) cap by (simp add: post_count_def)
    have apart: "n * ?cap + piece_size ?cap (length (post_bytes p)) n \<le> j * ?cap \<or>
        j * ?cap + length (payload ?f) \<le> n * ?cap"
    proof (cases "n < j")
      case True
      then have "n * ?cap + ?cap \<le> j * ?cap" using mult_le_mono1 [of "Suc n" j ?cap] by simp
      then show ?thesis using piece_le [of ?cap "length (post_bytes p)" n] by linarith
    next
      case False
      then have "j * ?cap + ?cap \<le> n * ?cap" using mult_le_mono1 [of "Suc j" n ?cap] \<open>n \<noteq> j\<close> by simp
      then show ?thesis using piece_le [of ?cap "length (post_bytes p)" j] unfolding size [symmetric] by linarith
    qed
    have "slice (n * ?cap) (piece_size ?cap (length (post_bytes p)) n) (slot_bytes (filled_slot ?f ?cap ?s)) =
        slice (n * ?cap) (piece_size ?cap (length (post_bytes p)) n) (slot_bytes ?s)"
      unfolding filled_slot_def ji
      using cons apart inside [OF nc] inside [OF j] size
      by (simp add: slice_copy_at_disjoint slot_consistent_def del: post_fragment_fields)
    then show ?thesis using c got by (simp add: collecting_def)
  qed
qed

definition completed_as :: "nat \<Rightarrow> post_payload \<Rightarrow> reassembly_result" where
  "completed_as mtu p =
     (Complete, Some \<lparr>completed_payload = p, canonical_post = post_bytes p,
        canonical_frames = map frame_layout (fragment_frames p mtu)\<rparr>)"

text \<open>All pieces in place: the slot holds the encoded post.\<close>

lemma all_pieces:
  assumes "0 < capacity" "0 < length xs" "length xs \<le> length buffer"
    and "\<And>n. n < fragments_of capacity (length xs) \<Longrightarrow>
      slice (n * capacity) (piece_size capacity (length xs) n) buffer =
      slice (n * capacity) (piece_size capacity (length xs) n) xs"
  shows "take (length xs) buffer = xs"
proof -
  have "chunk capacity (take (length xs) buffer) n = chunk capacity xs n"
    if "n < fragments_of capacity (length xs)" for n
    using assms(4) [OF that] piece_inside [OF assms(1) that assms(2)] assms(3)
    by (simp add: chunk_def slice_take flip: piece_size_def)
  then have eq: "map (chunk capacity (take (length xs) buffer)) [0..<fragments_of capacity (length xs)] =
      map (chunk capacity xs) [0..<fragments_of capacity (length xs)]" by simp
  have "length (take (length xs) buffer) = length xs" using assms(3) by simp
  then have "take (length xs) buffer =
      concat (map (chunk capacity (take (length xs) buffer)) [0..<fragments_of capacity (length xs)])"
    using concat_all_chunks [of capacity "take (length xs) buffer"] assms(1,2) by metis
  also have "\<dots> = xs" unfolding eq by (rule concat_all_chunks [OF assms(1,2)])
  finally show ?thesis .
qed

lemma store_post_fragment:
  assumes c: "collecting p got d i r" and p: "post_ok p" and j: "j < post_count (ra_mtu r) p"
    and new: "j \<notin> got"
  defines "f \<equiv> post_fragment (ra_mtu r) p j"
  shows "insert j got = {..<post_count (ra_mtu r) p} \<Longrightarrow> fst (store_fragment f i r) = completed_as (ra_mtu r) p"
    "insert j got \<noteq> {..<post_count (ra_mtu r) p} \<Longrightarrow> fst (store_fragment f i r) = (FragmentAccepted, None) \<and>
       collecting p (insert j got) d i (snd (store_fragment f i r))"
    "insert j got = {..<post_count (ra_mtu r) p} \<Longrightarrow> snd (store_fragment f i r) = r\<lparr>slots := (slots r)[i := empty_slot]\<rparr>"
proof -
  let ?s = "slots r ! i" and ?cap = "fragment_capacity r"
  let ?s' = "filled_slot f ?cap ?s" and ?r = "r\<lparr>slots := (slots r)[i := filled_slot f ?cap ?s]\<rparr>"
  note cd = collectingD [OF c]
  note r = reassembler_okD [OF cd(1)]
  note sz = post_sizes [OF p r(1)]
  have f: "frame_ok (ra_mtu r) f" unfolding f_def by (rule post_fragment_ok [OF p r(1) j])
  have ji: "unat (fragment_index f) = j" using j sz(5) by (simp add: f_def unat_small_byte)
  have idx: "unat (fragment_index f) < 16" using ji j sz(5) by linarith
  have sf: "slot_for f ?s" using cd by (simp add: slot_for_def f_def)
  have cons: "slot_consistent ?cap ?s'"
    using r(4) [OF cd(2)] cd(4) f r(2) sf by (intro filled_slot_consistent) (simp_all add: slot_ok_used)
  have at: "slots ?r ! i = ?s'" using cd(2) r(3) by simp
  have bits: "bit (received_bitmap ?s') n \<longleftrightarrow> n \<in> insert j got" for n
    using bit_add_received [OF idx, of "received_bitmap ?s" n] cd(7) [of n] by (simp add: filled_slot_def ji)
  have cnt: "unat (fragment_count f) = post_count (ra_mtu r) p" using sz(6) by (simp add: f_def)
  have full: "received_bitmap ?s' = complete_mask (fragment_count f) \<longleftrightarrow> insert j got = {..<post_count (ra_mtu r) p}"
    using bitmap_complete_iff [of "fragment_count f" "received_bitmap ?s'"] bits cnt sz(5) by auto
  have nb: "\<not> bit (received_bitmap ?s) (unat (fragment_index f))" using new cd(7) ji by simp
  note pieces = filled_slot_pieces [OF c p j, folded f_def]
  {
    assume all: "insert j got = {..<post_count (ra_mtu r) p}"
    have pos: "0 < ?cap" "0 < length (post_bytes p)" using payload_capacity_bounds [OF r(1)] r(2) sz(1) by auto
    have "take (length (post_bytes p)) (slot_bytes ?s') = post_bytes p"
      using cons sz(2) pieces all
      by (intro all_pieces [OF pos]) (auto simp: slot_consistent_def post_count_def r(2))
    moreover have "unat (slot_total ?s') = length (post_bytes p)" using cd(9) sz(3) by simp
    ultimately have dec: "decode_post (Some (take (unat (slot_total (slots ?r ! i))) (slot_bytes (slots ?r ! i)))) = Inr p"
      unfolding at using decode_post_layout [OF p] by (simp add: post_bytes_def)
    have "received_bitmap ?s' = complete_mask (slot_count ?s')" using full all sf by (simp add: slot_for_def)
    with complete_slot_Complete [of ?r i, OF _ _ _ _ dec] cons r(1,2) cd(5)
    have "complete_slot i ?r = (completed_as (ra_mtu r) p, ?r\<lparr>slots := (slots ?r)[i := empty_slot]\<rparr>)"
      unfolding at by (simp add: completed_as_def)
    then show "fst (store_fragment f i r) = completed_as (ra_mtu r) p"
      "snd (store_fragment f i r) = r\<lparr>slots := (slots r)[i := empty_slot]\<rparr>"
      unfolding store_fragment_alt [OF idx] Let_def using nb full all by simp_all
  }
  {
    assume part: "insert j got \<noteq> {..<post_count (ra_mtu r) p}"
    then have st: "store_fragment f i r = ((FragmentAccepted, None), ?r)"
      unfolding store_fragment_alt [OF idx] Let_def using nb full by simp
    have "reassembler_ok ?r" using store_fragment_ok [OF cd(1,2) f sf] st by simp
    then have "collecting p (insert j got) d i ?r"
      using cd bits pieces unfolding collecting_def at by (simp add: quarantine_keys_def del: post_fragment_fields(5))
    with st show "fst (store_fragment f i r) = (FragmentAccepted, None) \<and>
       collecting p (insert j got) d i (snd (store_fragment f i r))" by simp
  }
qed

lemma store_duplicate:
  assumes c: "collecting p got d i r" and p: "post_ok p" and j: "j < post_count (ra_mtu r) p" and old: "j \<in> got"
  shows "store_fragment (post_fragment (ra_mtu r) p j) i r = ((DuplicateFragment, None), r)"
proof -
  let ?f = "post_fragment (ra_mtu r) p j"
  note cd = collectingD [OF c]
  note r = reassembler_okD [OF cd(1)]
  have f: "frame_ok (ra_mtu r) ?f" by (rule post_fragment_ok [OF p r(1) j])
  have ji: "unat (fragment_index ?f) = j" using j post_sizes(5) [OF p r(1)] by (simp add: unat_small_byte)
  have idx: "unat (fragment_index ?f) < 16" using frame_ok_geometry(4,5) [OF f] by linarith
  have size: "length (payload ?f) = piece_size (fragment_capacity r) (length (post_bytes p)) j"
    using frame_ok_geometry(7) [OF f, unfolded ji] post_sizes(3) [OF p r(1)] unfolding piece_size_def r(2)
    by (simp del: post_fragment_fields(5))
  have "slice (j * fragment_capacity r) (length (payload ?f)) (slot_bytes (slots r ! i)) = payload ?f"
    unfolding size using c old unfolding collecting_def by blast
  moreover have "unat (fragment_lengths (slots r ! i) ! j) = length (payload ?f)"
    using r(4) [OF cd(2)] cd(4,7,9) old post_sizes(3) [OF p r(1)] unfolding size by (auto simp: slot_ok_def)
  moreover have "bit (received_bitmap (slots r ! i)) j" using cd(7) old by blast
  ultimately show ?thesis unfolding store_fragment_alt [OF idx] Let_def ji by simp
qed

lemma accept_post_fragment:
  assumes c: "collecting p got d i r" and p: "post_ok p" and j: "j < post_count (ra_mtu r) p" and tick: "tick < d"
  defines "f \<equiv> post_fragment (ra_mtu r) p j"
  shows "j \<notin> got \<Longrightarrow> insert j got = {..<post_count (ra_mtu r) p} \<Longrightarrow>
      fst (reassembler_accept f tick r) = completed_as (ra_mtu r) p"
    "j \<in> got \<or> insert j got \<noteq> {..<post_count (ra_mtu r) p} \<Longrightarrow>
      collecting p (insert j got) d i (snd (reassembler_accept f tick r))"
    "j \<notin> got \<Longrightarrow> insert j got \<noteq> {..<post_count (ra_mtu r) p} \<Longrightarrow>
      fst (reassembler_accept f tick r) = (FragmentAccepted, None)"
proof -
  define r1 where "r1 = snd (reassembler_expire tick r)"
  have mtu: "ra_mtu r1 = ra_mtu r" by (simp add: r1_def)
  have c1: "collecting p got d i r1" unfolding r1_def by (rule expire_collecting [OF c tick])
  note cd = collectingD [OF c1]
  note r = reassembler_okD [OF cd(1)]
  have f: "frame_ok (ra_mtu r1) f" unfolding f_def mtu using r(1) by (intro post_fragment_ok [OF p _ j]) (simp add: mtu)
  have key: "frame_key f = post_key p" by (simp add: f_def)
  have sf: "slot_for f (slots r1 ! i)" using cd by (simp add: slot_for_def f_def mtu)
  have acc: "reassembler_accept f tick r = store_fragment f i r1"
    using frame_rejected_iff [OF cd(1), of f] f frame_ok_geometry(12) [OF f] cd(2,3) r(3) sf key
      collecting_index [OF c1 key]
    unfolding accept_alt Let_def r1_def [symmetric] by simp
  note st = store_post_fragment [OF c1 p, of j, unfolded mtu, folded f_def]
  show "j \<notin> got \<Longrightarrow> insert j got = {..<post_count (ra_mtu r) p} \<Longrightarrow>
      fst (reassembler_accept f tick r) = completed_as (ra_mtu r) p"
    unfolding acc using st(1) j by simp
  show "j \<notin> got \<Longrightarrow> insert j got \<noteq> {..<post_count (ra_mtu r) p} \<Longrightarrow>
      fst (reassembler_accept f tick r) = (FragmentAccepted, None)"
    unfolding acc using st(2) j by simp
  show "collecting p (insert j got) d i (snd (reassembler_accept f tick r))"
    if "j \<in> got \<or> insert j got \<noteq> {..<post_count (ra_mtu r) p}"
  proof (cases "j \<in> got")
    case False
    with that st(2) j show ?thesis unfolding acc by simp
  next
    case True
    then have "snd (store_fragment f i r1) = r1" using store_duplicate [OF c1 p, of j] j by (simp add: f_def mtu)
    then show ?thesis unfolding acc using c1 True by (simp add: insert_absorb)
  qed
qed

text \<open>Frames of other messages leave the slot alone.\<close>

lemma reset_frame:
  "i \<noteq> k \<Longrightarrow> slots (reset_and_quarantine k t s d r) ! i = slots r ! i"
  "ra_mtu (reset_and_quarantine k t s d r) = ra_mtu r"
  "fragment_capacity (reset_and_quarantine k t s d r) = fragment_capacity r"
  "set (quarantine_keys (reset_and_quarantine k t s d r)) \<subseteq> insert (t, s) (set (quarantine_keys r))"
  using quarantine_keys_sub(1) [of t s d "r\<lparr>slots := (slots r)[k := empty_slot]\<rparr>"]
  by (simp_all add: reset_and_quarantine_def quarantine_keys_def)

lemma complete_slot_frame:
  "i \<noteq> k \<Longrightarrow> slots (snd (complete_slot k r)) ! i = slots r ! i"
  "set (quarantine_keys (snd (complete_slot k r))) \<subseteq> insert (slot_key (slots r ! k)) (set (quarantine_keys r))"
proof -
  show "set (quarantine_keys (snd (complete_slot k r))) \<subseteq> insert (slot_key (slots r ! k)) (set (quarantine_keys r))"
    using complete_slot_quarantine [of k r]
  proof
    assume "snd (complete_slot k r) = r\<lparr>slots := (slots r)[k := empty_slot]\<rparr>"
    then show ?thesis by (simp add: quarantine_keys_def subset_insertI)
  qed (simp add: slot_key_def reset_frame(4))
qed simp

lemma store_fragment_frame:
  assumes "i \<noteq> k" "k < length (slots r)" "slot_for f (slots r ! k)" "unat (fragment_index f) < 16"
  shows "slots (snd (store_fragment f k r)) ! i = slots r ! i"
    "ra_mtu (snd (store_fragment f k r)) = ra_mtu r"
    "fragment_capacity (snd (store_fragment f k r)) = fragment_capacity r"
    "set (quarantine_keys (snd (store_fragment f k r))) \<subseteq> insert (frame_key f) (set (quarantine_keys r))"
proof -
  let ?r = "r\<lparr>slots := (slots r)[k := filled_slot f (fragment_capacity r) (slots r ! k)]\<rparr>"
  have q: "quarantine_keys ?r = quarantine_keys r" by (simp add: quarantine_keys_def)
  have key: "slot_key (slots ?r ! k) = frame_key f" using assms(2,3) by (simp add: slot_for_def)
  note c = complete_slot_frame(1) [of i k ?r] complete_slot_frame(2) [of k ?r, unfolded q key]
  show "slots (snd (store_fragment f k r)) ! i = slots r ! i"
    "ra_mtu (snd (store_fragment f k r)) = ra_mtu r"
    "fragment_capacity (snd (store_fragment f k r)) = fragment_capacity r"
    using c(1) assms(1) unfolding store_fragment_alt [OF assms(4)] Let_def by (simp_all add: reset_frame)
  show "set (quarantine_keys (snd (store_fragment f k r))) \<subseteq> insert (frame_key f) (set (quarantine_keys r))"
    using c(2) reset_frame(4) [of k "tag f" "frame_sequence f" "slot_deadline (slots r ! k)" r] q
    unfolding store_fragment_alt [OF assms(4)] Let_def frame_key_def
    by (simp add: subset_insertI)
qed

lemma accept_other:
  assumes c: "collecting p got d i r" and tick: "tick < d" and key: "frame_key f \<noteq> post_key p"
    and t: "length (tag f) = 8"
  shows "collecting p got d i (snd (reassembler_accept f tick r))"
proof -
  define r1 where "r1 = snd (reassembler_expire tick r)"
  define r2 where "r2 = snd (reassembler_accept f tick r)"
  have c1: "collecting p got d i r1" unfolding r1_def by (rule expire_collecting [OF c tick])
  note cd = collectingD [OF c1]
  note r = reassembler_okD [OF cd(1)]
  let ?i = "find_index (slot_matches f) (slots r1)" and ?k = "find_index (\<lambda>s. \<not> used s) (slots r1)"
  have ni: "i \<noteq> ?i" if "?i < 8" using find_index_found [of "slot_matches f" "slots r1"] that r(3) cd(5) key
    by (auto simp: slot_matches_key)
  have nk: "i \<noteq> ?k" and free: "\<not> used (slots r1 ! ?k)" if "?k < 8"
    using find_index_found [of "\<lambda>s. \<not> used s" "slots r1"] that r(3) cd(4) by auto
  have fok: "frame_ok (ra_mtu r1) f" if "\<not> frame_rejected f r1" using frame_rejected_iff [OF cd(1) t] that by simp
  have idx: "unat (fragment_index f) < 16" if "\<not> frame_rejected f r1"
    using frame_ok_geometry(4,5) [OF fok [OF that]] by linarith
  have same: "slots r2 ! i = slots r1 ! i \<and> ra_mtu r2 = ra_mtu r1 \<and> fragment_capacity r2 = fragment_capacity r1 \<and>
      set (quarantine_keys r2) \<subseteq> insert (frame_key f) (set (quarantine_keys r1))"
  proof -
    have old: ?thesis if "\<not> frame_rejected f r1" "?i < 8" "slot_for f (slots r1 ! ?i)" "r2 = snd (store_fragment f ?i r1)"
      using store_fragment_frame [OF ni [OF that(2)] _ that(3) idx [OF that(1)]] that r(3) by simp
    have res: ?thesis if "?i < 8" "r2 = reset_and_quarantine ?i (tag f) (frame_sequence f) dd r1" for dd
      using reset_frame(1) [OF ni [OF that(1)]] reset_frame(4) [of ?i "tag f" "frame_sequence f" dd r1] that(2)
      by (simp add: frame_key_def reset_frame(2,3))
    have new: ?thesis if "\<not> frame_rejected f r1" "\<not> ?i < 8" "?k < 8" "r2 = snd (store_fragment f ?k (allocate f tick ?k r1))"
    proof -
      have "\<forall>s \<in> set (slots r1). \<not> slot_matches f s"
        using that(2) r(3) find_index_lt_iff [of "slot_matches f" "slots r1"] by simp
      note a = allocate_ok [OF cd(1) fok [OF that(1)] that(3) free [OF that(3)] this]
      show ?thesis
        using store_fragment_frame [OF nk [OF that(3)] _ a(2) idx [OF that(1)]] a nk [OF that(3)] that(3,4) r(3) by simp
    qed
    show ?thesis
      using old res new r2_def unfolding accept_alt Let_def r1_def [symmetric] r(3)
      by (auto simp: subset_insertI split: if_splits)
  qed
  have "reassembler_ok r2" unfolding r2_def using accept_ok [OF collectingD(1) [OF c] t] .
  then show ?thesis
    using c1 same key unfolding r2_def [symmetric] collecting_def by auto
qed

text \<open>The first fragment of a message finds a free slot.\<close>

lemma accept_allocates:
  fixes tick :: u64
  assumes ok: "reassembler_ok r" and p: "post_ok p" and j: "j < post_count (ra_mtu r) p"
  defines "f \<equiv> post_fragment (ra_mtu r) p j" and "d \<equiv> saturating_deadline tick kReassemblyTimeoutTicks"
    and "r1 \<equiv> snd (reassembler_expire tick r)"
  assumes q: "post_key p \<notin> set (quarantine_keys r1)" and free: "\<exists>s \<in> set (slots r1). \<not> used s"
    and fresh: "\<forall>s \<in> set (slots r1). used s \<longrightarrow> slot_key s \<noteq> post_key p"
  obtains k where "reassembler_accept f tick r = store_fragment f k (allocate f tick k r1)"
    "collecting p {} d k (allocate f tick k r1)" "ra_mtu (allocate f tick k r1) = ra_mtu r"
    "slots (allocate f tick k r1) = (slots r1)[k := allocated f tick empty_slot]"
proof -
  have ok1: "reassembler_ok r1" unfolding r1_def by (rule expire_ok [OF ok])
  note r = reassembler_okD [OF ok1]
  have mtu: "ra_mtu r1 = ra_mtu r" by (simp add: r1_def)
  have key: "frame_key f = post_key p" by (simp add: f_def)
  let ?i = "find_index (slot_matches f) (slots r1)" and ?k = "find_index (\<lambda>s. \<not> used s) (slots r1)"
  have f: "frame_ok (ra_mtu r1) f" unfolding f_def mtu using r(1) by (intro post_fragment_ok [OF p _ j]) (simp add: mtu)
  have nomatch: "\<forall>s \<in> set (slots r1). \<not> slot_matches f s"
    using fresh key by (auto simp: slot_matches_key)
  then have ni: "\<not> ?i < length (slots r1)" by (simp add: find_index_lt_iff)
  have k: "?k < length (slots r1)" unfolding find_index_lt_iff using free by blast
  then have k8: "?k < 8" using r(3) by simp
  have nu: "\<not> used (slots r1 ! ?k)" using find_index_found [OF k] .
  have acc: "reassembler_accept f tick r = store_fragment f ?k (allocate f tick ?k r1)"
    using frame_rejected_iff [OF ok1, of f] f frame_ok_geometry(12) [OF f] q key ni k
    unfolding accept_alt Let_def r1_def [symmetric] by simp
  note a = allocate_ok [OF ok1 f k8 nu nomatch, of tick]
  have at: "slots (allocate f tick ?k r1) ! ?k = allocated f tick empty_slot" using a(5) k by simp
  have "collecting p {} d ?k (allocate f tick ?k r1)"
    unfolding collecting_def at using a k8 q key
    by (simp add: allocated_def empty_slot_def d_def f_def mtu slot_key_def frame_key_def post_key_def)
  then show ?thesis using that [OF acc] a(3,5) mtu by simp
qed

lemma accept_first:
  fixes tick :: u64
  assumes ok: "reassembler_ok r" and p: "post_ok p" and j: "j < post_count (ra_mtu r) p"
    and q: "post_key p \<notin> set (quarantine_keys r)" and free: "\<exists>s \<in> set (slots r). \<not> used s"
    and fresh: "\<forall>s \<in> set (slots r). used s \<longrightarrow> slot_key s \<noteq> post_key p"
  defines "f \<equiv> post_fragment (ra_mtu r) p j" and "d \<equiv> saturating_deadline tick kReassemblyTimeoutTicks"
  shows "{j} = {..<post_count (ra_mtu r) p} \<Longrightarrow> fst (reassembler_accept f tick r) = completed_as (ra_mtu r) p"
    "{j} \<noteq> {..<post_count (ra_mtu r) p} \<Longrightarrow> \<exists>i. collecting p {j} d i (snd (reassembler_accept f tick r))"
    "{j} \<noteq> {..<post_count (ra_mtu r) p} \<Longrightarrow> fst (reassembler_accept f tick r) = (FragmentAccepted, None)"
proof -
  let ?r1 = "snd (reassembler_expire tick r)"
  have slots1: "slots ?r1 = map (\<lambda>s. if slot_expired tick s then empty_slot else s) (slots r)"
    by (simp add: reassembler_expire_def)
  have "set (quarantine_keys ?r1) \<subseteq> set (quarantine_keys r)"
    by (auto simp: reassembler_expire_def quarantine_keys_def purge_quarantine_def)
  then have q1: "post_key p \<notin> set (quarantine_keys ?r1)" using q by blast
  have free1: "\<exists>s \<in> set (slots ?r1). \<not> used s" unfolding slots1 using free by (force simp: slot_expired_def)
  have fresh1: "\<forall>s \<in> set (slots ?r1). used s \<longrightarrow> slot_key s \<noteq> post_key p" unfolding slots1 using fresh by auto
  obtain k where k: "reassembler_accept f tick r = store_fragment f k (allocate f tick k ?r1)"
    "collecting p {} d k (allocate f tick k ?r1)" "ra_mtu (allocate f tick k ?r1) = ra_mtu r"
    unfolding f_def d_def by (rule accept_allocates [OF ok p j q1 free1 fresh1])
  note st = store_post_fragment [OF k(2) p, of j, unfolded k(3), folded f_def]
  show "{j} = {..<post_count (ra_mtu r) p} \<Longrightarrow> fst (reassembler_accept f tick r) = completed_as (ra_mtu r) p"
    "{j} \<noteq> {..<post_count (ra_mtu r) p} \<Longrightarrow> \<exists>i. collecting p {j} d i (snd (reassembler_accept f tick r))"
    "{j} \<noteq> {..<post_count (ra_mtu r) p} \<Longrightarrow> fst (reassembler_accept f tick r) = (FragmentAccepted, None)"
    unfolding k(1) using st j by auto
qed

section \<open>Fragments of one post only\<close>

text \<open>Every slot in use holds fragments of \<open>p\<close>. This is kept by every fragment of \<open>p\<close>, at any tick, and then nothing but \<open>p\<close> is completed.\<close>

definition only_holds :: "post_payload \<Rightarrow> reassembler \<Rightarrow> bool" where
  "only_holds p r \<longleftrightarrow> reassembler_ok r \<and> post_key p \<notin> set (quarantine_keys r) \<and>
     (\<forall>i < 8. used (slots r ! i) \<longrightarrow> (\<exists>got d. collecting p got d i r))"

lemma only_holds_single:
  assumes "only_holds p r" "i < 8" "k < 8" "used (slots r ! i)" "used (slots r ! k)"
  shows "i = k"
proof -
  have "slot_key (slots r ! i) = post_key p" "slot_key (slots r ! k) = post_key p"
    using assms collectingD(5) unfolding only_holds_def by blast+
  then show ?thesis using reassembler_okD(5) [of r i k] assms by (simp add: only_holds_def)
qed

lemma expire_only_holds:
  assumes "only_holds p r"
  shows "only_holds p (snd (reassembler_expire tick r))"
proof -
  let ?r = "snd (reassembler_expire tick r)"
  have ok: "reassembler_ok r" using assms by (simp add: only_holds_def)
  have "set (quarantine_keys ?r) \<subseteq> set (quarantine_keys r)"
    by (auto simp: reassembler_expire_def quarantine_keys_def purge_quarantine_def)
  moreover have "\<exists>got d. collecting p got d i ?r" if i: "i < 8" "used (slots ?r ! i)" for i
  proof -
    have len: "i < length (slots r)" using i reassembler_okD(3) [OF ok] by simp
    have live: "used (slots r ! i)" "\<not> slot_expired tick (slots r ! i)"
      using i(2) len by (auto simp: reassembler_expire_def empty_slot_def split: if_splits)
    then obtain got d where c: "collecting p got d i r" using assms i(1) by (auto simp: only_holds_def)
    have "tick < d" using live collectingD(6) [OF c] by (simp add: slot_expired_def deadline_reached_def)
    then show ?thesis using expire_collecting [OF c] by blast
  qed
  ultimately show ?thesis using assms expire_ok [OF ok] unfolding only_holds_def by blast
qed

lemma store_only_holds:
  assumes c: "collecting p got d i r" and p: "post_ok p" and j: "j < post_count (ra_mtu r) p"
    and others: "\<forall>k < 8. k \<noteq> i \<longrightarrow> \<not> used (slots r ! k)"
  defines "f \<equiv> post_fragment (ra_mtu r) p j"
  shows "snd (fst (store_fragment f i r)) = None \<or> fst (store_fragment f i r) = completed_as (ra_mtu r) p"
    "only_holds p (snd (store_fragment f i r))"
proof -
  note cd = collectingD [OF c]
  note r = reassembler_okD [OF cd(1)]
  note st = store_post_fragment [OF c p j, folded f_def]
  have f: "frame_ok (ra_mtu r) f" unfolding f_def by (rule post_fragment_ok [OF p r(1) j])
  have idx: "unat (fragment_index f) < 16" using frame_ok_geometry(4,5) [OF f] by linarith
  have sf: "slot_for f (slots r ! i)" using cd by (simp add: slot_for_def f_def)
  have ok: "reassembler_ok (snd (store_fragment f i r))" by (rule store_fragment_ok [OF cd(1,2) f sf])
  consider (old) "j \<in> got" | (last) "j \<notin> got" "insert j got = {..<post_count (ra_mtu r) p}"
    | (new) "j \<notin> got" "insert j got \<noteq> {..<post_count (ra_mtu r) p}" by blast
  then have "(snd (fst (store_fragment f i r)) = None \<or> fst (store_fragment f i r) = completed_as (ra_mtu r) p) \<and>
    only_holds p (snd (store_fragment f i r))"
  proof cases
    case old
    then have "store_fragment f i r = ((DuplicateFragment, None), r)" unfolding f_def by (rule store_duplicate [OF c p j])
    then show ?thesis using c cd others by (auto simp: only_holds_def)
  next
    case last
    then have "snd (store_fragment f i r) = r\<lparr>slots := (slots r)[i := empty_slot]\<rparr>" by (intro st(3))
    moreover have "\<not> used ((slots r)[i := empty_slot] ! k)" if "k < 8" for k
      using others that r(3) cd(2) by (cases "k = i") (simp_all add: empty_slot_def)
    ultimately show ?thesis using st(1) [OF last] ok cd(3) by (auto simp: only_holds_def quarantine_keys_def)
  next
    case new
    then have s: "fst (store_fragment f i r) = (FragmentAccepted, None)" "collecting p (insert j got) d i (snd (store_fragment f i r))"
      using st(2) by blast+
    have "\<not> used (slots (snd (store_fragment f i r)) ! k)" if "k < 8" "k \<noteq> i" for k
      using store_fragment_frame(1) [OF that(2) _ sf idx] others that r(3) cd(2) by simp
    then have "\<exists>got d. collecting p got d k (snd (store_fragment f i r))" if "k < 8" "used (slots (snd (store_fragment f i r)) ! k)" for k
      using that s(2) by (cases "k = i") auto
    then show ?thesis using s ok collectingD(3) [OF s(2)] by (simp add: only_holds_def)
  qed
  then show "snd (fst (store_fragment f i r)) = None \<or> fst (store_fragment f i r) = completed_as (ra_mtu r) p"
    "only_holds p (snd (store_fragment f i r))" by blast+
qed

lemma accept_only_holds:
  assumes h: "only_holds p r" and p: "post_ok p" and j: "j < post_count (ra_mtu r) p"
  defines "f \<equiv> post_fragment (ra_mtu r) p j"
  shows "snd (fst (reassembler_accept f tick r)) = None \<or> fst (reassembler_accept f tick r) = completed_as (ra_mtu r) p"
    "only_holds p (snd (reassembler_accept f tick r))"
proof -
  define r1 where "r1 = snd (reassembler_expire tick r)"
  have h1: "only_holds p r1" unfolding r1_def by (rule expire_only_holds [OF h])
  have ok: "reassembler_ok r" "reassembler_ok r1" and q1: "post_key p \<notin> set (quarantine_keys r1)"
    using h h1 by (simp_all add: only_holds_def)
  note r = reassembler_okD [OF ok(2)]
  have mtu: "ra_mtu r1 = ra_mtu r" by (simp add: r1_def)
  have key: "frame_key f = post_key p" by (simp add: f_def)
  have f: "frame_ok (ra_mtu r1) f" unfolding f_def mtu using r(1) by (intro post_fragment_ok [OF p _ j]) (simp add: mtu)
  have "\<exists>got d k r2. reassembler_accept f tick r = store_fragment f k r2 \<and> collecting p got d k r2 \<and> ra_mtu r2 = ra_mtu r \<and>
    (\<forall>i < 8. i \<noteq> k \<longrightarrow> \<not> used (slots r2 ! i))"
  proof (cases "\<exists>i < 8. used (slots r1 ! i)")
    case True
    then obtain i got d where i: "i < 8" "used (slots r1 ! i)" "collecting p got d i r1" using h1 unfolding only_holds_def by blast
    have sf: "slot_for f (slots r1 ! i)" using collectingD [OF i(3)] by (simp add: slot_for_def f_def mtu)
    have "reassembler_accept f tick r = store_fragment f i r1"
      using frame_rejected_iff [OF ok(2), of f] f frame_ok_geometry(12) [OF f] i(1) q1 r(3) sf key collecting_index [OF i(3) key]
      unfolding accept_alt Let_def r1_def [symmetric] by simp
    then show ?thesis using i(3) mtu only_holds_single [OF h1 _ i(1) _ i(2)] by blast
  next
    case False
    then have none: "\<forall>s \<in> set (slots r1). \<not> used s" using r(3) by (auto simp: in_set_conv_nth)
    moreover have "slots r1 ! 0 \<in> set (slots r1)" using r(3) by simp
    ultimately have "\<exists>s \<in> set (slots r1). \<not> used s" "\<forall>s \<in> set (slots r1). used s \<longrightarrow> slot_key s \<noteq> post_key p" by blast+
    from accept_allocates [OF ok(1) p j q1 [unfolded r1_def] this [unfolded r1_def], folded f_def r1_def]
    obtain k where k: "reassembler_accept f tick r = store_fragment f k (allocate f tick k r1)"
      "collecting p {} (saturating_deadline tick kReassemblyTimeoutTicks) k (allocate f tick k r1)"
      "ra_mtu (allocate f tick k r1) = ra_mtu r" "slots (allocate f tick k r1) = (slots r1)[k := allocated f tick empty_slot]" .
    have "\<forall>i < 8. i \<noteq> k \<longrightarrow> \<not> used (slots (allocate f tick k r1) ! i)" using False unfolding k(4) by simp
    then show ?thesis using k(1-3) by blast
  qed
  then obtain got d k r2 where k: "reassembler_accept f tick r = store_fragment f k r2" "collecting p got d k r2" "ra_mtu r2 = ra_mtu r"
    "\<forall>i < 8. i \<noteq> k \<longrightarrow> \<not> used (slots r2 ! i)" by blast
  note s = store_only_holds [OF k(2) p, of j, unfolded k(3), OF j k(4), folded f_def]
  show "snd (fst (reassembler_accept f tick r)) = None \<or> fst (reassembler_accept f tick r) = completed_as (ra_mtu r) p"
    "only_holds p (snd (reassembler_accept f tick r))" unfolding k(1) by (fact s)+
qed

text \<open>The fragments with the indices \<open>got\<close> have arrived, and the slot that holds them, if there is one, lives until \<open>D\<close> at least.\<close>

definition gathering :: "post_payload \<Rightarrow> nat set \<Rightarrow> u64 \<Rightarrow> reassembler \<Rightarrow> bool" where
  "gathering p got D r \<longleftrightarrow>
     (if got = {} then reassembler_ok r \<and> post_key p \<notin> set (quarantine_keys r) \<and> (\<forall>s \<in> set (slots r). \<not> used s)
      else \<exists>d i. D \<le> d \<and> collecting p got d i r)"

lemma gathering_new: "is_supported_mtu mtu \<Longrightarrow> gathering p {} D (reassembler_new mtu)"
  by (simp add: gathering_def new_ok) (simp add: reassembler_new_def quarantine_keys_def empty_slot_def)

lemma gathering_sub: "gathering p got D r \<Longrightarrow> post_ok p \<Longrightarrow> got \<subseteq> {..<post_count (ra_mtu r) p}"
  using collecting_sub by (fastforce simp: gathering_def split: if_splits)

lemma expire_gathering:
  assumes "gathering p got D r" "tick < D"
  shows "gathering p got D (snd (reassembler_expire tick r))"
proof (cases "got = {}")
  case True
  then have g: "reassembler_ok r" "post_key p \<notin> set (quarantine_keys r)" "\<forall>s \<in> set (slots r). \<not> used s"
    using assms(1) by (simp_all add: gathering_def)
  have "only_holds p r" using g reassembler_okD(3) [OF g(1)] by (simp add: only_holds_def)
  then have "only_holds p (snd (reassembler_expire tick r))" by (rule expire_only_holds)
  then show ?thesis using True g(3) by (auto simp: gathering_def only_holds_def reassembler_expire_def empty_slot_def)
next
  case False
  then obtain d i where c: "D \<le> d" "collecting p got d i r" using assms(1) by (auto simp: gathering_def)
  have "tick < d" using assms(2) c(1) by simp
  then show ?thesis using False c(1) expire_collecting [OF c(2)] by (auto simp: gathering_def)
qed

lemma accept_gathering:
  assumes g: "gathering p got D r" and p: "post_ok p" and j: "j < post_count (ra_mtu r) p"
    and tick: "tick < D" "D \<le> saturating_deadline tick kReassemblyTimeoutTicks"
  defines "f \<equiv> post_fragment (ra_mtu r) p j"
  shows "j \<notin> got \<Longrightarrow> insert j got = {..<post_count (ra_mtu r) p} \<Longrightarrow> fst (reassembler_accept f tick r) = completed_as (ra_mtu r) p"
    "j \<in> got \<or> insert j got \<noteq> {..<post_count (ra_mtu r) p} \<Longrightarrow> gathering p (insert j got) D (snd (reassembler_accept f tick r))"
proof -
  have "(j \<notin> got \<longrightarrow> insert j got = {..<post_count (ra_mtu r) p} \<longrightarrow> fst (reassembler_accept f tick r) = completed_as (ra_mtu r) p) \<and>
    (j \<in> got \<or> insert j got \<noteq> {..<post_count (ra_mtu r) p} \<longrightarrow> gathering p (insert j got) D (snd (reassembler_accept f tick r)))"
  proof (cases "got = {}")
    case True
    then have g: "reassembler_ok r" "post_key p \<notin> set (quarantine_keys r)" "\<forall>s \<in> set (slots r). \<not> used s"
      using g by (simp_all add: gathering_def)
    have "slots r ! 0 \<in> set (slots r)" using reassembler_okD(3) [OF g(1)] by simp
    then have "\<exists>s \<in> set (slots r). \<not> used s" "\<forall>s \<in> set (slots r). used s \<longrightarrow> slot_key s \<noteq> post_key p" using g(3) by blast+
    note first = accept_first [OF g(1) p j g(2) this, of tick, folded f_def]
    then show ?thesis using True tick(2) by (auto simp: gathering_def)
  next
    case False
    then obtain d i where c: "D \<le> d" "collecting p got d i r" using g by (auto simp: gathering_def)
    have "tick < d" using tick(1) c(1) by simp
    note acc = accept_post_fragment [OF c(2) p j this, folded f_def]
    show ?thesis using acc(1,2) c(1) by (auto simp: gathering_def)
  qed
  then show "j \<notin> got \<Longrightarrow> insert j got = {..<post_count (ra_mtu r) p} \<Longrightarrow> fst (reassembler_accept f tick r) = completed_as (ra_mtu r) p"
    "j \<in> got \<or> insert j got \<noteq> {..<post_count (ra_mtu r) p} \<Longrightarrow> gathering p (insert j got) D (snd (reassembler_accept f tick r))" by blast+
qed

section \<open>Sequences of frames\<close>

text \<open>The results of a sequence of frames with their arrival ticks.\<close>

fun accept_all :: "(data_frame \<times> u64) list \<Rightarrow> reassembler \<Rightarrow> reassembly_result list \<times> reassembler" where
  "accept_all [] r = ([], r)"
| "accept_all ((f, t) # events) r =
     (let (x, r) = reassembler_accept f t r; (xs, r) = accept_all events r in (x # xs, r))"

lemma accept_all_Cons:
  "fst (accept_all ((f, t) # events) r) =
     fst (reassembler_accept f t r) # fst (accept_all events (snd (reassembler_accept f t r)))"
  by (simp add: case_prod_unfold Let_def)

lemma collecting_mtu:
  "collecting p got d i (snd (reassembler_accept f t r)) \<Longrightarrow> ra_mtu (snd (reassembler_accept f t r)) = ra_mtu r"
  unfolding accept_alt Let_def by (auto simp: store_fragment_mtu allocate_def reset_frame Let_def)

definition relevant_events :: "post_payload \<Rightarrow> nat \<Rightarrow> u64 \<Rightarrow> (data_frame \<times> u64) list \<Rightarrow> bool" where
  "relevant_events p mtu deadline events \<longleftrightarrow>
     (\<forall>(f, t) \<in> set events. length (tag f) = 8 \<and> t < deadline \<and>
        (frame_key f = post_key p \<longrightarrow> f \<in> set (fragment_frames p mtu)))"

lemma fragment_in_frames:
  "f \<in> set (fragment_frames p mtu) \<longleftrightarrow> (\<exists>j < post_count mtu p. f = post_fragment mtu p j)"
  by (auto simp: fragment_frames_alt)

lemma post_fragment_inj:
  assumes "post_ok p" "is_supported_mtu mtu" "j < post_count mtu p" "k < post_count mtu p"
    "post_fragment mtu p j = post_fragment mtu p k"
  shows "j = k"
proof -
  have "of_nat j = (of_nat k :: byte)" using arg_cong [OF assms(5), of fragment_index] by simp
  then show ?thesis using post_sizes(5) [OF assms(1,2)] assms(3,4) unat_small_byte
    by (metis less_le_trans less_imp_le)
qed

lemma collecting_completes:
  assumes "collecting p got d i r" "post_ok p" "relevant_events p (ra_mtu r) d events"
    "got \<noteq> {..<post_count (ra_mtu r) p}"
    "\<And>j. j < post_count (ra_mtu r) p \<Longrightarrow> j \<in> got \<or> post_fragment (ra_mtu r) p j \<in> fst ` set events"
  shows "completed_as (ra_mtu r) p \<in> set (fst (accept_all events r))"
  using assms
proof (induction events arbitrary: got r)
  case Nil
  then have "got = {..<post_count (ra_mtu r) p}" using collecting_sub by fastforce
  then show ?case using Nil by blast
next
  case (Cons e events)
  obtain f t where e: "e = (f, t)" by (cases e)
  let ?r = "snd (reassembler_accept f t r)" and ?n = "post_count (ra_mtu r) p"
  have ev: "length (tag f) = 8" "t < d" "frame_key f = post_key p \<longrightarrow> f \<in> set (fragment_frames p (ra_mtu r))"
    "relevant_events p (ra_mtu r) d events"
    using Cons.prems(3) by (auto simp: relevant_events_def e)
  have m: "is_supported_mtu (ra_mtu r)" using reassembler_okD(1) [OF collectingD(1) [OF Cons.prems(1)]] .
  show ?case
  proof (cases "frame_key f = post_key p")
    case False
    have c: "collecting p got d i ?r" by (rule accept_other [OF Cons.prems(1) ev(2) False ev(1)])
    have "post_fragment (ra_mtu r) p j \<noteq> f" for j using False by auto
    then have "completed_as (ra_mtu r) p \<in> set (fst (accept_all events ?r))"
      using Cons.IH [OF c Cons.prems(2)] ev(4) Cons.prems(4,5) collecting_mtu [OF c] by (fastforce simp: e)
    then show ?thesis unfolding e accept_all_Cons by simp
  next
    case True
    then obtain j where j: "j < ?n" "f = post_fragment (ra_mtu r) p j" using ev(3) fragment_in_frames by blast
    note acc = accept_post_fragment [OF Cons.prems(1,2) j(1) ev(2), folded j(2)]
    show ?thesis
    proof (cases "j \<notin> got \<and> insert j got = {..<?n}")
      case True
      then show ?thesis using acc(1) unfolding e accept_all_Cons by simp
    next
      case False
      then have c: "collecting p (insert j got) d i ?r" using acc(2) by blast
      have "insert j got \<noteq> {..<?n}" using False Cons.prems(4) by (metis insert_absorb)
      moreover have "k \<in> insert j got \<or> post_fragment (ra_mtu r) p k \<in> fst ` set events" if "k < ?n" for k
      proof -
        have "k \<in> got \<or> post_fragment (ra_mtu r) p k = f \<or> post_fragment (ra_mtu r) p k \<in> fst ` set events"
          using Cons.prems(5) [OF that] by (simp add: e del: post_fragment_fields)
        then show ?thesis using post_fragment_inj [OF Cons.prems(2) m that j(1)] j(2) by blast
      qed
      ultimately have "completed_as (ra_mtu r) p \<in> set (fst (accept_all events ?r))"
        using Cons.IH [OF c Cons.prems(2)] ev(4) collecting_mtu [OF c] by simp
      then show ?thesis unfolding e accept_all_Cons by simp
    qed
  qed
qed

lemma reassembly_completes:
  assumes ok: "reassembler_ok r" and p: "post_ok p"
    and q: "post_key p \<notin> set (quarantine_keys r)" and free: "\<exists>s \<in> set (slots r). \<not> used s"
    and fresh: "\<forall>s \<in> set (slots r). used s \<longrightarrow> slot_key s \<noteq> post_key p"
    and ev: "relevant_events p (ra_mtu r) (saturating_deadline tick kReassemblyTimeoutTicks) ((f, tick) # events)"
    and f: "f \<in> set (fragment_frames p (ra_mtu r))"
    and all: "set (fragment_frames p (ra_mtu r)) \<subseteq> insert f (fst ` set events)"
  shows "completed_as (ra_mtu r) p \<in> set (fst (accept_all ((f, tick) # events) r))"
proof -
  let ?n = "post_count (ra_mtu r) p" and ?r = "snd (reassembler_accept f tick r)"
  have m: "is_supported_mtu (ra_mtu r)" using reassembler_okD(1) [OF ok] .
  obtain j where j: "j < ?n" "f = post_fragment (ra_mtu r) p j" using f fragment_in_frames by blast
  note first = accept_first [OF ok p j(1) q free fresh, folded j(2), of tick]
  show ?thesis
  proof (cases "{j} = {..<?n}")
    case True
    then show ?thesis using first(1) unfolding accept_all_Cons by simp
  next
    case False
    then obtain i where c: "collecting p {j} (saturating_deadline tick kReassemblyTimeoutTicks) i ?r"
      using first(2) by blast
    note mtu = collecting_mtu [OF c]
    have "relevant_events p (ra_mtu r) (saturating_deadline tick kReassemblyTimeoutTicks) events"
      using ev by (auto simp: relevant_events_def)
    moreover have "k \<in> {j} \<or> post_fragment (ra_mtu r) p k \<in> fst ` set events" if "k < ?n" for k
      using all fragment_in_frames [of "post_fragment (ra_mtu r) p k" p "ra_mtu r"] that
        post_fragment_inj [OF p m that j(1)] j(2) by blast
    ultimately show ?thesis
      using collecting_completes [OF c p] False unfolding accept_all_Cons mtu by simp
  qed
qed

section \<open>Properties\<close>

lemma new_slots: "slots (reassembler_new mtu) = replicate 8 empty_slot" "ra_mtu (reassembler_new mtu) = mtu"
  "quarantine_keys (reassembler_new mtu) = []"
  by (simp_all add: reassembler_new_def quarantine_keys_def)

lemma own_fragments_relevant:
  assumes "post_ok p" "is_supported_mtu mtu" "t < d"
  shows "relevant_events p mtu d (map (\<lambda>f. (f, t)) (fragment_frames p mtu))"
  using fragment_frames_ok [OF assms(1,2)] assms(3) by (auto simp: relevant_events_def frame_ok_def)

text \<open>C18: What the reassembler completes is right: the post is valid, the canonical bytes are its
  encoding, the canonical frames are exactly what the fragmenter produces for it on this MTU, and the
  frame that completed it is one of them. The frames can always be encoded, so that error path is
  never taken.\<close>

theorem reassembly_sound:
  assumes "reassembler_ok r" "length (tag f) = 8"
    "fst (reassembler_accept f tick r) = (status, Some c)"
  shows "status = Complete \<and> post_ok (completed_payload c) \<and>
    encode_post (completed_payload c) = Inr (canonical_post c) \<and>
    fragment_post (completed_payload c) (ra_mtu r) = Inr (canonical_frames c) \<and>
    encode_frame f (ra_mtu r) \<in> Inr ` set (canonical_frames c)"
proof -
  note s = accept_sound [OF assms]
  have m: "is_supported_mtu (ra_mtu r)" using assms(1) by (simp add: reassembler_ok_def)
  have "frame_ok (ra_mtu r) f" using s fragment_frames_ok [OF _ m] by blast
  then show ?thesis
    using s encode_post_layout fragment_post_frames [OF _ m] encode_frame_layout by (auto simp: post_bytes_def)
qed

lemma sample_single_fragment:
  "fst (reassembler_accept (post_fragment 255 sample_post 0) 7 (reassembler_new 255)) = completed_as 255 sample_post"
proof -
  have m: "is_supported_mtu 255" by (simp add: is_supported_mtu_def)
  have "length (post_bytes sample_post) = 88"
    using wire_layout_length [OF post_ok_create(2) [OF sample_post_ok]]
    by (simp add: post_bytes_def post_input_def sample_post_def)
  then have n: "post_count 255 sample_post = 1"
    by (simp add: post_count_def fragments_of_def frame_payload_capacity_def is_supported_mtu_def)
  have one: "{0 :: nat} = {..<1}" by auto
  show ?thesis
    using accept_first(1) [OF new_ok [OF m] sample_post_ok, of 0 7] n one by (simp add: new_slots)
qed

theorem reassembly_sound_witness:
  "\<exists>c. fst (reassembler_accept (post_fragment 255 sample_post 0) 7 (reassembler_new 255)) = (Complete, Some c) \<and>
     fragment_post (completed_payload c) 255 = Inr (canonical_frames c)"
proof -
  have m: "is_supported_mtu 255" by (simp add: is_supported_mtu_def)
  have t: "length (tag (post_fragment 255 sample_post 0)) = 8"
    using length_message_tag [OF sample_post_ok] by (simp add: post_fragment_def fragment_frame_def Let_def)
  from reassembly_sound [OF new_ok [OF m] t sample_single_fragment [unfolded completed_as_def]]
  show ?thesis using sample_single_fragment by (simp add: completed_as_def new_slots)
qed

text \<open>C17: Reassembly is complete: if a message is not yet known to the reassembler, a slot is free, and
  within the timeout of its first fragment every fragment arrives at least once, in any order, with
  any repetitions and with any frames of other messages in between, then one of the results is the
  message, complete.\<close>

theorem reassembly_complete:
  assumes "reassembler_ok r" "post_ok p"
    "post_key p \<notin> set (quarantine_keys r)"
    "\<exists>s \<in> set (slots r). \<not> used s"
    "\<forall>s \<in> set (slots r). used s \<longrightarrow> slot_key s \<noteq> post_key p"
    "\<forall>(g, t) \<in> set ((f, tick) # events). length (tag g) = 8 \<and>
       t < saturating_deadline tick kReassemblyTimeoutTicks \<and>
       (frame_key g = post_key p \<longrightarrow> g \<in> set (fragment_frames p (ra_mtu r)))"
    "f \<in> set (fragment_frames p (ra_mtu r))"
    "set (fragment_frames p (ra_mtu r)) \<subseteq> insert f (fst ` set events)"
  shows "\<exists>frames bytes. fragment_post p (ra_mtu r) = Inr frames \<and> encode_post p = Inr bytes \<and>
    (Complete, Some \<lparr>completed_payload = p, canonical_post = bytes, canonical_frames = frames\<rparr>)
      \<in> set (fst (accept_all ((f, tick) # events) r))"
proof -
  have "relevant_events p (ra_mtu r) (saturating_deadline tick kReassemblyTimeoutTicks) ((f, tick) # events)"
    using assms(6) by (simp add: relevant_events_def)
  from reassembly_completes [OF assms(1-5) this assms(7,8)]
  show ?thesis
    using fragment_post_frames [OF assms(2) reassembler_okD(1) [OF assms(1)]] encode_post_layout [OF assms(2)]
    by (simp add: completed_as_def post_bytes_def)
qed

theorem reassembly_complete_witness:
  "\<exists>frames bytes. (Complete, Some \<lparr>completed_payload = sample_post, canonical_post = bytes, canonical_frames = frames\<rparr>)
     \<in> set (fst (accept_all ((post_fragment 48 sample_post 0, 7) #
         rev (map (\<lambda>f. (f, 7)) (fragment_frames sample_post 48))) (reassembler_new 48)))"
proof -
  have m: "is_supported_mtu 48" by (simp add: is_supported_mtu_def)
  note ok = new_ok [OF m]
  have f: "post_fragment 48 sample_post 0 \<in> set (fragment_frames sample_post (ra_mtu (reassembler_new 48)))"
    using post_sizes(4) [OF sample_post_ok m] by (auto simp: fragment_in_frames new_slots)
  have "(7 :: u64) < saturating_deadline 7 kReassemblyTimeoutTicks" by (simp add: saturating_deadline_def)
  note rel = own_fragments_relevant [OF sample_post_ok m this, unfolded relevant_events_def]
  have ev: "\<forall>(g, t) \<in> set ((post_fragment 48 sample_post 0, 7) # rev (map (\<lambda>f. (f, 7)) (fragment_frames sample_post 48))).
      length (tag g) = 8 \<and> t < saturating_deadline 7 kReassemblyTimeoutTicks \<and>
      (frame_key g = post_key sample_post \<longrightarrow> g \<in> set (fragment_frames sample_post (ra_mtu (reassembler_new 48))))"
    using rel f by (simp add: new_slots)
  show ?thesis
    using reassembly_complete [OF ok sample_post_ok _ _ _ ev f] by (force simp: new_slots image_image)
qed

end
