(* ===== verification/Protocol_Ingress.thy ===== *)
theory Protocol_Ingress
  imports Protocol_Reassembly
begin

text \<open>
  Model of the class \<open>InboundFrameQueue\<close> of \<^verbatim>\<open>src/protocol/reassembler.cpp\<close>: the bounded queue of received
  datagrams, the table of recently committed frames and the processing of one datagram at a time. The
  64-bit event counters wrap; queue sizes are \<^verbatim>\<open>size_t\<close> and bounded.
\<close>

section \<open>Definitions\<close>

definition kMaximumInboundFrames :: nat where [simp]: "kMaximumInboundFrames = 64"
definition kMaximumRecentFrames :: nat where [simp]: "kMaximumRecentFrames = 128"

datatype ingress_enqueue_status = EnqueueAccepted | EnqueueQueueFull | EnqueueInvalid | EnqueueClosed

datatype ingress_process_status =
  IngressEmpty | IngressStale | IngressMalformed | IngressRecentDuplicate | IngressFragmentAccepted
  | IngressDuplicateFragment | IngressComplete | IngressCapacityExceeded | IngressConflict
  | IngressQuarantined | IngressInvalidPost | IngressClosed

record ingress_metrics =
  queued_frames :: nat
  queue_high_water :: nat
  active_reassemblies :: nat
  reassembly_high_water :: nat
  malformed_frames :: u64
  stale_frames :: u64
  duplicate_frames :: u64
  capacity_rejections :: u64
  expired_reassemblies :: u64
  completed_posts :: u64

record queued_frame =
  qf_datagram :: bytes
  qf_received_tick :: u64

record recent_frame =
  rf_datagram :: bytes
  rf_deadline :: u64

record inbound_queue =
  in_mtu :: nat
  in_queue :: "queued_frame list"
  recent :: "recent_frame list"
  in_reassembler :: reassembler
  metrics :: ingress_metrics
  stopped :: bool

definition empty_metrics :: ingress_metrics where
  "empty_metrics = \<lparr>queued_frames = 0, queue_high_water = 0, active_reassemblies = 0,
     reassembly_high_water = 0, malformed_frames = 0, stale_frames = 0, duplicate_frames = 0,
     capacity_rejections = 0, expired_reassemblies = 0, completed_posts = 0\<rparr>"

definition inbound_queue_new :: "nat \<Rightarrow> inbound_queue" where
  "inbound_queue_new mtu = \<lparr>in_mtu = mtu, in_queue = [], recent = [], in_reassembler = reassembler_new mtu,
     metrics = empty_metrics, stopped = False\<rparr>"

definition update_metrics :: "inbound_queue \<Rightarrow> inbound_queue" where
  "update_metrics self =
     self\<lparr>metrics := (metrics self)
       \<lparr>queued_frames := length (in_queue self),
        queue_high_water := max (queue_high_water (metrics self)) (length (in_queue self)),
        active_reassemblies := active_count (in_reassembler self),
        reassembly_high_water := max (reassembly_high_water (metrics self))
          (high_water_count (in_reassembler self))\<rparr>\<rparr>"

definition ingress_enqueue ::
  "bytes option \<Rightarrow> u64 \<Rightarrow> inbound_queue \<Rightarrow> ingress_enqueue_status \<times> inbound_queue" where
  "ingress_enqueue data received_tick self =
     (if stopped self then (EnqueueClosed, self)
      else case data of
        None \<Rightarrow> (EnqueueInvalid, self)
      | Some d \<Rightarrow>
          if length d < kFrameHeaderBytes \<or> length d > in_mtu self \<or> length d > kMaximumTransportMtu
          then (EnqueueInvalid, self)
          else if length (in_queue self) \<ge> kMaximumInboundFrames then (EnqueueQueueFull, self)
          else (EnqueueAccepted,
                update_metrics (self\<lparr>in_queue := in_queue self @
                  [\<lparr>qf_datagram = d, qf_received_tick = received_tick\<rparr>]\<rparr>)))"

definition expire_recent :: "u64 \<Rightarrow> inbound_queue \<Rightarrow> inbound_queue" where
  "expire_recent now self =
     self\<lparr>recent := filter (\<lambda>frame. \<not> deadline_reached now (rf_deadline frame)) (recent self)\<rparr>"

definition recently_committed :: "bytes \<Rightarrow> u64 \<Rightarrow> inbound_queue \<Rightarrow> bool \<times> inbound_queue" where
  "recently_committed datagram now self =
     (let self = expire_recent now self
      in case List.find (\<lambda>frame. rf_datagram frame = datagram) (recent self) of
           None \<Rightarrow> (False, self)
         | Some retained \<Rightarrow>
             (True, self\<lparr>recent := erase_first (\<lambda>frame. rf_datagram frame = datagram) (recent self) @ [retained]\<rparr>))"

definition ingress_status :: "reassembly_status \<Rightarrow> ingress_process_status" where
  "ingress_status status =
     (case status of
        FragmentAccepted \<Rightarrow> IngressFragmentAccepted
      | DuplicateFragment \<Rightarrow> IngressDuplicateFragment
      | CapacityExceeded \<Rightarrow> IngressCapacityExceeded
      | ReassemblyConflict \<Rightarrow> IngressConflict
      | Quarantined \<Rightarrow> IngressQuarantined
      | ReassemblyInvalidPost \<Rightarrow> IngressInvalidPost
      | Complete \<Rightarrow> IngressComplete)"

definition count_status :: "reassembly_status \<Rightarrow> ingress_metrics \<Rightarrow> ingress_metrics" where
  "count_status status m =
     (case status of
        DuplicateFragment \<Rightarrow> m\<lparr>duplicate_frames := duplicate_frames m + 1\<rparr>
      | CapacityExceeded \<Rightarrow> m\<lparr>capacity_rejections := capacity_rejections m + 1\<rparr>
      | Complete \<Rightarrow> m\<lparr>completed_posts := completed_posts m + 1\<rparr>
      | _ \<Rightarrow> m)"

definition process_next ::
  "u64 \<Rightarrow> inbound_queue \<Rightarrow> (ingress_process_status \<times> completed_post option) \<times> inbound_queue" where
  "process_next now self =
     (if stopped self then ((IngressClosed, None), self)
      else
        let (expired, reass) = reassembler_expire now (in_reassembler self);
            self = self\<lparr>in_reassembler := reass,
                        metrics := (metrics self)\<lparr>expired_reassemblies :=
                          expired_reassemblies (metrics self) + of_nat expired\<rparr>\<rparr>
        in case in_queue self of
             [] \<Rightarrow> ((IngressEmpty, None), update_metrics self)
           | queued # rest \<Rightarrow>
               let self = update_metrics (self\<lparr>in_queue := rest\<rparr>)
               in if qf_received_tick queued > now \<or>
                     now - qf_received_tick queued \<ge> kReassemblyTimeoutTicks
                  then ((IngressStale, None),
                        self\<lparr>metrics := (metrics self)\<lparr>stale_frames := stale_frames (metrics self) + 1\<rparr>\<rparr>)
                  else let (seen, self) = recently_committed (qf_datagram queued) now self
                  in if seen
                  then ((IngressRecentDuplicate, None),
                        self\<lparr>metrics := (metrics self)\<lparr>duplicate_frames := duplicate_frames (metrics self) + 1\<rparr>\<rparr>)
                  else case decode_frame (Some (qf_datagram queued)) (in_mtu self) of
                    Inl _ \<Rightarrow>
                      ((IngressMalformed, None),
                       self\<lparr>metrics := (metrics self)\<lparr>malformed_frames := malformed_frames (metrics self) + 1\<rparr>\<rparr>)
                  | Inr frame \<Rightarrow>
                      let ((status, completed), reass) =
                            reassembler_accept frame (qf_received_tick queued) (in_reassembler self);
                          self = update_metrics (self\<lparr>in_reassembler := reass\<rparr>);
                          self = self\<lparr>metrics := count_status status (metrics self)\<rparr>
                      in ((ingress_status status, if status = Complete then completed else None), self))"

definition commit_one :: "u64 \<Rightarrow> bytes \<Rightarrow> inbound_queue \<Rightarrow> inbound_queue" where
  "commit_one deadline datagram self =
     (if length datagram < kFrameHeaderBytes \<or> length datagram > in_mtu self then self
      else if list_ex (\<lambda>frame. rf_datagram frame = datagram) (recent self) then self
      else let kept = (if length (recent self) \<ge> kMaximumRecentFrames then tl (recent self) else recent self)
           in self\<lparr>recent := kept @ [\<lparr>rf_datagram = datagram, rf_deadline = deadline\<rparr>]\<rparr>)"

definition mark_committed :: "bytes list \<Rightarrow> u64 \<Rightarrow> inbound_queue \<Rightarrow> inbound_queue" where
  "mark_committed frames committed_tick self =
     (let self = expire_recent committed_tick self;
          deadline = saturating_deadline committed_tick kReassemblyTimeoutTicks
      in fold (commit_one deadline) frames self)"

definition ingress_stop :: "inbound_queue \<Rightarrow> inbound_queue" where
  "ingress_stop self =
     update_metrics (self\<lparr>stopped := True, in_queue := [], recent := [],
       in_reassembler := reassembler_clear (in_reassembler self)\<rparr>)"

section \<open>Invariant\<close>

definition ingress_ok :: "inbound_queue \<Rightarrow> bool" where
  "ingress_ok q \<longleftrightarrow>
     is_supported_mtu (in_mtu q) \<and> reassembler_ok (in_reassembler q) \<and>
     ra_mtu (in_reassembler q) = in_mtu q \<and>
     length (in_queue q) \<le> kMaximumInboundFrames \<and>
     list_all (\<lambda>f. kFrameHeaderBytes \<le> length (qf_datagram f) \<and> length (qf_datagram f) \<le> in_mtu q) (in_queue q) \<and>
     length (recent q) \<le> kMaximumRecentFrames \<and> distinct (map rf_datagram (recent q)) \<and>
     queue_high_water (metrics q) \<le> kMaximumInboundFrames \<and>
     reassembly_high_water (metrics q) \<le> kMaximumReassemblies \<and>
     (stopped q \<longrightarrow> in_queue q = [])"

section \<open>Lemmas\<close>

lemma update_metrics_fields [simp]:
  "in_mtu (update_metrics q) = in_mtu q" "in_queue (update_metrics q) = in_queue q"
  "recent (update_metrics q) = recent q" "in_reassembler (update_metrics q) = in_reassembler q"
  "stopped (update_metrics q) = stopped q"
  "queue_high_water (metrics (update_metrics q)) = max (queue_high_water (metrics q)) (length (in_queue q))"
  "reassembly_high_water (metrics (update_metrics q)) =
     max (reassembly_high_water (metrics q)) (high_water_count (in_reassembler q))"
  by (simp_all add: update_metrics_def)

lemma count_status_fields [simp]:
  "queue_high_water (count_status st m) = queue_high_water m"
  "reassembly_high_water (count_status st m) = reassembly_high_water m"
  by (cases st; simp add: count_status_def)+

lemma expire_recent_fields [simp]:
  "in_mtu (expire_recent now q) = in_mtu q" "in_queue (expire_recent now q) = in_queue q"
  "in_reassembler (expire_recent now q) = in_reassembler q" "stopped (expire_recent now q) = stopped q"
  "metrics (expire_recent now q) = metrics q"
  by (simp_all add: expire_recent_def)

lemma recently_committed_fields [simp]:
  "in_mtu (snd (recently_committed d now q)) = in_mtu q"
  "in_queue (snd (recently_committed d now q)) = in_queue q"
  "in_reassembler (snd (recently_committed d now q)) = in_reassembler q"
  "stopped (snd (recently_committed d now q)) = stopped q"
  "metrics (snd (recently_committed d now q)) = metrics q"
  by (simp_all add: recently_committed_def Let_def split: option.splits)

lemma recently_committed_fst:
  "fst (recently_committed d now q) \<longleftrightarrow> (\<exists>f \<in> set (recent q). rf_datagram f = d \<and> now < rf_deadline f)"
  by (auto simp: recently_committed_def Let_def expire_recent_def find_None_iff deadline_reached_def not_le
      split: option.splits dest!: find_Some_set)

lemma recently_committed_sub: "set (recent (snd (recently_committed d now q))) \<subseteq> set (recent q)"
  by (auto simp: recently_committed_def Let_def expire_recent_def
      split: option.splits dest!: find_Some_set dest: erase_first_in)

lemma length_erase_snoc:
  "List.find P xs = Some x \<Longrightarrow> length (erase_first P xs @ [x]) = length xs"
proof -
  assume "List.find P xs = Some x"
  then have x: "x \<in> set xs" "P x" by (auto dest: find_Some_set)
  then have "length (erase_first P xs) = length xs - 1" by (intro length_erase_first) blast
  moreover have "0 < length xs" using x by (cases xs) auto
  ultimately show ?thesis by simp
qed

lemma distinct_erase_snoc:
  assumes "List.find (\<lambda>x. f x = k) xs = Some x" "distinct (map f xs)"
  shows "distinct (map f (erase_first (\<lambda>x. f x = k) xs @ [x]))"
proof -
  have x: "f x = k" using assms(1) by (auto dest: find_Some_set)
  have "k \<notin> f ` set (erase_first (\<lambda>x. f x = k) xs)" using assms(2)
    by (induction xs) auto
  then show ?thesis using x distinct_map_erase_first [OF assms(2)] by auto
qed

lemma recently_committed_ok:
  assumes "length (recent q) \<le> 128" "distinct (map rf_datagram (recent q))"
  shows "length (recent (snd (recently_committed d now q))) \<le> 128"
    "distinct (map rf_datagram (recent (snd (recently_committed d now q))))"
proof -
  let ?e = "expire_recent now q"
  have e: "length (recent ?e) \<le> 128" "distinct (map rf_datagram (recent ?e))"
    using assms le_trans [OF length_filter_le] by (auto simp: expire_recent_def distinct_map_filter)
  show "length (recent (snd (recently_committed d now q))) \<le> 128"
    "distinct (map rf_datagram (recent (snd (recently_committed d now q))))"
    using e length_erase_snoc [of "\<lambda>f. rf_datagram f = d" "recent ?e"]
      distinct_erase_snoc [of rf_datagram d "recent ?e"]
    by (auto simp: recently_committed_def Let_def split: option.splits)
qed

lemma commit_one_ok:
  assumes "ingress_ok q" shows "ingress_ok (commit_one d b q)"
proof -
  have "distinct (map rf_datagram (tl (recent q)))" "set (tl (recent q)) \<subseteq> set (recent q)"
    using assms by (cases "recent q"; simp add: ingress_ok_def; blast)+
  moreover have "length (recent q) \<le> 128" using assms by (simp add: ingress_ok_def)
  then have "length (tl (recent q)) < 128" by simp
  ultimately show ?thesis
    using assms by (auto simp: ingress_ok_def commit_one_def Let_def list_ex_iff not_le)
qed

lemma expire_recent_ok: "ingress_ok q \<Longrightarrow> ingress_ok (expire_recent now q)"
  using le_trans [OF length_filter_le]
  by (auto simp: ingress_ok_def expire_recent_def distinct_map_filter)

interpretation recent_frames: bounded_ledger ingress_ok "\<lambda>q. map rf_datagram (recent q)" "\<lambda>_. kMaximumRecentFrames"
    "\<lambda>(d, b). commit_one d b"
  by unfold_locales (auto simp: commit_one_ok, simp_all add: ingress_ok_def)

lemma fold_commit: "fold (commit_one d) bs q = fold (\<lambda>(d, b). commit_one d b) (map (Pair d) bs) q"
  by (induction bs arbitrary: q) auto

lemma mark_committed_ok: "ingress_ok q \<Longrightarrow> ingress_ok (mark_committed bs t q)"
  unfolding mark_committed_def Let_def fold_commit
  by (rule recent_frames.fold_inv) (rule expire_recent_ok)

text \<open>The part of \<open>process_next\<close> after the reassembler's expiry and the queue's pop.\<close>

definition expired_state :: "u64 \<Rightarrow> inbound_queue \<Rightarrow> inbound_queue" where
  "expired_state now q =
     q\<lparr>in_reassembler := snd (reassembler_expire now (in_reassembler q)),
       metrics := (metrics q)\<lparr>expired_reassemblies := expired_reassemblies (metrics q) +
         of_nat (fst (reassembler_expire now (in_reassembler q)))\<rparr>\<rparr>"

definition popped_state :: "u64 \<Rightarrow> inbound_queue \<Rightarrow> inbound_queue" where
  "popped_state now q = update_metrics ((expired_state now q)\<lparr>in_queue := tl (in_queue q)\<rparr>)"

definition accepted_state :: "data_frame \<Rightarrow> u64 \<Rightarrow> inbound_queue \<Rightarrow> inbound_queue" where
  "accepted_state f tick q =
     (let acc = reassembler_accept f tick (in_reassembler q); q = update_metrics (q\<lparr>in_reassembler := snd acc\<rparr>)
      in q\<lparr>metrics := count_status (fst (fst acc)) (metrics q)\<rparr>)"

lemma state_fields [simp]:
  "in_mtu (expired_state now q) = in_mtu q" "in_queue (expired_state now q) = in_queue q"
  "recent (expired_state now q) = recent q" "stopped (expired_state now q) = stopped q"
  "in_reassembler (expired_state now q) = snd (reassembler_expire now (in_reassembler q))"
  "in_mtu (popped_state now q) = in_mtu q" "in_queue (popped_state now q) = tl (in_queue q)"
  "recent (popped_state now q) = recent q" "stopped (popped_state now q) = stopped q"
  "in_reassembler (popped_state now q) = snd (reassembler_expire now (in_reassembler q))"
  "in_mtu (accepted_state f tick q) = in_mtu q" "in_queue (accepted_state f tick q) = in_queue q"
  "recent (accepted_state f tick q) = recent q" "stopped (accepted_state f tick q) = stopped q"
  "in_reassembler (accepted_state f tick q) = snd (reassembler_accept f tick (in_reassembler q))"
  by (simp_all add: expired_state_def popped_state_def accepted_state_def Let_def)

definition fresh_frame :: "u64 \<Rightarrow> queued_frame \<Rightarrow> bool" where
  "fresh_frame now e \<longleftrightarrow> qf_received_tick e \<le> now \<and> now - qf_received_tick e < kReassemblyTimeoutTicks"

lemma process_next_alt:
  "process_next now q =
     (if stopped q then ((IngressClosed, None), q)
      else case in_queue q of
        [] \<Rightarrow> ((IngressEmpty, None), update_metrics (expired_state now q))
      | e # rest \<Rightarrow>
          let q1 = popped_state now q; q2 = snd (recently_committed (qf_datagram e) now q1)
          in if \<not> fresh_frame now e
             then ((IngressStale, None), q1\<lparr>metrics := (metrics q1)\<lparr>stale_frames := stale_frames (metrics q1) + 1\<rparr>\<rparr>)
             else if fst (recently_committed (qf_datagram e) now q1)
             then ((IngressRecentDuplicate, None),
                   q2\<lparr>metrics := (metrics q2)\<lparr>duplicate_frames := duplicate_frames (metrics q2) + 1\<rparr>\<rparr>)
             else (case decode_frame (Some (qf_datagram e)) (in_mtu q) of
               Inl _ \<Rightarrow> ((IngressMalformed, None),
                         q2\<lparr>metrics := (metrics q2)\<lparr>malformed_frames := malformed_frames (metrics q2) + 1\<rparr>\<rparr>)
             | Inr f \<Rightarrow>
                 let x = fst (reassembler_accept f (qf_received_tick e) (in_reassembler q2))
                 in ((ingress_status (fst x), if fst x = Complete then snd x else None),
                     accepted_state f (qf_received_tick e) q2)))"
proof (cases "stopped q")
  case False
  show ?thesis
  proof (cases "in_queue q")
    case Nil
    with False show ?thesis by (simp add: process_next_def expired_state_def case_prod_unfold Let_def)
  next
    case (Cons e rest)
    have stale: "qf_received_tick e > now \<or> now - qf_received_tick e \<ge> kReassemblyTimeoutTicks \<longleftrightarrow> \<not> fresh_frame now e"
      by (auto simp: fresh_frame_def)
    have tl: "tl (in_queue q) = rest" using Cons by simp
    show ?thesis
      unfolding process_next_def Let_def case_prod_unfold fst_conv snd_conv popped_state_def tl expired_state_def [symmetric]
        state_fields Cons list.case stale accepted_state_def
      using False by (simp split: sum.split)
  qed
qed (simp add: process_next_def)

lemma accept_mtu: "ra_mtu (snd (reassembler_accept f t r)) = ra_mtu r"
  unfolding accept_alt Let_def by (auto simp: store_fragment_mtu allocate_def reset_frame Let_def)

lemma expired_state_ok: "ingress_ok q \<Longrightarrow> ingress_ok (expired_state now q)"
  using expire_ok [of "in_reassembler q" now] by (simp add: ingress_ok_def expired_state_def)

lemma reassembler_ok_high: "reassembler_ok r \<Longrightarrow> high_water_count r \<le> 8"
  by (simp add: reassembler_ok_def)

lemma update_metrics_ok: "ingress_ok q \<Longrightarrow> ingress_ok (update_metrics q)"
  using reassembler_ok_high [of "in_reassembler q"] by (simp add: ingress_ok_def)

lemma popped_state_ok: "ingress_ok q \<Longrightarrow> ingress_ok (popped_state now q)"
proof -
  assume ok: "ingress_ok q"
  have "length (tl (in_queue q)) \<le> 64" "list_all P (tl (in_queue q))" if "list_all P (in_queue q)" for P
    using ok that by (cases "in_queue q"; simp add: ingress_ok_def)+
  then have "ingress_ok ((expired_state now q)\<lparr>in_queue := tl (in_queue q)\<rparr>)"
    using expired_state_ok [OF ok, of now] unfolding ingress_ok_def by auto
  then show ?thesis unfolding popped_state_def by (rule update_metrics_ok)
qed

lemma recently_committed_state_ok: "ingress_ok q \<Longrightarrow> ingress_ok (snd (recently_committed d now q))"
  using recently_committed_ok [of q d now] by (simp add: ingress_ok_def)

lemma accepted_state_ok:
  assumes "ingress_ok q" "length (tag f) = 8"
  shows "ingress_ok (accepted_state f tick q)"
proof -
  have "reassembler_ok (snd (reassembler_accept f tick (in_reassembler q)))"
    using assms by (intro accept_ok) (simp_all add: ingress_ok_def)
  then show ?thesis
    using assms reassembler_ok_high by (simp add: ingress_ok_def accepted_state_def Let_def accept_mtu)
qed

lemma metrics_ok:
  "ingress_ok q \<Longrightarrow> queue_high_water m = queue_high_water (metrics q) \<Longrightarrow>
     reassembly_high_water m = reassembly_high_water (metrics q) \<Longrightarrow> ingress_ok (q\<lparr>metrics := m\<rparr>)"
  by (simp add: ingress_ok_def)

lemma decode_frame_tag: "decode_frame (Some d) mtu = Inr f \<Longrightarrow> length (tag f) = 8"
  by (simp add: decode_frame_Inr frame_ok_def)

lemma process_next_ok:
  assumes "ingress_ok q" shows "ingress_ok (snd (process_next now q))"
proof -
  have 2: "ingress_ok (snd (recently_committed d now (popped_state now q)))" for d
    by (intro recently_committed_state_ok popped_state_ok assms)
  show ?thesis
    unfolding process_next_alt Let_def
    using assms 2 popped_state_ok [OF assms] expired_state_ok [OF assms]
    by (auto intro!: metrics_ok accepted_state_ok update_metrics_ok dest: decode_frame_tag split: list.split sum.split)
qed

lemma enqueue_ok: "ingress_ok q \<Longrightarrow> ingress_ok (snd (ingress_enqueue d t q))"
  using reassembler_ok_high [of "in_reassembler q"]
  by (auto simp: ingress_enqueue_def ingress_ok_def split: option.split)

lemma stop_ok: "ingress_ok q \<Longrightarrow> ingress_ok (ingress_stop q)"
  using clear_ok [of "in_reassembler q"] reassembler_ok_high [OF clear_ok, of "in_reassembler q"]
  by (simp add: ingress_stop_def ingress_ok_def) (simp add: reassembler_clear_def)

lemma inbound_new_ok: "is_supported_mtu mtu \<Longrightarrow> ingress_ok (inbound_queue_new mtu)"
  using new_ok [of mtu]
  by (simp add: inbound_queue_new_def ingress_ok_def empty_metrics_def) (simp add: reassembler_new_def)

lemma process_next_recent: "set (recent (snd (process_next now q))) \<subseteq> set (recent q)"
proof -
  have "set (recent (snd (recently_committed d now (popped_state now q)))) \<subseteq> set (recent q)" for d
    using recently_committed_sub [of d now "popped_state now q"] by simp
  then show ?thesis
    unfolding process_next_alt Let_def by (auto split: list.split sum.split)
qed

lemma process_next_queue:
  "\<not> stopped q \<Longrightarrow> in_queue (snd (process_next now q)) = tl (in_queue q)"
  "stopped (snd (process_next now q)) = stopped q" "in_mtu (snd (process_next now q)) = in_mtu q"
  unfolding process_next_alt Let_def by (auto split: list.split sum.split)

text \<open>A fresh datagram that was not committed recently reaches the decoder.\<close>

lemma process_next_live:
  assumes "\<not> stopped q" "in_queue q = e # rest" "fresh_frame now e"
    "\<forall>f \<in> set (recent q). rf_datagram f = qf_datagram e \<longrightarrow> rf_deadline f \<le> now"
  shows "decode_frame (Some (qf_datagram e)) (in_mtu q) = Inr f \<Longrightarrow>
      fst (process_next now q) =
        (let x = fst (reassembler_accept f (qf_received_tick e) (snd (reassembler_expire now (in_reassembler q))))
         in (ingress_status (fst x), if fst x = Complete then snd x else None))"
    "in_reassembler (snd (process_next now q)) =
       (case decode_frame (Some (qf_datagram e)) (in_mtu q) of
          Inl _ \<Rightarrow> snd (reassembler_expire now (in_reassembler q))
        | Inr f \<Rightarrow> snd (reassembler_accept f (qf_received_tick e) (snd (reassembler_expire now (in_reassembler q)))))"
proof -
  have nr: "\<not> fst (recently_committed (qf_datagram e) now (popped_state now q))"
    using assms(4) unfolding recently_committed_fst by (auto simp: not_less)
  show "fst (process_next now q) =
        (let x = fst (reassembler_accept f (qf_received_tick e) (snd (reassembler_expire now (in_reassembler q))))
         in (ingress_status (fst x), if fst x = Complete then snd x else None))"
    if "decode_frame (Some (qf_datagram e)) (in_mtu q) = Inr f"
    unfolding process_next_alt Let_def using assms(1,2,3) nr that by simp
  show "in_reassembler (snd (process_next now q)) =
       (case decode_frame (Some (qf_datagram e)) (in_mtu q) of
          Inl _ \<Rightarrow> snd (reassembler_expire now (in_reassembler q))
        | Inr f \<Rightarrow> snd (reassembler_accept f (qf_received_tick e) (snd (reassembler_expire now (in_reassembler q)))))"
    unfolding process_next_alt Let_def using assms(1,2,3) nr by (simp split: sum.split)
qed

lemma process_next_complete_sound:
  assumes ok: "ingress_ok q" and res: "fst (process_next now q) = (st, Some c)"
  shows "st = IngressComplete \<and> post_ok (completed_payload c) \<and> canonical_post c = post_bytes (completed_payload c) \<and>
    canonical_frames c = map frame_layout (fragment_frames (completed_payload c) (in_mtu q)) \<and>
    in_queue q \<noteq> [] \<and> qf_datagram (hd (in_queue q)) \<in> set (canonical_frames c)"
proof -
  obtain e rest f where q: "in_queue q = e # rest" and dec: "decode_frame (Some (qf_datagram e)) (in_mtu q) = Inr f"
    and x: "fst (reassembler_accept f (qf_received_tick e) (snd (reassembler_expire now (in_reassembler q)))) = (Complete, Some c)"
    and st: "st = IngressComplete"
    using res unfolding process_next_alt Let_def
    by (auto simp: ingress_status_def prod_eq_iff split: if_splits list.splits sum.splits)
  have r: "reassembler_ok (snd (reassembler_expire now (in_reassembler q)))"
    and mtu: "ra_mtu (snd (reassembler_expire now (in_reassembler q))) = in_mtu q"
    using ok by (simp_all add: ingress_ok_def expire_ok)
  note s = accept_sound [OF r decode_frame_tag [OF dec] x, unfolded mtu]
  moreover have "frame_layout f = qf_datagram e" using dec decode_frame_Inr by blast
  ultimately show ?thesis using st q by (auto intro: rev_image_eqI)
qed

text \<open>Committed frames are in the table with the deadline of their commit.\<close>

lemma fold_commit_recent:
  assumes "length (recent q) + length bs \<le> 128" "\<forall>f \<in> set (recent q). now < rf_deadline f" "now < d"
    "\<forall>b \<in> set bs. 28 \<le> length b \<and> length b \<le> in_mtu q"
  shows "(\<forall>b \<in> rf_datagram ` set (recent q) \<union> set bs.
     \<exists>f \<in> set (recent (fold (commit_one d) bs q)). rf_datagram f = b \<and> now < rf_deadline f)"
  using assms
proof (induction bs arbitrary: q)
  case Nil
  then show ?case by auto
next
  case (Cons b bs)
  let ?q = "commit_one d b q"
  have mtu: "in_mtu ?q = in_mtu q" by (simp add: commit_one_def Let_def)
  have len: "length (recent ?q) + length bs \<le> 128" using Cons.prems(1) by (auto simp: commit_one_def Let_def)
  have live: "\<forall>f \<in> set (recent ?q). now < rf_deadline f"
    using Cons.prems(1,2,3) by (auto simp: commit_one_def Let_def)
  have "rf_datagram ` set (recent q) \<union> {b} \<subseteq> rf_datagram ` set (recent ?q)"
    using Cons.prems(1,4) by (auto simp: commit_one_def Let_def list_ex_iff)
  moreover have "\<forall>x \<in> rf_datagram ` set (recent ?q) \<union> set bs.
     \<exists>f \<in> set (recent (fold (commit_one d) bs ?q)). rf_datagram f = x \<and> now < rf_deadline f"
    using Cons.prems by (intro Cons.IH len live) (auto simp: mtu)
  ultimately show ?case by auto
qed

lemma fold_commit_fields:
  "in_queue (fold (commit_one d) bs q) = in_queue q" "stopped (fold (commit_one d) bs q) = stopped q"
  "in_mtu (fold (commit_one d) bs q) = in_mtu q"
  by (induction bs arbitrary: q) (simp_all add: commit_one_def Let_def)

lemma mark_committed_suppresses:
  assumes q: "in_queue q = e # rest" "\<not> stopped q" and e: "fresh_frame now e" "qf_datagram e \<in> set bs"
    and room: "length (recent q) + length bs \<le> 128" and bs: "\<forall>b \<in> set bs. 28 \<le> length b \<and> length b \<le> in_mtu q"
    and old: "\<forall>f \<in> set (recent q). now < rf_deadline f"
    and now: "now < saturating_deadline t kReassemblyTimeoutTicks"
  shows "fst (process_next now (mark_committed bs t q)) = (IngressRecentDuplicate, None)"
proof -
  let ?x = "expire_recent t q"
  have sub: "set (recent ?x) \<subseteq> set (recent q)" "length (recent ?x) \<le> length (recent q)"
    by (auto simp: expire_recent_def)
  have "\<exists>f \<in> set (recent (mark_committed bs t q)). rf_datagram f = qf_datagram e \<and> now < rf_deadline f"
    unfolding mark_committed_def Let_def
    using fold_commit_recent [of ?x bs now "saturating_deadline t kReassemblyTimeoutTicks"] room old now bs sub e(2)
    by fastforce
  moreover have "in_queue (mark_committed bs t q) = e # rest" "\<not> stopped (mark_committed bs t q)"
    using q by (simp_all add: mark_committed_def Let_def fold_commit_fields)
  ultimately show ?thesis
    unfolding process_next_alt Let_def using e(1) by (simp add: recently_committed_fst)
qed

section \<open>From datagrams to posts\<close>

fun process_all :: "u64 list \<Rightarrow> inbound_queue \<Rightarrow> (ingress_process_status \<times> completed_post option) list \<times> inbound_queue" where
  "process_all [] q = ([], q)"
| "process_all (now # nows) q =
     (let (x, q) = process_next now q; (xs, q) = process_all nows q in (x # xs, q))"

lemma process_all_Cons:
  "fst (process_all (now # nows) q) = fst (process_next now q) # fst (process_all nows (snd (process_next now q)))"
  by (simp add: case_prod_unfold Let_def)

definition not_recent :: "post_payload \<Rightarrow> inbound_queue \<Rightarrow> bool" where
  "not_recent p q \<longleftrightarrow> rf_datagram ` set (recent q) \<inter> frame_layout ` set (fragment_frames p (in_mtu q)) = {}"

lemma not_recent_process: "not_recent p q \<Longrightarrow> not_recent p (snd (process_next now q))"
  using process_next_recent [of now q] by (auto simp: not_recent_def process_next_queue(3))

definition ingress_completed :: "nat \<Rightarrow> post_payload \<Rightarrow> ingress_process_status \<times> completed_post option" where
  "ingress_completed mtu p = (IngressComplete, snd (completed_as mtu p))"

lemma process_fragment:
  assumes q: "\<not> stopped q" "in_queue q = e # rest" and e: "fresh_frame now e"
    and f: "f \<in> set (fragment_frames p (in_mtu q))" "qf_datagram e = frame_layout f"
    and p: "post_ok p" "is_supported_mtu (in_mtu q)" and nr: "not_recent p q"
  defines "acc \<equiv> reassembler_accept f (qf_received_tick e) (snd (reassembler_expire now (in_reassembler q)))"
  shows "fst acc = completed_as (in_mtu q) p \<Longrightarrow> fst (process_next now q) = ingress_completed (in_mtu q) p"
    "in_reassembler (snd (process_next now q)) = snd acc"
    "fst acc = (FragmentAccepted, None) \<Longrightarrow> fst (process_next now q) = (IngressFragmentAccepted, None)"
proof -
  have dec: "decode_frame (Some (qf_datagram e)) (in_mtu q) = Inr f"
    unfolding f(2) by (rule decode_frame_layout [OF fragment_frames_ok [OF p f(1)]])
  have "\<forall>x \<in> set (recent q). rf_datagram x = qf_datagram e \<longrightarrow> rf_deadline x \<le> now"
  proof -
    have "qf_datagram e \<in> frame_layout ` set (fragment_frames p (in_mtu q))" using f by simp
    then have "qf_datagram e \<notin> rf_datagram ` set (recent q)" using nr unfolding not_recent_def disjoint_iff by metis
    then show ?thesis by (metis image_eqI)
  qed
  note live = process_next_live [OF q e this]
  show "fst (process_next now q) = ingress_completed (in_mtu q) p" if "fst acc = completed_as (in_mtu q) p"
    using live(1) [OF dec, folded acc_def] that
    by (simp add: ingress_completed_def completed_as_def Let_def ingress_status_def)
  show "in_reassembler (snd (process_next now q)) = snd acc" using live(2) dec by (simp add: acc_def)
  show "fst (process_next now q) = (IngressFragmentAccepted, None)" if "fst acc = (FragmentAccepted, None)"
    using live(1) [OF dec, folded acc_def] that by (simp add: Let_def ingress_status_def)
qed

lemma enqueue_accepts:
  assumes "\<not> stopped q" "28 \<le> length d" "length d \<le> in_mtu q" "in_mtu q \<le> 255" "length (in_queue q) < 64"
  shows "ingress_enqueue (Some d) t q = (EnqueueAccepted,
    update_metrics (q\<lparr>in_queue := in_queue q @ [\<lparr>qf_datagram = d, qf_received_tick = t\<rparr>]\<rparr>))"
  using assms by (simp add: ingress_enqueue_def)

lemma enqueue_all:
  fixes t :: u64
  assumes "\<not> stopped q" "list_all (\<lambda>d. 28 \<le> length d \<and> length d \<le> in_mtu q) ds" "in_mtu q \<le> 255"
    "length (in_queue q) + length ds \<le> 64"
  defines "q' \<equiv> fold (\<lambda>d q. snd (ingress_enqueue (Some d) t q)) ds q"
  shows "in_queue q' = in_queue q @ map (\<lambda>d. \<lparr>qf_datagram = d, qf_received_tick = t\<rparr>) ds \<and>
    \<not> stopped q' \<and> recent q' = recent q \<and> in_reassembler q' = in_reassembler q \<and> in_mtu q' = in_mtu q"
  using assms(1-4) unfolding q'_def
proof (induction ds arbitrary: q)
  case (Cons d ds)
  let ?q = "snd (ingress_enqueue (Some d) t q)"
  have eq: "?q = update_metrics (q\<lparr>in_queue := in_queue q @ [\<lparr>qf_datagram = d, qf_received_tick = t\<rparr>]\<rparr>)"
    using enqueue_accepts [of q d t] Cons.prems by simp
  have "in_queue (fold (\<lambda>d q. snd (ingress_enqueue (Some d) t q)) ds ?q) =
      in_queue ?q @ map (\<lambda>d. \<lparr>qf_datagram = d, qf_received_tick = t\<rparr>) ds \<and>
      \<not> stopped (fold (\<lambda>d q. snd (ingress_enqueue (Some d) t q)) ds ?q) \<and>
      recent (fold (\<lambda>d q. snd (ingress_enqueue (Some d) t q)) ds ?q) = recent ?q \<and>
      in_reassembler (fold (\<lambda>d q. snd (ingress_enqueue (Some d) t q)) ds ?q) = in_reassembler ?q \<and>
      in_mtu (fold (\<lambda>d q. snd (ingress_enqueue (Some d) t q)) ds ?q) = in_mtu ?q"
    using Cons.prems by (intro Cons.IH) (simp_all add: eq)
  then show ?case by (simp add: eq)
qed simp

lemma expire_new: "snd (reassembler_expire now (reassembler_new mtu)) = reassembler_new mtu"
  by (simp add: reassembler_expire_def reassembler_new_def slot_expired_def purge_quarantine_def)

lemma saturating_deadline_add: "saturating_deadline t k = saturating_add t k"
  by (simp add: saturating_deadline_def saturating_add_def)

lemma before_deadline_fresh:
  assumes "t \<le> now" "now < saturating_deadline t kReassemblyTimeoutTicks"
  shows "fresh_frame now \<lparr>qf_datagram = d, qf_received_tick = t\<rparr>"
proof -
  have "unat now < unat t + 60000"
    using assms(2) unfolding saturating_deadline_add word_less_nat_alt unat_saturating_add by simp
  moreover have "unat (now - t) = unat now - unat t" "unat t \<le> unat now"
    using assms(1) by (simp_all add: unat_sub word_le_nat_alt)
  ultimately show ?thesis using assms(1) by (simp add: fresh_frame_def word_less_nat_alt)
qed

lemma saturating_deadline_mono: "t0 \<le> t \<Longrightarrow> saturating_deadline t0 k \<le> saturating_deadline t k"
  by (simp add: saturating_deadline_add word_le_nat_alt unat_saturating_add)

subsection \<open>Arrivals and processing in any interleaving\<close>

text \<open>A datagram arrives, with its tick, or the queue is asked to process one.\<close>

datatype ingress_action = Arrives bytes u64 | Processed u64

fun action_tick :: "ingress_action \<Rightarrow> u64" where
  "action_tick (Arrives d t) = t"
| "action_tick (Processed now) = now"

fun arrivals :: "ingress_action list \<Rightarrow> bytes list" where
  "arrivals [] = []"
| "arrivals (Arrives d t # acts) = d # arrivals acts"
| "arrivals (Processed now # acts) = arrivals acts"

text \<open>Fewer than 64 datagrams wait whenever one arrives, and how many wait at the end, when \<open>n\<close> wait at the start.\<close>

fun never_full :: "nat \<Rightarrow> ingress_action list \<Rightarrow> bool" where
  "never_full n [] \<longleftrightarrow> True"
| "never_full n (Arrives d t # acts) \<longleftrightarrow> n < 64 \<and> never_full (n + 1) acts"
| "never_full n (Processed now # acts) \<longleftrightarrow> never_full (n - 1) acts"

fun waiting_after :: "nat \<Rightarrow> ingress_action list \<Rightarrow> nat" where
  "waiting_after n [] = n"
| "waiting_after n (Arrives d t # acts) = waiting_after (n + 1) acts"
| "waiting_after n (Processed now # acts) = waiting_after (n - 1) acts"

text \<open>The answers to the arrivals, the results of the processing and the queue at the end.\<close>

fun ingress_run ::
  "ingress_action list \<Rightarrow> inbound_queue \<Rightarrow>
   ingress_enqueue_status list \<times> (ingress_process_status \<times> completed_post option) list \<times> inbound_queue" where
  "ingress_run [] q = ([], [], q)"
| "ingress_run (Arrives d t # acts) q =
     (let (st, q) = ingress_enqueue (Some d) t q; (sts, rs, q) = ingress_run acts q in (st # sts, rs, q))"
| "ingress_run (Processed now # acts) q =
     (let (r, q) = process_next now q; (sts, rs, q) = ingress_run acts q in (sts, r # rs, q))"

lemma ingress_run_Arrives:
  "ingress_run (Arrives d t # acts) q = (sts, rs, q') \<longleftrightarrow>
     (\<exists>sts1. sts = fst (ingress_enqueue (Some d) t q) # sts1 \<and> ingress_run acts (snd (ingress_enqueue (Some d) t q)) = (sts1, rs, q'))"
  by (cases "ingress_run acts (snd (ingress_enqueue (Some d) t q))") (auto simp: case_prod_unfold Let_def)

lemma ingress_run_Processed:
  "ingress_run (Processed now # acts) q = (sts, rs, q') \<longleftrightarrow>
     (\<exists>rs1. rs = fst (process_next now q) # rs1 \<and> ingress_run acts (snd (process_next now q)) = (sts, rs1, q'))"
  by (cases "ingress_run acts (snd (process_next now q))") (auto simp: case_prod_unfold Let_def)

declare ingress_run.simps(2,3) [simp del]

text \<open>Only datagrams of \<open>p\<close> wait and only fragments of \<open>p\<close> are held.\<close>

definition carries :: "post_payload \<Rightarrow> inbound_queue \<Rightarrow> bool" where
  "carries p q \<longleftrightarrow> only_holds p (in_reassembler q) \<and> ra_mtu (in_reassembler q) = in_mtu q \<and>
     list_all (\<lambda>e. qf_datagram e \<in> frame_layout ` set (fragment_frames p (in_mtu q))) (in_queue q)"

lemma decode_fragment:
  assumes "post_ok p" "is_supported_mtu mtu" "d \<in> frame_layout ` set (fragment_frames p mtu)"
  obtains j where "j < post_count mtu p" "d = frame_layout (post_fragment mtu p j)" "decode_frame (Some d) mtu = Inr (post_fragment mtu p j)"
    "post_fragment mtu p j \<in> set (fragment_frames p mtu)"
proof -
  obtain f where f: "f \<in> set (fragment_frames p mtu)" "d = frame_layout f" using assms(3) by blast
  then obtain j where "j < post_count mtu p" "f = post_fragment mtu p j" using fragment_in_frames by blast
  then show ?thesis using that f decode_frame_layout [OF fragment_frames_ok [OF assms(1,2) f(1)]] by simp
qed

lemma fragment_layout_inj:
  assumes "post_ok p" "is_supported_mtu mtu" "k < post_count mtu p" "j < post_count mtu p"
    "frame_layout (post_fragment mtu p k) = frame_layout (post_fragment mtu p j)"
  shows "k = j"
proof -
  have "Inr (post_fragment mtu p k) = decode_frame (Some (frame_layout (post_fragment mtu p j))) mtu"
    using decode_frame_layout [OF post_fragment_ok [OF assms(1-3)]] unfolding assms(5) by (rule sym)
  also have "\<dots> = Inr (post_fragment mtu p j)" by (rule decode_frame_layout [OF post_fragment_ok [OF assms(1,2,4)]])
  finally have "post_fragment mtu p k = post_fragment mtu p j" by (rule sum.inject(2) [THEN iffD1])
  then show ?thesis by (rule post_fragment_inj [OF assms(1-4)])
qed

lemma process_carries:
  assumes c: "carries p q" and p: "post_ok p"
  shows "snd (fst (process_next now q)) = None \<or> fst (process_next now q) = ingress_completed (in_mtu q) p"
    "carries p (snd (process_next now q))"
proof -
  let ?r = "snd (reassembler_expire now (in_reassembler q))" and ?m = "in_mtu q"
  have h: "only_holds p ?r" "ra_mtu ?r = ?m" using c expire_only_holds by (simp_all add: carries_def)
  have m: "is_supported_mtu ?m" using h(1) reassembler_okD(1) [of ?r] unfolding h(2) only_holds_def by blast
  have "(snd (fst (process_next now q)) = None \<or> fst (process_next now q) = ingress_completed ?m p) \<and> carries p (snd (process_next now q))"
  proof (cases "stopped q \<or> in_queue q = []")
    case True
    then show ?thesis using c h unfolding process_next_alt by (auto simp: carries_def)
  next
    case False
    then obtain e rest where q: "in_queue q = e # rest" by (cases "in_queue q") auto
    have "qf_datagram e \<in> frame_layout ` set (fragment_frames p ?m)" using c q by (simp add: carries_def)
    then obtain j where j: "j < post_count ?m p" "decode_frame (Some (qf_datagram e)) ?m = Inr (post_fragment ?m p j)"
      by (rule decode_fragment [OF p m])
    note acc = accept_only_holds [OF h(1) p, unfolded h(2), OF j(1), of "qf_received_tick e"]
    have rest: "list_all (\<lambda>e. qf_datagram e \<in> frame_layout ` set (fragment_frames p ?m)) rest" using c q by (simp add: carries_def)
    show ?thesis
      using False q rest h acc j(2) unfolding process_next_alt Let_def
      by (auto simp: carries_def accept_mtu ingress_completed_def completed_as_def ingress_status_def)
  qed
  then show "snd (fst (process_next now q)) = None \<or> fst (process_next now q) = ingress_completed (in_mtu q) p"
    "carries p (snd (process_next now q))" by blast+
qed

lemma enqueue_fields:
  "in_reassembler (snd (ingress_enqueue d t q)) = in_reassembler q" "in_mtu (snd (ingress_enqueue d t q)) = in_mtu q"
  "recent (snd (ingress_enqueue d t q)) = recent q" "stopped (snd (ingress_enqueue d t q)) = stopped q"
  by (simp_all add: ingress_enqueue_def split: option.split)

lemma enqueue_queue:
  "in_queue (snd (ingress_enqueue (Some d) t q)) =
     (if fst (ingress_enqueue (Some d) t q) = EnqueueAccepted then in_queue q @ [\<lparr>qf_datagram = d, qf_received_tick = t\<rparr>] else in_queue q)"
  by (simp add: ingress_enqueue_def)

lemma run_accepts:
  assumes "\<not> stopped q" "in_mtu q \<le> 255" "list_all (\<lambda>d. 28 \<le> length d \<and> length d \<le> in_mtu q) (arrivals acts)"
    "never_full (length (in_queue q)) acts" "ingress_run acts q = (sts, rs, q')"
  shows "list_all (\<lambda>st. st = EnqueueAccepted) sts \<and> length (in_queue q') = waiting_after (length (in_queue q)) acts"
  using assms
proof (induction acts arbitrary: q sts rs)
  case (Cons a acts)
  show ?case
  proof (cases a)
    case (Arrives d t)
    let ?q = "snd (ingress_enqueue (Some d) t q)"
    obtain sts1 where run: "sts = fst (ingress_enqueue (Some d) t q) # sts1" "ingress_run acts ?q = (sts1, rs, q')"
      using Cons.prems(5) by (auto simp: Arrives ingress_run_Arrives)
    have acc: "fst (ingress_enqueue (Some d) t q) = EnqueueAccepted"
      using enqueue_accepts [of q d t] Cons.prems(1-4) Arrives by simp
    then show ?thesis using Cons.IH [OF _ _ _ _ run(2)] Cons.prems(1-4) Arrives by (simp add: enqueue_fields enqueue_queue run(1))
  next
    case (Processed now)
    then obtain rs1 where "ingress_run acts (snd (process_next now q)) = (sts, rs1, q')"
      using Cons.prems(5) by (auto simp: ingress_run_Processed)
    from Cons.IH [OF _ _ _ _ this] show ?thesis using Cons.prems(1-4) Processed by (simp add: process_next_queue)
  qed
qed simp

lemma enqueue_carries:
  assumes "carries p q" "d \<in> frame_layout ` set (fragment_frames p (in_mtu q))"
  shows "carries p (snd (ingress_enqueue (Some d) t q))"
  using assms by (simp add: carries_def enqueue_fields enqueue_queue)

text \<open>Whatever the ticks, the order and the losses: nothing but \<open>p\<close> is reported.\<close>

lemma run_reports_only:
  assumes "carries p q" "post_ok p" "set (arrivals acts) \<subseteq> frame_layout ` set (fragment_frames p (in_mtu q))"
    "ingress_run acts q = (sts, rs, q')"
  shows "\<forall>x \<in> set rs. snd x = None \<or> x = ingress_completed (in_mtu q) p"
  using assms
proof (induction acts arbitrary: q sts rs)
  case (Cons a acts)
  show ?case
  proof (cases a)
    case (Arrives d t)
    let ?q = "snd (ingress_enqueue (Some d) t q)"
    obtain sts1 where run: "ingress_run acts ?q = (sts1, rs, q')" using Cons.prems(4) by (auto simp: Arrives ingress_run_Arrives)
    have "carries p ?q" using Cons.prems(1,3) Arrives by (intro enqueue_carries) simp_all
    then show ?thesis using Cons.IH [OF _ Cons.prems(2) _ run] Cons.prems(3) Arrives by (simp add: enqueue_fields)
  next
    case (Processed now)
    note pc = process_carries [OF Cons.prems(1,2), of now]
    obtain rs1 where run: "ingress_run acts (snd (process_next now q)) = (sts, rs1, q')" "rs = fst (process_next now q) # rs1"
      using Cons.prems(4) by (auto simp: Processed ingress_run_Processed)
    have "\<forall>x \<in> set rs1. snd x = None \<or> x = ingress_completed (in_mtu q) p"
      using Cons.IH [OF pc(2) Cons.prems(2) _ run(1)] Cons.prems(3) Processed by (simp add: process_next_queue(3))
    then show ?thesis using pc(1) by (simp add: run(2))
  qed
qed simp

text \<open>The datagrams that wait belong to \<open>p\<close> and arrived between \<open>t0\<close> and the ticks to come.\<close>

definition waiting_ok :: "post_payload \<Rightarrow> u64 \<Rightarrow> u64 list \<Rightarrow> inbound_queue \<Rightarrow> bool" where
  "waiting_ok p t0 ticks q \<longleftrightarrow>
     list_all (\<lambda>e. qf_datagram e \<in> frame_layout ` set (fragment_frames p (in_mtu q)) \<and> t0 \<le> qf_received_tick e \<and>
       (\<forall>t \<in> set ticks. qf_received_tick e \<le> t)) (in_queue q)"

lemma process_gathering:
  assumes g: "gathering p got D (in_reassembler q)" and mtu: "ra_mtu (in_reassembler q) = in_mtu q" and p: "post_ok p"
    and m: "is_supported_mtu (in_mtu q)"
    and q: "\<not> stopped q" "recent q = []" "in_queue q = e # rest" and w: "waiting_ok p t0 (now # ticks) q"
    and D: "D = saturating_deadline t0 kReassemblyTimeoutTicks" and now: "now < D"
  obtains j where "j < post_count (in_mtu q) p" "qf_datagram e = frame_layout (post_fragment (in_mtu q) p j)"
    "j \<notin> got \<and> insert j got = {..<post_count (in_mtu q) p} \<longrightarrow> fst (process_next now q) = ingress_completed (in_mtu q) p"
    "j \<in> got \<or> insert j got \<noteq> {..<post_count (in_mtu q) p} \<longrightarrow> gathering p (insert j got) D (in_reassembler (snd (process_next now q)))"
    "ra_mtu (in_reassembler (snd (process_next now q))) = in_mtu q"
proof -
  let ?r = "snd (reassembler_expire now (in_reassembler q))" and ?m = "in_mtu q" and ?t = "qf_received_tick e"
  have e: "qf_datagram e \<in> frame_layout ` set (fragment_frames p ?m)" "t0 \<le> ?t" "?t \<le> now"
    using w q(3) by (simp_all add: waiting_ok_def)
  obtain j where j: "j < post_count ?m p" "qf_datagram e = frame_layout (post_fragment ?m p j)"
    "post_fragment ?m p j \<in> set (fragment_frames p ?m)" by (rule decode_fragment [OF p m e(1)])
  have dl: "D \<le> saturating_deadline ?t kReassemblyTimeoutTicks" unfolding D by (rule saturating_deadline_mono [OF e(2)])
  have tick: "?t < D" using e(3) now by (rule le_less_trans)
  have fr: "fresh_frame now e"
    using before_deadline_fresh [OF e(3), of "qf_datagram e"] less_le_trans [OF now dl] by (simp add: fresh_frame_def)
  have g1: "gathering p got D ?r" by (rule expire_gathering [OF g now])
  have mtu1: "ra_mtu ?r = ?m" using mtu by simp
  have nr: "not_recent p q" using q(2) by (simp add: not_recent_def)
  note acc = accept_gathering [OF g1 p _ tick dl, unfolded mtu1, OF j(1)]
  note pf = process_fragment [OF q(1,3) fr j(3,2) p m nr]
  show ?thesis
  proof (rule that [OF j(1,2)])
    show "j \<notin> got \<and> insert j got = {..<post_count ?m p} \<longrightarrow> fst (process_next now q) = ingress_completed ?m p"
      using acc(1) pf(1) by simp
    show "j \<in> got \<or> insert j got \<noteq> {..<post_count ?m p} \<longrightarrow> gathering p (insert j got) D (in_reassembler (snd (process_next now q)))"
      unfolding pf(2) using acc(2) by blast
    show "ra_mtu (in_reassembler (snd (process_next now q))) = ?m" unfolding pf(2) by (simp add: accept_mtu mtu)
  qed
qed

lemma run_completes:
  assumes "gathering p got D (in_reassembler q)" "ra_mtu (in_reassembler q) = in_mtu q" "post_ok p" "is_supported_mtu (in_mtu q)"
    "\<not> stopped q" "recent q = []" "got \<noteq> {..<post_count (in_mtu q) p}"
    "D = saturating_deadline t0 kReassemblyTimeoutTicks"
    "sorted (map action_tick acts)" "list_all (\<lambda>a. t0 \<le> action_tick a \<and> action_tick a < D) acts"
    "waiting_ok p t0 (map action_tick acts) q" "set (arrivals acts) \<subseteq> frame_layout ` set (fragment_frames p (in_mtu q))"
    "\<And>k. k < post_count (in_mtu q) p \<Longrightarrow> k \<in> got \<or>
       frame_layout (post_fragment (in_mtu q) p k) \<in> qf_datagram ` set (in_queue q) \<union> set (arrivals acts)"
    "ingress_run acts q = (sts, rs, q')" "list_all (\<lambda>st. st = EnqueueAccepted) sts" "in_queue q' = []"
  shows "ingress_completed (in_mtu q) p \<in> set rs"
  using assms
proof (induction acts arbitrary: got q sts rs)
  case Nil
  then have "{..<post_count (in_mtu q) p} \<subseteq> got" by auto
  then show ?case using gathering_sub [OF Nil.prems(1,3)] Nil.prems(2,7) by auto
next
  case (Cons a acts)
  have srt: "sorted (map action_tick acts)" "list_all (\<lambda>a. t0 \<le> action_tick a \<and> action_tick a < D) acts"
    "t0 \<le> action_tick a" "action_tick a < D" "\<forall>t \<in> action_tick ` set acts. action_tick a \<le> t"
    using Cons.prems(9,10) by auto
  show ?case
  proof (cases a)
    case (Arrives d t)
    let ?q = "snd (ingress_enqueue (Some d) t q)"
    obtain sts1 where run: "ingress_run acts ?q = (sts1, rs, q')" "list_all (\<lambda>st. st = EnqueueAccepted) sts1"
      "fst (ingress_enqueue (Some d) t q) = EnqueueAccepted"
      using Cons.prems(14,15) by (auto simp: Arrives ingress_run_Arrives)
    then have qq: "in_queue ?q = in_queue q @ [\<lparr>qf_datagram = d, qf_received_tick = t\<rparr>]" by (simp add: enqueue_queue)
    have w: "waiting_ok p t0 (map action_tick acts) ?q"
      using Cons.prems(11,12) srt Arrives by (auto simp: waiting_ok_def qq enqueue_fields list_all_iff)
    have "ingress_completed (in_mtu ?q) p \<in> set rs"
    proof (rule Cons.IH [OF _ _ Cons.prems(3) _ _ _ _ Cons.prems(8) srt(1,2) w _ _ run(1,2) Cons.prems(16)])
      show "set (arrivals acts) \<subseteq> frame_layout ` set (fragment_frames p (in_mtu ?q))"
        using Cons.prems(12) Arrives by (simp add: enqueue_fields)
      show "k \<in> got \<or> frame_layout (post_fragment (in_mtu ?q) p k) \<in> qf_datagram ` set (in_queue ?q) \<union> set (arrivals acts)"
        if "k < post_count (in_mtu ?q) p" for k
        using Cons.prems(13) [of k] that Arrives by (auto simp: enqueue_fields qq)
    qed (use Cons.prems(1-7) in \<open>simp_all add: enqueue_fields\<close>)
    then show ?thesis by (simp add: enqueue_fields)
  next
    case (Processed now)
    let ?q = "snd (process_next now q)" and ?m = "in_mtu q"
    obtain rs1 where run: "ingress_run acts ?q = (sts, rs1, q')" "rs = fst (process_next now q) # rs1"
      using Cons.prems(14) by (auto simp: Processed ingress_run_Processed)
    have now: "now < D" using srt(4) Processed by simp
    have keep: "in_mtu ?q = ?m" "\<not> stopped ?q" "recent ?q = []" "in_queue ?q = tl (in_queue q)"
      using Cons.prems(5,6) process_next_recent [of now q] by (simp_all add: process_next_queue)
    have w: "waiting_ok p t0 (map action_tick acts) ?q"
      using Cons.prems(11) keep(1,4) by (cases "in_queue q") (auto simp: waiting_ok_def list_all_iff)
    have IH: "ingress_completed ?m p \<in> set rs1"
      if "gathering p got' D (in_reassembler ?q)" "ra_mtu (in_reassembler ?q) = ?m" "got' \<noteq> {..<post_count ?m p}"
        "\<And>k. k < post_count ?m p \<Longrightarrow> k \<in> got' \<or>
           frame_layout (post_fragment ?m p k) \<in> qf_datagram ` set (tl (in_queue q)) \<union> set (arrivals acts)" for got'
    proof -
      have "ingress_completed (in_mtu ?q) p \<in> set rs1"
        using that Cons.prems(4,12) keep Processed
        by (intro Cons.IH [OF that(1) _ Cons.prems(3) _ keep(2,3) _ Cons.prems(8) srt(1,2) w _ _ run(1) Cons.prems(15,16)]) simp_all
      then show ?thesis by (simp add: keep(1))
    qed
    show ?thesis
    proof (cases "in_queue q")
      case Nil
      then have "in_reassembler ?q = snd (reassembler_expire now (in_reassembler q))"
        using Cons.prems(5) by (simp add: process_next_alt)
      then have "ingress_completed ?m p \<in> set rs1"
        using IH [of got] expire_gathering [OF Cons.prems(1) now] Cons.prems(2,7,13) Nil Processed by simp
      then show ?thesis by (simp add: run(2))
    next
      case (Cons e rest)
      note prems = Cons.prems
      have w0: "waiting_ok p t0 (now # map action_tick acts) q" using prems(11) Processed by simp
      obtain j where j: "j < post_count ?m p" "qf_datagram e = frame_layout (post_fragment ?m p j)"
        "j \<notin> got \<and> insert j got = {..<post_count ?m p} \<longrightarrow> fst (process_next now q) = ingress_completed ?m p"
        "j \<in> got \<or> insert j got \<noteq> {..<post_count ?m p} \<longrightarrow> gathering p (insert j got) D (in_reassembler ?q)"
        "ra_mtu (in_reassembler ?q) = ?m"
        by (rule process_gathering [OF prems(1-6) Cons w0 prems(8) now])
      show ?thesis
      proof (cases "j \<notin> got \<and> insert j got = {..<post_count ?m p}")
        case True
        then show ?thesis using j(3) by (simp add: run(2))
      next
        case False
        then have ne: "insert j got \<noteq> {..<post_count ?m p}" using prems(7) by (metis insert_absorb)
        have cov: "k \<in> insert j got \<or> frame_layout (post_fragment ?m p k) \<in> qf_datagram ` set (tl (in_queue q)) \<union> set (arrivals acts)"
          if k: "k < post_count ?m p" for k
        proof -
          have "k = j" if "frame_layout (post_fragment ?m p k) = qf_datagram e"
            by (rule fragment_layout_inj [OF prems(3,4) k j(1) that [unfolded j(2)]])
          then show ?thesis using prems(13) [OF k] Cons Processed by auto
        qed
        have "gathering p (insert j got) D (in_reassembler ?q)" using j(4) ne by blast
        then have "ingress_completed ?m p \<in> set rs1" by (rule IH [OF _ j(5) ne cov])
        then show ?thesis by (simp add: run(2))
      qed
    qed
  qed
qed

section \<open>Properties\<close>

text \<open>Every operation of the inbound queue keeps its bounds: at most 64 queued datagrams, each of a
  possible frame size, at most 128 distinct recent frames, and a reassembler in a valid state.\<close>

theorem ingress_operations_ok:
  assumes "ingress_ok q"
  shows "ingress_ok (snd (ingress_enqueue d t q)) \<and> ingress_ok (snd (process_next t q)) \<and>
    ingress_ok (mark_committed bs t q) \<and> ingress_ok (ingress_stop q)"
  using enqueue_ok [OF assms] process_next_ok [OF assms] mark_committed_ok [OF assms] stop_ok [OF assms] by blast

theorem ingress_operations_ok_witness:
  "ingress_ok (snd (process_next 3 (inbound_queue_new 48)))"
  using ingress_operations_ok [OF inbound_new_ok, of 48] by (simp add: is_supported_mtu_def)

text \<open>A post reported complete is valid, its canonical bytes and frames are those of the encoder and
  the fragmenter, and the datagram just taken from the queue is one of the frames.\<close>

theorem ingress_sound:
  assumes "ingress_ok q" "fst (process_next now q) = (status, Some c)"
  shows "status = IngressComplete \<and> post_ok (completed_payload c) \<and>
    encode_post (completed_payload c) = Inr (canonical_post c) \<and>
    fragment_post (completed_payload c) (in_mtu q) = Inr (canonical_frames c) \<and>
    in_queue q \<noteq> [] \<and> qf_datagram (hd (in_queue q)) \<in> set (canonical_frames c)"
proof -
  have m: "is_supported_mtu (in_mtu q)" using assms(1) by (simp add: ingress_ok_def)
  show ?thesis
    using process_next_complete_sound [OF assms] encode_post_layout fragment_post_frames [OF _ m]
    by (auto simp: post_bytes_def)
qed

definition single_queue :: inbound_queue where
  "single_queue = (inbound_queue_new 255)
     \<lparr>in_queue := [\<lparr>qf_datagram = frame_layout (post_fragment 255 sample_post 0), qf_received_tick = 7\<rparr>]\<rparr>"

lemma single_queue_facts:
  "ingress_ok single_queue" "fst (process_next 7 single_queue) = ingress_completed 255 sample_post"
proof -
  have m: "is_supported_mtu 255" by (simp add: is_supported_mtu_def)
  have f: "post_fragment 255 sample_post 0 \<in> set (fragment_frames sample_post 255)"
    using post_sizes(4) [OF sample_post_ok m] by (auto simp: fragment_in_frames)
  note size = frame_ok_size [OF fragment_frames_ok [OF sample_post_ok m f]]
  show "ingress_ok single_queue"
    using inbound_new_ok [OF m] size by (simp add: ingress_ok_def single_queue_def inbound_queue_new_def)
  show "fst (process_next 7 single_queue) = ingress_completed 255 sample_post"
    using process_fragment(1) [of single_queue _ "[]" 7 "post_fragment 255 sample_post 0" sample_post]
      sample_single_fragment sample_post_ok m f
    by (simp add: single_queue_def inbound_queue_new_def fresh_frame_def not_recent_def expire_new)
qed

theorem ingress_sound_witness:
  "\<exists>c. fst (process_next 7 single_queue) = (IngressComplete, Some c) \<and>
     fragment_post (completed_payload c) 255 = Inr (canonical_frames c)"
  using ingress_sound [OF single_queue_facts(1), of 7 IngressComplete] single_queue_facts(2)
  by (auto simp: ingress_completed_def completed_as_def single_queue_def inbound_queue_new_def)

text \<open>C16: From sender to receiver. The datagrams that the fragmenter makes of a valid post arrive at a new queue, in any order and with any
  repetitions, interleaved in any way with calls that process one datagram each. If every one of them arrives at least once and no other
  datagram does, fewer than 64 are waiting whenever one arrives, none is waiting at the end, the ticks of the actions never decrease and all of
  them lie within the reassembly timeout that starts at \<open>t0\<close>, then the queue takes every arrival, the post is reported as complete, with these
  datagrams as its canonical frames, and no other post is reported.\<close>

theorem ingress_delivers:
  assumes "post_ok p" "fragment_post p mtu = Inr frames" "set (arrivals acts) = set frames"
    "never_full 0 acts" "waiting_after 0 acts = 0" "sorted (map action_tick acts)"
    "list_all (\<lambda>a. t0 \<le> action_tick a \<and> action_tick a < saturating_deadline t0 kReassemblyTimeoutTicks) acts"
    "ingress_run acts (inbound_queue_new mtu) = (sts, rs, q)"
  shows "list_all (\<lambda>st. st = EnqueueAccepted) sts \<and> in_queue q = [] \<and>
    (\<exists>c. completed_payload c = p \<and> canonical_frames c = frames \<and> (IngressComplete, Some c) \<in> set rs \<and>
      (\<forall>(status, completed) \<in> set rs. completed = None \<or> status = IngressComplete \<and> completed = Some c))"
proof -
  have m: "is_supported_mtu mtu" using assms(2) by (auto simp: fragment_post_def split: if_splits)
  have frames: "frames = map frame_layout (fragment_frames p mtu)"
    using fragment_post_frames [OF assms(1) m] assms(2) by simp
  let ?q = "inbound_queue_new mtu"
  have q: "in_mtu ?q = mtu" "in_reassembler ?q = reassembler_new mtu" "in_queue ?q = []" "recent ?q = []" "\<not> stopped ?q"
    "ra_mtu (reassembler_new mtu) = mtu" by (simp_all add: inbound_queue_new_def new_slots)
  have arr: "set (arrivals acts) \<subseteq> frame_layout ` set (fragment_frames p (in_mtu ?q))" using assms(3) by (simp add: q(1) frames)
  have none: "\<forall>i < 8. \<not> used (slots (reassembler_new mtu) ! i)" by (simp add: new_slots empty_slot_def)
  have "only_holds p (reassembler_new mtu)" using new_ok [OF m] none by (simp add: only_holds_def new_slots)
  then have c: "carries p ?q" by (simp add: carries_def q)
  have "28 \<le> length d \<and> length d \<le> mtu" if "d \<in> set (arrivals acts)" for d
    using that assms(3) frames frame_ok_size fragment_frames_ok [OF assms(1) m] by (fastforce intro: less_imp_le)
  then have acc: "list_all (\<lambda>st. st = EnqueueAccepted) sts \<and> in_queue q = []"
    using run_accepts [of ?q acts sts rs q] assms(4,5,8) m by (simp add: q list_all_iff is_supported_mtu_def)
  have "0 < post_count mtu p" using post_sizes(4) [OF assms(1) m] .
  then have ne: "{} \<noteq> {..<post_count (in_mtu ?q) p}" by (auto simp: q(1))
  have "frame_layout (post_fragment mtu p k) \<in> set (arrivals acts)" if "k < post_count mtu p" for k
    using that fragment_in_frames [of "post_fragment mtu p k"] assms(3) frames by auto
  then have "ingress_completed (in_mtu ?q) p \<in> set rs"
    using gathering_new [OF m] assms(1,6-8) acc [THEN conjunct1] acc [THEN conjunct2] arr ne m
    by (intro run_completes [where q = ?q and got = "{}" and acts = acts]) (simp_all add: q waiting_ok_def)
  moreover have "\<forall>x \<in> set rs. snd x = None \<or> x = ingress_completed (in_mtu ?q) p" by (rule run_reports_only [OF c assms(1) arr assms(8)])
  ultimately show ?thesis using acc unfolding ingress_completed_def completed_as_def q(1) snd_conv frames
    by (intro conjI exI [of _ "\<lparr>completed_payload = p, canonical_post = post_bytes p, canonical_frames = map frame_layout (fragment_frames p mtu)\<rparr>"]) auto
qed

lemma sample_frames:
  "fragment_post sample_post 48 = Inr (map frame_layout (fragment_frames sample_post 48))"
  "fragment_frames sample_post 48 \<noteq> []" "length (fragment_frames sample_post 48) \<le> 16"
proof -
  have m: "is_supported_mtu 48" by (simp add: is_supported_mtu_def)
  show "fragment_post sample_post 48 = Inr (map frame_layout (fragment_frames sample_post 48))"
    by (rule fragment_post_frames [OF sample_post_ok m])
  have "length (fragment_frames sample_post 48) = post_count 48 sample_post" by (simp add: fragment_frames_alt)
  then show "fragment_frames sample_post 48 \<noteq> []" "length (fragment_frames sample_post 48) \<le> 16"
    using post_sizes(4,5) [OF sample_post_ok m] by auto
qed

text \<open>Each datagram is processed as it arrives.\<close>

definition prompt_actions :: "u64 \<Rightarrow> bytes list \<Rightarrow> ingress_action list" where
  "prompt_actions t ds = concat (map (\<lambda>d. [Arrives d t, Processed t]) ds)"

lemma prompt_actions_facts:
  "arrivals (prompt_actions t ds) = ds" "map action_tick (prompt_actions t ds) = replicate (2 * length ds) t"
  "never_full 0 (prompt_actions t ds)" "waiting_after 0 (prompt_actions t ds) = 0"
  by (induction ds) (simp_all add: prompt_actions_def)

theorem ingress_delivers_witness:
  "\<exists>c frames sts rs q. fragment_post sample_post 48 = Inr frames \<and>
     ingress_run (prompt_actions 7 (rev (frames @ frames))) (inbound_queue_new 48) = (sts, rs, q) \<and>
     completed_payload c = sample_post \<and> (IngressComplete, Some c) \<in> set rs"
proof -
  let ?fs = "map frame_layout (fragment_frames sample_post 48)"
  let ?acts = "prompt_actions 7 (rev (?fs @ ?fs))"
  obtain sts rs q where run: "ingress_run ?acts (inbound_queue_new 48) = (sts, rs, q)" by (metis prod_cases3)
  have arr: "set (arrivals ?acts) = set ?fs" by (simp add: prompt_actions_facts)
  have "list_all (\<lambda>t :: u64. 7 \<le> t \<and> t < saturating_deadline 7 kReassemblyTimeoutTicks) (map action_tick ?acts)"
    unfolding prompt_actions_facts by (simp add: list_all_iff saturating_deadline_def)
  then have win: "list_all (\<lambda>a. 7 \<le> action_tick a \<and> action_tick a < saturating_deadline 7 kReassemblyTimeoutTicks) ?acts"
    by (simp add: list.pred_map comp_def)
  have "sorted (map action_tick ?acts)" unfolding prompt_actions_facts by (rule sorted_replicate)
  from ingress_delivers [OF sample_post_ok sample_frames(1) arr prompt_actions_facts(3,4) this win run] run sample_frames(1)
  show ?thesis by blast
qed

text \<open>Committing a post's frames suppresses them: while the entries are alive, a committed datagram at
  the head of the queue is reported as a recent duplicate and never reaches the reassembler.\<close>

theorem committed_frames_suppressed:
  assumes "in_queue q = e # rest" "\<not> stopped q" "fresh_frame now e" "qf_datagram e \<in> set frames"
    "length (recent q) + length frames \<le> kMaximumRecentFrames"
    "\<forall>b \<in> set frames. kFrameHeaderBytes \<le> length b \<and> length b \<le> in_mtu q"
    "\<forall>f \<in> set (recent q). now < rf_deadline f"
    "now < saturating_deadline t kReassemblyTimeoutTicks"
  shows "fst (process_next now (mark_committed frames t q)) = (IngressRecentDuplicate, None)"
  using assms by (intro mark_committed_suppresses) simp_all

definition sample_queue :: inbound_queue where
  "sample_queue = (inbound_queue_new 48)\<lparr>in_queue := [\<lparr>qf_datagram = replicate 30 1, qf_received_tick = 5\<rparr>]\<rparr>"

theorem committed_frames_suppressed_witness:
  "fst (process_next 6 (mark_committed [replicate 30 1] 5 sample_queue)) = (IngressRecentDuplicate, None)"
  by (rule committed_frames_suppressed [of _ "\<lparr>qf_datagram = replicate 30 1, qf_received_tick = 5\<rparr>" "[]"])
    (simp_all add: sample_queue_def inbound_queue_new_def fresh_frame_def saturating_deadline_def)

text \<open>Repeats never extend the suppression: processing a datagram adds nothing to the table of recent
  frames and changes no deadline in it; and each call on a running queue consumes exactly its first
  datagram, whatever the outcome, so a queue drains in as many calls as it has datagrams.\<close>

theorem process_next_consumes:
  assumes "\<not> stopped q"
  shows "set (recent (snd (process_next now q))) \<subseteq> set (recent q) \<and>
    in_queue (snd (process_next now q)) = tl (in_queue q) \<and>
    (length nows = length (in_queue q) \<longrightarrow> in_queue (snd (process_all nows q)) = [])"
proof -
  have "length nows = length (in_queue q) \<longrightarrow> in_queue (snd (process_all nows q)) = []"
    using assms
  proof (induction nows arbitrary: q)
    case (Cons now nows)
    then show ?case using process_next_queue(1) [of q now] process_next_queue(2) [of now q] by (simp add: case_prod_unfold Let_def)
  qed simp
  then show ?thesis using process_next_recent process_next_queue(1) [OF assms] by blast
qed

theorem process_next_consumes_witness:
  "in_queue (snd (process_next 6 sample_queue)) = []"
  using process_next_consumes [of sample_queue 6 "[]"] by (simp add: sample_queue_def inbound_queue_new_def)

text \<open>Once stopped, the queue accepts and processes nothing and stays empty.\<close>

lemma ingress_stop_final:
  "fst (ingress_enqueue d t (ingress_stop q)) = EnqueueClosed \<and>
   process_next now (ingress_stop q) = ((IngressClosed, None), ingress_stop q) \<and>
   in_queue (ingress_stop q) = [] \<and> active_count (in_reassembler (ingress_stop q)) = 0"
proof -
  have "length (filter used (map (\<lambda>_. empty_slot) xs)) = 0" for xs :: "slot list" by (induction xs) simp_all
  then show ?thesis
    by (simp add: ingress_enqueue_def process_next_def ingress_stop_def reassembler_clear_def active_count_def)
qed

end
