(* ===== verification/Adapter_Transports.thy ===== *)
theory Adapter_Transports
  imports Ports_Radio
begin

text \<open>
  Model of \<^verbatim>\<open>src/adapters/network/udp_broadcast_transport.cpp\<close> and
  \<^verbatim>\<open>src/adapters/radio/cap_lora_1262_radio.cpp\<close>: the two transports that implement the port
  \<^verbatim>\<open>IDatagramTransport\<close> over a socket and over a radio. What the socket or the radio answers to one call is
  an argument of the operation. A null pointer is \<open>None\<close>; a destination is its capacity, and a
  receive returns the bytes it stored there. The locale \<open>datagram_transport\<close> is the contract of the
  port, and both transports are interpretations of it.
\<close>

section \<open>The port\<close>

datatype datagram_receive_status = RecvReceived | RecvWouldBlock | RecvDisconnected | RecvClosed | RecvInvalid

type_synonym receive_result = "datagram_receive_status \<times> bytes"

section \<open>The UDP transport\<close>

datatype udp_send_status = UdpSent | UdpSendWouldBlock | UdpSendDisconnected | UdpSendFailed
datatype udp_receive_status = UdpReceived | UdpWouldBlock | UdpDisconnected | UdpTruncated | UdpFailed

text \<open>The status and size a socket reports, and the bytes it wrote to the destination.\<close>

record udp_receive_result =
  usr_status :: udp_receive_status
  usr_size :: nat
  usr_bytes :: bytes

record udp_metrics =
  um_accepted_transmits :: u64
  um_backpressure_events :: u64
  um_received_datagrams :: u64
  um_dropped_datagrams :: u64
  um_socket_failures :: u64

record udp_transport =
  udp_mtu :: nat
  udp_closed :: bool
  udp_metrics_of :: udp_metrics
  udp_socket_open :: bool

definition udp_metrics_zero :: udp_metrics where
  "udp_metrics_zero = \<lparr>um_accepted_transmits = 0, um_backpressure_events = 0, um_received_datagrams = 0,
     um_dropped_datagrams = 0, um_socket_failures = 0\<rparr>"

definition udp_new :: "nat \<Rightarrow> bool \<Rightarrow> udp_transport" where
  "udp_new mtu socket_ready =
     (let self = \<lparr>udp_mtu = 0, udp_closed = False, udp_metrics_of = udp_metrics_zero, udp_socket_open = True\<rparr>
      in if mtu \<ge> kMinimumDatagramMtu \<and> mtu \<le> kMaximumDatagramBytes \<and> socket_ready
         then self\<lparr>udp_mtu := mtu\<rparr>
         else self\<lparr>udp_closed := True, udp_socket_open := False\<rparr>)"

definition udp_maximum_datagram_size :: "udp_transport \<Rightarrow> nat" where
  "udp_maximum_datagram_size self = (if udp_closed self then 0 else udp_mtu self)"

definition udp_fail_closed :: "udp_transport \<Rightarrow> udp_transport" where
  "udp_fail_closed self =
     (if \<not> udp_closed self
      then self\<lparr>udp_metrics_of := (udp_metrics_of self)\<lparr>um_socket_failures := um_socket_failures (udp_metrics_of self) + 1\<rparr>,
                udp_closed := True, udp_socket_open := False\<rparr>
      else self)"

definition udp_try_send ::
  "udp_send_status \<Rightarrow> bytes option \<Rightarrow> udp_transport \<Rightarrow> datagram_send_status \<times> udp_transport" where
  "udp_try_send socket_send data self =
     (if udp_closed self then (SendClosed, self)
      else if data = None \<or> length (the data) = 0 \<or> length (the data) > udp_mtu self then (SendInvalid, self)
      else case socket_send of
        UdpSent \<Rightarrow> (SendAccepted, self\<lparr>udp_metrics_of := (udp_metrics_of self)
          \<lparr>um_accepted_transmits := um_accepted_transmits (udp_metrics_of self) + 1\<rparr>\<rparr>)
      | UdpSendWouldBlock \<Rightarrow> (SendWouldBlock, self\<lparr>udp_metrics_of := (udp_metrics_of self)
          \<lparr>um_backpressure_events := um_backpressure_events (udp_metrics_of self) + 1\<rparr>\<rparr>)
      | UdpSendDisconnected \<Rightarrow> (SendDisconnected, self)
      | UdpSendFailed \<Rightarrow> (SendDisconnected, udp_fail_closed self))"

definition udp_drop :: "udp_transport \<Rightarrow> udp_transport" where
  "udp_drop self = self\<lparr>udp_metrics_of := (udp_metrics_of self)
     \<lparr>um_dropped_datagrams := um_dropped_datagrams (udp_metrics_of self) + 1\<rparr>\<rparr>"

definition udp_try_receive ::
  "udp_receive_result \<Rightarrow> nat option \<Rightarrow> udp_transport \<Rightarrow> receive_result \<times> udp_transport" where
  "udp_try_receive socket_receive destination self =
     (if udp_closed self then ((RecvClosed, []), self)
      else if destination = None \<or> the destination = 0 then ((RecvInvalid, []), self)
      else case usr_status socket_receive of
        UdpReceived \<Rightarrow>
          if usr_size socket_receive = 0 \<or> usr_size socket_receive > udp_mtu self \<or>
             usr_size socket_receive > the destination
          then ((RecvWouldBlock, []), udp_drop self)
          else ((RecvReceived, take (usr_size socket_receive) (usr_bytes socket_receive)),
                self\<lparr>udp_metrics_of := (udp_metrics_of self)
                  \<lparr>um_received_datagrams := um_received_datagrams (udp_metrics_of self) + 1\<rparr>\<rparr>)
      | UdpWouldBlock \<Rightarrow> ((RecvWouldBlock, []), self)
      | UdpDisconnected \<Rightarrow> ((RecvDisconnected, []), self)
      | UdpTruncated \<Rightarrow> ((RecvWouldBlock, []), udp_drop self)
      | UdpFailed \<Rightarrow> ((RecvDisconnected, []), udp_fail_closed self))"

definition udp_connected :: "bool \<Rightarrow> bool \<Rightarrow> udp_transport \<Rightarrow> bool" where
  "udp_connected socket_ready socket_connected self \<longleftrightarrow> \<not> udp_closed self \<and> socket_ready \<and> socket_connected"

definition udp_close :: "udp_transport \<Rightarrow> udp_transport" where
  "udp_close self = (if udp_closed self then self else self\<lparr>udp_closed := True, udp_socket_open := False\<rparr>)"

section \<open>The radio transport\<close>

datatype radio_start_status = StartStarted | StartBusy | StartFailed
datatype radio_poll_status = PollIdle | PollTransmitComplete | PollReceived | PollFailed

record radio_poll_result =
  poll_status :: radio_poll_status
  poll_size :: nat
  poll_bytes :: bytes

record cap_metrics =
  cm_accepted_transmits :: u64
  cm_busy_transmits :: u64
  cm_received_datagrams :: u64
  cm_dropped_datagrams :: u64
  cm_hardware_failures :: u64

text \<open>The used part of \<^verbatim>\<open>pending_receive_\<close> is a list, empty when \<^verbatim>\<open>pending_receive_size_\<close> is 0.\<close>

record cap_transport =
  cap_mtu :: nat
  cap_pending_receive :: bytes
  cap_closed :: bool
  cap_metrics_of :: cap_metrics
  cap_radio_on :: bool

definition cap_metrics_zero :: cap_metrics where
  "cap_metrics_zero = \<lparr>cm_accepted_transmits = 0, cm_busy_transmits = 0, cm_received_datagrams = 0,
     cm_dropped_datagrams = 0, cm_hardware_failures = 0\<rparr>"

definition cap_new :: "nat \<Rightarrow> bool \<Rightarrow> cap_transport" where
  "cap_new mtu radio_ready =
     (let self = \<lparr>cap_mtu = 0, cap_pending_receive = [], cap_closed = False, cap_metrics_of = cap_metrics_zero,
            cap_radio_on = True\<rparr>
      in if mtu \<ge> kMinimumDatagramMtu \<and> mtu \<le> kMaximumDatagramBytes \<and> radio_ready
         then self\<lparr>cap_mtu := mtu\<rparr>
         else self\<lparr>cap_closed := True, cap_radio_on := False\<rparr>)"

definition cap_maximum_datagram_size :: "cap_transport \<Rightarrow> nat" where
  "cap_maximum_datagram_size self = (if cap_closed self then 0 else cap_mtu self)"

definition cap_fail_closed :: "cap_transport \<Rightarrow> cap_transport" where
  "cap_fail_closed self =
     (if \<not> cap_closed self
      then self\<lparr>cap_metrics_of := (cap_metrics_of self)\<lparr>cm_hardware_failures := cm_hardware_failures (cap_metrics_of self) + 1\<rparr>,
                cap_closed := True, cap_pending_receive := [], cap_radio_on := False\<rparr>
      else self)"

definition cap_drop :: "cap_transport \<Rightarrow> cap_transport" where
  "cap_drop self = self\<lparr>cap_metrics_of := (cap_metrics_of self)
     \<lparr>cm_dropped_datagrams := cm_dropped_datagrams (cap_metrics_of self) + 1\<rparr>\<rparr>"

definition cap_service_radio :: "radio_poll_result \<Rightarrow> cap_transport \<Rightarrow> cap_transport" where
  "cap_service_radio poll self =
     (if cap_closed self then self
      else case poll_status poll of
        PollIdle \<Rightarrow> self
      | PollTransmitComplete \<Rightarrow> self
      | PollReceived \<Rightarrow>
          if poll_size poll = 0 \<or> poll_size poll > cap_mtu self then cap_drop self
          else if cap_pending_receive self \<noteq> [] then cap_drop self
          else self\<lparr>cap_pending_receive := take (poll_size poll) (poll_bytes poll),
                    cap_metrics_of := (cap_metrics_of self)
                      \<lparr>cm_received_datagrams := cm_received_datagrams (cap_metrics_of self) + 1\<rparr>\<rparr>
      | PollFailed \<Rightarrow> cap_fail_closed self)"

definition cap_try_send ::
  "radio_poll_result \<times> radio_start_status \<Rightarrow> bytes option \<Rightarrow> cap_transport \<Rightarrow> datagram_send_status \<times> cap_transport" where
  "cap_try_send radio data self =
     (if cap_closed self then (SendClosed, self)
      else if data = None \<or> length (the data) = 0 \<or> length (the data) > cap_mtu self then (SendInvalid, self)
      else let self = cap_service_radio (fst radio) self
           in if cap_closed self then (SendDisconnected, self)
              else case snd radio of
                StartStarted \<Rightarrow> (SendAccepted, self\<lparr>cap_metrics_of := (cap_metrics_of self)
                  \<lparr>cm_accepted_transmits := cm_accepted_transmits (cap_metrics_of self) + 1\<rparr>\<rparr>)
              | StartBusy \<Rightarrow> (SendWouldBlock, self\<lparr>cap_metrics_of := (cap_metrics_of self)
                  \<lparr>cm_busy_transmits := cm_busy_transmits (cap_metrics_of self) + 1\<rparr>\<rparr>)
              | StartFailed \<Rightarrow> (SendDisconnected, cap_fail_closed self))"

definition cap_try_receive ::
  "radio_poll_result \<Rightarrow> nat option \<Rightarrow> cap_transport \<Rightarrow> receive_result \<times> cap_transport" where
  "cap_try_receive poll destination self =
     (if cap_closed self then ((RecvClosed, []), self)
      else if destination = None \<or> the destination = 0 then ((RecvInvalid, []), self)
      else let self = cap_service_radio poll self
           in if cap_closed self then ((RecvDisconnected, []), self)
              else if cap_pending_receive self = [] then ((RecvWouldBlock, []), self)
              else if the destination < length (cap_pending_receive self) then ((RecvInvalid, []), self)
              else ((RecvReceived, cap_pending_receive self), self\<lparr>cap_pending_receive := []\<rparr>))"

definition cap_connected :: "bool \<Rightarrow> cap_transport \<Rightarrow> bool" where
  "cap_connected radio_ready self \<longleftrightarrow> \<not> cap_closed self \<and> radio_ready"

definition cap_close :: "cap_transport \<Rightarrow> cap_transport" where
  "cap_close self =
     (if cap_closed self then self
      else self\<lparr>cap_closed := True, cap_pending_receive := [], cap_radio_on := False\<rparr>)"

section \<open>The contract\<close>

datatype transport_event = Sent "bytes option" datagram_send_status | Got datagram_receive_status bytes | Shut

text \<open>Any use of a transport, whatever the device below it answers.\<close>

inductive transport_run ::
  "('i \<Rightarrow> bytes option \<Rightarrow> 's \<Rightarrow> datagram_send_status \<times> 's) \<Rightarrow> ('j \<Rightarrow> nat option \<Rightarrow> 's \<Rightarrow> receive_result \<times> 's) \<Rightarrow>
   ('s \<Rightarrow> 's) \<Rightarrow> ('j \<Rightarrow> bool) \<Rightarrow> 's \<Rightarrow> transport_event list \<Rightarrow> 's \<Rightarrow> bool" for send receive close device_wf where
  transport_refl: "transport_run send receive close device_wf s [] s"
| transport_send: "transport_run send receive close device_wf s es s' \<Longrightarrow> send i data s' = (st, s'') \<Longrightarrow>
    transport_run send receive close device_wf s (es @ [Sent data st]) s''"
| transport_receive: "transport_run send receive close device_wf s es s' \<Longrightarrow> device_wf j \<Longrightarrow>
    receive j dest s' = ((st, b), s'') \<Longrightarrow> transport_run send receive close device_wf s (es @ [Got st b]) s''"
| transport_close: "transport_run send receive close device_wf s es s' \<Longrightarrow>
    transport_run send receive close device_wf s (es @ [Shut]) (close s')"

fun transfers :: "transport_event \<Rightarrow> bool" where
  "transfers (Sent data st) = (st = SendAccepted)"
| "transfers (Got st b) = (st = RecvReceived)"
| "transfers Shut = False"

fun event_bytes :: "transport_event \<Rightarrow> bytes" where
  "event_bytes (Sent data st) = (case data of None \<Rightarrow> [] | Some b \<Rightarrow> b)"
| "event_bytes (Got st b) = b"
| "event_bytes Shut = []"

locale datagram_transport =
  fixes send :: "'i \<Rightarrow> bytes option \<Rightarrow> 's \<Rightarrow> datagram_send_status \<times> 's"
    and receive :: "'j \<Rightarrow> nat option \<Rightarrow> 's \<Rightarrow> receive_result \<times> 's"
    and close :: "'s \<Rightarrow> 's"
    and device_wf :: "'j \<Rightarrow> bool"
    and ok :: "'s \<Rightarrow> bool"
    and closed :: "'s \<Rightarrow> bool"
    and mtu :: "'s \<Rightarrow> nat"
    and takes :: "'i \<Rightarrow> bool"
    and offers :: "'j \<Rightarrow> 's \<Rightarrow> bytes option"
  assumes send_ok: "ok s \<Longrightarrow> send i data s = (st, s') \<Longrightarrow> ok s' \<and> mtu s' = mtu s"
    and receive_ok: "ok s \<Longrightarrow> device_wf j \<Longrightarrow> receive j dest s = ((rst, b), s') \<Longrightarrow> ok s' \<and> mtu s' = mtu s"
    and close_ok: "ok s \<Longrightarrow> ok (close s) \<and> closed (close s) \<and> mtu (close s) = mtu s"
    and send_closed: "closed s \<Longrightarrow> send i data s = (SendClosed, s)"
    and receive_closed: "closed s \<Longrightarrow> receive j dest s = ((RecvClosed, []), s)"
    and close_closed: "closed s \<Longrightarrow> close s = s"
    and send_accepts_iff: "ok s \<Longrightarrow> \<not> closed s \<Longrightarrow> fst (send i data s) = SendAccepted \<longleftrightarrow>
      takes i \<and> (\<exists>b. data = Some b \<and> 0 < length b \<and> length b \<le> mtu s)"
    and receive_delivers_iff: "ok s \<Longrightarrow> \<not> closed s \<Longrightarrow> device_wf j \<Longrightarrow> fst (receive j dest s) = (RecvReceived, b) \<longleftrightarrow>
      offers j s = Some b \<and> 0 < length b \<and> length b \<le> mtu s \<and> (\<exists>n. dest = Some n \<and> length b \<le> n)"
begin

lemma send_accepts:
  assumes "ok s" "send i data s = (SendAccepted, s')"
  shows "\<exists>b. data = Some b \<and> 0 < length b \<and> length b \<le> mtu s"
  using send_accepts_iff [of s i data] send_closed [of s i data] assms by (cases "closed s") auto

lemma receive_fits:
  assumes "ok s" "device_wf j" "receive j dest s = ((RecvReceived, b), s')"
  shows "0 < length b \<and> length b \<le> mtu s"
  using receive_delivers_iff [of s j dest b] receive_closed [of s j dest] assms by (cases "closed s") auto

lemma run_keeps: "transport_run send receive close device_wf s es s' \<Longrightarrow> ok s \<Longrightarrow> ok s' \<and> mtu s' = mtu s"
  by (induction rule: transport_run.induct) (auto dest: send_ok receive_ok close_ok)

lemma run_sizes:
  assumes "transport_run send receive close device_wf s es s'" "ok s"
  shows "list_all (\<lambda>e. transfers e \<longrightarrow> 0 < length (event_bytes e) \<and> length (event_bytes e) \<le> mtu s) es"
  using assms
proof (induction rule: transport_run.induct)
  case (transport_send s es s' i data st s'')
  note k = run_keeps [OF transport_send(1) transport_send.prems]
  then show ?case using transport_send send_accepts [of s' i data s''] by (cases st) auto
next
  case (transport_receive s es s' j dest st b s'')
  note k = run_keeps [OF transport_receive(1) transport_receive.prems]
  then show ?case using transport_receive receive_fits [of s' j dest b s''] by (cases st) auto
qed auto

lemma run_closed:
  assumes "transport_run send receive close device_wf s es s'" "closed s"
  shows "s' = s \<and> list_all (\<lambda>e. \<not> transfers e) es"
  using assms
  by (induction rule: transport_run.induct) (auto simp: send_closed receive_closed close_closed)

text \<open>A transport that is still open after a run serves with the MTU it was opened with.\<close>

lemma run_serves:
  assumes run: "transport_run send receive close device_wf s es s'" and "ok s"
    and opened: "\<not> closed s \<Longrightarrow> mtu s = m" and still: "\<not> closed s'"
  shows "fst (send i (Some b) s') = SendAccepted \<longleftrightarrow> takes i \<and> 0 < length b \<and> length b \<le> m"
    "device_wf j \<Longrightarrow> fst (receive j (Some n) s') = (RecvReceived, b) \<longleftrightarrow>
       offers j s' = Some b \<and> 0 < length b \<and> length b \<le> m \<and> length b \<le> n"
proof -
  have "\<not> closed s" using run_closed [OF run] still by auto
  then have s': "ok s'" "mtu s' = m" using run_keeps [OF run \<open>ok s\<close>] opened by simp_all
  show "fst (send i (Some b) s') = SendAccepted \<longleftrightarrow> takes i \<and> 0 < length b \<and> length b \<le> m"
    using send_accepts_iff [OF s'(1) still, of i "Some b"] s'(2) by simp
  show "device_wf j \<Longrightarrow> fst (receive j (Some n) s') = (RecvReceived, b) \<longleftrightarrow>
       offers j s' = Some b \<and> 0 < length b \<and> length b \<le> m \<and> length b \<le> n"
    using receive_delivers_iff [OF s'(1) still, of j "Some n" b] s'(2) by simp
qed

end

section \<open>The interpretations\<close>

text \<open>A closed transport has closed its device, an open one has a supported MTU. A device that reports a
  datagram has written it to the destination, up to the reported size.\<close>

definition udp_ok :: "udp_transport \<Rightarrow> bool" where
  "udp_ok t \<longleftrightarrow> udp_socket_open t = (\<not> udp_closed t) \<and> (udp_closed t \<or> is_supported_mtu (udp_mtu t))"

definition udp_device_wf :: "udp_receive_result \<Rightarrow> bool" where
  "udp_device_wf r \<longleftrightarrow> usr_size r \<le> length (usr_bytes r)"

definition cap_ok :: "cap_transport \<Rightarrow> bool" where
  "cap_ok t \<longleftrightarrow> cap_radio_on t = (\<not> cap_closed t) \<and> (cap_closed t \<or> is_supported_mtu (cap_mtu t)) \<and>
     length (cap_pending_receive t) \<le> cap_mtu t \<and> (cap_closed t \<longrightarrow> cap_pending_receive t = [])"

definition poll_wf :: "radio_poll_result \<Rightarrow> bool" where
  "poll_wf p \<longleftrightarrow> poll_size p \<le> length (poll_bytes p)"

text \<open>The device takes a datagram when it reports it as sent or started. The datagram it offers is the one it reports; the
  radio transport first delivers the one it holds.\<close>

definition udp_offers :: "udp_receive_result \<Rightarrow> bytes option" where
  "udp_offers r = (if usr_status r = UdpReceived then Some (take (usr_size r) (usr_bytes r)) else None)"

definition cap_takes :: "radio_poll_result \<times> radio_start_status \<Rightarrow> bool" where
  "cap_takes radio \<longleftrightarrow> poll_status (fst radio) \<noteq> PollFailed \<and> snd radio = StartStarted"

definition cap_offers :: "radio_poll_result \<Rightarrow> cap_transport \<Rightarrow> bytes option" where
  "cap_offers p t =
     (if poll_status p = PollFailed then None
      else if cap_pending_receive t \<noteq> [] then Some (cap_pending_receive t)
      else if poll_status p = PollReceived then Some (take (poll_size p) (poll_bytes p)) else None)"

interpretation udp: datagram_transport udp_try_send udp_try_receive udp_close udp_device_wf udp_ok udp_closed udp_mtu
  "\<lambda>i. i = UdpSent" "\<lambda>r t. udp_offers r"
  by unfold_locales
    (auto simp: udp_try_send_def udp_try_receive_def udp_close_def udp_ok_def udp_fail_closed_def udp_drop_def
      udp_device_wf_def udp_offers_def split: if_splits option.splits udp_send_status.splits udp_receive_status.splits)

lemma service_ok:
  assumes "cap_ok t"
  shows "cap_ok (cap_service_radio p t)" "cap_mtu (cap_service_radio p t) = cap_mtu t"
  using assms
  by (auto simp: cap_service_radio_def cap_ok_def cap_drop_def cap_fail_closed_def split: radio_poll_status.splits)

lemma service_closed: "\<not> cap_closed t \<Longrightarrow> cap_closed (cap_service_radio p t) \<longleftrightarrow> poll_status p = PollFailed"
  by (auto simp: cap_service_radio_def cap_drop_def cap_fail_closed_def split: radio_poll_status.splits)

lemma service_pending:
  assumes "\<not> cap_closed t" "cap_ok t" "poll_wf p" "poll_status p \<noteq> PollFailed"
  shows "cap_pending_receive (cap_service_radio p t) = b \<and> b \<noteq> [] \<longleftrightarrow>
    cap_offers p t = Some b \<and> 0 < length b \<and> length b \<le> cap_mtu t"
  using assms by (auto simp: cap_service_radio_def cap_offers_def cap_drop_def cap_ok_def poll_wf_def split: radio_poll_status.splits)

lemma cap_delivers_iff:
  assumes "cap_ok t" "\<not> cap_closed t" "poll_wf p"
  shows "fst (cap_try_receive p dest t) = (RecvReceived, b) \<longleftrightarrow>
    cap_offers p t = Some b \<and> 0 < length b \<and> length b \<le> cap_mtu t \<and> (\<exists>n. dest = Some n \<and> length b \<le> n)"
proof (cases "poll_status p = PollFailed")
  case True
  then show ?thesis using assms(2) service_closed [of t p] by (simp add: cap_try_receive_def cap_offers_def)
next
  case False
  then have "fst (cap_try_receive p dest t) = (RecvReceived, b) \<longleftrightarrow>
      (cap_pending_receive (cap_service_radio p t) = b \<and> b \<noteq> []) \<and> (\<exists>n. dest = Some n \<and> length b \<le> n)"
    using assms(2) service_closed [of t p] by (cases dest) (auto simp: cap_try_receive_def Let_def not_less)
  then show ?thesis unfolding service_pending [OF assms(2,1,3) False] by blast
qed

lemma cap_fail_closed_ok:
  assumes "cap_ok t"
  shows "cap_ok (cap_fail_closed t)" "cap_mtu (cap_fail_closed t) = cap_mtu t"
  using assms by (auto simp: cap_fail_closed_def cap_ok_def)

lemma cap_metrics_ok [simp]:
  "cap_ok (t\<lparr>cap_metrics_of := m\<rparr>) = cap_ok t" "cap_ok t \<Longrightarrow> cap_ok (t\<lparr>cap_pending_receive := []\<rparr>)"
  by (auto simp: cap_ok_def)

interpretation cap: datagram_transport cap_try_send cap_try_receive cap_close poll_wf cap_ok cap_closed cap_mtu
  cap_takes cap_offers
proof
  fix t t' i data st
  assume ok: "cap_ok t"
  { assume "cap_try_send i data t = (st, t')"
    then show "cap_ok t' \<and> cap_mtu t' = cap_mtu t"
      using ok service_ok [OF ok, of "fst i"] cap_fail_closed_ok [OF service_ok(1) [OF ok, of "fst i"]]
      by (auto simp: cap_try_send_def Let_def split: if_splits radio_start_status.splits) }
  { assume "\<not> cap_closed t"
    then show "fst (cap_try_send i data t) = SendAccepted \<longleftrightarrow>
        cap_takes i \<and> (\<exists>b. data = Some b \<and> 0 < length b \<and> length b \<le> cap_mtu t)"
      using service_closed [of t "fst i"]
      by (auto simp: cap_try_send_def cap_takes_def Let_def split: radio_start_status.splits) }
  show "cap_ok (cap_close t) \<and> cap_closed (cap_close t) \<and> cap_mtu (cap_close t) = cap_mtu t"
    using ok by (auto simp: cap_close_def cap_ok_def)
next
  fix t t' j dest rst b
  assume ok: "cap_ok t"
  note s = service_ok [OF ok, of j]
  { assume "cap_try_receive j dest t = ((rst, b), t')"
    then show "cap_ok t' \<and> cap_mtu t' = cap_mtu t"
      using ok s by (auto simp: cap_try_receive_def Let_def split: if_splits) }
  { assume "\<not> cap_closed t" "poll_wf j"
    then show "fst (cap_try_receive j dest t) = (RecvReceived, b) \<longleftrightarrow>
        cap_offers j t = Some b \<and> 0 < length b \<and> length b \<le> cap_mtu t \<and> (\<exists>n. dest = Some n \<and> length b \<le> n)"
      by (rule cap_delivers_iff [OF ok]) }
qed (auto simp: cap_try_send_def cap_try_receive_def cap_close_def)

lemma udp_new_ok: "udp_ok (udp_new mtu ready)" "udp_mtu (udp_new mtu ready) \<le> mtu"
  "\<not> udp_closed (udp_new mtu ready) \<Longrightarrow> udp_mtu (udp_new mtu ready) = mtu"
  by (auto simp: udp_new_def udp_ok_def is_supported_mtu_def Let_def)

lemma cap_new_ok: "cap_ok (cap_new mtu ready)" "cap_mtu (cap_new mtu ready) \<le> mtu"
  "\<not> cap_closed (cap_new mtu ready) \<Longrightarrow> cap_mtu (cap_new mtu ready) = mtu"
  by (auto simp: cap_new_def cap_ok_def is_supported_mtu_def Let_def)

text \<open>A datagram that is transferred has between one byte and the MTU the transport was made with.\<close>

definition sized :: "nat \<Rightarrow> transport_event \<Rightarrow> bool" where
  "sized mtu e \<longleftrightarrow> \<not> transfers e \<or> (0 < length (event_bytes e) \<and> length (event_bytes e) \<le> mtu)"

text \<open>A destination that is too small for the datagram: the radio transport keeps it for a later call, as the
  port demands; the UDP transport has lost it.\<close>

lemma udp_truncated_dropped:
  assumes "\<not> udp_closed t" "0 < n" "usr_status r = UdpTruncated"
  shows "udp_try_receive r (Some n) t = ((RecvWouldBlock, []), udp_drop t)"
  using assms by (simp add: udp_try_receive_def)

lemma cap_small_destination_kept:
  assumes "\<not> cap_closed t" "0 < n" "n < length (cap_pending_receive t)" "poll_status p = PollIdle"
  shows "cap_try_receive p (Some n) t = ((RecvInvalid, []), t)"
  using assms by (auto simp: cap_try_receive_def cap_service_radio_def)

section \<open>Properties\<close>

text \<open>C29: Both transports keep the port's contract, whatever the socket or the radio answers: every
  datagram they accept or deliver has between one byte and the MTU they were made with. A transport that is still open
  accepts a datagram exactly when it has such a size and the device takes it, and delivers one exactly when the device
  offers it, it has such a size and it fits the destination; what is delivered is what the device offered. Closing is final
  (a closed transport changes no more and transfers nothing), and a transport is closed exactly when its device has been
  shut down. The hypothesis \<open>device_wf\<close> (here \<open>udp_device_wf\<close> and \<open>poll_wf\<close>) is that a device which reports a datagram
  has written as many bytes as it reports.\<close>

theorem transports_keep_contract:
  assumes "transport_run udp_try_send udp_try_receive udp_close udp_device_wf (udp_new mtu ready) es u"
    "transport_run udp_try_send udp_try_receive udp_close udp_device_wf u es' u'"
    "transport_run cap_try_send cap_try_receive cap_close poll_wf (cap_new mtu ready) fs c"
    "transport_run cap_try_send cap_try_receive cap_close poll_wf c fs' c'"
  shows "list_all (sized mtu) (es @ fs) \<and> udp_socket_open u = (\<not> udp_closed u) \<and> cap_radio_on c = (\<not> cap_closed c) \<and>
    (udp_closed u \<longrightarrow> u' = u \<and> list_all (\<lambda>e. \<not> transfers e) es') \<and>
    (cap_closed c \<longrightarrow> c' = c \<and> list_all (\<lambda>e. \<not> transfers e) fs') \<and>
    (\<not> udp_closed u \<longrightarrow>
      (\<forall>i b. fst (udp_try_send i (Some b) u) = SendAccepted \<longleftrightarrow> i = UdpSent \<and> 0 < length b \<and> length b \<le> mtu) \<and>
      (\<forall>r n b. udp_device_wf r \<longrightarrow> fst (udp_try_receive r (Some n) u) = (RecvReceived, b) \<longleftrightarrow>
         udp_offers r = Some b \<and> 0 < length b \<and> length b \<le> mtu \<and> length b \<le> n)) \<and>
    (\<not> cap_closed c \<longrightarrow>
      (\<forall>i b. fst (cap_try_send i (Some b) c) = SendAccepted \<longleftrightarrow> cap_takes i \<and> 0 < length b \<and> length b \<le> mtu) \<and>
      (\<forall>p n b. poll_wf p \<longrightarrow> fst (cap_try_receive p (Some n) c) = (RecvReceived, b) \<longleftrightarrow>
         cap_offers p c = Some b \<and> 0 < length b \<and> length b \<le> mtu \<and> length b \<le> n))"
proof (intro conjI impI allI)
  show "list_all (sized mtu) (es @ fs)"
    using udp.run_sizes [OF assms(1) udp_new_ok(1)] cap.run_sizes [OF assms(3) cap_new_ok(1)]
      udp_new_ok(2) [of mtu ready] cap_new_ok(2) [of mtu ready]
    by (auto simp: list_all_iff sized_def intro: order_trans)
qed (use udp.run_keeps [OF assms(1) udp_new_ok(1)] cap.run_keeps [OF assms(3) cap_new_ok(1)]
    udp.run_closed [OF assms(2)] cap.run_closed [OF assms(4)] in \<open>simp_all add: udp_ok_def cap_ok_def
      udp.run_serves [OF assms(1) udp_new_ok(1) udp_new_ok(3)] cap.run_serves [OF assms(3) cap_new_ok(1) cap_new_ok(3)]\<close>)

theorem transports_keep_contract_witness:
  "\<exists>u. transport_run udp_try_send udp_try_receive udp_close udp_device_wf (udp_new 64 True) [Sent (Some [7]) SendAccepted] u \<and>
     list_all (sized 64) [Sent (Some [7]) SendAccepted, Shut] \<and> udp_socket_open u \<and>
     fst (udp_try_send UdpSent (Some (replicate 64 1)) u) = SendAccepted \<and>
     fst (udp_try_send UdpSent (Some (replicate 65 1)) u) \<noteq> SendAccepted \<and>
     \<not> cap_radio_on (cap_close (cap_new 64 True))"
proof -
  obtain u where send: "udp_try_send UdpSent (Some [7]) (udp_new 64 True) = (SendAccepted, u)" "\<not> udp_closed u"
    by (simp add: udp_try_send_def udp_new_def)
  have u: "transport_run udp_try_send udp_try_receive udp_close udp_device_wf (udp_new 64 True) ([] @ [Sent (Some [7]) SendAccepted]) u"
    using transport_refl send(1) by (rule transport_send)
  have c: "transport_run cap_try_send cap_try_receive cap_close poll_wf (cap_new 64 True) ([] @ [Shut]) (cap_close (cap_new 64 True))"
    by (rule transport_close [OF transport_refl])
  have closed: "cap_closed (cap_close (cap_new 64 True))" by (simp add: cap_close_def)
  from transports_keep_contract [OF u transport_refl c transport_refl] u send(2) closed show ?thesis
    by (intro exI [of _ u]) simp
qed

end
