(* ===== verification/App_Runtime.thy ===== *)
theory App_Runtime
  imports App_Session App_Scheduler Protocol_Ingress Adapter_Transports
begin

text \<open>
  Model of \<^verbatim>\<open>src/app/radio_runtime.cpp\<close>: the bridge that moves queued posts of the session into the scheduler, marks
  them by the scheduler's terminal events, feeds received datagrams to the inbound queue and hands completed posts
  to the session. What one \<open>pump\<close> sees of the transport, of the random source and of the storage is an
  argument (\<open>pump_io\<close>); the offers it makes to the transport are part of its result.
\<close>

section \<open>Definitions\<close>

definition kMaximumRadioWorkPerPump :: nat where [simp]: "kMaximumRadioWorkPerPump = 4"

record runtime_metrics =
  rm_received_datagrams :: u64
  rm_receive_overflow :: u64
  rm_completed_posts :: u64
  rm_duplicate_posts :: u64
  rm_rejected_posts :: u64
  rm_broadcast_posts :: u64
  rm_failed_posts :: u64

record 'p runtime =
  rt_policy :: 'p
  rt_scheduler :: scheduler
  rt_inbound :: inbound_queue
  rt_stopped :: bool
  rt_valid :: bool
  rt_metrics :: runtime_metrics

text \<open>The transport as the constructor sees it; the result says whether it closes the transport.\<close>

definition runtime_new :: "'p \<Rightarrow> nat \<Rightarrow> bool \<Rightarrow> 'p runtime \<times> bool" where
  "runtime_new policy mtu transport_closed =
     (let valid = (\<not> transport_closed \<and> mtu \<ge> kMinimumDatagramMtu \<and> mtu \<le> kMaximumDatagramBytes);
          rt = \<lparr>rt_policy = policy, rt_scheduler = scheduler_new, rt_inbound = inbound_queue_new mtu, rt_stopped = False,
                rt_valid = valid, rt_metrics = \<lparr>rm_received_datagrams = 0, rm_receive_overflow = 0, rm_completed_posts = 0,
                  rm_duplicate_posts = 0, rm_rejected_posts = 0, rm_broadcast_posts = 0, rm_failed_posts = 0\<rparr>\<rparr>
      in if \<not> valid then (rt\<lparr>rt_inbound := ingress_stop (rt_inbound rt), rt_stopped := True\<rparr>, True) else (rt, False))"

definition runtime_ready :: "bool \<Rightarrow> 'p runtime \<Rightarrow> bool" where
  "runtime_ready transport_connected rt \<longleftrightarrow> rt_valid rt \<and> \<not> rt_stopped rt \<and> transport_connected"

text \<open>The answers during one pump: the transport, the results of the successive receives, the random bytes for each
  enqueued post, and the storage for each operation of the session.\<close>

record pump_io =
  pio_transport :: transport_view
  pio_connected :: bool
  pio_received :: "receive_result list"
  pio_fill :: "message_id \<Rightarrow> nat \<Rightarrow> bytes option"
  pio_mark :: "message_id \<Rightarrow> session_io"
  pio_event :: session_io
  pio_accept :: "nat \<Rightarrow> session_io"

text \<open>Marking and accepting use neither the random source nor the clock.\<close>

definition idle_ports :: command_ports where
  "idle_ports = \<lparr>port_random = None, port_clock = None, port_commit = None\<rparr>"

definition count_failed :: "'p runtime \<Rightarrow> 'p runtime" where
  "count_failed rt = rt\<lparr>rt_metrics := (rt_metrics rt)\<lparr>rm_failed_posts := rm_failed_posts (rt_metrics rt) + 1\<rparr>\<rparr>"

text \<open>The loop over the entries of the timeline.\<close>

fun enqueue_queued_loop ::
  "pump_io \<Rightarrow> u64 \<Rightarrow> timeline_entry list \<Rightarrow> 'p runtime \<Rightarrow> session \<Rightarrow> disk \<Rightarrow> bool \<times> 'p runtime \<times> session \<times> disk" where
  "enqueue_queued_loop io now [] rt s d = (False, rt, s, d)"
| "enqueue_queued_loop io now (e # es) rt s d =
     (if \<not> entry_is_queued e then enqueue_queued_loop io now es rt s d
      else case scheduler_enqueue (pio_fill io (entry_id e)) (entry_post e)
          (tv_maximum_datagram_size (pio_transport io)) now (rt_scheduler rt) of
        (err, sched) \<Rightarrow>
          let rt = rt\<lparr>rt_scheduler := sched\<rparr>
          in if err = None \<or> err = Some SchedDuplicateMessage \<or> err = Some SchedQueueFull
             then enqueue_queued_loop io now es rt s d
             else (case session_execute (pio_mark io (entry_id e)) idle_ports (MarkFailed (entry_id e)) s d of
                (r, s, d) \<Rightarrow>
                  if cr_error r = None then (True, count_failed rt, s, d)
                  else enqueue_queued_loop io now es rt s d))"

definition enqueue_queued_posts ::
  "pump_io \<Rightarrow> u64 \<Rightarrow> 'p runtime \<Rightarrow> session \<Rightarrow> disk \<Rightarrow> bool \<times> 'p runtime \<times> session \<times> disk" where
  "enqueue_queued_posts io now rt s d = enqueue_queued_loop io now (entries (ms_timeline (messenger s))) rt s d"

text \<open>The transition of the session for a terminal event.\<close>

definition mark_event ::
  "session_io \<Rightarrow> outbound_event \<Rightarrow> 'p runtime \<Rightarrow> session \<Rightarrow> disk \<Rightarrow> bool \<times> 'p runtime \<times> session \<times> disk" where
  "mark_event io ev rt s d =
     (if event_state ev = OutBroadcast
      then (case session_execute io idle_ports (MarkBroadcast (event_message_id ev)) s d of
         (r, s, d) \<Rightarrow>
           if cr_error r = None
           then (True, rt\<lparr>rt_metrics := (rt_metrics rt)\<lparr>rm_broadcast_posts := rm_broadcast_posts (rt_metrics rt) + 1\<rparr>\<rparr>, s, d)
           else (False, rt, s, d))
      else (case session_execute io idle_ports (MarkFailed (event_message_id ev)) s d of
         (r, s, d) \<Rightarrow> if cr_error r = None then (True, count_failed rt, s, d) else (False, rt, s, d)))"

definition pump_outbound ::
  "'p policy_ops \<Rightarrow> pump_io \<Rightarrow> u64 \<Rightarrow> 'p runtime \<Rightarrow> session \<Rightarrow> disk
     \<Rightarrow> (bool \<times> 'p runtime \<times> session \<times> disk) \<times> offer list" where
  "pump_outbound ops io now rt s d =
     (let out = pump ops now (pio_transport io) (rt_policy rt) (rt_scheduler rt);
          rt = rt\<lparr>rt_scheduler := out_scheduler out, rt_policy := out_policy out\<rparr>
      in case out_event out of
           None \<Rightarrow> ((False, rt, s, d), out_offers out)
         | Some ev \<Rightarrow> (mark_event (pio_event io) ev rt s d, out_offers out))"

text \<open>The receive loop, with the work left.\<close>

fun receive_loop :: "u64 \<Rightarrow> nat \<Rightarrow> receive_result list \<Rightarrow> 'p runtime \<Rightarrow> 'p runtime" where
  "receive_loop now 0 results rt = rt"
| "receive_loop now (Suc work) [] rt = rt"
| "receive_loop now (Suc work) ((status, datagram) # results) rt =
     (if status \<noteq> RecvReceived then rt
      else case ingress_enqueue (Some datagram) now (rt_inbound rt) of
        (enqueued, q) \<Rightarrow>
          let m = rt_metrics rt;
              m = m\<lparr>rm_received_datagrams := rm_received_datagrams m + 1\<rparr>;
              m = (if enqueued = EnqueueQueueFull then m\<lparr>rm_receive_overflow := rm_receive_overflow m + 1\<rparr> else m)
          in receive_loop now work results (rt\<lparr>rt_inbound := q, rt_metrics := m\<rparr>))"

definition count_inbound :: "inbound_post_status \<Rightarrow> runtime_metrics \<Rightarrow> runtime_metrics" where
  "count_inbound status m =
     (if status = InAccepted then m\<lparr>rm_completed_posts := rm_completed_posts m + 1\<rparr>
      else if status = InDuplicate then m\<lparr>rm_duplicate_posts := rm_duplicate_posts m + 1\<rparr>
      else m\<lparr>rm_rejected_posts := rm_rejected_posts m + 1\<rparr>)"

text \<open>The processing loop, with the work left and whether a post was accepted.\<close>

fun process_loop ::
  "pump_io \<Rightarrow> u64 \<Rightarrow> nat \<Rightarrow> bool \<Rightarrow> 'p runtime \<Rightarrow> session \<Rightarrow> disk \<Rightarrow> bool \<times> 'p runtime \<times> session \<times> disk" where
  "process_loop io now 0 changed rt s d = (changed, rt, s, d)"
| "process_loop io now (Suc work) changed rt s d =
     (case process_next now (rt_inbound rt) of
        ((status, completed), q) \<Rightarrow>
          let rt = rt\<lparr>rt_inbound := q\<rparr>
          in if status = IngressEmpty then (changed, rt, s, d)
             else case completed of
               None \<Rightarrow> process_loop io now work changed rt s d
             | Some c \<Rightarrow>
                 if status \<noteq> IngressComplete then process_loop io now work changed rt s d
                 else (case accept_received_post (pio_accept io work) idle_ports (canonical_post c) s d of
                    (accepted, s, d) \<Rightarrow>
                      let rt = (if accepted = InAccepted \<or> accepted = InDuplicate
                                then rt\<lparr>rt_inbound := mark_committed (canonical_frames c) now (rt_inbound rt)\<rparr> else rt);
                          rt = rt\<lparr>rt_metrics := count_inbound accepted (rt_metrics rt)\<rparr>
                      in process_loop io now work (changed \<or> accepted = InAccepted) rt s d))"

definition pump_inbound ::
  "pump_io \<Rightarrow> u64 \<Rightarrow> 'p runtime \<Rightarrow> session \<Rightarrow> disk \<Rightarrow> bool \<times> 'p runtime \<times> session \<times> disk" where
  "pump_inbound io now rt s d =
     process_loop io now kMaximumRadioWorkPerPump False
       (receive_loop now kMaximumRadioWorkPerPump (pio_received io) rt) s d"

definition runtime_pump ::
  "'p policy_ops \<Rightarrow> pump_io \<Rightarrow> u64 \<Rightarrow> 'p runtime \<Rightarrow> session \<Rightarrow> disk
     \<Rightarrow> (bool \<times> 'p runtime \<times> session \<times> disk) \<times> offer list" where
  "runtime_pump ops io now rt s d =
     (if \<not> rt_valid rt \<or> rt_stopped rt \<or> startup_status s \<noteq> SessionReady then ((False, rt, s, d), [])
      else if \<not> pio_connected io \<and> \<not> tv_closed (pio_transport io) then ((False, rt, s, d), [])
      else case enqueue_queued_posts io now rt s d of
        (enqueued, rt, s, d) \<Rightarrow>
          (case pump_outbound ops io now rt s d of
             ((sent, rt, s, d), offers) \<Rightarrow>
               (case pump_inbound io now rt s d of
                  (received, rt, s, d) \<Rightarrow> ((enqueued \<or> sent \<or> received, rt, s, d), offers))))"

text \<open>Stopping; the result says whether the transport is closed now.\<close>

definition runtime_stop :: "'p runtime \<Rightarrow> 'p runtime \<times> bool" where
  "runtime_stop rt =
     (if rt_stopped rt then (rt, False)
      else (rt\<lparr>rt_stopped := True, rt_scheduler := cancel_all (rt_scheduler rt), rt_inbound := ingress_stop (rt_inbound rt)\<rparr>,
            True))"

section \<open>Marked entries\<close>

definition broadcast_ids :: "session \<Rightarrow> message_id set" where
  "broadcast_ids s = entry_id ` {e \<in> set (entries (ms_timeline (messenger s))). origin e = LocalDelivery Broadcast}"

lemma transition_entries:
  assumes "e \<in> set (entries (snd (timeline_transition t mid target)))"
  shows "e \<in> set (entries t) \<or> (origin e = LocalDelivery target \<and> entry_id e = mid)"
proof (rule timeline_transition_cases [of t mid target])
  fix i assume i: "i < length (entries t)" "entry_id (entries t ! i) = mid"
    and eq: "timeline_transition t mid target =
         (None, t\<lparr>entries := set_origin_at i (LocalDelivery target) (entries t)\<rparr>)"
  have "e \<in> set ((entries t)[i := (entries t ! i)\<lparr>origin := LocalDelivery target\<rparr>])"
    using assms eq by (simp add: set_origin_at_def)
  then have "e = (entries t ! i)\<lparr>origin := LocalDelivery target\<rparr> \<or> e \<in> set (entries t)"
    using set_update_subset_insert by fastforce
  then show ?thesis using i by auto
qed (use assms in simp_all)

lemma insert_entries:
  assumes "timeline_ok t" "timeline_insert t p orig prot = (r, u)" "e \<in> set (entries u)"
  shows "e \<in> set (entries t) \<or> origin e = orig"
proof (cases "insert_error r")
  case (Some x)
  then show ?thesis using timeline_insert_refused(1) [OF assms(2)] assms(3) by simp
next
  case None
  have len: "length (entries t) \<le> tl_capacity t" using assms(1) by (simp add: timeline_ok_def)
  from timeline_insert_success(1) [OF assms(2) None len] assms(3) set_kept_subset [of t prot]
  show ?thesis by (auto simp: stamped_def)
qed

lemma session_execute_messenger:
  assumes "session_execute io ports c s d = (r, s', d')"
  obtains oks where "messenger s' = fst (snd (execute (answered ports oks) c (messenger s)))"
  using assms by (auto simp: session_execute_alt Let_def split: prod.splits)

lemma session_execute_keeps_ok:
  assumes "session_execute io ports c s d = (r, s', d')" "ports_wf ports" "command_wf c" "messenger_ok (messenger s)"
  shows "messenger_ok (messenger s')"
proof -
  obtain oks where m: "messenger s' = fst (snd (execute (answered ports oks) c (messenger s)))"
    using assms(1) by (rule session_execute_messenger)
  obtain x y z where "execute (answered ports oks) c (messenger s) = (x, y, z)" by (metis prod_cases3)
  with m execute_ok [OF assms(4) _ assms(3) this] assms(2) show ?thesis by simp
qed

lemma accept_post_keeps_ok:
  assumes run: "accept_received_post io ports b s d = (r, s', d')" and "ports_wf ports" "messenger_ok (messenger s)"
  shows "messenger_ok (messenger s')"
proof (cases "\<exists>q r'. decode_post_bytes b = Inr q \<and> session_execute io ports (AcceptReceived q) s d = (r', s', d')")
  case True
  then obtain q r' where q: "decode_post_bytes b = Inr q" "session_execute io ports (AcceptReceived q) s d = (r', s', d')"
    by blast
  then have "command_wf (AcceptReceived q)" by (simp add: decode_post_bytes_def decode_post_Inr_encode)
  then show ?thesis using session_execute_keeps_ok [OF q(2)] assms by blast
next
  case False
  then have "s' = s" using run
    by (auto simp: accept_received_post_def split: if_splits sum.splits dedupe_classification.splits prod.splits)
  then show ?thesis using assms by simp
qed

lemma mark_timeline:
  "ms_timeline (fst (snd (messenger_transition ports mid b m))) = ms_timeline m \<or>
   ms_timeline (fst (snd (messenger_transition ports mid b m))) =
     snd (timeline_transition (ms_timeline m) mid (if b then Broadcast else Failed))"
  by (auto simp: messenger_transition_def timeline_mark_broadcast_def timeline_mark_failed_def Let_def
      split: option.splits prod.splits)

lemma mark_broadcast_ids:
  assumes "session_execute io ports c s d = (r, s', d')"
  shows "c = MarkBroadcast mid \<Longrightarrow> broadcast_ids s' \<subseteq> insert mid (broadcast_ids s)"
    "c = MarkFailed mid \<Longrightarrow> broadcast_ids s' \<subseteq> broadcast_ids s"
proof -
  obtain oks where m: "messenger s' = fst (snd (execute (answered ports oks) c (messenger s)))"
    using assms by (rule session_execute_messenger)
  show "broadcast_ids s' \<subseteq> insert mid (broadcast_ids s)" if "c = MarkBroadcast mid"
    using that m mark_timeline [of "answered ports oks" mid True "messenger s"]
    by (auto simp: broadcast_ids_def messenger_mark_broadcast_def dest!: transition_entries)
  show "broadcast_ids s' \<subseteq> broadcast_ids s" if "c = MarkFailed mid"
    using that m mark_timeline [of "answered ports oks" mid False "messenger s"]
    by (auto simp: broadcast_ids_def messenger_mark_failed_def dest!: transition_entries)
qed

lemma accept_broadcast_ids:
  assumes run: "accept_received_post io ports b s d = (r, s', d')" and ok: "timeline_ok (ms_timeline (messenger s))"
  shows "broadcast_ids s' \<subseteq> broadcast_ids s"
proof (cases "\<exists>q r'. session_execute io ports (AcceptReceived q) s d = (r', s', d')")
  case False
  then have "s' = s" using run
    by (auto simp: accept_received_post_def split: if_splits sum.splits dedupe_classification.splits prod.splits)
  then show ?thesis by simp
next
  case True
  then obtain q r' where q: "session_execute io ports (AcceptReceived q) s d = (r', s', d')" by blast
  obtain oks where m: "messenger s' = fst (snd (execute (answered ports oks) (AcceptReceived q) (messenger s)))"
    using q by (rule session_execute_messenger)
  obtain x u where u: "insert_received (ms_timeline (messenger s)) q = (x, u)" by fastforce
  have "ms_timeline (messenger s') = ms_timeline (messenger s) \<or> ms_timeline (messenger s') = u"
    using m u by (auto simp: accept_received_def Let_def split: option.splits prod.splits)
  moreover have "e \<in> set (entries (ms_timeline (messenger s)))"
    if "e \<in> set (entries u)" "origin e = LocalDelivery Broadcast" for e
    using insert_entries [OF ok u [unfolded insert_received_def] that(1)] that(2) by simp
  ultimately show ?thesis by (auto simp: broadcast_ids_def)
qed

section \<open>The parts of a pump\<close>

lemma idle_ports_wf [simp]: "ports_wf idle_ports"
  by (simp add: idle_ports_def ports_wf_def)

text \<open>Steps that change the session by its own operations, make no offers and report nothing as broadcast.\<close>

definition quiet :: "'p policy_ops \<Rightarrow> 'p runtime \<times> session \<times> disk \<Rightarrow> 'p runtime \<times> session \<times> disk \<Rightarrow> bool" where
  "quiet ops = (\<lambda>(rt, s, d) (rt', s', d').
     session_step\<^sup>*\<^sup>* (s, d) (s', d') \<and> broadcast_ids s' \<subseteq> broadcast_ids s \<and>
     (\<exists>ls. sched_run ops (rt_scheduler rt, rt_policy rt) ls (rt_scheduler rt', rt_policy rt') \<and> run_offers ls = []) \<and>
     rt_valid rt' = rt_valid rt \<and> rt_stopped rt' = rt_stopped rt \<and>
     (messenger_ok (messenger s) \<longrightarrow> messenger_ok (messenger s')) \<and>
     (ingress_ok (rt_inbound rt) \<longrightarrow> ingress_ok (rt_inbound rt')))"

lemma sched_run_append:
  assumes "sched_run ops b ms c" "sched_run ops a ls b"
  shows "sched_run ops a (ls @ ms) c"
  using assms(1,2)
proof (induction arbitrary: rule: sched_run.induct)
  case (sched_snoc c ms c' l c'')
  then have "sched_run ops a ((ls @ ms) @ [l]) c''" by (intro sched_run.sched_snoc) auto
  then show ?case by simp
qed simp

lemma run_offers_append [simp]: "run_offers (ls @ ms) = run_offers ls @ run_offers ms"
  by (simp add: run_offers_def)

lemma quiet_refl [simp]: "quiet ops x x"
  by (auto simp: quiet_def intro: sched_refl exI [of _ "[]"] split: prod.splits)

lemma quiet_trans: "quiet ops x y \<Longrightarrow> quiet ops y z \<Longrightarrow> quiet ops x z"
proof -
  assume a: "quiet ops x y" "quiet ops y z"
  obtain rt s d where x: "x = (rt, s, d)" by (cases x)
  obtain rt' s' d' where y: "y = (rt', s', d')" by (cases y)
  obtain rt'' s'' d'' where z: "z = (rt'', s'', d'')" by (cases z)
  obtain ls ms where "sched_run ops (rt_scheduler rt, rt_policy rt) ls (rt_scheduler rt', rt_policy rt')" "run_offers ls = []"
      "sched_run ops (rt_scheduler rt', rt_policy rt') ms (rt_scheduler rt'', rt_policy rt'')" "run_offers ms = []"
    using a x y z by (auto simp: quiet_def)
  then have "\<exists>ls. sched_run ops (rt_scheduler rt, rt_policy rt) ls (rt_scheduler rt'', rt_policy rt'') \<and> run_offers ls = []"
    by (intro exI [of _ "ls @ ms"]) (auto intro: sched_run_append)
  with a x y z show ?thesis by (auto simp: quiet_def)
qed

lemma quiet_same:
  assumes "rt_scheduler rt' = rt_scheduler rt" "rt_policy rt' = rt_policy rt" "rt_valid rt' = rt_valid rt"
    "rt_stopped rt' = rt_stopped rt" "ingress_ok (rt_inbound rt) \<longrightarrow> ingress_ok (rt_inbound rt')"
    "session_step\<^sup>*\<^sup>* (s, d) (s', d')" "broadcast_ids s' \<subseteq> broadcast_ids s"
    "messenger_ok (messenger s) \<longrightarrow> messenger_ok (messenger s')"
  shows "quiet ops (rt, s, d) (rt', s', d')"
  using assms by (auto simp: quiet_def intro: sched_refl exI [of _ "[]"])

lemma enqueue_loop_quiet:
  assumes "enqueue_queued_loop io now es rt s d = (c, rt', s', d')"
    "list_all (\<lambda>e. post_ok (entry_post e)) es" "\<And>mid. fill_wf (pio_fill io mid)"
  shows "quiet ops (rt, s, d) (rt', s', d')"
  using assms(1,2)
proof (induction es arbitrary: rt s d)
  case (Cons e es)
  show ?case
  proof (cases "entry_is_queued e")
    case False
    then show ?thesis using Cons by simp
  next
    case True
    obtain err sched where enq: "scheduler_enqueue (pio_fill io (entry_id e)) (entry_post e)
        (tv_maximum_datagram_size (pio_transport io)) now (rt_scheduler rt) = (err, sched)" by fastforce
    let ?rt = "rt\<lparr>rt_scheduler := sched\<rparr>"
    have p: "post_ok (entry_post e)" using Cons.prems by simp
    have "\<exists>l. sched_step ops (rt_scheduler rt, rt_policy rt) l (sched, rt_policy rt) \<and> label_offers l = []"
    proof (cases err)
      case None
      then show ?thesis using step_enqueued [OF p assms(3)] enq by fastforce
    next
      case (Some x)
      then show ?thesis using step_refused enq by fastforce
    qed
    then have q: "quiet ops (rt, s, d) (?rt, s, d)"
      using sched_snoc [OF sched_refl] by (fastforce simp: quiet_def run_offers_def)
    show ?thesis
    proof (cases "err = None \<or> err = Some SchedDuplicateMessage \<or> err = Some SchedQueueFull")
      case True
      then have "enqueue_queued_loop io now es ?rt s d = (c, rt', s', d')"
        using Cons.prems(1) \<open>entry_is_queued e\<close> enq by auto
      then show ?thesis using quiet_trans [OF q Cons.IH] Cons.prems(2) by simp
    next
      case False
      obtain r s1 d1 where x: "session_execute (pio_mark io (entry_id e)) idle_ports (MarkFailed (entry_id e)) s d = (r, s1, d1)"
        by (metis prod_cases3)
      have "quiet ops (?rt, s, d) (?rt, s1, d1)" "quiet ops (?rt, s, d) (count_failed ?rt, s1, d1)"
        using step_execute [OF idle_ports_wf _ x] mark_broadcast_ids(2) [OF x refl]
          session_execute_keeps_ok [OF x idle_ports_wf]
        by (auto intro!: quiet_same simp: count_failed_def)
      note moved = quiet_trans [OF q this(1)] quiet_trans [OF q this(2)]
      show ?thesis
      proof (cases "cr_error r = None")
        case True
        then have "(rt', s', d') = (count_failed ?rt, s1, d1)"
          using Cons.prems(1) False x enq \<open>entry_is_queued e\<close> by (auto simp: Let_def)
        then show ?thesis using moved(2) by simp
      next
        case err: False
        then have "enqueue_queued_loop io now es ?rt s1 d1 = (c, rt', s', d')"
          using Cons.prems(1) False x enq \<open>entry_is_queued e\<close> by (auto simp: Let_def)
        from quiet_trans [OF moved(1) Cons.IH [OF this]] Cons.prems(2) show ?thesis by simp
      qed
    qed
  qed
qed simp

lemma receive_loop_quiet: "quiet ops (rt, s, d) (receive_loop now work results rt, s, d)"
proof (induction work arbitrary: results rt)
  case (Suc work)
  show ?case
  proof (cases results)
    case (Cons x rest)
    obtain status datagram where x: "x = (status, datagram)" by (cases x)
    obtain st q where e: "ingress_enqueue (Some datagram) now (rt_inbound rt) = (st, q)" by fastforce
    have "ingress_ok (rt_inbound rt) \<longrightarrow> ingress_ok q" using enqueue_ok [of "rt_inbound rt" "Some datagram" now] e by auto
    then have "quiet ops (rt, s, d) (rt\<lparr>rt_inbound := q, rt_metrics := m\<rparr>, s, d)" for m
      by (intro quiet_same) auto
    from quiet_trans [OF this Suc.IH] show ?thesis using Cons x e by (simp add: Let_def)
  qed simp
qed simp

lemma process_loop_quiet:
  assumes "process_loop io now work changed rt s d = (c, rt', s', d')" "messenger_ok (messenger s)"
  shows "quiet ops (rt, s, d) (rt', s', d')"
  using assms
proof (induction work arbitrary: changed rt s d)
  case (Suc work)
  obtain status completed q where n: "process_next now (rt_inbound rt) = ((status, completed), q)" by (metis prod.exhaust)
  let ?rt = "rt\<lparr>rt_inbound := q\<rparr>"
  have q: "quiet ops (rt, s, d) (?rt, s, d)"
    using process_next_ok [of "rt_inbound rt" now] n by (intro quiet_same) auto
  show ?case
  proof (cases "status = IngressEmpty \<or> completed = None \<or> status \<noteq> IngressComplete")
    case True
    then have "(c, rt', s', d') = (changed, ?rt, s, d) \<or> process_loop io now work changed ?rt s d = (c, rt', s', d')"
      using Suc.prems(1) n by (auto simp: Let_def split: option.splits if_splits)
    then show ?thesis using q quiet_trans [OF q Suc.IH] Suc.prems(2) by auto
  next
    case False
    then obtain p where p: "completed = Some p" by auto
    obtain acc s1 d1 where a: "accept_received_post (pio_accept io work) idle_ports (canonical_post p) s d = (acc, s1, d1)"
      by (metis prod_cases3)
    define rt1 where "rt1 = (let rt = (if acc = InAccepted \<or> acc = InDuplicate
        then ?rt\<lparr>rt_inbound := mark_committed (canonical_frames p) now (rt_inbound ?rt)\<rparr> else ?rt)
      in rt\<lparr>rt_metrics := count_inbound acc (rt_metrics rt)\<rparr>)"
    have ok1: "messenger_ok (messenger s1)" by (rule accept_post_keeps_ok [OF a idle_ports_wf Suc.prems(2)])
    have "quiet ops (?rt, s, d) (rt1, s1, d1)"
      using step_accept [OF idle_ports_wf a] accept_broadcast_ids [OF a messenger_okD(2) [OF Suc.prems(2)]] ok1
        mark_committed_ok [of q "canonical_frames p" now]
      by (intro quiet_same) (auto simp: rt1_def Let_def)
    moreover have "process_loop io now work (changed \<or> acc = InAccepted) rt1 s1 d1 = (c, rt', s', d')"
      using Suc.prems(1) n p False a by (simp add: rt1_def Let_def split: if_splits)
    ultimately show ?thesis using quiet_trans [OF q] quiet_trans [OF _ Suc.IH [OF _ ok1]] by blast
  qed
qed simp

lemma pump_inbound_quiet:
  assumes "pump_inbound io now rt s d = (c, rt', s', d')" "messenger_ok (messenger s)"
  shows "quiet ops (rt, s, d) (rt', s', d')"
  using quiet_trans [OF receive_loop_quiet process_loop_quiet] assms by (simp add: pump_inbound_def)

text \<open>The outbound part: one scheduler step, and at most the reported message is marked.\<close>

lemma pump_outbound_step:
  assumes "pump_outbound ops io now rt s d = ((c, rt', s', d'), offers)"
  shows "\<exists>ev. sched_step ops (rt_scheduler rt, rt_policy rt) (LPumped now ev offers) (rt_scheduler rt', rt_policy rt') \<and>
    session_step\<^sup>*\<^sup>* (s, d) (s', d') \<and> (messenger_ok (messenger s) \<longrightarrow> messenger_ok (messenger s')) \<and>
    broadcast_ids s' \<subseteq> broadcast_ids s \<union> {mid. \<exists>x. ev = Some x \<and> event_message_id x = mid \<and> event_state x = OutBroadcast} \<and>
    rt_valid rt' = rt_valid rt \<and> rt_stopped rt' = rt_stopped rt \<and> rt_inbound rt' = rt_inbound rt"
proof -
  let ?out = "pump ops now (pio_transport io) (rt_policy rt) (rt_scheduler rt)"
  let ?rt = "rt\<lparr>rt_scheduler := out_scheduler ?out, rt_policy := out_policy ?out\<rparr>"
  have step: "sched_step ops (rt_scheduler rt, rt_policy rt) (LPumped now (out_event ?out) (out_offers ?out))
      (out_scheduler ?out, out_policy ?out)" by (rule step_pumped) simp
  show ?thesis
  proof (cases "out_event ?out")
    case None
    then show ?thesis using assms step by (auto simp: pump_outbound_def Let_def)
  next
    case (Some ev)
    let ?c = "if event_state ev = OutBroadcast then MarkBroadcast (event_message_id ev) else MarkFailed (event_message_id ev)"
    obtain r s1 d1 where x: "session_execute (pio_event io) idle_ports ?c s d = (r, s1, d1)" by (metis prod_cases3)
    have eq: "s' = s1 \<and> d' = d1 \<and> offers = out_offers ?out \<and> rt_scheduler rt' = out_scheduler ?out \<and>
        rt_policy rt' = out_policy ?out \<and> rt_valid rt' = rt_valid rt \<and> rt_stopped rt' = rt_stopped rt \<and> rt_inbound rt' = rt_inbound rt"
      using assms Some x
      by (cases "event_state ev = OutBroadcast"; cases "cr_error r")
        (auto simp: pump_outbound_def Let_def mark_event_def count_failed_def)
    have wf: "command_wf ?c" by simp
    have "session_step\<^sup>*\<^sup>* (s, d) (s1, d1)" using step_execute [OF idle_ports_wf wf x] by auto
    moreover have "messenger_ok (messenger s) \<longrightarrow> messenger_ok (messenger s1)"
      using session_execute_keeps_ok [OF x idle_ports_wf wf] by blast
    moreover have "broadcast_ids s1 \<subseteq> broadcast_ids s \<union>
        {mid. \<exists>x. Some ev = Some x \<and> event_message_id x = mid \<and> event_state x = OutBroadcast}"
      using mark_broadcast_ids [OF x, of "event_message_id ev"] by (cases "event_state ev = OutBroadcast") auto
    ultimately show ?thesis using step eq Some by (intro exI [of _ "Some ev"]) auto
  qed
qed

section \<open>Runs\<close>

text \<open>What a pump does, in its three parts.\<close>

lemma runtime_pump_parts:
  assumes run: "runtime_pump ops io now rt s d = ((c, rt', s', d'), offers)" and inv: "session_inv s d"
    and fill: "\<And>mid. fill_wf (pio_fill io mid)"
  obtains (idle) "rt' = rt" "s' = s" "d' = d" "offers = []"
  | (busy) rt1 s1 d1 rt2 s2 d2 ev where "quiet ops (rt, s, d) (rt1, s1, d1)"
      "sched_step ops (rt_scheduler rt1, rt_policy rt1) (LPumped now ev offers) (rt_scheduler rt2, rt_policy rt2)"
      "session_step\<^sup>*\<^sup>* (s1, d1) (s2, d2)"
      "broadcast_ids s2 \<subseteq> broadcast_ids s1 \<union> {mid. \<exists>x. ev = Some x \<and> event_message_id x = mid \<and> event_state x = OutBroadcast}"
      "rt_valid rt2 = rt_valid rt1" "rt_stopped rt2 = rt_stopped rt1" "rt_inbound rt2 = rt_inbound rt1"
      "quiet ops (rt2, s2, d2) (rt', s', d')"
proof (cases "\<not> rt_valid rt \<or> rt_stopped rt \<or> startup_status s \<noteq> SessionReady \<or>
    (\<not> pio_connected io \<and> \<not> tv_closed (pio_transport io))")
  case True
  then show ?thesis using run by (intro idle) (auto simp: runtime_pump_def split: if_splits)
next
  case False
  have live: "session_live s d" using inv False by (simp add: session_inv_def)
  note m = session_messenger_ok [OF live]
  have posts: "list_all (\<lambda>e. post_ok (entry_post e)) (entries (ms_timeline (messenger s)))"
    using messenger_okD(1) [OF m] by (simp add: timeline_posts_ok_def)
  obtain c1 rt1 s1 d1 where e: "enqueue_queued_posts io now rt s d = (c1, rt1, s1, d1)" by (metis prod_cases4)
  obtain c2 rt2 s2 d2 offs where o: "pump_outbound ops io now rt1 s1 d1 = ((c2, rt2, s2, d2), offs)" by (metis prod.exhaust)
  obtain c3 rt3 s3 d3 where i: "pump_inbound io now rt2 s2 d2 = (c3, rt3, s3, d3)" by (metis prod_cases4)
  have eq: "rt' = rt3" "s' = s3" "d' = d3" "offers = offs" using run False e o i by (auto simp: runtime_pump_def)
  have q1: "quiet ops (rt, s, d) (rt1, s1, d1)"
    using enqueue_loop_quiet [OF e [unfolded enqueue_queued_posts_def] posts fill] .
  then have m1: "messenger_ok (messenger s1)" using m by (simp add: quiet_def)
  from pump_outbound_step [OF o] m1 obtain ev where ev:
    "sched_step ops (rt_scheduler rt1, rt_policy rt1) (LPumped now ev offs) (rt_scheduler rt2, rt_policy rt2)"
    "session_step\<^sup>*\<^sup>* (s1, d1) (s2, d2)" "messenger_ok (messenger s2)"
    "broadcast_ids s2 \<subseteq> broadcast_ids s1 \<union> {mid. \<exists>x. ev = Some x \<and> event_message_id x = mid \<and> event_state x = OutBroadcast}"
    "rt_valid rt2 = rt_valid rt1" "rt_stopped rt2 = rt_stopped rt1" "rt_inbound rt2 = rt_inbound rt1"
    by (elim exE conjE) (rule that, simp_all)
  have "quiet ops (rt2, s2, d2) (rt3, s3, d3)" by (rule pump_inbound_quiet [OF i ev(3)])
  then show ?thesis using busy [OF q1] ev eq by simp
qed

text \<open>A runtime and its session: pumps, operations of the session between them, and the stop, with the
  offers made to the transport so far.\<close>

inductive runtime_run :: "'p policy_ops \<Rightarrow> 'p \<Rightarrow> offer list \<Rightarrow> 'p runtime \<times> session \<times> disk \<Rightarrow> bool" for ops p where
  runtime_start: "runtime_new p mtu transport_closed = (rt, x) \<Longrightarrow> session_inv s d \<Longrightarrow> runtime_run ops p [] (rt, s, d)"
| runtime_pumped: "runtime_run ops p trace (rt, s, d) \<Longrightarrow> (\<And>mid. fill_wf (pio_fill io mid)) \<Longrightarrow>
    runtime_pump ops io now rt s d = ((c, rt', s', d'), offers) \<Longrightarrow> runtime_run ops p (trace @ offers) (rt', s', d')"
| runtime_session: "runtime_run ops p trace (rt, s, d) \<Longrightarrow> session_step (s, d) (s', d') \<Longrightarrow> runtime_run ops p trace (rt, s', d')"
| runtime_stopped: "runtime_run ops p trace (rt, s, d) \<Longrightarrow> runtime_stop rt = (rt', x) \<Longrightarrow> runtime_run ops p trace (rt', s, d)"

definition runtime_inv :: "'p policy_ops \<Rightarrow> 'p \<Rightarrow> offer list \<Rightarrow> 'p runtime \<times> session \<times> disk \<Rightarrow> bool" where
  "runtime_inv ops p trace = (\<lambda>(rt, s, d).
     session_inv s d \<and> (rt_valid rt \<longrightarrow> ingress_ok (rt_inbound rt)) \<and>
     (\<exists>ls. sched_run ops (scheduler_new, p) ls (rt_scheduler rt, rt_policy rt) \<and> run_offers ls = trace))"

lemma quiet_inv:
  assumes "quiet ops (rt, s, d) (rt', s', d')" "runtime_inv ops p trace (rt, s, d)"
  shows "runtime_inv ops p trace (rt', s', d')"
proof -
  obtain ls ms where "sched_run ops (scheduler_new, p) ls (rt_scheduler rt, rt_policy rt)" "run_offers ls = trace"
      "sched_run ops (rt_scheduler rt, rt_policy rt) ms (rt_scheduler rt', rt_policy rt')" "run_offers ms = []"
    using assms by (auto simp: quiet_def runtime_inv_def)
  then have "sched_run ops (scheduler_new, p) (ls @ ms) (rt_scheduler rt', rt_policy rt')" "run_offers (ls @ ms) = trace"
    by (auto intro: sched_run_append)
  moreover have "session_inv s' d'" using assms session_steps_inv [of "(s, d)" "(s', d')"]
    by (auto simp: quiet_def runtime_inv_def)
  ultimately show ?thesis using assms by (auto simp: quiet_def runtime_inv_def)
qed

lemma pump_inv:
  assumes inv: "runtime_inv ops p trace (rt, s, d)" and fill: "\<And>mid. fill_wf (pio_fill io mid)"
    and run: "runtime_pump ops io now rt s d = ((c, rt', s', d'), offers)"
  shows "runtime_inv ops p (trace @ offers) (rt', s', d')"
proof -
  have sinv: "session_inv s d" using inv by (simp add: runtime_inv_def)
  show ?thesis
  proof (rule runtime_pump_parts [OF run sinv fill])
    fix rt1 s1 d1 rt2 s2 d2 ev
    assume q1: "quiet ops (rt, s, d) (rt1, s1, d1)"
      and st: "sched_step ops (rt_scheduler rt1, rt_policy rt1) (LPumped now ev offers) (rt_scheduler rt2, rt_policy rt2)"
      and ss: "session_step\<^sup>*\<^sup>* (s1, d1) (s2, d2)" and same: "rt_valid rt2 = rt_valid rt1" "rt_inbound rt2 = rt_inbound rt1"
      and q2: "quiet ops (rt2, s2, d2) (rt', s', d')"
    have inv1: "runtime_inv ops p trace (rt1, s1, d1)" by (rule quiet_inv [OF q1 inv])
    then obtain ls where ls: "sched_run ops (scheduler_new, p) ls (rt_scheduler rt1, rt_policy rt1)" "run_offers ls = trace"
      by (auto simp: runtime_inv_def)
    have "sched_run ops (scheduler_new, p) (ls @ [LPumped now ev offers]) (rt_scheduler rt2, rt_policy rt2)"
      "run_offers (ls @ [LPumped now ev offers]) = trace @ offers"
      using sched_snoc [OF ls(1) st] ls(2) by (simp_all add: run_offers_def)
    moreover have "session_inv s2 d2" using inv1 session_steps_inv [OF ss] by (simp add: runtime_inv_def)
    ultimately have "runtime_inv ops p (trace @ offers) (rt2, s2, d2)"
      using inv1 same by (auto simp: runtime_inv_def)
    then show ?thesis by (rule quiet_inv [OF q2])
  qed (use inv in simp)
qed

lemma runtime_run_inv: "runtime_run ops p trace x \<Longrightarrow> runtime_inv ops p trace x"
proof (induction rule: runtime_run.induct)
  case (runtime_start mtu transport_closed rt x s d)
  then have "rt_valid rt \<longrightarrow> ingress_ok (rt_inbound rt)"
    by (auto simp: runtime_new_def Let_def is_supported_mtu_def intro!: inbound_new_ok split: if_splits)
  moreover have "rt_scheduler rt = scheduler_new \<and> rt_policy rt = p"
    using runtime_start by (auto simp: runtime_new_def Let_def split: if_splits)
  ultimately show ?case using runtime_start
    by (auto simp: runtime_inv_def intro!: exI [of _ "[]"] sched_refl)
next
  case (runtime_pumped trace rt s d io now c rt' s' d' offers)
  then show ?case by (blast intro: pump_inv)
next
  case (runtime_session trace rt s d s' d')
  then show ?case using session_step_inv by (fastforce simp: runtime_inv_def)
next
  case (runtime_stopped trace rt s d rt' x)
  then obtain ls where ls: "sched_run ops (scheduler_new, p) ls (rt_scheduler rt, rt_policy rt)" "run_offers ls = trace"
    by (auto simp: runtime_inv_def)
  have "sched_run ops (scheduler_new, p) (ls @ [LCancelled]) (cancel_all (rt_scheduler rt), rt_policy rt)"
    "run_offers (ls @ [LCancelled]) = trace"
    using sched_snoc [OF ls(1) step_cancelled] ls(2) by (simp_all add: run_offers_def)
  then show ?case using runtime_stopped stop_ok [of "rt_inbound rt"]
    by (auto simp: runtime_inv_def runtime_stop_def split: if_splits)
qed

section \<open>Marking on a working database\<close>

lemma transition_same_posts:
  "map entry_post (entries (snd (timeline_transition t mid target))) = map entry_post (entries t)"
  by (rule timeline_transition_cases [of t mid target])
    (simp_all add: set_origin_at_def map_update list_update_same_conv)

lemma remembered_posts:
  "map entry_post es = map entry_post es' \<Longrightarrow> list_all (remembered w) es = list_all (remembered w) es'"
  by (induction es es' rule: list_induct2') (auto simp: remembered_def)

lemma persist_marked:
  assumes l: "live i t s d" and t: "t = ms_timeline (messenger s)" and o: "session_open s"
    and u: "u = snd (timeline_transition t mid target)" and adv: "advances i t i u"
    and io: "sio_preflight io = None" "write_healthy (sio_write io) (dk_history d)"
  shows "\<exists>d'. session_persist_timeline io u s d = (True, s, d')"
proof -
  obtain st where st: "settings s = Some st" "identity_from st = i" using l by (auto simp: live_def)
  have d: "dedupe_ok (dedupe s)" "dd_capacity (dedupe s) = kDefaultSeenMessageCapacity" "identity_ok i"
    "dk_history d = snapshot_tables (timeline_snapshot t (dedupe s)) i" "list_all (remembered (dedupe s)) (entries t)"
    using l by (auto simp: live_def)
  have uok: "timeline_posts_ok u" "tl_capacity u = kMaxTimelineEntries" "own_posts_ok i (entries u)"
    using adv l by (auto simp: advances_def live_def)
  have posts: "map entry_post (entries u) = map entry_post (entries t)" by (simp add: u transition_same_posts)
  have "message_id ` set (map entry_post (entries u)) = message_id ` set (map entry_post (entries t))" by (simp only: posts)
  then have ids: "entry_id ` set (entries u) = entry_id ` set (entries t)" by (simp add: image_image)
  have rem: "list_all (remembered (dedupe s)) (entries u)" using remembered_posts [OF posts] d(5) by blast
  moreover have "list_all (\<lambda>e. timeline_find t (entry_id e) \<noteq> None) (entries u)"
  proof -
    have "entry_id e \<in> entry_id ` set (entries t)" if "e \<in> set (entries u)" for e using that ids by blast
    then show ?thesis by (force simp: list_all_iff find_None_entry)
  qed
  ultimately have loop: "persist_loop t (map entry_id (entries u)) (entries u) (dedupe s) = PersistReady (dedupe s)"
    using persist_loop_known [of "dedupe s" "entries u" t _ "[]"] by simp
  have ok: "snapshot_ok (timeline_snapshot u (dedupe s)) i"
    by (rule timeline_snapshot_ok) (use uok d rem in \<open>auto simp: timeline_posts_ok_def simp del: kDefaultSeenMessageCapacity_def\<close>)
  have "save_snapshot None (write_snapshot (sio_write io)) (timeline_snapshot u (dedupe s)) i (dk_history d) =
      (None, snapshot_tables (timeline_snapshot u (dedupe s)) i)"
    unfolding d(4)
    by (rule save_succeeds) (use io d ok live_snapshot_ok [OF l] in \<open>auto simp: u transition_capacity\<close>)
  then show ?thesis using st o io(1) loop t by (auto simp: session_persist_timeline_def session_open_def)
qed

lemma mark_broadcast_succeeds:
  assumes l: "session_live s d" and o: "session_open s"
    and e: "timeline_find (ms_timeline (messenger s)) mid = Some e" "origin e = LocalDelivery Queued"
    and io: "sio_preflight io = None" "write_healthy (sio_write io) (dk_history d)"
  defines "u \<equiv> snd (timeline_transition (ms_timeline (messenger s)) mid Broadcast)"
  shows "\<exists>d'. session_execute io ports (MarkBroadcast mid) s d =
    (command_ok, s\<lparr>messenger := (messenger s)\<lparr>ms_timeline := u\<rparr>\<rparr>, d')"
proof -
  let ?m = "messenger s" let ?t = "ms_timeline ?m"
  obtain i where i: "ms_identity ?m = Some i" and li: "live i ?t s d" using l by (auto simp: session_live_def)
  have tr: "timeline_transition ?t mid Broadcast = (None, u)"
    unfolding u_def using e by (cases rule: timeline_transition_cases [of ?t mid Broadcast]) auto
  obtain d' where "session_persist_timeline io u s d = (True, s, d')"
    using persist_marked [OF li refl o u_def [THEN meta_eq_to_obj_eq]
        transition_advances [OF session_messenger_ok [OF l] i, of mid Broadcast, folded u_def] io] by blast
  then show ?thesis using i tr
    by (simp add: session_execute_alt messenger_mark_broadcast_def messenger_transition_def timeline_mark_broadcast_def
        persist_timeline_def)
qed

section \<open>A sample run\<close>

definition queued_stored :: history_snapshot where
  "queued_stored = sample_stored\<lparr>hs_entries := [sample_entry\<lparr>origin := LocalDelivery Queued\<rparr>]\<rparr>"

definition queued_session :: session where
  "queued_session = sample_session\<lparr>messenger :=
     (messenger sample_session)\<lparr>ms_timeline := (ms_timeline (messenger sample_session))\<lparr>entries := hs_entries queued_stored\<rparr>\<rparr>\<rparr>"

definition queued_disk :: disk where
  "queued_disk = sample_disk\<lparr>dk_history := snapshot_tables queued_stored sample_owner\<rparr>"

lemma queued_session_live: "session_live queued_session queued_disk"
proof -
  let ?u = "ms_timeline (messenger queued_session)"
  obtain i where i: "ms_identity (messenger sample_session) = Some i" "live i (ms_timeline (messenger sample_session)) sample_session sample_disk"
    using sample_session_live by (auto simp: session_live_def)
  have io: "i = sample_owner" using i(1) sample_owner_settings by (simp add: sample_session_def recovered_session_def)
  have "own_posts_ok sample_owner (entries ?u)"
    by (simp add: own_posts_ok_def queued_session_def queued_stored_def sample_entry_def entry_is_local_def sample_owner_def
        identity_restore_def sample_post_def)
  moreover have "timeline_posts_ok ?u" using i(2) sample_post_ok
    by (simp add: live_def timeline_posts_ok_def timeline_ok_def queued_session_def queued_stored_def sample_entry_def
        sample_session_def recovered_session_def sample_stored_def sample_snapshot_def queued_count_def entry_is_queued_def
        queued_capacity_def)
  moreover have "list_all (remembered (dedupe sample_session)) (entries ?u)"
    using i(2) by (simp add: live_def remembered_def queued_session_def queued_stored_def sample_session_def recovered_session_def
        sample_stored_def sample_snapshot_def sample_entry_def recover_entry_def entry_is_queued_def)
  moreover have "dk_history queued_disk = snapshot_tables (timeline_snapshot ?u (dedupe sample_session)) sample_owner"
    by (simp add: queued_disk_def queued_stored_def timeline_snapshot_def queued_session_def sample_session_def recovered_session_def
        sample_stored_def sample_snapshot_def snapshot_tables_def)
  ultimately show ?thesis using i io unfolding session_live_def live_def
    by (auto simp: queued_session_def queued_disk_def sample_session_def recovered_session_def)
qed

lemma queued_session_open: "session_open queued_session"
  using sample_session_open by (simp add: queued_session_def session_open_def)

lemma queued_write_healthy: "write_healthy (sio_write sample_session_io) (dk_history queued_disk)"
  using sample_write_answers
  by (simp add: sample_session_io_def queued_disk_def write_healthy_def sample_rewrite_io_def write_answers_def
      snapshot_tables_def queued_stored_def meta_rows_def)

section \<open>Receiving a post in one pump\<close>

abbreviation fragment_entry :: "nat \<Rightarrow> post_payload \<Rightarrow> u64 \<Rightarrow> nat \<Rightarrow> queued_frame" where
  "fragment_entry mtu p t j \<equiv> \<lparr>qf_datagram = frame_layout (post_fragment mtu p j), qf_received_tick = t\<rparr>"

lemma process_loop_drained:
  "in_queue (rt_inbound rt) = [] \<Longrightarrow> \<exists>rt'. process_loop io now work changed rt s d = (changed, rt', s, d)"
proof (induction work arbitrary: rt)
  case (Suc k)
  then show ?case by (cases "stopped (rt_inbound rt)") (auto simp: process_next_alt Let_def)
qed simp

text \<open>The last missing fragment at the head of a queue that holds nothing else.\<close>

lemma process_loop_last:
  assumes n: "process_next now (rt_inbound rt) = (ingress_completed mtu p, q)" and q: "in_queue q = []"
    and a: "accept_received_post (pio_accept io work) idle_ports (post_bytes p) s d = (acc, s', d')"
  shows "\<exists>rt'. process_loop io now (Suc work) changed rt s d = (changed \<or> acc = InAccepted, rt', s', d')"
proof -
  have "in_queue (mark_committed bs now q) = []" for bs
    using q by (simp add: mark_committed_def Let_def fold_commit_fields expire_recent_def)
  then show ?thesis using n a q
    by (auto simp: ingress_completed_def completed_as_def Let_def intro!: process_loop_drained)
qed

lemma process_loop_fragment:
  assumes "process_next now (rt_inbound rt) = ((IngressFragmentAccepted, None), q)"
  shows "process_loop io now (Suc work) changed rt s d = process_loop io now work changed (rt\<lparr>rt_inbound := q\<rparr>) s d"
  using assms by (simp add: Let_def)

lemma collects_last:
  assumes "got \<subseteq> N" "set (j # js) = N - got" "distinct (j # js)"
  shows "j \<notin> got \<and> (insert j got = N \<longleftrightarrow> js = [])"
  using assms by (cases js) auto

lemma process_loop_collects:
  assumes "collecting p got dl i (in_reassembler (rt_inbound rt))" "ra_mtu (in_reassembler (rt_inbound rt)) = mtu"
    "in_mtu (rt_inbound rt) = mtu" "post_ok p" "\<not> stopped (rt_inbound rt)" "not_recent p (rt_inbound rt)"
    "in_queue (rt_inbound rt) = map (fragment_entry mtu p now) js" "distinct js" "js \<noteq> []"
    "set js = {..<post_count mtu p} - got" "now < dl" "now < saturating_deadline now kReassemblyTimeoutTicks"
    "length js \<le> work"
    "accept_received_post (pio_accept io (work - length js)) idle_ports (post_bytes p) s d = (acc, s', d')"
  shows "\<exists>rt'. process_loop io now work changed rt s d = (changed \<or> acc = InAccepted, rt', s', d')"
  using assms
proof (induction work arbitrary: js rt got)
  case (Suc work)
  let ?q = "rt_inbound rt"
  obtain j ks where js: "js = j # ks" using Suc.prems(9) by (cases js) auto
  let ?e = "fragment_entry mtu p now j" and ?f = "post_fragment mtu p j"
  let ?r = "snd (reassembler_expire now (in_reassembler ?q))"
  have j: "j < post_count mtu p" using Suc.prems(10) js by auto
  have sub: "got \<subseteq> {..<post_count mtu p}" using collecting_sub [OF Suc.prems(1,4)] Suc.prems(2) by auto
  note lst = collects_last [OF sub Suc.prems(10,8) [unfolded js]]
  have m: "is_supported_mtu mtu" using reassembler_okD(1) [OF collectingD(1) [OF Suc.prems(1)]] Suc.prems(2) by simp
  have c: "collecting p got dl i ?r" by (rule expire_collecting [OF Suc.prems(1,11)])
  have mtu: "ra_mtu ?r = mtu" using Suc.prems(2) by simp
  have fr: "fresh_frame now ?e" by (rule before_deadline_fresh [OF order_refl Suc.prems(12)])
  have f: "?f \<in> set (fragment_frames p (in_mtu ?q))" using fragment_in_frames j Suc.prems(3) by blast
  have m': "is_supported_mtu (in_mtu ?q)" using m Suc.prems(3) by simp
  have qq: "in_queue ?q = ?e # map (fragment_entry mtu p now) ks" using Suc.prems(7) js by simp
  note pf = process_fragment [OF Suc.prems(5) qq fr f _ Suc.prems(4) m' Suc.prems(6), simplified]
  note acc = accept_post_fragment [OF c Suc.prems(4) _ Suc.prems(11), of j, unfolded mtu, OF j]
  obtain x q where n: "process_next now ?q = (x, q)" by fastforce
  have q: "in_queue q = map (fragment_entry mtu p now) ks" "\<not> stopped q" "in_mtu q = mtu"
    using process_next_queue [where q = ?q and now = now] n Suc.prems(3,5) qq by auto
  show ?case
  proof (cases "ks = []")
    case True
    then have "x = ingress_completed mtu p" using acc(1) lst pf(1) n Suc.prems(3) by simp
    then show ?thesis using process_loop_last [of now rt mtu p q io work] n q(1) Suc.prems(14) js True by auto
  next
    case False
    then have ne: "insert j got \<noteq> {..<post_count mtu p}" using lst by blast
    have x: "x = (IngressFragmentAccepted, None)" using acc(3) lst ne pf(3) n Suc.prems(3) by simp
    have cq: "collecting p (insert j got) dl i (in_reassembler q)" using acc(2) ne pf(2) n Suc.prems(3) by simp
    have "\<exists>rt'. process_loop io now work changed (rt\<lparr>rt_inbound := q\<rparr>) s d = (changed \<or> acc = InAccepted, rt', s', d')"
    proof (rule Suc.IH [of "insert j got" "rt\<lparr>rt_inbound := q\<rparr>" ks])
      show "ra_mtu (in_reassembler (rt_inbound (rt\<lparr>rt_inbound := q\<rparr>))) = mtu" using pf(2) n mtu Suc.prems(3)
        by (simp add: accept_mtu)
      show "not_recent p (rt_inbound (rt\<lparr>rt_inbound := q\<rparr>))" using not_recent_process [OF Suc.prems(6), of now] n by simp
      show "set ks = {..<post_count mtu p} - insert j got" using Suc.prems(8,10) js by auto
    qed (use cq q Suc.prems js False in auto)
    then show ?thesis using process_loop_fragment [of now rt q io work] n x by simp
  qed
qed simp

lemma mset_map_arranged: "mset ds = mset (map g xs) \<Longrightarrow> \<exists>ys. mset ys = mset xs \<and> map g ys = ds"
proof (induction ds arbitrary: xs)
  case (Cons d ds)
  then have "d \<in> set (map g xs)" by (metis list.set_intros(1) mset_eq_setD)
  then obtain x where x: "x \<in> set xs" "d = g x" by auto
  have split: "mset xs = add_mset x (mset (remove1 x xs))" using x(1) by simp
  have "mset (map g xs) = add_mset d (mset (map g (remove1 x xs)))"
    unfolding mset_map split using x(2) by simp
  then have "mset ds = mset (map g (remove1 x xs))" using Cons.prems by simp
  then obtain ys where ys: "mset ys = mset (remove1 x xs)" "map g ys = ds" using Cons.IH by blast
  have "mset (x # ys) = mset xs" unfolding split mset.simps ys(1) ..
  then show ?case using ys(2) x(2) by (metis list.map(2))
qed simp

lemma receive_loop_received:
  "length ds \<le> work \<Longrightarrow> \<exists>m. receive_loop now work (map (Pair RecvReceived) ds) rt =
     rt\<lparr>rt_inbound := fold (\<lambda>d q. snd (ingress_enqueue (Some d) now q)) ds (rt_inbound rt), rt_metrics := m\<rparr>"
proof (induction work arbitrary: ds rt)
  case 0
  then show ?case by (auto intro: exI [of _ "rt_metrics rt"])
next
  case (Suc work)
  show ?case
  proof (cases ds)
    case Nil
    then show ?thesis by (auto intro: exI [of _ "rt_metrics rt"])
  next
    case (Cons x xs)
    obtain st q where e: "ingress_enqueue (Some x) now (rt_inbound rt) = (st, q)" by fastforce
    define k where "k = (let m = rt_metrics rt; m = m\<lparr>rm_received_datagrams := rm_received_datagrams m + 1\<rparr>
      in if st = EnqueueQueueFull then m\<lparr>rm_receive_overflow := rm_receive_overflow m + 1\<rparr> else m)"
    have "length xs \<le> work" using Suc.prems Cons by simp
    from Suc.IH [OF this, of "rt\<lparr>rt_inbound := q, rt_metrics := k\<rparr>"] obtain m where
      "receive_loop now work (map (Pair RecvReceived) xs) (rt\<lparr>rt_inbound := q, rt_metrics := k\<rparr>) =
        rt\<lparr>rt_inbound := fold (\<lambda>d q. snd (ingress_enqueue (Some d) now q)) xs q, rt_metrics := m\<rparr>" by auto
    then show ?thesis using Cons e by (auto simp: k_def Let_def)
  qed
qed

lemma process_loop_fresh:
  assumes p: "post_ok p" and m: "is_supported_mtu mtu"
    and q: "in_reassembler (rt_inbound rt) = reassembler_new mtu" "in_mtu (rt_inbound rt) = mtu" "\<not> stopped (rt_inbound rt)"
      "recent (rt_inbound rt) = []" "in_queue (rt_inbound rt) = map (fragment_entry mtu p now) js"
    and js: "distinct js" "set js = {..<post_count mtu p}" "length js \<le> work"
    and now: "now < saturating_deadline now kReassemblyTimeoutTicks"
    and a: "accept_received_post (pio_accept io (work - length js)) idle_ports (post_bytes p) s d = (acc, s', d')"
  shows "\<exists>rt'. process_loop io now work changed rt s d = (changed \<or> acc = InAccepted, rt', s', d')"
proof -
  let ?q = "rt_inbound rt" let ?dl = "saturating_deadline now kReassemblyTimeoutTicks"
  obtain j ks where jk: "js = j # ks" using js(2) post_sizes(4) [OF p m] by (cases js) auto
  obtain w where w: "work = Suc w" using js(3) jk by (cases work) auto
  have j: "j < post_count mtu p" using js(2) jk by auto
  have lst: "{j} = {..<post_count mtu p} \<longleftrightarrow> ks = []"
    using collects_last [of "{}" "{..<post_count mtu p}" j ks] js jk by auto
  have fr: "fresh_frame now (fragment_entry mtu p now j)" by (rule before_deadline_fresh [OF order_refl now])
  have nr: "not_recent p ?q" using q(4) by (simp add: not_recent_def)
  have f: "post_fragment mtu p j \<in> set (fragment_frames p (in_mtu ?q))" using fragment_in_frames j q(2) by blast
  have m': "is_supported_mtu (in_mtu ?q)" using m q(2) by simp
  have qq: "in_queue ?q = fragment_entry mtu p now j # map (fragment_entry mtu p now) ks" using q(5) jk by simp
  note pf = process_fragment [OF q(3) qq fr f _ p m' nr, simplified]
  have new: "ra_mtu (reassembler_new mtu) = mtu" "quarantine_keys (reassembler_new mtu) = []"
    "slots (reassembler_new mtu) = replicate 8 empty_slot" by (simp_all add: new_slots)
  note first = accept_first [OF new_ok [OF m] p, of j now, unfolded new, OF j, simplified]
  obtain x q' where n: "process_next now ?q = (x, q')" by fastforce
  have q': "in_queue q' = map (fragment_entry mtu p now) ks" "\<not> stopped q'" "in_mtu q' = mtu"
    using process_next_queue [where q = ?q and now = now] n q(2,3) qq by auto
  show ?thesis
  proof (cases "ks = []")
    case True
    then have "x = ingress_completed mtu p" using first(1) lst pf(1) n q(1,2) by (simp add: expire_new)
    then show ?thesis using process_loop_last [of now rt mtu p q' io w] n q'(1) a jk w True by auto
  next
    case False
    have x: "x = (IngressFragmentAccepted, None)" using first(3) lst False pf(3) n q(1,2) by (simp add: expire_new)
    obtain i where c: "collecting p {j} ?dl i (in_reassembler q')" using first(2) lst False pf(2) n q(1,2) by (auto simp: expire_new)
    have "ra_mtu (in_reassembler q') = mtu" using pf(2) n q(1,2) new(1) by (simp add: accept_mtu expire_new)
    then have "\<exists>rt'. process_loop io now w changed (rt\<lparr>rt_inbound := q'\<rparr>) s d = (changed \<or> acc = InAccepted, rt', s', d')"
      using c p q' not_recent_process [OF nr, of now] n js jk False now a w
      by (intro process_loop_collects [where js = ks and got = "{j}" and dl = ?dl and i = i and p = p and mtu = mtu]) auto
    then show ?thesis using process_loop_fragment [of now rt q' io w] n x w by simp
  qed
qed

lemma enqueue_loop_idle:
  "\<not> list_ex entry_is_queued es \<Longrightarrow> enqueue_queued_loop io now es rt s d = (False, rt, s, d)"
  by (induction es) auto

lemma runtime_pump_idle_outbound:
  assumes "rt_valid rt" "\<not> rt_stopped rt" "startup_status s = SessionReady" "pio_connected io"
    "\<not> list_ex entry_is_queued (entries (ms_timeline (messenger s)))" "sch_pending (rt_scheduler rt) = []"
    "pump_inbound io now rt s d = (c, rt', s', d')"
  shows "runtime_pump ops io now rt s d = ((c, rt', s', d'), [])"
  using assms by (simp add: runtime_pump_def enqueue_queued_posts_def enqueue_loop_idle pump_outbound_def pump_empty)

lemma saturating_deadline_later: "now \<noteq> u64_max \<Longrightarrow> now < saturating_deadline now kReassemblyTimeoutTicks"
proof -
  assume "now \<noteq> u64_max"
  then have "unat now < 2 ^ 64 - 1" using unat_u64_bound [of now] by (auto simp: word_unat_eq_iff unat_u64_max)
  then show ?thesis unfolding saturating_deadline_add word_less_nat_alt unat_saturating_add by simp
qed

lemma pump_inbound_delivers:
  assumes p: "post_ok p" "fragment_post p mtu = Inr frames" and ds: "mset ds = mset frames"
      "length frames \<le> kMaximumRadioWorkPerPump"
    and rt: "rt_inbound rt = inbound_queue_new mtu" and io: "pio_received io = map (Pair RecvReceived) ds" and now: "now \<noteq> u64_max"
    and a: "accept_received_post (pio_accept io (kMaximumRadioWorkPerPump - length frames)) idle_ports (post_bytes p) s d = (acc, s', d')"
  shows "\<exists>rt'. pump_inbound io now rt s d = (acc = InAccepted, rt', s', d')"
proof -
  have m: "is_supported_mtu mtu" using p(2) by (auto simp: fragment_post_def split: if_splits)
  have frames: "frames = map (\<lambda>j. frame_layout (post_fragment mtu p j)) [0..<post_count mtu p]"
    using fragment_post_frames [OF p(1) m] p(2) by (simp add: fragment_frames_alt comp_def)
  obtain js where js: "mset js = mset [0..<post_count mtu p]" "map (\<lambda>j. frame_layout (post_fragment mtu p j)) js = ds"
    using mset_map_arranged [OF ds(1) [unfolded frames]] by blast
  have jp: "distinct js" "set js = {..<post_count mtu p}" "length js = length frames"
  proof -
    show "distinct js" using mset_eq_imp_distinct_iff [OF js(1)] by simp
    show "set js = {..<post_count mtu p}" using mset_eq_setD [OF js(1)] by (simp add: lessThan_atLeast0)
    show "length js = length frames" using mset_eq_length [OF js(1)] by (simp add: frames)
  qed
  have len: "length ds = length frames" using js(2) jp(3) by auto
  have size: "28 \<le> length x \<and> length x \<le> mtu" if "x \<in> set ds" for x
  proof -
    from that obtain j where "j \<in> set js" "x = frame_layout (post_fragment mtu p j)" using js(2) by auto
    then show ?thesis using frame_ok_size [OF post_fragment_ok [OF p(1) m, of j]] jp(2) by (auto intro: less_imp_le)
  qed
  obtain k where r: "receive_loop now kMaximumRadioWorkPerPump (pio_received io) rt =
      rt\<lparr>rt_inbound := fold (\<lambda>d q. snd (ingress_enqueue (Some d) now q)) ds (rt_inbound rt), rt_metrics := k\<rparr>"
    using receive_loop_received [of ds kMaximumRadioWorkPerPump now rt] ds(2) len io by auto
  let ?q = "fold (\<lambda>d q. snd (ingress_enqueue (Some d) now q)) ds (inbound_queue_new mtu)"
  have q: "in_queue ?q = map (fragment_entry mtu p now) js" "\<not> stopped ?q" "recent ?q = []"
      "in_reassembler ?q = reassembler_new mtu" "in_mtu ?q = mtu"
    using enqueue_all [of "inbound_queue_new mtu" ds now] size m ds(2) len js(2)
    by (auto simp: inbound_queue_new_def list_all_iff is_supported_mtu_def)
  have "\<exists>rt'. process_loop io now kMaximumRadioWorkPerPump False (rt\<lparr>rt_inbound := ?q, rt_metrics := k\<rparr>) s d =
      (False \<or> acc = InAccepted, rt', s', d')"
    by (rule process_loop_fresh [OF p(1) m _ _ _ _ _ jp(1,2) _ saturating_deadline_later [OF now]]) (use q ds a jp in simp_all)
  then show ?thesis using r rt by (simp add: pump_inbound_def)
qed

section \<open>Properties\<close>

text \<open>In any run of the runtime, pumps, session operations and stops in any order and with any answers of the
  transport, the policy, the random source and the storage, the stored state stays one a new session can
  start from, a ready session shows exactly what is stored, and the scheduler and the inbound queue stay valid.\<close>

theorem runtime_keeps_invariants:
  assumes "runtime_run ops p trace (rt, s, d)"
  shows "disk_ok d \<and> (startup_status s = SessionReady \<longrightarrow> session_live s d) \<and>
    scheduler_ok (rt_scheduler rt) \<and> (rt_valid rt \<longrightarrow> ingress_ok (rt_inbound rt))"
proof -
  from runtime_run_inv [OF assms] obtain ls where ls: "sched_run ops (scheduler_new, p) ls (rt_scheduler rt, rt_policy rt)"
    and inv: "session_inv s d" "rt_valid rt \<longrightarrow> ingress_ok (rt_inbound rt)"
    by (auto simp: runtime_inv_def)
  have "scheduler_ok (rt_scheduler rt)" using sched_run_ok [OF ls] scheduler_new_ok by simp
  then show ?thesis using inv by (auto simp: session_inv_def)
qed

definition sample_runtime :: "unit runtime" where
  "sample_runtime = fst (runtime_new () 255 False)"

lemma sample_runtime_run: "session_live s d \<Longrightarrow> runtime_run free_ops () [] (sample_runtime, s, d)"
  by (rule runtime_start [of _ 255 False _ "snd (runtime_new () 255 False)"])
    (auto simp: sample_runtime_def session_inv_def session_live_def dest: live_disk_ok)

theorem runtime_keeps_invariants_witness:
  "session_live sample_session sample_disk \<and> ingress_ok (rt_inbound sample_runtime) \<and> scheduler_ok (rt_scheduler sample_runtime)"
  using runtime_keeps_invariants [OF sample_runtime_run [OF sample_session_live]] sample_session_open
  by (simp add: session_open_def) (simp add: sample_runtime_def runtime_new_def Let_def)

text \<open>C9: A post shown as broadcast was sent. Whenever a pump of a run marks a message of the history as broadcast,
  the transport has accepted, in this run and in order, every datagram the fragmenter makes of a post
  with that message id.\<close>

theorem runtime_broadcast_honest:
  assumes "runtime_run ops p trace (rt, s, d)" "\<And>mid. fill_wf (pio_fill io mid)"
    "runtime_pump ops io now rt s d = ((c, rt', s', d'), offers)" "mid \<in> broadcast_ids s'" "mid \<notin> broadcast_ids s"
  shows "\<exists>post mtu frames. message_id post = mid \<and> fragment_post post mtu = Inr frames \<and> frames \<noteq> [] \<and>
    subseq frames (accepted_of (trace @ offers))"
proof -
  have inv: "runtime_inv ops p trace (rt, s, d)" by (rule runtime_run_inv [OF assms(1)])
  then have sinv: "session_inv s d" by (simp add: runtime_inv_def)
  show ?thesis
  proof (rule runtime_pump_parts [OF assms(3) sinv assms(2)])
    fix rt1 s1 d1 rt2 s2 d2 ev
    assume q1: "quiet ops (rt, s, d) (rt1, s1, d1)"
      and st: "sched_step ops (rt_scheduler rt1, rt_policy rt1) (LPumped now ev offers) (rt_scheduler rt2, rt_policy rt2)"
      and b: "broadcast_ids s2 \<subseteq> broadcast_ids s1 \<union> {mid. \<exists>x. ev = Some x \<and> event_message_id x = mid \<and> event_state x = OutBroadcast}"
      and q2: "quiet ops (rt2, s2, d2) (rt', s', d')"
    have "broadcast_ids s1 \<subseteq> broadcast_ids s" "broadcast_ids s' \<subseteq> broadcast_ids s2" using q1 q2 by (auto simp: quiet_def)
    then obtain x where x: "ev = Some x" "event_message_id x = mid" "event_state x = OutBroadcast" using b assms(4,5) by auto
    obtain ls where ls: "sched_run ops (scheduler_new, p) ls (rt_scheduler rt1, rt_policy rt1)" "run_offers ls = trace"
      using quiet_inv [OF q1 inv] by (auto simp: runtime_inv_def)
    have "accepted_frames (ls @ [LPumped now (Some x) offers]) = accepted_of (trace @ offers)"
      using ls(2) by (simp add: accepted_frames_def run_offers_def)
    then show ?thesis using broadcast_report_accepted [OF _ x(3)] sched_snoc [OF ls(1) st] x(1,2) by metis
  qed (use assms in simp)
qed

definition broadcast_io :: pump_io where
  "broadcast_io = \<lparr>pio_transport = sample_transport, pio_connected = True, pio_received = [], pio_fill = (\<lambda>_. sample_fill),
     pio_mark = (\<lambda>_. sample_session_io), pio_event = sample_session_io, pio_accept = (\<lambda>_. sample_session_io)\<rparr>"

lemma broadcast_enqueued: "scheduler_enqueue sample_fill sample_post 255 1 scheduler_new =
    (None, update_pending_metric (scheduler_new\<lparr>sch_pending := [pending_of_post sample_post 255 [sample_datagram] (replicate 4 0) 1]\<rparr>))"
  by (simp add: scheduler_enqueue_def sample_fragments sample_fill_def scheduler_new_def)

lemma broadcast_pump:
  defines "s1 \<equiv> update_pending_metric (scheduler_new\<lparr>sch_pending := [pending_of_post sample_post 255 [sample_datagram] (replicate 4 0) 1]\<rparr>)"
  shows "out_event (pump free_ops 1 sample_transport () s1) =
      Some \<lparr>event_message_id = message_id sample_post, event_state = OutBroadcast\<rparr>"
    "out_offers (pump free_ops 1 sample_transport () s1) = [(sample_datagram, SendAccepted)]"
  by (simp_all add: s1_def update_pending_metric_def pump_def pending_of_post_def sample_transport_def free_ops_def
      pump_offer_def pump_accepted_def set_front_def take_jitter_def scaled_jitter_def saturating_add_def
      kOutboundDeadlineTicks_def Let_def word_le_nat_alt)

lemma broadcast_pumped:
  "\<exists>c rt' s' d'. runtime_pump free_ops broadcast_io 1 sample_runtime queued_session queued_disk =
     ((c, rt', s', d'), [(sample_datagram, SendAccepted)]) \<and> message_id sample_post \<in> broadcast_ids s'"
proof -
  let ?e = "sample_entry\<lparr>origin := LocalDelivery Queued\<rparr>" and ?mid = "message_id sample_post"
  have es: "entries (ms_timeline (messenger queued_session)) = [?e]" by (simp add: queued_session_def queued_stored_def)
  have find: "timeline_find (ms_timeline (messenger queued_session)) ?mid = Some ?e"
    unfolding timeline_find_def es by (simp add: sample_entry_def)
  obtain d1 where m: "session_execute sample_session_io idle_ports (MarkBroadcast ?mid) queued_session queued_disk =
      (command_ok, queued_session\<lparr>messenger := (messenger queued_session)\<lparr>ms_timeline :=
         snd (timeline_transition (ms_timeline (messenger queued_session)) ?mid Broadcast)\<rparr>\<rparr>, d1)"
    using mark_broadcast_succeeds [OF queued_session_live queued_session_open find _ _ queued_write_healthy]
    by (auto simp: sample_session_io_def)
  obtain rt1 where e: "enqueue_queued_posts broadcast_io 1 sample_runtime queued_session queued_disk = (False, rt1, queued_session, queued_disk)"
      "rt_scheduler rt1 = update_pending_metric (scheduler_new\<lparr>sch_pending := [pending_of_post sample_post 255 [sample_datagram] (replicate 4 0) 1]\<rparr>)"
      "rt_inbound rt1 = rt_inbound sample_runtime"
    using broadcast_enqueued
    by (auto simp: enqueue_queued_posts_def es entry_is_queued_def sample_entry_def broadcast_io_def sample_transport_def
        sample_runtime_def runtime_new_def Let_def)
  obtain rt2 where o: "pump_outbound free_ops broadcast_io 1 rt1 queued_session queued_disk = ((True, rt2,
      queued_session\<lparr>messenger := (messenger queued_session)\<lparr>ms_timeline :=
         snd (timeline_transition (ms_timeline (messenger queued_session)) ?mid Broadcast)\<rparr>\<rparr>, d1), [(sample_datagram, SendAccepted)])"
      "in_queue (rt_inbound rt2) = []"
    using broadcast_pump m e(2,3)
    by (auto simp: pump_outbound_def broadcast_io_def Let_def mark_event_def command_ok_def sample_runtime_def runtime_new_def
        inbound_queue_new_def)
  let ?s = "queued_session\<lparr>messenger := (messenger queued_session)\<lparr>ms_timeline :=
      snd (timeline_transition (ms_timeline (messenger queued_session)) ?mid Broadcast)\<rparr>\<rparr>"
  have "receive_loop now w [] rt = rt" for now w and rt :: "unit runtime" by (cases w) auto
  then obtain rt3 where i: "pump_inbound broadcast_io 1 rt2 ?s d1 = (False, rt3, ?s, d1)"
    using process_loop_drained [OF o(2), of broadcast_io 1 kMaximumRadioWorkPerPump False ?s d1]
    by (auto simp: pump_inbound_def broadcast_io_def)
  have st: "rt_valid sample_runtime" "\<not> rt_stopped sample_runtime" "startup_status queued_session = SessionReady"
      "pio_connected broadcast_io"
    using queued_session_open by (simp_all add: sample_runtime_def runtime_new_def session_open_def broadcast_io_def)
  have "runtime_pump free_ops broadcast_io 1 sample_runtime queued_session queued_disk =
      ((True, rt3, ?s, d1), [(sample_datagram, SendAccepted)])"
    using st e(1) o(1) i by (simp add: runtime_pump_def)
  moreover have "?mid \<in> broadcast_ids ?s"
    by (auto simp: broadcast_ids_def timeline_transition_def es find_index.simps set_origin_at_def sample_entry_def)
  ultimately show ?thesis by blast
qed

theorem runtime_broadcast_honest_witness:
  "\<exists>c rt' s' d' post mtu frames. runtime_pump free_ops broadcast_io 1 sample_runtime queued_session queued_disk =
       ((c, rt', s', d'), [(sample_datagram, SendAccepted)]) \<and> message_id sample_post \<in> broadcast_ids s' \<and>
     message_id post = message_id sample_post \<and> fragment_post post mtu = Inr frames \<and> frames \<noteq> [] \<and> subseq frames [sample_datagram]"
proof -
  obtain c rt' s' d' where p: "runtime_pump free_ops broadcast_io 1 sample_runtime queued_session queued_disk =
      ((c, rt', s', d'), [(sample_datagram, SendAccepted)])" "message_id sample_post \<in> broadcast_ids s'"
    using broadcast_pumped by blast
  have "fill_wf (pio_fill broadcast_io mid)" for mid by (simp add: broadcast_io_def fill_wf_def sample_fill_def)
  moreover have "message_id sample_post \<notin> broadcast_ids queued_session"
    by (auto simp: broadcast_ids_def queued_session_def queued_stored_def)
  ultimately show ?thesis
    using runtime_broadcast_honest [OF sample_runtime_run [OF queued_session_live] _ p(1) p(2)] p by fastforce
qed

text \<open>C8: A post of another device arrives. When the datagrams of a valid post of at most four fragments reach a fresh
  runtime in any order, one pump accepts the post: it is shown as received under the next order and stored,
  provided the message is new, the database works, no counter is exhausted and no post of the device itself is queued
  for sending, which is so after every start.\<close>

theorem runtime_delivers:
  assumes "post_ok p" "encode_post p = Inr b" "fragment_post p mtu = Inr frames" "mset ds = mset frames"
    "length frames \<le> kMaximumRadioWorkPerPump" "runtime_new pol mtu False = (rt, x)"
    "session_live s d" "session_open s" "\<not> list_ex entry_is_queued (entries (ms_timeline (messenger s)))"
    "pio_connected io" "pio_received io = map (Pair RecvReceived) ds" "now \<noteq> u64_max"
    "\<And>k. sio_preflight (pio_accept io k) = None \<and> write_healthy (sio_write (pio_accept io k)) (dk_history d)"
    "dedupe_classify (dedupe s) (message_id p) b = NewMessage"
    "last_assigned_order (ms_timeline (messenger s)) \<noteq> u64_max" "last_seen_order (dedupe s) \<noteq> u64_max"
  shows "\<exists>rt' s' d'. runtime_pump ops io now rt s d = ((True, rt', s', d'), []) \<and> session_live s' d' \<and>
    timeline_find (ms_timeline (messenger s')) (message_id p) =
      Some \<lparr>entry_post = p, received_order = last_assigned_order (ms_timeline (messenger s)) + 1, origin = ReceivedOrigin\<rparr>"
proof -
  let ?k = "kMaximumRadioWorkPerPump - length frames"
  have dec: "decode_post_bytes b = Inr p" using assms(1,2) by (simp add: decode_post_bytes_def decode_post_Inr_encode)
  have b: "b = post_bytes p" using assms(2) encode_post_layout [OF assms(1)] by (simp add: post_bytes_def)
  obtain s' d' where a: "accept_received_post (pio_accept io ?k) idle_ports b s d = (InAccepted, s', d')" "session_live s' d'"
      "timeline_find (ms_timeline (messenger s')) (message_id p) =
        Some \<lparr>entry_post = p, received_order = last_assigned_order (ms_timeline (messenger s)) + 1, origin = ReceivedOrigin\<rparr>"
    using accept_new_post [OF assms(7,8) idle_ports_wf dec assms(14-16)] assms(13) by blast
  have m: "is_supported_mtu mtu" using assms(3) by (auto simp: fragment_post_def split: if_splits)
  have rt: "rt_inbound rt = inbound_queue_new mtu" "rt_valid rt" "\<not> rt_stopped rt" "sch_pending (rt_scheduler rt) = []"
    using assms(6) m by (auto simp: runtime_new_def Let_def is_supported_mtu_def scheduler_new_def split: if_splits)
  obtain rt' where "pump_inbound io now rt s d = (True, rt', s', d')"
    using pump_inbound_delivers [OF assms(1,3,4,5) rt(1) assms(11,12) a(1) [unfolded b]] by auto
  from runtime_pump_idle_outbound [OF rt(2,3) _ assms(10,9) rt(4) this] assms(8) a(2,3)
  show ?thesis by (auto simp: session_open_def)
qed

definition new_post :: post_payload where
  "new_post = sample_post\<lparr>message_id := MessageId (sample_uuid 9)\<rparr>"

lemma new_post_ok: "post_ok new_post"
  using sample_post_ok sample_uuid_ok [of 9]
  by (simp add: new_post_def post_ok_def sample_post_def sample_uuid_def)

lemma new_post_frames: "fragment_post new_post 255 = Inr (map frame_layout (fragment_frames new_post 255))"
    "length (fragment_frames new_post 255) \<le> kMaximumRadioWorkPerPump"
proof -
  have m: "is_supported_mtu 255" by (simp add: is_supported_mtu_def)
  show "fragment_post new_post 255 = Inr (map frame_layout (fragment_frames new_post 255))"
    by (rule fragment_post_frames [OF new_post_ok m])
  show "length (fragment_frames new_post 255) \<le> kMaximumRadioWorkPerPump"
    using wire_layout_length [OF post_ok_create(2) [OF new_post_ok]]
    by (simp add: length_fragment_frames post_input_def new_post_def sample_post_def fragments_of_def frame_payload_capacity_def m)
qed

definition receive_io :: pump_io where
  "receive_io = broadcast_io\<lparr>pio_received := map (Pair RecvReceived) (map frame_layout (fragment_frames new_post 255))\<rparr>"

theorem runtime_delivers_witness:
  "\<exists>rt' s' d'. runtime_pump free_ops receive_io 1 sample_runtime sample_session sample_disk = ((True, rt', s', d'), []) \<and>
     timeline_find (ms_timeline (messenger s')) (message_id new_post) =
       Some \<lparr>entry_post = new_post, received_order = 2, origin = ReceivedOrigin\<rparr>"
proof -
  let ?fs = "map frame_layout (fragment_frames new_post 255)" and ?b = "wire_layout (post_input new_post)"
  have rt: "runtime_new () 255 False = (sample_runtime, False)" by (simp add: sample_runtime_def runtime_new_def)
  have io: "pio_connected receive_io" "pio_received receive_io = map (Pair RecvReceived) ?fs"
    by (simp_all add: receive_io_def broadcast_io_def)
  have h: "sio_preflight (pio_accept receive_io k) = None \<and> write_healthy (sio_write (pio_accept receive_io k)) (dk_history sample_disk)" for k
    using sample_write_answers
    by (simp add: receive_io_def broadcast_io_def sample_session_io_def sample_disk_def write_healthy_def sample_rewrite_io_def)
  have s: "\<not> list_ex entry_is_queued (entries (ms_timeline (messenger sample_session)))"
    "dedupe_classify (dedupe sample_session) (message_id new_post) ?b = NewMessage"
    "last_assigned_order (ms_timeline (messenger sample_session)) = 1" "last_seen_order (dedupe sample_session) = 1"
    using decode_post_layout [OF new_post_ok]
    by (simp_all add: sample_session_def recovered_session_def sample_stored_def sample_snapshot_def sample_entry_def recover_entry_def
        entry_is_queued_def dedupe_classify_def new_post_def sample_post_def sample_uuid_def)
  have len: "length ?fs \<le> kMaximumRadioWorkPerPump" using new_post_frames(2) by simp
  have max: "(1 :: u64) \<noteq> u64_max" by simp
  show ?thesis
    using runtime_delivers [OF new_post_ok encode_post_layout [OF new_post_ok] new_post_frames(1) refl len rt
        sample_session_live sample_session_open s(1) io max h s(2), of free_ops] s(3,4) by auto
qed

end
