(* ===== verification/View_I18n.thy ===== *)
theory View_I18n
  imports App_Messenger_State
begin

text \<open>
  Model of \<^verbatim>\<open>src/viewmodel/i18n.cpp\<close>: the display strings in three languages. \<^verbatim>\<open>StringId\<close> is an enumeration over
  \<^verbatim>\<open>std::size_t\<close>, so that a value outside the table is representable; the tables are the UTF-8 bytes of the
  source's string literals.
\<close>

section \<open>Definitions\<close>

datatype ui_locale = LocaleEnglish | LocaleJapanese | LocaleSimplifiedChinese | LocaleCount

fun locale_index :: "ui_locale \<Rightarrow> nat" where
  "locale_index LocaleEnglish = 0"
| "locale_index LocaleJapanese = 1"
| "locale_index LocaleSimplifiedChinese = 2"
| "locale_index LocaleCount = 3"

definition kLocaleCount :: nat where
  "kLocaleCount = locale_index LocaleCount"

definition kSupportedLocales :: "ui_locale list" where
  "kSupportedLocales = [LocaleEnglish, LocaleJapanese, LocaleSimplifiedChinese]"

text \<open>The enumerators of \<^verbatim>\<open>StringId\<close>, by their value.\<close>

datatype string_id = StringId (string_id_index: nat)

abbreviation AppTitle :: string_id where "AppTitle \<equiv> StringId 0"
abbreviation TimelineTitle :: string_id where "TimelineTitle \<equiv> StringId 1"
abbreviation DetailTitle :: string_id where "DetailTitle \<equiv> StringId 2"
abbreviation ComposeTitle :: string_id where "ComposeTitle \<equiv> StringId 3"
abbreviation MentionsTitle :: string_id where "MentionsTitle \<equiv> StringId 4"
abbreviation SettingsTitle :: string_id where "SettingsTitle \<equiv> StringId 5"
abbreviation TimelineEmpty :: string_id where "TimelineEmpty \<equiv> StringId 6"
abbreviation NoPeers :: string_id where "NoPeers \<equiv> StringId 7"
abbreviation SettingsUserId :: string_id where "SettingsUserId \<equiv> StringId 8"
abbreviation SettingsLanguage :: string_id where "SettingsLanguage \<equiv> StringId 9"
abbreviation SettingsSavedLocally :: string_id where "SettingsSavedLocally \<equiv> StringId 10"
abbreviation RadioDisabled :: string_id where "RadioDisabled \<equiv> StringId 11"
abbreviation RadioReady :: string_id where "RadioReady \<equiv> StringId 12"
abbreviation StatusTitle :: string_id where "StatusTitle \<equiv> StringId 13"
abbreviation ErrorTitle :: string_id where "ErrorTitle \<equiv> StringId 14"
abbreviation StatusQueued :: string_id where "StatusQueued \<equiv> StringId 15"
abbreviation StatusQueuedForRadio :: string_id where "StatusQueuedForRadio \<equiv> StringId 16"
abbreviation StatusPostUnavailable :: string_id where "StatusPostUnavailable \<equiv> StringId 17"
abbreviation ConfirmDiscardTitle :: string_id where "ConfirmDiscardTitle \<equiv> StringId 18"
abbreviation ConfirmDiscardMessage :: string_id where "ConfirmDiscardMessage \<equiv> StringId 19"
abbreviation ConfirmExitTitle :: string_id where "ConfirmExitTitle \<equiv> StringId 20"
abbreviation ConfirmExitMessage :: string_id where "ConfirmExitMessage \<equiv> StringId 21"
abbreviation ButtonCancel :: string_id where "ButtonCancel \<equiv> StringId 22"
abbreviation ButtonDiscard :: string_id where "ButtonDiscard \<equiv> StringId 23"
abbreviation ButtonExit :: string_id where "ButtonExit \<equiv> StringId 24"
abbreviation BadgeReceived :: string_id where "BadgeReceived \<equiv> StringId 25"
abbreviation BadgeQueued :: string_id where "BadgeQueued \<equiv> StringId 26"
abbreviation BadgeBroadcast :: string_id where "BadgeBroadcast \<equiv> StringId 27"
abbreviation BadgeFailed :: string_id where "BadgeFailed \<equiv> StringId 28"
abbreviation BadgeUnknown :: string_id where "BadgeUnknown \<equiv> StringId 29"
abbreviation ReplyOriginalUnavailable :: string_id where "ReplyOriginalUnavailable \<equiv> StringId 30"
abbreviation MentionLimitReached :: string_id where "MentionLimitReached \<equiv> StringId 31"
abbreviation LocalDemo :: string_id where "LocalDemo \<equiv> StringId 32"
abbreviation HeaderDemoExit :: string_id where "HeaderDemoExit \<equiv> StringId 33"
abbreviation HeaderRadioExit :: string_id where "HeaderRadioExit \<equiv> StringId 34"
abbreviation RadioNoDelivery :: string_id where "RadioNoDelivery \<equiv> StringId 35"
abbreviation RadioReadyNoDelivery :: string_id where "RadioReadyNoDelivery \<equiv> StringId 36"
abbreviation BytesRemaining :: string_id where "BytesRemaining \<equiv> StringId 37"
abbreviation ReplyContext :: string_id where "ReplyContext \<equiv> StringId 38"
abbreviation MentionedYou :: string_id where "MentionedYou \<equiv> StringId 39"
abbreviation SettingsIdentity :: string_id where "SettingsIdentity \<equiv> StringId 40"
abbreviation FooterTimeline :: string_id where "FooterTimeline \<equiv> StringId 41"
abbreviation FooterDetail :: string_id where "FooterDetail \<equiv> StringId 42"
abbreviation FooterCompose :: string_id where "FooterCompose \<equiv> StringId 43"
abbreviation FooterMentions :: string_id where "FooterMentions \<equiv> StringId 44"
abbreviation FooterSettings :: string_id where "FooterSettings \<equiv> StringId 45"
abbreviation ConfirmDeleteTitle :: string_id where "ConfirmDeleteTitle \<equiv> StringId 46"
abbreviation ConfirmDeleteMessage :: string_id where "ConfirmDeleteMessage \<equiv> StringId 47"
abbreviation RecoveryTitle :: string_id where "RecoveryTitle \<equiv> StringId 48"
abbreviation RecoveryMessage :: string_id where "RecoveryMessage \<equiv> StringId 49"
abbreviation ButtonDelete :: string_id where "ButtonDelete \<equiv> StringId 50"
abbreviation ErrorPersistenceUnavailable :: string_id where "ErrorPersistenceUnavailable \<equiv> StringId 51"
abbreviation ErrorNone :: string_id where "ErrorNone \<equiv> StringId 52"
abbreviation ErrorNotInitialized :: string_id where "ErrorNotInitialized \<equiv> StringId 53"
abbreviation ErrorAlreadyInitialized :: string_id where "ErrorAlreadyInitialized \<equiv> StringId 54"
abbreviation ErrorInvalidUserId :: string_id where "ErrorInvalidUserId \<equiv> StringId 55"
abbreviation ErrorInvalidBody :: string_id where "ErrorInvalidBody \<equiv> StringId 56"
abbreviation ErrorTooManyMentions :: string_id where "ErrorTooManyMentions \<equiv> StringId 57"
abbreviation ErrorDuplicateMention :: string_id where "ErrorDuplicateMention \<equiv> StringId 58"
abbreviation ErrorReplyParentUnavailable :: string_id where "ErrorReplyParentUnavailable \<equiv> StringId 59"
abbreviation ErrorQueueFull :: string_id where "ErrorQueueFull \<equiv> StringId 60"
abbreviation ErrorTimelineFull :: string_id where "ErrorTimelineFull \<equiv> StringId 61"
abbreviation ErrorSequenceExhausted :: string_id where "ErrorSequenceExhausted \<equiv> StringId 62"
abbreviation ErrorOrderExhausted :: string_id where "ErrorOrderExhausted \<equiv> StringId 63"
abbreviation ErrorRandomUnavailable :: string_id where "ErrorRandomUnavailable \<equiv> StringId 64"
abbreviation ErrorMessageIdCollision :: string_id where "ErrorMessageIdCollision \<equiv> StringId 65"
abbreviation ErrorInvalidPost :: string_id where "ErrorInvalidPost \<equiv> StringId 66"
abbreviation ErrorDuplicatePost :: string_id where "ErrorDuplicatePost \<equiv> StringId 67"
abbreviation ErrorConflictingPost :: string_id where "ErrorConflictingPost \<equiv> StringId 68"
abbreviation ErrorMessageNotFound :: string_id where "ErrorMessageNotFound \<equiv> StringId 69"
abbreviation ErrorNotLocalPost :: string_id where "ErrorNotLocalPost \<equiv> StringId 70"
abbreviation ErrorInvalidTransition :: string_id where "ErrorInvalidTransition \<equiv> StringId 71"
abbreviation ErrorInvalidCharacter :: string_id where "ErrorInvalidCharacter \<equiv> StringId 72"
abbreviation UnknownError :: string_id where "UnknownError \<equiv> StringId 73"
abbreviation LanReady :: string_id where "LanReady \<equiv> StringId 74"
abbreviation StatusQueuedForLan :: string_id where "StatusQueuedForLan \<equiv> StringId 75"
abbreviation HeaderLanExit :: string_id where "HeaderLanExit \<equiv> StringId 76"
abbreviation LanReadyNoDelivery :: string_id where "LanReadyNoDelivery \<equiv> StringId 77"
abbreviation MenuTalk :: string_id where "MenuTalk \<equiv> StringId 78"
abbreviation MenuSettings :: string_id where "MenuSettings \<equiv> StringId 79"
abbreviation SettingsSkipTitle :: string_id where "SettingsSkipTitle \<equiv> StringId 80"
abbreviation ToggleOn :: string_id where "ToggleOn \<equiv> StringId 81"
abbreviation ToggleOff :: string_id where "ToggleOff \<equiv> StringId 82"
abbreviation FooterMenu :: string_id where "FooterMenu \<equiv> StringId 83"
abbreviation StringIdCount :: string_id where "StringIdCount \<equiv> StringId 84"

definition kStringIdCount :: nat where
  "kStringIdCount = string_id_index StringIdCount"

subsection \<open>Tables\<close>

definition kEnglish :: "bytes list" where
  "kEnglish =
    [ascii ''LoRa Messenger'',
     ascii ''Timeline'',
     ascii ''Post detail'',
     ascii ''New post'',
     ascii ''Mentions'',
     ascii ''Settings'',
     ascii ''No messages yet'',
     ascii ''No people in local history'',
     ascii ''User ID'',
     ascii ''Language'',
     ascii ''Saved locally'',
     ascii ''Radio disabled'',
     ascii ''JP LoRa ready'',
     ascii ''Status'',
     ascii ''Error'',
     ascii ''Saved locally as queued. Radio is disabled; delivery is unconfirmed.'',
     ascii ''Queued for JP LoRa broadcast. Peer delivery is unconfirmed.'',
     ascii ''That post is no longer in local history.'',
     ascii ''Discard draft?'',
     ascii ''The unsent draft will be lost.'',
     ascii ''Exit LoRa Messenger?'',
     ascii ''Local settings and history will remain.'',
     ascii ''Cancel'',
     ascii ''Discard'',
     ascii ''Exit'',
     ascii ''Received'',
     ascii ''Queued'',
     ascii ''Broadcast'',
     ascii ''Failed'',
     ascii ''Unknown'',
     ascii ''Original post unavailable'',
     ascii ''A post can mention at most 4 people.'',
     ascii ''LOCAL'',
     ascii ''LOCAL / H Exit'',
     ascii ''JP LORA / H Exit'',
     ascii ''Radio disabled / no delivery confirmation'',
     ascii ''JP LoRa ready / no peer delivery confirmation'',
     ascii ''Bytes remaining'',
     ascii ''Reply'',
     ascii ''Mentioned you'',
     ascii ''Identity'',
     ascii ''^v Sel  Ent Open  N New  R Reply  M @  S Set'',
     ascii ''Up/Down Scroll  R Reply  M @  Esc Back'',
     ascii ''Type  Enter Send  Tab @  Esc Back'',
     ascii ''Up/Down Select  Enter Toggle  Esc Done'',
     ascii ''^v Select  <> Change  D Delete  Esc Back'',
     ascii ''Delete local data?'',
     ascii ''Settings and history will be removed, then the app will exit.'',
     ascii ''Recovery required'',
     ascii ''Local data cannot be opened. Exit without changes or delete all?'',
     ascii ''Delete'',
     ascii ''Local storage could not be saved.'',
     ascii ''No error'',
     ascii ''The messenger is not initialized.'',
     ascii ''The messenger is already initialized.'',
     ascii ''The user ID is invalid.'',
     ascii ''The post body is invalid.'',
     ascii ''Too many mentions.'',
     ascii ''The same person is mentioned more than once.'',
     ascii ''The reply target is no longer available.'',
     ascii ''The outbound queue is full.'',
     ascii ''The local timeline is full.'',
     ascii ''The sender sequence is exhausted.'',
     ascii ''The local timeline order is exhausted.'',
     ascii ''Secure random data is unavailable.'',
     ascii ''The generated message ID already exists.'',
     ascii ''The post is invalid.'',
     ascii ''This post is already in the timeline.'',
     ascii ''A different post uses the same message ID.'',
     ascii ''The requested post was not found.'',
     ascii ''The requested post is not a local post.'',
     ascii ''That status change is not allowed.'',
     ascii ''That character cannot be inserted.'',
     ascii ''An unknown error occurred.'',
     ascii ''Wi-Fi LAN ready'',
     ascii ''Queued for Wi-Fi LAN broadcast. Peer delivery is unconfirmed.'',
     ascii ''WIFI LAN / H Exit'',
     ascii ''Wi-Fi LAN ready / no peer delivery confirmation'',
     ascii ''Talk'',
     ascii ''Settings'',
     ascii ''Skip title on startup'',
     ascii ''ON'',
     ascii ''OFF'',
     ascii ''Up/Down Select  Enter Open  H Exit'']"

definition kJapanese :: "bytes list" where
  "kJapanese =
    [ascii ''LoRa Messenger'',
     [0xe3, 0x82, 0xbf, 0xe3, 0x82, 0xa4, 0xe3, 0x83, 0xa0, 0xe3, 0x83, 0xa9, 0xe3, 0x82, 0xa4, 0xe3, 0x83, 0xb3],
     [0xe6, 0x8a, 0x95, 0xe7, 0xa8, 0xbf, 0xe3, 0x81, 0xae, 0xe8, 0xa9, 0xb3, 0xe7, 0xb4, 0xb0],
     [0xe6, 0x96, 0xb0, 0xe3, 0x81, 0x97, 0xe3, 0x81, 0x84, 0xe6, 0x8a, 0x95, 0xe7, 0xa8, 0xbf],
     [0xe3, 0x83, 0xa1, 0xe3, 0x83, 0xb3, 0xe3, 0x82, 0xb7, 0xe3, 0x83, 0xa7, 0xe3, 0x83, 0xb3],
     [0xe8, 0xa8, 0xad, 0xe5, 0xae, 0x9a],
     [0xe3, 0x81, 0xbe, 0xe3, 0x81, 0xa0, 0xe3, 0x83, 0xa1, 0xe3, 0x83, 0x83, 0xe3, 0x82, 0xbb, 0xe3, 0x83, 0xbc,
     0xe3, 0x82, 0xb8, 0xe3, 0x81, 0xaf, 0xe3, 0x81, 0x82, 0xe3, 0x82, 0x8a, 0xe3, 0x81, 0xbe, 0xe3, 0x81, 0x9b,
     0xe3, 0x82, 0x93],
     [0xe3, 0x83, 0xad, 0xe3, 0x83, 0xbc, 0xe3, 0x82, 0xab, 0xe3, 0x83, 0xab, 0xe5, 0xb1, 0xa5, 0xe6, 0xad, 0xb4,
     0xe3, 0x81, 0xab, 0xe3, 0x83, 0xa6, 0xe3, 0x83, 0xbc, 0xe3, 0x82, 0xb6, 0xe3, 0x83, 0xbc, 0xe3, 0x81, 0x8c,
     0xe3, 0x81, 0x84, 0xe3, 0x81, 0xbe, 0xe3, 0x81, 0x9b, 0xe3, 0x82, 0x93],
     [0xe3, 0x83, 0xa6, 0xe3, 0x83, 0xbc, 0xe3, 0x82, 0xb6, 0xe3, 0x83, 0xbc, 0x49, 0x44],
     [0xe8, 0xa8, 0x80, 0xe8, 0xaa, 0x9e],
     [0xe3, 0x83, 0xad, 0xe3, 0x83, 0xbc, 0xe3, 0x82, 0xab, 0xe3, 0x83, 0xab, 0xe3, 0x81, 0xab, 0xe4, 0xbf, 0x9d,
     0xe5, 0xad, 0x98, 0xe6, 0xb8, 0x88, 0xe3, 0x81, 0xbf],
     [0xe7, 0x84, 0xa1, 0xe7, 0xb7, 0x9a, 0xe3, 0x81, 0xaf, 0xe7, 0x84, 0xa1, 0xe5, 0x8a, 0xb9, 0xe3, 0x81, 0xa7,
     0xe3, 0x81, 0x99],
     [0xe6, 0x97, 0xa5, 0xe6, 0x9c, 0xac, 0x4c, 0x6f, 0x52, 0x61, 0xe4, 0xbd, 0xbf, 0xe7, 0x94, 0xa8, 0xe5, 0x8f,
     0xaf],
     [0xe7, 0x8a, 0xb6, 0xe6, 0x85, 0x8b],
     [0xe3, 0x82, 0xa8, 0xe3, 0x83, 0xa9, 0xe3, 0x83, 0xbc],
     [0xe3, 0x83, 0xad, 0xe3, 0x83, 0xbc, 0xe3, 0x82, 0xab, 0xe3, 0x83, 0xab, 0xe4, 0xbf, 0x9d, 0xe5, 0xad, 0x98,
     0xe6, 0xb8, 0x88, 0xe3, 0x81, 0xbf, 0xe3, 0x81, 0xa7, 0xe3, 0x81, 0x99, 0xe3, 0x80, 0x82, 0xe7, 0x84, 0xa1,
     0xe7, 0xb7, 0x9a, 0xe3, 0x81, 0xaf, 0xe7, 0x84, 0xa1, 0xe5, 0x8a, 0xb9, 0xe3, 0x81, 0xa7, 0xe3, 0x80, 0x81,
     0xe9, 0x85, 0x8d, 0xe4, 0xbf, 0xa1, 0xe7, 0xa2, 0xba, 0xe8, 0xaa, 0x8d, 0xe3, 0x81, 0xaf, 0xe3, 0x81, 0x82,
     0xe3, 0x82, 0x8a, 0xe3, 0x81, 0xbe, 0xe3, 0x81, 0x9b, 0xe3, 0x82, 0x93, 0xe3, 0x80, 0x82],
     [0xe6, 0x97, 0xa5, 0xe6, 0x9c, 0xac, 0x4c, 0x6f, 0x52, 0x61, 0xe9, 0x80, 0x81, 0xe4, 0xbf, 0xa1, 0xe5, 0xbe,
     0x85, 0xe3, 0x81, 0xa1, 0xe3, 0x81, 0xa7, 0xe3, 0x81, 0x99, 0xe3, 0x80, 0x82, 0xe9, 0x85, 0x8d, 0xe4, 0xbf,
     0xa1, 0xe7, 0xa2, 0xba, 0xe8, 0xaa, 0x8d, 0xe3, 0x81, 0xaf, 0xe3, 0x81, 0x82, 0xe3, 0x82, 0x8a, 0xe3, 0x81,
     0xbe, 0xe3, 0x81, 0x9b, 0xe3, 0x82, 0x93, 0xe3, 0x80, 0x82],
     [0xe3, 0x81, 0x9d, 0xe3, 0x81, 0xae, 0xe6, 0x8a, 0x95, 0xe7, 0xa8, 0xbf, 0xe3, 0x81, 0xaf, 0xe3, 0x83, 0xad,
     0xe3, 0x83, 0xbc, 0xe3, 0x82, 0xab, 0xe3, 0x83, 0xab, 0xe5, 0xb1, 0xa5, 0xe6, 0xad, 0xb4, 0xe3, 0x81, 0xab,
     0xe3, 0x81, 0x82, 0xe3, 0x82, 0x8a, 0xe3, 0x81, 0xbe, 0xe3, 0x81, 0x9b, 0xe3, 0x82, 0x93, 0xe3, 0x80, 0x82],
     [0xe4, 0xb8, 0x8b, 0xe6, 0x9b, 0xb8, 0xe3, 0x81, 0x8d, 0xe3, 0x82, 0x92, 0xe7, 0xa0, 0xb4, 0xe6, 0xa3, 0x84,
     0xe3, 0x81, 0x97, 0xe3, 0x81, 0xbe, 0xe3, 0x81, 0x99, 0xe3, 0x81, 0x8b, 0xef, 0xbc, 0x9f],
     [0xe6, 0x9c, 0xaa, 0xe9, 0x80, 0x81, 0xe4, 0xbf, 0xa1, 0xe3, 0x81, 0xae, 0xe4, 0xb8, 0x8b, 0xe6, 0x9b, 0xb8,
     0xe3, 0x81, 0x8d, 0xe3, 0x81, 0xaf, 0xe5, 0xa4, 0xb1, 0xe3, 0x82, 0x8f, 0xe3, 0x82, 0x8c, 0xe3, 0x81, 0xbe,
     0xe3, 0x81, 0x99, 0xe3, 0x80, 0x82],
     [0x4c, 0x6f, 0x52, 0x61, 0x20, 0x4d, 0x65, 0x73, 0x73, 0x65, 0x6e, 0x67, 0x65, 0x72, 0xe3, 0x82, 0x92, 0xe7,
     0xb5, 0x82, 0xe4, 0xba, 0x86, 0xe3, 0x81, 0x97, 0xe3, 0x81, 0xbe, 0xe3, 0x81, 0x99, 0xe3, 0x81, 0x8b, 0xef,
     0xbc, 0x9f],
     [0xe3, 0x83, 0xad, 0xe3, 0x83, 0xbc, 0xe3, 0x82, 0xab, 0xe3, 0x83, 0xab, 0xe8, 0xa8, 0xad, 0xe5, 0xae, 0x9a,
     0xe3, 0x81, 0xa8, 0xe5, 0xb1, 0xa5, 0xe6, 0xad, 0xb4, 0xe3, 0x81, 0xaf, 0xe6, 0xae, 0x8b, 0xe3, 0x82, 0x8a,
     0xe3, 0x81, 0xbe, 0xe3, 0x81, 0x99, 0xe3, 0x80, 0x82],
     [0xe3, 0x82, 0xad, 0xe3, 0x83, 0xa3, 0xe3, 0x83, 0xb3, 0xe3, 0x82, 0xbb, 0xe3, 0x83, 0xab],
     [0xe7, 0xa0, 0xb4, 0xe6, 0xa3, 0x84],
     [0xe7, 0xb5, 0x82, 0xe4, 0xba, 0x86],
     [0xe5, 0x8f, 0x97, 0xe4, 0xbf, 0xa1],
     [0xe9, 0x80, 0x81, 0xe4, 0xbf, 0xa1, 0xe5, 0xbe, 0x85, 0xe3, 0x81, 0xa1],
     [0xe9, 0x80, 0x81, 0xe4, 0xbf, 0xa1, 0xe6, 0xb8, 0x88, 0xe3, 0x81, 0xbf],
     [0xe5, 0xa4, 0xb1, 0xe6, 0x95, 0x97],
     [0xe4, 0xb8, 0x8d, 0xe6, 0x98, 0x8e],
     [0xe5, 0x85, 0x83, 0xe3, 0x81, 0xae, 0xe6, 0x8a, 0x95, 0xe7, 0xa8, 0xbf, 0xe3, 0x81, 0xaf, 0xe3, 0x81, 0x82,
     0xe3, 0x82, 0x8a, 0xe3, 0x81, 0xbe, 0xe3, 0x81, 0x9b, 0xe3, 0x82, 0x93],
     [0xe3, 0x83, 0xa1, 0xe3, 0x83, 0xb3, 0xe3, 0x82, 0xb7, 0xe3, 0x83, 0xa7, 0xe3, 0x83, 0xb3, 0xe3, 0x81, 0xaf,
     0x34, 0xe4, 0xba, 0xba, 0xe3, 0x81, 0xbe, 0xe3, 0x81, 0xa7, 0xe3, 0x81, 0xa7, 0xe3, 0x81, 0x99, 0xe3, 0x80,
     0x82],
     [0xe3, 0x83, 0xad, 0xe3, 0x83, 0xbc, 0xe3, 0x82, 0xab, 0xe3, 0x83, 0xab],
     [0xe3, 0x83, 0xad, 0xe3, 0x83, 0xbc, 0xe3, 0x82, 0xab, 0xe3, 0x83, 0xab, 0x20, 0x2f, 0x20, 0x48, 0x20, 0xe7,
     0xb5, 0x82, 0xe4, 0xba, 0x86],
     [0xe6, 0x97, 0xa5, 0xe6, 0x9c, 0xac, 0x4c, 0x6f, 0x52, 0x61, 0x20, 0x2f, 0x20, 0x48, 0x20, 0xe7, 0xb5, 0x82,
     0xe4, 0xba, 0x86],
     [0xe7, 0x84, 0xa1, 0xe7, 0xb7, 0x9a, 0xe7, 0x84, 0xa1, 0xe5, 0x8a, 0xb9, 0x20, 0x2f, 0x20, 0xe9, 0x85, 0x8d,
     0xe4, 0xbf, 0xa1, 0xe7, 0xa2, 0xba, 0xe8, 0xaa, 0x8d, 0xe3, 0x81, 0xaa, 0xe3, 0x81, 0x97],
     [0xe6, 0x97, 0xa5, 0xe6, 0x9c, 0xac, 0x4c, 0x6f, 0x52, 0x61, 0xe4, 0xbd, 0xbf, 0xe7, 0x94, 0xa8, 0xe5, 0x8f,
     0xaf, 0x20, 0x2f, 0x20, 0xe9, 0x85, 0x8d, 0xe4, 0xbf, 0xa1, 0xe7, 0xa2, 0xba, 0xe8, 0xaa, 0x8d, 0xe3, 0x81,
     0xaa, 0xe3, 0x81, 0x97],
     [0xe6, 0xae, 0x8b, 0xe3, 0x82, 0x8a, 0xe3, 0x83, 0x90, 0xe3, 0x82, 0xa4, 0xe3, 0x83, 0x88],
     [0xe8, 0xbf, 0x94, 0xe4, 0xbf, 0xa1],
     [0xe3, 0x81, 0x82, 0xe3, 0x81, 0xaa, 0xe3, 0x81, 0x9f, 0xe5, 0xae, 0x9b, 0xe3, 0x81, 0xa6],
     [0xe8, 0xad, 0x98, 0xe5, 0x88, 0xa5, 0xe5, 0xad, 0x90],
     [0xe4, 0xb8, 0x8a, 0xe4, 0xb8, 0x8b, 0x20, 0xe9, 0x81, 0xb8, 0xe6, 0x8a, 0x9e, 0x20, 0x20, 0x45, 0x6e, 0x74,
     0x20, 0xe9, 0x96, 0x8b, 0xe3, 0x81, 0x8f, 0x20, 0x20, 0x4e, 0x20, 0xe6, 0x96, 0xb0, 0xe8, 0xa6, 0x8f, 0x20,
     0x20, 0x52, 0x20, 0xe8, 0xbf, 0x94, 0xe4, 0xbf, 0xa1, 0x20, 0x20, 0x4d, 0x20, 0x40, 0x20, 0x20, 0x53, 0x20,
     0xe8, 0xa8, 0xad, 0xe5, 0xae, 0x9a],
     [0xe4, 0xb8, 0x8a, 0xe4, 0xb8, 0x8b, 0x20, 0xe7, 0xa7, 0xbb, 0xe5, 0x8b, 0x95, 0x20, 0x20, 0x52, 0x20, 0xe8,
     0xbf, 0x94, 0xe4, 0xbf, 0xa1, 0x20, 0x20, 0x4d, 0x20, 0x40, 0x20, 0x20, 0x45, 0x73, 0x63, 0x20, 0xe6, 0x88,
     0xbb, 0xe3, 0x82, 0x8b],
     [0xe5, 0x85, 0xa5, 0xe5, 0x8a, 0x9b, 0x20, 0x20, 0x45, 0x6e, 0x74, 0x65, 0x72, 0x20, 0xe9, 0x80, 0x81, 0xe4,
     0xbf, 0xa1, 0x20, 0x20, 0x54, 0x61, 0x62, 0x20, 0x40, 0x20, 0x20, 0x45, 0x73, 0x63, 0x20, 0xe6, 0x88, 0xbb,
     0xe3, 0x82, 0x8b],
     [0xe4, 0xb8, 0x8a, 0xe4, 0xb8, 0x8b, 0x20, 0xe9, 0x81, 0xb8, 0xe6, 0x8a, 0x9e, 0x20, 0x20, 0x45, 0x6e, 0x74,
     0x65, 0x72, 0x20, 0xe5, 0x88, 0x87, 0xe6, 0x9b, 0xbf, 0x20, 0x20, 0x45, 0x73, 0x63, 0x20, 0xe5, 0xae, 0x8c,
     0xe4, 0xba, 0x86],
     [0xe4, 0xb8, 0x8a, 0xe4, 0xb8, 0x8b, 0x20, 0xe9, 0x81, 0xb8, 0xe6, 0x8a, 0x9e, 0x20, 0x20, 0xe5, 0xb7, 0xa6,
     0xe5, 0x8f, 0xb3, 0x20, 0xe5, 0x88, 0x87, 0xe6, 0x9b, 0xbf, 0x20, 0x20, 0x44, 0x20, 0xe5, 0x89, 0x8a, 0xe9,
     0x99, 0xa4, 0x20, 0x20, 0x45, 0x73, 0x63, 0x20, 0xe6, 0x88, 0xbb, 0xe3, 0x82, 0x8b],
     [0xe3, 0x83, 0xad, 0xe3, 0x83, 0xbc, 0xe3, 0x82, 0xab, 0xe3, 0x83, 0xab, 0xe3, 0x83, 0x87, 0xe3, 0x83, 0xbc,
     0xe3, 0x82, 0xbf, 0xe3, 0x82, 0x92, 0xe5, 0x89, 0x8a, 0xe9, 0x99, 0xa4, 0xef, 0xbc, 0x9f],
     [0xe8, 0xa8, 0xad, 0xe5, 0xae, 0x9a, 0xe3, 0x81, 0xa8, 0xe5, 0xb1, 0xa5, 0xe6, 0xad, 0xb4, 0xe3, 0x82, 0x92,
     0xe5, 0x89, 0x8a, 0xe9, 0x99, 0xa4, 0xe3, 0x81, 0x97, 0xe3, 0x81, 0xa6, 0xe3, 0x80, 0x81, 0xe3, 0x82, 0xa2,
     0xe3, 0x83, 0x97, 0xe3, 0x83, 0xaa, 0xe3, 0x82, 0x92, 0xe7, 0xb5, 0x82, 0xe4, 0xba, 0x86, 0xe3, 0x81, 0x97,
     0xe3, 0x81, 0xbe, 0xe3, 0x81, 0x99, 0xe3, 0x80, 0x82],
     [0xe5, 0xbe, 0xa9, 0xe6, 0x97, 0xa7, 0xe3, 0x81, 0x8c, 0xe5, 0xbf, 0x85, 0xe8, 0xa6, 0x81, 0xe3, 0x81, 0xa7,
     0xe3, 0x81, 0x99],
     [0xe3, 0x83, 0xad, 0xe3, 0x83, 0xbc, 0xe3, 0x82, 0xab, 0xe3, 0x83, 0xab, 0xe3, 0x83, 0x87, 0xe3, 0x83, 0xbc,
     0xe3, 0x82, 0xbf, 0xe3, 0x82, 0x92, 0xe9, 0x96, 0x8b, 0xe3, 0x81, 0x91, 0xe3, 0x81, 0xbe, 0xe3, 0x81, 0x9b,
     0xe3, 0x82, 0x93, 0xe3, 0x80, 0x82, 0xe5, 0xa4, 0x89, 0xe6, 0x9b, 0xb4, 0xe3, 0x81, 0x9b, 0xe3, 0x81, 0x9a,
     0xe7, 0xb5, 0x82, 0xe4, 0xba, 0x86, 0xe3, 0x80, 0x81, 0xe3, 0x81, 0xbe, 0xe3, 0x81, 0x9f, 0xe3, 0x81, 0xaf,
     0xe5, 0x85, 0xa8, 0xe5, 0x89, 0x8a, 0xe9, 0x99, 0xa4, 0xe3, 0x81, 0x97, 0xe3, 0x81, 0xbe, 0xe3, 0x81, 0x99,
     0xe3, 0x80, 0x82],
     [0xe5, 0x89, 0x8a, 0xe9, 0x99, 0xa4],
     [0xe3, 0x83, 0xad, 0xe3, 0x83, 0xbc, 0xe3, 0x82, 0xab, 0xe3, 0x83, 0xab, 0xe4, 0xbf, 0x9d, 0xe5, 0xad, 0x98,
     0xe3, 0x81, 0xab, 0xe5, 0xa4, 0xb1, 0xe6, 0x95, 0x97, 0xe3, 0x81, 0x97, 0xe3, 0x81, 0xbe, 0xe3, 0x81, 0x97,
     0xe3, 0x81, 0x9f, 0xe3, 0x80, 0x82],
     [0xe3, 0x82, 0xa8, 0xe3, 0x83, 0xa9, 0xe3, 0x83, 0xbc, 0xe3, 0x81, 0xaf, 0xe3, 0x81, 0x82, 0xe3, 0x82, 0x8a,
     0xe3, 0x81, 0xbe, 0xe3, 0x81, 0x9b, 0xe3, 0x82, 0x93],
     [0xe3, 0x83, 0xa1, 0xe3, 0x83, 0x83, 0xe3, 0x82, 0xbb, 0xe3, 0x83, 0xb3, 0xe3, 0x82, 0xb8, 0xe3, 0x83, 0xa3,
     0xe3, 0x83, 0xbc, 0xe3, 0x81, 0x8c, 0xe5, 0x88, 0x9d, 0xe6, 0x9c, 0x9f, 0xe5, 0x8c, 0x96, 0xe3, 0x81, 0x95,
     0xe3, 0x82, 0x8c, 0xe3, 0x81, 0xa6, 0xe3, 0x81, 0x84, 0xe3, 0x81, 0xbe, 0xe3, 0x81, 0x9b, 0xe3, 0x82, 0x93,
     0xe3, 0x80, 0x82],
     [0xe3, 0x83, 0xa1, 0xe3, 0x83, 0x83, 0xe3, 0x82, 0xbb, 0xe3, 0x83, 0xb3, 0xe3, 0x82, 0xb8, 0xe3, 0x83, 0xa3,
     0xe3, 0x83, 0xbc, 0xe3, 0x81, 0xaf, 0xe3, 0x81, 0x99, 0xe3, 0x81, 0xa7, 0xe3, 0x81, 0xab, 0xe5, 0x88, 0x9d,
     0xe6, 0x9c, 0x9f, 0xe5, 0x8c, 0x96, 0xe3, 0x81, 0x95, 0xe3, 0x82, 0x8c, 0xe3, 0x81, 0xa6, 0xe3, 0x81, 0x84,
     0xe3, 0x81, 0xbe, 0xe3, 0x81, 0x99, 0xe3, 0x80, 0x82],
     [0xe3, 0x83, 0xa6, 0xe3, 0x83, 0xbc, 0xe3, 0x82, 0xb6, 0xe3, 0x83, 0xbc, 0x49, 0x44, 0xe3, 0x81, 0x8c, 0xe7,
     0x84, 0xa1, 0xe5, 0x8a, 0xb9, 0xe3, 0x81, 0xa7, 0xe3, 0x81, 0x99, 0xe3, 0x80, 0x82],
     [0xe6, 0x8a, 0x95, 0xe7, 0xa8, 0xbf, 0xe6, 0x9c, 0xac, 0xe6, 0x96, 0x87, 0xe3, 0x81, 0x8c, 0xe7, 0x84, 0xa1,
     0xe5, 0x8a, 0xb9, 0xe3, 0x81, 0xa7, 0xe3, 0x81, 0x99, 0xe3, 0x80, 0x82],
     [0xe3, 0x83, 0xa1, 0xe3, 0x83, 0xb3, 0xe3, 0x82, 0xb7, 0xe3, 0x83, 0xa7, 0xe3, 0x83, 0xb3, 0xe3, 0x81, 0x8c,
     0xe5, 0xa4, 0x9a, 0xe3, 0x81, 0x99, 0xe3, 0x81, 0x8e, 0xe3, 0x81, 0xbe, 0xe3, 0x81, 0x99, 0xe3, 0x80, 0x82],
     [0xe5, 0x90, 0x8c, 0xe3, 0x81, 0x98, 0xe3, 0x83, 0xa6, 0xe3, 0x83, 0xbc, 0xe3, 0x82, 0xb6, 0xe3, 0x83, 0xbc,
     0xe3, 0x81, 0x8c, 0xe9, 0x87, 0x8d, 0xe8, 0xa4, 0x87, 0xe3, 0x81, 0x97, 0xe3, 0x81, 0xa6, 0xe3, 0x81, 0x84,
     0xe3, 0x81, 0xbe, 0xe3, 0x81, 0x99, 0xe3, 0x80, 0x82],
     [0xe8, 0xbf, 0x94, 0xe4, 0xbf, 0xa1, 0xe5, 0x85, 0x88, 0xe3, 0x81, 0xaf, 0xe5, 0x88, 0xa9, 0xe7, 0x94, 0xa8,
     0xe3, 0x81, 0xa7, 0xe3, 0x81, 0x8d, 0xe3, 0x81, 0xbe, 0xe3, 0x81, 0x9b, 0xe3, 0x82, 0x93, 0xe3, 0x80, 0x82],
     [0xe9, 0x80, 0x81, 0xe4, 0xbf, 0xa1, 0xe5, 0xbe, 0x85, 0xe3, 0x81, 0xa1, 0xe3, 0x82, 0xad, 0xe3, 0x83, 0xa5,
     0xe3, 0x83, 0xbc, 0xe3, 0x81, 0x8c, 0xe6, 0xba, 0x80, 0xe6, 0x9d, 0xaf, 0xe3, 0x81, 0xa7, 0xe3, 0x81, 0x99,
     0xe3, 0x80, 0x82],
     [0xe3, 0x83, 0xad, 0xe3, 0x83, 0xbc, 0xe3, 0x82, 0xab, 0xe3, 0x83, 0xab, 0xe3, 0x82, 0xbf, 0xe3, 0x82, 0xa4,
     0xe3, 0x83, 0xa0, 0xe3, 0x83, 0xa9, 0xe3, 0x82, 0xa4, 0xe3, 0x83, 0xb3, 0xe3, 0x81, 0x8c, 0xe6, 0xba, 0x80,
     0xe6, 0x9d, 0xaf, 0xe3, 0x81, 0xa7, 0xe3, 0x81, 0x99, 0xe3, 0x80, 0x82],
     [0xe9, 0x80, 0x81, 0xe4, 0xbf, 0xa1, 0xe3, 0x82, 0xb7, 0xe3, 0x83, 0xbc, 0xe3, 0x82, 0xb1, 0xe3, 0x83, 0xb3,
     0xe3, 0x82, 0xb9, 0xe3, 0x82, 0x92, 0xe7, 0x99, 0xba, 0xe8, 0xa1, 0x8c, 0xe3, 0x81, 0xa7, 0xe3, 0x81, 0x8d,
     0xe3, 0x81, 0xbe, 0xe3, 0x81, 0x9b, 0xe3, 0x82, 0x93, 0xe3, 0x80, 0x82],
     [0xe3, 0x83, 0xad, 0xe3, 0x83, 0xbc, 0xe3, 0x82, 0xab, 0xe3, 0x83, 0xab, 0xe9, 0xa0, 0x86, 0xe5, 0xba, 0x8f,
     0xe3, 0x82, 0x92, 0xe7, 0x99, 0xba, 0xe8, 0xa1, 0x8c, 0xe3, 0x81, 0xa7, 0xe3, 0x81, 0x8d, 0xe3, 0x81, 0xbe,
     0xe3, 0x81, 0x9b, 0xe3, 0x82, 0x93, 0xe3, 0x80, 0x82],
     [0xe5, 0xae, 0x89, 0xe5, 0x85, 0xa8, 0xe3, 0x81, 0xaa, 0xe4, 0xb9, 0xb1, 0xe6, 0x95, 0xb0, 0xe3, 0x82, 0x92,
     0xe5, 0x88, 0xa9, 0xe7, 0x94, 0xa8, 0xe3, 0x81, 0xa7, 0xe3, 0x81, 0x8d, 0xe3, 0x81, 0xbe, 0xe3, 0x81, 0x9b,
     0xe3, 0x82, 0x93, 0xe3, 0x80, 0x82],
     [0xe7, 0x94, 0x9f, 0xe6, 0x88, 0x90, 0xe3, 0x81, 0x97, 0xe3, 0x81, 0x9f, 0xe3, 0x83, 0xa1, 0xe3, 0x83, 0x83,
     0xe3, 0x82, 0xbb, 0xe3, 0x83, 0xbc, 0xe3, 0x82, 0xb8, 0x49, 0x44, 0xe3, 0x81, 0x8c, 0xe3, 0x81, 0x99, 0xe3,
     0x81, 0xa7, 0xe3, 0x81, 0xab, 0xe5, 0xad, 0x98, 0xe5, 0x9c, 0xa8, 0xe3, 0x81, 0x97, 0xe3, 0x81, 0xbe, 0xe3,
     0x81, 0x99, 0xe3, 0x80, 0x82],
     [0xe6, 0x8a, 0x95, 0xe7, 0xa8, 0xbf, 0xe3, 0x81, 0x8c, 0xe7, 0x84, 0xa1, 0xe5, 0x8a, 0xb9, 0xe3, 0x81, 0xa7,
     0xe3, 0x81, 0x99, 0xe3, 0x80, 0x82],
     [0xe3, 0x81, 0x93, 0xe3, 0x81, 0xae, 0xe6, 0x8a, 0x95, 0xe7, 0xa8, 0xbf, 0xe3, 0x81, 0xaf, 0xe3, 0x81, 0x99,
     0xe3, 0x81, 0xa7, 0xe3, 0x81, 0xab, 0xe3, 0x82, 0xbf, 0xe3, 0x82, 0xa4, 0xe3, 0x83, 0xa0, 0xe3, 0x83, 0xa9,
     0xe3, 0x82, 0xa4, 0xe3, 0x83, 0xb3, 0xe3, 0x81, 0xab, 0xe3, 0x81, 0x82, 0xe3, 0x82, 0x8a, 0xe3, 0x81, 0xbe,
     0xe3, 0x81, 0x99, 0xe3, 0x80, 0x82],
     [0xe5, 0x90, 0x8c, 0xe3, 0x81, 0x98, 0xe3, 0x83, 0xa1, 0xe3, 0x83, 0x83, 0xe3, 0x82, 0xbb, 0xe3, 0x83, 0xbc,
     0xe3, 0x82, 0xb8, 0x49, 0x44, 0xe3, 0x81, 0xae, 0xe7, 0x95, 0xb0, 0xe3, 0x81, 0xaa, 0xe3, 0x82, 0x8b, 0xe6,
     0x8a, 0x95, 0xe7, 0xa8, 0xbf, 0xe3, 0x81, 0x8c, 0xe3, 0x81, 0x82, 0xe3, 0x82, 0x8a, 0xe3, 0x81, 0xbe, 0xe3,
     0x81, 0x99, 0xe3, 0x80, 0x82],
     [0xe6, 0x8c, 0x87, 0xe5, 0xae, 0x9a, 0xe3, 0x81, 0x97, 0xe3, 0x81, 0x9f, 0xe6, 0x8a, 0x95, 0xe7, 0xa8, 0xbf,
     0xe3, 0x81, 0x8c, 0xe8, 0xa6, 0x8b, 0xe3, 0x81, 0xa4, 0xe3, 0x81, 0x8b, 0xe3, 0x82, 0x8a, 0xe3, 0x81, 0xbe,
     0xe3, 0x81, 0x9b, 0xe3, 0x82, 0x93, 0xe3, 0x80, 0x82],
     [0xe6, 0x8c, 0x87, 0xe5, 0xae, 0x9a, 0xe3, 0x81, 0x97, 0xe3, 0x81, 0x9f, 0xe6, 0x8a, 0x95, 0xe7, 0xa8, 0xbf,
     0xe3, 0x81, 0xaf, 0xe3, 0x83, 0xad, 0xe3, 0x83, 0xbc, 0xe3, 0x82, 0xab, 0xe3, 0x83, 0xab, 0xe6, 0x8a, 0x95,
     0xe7, 0xa8, 0xbf, 0xe3, 0x81, 0xa7, 0xe3, 0x81, 0xaf, 0xe3, 0x81, 0x82, 0xe3, 0x82, 0x8a, 0xe3, 0x81, 0xbe,
     0xe3, 0x81, 0x9b, 0xe3, 0x82, 0x93, 0xe3, 0x80, 0x82],
     [0xe3, 0x81, 0x9d, 0xe3, 0x81, 0xae, 0xe7, 0x8a, 0xb6, 0xe6, 0x85, 0x8b, 0xe5, 0xa4, 0x89, 0xe6, 0x9b, 0xb4,
     0xe3, 0x81, 0xaf, 0xe8, 0xa8, 0xb1, 0xe5, 0x8f, 0xaf, 0xe3, 0x81, 0x95, 0xe3, 0x82, 0x8c, 0xe3, 0x81, 0xa6,
     0xe3, 0x81, 0x84, 0xe3, 0x81, 0xbe, 0xe3, 0x81, 0x9b, 0xe3, 0x82, 0x93, 0xe3, 0x80, 0x82],
     [0xe3, 0x81, 0x9d, 0xe3, 0x81, 0xae, 0xe6, 0x96, 0x87, 0xe5, 0xad, 0x97, 0xe3, 0x81, 0xaf, 0xe5, 0x85, 0xa5,
     0xe5, 0x8a, 0x9b, 0xe3, 0x81, 0xa7, 0xe3, 0x81, 0x8d, 0xe3, 0x81, 0xbe, 0xe3, 0x81, 0x9b, 0xe3, 0x82, 0x93,
     0xe3, 0x80, 0x82],
     [0xe4, 0xb8, 0x8d, 0xe6, 0x98, 0x8e, 0xe3, 0x81, 0xaa, 0xe3, 0x82, 0xa8, 0xe3, 0x83, 0xa9, 0xe3, 0x83, 0xbc,
     0xe3, 0x81, 0x8c, 0xe7, 0x99, 0xba, 0xe7, 0x94, 0x9f, 0xe3, 0x81, 0x97, 0xe3, 0x81, 0xbe, 0xe3, 0x81, 0x97,
     0xe3, 0x81, 0x9f, 0xe3, 0x80, 0x82],
     [0x57, 0x69, 0x2d, 0x46, 0x69, 0x20, 0x4c, 0x41, 0x4e, 0xe4, 0xbd, 0xbf, 0xe7, 0x94, 0xa8, 0xe5, 0x8f, 0xaf],
     [0x57, 0x69, 0x2d, 0x46, 0x69, 0x20, 0x4c, 0x41, 0x4e, 0xe9, 0x80, 0x81, 0xe4, 0xbf, 0xa1, 0xe5, 0xbe, 0x85,
     0xe3, 0x81, 0xa1, 0xe3, 0x81, 0xa7, 0xe3, 0x81, 0x99, 0xe3, 0x80, 0x82, 0xe9, 0x85, 0x8d, 0xe4, 0xbf, 0xa1,
     0xe7, 0xa2, 0xba, 0xe8, 0xaa, 0x8d, 0xe3, 0x81, 0xaf, 0xe3, 0x81, 0x82, 0xe3, 0x82, 0x8a, 0xe3, 0x81, 0xbe,
     0xe3, 0x81, 0x9b, 0xe3, 0x82, 0x93, 0xe3, 0x80, 0x82],
     [0x57, 0x49, 0x46, 0x49, 0x20, 0x4c, 0x41, 0x4e, 0x20, 0x2f, 0x20, 0x48, 0x20, 0xe7, 0xb5, 0x82, 0xe4, 0xba,
     0x86],
     [0x57, 0x69, 0x2d, 0x46, 0x69, 0x20, 0x4c, 0x41, 0x4e, 0xe4, 0xbd, 0xbf, 0xe7, 0x94, 0xa8, 0xe5, 0x8f, 0xaf,
     0x20, 0x2f, 0x20, 0xe9, 0x85, 0x8d, 0xe4, 0xbf, 0xa1, 0xe7, 0xa2, 0xba, 0xe8, 0xaa, 0x8d, 0xe3, 0x81, 0xaa,
     0xe3, 0x81, 0x97],
     ascii ''Talk'',
     [0xe8, 0xa8, 0xad, 0xe5, 0xae, 0x9a],
     ascii ''Skip title'',
     ascii ''ON'',
     ascii ''OFF'',
     [0xe4, 0xb8, 0x8a, 0xe4, 0xb8, 0x8b, 0x20, 0xe9, 0x81, 0xb8, 0xe6, 0x8a, 0x9e, 0x20, 0x20, 0x45, 0x6e, 0x74,
     0x65, 0x72, 0x20, 0xe9, 0x96, 0x8b, 0xe3, 0x81, 0x8f, 0x20, 0x20, 0x48, 0x20, 0xe7, 0xb5, 0x82, 0xe4, 0xba,
     0x86]]"

definition kSimplifiedChinese :: "bytes list" where
  "kSimplifiedChinese =
    [ascii ''LoRa Messenger'',
     [0xe6, 0x97, 0xb6, 0xe9, 0x97, 0xb4, 0xe7, 0xba, 0xbf],
     [0xe5, 0xb8, 0x96, 0xe5, 0xad, 0x90, 0xe8, 0xaf, 0xa6, 0xe6, 0x83, 0x85],
     [0xe6, 0x96, 0xb0, 0xe5, 0xb8, 0x96, 0xe5, 0xad, 0x90],
     [0xe6, 0x8f, 0x90, 0xe5, 0x8f, 0x8a],
     [0xe8, 0xae, 0xbe, 0xe7, 0xbd, 0xae],
     [0xe8, 0xbf, 0x98, 0xe6, 0xb2, 0xa1, 0xe6, 0x9c, 0x89, 0xe6, 0xb6, 0x88, 0xe6, 0x81, 0xaf],
     [0xe6, 0x9c, 0xac, 0xe5, 0x9c, 0xb0, 0xe5, 0x8e, 0x86, 0xe5, 0x8f, 0xb2, 0xe4, 0xb8, 0xad, 0xe6, 0xb2, 0xa1,
     0xe6, 0x9c, 0x89, 0xe7, 0x94, 0xa8, 0xe6, 0x88, 0xb7],
     [0xe7, 0x94, 0xa8, 0xe6, 0x88, 0xb7, 0x49, 0x44],
     [0xe8, 0xaf, 0xad, 0xe8, 0xa8, 0x80],
     [0xe5, 0xb7, 0xb2, 0xe4, 0xbf, 0x9d, 0xe5, 0xad, 0x98, 0xe5, 0x88, 0xb0, 0xe6, 0x9c, 0xac, 0xe5, 0x9c, 0xb0],
     [0xe6, 0x97, 0xa0, 0xe7, 0xba, 0xbf, 0xe7, 0x94, 0xb5, 0xe5, 0xb7, 0xb2, 0xe7, 0xa6, 0x81, 0xe7, 0x94, 0xa8],
     [0xe6, 0x97, 0xa5, 0xe6, 0x9c, 0xac, 0x4c, 0x6f, 0x52, 0x61, 0xe5, 0x8f, 0xaf, 0xe7, 0x94, 0xa8],
     [0xe7, 0x8a, 0xb6, 0xe6, 0x80, 0x81],
     [0xe9, 0x94, 0x99, 0xe8, 0xaf, 0xaf],
     [0xe5, 0xb7, 0xb2, 0xe5, 0x9c, 0xa8, 0xe6, 0x9c, 0xac, 0xe5, 0x9c, 0xb0, 0xe6, 0x8e, 0x92, 0xe9, 0x98, 0x9f,
     0xe3, 0x80, 0x82, 0xe6, 0x97, 0xa0, 0xe7, 0xba, 0xbf, 0xe7, 0x94, 0xb5, 0xe5, 0xb7, 0xb2, 0xe7, 0xa6, 0x81,
     0xe7, 0x94, 0xa8, 0xef, 0xbc, 0x8c, 0xe4, 0xb9, 0x9f, 0xe6, 0xb2, 0xa1, 0xe6, 0x9c, 0x89, 0xe9, 0x80, 0x81,
     0xe8, 0xbe, 0xbe, 0xe7, 0xa1, 0xae, 0xe8, 0xae, 0xa4, 0xe3, 0x80, 0x82],
     [0xe5, 0xb7, 0xb2, 0xe5, 0x9c, 0xa8, 0xe6, 0x97, 0xa5, 0xe6, 0x9c, 0xac, 0x4c, 0x6f, 0x52, 0x61, 0xe6, 0x8e,
     0x92, 0xe9, 0x98, 0x9f, 0xe3, 0x80, 0x82, 0xe6, 0xb2, 0xa1, 0xe6, 0x9c, 0x89, 0xe9, 0x80, 0x81, 0xe8, 0xbe,
     0xbe, 0xe7, 0xa1, 0xae, 0xe8, 0xae, 0xa4, 0xe3, 0x80, 0x82],
     [0xe8, 0xaf, 0xa5, 0xe5, 0xb8, 0x96, 0xe5, 0xad, 0x90, 0xe5, 0xb7, 0xb2, 0xe4, 0xb8, 0x8d, 0xe5, 0x9c, 0xa8,
     0xe6, 0x9c, 0xac, 0xe5, 0x9c, 0xb0, 0xe5, 0x8e, 0x86, 0xe5, 0x8f, 0xb2, 0xe4, 0xb8, 0xad, 0xe3, 0x80, 0x82],
     [0xe6, 0x94, 0xbe, 0xe5, 0xbc, 0x83, 0xe8, 0x8d, 0x89, 0xe7, 0xa8, 0xbf, 0xef, 0xbc, 0x9f],
     [0xe6, 0x9c, 0xaa, 0xe5, 0x8f, 0x91, 0xe9, 0x80, 0x81, 0xe7, 0x9a, 0x84, 0xe8, 0x8d, 0x89, 0xe7, 0xa8, 0xbf,
     0xe5, 0xb0, 0x86, 0xe4, 0xb8, 0xa2, 0xe5, 0xa4, 0xb1, 0xe3, 0x80, 0x82],
     [0xe9, 0x80, 0x80, 0xe5, 0x87, 0xba, 0x4c, 0x6f, 0x52, 0x61, 0x20, 0x4d, 0x65, 0x73, 0x73, 0x65, 0x6e, 0x67,
     0x65, 0x72, 0xef, 0xbc, 0x9f],
     [0xe6, 0x9c, 0xac, 0xe5, 0x9c, 0xb0, 0xe8, 0xae, 0xbe, 0xe7, 0xbd, 0xae, 0xe5, 0x92, 0x8c, 0xe5, 0x8e, 0x86,
     0xe5, 0x8f, 0xb2, 0xe8, 0xae, 0xb0, 0xe5, 0xbd, 0x95, 0xe4, 0xbc, 0x9a, 0xe4, 0xbf, 0x9d, 0xe7, 0x95, 0x99,
     0xe3, 0x80, 0x82],
     [0xe5, 0x8f, 0x96, 0xe6, 0xb6, 0x88],
     [0xe6, 0x94, 0xbe, 0xe5, 0xbc, 0x83],
     [0xe9, 0x80, 0x80, 0xe5, 0x87, 0xba],
     [0xe5, 0xb7, 0xb2, 0xe6, 0x8e, 0xa5, 0xe6, 0x94, 0xb6],
     [0xe6, 0x8e, 0x92, 0xe9, 0x98, 0x9f, 0xe4, 0xb8, 0xad],
     [0xe5, 0xb7, 0xb2, 0xe5, 0xb9, 0xbf, 0xe6, 0x92, 0xad],
     [0xe5, 0xa4, 0xb1, 0xe8, 0xb4, 0xa5],
     [0xe6, 0x9c, 0xaa, 0xe7, 0x9f, 0xa5],
     [0xe5, 0x8e, 0x9f, 0xe5, 0xb8, 0x96, 0xe5, 0xad, 0x90, 0xe4, 0xb8, 0x8d, 0xe5, 0x8f, 0xaf, 0xe7, 0x94, 0xa8],
     [0xe4, 0xb8, 0x80, 0xe6, 0x9d, 0xa1, 0xe5, 0xb8, 0x96, 0xe5, 0xad, 0x90, 0xe6, 0x9c, 0x80, 0xe5, 0xa4, 0x9a,
     0xe5, 0x8f, 0xaf, 0xe6, 0x8f, 0x90, 0xe5, 0x8f, 0x8a, 0x34, 0xe4, 0xba, 0xba, 0xe3, 0x80, 0x82],
     [0xe6, 0x9c, 0xac, 0xe5, 0x9c, 0xb0],
     [0xe6, 0x9c, 0xac, 0xe5, 0x9c, 0xb0, 0x20, 0x2f, 0x20, 0x48, 0x20, 0xe9, 0x80, 0x80, 0xe5, 0x87, 0xba],
     [0xe6, 0x97, 0xa5, 0xe6, 0x9c, 0xac, 0x4c, 0x6f, 0x52, 0x61, 0x20, 0x2f, 0x20, 0x48, 0x20, 0xe9, 0x80, 0x80,
     0xe5, 0x87, 0xba],
     [0xe6, 0x97, 0xa0, 0xe7, 0xba, 0xbf, 0xe7, 0x94, 0xb5, 0xe5, 0xb7, 0xb2, 0xe7, 0xa6, 0x81, 0xe7, 0x94, 0xa8,
     0x20, 0x2f, 0x20, 0xe6, 0x97, 0xa0, 0xe9, 0x80, 0x81, 0xe8, 0xbe, 0xbe, 0xe7, 0xa1, 0xae, 0xe8, 0xae, 0xa4],
     [0xe6, 0x97, 0xa5, 0xe6, 0x9c, 0xac, 0x4c, 0x6f, 0x52, 0x61, 0xe5, 0x8f, 0xaf, 0xe7, 0x94, 0xa8, 0x20, 0x2f,
     0x20, 0xe6, 0x97, 0xa0, 0xe9, 0x80, 0x81, 0xe8, 0xbe, 0xbe, 0xe7, 0xa1, 0xae, 0xe8, 0xae, 0xa4],
     [0xe5, 0x89, 0xa9, 0xe4, 0xbd, 0x99, 0xe5, 0xad, 0x97, 0xe8, 0x8a, 0x82],
     [0xe5, 0x9b, 0x9e, 0xe5, 0xa4, 0x8d],
     [0xe6, 0x8f, 0x90, 0xe5, 0x8f, 0x8a, 0xe4, 0xba, 0x86, 0xe4, 0xbd, 0xa0],
     [0xe8, 0xba, 0xab, 0xe4, 0xbb, 0xbd, 0xe6, 0xa0, 0x87, 0xe8, 0xaf, 0x86],
     [0xe4, 0xb8, 0x8a, 0xe4, 0xb8, 0x8b, 0x20, 0xe9, 0x80, 0x89, 0xe6, 0x8b, 0xa9, 0x20, 0x20, 0x45, 0x6e, 0x74,
     0x20, 0xe6, 0x89, 0x93, 0xe5, 0xbc, 0x80, 0x20, 0x20, 0x4e, 0x20, 0xe6, 0x96, 0xb0, 0xe5, 0xbb, 0xba, 0x20,
     0x20, 0x52, 0x20, 0xe5, 0x9b, 0x9e, 0xe5, 0xa4, 0x8d, 0x20, 0x20, 0x4d, 0x20, 0x40, 0x20, 0x20, 0x53, 0x20,
     0xe8, 0xae, 0xbe, 0xe7, 0xbd, 0xae],
     [0xe4, 0xb8, 0x8a, 0xe4, 0xb8, 0x8b, 0x20, 0xe7, 0xa7, 0xbb, 0xe5, 0x8a, 0xa8, 0x20, 0x20, 0x52, 0x20, 0xe5,
     0x9b, 0x9e, 0xe5, 0xa4, 0x8d, 0x20, 0x20, 0x4d, 0x20, 0x40, 0x20, 0x20, 0x45, 0x73, 0x63, 0x20, 0xe8, 0xbf,
     0x94, 0xe5, 0x9b, 0x9e],
     [0xe8, 0xbe, 0x93, 0xe5, 0x85, 0xa5, 0x20, 0x20, 0x45, 0x6e, 0x74, 0x65, 0x72, 0x20, 0xe5, 0x8f, 0x91, 0xe9,
     0x80, 0x81, 0x20, 0x20, 0x54, 0x61, 0x62, 0x20, 0x40, 0x20, 0x20, 0x45, 0x73, 0x63, 0x20, 0xe8, 0xbf, 0x94,
     0xe5, 0x9b, 0x9e],
     [0xe4, 0xb8, 0x8a, 0xe4, 0xb8, 0x8b, 0x20, 0xe9, 0x80, 0x89, 0xe6, 0x8b, 0xa9, 0x20, 0x20, 0x45, 0x6e, 0x74,
     0x65, 0x72, 0x20, 0xe5, 0x88, 0x87, 0xe6, 0x8d, 0xa2, 0x20, 0x20, 0x45, 0x73, 0x63, 0x20, 0xe5, 0xae, 0x8c,
     0xe6, 0x88, 0x90],
     [0xe4, 0xb8, 0x8a, 0xe4, 0xb8, 0x8b, 0x20, 0xe9, 0x80, 0x89, 0xe6, 0x8b, 0xa9, 0x20, 0x20, 0xe5, 0xb7, 0xa6,
     0xe5, 0x8f, 0xb3, 0x20, 0xe5, 0x88, 0x87, 0xe6, 0x8d, 0xa2, 0x20, 0x20, 0x44, 0x20, 0xe5, 0x88, 0xa0, 0xe9,
     0x99, 0xa4, 0x20, 0x20, 0x45, 0x73, 0x63, 0x20, 0xe8, 0xbf, 0x94, 0xe5, 0x9b, 0x9e],
     [0xe5, 0x88, 0xa0, 0xe9, 0x99, 0xa4, 0xe6, 0x9c, 0xac, 0xe5, 0x9c, 0xb0, 0xe6, 0x95, 0xb0, 0xe6, 0x8d, 0xae,
     0xef, 0xbc, 0x9f],
     [0xe8, 0xae, 0xbe, 0xe7, 0xbd, 0xae, 0xe5, 0x92, 0x8c, 0xe5, 0x8e, 0x86, 0xe5, 0x8f, 0xb2, 0xe8, 0xae, 0xb0,
     0xe5, 0xbd, 0x95, 0xe5, 0xb0, 0x86, 0xe8, 0xa2, 0xab, 0xe5, 0x88, 0xa0, 0xe9, 0x99, 0xa4, 0xef, 0xbc, 0x8c,
     0xe7, 0x84, 0xb6, 0xe5, 0x90, 0x8e, 0xe5, 0xba, 0x94, 0xe7, 0x94, 0xa8, 0xe4, 0xbc, 0x9a, 0xe9, 0x80, 0x80,
     0xe5, 0x87, 0xba, 0xe3, 0x80, 0x82],
     [0xe9, 0x9c, 0x80, 0xe8, 0xa6, 0x81, 0xe6, 0x81, 0xa2, 0xe5, 0xa4, 0x8d],
     [0xe6, 0x97, 0xa0, 0xe6, 0xb3, 0x95, 0xe6, 0x89, 0x93, 0xe5, 0xbc, 0x80, 0xe6, 0x9c, 0xac, 0xe5, 0x9c, 0xb0,
     0xe6, 0x95, 0xb0, 0xe6, 0x8d, 0xae, 0xe3, 0x80, 0x82, 0xe9, 0x80, 0x80, 0xe5, 0x87, 0xba, 0xe4, 0xb8, 0x94,
     0xe4, 0xb8, 0x8d, 0xe6, 0x9b, 0xb4, 0xe6, 0x94, 0xb9, 0xef, 0xbc, 0x8c, 0xe6, 0x88, 0x96, 0xe5, 0x85, 0xa8,
     0xe9, 0x83, 0xa8, 0xe5, 0x88, 0xa0, 0xe9, 0x99, 0xa4, 0xef, 0xbc, 0x9f],
     [0xe5, 0x88, 0xa0, 0xe9, 0x99, 0xa4],
     [0xe6, 0x97, 0xa0, 0xe6, 0xb3, 0x95, 0xe4, 0xbf, 0x9d, 0xe5, 0xad, 0x98, 0xe6, 0x9c, 0xac, 0xe5, 0x9c, 0xb0,
     0xe6, 0x95, 0xb0, 0xe6, 0x8d, 0xae, 0xe3, 0x80, 0x82],
     [0xe6, 0xb2, 0xa1, 0xe6, 0x9c, 0x89, 0xe9, 0x94, 0x99, 0xe8, 0xaf, 0xaf],
     [0xe6, 0xb6, 0x88, 0xe6, 0x81, 0xaf, 0xe7, 0xa8, 0x8b, 0xe5, 0xba, 0x8f, 0xe5, 0xb0, 0x9a, 0xe6, 0x9c, 0xaa,
     0xe5, 0x88, 0x9d, 0xe5, 0xa7, 0x8b, 0xe5, 0x8c, 0x96, 0xe3, 0x80, 0x82],
     [0xe6, 0xb6, 0x88, 0xe6, 0x81, 0xaf, 0xe7, 0xa8, 0x8b, 0xe5, 0xba, 0x8f, 0xe5, 0xb7, 0xb2, 0xe7, 0xbb, 0x8f,
     0xe5, 0x88, 0x9d, 0xe5, 0xa7, 0x8b, 0xe5, 0x8c, 0x96, 0xe3, 0x80, 0x82],
     [0xe7, 0x94, 0xa8, 0xe6, 0x88, 0xb7, 0x49, 0x44, 0xe6, 0x97, 0xa0, 0xe6, 0x95, 0x88, 0xe3, 0x80, 0x82],
     [0xe5, 0xb8, 0x96, 0xe5, 0xad, 0x90, 0xe6, 0xad, 0xa3, 0xe6, 0x96, 0x87, 0xe6, 0x97, 0xa0, 0xe6, 0x95, 0x88,
     0xe3, 0x80, 0x82],
     [0xe6, 0x8f, 0x90, 0xe5, 0x8f, 0x8a, 0xe4, 0xba, 0xba, 0xe6, 0x95, 0xb0, 0xe8, 0xbf, 0x87, 0xe5, 0xa4, 0x9a,
     0xe3, 0x80, 0x82],
     [0xe5, 0x90, 0x8c, 0xe4, 0xb8, 0x80, 0xe7, 0x94, 0xa8, 0xe6, 0x88, 0xb7, 0xe8, 0xa2, 0xab, 0xe9, 0x87, 0x8d,
     0xe5, 0xa4, 0x8d, 0xe6, 0x8f, 0x90, 0xe5, 0x8f, 0x8a, 0xe3, 0x80, 0x82],
     [0xe5, 0x9b, 0x9e, 0xe5, 0xa4, 0x8d, 0xe7, 0x9b, 0xae, 0xe6, 0xa0, 0x87, 0xe5, 0xb7, 0xb2, 0xe4, 0xb8, 0x8d,
     0xe5, 0x8f, 0xaf, 0xe7, 0x94, 0xa8, 0xe3, 0x80, 0x82],
     [0xe5, 0x8f, 0x91, 0xe9, 0x80, 0x81, 0xe9, 0x98, 0x9f, 0xe5, 0x88, 0x97, 0xe5, 0xb7, 0xb2, 0xe6, 0xbb, 0xa1,
     0xe3, 0x80, 0x82],
     [0xe6, 0x9c, 0xac, 0xe5, 0x9c, 0xb0, 0xe6, 0x97, 0xb6, 0xe9, 0x97, 0xb4, 0xe7, 0xba, 0xbf, 0xe5, 0xb7, 0xb2,
     0xe6, 0xbb, 0xa1, 0xe3, 0x80, 0x82],
     [0xe5, 0x8f, 0x91, 0xe9, 0x80, 0x81, 0xe5, 0xba, 0x8f, 0xe5, 0x8f, 0xb7, 0xe5, 0xb7, 0xb2, 0xe8, 0x80, 0x97,
     0xe5, 0xb0, 0xbd, 0xe3, 0x80, 0x82],
     [0xe6, 0x9c, 0xac, 0xe5, 0x9c, 0xb0, 0xe6, 0x97, 0xb6, 0xe9, 0x97, 0xb4, 0xe7, 0xba, 0xbf, 0xe9, 0xa1, 0xba,
     0xe5, 0xba, 0x8f, 0xe5, 0xb7, 0xb2, 0xe8, 0x80, 0x97, 0xe5, 0xb0, 0xbd, 0xe3, 0x80, 0x82],
     [0xe6, 0x97, 0xa0, 0xe6, 0xb3, 0x95, 0xe5, 0x8f, 0x96, 0xe5, 0xbe, 0x97, 0xe5, 0xae, 0x89, 0xe5, 0x85, 0xa8,
     0xe9, 0x9a, 0x8f, 0xe6, 0x9c, 0xba, 0xe6, 0x95, 0xb0, 0xe6, 0x8d, 0xae, 0xe3, 0x80, 0x82],
     [0xe7, 0x94, 0x9f, 0xe6, 0x88, 0x90, 0xe7, 0x9a, 0x84, 0xe6, 0xb6, 0x88, 0xe6, 0x81, 0xaf, 0x49, 0x44, 0xe5,
     0xb7, 0xb2, 0xe7, 0xbb, 0x8f, 0xe5, 0xad, 0x98, 0xe5, 0x9c, 0xa8, 0xe3, 0x80, 0x82],
     [0xe5, 0xb8, 0x96, 0xe5, 0xad, 0x90, 0xe6, 0x97, 0xa0, 0xe6, 0x95, 0x88, 0xe3, 0x80, 0x82],
     [0xe8, 0xaf, 0xa5, 0xe5, 0xb8, 0x96, 0xe5, 0xad, 0x90, 0xe5, 0xb7, 0xb2, 0xe5, 0x9c, 0xa8, 0xe6, 0x97, 0xb6,
     0xe9, 0x97, 0xb4, 0xe7, 0xba, 0xbf, 0xe4, 0xb8, 0xad, 0xe3, 0x80, 0x82],
     [0xe5, 0x8f, 0xa6, 0xe4, 0xb8, 0x80, 0xe4, 0xb8, 0xaa, 0xe5, 0xb8, 0x96, 0xe5, 0xad, 0x90, 0xe4, 0xbd, 0xbf,
     0xe7, 0x94, 0xa8, 0xe4, 0xba, 0x86, 0xe7, 0x9b, 0xb8, 0xe5, 0x90, 0x8c, 0xe7, 0x9a, 0x84, 0xe6, 0xb6, 0x88,
     0xe6, 0x81, 0xaf, 0x49, 0x44, 0xe3, 0x80, 0x82],
     [0xe6, 0x89, 0xbe, 0xe4, 0xb8, 0x8d, 0xe5, 0x88, 0xb0, 0xe6, 0x8c, 0x87, 0xe5, 0xae, 0x9a, 0xe7, 0x9a, 0x84,
     0xe5, 0xb8, 0x96, 0xe5, 0xad, 0x90, 0xe3, 0x80, 0x82],
     [0xe6, 0x8c, 0x87, 0xe5, 0xae, 0x9a, 0xe7, 0x9a, 0x84, 0xe5, 0xb8, 0x96, 0xe5, 0xad, 0x90, 0xe4, 0xb8, 0x8d,
     0xe6, 0x98, 0xaf, 0xe6, 0x9c, 0xac, 0xe5, 0x9c, 0xb0, 0xe5, 0xb8, 0x96, 0xe5, 0xad, 0x90, 0xe3, 0x80, 0x82],
     [0xe4, 0xb8, 0x8d, 0xe5, 0x85, 0x81, 0xe8, 0xae, 0xb8, 0xe8, 0xaf, 0xa5, 0xe7, 0x8a, 0xb6, 0xe6, 0x80, 0x81,
     0xe5, 0x8f, 0x98, 0xe6, 0x9b, 0xb4, 0xe3, 0x80, 0x82],
     [0xe6, 0x97, 0xa0, 0xe6, 0xb3, 0x95, 0xe6, 0x8f, 0x92, 0xe5, 0x85, 0xa5, 0xe8, 0xaf, 0xa5, 0xe5, 0xad, 0x97,
     0xe7, 0xac, 0xa6, 0xe3, 0x80, 0x82],
     [0xe5, 0x8f, 0x91, 0xe7, 0x94, 0x9f, 0xe6, 0x9c, 0xaa, 0xe7, 0x9f, 0xa5, 0xe9, 0x94, 0x99, 0xe8, 0xaf, 0xaf,
     0xe3, 0x80, 0x82],
     [0x57, 0x69, 0x2d, 0x46, 0x69, 0x20, 0x4c, 0x41, 0x4e, 0xe5, 0x8f, 0xaf, 0xe7, 0x94, 0xa8],
     [0xe5, 0xb7, 0xb2, 0xe5, 0x9c, 0xa8, 0x57, 0x69, 0x2d, 0x46, 0x69, 0x20, 0x4c, 0x41, 0x4e, 0xe6, 0x8e, 0x92,
     0xe9, 0x98, 0x9f, 0xe3, 0x80, 0x82, 0xe6, 0xb2, 0xa1, 0xe6, 0x9c, 0x89, 0xe9, 0x80, 0x81, 0xe8, 0xbe, 0xbe,
     0xe7, 0xa1, 0xae, 0xe8, 0xae, 0xa4, 0xe3, 0x80, 0x82],
     [0x57, 0x49, 0x46, 0x49, 0x20, 0x4c, 0x41, 0x4e, 0x20, 0x2f, 0x20, 0x48, 0x20, 0xe9, 0x80, 0x80, 0xe5, 0x87,
     0xba],
     [0x57, 0x69, 0x2d, 0x46, 0x69, 0x20, 0x4c, 0x41, 0x4e, 0xe5, 0x8f, 0xaf, 0xe7, 0x94, 0xa8, 0x20, 0x2f, 0x20,
     0xe6, 0x97, 0xa0, 0xe9, 0x80, 0x81, 0xe8, 0xbe, 0xbe, 0xe7, 0xa1, 0xae, 0xe8, 0xae, 0xa4],
     ascii ''Talk'',
     [0xe8, 0xae, 0xbe, 0xe7, 0xbd, 0xae],
     ascii ''Skip title'',
     ascii ''ON'',
     ascii ''OFF'',
     [0xe4, 0xb8, 0x8a, 0xe4, 0xb8, 0x8b, 0x20, 0xe9, 0x80, 0x89, 0xe6, 0x8b, 0xa9, 0x20, 0x20, 0x45, 0x6e, 0x74,
     0x65, 0x72, 0x20, 0xe6, 0x89, 0x93, 0xe5, 0xbc, 0x80, 0x20, 0x20, 0x48, 0x20, 0xe9, 0x80, 0x80, 0xe5, 0x87,
     0xba]]"

definition kTranslations :: "bytes list list" where
  "kTranslations = [kEnglish, kJapanese, kSimplifiedChinese]"

definition kLocaleCodes :: "bytes list" where
  "kLocaleCodes = [ascii ''en'', ascii ''ja'', ascii ''zh-Hans'']"

definition kLocaleNames :: "bytes list" where
  "kLocaleNames =
    [ascii ''English'',
     [0xe6, 0x97, 0xa5, 0xe6, 0x9c, 0xac, 0xe8, 0xaa, 0x9e],
     [0xe7, 0xae, 0x80, 0xe4, 0xbd, 0x93, 0xe4, 0xb8, 0xad, 0xe6, 0x96, 0x87]]"

subsection \<open>Operations\<close>

definition locale_code :: "ui_locale \<Rightarrow> bytes" where
  "locale_code l =
     (if locale_index l < kLocaleCount then kLocaleCodes ! locale_index l
      else kLocaleCodes ! locale_index LocaleEnglish)"

definition locale_display_name :: "ui_locale \<Rightarrow> bytes" where
  "locale_display_name l =
     (if locale_index l < kLocaleCount then kLocaleNames ! locale_index l
      else kLocaleNames ! locale_index LocaleEnglish)"

definition translate :: "ui_locale \<Rightarrow> string_id \<Rightarrow> bytes" where
  "translate l i =
     (let id_index = string_id_index i
      in if id_index \<ge> kStringIdCount then kEnglish ! string_id_index UnknownError
         else if locale_index l < kLocaleCount \<and> kTranslations ! locale_index l ! id_index \<noteq> []
         then kTranslations ! locale_index l ! id_index
         else kEnglish ! id_index)"

definition translations_complete :: bool where
  "translations_complete \<longleftrightarrow> list_all (list_all (\<lambda>v. v \<noteq> [])) kTranslations"

fun command_error_string_id :: "command_error option \<Rightarrow> string_id" where
  "command_error_string_id None = ErrorNone"
| "command_error_string_id (Some NotInitialized) = ErrorNotInitialized"
| "command_error_string_id (Some AlreadyInitialized) = ErrorAlreadyInitialized"
| "command_error_string_id (Some CmdInvalidUserId) = ErrorInvalidUserId"
| "command_error_string_id (Some CmdInvalidBody) = ErrorInvalidBody"
| "command_error_string_id (Some CmdTooManyMentions) = ErrorTooManyMentions"
| "command_error_string_id (Some CmdDuplicateMention) = ErrorDuplicateMention"
| "command_error_string_id (Some ReplyParentUnavailable) = ErrorReplyParentUnavailable"
| "command_error_string_id (Some CmdQueueFull) = ErrorQueueFull"
| "command_error_string_id (Some TimelineFull) = ErrorTimelineFull"
| "command_error_string_id (Some SequenceExhausted) = ErrorSequenceExhausted"
| "command_error_string_id (Some CmdOrderExhausted) = ErrorOrderExhausted"
| "command_error_string_id (Some RandomUnavailable) = ErrorRandomUnavailable"
| "command_error_string_id (Some MessageIdCollision) = ErrorMessageIdCollision"
| "command_error_string_id (Some CmdInvalidPost) = ErrorInvalidPost"
| "command_error_string_id (Some DuplicatePost) = ErrorDuplicatePost"
| "command_error_string_id (Some ConflictingPost) = ErrorConflictingPost"
| "command_error_string_id (Some MessageNotFound) = ErrorMessageNotFound"
| "command_error_string_id (Some NotLocalPost) = ErrorNotLocalPost"
| "command_error_string_id (Some InvalidTransition) = ErrorInvalidTransition"
| "command_error_string_id (Some PersistenceUnavailable) = ErrorPersistenceUnavailable"

section \<open>Lemmas\<close>

lemma table_lengths: "length kEnglish = kStringIdCount" "length kJapanese = kStringIdCount"
    "length kSimplifiedChinese = kStringIdCount"
  by (simp_all add: kEnglish_def kJapanese_def kSimplifiedChinese_def kStringIdCount_def)

text \<open>A recogniser for text of one-byte and three-byte sequences, which is what the tables hold.\<close>

fun plain_utf8 :: "nat list \<Rightarrow> bool" where
  "plain_utf8 [] \<longleftrightarrow> True"
| "plain_utf8 (a # bs) \<longleftrightarrow>
     (if a < 128 then plain_utf8 bs
      else case bs of b # c # cs \<Rightarrow>
             225 \<le> a \<and> a \<le> 239 \<and> a \<noteq> 237 \<and> 128 \<le> b \<and> b < 192 \<and> 128 \<le> c \<and> c < 192 \<and> plain_utf8 cs
           | _ \<Rightarrow> False)"

lemma valid_by_step:
  assumes "v \<noteq> []" "utf8_step v = Some (cp, n)" "is_valid_utf8 (drop n v)"
  shows "is_valid_utf8 v"
proof -
  have "fst (visit_utf8 (\<lambda>_ s. s) v ()) = fst (visit_utf8 (\<lambda>_ s. s) (drop n v) ())"
    using assms(1,2) by (subst visit_utf8.simps) simp
  then show ?thesis using assms(3) by (simp add: visit_utf8_valid)
qed

lemma plain_utf8_valid: "plain_utf8 (map unat v) \<Longrightarrow> is_valid_utf8 v"
proof (induction "map unat v" arbitrary: v rule: plain_utf8.induct)
  case 1
  then show ?case by (simp add: is_valid_utf8_iff_encoded exI [of _ "[]"])
next
  case (2 a bs)
  then obtain b r where v: "v = b # r" "a = unat b" "bs = map unat r" by auto
  show ?case
  proof (cases "unat b < 128")
    case True
    have "utf8_step (b # r) = Some (ucast b, 1)" using True by (simp add: step_lead1 unat_lead_bits)
    moreover have "is_valid_utf8 r" using 2 v True by simp
    ultimately show ?thesis unfolding v(1) by (intro valid_by_step [of "b # r" "ucast b" 1]) simp_all
  next
    case False
    with 2(4) v obtain c d s where r: "r = c # d # s" and
      h: "225 \<le> unat b" "unat b \<le> 239" "unat b \<noteq> 237" "is_tail c" "is_tail d" "plain_utf8 (map unat s)"
      by (auto simp: is_tail_def split: list.splits)
    define n where "n = 4096 * (unat b mod 16) + 64 * (unat c mod 64) + unat d mod 64"
    have m: "unat b mod 16 < 16" "unat c mod 64 < 64" "unat d mod 64 < 64" by simp_all
    then have "unat (of_nat n :: u32) = n" by (simp add: n_def unat_of_nat del: of_nat_add of_nat_mult)
    moreover have "unat b = 224 + unat b mod 16" using h mod_untag [of 14 16 "unat b"] by simp
    then have "2048 \<le> n \<and> \<not> (0xd800 \<le> n \<and> n \<le> 0xdfff)" using h(1-3) m unfolding n_def by linarith
    ultimately have "utf8_step (b # c # d # s) = Some (of_nat n, 3)"
      using h by (subst step_lead3) (simp_all add: n_def)
    moreover have "is_valid_utf8 s" using 2(2) v r False h by simp
    ultimately show ?thesis unfolding v(1) r by (intro valid_by_step [of "b # c # d # s" "of_nat n" 3]) simp_all
  qed
qed

definition display_text :: "bytes \<Rightarrow> bool" where
  "display_text b \<longleftrightarrow> b \<noteq> [] \<and> is_valid_utf8 b"

lemma display_textI: "b \<noteq> [] \<Longrightarrow> plain_utf8 (map unat b) \<Longrightarrow> display_text b"
  by (simp add: display_text_def plain_utf8_valid)

lemma english_text: "list_all display_text kEnglish"
  by (simp add: kEnglish_def display_textI ascii_def)

lemma japanese_text: "list_all display_text kJapanese"
  by (simp add: kJapanese_def display_textI ascii_def)

lemma chinese_text: "list_all display_text kSimplifiedChinese"
  by (simp add: kSimplifiedChinese_def display_textI ascii_def)

lemma locale_index_less: "locale_index l < kLocaleCount \<longleftrightarrow> l \<noteq> LocaleCount"
  by (cases l) (simp_all add: kLocaleCount_def)

text \<open>Every display string is a non-empty valid UTF-8 text, and the table of the language is never bypassed.\<close>

lemma translate_text: "display_text (translate l i)"
proof -
  have "display_text (kEnglish ! n)" if "n < kStringIdCount" for n
    using english_text that table_lengths(1) by (simp add: list_all_length)
  moreover have "display_text (kTranslations ! locale_index l ! n)" if "n < kStringIdCount" "l \<noteq> LocaleCount" for n
    using english_text japanese_text chinese_text table_lengths that
    by (cases l) (simp_all add: kTranslations_def list_all_length)
  moreover have "string_id_index UnknownError < kStringIdCount" by (simp add: kStringIdCount_def)
  ultimately show ?thesis by (auto simp: translate_def Let_def locale_index_less not_le)
qed

lemma translations_are_complete: "translations_complete"
proof -
  have "list_all display_text t \<Longrightarrow> list_all (\<lambda>v. v \<noteq> []) t" for t
    by (auto simp: list_all_iff display_text_def)
  then show ?thesis using english_text japanese_text chinese_text by (simp add: translations_complete_def kTranslations_def)
qed

lemma locale_display_name_text: "is_valid_utf8 (locale_display_name l)"
proof -
  have "list_all display_text kLocaleNames" by (simp add: kLocaleNames_def display_textI ascii_def)
  then show ?thesis by (cases l) (simp_all add: locale_display_name_def kLocaleCount_def display_text_def kLocaleNames_def)
qed

lemma command_error_string_id_inj: "inj command_error_string_id"
proof (rule injI)
  fix x y assume "command_error_string_id x = command_error_string_id y"
  then show "x = y" by (cases x rule: command_error_string_id.cases; cases y rule: command_error_string_id.cases) simp_all
qed

end
