(* ===== verification/View_Text_Editor.thy ===== *)
theory View_Text_Editor
  imports Core_Text
begin

text \<open>
  Model of \<^verbatim>\<open>src/viewmodel/text_editor.cpp\<close>: the single-line editor over UTF-8 bytes with a byte cursor. The
  encoder it uses is \<open>encode_utf8\<close>. Its contract is an editor over code points: the text before
  the cursor and the text after it. The lemmas show that the byte operations implement that editor.
\<close>

section \<open>Definitions\<close>

datatype editor_error = EdInvalidUtf8 | EdInvalidCodepoint | EdTooLong

record text_editor =
  ed_maximum_bytes :: nat
  ed_text :: bytes
  ed_cursor :: nat

definition is_continuation :: "byte \<Rightarrow> bool" where
  "is_continuation v \<longleftrightarrow> v AND 0xc0 = 0x80"

definition editor_new :: "nat \<Rightarrow> text_editor" where
  "editor_new maximum = \<lparr>ed_maximum_bytes = maximum, ed_text = [], ed_cursor = 0\<rparr>"

definition editor_set_text :: "bytes \<Rightarrow> text_editor \<Rightarrow> editor_error option \<times> text_editor" where
  "editor_set_text t self =
     (if \<not> is_valid_utf8 t then (Some EdInvalidUtf8, self)
      else if length t > ed_maximum_bytes self then (Some EdTooLong, self)
      else (None, self\<lparr>ed_text := t, ed_cursor := length t\<rparr>))"

text \<open>\<^verbatim>\<open>std::string::insert\<close> and \<^verbatim>\<open>std::string::erase\<close> at a position inside the string.\<close>

definition string_insert :: "nat \<Rightarrow> bytes \<Rightarrow> bytes \<Rightarrow> bytes" where
  "string_insert pos b t = take pos t @ b @ drop pos t"

definition string_erase :: "nat \<Rightarrow> nat \<Rightarrow> bytes \<Rightarrow> bytes" where
  "string_erase pos count t = take pos t @ drop (pos + count) t"

definition editor_insert :: "u32 \<Rightarrow> text_editor \<Rightarrow> editor_error option \<times> text_editor" where
  "editor_insert codepoint self =
     (let encoded = encode_utf8 codepoint; size = length encoded
      in if size = 0 then (Some EdInvalidCodepoint, self)
         else if length (ed_text self) + size > ed_maximum_bytes self then (Some EdTooLong, self)
         else (None, self\<lparr>ed_text := string_insert (ed_cursor self) encoded (ed_text self),
                          ed_cursor := ed_cursor self + size\<rparr>))"

definition editor_insert_utf8 :: "bytes \<Rightarrow> text_editor \<Rightarrow> editor_error option \<times> text_editor" where
  "editor_insert_utf8 t self =
     (if \<not> is_valid_utf8 t then (Some EdInvalidUtf8, self)
      else if length (ed_text self) + length t > ed_maximum_bytes self then (Some EdTooLong, self)
      else (None, self\<lparr>ed_text := string_insert (ed_cursor self) t (ed_text self),
                       ed_cursor := ed_cursor self + length t\<rparr>))"

fun previous_loop :: "bytes \<Rightarrow> nat \<Rightarrow> nat" where
  "previous_loop t offset =
     (if offset > 0 \<and> is_continuation (t ! offset) then previous_loop t (offset - 1) else offset)"

definition previous_boundary :: "text_editor \<Rightarrow> nat \<Rightarrow> nat" where
  "previous_boundary self offset = previous_loop (ed_text self) (offset - 1)"

function next_loop :: "bytes \<Rightarrow> nat \<Rightarrow> nat" where
  "next_loop t offset =
     (if offset < length t \<and> is_continuation (t ! offset) then next_loop t (offset + 1) else offset)"
  by pat_completeness auto
termination
  by (relation "measure (\<lambda>(t, offset). length t - offset)") auto

declare previous_loop.simps [simp del] next_loop.simps [simp del]

definition next_boundary :: "text_editor \<Rightarrow> nat \<Rightarrow> nat" where
  "next_boundary self offset = next_loop (ed_text self) (offset + 1)"

definition editor_move_left :: "text_editor \<Rightarrow> bool \<times> text_editor" where
  "editor_move_left self =
     (if ed_cursor self = 0 then (False, self)
      else (True, self\<lparr>ed_cursor := previous_boundary self (ed_cursor self)\<rparr>))"

definition editor_move_right :: "text_editor \<Rightarrow> bool \<times> text_editor" where
  "editor_move_right self =
     (if ed_cursor self \<ge> length (ed_text self) then (False, self)
      else (True, self\<lparr>ed_cursor := next_boundary self (ed_cursor self)\<rparr>))"

definition editor_backspace :: "text_editor \<Rightarrow> bool \<times> text_editor" where
  "editor_backspace self =
     (if ed_cursor self = 0 then (False, self)
      else let previous = previous_boundary self (ed_cursor self)
           in (True, self\<lparr>ed_text := string_erase previous (ed_cursor self - previous) (ed_text self),
                          ed_cursor := previous\<rparr>))"

definition editor_delete_forward :: "text_editor \<Rightarrow> bool \<times> text_editor" where
  "editor_delete_forward self =
     (if ed_cursor self \<ge> length (ed_text self) then (False, self)
      else let next = next_boundary self (ed_cursor self)
           in (True, self\<lparr>ed_text := string_erase (ed_cursor self) (next - ed_cursor self) (ed_text self)\<rparr>))"

definition editor_clear :: "text_editor \<Rightarrow> text_editor" where
  "editor_clear self = self\<lparr>ed_text := [], ed_cursor := 0\<rparr>"

definition remaining_bytes :: "text_editor \<Rightarrow> nat" where
  "remaining_bytes self = ed_maximum_bytes self - length (ed_text self)"

section \<open>The editor over code points\<close>

abbreviation utf8 :: "u32 list \<Rightarrow> bytes" where
  "utf8 cps \<equiv> concat (map encode_utf8 cps)"

text \<open>The editor shows the code points \<open>l\<close> before the cursor and \<open>r\<close> after it.\<close>

definition editor_view :: "text_editor \<Rightarrow> u32 list \<Rightarrow> u32 list \<Rightarrow> bool" where
  "editor_view e l r \<longleftrightarrow>
     list_all is_scalar (l @ r) \<and> ed_text e = utf8 l @ utf8 r \<and> ed_cursor e = length (utf8 l) \<and>
     length (ed_text e) \<le> ed_maximum_bytes e"

section \<open>Lemmas\<close>

lemma is_continuation_nat: "is_continuation v \<longleftrightarrow> 128 \<le> unat v \<and> unat v < 192"
  unfolding is_continuation_def by (rule is_continuation_iff)

lemma encode_shape:
  assumes "is_scalar c"
  obtains b bs where "encode_utf8 c = b # bs" "\<not> is_continuation b" "list_all is_continuation bs"
proof -
  obtain b bs where e: "encode_utf8 c = b # bs" using encode_utf8_nonempty [OF assms] by (cases "encode_utf8 c") auto
  then have d: "unat b # map unat bs = utf8_digits (unat c)" using encode_digits [OF assms] by simp
  have c: "unat c \<le> 0x10ffff" using assms by (simp add: is_scalar_nat)
  have m: "128 + n mod 64 < (192::nat)" for n using mod_less_divisor [of 64 n] by simp
  have "\<not> is_continuation b" using d by (auto simp: is_continuation_nat utf8_digits_def split: if_splits)
  moreover have "\<forall>x \<in> set (map unat bs). 128 \<le> x \<and> x < 192"
    using d m by (auto simp: utf8_digits_def split: if_splits)
  then have "list_all is_continuation bs" by (auto simp: list_all_iff is_continuation_nat)
  ultimately show ?thesis using that e by blast
qed

lemma utf8_scalar_start: "list_all is_scalar r \<Longrightarrow> r \<noteq> [] \<Longrightarrow> utf8 r \<noteq> [] \<and> \<not> is_continuation (hd (utf8 r))"
  by (cases r) (auto elim!: encode_shape)

lemma previous_loop_back:
  assumes "list_all is_continuation bs" "\<not> is_continuation b" "k \<le> length bs"
  shows "previous_loop (pre @ (b # bs) @ post) (length pre + k) = length pre"
  using assms(3)
proof (induction k)
  case 0
  then show ?case using assms(2) by (subst previous_loop.simps) simp
next
  case (Suc k)
  have "is_continuation ((pre @ (b # bs) @ post) ! (length pre + Suc k))"
    using assms(1) Suc.prems by (simp add: nth_append list_all_length)
  then show ?case using Suc by (subst previous_loop.simps) simp
qed

lemma next_loop_forward:
  assumes "list_all is_continuation bs" "k \<le> length bs" "post = [] \<or> \<not> is_continuation (hd post)"
  shows "next_loop (pre @ bs @ post) (length pre + (length bs - k)) = length pre + length bs"
  using assms(2)
proof (induction k)
  case 0
  then show ?case using assms(3) by (subst next_loop.simps) (auto simp: nth_append hd_conv_nth)
next
  case (Suc k)
  define j where "j = length bs - Suc k"
  have j: "j < length bs" using Suc.prems by (simp add: j_def)
  then have "(pre @ bs @ post) ! (length pre + j) = bs ! j" by (simp add: nth_append)
  with j have "is_continuation ((pre @ bs @ post) ! (length pre + (length bs - Suc k)))"
    using assms(1) by (simp add: list_all_length flip: j_def)
  then show ?case using Suc by (subst next_loop.simps) (auto simp: Suc_diff_Suc)
qed

lemma previous_boundary_view:
  assumes "editor_view e (l @ [c]) r"
  shows "previous_boundary e (ed_cursor e) = length (utf8 l)"
proof -
  have c: "is_scalar c" using assms by (simp add: editor_view_def)
  obtain b bs where e: "encode_utf8 c = b # bs" "\<not> is_continuation b" "list_all is_continuation bs"
    by (rule encode_shape [OF c])
  have "ed_text e = utf8 l @ (b # bs) @ utf8 r" "ed_cursor e - 1 = length (utf8 l) + length bs"
    using assms e(1) by (simp_all add: editor_view_def)
  then show ?thesis using previous_loop_back [OF e(3,2) order_refl, of "utf8 l" "utf8 r"]
    by (simp add: previous_boundary_def)
qed

lemma next_boundary_view:
  assumes "editor_view e l (c # r)"
  shows "next_boundary e (ed_cursor e) = length (utf8 (l @ [c]))"
proof -
  have c: "is_scalar c" and r: "list_all is_scalar r" using assms by (simp_all add: editor_view_def)
  obtain b bs where e: "encode_utf8 c = b # bs" "\<not> is_continuation b" "list_all is_continuation bs"
    by (rule encode_shape [OF c])
  have post: "utf8 r = [] \<or> \<not> is_continuation (hd (utf8 r))" using utf8_scalar_start [OF r] by (cases "r = []") auto
  have "ed_text e = (utf8 l @ [b]) @ bs @ utf8 r" "ed_cursor e + 1 = length (utf8 l @ [b])"
    using assms e(1) by (simp_all add: editor_view_def)
  then show ?thesis using next_loop_forward [OF e(3) order_refl post, of "utf8 l @ [b]"] e(1)
    by (simp add: next_boundary_def)
qed

lemma view_ends:
  assumes "editor_view e l r"
  shows "ed_cursor e = 0 \<longleftrightarrow> l = []" "length (ed_text e) \<le> ed_cursor e \<longleftrightarrow> r = []"
  using assms utf8_scalar_start [of l] utf8_scalar_start [of r] by (auto simp: editor_view_def)

lemma encode_utf8_empty_iff: "encode_utf8 c = [] \<longleftrightarrow> \<not> is_scalar c"
  using encode_utf8_nonempty [of c]
  by (auto simp: encode_utf8_def is_scalar_nat word_le_nat_alt word_less_nat_alt split: if_splits)

lemma valid_view: "editor_view e l r \<Longrightarrow> is_valid_utf8 (ed_text e) \<and> is_valid_utf8 (take (ed_cursor e) (ed_text e))"
  unfolding is_valid_utf8_iff_encoded editor_view_def
  by (intro conjI exI [of _ "l @ r"] exI [of _ l]) simp_all

lemma insert_at_view:
  assumes "editor_view e l r" "list_all is_scalar cps" "length (ed_text e) + length (utf8 cps) \<le> ed_maximum_bytes e"
  shows "editor_view (e\<lparr>ed_text := string_insert (ed_cursor e) (utf8 cps) (ed_text e),
      ed_cursor := ed_cursor e + length (utf8 cps)\<rparr>) (l @ cps) r"
  using assms by (simp add: editor_view_def string_insert_def)

lemma insert_view:
  assumes "editor_view e l r"
  shows "case editor_insert c e of
      (Some err, e') \<Rightarrow> e' = e \<and> (err = EdInvalidCodepoint \<and> \<not> is_scalar c \<or>
         err = EdTooLong \<and> is_scalar c \<and> ed_maximum_bytes e < length (ed_text e) + length (encode_utf8 c))
    | (None, e') \<Rightarrow> is_scalar c \<and> length (ed_text e) + length (encode_utf8 c) \<le> ed_maximum_bytes e \<and>
         ed_maximum_bytes e' = ed_maximum_bytes e \<and> editor_view e' (l @ [c]) r"
  using insert_at_view [OF assms, of "[c]"] by (auto simp: editor_insert_def Let_def encode_utf8_empty_iff)

lemma insert_utf8_view:
  assumes "editor_view e l r"
  shows "case editor_insert_utf8 t e of
      (Some err, e') \<Rightarrow> e' = e \<and> (err = EdInvalidUtf8 \<and> \<not> is_valid_utf8 t \<or>
         err = EdTooLong \<and> is_valid_utf8 t \<and> ed_maximum_bytes e < length (ed_text e) + length t)
    | (None, e') \<Rightarrow> length (ed_text e) + length t \<le> ed_maximum_bytes e \<and>
         ed_maximum_bytes e' = ed_maximum_bytes e \<and> (\<exists>cps. t = utf8 cps \<and> editor_view e' (l @ cps) r)"
proof (cases "is_valid_utf8 t")
  case True
  then obtain cps where cps: "list_all is_scalar cps" "t = utf8 cps" by (auto simp: is_valid_utf8_iff_encoded)
  then show ?thesis using True insert_at_view [OF assms cps(1)] by (auto simp: editor_insert_utf8_def not_less)
qed (simp add: editor_insert_utf8_def)

lemma set_text_view:
  "case editor_set_text t e of
     (Some err, e') \<Rightarrow> e' = e \<and> (err = EdInvalidUtf8 \<and> \<not> is_valid_utf8 t \<or>
         err = EdTooLong \<and> is_valid_utf8 t \<and> ed_maximum_bytes e < length t)
   | (None, e') \<Rightarrow> length t \<le> ed_maximum_bytes e \<and>
         ed_maximum_bytes e' = ed_maximum_bytes e \<and> (\<exists>cps. t = utf8 cps \<and> editor_view e' cps [])"
proof (cases "is_valid_utf8 t")
  case True
  then obtain cps where cps: "list_all is_scalar cps" "t = utf8 cps" by (auto simp: is_valid_utf8_iff_encoded)
  then show ?thesis using True by (auto simp: editor_set_text_def editor_view_def not_less)
qed (simp add: editor_set_text_def)

lemma left_view:
  assumes "editor_view e (l @ [c]) r"
  shows "editor_move_left e = (True, e\<lparr>ed_cursor := length (utf8 l)\<rparr>)"
    "editor_view (e\<lparr>ed_cursor := length (utf8 l)\<rparr>) l (c # r)"
    "fst (editor_backspace e)" "editor_view (snd (editor_backspace e)) l r"
proof -
  have pos: "ed_cursor e \<noteq> 0" using view_ends(1) [OF assms] by simp
  note prev = previous_boundary_view [OF assms]
  show "editor_move_left e = (True, e\<lparr>ed_cursor := length (utf8 l)\<rparr>)" using pos prev by (simp add: editor_move_left_def)
  show "editor_view (e\<lparr>ed_cursor := length (utf8 l)\<rparr>) l (c # r)" using assms by (auto simp: editor_view_def)
  show "fst (editor_backspace e)" using pos by (simp add: editor_backspace_def Let_def)
  show "editor_view (snd (editor_backspace e)) l r"
    using assms pos prev by (auto simp: editor_view_def editor_backspace_def Let_def string_erase_def)
qed

lemma right_view:
  assumes "editor_view e l (c # r)"
  shows "editor_move_right e = (True, e\<lparr>ed_cursor := length (utf8 (l @ [c]))\<rparr>)"
    "editor_view (e\<lparr>ed_cursor := length (utf8 (l @ [c]))\<rparr>) (l @ [c]) r"
    "fst (editor_delete_forward e)" "editor_view (snd (editor_delete_forward e)) l r"
proof -
  have pos: "\<not> length (ed_text e) \<le> ed_cursor e" using view_ends(2) [OF assms] by simp
  note nxt = next_boundary_view [OF assms]
  show "editor_move_right e = (True, e\<lparr>ed_cursor := length (utf8 (l @ [c]))\<rparr>)" using pos nxt by (simp add: editor_move_right_def)
  show "editor_view (e\<lparr>ed_cursor := length (utf8 (l @ [c]))\<rparr>) (l @ [c]) r" using assms by (auto simp: editor_view_def)
  show "fst (editor_delete_forward e)" using pos by (simp add: editor_delete_forward_def Let_def)
  show "editor_view (snd (editor_delete_forward e)) l r"
    using assms pos nxt by (auto simp: editor_view_def editor_delete_forward_def Let_def string_erase_def)
qed

lemma same_limit:
  "\<forall>e' \<in> {snd (editor_move_left e), snd (editor_move_right e), snd (editor_backspace e),
      snd (editor_delete_forward e), editor_clear e}. ed_maximum_bytes e' = ed_maximum_bytes e"
  by (simp add: editor_move_left_def editor_move_right_def editor_backspace_def editor_delete_forward_def
      editor_clear_def Let_def)

section \<open>Properties\<close>

text \<open>C28: The byte editor implements an editor over code points. When it shows \<open>l\<close> before the cursor and
  \<open>r\<close> after it, its text is valid UTF-8 within the limit. A code point or a text to insert lands at the cursor exactly when it is valid
  and the text with it is at most \<open>ed_maximum_bytes\<close> long: an invalid one is refused as invalid, a valid one that does not
  fit is refused as too long, and a refusal leaves the state unchanged. Replacing the text follows the same rule. The moves
  and deletions act on exactly one whole code point and report whether there was one. No operation changes the
  limit.\<close>

theorem editor_implements_codepoints:
  assumes "editor_view e l r"
  shows "is_valid_utf8 (ed_text e) \<and> length (ed_text e) \<le> ed_maximum_bytes e \<and>
    (case editor_insert c e of
       (Some err, e') \<Rightarrow> e' = e \<and> (err = EdInvalidCodepoint \<and> \<not> is_scalar c \<or>
         err = EdTooLong \<and> is_scalar c \<and> ed_maximum_bytes e < length (ed_text e) + length (encode_utf8 c))
     | (None, e') \<Rightarrow> is_scalar c \<and> length (ed_text e) + length (encode_utf8 c) \<le> ed_maximum_bytes e \<and>
         ed_maximum_bytes e' = ed_maximum_bytes e \<and> editor_view e' (l @ [c]) r) \<and>
    (case editor_insert_utf8 t e of
       (Some err, e') \<Rightarrow> e' = e \<and> (err = EdInvalidUtf8 \<and> \<not> is_valid_utf8 t \<or>
         err = EdTooLong \<and> is_valid_utf8 t \<and> ed_maximum_bytes e < length (ed_text e) + length t)
     | (None, e') \<Rightarrow> length (ed_text e) + length t \<le> ed_maximum_bytes e \<and>
         ed_maximum_bytes e' = ed_maximum_bytes e \<and> (\<exists>cps. t = utf8 cps \<and> editor_view e' (l @ cps) r)) \<and>
    (case editor_set_text t e of
       (Some err, e') \<Rightarrow> e' = e \<and> (err = EdInvalidUtf8 \<and> \<not> is_valid_utf8 t \<or>
         err = EdTooLong \<and> is_valid_utf8 t \<and> ed_maximum_bytes e < length t)
     | (None, e') \<Rightarrow> length t \<le> ed_maximum_bytes e \<and>
         ed_maximum_bytes e' = ed_maximum_bytes e \<and> (\<exists>cps. t = utf8 cps \<and> editor_view e' cps [])) \<and>
    (if l = [] then editor_move_left e = (False, e) \<and> editor_backspace e = (False, e)
     else fst (editor_move_left e) \<and> editor_view (snd (editor_move_left e)) (butlast l) (last l # r) \<and>
       fst (editor_backspace e) \<and> editor_view (snd (editor_backspace e)) (butlast l) r) \<and>
    (if r = [] then editor_move_right e = (False, e) \<and> editor_delete_forward e = (False, e)
     else fst (editor_move_right e) \<and> editor_view (snd (editor_move_right e)) (l @ [hd r]) (tl r) \<and>
       fst (editor_delete_forward e) \<and> editor_view (snd (editor_delete_forward e)) l (tl r)) \<and>
    editor_view (editor_clear e) [] [] \<and>
    (\<forall>e' \<in> {snd (editor_move_left e), snd (editor_move_right e), snd (editor_backspace e),
        snd (editor_delete_forward e), editor_clear e}. ed_maximum_bytes e' = ed_maximum_bytes e)"
proof -
  have left: "if l = [] then editor_move_left e = (False, e) \<and> editor_backspace e = (False, e)
     else fst (editor_move_left e) \<and> editor_view (snd (editor_move_left e)) (butlast l) (last l # r) \<and>
       fst (editor_backspace e) \<and> editor_view (snd (editor_backspace e)) (butlast l) r"
  proof (cases l rule: rev_cases)
    case Nil
    then show ?thesis using view_ends(1) [OF assms] by (simp add: editor_move_left_def editor_backspace_def)
  next
    case (snoc l' x)
    then show ?thesis using left_view [of e l' x r] assms by simp
  qed
  have right: "if r = [] then editor_move_right e = (False, e) \<and> editor_delete_forward e = (False, e)
     else fst (editor_move_right e) \<and> editor_view (snd (editor_move_right e)) (l @ [hd r]) (tl r) \<and>
       fst (editor_delete_forward e) \<and> editor_view (snd (editor_delete_forward e)) l (tl r)"
  proof (cases r)
    case Nil
    then show ?thesis using view_ends(2) [OF assms] by (simp add: editor_move_right_def editor_delete_forward_def)
  next
    case (Cons x r')
    then show ?thesis using right_view [of e l x r'] assms by simp
  qed
  have clear: "editor_view (editor_clear e) [] []" by (simp add: editor_view_def editor_clear_def)
  have bound: "length (ed_text e) \<le> ed_maximum_bytes e" using assms unfolding editor_view_def by blast
  show ?thesis
    using conjunct1 [OF valid_view [OF assms]] bound insert_view [OF assms, of c] insert_utf8_view [OF assms, of t]
      set_text_view [of t e] left right clear same_limit [of e] by (intro conjI)
qed

theorem editor_implements_codepoints_witness:
  "\<exists>e. editor_insert 0x3042 (editor_new 3) = (None, e) \<and> editor_view e [0x3042] [] \<and>
     editor_insert 0x41 e = (Some EdTooLong, e) \<and> editor_view (snd (editor_backspace e)) [] []"
proof -
  obtain x e where e: "editor_insert 0x3042 (editor_new 3) = (x, e)" by fastforce
  have v: "editor_view (editor_new 3) [] []" by (simp add: editor_view_def editor_new_def)
  have size: "length (encode_utf8 0x3042) = 3" "is_scalar 0x3042" "ed_maximum_bytes (editor_new 3) = 3"
    "ed_text (editor_new 3) = []" by code_simp+
  have one: "x = None \<and> editor_view e [0x3042] []" "ed_maximum_bytes e = 3"
    using editor_implements_codepoints [OF v, of "0x3042" "[]"] e size by (auto split: option.splits)
  then have full: "length (ed_text e) = 3" using size by (simp add: editor_view_def)
  have "length (encode_utf8 0x41) = 1" "is_scalar 0x41" by code_simp+
  then have "editor_insert 0x41 e = (Some EdTooLong, e)"
    using editor_implements_codepoints [OF conjunct2 [OF one(1)], of "0x41" "[]"] full one(2)
    by (auto split: prod.splits option.splits)
  moreover from editor_implements_codepoints [OF conjunct2 [OF one(1)], of 0 "[]"]
  have "editor_view (snd (editor_backspace e)) [] []" by simp
  ultimately show ?thesis using e one(1) by (intro exI [of _ e]) simp
qed

end
