(* ===== verification/View_Layout.thy ===== *)
theory View_Layout
  imports View_Text_Editor
begin

text \<open>
  Model of the text layout in \<^verbatim>\<open>src/viewmodel/messenger_view_model.cpp\<close>: previews cut to a number of bytes, and
  the body of a post wrapped into rows of the detail page. The wrapper works on bytes; the reference
  \<open>wrap_codepoints\<close> wraps code points, and the two agree on valid UTF-8.
\<close>

section \<open>Definitions\<close>

definition kDetailLineColumns :: nat where [simp]: "kDetailLineColumns = 26"
definition kVisibleDetailLines :: nat where [simp]: "kVisibleDetailLines = 2"

definition truncated_utf8 :: "bytes \<Rightarrow> nat \<Rightarrow> bytes" where
  "truncated_utf8 v maximum_bytes =
     (if length v \<le> maximum_bytes then v
      else if maximum_bytes \<le> 3 then replicate maximum_bytes 0x2e
      else take (previous_loop v (maximum_bytes - 3)) v @ ascii ''...'')"

definition utf8_scalar_length :: "byte \<Rightarrow> nat" where
  "utf8_scalar_length lead =
     (if lead \<le> 0x7f then 1 else if lead \<le> 0xdf then 2 else if lead \<le> 0xef then 3 else 4)"

lemma utf8_scalar_length_pos [simp]: "0 < utf8_scalar_length b"
  by (simp add: utf8_scalar_length_def)

text \<open>The offset into the line is the suffix still to read.\<close>

function detail_columns :: "bytes \<Rightarrow> nat" where
  "detail_columns line =
     (if line = [] then 0 else 2 + detail_columns (drop (utf8_scalar_length (hd line)) line))"
  by pat_completeness auto
termination
  by (relation "measure length") simp_all

declare detail_columns.simps [simp del]

text \<open>\<^verbatim>\<open>std::string::find_last_of(' ')\<close>.\<close>

fun find_last_space :: "bytes \<Rightarrow> nat option" where
  "find_last_space [] = None"
| "find_last_space (b # bs) =
     (case find_last_space bs of Some i \<Rightarrow> Some (Suc i) | None \<Rightarrow> if b = 0x20 then Some 0 else None)"

record wrap_state =
  wr_lines :: "bytes list"
  wr_columns :: nat
  wr_last_space :: "nat option"

text \<open>The row is full: the word that does not fit moves to a new row, or the row ends here.\<close>

definition wrap_break :: "wrap_state \<Rightarrow> wrap_state" where
  "wrap_break w =
     (case wr_last_space w of
        Some last_space \<Rightarrow>
          let line = last (wr_lines w); carry = drop (last_space + 1) line
          in \<lparr>wr_lines = butlast (wr_lines w) @ [take last_space line, carry], wr_columns = detail_columns carry,
              wr_last_space = find_last_space carry\<rparr>
      | None \<Rightarrow> \<lparr>wr_lines = wr_lines w @ [[]], wr_columns = 0, wr_last_space = None\<rparr>)"

definition wrap_full :: "wrap_state \<Rightarrow> bool" where
  "wrap_full w \<longleftrightarrow> wr_columns w > 0 \<and> wr_columns w + 2 > kDetailLineColumns"

definition wrap_append :: "bytes \<Rightarrow> wrap_state \<Rightarrow> wrap_state" where
  "wrap_append scalar w =
     \<lparr>wr_lines = butlast (wr_lines w) @ [last (wr_lines w) @ scalar], wr_columns = wr_columns w + 2,
      wr_last_space = (if hd scalar = 0x20 then Some (length (last (wr_lines w))) else wr_last_space w)\<rparr>"

lemma wrap_break_shrinks:
  "wrap_full (wrap_break w) \<Longrightarrow> length (last (wr_lines (wrap_break w))) < length (last (wr_lines w))"
  by (cases "last (wr_lines w)")
    (auto simp: wrap_full_def wrap_break_def Let_def detail_columns.simps [of "[]"] split: option.splits)

function wrap_loop :: "bytes \<Rightarrow> wrap_state \<Rightarrow> wrap_state" where
  "wrap_loop [] w = w"
| "wrap_loop (lead # rest) w =
     (if lead = 0x0a then wrap_loop rest \<lparr>wr_lines = wr_lines w @ [[]], wr_columns = 0, wr_last_space = None\<rparr>
      else if wrap_full w then wrap_loop (lead # rest) (wrap_break w)
      else wrap_loop (drop (utf8_scalar_length lead) (lead # rest))
             (wrap_append (take (utf8_scalar_length lead) (lead # rest)) w))"
  by pat_completeness auto
termination
  by (relation "measures [\<lambda>(r, w). length r, \<lambda>(r, w). if wrap_full w then Suc (length (last (wr_lines w))) else 0]")
    (auto dest: wrap_break_shrinks)

record wrapped_detail_body =
  wb_lines :: "bytes list"
  wb_maximum_scroll_line :: nat

definition wrap_detail_body :: "bytes \<Rightarrow> wrapped_detail_body" where
  "wrap_detail_body body =
     (let ls = wr_lines (wrap_loop body \<lparr>wr_lines = [[]], wr_columns = 0, wr_last_space = None\<rparr>)
      in \<lparr>wb_lines = ls,
          wb_maximum_scroll_line = (if length ls > kVisibleDetailLines then length ls - kVisibleDetailLines else 0)\<rparr>)"

text \<open>The loop of \<open>detail_window\<close> joins the rows of the window with line feeds.\<close>

fun join_rows :: "bytes list \<Rightarrow> bytes" where
  "join_rows [] = []"
| "join_rows [l] = l"
| "join_rows (l # ls) = l @ [0x0a] @ join_rows ls"

definition detail_window :: "wrapped_detail_body \<Rightarrow> nat \<Rightarrow> bytes" where
  "detail_window w scroll_line =
     (if wb_lines w = [] then []
      else let first = min scroll_line (wb_maximum_scroll_line w);
               last = min (length (wb_lines w)) (first + kVisibleDetailLines)
           in join_rows (map ((!) (wb_lines w)) [first..<last]))"

section \<open>Reference\<close>

text \<open>The text before the last space and the text after it.\<close>

fun split_last_space :: "u32 list \<Rightarrow> (u32 list \<times> u32 list) option" where
  "split_last_space [] = None"
| "split_last_space (c # cs) =
     (case split_last_space cs of Some (a, b) \<Rightarrow> Some (c # a, b) | None \<Rightarrow> if c = 0x20 then Some ([], cs) else None)"

text \<open>The rows so far, the current row, and the code points to place. A row holds 13 of them.\<close>

fun wrap_codepoints :: "u32 list list \<Rightarrow> u32 list \<Rightarrow> u32 list \<Rightarrow> u32 list list" where
  "wrap_codepoints ls row [] = ls @ [row]"
| "wrap_codepoints ls row (c # cs) =
     (if c = 0x0a then wrap_codepoints (ls @ [row]) [] cs
      else if length row \<ge> 13
      then (case split_last_space row of
              Some (a, b) \<Rightarrow> wrap_codepoints (ls @ [a]) (b @ [c]) cs
            | None \<Rightarrow> wrap_codepoints (ls @ [row]) [c] cs)
      else wrap_codepoints ls (row @ [c]) cs)"

text \<open>The rows of a text: a row ends at a line feed, after 13 code points without a space, or at a space when the
  next word reaches the end of the row.\<close>

fun rows_of :: "u32 list list \<Rightarrow> u32 list \<Rightarrow> bool" where
  "rows_of [] t \<longleftrightarrow> False"
| "rows_of [l] t \<longleftrightarrow> t = l"
| "rows_of (l # m # ls) t \<longleftrightarrow>
     (\<exists>u. rows_of (m # ls) u \<and>
        (t = l @ 0x0a # u \<or>
         t = l @ u \<and> length l = 13 \<and> 0x20 \<notin> set l \<or>
         t = l @ 0x20 # u \<and> 13 \<le> length l + 1 + length m))"

section \<open>Lemmas\<close>

lemma encode_utf8_ascii: "unat c < 128 \<Longrightarrow> encode_utf8 c = [ucast c]"
proof -
  assume c: "unat c < 128"
  then have s: "is_scalar c" by (simp add: is_scalar_nat)
  have "map unat (encode_utf8 c) = map unat [ucast c :: byte]"
    unfolding encode_digits [OF s] using c by (simp add: utf8_digits_def unat_ascii)
  then show ?thesis by (simp only: map_unat_eq)
qed

lemma encode_lead:
  assumes "is_scalar c"
  shows "utf8_scalar_length (hd (encode_utf8 c)) = length (encode_utf8 c)"
    "128 \<le> unat c \<Longrightarrow> list_all (\<lambda>b. 128 \<le> unat b) (encode_utf8 c)"
proof -
  have d: "map unat (encode_utf8 c) = utf8_digits (unat c)" by (rule encode_digits [OF assms])
  have c: "unat c \<le> 0x10ffff" using assms by (simp add: is_scalar_nat)
  have "encode_utf8 c \<noteq> []" by (rule encode_utf8_nonempty [OF assms])
  then have h: "unat (hd (encode_utf8 c)) = hd (utf8_digits (unat c))" using d by (metis hd_map)
  have l: "length (encode_utf8 c) = length (utf8_digits (unat c))" by (rule length_encode_digits [OF assms])
  have m: "(if unat c < 0x80 then unat c \<le> 127 else if unat c < 0x800 then 192 + unat c div 64 \<le> 223
      else if unat c < 0x10000 then 224 + unat c div 4096 \<le> 239 else True)"
    using less_mult_imp_div_less [of "unat c" 32 64] less_mult_imp_div_less [of "unat c" 16 4096] by auto
  show "utf8_scalar_length (hd (encode_utf8 c)) = length (encode_utf8 c)"
    unfolding l utf8_scalar_length_def word_le_nat_alt h using m c
    by (auto simp: utf8_digits_def)
  show "list_all (\<lambda>b. 128 \<le> unat b) (encode_utf8 c)" if "128 \<le> unat c"
  proof -
    have "list_all (\<lambda>n. 128 \<le> n) (map unat (encode_utf8 c))"
      unfolding d using that c by (auto simp: utf8_digits_def)
    then show ?thesis by (simp add: list_all_iff)
  qed
qed

lemma encode_control: "is_scalar c \<Longrightarrow> unat k < 128 \<Longrightarrow> hd (encode_utf8 c) = ucast k \<longleftrightarrow> c = k"
proof -
  assume c: "is_scalar c" and k: "unat k < 128"
  have n: "encode_utf8 c \<noteq> []" by (rule encode_utf8_nonempty [OF c])
  show ?thesis
  proof (cases "unat c < 128")
    case True
    then have "unat (hd (encode_utf8 c)) = unat c" by (simp add: encode_utf8_ascii unat_ascii)
    then show ?thesis using unat_ascii k by (auto simp: word_unat_eq_iff)
  next
    case False
    then have "128 \<le> unat (hd (encode_utf8 c))" using encode_lead(2) [OF c] n by (cases "encode_utf8 c") auto
    then show ?thesis using False k unat_ascii [of k] by auto
  qed
qed

lemmas encode_feed = encode_control [of _ "0x0a", simplified]
lemmas encode_space = encode_control [of _ "0x20", simplified]

lemma detail_columns_encoded: "list_all is_scalar cs \<Longrightarrow> detail_columns (utf8 cs) = 2 * length cs"
proof (induction cs)
  case Nil
  then show ?case by (simp add: detail_columns.simps)
next
  case (Cons c cs)
  then have n: "encode_utf8 c \<noteq> []" by (simp add: encode_utf8_nonempty)
  have "hd (utf8 (c # cs)) = hd (encode_utf8 c)" using n by simp
  then have "drop (utf8_scalar_length (hd (utf8 (c # cs)))) (utf8 (c # cs)) = utf8 cs"
    using Cons.prems encode_lead(1) [of c] by simp
  then show ?case using Cons n by (subst detail_columns.simps) simp
qed

lemma find_last_space_append:
  "find_last_space (xs @ ys) =
     (case find_last_space ys of Some i \<Rightarrow> Some (length xs + i) | None \<Rightarrow> find_last_space xs)"
  by (induction xs) (auto split: option.splits)

lemma find_last_space_none: "0x20 \<notin> set xs \<Longrightarrow> find_last_space xs = None"
  by (induction xs) auto

lemma find_last_space_encode:
  assumes "is_scalar c"
  shows "find_last_space (encode_utf8 c) = (if c = 0x20 then Some 0 else None)"
proof (cases "unat c < 128")
  case True
  then have e: "encode_utf8 c = [ucast c]" by (rule encode_utf8_ascii)
  have "(ucast c :: byte) = 0x20 \<longleftrightarrow> c = 0x20" using encode_space [OF assms] by (simp add: e)
  then show ?thesis by (simp add: e)
next
  case False
  then have "list_all (\<lambda>b. 128 \<le> unat b) (encode_utf8 c)" using encode_lead(2) [OF assms] by simp
  then have "0x20 \<notin> set (encode_utf8 c)" by (auto simp: list_all_iff)
  moreover have "c \<noteq> 0x20" using False by auto
  ultimately show ?thesis by (simp add: find_last_space_none)
qed

lemma find_last_space_encoded:
  "list_all is_scalar cs \<Longrightarrow> find_last_space (utf8 cs) = map_option (\<lambda>(a, b). length (utf8 a)) (split_last_space cs)"
  by (induction cs) (auto simp: find_last_space_append find_last_space_encode encode_utf8_ascii split: option.splits)

lemma split_last_space_None: "split_last_space cs = None \<longleftrightarrow> 0x20 \<notin> set cs"
  by (induction cs) (auto split: option.splits)

lemma split_last_space_Some: "split_last_space cs = Some (a, b) \<Longrightarrow> cs = a @ 0x20 # b \<and> 0x20 \<notin> set b"
  by (induction cs arbitrary: a) (auto simp: split_last_space_None split: option.splits if_splits)

lemma split_last_space_snoc:
  "split_last_space (cs @ [c]) =
     (if c = 0x20 then Some (cs, []) else map_option (\<lambda>(a, b). (a, b @ [c])) (split_last_space cs))"
  by (induction cs) (auto split: option.splits)

subsection \<open>The wrapper implements the reference\<close>

definition wrap_view :: "u32 list list \<Rightarrow> u32 list \<Rightarrow> wrap_state" where
  "wrap_view ls row =
     \<lparr>wr_lines = map utf8 (ls @ [row]), wr_columns = 2 * length row,
      wr_last_space = map_option (\<lambda>(a, b). length (utf8 a)) (split_last_space row)\<rparr>"

lemma wrap_view_full: "wrap_full (wrap_view ls row) \<longleftrightarrow> 13 \<le> length row"
  by (auto simp: wrap_full_def wrap_view_def)

lemma wrap_view_break:
  assumes "list_all is_scalar row"
  shows "wrap_break (wrap_view ls row) =
    (case split_last_space row of Some (a, b) \<Rightarrow> wrap_view (ls @ [a]) b | None \<Rightarrow> wrap_view (ls @ [row]) [])"
proof (cases "split_last_space row")
  case None
  then show ?thesis by (simp add: wrap_break_def wrap_view_def)
next
  case (Some p)
  obtain a b where p: "p = (a, b)" by (cases p)
  have r: "row = a @ 0x20 # b" using split_last_space_Some Some p by simp
  have "list_all is_scalar b" using assms r by simp
  moreover have "utf8 row = utf8 a @ 0x20 # utf8 b" using r by (simp add: encode_utf8_ascii)
  ultimately show ?thesis using Some p
    by (simp add: wrap_break_def wrap_view_def detail_columns_encoded find_last_space_encoded)
qed

lemma wrap_view_append:
  assumes "is_scalar c"
  shows "wrap_append (encode_utf8 c) (wrap_view ls row) = wrap_view ls (row @ [c])"
  using encode_space [OF assms]
  by (cases "split_last_space row") (auto simp: wrap_append_def wrap_view_def split_last_space_snoc)

lemma wrap_loop_encoded:
  "list_all is_scalar (row @ cs) \<Longrightarrow> length row \<le> 13 \<Longrightarrow>
     wr_lines (wrap_loop (utf8 cs) (wrap_view ls row)) = map utf8 (wrap_codepoints ls row cs)"
proof (induction ls row cs rule: wrap_codepoints.induct)
  case (1 ls row)
  then show ?case by (simp add: wrap_view_def)
next
  case (2 ls row c cs)
  have c: "is_scalar c" using "2.prems" by simp
  then obtain b bs where e: "encode_utf8 c = b # bs" using encode_utf8_nonempty by (cases "encode_utf8 c") auto
  have feed: "b = 0x0a \<longleftrightarrow> c = 0x0a" using encode_feed [OF c] e by simp
  have len: "utf8_scalar_length b = length (b # bs)" using encode_lead(1) [OF c] e by simp
  have step: "wrap_loop (utf8 (c # cs)) (wrap_view k r) = wrap_loop (utf8 cs) (wrap_view k (r @ [c]))"
    if "c \<noteq> 0x0a" "length r < 13" for k r
    using that feed wrap_view_full [of k r] wrap_view_append [OF c, of k r] by (simp add: e len)
  consider "c = 0x0a" | "c \<noteq> 0x0a" "length row < 13" | "c \<noteq> 0x0a" "length row = 13" using "2.prems" by linarith
  then show ?case
  proof cases
    case 1
    have v: "\<lparr>wr_lines = wr_lines (wrap_view ls row) @ [[]], wr_columns = 0, wr_last_space = None\<rparr> = wrap_view (ls @ [row]) []"
      by (simp add: wrap_view_def)
    have "encode_utf8 c = [0x0a]" using 1 by (simp add: encode_utf8_ascii)
    then show ?thesis using 1 "2.IH"(1) "2.prems" v by simp
  next
    case 2
    then show ?thesis using step "2.IH"(4) "2.prems" by simp
  next
    case 3
    have "wrap_loop (utf8 (c # cs)) (wrap_view ls row) = wrap_loop (utf8 (c # cs)) (wrap_break (wrap_view ls row))"
      using 3 feed wrap_view_full [of ls row] by (simp add: e)
    also have "\<dots> = wrap_loop (utf8 cs) (case split_last_space row of
        Some (a, b) \<Rightarrow> wrap_view (ls @ [a]) (b @ [c]) | None \<Rightarrow> wrap_view (ls @ [row]) [c])"
      using "2.prems" 3 step [of "[]" "ls @ [row]"] step
      by (auto simp: wrap_view_break split: option.splits dest!: split_last_space_Some)
    finally show ?thesis using "2.IH"(2,3) "2.prems" 3
      by (auto split: option.splits dest!: split_last_space_Some)
  qed
qed

subsection \<open>The rows of a text\<close>

lemma wrap_codepoints_append: "wrap_codepoints ls row cs = ls @ wrap_codepoints [] row cs"
proof (induction cs arbitrary: ls row)
  case (Cons c cs)
  have "wrap_codepoints (ls @ ms) r cs = ls @ wrap_codepoints ms r cs" for ms r
    using Cons [of "ls @ ms" r] Cons [of ms r] by simp
  then show ?case using Cons [of ls "row @ [c]"] by (simp split: option.split)
qed simp

lemma wrap_codepoints_nonempty: "wrap_codepoints ls row cs \<noteq> []"
  by (induction ls row cs rule: wrap_codepoints.induct) (auto split: option.split)

lemma wrap_codepoints_first:
  "0x20 \<notin> set b \<Longrightarrow> length b \<le> length (hd (wrap_codepoints [] (b @ r) cs))"
proof (induction cs arbitrary: r)
  case (Cons c cs)
  have "length b \<le> length x" if "split_last_space (b @ r) = Some (x, y)" for x y
  proof (rule ccontr)
    assume n: "\<not> length b \<le> length x"
    have "b @ r = x @ 0x20 # y" using split_last_space_Some [OF that] by simp
    then have "(b @ r) ! length x = 0x20" by simp
    then have "b ! length x = 0x20" using n by (simp add: nth_append)
    then show False using n Cons.prems nth_mem [of "length x" b] by simp
  qed
  moreover have "hd (wrap_codepoints [x] q cs) = x" for x q
    by (subst wrap_codepoints_append) simp
  ultimately show ?case using Cons.IH [OF Cons.prems, of "r @ [c]"] by (auto split: option.split)
qed simp

lemma wrap_codepoints_rows:
  "length row \<le> 13 \<Longrightarrow> rows_of (wrap_codepoints [] row cs) (row @ cs)"
proof (induction cs arbitrary: row)
  case (Cons c cs)
  have next_row: "rows_of (l # wrap_codepoints [] r cs) (l @ x)" 
    if "x = 0x0a # r @ cs \<or> x = r @ cs \<and> length l = 13 \<and> 0x20 \<notin> set l \<or>
        x = 0x20 # r @ cs \<and> 13 \<le> length l + 1 + length (hd (wrap_codepoints [] r cs))" "length r \<le> 13" for l r x
  proof (cases "wrap_codepoints [] r cs")
    case Nil
    then show ?thesis using wrap_codepoints_nonempty by blast
  next
    case (Cons m ms)
    then show ?thesis using that Cons.IH [OF that(2)] by auto
  qed
  have rest: "wrap_codepoints [l] r cs = l # wrap_codepoints [] r cs" for l r
    by (subst wrap_codepoints_append) simp
  consider "c = 0x0a" | "c \<noteq> 0x0a" "length row < 13" | "c \<noteq> 0x0a" "length row = 13" "split_last_space row = None"
    | a b where "c \<noteq> 0x0a" "length row = 13" "split_last_space row = Some (a, b)"
    using Cons.prems by (cases "split_last_space row") force+
  then show ?case
  proof cases
    case 1
    then show ?thesis using next_row [of _ "[]" row] by (simp add: rest)
  next
    case 2
    then show ?thesis using Cons.IH [of "row @ [c]"] by simp
  next
    case 3
    then have "0x20 \<notin> set row" using split_last_space_None by blast
    then show ?thesis using 3 next_row [of _ "[c]" row] by (simp add: rest)
  next
    case 4
    then have r: "row = a @ 0x20 # b" "0x20 \<notin> set b" using split_last_space_Some by blast+
    have "length b \<le> length (hd (wrap_codepoints [] (b @ [c]) cs))" using r by (intro wrap_codepoints_first)
    then have "rows_of (a # wrap_codepoints [] (b @ [c]) cs) (a @ 0x20 # (b @ [c]) @ cs)"
      using r 4 by (intro next_row) simp_all
    then show ?thesis using 4 r by (simp add: rest)
  qed
qed simp

definition row_ok :: "u32 list \<Rightarrow> bool" where
  "row_ok row \<longleftrightarrow> length row \<le> 13 \<and> 0x0a \<notin> set row \<and> list_all is_scalar row"

lemma row_ok_split: "row_ok (a @ x # b) \<Longrightarrow> row_ok a \<and> row_ok b \<and> length b \<le> 12"
  by (auto simp: row_ok_def)

lemma row_ok_snoc: "row_ok row \<Longrightarrow> length row < 13 \<Longrightarrow> c \<noteq> 0x0a \<Longrightarrow> is_scalar c \<Longrightarrow> row_ok (row @ [c])"
  by (auto simp: row_ok_def)

lemma wrap_codepoints_ok:
  "list_all row_ok ls \<Longrightarrow> row_ok row \<Longrightarrow> list_all is_scalar cs \<Longrightarrow> list_all row_ok (wrap_codepoints ls row cs)"
proof (induction ls row cs rule: wrap_codepoints.induct)
  case (2 ls row c cs)
  have e: "row_ok []" by (simp add: row_ok_def)
  have s: "row_ok a \<and> row_ok b \<and> length b \<le> 12" if "split_last_space row = Some (a, b)" for a b
    using split_last_space_Some [OF that] "2.prems"(2) row_ok_split by blast
  have n: "row_ok (r @ [c])" if "row_ok r" "length r < 13" "c \<noteq> 0x0a" for r
    using that "2.prems"(3) by (intro row_ok_snoc) simp_all
  have m: "row_ok (b @ [c])" if "split_last_space row = Some (a, b)" "c \<noteq> 0x0a" for a b
    using s [OF that(1)] that(2) by (intro n) simp_all
  show ?case using "2.prems" "2.IH" e s n [of "[]"] n [of row] m
    by (auto split: option.splits)
qed simp

lemma wrap_detail_body_encoded:
  "list_all is_scalar cs \<Longrightarrow> wb_lines (wrap_detail_body (utf8 cs)) = map utf8 (wrap_codepoints [] [] cs)"
  using wrap_loop_encoded [of "[]" cs "[]"] by (simp add: wrap_detail_body_def Let_def wrap_view_def)

text \<open>\<open>wrap_detail_body\<close> on valid text: the rows are the reference's, hold at most 13 code points and no line feed,
  and give the text back.\<close>

lemma wrap_detail_body_rows:
  assumes "is_valid_utf8 body"
  obtains cs where "body = utf8 cs" "list_all is_scalar cs"
    "wb_lines (wrap_detail_body body) = map utf8 (wrap_codepoints [] [] cs)"
    "list_all row_ok (wrap_codepoints [] [] cs)" "rows_of (wrap_codepoints [] [] cs) cs"
proof -
  obtain cs where cs: "body = utf8 cs" "list_all is_scalar cs" using assms by (auto simp: is_valid_utf8_iff_encoded)
  show ?thesis
    using that [OF cs] wrap_detail_body_encoded [OF cs(2)] wrap_codepoints_ok [of "[]" "[]" cs] wrap_codepoints_rows [of "[]" cs] cs
    by (simp add: row_ok_def)
qed

lemma utf8_valid: "list_all is_scalar cs \<Longrightarrow> is_valid_utf8 (utf8 cs)"
  by (auto simp: is_valid_utf8_iff_encoded)

lemma valid_append: "is_valid_utf8 a \<Longrightarrow> is_valid_utf8 b \<Longrightarrow> is_valid_utf8 (a @ b)"
proof -
  assume "is_valid_utf8 a" "is_valid_utf8 b"
  then obtain x y where "a = utf8 x" "b = utf8 y" "list_all is_scalar (x @ y)" by (auto simp: is_valid_utf8_iff_encoded)
  then show ?thesis using utf8_valid [of "x @ y"] by simp
qed

lemma valid_ascii: "list_all (\<lambda>b. unat b < 128) v \<Longrightarrow> is_valid_utf8 v"
proof (induction v)
  case (Cons b v)
  have "is_scalar (ucast b)" "encode_utf8 (ucast b) = [b]"
    using Cons.prems by (simp_all add: is_scalar_nat encode_utf8_ascii unat_lead_bits word_unat_eq_iff unat_ascii)
  then have "is_valid_utf8 [b]" using utf8_valid [of "[ucast b]"] by simp
  then show ?case using Cons valid_append [of "[b]" v] by simp
qed (simp add: utf8_valid [of "[]", simplified])

lemma join_rows_valid: "list_all is_valid_utf8 ls \<Longrightarrow> is_valid_utf8 (join_rows ls)"
proof (induction ls rule: join_rows.induct)
  case (3 l m ls)
  have "is_valid_utf8 [0x0a]" by (rule valid_ascii) simp
  then have "is_valid_utf8 ([0x0a] @ join_rows (m # ls))" using 3 by (intro valid_append) auto
  then show ?case using 3 valid_append [of l] by simp
qed (auto intro: valid_ascii)

lemma detail_window_eq: "detail_window w k =
    join_rows (take kVisibleDetailLines (drop (min k (wb_maximum_scroll_line w)) (wb_lines w)))"
proof -
  have "map ((!) xs) [i..<min (length xs) (i + 2)] = take 2 (drop i xs)" for i and xs :: "bytes list"
    by (rule nth_equalityI) (auto simp: min_def split: if_splits)
  then show ?thesis by (simp add: detail_window_def Let_def)
qed

lemma detail_window_valid: "is_valid_utf8 body \<Longrightarrow> is_valid_utf8 (detail_window (wrap_detail_body body) k)"
proof -
  assume "is_valid_utf8 body"
  then obtain cs where "wb_lines (wrap_detail_body body) = map utf8 (wrap_codepoints [] [] cs)"
    "list_all row_ok (wrap_codepoints [] [] cs)" by (rule wrap_detail_body_rows)
  then have "list_all is_valid_utf8 (wb_lines (wrap_detail_body body))"
    by (auto simp: list_all_iff row_ok_def intro!: utf8_valid [unfolded list_all_iff])
  then have "list_all is_valid_utf8 (take n (drop i (wb_lines (wrap_detail_body body))))" for n i
    by (auto simp: list_all_iff dest!: in_set_takeD in_set_dropD)
  then show ?thesis unfolding detail_window_eq by (intro join_rows_valid)
qed

subsection \<open>Previews\<close>

lemma utf8_position:
  "n < length (utf8 cs) \<Longrightarrow> \<exists>a c b. cs = a @ c # b \<and> length (utf8 a) \<le> n \<and> n < length (utf8 a) + length (encode_utf8 c)"
proof (induction cs arbitrary: n)
  case (Cons c cs)
  show ?case
  proof (cases "n < length (encode_utf8 c)")
    case True
    then show ?thesis by (intro exI [of _ "[]"] exI [of _ c] exI [of _ cs]) simp
  next
    case False
    then have "n - length (encode_utf8 c) < length (utf8 cs)" using Cons.prems by simp
    from Cons.IH [OF this] obtain a d b where "cs = a @ d # b" "length (utf8 a) \<le> n - length (encode_utf8 c)"
      "n - length (encode_utf8 c) < length (utf8 a) + length (encode_utf8 d)" by blast
    then show ?thesis using False by (intro exI [of _ "c # a"] exI [of _ d] exI [of _ b]) auto
  qed
qed simp

lemma previous_loop_split:
  assumes "list_all is_scalar cs" "n < length (utf8 cs)"
  shows "\<exists>a b. cs = a @ b \<and> previous_loop (utf8 cs) n = length (utf8 a) \<and> length (utf8 a) \<le> n \<and> n < length (utf8 a) + 4"
proof -
  obtain a c b where p: "cs = a @ c # b" "length (utf8 a) \<le> n" "n < length (utf8 a) + length (encode_utf8 c)"
    using utf8_position [OF assms(2)] by blast
  have c: "is_scalar c" using assms p by simp
  obtain x xs where e: "encode_utf8 c = x # xs" "\<not> is_continuation x" "list_all is_continuation xs"
    by (rule encode_shape [OF c])
  have "length (encode_utf8 c) \<le> 4" using length_encode_digits [OF c] by (simp add: utf8_digits_def)
  moreover have "previous_loop (utf8 cs) n = length (utf8 a)"
    using previous_loop_back [OF e(3,2), of "n - length (utf8 a)" "utf8 a" "utf8 b"] p e(1) by simp
  ultimately show ?thesis using p by (intro exI [of _ a] exI [of _ "c # b"]) auto
qed

text \<open>A preview is the text, or a prefix of whole code points and three dots that fills the space up to three bytes.\<close>

lemma truncated_utf8_preview:
  assumes "is_valid_utf8 v" "3 < n" "n < length v"
  obtains a b where "v = a @ b" "is_valid_utf8 a" "truncated_utf8 v n = a @ ascii ''...''"
    "length a + 3 \<le> n" "n < length a + 7"
proof -
  obtain cs where cs: "v = utf8 cs" "list_all is_scalar cs" using assms(1) by (auto simp: is_valid_utf8_iff_encoded)
  obtain a b where p: "cs = a @ b" "previous_loop v (n - 3) = length (utf8 a)" "length (utf8 a) \<le> n - 3"
    "n - 3 < length (utf8 a) + 4"
    using previous_loop_split [OF cs(2), of "n - 3"] assms(2,3) unfolding cs(1) by (meson less_imp_diff_less)
  show ?thesis
    by (rule that [of "utf8 a" "utf8 b"]) (use p cs assms in \<open>simp_all add: truncated_utf8_def utf8_valid\<close>)
qed

lemma truncated_utf8_valid: "is_valid_utf8 v \<Longrightarrow> is_valid_utf8 (truncated_utf8 v n)"
proof -
  assume v: "is_valid_utf8 v"
  have dots: "is_valid_utf8 (ascii ''...'')" by (rule valid_ascii) (simp add: ascii_def)
  consider "length v \<le> n" | "n < length v" "n \<le> 3" | "n < length v" "3 < n" by linarith
  then show ?thesis
  proof cases
    case 2
    then show ?thesis by (simp add: truncated_utf8_def valid_ascii list_all_iff)
  next
    case 3
    then obtain a b where "is_valid_utf8 a" "truncated_utf8 v n = a @ ascii ''...''"
      using truncated_utf8_preview [OF v] by metis
    then show ?thesis using valid_append dots by simp
  qed (simp add: truncated_utf8_def v)
qed

lemma join_rows_mem: "l \<in> set ls \<Longrightarrow> \<exists>pre post. join_rows ls = pre @ l @ post"
proof (induction ls rule: join_rows.induct)
  case (2 m)
  then show ?case by (intro exI [of _ "[]"]) simp
next
  case (3 m n ls)
  show ?case
  proof (cases "l = m")
    case True
    then show ?thesis by (intro exI [of _ "[]"] exI [of _ "[0x0a] @ join_rows (n # ls)"]) simp
  next
    case False
    with 3 obtain pre post where "join_rows (n # ls) = pre @ l @ post" by auto
    then show ?thesis by (intro exI [of _ "m @ [0x0a] @ pre"] exI [of _ post]) simp
  qed
qed simp

lemma row_in_window:
  assumes "k < length (wb_lines (wrap_detail_body v))"
  shows "\<exists>scroll \<le> wb_maximum_scroll_line (wrap_detail_body v). \<exists>pre post.
    detail_window (wrap_detail_body v) scroll = pre @ wb_lines (wrap_detail_body v) ! k @ post"
proof -
  let ?w = "wrap_detail_body v"
  define i where "i = min k (wb_maximum_scroll_line ?w)"
  have "wb_maximum_scroll_line ?w = length (wb_lines ?w) - 2" by (simp add: wrap_detail_body_def Let_def)
  then have i: "i \<le> k" "k < i + 2" "i \<le> wb_maximum_scroll_line ?w" using assms by (auto simp: i_def)
  then have "take 2 (drop i (wb_lines ?w)) ! (k - i) = wb_lines ?w ! k" "k - i < length (take 2 (drop i (wb_lines ?w)))"
    using assms by auto
  then have "wb_lines ?w ! k \<in> set (take 2 (drop i (wb_lines ?w)))" by (metis nth_mem)
  from join_rows_mem [OF this] show ?thesis using i(3)
    by (intro exI [of _ i]) (simp add: detail_window_eq min_absorb1)
qed

section \<open>Properties\<close>

text \<open>C15: The detail page wraps the body of any post into rows of at most 13 characters: the rows are valid UTF-8 without
  line feeds, and together they are the whole text, where a row ends only at a line feed, at a space whose next word
  reaches the end of the row, or after 13 characters without a space. Row k is in the window at some scroll
  position.
\<close>

theorem wrap_detail_body_complete:
  assumes "is_valid_utf8 v"
  shows "\<exists>rows cs. v = utf8 cs \<and> list_all is_scalar cs \<and> wb_lines (wrap_detail_body v) = map utf8 rows \<and>
    list_all row_ok rows \<and> rows_of rows cs \<and>
    (\<forall>k < length rows. \<exists>scroll \<le> wb_maximum_scroll_line (wrap_detail_body v). \<exists>pre post.
       detail_window (wrap_detail_body v) scroll = pre @ utf8 (rows ! k) @ post)"
proof -
  obtain cs where cs: "v = utf8 cs" "list_all is_scalar cs"
    "wb_lines (wrap_detail_body v) = map utf8 (wrap_codepoints [] [] cs)"
    "list_all row_ok (wrap_codepoints [] [] cs)" "rows_of (wrap_codepoints [] [] cs) cs"
    using assms by (rule wrap_detail_body_rows)
  let ?w = "wrap_detail_body v" and ?rows = "wrap_codepoints [] [] cs"
  have "\<exists>scroll \<le> wb_maximum_scroll_line ?w. \<exists>pre post. detail_window ?w scroll = pre @ utf8 (?rows ! k) @ post"
    if "k < length ?rows" for k
    using row_in_window [of k v] that cs(3) by simp
  then show ?thesis using cs by (intro exI [of _ ?rows] exI [of _ cs]) simp
qed

theorem wrap_detail_body_complete_witness:
  "\<exists>rows cs. ascii ''hello brave new world'' = utf8 cs \<and> list_all is_scalar cs \<and>
     wb_lines (wrap_detail_body (ascii ''hello brave new world'')) = map utf8 rows \<and> list_all row_ok rows \<and> rows_of rows cs \<and>
     (\<forall>k < length rows. \<exists>scroll \<le> wb_maximum_scroll_line (wrap_detail_body (ascii ''hello brave new world'')). \<exists>pre post.
        detail_window (wrap_detail_body (ascii ''hello brave new world'')) scroll = pre @ utf8 (rows ! k) @ post)"
  by (rule wrap_detail_body_complete) (simp add: valid_ascii ascii_def)

end
