(* ===== verification/View_Model.thy ===== *)
theory View_Model
  imports View_I18n View_Layout
begin

text \<open>
  Model of \<^verbatim>\<open>src/viewmodel/messenger_view_model.cpp\<close>: the state machine behind the screens. It turns key events into
  changes of its own state, commands of the messenger and changes of the settings, and it answers with the
  snapshot to draw. The messenger it refers to, and the settings it commits, belong to an owner
  of arbitrary type \<open>'w\<close> that \<open>ui_ports\<close> gives access to.
\<close>

section \<open>Definitions\<close>

definition kVisibleTimelineRows :: nat where [simp]: "kVisibleTimelineRows = 2"
definition kVisibleMentionRows :: nat where [simp]: "kVisibleMentionRows = 3"
definition kTimelinePreviewBytes :: nat where [simp]: "kTimelinePreviewBytes = 72"

datatype screen_id = ScreenMenu | ScreenTimeline | ScreenDetail | ScreenCompose | ScreenMentions | ScreenSettings

datatype modal_id = ModalNone | ModalStatus | ModalError | ModalDiscard | ModalExit | ModalDeleteData | ModalRecovery

datatype ui_key =
  KeyCharacter | KeyUp | KeyDown | KeyLeft | KeyRight | KeyEnter | KeyEscape | KeyHome | KeyBackspace | KeyDelete | KeyTab

record key_event =
  ev_key :: ui_key
  ev_character :: u32

record ui_action =
  render_required :: bool
  exit_approved :: bool
  delete_data_approved :: bool

datatype delivery_badge = BadgeShowsReceived | BadgeShowsQueued | BadgeShowsBroadcast | BadgeShowsFailed | BadgeShowsUnknown
datatype reply_availability = ReplyNone | ReplyAvailable | ReplyUnavailable
datatype menu_item = MenuItemTalk | MenuItemSettings
datatype settings_item = ItemLanguage | ItemSkipTitle
datatype transport_status = TransportOffline | TransportLoRa | TransportWifiLan

record draft =
  dr_body :: text_editor
  dr_mentions :: "install_id list"
  dr_reply_to :: "message_id option"

record active_modal =
  am_id :: modal_id
  am_message :: string_id
  am_confirm_selected :: bool

record view_model =
  vm_locale :: ui_locale
  vm_radio_ready :: bool
  vm_transport_status :: transport_status
  vm_screen :: screen_id
  vm_compose_return :: screen_id
  vm_settings_return :: screen_id
  vm_modal :: active_modal
  vm_selected :: "message_id option"
  vm_detail :: "message_id option"
  vm_detail_scroll :: nat
  vm_draft :: draft
  vm_peers :: "install_id list"
  vm_peer_cursor :: nat
  vm_menu_item :: menu_item
  vm_settings_item :: settings_item
  vm_skip_title :: bool

text \<open>The owner of the messenger: its state as \<^verbatim>\<open>messenger_\<close> sees it, the compose command, and the settings port when
  there is one.\<close>

record 'w ui_ports =
  up_messenger :: "'w \<Rightarrow> messenger_state"
  up_compose :: "post_draft \<Rightarrow> 'w \<Rightarrow> command_result \<times> 'w"
  up_settings_commit :: "((ui_locale \<Rightarrow> 'w \<Rightarrow> bool \<times> 'w) \<times> (bool \<Rightarrow> 'w \<Rightarrow> bool \<times> 'w)) option"

definition ui_nothing :: ui_action where
  "ui_nothing = \<lparr>render_required = False, exit_approved = False, delete_data_approved = False\<rparr>"

definition ui_render :: "bool \<Rightarrow> ui_action" where
  "ui_render b = ui_nothing\<lparr>render_required := b\<rparr>"

definition ui_exit :: ui_action where
  "ui_exit = ui_nothing\<lparr>exit_approved := True\<rparr>"

definition ui_delete :: ui_action where
  "ui_delete = ui_nothing\<lparr>delete_data_approved := True\<rparr>"

definition is_shortcut :: "key_event \<Rightarrow> u32 \<Rightarrow> bool" where
  "is_shortcut ev lower_case \<longleftrightarrow>
     (if ev_key ev \<noteq> KeyCharacter then False
      else ev_character ev = lower_case \<or> ev_character ev = lower_case - 0x61 + 0x41)"

definition is_editable_scalar :: "u32 \<Rightarrow> bool" where
  "is_editable_scalar codepoint \<longleftrightarrow>
     (if codepoint = 0 \<or> codepoint > 0x10ffff \<or> (codepoint \<ge> 0xd800 \<and> codepoint \<le> 0xdfff) then False
      else codepoint \<ge> 0x20 \<and> \<not> (codepoint \<ge> 0x7f \<and> codepoint \<le> 0x9f))"

definition id_suffix :: "install_id \<Rightarrow> bytes" where
  "id_suffix i =
     (let v = uuid_to_string (install_uuid i) in if length v \<le> 4 then v else drop (length v - 4) v)"

fun delivery_badge_of :: "entry_origin \<Rightarrow> delivery_badge" where
  "delivery_badge_of ReceivedOrigin = BadgeShowsReceived"
| "delivery_badge_of (LocalDelivery Queued) = BadgeShowsQueued"
| "delivery_badge_of (LocalDelivery Broadcast) = BadgeShowsBroadcast"
| "delivery_badge_of (LocalDelivery Failed) = BadgeShowsFailed"
| "delivery_badge_of (LocalDelivery UnknownState) = BadgeShowsUnknown"

fun screen_title :: "screen_id \<Rightarrow> string_id" where
  "screen_title ScreenMenu = AppTitle"
| "screen_title ScreenTimeline = TimelineTitle"
| "screen_title ScreenDetail = DetailTitle"
| "screen_title ScreenCompose = ComposeTitle"
| "screen_title ScreenMentions = MentionsTitle"
| "screen_title ScreenSettings = SettingsTitle"

fun screen_footer :: "screen_id \<Rightarrow> string_id" where
  "screen_footer ScreenMenu = FooterMenu"
| "screen_footer ScreenTimeline = FooterTimeline"
| "screen_footer ScreenDetail = FooterDetail"
| "screen_footer ScreenCompose = FooterCompose"
| "screen_footer ScreenMentions = FooterMentions"
| "screen_footer ScreenSettings = FooterSettings"

definition draft_new :: draft where
  "draft_new = \<lparr>dr_body = editor_new kMaxPostBodyBytes, dr_mentions = [], dr_reply_to = None\<rparr>"

definition draft_dirty :: "draft \<Rightarrow> bool" where
  "draft_dirty d \<longleftrightarrow> ed_text (dr_body d) \<noteq> [] \<or> dr_mentions d \<noteq> []"

definition draft_reset :: "draft \<Rightarrow> draft" where
  "draft_reset d = \<lparr>dr_body = editor_clear (dr_body d), dr_mentions = [], dr_reply_to = None\<rparr>"

definition modal_none :: active_modal where
  "modal_none = \<lparr>am_id = ModalNone, am_message = UnknownError, am_confirm_selected = False\<rparr>"

definition show_modal :: "modal_id \<Rightarrow> string_id \<Rightarrow> view_model \<Rightarrow> view_model" where
  "show_modal i message vm = vm\<lparr>vm_modal := \<lparr>am_id = i, am_message = message, am_confirm_selected = False\<rparr>\<rparr>"

definition show_status :: "string_id \<Rightarrow> view_model \<Rightarrow> view_model" where
  "show_status message vm = show_modal ModalStatus message vm"

definition show_error :: "string_id \<Rightarrow> view_model \<Rightarrow> view_model" where
  "show_error message vm = show_modal ModalError message vm"

definition show_command_error :: "command_error option \<Rightarrow> view_model \<Rightarrow> view_model" where
  "show_command_error e vm = show_error (command_error_string_id e) vm"

definition show_exit_confirmation :: "view_model \<Rightarrow> view_model" where
  "show_exit_confirmation vm = show_modal ModalExit ConfirmExitMessage vm"

definition show_delete_confirmation :: "view_model \<Rightarrow> view_model" where
  "show_delete_confirmation vm = show_modal ModalDeleteData ConfirmDeleteMessage vm"

definition clear_modal :: "view_model \<Rightarrow> view_model" where
  "clear_modal vm = vm\<lparr>vm_modal := modal_none\<rparr>"

definition set_radio_ready :: "bool \<Rightarrow> view_model \<Rightarrow> view_model" where
  "set_radio_ready ready vm =
     vm\<lparr>vm_radio_ready := ready, vm_transport_status := (if ready then TransportLoRa else TransportOffline)\<rparr>"

definition set_transport_status :: "transport_status \<Rightarrow> view_model \<Rightarrow> view_model" where
  "set_transport_status status vm =
     vm\<lparr>vm_transport_status := status, vm_radio_ready := (status \<noteq> TransportOffline)\<rparr>"

definition report_storage_failure :: "view_model \<Rightarrow> view_model" where
  "report_storage_failure vm = show_error ErrorPersistenceUnavailable vm"

subsection \<open>Following the messenger\<close>

text \<open>\<open>find\<close> on an optional id, as in the conditional expressions of the source.\<close>

definition find_opt :: "messenger_state \<Rightarrow> message_id option \<Rightarrow> timeline_entry option" where
  "find_opt m mid = (case mid of None \<Rightarrow> None | Some i \<Rightarrow> timeline_find (ms_timeline m) i)"

definition ensure_timeline_selection :: "messenger_state \<Rightarrow> view_model \<Rightarrow> view_model" where
  "ensure_timeline_selection m vm =
     (if find_opt m (vm_selected vm) \<noteq> None then vm
      else vm\<lparr>vm_selected := map_option entry_id (newest_at (ms_timeline m) 0)\<rparr>)"

definition own_id :: "messenger_state \<Rightarrow> install_id option" where
  "own_id m = map_option identity_install_id (ms_identity m)"

text \<open>The two loops that collect the peers: the senders of the history, newest first, and the mentions of the draft.\<close>

definition add_peer :: "messenger_state \<Rightarrow> install_id \<Rightarrow> install_id list \<Rightarrow> install_id list" where
  "add_peer m i peers = (if own_id m = Some i \<or> i \<in> set peers then peers else peers @ [i])"

definition collect_peers :: "messenger_state \<Rightarrow> install_id list \<Rightarrow> install_id list" where
  "collect_peers m selected =
     fold (add_peer m) selected
       (fold (\<lambda>index peers.
          case newest_at (ms_timeline m) index of None \<Rightarrow> peers | Some e \<Rightarrow> add_peer m (sender_id (entry_post e)) peers)
          [0..<length (entries (ms_timeline m))] [])"

definition refresh_peers :: "messenger_state \<Rightarrow> view_model \<Rightarrow> view_model" where
  "refresh_peers m vm =
     (let old_cursor = (if vm_peer_cursor vm < length (vm_peers vm) then Some (vm_peers vm ! vm_peer_cursor vm) else None);
          peers = collect_peers m (dr_mentions (vm_draft vm));
          cursor = (case old_cursor of None \<Rightarrow> 0
                    | Some peer \<Rightarrow> let i = find_index (\<lambda>p. p = peer) peers in if i < length peers then i else 0);
          cursor = (if peers \<noteq> [] \<and> cursor \<ge> length peers then length peers - 1 else cursor)
      in vm\<lparr>vm_peers := peers, vm_peer_cursor := cursor\<rparr>)"

definition reconcile_model :: "messenger_state \<Rightarrow> view_model \<Rightarrow> view_model" where
  "reconcile_model m vm =
     (let vm = ensure_timeline_selection m vm;
          vm = (if vm_screen vm = ScreenDetail \<and> find_opt m (vm_detail vm) = None
                then let vm = vm\<lparr>vm_detail := None, vm_detail_scroll := 0, vm_screen := ScreenTimeline\<rparr>
                     in if am_id (vm_modal vm) = ModalNone then show_status StatusPostUnavailable vm else vm
                else vm)
      in if vm_screen vm = ScreenMentions then refresh_peers m vm else vm)"

definition view_model_new :: "messenger_state \<Rightarrow> ui_locale \<Rightarrow> bool \<Rightarrow> bool \<Rightarrow> view_model" where
  "view_model_new m loc recovery_required skip_title =
     (let start = (if skip_title then ScreenTimeline else ScreenMenu);
          vm = \<lparr>vm_locale = (if locale_index loc < kLocaleCount then loc else LocaleEnglish), vm_radio_ready = False,
                vm_transport_status = TransportOffline, vm_screen = start, vm_compose_return = ScreenTimeline,
                vm_settings_return = start, vm_modal = modal_none, vm_selected = None, vm_detail = None,
                vm_detail_scroll = 0, vm_draft = draft_new, vm_peers = [], vm_peer_cursor = 0,
                vm_menu_item = MenuItemTalk, vm_settings_item = ItemLanguage, vm_skip_title = skip_title\<rparr>;
          vm = ensure_timeline_selection m vm
      in if recovery_required then show_modal ModalRecovery RecoveryMessage vm else vm)"

definition newest_index :: "messenger_state \<Rightarrow> message_id \<Rightarrow> nat option" where
  "newest_index m mid =
     List.find (\<lambda>index. case newest_at (ms_timeline m) index of None \<Rightarrow> False | Some e \<Rightarrow> entry_id e = mid)
       [0..<length (entries (ms_timeline m))]"

subsection \<open>Screens\<close>

definition open_detail :: "messenger_state \<Rightarrow> view_model \<Rightarrow> view_model" where
  "open_detail m vm =
     (if find_opt m (vm_selected vm) = None \<or> vm_selected vm = None then vm
      else vm\<lparr>vm_detail := vm_selected vm, vm_detail_scroll := 0, vm_screen := ScreenDetail\<rparr>)"

definition open_compose ::
  "messenger_state \<Rightarrow> message_id option \<Rightarrow> install_id option \<Rightarrow> screen_id \<Rightarrow> view_model \<Rightarrow> view_model" where
  "open_compose m reply initial_mention return_screen vm =
     (let d = (draft_reset (vm_draft vm))\<lparr>dr_reply_to := reply\<rparr>;
          d = (case initial_mention of
                 Some i \<Rightarrow> if own_id m \<noteq> Some i then d\<lparr>dr_mentions := dr_mentions d @ [i]\<rparr> else d
               | None \<Rightarrow> d)
      in vm\<lparr>vm_draft := d, vm_compose_return := return_screen, vm_screen := ScreenCompose\<rparr>)"

definition close_compose :: "messenger_state \<Rightarrow> view_model \<Rightarrow> view_model" where
  "close_compose m vm =
     (let vm = vm\<lparr>vm_draft := draft_reset (vm_draft vm)\<rparr>
      in if vm_compose_return vm = ScreenDetail \<and> find_opt m (vm_detail vm) \<noteq> None then vm\<lparr>vm_screen := ScreenDetail\<rparr>
         else if vm_compose_return vm = ScreenSettings then vm\<lparr>vm_screen := ScreenSettings\<rparr>
         else vm\<lparr>vm_screen := ScreenTimeline\<rparr>)"

definition is_confirmation :: "modal_id \<Rightarrow> bool" where
  "is_confirmation i \<longleftrightarrow> i = ModalDiscard \<or> i = ModalExit \<or> i = ModalDeleteData \<or> i = ModalRecovery"

definition handle_modal :: "messenger_state \<Rightarrow> key_event \<Rightarrow> view_model \<Rightarrow> ui_action \<times> view_model" where
  "handle_modal m ev vm =
     (let i = am_id (vm_modal vm); k = ev_key ev
      in if k = KeyHome \<and> i \<noteq> ModalExit \<and> i \<noteq> ModalRecovery then (ui_render True, show_exit_confirmation vm)
         else if i = ModalStatus \<or> i = ModalError
         then (if k = KeyEscape \<or> k = KeyEnter then (ui_render True, clear_modal vm) else (ui_nothing, vm))
         else if is_confirmation i
         then (if k = KeyEscape
               then (if i = ModalRecovery then (ui_exit, vm) else (ui_render True, clear_modal vm))
               else if k = KeyLeft
               then (ui_render True, vm\<lparr>vm_modal := (vm_modal vm)\<lparr>am_confirm_selected := False\<rparr>\<rparr>)
               else if k = KeyRight
               then (ui_render True, vm\<lparr>vm_modal := (vm_modal vm)\<lparr>am_confirm_selected := True\<rparr>\<rparr>)
               else if k = KeyEnter
               then (if \<not> am_confirm_selected (vm_modal vm)
                     then (if i = ModalRecovery then (ui_exit, vm) else (ui_render True, clear_modal vm))
                     else let vm = clear_modal vm
                          in if i = ModalDiscard then (ui_render True, close_compose m vm)
                             else if i = ModalDeleteData \<or> i = ModalRecovery then (ui_delete, vm)
                             else (ui_exit, vm))
               else (ui_nothing, vm))
         else (ui_nothing, vm))"

definition handle_global_shortcut :: "messenger_state \<Rightarrow> key_event \<Rightarrow> view_model \<Rightarrow> ui_action \<times> view_model" where
  "handle_global_shortcut m ev vm =
     (if vm_screen vm = ScreenCompose \<or> vm_screen vm = ScreenMentions then (ui_nothing, vm)
      else if vm_screen vm = ScreenMenu
      then (if is_shortcut ev 0x73
            then (ui_render True, vm\<lparr>vm_settings_return := ScreenMenu, vm_screen := ScreenSettings,
                                     vm_settings_item := ItemLanguage\<rparr>)
            else (ui_nothing, vm))
      else
        let target_id = (if vm_screen vm = ScreenDetail then vm_detail vm else vm_selected vm);
            target = find_opt m target_id;
            return_screen = vm_screen vm
        in if is_shortcut ev 0x6e then (ui_render True, open_compose m None None return_screen vm)
           else if is_shortcut ev 0x72 \<and> target_id \<noteq> None
           then (ui_render True, open_compose m target_id None return_screen vm)
           else if is_shortcut ev 0x6d
           then (ui_render True,
                 open_compose m None (map_option (\<lambda>e. sender_id (entry_post e)) target) return_screen vm)
           else if is_shortcut ev 0x73 \<and> vm_screen vm \<noteq> ScreenSettings
           then (ui_render True, vm\<lparr>vm_settings_return := vm_screen vm, vm_screen := ScreenSettings,
                                    vm_settings_item := ItemLanguage\<rparr>)
           else (ui_nothing, vm))"

definition handle_menu :: "key_event \<Rightarrow> view_model \<Rightarrow> ui_action \<times> view_model" where
  "handle_menu ev vm =
     (if ev_key ev = KeyUp \<or> ev_key ev = KeyDown
      then (ui_render True,
            vm\<lparr>vm_menu_item := (if vm_menu_item vm = MenuItemTalk then MenuItemSettings else MenuItemTalk)\<rparr>)
      else if ev_key ev = KeyEnter
      then (ui_render True,
            if vm_menu_item vm = MenuItemTalk then vm\<lparr>vm_screen := ScreenTimeline\<rparr>
            else vm\<lparr>vm_settings_return := ScreenMenu, vm_settings_item := ItemLanguage, vm_screen := ScreenSettings\<rparr>)
      else (ui_nothing, vm))"

definition handle_timeline :: "messenger_state \<Rightarrow> key_event \<Rightarrow> view_model \<Rightarrow> ui_action \<times> view_model" where
  "handle_timeline m ev vm =
     (if ev_key ev = KeyEscape then (ui_render True, vm\<lparr>vm_screen := ScreenMenu\<rparr>)
      else
        let selected_index = Option.bind (vm_selected vm) (newest_index m);
            select = (\<lambda>index. vm\<lparr>vm_selected := map_option entry_id (newest_at (ms_timeline m) index)\<rparr>)
        in case selected_index of
             Some index \<Rightarrow>
               if ev_key ev = KeyUp \<and> index > 0 then (ui_render True, select (index - 1))
               else if ev_key ev = KeyDown \<and> index + 1 < length (entries (ms_timeline m))
               then (ui_render True, select (index + 1))
               else if ev_key ev = KeyEnter
               then (let after = open_detail m vm in (ui_render (vm_screen after \<noteq> vm_screen vm), after))
               else (ui_nothing, vm)
           | None \<Rightarrow>
               if ev_key ev = KeyEnter
               then (let after = open_detail m vm in (ui_render (vm_screen after \<noteq> vm_screen vm), after))
               else (ui_nothing, vm))"

definition handle_detail :: "messenger_state \<Rightarrow> key_event \<Rightarrow> view_model \<Rightarrow> ui_action \<times> view_model" where
  "handle_detail m ev vm =
     (if ev_key ev = KeyEscape then (ui_render True, vm\<lparr>vm_screen := ScreenTimeline, vm_detail_scroll := 0\<rparr>)
      else if ev_key ev = KeyUp \<and> vm_detail_scroll vm > 0
      then (ui_render True, vm\<lparr>vm_detail_scroll := vm_detail_scroll vm - 1\<rparr>)
      else
        let maximum_scroll_line =
              (case find_opt m (vm_detail vm) of None \<Rightarrow> 0
               | Some e \<Rightarrow> wb_maximum_scroll_line (wrap_detail_body (post_body_value (body (entry_post e)))))
        in if ev_key ev = KeyDown \<and> vm_detail_scroll vm < maximum_scroll_line
           then (ui_render True, vm\<lparr>vm_detail_scroll := vm_detail_scroll vm + 1\<rparr>)
           else (ui_nothing, vm))"

text \<open>An editing operation of the draft that reports whether it changed something.\<close>

definition edit_draft :: "(text_editor \<Rightarrow> bool \<times> text_editor) \<Rightarrow> view_model \<Rightarrow> ui_action \<times> view_model" where
  "edit_draft f vm =
     (let (changed, e) = f (dr_body (vm_draft vm))
      in (ui_render changed, vm\<lparr>vm_draft := (vm_draft vm)\<lparr>dr_body := e\<rparr>\<rparr>))"

definition post_draft_of :: "draft \<Rightarrow> post_draft" where
  "post_draft_of d =
     \<lparr>draft_body = ed_text (dr_body d), draft_mentions = dr_mentions d, draft_reply_to = dr_reply_to d\<rparr>"

text \<open>The status shown after a post was queued.\<close>

definition queued_status :: "view_model \<Rightarrow> string_id" where
  "queued_status vm =
     (if vm_transport_status vm = TransportWifiLan then StatusQueuedForLan
      else if vm_radio_ready vm then StatusQueuedForRadio else StatusQueued)"

definition send_draft :: "'w ui_ports \<Rightarrow> view_model \<Rightarrow> 'w \<Rightarrow> ui_action \<times> view_model \<times> 'w" where
  "send_draft up vm w =
     (case up_compose up (post_draft_of (vm_draft vm)) w of
        (result, w) \<Rightarrow>
          if cr_error result \<noteq> None then (ui_render True, show_command_error (cr_error result) vm, w)
          else
            let vm = vm\<lparr>vm_selected := cr_message_id result, vm_detail := None, vm_detail_scroll := 0,
                        vm_draft := draft_reset (vm_draft vm), vm_screen := ScreenTimeline\<rparr>;
                vm = ensure_timeline_selection (up_messenger up w) vm
            in (ui_render True, show_status (queued_status vm) vm, w))"

definition handle_compose :: "'w ui_ports \<Rightarrow> key_event \<Rightarrow> view_model \<Rightarrow> 'w \<Rightarrow> ui_action \<times> view_model \<times> 'w" where
  "handle_compose up ev vm w =
     (let here = (\<lambda>(a, vm). (a, vm, w))
      in case ev_key ev of
           KeyCharacter \<Rightarrow>
             if \<not> is_editable_scalar (ev_character ev) then (ui_render True, show_error ErrorInvalidCharacter vm, w)
             else
               let (e, editor) = editor_insert (ev_character ev) (dr_body (vm_draft vm));
                   vm = vm\<lparr>vm_draft := (vm_draft vm)\<lparr>dr_body := editor\<rparr>\<rparr>
               in (ui_render True,
                   case e of None \<Rightarrow> vm
                   | Some err \<Rightarrow> show_error (if err = EdTooLong then ErrorInvalidBody else ErrorInvalidCharacter) vm, w)
         | KeyLeft \<Rightarrow> here (edit_draft editor_move_left vm)
         | KeyRight \<Rightarrow> here (edit_draft editor_move_right vm)
         | KeyBackspace \<Rightarrow> here (edit_draft editor_backspace vm)
         | KeyDelete \<Rightarrow> here (edit_draft editor_delete_forward vm)
         | KeyTab \<Rightarrow> (ui_render True, (refresh_peers (up_messenger up w) vm)\<lparr>vm_screen := ScreenMentions\<rparr>, w)
         | KeyEscape \<Rightarrow>
             (ui_render True,
              if draft_dirty (vm_draft vm) then show_modal ModalDiscard ConfirmDiscardMessage vm
              else close_compose (up_messenger up w) vm, w)
         | KeyEnter \<Rightarrow> send_draft up vm w
         | _ \<Rightarrow> (ui_nothing, vm, w))"

definition toggle_mention :: "install_id \<Rightarrow> view_model \<Rightarrow> ui_action \<times> view_model" where
  "toggle_mention peer vm =
     (let d = vm_draft vm
      in if peer \<in> set (dr_mentions d)
         then (ui_render True, vm\<lparr>vm_draft := d\<lparr>dr_mentions := erase_first (\<lambda>i. i = peer) (dr_mentions d)\<rparr>\<rparr>)
         else if length (dr_mentions d) \<ge> kMaxMentions then (ui_render True, show_error MentionLimitReached vm)
         else (ui_render True, vm\<lparr>vm_draft := d\<lparr>dr_mentions := dr_mentions d @ [peer]\<rparr>\<rparr>))"

definition handle_mentions :: "messenger_state \<Rightarrow> key_event \<Rightarrow> view_model \<Rightarrow> ui_action \<times> view_model" where
  "handle_mentions m ev vm =
     (let vm = refresh_peers m vm; k = ev_key ev
      in if k = KeyEscape \<or> k = KeyTab then (ui_render True, vm\<lparr>vm_screen := ScreenCompose\<rparr>)
         else if k = KeyUp \<and> vm_peer_cursor vm > 0 then (ui_render True, vm\<lparr>vm_peer_cursor := vm_peer_cursor vm - 1\<rparr>)
         else if k = KeyDown \<and> vm_peer_cursor vm + 1 < length (vm_peers vm)
         then (ui_render True, vm\<lparr>vm_peer_cursor := vm_peer_cursor vm + 1\<rparr>)
         else if k = KeyEnter \<and> vm_peer_cursor vm < length (vm_peers vm)
         then toggle_mention (vm_peers vm ! vm_peer_cursor vm) vm
         else (ui_nothing, vm))"

definition commit_locale :: "'w ui_ports \<Rightarrow> ui_locale \<Rightarrow> view_model \<Rightarrow> 'w \<Rightarrow> ui_action \<times> view_model \<times> 'w" where
  "commit_locale up candidate vm w =
     (case up_settings_commit up of
        None \<Rightarrow> (ui_render True, vm\<lparr>vm_locale := candidate\<rparr>, w)
      | Some (persist_locale, _) \<Rightarrow>
          (case persist_locale candidate w of
             (False, w) \<Rightarrow> (ui_render True, show_error ErrorPersistenceUnavailable vm, w)
           | (True, w) \<Rightarrow> (ui_render True, vm\<lparr>vm_locale := candidate\<rparr>, w)))"

definition commit_skip_title :: "'w ui_ports \<Rightarrow> bool \<Rightarrow> view_model \<Rightarrow> 'w \<Rightarrow> ui_action \<times> view_model \<times> 'w" where
  "commit_skip_title up candidate vm w =
     (case up_settings_commit up of
        None \<Rightarrow> (ui_render True, vm\<lparr>vm_skip_title := candidate\<rparr>, w)
      | Some (_, persist_skip_title) \<Rightarrow>
          (case persist_skip_title candidate w of
             (False, w) \<Rightarrow> (ui_render True, show_error ErrorPersistenceUnavailable vm, w)
           | (True, w) \<Rightarrow> (ui_render True, vm\<lparr>vm_skip_title := candidate\<rparr>, w)))"

definition leave_settings :: "messenger_state \<Rightarrow> view_model \<Rightarrow> view_model" where
  "leave_settings m vm =
     (if vm_settings_return vm = ScreenDetail \<and> find_opt m (vm_detail vm) \<noteq> None then vm\<lparr>vm_screen := ScreenDetail\<rparr>
      else vm\<lparr>vm_screen := (if vm_settings_return vm = ScreenSettings then ScreenTimeline else vm_settings_return vm)\<rparr>)"

definition handle_settings :: "'w ui_ports \<Rightarrow> key_event \<Rightarrow> view_model \<Rightarrow> 'w \<Rightarrow> ui_action \<times> view_model \<times> 'w" where
  "handle_settings up ev vm w =
     (let k = ev_key ev; current = locale_index (vm_locale vm)
      in if is_shortcut ev 0x64 then (ui_render True, show_delete_confirmation vm, w)
         else if k = KeyEscape then (ui_render True, leave_settings (up_messenger up w) vm, w)
         else if k = KeyUp \<or> k = KeyDown
         then (ui_render True,
               vm\<lparr>vm_settings_item := (if vm_settings_item vm = ItemLanguage then ItemSkipTitle else ItemLanguage)\<rparr>, w)
         else if vm_settings_item vm = ItemSkipTitle \<and> (k = KeyLeft \<or> k = KeyRight \<or> k = KeyEnter)
         then commit_skip_title up (\<not> vm_skip_title vm) vm w
         else if vm_settings_item vm = ItemLanguage \<and> k = KeyLeft
         then commit_locale up (kSupportedLocales ! ((current + kLocaleCount - 1) mod kLocaleCount)) vm w
         else if vm_settings_item vm = ItemLanguage \<and> (k = KeyRight \<or> k = KeyEnter)
         then commit_locale up (kSupportedLocales ! ((current + 1) mod kLocaleCount)) vm w
         else (ui_nothing, vm, w))"

definition handle :: "'w ui_ports \<Rightarrow> key_event \<Rightarrow> view_model \<Rightarrow> 'w \<Rightarrow> ui_action \<times> view_model \<times> 'w" where
  "handle up ev vm w =
     (let m = up_messenger up w; here = (\<lambda>(a, vm). (a, vm, w)); vm = reconcile_model m vm
      in if am_id (vm_modal vm) \<noteq> ModalNone then here (handle_modal m ev vm)
         else if ev_key ev = KeyHome then (ui_render True, show_exit_confirmation vm, w)
         else case handle_global_shortcut m ev vm of
           (a, vm) \<Rightarrow>
             if render_required a \<or> exit_approved a \<or> delete_data_approved a then (a, vm, w)
             else (case vm_screen vm of
                ScreenMenu \<Rightarrow> here (handle_menu ev vm)
              | ScreenTimeline \<Rightarrow> here (handle_timeline m ev vm)
              | ScreenDetail \<Rightarrow> here (handle_detail m ev vm)
              | ScreenCompose \<Rightarrow> handle_compose up ev vm w
              | ScreenMentions \<Rightarrow> here (handle_mentions m ev vm)
              | ScreenSettings \<Rightarrow> handle_settings up ev vm w))"

subsection \<open>Snapshots\<close>

record timeline_row_snapshot =
  row_message_id :: message_id
  row_sender :: bytes
  row_sender_suffix :: bytes
  row_body_preview :: bytes
  row_delivery :: delivery_badge
  row_show_sender_suffix :: bool
  row_is_reply :: bool
  row_mentions_me :: bool
  row_selected :: bool

record timeline_page =
  tp_rows :: "timeline_row_snapshot list"
  tp_total_rows :: nat
  tp_selected_message_id :: "message_id option"

type_synonym mention_label = "install_id \<times> bytes"

record detail_page =
  dp_message_id :: "message_id option"
  dp_sender :: bytes
  dp_sender_suffix :: bytes
  dp_body :: bytes
  dp_visible_body :: bytes
  dp_delivery :: delivery_badge
  dp_reply :: reply_availability
  dp_reply_preview :: bytes
  dp_mentions :: "mention_label list"
  dp_mentions_me :: bool
  dp_scroll_line :: nat
  dp_maximum_scroll_line :: nat

record compose_page =
  cp_body :: bytes
  cp_cursor_byte_offset :: nat
  cp_remaining_bytes :: nat
  cp_reply_to :: "message_id option"
  cp_mentions :: "mention_label list"
  cp_dirty :: bool

record mention_option =
  mo_install_id :: install_id
  mo_label :: bytes
  mo_selected :: bool
  mo_cursor :: bool

record mentions_page =
  mp_options :: "mention_option list"
  mp_total_options :: nat
  mp_selected_count :: nat

record settings_page =
  sp_user_id :: bytes
  sp_install_suffix :: bytes
  sp_locale_name :: bytes
  sp_session_notice :: bytes
  sp_radio_status :: bytes
  sp_skip_title :: bool
  sp_selected :: settings_item

datatype page_snapshot =
    MenuPage menu_item
  | TimelinePage timeline_page
  | DetailPage detail_page
  | ComposePage compose_page
  | MentionsPage mentions_page
  | SettingsPage settings_page

record modal_snapshot =
  mod_id :: modal_id
  mod_title :: bytes
  mod_message :: bytes
  mod_cancel_label :: bytes
  mod_confirm_label :: bytes
  mod_confirm_selected :: bool

record view_snapshot =
  vs_screen :: screen_id
  vs_locale :: ui_locale
  vs_radio_ready :: bool
  vs_transport_status :: transport_status
  vs_title :: bytes
  vs_footer :: bytes
  vs_page :: page_snapshot
  vs_modal :: modal_snapshot

definition peer_label :: "messenger_state \<Rightarrow> ui_locale \<Rightarrow> install_id \<Rightarrow> bytes" where
  "peer_label m loc i =
     (case List.find (\<lambda>index. case newest_at (ms_timeline m) index of None \<Rightarrow> False
                              | Some e \<Rightarrow> sender_id (entry_post e) = i) [0..<length (entries (ms_timeline m))] of
        Some index \<Rightarrow>
          user_id_value (sender_user_id (entry_post (the (newest_at (ms_timeline m) index)))) @ ascii '' #'' @ id_suffix i
      | None \<Rightarrow> translate loc BadgeUnknown @ ascii '' #'' @ id_suffix i)"

text \<open>\<^verbatim>\<open>identity && timeline().mentions(entry, identity->install_id())\<close>.\<close>

definition mentions_own :: "messenger_state \<Rightarrow> timeline_entry \<Rightarrow> bool" where
  "mentions_own m e = (case own_id m of None \<Rightarrow> False | Some i \<Rightarrow> entry_mentions e i)"

text \<open>Another device of the history has the same user name.\<close>

definition duplicate_name :: "messenger_state \<Rightarrow> timeline_entry \<Rightarrow> bool" where
  "duplicate_name m e \<longleftrightarrow>
     list_ex (\<lambda>candidate. sender_id (entry_post candidate) \<noteq> sender_id (entry_post e) \<and>
       user_id_value (sender_user_id (entry_post candidate)) = user_id_value (sender_user_id (entry_post e)))
       (entries (ms_timeline m))"

definition timeline_row :: "messenger_state \<Rightarrow> message_id option \<Rightarrow> timeline_entry \<Rightarrow> timeline_row_snapshot" where
  "timeline_row m selected e =
     \<lparr>row_message_id = entry_id e, row_sender = user_id_value (sender_user_id (entry_post e)),
      row_sender_suffix = id_suffix (sender_id (entry_post e)),
      row_body_preview = truncated_utf8 (post_body_value (body (entry_post e))) kTimelinePreviewBytes,
      row_delivery = delivery_badge_of (origin e), row_show_sender_suffix = duplicate_name m e,
      row_is_reply = (reply_to (entry_post e) \<noteq> None), row_mentions_me = mentions_own m e,
      row_selected = (selected = Some (entry_id e))\<rparr>"

text \<open>The first row of a window of \<open>visible\<close> rows over \<open>count\<close> that starts at the cursor or ends at the last row.\<close>

definition window_first :: "nat \<Rightarrow> nat \<Rightarrow> nat \<Rightarrow> nat" where
  "window_first visible count cursor =
     (if cursor + visible > count then (if count > visible then count - visible else 0) else cursor)"

definition timeline_page_of :: "messenger_state \<Rightarrow> view_model \<Rightarrow> timeline_page" where
  "timeline_page_of m vm =
     (let total = length (entries (ms_timeline m))
      in if total = 0 then \<lparr>tp_rows = [], tp_total_rows = 0, tp_selected_message_id = vm_selected vm\<rparr>
         else
           let selected_index = (case Option.bind (vm_selected vm) (newest_index m) of None \<Rightarrow> 0 | Some i \<Rightarrow> i);
               first = window_first kVisibleTimelineRows total selected_index;
               last = min total (first + kVisibleTimelineRows)
           in \<lparr>tp_rows = map (timeline_row m (vm_selected vm))
                           (List.map_filter (newest_at (ms_timeline m)) [first..<last]),
               tp_total_rows = total, tp_selected_message_id = vm_selected vm\<rparr>)"

definition detail_page_empty :: detail_page where
  "detail_page_empty =
     \<lparr>dp_message_id = None, dp_sender = [], dp_sender_suffix = [], dp_body = [], dp_visible_body = [],
      dp_delivery = BadgeShowsUnknown, dp_reply = ReplyNone, dp_reply_preview = [], dp_mentions = [],
      dp_mentions_me = False, dp_scroll_line = 0, dp_maximum_scroll_line = 0\<rparr>"

definition detail_reply :: "messenger_state \<Rightarrow> ui_locale \<Rightarrow> timeline_entry \<Rightarrow> reply_availability \<times> bytes" where
  "detail_reply m loc e =
     (case reply_state_of (ms_timeline m) e of
        NotReply \<Rightarrow> (ReplyNone, [])
      | ParentAvailable \<Rightarrow>
          (ReplyAvailable,
           case find_opt m (reply_to (entry_post e)) of
             Some parent \<Rightarrow> truncated_utf8 (post_body_value (body (entry_post parent))) kTimelinePreviewBytes
           | None \<Rightarrow> [])
      | ParentUnavailable \<Rightarrow> (ReplyUnavailable, translate loc ReplyOriginalUnavailable))"

definition detail_page_of :: "messenger_state \<Rightarrow> view_model \<Rightarrow> detail_page" where
  "detail_page_of m vm =
     (case find_opt m (vm_detail vm) of
        None \<Rightarrow> detail_page_empty
      | Some e \<Rightarrow>
          let text_body = post_body_value (body (entry_post e));
              wrapped = wrap_detail_body text_body;
              scroll = min (vm_detail_scroll vm) (wb_maximum_scroll_line wrapped);
              (reply, preview) = detail_reply m (vm_locale vm) e
          in \<lparr>dp_message_id = Some (entry_id e), dp_sender = user_id_value (sender_user_id (entry_post e)),
              dp_sender_suffix = id_suffix (sender_id (entry_post e)), dp_body = text_body,
              dp_visible_body = detail_window wrapped scroll, dp_delivery = delivery_badge_of (origin e),
              dp_reply = reply, dp_reply_preview = preview,
              dp_mentions = map (\<lambda>i. (i, peer_label m (vm_locale vm) i)) (mentions (entry_post e)),
              dp_mentions_me = mentions_own m e, dp_scroll_line = scroll,
              dp_maximum_scroll_line = wb_maximum_scroll_line wrapped\<rparr>)"

definition compose_page_of :: "messenger_state \<Rightarrow> view_model \<Rightarrow> compose_page" where
  "compose_page_of m vm =
     (let d = vm_draft vm
      in \<lparr>cp_body = ed_text (dr_body d), cp_cursor_byte_offset = ed_cursor (dr_body d),
          cp_remaining_bytes = remaining_bytes (dr_body d), cp_reply_to = dr_reply_to d,
          cp_mentions = map (\<lambda>i. (i, peer_label m (vm_locale vm) i)) (dr_mentions d), cp_dirty = draft_dirty d\<rparr>)"

definition mentions_page_of :: "messenger_state \<Rightarrow> view_model \<Rightarrow> mentions_page \<times> view_model" where
  "mentions_page_of m vm =
     (let vm = refresh_peers m vm; total = length (vm_peers vm); chosen = dr_mentions (vm_draft vm)
      in if vm_peers vm = [] then (\<lparr>mp_options = [], mp_total_options = 0, mp_selected_count = length chosen\<rparr>, vm)
         else
           let first = window_first kVisibleMentionRows total (vm_peer_cursor vm);
               last = min total (first + kVisibleMentionRows)
           in (\<lparr>mp_options = map (\<lambda>index.
                    \<lparr>mo_install_id = vm_peers vm ! index, mo_label = peer_label m (vm_locale vm) (vm_peers vm ! index),
                     mo_selected = (vm_peers vm ! index \<in> set chosen), mo_cursor = (index = vm_peer_cursor vm)\<rparr>)
                  [first..<last],
                mp_total_options = total, mp_selected_count = length chosen\<rparr>, vm))"

definition settings_page_of :: "messenger_state \<Rightarrow> view_model \<Rightarrow> settings_page" where
  "settings_page_of m vm =
     \<lparr>sp_user_id = (case ms_identity m of None \<Rightarrow> [] | Some i \<Rightarrow> user_id_value (identity_user_id i)),
      sp_install_suffix = (case ms_identity m of None \<Rightarrow> [] | Some i \<Rightarrow> id_suffix (identity_install_id i)),
      sp_locale_name = locale_display_name (vm_locale vm),
      sp_session_notice = translate (vm_locale vm) SettingsSavedLocally,
      sp_radio_status = translate (vm_locale vm)
        (if vm_transport_status vm = TransportWifiLan then LanReadyNoDelivery
         else if vm_radio_ready vm then RadioReadyNoDelivery else RadioNoDelivery),
      sp_skip_title = vm_skip_title vm, sp_selected = vm_settings_item vm\<rparr>"

text \<open>The title and the labels of each dialog.\<close>

fun modal_labels :: "modal_id \<Rightarrow> string_id \<times> (string_id \<times> string_id) option" where
  "modal_labels ModalStatus = (StatusTitle, None)"
| "modal_labels ModalError = (ErrorTitle, None)"
| "modal_labels ModalDiscard = (ConfirmDiscardTitle, Some (ButtonCancel, ButtonDiscard))"
| "modal_labels ModalExit = (ConfirmExitTitle, Some (ButtonCancel, ButtonExit))"
| "modal_labels ModalDeleteData = (ConfirmDeleteTitle, Some (ButtonCancel, ButtonDelete))"
| "modal_labels ModalRecovery = (RecoveryTitle, Some (ButtonExit, ButtonDelete))"
| "modal_labels ModalNone = (UnknownError, None)"

definition modal_snapshot_of :: "view_model \<Rightarrow> modal_snapshot" where
  "modal_snapshot_of vm =
     (let modal = vm_modal vm; tr = translate (vm_locale vm); (title, buttons) = modal_labels (am_id modal)
      in if am_id modal = ModalNone
         then \<lparr>mod_id = ModalNone, mod_title = [], mod_message = [], mod_cancel_label = [], mod_confirm_label = [],
               mod_confirm_selected = am_confirm_selected modal\<rparr>
         else \<lparr>mod_id = am_id modal, mod_title = tr title, mod_message = tr (am_message modal),
               mod_cancel_label = (case buttons of None \<Rightarrow> [] | Some (cancel, _) \<Rightarrow> tr cancel),
               mod_confirm_label = (case buttons of None \<Rightarrow> [] | Some (_, confirm) \<Rightarrow> tr confirm),
               mod_confirm_selected = am_confirm_selected modal\<rparr>)"

definition snapshot :: "messenger_state \<Rightarrow> view_model \<Rightarrow> view_snapshot \<times> view_model" where
  "snapshot m vm =
     (let vm = reconcile_model m vm;
          (page, vm') = (case vm_screen vm of
             ScreenMenu \<Rightarrow> (MenuPage (vm_menu_item vm), vm)
           | ScreenTimeline \<Rightarrow> (TimelinePage (timeline_page_of m vm), vm)
           | ScreenDetail \<Rightarrow> (DetailPage (detail_page_of m vm), vm)
           | ScreenCompose \<Rightarrow> (ComposePage (compose_page_of m vm), vm)
           | ScreenMentions \<Rightarrow> (let (page, vm') = mentions_page_of m vm in (MentionsPage page, vm'))
           | ScreenSettings \<Rightarrow> (SettingsPage (settings_page_of m vm), vm))
      in (\<lparr>vs_screen = vm_screen vm, vs_locale = vm_locale vm, vs_radio_ready = vm_radio_ready vm,
           vs_transport_status = vm_transport_status vm, vs_title = translate (vm_locale vm) (screen_title (vm_screen vm)),
           vs_footer = translate (vm_locale vm) (screen_footer (vm_screen vm)), vs_page = page,
           vs_modal = modal_snapshot_of vm'\<rparr>, vm'))"

end
