(* ===== verification/View_Model_Laws.thy ===== *)
theory View_Model_Laws
  imports View_Model
begin

text \<open>
  The laws of the view model: the invariant \<open>vm_ok\<close> and that every handler keeps it, what the dialogs approve,
  that a draft is never lost, and what a snapshot shows. What the view model needs of the owner of the
  messenger is the locale \<open>messenger_owner\<close>.
\<close>

section \<open>Invariant\<close>

text \<open>The draft is valid text of the right size with its cursor between code points; its mentions are distinct, at
  most four, valid and not the device's own id.\<close>

definition editor_ok :: "text_editor \<Rightarrow> bool" where
  "editor_ok e \<longleftrightarrow>
     ed_maximum_bytes e = kMaxPostBodyBytes \<and> (\<exists>l r. editor_view e l r \<and> list_all is_editable_scalar (l @ r))"

definition draft_ok :: "install_id option \<Rightarrow> draft \<Rightarrow> bool" where
  "draft_ok own d \<longleftrightarrow>
     editor_ok (dr_body d) \<and> distinct (dr_mentions d) \<and> length (dr_mentions d) \<le> kMaxMentions \<and>
     list_all (\<lambda>i. uuid_ok (install_uuid i) \<and> own \<noteq> Some i) (dr_mentions d)"

definition vm_ok :: "install_id option \<Rightarrow> view_model \<Rightarrow> bool" where
  "vm_ok own vm \<longleftrightarrow>
     draft_ok own (vm_draft vm) \<and> vm_locale vm \<noteq> LocaleCount \<and>
     vm_compose_return vm \<in> {ScreenTimeline, ScreenDetail, ScreenSettings} \<and>
     vm_settings_return vm \<in> {ScreenMenu, ScreenTimeline, ScreenDetail} \<and>
     (draft_dirty (vm_draft vm) \<longrightarrow> vm_screen vm \<in> {ScreenCompose, ScreenMentions}) \<and>
     (am_confirm_selected (vm_modal vm) \<longrightarrow> is_confirmation (am_id (vm_modal vm))) \<and>
     (am_id (vm_modal vm) = ModalDiscard \<longrightarrow> vm_screen vm = ScreenCompose) \<and>
     (am_id (vm_modal vm) = ModalDeleteData \<longrightarrow> vm_screen vm = ScreenSettings) \<and>
     list_all (\<lambda>i. uuid_ok (install_uuid i) \<and> own \<noteq> Some i) (vm_peers vm) \<and> distinct (vm_peers vm) \<and>
     (vm_peer_cursor vm = 0 \<or> vm_peer_cursor vm < length (vm_peers vm))"

section \<open>Lemmas\<close>

subsection \<open>The draft\<close>

lemma editor_ok_new: "editor_ok (editor_new kMaxPostBodyBytes)"
  by (simp add: editor_ok_def editor_new_def editor_view_def exI [of _ "[]"])

lemma editor_ok_clear: "editor_ok e \<Longrightarrow> editor_ok (editor_clear e)"
  by (auto simp: editor_ok_def editor_clear_def editor_view_def intro!: exI [of _ "[]"])

lemma editor_ok_insert:
  assumes "editor_ok e" "is_editable_scalar c"
  shows "editor_ok (snd (editor_insert c e))"
proof -
  obtain l r where v: "editor_view e l r" "list_all is_editable_scalar (l @ r)" "ed_maximum_bytes e = kMaxPostBodyBytes"
    using assms by (auto simp: editor_ok_def)
  obtain x e' where x: "editor_insert c e = (x, e')" by fastforce
  have m: "ed_maximum_bytes e' = ed_maximum_bytes e" using x by (auto simp: editor_insert_def Let_def split: if_splits)
  show ?thesis
  proof (cases x)
    case None
    then have "editor_view e' (l @ [c]) r" using insert_view [OF v(1), of c] x by simp
    then show ?thesis using v m x assms(2) unfolding editor_ok_def
      by (intro conjI exI [of _ "l @ [c]"] exI [of _ r]) simp_all
  next
    case (Some err)
    then show ?thesis using insert_view [OF v(1), of c] x assms(1) by simp
  qed
qed

text \<open>A move or deletion keeps the code points of the text, or drops one.\<close>

lemma editor_ok_edit:
  assumes "editor_ok e" "f \<in> {editor_move_left, editor_move_right, editor_backspace, editor_delete_forward}"
  shows "editor_ok (snd (f e))"
proof -
  obtain l r where v: "editor_view e l r" "list_all is_editable_scalar (l @ r)" "ed_maximum_bytes e = kMaxPostBodyBytes"
    using assms by (auto simp: editor_ok_def)
  have m: "ed_maximum_bytes (snd (f e)) = kMaxPostBodyBytes" using assms(2) v(3)
    by (auto simp: editor_move_left_def editor_move_right_def editor_backspace_def editor_delete_forward_def Let_def)
  have "\<exists>l r. editor_view (snd (f e)) l r \<and> list_all is_editable_scalar (l @ r)"
  proof (cases "f \<in> {editor_move_left, editor_backspace}")
    case True
    show ?thesis
    proof (cases l rule: rev_cases)
      case Nil
      then have "snd (f e) = e" using True view_ends(1) [OF v(1)] by (auto simp: editor_move_left_def editor_backspace_def)
      then show ?thesis using v by auto
    next
      case (snoc l' x)
      with v(1) have "editor_view e (l' @ [x]) r" by simp
      note left = left_view [OF this]
      show ?thesis
      proof (cases "f = editor_move_left")
        case True
        then show ?thesis using left(1,2) v(2) snoc by (intro exI [of _ l'] exI [of _ "x # r"]) simp
      next
        case False
        then show ?thesis using left(4) v(2) snoc \<open>f \<in> {editor_move_left, editor_backspace}\<close>
          by (intro exI [of _ l'] exI [of _ r]) simp
      qed
    qed
  next
    case False
    then have f: "f = editor_move_right \<or> f = editor_delete_forward" using assms(2) by auto
    show ?thesis
    proof (cases r)
      case Nil
      then have "snd (f e) = e" using f view_ends(2) [OF v(1)] by (auto simp: editor_move_right_def editor_delete_forward_def)
      then show ?thesis using v by auto
    next
      case (Cons x r')
      with v(1) have "editor_view e l (x # r')" by simp
      note right = right_view [OF this]
      show ?thesis
      proof (cases "f = editor_move_right")
        case True
        then show ?thesis using right(1,2) v(2) Cons by (intro exI [of _ "l @ [x]"] exI [of _ r']) simp
      next
        case False
        then show ?thesis using right(4) v(2) Cons f by (intro exI [of _ l] exI [of _ r']) simp
      qed
    qed
  qed
  then show ?thesis using m by (simp add: editor_ok_def)
qed

lemma draft_ok_new: "draft_ok own draft_new"
  by (simp add: draft_ok_def draft_new_def editor_ok_new del: kMaxPostBodyBytes_def)

lemma draft_ok_reset: "draft_ok own d \<Longrightarrow> draft_ok own (draft_reset d)"
  by (simp add: draft_ok_def draft_reset_def editor_ok_clear)

lemma draft_reset_clean [simp]: "\<not> draft_dirty (draft_reset d)" "\<not> draft_dirty (draft_reset d\<lparr>dr_reply_to := r\<rparr>)"
  by (simp_all add: draft_dirty_def draft_reset_def editor_clear_def)

lemma draft_new_clean [simp]: "\<not> draft_dirty draft_new"
  by (simp add: draft_dirty_def draft_new_def editor_new_def)

lemma draft_ok_reply [simp]: "draft_ok own (d\<lparr>dr_reply_to := r\<rparr>) = draft_ok own d"
  by (simp add: draft_ok_def)

lemma draft_ok_body: "draft_ok own d \<Longrightarrow> editor_ok e \<Longrightarrow> draft_ok own (d\<lparr>dr_body := e\<rparr>)"
  by (simp add: draft_ok_def)

lemma erase_first_distinct: "distinct xs \<Longrightarrow> distinct (erase_first P xs)"
  by (induction xs) (auto dest: erase_first_in)

lemma draft_ok_unmention: "draft_ok own d \<Longrightarrow> draft_ok own (d\<lparr>dr_mentions := erase_first P (dr_mentions d)\<rparr>)"
proof -
  assume d: "draft_ok own d"
  have "length (erase_first P xs) \<le> length xs" for xs :: "install_id list" by (induction xs) auto
  from this [of "dr_mentions d"] show ?thesis using d
    by (auto simp: draft_ok_def erase_first_distinct list_all_iff dest: erase_first_in)
qed

lemma draft_ok_mention:
  "draft_ok own d \<Longrightarrow> i \<notin> set (dr_mentions d) \<Longrightarrow> length (dr_mentions d) < kMaxMentions \<Longrightarrow> uuid_ok (install_uuid i) \<Longrightarrow>
     own \<noteq> Some i \<Longrightarrow> draft_ok own (d\<lparr>dr_mentions := dr_mentions d @ [i]\<rparr>)"
  by (auto simp: draft_ok_def)

subsection \<open>Peers\<close>

definition peers_ok :: "messenger_state \<Rightarrow> install_id list \<Rightarrow> bool" where
  "peers_ok m ps \<longleftrightarrow> distinct ps \<and> list_all (\<lambda>i. uuid_ok (install_uuid i) \<and> own_id m \<noteq> Some i) ps"

lemma add_peer_ok: "peers_ok m ps \<Longrightarrow> uuid_ok (install_uuid i) \<Longrightarrow> peers_ok m (add_peer m i ps)"
  by (auto simp: peers_ok_def add_peer_def)

lemma fold_peers_ok:
  "(\<And>x ps. x \<in> set xs \<Longrightarrow> peers_ok m ps \<Longrightarrow> peers_ok m (f x ps)) \<Longrightarrow> peers_ok m ps \<Longrightarrow> peers_ok m (fold f xs ps)"
  by (induction xs arbitrary: ps) auto

lemma newest_at_rev: "newest_at t i = (if i < length (entries t) then Some (rev (entries t) ! i) else None)"
  by (auto simp: newest_at_def rev_nth)

lemma map_filter_all: "(\<And>x. x \<in> set xs \<Longrightarrow> f x = Some (g x)) \<Longrightarrow> List.map_filter f xs = map g xs"
  by (induction xs) (simp_all add: map_filter_simps)

lemma newest_window:
  "j \<le> length (entries t) \<Longrightarrow> List.map_filter (newest_at t) [i..<j] = take (j - i) (drop i (rev (entries t)))"
proof -
  assume j: "j \<le> length (entries t)"
  have "List.map_filter (newest_at t) [i..<j] = map (\<lambda>k. rev (entries t) ! k) [i..<j]"
    using j by (intro map_filter_all) (simp add: newest_at_rev)
  also have "\<dots> = take (j - i) (drop i (rev (entries t)))"
    by (rule nth_equalityI) (use j in auto)
  finally show ?thesis .
qed

lemma newest_at_in: "newest_at t i = Some e \<Longrightarrow> e \<in> set (entries t)"
  by (auto simp: newest_at_def split: if_splits)

lemma messenger_ok_entry:
  "messenger_ok m \<Longrightarrow> e \<in> set (entries (ms_timeline m)) \<Longrightarrow> post_ok (entry_post e)"
  by (auto simp: messenger_ok_def timeline_posts_ok_def list_all_iff)

lemma post_ok_sender: "post_ok p \<Longrightarrow> uuid_ok (install_uuid (sender_id p))"
  by (auto simp: post_ok_def)

lemma collect_peers_ok:
  assumes "messenger_ok m" "list_all (\<lambda>i. uuid_ok (install_uuid i)) selected"
  shows "peers_ok m (collect_peers m selected)"
proof -
  have "peers_ok m []" by (simp add: peers_ok_def)
  then have p: "peers_ok m (fold (\<lambda>index peers.
      case newest_at (ms_timeline m) index of None \<Rightarrow> peers | Some e \<Rightarrow> add_peer m (sender_id (entry_post e)) peers)
      [0..<length (entries (ms_timeline m))] [])"
    by (intro fold_peers_ok)
      (auto intro!: add_peer_ok post_ok_sender dest: newest_at_in messenger_ok_entry [OF assms(1)] split: option.splits)
  show ?thesis unfolding collect_peers_def
    by (rule fold_peers_ok [OF _ p]) (use assms(2) in \<open>auto simp: list_all_iff intro: add_peer_ok\<close>)
qed

lemma fold_add_peer_mem: "set (fold (add_peer m) xs ps) = set ps \<union> {i \<in> set xs. own_id m \<noteq> Some i}"
  by (induction xs arbitrary: ps) (auto simp: add_peer_def)

text \<open>The list of peers offers every sender of the history and every chosen mention, except the device itself.\<close>

lemma collect_peers_set:
  "set (collect_peers m selected) =
     {i. i \<in> (\<lambda>e. sender_id (entry_post e)) ` set (entries (ms_timeline m)) \<union> set selected \<and> own_id m \<noteq> Some i}"
proof -
  have "fold (\<lambda>index peers.
      case newest_at (ms_timeline m) index of None \<Rightarrow> peers | Some e \<Rightarrow> add_peer m (sender_id (entry_post e)) peers) is ps =
      fold (add_peer m) (map (\<lambda>e. sender_id (entry_post e)) (List.map_filter (newest_at (ms_timeline m)) is)) ps" for "is" ps
    by (induction "is" arbitrary: ps) (auto simp: map_filter_simps split: option.splits)
  moreover have "set (List.map_filter (newest_at t) [0..<length (entries t)]) = set (entries t)" for t
    by (simp add: newest_window)
  ultimately show ?thesis by (auto simp: collect_peers_def fold_add_peer_mem)
qed

subsection \<open>Every operation keeps the invariant\<close>

lemma draft_mentions_ok: "draft_ok own d \<Longrightarrow> list_all (\<lambda>i. uuid_ok (install_uuid i)) (dr_mentions d)"
  by (auto simp: draft_ok_def list_all_iff)

lemma refresh_peers_fields [simp]:
  "vm_draft (refresh_peers m vm) = vm_draft vm" "vm_screen (refresh_peers m vm) = vm_screen vm"
  "vm_modal (refresh_peers m vm) = vm_modal vm" "vm_selected (refresh_peers m vm) = vm_selected vm"
  "vm_detail (refresh_peers m vm) = vm_detail vm" "vm_locale (refresh_peers m vm) = vm_locale vm"
  "vm_compose_return (refresh_peers m vm) = vm_compose_return vm"
  "vm_settings_return (refresh_peers m vm) = vm_settings_return vm"
  "vm_peers (refresh_peers m vm) = collect_peers m (dr_mentions (vm_draft vm))"
  by (simp_all add: refresh_peers_def Let_def)

lemma refresh_peers_cursor:
  "vm_peer_cursor (refresh_peers m vm) = 0 \<or> vm_peer_cursor (refresh_peers m vm) < length (vm_peers (refresh_peers m vm))"
  by (auto simp: refresh_peers_def Let_def split: option.splits)

lemma refresh_peers_ok: "messenger_ok m \<Longrightarrow> vm_ok (own_id m) vm \<Longrightarrow> vm_ok (own_id m) (refresh_peers m vm)"
proof -
  assume m: "messenger_ok m" and vm: "vm_ok (own_id m) vm"
  then have "draft_ok (own_id m) (vm_draft vm)" by (simp add: vm_ok_def)
  then have "peers_ok m (vm_peers (refresh_peers m vm))"
    using collect_peers_ok [OF m draft_mentions_ok] by simp
  then show ?thesis using vm refresh_peers_cursor [of m vm] unfolding vm_ok_def peers_ok_def
    by (simp only: refresh_peers_fields) simp
qed

lemma show_modal_ok:
  "vm_ok own vm \<Longrightarrow> i \<noteq> ModalDiscard \<or> vm_screen vm = ScreenCompose \<Longrightarrow>
     i \<noteq> ModalDeleteData \<or> vm_screen vm = ScreenSettings \<Longrightarrow> vm_ok own (show_modal i message vm)"
  by (simp add: vm_ok_def show_modal_def)

lemmas modal_defs = show_status_def show_error_def show_command_error_def show_exit_confirmation_def
  show_delete_confirmation_def report_storage_failure_def

lemma clear_modal_ok: "vm_ok own vm \<Longrightarrow> vm_ok own (clear_modal vm)"
  by (simp add: vm_ok_def clear_modal_def modal_none_def)

lemma ensure_selection_ok [simp]: "vm_ok own (ensure_timeline_selection m vm) = vm_ok own vm"
  by (simp add: ensure_timeline_selection_def vm_ok_def)

lemma ensure_selection_fields [simp]:
  "vm_draft (ensure_timeline_selection m vm) = vm_draft vm" "vm_screen (ensure_timeline_selection m vm) = vm_screen vm"
  "vm_modal (ensure_timeline_selection m vm) = vm_modal vm" "vm_detail (ensure_timeline_selection m vm) = vm_detail vm"
  "vm_locale (ensure_timeline_selection m vm) = vm_locale vm" "vm_peers (ensure_timeline_selection m vm) = vm_peers vm"
  "vm_detail_scroll (ensure_timeline_selection m vm) = vm_detail_scroll vm"
  "vm_radio_ready (ensure_timeline_selection m vm) = vm_radio_ready vm"
  "vm_transport_status (ensure_timeline_selection m vm) = vm_transport_status vm"
  by (simp_all add: ensure_timeline_selection_def)

lemma reconcile_model_ok:
  assumes "messenger_ok m" "vm_ok (own_id m) vm"
  shows "vm_ok (own_id m) (reconcile_model m vm)"
proof -
  define vm1 where "vm1 = ensure_timeline_selection m vm"
  have v: "vm_ok (own_id m) vm1" using assms by (simp add: vm1_def)
  have d: "vm_ok (own_id m) (vm1\<lparr>vm_detail := None, vm_detail_scroll := 0, vm_screen := ScreenTimeline\<rparr>)"
    if "vm_screen vm1 = ScreenDetail" using v that by (auto simp: vm_ok_def)
  show ?thesis unfolding reconcile_model_def Let_def vm1_def [symmetric]
    using v d assms(1) by (auto intro!: refresh_peers_ok show_modal_ok simp: modal_defs)
qed

lemma view_model_new_ok: "vm_ok (own_id m) (view_model_new m loc recovery skip)"
proof -
  have "vm_ok (own_id m) \<lparr>vm_locale = (if locale_index loc < kLocaleCount then loc else LocaleEnglish), vm_radio_ready = False,
      vm_transport_status = TransportOffline, vm_screen = start, vm_compose_return = ScreenTimeline,
      vm_settings_return = start, vm_modal = modal_none, vm_selected = None, vm_detail = None, vm_detail_scroll = 0,
      vm_draft = draft_new, vm_peers = [], vm_peer_cursor = 0, vm_menu_item = MenuItemTalk,
      vm_settings_item = ItemLanguage, vm_skip_title = skip\<rparr>"
    if "start = ScreenTimeline \<or> start = ScreenMenu" for start
    using locale_index_less [of loc] that by (auto simp: vm_ok_def draft_ok_new modal_none_def)
  then show ?thesis by (simp add: view_model_new_def Let_def show_modal_ok)
qed

lemma close_compose_ok: "vm_ok own vm \<Longrightarrow> am_id (vm_modal vm) = ModalNone \<Longrightarrow> vm_ok own (close_compose m vm)"
  by (auto simp: vm_ok_def close_compose_def Let_def draft_ok_reset)

lemma open_compose_ok:
  assumes "vm_ok (own_id m) vm" "am_id (vm_modal vm) = ModalNone" "ret \<in> {ScreenTimeline, ScreenDetail, ScreenSettings}"
    "\<And>i. mention = Some i \<Longrightarrow> uuid_ok (install_uuid i)"
  shows "vm_ok (own_id m) (open_compose m reply mention ret vm)"
proof -
  define d where "d = (draft_reset (vm_draft vm))\<lparr>dr_reply_to := reply\<rparr>"
  have d: "draft_ok (own_id m) d" using assms(1) by (simp add: d_def vm_ok_def draft_ok_reset)
  moreover have "dr_mentions d = []" by (simp add: d_def draft_reset_def)
  ultimately have "draft_ok (own_id m) (case mention of Some i \<Rightarrow> if own_id m \<noteq> Some i then d\<lparr>dr_mentions := dr_mentions d @ [i]\<rparr> else d | None \<Rightarrow> d)"
    using assms(4) draft_ok_mention [of "own_id m" d] by (auto split: option.split)
  then show ?thesis using assms(1-3) unfolding open_compose_def Let_def d_def [symmetric] by (auto simp: vm_ok_def)
qed

lemma find_opt_post_ok: "messenger_ok m \<Longrightarrow> find_opt m i = Some e \<Longrightarrow> post_ok (entry_post e)"
  by (auto simp: find_opt_def timeline_find_def find_Some_iff split: option.splits intro: messenger_ok_entry)

lemma handle_modal_ok:
  assumes "vm_ok (own_id m) vm" "handle_modal m ev vm = (a, vm')"
  shows "vm_ok (own_id m) vm'"
proof -
  have sel: "vm_ok (own_id m) (vm\<lparr>vm_modal := (vm_modal vm)\<lparr>am_confirm_selected := b\<rparr>\<rparr>)"
    if "is_confirmation (am_id (vm_modal vm))" for b
    using assms(1) that by (simp add: vm_ok_def)
  have cl: "vm_ok (own_id m) (close_compose m (clear_modal vm))"
    by (rule close_compose_ok [OF clear_modal_ok [OF assms(1)]]) (simp add: clear_modal_def modal_none_def)
  show ?thesis using assms sel cl clear_modal_ok [OF assms(1)] show_modal_ok [OF assms(1), of ModalExit]
    unfolding handle_modal_def Let_def show_exit_confirmation_def by (auto split: if_splits)
qed

lemma handle_shortcut_ok:
  assumes "messenger_ok m" "vm_ok (own_id m) vm" "am_id (vm_modal vm) = ModalNone" "handle_global_shortcut m ev vm = (a, vm')"
  shows "vm_ok (own_id m) vm'"
proof -
  have settings: "vm_ok (own_id m) (vm\<lparr>vm_settings_return := r, vm_screen := ScreenSettings, vm_settings_item := ItemLanguage\<rparr>)"
    if "r \<in> {ScreenMenu, ScreenTimeline, ScreenDetail}" "vm_screen vm \<notin> {ScreenCompose, ScreenMentions}" for r
    using assms(2,3) that by (auto simp: vm_ok_def)
  have compose: "vm_ok (own_id m) (open_compose m reply mention (vm_screen vm) vm)"
    if "vm_screen vm \<notin> {ScreenCompose, ScreenMentions, ScreenMenu}" "\<And>i. mention = Some i \<Longrightarrow> uuid_ok (install_uuid i)" for reply mention
    using assms(2,3) that by (intro open_compose_ok) (cases "vm_screen vm"; auto)+
  have target: "uuid_ok (install_uuid i)" if "map_option (\<lambda>e. sender_id (entry_post e)) (find_opt m t) = Some i" for t i
    using that find_opt_post_ok [OF assms(1), of t] by (auto intro: post_ok_sender)
  have plain: "vm_ok (own_id m) (open_compose m reply None (vm_screen vm) vm)"
    and mention: "vm_ok (own_id m) (open_compose m None (map_option (\<lambda>e. sender_id (entry_post e)) (find_opt m t)) (vm_screen vm) vm)"
    if "vm_screen vm \<notin> {ScreenCompose, ScreenMentions, ScreenMenu}" for reply t
    using compose [OF that] target by blast+
  show ?thesis using assms(2,4) settings plain mention
    unfolding handle_global_shortcut_def Let_def by (cases "vm_screen vm") (auto split: if_splits)
qed

lemma handle_menu_ok:
  assumes "vm_ok own vm" "vm_screen vm = ScreenMenu" "am_id (vm_modal vm) = ModalNone" "handle_menu ev vm = (a, vm')"
  shows "vm_ok own vm'"
proof -
  have "vm_ok own (vm\<lparr>vm_menu_item := i\<rparr>)" "vm_ok own (vm\<lparr>vm_screen := ScreenTimeline\<rparr>)"
    "vm_ok own (vm\<lparr>vm_settings_return := ScreenMenu, vm_settings_item := ItemLanguage, vm_screen := ScreenSettings\<rparr>)" for i
    using assms(1-3) by (simp_all add: vm_ok_def)
  then show ?thesis using assms(1,4) by (auto simp: handle_menu_def split: if_splits)
qed

lemma vm_ok_selected [simp]: "vm_ok own (vm\<lparr>vm_selected := x\<rparr>) = vm_ok own vm"
  by (simp add: vm_ok_def)

lemma handle_timeline_ok:
  assumes "vm_ok own vm" "vm_screen vm = ScreenTimeline" "am_id (vm_modal vm) = ModalNone" "handle_timeline m ev vm = (a, vm')"
  shows "vm_ok own vm'"
proof -
  have "vm_ok own (open_detail m vm)" "vm_ok own (vm\<lparr>vm_screen := ScreenMenu\<rparr>)"
    using assms(1-3) by (auto simp: open_detail_def vm_ok_def)
  then show ?thesis using assms(1,4) by (auto simp: handle_timeline_def Let_def split: if_splits option.splits)
qed

lemma handle_detail_ok:
  assumes "vm_ok own vm" "vm_screen vm = ScreenDetail" "am_id (vm_modal vm) = ModalNone" "handle_detail m ev vm = (a, vm')"
  shows "vm_ok own vm'"
proof -
  have "vm_ok own (vm\<lparr>vm_screen := ScreenTimeline, vm_detail_scroll := 0\<rparr>)" "vm_ok own (vm\<lparr>vm_detail_scroll := n\<rparr>)" for n
    using assms(1-3) by (auto simp: vm_ok_def)
  then show ?thesis using assms(1,4) by (auto simp: handle_detail_def Let_def split: if_splits)
qed

lemma toggle_mention_ok:
  assumes "vm_ok own vm" "uuid_ok (install_uuid p)" "own \<noteq> Some p" "vm_screen vm = ScreenMentions" "toggle_mention p vm = (a, vm')"
    "am_id (vm_modal vm) = ModalNone"
  shows "vm_ok own vm'"
proof -
  have d: "draft_ok own (vm_draft vm)" using assms(1) by (simp add: vm_ok_def)
  have upd: "vm_ok own (vm\<lparr>vm_draft := x\<rparr>)" if "draft_ok own x" for x
    using assms(1,4,6) that by (auto simp: vm_ok_def)
  have "vm_ok own (show_error MentionLimitReached vm)" unfolding show_error_def using assms(1) by (intro show_modal_ok) simp_all
  then show ?thesis using assms(2,3,5) upd [OF draft_ok_unmention [OF d]] upd [OF draft_ok_mention [OF d]]
    unfolding toggle_mention_def Let_def by (auto split: if_splits)
qed

lemma handle_mentions_ok:
  assumes "messenger_ok m" "vm_ok (own_id m) vm" "vm_screen vm = ScreenMentions" "am_id (vm_modal vm) = ModalNone"
    "handle_mentions m ev vm = (a, vm')"
  shows "vm_ok (own_id m) vm'"
proof -
  define v where "v = refresh_peers m vm"
  have v: "vm_ok (own_id m) v" "vm_screen v = ScreenMentions" "am_id (vm_modal v) = ModalNone"
    using refresh_peers_ok [OF assms(1,2)] assms(3,4) by (simp_all add: v_def)
  have cur: "vm_ok (own_id m) (v\<lparr>vm_peer_cursor := n\<rparr>)" if "n = 0 \<or> n < length (vm_peers v)" for n
    using v that by (simp add: vm_ok_def)
  have scr: "vm_ok (own_id m) (v\<lparr>vm_screen := ScreenCompose\<rparr>)" using v by (auto simp: vm_ok_def)
  have peer: "uuid_ok (install_uuid (vm_peers v ! k)) \<and> own_id m \<noteq> Some (vm_peers v ! k)" if "k < length (vm_peers v)" for k
    using v that by (auto simp: vm_ok_def list_all_length)
  have c: "vm_peer_cursor v = 0 \<or> vm_peer_cursor v < length (vm_peers v)" using v(1) by (simp add: vm_ok_def)
  have toggle: "vm_ok (own_id m) vm'" if "toggle_mention (vm_peers v ! k) v = (a, vm')" "k < length (vm_peers v)" for k
    using toggle_mention_ok [OF v(1) _ _ v(2) that(1) v(3)] peer [OF that(2)] by blast
  have up: "vm_ok (own_id m) (v\<lparr>vm_peer_cursor := vm_peer_cursor v - 1\<rparr>)" by (rule cur) (use c in linarith)
  show ?thesis using assms(5) v up cur [of "vm_peer_cursor v + 1"] scr toggle
    unfolding handle_mentions_def v_def [symmetric] Let_def by (auto split: if_splits)
qed

lemma settings_handlers_ok:
  assumes "vm_ok own vm" "vm_screen vm = ScreenSettings" "am_id (vm_modal vm) = ModalNone"
  shows "commit_locale up l vm w = (a, vm', w') \<Longrightarrow> l \<noteq> LocaleCount \<Longrightarrow> vm_ok own vm'"
    "commit_skip_title up b vm w = (a, vm', w') \<Longrightarrow> vm_ok own vm'"
    "vm_ok own (leave_settings m vm)" "vm_ok own (show_delete_confirmation vm)" "vm_ok own (vm\<lparr>vm_settings_item := i\<rparr>)"
proof -
  have e: "vm_ok own (show_error s vm)" for s unfolding show_error_def using assms by (intro show_modal_ok) simp_all
  have l: "vm_ok own (vm\<lparr>vm_locale := x\<rparr>)" if "x \<noteq> LocaleCount" for x using assms that by (simp add: vm_ok_def)
  have s: "vm_ok own (vm\<lparr>vm_skip_title := x\<rparr>)" for x using assms by (simp add: vm_ok_def)
  show "vm_ok own vm'" if "commit_locale up l vm w = (a, vm', w')" "l \<noteq> LocaleCount"
    using that e l by (auto simp: commit_locale_def split: option.splits prod.splits bool.splits)
  show "vm_ok own vm'" if "commit_skip_title up b vm w = (a, vm', w')"
    using that e s by (auto simp: commit_skip_title_def split: option.splits prod.splits bool.splits)
  show "vm_ok own (leave_settings m vm)" using assms by (auto simp: leave_settings_def vm_ok_def)
  show "vm_ok own (show_delete_confirmation vm)" unfolding show_delete_confirmation_def
    using assms by (intro show_modal_ok) simp_all
  show "vm_ok own (vm\<lparr>vm_settings_item := i\<rparr>)" using assms by (simp add: vm_ok_def)
qed

subsection \<open>Composing\<close>

definition composed_entry :: "post_draft \<Rightarrow> messenger_state \<Rightarrow> timeline_entry \<Rightarrow> bool" where
  "composed_entry d m e \<longleftrightarrow>
     origin e = LocalDelivery Queued \<and> post_body_value (body (entry_post e)) = draft_body d \<and>
     mentions (entry_post e) = draft_mentions d \<and> reply_to (entry_post e) = draft_reply_to d \<and>
     own_id m = Some (sender_id (entry_post e)) \<and> timeline_find (ms_timeline m) (entry_id e) = None"

lemma compose_summary:
  assumes "messenger_ok m" "ports_wf ports" "command_wf (Compose d)" "compose ports d m = (r, m', calls)"
  shows "own_id m' = own_id m" "cr_error r \<noteq> None \<Longrightarrow> ms_timeline m' = ms_timeline m"
    "cr_error r = None \<Longrightarrow> \<exists>e. composed_entry d m e \<and> cr_message_id r = Some (entry_id e) \<and>
       newest_at (ms_timeline m') 0 = Some e \<and> timeline_find (ms_timeline m') (entry_id e) = Some e"
proof -
  have "own_id m' = own_id m \<and> (cr_error r \<noteq> None \<longrightarrow> ms_timeline m' = ms_timeline m) \<and>
    (cr_error r = None \<longrightarrow> (\<exists>e. composed_entry d m e \<and> cr_message_id r = Some (entry_id e) \<and>
       newest_at (ms_timeline m') 0 = Some e \<and> timeline_find (ms_timeline m') (entry_id e) = Some e))"
  proof (rule compose_outcome [OF assms])
    fix i n mid inserted t
    assume ad: "compose_admits ports d m i n mid" and e: "insert_error inserted = None"
      and ins: "insert_local (ms_timeline m) (composed_post i n mid d (port_clock ports)) Queued = (inserted, t)"
      and commit: "compose_commit ports (i\<lparr>last_issued_sender_sequence := n\<rparr>) t inserted mid m = (r, m', calls)"
    let ?p = "composed_post i n mid d (port_clock ports)"
    let ?e = "stamped (ms_timeline m) ?p (LocalDelivery Queued)"
    have id: "ms_identity m = Some i" "timeline_find (ms_timeline m) mid = None" using ad by (auto simp: compose_admits_def)
    have t: "entries t = kept_entries (ms_timeline m) (draft_reply_to d) @ [?e]"
      using admitted_insert [OF ad assms(1), of "port_clock ports"] ins by auto
    have find: "timeline_find t mid = Some ?e"
      using find_after_insert [OF messenger_okD(2) [OF assms(1)] ins [unfolded insert_local_def] e, of mid] by simp
    have new: "newest_at t 0 = Some ?e" using t by (simp add: newest_at_def nth_append)
    have ce: "composed_entry d m ?e" using id by (simp add: composed_entry_def stamped_def composed_post_def own_id_def)
    have mid: "entry_id ?e = mid" by (simp add: stamped_def)
    show ?thesis
      by (cases rule: compose_commit_outcome [OF commit])
        (use e id find new ce mid in \<open>auto simp: own_id_def intro!: exI [of _ ?e]\<close>)
  qed (use assms in auto)
  then show "own_id m' = own_id m" "cr_error r \<noteq> None \<Longrightarrow> ms_timeline m' = ms_timeline m"
    "cr_error r = None \<Longrightarrow> \<exists>e. composed_entry d m e \<and> cr_message_id r = Some (entry_id e) \<and>
       newest_at (ms_timeline m') 0 = Some e \<and> timeline_find (ms_timeline m') (entry_id e) = Some e"
    by blast+
qed

section \<open>The owner of the messenger\<close>

text \<open>What the view model relies on: the owner keeps its messenger well-formed, the compose port runs the
  command \<open>compose\<close>, and the settings port leaves the messenger alone. \<open>'i\<close> are the answers of the
  environment during one event, and \<open>io_ok\<close> says that they have the types of the source.\<close>

locale messenger_owner =
  fixes up :: "'i \<Rightarrow> 'w ui_ports"
    and io_ok :: "'i \<Rightarrow> bool"
    and owner_ok :: "'w \<Rightarrow> bool"
    and msg :: "'w \<Rightarrow> messenger_state"
  assumes messenger_of: "up_messenger (up io) = msg"
    and owner_messenger: "owner_ok w \<Longrightarrow> messenger_ok (msg w)"
    and compose_law: "io_ok io \<Longrightarrow> owner_ok w \<Longrightarrow> command_wf (Compose d) \<Longrightarrow> up_compose (up io) d w = (r, w') \<Longrightarrow>
      owner_ok w' \<and> (\<exists>ports calls. ports_wf ports \<and> compose ports d (msg w) = (r, msg w', calls))"
    and settings_law: "owner_ok w \<Longrightarrow> up_settings_commit (up io) = Some (pl, ps) \<Longrightarrow>
      pl l w = (ok, w') \<or> ps b w = (ok, w') \<Longrightarrow> owner_ok w' \<and> msg w' = msg w"
begin

lemma compose_effect_owner:
  assumes io: "io_ok io" and "owner_ok w" "draft_ok (own_id (msg w)) (vm_draft vm)"
    "up_compose (up io) (post_draft_of (vm_draft vm)) w = (r, w')"
  shows "owner_ok w'" "own_id (msg w') = own_id (msg w)" "cr_error r \<noteq> None \<Longrightarrow> ms_timeline (msg w') = ms_timeline (msg w)"
    "cr_error r = None \<Longrightarrow> \<exists>e. composed_entry (post_draft_of (vm_draft vm)) (msg w) e \<and> cr_message_id r = Some (entry_id e) \<and>
       newest_at (ms_timeline (msg w')) 0 = Some e \<and> timeline_find (ms_timeline (msg w')) (entry_id e) = Some e"
proof -
  have wf: "command_wf (Compose (post_draft_of (vm_draft vm)))"
    using draft_mentions_ok [OF assms(3)] by (simp add: post_draft_of_def)
  obtain ports calls where c: "ports_wf ports" "compose ports (post_draft_of (vm_draft vm)) (msg w) = (r, msg w', calls)"
    and ok: "owner_ok w'" using compose_law [OF io assms(2) wf assms(4)] by blast
  note s = compose_summary [OF owner_messenger [OF assms(2)] c(1) wf c(2)]
  show "owner_ok w'" by (rule ok)
  show "own_id (msg w') = own_id (msg w)" by (rule s(1))
  show "cr_error r \<noteq> None \<Longrightarrow> ms_timeline (msg w') = ms_timeline (msg w)" by (rule s(2))
  show "cr_error r = None \<Longrightarrow> \<exists>e. composed_entry (post_draft_of (vm_draft vm)) (msg w) e \<and> cr_message_id r = Some (entry_id e) \<and>
       newest_at (ms_timeline (msg w')) 0 = Some e \<and> timeline_find (ms_timeline (msg w')) (entry_id e) = Some e"
    by (rule s(3))
qed

lemma send_draft_ok:
  assumes io: "io_ok io" and w: "owner_ok w" and vm: "vm_ok (own_id (msg w)) vm" "vm_screen vm = ScreenCompose" "am_id (vm_modal vm) = ModalNone"
    and run: "send_draft (up io) vm w = (a, vm', w')"
  shows "owner_ok w' \<and> own_id (msg w') = own_id (msg w) \<and> vm_ok (own_id (msg w')) vm'"
proof -
  obtain r w1 where r: "up_compose (up io) (post_draft_of (vm_draft vm)) w = (r, w1)" by fastforce
  have d: "draft_ok (own_id (msg w)) (vm_draft vm)" using vm by (simp add: vm_ok_def)
  note e = compose_effect_owner [OF io w d r]
  have err: "vm_ok (own_id (msg w)) (show_command_error x vm)" for x
    unfolding modal_defs using vm by (intro show_modal_ok) simp_all
  have sent: "vm_ok (own_id (msg w)) (vm\<lparr>vm_selected := i, vm_detail := None, vm_detail_scroll := 0,
      vm_draft := draft_reset (vm_draft vm), vm_screen := ScreenTimeline\<rparr>)" for i
    using vm draft_ok_reset [OF d] by (auto simp: vm_ok_def)
  show ?thesis using run r e(1,2) err sent unfolding send_draft_def Let_def
    by (auto simp: show_status_def intro!: show_modal_ok split: if_splits)
qed

lemma handle_compose_ok:
  assumes io: "io_ok io" and w: "owner_ok w" and vm: "vm_ok (own_id (msg w)) vm" "vm_screen vm = ScreenCompose" "am_id (vm_modal vm) = ModalNone"
    and run: "handle_compose (up io) ev vm w = (a, vm', w')"
  shows "owner_ok w' \<and> own_id (msg w') = own_id (msg w) \<and> vm_ok (own_id (msg w')) vm'"
proof -
  have d: "draft_ok (own_id (msg w)) (vm_draft vm)" "editor_ok (dr_body (vm_draft vm))" using vm by (simp_all add: vm_ok_def draft_ok_def)
  have body: "vm_ok (own_id (msg w)) (vm\<lparr>vm_draft := (vm_draft vm)\<lparr>dr_body := e\<rparr>\<rparr>)" if "editor_ok e" for e
    using vm draft_ok_body [OF d(1) that] by (simp add: vm_ok_def)
  have edit: "vm_ok (own_id (msg w)) (snd (edit_draft f vm))"
    if "f \<in> {editor_move_left, editor_move_right, editor_backspace, editor_delete_forward}" for f
    using body [OF editor_ok_edit [OF d(2) that]] by (simp add: edit_draft_def case_prod_beta)
  have err: "vm_ok (own_id (msg w)) (show_error x v)" if "vm_ok (own_id (msg w)) v" for x v
    unfolding show_error_def using that by (intro show_modal_ok) simp_all
  have peers: "vm_ok (own_id (msg w)) ((refresh_peers (msg w) vm)\<lparr>vm_screen := ScreenMentions\<rparr>)"
    using refresh_peers_ok [OF owner_messenger [OF w] vm(1)] vm(3) by (auto simp: vm_ok_def)
  show ?thesis
  proof (cases "ev_key ev")
    case KeyCharacter
    obtain x e where x: "editor_insert (ev_character ev) (dr_body (vm_draft vm)) = (x, e)" by fastforce
    have "vm_ok (own_id (msg w)) (vm\<lparr>vm_draft := (vm_draft vm)\<lparr>dr_body := e\<rparr>\<rparr>)" if "is_editable_scalar (ev_character ev)"
      using body editor_ok_insert [OF d(2) that] x by simp
    then show ?thesis using run w err [OF vm(1)] err KeyCharacter x
      by (auto simp: handle_compose_def Let_def split: if_splits option.splits)
  next
    case KeyEnter
    then have "send_draft (up io) vm w = (a, vm', w')" using run by (simp add: handle_compose_def Let_def)
    then show ?thesis by (rule send_draft_ok [OF io w vm])
  next
    case KeyEscape
    then show ?thesis using run w vm show_modal_ok [OF vm(1), of ModalDiscard] close_compose_ok [OF vm(1,3)]
      by (auto simp: handle_compose_def Let_def messenger_of split: if_splits)
  qed (use run w vm edit peers in \<open>auto simp: handle_compose_def Let_def messenger_of case_prod_beta\<close>)
qed

lemma handle_settings_ok:
  assumes io: "io_ok io" and w: "owner_ok w" and vm: "vm_ok (own_id (msg w)) vm" "vm_screen vm = ScreenSettings" "am_id (vm_modal vm) = ModalNone"
    and run: "handle_settings (up io) ev vm w = (a, vm', w')"
  shows "owner_ok w' \<and> own_id (msg w') = own_id (msg w) \<and> vm_ok (own_id (msg w')) vm'"
proof -
  note ok = settings_handlers_ok [OF vm]
  have supported: "kSupportedLocales ! (n mod kLocaleCount) \<noteq> LocaleCount" for n
  proof -
    have "n mod kLocaleCount < length kSupportedLocales" by (simp add: kLocaleCount_def kSupportedLocales_def)
    then have "kSupportedLocales ! (n mod kLocaleCount) \<in> set kSupportedLocales" by (rule nth_mem)
    then show ?thesis by (auto simp: kSupportedLocales_def)
  qed
  have loc: "owner_ok w' \<and> msg w' = msg w" if "commit_locale (up io) l vm w = (a, vm', w')" for l
    using that w settings_law [OF w, of io _ _ l] by (auto simp: commit_locale_def split: option.splits prod.splits bool.splits)
  have skip: "owner_ok w' \<and> msg w' = msg w" if "commit_skip_title (up io) b vm w = (a, vm', w')" for b
    using that w settings_law [OF w, of io _ _ _ _ _ b] by (auto simp: commit_skip_title_def split: option.splits prod.splits bool.splits)
  show ?thesis using run w vm(1) ok(3-5) ok(1) [OF _ supported] ok(2) loc skip
    unfolding handle_settings_def Let_def messenger_of by (auto split: if_splits)
qed

text \<open>A key event keeps the invariants of the view model and of the owner.\<close>

lemma handle_ok:
  assumes io: "io_ok io" and w: "owner_ok w" and vm: "vm_ok (own_id (msg w)) vm" and run: "handle (up io) ev vm w = (a, vm', w')"
  shows "owner_ok w' \<and> own_id (msg w') = own_id (msg w) \<and> vm_ok (own_id (msg w')) vm'"
proof -
  define v where "v = reconcile_model (msg w) vm"
  have m: "messenger_ok (msg w)" by (rule owner_messenger [OF w])
  have v: "vm_ok (own_id (msg w)) v" unfolding v_def by (rule reconcile_model_ok [OF m vm])
  obtain b u where s: "handle_global_shortcut (msg w) ev v = (b, u)" by fastforce
  have modal: "vm_ok (own_id (msg w)) (snd (handle_modal (msg w) ev v))"
    using handle_modal_ok [OF v] by (metis prod.collapse)
  have exit: "vm_ok (own_id (msg w)) (show_exit_confirmation v)" unfolding show_exit_confirmation_def
    using v by (intro show_modal_ok) simp_all
  show ?thesis
  proof (cases "am_id (vm_modal v) = ModalNone \<and> ev_key ev \<noteq> KeyHome")
    case False
    then show ?thesis using run w modal exit unfolding handle_def Let_def messenger_of v_def [symmetric]
      by (auto simp: case_prod_beta split: if_splits)
  next
    case True
    then have none: "am_id (vm_modal v) = ModalNone" by blast
    have u: "vm_ok (own_id (msg w)) u" by (rule handle_shortcut_ok [OF m v none s])
    show ?thesis
    proof (cases "render_required b \<or> exit_approved b \<or> delete_data_approved b")
      case True
      then show ?thesis using run w u s none \<open>am_id (vm_modal v) = ModalNone \<and> ev_key ev \<noteq> KeyHome\<close>
        unfolding handle_def Let_def messenger_of v_def [symmetric] by simp
    next
      case False
      then have un: "am_id (vm_modal u) = ModalNone" using s none
        by (auto simp: handle_global_shortcut_def Let_def ui_render_def ui_nothing_def split: if_splits)
      have r: "(case vm_screen u of
           ScreenMenu \<Rightarrow> (\<lambda>(a, vm). (a, vm, w)) (handle_menu ev u)
         | ScreenTimeline \<Rightarrow> (\<lambda>(a, vm). (a, vm, w)) (handle_timeline (msg w) ev u)
         | ScreenDetail \<Rightarrow> (\<lambda>(a, vm). (a, vm, w)) (handle_detail (msg w) ev u)
         | ScreenCompose \<Rightarrow> handle_compose (up io) ev u w
         | ScreenMentions \<Rightarrow> (\<lambda>(a, vm). (a, vm, w)) (handle_mentions (msg w) ev u)
         | ScreenSettings \<Rightarrow> handle_settings (up io) ev u w) = (a, vm', w')"
        using run s False none \<open>am_id (vm_modal v) = ModalNone \<and> ev_key ev \<noteq> KeyHome\<close>
        unfolding handle_def Let_def messenger_of v_def [symmetric] by simp
      show ?thesis
      proof (cases "vm_screen u")
        case ScreenCompose
        then have "handle_compose (up io) ev u w = (a, vm', w')" using r by simp
        then show ?thesis by (rule handle_compose_ok [OF io w u ScreenCompose un])
      next
        case ScreenSettings
        then have "handle_settings (up io) ev u w = (a, vm', w')" using r by simp
        then show ?thesis by (rule handle_settings_ok [OF io w u ScreenSettings un])
      qed (use r w in \<open>auto split: prod.splits dest: handle_menu_ok [OF u _ un]
          handle_timeline_ok [OF u _ un] handle_detail_ok [OF u _ un] handle_mentions_ok [OF m u _ un]\<close>)
    qed
  qed
qed

end

section \<open>Dialogs\<close>

lemma ui_action_simps [simp]:
  "render_required (ui_render b) = b" "\<not> exit_approved (ui_render b)" "\<not> delete_data_approved (ui_render b)"
  "\<not> render_required ui_nothing" "\<not> exit_approved ui_nothing" "\<not> delete_data_approved ui_nothing"
  "exit_approved ui_exit" "\<not> delete_data_approved ui_exit" "\<not> exit_approved ui_delete" "delete_data_approved ui_delete"
  "\<not> render_required ui_exit" "\<not> render_required ui_delete"
  by (simp_all add: ui_render_def ui_nothing_def ui_exit_def ui_delete_def)

text \<open>Every handler but that of the dialogs asks at most for a redraw.\<close>

definition only_renders :: "ui_action \<Rightarrow> bool" where
  "only_renders a \<longleftrightarrow> \<not> exit_approved a \<and> \<not> delete_data_approved a"

lemma only_renders_simps [simp]: "only_renders (ui_render b)" "only_renders ui_nothing"
  by (simp_all add: only_renders_def)

lemma handlers_only_render:
  "only_renders (fst (handle_global_shortcut m ev vm))" "only_renders (fst (handle_menu ev vm))"
  "only_renders (fst (handle_timeline m ev vm))" "only_renders (fst (handle_detail m ev vm))"
  "only_renders (fst (handle_mentions m ev vm))" "only_renders (fst (handle_compose up ev vm w))"
  "only_renders (fst (handle_settings up ev vm w))"
proof -
  show "only_renders (fst (handle_global_shortcut m ev vm))" by (simp add: handle_global_shortcut_def Let_def)
  show "only_renders (fst (handle_menu ev vm))" by (simp add: handle_menu_def)
  show "only_renders (fst (handle_timeline m ev vm))" by (simp add: handle_timeline_def Let_def split: option.split)
  show "only_renders (fst (handle_detail m ev vm))" by (simp add: handle_detail_def Let_def)
  show "only_renders (fst (handle_mentions m ev vm))" by (simp add: handle_mentions_def Let_def toggle_mention_def)
  show "only_renders (fst (handle_compose up ev vm w))"
    by (cases "ev_key ev") (simp_all add: handle_compose_def Let_def edit_draft_def send_draft_def case_prod_beta)
  show "only_renders (fst (handle_settings up ev vm w))"
    by (simp add: handle_settings_def Let_def commit_locale_def commit_skip_title_def case_prod_beta split: option.split bool.split)
qed

text \<open>The parts of \<open>handle\<close>: a dialog is shown, the exit dialog opens, or the screen handles the key.\<close>

lemma handle_parts:
  assumes "handle up ev vm w = (a, vm', w')"
  obtains (dialog) "am_id (vm_modal (reconcile_model (up_messenger up w) vm)) \<noteq> ModalNone" "w' = w"
      "handle_modal (up_messenger up w) ev (reconcile_model (up_messenger up w) vm) = (a, vm')"
  | (home) "am_id (vm_modal (reconcile_model (up_messenger up w) vm)) = ModalNone" "ev_key ev = KeyHome" "w' = w"
      "a = ui_render True" "vm' = show_exit_confirmation (reconcile_model (up_messenger up w) vm)"
  | (shortcut) "am_id (vm_modal (reconcile_model (up_messenger up w) vm)) = ModalNone" "ev_key ev \<noteq> KeyHome" "w' = w"
      "handle_global_shortcut (up_messenger up w) ev (reconcile_model (up_messenger up w) vm) = (a, vm')" "render_required a"
  | (screen) "am_id (vm_modal (reconcile_model (up_messenger up w) vm)) = ModalNone" "ev_key ev \<noteq> KeyHome"
      "(case vm_screen (reconcile_model (up_messenger up w) vm) of
           ScreenMenu \<Rightarrow> (\<lambda>(a, vm). (a, vm, w)) (handle_menu ev (reconcile_model (up_messenger up w) vm))
         | ScreenTimeline \<Rightarrow> (\<lambda>(a, vm). (a, vm, w)) (handle_timeline (up_messenger up w) ev (reconcile_model (up_messenger up w) vm))
         | ScreenDetail \<Rightarrow> (\<lambda>(a, vm). (a, vm, w)) (handle_detail (up_messenger up w) ev (reconcile_model (up_messenger up w) vm))
         | ScreenCompose \<Rightarrow> handle_compose up ev (reconcile_model (up_messenger up w) vm) w
         | ScreenMentions \<Rightarrow> (\<lambda>(a, vm). (a, vm, w)) (handle_mentions (up_messenger up w) ev (reconcile_model (up_messenger up w) vm))
         | ScreenSettings \<Rightarrow> handle_settings up ev (reconcile_model (up_messenger up w) vm) w) = (a, vm', w')"
proof -
  define v where "v = reconcile_model (up_messenger up w) vm"
  note run = assms [unfolded handle_def Let_def v_def [symmetric]]
  obtain b u where s: "handle_global_shortcut (up_messenger up w) ev v = (b, u)" by fastforce
  have b: "only_renders b" using handlers_only_render(1) [of "up_messenger up w" ev v] s by simp
  have u: "u = v" if "\<not> render_required b" using s that
    by (auto simp: handle_global_shortcut_def Let_def split: if_splits)
  consider "am_id (vm_modal v) \<noteq> ModalNone" | "am_id (vm_modal v) = ModalNone" "ev_key ev = KeyHome"
    | "am_id (vm_modal v) = ModalNone" "ev_key ev \<noteq> KeyHome" "render_required b"
    | "am_id (vm_modal v) = ModalNone" "ev_key ev \<noteq> KeyHome" "\<not> render_required b" by blast
  then show ?thesis
  proof cases
    case 1
    then show ?thesis using run by (intro dialog) (simp_all add: v_def split: prod.splits)
  next
    case 2
    then show ?thesis using run by (intro home) (auto simp: v_def)
  next
    case 3
    then show ?thesis using run s by (intro shortcut) (simp_all add: v_def)
  next
    case 4
    then show ?thesis using run s u b by (intro screen) (simp_all add: v_def only_renders_def)
  qed
qed

lemma reconcile_modal:
  "vm_modal (reconcile_model m vm) = vm_modal vm \<or>
   am_id (vm_modal vm) = ModalNone \<and> am_id (vm_modal (reconcile_model m vm)) = ModalStatus \<and>
     \<not> am_confirm_selected (vm_modal (reconcile_model m vm))"
  by (simp add: reconcile_model_def Let_def show_status_def show_modal_def)

lemma reconcile_draft [simp]: "vm_draft (reconcile_model m vm) = vm_draft vm"
  by (simp add: reconcile_model_def Let_def show_status_def show_modal_def)

lemma reconcile_screen:
  "vm_screen (reconcile_model m vm) =
     (if vm_screen vm = ScreenDetail \<and> find_opt m (vm_detail vm) = None then ScreenTimeline else vm_screen vm)"
  by (auto simp: reconcile_model_def Let_def show_status_def show_modal_def)

text \<open>Deleting the data and leaving the program are approved only by the dialogs that ask for them.\<close>

lemma handle_approvals:
  assumes "handle up ev vm w = (a, vm', w')"
  shows "delete_data_approved a \<longleftrightarrow>
      am_id (vm_modal vm) \<in> {ModalDeleteData, ModalRecovery} \<and> am_confirm_selected (vm_modal vm) \<and> ev_key ev = KeyEnter"
    "exit_approved a \<longleftrightarrow>
      am_id (vm_modal vm) = ModalExit \<and> am_confirm_selected (vm_modal vm) \<and> ev_key ev = KeyEnter \<or>
      am_id (vm_modal vm) = ModalRecovery \<and>
        (ev_key ev = KeyEscape \<or> ev_key ev = KeyEnter \<and> \<not> am_confirm_selected (vm_modal vm))"
proof -
  let ?v = "reconcile_model (up_messenger up w) vm"
  have "(delete_data_approved a \<longleftrightarrow>
      am_id (vm_modal ?v) \<in> {ModalDeleteData, ModalRecovery} \<and> am_confirm_selected (vm_modal ?v) \<and> ev_key ev = KeyEnter) \<and>
    (exit_approved a \<longleftrightarrow>
      am_id (vm_modal ?v) = ModalExit \<and> am_confirm_selected (vm_modal ?v) \<and> ev_key ev = KeyEnter \<or>
      am_id (vm_modal ?v) = ModalRecovery \<and>
        (ev_key ev = KeyEscape \<or> ev_key ev = KeyEnter \<and> \<not> am_confirm_selected (vm_modal ?v)))"
    using assms
  proof (cases rule: handle_parts)
    case dialog
    then show ?thesis
      by (cases "am_id (vm_modal ?v)") (auto simp: handle_modal_def Let_def is_confirmation_def split: if_splits)
  next
    case shortcut
    then show ?thesis using handlers_only_render(1) [of "up_messenger up w" ev ?v] by (simp add: only_renders_def)
  next
    case screen
    have "only_renders a"
      using screen(3) handlers_only_render(2) [of ev ?v] handlers_only_render(3-5) [of "up_messenger up w" ev ?v]
        handlers_only_render(6,7) [of up ev ?v w]
      by (cases "vm_screen ?v") (auto split: prod.splits)
    then show ?thesis using screen(1) by (simp add: only_renders_def)
  qed simp
  then show "delete_data_approved a \<longleftrightarrow>
      am_id (vm_modal vm) \<in> {ModalDeleteData, ModalRecovery} \<and> am_confirm_selected (vm_modal vm) \<and> ev_key ev = KeyEnter"
    "exit_approved a \<longleftrightarrow>
      am_id (vm_modal vm) = ModalExit \<and> am_confirm_selected (vm_modal vm) \<and> ev_key ev = KeyEnter \<or>
      am_id (vm_modal vm) = ModalRecovery \<and>
        (ev_key ev = KeyEscape \<or> ev_key ev = KeyEnter \<and> \<not> am_confirm_selected (vm_modal vm))"
    using reconcile_modal [of "up_messenger up w" vm] by auto
qed

text \<open>How a dialog comes up and how its choice changes.\<close>

lemma handlers_modal:
  "am_id (vm_modal vm) = ModalNone \<Longrightarrow> i \<in> {ModalDeleteData, ModalRecovery} \<Longrightarrow>
     am_id (vm_modal (snd (handle_global_shortcut m ev vm))) \<noteq> i \<and> am_id (vm_modal (snd (handle_menu ev vm))) \<noteq> i \<and>
     am_id (vm_modal (snd (handle_timeline m ev vm))) \<noteq> i \<and> am_id (vm_modal (snd (handle_detail m ev vm))) \<noteq> i \<and>
     am_id (vm_modal (snd (handle_mentions m ev vm))) \<noteq> i \<and> am_id (vm_modal (fst (snd (handle_compose up ev vm w)))) \<noteq> i"
proof (intro conjI)
  assume n: "am_id (vm_modal vm) = ModalNone" and i: "i \<in> {ModalDeleteData, ModalRecovery}"
  note s = modal_defs show_modal_def Let_def
  show "am_id (vm_modal (snd (handle_global_shortcut m ev vm))) \<noteq> i"
    using n i by (auto simp: handle_global_shortcut_def open_compose_def s)
  show "am_id (vm_modal (snd (handle_menu ev vm))) \<noteq> i" using n i by (auto simp: handle_menu_def)
  show "am_id (vm_modal (snd (handle_timeline m ev vm))) \<noteq> i"
    using n i by (auto simp: handle_timeline_def open_detail_def s split: option.split)
  show "am_id (vm_modal (snd (handle_detail m ev vm))) \<noteq> i" using n i by (auto simp: handle_detail_def s)
  show "am_id (vm_modal (snd (handle_mentions m ev vm))) \<noteq> i"
    using n i by (auto simp: handle_mentions_def toggle_mention_def s)
  show "am_id (vm_modal (fst (snd (handle_compose up ev vm w)))) \<noteq> i"
    using n i by (cases "ev_key ev")
      (auto simp: handle_compose_def send_draft_def edit_draft_def close_compose_def s case_prod_beta split: option.split)
qed

lemma settings_modal:
  "am_id (vm_modal vm) = ModalNone \<Longrightarrow> am_id (vm_modal (fst (snd (handle_settings up ev vm w)))) \<noteq> ModalRecovery"
  "am_id (vm_modal vm) = ModalNone \<Longrightarrow> am_id (vm_modal (fst (snd (handle_settings up ev vm w)))) = ModalDeleteData \<Longrightarrow>
     is_shortcut ev 0x64 \<and> \<not> am_confirm_selected (vm_modal (fst (snd (handle_settings up ev vm w))))"
  by (auto simp: handle_settings_def commit_locale_def commit_skip_title_def leave_settings_def modal_defs show_modal_def
      Let_def case_prod_beta split: if_splits option.splits bool.splits)

definition chosen_by :: "key_event \<Rightarrow> bool \<Rightarrow> bool" where
  "chosen_by ev c = (if ev_key ev = KeyRight then True else if ev_key ev = KeyLeft then False else c)"

lemma handle_dialog:
  assumes "handle up ev vm w = (a, vm', w')" "am_id (vm_modal vm') \<in> {ModalDeleteData, ModalRecovery}"
  shows "am_id (vm_modal vm) = am_id (vm_modal vm') \<and>
      (ev_key ev \<notin> {KeyEscape, KeyEnter} \<or> exit_approved a) \<and> (ev_key ev = KeyHome \<longrightarrow> am_id (vm_modal vm') = ModalRecovery) \<and>
      am_confirm_selected (vm_modal vm') = chosen_by ev (am_confirm_selected (vm_modal vm)) \<or>
    am_id (vm_modal vm) = ModalNone \<and> am_id (vm_modal vm') = ModalDeleteData \<and> is_shortcut ev 0x64 \<and>
      \<not> am_confirm_selected (vm_modal vm')"
proof -
  let ?v = "reconcile_model (up_messenger up w) vm"
  have none: "am_id (vm_modal vm) = ModalNone" if "am_id (vm_modal ?v) = ModalNone"
    using that reconcile_modal [of "up_messenger up w" vm] by auto
  show ?thesis using assms(1)
  proof (cases rule: handle_parts)
    case dialog
    have "vm_modal ?v = vm_modal vm" if "am_id (vm_modal ?v) \<noteq> ModalStatus"
      using that reconcile_modal [of "up_messenger up w" vm] by auto
    moreover have "am_id (vm_modal ?v) \<noteq> ModalStatus"
      using dialog assms(2) by (auto simp: handle_modal_def Let_def clear_modal_def modal_none_def show_exit_confirmation_def show_modal_def split: if_splits)
    ultimately have v: "vm_modal ?v = vm_modal vm" by blast
    show ?thesis using dialog(1,3) assms(2) unfolding v
      by (auto simp: handle_modal_def Let_def v chosen_by_def is_confirmation_def clear_modal_def modal_none_def
          show_exit_confirmation_def show_modal_def close_compose_def split: if_splits)
  next
    case home
    then show ?thesis using assms(2) by (simp add: show_exit_confirmation_def show_modal_def)
  next
    case shortcut
    then show ?thesis using handlers_modal [OF shortcut(1) assms(2), of "up_messenger up w" ev] by simp
  next
    case screen
    note n = handlers_modal [OF screen(1) assms(2), of "up_messenger up w" ev up w]
    show ?thesis using screen(3) n settings_modal [OF screen(1), of up ev w] none [OF screen(1)] assms(2)
      by (cases "vm_screen ?v") (auto split: prod.splits)
  qed
qed

section \<open>Drafts\<close>

text \<open>What one key can do to a draft that is kept: edit its text, or add or remove one mention.\<close>

definition draft_step :: "key_event \<Rightarrow> draft \<Rightarrow> draft \<Rightarrow> bool" where
  "draft_step ev d d' \<longleftrightarrow>
     d' = d \<or>
     ev_key ev = KeyCharacter \<and> d' = d\<lparr>dr_body := snd (editor_insert (ev_character ev) (dr_body d))\<rparr> \<or>
     ev_key ev = KeyLeft \<and> d' = d\<lparr>dr_body := snd (editor_move_left (dr_body d))\<rparr> \<or>
     ev_key ev = KeyRight \<and> d' = d\<lparr>dr_body := snd (editor_move_right (dr_body d))\<rparr> \<or>
     ev_key ev = KeyBackspace \<and> d' = d\<lparr>dr_body := snd (editor_backspace (dr_body d))\<rparr> \<or>
     ev_key ev = KeyDelete \<and> d' = d\<lparr>dr_body := snd (editor_delete_forward (dr_body d))\<rparr> \<or>
     ev_key ev = KeyEnter \<and> (\<exists>p.
       if p \<in> set (dr_mentions d) then d' = d\<lparr>dr_mentions := erase_first (\<lambda>i. i = p) (dr_mentions d)\<rparr>
       else d' = d\<lparr>dr_mentions := dr_mentions d @ [p]\<rparr>)"

lemma draft_step_refl [simp]: "draft_step ev d d"
  by (simp add: draft_step_def)

lemma show_modal_fields [simp]:
  "vm_draft (show_modal i s vm) = vm_draft vm" "vm_screen (show_modal i s vm) = vm_screen vm"
  "vm_selected (show_modal i s vm) = vm_selected vm" "vm_detail (show_modal i s vm) = vm_detail vm"
  "vm_locale (show_modal i s vm) = vm_locale vm" "vm_peers (show_modal i s vm) = vm_peers vm"
  by (simp_all add: show_modal_def)

lemma clear_modal_fields [simp]:
  "vm_draft (clear_modal vm) = vm_draft vm" "vm_screen (clear_modal vm) = vm_screen vm"
  by (simp_all add: clear_modal_def)

lemma handle_modal_draft:
  "handle_modal m ev vm = (a, vm') \<Longrightarrow>
     vm_draft vm' = vm_draft vm \<and> vm_screen vm' = vm_screen vm \<or>
     am_id (vm_modal vm) = ModalDiscard \<and> am_confirm_selected (vm_modal vm) \<and> ev_key ev = KeyEnter"
  unfolding handle_modal_def Let_def show_exit_confirmation_def by (auto split: if_splits)

lemma handle_mentions_draft:
  assumes "handle_mentions m ev vm = (a, vm')" "vm_screen vm = ScreenMentions"
  shows "vm_screen vm' \<in> {ScreenCompose, ScreenMentions} \<and> draft_step ev (vm_draft vm) (vm_draft vm')"
proof -
  have t: "vm_screen u = vm_screen v \<and> draft_step ev (vm_draft v) (vm_draft u)"
    if "toggle_mention p v = (a, u)" "ev_key ev = KeyEnter" for p v u
    using that unfolding toggle_mention_def Let_def show_error_def draft_step_def
    by (cases "p \<in> set (dr_mentions (vm_draft v))") (auto split: if_splits intro!: exI [of _ p])
  show ?thesis using assms unfolding handle_mentions_def Let_def by (auto split: if_splits dest!: t)
qed

lemma handle_compose_draft:
  assumes "handle_compose up ev vm w = (a, vm', w')" "vm_screen vm = ScreenCompose" "draft_dirty (vm_draft vm)" "ev_key ev \<noteq> KeyEnter"
  shows "vm_screen vm' \<in> {ScreenCompose, ScreenMentions} \<and> draft_step ev (vm_draft vm) (vm_draft vm')"
  using assms by (cases "ev_key ev")
    (auto simp: handle_compose_def Let_def show_error_def draft_step_def edit_draft_def case_prod_beta split: if_splits option.splits)

lemma send_draft_parts:
  assumes "send_draft up vm w = (a, vm', w')" "up_compose up (post_draft_of (vm_draft vm)) w = (r, w1)"
  shows "w' = w1" "a = ui_render True"
    "cr_error r \<noteq> None \<Longrightarrow> vm' = show_command_error (cr_error r) vm"
    "cr_error r = None \<Longrightarrow> find_opt (up_messenger up w') (cr_message_id r) \<noteq> None \<Longrightarrow>
       vm' = show_status (queued_status vm) (vm\<lparr>vm_selected := cr_message_id r, vm_detail := None, vm_detail_scroll := 0,
         vm_draft := draft_reset (vm_draft vm), vm_screen := ScreenTimeline\<rparr>)"
  using assms by (auto simp: send_draft_def Let_def ensure_timeline_selection_def queued_status_def split: if_splits)

text \<open>The draft was sent: it is the newest entry of the history, queued, and it is selected. The messenger before and
  after, the view model before and after.\<close>

definition draft_sent :: "messenger_state \<Rightarrow> messenger_state \<Rightarrow> view_model \<Rightarrow> view_model \<Rightarrow> bool" where
  "draft_sent m m' vm vm' \<longleftrightarrow>
     (\<exists>e. composed_entry (post_draft_of (vm_draft vm)) m e \<and> newest_at (ms_timeline m') 0 = Some e \<and>
        vm_selected vm' = Some (entry_id e) \<and> am_id (vm_modal vm') = ModalStatus \<and> vm_screen vm' = ScreenTimeline)"

context messenger_owner
begin

lemma send_draft_outcome:
  assumes io: "io_ok io" and w: "owner_ok w" and d: "draft_ok (own_id (msg w)) (vm_draft vm)" and run: "send_draft (up io) vm w = (a, vm', w')"
  obtains (kept) e where "vm' = show_command_error (Some e) vm" "ms_timeline (msg w') = ms_timeline (msg w)"
  | (sent) "draft_sent (msg w) (msg w') vm vm'"
proof -
  obtain r w1 where r: "up_compose (up io) (post_draft_of (vm_draft vm)) w = (r, w1)" by fastforce
  note p = send_draft_parts [OF run r]
  note e = compose_effect_owner [OF io w d r]
  show ?thesis
  proof (cases "cr_error r")
    case (Some x)
    then show ?thesis using p e(3) by (intro kept [of x]) simp_all
  next
    case None
    obtain y where y: "composed_entry (post_draft_of (vm_draft vm)) (msg w) y" "cr_message_id r = Some (entry_id y)"
       "newest_at (ms_timeline (msg w1)) 0 = Some y" "timeline_find (ms_timeline (msg w1)) (entry_id y) = Some y"
      using e(4) [OF None] by blast
    then have "find_opt (up_messenger (up io) w') (cr_message_id r) \<noteq> None" by (simp add: find_opt_def messenger_of p(1))
    note vm' = p(4) [OF None this]
    show ?thesis by (rule sent) (unfold draft_sent_def, intro exI [of _ y], use y vm' p(1) in \<open>simp add: show_status_def show_modal_def\<close>)
  qed
qed

text \<open>A draft with content is given up only by being sent or by a confirmed discard.\<close>

lemma handle_draft:
  assumes io: "io_ok io" and w: "owner_ok w" and vm: "vm_ok (own_id (msg w)) vm" and dirty: "draft_dirty (vm_draft vm)"
    and run: "handle (up io) ev vm w = (a, vm', w')"
  shows "vm_screen vm' \<in> {ScreenCompose, ScreenMentions} \<and> draft_step ev (vm_draft vm) (vm_draft vm') \<or>
    ev_key ev = KeyEnter \<and> am_id (vm_modal vm) = ModalNone \<and> vm_screen vm = ScreenCompose \<and> draft_sent (msg w) (msg w') vm vm' \<or>
    ev_key ev = KeyEnter \<and> am_id (vm_modal vm) = ModalDiscard \<and> am_confirm_selected (vm_modal vm)"
proof -
  let ?v = "reconcile_model (msg w) vm"
  have v: "vm_ok (own_id (msg w)) ?v" by (rule reconcile_model_ok [OF owner_messenger [OF w] vm])
  have s: "vm_screen vm \<in> {ScreenCompose, ScreenMentions}" using vm dirty by (simp add: vm_ok_def)
  then have sv: "vm_screen ?v = vm_screen vm" by (auto simp: reconcile_screen)
  have modal: "vm_modal ?v = vm_modal vm" using s
    by (auto simp: reconcile_model_def Let_def)
  show ?thesis using run
  proof (cases rule: handle_parts)
    case dialog
    then show ?thesis using handle_modal_draft s sv modal by (fastforce simp: messenger_of)
  next
    case home
    then show ?thesis using s sv by (simp add: messenger_of show_exit_confirmation_def)
  next
    case shortcut
    then show ?thesis using s sv by (auto simp: messenger_of handle_global_shortcut_def)
  next
    case screen
    note r = screen(3) [unfolded messenger_of sv]
    show ?thesis
    proof (cases "vm_screen vm = ScreenMentions")
      case True
      then have "handle_mentions (msg w) ev ?v = (a, vm')" using r by (auto split: prod.splits)
      from handle_mentions_draft [OF this] show ?thesis using True sv by simp
    next
      case False
      then have c: "vm_screen vm = ScreenCompose" using s by simp
      then have h: "handle_compose (up io) ev ?v w = (a, vm', w')" using r by simp
      show ?thesis
      proof (cases "ev_key ev = KeyEnter")
        case False
        then show ?thesis using handle_compose_draft [OF h] sv c dirty by simp
      next
        case True
        then have sd: "send_draft (up io) ?v w = (a, vm', w')" using h by (simp add: handle_compose_def Let_def)
        have d: "draft_ok (own_id (msg w)) (vm_draft ?v)" using v by (simp add: vm_ok_def)
        show ?thesis
        proof (cases rule: send_draft_outcome [OF io w d sd])
          case (1 e)
          then show ?thesis using s sv by (simp add: show_command_error_def show_error_def)
        next
          case 2
          then have "draft_sent (msg w) (msg w') vm vm'" by (simp add: draft_sent_def)
          then show ?thesis using True c screen(1) by (simp add: messenger_of modal)
        qed
      qed
    qed
  qed
qed

end

section \<open>Snapshots\<close>

subsection \<open>The selected entry is visible\<close>

lemma newest_index_Some:
  "newest_index m mid = Some i \<Longrightarrow> i < length (entries (ms_timeline m)) \<and> entry_id (rev (entries (ms_timeline m)) ! i) = mid"
proof -
  assume "newest_index m mid = Some i"
  then obtain k where "k < length (entries (ms_timeline m))" "i = k"
      "case newest_at (ms_timeline m) k of None \<Rightarrow> False | Some e \<Rightarrow> entry_id e = mid"
    unfolding newest_index_def find_Some_iff by (metis add_0 diff_zero length_upt nth_upt)
  then show ?thesis by (simp add: newest_at_rev)
qed

lemma newest_index_None: "newest_index m mid = None \<longleftrightarrow> timeline_find (ms_timeline m) mid = None"
proof -
  have "newest_index m mid = None \<longleftrightarrow> (\<forall>i < length (rev (entries (ms_timeline m))). entry_id (rev (entries (ms_timeline m)) ! i) \<noteq> mid)"
    by (auto simp: newest_index_def find_None_iff newest_at_rev)
  also have "\<dots> \<longleftrightarrow> (\<forall>e \<in> set (rev (entries (ms_timeline m))). entry_id e \<noteq> mid)" by (simp only: all_set_conv_all_nth)
  finally show ?thesis by (auto simp: find_None_entry)
qed

lemma window_first_bounds:
  "cursor < count \<Longrightarrow> 0 < visible \<Longrightarrow> window_first visible count cursor \<le> cursor \<and>
     cursor < min count (window_first visible count cursor + visible) \<and>
     min count (window_first visible count cursor + visible) - window_first visible count cursor = min visible count"
  by (auto simp: window_first_def)

lemma selection_exists:
  assumes "entries (ms_timeline m) \<noteq> []"
  obtains e where "vm_selected (ensure_timeline_selection m vm) = Some (entry_id e)" "e \<in> set (entries (ms_timeline m))"
proof (cases "find_opt m (vm_selected vm)")
  case (Some e)
  then obtain mid where "vm_selected vm = Some mid" "timeline_find (ms_timeline m) mid = Some e"
    by (auto simp: find_opt_def split: option.splits)
  then have "entry_id e = mid" "e \<in> set (entries (ms_timeline m))" by (auto simp: timeline_find_def find_Some_iff)
  then show ?thesis using that [of e] Some \<open>vm_selected vm = Some mid\<close> by (simp add: ensure_timeline_selection_def)
next
  case None
  let ?e = "rev (entries (ms_timeline m)) ! 0"
  have "newest_at (ms_timeline m) 0 = Some ?e" using assms by (simp add: newest_at_rev)
  moreover have "?e \<in> set (entries (ms_timeline m))" using assms nth_mem [of 0 "rev (entries (ms_timeline m))"] by simp
  ultimately show ?thesis using that [of ?e] None by (simp add: ensure_timeline_selection_def)
qed

lemma reconcile_selected: "vm_selected (reconcile_model m vm) = vm_selected (ensure_timeline_selection m vm)"
  by (simp add: reconcile_model_def refresh_peers_def show_status_def show_modal_def Let_def)

text \<open>The rows are consecutive entries, newest first, around the selected one.\<close>

lemma timeline_page_window:
  assumes ne: "entries (ms_timeline m) \<noteq> []" and sel: "vm_selected vm = Some (entry_id e)" "e \<in> set (entries (ms_timeline m))"
  obtains pre win post where "rev (entries (ms_timeline m)) = pre @ win @ post"
    "length win = min kVisibleTimelineRows (length (entries (ms_timeline m)))"
    "tp_rows (timeline_page_of m vm) = map (timeline_row m (vm_selected vm)) win"
    "entry_id e \<in> entry_id ` set win"
proof -
  let ?n = "length (entries (ms_timeline m))" and ?r = "rev (entries (ms_timeline m))"
  have "timeline_find (ms_timeline m) (entry_id e) \<noteq> None" using sel by (auto simp: find_None_entry)
  then obtain i where i: "newest_index m (entry_id e) = Some i" by (auto simp flip: newest_index_None)
  note ib = newest_index_Some [OF i]
  define f where "f = window_first kVisibleTimelineRows ?n i"
  define l where "l = min ?n (f + kVisibleTimelineRows)"
  have w: "f \<le> i" "i < l" "l - f = min kVisibleTimelineRows ?n"
    using window_first_bounds [of i ?n kVisibleTimelineRows] ib by (simp_all add: f_def l_def)
  have l: "l \<le> ?n" by (simp add: l_def)
  let ?win = "take (l - f) (drop f ?r)"
  have len: "length ?win = min kVisibleTimelineRows ?n" using w l by simp
  have "?win ! (i - f) = drop f ?r ! (i - f)" by (intro nth_take) (use w(1,2) in linarith)
  then have "?win ! (i - f) = ?r ! i" using w(1,2) l by simp
  moreover have "i - f < length ?win" using w(1,2) l by simp
  ultimately have "?r ! i \<in> set ?win" by (metis nth_mem)
  then have mem: "entry_id e \<in> entry_id ` set ?win" using conjunct2 [OF ib, symmetric] by (rule image_eqI [rotated])
  have rows: "tp_rows (timeline_page_of m vm) = map (timeline_row m (vm_selected vm)) ?win"
  proof -
    have "Option.bind (vm_selected vm) (newest_index m) = Some i" using sel(1) i by simp
    then have "tp_rows (timeline_page_of m vm) =
        map (timeline_row m (vm_selected vm)) (List.map_filter (newest_at (ms_timeline m)) [f..<l])"
      using ne unfolding timeline_page_of_def Let_def f_def l_def by simp
    then show ?thesis by (simp only: newest_window [OF l])
  qed
  have "?r = take f ?r @ ?win @ drop (l - f) (drop f ?r)" by (simp only: append_take_drop_id)
  then show ?thesis using len rows mem by (rule that)
qed

text \<open>The list of mentions shows the peers around the cursor.\<close>

lemma mentions_page_window:
  assumes "mentions_page_of m vm = (p, vm')" "vm_peers vm' \<noteq> []"
    "vm_peer_cursor vm' = 0 \<or> vm_peer_cursor vm' < length (vm_peers vm')"
  shows "length (mp_options p) = min kVisibleMentionRows (length (vm_peers vm'))" "\<exists>x \<in> set (mp_options p). mo_cursor x"
proof -
  let ?n = "length (vm_peers vm')" and ?c = "vm_peer_cursor vm'"
  have r: "vm' = refresh_peers m vm" using assms(1) by (auto simp: mentions_page_of_def Let_def split: if_splits)
  have c: "?c < ?n" using assms(2,3) by auto
  define f where "f = window_first kVisibleMentionRows ?n ?c"
  define l where "l = min ?n (f + kVisibleMentionRows)"
  have w: "f \<le> ?c" "?c < l" "l - f = min kVisibleMentionRows ?n"
    using window_first_bounds [OF c, of kVisibleMentionRows] by (simp_all add: f_def l_def)
  have p: "mp_options p = map (\<lambda>index.
        \<lparr>mo_install_id = vm_peers vm' ! index, mo_label = peer_label m (vm_locale vm') (vm_peers vm' ! index),
         mo_selected = (vm_peers vm' ! index \<in> set (dr_mentions (vm_draft vm'))), mo_cursor = (index = ?c)\<rparr>) [f..<l]"
    using assms(1,2) unfolding r f_def l_def by (auto simp: mentions_page_of_def Let_def)
  show "length (mp_options p) = min kVisibleMentionRows ?n" using w(3) by (simp add: p)
  show "\<exists>x \<in> set (mp_options p). mo_cursor x" using w(1,2) by (auto simp: p)
qed

subsection \<open>Every text shown is valid\<close>

definition row_texts :: "timeline_row_snapshot \<Rightarrow> bytes list" where
  "row_texts r = [row_sender r, row_sender_suffix r, row_body_preview r]"

fun page_texts :: "page_snapshot \<Rightarrow> bytes list" where
  "page_texts (MenuPage i) = []"
| "page_texts (TimelinePage p) = concat (map row_texts (tp_rows p))"
| "page_texts (DetailPage p) =
     [dp_sender p, dp_sender_suffix p, dp_body p, dp_visible_body p, dp_reply_preview p] @ map snd (dp_mentions p)"
| "page_texts (ComposePage p) = cp_body p # take (cp_cursor_byte_offset p) (cp_body p) # map snd (cp_mentions p)"
| "page_texts (MentionsPage p) = map mo_label (mp_options p)"
| "page_texts (SettingsPage p) =
     [sp_user_id p, sp_install_suffix p, sp_locale_name p, sp_session_notice p, sp_radio_status p]"

definition modal_texts :: "modal_snapshot \<Rightarrow> bytes list" where
  "modal_texts s = [mod_title s, mod_message s, mod_cancel_label s, mod_confirm_label s]"

definition snapshot_texts :: "view_snapshot \<Rightarrow> bytes list" where
  "snapshot_texts s = [vs_title s, vs_footer s] @ page_texts (vs_page s) @ modal_texts (vs_modal s)"

lemma valid_nil [simp]: "is_valid_utf8 []"
  by (rule valid_ascii) simp

lemma translate_valid [simp]: "is_valid_utf8 (translate l i)"
  using translate_text [of l i] by (simp add: display_text_def)

lemma hex_value_ascii: "hex_value c = Some v \<Longrightarrow> unat c < 128"
  by (auto simp: hex_value_def word_le_nat_alt split: if_splits)

lemma id_suffix_valid [simp]: "is_valid_utf8 (id_suffix i)"
proof -
  have "list_all (\<lambda>b. unat b < 128) (uuid_to_string_loop bs n)" for bs n
    by (induction bs n rule: uuid_to_string_loop.induct)
      (simp_all add: uuid_to_string_loop_nibbles hex_value_ascii [OF hex_value_nibbles(1)] hex_value_ascii [OF hex_value_nibbles(2)]
        del: uuid_to_string_loop.simps(2))
  then have "list_all (\<lambda>b. unat b < 128) (uuid_to_string (install_uuid i))" by (simp add: uuid_to_string_def)
  then have "list_all (\<lambda>b. unat b < 128) (id_suffix i)" by (auto simp: id_suffix_def Let_def list_all_iff dest: in_set_dropD)
  then show ?thesis by (rule valid_ascii)
qed

lemma post_texts_valid:
  assumes "post_ok p"
  shows "is_valid_utf8 (user_id_value (sender_user_id p))" "is_valid_utf8 (post_body_value (body p))"
  using assms by (auto simp: post_ok_def user_id_ok_def post_body_ok_def dest: validate_text_valid)

lemma peer_label_valid: "messenger_ok m \<Longrightarrow> is_valid_utf8 (peer_label m l i)"
proof -
  assume m: "messenger_ok m"
  have mark: "is_valid_utf8 (ascii '' #'' @ id_suffix i)"
    by (intro valid_append id_suffix_valid) (rule valid_ascii, simp add: ascii_def)
  have "is_valid_utf8 (user_id_value (sender_user_id (entry_post e)))" if "newest_at (ms_timeline m) k = Some e" for k e
    using post_texts_valid(1) [OF messenger_ok_entry [OF m newest_at_in [OF that]]] .
  then show ?thesis using mark
    by (auto simp: peer_label_def find_Some_iff intro!: valid_append split: option.splits)
qed

lemma timeline_row_valid: "messenger_ok m \<Longrightarrow> e \<in> set (entries (ms_timeline m)) \<Longrightarrow> list_all is_valid_utf8 (row_texts (timeline_row m sel e))"
  using post_texts_valid [OF messenger_ok_entry]
  by (simp add: row_texts_def timeline_row_def truncated_utf8_valid)

lemma timeline_page_valid: "messenger_ok m \<Longrightarrow> list_all is_valid_utf8 (page_texts (TimelinePage (timeline_page_of m vm)))"
proof -
  assume m: "messenger_ok m"
  have "x \<in> set (entries (ms_timeline m))" if "x \<in> set (List.map_filter (newest_at (ms_timeline m)) is)" for x "is"
    using that by (induction "is") (auto simp: map_filter_simps dest: newest_at_in split: option.splits)
  then show ?thesis using timeline_row_valid [OF m]
    by (fastforce simp: timeline_page_of_def Let_def list_all_iff)
qed

lemma detail_page_valid: "messenger_ok m \<Longrightarrow> list_all is_valid_utf8 (page_texts (DetailPage (detail_page_of m vm)))"
proof (cases "find_opt m (vm_detail vm)")
  case (Some e)
  assume m: "messenger_ok m"
  note t = post_texts_valid [OF find_opt_post_ok [OF m Some]]
  have r: "is_valid_utf8 (snd (detail_reply m l e))" for l
    using post_texts_valid(2) [OF find_opt_post_ok [OF m]]
    by (auto simp: detail_reply_def truncated_utf8_valid split: reply_state.split option.split)
  show ?thesis using Some t r [of "vm_locale vm"] peer_label_valid [OF m]
    by (auto simp: detail_page_of_def Let_def case_prod_beta detail_window_valid list_all_iff)
qed (simp add: detail_page_of_def detail_page_empty_def)

lemma compose_page_valid:
  assumes "messenger_ok m" "vm_ok own vm"
  shows "list_all is_valid_utf8 (page_texts (ComposePage (compose_page_of m vm)))"
proof -
  obtain l r where "editor_view (dr_body (vm_draft vm)) l r" using assms(2) by (auto simp: vm_ok_def draft_ok_def editor_ok_def)
  from valid_view [OF this] show ?thesis using peer_label_valid [OF assms(1)]
    by (auto simp: compose_page_of_def Let_def list_all_iff)
qed

lemma settings_page_valid: "messenger_ok m \<Longrightarrow> list_all is_valid_utf8 (page_texts (SettingsPage (settings_page_of m vm)))"
  using locale_display_name_text
  by (auto simp: settings_page_of_def messenger_ok_def identity_ok_def user_id_ok_def dest: validate_text_valid split: option.split)

lemma modal_snapshot_valid: "list_all is_valid_utf8 (modal_texts (modal_snapshot_of vm))"
  by (auto simp: modal_texts_def modal_snapshot_of_def Let_def case_prod_beta split: option.split prod.split)

lemma snapshot_valid:
  assumes "messenger_ok m" "vm_ok (own_id m) vm"
  shows "list_all is_valid_utf8 (snapshot_texts (fst (snapshot m vm)))"
proof -
  let ?v = "reconcile_model m vm"
  have v: "vm_ok (own_id m) ?v" by (rule reconcile_model_ok [OF assms])
  have "list_all is_valid_utf8 (page_texts (MentionsPage (fst (mentions_page_of m ?v))))"
    using peer_label_valid [OF assms(1)] by (auto simp: mentions_page_of_def Let_def list_all_iff)
  then have "list_all is_valid_utf8 (page_texts (vs_page (fst (snapshot m vm))))"
    using timeline_page_valid [OF assms(1)] detail_page_valid [OF assms(1)] compose_page_valid [OF assms(1) v]
      settings_page_valid [OF assms(1)]
    by (cases "vm_screen ?v") (simp_all add: snapshot_def Let_def case_prod_beta)
  moreover have "list_all is_valid_utf8 (modal_texts (vs_modal (fst (snapshot m vm))))"
    by (simp add: snapshot_def Let_def case_prod_beta modal_snapshot_valid)
  ultimately show ?thesis
    by (simp add: snapshot_texts_def snapshot_def Let_def case_prod_beta)
qed

text \<open>A snapshot is of the screen the view model is on, and a detail page has its post.\<close>

lemma snapshot_model_ok:
  assumes "messenger_ok m" "vm_ok (own_id m) vm"
  shows "vm_ok (own_id m) (snd (snapshot m vm))"
proof -
  have v: "vm_ok (own_id m) (reconcile_model m vm)" by (rule reconcile_model_ok [OF assms])
  have "snd (mentions_page_of m (reconcile_model m vm)) = refresh_peers m (reconcile_model m vm)"
    by (simp add: mentions_page_of_def Let_def)
  then show ?thesis using v refresh_peers_ok [OF assms(1) v]
    by (cases "vm_screen (reconcile_model m vm)") (simp_all add: snapshot_def Let_def case_prod_beta)
qed

lemma snapshot_fields:
  "vm_draft (snd (snapshot m vm)) = vm_draft vm" "vm_modal (snd (snapshot m vm)) = vm_modal (reconcile_model m vm)"
  by (cases "vm_screen (reconcile_model m vm)"; simp add: snapshot_def Let_def case_prod_beta mentions_page_of_def)+

end
