(* ===== verification/App_Shell.thy ===== *)
theory App_Shell
  imports App_Runtime View_Model_Laws
begin

text \<open>
  Model of \<^verbatim>\<open>src/app/app.cpp\<close> and \<^verbatim>\<open>src/app/demo_scenario.cpp\<close>: the program that ties the session, the radio runtime and the
  view model together. A key event runs the view model with the session as the owner of its messenger;
  one turn of the main loop handles the keys that are waiting and pumps the radio. What the display, the
  environment, the clock and the storage answer are arguments; the snapshots drawn are part of the results.
\<close>

section \<open>Definitions\<close>

subsection \<open>Keys and probes\<close>

text \<open>The key codes of LVGL.\<close>

record lv_keys =
  lv_key_up :: u32
  lv_key_down :: u32
  lv_key_left :: u32
  lv_key_right :: u32
  lv_key_enter :: u32
  lv_key_esc :: u32
  lv_key_home :: u32
  lv_key_backspace :: u32
  lv_key_del :: u32
  lv_key_next :: u32

definition named_key :: "ui_key \<Rightarrow> key_event" where
  "named_key k = \<lparr>ev_key = k, ev_character = 0\<rparr>"

definition semantic_key :: "lv_keys \<Rightarrow> u32 \<Rightarrow> key_event" where
  "semantic_key lv key =
     (if key = lv_key_up lv then named_key KeyUp
      else if key = lv_key_down lv then named_key KeyDown
      else if key = lv_key_left lv then named_key KeyLeft
      else if key = lv_key_right lv then named_key KeyRight
      else if key = lv_key_enter lv then named_key KeyEnter
      else if key = lv_key_esc lv then named_key KeyEscape
      else if key = lv_key_home lv then named_key KeyHome
      else if key = lv_key_backspace lv then named_key KeyBackspace
      else if key = lv_key_del lv then named_key KeyDelete
      else if key = lv_key_next lv then named_key KeyTab
      else \<lparr>ev_key = KeyCharacter, ev_character = key\<rparr>)"

fun screen_probe :: "screen_id \<Rightarrow> bytes" where
  "screen_probe ScreenMenu = ascii ''menu''"
| "screen_probe ScreenTimeline = ascii ''timeline''"
| "screen_probe ScreenDetail = ascii ''detail''"
| "screen_probe ScreenCompose = ascii ''compose''"
| "screen_probe ScreenMentions = ascii ''mentions''"
| "screen_probe ScreenSettings = ascii ''settings''"

fun modal_probe :: "modal_id \<Rightarrow> bytes" where
  "modal_probe ModalNone = ascii ''none''"
| "modal_probe ModalStatus = ascii ''status''"
| "modal_probe ModalError = ascii ''error''"
| "modal_probe ModalDiscard = ascii ''discard''"
| "modal_probe ModalExit = ascii ''exit''"
| "modal_probe ModalDeleteData = ascii ''delete-data''"
| "modal_probe ModalRecovery = ascii ''recovery''"

definition focus_probe :: "view_snapshot \<Rightarrow> bytes" where
  "focus_probe s =
     (if is_confirmation (mod_id (vs_modal s))
      then (if mod_confirm_selected (vs_modal s) then ascii ''modal.confirm'' else ascii ''modal.cancel'')
      else if mod_id (vs_modal s) = ModalStatus \<or> mod_id (vs_modal s) = ModalError then ascii ''modal.dismiss''
      else case vs_screen s of
        ScreenMenu \<Rightarrow>
          (case vs_page s of MenuPage MenuItemSettings \<Rightarrow> ascii ''menu.settings'' | _ \<Rightarrow> ascii ''menu.talk'')
      | ScreenTimeline \<Rightarrow>
          (case vs_page s of TimelinePage p \<Rightarrow> if tp_rows p = [] then ascii ''timeline.empty'' else ascii ''timeline.row''
           | _ \<Rightarrow> ascii ''timeline.row'')
      | ScreenDetail \<Rightarrow> ascii ''detail.body''
      | ScreenCompose \<Rightarrow> ascii ''compose.body''
      | ScreenMentions \<Rightarrow>
          (case vs_page s of MentionsPage p \<Rightarrow> if mp_options p = [] then ascii ''mentions.empty'' else ascii ''mentions.option''
           | _ \<Rightarrow> ascii ''mentions.option'')
      | ScreenSettings \<Rightarrow>
          (case vs_page s of SettingsPage p \<Rightarrow>
             if sp_selected p = ItemSkipTitle then ascii ''settings.skip-title'' else ascii ''settings.language''
           | _ \<Rightarrow> ascii ''settings.language''))"

definition newest_state_probe :: "messenger_state \<Rightarrow> bytes" where
  "newest_state_probe m =
     (case newest_at (ms_timeline m) 0 of None \<Rightarrow> ascii ''empty''
      | Some e \<Rightarrow>
          (case origin e of
             ReceivedOrigin \<Rightarrow> ascii ''received''
           | LocalDelivery Queued \<Rightarrow> ascii ''queued''
           | LocalDelivery Broadcast \<Rightarrow> ascii ''broadcast''
           | LocalDelivery Failed \<Rightarrow> ascii ''failed''
           | LocalDelivery UnknownState \<Rightarrow> ascii ''unknown''))"

subsection \<open>Settings and environment\<close>

fun view_locale :: "stored_locale \<Rightarrow> ui_locale" where
  "view_locale English = LocaleEnglish"
| "view_locale Japanese = LocaleJapanese"
| "view_locale SimplifiedChinese = LocaleSimplifiedChinese"

fun stored_locale_of :: "ui_locale \<Rightarrow> stored_locale" where
  "stored_locale_of LocaleEnglish = English"
| "stored_locale_of LocaleJapanese = Japanese"
| "stored_locale_of LocaleSimplifiedChinese = SimplifiedChinese"
| "stored_locale_of LocaleCount = English"

text \<open>\<^verbatim>\<open>session.locale()\<close> and \<^verbatim>\<open>session.skip_title()\<close>.\<close>

definition session_locale :: "session \<Rightarrow> stored_locale" where
  "session_locale s = (case settings s of Some st \<Rightarrow> st_locale st | None \<Rightarrow> English)"

definition session_skip_title :: "session \<Rightarrow> bool" where
  "session_skip_title s = (case settings s of Some st \<Rightarrow> st_skip_title st | None \<Rightarrow> False)"

text \<open>The test of a switch in the environment: \<open>demo_seed_requested\<close>, \<open>antenna_confirmed\<close>, \<open>wifi_broadcast_enabled\<close>.\<close>

definition environment_switch :: "bytes option \<Rightarrow> bool" where
  "environment_switch v \<longleftrightarrow> v = Some (ascii ''1'')"

definition monotonic_milliseconds :: "int \<Rightarrow> u64" where
  "monotonic_milliseconds ms = (if ms < 0 then 0 else word_of_int ms)"

subsection \<open>The program's state\<close>

record 'p app =
  ap_vm :: view_model
  ap_session :: session
  ap_disk :: disk
  ap_runtime :: "'p runtime option"
  ap_transport_status :: transport_status
  ap_reported_ready :: bool
  ap_running :: bool
  ap_exit_code :: nat

definition request_stop :: "'p app \<Rightarrow> 'p app" where
  "request_stop st = st\<lparr>ap_running := False\<rparr>"

definition request_failure :: "'p app \<Rightarrow> 'p app" where
  "request_failure st = st\<lparr>ap_exit_code := 1, ap_running := False\<rparr>"

text \<open>The answers during one key event: the storage, the ports of the messenger, the settings file, the removal of the
  data, and whether the screen could be drawn.\<close>

record key_io =
  kio_session :: session_io
  kio_ports :: command_ports
  kio_settings :: settings_answer
  kio_delete :: delete_io
  kio_render :: bool

text \<open>The session as the owner of the view model's messenger, with \<^verbatim>\<open>UiSettingsCommitAdapter\<close> as its settings port.\<close>

definition session_ports :: "key_io \<Rightarrow> (session \<times> disk) ui_ports" where
  "session_ports io =
     \<lparr>up_messenger = (\<lambda>(s, d). messenger s),
      up_compose = (\<lambda>draft (s, d). case session_execute (kio_session io) (kio_ports io) (Compose draft) s d of
                      (r, s, d) \<Rightarrow> (r, s, d)),
      up_settings_commit = Some
        (\<lambda>l (s, d). case set_locale (kio_settings io) (stored_locale_of l) s d of (ok, s, d) \<Rightarrow> (ok, s, d),
         \<lambda>b (s, d). case set_skip_title (kio_settings io) b s d of (ok, s, d) \<Rightarrow> (ok, s, d))\<rparr>"

text \<open>\<^verbatim>\<open>messenger_screen.render(view_model.snapshot())\<close>: the snapshot drawn; a failure stops the program.\<close>

definition render :: "bool \<Rightarrow> 'p app \<Rightarrow> view_snapshot \<times> 'p app" where
  "render ok st =
     (let (s, vm) = snapshot (messenger (ap_session st)) (ap_vm st); st = st\<lparr>ap_vm := vm\<rparr>
      in (s, if ok then st else request_failure st))"

text \<open>The key handler. The result has the action of the view model and the snapshot drawn.\<close>

definition on_key :: "lv_keys \<Rightarrow> key_io \<Rightarrow> u32 \<Rightarrow> 'p app \<Rightarrow> (ui_action \<times> view_snapshot option) option \<times> 'p app" where
  "on_key lv io key st =
     (if \<not> ap_running st then (None, st)
      else case handle (session_ports io) (semantic_key lv key) (ap_vm st) (ap_session st, ap_disk st) of
        (action, vm, s, d) \<Rightarrow>
          let st = st\<lparr>ap_vm := vm, ap_session := s, ap_disk := d\<rparr>
          in if delete_data_approved action
             then (case delete_all (kio_delete io) s d of
                (True, s, d) \<Rightarrow> (Some (action, None), request_stop (st\<lparr>ap_session := s, ap_disk := d\<rparr>))
              | (False, s, d) \<Rightarrow>
                  (case render (kio_render io) (st\<lparr>ap_session := s, ap_disk := d, ap_vm := report_storage_failure vm\<rparr>) of
                     (shown, st) \<Rightarrow> (Some (action, Some shown), st)))
             else if render_required action
             then (case render (kio_render io) st of
                (shown, st) \<Rightarrow>
                  (Some (action, Some shown), if kio_render io \<and> exit_approved action then request_stop st else st))
             else (Some (action, None), if exit_approved action then request_stop st else st))"

subsection \<open>The main loop\<close>

record loop_io =
  lio_display_deleted :: bool
  lio_now :: int
  lio_pump :: pump_io
  lio_connected :: bool
  lio_render :: bool
  lio_script_failed :: bool

definition pump_radio :: "'p policy_ops \<Rightarrow> loop_io \<Rightarrow> 'p app \<Rightarrow> 'p app \<times> offer list" where
  "pump_radio ops io st =
     (case ap_runtime st of
        None \<Rightarrow> (st, [])
      | Some rt \<Rightarrow>
          (case runtime_pump ops (lio_pump io) (monotonic_milliseconds (lio_now io)) rt (ap_session st) (ap_disk st) of
             ((changed, rt, s, d), offers) \<Rightarrow>
               let st = st\<lparr>ap_runtime := Some rt, ap_session := s, ap_disk := d\<rparr>;
                   radio_ready = runtime_ready (lio_connected io) rt
               in if radio_ready \<noteq> ap_reported_ready st
                  then (let st = st\<lparr>ap_reported_ready := radio_ready,
                              ap_vm := set_transport_status (if radio_ready then ap_transport_status st else TransportOffline)
                                         (ap_vm st)\<rparr>
                        in (snd (render (lio_render io) st), offers))
                  else if changed
                  then (snd (render (lio_render io) (st\<lparr>ap_vm := reconcile_model (messenger s) (ap_vm st)\<rparr>)), offers)
                  else (st, offers)))"

text \<open>One turn: the keys that \<^verbatim>\<open>lv_timer_handler\<close> delivers, the removal of the display, the radio, the script.\<close>

definition loop_turn :: "lv_keys \<Rightarrow> 'p policy_ops \<Rightarrow> (key_io \<times> u32) list \<Rightarrow> loop_io \<Rightarrow> 'p app \<Rightarrow> 'p app \<times> offer list" where
  "loop_turn lv ops keys io st =
     (let st = fold (\<lambda>(kio, key) st. snd (on_key lv kio key st)) keys st;
          st = (if lio_display_deleted io then request_stop st else st);
          (st, offers) = pump_radio ops io st
      in (if lio_script_failed io then request_failure st else st, offers))"

text \<open>The end of \<open>run\<close>: whether the script is pending, then the runtime and the session stop.\<close>

definition app_finish :: "bool \<Rightarrow> 'p app \<Rightarrow> 'p app" where
  "app_finish script_pending st =
     (let st = (if script_pending then request_failure st else st);
          st = st\<lparr>ap_runtime := map_option (\<lambda>rt. fst (runtime_stop rt)) (ap_runtime st)\<rparr>
      in st\<lparr>ap_session := session_shutdown (ap_session st)\<rparr>)"

subsection \<open>The demo history\<close>

text \<open>\<^verbatim>\<open>DemoRandom::fill\<close> for its \<open>request\<close>-th call; \<^verbatim>\<open>DemoClock\<close> has no time.\<close>

definition demo_random :: "byte \<Rightarrow> bytes" where
  "demo_random request = map (\<lambda>index. request * 29 + of_nat index) [0..<16]"

definition demo_ports :: command_ports where
  "demo_ports = \<lparr>port_random = Some (demo_random 1), port_clock = None, port_commit = None\<rparr>"

definition demo_uuid :: "byte \<Rightarrow> uuid" where
  "demo_uuid seed =
     (let b = map (\<lambda>index. seed + of_nat index) [0..<16];
          b = b[6 := (b ! 6 AND 0x0f) OR 0x40];
          b = b[8 := (b ! 8 AND 0x3f) OR 0x80]
      in b)"

definition demo_post_input :: "byte \<Rightarrow> byte \<Rightarrow> u64 \<Rightarrow> bytes \<Rightarrow> bytes \<Rightarrow> post_payload_input" where
  "demo_post_input message_seed sender_seed sequence sender text_body =
     \<lparr>in_message_id = demo_uuid message_seed, in_sender_id = demo_uuid sender_seed, in_sender_sequence = sequence,
      in_sender_user_id = sender, in_body = text_body, in_mentions = [], in_reply_to = None, in_sender_time = None\<rparr>"

definition demo_first :: post_payload_input where
  "demo_first = demo_post_input 0x41 0x81 1 (ascii ''Sora'') (ascii ''Sunset meetup at the west gate.'')"

definition demo_second :: "uuid \<Rightarrow> post_payload_input" where
  "demo_second own =
     (demo_post_input 0x51 0x91 1 (ascii ''Lin'') (ascii ''Local demo: radio remains disabled.''))\<lparr>in_mentions := [own]\<rparr>"

definition demo_reply :: "uuid \<Rightarrow> post_payload_input" where
  "demo_reply parent =
     (demo_post_input 0x61 0x81 2 (ascii ''Sora'')
        (ascii ''Signal check '' @ [0xf0, 0x9f, 0x94, 0x92] @
         ascii '' stays local. This longer test post verifies keyboard scrolling; there is no radio or delivery confirmation.''))
     \<lparr>in_reply_to := Some parent\<rparr>"

text \<open>Creating a post and accepting it.\<close>

definition demo_accept :: "post_payload_input \<Rightarrow> messenger_state \<Rightarrow> messenger_state option" where
  "demo_accept input m =
     (case post_payload_create input of
        Inl _ \<Rightarrow> None
      | Inr post \<Rightarrow> (case accept_received demo_ports post m of (r, m, _) \<Rightarrow> if cr_error r \<noteq> None then None else Some m))"

text \<open>The scenario's messenger; \<open>None\<close> when it is not ready.\<close>

definition demo_scenario :: "messenger_state option" where
  "demo_scenario =
     (case messenger_new kMaxTimelineEntries 0 of None \<Rightarrow> None
      | Some m \<Rightarrow>
          (case initialize_new demo_ports (ascii ''Mika'') m of
             (r, m, _) \<Rightarrow>
               if cr_error r \<noteq> None then None
               else Option.bind (demo_accept demo_first m) (\<lambda>m.
                 Option.bind (ms_identity m) (\<lambda>i.
                 Option.bind (demo_accept (demo_second (install_uuid (identity_install_id i))) m) (\<lambda>m.
                 demo_accept (demo_reply (demo_uuid 0x41)) m)))))"

text \<open>The loop of \<open>seed_demo_history\<close>.\<close>

fun seed_loop :: "(nat \<Rightarrow> session_io) \<Rightarrow> timeline_entry list \<Rightarrow> session \<Rightarrow> disk \<Rightarrow> bool \<times> session \<times> disk" where
  "seed_loop io [] s d = (True, s, d)"
| "seed_loop io (e # es) s d =
     (case session_execute (io (length es)) idle_ports (AcceptReceived (entry_post e)) s d of
        (r, s, d) \<Rightarrow> if cr_error r \<noteq> None then (False, s, d) else seed_loop io es s d)"

definition seed_demo_history :: "bytes option \<Rightarrow> (nat \<Rightarrow> session_io) \<Rightarrow> session \<Rightarrow> disk \<Rightarrow> bool \<times> session \<times> disk" where
  "seed_demo_history env io s d =
     (if \<not> environment_switch env \<or> startup_status s \<noteq> SessionReady \<or> entries (ms_timeline (messenger s)) \<noteq> []
      then (True, s, d)
      else case demo_scenario of None \<Rightarrow> (False, s, d)
        | Some fixture \<Rightarrow> seed_loop io (entries (ms_timeline fixture)) s d)"

subsection \<open>Starting\<close>

text \<open>What the environment, the fonts, the two transports and the screen answer while the program starts. A transport
  has a size limit, may be closed and may be connected.\<close>

record start_io =
  sta_fonts :: bool
  sta_seed_env :: "bytes option"
  sta_seed :: "nat \<Rightarrow> session_io"
  sta_wifi_env :: "bytes option"
  sta_lan_ready :: bool
  sta_antenna_env :: "bytes option"
  sta_cap_ready :: bool
  sta_transport_mtu :: nat
  sta_transport_closed :: bool
  sta_transport_connected :: bool
  sta_show :: bool

type_synonym app_policy = "lan_policy + japan920_policy"

definition app_ops :: "app_policy policy_ops" where
  "app_ops =
     \<lparr>policy_evaluate = (\<lambda>now n p. case p of
          Inl l \<Rightarrow> (case lan_evaluate_transmit now n l of (r, l) \<Rightarrow> (r, Inl l))
        | Inr j \<Rightarrow> (case japan920_evaluate_transmit now n j of (r, j) \<Rightarrow> (r, Inr j))),
      policy_record = (\<lambda>now n p. case p of
          Inl l \<Rightarrow> Inl (lan_record_transmit now n l)
        | Inr j \<Rightarrow> Inr (japan920_record_transmit now n j))\<rparr>"

text \<open>The Wi-Fi transport first, then the LoRa radio.\<close>

definition open_radio :: "start_io \<Rightarrow> bool \<Rightarrow> bool \<Rightarrow> app_policy runtime option \<times> transport_status" where
  "open_radio io running ready =
     (if running \<and> ready \<and> environment_switch (sta_wifi_env io) \<and> sta_lan_ready io
      then (Some (fst (runtime_new (Inl (lan_policy_new lan_policy_config_default)) (sta_transport_mtu io)
                    (sta_transport_closed io))), TransportWifiLan)
      else if running \<and> ready \<and> environment_switch (sta_antenna_env io) \<and> sta_cap_ready io
      then (let rt = fst (runtime_new (Inr (japan920_new japan920_policy_config_default)) (sta_transport_mtu io)
                       (sta_transport_closed io))
            in (Some rt, if runtime_ready (sta_transport_connected io) rt then TransportLoRa else TransportOffline))
      else (None, TransportOffline))"

text \<open>From the constructed session to the main loop.\<close>

definition app_open :: "start_io \<Rightarrow> session \<Rightarrow> disk \<Rightarrow> app_policy app" where
  "app_open io s d =
     (let running = (sta_fonts io \<and> (startup_status s = SessionReady \<or> startup_status s = RecoveryRequired));
          (seeded, s, d) = (if running then seed_demo_history (sta_seed_env io) (sta_seed io) s d else (True, s, d));
          running = (running \<and> seeded);
          (rt, status) = open_radio io running (startup_status s = SessionReady);
          reported = (case rt of None \<Rightarrow> False | Some rt \<Rightarrow> runtime_ready (sta_transport_connected io) rt);
          vm = view_model_new (messenger s) (view_locale (session_locale s)) (startup_status s = RecoveryRequired)
                 (session_skip_title s);
          vm = set_transport_status (if reported then status else TransportOffline) vm;
          st = \<lparr>ap_vm = vm, ap_session = s, ap_disk = d, ap_runtime = rt, ap_transport_status = status,
                ap_reported_ready = reported, ap_running = running, ap_exit_code = (if running then 0 else 1)\<rparr>
      in if running then snd (render (sta_show io) st) else st)"

text \<open>What the script's expectations read.\<close>

definition app_probe :: "bytes \<Rightarrow> 'p app \<Rightarrow> bytes option \<times> 'p app" where
  "app_probe field st =
     (if field = ascii ''screen'' then (Some (screen_probe (vm_screen (ap_vm st))), st)
      else if field = ascii ''modal'' then (Some (modal_probe (am_id (vm_modal (ap_vm st)))), st)
      else if field = ascii ''locale''
      then (Some (if vm_locale (ap_vm st) = LocaleSimplifiedChinese then ascii ''zh-hans''
                  else locale_code (vm_locale (ap_vm st))), st)
      else if field = ascii ''focus''
      then (case snapshot (messenger (ap_session st)) (ap_vm st) of (shown, vm) \<Rightarrow> (Some (focus_probe shown), st\<lparr>ap_vm := vm\<rparr>))
      else if field = ascii ''status''
      then (Some (if am_id (vm_modal (ap_vm st)) = ModalStatus then ascii ''queued'' else ascii ''idle''), st)
      else if field = ascii ''count'' then (Some (to_decimal (length (entries (ms_timeline (messenger (ap_session st)))))), st)
      else if field = ascii ''persistence''
      then (Some (if startup_status (ap_session st) = SessionReady then ascii ''ready'' else ascii ''recovery''), st)
      else if field = ascii ''newest-state'' then (Some (newest_state_probe (messenger (ap_session st))), st)
      else (None, st))"

section \<open>The session as the owner of the messenger\<close>

definition owner_ok :: "session \<times> disk \<Rightarrow> bool" where
  "owner_ok = (\<lambda>(s, d). messenger_ok (messenger s) \<and> (startup_status s = SessionReady \<longrightarrow> session_live s d))"

definition key_io_ok :: "key_io \<Rightarrow> bool" where
  "key_io_ok io \<longleftrightarrow> ports_wf (kio_ports io)"

lemma session_live_inv: "session_live s d \<Longrightarrow> session_inv s d"
  by (auto simp: session_inv_def session_live_def intro: live_disk_ok)

lemma session_execute_parts:
  assumes "session_execute io ports c s d = (r, s', d')"
  obtains asked oks calls s1 where "answer_calls io asked s d = (oks, s1, d')"
    "snd (snd (execute (ports\<lparr>port_commit := Some (True, True)\<rparr>) c (messenger s))) = asked"
    "execute (ports\<lparr>port_commit := Some oks\<rparr>) c (messenger s) = (r, messenger s', calls)"
    "s' = s1\<lparr>messenger := messenger s'\<rparr>"
proof -
  let ?asked = "snd (snd (execute (ports\<lparr>port_commit := Some (True, True)\<rparr>) c (messenger s)))"
  obtain oks s1 d1 where a: "answer_calls io ?asked s d = (oks, s1, d1)" by (metis prod_cases3)
  obtain r1 m calls where e: "execute (ports\<lparr>port_commit := Some oks\<rparr>) c (messenger s) = (r1, m, calls)" by (metis prod_cases3)
  have "session_execute io ports c s d = (r1, s1\<lparr>messenger := m\<rparr>, d1)"
    using a e by (simp add: session_execute_def Let_def case_prod_beta)
  then show ?thesis using that a e assms by auto
qed

text \<open>A session that is not ready stays as it is, up to its messenger.\<close>

lemma execute_unready:
  assumes "session_execute io ports c s d = (r, s', d')" "startup_status s \<noteq> SessionReady"
  shows "startup_status s' = startup_status s \<and> d' = d"
proof -
  obtain asked oks s1 where a: "answer_calls io asked s d = (oks, s1, d')" and s': "s' = s1\<lparr>messenger := messenger s'\<rparr>"
    using assms(1) by (rule session_execute_parts)
  have "startup_status s' = startup_status s1" using arg_cong [OF s', of startup_status] by simp
  then show ?thesis using unready_answers [OF assms(2) a] by simp
qed

lemma owner_step:
  assumes "owner_ok (s, d)" "messenger_ok (messenger s')" "startup_status s = SessionReady \<Longrightarrow> session_step (s, d) (s', d')"
    "startup_status s \<noteq> SessionReady \<Longrightarrow> startup_status s' \<noteq> SessionReady"
  shows "owner_ok (s', d')"
proof (cases "startup_status s = SessionReady")
  case True
  then have "session_inv s' d'" using session_step_inv [OF assms(3) [OF True]] assms(1) session_live_inv by (auto simp: owner_ok_def)
  then show ?thesis using assms(2) by (auto simp: owner_ok_def session_inv_def)
next
  case False
  then show ?thesis using assms(2,4) by (simp add: owner_ok_def)
qed

lemma execute_owner:
  assumes "owner_ok (s, d)" "ports_wf ports" "command_wf c" "session_execute io ports c s d = (r, s', d')"
  shows "owner_ok (s', d')"
proof -
  have "messenger_ok (messenger s)" using assms(1) by (simp add: owner_ok_def)
  then have "messenger_ok (messenger s')" by (rule session_execute_keeps_ok [OF assms(4,2,3)])
  then show ?thesis using step_execute [OF assms(2-4)] execute_unready [OF assms(4)] by (intro owner_step [OF assms(1)]) simp_all
qed

lemma settings_owner:
  assumes "owner_ok (s, d)" "set_locale ans l s d = (ok, s', d') \<or> set_skip_title ans b s d = (ok, s', d')"
  shows "owner_ok (s', d') \<and> messenger s' = messenger s \<and> session_step (s, d) (s', d')"
proof -
  have step: "session_step (s, d) (s', d')" using assms(2) step_locale step_skip_title by blast
  have "messenger s' = messenger s" "startup_status s \<noteq> SessionReady \<Longrightarrow> startup_status s' \<noteq> SessionReady"
    using assms(2) by (auto simp: set_locale_def set_skip_title_def commit_settings_def
        split: option.splits if_splits settings_answer.splits)
  then show ?thesis using owner_step [OF assms(1) _ step] assms(1) step by (auto simp: owner_ok_def)
qed

interpretation ui: messenger_owner session_ports key_io_ok owner_ok "\<lambda>(s, d). messenger s"
proof
  fix io
  show "up_messenger (session_ports io) = (\<lambda>(s, d). messenger s)" by (simp add: session_ports_def)
next
  fix w
  show "owner_ok w \<Longrightarrow> messenger_ok (case w of (s, d) \<Rightarrow> messenger s)" by (auto simp: owner_ok_def split: prod.splits)
next
  fix io and w w' :: "session \<times> disk" and d r
  assume io: "key_io_ok io" and w: "owner_ok w" and wf: "command_wf (Compose d)" and run: "up_compose (session_ports io) d w = (r, w')"
  obtain s x s' x' where [simp]: "w = (s, x)" "w' = (s', x')" by (metis prod.exhaust)
  have e: "session_execute (kio_session io) (kio_ports io) (Compose d) s x = (r, s', x')"
    using run by (auto simp: session_ports_def split: prod.splits)
  have p: "ports_wf (kio_ports io)" using io by (simp add: key_io_ok_def)
  obtain oks calls where "compose (kio_ports io\<lparr>port_commit := Some oks\<rparr>) d (messenger s) = (r, messenger s', calls)"
    by (rule session_execute_parts [OF e]) simp
  moreover have "ports_wf (kio_ports io\<lparr>port_commit := Some oks\<rparr>)" using p by (simp add: ports_wf_def)
  ultimately show "owner_ok w' \<and> (\<exists>ports calls. ports_wf ports \<and> compose ports d (case w of (s, d) \<Rightarrow> messenger s) = (r, case w' of (s, d) \<Rightarrow> messenger s, calls))"
    using execute_owner [OF w [simplified] p wf e] by auto
next
  fix io and w w' :: "session \<times> disk" and pl ps l ok b
  assume w: "owner_ok w" and c: "up_settings_commit (session_ports io) = Some (pl, ps)" and run: "pl l w = (ok, w') \<or> ps b w = (ok, w')"
  obtain s d s' d' where [simp]: "w = (s, d)" "w' = (s', d')" by (metis prod.exhaust)
  have "set_locale (kio_settings io) (stored_locale_of l) s d = (ok, s', d') \<or> set_skip_title (kio_settings io) b s d = (ok, s', d')"
    using c run by (auto simp: session_ports_def split: prod.splits)
  then show "owner_ok w' \<and> (case w' of (s, d) \<Rightarrow> messenger s) = (case w of (s, d) \<Rightarrow> messenger s)"
    using settings_owner [OF w [simplified]] by auto
qed

section \<open>Runs\<close>

text \<open>The keys handled so far with their actions, from the state \<open>st0\<close> at which the main loop starts. The parts of a
  turn may come in any order.\<close>

inductive app_run :: "lv_keys \<Rightarrow> 'p policy_ops \<Rightarrow> 'p app \<Rightarrow> (key_event \<times> ui_action) list \<Rightarrow> 'p app \<Rightarrow> bool" for lv ops st0 where
  app_begin: "app_run lv ops st0 [] st0"
| app_key: "app_run lv ops st0 tr st \<Longrightarrow> key_io_ok io \<Longrightarrow> on_key lv io key st = (Some (a, shown), st') \<Longrightarrow>
    app_run lv ops st0 (tr @ [(semantic_key lv key, a)]) st'"
| app_pump: "app_run lv ops st0 tr st \<Longrightarrow> (\<And>mid. fill_wf (pio_fill (lio_pump io) mid)) \<Longrightarrow>
    pump_radio ops io st = (st', offers) \<Longrightarrow> app_run lv ops st0 tr st'"
| app_stop: "app_run lv ops st0 tr st \<Longrightarrow> app_run lv ops st0 tr (request_stop st)"
| app_fail: "app_run lv ops st0 tr st \<Longrightarrow> app_run lv ops st0 tr (request_failure st)"
| app_probed: "app_run lv ops st0 tr st \<Longrightarrow> app_run lv ops st0 tr (snd (app_probe field st))"

lemma app_keys:
  "app_run lv ops st0 tr st \<Longrightarrow> list_all (\<lambda>(io, key). key_io_ok io) keys \<Longrightarrow>
     \<exists>tr'. app_run lv ops st0 tr' (fold (\<lambda>(kio, key) st. snd (on_key lv kio key st)) keys st)"
proof (induction keys arbitrary: tr st)
  case (Cons k keys)
  obtain io key where k: "k = (io, key)" by (cases k)
  obtain x st' where x: "on_key lv io key st = (x, st')" by fastforce
  have "\<exists>tr'. app_run lv ops st0 tr' st'"
  proof (cases x)
    case None
    then have "st' = st" using x by (auto simp: on_key_def Let_def split: if_splits prod.splits bool.splits)
    then show ?thesis using Cons.prems(1) by blast
  next
    case (Some y)
    obtain a shown where "y = (a, shown)" by (cases y)
    then have "app_run lv ops st0 (tr @ [(semantic_key lv key, a)]) st'"
      using app_key [OF Cons.prems(1)] Cons.prems(2) k x Some by auto
    then show ?thesis by blast
  qed
  then show ?case using Cons.IH Cons.prems(2) k x by auto
qed auto

text \<open>A turn of the main loop is a run.\<close>

lemma loop_turn_run:
  assumes "app_run lv ops st0 tr st" "list_all (\<lambda>(io, key). key_io_ok io) keys" "\<And>mid. fill_wf (pio_fill (lio_pump io) mid)"
    "loop_turn lv ops keys io st = (st', offers)"
  shows "\<exists>tr'. app_run lv ops st0 tr' st'"
proof -
  define st1 where "st1 = fold (\<lambda>(kio, key) st. snd (on_key lv kio key st)) keys st"
  define st2 where "st2 = (if lio_display_deleted io then request_stop st1 else st1)"
  obtain st3 offs where p: "pump_radio ops io st2 = (st3, offs)" by fastforce
  obtain tr1 where "app_run lv ops st0 tr1 st1" using app_keys [OF assms(1,2)] st1_def by blast
  then have "app_run lv ops st0 tr1 st2" by (simp add: st2_def app_stop)
  then have "app_run lv ops st0 tr1 st3" using app_pump [OF _ assms(3) p] by blast
  moreover have "st' = (if lio_script_failed io then request_failure st3 else st3)"
    using assms(4) p unfolding loop_turn_def Let_def st1_def [symmetric] st2_def [symmetric] by auto
  ultimately have "app_run lv ops st0 tr1 st'" using app_fail by (cases "lio_script_failed io") simp_all
  then show ?thesis by blast
qed

subsection \<open>The radio keeps the identity\<close>

lemma mark_identity: "ms_identity (fst (snd (messenger_transition ports mid b m))) = ms_identity m"
  by (auto simp: messenger_transition_def Let_def split: option.splits prod.splits)

lemma execute_identity:
  assumes "session_execute io ports c s d = (r, s', d')"
    "c = MarkFailed mid \<or> c = MarkBroadcast mid \<or> c = AcceptReceived p"
  shows "ms_identity (messenger s') = ms_identity (messenger s)"
proof -
  obtain oks calls where e: "execute (ports\<lparr>port_commit := Some oks\<rparr>) c (messenger s) = (r, messenger s', calls)"
    by (rule session_execute_parts [OF assms(1)])
  then have m: "messenger s' = fst (snd (execute (ports\<lparr>port_commit := Some oks\<rparr>) c (messenger s)))" by simp
  have "ms_identity (fst (snd (accept_received q p m))) = ms_identity m" for q p m
    by (auto simp: accept_received_def Let_def split: option.splits prod.splits)
  then show ?thesis using assms(2) mark_identity unfolding m
    by (auto simp: messenger_mark_failed_def messenger_mark_broadcast_def)
qed

lemma enqueue_identity:
  "enqueue_queued_loop io now es rt s d = (c, rt', s', d') \<Longrightarrow> ms_identity (messenger s') = ms_identity (messenger s)"
proof (induction es arbitrary: rt s d)
  case (Cons e es)
  then show ?case using execute_identity
    by (fastforce simp: Let_def split: if_splits prod.splits)
qed simp

lemma accept_identity:
  "accept_received_post io ports b s d = (r, s', d') \<Longrightarrow> ms_identity (messenger s') = ms_identity (messenger s)"
  using execute_identity
  by (fastforce simp: accept_received_post_def split: if_splits sum.splits dedupe_classification.splits prod.splits)

lemma process_identity:
  "process_loop io now work c rt s d = (c', rt', s', d') \<Longrightarrow> ms_identity (messenger s') = ms_identity (messenger s)"
proof (induction work arbitrary: c rt s d)
  case (Suc work)
  then show ?case using accept_identity
    by (fastforce simp: Let_def split: if_splits prod.splits option.splits)
qed simp

lemma pump_identity:
  assumes "runtime_pump ops io now rt s d = ((c, rt', s', d'), offers)"
  shows "ms_identity (messenger s') = ms_identity (messenger s)"
proof -
  have ev: "ms_identity (messenger s2) = ms_identity (messenger s1)" if "pump_outbound ops io now rt1 s1 d1 = ((c2, rt2, s2, d2), offs)"
    for rt1 s1 d1 c2 rt2 s2 d2 offs
    using that execute_identity
    by (fastforce simp: pump_outbound_def mark_event_def Let_def split: option.splits if_splits prod.splits)
  show ?thesis using assms ev enqueue_identity process_identity
    by (fastforce simp: runtime_pump_def enqueue_queued_posts_def pump_inbound_def split: if_splits prod.splits)
qed

subsection \<open>Invariant\<close>

definition runtime_ok :: "'p runtime \<Rightarrow> bool" where
  "runtime_ok rt \<longleftrightarrow> scheduler_ok (rt_scheduler rt) \<and> (rt_valid rt \<longrightarrow> ingress_ok (rt_inbound rt))"

definition app_ok :: "'p app \<Rightarrow> bool" where
  "app_ok st \<longleftrightarrow>
     owner_ok (ap_session st, ap_disk st) \<and> vm_ok (own_id (messenger (ap_session st))) (ap_vm st) \<and>
     (case ap_runtime st of None \<Rightarrow> True | Some rt \<Rightarrow> runtime_ok rt)"

lemma app_ok_stop [simp]: "app_ok (request_stop st) = app_ok st" "app_ok (request_failure st) = app_ok st"
  by (simp_all add: app_ok_def request_stop_def request_failure_def)

lemma owner_okD: "owner_ok (s, d) \<Longrightarrow> messenger_ok (messenger s)" "owner_ok (s, d) \<Longrightarrow> startup_status s = SessionReady \<Longrightarrow> session_live s d"
  by (simp_all add: owner_ok_def)

lemma render_fields:
  "ap_session (snd (render ok st)) = ap_session st" "ap_disk (snd (render ok st)) = ap_disk st"
  "ap_runtime (snd (render ok st)) = ap_runtime st"
  "ap_vm (snd (render ok st)) = snd (snapshot (messenger (ap_session st)) (ap_vm st))"
  "ap_running (snd (render ok st)) = (ok \<and> ap_running st)"
  by (simp_all add: render_def request_failure_def case_prod_beta Let_def)

lemma render_ok: "app_ok st \<Longrightarrow> app_ok (snd (render ok st))"
  using snapshot_model_ok [of "messenger (ap_session st)" "ap_vm st"]
  by (auto simp: app_ok_def render_fields dest: owner_okD)

lemma session_step_messenger: "session_step x y \<Longrightarrow> messenger_ok (messenger (fst x)) \<Longrightarrow> messenger_ok (messenger (fst y))"
proof (induction rule: session_step.induct)
  case (step_locale ans loc s d ok s' d')
  then have "messenger s' = messenger s"
    by (auto simp: set_locale_def commit_settings_def split: option.splits if_splits settings_answer.splits)
  then show ?case using step_locale by simp
next
  case (step_skip_title ans skip s d ok s' d')
  then have "messenger s' = messenger s"
    by (auto simp: set_skip_title_def commit_settings_def split: option.splits if_splits settings_answer.splits)
  then show ?case using step_skip_title by simp
next
  case (step_shutdown s d)
  then show ?case by (simp add: session_shutdown_def release_locks_def)
qed (auto intro: session_execute_keeps_ok accept_post_keeps_ok)

lemma session_steps_messenger:
  "session_step\<^sup>*\<^sup>* x y \<Longrightarrow> messenger_ok (messenger (fst x)) \<Longrightarrow> messenger_ok (messenger (fst y))"
  by (induction rule: rtranclp_induct) (auto intro: session_step_messenger)

lemma quiet_runtime:
  assumes "quiet ops (rt, s, d) (rt', s', d')" "runtime_ok rt"
  shows "runtime_ok rt'"
proof -
  obtain ls where "sched_run ops (rt_scheduler rt, rt_policy rt) ls (rt_scheduler rt', rt_policy rt')"
    using assms(1) by (auto simp: quiet_def)
  then show ?thesis using assms sched_run_ok by (fastforce simp: runtime_ok_def quiet_def)
qed

lemma pump_keeps:
  assumes run: "runtime_pump ops io now rt s d = ((c, rt', s', d'), offers)" and w: "owner_ok (s, d)" and rt: "runtime_ok rt"
    and fill: "\<And>mid. fill_wf (pio_fill io mid)"
  shows "owner_ok (s', d')" "runtime_ok rt'" "session_step\<^sup>*\<^sup>* (s, d) (s', d')"
proof -
  have "owner_ok (s', d') \<and> runtime_ok rt' \<and> session_step\<^sup>*\<^sup>* (s, d) (s', d')"
  proof (cases "startup_status s = SessionReady")
    case False
    then show ?thesis using run w rt by (auto simp: runtime_pump_def)
  next
    case True
    have inv: "session_inv s d" using session_live_inv owner_okD(2) [OF w True] by blast
    show ?thesis
    proof (rule runtime_pump_parts [OF run inv fill])
      fix rt1 s1 d1 rt2 s2 d2 ev
      assume q1: "quiet ops (rt, s, d) (rt1, s1, d1)"
        and st: "sched_step ops (rt_scheduler rt1, rt_policy rt1) (LPumped now ev offers) (rt_scheduler rt2, rt_policy rt2)"
        and ss: "session_step\<^sup>*\<^sup>* (s1, d1) (s2, d2)" and same: "rt_valid rt2 = rt_valid rt1" "rt_inbound rt2 = rt_inbound rt1"
        and q2: "quiet ops (rt2, s2, d2) (rt', s', d')"
      have r1: "runtime_ok rt1" by (rule quiet_runtime [OF q1 rt])
      have "sched_run ops (rt_scheduler rt1, rt_policy rt1) ([] @ [LPumped now ev offers]) (rt_scheduler rt2, rt_policy rt2)"
        by (rule sched_snoc [OF sched_refl st])
      from sched_run_ok [OF this] r1 same have "runtime_ok rt2" by (simp add: runtime_ok_def)
      then have r: "runtime_ok rt'" by (rule quiet_runtime [OF q2])
      have steps: "session_step\<^sup>*\<^sup>* (s, d) (s', d')" using q1 ss q2 by (auto simp: quiet_def)
      have "session_inv s' d'" using session_steps_inv [OF steps] inv by simp
      moreover have "messenger_ok (messenger s')" using session_steps_messenger [OF steps] owner_okD(1) [OF w] by simp
      ultimately show ?thesis using r steps by (auto simp: owner_ok_def session_inv_def)
    qed (use w rt in auto)
  qed
  then show "owner_ok (s', d')" "runtime_ok rt'" "session_step\<^sup>*\<^sup>* (s, d) (s', d')" by blast+
qed

lemma transport_status_ok [simp]: "vm_ok own (set_transport_status t vm) = vm_ok own vm"
  by (simp add: vm_ok_def set_transport_status_def)

lemma pump_radio_ok:
  assumes st: "app_ok st" and fill: "\<And>mid. fill_wf (pio_fill (lio_pump io) mid)" and run: "pump_radio ops io st = (st', offers)"
  shows "app_ok st' \<and> session_step\<^sup>*\<^sup>* (ap_session st, ap_disk st) (ap_session st', ap_disk st')"
proof (cases "ap_runtime st")
  case None
  then show ?thesis using run st by (simp add: pump_radio_def)
next
  case (Some rt)
  obtain c rt' s d offs where p: "runtime_pump ops (lio_pump io) (monotonic_milliseconds (lio_now io)) rt (ap_session st) (ap_disk st)
      = ((c, rt', s, d), offs)" by (metis prod.exhaust)
  have o: "owner_ok (ap_session st, ap_disk st)" and v: "vm_ok (own_id (messenger (ap_session st))) (ap_vm st)" and r: "runtime_ok rt"
    using st Some by (simp_all add: app_ok_def)
  note k = pump_keeps [OF p o r fill]
  have m: "messenger_ok (messenger s)" by (rule owner_okD(1) [OF k(1)])
  have id: "own_id (messenger s) = own_id (messenger (ap_session st))" using pump_identity [OF p] by (simp add: own_id_def)
  define st1 where "st1 = st\<lparr>ap_runtime := Some rt', ap_session := s, ap_disk := d\<rparr>"
  have ok1: "app_ok (st1\<lparr>ap_vm := vm\<rparr>)" if "vm_ok (own_id (messenger s)) vm" for vm
    using k that by (simp add: app_ok_def st1_def)
  have v1: "vm_ok (own_id (messenger s)) (ap_vm st)" using v id by simp
  have ok: "app_ok st1" using ok1 [OF v1] by (simp add: st1_def)
  have ok2: "app_ok (st1\<lparr>ap_reported_ready := b, ap_vm := vm\<rparr>)" if "vm_ok (own_id (messenger s)) vm" for b vm
    using ok1 [OF that] by (simp add: app_ok_def st1_def)
  have vms: "ap_vm st1 = ap_vm st" by (simp add: st1_def)
  have e: "st' \<in> {st1, snd (render (lio_render io) (st1\<lparr>ap_vm := reconcile_model (messenger s) (ap_vm st1)\<rparr>))} \<union>
      {snd (render (lio_render io) (st1\<lparr>ap_reported_ready := b, ap_vm := set_transport_status t (ap_vm st1)\<rparr>)) | b t. True}"
    using run Some p unfolding pump_radio_def by (auto simp: st1_def Let_def split: if_splits)
  moreover have "app_ok (st1\<lparr>ap_vm := reconcile_model (messenger s) (ap_vm st1)\<rparr>)"
    by (rule ok1) (simp add: vms reconcile_model_ok [OF m v1])
  moreover have "app_ok (st1\<lparr>ap_reported_ready := b, ap_vm := set_transport_status t (ap_vm st1)\<rparr>)" for b t
    by (rule ok2) (simp add: vms v1)
  ultimately have "app_ok st'" using ok render_ok by auto
  moreover have "ap_session st' = s" "ap_disk st' = d" using e by (auto simp: render_fields st1_def)
  ultimately show ?thesis using k(3) by simp
qed

subsection \<open>Key events\<close>

text \<open>What a key can do to the owner: nothing, compose the draft, or change a setting.\<close>

lemma handle_world:
  assumes "handle up ev vm w = (a, vm', w')"
  shows "w' = w \<or> (\<exists>r. up_compose up (post_draft_of (vm_draft vm)) w = (r, w')) \<or>
    (\<exists>pl ps l b ok. up_settings_commit up = Some (pl, ps) \<and> (pl l w = (ok, w') \<or> ps b w = (ok, w')))"
  using assms
proof (cases rule: handle_parts)
  case screen
  let ?v = "reconcile_model (up_messenger up w) vm"
  have c: "w' = w \<or> (\<exists>r. up_compose up (post_draft_of (vm_draft vm)) w = (r, w'))"
    if "handle_compose up ev ?v w = (a, vm', w')"
    using that by (cases "ev_key ev")
      (auto simp: handle_compose_def send_draft_def show_status_def edit_draft_def Let_def split: if_splits option.splits prod.splits)
  have s: "w' = w \<or> (\<exists>pl ps l b ok. up_settings_commit up = Some (pl, ps) \<and> (pl l w = (ok, w') \<or> ps b w = (ok, w')))"
    if "handle_settings up ev ?v w = (a, vm', w')"
    using that by (auto simp: handle_settings_def commit_locale_def commit_skip_title_def Let_def
        split: if_splits option.splits prod.splits bool.splits)
  show ?thesis using screen(3) c s by (cases "vm_screen ?v") (auto split: prod.splits)
qed auto

lemma handle_session:
  assumes io: "key_io_ok io" and w: "owner_ok (s, d)" and vm: "vm_ok (own_id (messenger s)) vm"
    and run: "handle (session_ports io) ev vm (s, d) = (a, vm', s', d')"
  shows "owner_ok (s', d')" "vm_ok (own_id (messenger s')) vm'" "own_id (messenger s') = own_id (messenger s)"
    "session_step\<^sup>*\<^sup>* (s, d) (s', d')"
proof -
  show "owner_ok (s', d')" "vm_ok (own_id (messenger s')) vm'" "own_id (messenger s') = own_id (messenger s)"
    using ui.handle_ok [OF io w _ run] vm by auto
  have wf: "command_wf (Compose (post_draft_of (vm_draft vm)))"
    using vm draft_mentions_ok by (auto simp: vm_ok_def post_draft_of_def)
  from handle_world [OF run] show "session_step\<^sup>*\<^sup>* (s, d) (s', d')"
  proof (elim disjE)
    assume "\<exists>r. up_compose (session_ports io) (post_draft_of (vm_draft vm)) (s, d) = (r, s', d')"
    then obtain r where "session_execute (kio_session io) (kio_ports io) (Compose (post_draft_of (vm_draft vm))) s d = (r, s', d')"
      by (auto simp: session_ports_def split: prod.splits)
    then show ?thesis using step_execute [OF io [unfolded key_io_ok_def] wf] by blast
  next
    assume "\<exists>pl ps l b ok. up_settings_commit (session_ports io) = Some (pl, ps) \<and> (pl l (s, d) = (ok, s', d') \<or> ps b (s, d) = (ok, s', d'))"
    then obtain l b ok where "set_locale (kio_settings io) (stored_locale_of l) s d = (ok, s', d') \<or> set_skip_title (kio_settings io) b s d = (ok, s', d')"
      by (auto simp: session_ports_def split: prod.splits)
    from settings_owner [OF w this] show ?thesis by blast
  qed simp
qed

lemma delete_owner:
  assumes "owner_ok (s, d)" "delete_all io s d = (ok, s', d')"
  shows "owner_ok (s', d') \<and> messenger s' = messenger s"
  using assms by (auto simp: delete_all_def owner_ok_def Let_def split: if_splits)

text \<open>The view model, the session and the disk after a key, before the screen is drawn.\<close>

lemma on_key_parts:
  assumes "on_key lv io key st = (Some (a, shown), st')"
  obtains vm s d where "ap_running st" "handle (session_ports io) (semantic_key lv key) (ap_vm st) (ap_session st, ap_disk st) = (a, vm, s, d)"
    "\<not> delete_data_approved a \<longrightarrow> ap_session st' = s \<and> ap_disk st' = d \<and>
       ap_vm st' = (if render_required a then snd (snapshot (messenger s) vm) else vm)"
    "delete_data_approved a \<longrightarrow> (\<exists>ok. delete_all (kio_delete io) s d = (ok, ap_session st', ap_disk st') \<and>
       ap_vm st' = (if ok then vm else snd (snapshot (messenger (ap_session st')) (report_storage_failure vm))))"
    "ap_runtime st' = ap_runtime st" "exit_approved a \<longrightarrow> \<not> delete_data_approved a \<longrightarrow> \<not> ap_running st'"
proof -
  obtain b vm s d where h: "handle (session_ports io) (semantic_key lv key) (ap_vm st) (ap_session st, ap_disk st) = (b, vm, s, d)"
    by (metis prod_cases4)
  have run: "ap_running st" using assms by (auto simp: on_key_def split: if_splits)
  obtain ok s1 d1 where del: "delete_all (kio_delete io) s d = (ok, s1, d1)" by (metis prod_cases3)
  note e = assms [unfolded on_key_def, simplified run h, simplified, unfolded Let_def, simplified del prod.case]
  have a: "a = b" using e by (auto simp: case_prod_beta split: if_splits bool.splits)
  have rn: "ap_running (snd (render r x)) = (r \<and> ap_running x)" for r and x :: "'a app" by (rule render_fields)
  show ?thesis
    by (rule that [OF run h [folded a]])
      (use e a del in \<open>auto simp: render_fields request_stop_def case_prod_beta split: if_splits bool.splits\<close>)
qed

lemma on_key_ok:
  assumes io: "key_io_ok io" and st: "app_ok st" and run: "on_key lv io key st = (Some (a, shown), st')"
  shows "app_ok st'" "\<not> delete_data_approved a \<Longrightarrow> session_step\<^sup>*\<^sup>* (ap_session st, ap_disk st) (ap_session st', ap_disk st')"
proof -
  obtain vm s d where "ap_running st" and h: "handle (session_ports io) (semantic_key lv key) (ap_vm st) (ap_session st, ap_disk st) = (a, vm, s, d)"
    and kept: "\<not> delete_data_approved a \<longrightarrow> ap_session st' = s \<and> ap_disk st' = d \<and>
       ap_vm st' = (if render_required a then snd (snapshot (messenger s) vm) else vm)"
    and gone: "delete_data_approved a \<longrightarrow> (\<exists>ok. delete_all (kio_delete io) s d = (ok, ap_session st', ap_disk st') \<and>
       ap_vm st' = (if ok then vm else snd (snapshot (messenger (ap_session st')) (report_storage_failure vm))))"
    and rt: "ap_runtime st' = ap_runtime st" and "exit_approved a \<longrightarrow> \<not> delete_data_approved a \<longrightarrow> \<not> ap_running st'"
    using run by (rule on_key_parts)
  have o: "owner_ok (ap_session st, ap_disk st)" "vm_ok (own_id (messenger (ap_session st))) (ap_vm st)" using st by (simp_all add: app_ok_def)
  note s = handle_session [OF io o h]
  show "session_step\<^sup>*\<^sup>* (ap_session st, ap_disk st) (ap_session st', ap_disk st')" if "\<not> delete_data_approved a"
    using s(4) kept that by simp
  have "owner_ok (ap_session st', ap_disk st') \<and> vm_ok (own_id (messenger (ap_session st'))) (ap_vm st')"
  proof (cases "delete_data_approved a")
    case False
    then show ?thesis using s(1,2) kept snapshot_model_ok [OF owner_okD(1) [OF s(1)] s(2)] by simp
  next
    case True
    then obtain ok where g: "delete_all (kio_delete io) s d = (ok, ap_session st', ap_disk st')"
       "ap_vm st' = (if ok then vm else snd (snapshot (messenger (ap_session st')) (report_storage_failure vm)))" using gone by blast
    have w: "owner_ok (ap_session st', ap_disk st')" and m: "messenger (ap_session st') = messenger s"
      using delete_owner [OF s(1) g(1)] by simp_all
    have "vm_ok (own_id (messenger s)) (report_storage_failure vm)" unfolding modal_defs using s(2) by (intro show_modal_ok) simp_all
    then show ?thesis using w m g(2) s(2) snapshot_model_ok [OF owner_okD(1) [OF s(1)]] by simp
  qed
  then show "app_ok st'" using st rt by (simp add: app_ok_def)
qed

lemma probe_ok: "app_ok st \<Longrightarrow> app_ok (snd (app_probe field st))"
  using snapshot_model_ok [of "messenger (ap_session st)" "ap_vm st"] owner_okD(1)
  by (auto simp: app_probe_def app_ok_def case_prod_beta)

lemma probe_fields:
  "ap_session (snd (app_probe field st)) = ap_session st" "ap_disk (snd (app_probe field st)) = ap_disk st"
  by (simp_all add: app_probe_def case_prod_beta)

lemma app_run_ok: "app_run lv ops st0 tr st \<Longrightarrow> app_ok st0 \<Longrightarrow> app_ok st"
proof (induction rule: app_run.induct)
  case (app_key tr st io key a shown st')
  then show ?case using on_key_ok(1) by blast
next
  case (app_pump tr st io st' offers)
  then show ?case using pump_radio_ok by blast
qed (auto intro: probe_ok)

text \<open>Without an approved deletion the session only makes its own steps.\<close>

lemma app_run_session:
  assumes "app_run lv ops st0 tr st" "app_ok st0" "list_all (\<lambda>(ev, a). \<not> delete_data_approved a) tr"
  shows "session_step\<^sup>*\<^sup>* (ap_session st0, ap_disk st0) (ap_session st, ap_disk st)"
  using assms
proof (induction rule: app_run.induct)
  case (app_key tr st io key a shown st')
  then have "session_step\<^sup>*\<^sup>* (ap_session st, ap_disk st) (ap_session st', ap_disk st')"
    using on_key_ok(2) [OF app_key.hyps(2) app_run_ok app_key.hyps(3)] by simp
  then show ?case using app_key by simp
next
  case (app_pump tr st io st' offers)
  then have "session_step\<^sup>*\<^sup>* (ap_session st, ap_disk st) (ap_session st', ap_disk st')"
    using pump_radio_ok [OF app_run_ok app_pump.hyps(2,3)] by blast
  then show ?case using app_pump by simp
qed (simp_all add: request_stop_def request_failure_def probe_fields)

subsection \<open>The start\<close>

lemma demo_uuid_wf: "uuid_wf (demo_uuid x)"
  by (simp add: uuid_wf_def demo_uuid_def Let_def)

lemma demo_ports_wf: "ports_wf demo_ports"
  by (simp add: ports_wf_def demo_ports_def demo_random_def)

lemma demo_accept_ok:
  assumes "demo_accept i m = Some m'" "input_wf i" "messenger_ok m"
  shows "messenger_ok m'"
proof -
  obtain p where p: "post_payload_create i = Inr p" using assms(1) by (auto simp: demo_accept_def split: sum.splits)
  obtain r x calls where a: "accept_received demo_ports p m = (r, x, calls)" by (metis prod_cases3)
  then have "m' = x" using assms(1) p by (auto simp: demo_accept_def split: if_splits)
  then show ?thesis using accept_received_ok [OF assms(3) create_post_ok [OF p assms(2)] a] by simp
qed

lemma demo_scenario_ok: "demo_scenario = Some m \<Longrightarrow> messenger_ok m"
proof -
  assume d: "demo_scenario = Some m"
  obtain m0 where m0: "messenger_new kMaxTimelineEntries 0 = Some m0" using d by (auto simp: demo_scenario_def split: option.splits)
  obtain r m1 calls where i: "initialize_new demo_ports (ascii ''Mika'') m0 = (r, m1, calls)" by (metis prod_cases3)
  have "messenger_ok m0" using m0
    by (auto simp: messenger_new_def timeline_new_def messenger_ok_def timeline_posts_ok_def timeline_ok_def queued_count_def queued_capacity_def)
  then have ok1: "messenger_ok m1" using execute_ok [of m0 demo_ports "InitializeNew (ascii ''Mika'')"] demo_ports_wf i by simp
  obtain m2 j m3 where s: "demo_accept demo_first m1 = Some m2" "ms_identity m2 = Some j"
    "demo_accept (demo_second (install_uuid (identity_install_id j))) m2 = Some m3" "demo_accept (demo_reply (demo_uuid 0x41)) m3 = Some m"
    using d m0 i by (auto simp: demo_scenario_def bind_eq_Some_conv split: if_splits)
  have wf: "input_wf demo_first" "input_wf (demo_reply (demo_uuid 0x41))"
    by (simp_all add: input_wf_def demo_first_def demo_reply_def demo_post_input_def demo_uuid_wf)
  have ok2: "messenger_ok m2" by (rule demo_accept_ok [OF s(1) wf(1) ok1])
  then have "uuid_wf (install_uuid (identity_install_id j))" using s(2) by (simp add: messenger_ok_def identity_ok_def uuid_ok_def)
  then have "input_wf (demo_second (install_uuid (identity_install_id j)))"
    by (simp add: input_wf_def demo_second_def demo_post_input_def demo_uuid_wf)
  then have "messenger_ok m3" using demo_accept_ok [OF s(3) _ ok2] by blast
  then show ?thesis by (rule demo_accept_ok [OF s(4) wf(2)])
qed

lemma seed_loop_ok:
  "seed_loop io es s d = (ok, s', d') \<Longrightarrow> owner_ok (s, d) \<Longrightarrow> list_all (\<lambda>e. post_ok (entry_post e)) es \<Longrightarrow>
     owner_ok (s', d') \<and> session_step\<^sup>*\<^sup>* (s, d) (s', d')"
proof (induction es arbitrary: s d)
  case (Cons e es)
  obtain r s1 d1 where x: "session_execute (io (length es)) idle_ports (AcceptReceived (entry_post e)) s d = (r, s1, d1)"
    by (metis prod_cases3)
  have wf: "command_wf (AcceptReceived (entry_post e))" using Cons.prems by simp
  have "owner_ok (s1, d1)" by (rule execute_owner [OF Cons.prems(2) idle_ports_wf wf x])
  moreover have "session_step (s, d) (s1, d1)" by (rule step_execute [OF idle_ports_wf wf x])
  ultimately show ?case using Cons x by (fastforce split: if_splits intro: converse_rtranclp_into_rtranclp)
qed simp

lemma seed_ok:
  assumes "seed_demo_history env io s d = (ok, s', d')" "owner_ok (s, d)"
  shows "owner_ok (s', d') \<and> session_step\<^sup>*\<^sup>* (s, d) (s', d')"
proof -
  have posts: "list_all (\<lambda>e. post_ok (entry_post e)) (entries (ms_timeline m))" if "demo_scenario = Some m" for m
    using demo_scenario_ok [OF that] by (simp add: messenger_ok_def timeline_posts_ok_def)
  show ?thesis using assms seed_loop_ok [OF _ assms(2) posts]
    by (auto simp: seed_demo_history_def split: if_splits option.splits)
qed

lemma runtime_new_ok: "runtime_ok (fst (runtime_new p mtu c))"
  by (auto simp: runtime_ok_def runtime_new_def Let_def is_supported_mtu_def scheduler_new_ok intro!: inbound_new_ok)

text \<open>The state before the first drawing.\<close>

lemma app_open_parts:
  obtains run seeded s1 d1 st t where
    "(if run then seed_demo_history (sta_seed_env io) (sta_seed io) s d else (True, s, d)) = (seeded, s1, d1)"
    "app_open io s d = (if run \<and> seeded then snd (render (sta_show io) st) else st)" "ap_session st = s1" "ap_disk st = d1"
    "ap_runtime st = fst (open_radio io (run \<and> seeded) (startup_status s1 = SessionReady))"
    "ap_vm st = set_transport_status t (view_model_new (messenger s1) (view_locale (session_locale s1))
       (startup_status s1 = RecoveryRequired) (session_skip_title s1))"
proof -
  define run where "run = (sta_fonts io \<and> (startup_status s = SessionReady \<or> startup_status s = RecoveryRequired))"
  obtain seeded s1 d1 where seed: "(if run then seed_demo_history (sta_seed_env io) (sta_seed io) s d else (True, s, d)) = (seeded, s1, d1)"
    by (metis prod_cases3)
  obtain rt status where radio: "open_radio io (run \<and> seeded) (startup_status s1 = SessionReady) = (rt, status)" by fastforce
  define t where "t = (if (case rt of None \<Rightarrow> False | Some rt \<Rightarrow> runtime_ready (sta_transport_connected io) rt) then status else TransportOffline)"
  define st where "st = \<lparr>ap_vm = set_transport_status t (view_model_new (messenger s1) (view_locale (session_locale s1))
       (startup_status s1 = RecoveryRequired) (session_skip_title s1)), ap_session = s1, ap_disk = d1,
    ap_runtime = rt, ap_transport_status = status,
    ap_reported_ready = (case rt of None \<Rightarrow> False | Some rt \<Rightarrow> runtime_ready (sta_transport_connected io) rt),
    ap_running = (run \<and> seeded), ap_exit_code = (if run \<and> seeded then 0 else 1)\<rparr>"
  have "app_open io s d = (if run \<and> seeded then snd (render (sta_show io) st) else st)"
    unfolding app_open_def Let_def run_def [symmetric] seed prod.case radio t_def [symmetric] st_def ..
  from that [OF seed this] radio show ?thesis by (simp add: st_def)
qed

lemma app_open_ok:
  assumes "owner_ok (s, d)"
  shows "app_ok (app_open io s d)" "session_step\<^sup>*\<^sup>* (s, d) (ap_session (app_open io s d), ap_disk (app_open io s d))"
proof -
  obtain run seeded s1 d1 st t where seed: "(if run then seed_demo_history (sta_seed_env io) (sta_seed io) s d else (True, s, d)) = (seeded, s1, d1)"
    and st: "app_open io s d = (if run \<and> seeded then snd (render (sta_show io) st) else st)" "ap_session st = s1" "ap_disk st = d1"
      "ap_runtime st = fst (open_radio io (run \<and> seeded) (startup_status s1 = SessionReady))"
      "ap_vm st = set_transport_status t (view_model_new (messenger s1) (view_locale (session_locale s1))
         (startup_status s1 = RecoveryRequired) (session_skip_title s1))"
    by (rule app_open_parts)
  have w: "owner_ok (s1, d1)" "session_step\<^sup>*\<^sup>* (s, d) (s1, d1)"
    using seed assms seed_ok by (auto split: if_splits)
  have "case ap_runtime st of None \<Rightarrow> True | Some rt \<Rightarrow> runtime_ok rt"
    using st(4) runtime_new_ok by (auto simp: open_radio_def Let_def split: if_splits option.split)
  then have ok: "app_ok st" using w st(2,3,5) view_model_new_ok by (simp add: app_ok_def)
  then show "app_ok (app_open io s d)" using st(1) render_ok [OF ok, of "sta_show io"] by simp
  show "session_step\<^sup>*\<^sup>* (s, d) (ap_session (app_open io s d), ap_disk (app_open io s d))"
    using w(2) st by (simp add: render_fields)
qed

lemma app_open_dialog:
  "am_id (vm_modal (ap_vm (app_open io s d))) \<in> {ModalNone, ModalStatus, ModalRecovery}"
  "\<not> am_confirm_selected (vm_modal (ap_vm (app_open io s d)))"
  "am_id (vm_modal (ap_vm (app_open io s d))) = ModalRecovery \<longleftrightarrow> startup_status (ap_session (app_open io s d)) = RecoveryRequired"
proof -
  obtain run seeded s1 d1 st t where "(if run then seed_demo_history (sta_seed_env io) (sta_seed io) s d else (True, s, d)) = (seeded, s1, d1)"
    and st: "app_open io s d = (if run \<and> seeded then snd (render (sta_show io) st) else st)" "ap_session st = s1" "ap_disk st = d1"
      "ap_runtime st = fst (open_radio io (run \<and> seeded) (startup_status s1 = SessionReady))"
      "ap_vm st = set_transport_status t (view_model_new (messenger s1) (view_locale (session_locale s1))
         (startup_status s1 = RecoveryRequired) (session_skip_title s1))"
    by (rule app_open_parts)
  have "vm_modal (ap_vm st) = (if startup_status s1 = RecoveryRequired
      then \<lparr>am_id = ModalRecovery, am_message = RecoveryMessage, am_confirm_selected = False\<rparr> else modal_none)"
    using st(5) by (auto simp: set_transport_status_def view_model_new_def Let_def show_modal_def)
  then have a: "am_id (vm_modal (ap_vm st)) \<in> {ModalNone, ModalRecovery}" "\<not> am_confirm_selected (vm_modal (ap_vm st))"
    "am_id (vm_modal (ap_vm st)) = ModalRecovery \<longleftrightarrow> startup_status s1 = RecoveryRequired"
    by (auto simp: modal_none_def)
  have s1: "ap_session (app_open io s d) = s1" using st by (simp add: render_fields)
  have r: "vm_modal (ap_vm (app_open io s d)) = vm_modal (ap_vm st) \<or>
      am_id (vm_modal (ap_vm st)) = ModalNone \<and> am_id (vm_modal (ap_vm (app_open io s d))) = ModalStatus \<and>
        \<not> am_confirm_selected (vm_modal (ap_vm (app_open io s d)))"
    using st(1) reconcile_modal [of "messenger (ap_session st)" "ap_vm st"] by (auto simp: render_fields snapshot_fields)
  show "am_id (vm_modal (ap_vm (app_open io s d))) \<in> {ModalNone, ModalStatus, ModalRecovery}"
    "\<not> am_confirm_selected (vm_modal (ap_vm (app_open io s d)))"
    "am_id (vm_modal (ap_vm (app_open io s d))) = ModalRecovery \<longleftrightarrow> startup_status (ap_session (app_open io s d)) = RecoveryRequired"
    using r a s1 by auto
qed

end
