(* ===== verification/App_Properties.thy ===== *)
theory App_Properties
  imports App_Shell
begin

text \<open>
  What the program of \<^verbatim>\<open>src/app/app.cpp\<close> promises its user over a whole run: a removal of the data is always confirmed, a draft is
  kept until it is stored or discarded, what is stored survives the program, and the screen shows well formed text.
\<close>

section \<open>Dialogs in a run\<close>

text \<open>The user pressed D on the settings screen, and then only keys that keep the dialog; \<open>c\<close> is the choice the last arrow
  made.\<close>

definition asked_delete :: "key_event list \<Rightarrow> bool \<Rightarrow> bool" where
  "asked_delete ks c \<longleftrightarrow>
     (\<exists>pre d mid. ks = pre @ d # mid \<and> is_shortcut d 0x64 \<and>
        list_all (\<lambda>k. ev_key k \<notin> {KeyEscape, KeyEnter, KeyHome}) mid \<and> c = fold chosen_by mid False)"

lemma asked_delete_start: "is_shortcut d 0x64 \<Longrightarrow> asked_delete (ks @ [d]) False"
  unfolding asked_delete_def by (intro exI [of _ ks] exI [of _ d] exI [of _ "[]"]) simp

lemma asked_delete_more:
  "asked_delete ks c \<Longrightarrow> ev_key k \<notin> {KeyEscape, KeyEnter, KeyHome} \<Longrightarrow> asked_delete (ks @ [k]) (chosen_by k c)"
  unfolding asked_delete_def
proof (elim exE conjE)
  fix pre d mid
  assume "ev_key k \<notin> {KeyEscape, KeyEnter, KeyHome}" "ks = pre @ d # mid" "is_shortcut d 0x64"
    "list_all (\<lambda>k. ev_key k \<notin> {KeyEscape, KeyEnter, KeyHome}) mid" "c = fold chosen_by mid False"
  then show "\<exists>pre d mid. ks @ [k] = pre @ d # mid \<and> is_shortcut d 0x64 \<and>
      list_all (\<lambda>k. ev_key k \<notin> {KeyEscape, KeyEnter, KeyHome}) mid \<and> chosen_by k c = fold chosen_by mid False"
    by (intro exI [of _ pre] exI [of _ d] exI [of _ "mid @ [k]"]) simp
qed

definition dialog_inv :: "'p app \<Rightarrow> key_event list \<Rightarrow> 'p app \<Rightarrow> bool" where
  "dialog_inv st0 ks st \<longleftrightarrow>
     (let modal = vm_modal (ap_vm st)
      in (am_id modal = ModalDeleteData \<longrightarrow> asked_delete ks (am_confirm_selected modal)) \<and>
         (am_id modal = ModalRecovery \<longrightarrow> am_id (vm_modal (ap_vm st0)) = ModalRecovery \<and>
            am_confirm_selected modal = fold chosen_by ks False \<and>
            (ap_running st \<longrightarrow> list_all (\<lambda>k. ev_key k \<notin> {KeyEscape, KeyEnter}) ks)))"

lemma snapshot_modal:
  "am_id (vm_modal (snd (snapshot m vm))) \<in> {ModalDeleteData, ModalRecovery} \<Longrightarrow> vm_modal (snd (snapshot m vm)) = vm_modal vm"
  using reconcile_modal [of m vm] by (auto simp: snapshot_fields)

lemma dialog_inv_same:
  assumes "dialog_inv st0 ks st" "ap_running st' \<longrightarrow> ap_running st"
    "am_id (vm_modal (ap_vm st')) \<in> {ModalDeleteData, ModalRecovery} \<Longrightarrow> vm_modal (ap_vm st') = vm_modal (ap_vm st)"
  shows "dialog_inv st0 ks st'"
  using assms by (auto simp: dialog_inv_def Let_def)

lemma dialog_inv_handle:
  assumes inv: "dialog_inv st0 ks st" and run: "ap_running st" and h: "handle up ev (ap_vm st) w = (a, vm, w')"
    and modal: "am_id (vm_modal (ap_vm st')) \<in> {ModalDeleteData, ModalRecovery} \<Longrightarrow> vm_modal (ap_vm st') = vm_modal vm"
    and exit: "exit_approved a \<longrightarrow> \<not> ap_running st'"
  shows "dialog_inv st0 (ks @ [ev]) st'"
proof (cases "am_id (vm_modal (ap_vm st')) \<in> {ModalDeleteData, ModalRecovery}")
  case True
  then have m: "vm_modal (ap_vm st') = vm_modal vm" "am_id (vm_modal vm) \<in> {ModalDeleteData, ModalRecovery}"
    using modal by simp_all
  from handle_dialog [OF h m(2)] show ?thesis
  proof
    assume *: "am_id (vm_modal (ap_vm st)) = am_id (vm_modal vm) \<and> (ev_key ev \<notin> {KeyEscape, KeyEnter} \<or> exit_approved a) \<and>
      (ev_key ev = KeyHome \<longrightarrow> am_id (vm_modal vm) = ModalRecovery) \<and>
      am_confirm_selected (vm_modal vm) = chosen_by ev (am_confirm_selected (vm_modal (ap_vm st)))"
    then have "exit_approved a \<Longrightarrow> am_id (vm_modal vm) = ModalRecovery"
      using handle_approvals(2) [OF h] m(2) by auto
    then show ?thesis using inv * m exit run asked_delete_more [of ks _ ev]
      by (auto simp: dialog_inv_def Let_def)
  next
    assume "am_id (vm_modal (ap_vm st)) = ModalNone \<and> am_id (vm_modal vm) = ModalDeleteData \<and> is_shortcut ev 0x64 \<and>
      \<not> am_confirm_selected (vm_modal vm)"
    then show ?thesis using m asked_delete_start [of ev ks] by (simp add: dialog_inv_def Let_def)
  qed
qed (auto simp: dialog_inv_def Let_def)

lemma on_key_dialog:
  assumes inv: "dialog_inv st0 ks st" and run: "on_key lv io key st = (Some (a, shown), st')"
  shows "dialog_inv st0 (ks @ [semantic_key lv key]) st'"
proof -
  obtain vm s d where r: "ap_running st" and h: "handle (session_ports io) (semantic_key lv key) (ap_vm st) (ap_session st, ap_disk st) = (a, vm, s, d)"
    and kept: "\<not> delete_data_approved a \<longrightarrow> ap_session st' = s \<and> ap_disk st' = d \<and>
       ap_vm st' = (if render_required a then snd (snapshot (messenger s) vm) else vm)"
    and gone: "delete_data_approved a \<longrightarrow> (\<exists>ok. delete_all (kio_delete io) s d = (ok, ap_session st', ap_disk st') \<and>
       ap_vm st' = (if ok then vm else snd (snapshot (messenger (ap_session st')) (report_storage_failure vm))))"
    and "ap_runtime st' = ap_runtime st" and exit: "exit_approved a \<longrightarrow> \<not> delete_data_approved a \<longrightarrow> \<not> ap_running st'"
    using run by (rule on_key_parts)
  have error: "am_id (vm_modal (snd (snapshot m (report_storage_failure vm)))) \<notin> {ModalDeleteData, ModalRecovery}" for m
    using reconcile_modal [of m "report_storage_failure vm"]
    by (auto simp: snapshot_fields report_storage_failure_def show_error_def show_modal_def)
  have modal: "vm_modal (ap_vm st') = vm_modal vm" if "am_id (vm_modal (ap_vm st')) \<in> {ModalDeleteData, ModalRecovery}"
  proof (cases "delete_data_approved a")
    case True
    then obtain ok where "ap_vm st' = (if ok then vm else snd (snapshot (messenger (ap_session st')) (report_storage_failure vm)))"
      using gone by blast
    then show ?thesis using that error by (cases ok) simp_all
  next
    case False
    then have "ap_vm st' = (if render_required a then snd (snapshot (messenger s) vm) else vm)" using kept by blast
    then have "vm = ap_vm st' \<or> ap_vm st' = snd (snapshot (messenger s) vm)" by (cases "render_required a") simp_all
    then show ?thesis using snapshot_modal [of "messenger s" vm] that by (elim disjE) simp_all
  qed
  have "exit_approved a \<longrightarrow> \<not> ap_running st'" using handle_approvals [OF h] exit by auto
  with inv r h modal show ?thesis by (rule dialog_inv_handle)
qed

lemma pump_radio_dialog:
  assumes "pump_radio ops io st = (st', offers)"
  shows "(ap_running st' \<longrightarrow> ap_running st)"
    "am_id (vm_modal (ap_vm st')) \<in> {ModalDeleteData, ModalRecovery} \<Longrightarrow> vm_modal (ap_vm st') = vm_modal (ap_vm st)"
proof -
  have t: "vm_modal (set_transport_status x vm) = vm_modal vm" for x vm by (simp add: set_transport_status_def)
  have rec: "vm_modal (reconcile_model m vm) = vm_modal vm" if "am_id (vm_modal (reconcile_model m vm)) \<in> {ModalDeleteData, ModalRecovery}" for m vm
    using that reconcile_modal [of m vm] by auto
  have "(ap_running st' \<longrightarrow> ap_running st) \<and>
    (am_id (vm_modal (ap_vm st')) \<in> {ModalDeleteData, ModalRecovery} \<longrightarrow> vm_modal (ap_vm st') = vm_modal (ap_vm st))"
  proof (cases "ap_runtime st")
    case None
    then show ?thesis using assms by (simp add: pump_radio_def)
  next
    case (Some rt)
    obtain c rt' s d offs where p: "runtime_pump ops (lio_pump io) (monotonic_milliseconds (lio_now io)) rt (ap_session st) (ap_disk st)
        = ((c, rt', s, d), offs)" by (metis prod.exhaust)
    have "ap_vm st' \<in> {ap_vm st} \<union> {snd (snapshot (messenger s) (set_transport_status t (ap_vm st))) | t. True} \<union>
        {snd (snapshot (messenger s) (reconcile_model (messenger s) (ap_vm st)))} \<and> (ap_running st' \<longrightarrow> ap_running st)"
      using assms Some p unfolding pump_radio_def by (auto simp: Let_def render_fields split: if_splits)
    then have run: "ap_running st' \<longrightarrow> ap_running st" and vm: "ap_vm st' = ap_vm st \<or>
        (\<exists>t. ap_vm st' = snd (snapshot (messenger s) (set_transport_status t (ap_vm st)))) \<or>
        ap_vm st' = snd (snapshot (messenger s) (reconcile_model (messenger s) (ap_vm st)))" by auto
    have "vm_modal (ap_vm st') = vm_modal (ap_vm st)" if a: "am_id (vm_modal (ap_vm st')) \<in> {ModalDeleteData, ModalRecovery}"
      using vm
    proof (elim disjE exE)
      fix x assume e: "ap_vm st' = snd (snapshot (messenger s) (set_transport_status x (ap_vm st)))"
      show ?thesis using snapshot_modal [OF a [unfolded e]] t e by simp
    next
      assume e: "ap_vm st' = snd (snapshot (messenger s) (reconcile_model (messenger s) (ap_vm st)))"
      have s: "vm_modal (ap_vm st') = vm_modal (reconcile_model (messenger s) (ap_vm st))"
        using snapshot_modal [OF a [unfolded e]] e by simp
      show ?thesis using rec [OF a [unfolded s]] s by simp
    qed simp
    then show ?thesis using run by blast
  qed
  then show "(ap_running st' \<longrightarrow> ap_running st)"
    "am_id (vm_modal (ap_vm st')) \<in> {ModalDeleteData, ModalRecovery} \<Longrightarrow> vm_modal (ap_vm st') = vm_modal (ap_vm st)"
    by blast+
qed

lemma app_run_dialog:
  assumes "app_run lv ops st0 tr st" "dialog_inv st0 [] st0"
  shows "dialog_inv st0 (map fst tr) st"
  using assms
proof (induction rule: app_run.induct)
  case (app_key tr st io key a shown st')
  then show ?case using on_key_dialog by simp
next
  case (app_pump tr st io st' offers)
  show ?case by (rule dialog_inv_same [OF app_pump.IH [OF app_pump.prems] pump_radio_dialog [OF app_pump.hyps(3)]])
next
  case (app_probed tr st field)
  have "ap_vm (snd (app_probe field st)) \<in> {ap_vm st, snd (snapshot (messenger (ap_session st)) (ap_vm st))}"
    "ap_running (snd (app_probe field st)) = ap_running st"
    by (auto simp: app_probe_def case_prod_beta)
  then show ?case using snapshot_modal [of "messenger (ap_session st)" "ap_vm st"]
    by (intro dialog_inv_same [OF app_probed.IH [OF app_probed.prems]]) auto
qed (auto simp: dialog_inv_def Let_def request_stop_def request_failure_def)

section \<open>Drafts in a run\<close>

lemma persist_timeline_ready:
  "session_persist_timeline io t s d = (True, s', d') \<Longrightarrow> startup_status s' = SessionReady"
  by (auto simp: session_persist_timeline_def split: option.splits if_splits persist_outcome.splits prod.splits)

text \<open>A history that has changed in memory is on disk.\<close>

lemma execute_saved:
  assumes wf: "messenger_ok (messenger s)" "ports_wf ports" "command_wf c" and id: "ms_identity (messenger s) = Some i"
    and run: "session_execute io ports c s d = (r, s', d')" and new: "ms_timeline (messenger s') \<noteq> ms_timeline (messenger s)"
  shows "startup_status s' = SessionReady"
proof -
  obtain asked oks calls s1 where a: "answer_calls io asked s d = (oks, s1, d')"
    and q: "snd (snd (execute (ports\<lparr>port_commit := Some (True, True)\<rparr>) c (messenger s))) = asked"
    and e: "execute (ports\<lparr>port_commit := Some oks\<rparr>) c (messenger s) = (r, messenger s', calls)"
    and s': "s' = s1\<lparr>messenger := messenger s'\<rparr>"
    using run by (rule session_execute_parts)
  have st: "startup_status s' = startup_status s1" using arg_cong [OF s', of startup_status] by simp
  from execute_effect [OF wf(1) id wf(2,3)] show ?thesis
  proof cases
    case effect_none
    then show ?thesis using e new effect_none [of oks] by (simp add: answered_def)
  next
    case (effect_identity j)
    have "messenger s' = (if fst oks then (messenger s)\<lparr>ms_identity := Some j\<rparr> else messenger s)"
      using effect_identity(2) [of oks] e by (simp add: answered_def)
    then show ?thesis using new by (simp split: if_splits)
  next
    case (effect_timeline u)
    have "messenger s' = (if snd oks then (messenger s)\<lparr>ms_timeline := u\<rparr> else messenger s)" "asked = [PersistTimeline u True]"
      using effect_timeline(2) [of oks] effect_timeline(2) [of "(True, True)"] e q by (simp_all add: answered_def)
    then show ?thesis using new a st persist_timeline_ready by (auto split: if_splits prod.splits bool.splits)
  next
    case (effect_both j u)
    have "snd oks" "fst oks" "asked = [PersistIdentity j True, PersistTimeline u True]"
      using effect_both(3) [of oks] effect_both(3) [of "(True, True)"] e q new by (auto simp: answered_def split: if_splits)
    then show ?thesis using a st persist_timeline_ready by (auto split: prod.splits bool.splits)
  qed
qed

lemma newest_member: "newest_at t 0 = Some e \<Longrightarrow> e \<in> set (entries t)"
  using nth_mem [of 0 "rev (entries t)"] by (auto simp: newest_at_rev simp del: nth_mem split: if_splits)

lemma draft_sent_new: "draft_sent m m' vm vm' \<Longrightarrow> ms_timeline m' \<noteq> ms_timeline m \<and> ms_identity m \<noteq> None"
proof -
  assume "draft_sent m m' vm vm'"
  then obtain e where e: "composed_entry (post_draft_of (vm_draft vm)) m e" "newest_at (ms_timeline m') 0 = Some e"
    by (auto simp: draft_sent_def)
  have "e \<in> set (entries (ms_timeline m'))" by (rule newest_member [OF e(2)])
  moreover have "timeline_find (ms_timeline m) (entry_id e) = None" using e(1) by (simp add: composed_entry_def)
  ultimately show ?thesis using e(1) by (auto simp: find_None_entry composed_entry_def own_id_def)
qed

text \<open>What the view model's send reports as queued the session has stored.\<close>

lemma draft_sent_stored:
  assumes io: "key_io_ok io" and w: "owner_ok (s, d)" and vm: "vm_ok (own_id (messenger s)) vm"
    and run: "handle (session_ports io) ev vm (s, d) = (a, vm', s', d')" and sent: "draft_sent (messenger s) (messenger s') vm vm'"
  shows "startup_status s' = SessionReady" "session_live s' d'"
proof -
  note n = draft_sent_new [OF sent]
  then obtain i where i: "ms_identity (messenger s) = Some i" by blast
  have wf: "command_wf (Compose (post_draft_of (vm_draft vm)))"
    using vm draft_mentions_ok by (auto simp: vm_ok_def post_draft_of_def)
  from handle_world [OF run] show r: "startup_status s' = SessionReady"
  proof (elim disjE)
    assume "\<exists>r. up_compose (session_ports io) (post_draft_of (vm_draft vm)) (s, d) = (r, s', d')"
    then obtain r where "session_execute (kio_session io) (kio_ports io) (Compose (post_draft_of (vm_draft vm))) s d = (r, s', d')"
      by (auto simp: session_ports_def split: prod.splits)
    then show ?thesis using execute_saved [OF owner_okD(1) [OF w] io [unfolded key_io_ok_def] wf i] n by blast
  next
    assume "\<exists>pl ps l b ok. up_settings_commit (session_ports io) = Some (pl, ps) \<and> (pl l (s, d) = (ok, s', d') \<or> ps b (s, d) = (ok, s', d'))"
    then obtain l b ok where "set_locale (kio_settings io) (stored_locale_of l) s d = (ok, s', d') \<or> set_skip_title (kio_settings io) b s d = (ok, s', d')"
      by (auto simp: session_ports_def split: prod.splits)
    from settings_owner [OF w this] n show ?thesis by simp
  qed (use n in simp)
  show "session_live s' d'" by (rule owner_okD(2) [OF handle_session(1) [OF io w vm run] r])
qed

lemma snapshot_screen: "vm_screen (snd (snapshot m vm)) = vm_screen (reconcile_model m vm)"
  "vm_selected (snd (snapshot m vm)) = vm_selected (reconcile_model m vm)"
  by (cases "vm_screen (reconcile_model m vm)"; simp add: snapshot_def Let_def case_prod_beta mentions_page_of_def)+

lemma draft_sent_snapshot:
  assumes "draft_sent m m' vm vm'"
  shows "draft_sent m m' vm (snd (snapshot m' vm'))"
proof -
  obtain e where e: "composed_entry (post_draft_of (vm_draft vm)) m e" "newest_at (ms_timeline m') 0 = Some e"
    "vm_selected vm' = Some (entry_id e)" "am_id (vm_modal vm') = ModalStatus" "vm_screen vm' = ScreenTimeline"
    using assms by (auto simp: draft_sent_def)
  have "e \<in> set (entries (ms_timeline m'))" by (rule newest_member [OF e(2)])
  then have "find_opt m' (vm_selected vm') \<noteq> None" using e(3) by (auto simp: find_opt_def find_None_entry)
  then have "vm_selected (snd (snapshot m' vm')) = Some (entry_id e)"
    using e(3) by (simp add: snapshot_screen reconcile_selected ensure_timeline_selection_def)
  moreover have "vm_modal (snd (snapshot m' vm')) = vm_modal vm'"
    using reconcile_modal [of m' vm'] e(4) by (auto simp: snapshot_fields)
  moreover have "vm_screen (snd (snapshot m' vm')) = ScreenTimeline" using e(5) by (simp add: snapshot_screen reconcile_screen)
  ultimately show ?thesis using e unfolding draft_sent_def by (intro exI [of _ e]) simp
qed

lemma on_key_draft:
  assumes io: "key_io_ok io" and st: "app_ok st" and run: "on_key lv io key st = (Some (a, shown), st')"
    and dirty: "draft_dirty (vm_draft (ap_vm st))"
  shows "vm_screen (ap_vm st') \<in> {ScreenCompose, ScreenMentions} \<and>
      draft_step (semantic_key lv key) (vm_draft (ap_vm st)) (vm_draft (ap_vm st')) \<or>
    ev_key (semantic_key lv key) = KeyEnter \<and> am_id (vm_modal (ap_vm st)) = ModalNone \<and> vm_screen (ap_vm st) = ScreenCompose \<and>
      draft_sent (messenger (ap_session st)) (messenger (ap_session st')) (ap_vm st) (ap_vm st') \<and>
      session_live (ap_session st') (ap_disk st') \<or>
    ev_key (semantic_key lv key) = KeyEnter \<and> am_id (vm_modal (ap_vm st)) = ModalDiscard \<and> am_confirm_selected (vm_modal (ap_vm st))"
proof -
  obtain vm s d where r: "ap_running st" and h: "handle (session_ports io) (semantic_key lv key) (ap_vm st) (ap_session st, ap_disk st) = (a, vm, s, d)"
    and kept: "\<not> delete_data_approved a \<longrightarrow> ap_session st' = s \<and> ap_disk st' = d \<and>
       ap_vm st' = (if render_required a then snd (snapshot (messenger s) vm) else vm)"
    and gone: "delete_data_approved a \<longrightarrow> (\<exists>ok. delete_all (kio_delete io) s d = (ok, ap_session st', ap_disk st') \<and>
       ap_vm st' = (if ok then vm else snd (snapshot (messenger (ap_session st')) (report_storage_failure vm))))"
    and "ap_runtime st' = ap_runtime st" and "exit_approved a \<longrightarrow> \<not> delete_data_approved a \<longrightarrow> \<not> ap_running st'"
    using run by (rule on_key_parts)
  have o: "owner_ok (ap_session st, ap_disk st)" "vm_ok (own_id (messenger (ap_session st))) (ap_vm st)" using st by (simp_all add: app_ok_def)
  have c: "vm_draft (snd (snapshot m v)) = vm_draft v" "vm_screen v \<in> {ScreenCompose, ScreenMentions} \<Longrightarrow> vm_screen (snd (snapshot m v)) = vm_screen v"
    for m v by (auto simp: snapshot_fields snapshot_screen reconcile_screen)
  have rep: "vm_draft (report_storage_failure vm) = vm_draft vm" "vm_screen (report_storage_failure vm) = vm_screen vm"
    by (simp_all add: report_storage_failure_def show_error_def)
  have vm: "ap_vm st' \<in> {vm, snd (snapshot (messenger s) vm), snd (snapshot (messenger (ap_session st')) (report_storage_failure vm))}"
    using kept gone by (cases "delete_data_approved a") auto
  from ui.handle_draft [OF io o(1) _ dirty h] o(2)
  have "vm_screen vm \<in> {ScreenCompose, ScreenMentions} \<and> draft_step (semantic_key lv key) (vm_draft (ap_vm st)) (vm_draft vm) \<or>
    ev_key (semantic_key lv key) = KeyEnter \<and> am_id (vm_modal (ap_vm st)) = ModalNone \<and> vm_screen (ap_vm st) = ScreenCompose \<and>
      draft_sent (messenger (ap_session st)) (messenger s) (ap_vm st) vm \<or>
    ev_key (semantic_key lv key) = KeyEnter \<and> am_id (vm_modal (ap_vm st)) = ModalDiscard \<and> am_confirm_selected (vm_modal (ap_vm st))"
    by simp
  then show ?thesis
  proof (elim disjE)
    assume k: "vm_screen vm \<in> {ScreenCompose, ScreenMentions} \<and> draft_step (semantic_key lv key) (vm_draft (ap_vm st)) (vm_draft vm)"
    have "vm_draft (ap_vm st') = vm_draft vm" "vm_screen (ap_vm st') = vm_screen vm"
      using vm c [where v = vm] c [where v = "report_storage_failure vm"] rep k by auto
    then show ?thesis using k by simp
  next
    assume k: "ev_key (semantic_key lv key) = KeyEnter \<and> am_id (vm_modal (ap_vm st)) = ModalNone \<and> vm_screen (ap_vm st) = ScreenCompose \<and>
      draft_sent (messenger (ap_session st)) (messenger s) (ap_vm st) vm"
    have "\<not> delete_data_approved a" using handle_approvals(1) [OF h] k by simp
    then have e: "ap_session st' = s" "ap_disk st' = d" "ap_vm st' = vm \<or> ap_vm st' = snd (snapshot (messenger s) vm)" using kept by auto
    have "draft_sent (messenger (ap_session st)) (messenger s) (ap_vm st) (ap_vm st')"
      using e(3) k draft_sent_snapshot [of "messenger (ap_session st)" "messenger s" "ap_vm st" vm] by (elim disjE) simp_all
    moreover have "session_live s d" using draft_sent_stored(2) [OF io o h] k by blast
    ultimately show ?thesis using k e by simp
  qed simp
qed

section \<open>A sample run\<close>

text \<open>The key codes LVGL documents, a start without demo posts and radio, and a storage that answers.\<close>

definition sample_lv :: lv_keys where
  "sample_lv = \<lparr>lv_key_up = 17, lv_key_down = 18, lv_key_left = 20, lv_key_right = 19, lv_key_enter = 10, lv_key_esc = 27,
     lv_key_home = 2, lv_key_backspace = 8, lv_key_del = 127, lv_key_next = 9\<rparr>"

definition sample_start :: start_io where
  "sample_start = \<lparr>sta_fonts = True, sta_seed_env = None, sta_seed = (\<lambda>_. sample_session_io), sta_wifi_env = None,
     sta_lan_ready = False, sta_antenna_env = None, sta_cap_ready = False, sta_transport_mtu = 0,
     sta_transport_closed = False, sta_transport_connected = False, sta_show = True\<rparr>"

definition sample_key_io :: key_io where
  "sample_key_io = \<lparr>kio_session = sample_session_io, kio_ports = idle_ports, kio_settings = Saved,
     kio_delete = \<lparr>del_probe = None, del_temporary = True, del_settings = True, del_config_sync = True, del_sidecars = True,
       del_database = True, del_data_sync = True, del_left = empty_db\<rparr>, kio_render = True\<rparr>"

definition sample_app :: "app_policy app" where
  "sample_app = app_open sample_start sample_session sample_disk"

lemma sample_key_io_ok: "key_io_ok sample_key_io"
  by (simp add: key_io_ok_def sample_key_io_def idle_ports_wf)

lemma sample_owner_ok: "owner_ok (sample_session, sample_disk)"
  using sample_session_live session_messenger_ok by (simp add: owner_ok_def)

text \<open>The keys with the actions they had, and the state they lead to.\<close>

definition sample_keys :: "app_policy app \<Rightarrow> (u32 \<times> ui_action) list \<Rightarrow> app_policy app \<Rightarrow> bool" where
  "sample_keys st0 tr st \<longleftrightarrow> app_run sample_lv app_ops st0 (map (\<lambda>(k, a). (semantic_key sample_lv k, a)) tr) st"

abbreviation sample_handle :: "app_policy app \<Rightarrow> u32 \<Rightarrow> ui_action \<times> view_model \<times> session \<times> disk" where
  "sample_handle st key \<equiv> handle (session_ports sample_key_io) (semantic_key sample_lv key) (ap_vm st) (ap_session st, ap_disk st)"

lemma sample_step:
  assumes run: "sample_keys st0 tr st" "ap_running st" and r: "fst (sample_handle st key) = ui_render True"
    and same: "snd (snd (sample_handle st key)) = (ap_session st, ap_disk st)"
    and screen: "vm_screen (fst (snd (sample_handle st key))) \<notin> {ScreenDetail, ScreenMentions}"
  shows "\<exists>st'. sample_keys st0 (tr @ [(key, ui_render True)]) st' \<and> ap_running st' \<and>
    vm_screen (ap_vm st') = vm_screen (fst (snd (sample_handle st key))) \<and>
    vm_modal (ap_vm st') = vm_modal (fst (snd (sample_handle st key))) \<and>
    vm_draft (ap_vm st') = vm_draft (fst (snd (sample_handle st key)))"
proof -
  obtain vm where h: "sample_handle st key = (ui_render True, vm, ap_session st, ap_disk st)"
    using r same by (cases "sample_handle st key") auto
  obtain x st' where x: "on_key sample_lv sample_key_io key st = (x, st')" by fastforce
  note e = x [unfolded on_key_def, simplified run(2) h, simplified, unfolded Let_def, simplified, simplified ui_render_def, simplified]
  have k: "kio_render sample_key_io" by (simp add: sample_key_io_def)
  obtain shown where "x = Some (ui_render True, shown)" and st':
    "st' = snd (render True (st\<lparr>ap_vm := vm, ap_session := ap_session st, ap_disk := ap_disk st\<rparr>))"
    using e k by (auto simp: case_prod_beta ui_render_def)
  then have "sample_keys st0 (tr @ [(key, ui_render True)]) st'"
    using app_key [OF run(1) [unfolded sample_keys_def] sample_key_io_ok] x by (simp add: sample_keys_def)
  moreover have "vm_modal (reconcile_model (messenger (ap_session st)) vm) = vm_modal vm"
    using screen h by (simp add: reconcile_model_def Let_def)
  ultimately show ?thesis using run(2) screen st' unfolding h
    by (intro exI [of _ st']) (simp add: render_fields snapshot_screen snapshot_fields reconcile_screen)
qed

lemma sample_session_ready: "startup_status sample_session = SessionReady" "session_skip_title sample_session = False"
  by (simp_all add: sample_session_def recovered_session_def session_skip_title_def sample_settings_def)

lemma sample_app_fields:
  "ap_running sample_app" "ap_session sample_app = sample_session" "ap_disk sample_app = sample_disk"
  "\<exists>t. ap_vm sample_app = snd (snapshot (messenger sample_session) (set_transport_status t
      (view_model_new (messenger sample_session) (view_locale (session_locale sample_session)) False False)))"
proof -
  have seed: "seed_demo_history None io sample_session sample_disk = (True, sample_session, sample_disk)" for io
    by (simp add: seed_demo_history_def environment_switch_def)
  show "ap_running sample_app" "ap_session sample_app = sample_session" "ap_disk sample_app = sample_disk"
    "\<exists>t. ap_vm sample_app = snd (snapshot (messenger sample_session) (set_transport_status t
      (view_model_new (messenger sample_session) (view_locale (session_locale sample_session)) False False)))"
    using sample_session_ready seed
    by (auto simp: sample_app_def app_open_def sample_start_def open_radio_def environment_switch_def Let_def render_fields)
qed

lemma sample_app_start:
  "sample_keys sample_app [] sample_app" "ap_running sample_app" "vm_screen (ap_vm sample_app) = ScreenMenu"
  "am_id (vm_modal (ap_vm sample_app)) = ModalNone" "vm_draft (ap_vm sample_app) = draft_new"
proof -
  show "sample_keys sample_app [] sample_app" by (simp add: sample_keys_def app_begin)
  show "ap_running sample_app" by (rule sample_app_fields)
  obtain t where vm: "ap_vm sample_app = snd (snapshot (messenger sample_session) (set_transport_status t
      (view_model_new (messenger sample_session) (view_locale (session_locale sample_session)) False False)))" using sample_app_fields(4) by blast
  have v: "vm_screen (set_transport_status t (view_model_new m l False False)) = ScreenMenu"
    "vm_modal (set_transport_status t (view_model_new m l False False)) = modal_none"
    "vm_draft (set_transport_status t (view_model_new m l False False)) = draft_new" for m l
    by (simp_all add: set_transport_status_def view_model_new_def Let_def)
  show "vm_screen (ap_vm sample_app) = ScreenMenu" unfolding vm by (simp add: snapshot_screen reconcile_screen v)
  show "am_id (vm_modal (ap_vm sample_app)) = ModalNone" unfolding vm
    by (simp add: snapshot_fields reconcile_model_def v Let_def modal_none_def)
  show "vm_draft (ap_vm sample_app) = draft_new" unfolding vm by (simp add: snapshot_fields v)
qed

lemma sample_key_events:
  "semantic_key sample_lv 0x73 = \<lparr>ev_key = KeyCharacter, ev_character = 0x73\<rparr>"
  "semantic_key sample_lv 0x64 = \<lparr>ev_key = KeyCharacter, ev_character = 0x64\<rparr>"
  "semantic_key sample_lv 0x6e = \<lparr>ev_key = KeyCharacter, ev_character = 0x6e\<rparr>"
  "semantic_key sample_lv 10 = named_key KeyEnter" "semantic_key sample_lv 19 = named_key KeyRight"
  by (simp_all add: semantic_key_def sample_lv_def)

lemma sample_screen_reconcile:
  "vm_screen vm \<notin> {ScreenDetail, ScreenMentions} \<Longrightarrow>
     vm_modal (reconcile_model m vm) = vm_modal vm \<and> vm_screen (reconcile_model m vm) = vm_screen vm"
  by (simp add: reconcile_model_def Let_def)

lemma sample_ports_messenger: "up_messenger (session_ports io) (s, d) = messenger s"
  by (simp add: session_ports_def)

lemmas sample_defs = sample_key_events sample_ports_messenger sample_screen_reconcile handle_def Let_def handle_global_shortcut_def
  is_shortcut_def handle_settings_def show_delete_confirmation_def show_modal_def handle_modal_def is_confirmation_def named_key_def
  ui_render_def ui_nothing_def

text \<open>S opens the settings from the menu.\<close>

lemma sample_settings_screen:
  "\<exists>st. sample_keys sample_app [(0x73, ui_render True)] st \<and> ap_running st \<and> vm_screen (ap_vm st) = ScreenSettings \<and>
     am_id (vm_modal (ap_vm st)) = ModalNone \<and> vm_draft (ap_vm st) = draft_new"
  using sample_step [OF sample_app_start(1,2), where key = "0x73"] sample_app_start(3-5) by (auto simp: sample_defs)

text \<open>There D asks, and Right chooses to delete.\<close>

lemma sample_asks:
  "\<exists>st. sample_keys sample_app [(0x73, ui_render True), (0x64, ui_render True), (19, ui_render True)] st \<and> ap_running st \<and>
     am_id (vm_modal (ap_vm st)) = ModalDeleteData \<and> am_confirm_selected (vm_modal (ap_vm st))"
proof -
  obtain st1 where 1: "sample_keys sample_app [(0x73, ui_render True)] st1" "ap_running st1" "vm_screen (ap_vm st1) = ScreenSettings"
    "am_id (vm_modal (ap_vm st1)) = ModalNone"
    using sample_settings_screen by blast
  obtain st2 where 2: "sample_keys sample_app [(0x73, ui_render True), (0x64, ui_render True)] st2" "ap_running st2"
    "vm_screen (ap_vm st2) = ScreenSettings" "am_id (vm_modal (ap_vm st2)) = ModalDeleteData"
    using sample_step [OF 1(1,2), where key = "0x64"] 1(3,4) by (auto simp: sample_defs)
  show ?thesis using sample_step [OF 2(1,2), where key = "19"] 2(3,4) by (auto simp: sample_defs)
qed

text \<open>N opens the composer, and N again types a letter.\<close>

lemma sample_typed: "editor_insert 0x6e (editor_clear (dr_body draft_new)) =
    (None, (dr_body draft_new)\<lparr>ed_text := [0x6e], ed_cursor := 1\<rparr>)"
  by code_simp

lemma sample_drafts:
  "\<exists>st. sample_keys sample_app [(0x73, ui_render True), (0x6e, ui_render True), (0x6e, ui_render True)] st \<and> ap_running st \<and>
     vm_screen (ap_vm st) = ScreenCompose \<and> am_id (vm_modal (ap_vm st)) = ModalNone \<and> draft_dirty (vm_draft (ap_vm st))"
proof -
  obtain st1 where 1: "sample_keys sample_app [(0x73, ui_render True)] st1" "ap_running st1" "vm_screen (ap_vm st1) = ScreenSettings"
    "am_id (vm_modal (ap_vm st1)) = ModalNone" "vm_draft (ap_vm st1) = draft_new"
    using sample_settings_screen by blast
  obtain st2 where 2: "sample_keys sample_app [(0x73, ui_render True), (0x6e, ui_render True)] st2" "ap_running st2"
    "vm_screen (ap_vm st2) = ScreenCompose" "am_id (vm_modal (ap_vm st2)) = ModalNone"
    "vm_draft (ap_vm st2) = draft_reset draft_new"
    using sample_step [OF 1(1,2), where key = "0x6e"] 1(3-5) by (auto simp: sample_defs open_compose_def draft_reset_def)
  have "is_editable_scalar 0x6e" by code_simp
  then show ?thesis using sample_step [OF 2(1,2), where key = "0x6e"] 2(3-5)
    by (auto simp: sample_defs handle_compose_def draft_reset_def sample_typed draft_dirty_def)
qed

section \<open>Properties\<close>

text \<open>A program started on a stored state.\<close>

lemma started_owner:
  assumes "disk_holds st stored d0" "boot_answers io d0" "bootstrap io d0 = (s, d)"
  shows "owner_ok (s, d)"
  using bootstrap_inv(1) [OF assms] session_messenger_ok by (simp add: owner_ok_def)

lemma open_dialog_inv: "dialog_inv (app_open io s d) [] (app_open io s d)"
  using app_open_dialog [of io s d] by (auto simp: dialog_inv_def Let_def)

text \<open>C4: Data is removed only when the user has confirmed it. Whatever keys, radio traffic and failures came since the start, when
  a key approves the removal, that key is Enter, and either D was pressed on a screen of this run, followed only
  by keys other than Enter, Escape and Home of which the last arrow is Right, or the program started with unreadable
  data and the last arrow since then is Right with no Enter or Escape.\<close>

theorem app_deletes_only_confirmed:
  assumes "app_run lv app_ops (app_open io s d) tr st" "on_key lv kio key st = (Some (a, shown), st')" "delete_data_approved a"
  shows "ev_key (semantic_key lv key) = KeyEnter \<and>
    (asked_delete (map fst tr) True \<or>
     startup_status (ap_session (app_open io s d)) = RecoveryRequired \<and> fold chosen_by (map fst tr) False \<and>
       list_all (\<lambda>k. ev_key k \<notin> {KeyEscape, KeyEnter}) (map fst tr))"
proof -
  have inv: "dialog_inv (app_open io s d) (map fst tr) st" by (rule app_run_dialog [OF assms(1) open_dialog_inv])
  obtain vm s1 d1 where r: "ap_running st"
    and h: "handle (session_ports kio) (semantic_key lv key) (ap_vm st) (ap_session st, ap_disk st) = (a, vm, s1, d1)"
    by (rule on_key_parts [OF assms(2)])
  have m: "am_id (vm_modal (ap_vm st)) \<in> {ModalDeleteData, ModalRecovery}" "am_confirm_selected (vm_modal (ap_vm st))"
    "ev_key (semantic_key lv key) = KeyEnter"
    using handle_approvals(1) [OF h] assms(3) by auto
  then show ?thesis using inv r app_open_dialog(3) [of io s d] by (auto simp: dialog_inv_def Let_def)
qed

theorem app_deletes_only_confirmed_witness:
  "\<exists>tr st a shown st'. app_run sample_lv app_ops sample_app tr st \<and>
     on_key sample_lv sample_key_io 10 st = (Some (a, shown), st') \<and> delete_data_approved a \<and> asked_delete (map fst tr) True"
proof -
  obtain st where st: "sample_keys sample_app [(0x73, ui_render True), (0x64, ui_render True), (19, ui_render True)] st" "ap_running st"
     "am_id (vm_modal (ap_vm st)) = ModalDeleteData" "am_confirm_selected (vm_modal (ap_vm st))" using sample_asks by blast
  obtain x st' where x: "on_key sample_lv sample_key_io 10 st = (x, st')" by fastforce
  then obtain a shown where a: "x = Some (a, shown)" using st(2) by (cases x) (auto simp: on_key_def Let_def split: prod.splits if_splits bool.splits)
  obtain vm s1 d1 where h: "sample_handle st 10 = (a, vm, s1, d1)"
    by (rule on_key_parts [OF x [unfolded a]])
  have "delete_data_approved a" using handle_approvals(1) [OF h] st(3,4) by (simp add: sample_key_events named_key_def)
  moreover have "startup_status (ap_session sample_app) \<noteq> RecoveryRequired"
    using app_open_dialog(3) [of sample_start sample_session sample_disk] sample_app_start(4) by (simp add: sample_app_def)
  ultimately show ?thesis
    using app_deletes_only_confirmed [OF st(1) [unfolded sample_keys_def sample_app_def] x [unfolded a]] st(1) x a
    unfolding sample_keys_def sample_app_def [symmetric] by blast
qed

text \<open>C2: What the program has stored survives it. From a start on a stored state, whatever keys, radio traffic, probes
  and failures follow, and however the program ends, as long as no removal was approved a later start on the disk is
  ready and shows what is stored; and when the session is still ready, it shows the same identity, ledger and posts, the
  queued ones as unknown.\<close>

theorem app_data_survives:
  assumes "disk_holds st stored d0" "boot_answers io0 d0" "bootstrap io0 d0 = (s, d)"
    "app_run lv app_ops (app_open sio s d) tr app" "list_all (\<lambda>(ev, a). \<not> delete_data_approved a) tr"
    "boot_answers io (ap_disk (app_finish pending app))"
  shows "\<exists>s'' d''. bootstrap io (ap_disk (app_finish pending app)) = (s'', d'') \<and> startup_status s'' = SessionReady \<and>
    session_live s'' d'' \<and>
    (startup_status (ap_session app) = SessionReady \<longrightarrow>
       ms_identity (messenger s'') = ms_identity (messenger (ap_session app)) \<and> dedupe s'' = dedupe (ap_session app) \<and>
       entries (ms_timeline (messenger s'')) = map recover_entry (entries (ms_timeline (messenger (ap_session app)))))"
proof -
  have w: "owner_ok (s, d)" by (rule started_owner [OF assms(1-3)])
  have "session_step\<^sup>*\<^sup>* (s, d) (ap_session app, ap_disk app)"
    using app_open_ok(2) [OF w] app_run_session [OF assms(4) app_open_ok(1) [OF w] assms(5)] by (rule rtranclp_trans)
  then have inv: "session_inv (ap_session app) (ap_disk app)" using session_steps_inv bootstrap_inv(2) [OF assms(1-3)] by fastforce
  have "ap_disk (app_finish pending app) = ap_disk app" by (simp add: app_finish_def Let_def request_failure_def)
  then show ?thesis using inv_survives_restart [OF inv] assms(6) by simp
qed

theorem app_data_survives_witness:
  "\<exists>s'' d''. bootstrap sample_boot_io (ap_disk (app_finish False sample_app)) = (s'', d'') \<and> startup_status s'' = SessionReady \<and>
     entries (ms_timeline (messenger s'')) = map recover_entry (entries (ms_timeline (messenger sample_session)))"
proof -
  have s: "ap_session sample_app = sample_session" "ap_disk (app_finish False sample_app) = sample_disk"
    using sample_app_fields by (simp_all add: app_finish_def Let_def)
  have "startup_status sample_session = SessionReady" using sample_session_open by (simp add: session_open_def)
  then show ?thesis
    using app_data_survives [OF sample_disk_holds sample_boot_answers sample_bootstrap
        sample_app_start(1) [unfolded sample_keys_def sample_app_def], of sample_boot_io False]
      sample_boot_answers s unfolding sample_app_def [symmetric] by auto
qed

text \<open>C3: A draft is not lost while the program runs. Whatever happened since a start on a stored state, when a key is handled while a draft has text or
  mentions, the draft stays open and changes at most by the edit of that key; or the key is Enter in the
  composer, the draft is the newest post of the timeline, queued, with its text, mentions and parent, is
  selected, and is on disk; or the key is Enter on the discard dialog with discarding chosen. A draft is kept in memory only: the
  confirmed exit of the program leaves it in the state of the program, as the first case says, and the end of the program ends it.\<close>

theorem app_keeps_draft:
  assumes "disk_holds st stored d0" "boot_answers io0 d0" "bootstrap io0 d0 = (s, d)"
    "app_run lv app_ops (app_open sio s d) tr app" "draft_dirty (vm_draft (ap_vm app))"
    "key_io_ok io" "on_key lv io key app = (Some (a, shown), app')"
  shows "vm_screen (ap_vm app') \<in> {ScreenCompose, ScreenMentions} \<and>
      draft_step (semantic_key lv key) (vm_draft (ap_vm app)) (vm_draft (ap_vm app')) \<or>
    ev_key (semantic_key lv key) = KeyEnter \<and> am_id (vm_modal (ap_vm app)) = ModalNone \<and> vm_screen (ap_vm app) = ScreenCompose \<and>
      draft_sent (messenger (ap_session app)) (messenger (ap_session app')) (ap_vm app) (ap_vm app') \<and>
      session_live (ap_session app') (ap_disk app') \<or>
    ev_key (semantic_key lv key) = KeyEnter \<and> am_id (vm_modal (ap_vm app)) = ModalDiscard \<and>
      am_confirm_selected (vm_modal (ap_vm app))"
proof -
  have "app_ok app" by (rule app_run_ok [OF assms(4) app_open_ok(1) [OF started_owner [OF assms(1-3)]]])
  then show ?thesis by (rule on_key_draft [OF assms(6) _ assms(7,5)])
qed

theorem app_keeps_draft_witness:
  "\<exists>tr app a shown app'. app_run sample_lv app_ops sample_app tr app \<and> draft_dirty (vm_draft (ap_vm app)) \<and>
     on_key sample_lv sample_key_io 19 app = (Some (a, shown), app') \<and>
     draft_step (semantic_key sample_lv 19) (vm_draft (ap_vm app)) (vm_draft (ap_vm app'))"
proof -
  obtain app where app: "sample_keys sample_app [(0x73, ui_render True), (0x6e, ui_render True), (0x6e, ui_render True)] app" "ap_running app"
     "draft_dirty (vm_draft (ap_vm app))" using sample_drafts by blast
  obtain x app' where x: "on_key sample_lv sample_key_io 19 app = (x, app')" by fastforce
  then obtain a shown where a: "x = Some (a, shown)"
    using app(2) by (cases x) (auto simp: on_key_def Let_def split: prod.splits if_splits bool.splits)
  have "ev_key (semantic_key sample_lv 19) \<noteq> KeyEnter" by (simp add: sample_key_events named_key_def)
  then show ?thesis
    using app_keeps_draft [OF sample_disk_holds sample_boot_answers sample_bootstrap
        app(1) [unfolded sample_keys_def sample_app_def] app(3) sample_key_io_ok x [unfolded a]] app x a
    unfolding sample_keys_def sample_app_def [symmetric] by blast
qed

text \<open>C13: The program's state stays well formed. Whatever happens after a start on a stored state, a ready session
  has all of its state on disk, the view model's draft, dialogs and list of recipients are consistent with its screen, the
  scheduler and the reassembly of the radio keep their invariants, and every text of the next drawing is valid UTF-8.\<close>

theorem app_stays_well_formed:
  assumes "disk_holds st stored d0" "boot_answers io0 d0" "bootstrap io0 d0 = (s, d)"
    "app_run lv app_ops (app_open sio s d) tr app"
  shows "app_ok app \<and> list_all is_valid_utf8 (snapshot_texts (fst (snapshot (messenger (ap_session app)) (ap_vm app))))"
proof -
  have ok: "app_ok app" by (rule app_run_ok [OF assms(4) app_open_ok(1) [OF started_owner [OF assms(1-3)]]])
  then have "list_all is_valid_utf8 (snapshot_texts (fst (snapshot (messenger (ap_session app)) (ap_vm app))))"
    by (intro snapshot_valid) (auto simp: app_ok_def dest: owner_okD)
  then show ?thesis using ok by blast
qed

theorem app_stays_well_formed_witness: "\<exists>tr app. app_run sample_lv app_ops sample_app tr app \<and> tr \<noteq> [] \<and> app_ok app"
proof -
  obtain app where app: "sample_keys sample_app [(0x73, ui_render True)] app" using sample_settings_screen by blast
  show ?thesis
    using app_stays_well_formed [OF sample_disk_holds sample_boot_answers sample_bootstrap
        app [unfolded sample_keys_def sample_app_def]] app
    unfolding sample_keys_def sample_app_def [symmetric] by blast
qed

text \<open>C14: The timeline shows what is selected. With posts in the timeline, a drawing of that screen has as many rows as fit or
  exist, the rows are consecutive posts, newest first, and one of them is the selected post, which is the one selected
  before whenever it still exists.\<close>

theorem timeline_shows_selection:
  assumes "entries (ms_timeline m) \<noteq> []" "vm_screen vm = ScreenTimeline"
  shows "\<exists>p pre win post e. vs_page (fst (snapshot m vm)) = TimelinePage p \<and> rev (entries (ms_timeline m)) = pre @ win @ post \<and>
    length win = min kVisibleTimelineRows (length (entries (ms_timeline m))) \<and> e \<in> set win \<and>
    vm_selected (snd (snapshot m vm)) = Some (entry_id e) \<and> tp_rows p = map (timeline_row m (Some (entry_id e))) win \<and>
    (find_opt m (vm_selected vm) \<noteq> None \<longrightarrow> vm_selected vm = Some (entry_id e))"
proof -
  let ?v = "reconcile_model m vm"
  have page: "vs_page (fst (snapshot m vm)) = TimelinePage (timeline_page_of m ?v)"
    using assms(2) by (simp add: snapshot_def Let_def reconcile_screen)
  obtain x where x: "vm_selected ?v = Some (entry_id x)" "x \<in> set (entries (ms_timeline m))"
    using selection_exists [OF assms(1), of vm] by (auto simp: reconcile_selected)
  obtain pre win post where w: "rev (entries (ms_timeline m)) = pre @ win @ post"
    "length win = min kVisibleTimelineRows (length (entries (ms_timeline m)))"
    "tp_rows (timeline_page_of m ?v) = map (timeline_row m (vm_selected ?v)) win" "entry_id x \<in> entry_id ` set win"
    by (rule timeline_page_window [OF assms(1) x])
  then obtain e where e: "e \<in> set win" "entry_id x = entry_id e" by blast
  have "find_opt m (vm_selected vm) \<noteq> None \<longrightarrow> vm_selected vm = Some (entry_id e)"
    using x(1) e(2) by (auto simp: reconcile_selected ensure_timeline_selection_def)
  then show ?thesis using page w e x(1)
    by (intro exI [of _ "timeline_page_of m ?v"] exI [of _ pre] exI [of _ win] exI [of _ post] exI [of _ e])
      (simp add: snapshot_screen)
qed

theorem timeline_shows_selection_witness:
  "\<exists>p e. vs_page (fst (snapshot (messenger sample_session) (view_model_new (messenger sample_session) LocaleJapanese False True))) =
     TimelinePage p \<and> tp_rows p = [timeline_row (messenger sample_session) (Some (entry_id e)) e]"
proof -
  obtain x where x: "entries (ms_timeline (messenger sample_session)) = [x]"
    by (simp add: sample_session_def recovered_session_def sample_stored_def sample_snapshot_def)
  have s: "vm_screen (view_model_new (messenger sample_session) LocaleJapanese False True) = ScreenTimeline"
    by (simp add: view_model_new_def Let_def)
  obtain p pre win post e where
    "vs_page (fst (snapshot (messenger sample_session) (view_model_new (messenger sample_session) LocaleJapanese False True))) = TimelinePage p"
    "rev (entries (ms_timeline (messenger sample_session))) = pre @ win @ post" "e \<in> set win"
    "tp_rows p = map (timeline_row (messenger sample_session) (Some (entry_id e))) win"
    using timeline_shows_selection [of "messenger sample_session", OF _ s] x by auto
  moreover have "win = [e]" using calculation(2,3) x by (auto simp: Cons_eq_append_conv)
  ultimately show ?thesis by auto
qed

end
