(* ===== verification/Platform_Runner.thy ===== *)
theory Platform_Runner
  imports Platform_Script App_Properties
begin

text \<open>
  Model of \<^verbatim>\<open>src/platform/app_script.cpp\<close>: the timer that performs a parsed script, one action a tick, on the program. The
  runner is modelled over any host; the last part takes the program of \<open>App_Shell\<close> as the host, with its key
  handler and its probe.
\<close>

section \<open>Definitions\<close>

record script_state =
  sc_actions :: "script_action list"
  sc_next :: nat
  sc_await_ticks :: u32
  sc_probe :: bool

record script_vars =
  sv_timer :: bool
  sv_state :: "script_state option"
  sv_failed :: bool

text \<open>What the script calls, over the state \<open>'w\<close> of the program it drives: the key router, the probe, the screenshot and the
  window of SDL. \<open>None\<close>, or \<open>False\<close> for the router, is an exception; the probe's inner option is its result.\<close>

record 'w script_host =
  sh_route_key :: "u32 \<Rightarrow> 'w \<Rightarrow> bool \<times> 'w"
  sh_probe :: "bytes \<Rightarrow> 'w \<Rightarrow> bytes option option \<times> 'w"
  sh_screenshot :: "bytes \<Rightarrow> bool option"
  sh_window :: bool
  sh_window_id :: u32
  sh_push_event :: int

definition release_script :: "script_vars \<Rightarrow> script_vars" where
  "release_script v = v\<lparr>sv_timer := False, sv_state := None\<rparr>"

definition fail_script :: "script_vars \<Rightarrow> script_vars" where
  "fail_script v = release_script (v\<lparr>sv_failed := True\<rparr>)"

fun route_value :: "lv_keys \<Rightarrow> script_action \<Rightarrow> u32" where
  "route_value lv a =
     (case sa_named_key a of
        NamedHome \<Rightarrow> lv_key_home lv
      | NamedEscape \<Rightarrow> lv_key_esc lv
      | NamedUp \<Rightarrow> lv_key_up lv
      | NamedDown \<Rightarrow> lv_key_down lv
      | NamedLeft \<Rightarrow> lv_key_left lv
      | NamedRight \<Rightarrow> lv_key_right lv
      | NamedEnter \<Rightarrow> lv_key_enter lv
      | NamedBackspace \<Rightarrow> lv_key_backspace lv
      | NamedTab \<Rightarrow> lv_key_next lv
      | NamedNone \<Rightarrow> sa_scalar a)"

definition request_window_close :: "'w script_host \<Rightarrow> bool" where
  "request_window_close h \<longleftrightarrow>
     (if \<not> sh_window h then False
      else if sh_window_id h = 0 then False
      else if sh_push_event h \<noteq> 1 then False
      else True)"

datatype probe_result = ProbeMatch | ProbeMismatch | ProbeFailure

definition evaluate_probe :: "'w script_host \<Rightarrow> script_state option \<Rightarrow> script_action \<Rightarrow> 'w \<Rightarrow> probe_result \<times> 'w" where
  "evaluate_probe h st a w =
     (if st = None \<or> \<not> sc_probe (the st) then (ProbeFailure, w)
      else case sh_probe h (sa_field a) w of
        (None, w) \<Rightarrow> (ProbeFailure, w)
      | (Some None, w) \<Rightarrow> (ProbeFailure, w)
      | (Some (Some current), w) \<Rightarrow> (if current = sa_value a then ProbeMatch else ProbeMismatch, w))"

definition complete_script :: "script_vars \<Rightarrow> script_vars" where
  "complete_script v = release_script v"

text \<open>What an action did to the program, for the statements below.\<close>

datatype script_effect = RoutedKey u32 | SavedScreenshot bytes | SawValue bytes bytes | ClosedWindow

definition next_action :: "script_state \<Rightarrow> script_vars \<Rightarrow> script_vars" where
  "next_action st v = v\<lparr>sv_state := Some (st\<lparr>sc_next := sc_next st + 1, sc_await_ticks := 0\<rparr>)\<rparr>"

definition complete_if_done :: "script_vars \<Rightarrow> script_vars" where
  "complete_if_done v =
     (case sv_state v of None \<Rightarrow> v
      | Some st \<Rightarrow> if sc_next st \<ge> length (sc_actions st) then complete_script v else v)"

text \<open>The flag is \<open>False\<close> when a call threw an exception.\<close>

definition run_script_action :: "lv_keys \<Rightarrow> 'w script_host \<Rightarrow> script_vars \<Rightarrow> 'w \<Rightarrow> bool \<times> script_vars \<times> 'w \<times> script_effect list" where
  "run_script_action lv h v w =
     (case sv_state v of
        None \<Rightarrow> (True, complete_script v, w, [])
      | Some st \<Rightarrow>
          if sc_next st \<ge> length (sc_actions st) then (True, complete_script v, w, [])
          else let a = sc_actions st ! sc_next st
            in case sa_type a of
              ActionKey \<Rightarrow>
                (case sh_route_key h (route_value lv a) w of
                   (False, w) \<Rightarrow> (False, v, w, [])
                 | (True, w) \<Rightarrow> (True, complete_if_done (next_action st v), w, [RoutedKey (route_value lv a)]))
            | ActionWait \<Rightarrow> (True, complete_if_done (next_action st v), w, [])
            | ActionScreenshot \<Rightarrow>
                (case sh_screenshot h (sa_value a) of
                   None \<Rightarrow> (False, v, w, [])
                 | Some False \<Rightarrow> (True, fail_script v, w, [])
                 | Some True \<Rightarrow> (True, complete_if_done (next_action st v), w, [SavedScreenshot (sa_value a)]))
            | ActionExpect \<Rightarrow>
                (case evaluate_probe h (Some st) a w of
                   (ProbeFailure, w) \<Rightarrow> (True, fail_script v, w, [])
                 | (ProbeMismatch, w) \<Rightarrow> (True, fail_script v, w, [])
                 | (ProbeMatch, w) \<Rightarrow> (True, complete_if_done (next_action st v), w, [SawValue (sa_field a) (sa_value a)]))
            | ActionAwait \<Rightarrow>
                (case evaluate_probe h (Some st) a w of
                   (ProbeFailure, w) \<Rightarrow> (True, fail_script v, w, [])
                 | (ProbeMismatch, w) \<Rightarrow>
                     (let st = st\<lparr>sc_await_ticks := sc_await_ticks st + 1\<rparr>; v = v\<lparr>sv_state := Some st\<rparr>
                      in (True, if sc_await_ticks st \<ge> kMaximumAwaitTicks then fail_script v else v, w, []))
                 | (ProbeMatch, w) \<Rightarrow> (True, complete_if_done (next_action st v), w, [SawValue (sa_field a) (sa_value a)]))
            | ActionCloseWindow \<Rightarrow>
                (if \<not> request_window_close h then (True, fail_script v, w, [])
                 else (True, complete_script (next_action st v), w, [ClosedWindow])))"

definition script_timer_cb :: "lv_keys \<Rightarrow> 'w script_host \<Rightarrow> script_vars \<Rightarrow> 'w \<Rightarrow> script_vars \<times> 'w \<times> script_effect list" where
  "script_timer_cb lv h v w =
     (case run_script_action lv h v w of
        (True, v, w, effects) \<Rightarrow> (v, w, effects)
      | (False, v, w, effects) \<Rightarrow> (fail_script v, w, effects))"

definition stop_app_script :: "script_vars \<Rightarrow> script_vars" where
  "stop_app_script v = release_script v"

text \<open>The environment's two variables, whether the setup throws, whether the timer could be made and whether a probe is given.\<close>

definition start_app_script :: "bytes option \<Rightarrow> bytes option \<Rightarrow> bool \<Rightarrow> bool \<Rightarrow> bool \<Rightarrow> script_vars \<Rightarrow> script_vars" where
  "start_app_script source interval throws timer probe v =
     (let v = (stop_app_script v)\<lparr>sv_failed := False\<rparr>
      in if source = None \<or> the source = [] then v
         else if throws then (release_script v)\<lparr>sv_failed := True\<rparr>
         else if length (the source) > kMaximumSourceBytes then v\<lparr>sv_failed := True\<rparr>
         else let parsed = parse (the source)
           in if pr_error parsed \<noteq> ScriptNone then v\<lparr>sv_failed := True\<rparr>
              else if pr_actions parsed = [] then v\<lparr>sv_failed := True\<rparr>
              else if \<not> ir_valid (parse_interval interval) then v\<lparr>sv_failed := True\<rparr>
              else let v = v\<lparr>sv_state := Some \<lparr>sc_actions = pr_actions parsed, sc_next = 0, sc_await_ticks = 0, sc_probe = probe\<rparr>,
                             sv_timer := timer\<rparr>
                in if \<not> timer then v\<lparr>sv_state := None, sv_failed := True\<rparr> else v)"

definition app_script_failed :: "script_vars \<Rightarrow> bool" where
  "app_script_failed v = sv_failed v"

definition app_script_pending :: "script_vars \<Rightarrow> bool" where
  "app_script_pending v \<longleftrightarrow> sv_state v \<noteq> None"

section \<open>Runs\<close>

text \<open>The ticks of the timer, each with the host's answers at that time. LVGL deletes a timer when the code asks it to, so there
  are no ticks without one.\<close>

fun script_ticks :: "lv_keys \<Rightarrow> 'w script_host list \<Rightarrow> script_vars \<Rightarrow> 'w \<Rightarrow> script_vars \<times> 'w \<times> script_effect list" where
  "script_ticks lv [] v w = (v, w, [])"
| "script_ticks lv (h # hs) v w =
     (if \<not> sv_timer v then (v, w, [])
      else case script_timer_cb lv h v w of
        (v, w, e) \<Rightarrow> (case script_ticks lv hs v w of (v, w, es) \<Rightarrow> (v, w, e @ es)))"

definition action_effects :: "lv_keys \<Rightarrow> script_action \<Rightarrow> script_effect list" where
  "action_effects lv a =
     (case sa_type a of
        ActionKey \<Rightarrow> [RoutedKey (route_value lv a)]
      | ActionWait \<Rightarrow> []
      | ActionScreenshot \<Rightarrow> [SavedScreenshot (sa_value a)]
      | ActionExpect \<Rightarrow> [SawValue (sa_field a) (sa_value a)]
      | ActionAwait \<Rightarrow> [SawValue (sa_field a) (sa_value a)]
      | ActionCloseWindow \<Rightarrow> [ClosedWindow])"

text \<open>The script while it is pending, having done the actions \<open>acts\<close> up to the next one.\<close>

definition script_inv :: "script_vars \<Rightarrow> bool" where
  "script_inv v \<longleftrightarrow>
     sv_timer v = (sv_state v \<noteq> None) \<and>
     (case sv_state v of None \<Rightarrow> True
      | Some st \<Rightarrow>
          \<not> sv_failed v \<and> sc_next st < length (sc_actions st) \<and> unat (sc_await_ticks st) < 50 \<and>
          (\<forall>a \<in> set (butlast (sc_actions st)). sa_type a \<noteq> ActionCloseWindow))"

text \<open>Ticks that are certainly enough to end the script.\<close>

definition ticks_left :: "script_vars \<Rightarrow> nat" where
  "ticks_left v =
     (case sv_state v of None \<Rightarrow> 0
      | Some st \<Rightarrow> (length (sc_actions st) - sc_next st) * 50 - unat (sc_await_ticks st))"

text \<open>What the script has still to do.\<close>

definition effects_left :: "lv_keys \<Rightarrow> script_vars \<Rightarrow> script_effect list" where
  "effects_left lv v =
     (case sv_state v of None \<Rightarrow> []
      | Some st \<Rightarrow> concat (map (action_effects lv) (drop (sc_next st) (sc_actions st))))"

definition script_step_ok :: "lv_keys \<Rightarrow> script_vars \<Rightarrow> script_effect list \<Rightarrow> script_vars \<Rightarrow> bool" where
  "script_step_ok lv v e v' \<longleftrightarrow>
     script_inv v' \<and> ticks_left v' < ticks_left v \<and>
     (if sv_failed v' then e = [] \<and> sv_state v' = None else effects_left lv v = e @ effects_left lv v')"

lemma fail_step:
  assumes "ticks_left v > 0"
  shows "script_step_ok lv v [] (fail_script v2)"
  using assms by (simp add: script_step_ok_def fail_script_def release_script_def script_inv_def ticks_left_def)

definition script_running :: "script_vars \<Rightarrow> script_state \<Rightarrow> bool" where
  "script_running v st \<longleftrightarrow> sv_state v = Some st \<and> script_inv v"

lemma running_facts:
  assumes "script_running v st"
  shows "sv_state v = Some st" "sv_timer v" "\<not> sv_failed v" "sc_next st < length (sc_actions st)" "unat (sc_await_ticks st) < 50"
  "\<forall>a \<in> set (butlast (sc_actions st)). sa_type a \<noteq> ActionCloseWindow"
  using assms by (auto simp: script_inv_def script_running_def)

lemma drop_actions:
  "script_running v st \<Longrightarrow> drop (sc_next st) (sc_actions st) = sc_actions st ! sc_next st # drop (sc_next st + 1) (sc_actions st)"
  using running_facts(4) [of v st] by (simp add: Cons_nth_drop_Suc)

lemma ticks_running:
  assumes "script_running v st"
  shows "ticks_left v > 0" "(length (sc_actions st) - (sc_next st + 1)) * 50 < ticks_left v"
proof -
  note f = running_facts [OF assms]
  have "(length (sc_actions st) - sc_next st) * 50 = (length (sc_actions st) - (sc_next st + 1)) * 50 + 50"
    using f(4) by (simp add: algebra_simps)
  then have "ticks_left v = (length (sc_actions st) - (sc_next st + 1)) * 50 + (50 - unat (sc_await_ticks st))"
    using f(1,5) by (simp add: ticks_left_def)
  then show "ticks_left v > 0" "(length (sc_actions st) - (sc_next st + 1)) * 50 < ticks_left v"
    using f(5) by linarith+
qed

lemma done_step:
  assumes "script_running v st"
  shows "script_step_ok lv v (action_effects lv (sc_actions st ! sc_next st)) (complete_if_done (next_action st v))"
proof -
  note f = running_facts [OF assms] and t = ticks_running [OF assms] and d = drop_actions [OF assms]
  let ?v = "next_action st v"
  have s: "sv_state ?v = Some (st\<lparr>sc_next := sc_next st + 1, sc_await_ticks := 0\<rparr>)" "sv_timer ?v" "\<not> sv_failed ?v"
    using f by (simp_all add: next_action_def)
  show ?thesis
  proof (cases "sc_next st + 1 \<ge> length (sc_actions st)")
    case True
    then show ?thesis using s f t d
      by (simp add: script_step_ok_def complete_if_done_def complete_script_def release_script_def script_inv_def effects_left_def
        ticks_left_def [of "?v\<lparr>sv_timer := False, sv_state := None\<rparr>"])
  next
    case False
    then show ?thesis using s f t(2) d
      by (simp add: script_step_ok_def complete_if_done_def script_inv_def effects_left_def ticks_left_def [of ?v])
  qed
qed

lemma close_step:
  assumes run: "script_running v st" and "sa_type (sc_actions st ! sc_next st) = ActionCloseWindow"
  shows "script_step_ok lv v [ClosedWindow] (complete_script (next_action st v))"
proof -
  note f = running_facts [OF run] and t = ticks_running [OF run] and d = drop_actions [OF run]
  have "sc_next st + 1 = length (sc_actions st)"
  proof (rule ccontr)
    assume "sc_next st + 1 \<noteq> length (sc_actions st)"
    then have "sc_next st < length (butlast (sc_actions st))" using f(4) by simp
    then have "sc_actions st ! sc_next st \<in> set (butlast (sc_actions st))" by (metis nth_butlast nth_mem)
    then show False using assms(2) f(6) by blast
  qed
  then show ?thesis using f t d assms(2)
    by (simp add: script_step_ok_def next_action_def complete_script_def release_script_def script_inv_def effects_left_def
      action_effects_def ticks_left_def [of "v\<lparr>sv_timer := False, sv_state := None\<rparr>"])
qed

lemma await_step:
  assumes run: "script_running v st" and st2: "st2 = st\<lparr>sc_await_ticks := sc_await_ticks st + 1\<rparr>"
  shows "script_step_ok lv v []
    (if sc_await_ticks st2 \<ge> kMaximumAwaitTicks then fail_script (v\<lparr>sv_state := Some st2\<rparr>) else v\<lparr>sv_state := Some st2\<rparr>)"
proof -
  note f = running_facts [OF run]
  have u: "unat (sc_await_ticks st + 1) = unat (sc_await_ticks st) + 1"
    using f(5) by (simp add: unat_word_ariths)
  have le: "50 \<le> sc_await_ticks st2 \<longleftrightarrow> 50 \<le> unat (sc_await_ticks st2)" by (simp add: word_le_nat_alt)
  show ?thesis
  proof (cases "50 \<le> sc_await_ticks st2")
    case True
    then show ?thesis using fail_step [OF ticks_running(1) [OF run]] by simp
  next
    case False
    have "ticks_left (v\<lparr>sv_state := Some st2\<rparr>) < ticks_left v"
      using u f(1,4,5) by (simp add: ticks_left_def st2)
    then show ?thesis using False f u le
      by (simp add: script_step_ok_def script_inv_def effects_left_def st2)
  qed
qed

lemma timer_step:
  assumes run: "script_running v st" and tick: "script_timer_cb lv h v w = (v', w', e)"
  shows "script_step_ok lv v e v'"
proof -
  let ?a = "sc_actions st ! sc_next st"
  note f = fail_step [OF ticks_running(1) [OF run]]
  note st = running_facts(1,4) [OF run]
  show ?thesis
  proof (cases "sa_type ?a")
    case ActionKey
    then show ?thesis using tick st f done_step [OF run, of lv]
      by (auto simp: script_timer_cb_def run_script_action_def Let_def action_effects_def split: prod.splits bool.splits)
  next
    case ActionWait
    then show ?thesis using tick st done_step [OF run, of lv]
      by (auto simp: script_timer_cb_def run_script_action_def Let_def action_effects_def)
  next
    case ActionScreenshot
    then show ?thesis using tick st f done_step [OF run, of lv]
      by (auto simp: script_timer_cb_def run_script_action_def Let_def action_effects_def split: option.splits bool.splits)
  next
    case ActionExpect
    then show ?thesis using tick st f done_step [OF run, of lv]
      by (auto simp: script_timer_cb_def run_script_action_def Let_def action_effects_def split: prod.splits probe_result.splits)
  next
    case ActionAwait
    then show ?thesis using tick st f done_step [OF run, of lv] await_step [OF run refl, of lv]
      by (auto simp: script_timer_cb_def run_script_action_def Let_def action_effects_def split: prod.splits probe_result.splits)
  next
    case ActionCloseWindow
    then show ?thesis using tick st f close_step [OF run, of lv]
      by (auto simp: script_timer_cb_def run_script_action_def Let_def split: if_splits)
  qed
qed

text \<open>A run of the timer: it ends within its ticks, and what it did is what the script had to do.\<close>

lemma script_ticks_run:
  assumes "script_inv v" "script_ticks lv hs v w = (v', w', e)"
  shows "script_inv v'" "ticks_left v' \<le> ticks_left v - length hs"
    "if sv_failed v' \<and> \<not> sv_failed v then prefix e (effects_left lv v) \<and> sv_state v' = None
     else effects_left lv v = e @ effects_left lv v' \<and> sv_failed v' = sv_failed v"
proof -
  have "script_inv v' \<and> ticks_left v' \<le> ticks_left v - length hs \<and>
    (if sv_failed v' \<and> \<not> sv_failed v then prefix e (effects_left lv v) \<and> sv_state v' = None
     else effects_left lv v = e @ effects_left lv v' \<and> sv_failed v' = sv_failed v)"
    using assms
  proof (induction hs arbitrary: v w v' w' e)
    case (Cons h hs)
    show ?case
    proof (cases "sv_state v")
      case None
      then have "\<not> sv_timer v" using Cons.prems(1) by (simp add: script_inv_def)
      then show ?thesis using Cons.prems None by (simp add: ticks_left_def effects_left_def)
    next
      case (Some st)
      then have run: "script_running v st" using Cons.prems(1) by (simp add: script_running_def)
      obtain v1 w1 e1 where t: "script_timer_cb lv h v w = (v1, w1, e1)" by (metis prod_cases3)
      obtain v2 w2 e2 where r: "script_ticks lv hs v1 w1 = (v2, w2, e2)" by (metis prod_cases3)
      have eq: "v' = v2" "e = e1 @ e2" using Cons.prems(2) t r running_facts(2) [OF run] by simp_all
      note s = timer_step [OF run t, unfolded script_step_ok_def]
      have i: "script_inv v2" "ticks_left v2 \<le> ticks_left v1 - length hs"
        "if sv_failed v2 \<and> \<not> sv_failed v1 then prefix e2 (effects_left lv v1) \<and> sv_state v2 = None
         else effects_left lv v1 = e2 @ effects_left lv v2 \<and> sv_failed v2 = sv_failed v1"
        using Cons.IH [OF _ r] s by simp_all
      have nf: "\<not> sv_failed v" using running_facts(3) [OF run] .
      show ?thesis
      proof (cases "sv_failed v1")
        case True
        then have "e1 = []" "sv_state v1 = None" using s by simp_all
        moreover from this have "hs = [] \<or> \<not> sv_timer v1" using s by (simp add: script_inv_def)
        then have "v2 = v1 \<and> e2 = []" using r by (cases hs) auto
        ultimately show ?thesis using eq i s True nf by (simp add: ticks_left_def)
      next
        case False
        then have "effects_left lv v = e1 @ effects_left lv v1" using s by simp
        then show ?thesis using eq i s False nf by (auto split: if_splits)
      qed
    qed
  qed simp
  then show "script_inv v'" "ticks_left v' \<le> ticks_left v - length hs"
    "if sv_failed v' \<and> \<not> sv_failed v then prefix e (effects_left lv v) \<and> sv_state v' = None
     else effects_left lv v = e @ effects_left lv v' \<and> sv_failed v' = sv_failed v" by simp_all
qed

lemma start_script_inv:
  assumes "start_app_script source interval throws timer probe v0 = v"
  shows "script_inv v" "sv_state v \<noteq> None \<Longrightarrow>
    source \<noteq> None \<and> pr_error (parse (the source)) = ScriptNone \<and> ir_valid (parse_interval interval) \<and>
    sv_state v = Some \<lparr>sc_actions = pr_actions (parse (the source)), sc_next = 0, sc_await_ticks = 0, sc_probe = probe\<rparr>"
proof -
  have close: "\<forall>a \<in> set (butlast (pr_actions (parse s))). sa_type a \<noteq> ActionCloseWindow" if "pr_error (parse s) = ScriptNone" for s
    using parse_accepted_or_rejected [of s] that by (auto simp: accepted_ok_def rejected_ok_def)
  show "script_inv v" using assms [symmetric] close
    by (auto simp: start_app_script_def stop_app_script_def release_script_def script_inv_def Let_def)
  show "sv_state v \<noteq> None \<Longrightarrow>
    source \<noteq> None \<and> pr_error (parse (the source)) = ScriptNone \<and> ir_valid (parse_interval interval) \<and>
    sv_state v = Some \<lparr>sc_actions = pr_actions (parse (the source)), sc_next = 0, sc_await_ticks = 0, sc_probe = probe\<rparr>"
    using assms [symmetric] by (auto simp: start_app_script_def stop_app_script_def release_script_def Let_def split: if_splits)
qed

lemma actions_bound: "pr_error (parse s) = ScriptNone \<Longrightarrow> length (pr_actions (parse s)) \<le> 1024"
  using parse_accepted_or_rejected [of s] by (auto simp: accepted_ok_def rejected_ok_def)

section \<open>The program as the host\<close>

text \<open>The host of \<^verbatim>\<open>app.cpp\<close>: keys go to the key handler, probes to the probe function.\<close>

definition app_host :: "lv_keys \<Rightarrow> key_io \<Rightarrow> (bytes \<Rightarrow> bool option) \<Rightarrow> bool \<times> u32 \<times> int \<Rightarrow> 'p app script_host" where
  "app_host lv io shot window =
     \<lparr>sh_route_key = (\<lambda>key st. (True, snd (on_key lv io key st))),
      sh_probe = (\<lambda>field st. case app_probe field st of (r, st) \<Rightarrow> (Some r, st)),
      sh_screenshot = shot, sh_window = fst window, sh_window_id = fst (snd window), sh_push_event = snd (snd window)\<rparr>"

definition app_hosts :: "lv_keys \<Rightarrow> (key_io \<times> (bytes \<Rightarrow> bool option) \<times> bool \<times> u32 \<times> int) list \<Rightarrow> 'p app script_host list" where
  "app_hosts lv ts = map (\<lambda>(io, shot, window). app_host lv io shot window) ts"

text \<open>The keys among the effects.\<close>

definition keys_of :: "script_effect list \<Rightarrow> u32 list" where
  "keys_of es = List.map_filter (\<lambda>e. case e of RoutedKey k \<Rightarrow> Some k | _ \<Rightarrow> None) es"

lemma keys_of_simps [simp]:
  "keys_of [] = []" "keys_of (RoutedKey k # es) = k # keys_of es" "keys_of (SavedScreenshot s # es) = keys_of es"
  "keys_of (SawValue f u # es) = keys_of es" "keys_of (ClosedWindow # es) = keys_of es" "keys_of (es @ fs) = keys_of es @ keys_of fs"
  by (simp_all add: keys_of_def map_filter_simps)
    (simp add: List.map_filter_def)

lemma on_key_running: "ap_running (snd (on_key lv io key st)) \<Longrightarrow> ap_running st"
  by (auto simp: on_key_def split: if_splits)

lemma on_key_handled:
  assumes "ap_running st"
  shows "\<exists>a shown. on_key lv io key st = (Some (a, shown), snd (on_key lv io key st))"
  using assms by (auto simp: on_key_def Let_def split: prod.splits bool.splits)

lemma probe_running: "ap_running (snd (app_probe field st)) = ap_running st"
  by (simp add: app_probe_def case_prod_beta)

lemma timer_calls:
  assumes "script_timer_cb lv h v w = (v', w', e)"
  shows "(\<exists>key ok. sh_route_key h key w = (ok, w') \<and> keys_of e = (if ok then [key] else [])) \<or>
    (\<exists>field r. sh_probe h field w = (r, w') \<and> keys_of e = []) \<or> w' = w \<and> keys_of e = []"
proof (cases "\<exists>st. sv_state v = Some st \<and> sc_next st < length (sc_actions st)")
  case False
  then show ?thesis using assms by (auto simp: script_timer_cb_def run_script_action_def not_less split: option.splits if_splits)
next
  case True
  then obtain st where st: "sv_state v = Some st" "\<not> length (sc_actions st) \<le> sc_next st" by auto
  let ?a = "sc_actions st ! sc_next st"
  note run = assms [unfolded script_timer_cb_def run_script_action_def]
  have probe: "\<exists>field r. sh_probe h field w = (r, w1) \<or> w1 = w" if "evaluate_probe h x a w = (p, w1)" for x a p w1
    using that by (auto simp: evaluate_probe_def split: if_splits prod.splits option.splits)
  show ?thesis
  proof (cases "sa_type ?a")
    case ActionKey
    obtain ok w1 where k: "sh_route_key h (route_value lv ?a) w = (ok, w1)" by fastforce
    have "w' = w1 \<and> keys_of e = (if ok then [route_value lv ?a] else [])"
      using run ActionKey st k by (cases ok) (auto simp: Let_def simp del: route_value.simps)
    then show ?thesis using k by blast
  next
    case ActionExpect
    obtain p w1 where k: "evaluate_probe h (Some st) ?a w = (p, w1)" by fastforce
    have "w' = w1 \<and> keys_of e = []" using run ActionExpect st k by (cases p) (auto simp: Let_def)
    then show ?thesis using probe [OF k] by blast
  next
    case ActionAwait
    obtain p w1 where k: "evaluate_probe h (Some st) ?a w = (p, w1)" by fastforce
    have "w' = w1 \<and> keys_of e = []" using run ActionAwait st k by (cases p) (auto simp: Let_def)
    then show ?thesis using probe [OF k] by blast
  next
    case ActionScreenshot
    obtain r where k: "sh_screenshot h (sa_value ?a) = r" by blast
    have "w' = w \<and> keys_of e = []"
    proof (cases r)
      case None
      then show ?thesis using run ActionScreenshot st k by (auto simp: Let_def)
    next
      case (Some b)
      then show ?thesis using run ActionScreenshot st k by (cases b) (auto simp: Let_def)
    qed
    then show ?thesis by blast
  next
    case ActionWait
    then have "w' = w \<and> keys_of e = []" using run st by (auto simp: Let_def)
    then show ?thesis by blast
  next
    case ActionCloseWindow
    then have "w' = w \<and> keys_of e = []" using run st by (cases "request_window_close h") (auto simp: Let_def)
    then show ?thesis by blast
  qed
qed

text \<open>One tick on the program: a run that handles the key, if the program still runs.\<close>

lemma app_tick:
  assumes "app_run lv ops st0 tr st" "key_io_ok io" "script_timer_cb lv (app_host lv io shot window) v st = (v', st', e)"
  shows "\<exists>tr'. app_run lv ops st0 tr' st' \<and> (ap_running st' \<longrightarrow> ap_running st \<and> map fst tr' = map fst tr @ map (semantic_key lv) (keys_of e))"
proof -
  have key: ?thesis if k: "st' = snd (on_key lv io key st)" "keys_of e = [key]" for key
  proof (cases "ap_running st")
    case True
    then obtain a shown where "on_key lv io key st = (Some (a, shown), st')" using on_key_handled [OF True, of lv io key] k(1) by blast
    from app_key [OF assms(1,2) this] show ?thesis using k True by (intro exI [of _ "tr @ [(semantic_key lv key, a)]"]) simp
  next
    case False
    then have "st' = st" using k(1) by (simp add: on_key_def)
    then show ?thesis using assms(1) False by auto
  qed
  have probe: ?thesis if "st' = snd (app_probe field st)" "keys_of e = []" for field
    using app_probed [OF assms(1), of field] that probe_running [of field st] by auto
  have same: ?thesis if "st' = st" "keys_of e = []" using assms(1) that by auto
  have "(\<exists>key. st' = snd (on_key lv io key st) \<and> keys_of e = [key]) \<or> (\<exists>field. st' = snd (app_probe field st) \<and> keys_of e = []) \<or>
      st' = st \<and> keys_of e = []"
    using timer_calls [OF assms(3)] by (auto simp: app_host_def case_prod_beta split: if_splits)
  then show ?thesis using key probe same by blast
qed

lemma app_ticks:
  assumes "app_run lv ops st0 tr st" "list_all (\<lambda>t. key_io_ok (fst t)) ts" "script_ticks lv (app_hosts lv ts) v st = (v', st', e)"
  shows "\<exists>tr'. app_run lv ops st0 tr' st' \<and> (ap_running st' \<longrightarrow> ap_running st \<and> map fst tr' = map fst tr @ map (semantic_key lv) (keys_of e))"
  using assms
proof (induction ts arbitrary: tr st v e)
  case Nil
  then show ?case by (auto simp: app_hosts_def)
next
  case (Cons t ts)
  obtain io shot window where t: "t = (io, shot, window)" by (cases t)
  show ?case
  proof (cases "sv_timer v")
    case False
    then show ?thesis using Cons.prems by (auto simp: app_hosts_def t)
  next
    case True
    obtain v1 st1 e1 where one: "script_timer_cb lv (app_host lv io shot window) v st = (v1, st1, e1)" by (metis prod_cases3)
    obtain v2 st2 e2 where r: "script_ticks lv (app_hosts lv ts) v1 st1 = (v2, st2, e2)" by (metis prod_cases3)
    have eq: "st' = st2" "e = e1 @ e2" "v' = v2" using Cons.prems(3) True one r by (simp_all add: app_hosts_def t)
    have io: "key_io_ok io" "list_all (\<lambda>t. key_io_ok (fst t)) ts" using Cons.prems(2) by (simp_all add: t)
    obtain tr1 where tr1: "app_run lv ops st0 tr1 st1" "ap_running st1 \<longrightarrow> ap_running st \<and> map fst tr1 = map fst tr @ map (semantic_key lv) (keys_of e1)"
      using app_tick [OF Cons.prems(1) io(1) one] by blast
    have "script_ticks lv (app_hosts lv ts) v1 st1 = (v', st', e2)" using r eq by simp
    from Cons.IH [OF tr1(1) io(2) this] obtain tr2 where tr2: "app_run lv ops st0 tr2 st'"
        "ap_running st' \<longrightarrow> ap_running st1 \<and> map fst tr2 = map fst tr1 @ map (semantic_key lv) (keys_of e2)" by blast
    then show ?thesis using tr1(2) eq(2) by (intro exI [of _ tr2]) simp
  qed
qed

lemma keys_of_actions: "keys_of (concat (map (action_effects lv) as)) = map (route_value lv) (filter (\<lambda>a. sa_type a = ActionKey) as)"
  by (induction as) (auto simp: action_effects_def simp del: route_value.simps split: action_type.splits)

section \<open>Properties\<close>

text \<open>C35: A script always ends. Started from the environment's variables, whatever they hold and whatever the program
  answers, it is over after 50 ticks for each of its actions; a script that did not fail has done exactly its actions in
  their order, each expectation having been met, and one that failed had done the first of them.\<close>

theorem script_ends:
  assumes "start_app_script (Some source) interval throws timer probe v0 = v" "script_ticks lv hs v w = (v', w', e)"
    "50 * length (pr_actions (parse source)) \<le> length hs"
  shows "\<not> app_script_pending v' \<and> prefix e (concat (map (action_effects lv) (pr_actions (parse source)))) \<and>
    (\<not> app_script_failed v' \<and> app_script_pending v \<longrightarrow> e = concat (map (action_effects lv) (pr_actions (parse source))))"
proof -
  note inv = start_script_inv(1) [OF assms(1)]
  note run = script_ticks_run [OF inv assms(2)]
  show ?thesis
  proof (cases "sv_state v")
    case None
    then have "\<not> sv_timer v" using inv by (simp add: script_inv_def)
    then have "v' = v \<and> e = []" using assms(2) by (cases hs) auto
    then show ?thesis using None by (simp add: app_script_pending_def)
  next
    case (Some st)
    then have st: "sc_actions st = pr_actions (parse source)" "sc_next st = 0" "unat (sc_await_ticks st) = 0" "\<not> sv_failed v"
      using start_script_inv(2) [OF assms(1)] inv by (auto simp: script_inv_def)
    then have "ticks_left v \<le> length hs" using assms(3) Some by (simp add: ticks_left_def mult.commute)
    then have "ticks_left v' = 0" using run(2) by simp
    then have over: "sv_state v' = None" using run(1) ticks_running(1) [of v'] by (auto simp: script_running_def intro: ccontr)
    have left: "effects_left lv v = concat (map (action_effects lv) (pr_actions (parse source)))" "effects_left lv v' = []"
      using Some st over by (simp_all add: effects_left_def)
    show ?thesis using run(3) over left st(4) by (auto simp: app_script_pending_def app_script_failed_def split: if_splits)
  qed
qed

text \<open>A script of two steps and the program it runs on.\<close>

lemma sample_script_actions:
  "pr_actions (parse (ascii ''S,WAIT'')) = [action_of ActionKey NamedNone 0x73 [] [], action_of ActionWait NamedNone 0 [] []]"
  "pr_error (parse (ascii ''S,WAIT'')) = ScriptNone"
proof -
  let ?ps = "[([], StepLetter 0x73, []), ([], StepWait, [])]"
  have src: "script_source ?ps = ascii ''S,WAIT''" by (simp add: ascii_def)
  have "script_ok ?ps" unfolding script_ok_def src by (simp add: ascii_def padding_ok_def)
  note p = parse_written [OF this, unfolded src]
  show "pr_actions (parse (ascii ''S,WAIT'')) = [action_of ActionKey NamedNone 0x73 [] [], action_of ActionWait NamedNone 0 [] []]"
    "pr_error (parse (ascii ''S,WAIT'')) = ScriptNone" by (simp_all add: p)
qed

definition sample_script_start :: script_vars where
  "sample_script_start = start_app_script (Some (ascii ''S,WAIT'')) None False True True \<lparr>sv_timer = False, sv_state = None, sv_failed = False\<rparr>"

lemma sample_script_state:
  "sample_script_start = \<lparr>sv_timer = True, sv_state = Some \<lparr>sc_actions = [action_of ActionKey NamedNone 0x73 [] [], action_of ActionWait NamedNone 0 [] []],
     sc_next = 0, sc_await_ticks = 0, sc_probe = True\<rparr>, sv_failed = False\<rparr>"
  by (simp add: sample_script_start_def start_app_script_def stop_app_script_def release_script_def sample_script_actions Let_def
    parse_interval_def)

definition sample_ticks :: "(key_io \<times> (bytes \<Rightarrow> bool option) \<times> bool \<times> u32 \<times> int) list" where
  "sample_ticks = [(sample_key_io, \<lambda>_. None, False, 0, 0), (sample_key_io, \<lambda>_. None, False, 0, 0)]"

lemma sample_script_run:
  "script_ticks sample_lv (app_hosts sample_lv sample_ticks) sample_script_start sample_app =
     (\<lparr>sv_timer = False, sv_state = None, sv_failed = False\<rparr>, snd (on_key sample_lv sample_key_io 0x73 sample_app), [RoutedKey 0x73])"
  by (simp add: sample_script_state sample_ticks_def app_hosts_def app_host_def script_timer_cb_def run_script_action_def action_of_def
    complete_if_done_def next_action_def complete_script_def release_script_def)

lemma sample_script_running: "ap_running (snd (on_key sample_lv sample_key_io 0x73 sample_app))"
proof -
  have h: "fst (sample_handle sample_app 0x73) = ui_render True" using sample_app_start(3,4) by (simp add: sample_defs)
  then obtain vm s d where "sample_handle sample_app 0x73 = (ui_render True, vm, s, d)" by (metis prod.exhaust_sel)
  then show ?thesis using sample_app_fields(1) by (simp add: on_key_def ui_render_def Let_def case_prod_beta render_fields sample_key_io_def)
qed

theorem script_ends_witness:
  "\<not> app_script_pending (fst (script_ticks sample_lv (replicate 100 (app_host sample_lv sample_key_io (\<lambda>_. None) (False, 0, 0)))
     sample_script_start sample_app))"
proof -
  let ?hs = "replicate 100 (app_host sample_lv sample_key_io (\<lambda>_. None) (False, 0, 0))"
  obtain v' w' e where r: "script_ticks sample_lv ?hs sample_script_start sample_app = (v', w', e)" by (metis prod_cases3)
  have "50 * length (pr_actions (parse (ascii ''S,WAIT''))) \<le> length ?hs" by (simp add: sample_script_actions)
  from script_ends [OF sample_script_start_def [symmetric] r this] show ?thesis using r by simp
qed

text \<open>C34: A script drives the program exactly as its user does. When a script that was accepted ends without failing and
  the program still runs, the program is in a state that its user reaches by typing the script's keys in their order, so what holds of
  every use of the program holds of the scripted one.\<close>

theorem script_drives_app:
  assumes "start_app_script (Some source) interval throws timer probe v0 = v" "app_script_pending v"
    "app_run lv ops st0 tr st" "list_all (\<lambda>t. key_io_ok (fst t)) ts" "script_ticks lv (app_hosts lv ts) v st = (v', st', e)"
    "\<not> app_script_pending v'" "\<not> app_script_failed v'" "ap_running st'"
  shows "\<exists>tr'. app_run lv ops st0 tr' st' \<and>
    map fst tr' = map fst tr @ map (\<lambda>a. semantic_key lv (route_value lv a)) (filter (\<lambda>a. sa_type a = ActionKey) (pr_actions (parse source)))"
proof -
  note inv = start_script_inv(1) [OF assms(1)]
  note run = script_ticks_run [OF inv assms(5)]
  obtain st1 where st1: "sv_state v = Some st1" "sc_actions st1 = pr_actions (parse source)" "sc_next st1 = 0"
    using start_script_inv(2) [OF assms(1)] assms(2) by (auto simp: app_script_pending_def)
  have "e = concat (map (action_effects lv) (pr_actions (parse source)))"
    using run(3) assms(6,7) st1 by (simp add: effects_left_def app_script_pending_def app_script_failed_def split: if_splits)
  then have k: "keys_of e = map (route_value lv) (filter (\<lambda>a. sa_type a = ActionKey) (pr_actions (parse source)))"
    by (simp only: keys_of_actions)
  obtain tr' where "app_run lv ops st0 tr' st'" "map fst tr' = map fst tr @ map (semantic_key lv) (keys_of e)"
    using app_ticks [OF assms(3,4,5)] assms(8) by blast
  then show ?thesis unfolding k by (intro exI [of _ tr']) (simp add: comp_def del: route_value.simps)
qed

theorem script_drives_app_witness:
  "\<exists>tr st. app_run sample_lv app_ops sample_app tr st \<and> map fst tr = [semantic_key sample_lv 0x73] \<and>
     st = snd (on_key sample_lv sample_key_io 0x73 sample_app)"
proof -
  have p: "app_script_pending sample_script_start" "\<not> app_script_pending \<lparr>sv_timer = False, sv_state = None, sv_failed = False\<rparr>"
    "\<not> app_script_failed \<lparr>sv_timer = False, sv_state = None, sv_failed = False\<rparr>"
    by (simp_all add: app_script_pending_def app_script_failed_def sample_script_state)
  have io: "list_all (\<lambda>t. key_io_ok (fst t)) sample_ticks" by (simp add: sample_ticks_def sample_key_io_ok)
  from script_drives_app [OF sample_script_start_def [symmetric] p(1) app_begin io sample_script_run p(2,3) sample_script_running]
  show ?thesis by (auto simp: sample_script_actions action_of_def)
qed

text \<open>The values the probes give are values a script may name.\<close>

lemma stable_screen: "is_stable_value (screen_probe x) 64"
  by (cases x) (simp_all add: is_stable_value_def is_lower_alphanumeric_def ascii_def)

lemma stable_modal: "is_stable_value (modal_probe x) 64"
  by (cases x) (simp_all add: is_stable_value_def is_lower_alphanumeric_def ascii_def)

lemma stable_locale: "l \<noteq> LocaleSimplifiedChinese \<Longrightarrow> is_stable_value (locale_code l) 64"
  by (cases l) (simp_all add: is_stable_value_def is_lower_alphanumeric_def ascii_def locale_code_def kLocaleCodes_def kLocaleCount_def)

lemma stable_newest: "is_stable_value (newest_state_probe m) 64"
  by (auto simp: newest_state_probe_def is_stable_value_def is_lower_alphanumeric_def ascii_def
    split: option.split entry_origin.split local_delivery_state.split)

lemma stable_focus: "is_stable_value (focus_probe s) 64"
proof -
  have "focus_probe s \<in> {ascii ''modal.confirm'', ascii ''modal.cancel'', ascii ''modal.dismiss'', ascii ''menu.settings'', ascii ''menu.talk'',
      ascii ''timeline.empty'', ascii ''timeline.row'', ascii ''detail.body'', ascii ''compose.body'', ascii ''mentions.empty'',
      ascii ''mentions.option'', ascii ''settings.skip-title'', ascii ''settings.language''}"
    unfolding focus_probe_def
    by (simp add: split: screen_id.split page_snapshot.split menu_item.split)
  then show ?thesis by (elim insertE emptyE) (simp_all add: is_stable_value_def is_lower_alphanumeric_def ascii_def)
qed

lemma stable_count:
  assumes "app_ok st"
  shows "is_stable_value (to_decimal (length (entries (ms_timeline (messenger (ap_session st)))))) 64"
proof -
  have "messenger_ok (messenger (ap_session st))" using assms owner_okD(1) by (auto simp: app_ok_def)
  then have "length (entries (ms_timeline (messenger (ap_session st)))) < 10 ^ 3"
    by (auto simp: messenger_ok_def timeline_posts_ok_def timeline_ok_def)
  then have "length (to_decimal (length (entries (ms_timeline (messenger (ap_session st)))))) \<le> 3" by (rule to_decimal_length) simp
  then show ?thesis using to_decimal_digits [of "length (entries (ms_timeline (messenger (ap_session st))))"]
    by (auto simp: is_stable_value_def is_lower_alphanumeric_def is_digit_def list_all_iff)
qed

text \<open>Every expectation that a script can state can be met. The program answers each field the parser accepts, and with a value the
  parser accepts, so an expectation fails only on a different value.\<close>

theorem probes_answered:
  assumes "app_ok st" "is_probe_field field"
  shows "\<exists>v st'. app_probe field st = (Some v, st') \<and> is_stable_value v 64"
proof -
  have s: "is_stable_value (ascii ''zh-hans'') 64" "is_stable_value (ascii ''queued'') 64" "is_stable_value (ascii ''idle'') 64"
    "is_stable_value (ascii ''ready'') 64" "is_stable_value (ascii ''recovery'') 64"
    by (simp_all add: is_stable_value_def is_lower_alphanumeric_def ascii_def)
  consider "field = ascii ''screen''" | "field = ascii ''modal''" | "field = ascii ''locale''" | "field = ascii ''focus''"
    | "field = ascii ''status''" | "field = ascii ''count''" | "field = ascii ''persistence''" | "field = ascii ''newest-state''"
    using assms(2) by (auto simp: is_probe_field_def)
  then show ?thesis
    by cases (simp_all add: app_probe_def s stable_screen stable_modal stable_locale stable_focus stable_newest stable_count [OF assms(1)]
      split: prod.split)
qed

theorem probes_answered_witness: "\<exists>v st'. app_probe (ascii ''count'') sample_app = (Some v, st') \<and> is_stable_value v 64"
proof -
  have "app_ok sample_app" unfolding sample_app_def by (rule app_open_ok(1) [OF sample_owner_ok])
  then show ?thesis using probes_answered [of sample_app "ascii ''count''"] by (simp add: is_probe_field_def)
qed

end
