(* ===== verification/Platform_Input.thy ===== *)
theory Platform_Input
  imports App_Shell
begin

text \<open>
  Model of \<^verbatim>\<open>src/platform/key_codec.h\<close> and \<^verbatim>\<open>src/platform/linux_input.cpp\<close>: the unpacking of keys that carry a whole UTF-8 character, the
  router that hands a key to the program once per press, and the keypad of the device, whose key codes come from Linux. The
  numbers of the keys are an argument, as are the events that wait on the device.
\<close>

unbundle bit_operations_syntax

section \<open>Definitions\<close>

subsection \<open>Packed keys\<close>

text \<open>The four bytes of the key value, least significant first.\<close>

definition key_bytes :: "u32 \<Rightarrow> bytes" where
  "key_bytes key =
     [ucast (key AND 0xff), ucast (drop_bit 8 key AND 0xff), ucast (drop_bit 16 key AND 0xff), ucast (drop_bit 24 key AND 0xff)]"

text \<open>The loop over the continuation bytes is the one of \<open>Core_Text\<close>.\<close>

definition decode_packed_utf8_key :: "u32 \<Rightarrow> u32" where
  "decode_packed_utf8_key key =
     (let b = key_bytes key; lead = b ! 0;
          start = (if lead AND 0x80 = 0 then Some (1, ucast lead)
                   else if lead AND 0xe0 = 0xc0 then Some (2, ucast lead AND 0x1f)
                   else if lead AND 0xf0 = 0xe0 then Some (3, ucast lead AND 0x0f)
                   else if lead AND 0xf8 = 0xf0 then Some (4, ucast lead AND 0x07)
                   else None)
      in case start of None \<Rightarrow> 0x25a1
         | Some (n, codepoint) \<Rightarrow>
             (case utf8_continue (slice 1 (n - 1) b) codepoint of None \<Rightarrow> 0x25a1 | Some cp \<Rightarrow> cp))"

subsection \<open>The key router\<close>

record key_router =
  kr_handler :: bool
  kr_last_key :: u32
  kr_last_pressed :: bool

text \<open>The key handed to the handler, if there is one.\<close>

definition route_key :: "u32 \<Rightarrow> key_router \<Rightarrow> u32 option" where
  "route_key key r = (if kr_handler r then Some key else None)"

definition set_key_handler :: "bool \<Rightarrow> key_router \<Rightarrow> key_router" where
  "set_key_handler handler r = r\<lparr>kr_handler := handler, kr_last_key := 0, kr_last_pressed := False\<rparr>"

text \<open>The argument is what LVGL reports of the active input device: its key and whether it is pressed.\<close>

definition key_event_cb :: "(u32 \<times> bool) option \<Rightarrow> key_router \<Rightarrow> u32 option \<times> key_router" where
  "key_event_cb input r =
     (case input of
        None \<Rightarrow> (None, r)
      | Some (k, pressed) \<Rightarrow>
          let key = decode_packed_utf8_key k;
              routed = (if pressed \<and> (\<not> kr_last_pressed r \<or> kr_last_key r \<noteq> key) then route_key key r else None)
          in (routed, r\<lparr>kr_last_key := key, kr_last_pressed := pressed\<rparr>))"

subsection \<open>The keys of Linux\<close>

text \<open>The numbers of \<^verbatim>\<open>linux/input.h\<close>: \<open>ea_key ''A''\<close> stands for \<^verbatim>\<open>KEY_A\<close>.\<close>

record evdev_abi =
  ea_key :: "string \<Rightarrow> u16"
  ea_ev_key :: u16

record evdev_keypad =
  kp_pressed :: bool
  kp_key :: u32
  kp_left_shift :: bool
  kp_right_shift :: bool
  kp_caps_lock :: bool

definition evdev_keypad_new :: evdev_keypad where
  "evdev_keypad_new = \<lparr>kp_pressed = False, kp_key = 0, kp_left_shift = False, kp_right_shift = False, kp_caps_lock = False\<rparr>"

record input_event =
  ie_type :: u16
  ie_code :: u16
  ie_value :: int

definition shifted_letter :: "byte \<Rightarrow> bool \<Rightarrow> bool \<Rightarrow> byte" where
  "shifted_letter letter shift caps_lock = (if shift \<noteq> caps_lock then letter - 0x20 else letter)"

definition ascii_key :: "byte \<Rightarrow> u32" where
  "ascii_key character = ucast character"

text \<open>A \<^verbatim>\<open>switch\<close> on a key code: the value of the first label that has it.\<close>

definition switch_key :: "evdev_abi \<Rightarrow> (string \<times> 'a) list \<Rightarrow> u16 \<Rightarrow> 'a option" where
  "switch_key abi cases code = map_of (map (\<lambda>(name, v). (ea_key abi name, v)) cases) code"

definition letter_keys :: "(string \<times> byte) list" where
  "letter_keys =
     [(''A'', 0x61), (''B'', 0x62), (''C'', 0x63), (''D'', 0x64), (''E'', 0x65), (''F'', 0x66), (''G'', 0x67), (''H'', 0x68),
      (''I'', 0x69), (''J'', 0x6a), (''K'', 0x6b), (''L'', 0x6c), (''M'', 0x6d), (''N'', 0x6e), (''O'', 0x6f), (''P'', 0x70),
      (''Q'', 0x71), (''R'', 0x72), (''S'', 0x73), (''T'', 0x74), (''U'', 0x75), (''V'', 0x76), (''W'', 0x77), (''X'', 0x78),
      (''Y'', 0x79), (''Z'', 0x7a)]"

definition map_letter :: "evdev_abi \<Rightarrow> u16 \<Rightarrow> bool \<Rightarrow> bool \<Rightarrow> u32" where
  "map_letter abi code shift caps_lock =
     (case switch_key abi letter_keys code of
        None \<Rightarrow> 0
      | Some letter \<Rightarrow> ascii_key (shifted_letter letter shift caps_lock))"

text \<open>The characters of the number row: plain and with shift.\<close>

definition number_keys :: "(string \<times> byte \<times> byte) list" where
  "number_keys =
     [(''1'', 0x31, 0x21), (''2'', 0x32, 0x40), (''3'', 0x33, 0x23), (''4'', 0x34, 0x24), (''5'', 0x35, 0x25),
      (''6'', 0x36, 0x5e), (''7'', 0x37, 0x26), (''8'', 0x38, 0x2a), (''9'', 0x39, 0x28), (''0'', 0x30, 0x29)]"

definition map_number :: "evdev_abi \<Rightarrow> u16 \<Rightarrow> bool \<Rightarrow> u32" where
  "map_number abi code shift =
     (case switch_key abi number_keys code of
        None \<Rightarrow> 0
      | Some (plain, shifted) \<Rightarrow> ascii_key (if shift then shifted else plain))"

definition control_keys :: "(string \<times> (lv_keys \<Rightarrow> u32)) list" where
  "control_keys =
     [(''HOME'', lv_key_home), (''ESC'', lv_key_esc), (''ENTER'', lv_key_enter), (''UP'', lv_key_up), (''DOWN'', lv_key_down),
      (''LEFT'', lv_key_left), (''RIGHT'', lv_key_right), (''BACKSPACE'', lv_key_backspace), (''DELETE'', lv_key_del),
      (''TAB'', lv_key_next)]"

definition punctuation_keys :: "(string \<times> byte \<times> byte) list" where
  "punctuation_keys =
     [(''SPACE'', 0x20, 0x20), (''MINUS'', 0x2d, 0x5f), (''EQUAL'', 0x3d, 0x2b), (''LEFTBRACE'', 0x5b, 0x7b),
      (''RIGHTBRACE'', 0x5d, 0x7d), (''BACKSLASH'', 0x5c, 0x7c), (''SEMICOLON'', 0x3b, 0x3a), (''APOSTROPHE'', 0x27, 0x22),
      (''GRAVE'', 0x60, 0x7e), (''COMMA'', 0x2c, 0x3c), (''DOT'', 0x2e, 0x3e), (''SLASH'', 0x2f, 0x3f)]"

definition map_evdev_key :: "evdev_abi \<Rightarrow> lv_keys \<Rightarrow> u16 \<Rightarrow> bool \<Rightarrow> bool \<Rightarrow> u32" where
  "map_evdev_key abi lv code shift caps_lock =
     (let letter = map_letter abi code shift caps_lock; number = map_number abi code shift
      in if letter \<noteq> 0 then letter
         else if number \<noteq> 0 then number
         else case switch_key abi control_keys code of
           Some k \<Rightarrow> k lv
         | None \<Rightarrow>
             (case switch_key abi punctuation_keys code of
                Some (plain, shifted) \<Rightarrow> ascii_key (if shift then shifted else plain)
              | None \<Rightarrow> 0))"

definition update_modifier :: "evdev_abi \<Rightarrow> input_event \<Rightarrow> evdev_keypad \<Rightarrow> bool \<times> evdev_keypad" where
  "update_modifier abi event keypad =
     (let pressed = (ie_value event \<noteq> 0)
      in if ie_code event = ea_key abi ''LEFTSHIFT'' then (True, keypad\<lparr>kp_left_shift := pressed\<rparr>)
         else if ie_code event = ea_key abi ''RIGHTSHIFT'' then (True, keypad\<lparr>kp_right_shift := pressed\<rparr>)
         else if ie_code event = ea_key abi ''CAPSLOCK''
         then (True, if ie_value event = 1 then keypad\<lparr>kp_caps_lock := \<not> kp_caps_lock keypad\<rparr> else keypad)
         else (False, keypad))"

text \<open>The words that \<^verbatim>\<open>EVIOCGBIT\<close> fills in, of the machine's width; \<open>None\<close> when the call fails.\<close>

definition has_key :: "'w::len word list \<Rightarrow> nat \<Rightarrow> bool" where
  "has_key bits code \<longleftrightarrow> bits ! (code div LENGTH('w)) AND push_bit (code mod LENGTH('w)) 1 \<noteq> 0"

definition supports_keyboard_keys :: "evdev_abi \<Rightarrow> 'w::len word list option \<Rightarrow> bool" where
  "supports_keyboard_keys abi bits =
     (case bits of None \<Rightarrow> False
      | Some bits \<Rightarrow> has_key bits (unat (ea_key abi ''HOME'')) \<or> has_key bits (unat (ea_key abi ''ESC'')) \<or>
          has_key bits (unat (ea_key abi ''N'')))"

text \<open>The loop of the read callback over the events that are waiting; a read that gives no whole event ends it. The result
  has the keypad, \<^verbatim>\<open>continue_reading\<close> and the events left.\<close>

fun evdev_read_loop :: "evdev_abi \<Rightarrow> lv_keys \<Rightarrow> input_event list \<Rightarrow> evdev_keypad \<Rightarrow> bool \<Rightarrow> evdev_keypad \<times> bool \<times> input_event list" where
  "evdev_read_loop abi lv [] keypad continue_reading = (keypad, continue_reading, [])"
| "evdev_read_loop abi lv (event # events) keypad continue_reading =
     (if ie_type event \<noteq> ea_ev_key abi then evdev_read_loop abi lv events keypad continue_reading
      else case update_modifier abi event keypad of
        (True, keypad) \<Rightarrow> evdev_read_loop abi lv events keypad True
      | (False, keypad) \<Rightarrow>
          if ie_value event = 2 then evdev_read_loop abi lv events keypad continue_reading
          else let shift = (kp_left_shift keypad \<or> kp_right_shift keypad);
                   key = map_evdev_key abi lv (ie_code event) shift (kp_caps_lock keypad)
            in if key = 0 then evdev_read_loop abi lv events keypad continue_reading
               else (keypad\<lparr>kp_key := key, kp_pressed := (ie_value event \<noteq> 0)\<rparr>, True, events))"

record indev_data =
  id_key :: u32
  id_pressed :: bool
  id_continue_reading :: bool

definition evdev_read_cb :: "evdev_abi \<Rightarrow> lv_keys \<Rightarrow> input_event list \<Rightarrow> evdev_keypad \<Rightarrow> indev_data \<times> evdev_keypad \<times> input_event list" where
  "evdev_read_cb abi lv events keypad =
     (case evdev_read_loop abi lv events keypad False of
        (keypad, continue_reading, events) \<Rightarrow>
          (\<lparr>id_key = kp_key keypad, id_pressed = kp_pressed keypad, id_continue_reading = continue_reading\<rparr>, keypad, events))"

text \<open>Opening one device: whether it opens, its key bits, whether LVGL makes an input device. The result is the keypad
  and whether the descriptor was closed again.\<close>

definition create_keypad :: "bool \<Rightarrow> evdev_keypad option \<times> bool" where
  "create_keypad indev = (if \<not> indev then (None, True) else (Some evdev_keypad_new, False))"

definition try_keypad :: "evdev_abi \<Rightarrow> bool \<times> 'w::len word list option \<times> bool \<Rightarrow> evdev_keypad option \<times> bool" where
  "try_keypad abi io =
     (case io of (opens, bits, indev) \<Rightarrow>
        if \<not> opens then (None, False)
        else if \<not> supports_keyboard_keys abi bits then (None, True)
        else create_keypad indev)"

text \<open>The devices tried: the configured one alone, or the entries of \<^verbatim>\<open>/dev/input\<close> named \<open>event\<dots>\<close>.\<close>

definition discover_keypads :: "evdev_abi \<Rightarrow> bytes \<Rightarrow> bytes list option \<Rightarrow> (bytes \<Rightarrow> bool \<times> 'w::len word list option \<times> bool) \<Rightarrow> (bytes \<times> evdev_keypad) list" where
  "discover_keypads abi configured directory io =
     (let attempt = (\<lambda>path. case fst (try_keypad abi (io path)) of None \<Rightarrow> [] | Some k \<Rightarrow> [(path, k)])
      in if configured \<noteq> [] then attempt configured
         else case directory of None \<Rightarrow> []
           | Some names \<Rightarrow>
               concat (map (\<lambda>name. if take 5 name \<noteq> ascii ''event'' then [] else attempt (ascii ''/dev/input/'' @ name)) names))"

section \<open>Packed keys\<close>

text \<open>How LVGL packs the bytes of a character.\<close>

definition pack_key :: "bytes \<Rightarrow> u32" where
  "pack_key bs = foldr (\<lambda>b acc. push_bit 8 acc OR ucast b) bs 0"

lemma pack_key_zeros: "pack_key (bs @ replicate n 0) = pack_key bs"
proof -
  have "foldr (\<lambda>b acc. push_bit 8 acc OR ucast (b :: byte)) (replicate n 0) (0 :: u32) = 0" by (induction n) simp_all
  then show ?thesis by (simp add: pack_key_def)
qed

lemma key_bytes_pack4: "key_bytes (pack_key [a, b, c, d]) = [a, b, c, d]"
proof -
  have m: "(0xff :: u32) = mask 8" by (simp add: mask_eq_exp_minus_1)
  have high: "\<not> bit (x :: byte) (k + n)" if "8 \<le> k" for x k n using bit_imp_le_length [of x "k + n"] that by auto
  show ?thesis unfolding key_bytes_def pack_key_def m
    by (auto intro!: bit_word_eqI simp: bit_simps high)
qed

lemma key_bytes_pack: "length bs \<le> 4 \<Longrightarrow> key_bytes (pack_key bs) = bs @ replicate (4 - length bs) 0"
proof -
  assume "length bs \<le> 4"
  then obtain v where v: "bs @ replicate (4 - length bs) 0 = v" "length v = Suc (Suc (Suc (Suc 0)))" by simp
  from v(2) obtain a b c d where "v = [a, b, c, d]" by (auto simp: length_Suc_conv)
  then have p: "bs @ replicate (4 - length bs) 0 = [a, b, c, d]" using v(1) by simp
  have "pack_key bs = pack_key (bs @ replicate (4 - length bs) 0)" by (rule pack_key_zeros [symmetric])
  then show ?thesis unfolding p by (simp add: key_bytes_pack4)
qed

lemma unat_masked: "k \<le> 8 \<Longrightarrow> unat ((c :: byte) AND push_bit k (mask (8 - k))) = unat c div 2 ^ k * 2 ^ k"
proof -
  assume k: "k \<le> 8"
  have "c AND push_bit k (mask (8 - k)) = push_bit k (drop_bit k c)"
    by (rule bit_word_eqI) (auto simp: bit_simps)
  then have "unat (c AND push_bit k (mask (8 - k))) = (unat c div 2 ^ k * 2 ^ k) mod 2 ^ LENGTH(8)"
    by (simp only: unat_bits)
  moreover have "unat c div 2 ^ k * 2 ^ k < 2 ^ 8" using unat_byte_bound [of c] le_less_trans [OF div_times_less_eq_dividend [of "unat c" "2 ^ k"]] by simp
  ultimately show ?thesis by simp
qed

lemma lead_classes:
  fixes c :: byte
  shows "c AND 0x80 = 0 \<longleftrightarrow> unat c < 128" "c AND 0xe0 = 0xc0 \<longleftrightarrow> 192 \<le> unat c \<and> unat c < 224"
    "c AND 0xf0 = 0xe0 \<longleftrightarrow> 224 \<le> unat c \<and> unat c < 240" "c AND 0xf8 = 0xf0 \<longleftrightarrow> 240 \<le> unat c \<and> unat c < 248"
proof -
  have m: "(0x80 :: byte) = push_bit 7 (mask (8 - 7))" "(0xe0 :: byte) = push_bit 5 (mask (8 - 5))"
    "(0xf0 :: byte) = push_bit 4 (mask (8 - 4))" "(0xf8 :: byte) = push_bit 3 (mask (8 - 3))"
    by (simp_all add: mask_eq_exp_minus_1)
  have u: "unat (c AND 0x80) = unat c div 128 * 128" "unat (c AND 0xe0) = unat c div 32 * 32"
    "unat (c AND 0xf0) = unat c div 16 * 16" "unat (c AND 0xf8) = unat c div 8 * 8"
    using unat_masked [of 7 c] unat_masked [of 5 c] unat_masked [of 4 c] unat_masked [of 3 c] by (simp_all only: m [symmetric]) simp_all
  have b: "unat c < 256" using unat_byte_bound [of c] by simp
  show "c AND 0x80 = 0 \<longleftrightarrow> unat c < 128" using u(1) b unfolding word_unat_eq_iff by simp arith
  show "c AND 0xe0 = 0xc0 \<longleftrightarrow> 192 \<le> unat c \<and> unat c < 224" using u(2) b unfolding word_unat_eq_iff by simp arith
  show "c AND 0xf0 = 0xe0 \<longleftrightarrow> 224 \<le> unat c \<and> unat c < 240" using u(3) b unfolding word_unat_eq_iff by simp arith
  show "c AND 0xf8 = 0xf0 \<longleftrightarrow> 240 \<le> unat c \<and> unat c < 248" using u(4) b unfolding word_unat_eq_iff by simp arith
qed

text \<open>On a lead byte that the strict scanner accepts, the two read the same.\<close>

lemma decode_packed_step:
  assumes "utf8_step (key_bytes k) = Some (cp, n)"
  shows "decode_packed_utf8_key k = cp"
proof -
  let ?b = "key_bytes k"
  obtain l where l: "utf8_lead (?b ! 0) = Some (l, n)" "utf8_continue (slice 1 (n - 1) ?b) l = Some cp"
    using assms by (auto simp: utf8_step_def split: option.splits if_splits)
  have "(if ?b ! 0 AND 0x80 = 0 then Some (1, ucast (?b ! 0))
     else if ?b ! 0 AND 0xe0 = 0xc0 then Some (2, ucast (?b ! 0) AND 0x1f)
     else if ?b ! 0 AND 0xf0 = 0xe0 then Some (3, ucast (?b ! 0) AND 0x0f)
     else if ?b ! 0 AND 0xf8 = 0xf0 then Some (4, ucast (?b ! 0) AND 0x07) else None) = Some (n, l)"
    using l(1) unfolding lead_nat lead_classes by (auto split: if_splits)
  then show ?thesis using l(2) unfolding decode_packed_utf8_key_def Let_def by simp
qed

lemma decode_packed_encoded:
  assumes "is_scalar c"
  shows "decode_packed_utf8_key (pack_key (encode_utf8 c)) = c"
proof -
  let ?v = "encode_utf8 c @ replicate (4 - length (encode_utf8 c)) 0"
  have "length (encode_utf8 c) \<le> 4" by (simp add: encode_utf8_def)
  then have v: "key_bytes (pack_key (encode_utf8 c)) = ?v" by (rule key_bytes_pack)
  have "?v \<noteq> []" using encode_utf8_nonempty [OF assms] by simp
  then have "utf8_step ?v = Some (c, length (encode_utf8 c))" using assms by (simp add: utf8_step_iff)
  then show ?thesis using decode_packed_step [of "pack_key (encode_utf8 c)"] v by simp
qed

lemma decode_packed_ascii: "unat k < 128 \<Longrightarrow> decode_packed_utf8_key k = k"
proof -
  assume k: "unat k < 128"
  then have s: "is_scalar k" "encode_utf8 k = [ucast k]" by (simp_all add: is_scalar_nat encode_utf8_ascii)
  have "pack_key [ucast k] = ucast (ucast k :: byte)" by (simp add: pack_key_def)
  also have "\<dots> = k" using unat_ascii [OF k] by (simp add: word_unat_eq_iff unat_lead_bits)
  finally show ?thesis using decode_packed_encoded [OF s(1)] s(2) by simp
qed

text \<open>An overlong form is not reported as malformed.\<close>

lemma packed_overlong_accepted: "decode_packed_utf8_key 0x80c0 = 0" "decode_packed_utf8_key 0x80a0ed = 0xd800"
  by code_simp+

section \<open>Typing\<close>

text \<open>The keys of a keyboard with the US layout, row by row: the characters of the plain keys, those with shift, and the names of the
  keys. This is the reference against which the tables of the code are checked.\<close>

definition us_rows :: "(string \<times> string \<times> string list) list" where
  "us_rows =
     [([CHR 0x60] @ ''1234567890-='', ''~!@#$%^&*()_+'',
       [''GRAVE'', ''1'', ''2'', ''3'', ''4'', ''5'', ''6'', ''7'', ''8'', ''9'', ''0'', ''MINUS'', ''EQUAL'']),
      (''qwertyuiop[]'' @ [CHR 0x5c], ''QWERTYUIOP{}|'',
       [''Q'', ''W'', ''E'', ''R'', ''T'', ''Y'', ''U'', ''I'', ''O'', ''P'', ''LEFTBRACE'', ''RIGHTBRACE'', ''BACKSLASH'']),
      (''asdfghjkl;'' @ [CHR 0x27], ''ASDFGHJKL:'' @ [CHR 0x22],
       [''A'', ''S'', ''D'', ''F'', ''G'', ''H'', ''J'', ''K'', ''L'', ''SEMICOLON'', ''APOSTROPHE'']),
      (''zxcvbnm,./'', ''ZXCVBNM<>?'', [''Z'', ''X'', ''C'', ''V'', ''B'', ''N'', ''M'', ''COMMA'', ''DOT'', ''SLASH'']),
      ('' '', '' '', [''SPACE''])]"

text \<open>The key of a character and whether it needs shift.\<close>

definition us_layout :: "(byte \<times> string \<times> bool) list" where
  "us_layout =
     concat (map (\<lambda>(plain, shifted, names). zip (ascii plain) (map (\<lambda>n. (n, False)) names) @ zip (ascii shifted) (map (\<lambda>n. (n, True)) names))
       us_rows)"

definition key_names :: "string list" where
  "key_names = map fst letter_keys @ map fst number_keys @ map fst control_keys @ map fst punctuation_keys @
     [''LEFTSHIFT'', ''RIGHTSHIFT'', ''CAPSLOCK'']"

text \<open>Two keys have two codes; the compiler checks this within a \<^verbatim>\<open>switch\<close>.\<close>

definition abi_ok :: "evdev_abi \<Rightarrow> bool" where
  "abi_ok abi \<longleftrightarrow> distinct (map (ea_key abi) key_names)"

text \<open>Pressing and releasing the key of a character, with the left shift key where the character needs it.\<close>

definition evdev_event :: "evdev_abi \<Rightarrow> string \<Rightarrow> int \<Rightarrow> input_event" where
  "evdev_event abi name v = \<lparr>ie_type = ea_ev_key abi, ie_code = ea_key abi name, ie_value = v\<rparr>"

definition stroke :: "evdev_abi \<Rightarrow> byte \<Rightarrow> input_event list" where
  "stroke abi c =
     (case map_of us_layout c of None \<Rightarrow> []
      | Some (name, shift) \<Rightarrow>
          (if shift then [evdev_event abi ''LEFTSHIFT'' 1] else []) @ [evdev_event abi name 1, evdev_event abi name 0] @
          (if shift then [evdev_event abi ''LEFTSHIFT'' 0] else []))"

text \<open>The results of calling the read callback again as long as its result asks for it with \<^verbatim>\<open>continue_reading\<close>.\<close>

lemma evdev_read_consumes:
  "evdev_read_loop abi lv events keypad cont = (kp, cont', rest) \<Longrightarrow> cont' \<Longrightarrow> \<not> cont \<Longrightarrow> length rest < length events"
proof (induction abi lv events keypad cont rule: evdev_read_loop.induct)
  case (2 abi lv event events keypad cont)
  have le: "evdev_read_loop abi lv events k b = (kp', b', rest') \<Longrightarrow> length rest' \<le> length events" for events k b kp' b' rest'
    by (induction abi lv events k b rule: evdev_read_loop.induct) (fastforce simp: Let_def split: if_splits prod.splits bool.splits)+
  show ?case using "2.prems" "2.IH" le
    by (auto simp: Let_def less_Suc_eq_le split: if_splits prod.splits bool.splits)
qed simp

function evdev_reads :: "evdev_abi \<Rightarrow> lv_keys \<Rightarrow> input_event list \<Rightarrow> evdev_keypad \<Rightarrow> indev_data list" where
  "evdev_reads abi lv events keypad =
     (case evdev_read_cb abi lv events keypad of
        (data, keypad, events) \<Rightarrow> data # (if id_continue_reading data then evdev_reads abi lv events keypad else []))"
  by pat_completeness auto
termination
  by (relation "measure (\<lambda>(abi, lv, events, keypad). length events)")
    (auto simp: evdev_read_cb_def split: prod.splits dest: evdev_read_consumes)

declare evdev_reads.simps [simp del]

lemma switch_key_name:
  assumes "inj_on (ea_key abi) S" "name \<in> S" "fst ` set cases \<subseteq> S"
  shows "switch_key abi cases (ea_key abi name) = map_of cases name"
  using assms(3)
proof (induction cases)
  case (Cons x cases)
  obtain n v where x: "x = (n, v)" by (cases x)
  then have "ea_key abi n = ea_key abi name \<longleftrightarrow> n = name" using assms(1,2) Cons.prems by (auto simp: inj_on_def)
  then show ?case using Cons x by (auto simp: switch_key_def)
qed (simp add: switch_key_def)

lemma abi_inj: "abi_ok abi \<Longrightarrow> inj_on (ea_key abi) (set key_names)"
  by (simp add: abi_ok_def distinct_map)

lemma switch_key_names:
  assumes "abi_ok abi" "name \<in> set key_names"
  shows "switch_key abi letter_keys (ea_key abi name) = map_of letter_keys name"
    "switch_key abi number_keys (ea_key abi name) = map_of number_keys name"
    "switch_key abi control_keys (ea_key abi name) = map_of control_keys name"
    "switch_key abi punctuation_keys (ea_key abi name) = map_of punctuation_keys name"
  by (rule switch_key_name [OF abi_inj [OF assms(1)] assms(2)], force simp: key_names_def)+

text \<open>The tables of the code agree with the layout, and the layout has every printable character.\<close>

lemma us_layout_sound:
  "list_all (\<lambda>(c, name, shift). c \<noteq> 0 \<and> unat c < 128 \<and> name \<in> set key_names \<and> name \<notin> {''LEFTSHIFT'', ''RIGHTSHIFT'', ''CAPSLOCK''} \<and>
     (case map_of letter_keys name of Some letter \<Rightarrow> shifted_letter letter shift False = c
      | None \<Rightarrow> (case map_of number_keys name of Some (p, s) \<Rightarrow> (if shift then s else p) = c
          | None \<Rightarrow> map_of control_keys name = None \<and>
              (case map_of punctuation_keys name of Some (p, s) \<Rightarrow> (if shift then s else p) = c | None \<Rightarrow> False)))) us_layout"
  by code_simp

lemma us_layout_complete: "list_all (\<lambda>n. map_of us_layout (of_nat n) \<noteq> None) [0x20..<0x7f]"
  by code_simp

lemma char_key_of:
  assumes "0x20 \<le> c" "c \<le> 0x7e"
  shows "\<exists>name shift. map_of us_layout c = Some (name, shift)"
proof -
  have "0x20 \<le> unat c" "unat c < 0x7f" using assms by (simp_all add: word_le_nat_alt)
  then have "unat c \<in> set [0x20..<0x7f]" by (simp only: set_upt atLeastLessThan_iff)
  then have "map_of us_layout (of_nat (unat c)) \<noteq> None" using us_layout_complete unfolding list_all_iff by blast
  then show ?thesis by simp
qed

lemma char_key_maps:
  assumes "map_of us_layout c = Some (name, shift)" "abi_ok abi"
  shows "map_evdev_key abi lv (ea_key abi name) shift False = ucast c" "name \<in> set key_names"
    "name \<notin> {''LEFTSHIFT'', ''RIGHTSHIFT'', ''CAPSLOCK''}" "ucast c \<noteq> (0 :: u32)" "unat (ucast c :: u32) < 128"
proof -
  have m: "(c, name, shift) \<in> set us_layout" by (rule map_of_SomeD [OF assms(1)])
  have t: "c \<noteq> 0 \<and> unat c < 128 \<and> name \<in> set key_names \<and> name \<notin> {''LEFTSHIFT'', ''RIGHTSHIFT'', ''CAPSLOCK''} \<and>
     (case map_of letter_keys name of Some letter \<Rightarrow> shifted_letter letter shift False = c
      | None \<Rightarrow> (case map_of number_keys name of Some (p, s) \<Rightarrow> (if shift then s else p) = c
          | None \<Rightarrow> map_of control_keys name = None \<and>
              (case map_of punctuation_keys name of Some (p, s) \<Rightarrow> (if shift then s else p) = c | None \<Rightarrow> False)))"
    using bspec [OF us_layout_sound [unfolded list_all_iff] m] by simp
  then show "name \<in> set key_names" "name \<notin> {''LEFTSHIFT'', ''RIGHTSHIFT'', ''CAPSLOCK''}" by blast+
  have u: "unat (ucast c :: u32) = unat c" by (rule unat_lead_bits)
  show nz: "ucast c \<noteq> (0 :: u32)" using t u by (auto simp: word_unat_eq_iff)
  show "unat (ucast c :: u32) < 128" using t u by simp
  have sw: "switch_key abi letter_keys (ea_key abi name) = map_of letter_keys name"
    "switch_key abi number_keys (ea_key abi name) = map_of number_keys name"
    "switch_key abi control_keys (ea_key abi name) = map_of control_keys name"
    "switch_key abi punctuation_keys (ea_key abi name) = map_of punctuation_keys name"
    using switch_key_names [OF assms(2)] t by blast+
  show "map_evdev_key abi lv (ea_key abi name) shift False = ucast c"
    using t nz unfolding map_evdev_key_def map_letter_def map_number_def sw Let_def ascii_key_def
    by (auto split: option.splits)
qed

lemma modifier_event:
  assumes "abi_ok abi" "name \<in> set key_names" "name \<notin> {''LEFTSHIFT'', ''RIGHTSHIFT'', ''CAPSLOCK''}"
  shows "update_modifier abi (evdev_event abi name v) kp = (False, kp)"
proof -
  have "ea_key abi name \<noteq> ea_key abi m" if "m \<in> {''LEFTSHIFT'', ''RIGHTSHIFT'', ''CAPSLOCK''}" for m
  proof
    assume "ea_key abi name = ea_key abi m"
    moreover have "m \<in> set key_names" using that by (auto simp: key_names_def)
    ultimately have "name = m" using abi_inj [OF assms(1)] assms(2) by (auto simp: inj_on_def)
    then show False using assms(3) that by simp
  qed
  then show ?thesis by (simp add: update_modifier_def evdev_event_def)
qed

lemma read_shift:
  "evdev_read_loop abi lv (evdev_event abi ''LEFTSHIFT'' v # es) kp b = evdev_read_loop abi lv es (kp\<lparr>kp_left_shift := (v \<noteq> 0)\<rparr>) True"
  by (simp add: evdev_event_def update_modifier_def)

lemma read_char:
  assumes "map_of us_layout c = Some (name, shift)" "abi_ok abi" "v \<noteq> 2" "kp_left_shift kp = shift" "\<not> kp_right_shift kp" "\<not> kp_caps_lock kp"
  shows "evdev_read_loop abi lv (evdev_event abi name v # es) kp b = (kp\<lparr>kp_key := ucast c, kp_pressed := (v \<noteq> 0)\<rparr>, True, es)"
  using assms char_key_maps [OF assms(1,2)] modifier_event [OF assms(2), of name v kp] by (simp add: evdev_event_def Let_def)

lemma reads_more:
  "evdev_read_cb abi lv es kp = (d, kp', es') \<Longrightarrow> id_continue_reading d \<Longrightarrow> evdev_reads abi lv es kp = d # evdev_reads abi lv es' kp'"
  by (subst evdev_reads.simps) simp

declare evdev_read_loop.simps(2) [simp del]

text \<open>Between two characters no key is down, and the shift key may still have to be released.\<close>

definition idle :: "bool \<Rightarrow> evdev_keypad \<Rightarrow> bool" where
  "idle shift kp \<longleftrightarrow> \<not> kp_pressed kp \<and> kp_left_shift kp = shift \<and> \<not> kp_right_shift kp \<and> \<not> kp_caps_lock kp"

definition press_release :: "byte \<Rightarrow> indev_data list" where
  "press_release c =
     [\<lparr>id_key = ucast c, id_pressed = True, id_continue_reading = True\<rparr>, \<lparr>id_key = ucast c, id_pressed = False, id_continue_reading = True\<rparr>]"

text \<open>The end of the reading: nothing is down, and the last result asks for no more.\<close>

definition reading_over :: "indev_data list \<Rightarrow> bool" where
  "reading_over ds \<longleftrightarrow> list_all (\<lambda>d. \<not> id_pressed d) ds \<and> ds \<noteq> [] \<and> \<not> id_continue_reading (last ds)"

lemma typed_reads:
  assumes "abi_ok abi" "list_all (\<lambda>c. 0x20 \<le> c \<and> c \<le> 0x7e) msg" "idle shift kp"
  shows "\<exists>rest. reading_over rest \<and>
    evdev_reads abi lv ((if shift then [evdev_event abi ''LEFTSHIFT'' 0] else []) @ concat (map (stroke abi) msg)) kp =
    concat (map press_release msg) @ rest"
  using assms(2-)
proof (induction msg arbitrary: shift kp)
  case Nil
  have stop: "reading_over (evdev_reads abi lv [] kp)" if "\<not> kp_pressed kp" for kp
    using that by (simp add: evdev_reads.simps evdev_read_cb_def reading_over_def)
  have "reading_over (evdev_reads abi lv (if shift then [evdev_event abi ''LEFTSHIFT'' 0] else []) kp)"
  proof (cases shift)
    case True
    then show ?thesis using Nil stop [of "kp\<lparr>kp_left_shift := False\<rparr>"]
      by (subst evdev_reads.simps) (simp add: evdev_read_cb_def read_shift idle_def reading_over_def)
  next
    case False
    then show ?thesis using Nil stop by (simp add: idle_def)
  qed
  then show ?case by simp
next
  case (Cons c msg)
  obtain name sh where k: "map_of us_layout c = Some (name, sh)" using char_key_of [of c] Cons.prems(1) by auto
  note m = char_key_maps [OF k assms(1)]
  let ?rest = "(if sh then [evdev_event abi ''LEFTSHIFT'' 0] else []) @ concat (map (stroke abi) msg)"
  let ?kp = "kp\<lparr>kp_left_shift := sh, kp_key := ucast c, kp_pressed := True\<rparr>"
  have ev: "(if shift then [evdev_event abi ''LEFTSHIFT'' 0] else []) @ concat (map (stroke abi) (c # msg)) =
      (if shift then [evdev_event abi ''LEFTSHIFT'' 0] else []) @ (if sh then [evdev_event abi ''LEFTSHIFT'' 1] else []) @
      evdev_event abi name 1 # evdev_event abi name 0 # ?rest"
    by (simp add: stroke_def k)
  have down: "evdev_read_cb abi lv ((if shift then [evdev_event abi ''LEFTSHIFT'' 0] else []) @ concat (map (stroke abi) (c # msg))) kp =
      (\<lparr>id_key = ucast c, id_pressed = True, id_continue_reading = True\<rparr>, ?kp, evdev_event abi name 0 # ?rest)"
    unfolding ev using Cons.prems(2) read_char [OF k assms(1), of 1]
    by (cases shift; cases sh) (simp_all add: evdev_read_cb_def read_shift idle_def)
  have up: "evdev_read_cb abi lv (evdev_event abi name 0 # ?rest) ?kp =
      (\<lparr>id_key = ucast c, id_pressed = False, id_continue_reading = True\<rparr>, ?kp\<lparr>kp_pressed := False\<rparr>, ?rest)"
    using Cons.prems(2) read_char [OF k assms(1), of 0] by (simp add: evdev_read_cb_def idle_def)
  have "evdev_reads abi lv ((if shift then [evdev_event abi ''LEFTSHIFT'' 0] else []) @ concat (map (stroke abi) (c # msg))) kp =
      press_release c @ evdev_reads abi lv ?rest (?kp\<lparr>kp_pressed := False\<rparr>)"
    unfolding reads_more [OF down, simplified indev_data.simps, OF TrueI] reads_more [OF up, simplified indev_data.simps, OF TrueI]
      press_release_def by simp
  moreover have "idle sh (?kp\<lparr>kp_pressed := False\<rparr>)" using Cons.prems(2) by (simp add: idle_def)
  moreover have "list_all (\<lambda>c. 0x20 \<le> c \<and> c \<le> 0x7e) msg" using Cons.prems(1) by simp
  ultimately show ?case using Cons.IH [of sh "?kp\<lparr>kp_pressed := False\<rparr>"] by auto
qed

text \<open>A press that is reported to the router reaches the handler unless it repeats the key that was last reported as down; the report of a
  release reaches nobody.\<close>

lemma press_routed:
  assumes "unat k < 128" "kr_handler r"
  shows "fst (key_event_cb (Some (k, True)) r) = (if kr_last_pressed r \<and> kr_last_key r = k then None else Some k)"
    "fst (key_event_cb (Some (k, False)) r) = None" "\<not> kr_last_pressed (snd (key_event_cb (Some (k, False)) r))"
  using assms by (auto simp: key_event_cb_def route_key_def Let_def decode_packed_ascii)

section \<open>Properties\<close>

text \<open>A character that the host's input method delivers packed as UTF-8 into a key value, least significant byte first, reaches the
  program as that character: unpacking is the inverse of packing on every Unicode scalar value, and a single-byte key is unchanged.\<close>

theorem packed_key_roundtrip:
  "(is_scalar c \<longrightarrow> decode_packed_utf8_key (pack_key (encode_utf8 c)) = c) \<and> (unat k < 128 \<longrightarrow> decode_packed_utf8_key k = k)"
  using decode_packed_encoded decode_packed_ascii by simp

theorem packed_key_roundtrip_witness:
  "decode_packed_utf8_key 0x8281e3 = 0x3042 \<and> decode_packed_utf8_key 0x61 = 0x61"
proof -
  have "pack_key (encode_utf8 0x3042) = 0x8281e3" by (simp add: encode_utf8_def pack_key_def)
  then show ?thesis using packed_key_roundtrip [of "0x3042" "0x61"] by (simp add: is_scalar_def)
qed

text \<open>C37: Every printable ASCII text can be typed on a keypad with the US layout: when the key of each character (given by \<open>us_layout\<close>, a
  table of its own) is pressed and released in turn, with the shift key where the character needs it, the successive calls of the read
  callback return exactly one press and one release of each character of the text, in order, and then only that no key is down until
  they ask for no further call. A press that is reported to the router reaches the key handler as that character unless it
  repeats the key last reported as down, and the report of a release reaches nobody and ends the repetition. The hypothesis on
  the numbers of the keys is that no two of them agree. Which reads LVGL reports to the router is not part of the statement.\<close>

theorem typed_text_read:
  assumes "abi_ok abi" "list_all (\<lambda>c. 0x20 \<le> c \<and> c \<le> 0x7e) msg"
  shows "(\<exists>rest. reading_over rest \<and>
      evdev_reads abi lv (concat (map (stroke abi) msg)) evdev_keypad_new = concat (map press_release msg) @ rest) \<and>
    (\<forall>c \<in> set msg. \<forall>r. kr_handler r \<longrightarrow>
      fst (key_event_cb (Some (ucast c, True)) r) = (if kr_last_pressed r \<and> kr_last_key r = ucast c then None else Some (ucast c)) \<and>
      fst (key_event_cb (Some (ucast c, False)) r) = None \<and> \<not> kr_last_pressed (snd (key_event_cb (Some (ucast c, False)) r)))"
proof (intro conjI ballI allI impI)
  show "\<exists>rest. reading_over rest \<and>
      evdev_reads abi lv (concat (map (stroke abi) msg)) evdev_keypad_new = concat (map press_release msg) @ rest"
    using typed_reads [OF assms, of False evdev_keypad_new lv] by (simp add: idle_def evdev_keypad_new_def)
next
  fix c and r :: key_router assume c: "c \<in> set msg" and r: "kr_handler r"
  then obtain name sh where k: "map_of us_layout c = Some (name, sh)" using char_key_of [of c] assms(2) by (auto simp: list_all_iff)
  note p = press_routed [OF char_key_maps(5) [OF k assms(1)] r]
  show "fst (key_event_cb (Some (ucast c, True)) r) = (if kr_last_pressed r \<and> kr_last_key r = ucast c then None else Some (ucast c))"
    "fst (key_event_cb (Some (ucast c, False)) r) = None" "\<not> kr_last_pressed (snd (key_event_cb (Some (ucast c, False)) r))"
    by (fact p)+
qed

text \<open>The codes of the header \<^verbatim>\<open>input-event-codes.h\<close>.\<close>

definition linux_abi :: evdev_abi where
  "linux_abi =
     \<lparr>ea_key = (\<lambda>name. case map_of (zip ([''ESC'', ''1'', ''2'', ''3'', ''4'', ''5'', ''6'', ''7'', ''8'', ''9'', ''0'', ''MINUS'', ''EQUAL'',
        ''BACKSPACE'', ''TAB'', ''Q'', ''W'', ''E'', ''R'', ''T'', ''Y'', ''U'', ''I'', ''O'', ''P'', ''LEFTBRACE'', ''RIGHTBRACE'', ''ENTER'',
        ''LEFTCTRL'', ''A'', ''S'', ''D'', ''F'', ''G'', ''H'', ''J'', ''K'', ''L'', ''SEMICOLON'', ''APOSTROPHE'', ''GRAVE'', ''LEFTSHIFT'',
        ''BACKSLASH'', ''Z'', ''X'', ''C'', ''V'', ''B'', ''N'', ''M'', ''COMMA'', ''DOT'', ''SLASH'', ''RIGHTSHIFT'']) [1..<55] @
        [(''SPACE'', 57), (''CAPSLOCK'', 58), (''HOME'', 102), (''UP'', 103), (''LEFT'', 105), (''RIGHT'', 106), (''DOWN'', 108), (''DELETE'', 111)]) name
        of Some n \<Rightarrow> of_nat n | None \<Rightarrow> 0),
      ea_ev_key = 1\<rparr>"

lemma linux_abi_ok: "abi_ok linux_abi"
  by code_simp

theorem typed_text_read_witness:
  "\<exists>lv rest. evdev_reads linux_abi lv (concat (map (stroke linux_abi) (ascii ''Hello, World!''))) evdev_keypad_new =
     concat (map press_release (ascii ''Hello, World!'')) @ rest \<and> reading_over rest \<and>
     fst (key_event_cb (Some (0x48, True)) \<lparr>kr_handler = True, kr_last_key = 0, kr_last_pressed = False\<rparr>) = Some 0x48"
proof -
  let ?m = "ascii ''Hello, World!''" and ?r = "\<lparr>kr_handler = True, kr_last_key = 0, kr_last_pressed = False\<rparr>"
  have m: "list_all (\<lambda>c. 0x20 \<le> c \<and> c \<le> 0x7e) ?m" by code_simp
  note t = typed_text_read [OF linux_abi_ok m]
  obtain lv :: lv_keys where True by simp
  have "(0x48 :: byte) \<in> set ?m" by (simp add: ascii_def)
  then have "fst (key_event_cb (Some (ucast (0x48 :: byte), True)) ?r) = Some (ucast (0x48 :: byte))" using t [THEN conjunct2] by auto
  then show ?thesis using t [THEN conjunct1, of lv] by auto
qed

end
