(* ===== verification/Adapter_Radio_Bus.thy ===== *)
theory Adapter_Radio_Bus
  imports Adapter_Transports Protocol_Frame_Codec "HOL-Library.Sublist"
begin

text \<open>
  Model of \<^verbatim>\<open>src/adapters/transport/simulated_radio_bus.cpp\<close>: the two-endpoint datagram bus with a virtual clock that the
  protocol is exercised on. A send is scheduled at a tick, changed by the next fault directive of its source; advancing the clock
  moves what is due into the inbound queue of the other endpoint. Arrays over the two endpoints are
  functions of the endpoint.
\<close>

unbundle bit_operations_syntax

section \<open>Definitions\<close>

datatype endpoint_id = First | Second

definition kMaximumQueueDepth :: nat where [limits, simp]: "kMaximumQueueDepth = 4096"

record bus_config =
  bc_mtu :: nat
  bc_max_scheduled_events :: nat
  bc_max_inbound_datagrams :: nat
  bc_max_fault_directives :: nat

record fault_directive =
  fd_drop :: bool
  fd_duplicate :: bool
  fd_corrupt_byte_index :: "nat option"
  fd_corrupt_xor_mask :: byte
  fd_delay_ticks :: u64

record bus_statistics =
  bs_accepted_sends :: u64
  bs_would_block_sends :: u64
  bs_disconnected_sends :: u64
  bs_closed_sends :: u64
  bs_invalid_sends :: u64
  bs_received_datagrams :: u64
  bs_delivered_datagrams :: u64
  bs_fault_drops :: u64
  bs_duplicate_copies :: u64
  bs_corrupted_copies :: u64
  bs_inbound_full_drops :: u64
  bs_disconnected_drops :: u64
  bs_scheduled_high_watermark :: nat
  bs_inbound_high_watermarks :: "endpoint_id \<Rightarrow> nat"

text \<open>A stored datagram is the used part of its array.\<close>

record scheduled_event =
  ev_delivery_tick :: u64
  ev_ordinal :: u64
  ev_source :: endpoint_id
  ev_destination :: endpoint_id
  ev_datagram :: bytes

record radio_bus =
  rb_config :: bus_config
  rb_valid :: bool
  rb_current_tick :: u64
  rb_next_event_ordinal :: u64
  rb_connected :: "endpoint_id \<Rightarrow> bool"
  rb_closed :: "endpoint_id \<Rightarrow> bool"
  rb_inbound :: "endpoint_id \<Rightarrow> bytes list"
  rb_fault_directives :: "endpoint_id \<Rightarrow> fault_directive list"
  rb_scheduled_events :: "scheduled_event list"
  rb_statistics :: bus_statistics

definition valid_depth :: "nat \<Rightarrow> bool" where
  "valid_depth depth \<longleftrightarrow> depth > 0 \<and> depth \<le> kMaximumQueueDepth"

definition valid_config :: "bus_config \<Rightarrow> bool" where
  "valid_config c \<longleftrightarrow>
     bc_mtu c \<ge> kMinimumDatagramMtu \<and> bc_mtu c \<le> kMaximumDatagramBytes \<and> valid_depth (bc_max_scheduled_events c) \<and>
     valid_depth (bc_max_inbound_datagrams c) \<and> valid_depth (bc_max_fault_directives c)"

fun other_endpoint :: "endpoint_id \<Rightarrow> endpoint_id" where
  "other_endpoint First = Second"
| "other_endpoint Second = First"

definition bus_statistics_zero :: bus_statistics where
  "bus_statistics_zero =
     \<lparr>bs_accepted_sends = 0, bs_would_block_sends = 0, bs_disconnected_sends = 0, bs_closed_sends = 0, bs_invalid_sends = 0,
      bs_received_datagrams = 0, bs_delivered_datagrams = 0, bs_fault_drops = 0, bs_duplicate_copies = 0,
      bs_corrupted_copies = 0, bs_inbound_full_drops = 0, bs_disconnected_drops = 0, bs_scheduled_high_watermark = 0,
      bs_inbound_high_watermarks = (\<lambda>_. 0)\<rparr>"

definition bus_new :: "bus_config \<Rightarrow> radio_bus" where
  "bus_new c =
     (let valid = valid_config c
      in \<lparr>rb_config = c, rb_valid = valid, rb_current_tick = 0, rb_next_event_ordinal = 0, rb_connected = (\<lambda>_. valid),
          rb_closed = (\<lambda>_. False), rb_inbound = (\<lambda>_. []), rb_fault_directives = (\<lambda>_. []), rb_scheduled_events = [],
          rb_statistics = bus_statistics_zero\<rparr>)"

definition bus_maximum_datagram_size :: "radio_bus \<Rightarrow> nat" where
  "bus_maximum_datagram_size self = (if rb_valid self then bc_mtu (rb_config self) else 0)"

definition endpoint_connected :: "endpoint_id \<Rightarrow> radio_bus \<Rightarrow> bool" where
  "endpoint_connected e self \<longleftrightarrow>
     (if \<not> rb_valid self then False
      else rb_connected self e \<and> rb_connected self (other_endpoint e) \<and> \<not> rb_closed self e \<and> \<not> rb_closed self (other_endpoint e))"

definition endpoint_closed :: "endpoint_id \<Rightarrow> radio_bus \<Rightarrow> bool" where
  "endpoint_closed e self \<longleftrightarrow> \<not> rb_valid self \<or> rb_closed self e"

definition discard_link_data :: "radio_bus \<Rightarrow> radio_bus" where
  "discard_link_data self =
     (let discarded = (of_nat (length (rb_scheduled_events self)) :: u64) + of_nat (length (rb_inbound self First)) +
                      of_nat (length (rb_inbound self Second));
          stats = rb_statistics self
      in self\<lparr>rb_scheduled_events := [], rb_inbound := (\<lambda>_. []),
             rb_statistics := stats\<lparr>bs_disconnected_drops := bs_disconnected_drops stats + discarded\<rparr>\<rparr>)"

definition close_endpoint :: "endpoint_id \<Rightarrow> radio_bus \<Rightarrow> radio_bus" where
  "close_endpoint e self =
     (if \<not> rb_valid self \<or> rb_closed self e then self
      else discard_link_data
        (self\<lparr>rb_closed := (rb_closed self)(e := True), rb_connected := (rb_connected self)(e := False),
              rb_fault_directives := (rb_fault_directives self)(e := [])\<rparr>))"

definition enqueue_fault :: "endpoint_id \<Rightarrow> fault_directive \<Rightarrow> radio_bus \<Rightarrow> bool \<times> radio_bus" where
  "enqueue_fault source directive self =
     (if \<not> rb_valid self \<or> rb_closed self source \<or>
         length (rb_fault_directives self source) \<ge> bc_max_fault_directives (rb_config self)
      then (False, self)
      else if \<not> fd_drop directive \<and>
         (fd_duplicate directive \<and> bc_max_scheduled_events (rb_config self) < 2 \<or>
          (case fd_corrupt_byte_index directive of None \<Rightarrow> False
           | Some i \<Rightarrow> i \<ge> bc_mtu (rb_config self) \<or> fd_corrupt_xor_mask directive = 0) \<or>
          fd_delay_ticks directive > u64_max - rb_current_tick self)
      then (False, self)
      else (True, self\<lparr>rb_fault_directives :=
              (rb_fault_directives self)(source := rb_fault_directives self source @ [directive])\<rparr>))"

definition set_connected :: "endpoint_id \<Rightarrow> bool \<Rightarrow> radio_bus \<Rightarrow> bool \<times> radio_bus" where
  "set_connected e connected self =
     (if \<not> rb_valid self \<or> rb_closed self e then (False, self)
      else if rb_connected self e = connected then (True, self)
      else let self = self\<lparr>rb_connected := (rb_connected self)(e := connected)\<rparr>
           in (True, if \<not> connected then discard_link_data self else self))"

text \<open>One event taken from the front of the schedule.\<close>

definition deliver_event :: "scheduled_event \<Rightarrow> radio_bus \<Rightarrow> radio_bus" where
  "deliver_event event self =
     (let stats = rb_statistics self; d = ev_destination event; queue = rb_inbound self d
      in if \<not> endpoint_connected (ev_source event) self \<or> \<not> endpoint_connected d self
         then self\<lparr>rb_statistics := stats\<lparr>bs_disconnected_drops := bs_disconnected_drops stats + 1\<rparr>\<rparr>
         else if length queue \<ge> bc_max_inbound_datagrams (rb_config self)
         then self\<lparr>rb_statistics := stats\<lparr>bs_inbound_full_drops := bs_inbound_full_drops stats + 1\<rparr>\<rparr>
         else let queue = queue @ [ev_datagram event]
              in self\<lparr>rb_inbound := (rb_inbound self)(d := queue),
                      rb_statistics := stats\<lparr>bs_delivered_datagrams := bs_delivered_datagrams stats + 1,
                        bs_inbound_high_watermarks := (bs_inbound_high_watermarks stats)
                          (d := max (bs_inbound_high_watermarks stats d) (length queue))\<rparr>\<rparr>)"

fun deliver_loop :: "scheduled_event list \<Rightarrow> radio_bus \<Rightarrow> radio_bus" where
  "deliver_loop [] self = self\<lparr>rb_scheduled_events := []\<rparr>"
| "deliver_loop (event # rest) self =
     (if ev_delivery_tick event \<le> rb_current_tick self
      then deliver_loop rest (deliver_event event (self\<lparr>rb_scheduled_events := rest\<rparr>))
      else self\<lparr>rb_scheduled_events := event # rest\<rparr>)"

definition deliver_due_events :: "radio_bus \<Rightarrow> radio_bus" where
  "deliver_due_events self = deliver_loop (rb_scheduled_events self) self"

definition advance_to :: "u64 \<Rightarrow> radio_bus \<Rightarrow> bool \<times> radio_bus" where
  "advance_to tick self =
     (if \<not> rb_valid self \<or> tick < rb_current_tick self then (False, self)
      else (True, deliver_due_events (self\<lparr>rb_current_tick := tick\<rparr>)))"

definition event_before :: "scheduled_event \<Rightarrow> scheduled_event \<Rightarrow> bool" where
  "event_before candidate existing \<longleftrightarrow>
     (if ev_delivery_tick candidate \<noteq> ev_delivery_tick existing
      then ev_delivery_tick candidate < ev_delivery_tick existing
      else ev_ordinal candidate < ev_ordinal existing)"

text \<open>\<^verbatim>\<open>std::upper_bound\<close> finds the first event the new one comes before; the schedule is sorted (\<open>bus_ok\<close> below).\<close>

definition schedule_event :: "scheduled_event \<Rightarrow> radio_bus \<Rightarrow> radio_bus" where
  "schedule_event event self =
     (let q = rb_scheduled_events self; stats = rb_statistics self;
          q = takeWhile (\<lambda>x. \<not> event_before event x) q @ [event] @ dropWhile (\<lambda>x. \<not> event_before event x) q
      in self\<lparr>rb_scheduled_events := q,
              rb_statistics := stats\<lparr>bs_scheduled_high_watermark := max (bs_scheduled_high_watermark stats) (length q)\<rparr>\<rparr>)"

text \<open>The loop over the copies.\<close>

fun schedule_copies :: "nat \<Rightarrow> u64 \<Rightarrow> endpoint_id \<Rightarrow> bytes \<Rightarrow> radio_bus \<Rightarrow> radio_bus" where
  "schedule_copies 0 tick source datagram self = self"
| "schedule_copies (Suc n) tick source datagram self =
     (let event = \<lparr>ev_delivery_tick = tick, ev_ordinal = rb_next_event_ordinal self, ev_source = source,
                   ev_destination = other_endpoint source, ev_datagram = datagram\<rparr>
      in schedule_copies n tick source datagram
           (schedule_event event (self\<lparr>rb_next_event_ordinal := rb_next_event_ordinal self + 1\<rparr>)))"

definition corrupted :: "fault_directive option \<Rightarrow> bytes \<Rightarrow> bytes" where
  "corrupted directive data =
     (case directive of None \<Rightarrow> data
      | Some f \<Rightarrow> (case fd_corrupt_byte_index f of None \<Rightarrow> data
                   | Some i \<Rightarrow> data[i := data ! i XOR fd_corrupt_xor_mask f]))"

text \<open>The part of \<open>send_from\<close> from the accepted directive on.\<close>

definition send_accepted :: "endpoint_id \<Rightarrow> bytes \<Rightarrow> fault_directive option \<Rightarrow> nat \<Rightarrow> u64 \<Rightarrow> radio_bus \<Rightarrow> radio_bus" where
  "send_accepted source data directive copy_count delivery_tick self =
     (let self = (if directive = None then self
                  else self\<lparr>rb_fault_directives := (rb_fault_directives self)(source := tl (rb_fault_directives self source))\<rparr>);
          stats = (rb_statistics self)\<lparr>bs_accepted_sends := bs_accepted_sends (rb_statistics self) + 1\<rparr>
      in if copy_count = 0
         then self\<lparr>rb_statistics := stats\<lparr>bs_fault_drops := bs_fault_drops stats + 1\<rparr>\<rparr>
         else
           let datagram = corrupted directive data;
               stats = (if copy_count = 2 then stats\<lparr>bs_duplicate_copies := bs_duplicate_copies stats + 1\<rparr> else stats);
               stats = (if directive \<noteq> None \<and> fd_corrupt_byte_index (the directive) \<noteq> None
                        then stats\<lparr>bs_corrupted_copies := bs_corrupted_copies stats + of_nat copy_count\<rparr> else stats)
           in deliver_due_events
                (schedule_copies copy_count delivery_tick source datagram (self\<lparr>rb_statistics := stats\<rparr>)))"

definition invalid_send :: "radio_bus \<Rightarrow> datagram_send_status \<times> radio_bus" where
  "invalid_send self = (SendInvalid, self\<lparr>rb_statistics := (rb_statistics self)
     \<lparr>bs_invalid_sends := bs_invalid_sends (rb_statistics self) + 1\<rparr>\<rparr>)"

definition send_from :: "endpoint_id \<Rightarrow> bytes option \<Rightarrow> radio_bus \<Rightarrow> datagram_send_status \<times> radio_bus" where
  "send_from source data self =
     (if \<not> rb_valid self \<or> data = None \<or> length (the data) = 0 \<or> length (the data) > bc_mtu (rb_config self) \<or>
         length (the data) > kMaximumDatagramBytes
      then invalid_send self
      else if rb_closed self source
      then (SendClosed, self\<lparr>rb_statistics := (rb_statistics self)
             \<lparr>bs_closed_sends := bs_closed_sends (rb_statistics self) + 1\<rparr>\<rparr>)
      else if \<not> endpoint_connected source self
      then (SendDisconnected, self\<lparr>rb_statistics := (rb_statistics self)
             \<lparr>bs_disconnected_sends := bs_disconnected_sends (rb_statistics self) + 1\<rparr>\<rparr>)
      else
        let directive = (case rb_fault_directives self source of [] \<Rightarrow> None | f # _ \<Rightarrow> Some f);
            drop = (directive \<noteq> None \<and> fd_drop (the directive));
            copy_count = (if drop then 0 else if directive \<noteq> None \<and> fd_duplicate (the directive) then 2 else 1);
            delivery_tick = (if \<not> drop \<and> directive \<noteq> None then rb_current_tick self + fd_delay_ticks (the directive)
                             else rb_current_tick self)
        in if \<not> drop \<and> directive \<noteq> None \<and>
              ((case fd_corrupt_byte_index (the directive) of None \<Rightarrow> False
                | Some i \<Rightarrow> i \<ge> length (the data) \<or> fd_corrupt_xor_mask (the directive) = 0) \<or>
               fd_delay_ticks (the directive) > u64_max - rb_current_tick self)
           then invalid_send self
           else if copy_count > bc_max_scheduled_events (rb_config self) - length (rb_scheduled_events self)
           then (SendWouldBlock, self\<lparr>rb_statistics := (rb_statistics self)
                  \<lparr>bs_would_block_sends := bs_would_block_sends (rb_statistics self) + 1\<rparr>\<rparr>)
           else if of_nat copy_count > u64_max - rb_next_event_ordinal self then invalid_send self
           else (SendAccepted, send_accepted source (the data) directive copy_count delivery_tick self))"

definition receive_for :: "endpoint_id \<Rightarrow> nat option \<Rightarrow> radio_bus \<Rightarrow> receive_result \<times> radio_bus" where
  "receive_for destination capacity self =
     (if \<not> rb_valid self \<or> capacity = None \<or> the capacity = 0 then ((RecvInvalid, []), self)
      else if rb_closed self destination then ((RecvClosed, []), self)
      else if \<not> endpoint_connected destination self then ((RecvDisconnected, []), self)
      else case rb_inbound self destination of
        [] \<Rightarrow> ((RecvWouldBlock, []), self)
      | datagram # rest \<Rightarrow>
          if the capacity < length datagram then ((RecvInvalid, []), self)
          else ((RecvReceived, datagram),
                self\<lparr>rb_inbound := (rb_inbound self)(destination := rest),
                     rb_statistics := (rb_statistics self)
                       \<lparr>bs_received_datagrams := bs_received_datagrams (rb_statistics self) + 1\<rparr>\<rparr>))"

section \<open>Invariant\<close>

text \<open>Every datagram on its way to an endpoint, or waiting there, satisfies \<open>P\<close>.\<close>

definition bus_holds :: "(endpoint_id \<Rightarrow> bytes \<Rightarrow> bool) \<Rightarrow> radio_bus \<Rightarrow> bool" where
  "bus_holds P self \<longleftrightarrow>
     list_all (\<lambda>e. P (ev_destination e) (ev_datagram e)) (rb_scheduled_events self) \<and>
     (\<forall>d. list_all (P d) (rb_inbound self d))"

text \<open>The copies that were scheduled are scheduled, waiting, received or counted as lost. The counters wrap.\<close>

definition copies_made :: "bus_statistics \<Rightarrow> u64" where
  "copies_made s = bs_accepted_sends s + bs_duplicate_copies s"

definition copies_gone :: "bus_statistics \<Rightarrow> u64" where
  "copies_gone s = bs_fault_drops s + bs_received_datagrams s + bs_inbound_full_drops s + bs_disconnected_drops s"

definition bus_balanced :: "radio_bus \<Rightarrow> bool" where
  "bus_balanced self \<longleftrightarrow>
     copies_made (rb_statistics self) = copies_gone (rb_statistics self) + of_nat (length (rb_scheduled_events self)) +
       of_nat (length (rb_inbound self First)) + of_nat (length (rb_inbound self Second))"

text \<open>What holds at every moment, also while a send or a delivery is under way.\<close>

definition bus_sound :: "radio_bus \<Rightarrow> bool" where
  "bus_sound self \<longleftrightarrow>
     (rb_valid self \<longrightarrow> valid_config (rb_config self)) \<and>
     sorted_wrt event_before (rb_scheduled_events self) \<and>
     list_all (\<lambda>e. ev_ordinal e < rb_next_event_ordinal self \<and> ev_destination e = other_endpoint (ev_source e))
       (rb_scheduled_events self) \<and>
     length (rb_scheduled_events self) \<le> bc_max_scheduled_events (rb_config self) \<and>
     (\<forall>d. length (rb_inbound self d) \<le> bc_max_inbound_datagrams (rb_config self)) \<and>
     (\<forall>e. length (rb_fault_directives self e) \<le> bc_max_fault_directives (rb_config self)) \<and>
     bus_balanced self"

text \<open>Between operations nothing that is due is still scheduled, and a link that is down is empty.\<close>

definition bus_ok :: "radio_bus \<Rightarrow> bool" where
  "bus_ok self \<longleftrightarrow>
     bus_sound self \<and> list_all (\<lambda>e. rb_current_tick self < ev_delivery_tick e) (rb_scheduled_events self) \<and>
     (\<not> endpoint_connected First self \<longrightarrow> rb_scheduled_events self = [] \<and> (\<forall>d. rb_inbound self d = []))"

lemma other_other [simp]: "other_endpoint (other_endpoint e) = e"
  by (cases e) simp_all

lemma connected_other: "endpoint_connected (other_endpoint e) self = endpoint_connected e self"
  by (cases e) (auto simp: endpoint_connected_def)

lemma connected_any: "endpoint_connected e self = endpoint_connected First self"
  using connected_other [of First self] by (cases e) simp_all

lemma endpoint_all: "(\<forall>d. P d) \<longleftrightarrow> P First \<and> P Second"
  by (metis endpoint_id.exhaust)

lemma copies_stats [simp]:
  "copies_gone (s\<lparr>bs_disconnected_drops := n\<rparr>) = copies_gone s - bs_disconnected_drops s + n"
  "copies_gone (s\<lparr>bs_inbound_full_drops := n\<rparr>) = copies_gone s - bs_inbound_full_drops s + n"
  "copies_gone (s\<lparr>bs_received_datagrams := n\<rparr>) = copies_gone s - bs_received_datagrams s + n"
  "copies_gone (s\<lparr>bs_fault_drops := n\<rparr>) = copies_gone s - bs_fault_drops s + n"
  "copies_made (s\<lparr>bs_accepted_sends := n\<rparr>) = copies_made s - bs_accepted_sends s + n"
  "copies_made (s\<lparr>bs_duplicate_copies := n\<rparr>) = copies_made s - bs_duplicate_copies s + n"
  by (simp_all add: copies_gone_def copies_made_def)

lemma copies_other [simp]:
  "copies_made (s\<lparr>bs_disconnected_drops := n\<rparr>) = copies_made s" "copies_made (s\<lparr>bs_inbound_full_drops := n\<rparr>) = copies_made s"
  "copies_made (s\<lparr>bs_received_datagrams := n\<rparr>) = copies_made s" "copies_made (s\<lparr>bs_fault_drops := n\<rparr>) = copies_made s"
  "copies_gone (s\<lparr>bs_accepted_sends := n\<rparr>) = copies_gone s" "copies_gone (s\<lparr>bs_duplicate_copies := n\<rparr>) = copies_gone s"
  "copies_gone (s\<lparr>bs_corrupted_copies := n\<rparr>) = copies_gone s" "copies_made (s\<lparr>bs_corrupted_copies := n\<rparr>) = copies_made s"
  "copies_gone (s\<lparr>bs_invalid_sends := n\<rparr>) = copies_gone s" "copies_made (s\<lparr>bs_invalid_sends := n\<rparr>) = copies_made s"
  "copies_gone (s\<lparr>bs_closed_sends := n\<rparr>) = copies_gone s" "copies_made (s\<lparr>bs_closed_sends := n\<rparr>) = copies_made s"
  "copies_gone (s\<lparr>bs_would_block_sends := n\<rparr>) = copies_gone s" "copies_made (s\<lparr>bs_would_block_sends := n\<rparr>) = copies_made s"
  "copies_gone (s\<lparr>bs_disconnected_sends := n\<rparr>) = copies_gone s" "copies_made (s\<lparr>bs_disconnected_sends := n\<rparr>) = copies_made s"
  "copies_gone (s\<lparr>bs_delivered_datagrams := n\<rparr>) = copies_gone s" "copies_made (s\<lparr>bs_delivered_datagrams := n\<rparr>) = copies_made s"
  "copies_gone (s\<lparr>bs_scheduled_high_watermark := h\<rparr>) = copies_gone s" "copies_made (s\<lparr>bs_scheduled_high_watermark := h\<rparr>) = copies_made s"
  "copies_gone (s\<lparr>bs_inbound_high_watermarks := f\<rparr>) = copies_gone s" "copies_made (s\<lparr>bs_inbound_high_watermarks := f\<rparr>) = copies_made s"
  by (simp_all add: copies_gone_def copies_made_def)

lemma connected_fields [simp]:
  "endpoint_connected e (self\<lparr>rb_scheduled_events := q\<rparr>) = endpoint_connected e self"
  "endpoint_connected e (self\<lparr>rb_statistics := s\<rparr>) = endpoint_connected e self"
  "endpoint_connected e (self\<lparr>rb_inbound := i\<rparr>) = endpoint_connected e self"
  "endpoint_connected e (self\<lparr>rb_current_tick := t\<rparr>) = endpoint_connected e self"
  "endpoint_connected e (self\<lparr>rb_next_event_ordinal := n\<rparr>) = endpoint_connected e self"
  "endpoint_connected e (self\<lparr>rb_fault_directives := f\<rparr>) = endpoint_connected e self"
  by (simp_all add: endpoint_connected_def)

subsection \<open>Delivery\<close>

lemma deliver_event_fields [simp]:
  "rb_config (deliver_event e self) = rb_config self" "rb_valid (deliver_event e self) = rb_valid self"
  "rb_current_tick (deliver_event e self) = rb_current_tick self"
  "rb_next_event_ordinal (deliver_event e self) = rb_next_event_ordinal self"
  "rb_fault_directives (deliver_event e self) = rb_fault_directives self"
  "rb_scheduled_events (deliver_event e self) = rb_scheduled_events self"
  "rb_connected (deliver_event e self) = rb_connected self" "rb_closed (deliver_event e self) = rb_closed self"
  "endpoint_connected x (deliver_event e self) = endpoint_connected x self"
  by (simp_all add: deliver_event_def Let_def)

lemma deliver_event_inbound:
  "rb_inbound (deliver_event e self) d =
     (if d = ev_destination e \<and> endpoint_connected (ev_source e) self \<and> endpoint_connected d self \<and>
         length (rb_inbound self d) < bc_max_inbound_datagrams (rb_config self)
      then rb_inbound self d @ [ev_datagram e] else rb_inbound self d)"
  by (auto simp: deliver_event_def Let_def)

lemma deliver_event_balance:
  "copies_made (rb_statistics (deliver_event e self)) = copies_made (rb_statistics self)"
  "copies_gone (rb_statistics (deliver_event e self)) + of_nat (length (rb_inbound (deliver_event e self) First)) +
     of_nat (length (rb_inbound (deliver_event e self) Second)) =
   copies_gone (rb_statistics self) + of_nat (length (rb_inbound self First)) + of_nat (length (rb_inbound self Second)) + 1"
  by (cases "ev_destination e"; simp add: deliver_event_def Let_def)+

lemma deliver_event_sound:
  assumes "bus_sound (self\<lparr>rb_scheduled_events := e # rest\<rparr>)"
  shows "bus_sound (deliver_event e (self\<lparr>rb_scheduled_events := rest\<rparr>))"
proof -
  have "bus_balanced (deliver_event e (self\<lparr>rb_scheduled_events := rest\<rparr>))"
    using assms deliver_event_balance [of e "self\<lparr>rb_scheduled_events := rest\<rparr>"]
    by (simp add: bus_sound_def bus_balanced_def algebra_simps)
  then show ?thesis using assms by (auto simp: bus_sound_def deliver_event_inbound)
qed

lemma deliver_event_keeps [simp]:
  "(deliver_event e (self\<lparr>rb_scheduled_events := q\<rparr>))\<lparr>rb_scheduled_events := q\<rparr> = deliver_event e (self\<lparr>rb_scheduled_events := q\<rparr>)"
  by (rule radio_bus.equality) simp_all

lemma deliver_loop_sound:
  "bus_sound (self\<lparr>rb_scheduled_events := q\<rparr>) \<Longrightarrow> bus_sound (deliver_loop q self)"
proof (induction q arbitrary: self)
  case (Cons e q)
  have "bus_sound ((deliver_event e (self\<lparr>rb_scheduled_events := q\<rparr>))\<lparr>rb_scheduled_events := q\<rparr>)"
    using deliver_event_sound [OF Cons.prems] by simp
  then show ?case using Cons by simp
qed simp

lemma deliver_loop_fields [simp]:
  "rb_config (deliver_loop q self) = rb_config self" "rb_valid (deliver_loop q self) = rb_valid self"
  "rb_current_tick (deliver_loop q self) = rb_current_tick self" "endpoint_connected x (deliver_loop q self) = endpoint_connected x self"
  "rb_fault_directives (deliver_loop q self) = rb_fault_directives self" "rb_closed (deliver_loop q self) = rb_closed self"
  "rb_connected (deliver_loop q self) = rb_connected self"
  by (induction q arbitrary: self) simp_all

lemma event_before_tick: "event_before e x \<Longrightarrow> ev_delivery_tick e \<le> ev_delivery_tick x"
  by (auto simp: event_before_def split: if_splits)

lemma deliver_loop_due:
  "sorted_wrt event_before q \<Longrightarrow>
     rb_scheduled_events (deliver_loop q self) = filter (\<lambda>e. rb_current_tick self < ev_delivery_tick e) q"
proof (induction q arbitrary: self)
  case (Cons e q)
  show ?case
  proof (cases "ev_delivery_tick e \<le> rb_current_tick self")
    case False
    then have "rb_current_tick self < ev_delivery_tick x" if "x \<in> set q" for x
      using Cons.prems that event_before_tick by fastforce
    then show ?thesis using False by (simp add: filter_id_conv)
  qed (use Cons in simp)
qed simp

lemma deliver_loop_holds:
  "bus_holds P (self\<lparr>rb_scheduled_events := q\<rparr>) \<Longrightarrow> bus_holds P (deliver_loop q self)"
proof (induction q arbitrary: self)
  case (Cons e q)
  have "bus_holds P ((deliver_event e (self\<lparr>rb_scheduled_events := q\<rparr>))\<lparr>rb_scheduled_events := q\<rparr>)"
    using Cons.prems by (auto simp: bus_holds_def deliver_event_inbound)
  then show ?case using Cons by simp
qed simp

subsection \<open>Scheduling\<close>

lemma event_before_trans: "event_before a b \<Longrightarrow> event_before b c \<Longrightarrow> event_before a c"
  by (auto simp: event_before_def split: if_splits)

lemma event_before_total: "\<not> event_before a b \<Longrightarrow> ev_ordinal b < ev_ordinal a \<Longrightarrow> event_before b a"
  by (auto simp: event_before_def split: if_splits)

lemma sorted_insert:
  assumes "sorted_wrt event_before q" "list_all (\<lambda>x. ev_ordinal x < ev_ordinal e) q"
  shows "sorted_wrt event_before (takeWhile (\<lambda>x. \<not> event_before e x) q @ [e] @ dropWhile (\<lambda>x. \<not> event_before e x) q)"
  using assms
proof (induction q)
  case (Cons x q)
  show ?case
  proof (cases "event_before e x")
    case True
    then have "event_before e y" if "y \<in> set q" for y using Cons.prems(1) that event_before_trans [of e x y] by simp
    then show ?thesis using True Cons.prems(1) by simp
  next
    case False
    then have "event_before x e" using event_before_total [of e x] Cons.prems(2) by simp
    moreover have "event_before x y"
      if "y \<in> set (takeWhile (\<lambda>x. \<not> event_before e x) q) \<or> y \<in> set (dropWhile (\<lambda>x. \<not> event_before e x) q)" for y
    proof -
      have "y \<in> set q" using that by (auto dest: set_takeWhileD set_dropWhileD)
      then show ?thesis using Cons.prems(1) by simp
    qed
    moreover have "sorted_wrt event_before (takeWhile (\<lambda>x. \<not> event_before e x) q @ [e] @ dropWhile (\<lambda>x. \<not> event_before e x) q)"
      using Cons by simp
    ultimately show ?thesis using False by simp
  qed
qed simp

lemma schedule_event_set: "set (rb_scheduled_events (schedule_event e self)) = insert e (set (rb_scheduled_events self))"
  using set_append [of "takeWhile (\<lambda>x. \<not> event_before e x) (rb_scheduled_events self)" "dropWhile (\<lambda>x. \<not> event_before e x) (rb_scheduled_events self)"]
  by (auto simp: schedule_event_def Let_def dest: set_takeWhileD set_dropWhileD)

lemma takeWhile_dropWhile_length: "length (takeWhile P q) + length (dropWhile P q) = length q"
  by (induction q) simp_all

lemma schedule_event_fields [simp]:
  "rb_config (schedule_event e self) = rb_config self" "rb_valid (schedule_event e self) = rb_valid self"
  "rb_current_tick (schedule_event e self) = rb_current_tick self" "rb_inbound (schedule_event e self) = rb_inbound self"
  "rb_next_event_ordinal (schedule_event e self) = rb_next_event_ordinal self"
  "rb_fault_directives (schedule_event e self) = rb_fault_directives self"
  "endpoint_connected x (schedule_event e self) = endpoint_connected x self"
  "rb_closed (schedule_event e self) = rb_closed self" "rb_connected (schedule_event e self) = rb_connected self"
  "copies_made (rb_statistics (schedule_event e self)) = copies_made (rb_statistics self)"
  "copies_gone (rb_statistics (schedule_event e self)) = copies_gone (rb_statistics self)"
  "length (rb_scheduled_events (schedule_event e self)) = Suc (length (rb_scheduled_events self))"
  using takeWhile_dropWhile_length [of "\<lambda>x. \<not> event_before e x" "rb_scheduled_events self"]
  by (simp_all add: schedule_event_def Let_def)

definition schedule_ok :: "radio_bus \<Rightarrow> bool" where
  "schedule_ok self \<longleftrightarrow>
     sorted_wrt event_before (rb_scheduled_events self) \<and>
     list_all (\<lambda>e. ev_ordinal e < rb_next_event_ordinal self \<and> ev_destination e = other_endpoint (ev_source e))
       (rb_scheduled_events self)"

lemma bus_sound_alt:
  "bus_sound self \<longleftrightarrow>
     (rb_valid self \<longrightarrow> valid_config (rb_config self)) \<and> schedule_ok self \<and>
     length (rb_scheduled_events self) \<le> bc_max_scheduled_events (rb_config self) \<and>
     (\<forall>d. length (rb_inbound self d) \<le> bc_max_inbound_datagrams (rb_config self)) \<and>
     (\<forall>e. length (rb_fault_directives self e) \<le> bc_max_fault_directives (rb_config self)) \<and> bus_balanced self"
  by (auto simp: bus_sound_def schedule_ok_def)

lemma schedule_event_ok:
  assumes "schedule_ok self" "rb_next_event_ordinal self < u64_max" "ev_ordinal e = rb_next_event_ordinal self"
    "ev_destination e = other_endpoint (ev_source e)"
  shows "schedule_ok (schedule_event e (self\<lparr>rb_next_event_ordinal := rb_next_event_ordinal self + 1\<rparr>))"
proof -
  let ?s = "schedule_event e (self\<lparr>rb_next_event_ordinal := rb_next_event_ordinal self + 1\<rparr>)"
  have "sorted_wrt event_before (rb_scheduled_events ?s)"
    using sorted_insert [of "rb_scheduled_events self" e] assms by (simp add: schedule_event_def Let_def schedule_ok_def list_all_iff)
  moreover have "rb_next_event_ordinal self < rb_next_event_ordinal self + 1" using assms(2) by (intro u64_succ_greater) auto
  moreover have "ev_ordinal x < rb_next_event_ordinal self + 1" if "x \<in> set (rb_scheduled_events self)" for x
    using that assms(1) calculation(2) by (fastforce simp: schedule_ok_def list_all_iff)
  ultimately show ?thesis using assms by (auto simp: schedule_ok_def list_all_iff schedule_event_set)
qed

lemma schedule_copies_fields [simp]:
  "rb_config (schedule_copies n t e b self) = rb_config self" "rb_valid (schedule_copies n t e b self) = rb_valid self"
  "rb_current_tick (schedule_copies n t e b self) = rb_current_tick self" "rb_inbound (schedule_copies n t e b self) = rb_inbound self"
  "rb_fault_directives (schedule_copies n t e b self) = rb_fault_directives self"
  "endpoint_connected x (schedule_copies n t e b self) = endpoint_connected x self"
  "rb_closed (schedule_copies n t e b self) = rb_closed self" "rb_connected (schedule_copies n t e b self) = rb_connected self"
  "copies_made (rb_statistics (schedule_copies n t e b self)) = copies_made (rb_statistics self)"
  "copies_gone (rb_statistics (schedule_copies n t e b self)) = copies_gone (rb_statistics self)"
  "length (rb_scheduled_events (schedule_copies n t e b self)) = n + length (rb_scheduled_events self)"
  by (induction n arbitrary: self) (simp_all add: Let_def)

lemma schedule_copies_ok:
  "schedule_ok self \<Longrightarrow> unat (rb_next_event_ordinal self) + n \<le> unat (u64_max) \<Longrightarrow> schedule_ok (schedule_copies n t src b self)"
proof (induction n arbitrary: self)
  case (Suc n)
  let ?e = "\<lparr>ev_delivery_tick = t, ev_ordinal = rb_next_event_ordinal self, ev_source = src,
                   ev_destination = other_endpoint src, ev_datagram = b\<rparr>"
  have lt: "rb_next_event_ordinal self < u64_max" using Suc.prems(2) by (simp add: word_less_nat_alt)
  then have "unat (rb_next_event_ordinal self + 1) = Suc (unat (rb_next_event_ordinal self))"
    using unat_u64_succ [of "rb_next_event_ordinal self"] by auto
  then show ?case using Suc.IH [OF schedule_event_ok [OF Suc.prems(1) lt, of ?e]] Suc.prems(2) by (simp add: Let_def)
qed simp

lemma schedule_copies_set:
  "x \<in> set (rb_scheduled_events (schedule_copies n t src b self)) \<Longrightarrow>
     x \<in> set (rb_scheduled_events self) \<or>
     ev_delivery_tick x = t \<and> ev_destination x = other_endpoint src \<and> ev_datagram x = b"
  by (induction n arbitrary: self) (fastforce simp: Let_def schedule_event_set)+

subsection \<open>Operations\<close>

lemma deliver_due_ok:
  assumes "bus_sound self" "\<not> endpoint_connected First self \<Longrightarrow> rb_scheduled_events self = [] \<and> (\<forall>d. rb_inbound self d = [])"
  shows "bus_ok (deliver_due_events self)"
proof -
  have s: "bus_sound (deliver_due_events self)" unfolding deliver_due_events_def by (rule deliver_loop_sound) (use assms(1) in simp)
  have srt: "sorted_wrt event_before (rb_scheduled_events self)" using assms(1) by (simp add: bus_sound_def)
  have "\<not> endpoint_connected First self \<Longrightarrow> rb_scheduled_events (deliver_due_events self) = [] \<and> (\<forall>d. rb_inbound (deliver_due_events self) d = [])"
    using assms(2) by (simp add: deliver_due_events_def)
  then show ?thesis using s deliver_loop_due [OF srt, of self] by (auto simp: bus_ok_def list_all_iff) (simp_all add: deliver_due_events_def)
qed

lemma discard_ok:
  assumes "bus_sound self"
  shows "bus_ok (discard_link_data self)"
  using assms by (simp add: bus_ok_def bus_sound_def bus_balanced_def discard_link_data_def Let_def algebra_simps)

lemma sound_fields [simp]:
  "bus_sound (self\<lparr>rb_current_tick := t\<rparr>) = bus_sound self" "bus_sound (self\<lparr>rb_connected := c\<rparr>) = bus_sound self"
  "bus_sound (self\<lparr>rb_closed := c\<rparr>) = bus_sound self"
  by (simp_all add: bus_sound_def bus_balanced_def)

lemma statistics_ok:
  assumes "copies_made s = copies_made (rb_statistics self)" "copies_gone s = copies_gone (rb_statistics self)"
  shows "bus_ok (self\<lparr>rb_statistics := s\<rparr>) = bus_ok self"
  using assms by (simp add: bus_ok_def bus_sound_def bus_balanced_def)

lemma close_endpoint_ok: "bus_ok self \<Longrightarrow> bus_ok (close_endpoint e self)"
  by (auto simp: close_endpoint_def bus_ok_def [of self] bus_sound_def bus_balanced_def intro!: discard_ok split: if_splits)

lemma set_connected_ok: "bus_ok self \<Longrightarrow> bus_ok (snd (set_connected e c self))"
proof -
  assume ok: "bus_ok self"
  have "bus_ok (self\<lparr>rb_connected := (rb_connected self)(e := True)\<rparr>)" if "\<not> rb_connected self e"
  proof -
    have "\<not> endpoint_connected e self" using that by (simp add: endpoint_connected_def)
    then have "rb_scheduled_events self = [] \<and> (\<forall>d. rb_inbound self d = [])"
      using ok connected_any [of e self] by (simp add: bus_ok_def)
    then show ?thesis using ok by (simp add: bus_ok_def)
  qed
  then show ?thesis using ok by (auto simp: set_connected_def Let_def bus_ok_def [of self] intro!: discard_ok)
qed

lemma enqueue_fault_ok: "bus_ok self \<Longrightarrow> bus_ok (snd (enqueue_fault e f self))"
  by (auto simp: enqueue_fault_def bus_ok_def bus_sound_def bus_balanced_def)

lemma advance_ok: "bus_ok self \<Longrightarrow> bus_ok (snd (advance_to t self))"
  by (auto simp: advance_to_def bus_ok_def [of self] intro!: deliver_due_ok)

lemma bus_receive_ok:
  assumes "bus_ok self" "receive_for d cap self = (r, self')"
  shows "bus_ok self'"
proof -
  have "bus_balanced self \<Longrightarrow> rb_inbound self d = x # xs \<Longrightarrow>
    bus_balanced (self\<lparr>rb_inbound := (rb_inbound self)(d := xs), rb_statistics := (rb_statistics self)
       \<lparr>bs_received_datagrams := bs_received_datagrams (rb_statistics self) + 1\<rparr>\<rparr>)" for x xs
    by (cases d) (simp_all add: bus_balanced_def algebra_simps)
  moreover have "length xs \<le> n" if "\<forall>d. length (rb_inbound self d) \<le> n" "rb_inbound self d = x # xs" for x xs n
    using that by (metis Suc_leD length_Cons)
  ultimately show ?thesis using assms
    by (auto simp: receive_for_def bus_ok_def bus_sound_def split: if_splits list.splits)
qed

lemma send_accepted_ok:
  assumes ok: "bus_ok self" and conn: "endpoint_connected src self"
    and copies: "n \<le> 2" "n \<le> bc_max_scheduled_events (rb_config self) - length (rb_scheduled_events self)"
      "of_nat n \<le> u64_max - rb_next_event_ordinal self"
    and dir: "f = (case rb_fault_directives self src of [] \<Rightarrow> None | f # _ \<Rightarrow> Some f)"
  shows "bus_ok (send_accepted src data f n t self)"
proof -
  define s1 where "s1 = (if f = None then self
     else self\<lparr>rb_fault_directives := (rb_fault_directives self)(src := tl (rb_fault_directives self src))\<rparr>)"
  have ok1: "bus_ok s1"
  proof -
    have "length (tl (rb_fault_directives self src)) \<le> bc_max_fault_directives (rb_config self)"
      using ok by (auto simp: bus_ok_def bus_sound_def intro: le_trans [OF diff_le_self])
    then show ?thesis using ok by (auto simp: s1_def bus_ok_def bus_sound_def bus_balanced_def)
  qed
  have same: "rb_config s1 = rb_config self" "rb_scheduled_events s1 = rb_scheduled_events self" "rb_next_event_ordinal s1 = rb_next_event_ordinal self"
    "endpoint_connected First s1" "rb_inbound s1 = rb_inbound self"
    using conn connected_any [of src self] by (simp_all add: s1_def)
  define stats where "stats = (rb_statistics s1)\<lparr>bs_accepted_sends := bs_accepted_sends (rb_statistics s1) + 1\<rparr>"
  show ?thesis
  proof (cases "n = 0")
    case True
    then have "send_accepted src data f n t self = s1\<lparr>rb_statistics := stats\<lparr>bs_fault_drops := bs_fault_drops stats + 1\<rparr>\<rparr>"
      by (simp add: send_accepted_def Let_def s1_def stats_def)
    then show ?thesis using ok1 by (simp add: bus_ok_def bus_sound_def bus_balanced_def stats_def)
  next
    case False
    obtain st2 where run: "send_accepted src data f n t self =
        deliver_due_events (schedule_copies n t src (corrupted f data) (s1\<lparr>rb_statistics := st2\<rparr>))"
      and made: "copies_made st2 = copies_made (rb_statistics s1) + of_nat n" "copies_gone st2 = copies_gone (rb_statistics s1)"
    proof -
      let ?d = "if n = 2 then stats\<lparr>bs_duplicate_copies := bs_duplicate_copies stats + 1\<rparr> else stats"
      let ?st2 = "if f \<noteq> None \<and> fd_corrupt_byte_index (the f) \<noteq> None
        then ?d\<lparr>bs_corrupted_copies := bs_corrupted_copies ?d + of_nat n\<rparr> else ?d"
      have "send_accepted src data f n t self =
        deliver_due_events (schedule_copies n t src (corrupted f data) (s1\<lparr>rb_statistics := ?st2\<rparr>))"
        unfolding send_accepted_def Let_def s1_def [symmetric] stats_def [symmetric] using False by simp
      moreover have "n = 1 \<or> n = 2" using False copies(1) by linarith
      ultimately show ?thesis by (intro that [of ?st2]) (auto simp: stats_def)
    qed
    let ?s2 = "schedule_copies n t src (corrupted f data) (s1\<lparr>rb_statistics := st2\<rparr>)"
    have small: "n < 2 ^ 64" using copies(1) by simp
    then have "unat (rb_next_event_ordinal self) + n \<le> unat u64_max"
    proof -
      have "unat (of_nat n :: u64) = n" using small by (simp add: unat_of_nat take_bit_nat_eq_self)
      then have "n \<le> unat (u64_max - rb_next_event_ordinal self)" using copies(3) by (simp add: word_le_nat_alt)
      also have "\<dots> = unat u64_max - unat (rb_next_event_ordinal self)" by (rule unat_sub) simp
      finally show ?thesis by (simp add: le_diff_conv2 word_le_nat_alt [symmetric] word_order.extremum)
    qed
    then have "schedule_ok ?s2" using ok1 same by (intro schedule_copies_ok) (auto simp: bus_ok_def bus_sound_alt schedule_ok_def)
    moreover have "length (rb_scheduled_events self) \<le> bc_max_scheduled_events (rb_config self)"
      using ok by (simp add: bus_ok_def bus_sound_def)
    ultimately have "bus_sound ?s2" using ok1 copies(2) same made
      by (auto simp: bus_sound_alt bus_ok_def bus_balanced_def algebra_simps)
    then show ?thesis unfolding run by (rule deliver_due_ok) (use same in simp)
  qed
qed

lemma bus_send_ok:
  assumes "bus_ok self" "send_from src data self = (st, self')"
  shows "bus_ok self'"
proof -
  have inv: "bus_ok (snd (invalid_send self))" using assms(1) by (simp add: invalid_send_def statistics_ok)
  show ?thesis using assms inv
    by (auto simp: send_from_def Let_def statistics_ok not_less invalid_send_def split: if_splits option.splits list.splits intro!: send_accepted_ok)
qed

lemma bus_new_ok: "bus_ok (bus_new c)"
  by (simp add: bus_new_def bus_ok_def bus_sound_def bus_balanced_def copies_made_def copies_gone_def bus_statistics_zero_def Let_def)

subsection \<open>What a datagram becomes\<close>

text \<open>A copy of a datagram, with at most one byte changed.\<close>

definition copy_of :: "bytes \<Rightarrow> bytes \<Rightarrow> bool" where
  "copy_of b x \<longleftrightarrow> x = b \<or> (\<exists>i v. i < length b \<and> v \<noteq> b ! i \<and> x = b[i := v])"

lemma xor_changes: "m \<noteq> 0 \<Longrightarrow> a XOR m \<noteq> (a :: byte)"
  by (metis xor.assoc xor_self_eq xor.left_neutral)

lemma send_outcome:
  assumes "send_from src data self = (st, self')"
  obtains (refused) s where "st \<noteq> SendAccepted" "self' = self\<lparr>rb_statistics := s\<rparr>"
      "bs_fault_drops s = bs_fault_drops (rb_statistics self)" "bs_duplicate_copies s = bs_duplicate_copies (rb_statistics self)"
  | (accepted) b f n t where "data = Some b" "st = SendAccepted" "0 < length b" "length b \<le> bc_mtu (rb_config self)"
      "endpoint_connected src self" "self' = send_accepted src b f n t self" "copy_of b (corrupted f b)"
      "rb_fault_directives self src = [] \<longrightarrow> f = None \<and> n = 1 \<and> t = rb_current_tick self"
proof (cases "st = SendAccepted")
  case False
  then show ?thesis using assms refused
    by (auto simp: send_from_def Let_def invalid_send_def split: if_splits option.splits list.splits)
next
  case True
  let ?f = "case rb_fault_directives self src of [] \<Rightarrow> None | f # _ \<Rightarrow> Some f"
  let ?drop = "?f \<noteq> None \<and> fd_drop (the ?f)"
  let ?n = "if ?drop then 0 else if ?f \<noteq> None \<and> fd_duplicate (the ?f) then 2 else (1::nat)"
  let ?t = "if \<not> ?drop \<and> ?f \<noteq> None then rb_current_tick self + fd_delay_ticks (the ?f) else rb_current_tick self"
  obtain b where b: "data = Some b" "0 < length b" "length b \<le> bc_mtu (rb_config self)" "endpoint_connected src self"
    using assms True by (auto simp: send_from_def Let_def invalid_send_def split: if_splits)
  have run: "self' = send_accepted src b ?f ?n ?t self"
    and guard: "?drop \<or> ?f = None \<or> (case fd_corrupt_byte_index (the ?f) of None \<Rightarrow> True | Some i \<Rightarrow> i < length b \<and> fd_corrupt_xor_mask (the ?f) \<noteq> 0)"
    using assms True b(1) unfolding send_from_def Let_def invalid_send_def
    by (auto split: if_splits option.splits)
  show ?thesis
  proof (cases "?drop")
    case False
    have "copy_of b (corrupted ?f b)"
      using guard False xor_changes by (auto simp: copy_of_def corrupted_def split: option.splits list.splits)
    with b run True show ?thesis by (intro accepted [of b ?f ?n ?t]) auto
  next
    case drop: True
    have "send_accepted src b ?f ?n ?t self = send_accepted src b (Some ((the ?f)\<lparr>fd_corrupt_byte_index := None\<rparr>)) ?n ?t self"
      using drop by (simp add: send_accepted_def Let_def split: list.splits)
    with b run True drop show ?thesis
      by (intro accepted [of b "Some ((the ?f)\<lparr>fd_corrupt_byte_index := None\<rparr>)" ?n ?t]) (auto simp: copy_of_def corrupted_def split: list.splits)
  qed
qed

lemma send_accepted_holds:
  assumes "bus_holds P self" "P (other_endpoint src) (corrupted f b)"
  shows "bus_holds P (send_accepted src b f n t self)"
proof -
  have "bus_holds P (schedule_copies n t src (corrupted f b) s)" if "bus_holds P s" for s
    using that assms(2) by (auto simp: bus_holds_def list_all_iff dest!: schedule_copies_set)
  moreover have "bus_holds P (deliver_due_events s)" if "bus_holds P s" for s
    using deliver_loop_holds [where P = P and self = s and q = "rb_scheduled_events s"] that by (simp add: deliver_due_events_def)
  moreover have "bus_holds P (s\<lparr>rb_statistics := x\<rparr>) = bus_holds P s" "bus_holds P (s\<lparr>rb_fault_directives := y\<rparr>) = bus_holds P s" for s x y
    by (simp_all add: bus_holds_def)
  ultimately show ?thesis using assms(1) by (simp add: send_accepted_def Let_def)
qed

section \<open>Runs\<close>

text \<open>What one use of the bus did: accepted sends, received datagrams and accepted fault directives.\<close>

datatype bus_event = BusSent endpoint_id bytes | BusGot endpoint_id bytes | BusFault endpoint_id fault_directive

inductive bus_run :: "bus_config \<Rightarrow> bus_event list \<Rightarrow> radio_bus \<Rightarrow> bool" for c where
  bus_start: "bus_run c [] (bus_new c)"
| bus_send: "bus_run c tr self \<Longrightarrow> send_from e data self = (st, self') \<Longrightarrow>
    bus_run c (tr @ (if st = SendAccepted then [BusSent e (the data)] else [])) self'"
| bus_receive: "bus_run c tr self \<Longrightarrow> receive_for e cap self = ((st, b), self') \<Longrightarrow>
    bus_run c (tr @ (if st = RecvReceived then [BusGot e b] else [])) self'"
| bus_fault: "bus_run c tr self \<Longrightarrow> enqueue_fault e f self = (ok, self') \<Longrightarrow>
    bus_run c (tr @ (if ok then [BusFault e f] else [])) self'"
| bus_connect: "bus_run c tr self \<Longrightarrow> set_connected e b self = (ok, self') \<Longrightarrow> bus_run c tr self'"
| bus_advance: "bus_run c tr self \<Longrightarrow> advance_to t self = (ok, self') \<Longrightarrow> bus_run c tr self'"
| bus_close: "bus_run c tr self \<Longrightarrow> bus_run c tr (close_endpoint e self)"

lemma bus_run_ok: "bus_run c tr self \<Longrightarrow> bus_ok self \<and> rb_config self = c"
proof (induction rule: bus_run.induct)
  case bus_start
  then show ?case using bus_new_ok by (simp add: bus_new_def Let_def)
next
  case (bus_send tr self e data st self')
  from bus_send.hyps(2) have "rb_config self' = rb_config self"
    by (cases rule: send_outcome) (auto simp: send_accepted_def Let_def deliver_due_events_def)
  then show ?case using bus_send bus_send_ok by blast
next
  case (bus_receive tr self e cap st b self')
  then have "rb_config self' = rb_config self" by (auto simp: receive_for_def split: if_splits list.splits)
  then show ?case using bus_receive bus_receive_ok by blast
next
  case (bus_fault tr self e f ok self')
  then show ?case using enqueue_fault_ok [of self e f] by (auto simp: enqueue_fault_def split: if_splits)
next
  case (bus_connect tr self e b ok self')
  then show ?case using set_connected_ok [of self e b] by (auto simp: set_connected_def discard_link_data_def Let_def split: if_splits)
next
  case (bus_advance tr self t ok self')
  then show ?case using advance_ok [of self t] by (auto simp: advance_to_def deliver_due_events_def split: if_splits)
next
  case (bus_close tr self e)
  then show ?case using close_endpoint_ok [of self e] by (auto simp: close_endpoint_def discard_link_data_def Let_def)
qed

text \<open>A property of datagrams that accepted sends establish holds of what is under way and of what was received.\<close>

lemma discard_holds [simp]: "bus_holds P (discard_link_data self)"
  by (simp add: bus_holds_def discard_link_data_def Let_def)

lemma bus_run_holds:
  assumes "bus_run c tr self" "\<And>e b x. BusSent e b \<in> set tr \<Longrightarrow> 0 < length b \<Longrightarrow> length b \<le> bc_mtu c \<Longrightarrow> copy_of b x \<Longrightarrow> P (other_endpoint e) x"
  shows "bus_holds P self \<and> (\<forall>d x. BusGot d x \<in> set tr \<longrightarrow> P d x)"
  using assms
proof (induction rule: bus_run.induct)
  case bus_start
  then show ?case by (simp add: bus_new_def Let_def bus_holds_def)
next
  case (bus_send tr self e data st self')
  have IH: "bus_holds P self \<and> (\<forall>d x. BusGot d x \<in> set tr \<longrightarrow> P d x)"
    by (rule bus_send.IH) (rule bus_send.prems, simp_all)
  from bus_send.hyps(2) show ?case
  proof (cases rule: send_outcome)
    case (refused s)
    then show ?thesis using IH by (simp add: bus_holds_def)
  next
    case (accepted b f n t)
    have "P (other_endpoint e) (corrupted f b)"
      using bus_send.prems [of e b] accepted bus_run_ok [OF bus_send.hyps(1)] by simp
    then have "bus_holds P self'" using send_accepted_holds [of P self e f b n t] IH accepted(6) by simp
    then show ?thesis using IH accepted(2) by simp
  qed
next
  case (bus_receive tr self e cap st b self')
  have "bus_holds P self \<and> (\<forall>d x. BusGot d x \<in> set tr \<longrightarrow> P d x)" using bus_receive by simp
  then show ?case using bus_receive.hyps(2)
    by (auto simp: receive_for_def bus_holds_def split: if_splits list.splits) (metis list.pred_inject(2))+
next
  case (bus_fault tr self e f ok self')
  then show ?case by (auto simp: enqueue_fault_def bus_holds_def split: if_splits)
next
  case (bus_connect tr self e b ok self')
  then show ?case by (auto simp: set_connected_def Let_def split: if_splits) (auto simp: bus_holds_def)
next
  case (bus_advance tr self t ok self')
  then show ?case using deliver_loop_holds [where P = P and self = "self\<lparr>rb_current_tick := t\<rparr>" and q = "rb_scheduled_events self"]
    by (auto simp: advance_to_def deliver_due_events_def bus_holds_def split: if_splits)
next
  case (bus_close tr self e)
  then show ?case by (auto simp: close_endpoint_def)
qed

definition sent_by :: "endpoint_id \<Rightarrow> bus_event list \<Rightarrow> bytes list" where
  "sent_by e tr = concat (map (\<lambda>x. case x of BusSent e' b \<Rightarrow> if e' = e then [b] else [] | _ \<Rightarrow> []) tr)"

definition got_by :: "endpoint_id \<Rightarrow> bus_event list \<Rightarrow> bytes list" where
  "got_by e tr = concat (map (\<lambda>x. case x of BusGot e' b \<Rightarrow> if e' = e then [b] else [] | _ \<Rightarrow> []) tr)"

lemma trace_simps [simp]:
  "sent_by e (tr @ tr') = sent_by e tr @ sent_by e tr'" "got_by e (tr @ tr') = got_by e tr @ got_by e tr'"
  "sent_by e [] = []" "got_by e [] = []" "sent_by e [BusSent e' b] = (if e' = e then [b] else [])" "got_by e [BusSent e' b] = []"
  "got_by e [BusGot e' b] = (if e' = e then [b] else [])" "sent_by e [BusGot e' b] = []" "sent_by e [BusFault e' f] = []" "got_by e [BusFault e' f] = []"
  by (simp_all add: sent_by_def got_by_def)

subsection \<open>Counters\<close>

lemma deliver_event_counts [simp]:
  "bs_accepted_sends (rb_statistics (deliver_event e self)) = bs_accepted_sends (rb_statistics self)"
  "bs_received_datagrams (rb_statistics (deliver_event e self)) = bs_received_datagrams (rb_statistics self)"
  by (simp_all add: deliver_event_def Let_def)

lemma deliver_loop_counts [simp]:
  "bs_accepted_sends (rb_statistics (deliver_loop q self)) = bs_accepted_sends (rb_statistics self)"
  "bs_received_datagrams (rb_statistics (deliver_loop q self)) = bs_received_datagrams (rb_statistics self)"
  by (induction q arbitrary: self) simp_all

lemma schedule_copies_counts [simp]:
  "bs_accepted_sends (rb_statistics (schedule_copies n t e b self)) = bs_accepted_sends (rb_statistics self)"
  "bs_received_datagrams (rb_statistics (schedule_copies n t e b self)) = bs_received_datagrams (rb_statistics self)"
  by (induction n arbitrary: self) (simp_all add: Let_def schedule_event_def)

lemma send_counts:
  assumes "send_from e data self = (st, self')"
  shows "bs_accepted_sends (rb_statistics self') = bs_accepted_sends (rb_statistics self) + (if st = SendAccepted then 1 else 0)"
    "bs_received_datagrams (rb_statistics self') = bs_received_datagrams (rb_statistics self)"
proof -
  have "bs_accepted_sends (rb_statistics (send_accepted e b f n t self)) = bs_accepted_sends (rb_statistics self) + 1"
    "bs_received_datagrams (rb_statistics (send_accepted e b f n t self)) = bs_received_datagrams (rb_statistics self)" for b f n t
    by (simp_all add: send_accepted_def Let_def deliver_due_events_def)
  then show "bs_accepted_sends (rb_statistics self') = bs_accepted_sends (rb_statistics self) + (if st = SendAccepted then 1 else 0)"
    "bs_received_datagrams (rb_statistics self') = bs_received_datagrams (rb_statistics self)"
    using assms by (auto simp: send_from_def Let_def invalid_send_def split: if_splits)
qed

lemma bus_run_counts:
  "bus_run c tr self \<Longrightarrow>
     bs_accepted_sends (rb_statistics self) = of_nat (length (sent_by First tr) + length (sent_by Second tr)) \<and>
     bs_received_datagrams (rb_statistics self) = of_nat (length (got_by First tr) + length (got_by Second tr))"
proof (induction rule: bus_run.induct)
  case bus_start
  then show ?case by (simp add: bus_new_def Let_def bus_statistics_zero_def)
next
  case (bus_send tr self e data st self')
  then show ?case using send_counts [OF bus_send.hyps(2)] by (cases e) auto
next
  case (bus_receive tr self e cap st b self')
  then have "bs_accepted_sends (rb_statistics self') = bs_accepted_sends (rb_statistics self)"
    "bs_received_datagrams (rb_statistics self') = bs_received_datagrams (rb_statistics self) + (if st = RecvReceived then 1 else 0)"
    by (auto simp: receive_for_def split: if_splits list.splits)
  then show ?case using bus_receive.IH by (cases e) auto
next
  case (bus_fault tr self e f ok self')
  then show ?case by (auto simp: enqueue_fault_def split: if_splits)
next
  case (bus_connect tr self e b ok self')
  then show ?case by (auto simp: set_connected_def discard_link_data_def Let_def split: if_splits)
next
  case (bus_advance tr self t ok self')
  then show ?case by (auto simp: advance_to_def deliver_due_events_def split: if_splits)
next
  case (bus_close tr self e)
  then show ?case by (auto simp: close_endpoint_def discard_link_data_def Let_def)
qed

subsection \<open>Order\<close>

lemma plain_counts [simp]:
  "bs_fault_drops (rb_statistics (deliver_loop q self)) = bs_fault_drops (rb_statistics self)"
  "bs_duplicate_copies (rb_statistics (deliver_loop q self)) = bs_duplicate_copies (rb_statistics self)"
  "bs_fault_drops (rb_statistics (send_accepted e b None (Suc 0) t self)) = bs_fault_drops (rb_statistics self)"
  "bs_duplicate_copies (rb_statistics (send_accepted e b None (Suc 0) t self)) = bs_duplicate_copies (rb_statistics self)"
proof -
  have d: "bs_fault_drops (rb_statistics (deliver_loop q self)) = bs_fault_drops (rb_statistics self) \<and>
     bs_duplicate_copies (rb_statistics (deliver_loop q self)) = bs_duplicate_copies (rb_statistics self)" for q self
    by (induction q arbitrary: self) (simp_all add: deliver_event_def Let_def)
  then show "bs_fault_drops (rb_statistics (deliver_loop q self)) = bs_fault_drops (rb_statistics self)"
    "bs_duplicate_copies (rb_statistics (deliver_loop q self)) = bs_duplicate_copies (rb_statistics self)" by blast+
  show "bs_fault_drops (rb_statistics (send_accepted e b None (Suc 0) t self)) = bs_fault_drops (rb_statistics self)"
    "bs_duplicate_copies (rb_statistics (send_accepted e b None (Suc 0) t self)) = bs_duplicate_copies (rb_statistics self)"
    by (simp_all add: send_accepted_def Let_def deliver_due_events_def d schedule_event_def)
qed

lemma send_accepted_fields [simp]:
  "rb_config (send_accepted e b f n t self) = rb_config self" "rb_valid (send_accepted e b f n t self) = rb_valid self"
  "rb_closed (send_accepted e b f n t self) = rb_closed self" "rb_connected (send_accepted e b f n t self) = rb_connected self"
  "rb_current_tick (send_accepted e b f n t self) = rb_current_tick self"
  by (simp_all add: send_accepted_def Let_def deliver_due_events_def)

text \<open>One copy without delay on an empty schedule.\<close>

lemma send_single:
  assumes "rb_scheduled_events self = []" "endpoint_connected src self" "t = rb_current_tick self"
  shows "rb_scheduled_events (send_accepted src b f 1 t self) = []"
    "rb_fault_directives (send_accepted src b f 1 t self) =
       (if f = None then rb_fault_directives self else (rb_fault_directives self)(src := tl (rb_fault_directives self src)))"
    "rb_inbound (send_accepted src b f 1 t self) d =
       (if d = other_endpoint src \<and> length (rb_inbound self d) < bc_max_inbound_datagrams (rb_config self)
        then rb_inbound self d @ [corrupted f b] else rb_inbound self d)"
    "rb_next_event_ordinal (send_accepted src b f 1 t self) = rb_next_event_ordinal self + 1"
  using assms connected_other [of src self]
  by (auto simp: send_accepted_def Let_def deliver_due_events_def schedule_event_def deliver_event_inbound)

lemmas send_plain = send_single [where f = None and t = "rb_current_tick self" for self, OF _ _ refl, unfolded corrupted_def option.case]

lemma subseq_front: "subseq (xs @ ys) zs \<Longrightarrow> subseq xs zs"
  using subseq_order.trans [of xs "xs @ ys" zs] prefix_imp_subseq [of xs "xs @ ys"] by simp

lemma bus_run_plain:
  "bus_run c tr self \<Longrightarrow> list_all (\<lambda>x. \<forall>e f. x \<noteq> BusFault e f) tr \<Longrightarrow>
     rb_scheduled_events self = [] \<and> (\<forall>e. rb_fault_directives self e = []) \<and>
     bs_fault_drops (rb_statistics self) = 0 \<and> bs_duplicate_copies (rb_statistics self) = 0 \<and>
     (\<forall>d. subseq (got_by d tr @ rb_inbound self d) (sent_by (other_endpoint d) tr))"
proof (induction rule: bus_run.induct)
  case bus_start
  then show ?case by (simp add: bus_new_def Let_def bus_statistics_zero_def)
next
  case (bus_send tr self e data st self')
  from bus_send have drops: "bs_fault_drops (rb_statistics self) = 0" "bs_duplicate_copies (rb_statistics self) = 0" by auto
  from bus_send have IH: "rb_scheduled_events self = []" "\<And>e. rb_fault_directives self e = []"
    "\<And>d. subseq (got_by d tr @ rb_inbound self d) (sent_by (other_endpoint d) tr)" by auto
  from bus_send.hyps(2) show ?case
  proof (cases rule: send_outcome)
    case (refused s)
    then show ?thesis using IH drops by simp
  next
    case (accepted b f n t)
    have s: "self' = send_accepted e b None 1 (rb_current_tick self) self" using accepted IH(2) by simp
    have "subseq (got_by d tr @ rb_inbound self' d) (sent_by (other_endpoint d) tr @ (if e = other_endpoint d then [b] else []))" for d
    proof (cases "d = other_endpoint e")
      case True
      have "subseq ((got_by d tr @ rb_inbound self d) @ [b]) (sent_by (other_endpoint d) tr @ [b])"
        by (rule list_emb_append_mono [OF IH(3)]) simp
      moreover have "subseq (got_by d tr @ rb_inbound self d) (sent_by (other_endpoint d) tr @ [b])"
        using subseq_order.trans [OF IH(3) [of d]] prefix_imp_subseq [of "sent_by (other_endpoint d) tr" "sent_by (other_endpoint d) tr @ [b]"]
        by simp
      ultimately show ?thesis using True unfolding s send_plain(3) [OF IH(1) accepted(5)] by simp
    next
      case False
      then have "e \<noteq> other_endpoint d" by auto
      then show ?thesis using IH(3) [of d] False unfolding s send_plain(3) [OF IH(1) accepted(5)] by simp
    qed
    then show ?thesis using accepted(1,2) send_plain(1,2) [OF IH(1) accepted(5), of b] IH(2) s drops by simp
  qed
next
  case (bus_receive tr self e cap st b self')
  then have IH: "rb_scheduled_events self = []" "\<And>e. rb_fault_directives self e = []"
    "\<And>d. subseq (got_by d tr @ rb_inbound self d) (sent_by (other_endpoint d) tr)" by auto
  have "rb_scheduled_events self' = rb_scheduled_events self" "rb_fault_directives self' = rb_fault_directives self"
    "bs_fault_drops (rb_statistics self') = bs_fault_drops (rb_statistics self)"
    "bs_duplicate_copies (rb_statistics self') = bs_duplicate_copies (rb_statistics self)"
    "got_by d (tr @ (if st = RecvReceived then [BusGot e b] else [])) @ rb_inbound self' d = got_by d tr @ rb_inbound self d"
    "sent_by d (tr @ (if st = RecvReceived then [BusGot e b] else [])) = sent_by d tr" for d
    using bus_receive.hyps(2) by (auto simp: receive_for_def split: if_splits list.splits)
  then show ?case using IH bus_receive by simp
next
  case (bus_fault tr self e f ok self')
  then show ?case by (auto simp: enqueue_fault_def split: if_splits)
next
  case (bus_connect tr self e b ok self')
  then show ?case using subseq_front by (fastforce simp: set_connected_def discard_link_data_def Let_def split: if_splits)
next
  case (bus_advance tr self t ok self')
  then show ?case by (auto simp: advance_to_def deliver_due_events_def split: if_splits)
next
  case (bus_close tr self e)
  then show ?case using subseq_front by (fastforce simp: close_endpoint_def discard_link_data_def Let_def)
qed

section \<open>Properties\<close>

text \<open>The bus accounts for every copy. In any use of it, the accepted sends and the duplicates made of them are
  the datagrams received, the ones still scheduled or waiting, and the ones counted as dropped; no queue exceeds its bound, nothing
  that is due stays scheduled, a link that is down is empty, and every datagram has 1 to MTU bytes.\<close>

theorem bus_accounts_for_copies:
  assumes "bus_run c tr self"
  shows "bus_ok self \<and>
    of_nat (length (sent_by First tr) + length (sent_by Second tr)) + bs_duplicate_copies (rb_statistics self) =
      of_nat (length (got_by First tr) + length (got_by Second tr)) + bs_fault_drops (rb_statistics self) +
      bs_inbound_full_drops (rb_statistics self) + bs_disconnected_drops (rb_statistics self) +
      of_nat (length (rb_scheduled_events self)) + of_nat (length (rb_inbound self First)) + of_nat (length (rb_inbound self Second)) \<and>
    bus_holds (\<lambda>d x. 0 < length x \<and> length x \<le> bc_mtu c) self"
proof -
  have ok: "bus_ok self" using bus_run_ok [OF assms] by simp
  then have "bus_balanced self" by (simp add: bus_ok_def bus_sound_def)
  then have "bs_accepted_sends (rb_statistics self) + bs_duplicate_copies (rb_statistics self) =
      bs_received_datagrams (rb_statistics self) + bs_fault_drops (rb_statistics self) +
      bs_inbound_full_drops (rb_statistics self) + bs_disconnected_drops (rb_statistics self) +
      of_nat (length (rb_scheduled_events self)) + of_nat (length (rb_inbound self First)) + of_nat (length (rb_inbound self Second))"
    by (simp add: bus_balanced_def copies_made_def copies_gone_def algebra_simps)
  moreover have "bus_holds (\<lambda>d x. 0 < length x \<and> length x \<le> bc_mtu c) self"
    by (rule conjunct1 [OF bus_run_holds [OF assms]]) (auto simp: copy_of_def)
  moreover note bus_run_counts [OF assms]
  ultimately show ?thesis using ok by metis
qed

definition sample_bus_config :: bus_config where
  "sample_bus_config = \<lparr>bc_mtu = 48, bc_max_scheduled_events = 4, bc_max_inbound_datagrams = 4, bc_max_fault_directives = 4\<rparr>"

definition sample_bus_fault :: fault_directive where
  "sample_bus_fault = \<lparr>fd_drop = False, fd_duplicate = False, fd_corrupt_byte_index = Some 5, fd_corrupt_xor_mask = 1, fd_delay_ticks = 0\<rparr>"

text \<open>The first endpoint sends a datagram that is corrupted, then the same datagram undisturbed, and the second endpoint
  receives both.\<close>

lemma sample_bus_receive:
  assumes "bus_run sample_bus_config tr self" "rb_valid self" "\<And>e. rb_closed self e = False" "\<And>e. rb_connected self e"
    "rb_inbound self Second = x # xs" "length x \<le> 48"
  shows "\<exists>self'. bus_run sample_bus_config (tr @ [BusGot Second x]) self' \<and> rb_valid self' \<and> (\<forall>e. rb_closed self' e = False) \<and>
    (\<forall>e. rb_connected self' e) \<and> rb_inbound self' Second = xs"
proof -
  let ?s = "self\<lparr>rb_inbound := (rb_inbound self)(Second := xs), rb_statistics := (rb_statistics self)
    \<lparr>bs_received_datagrams := bs_received_datagrams (rb_statistics self) + 1\<rparr>\<rparr>"
  have "endpoint_connected Second self" using assms(2-4) by (simp add: endpoint_connected_def)
  then have "receive_for Second (Some 48) self = ((RecvReceived, x), ?s)" using assms(2,3,5,6) by (simp add: receive_for_def)
  from bus_receive [OF assms(1) this] have "bus_run sample_bus_config (tr @ [BusGot Second x]) ?s" by simp
  moreover have "All (rb_connected self)" using assms(4) by blast
  ultimately show ?thesis using assms(2,3) by (intro exI [of _ ?s]) simp
qed

lemma sample_bus_run:
  assumes "5 < length b" "length b \<le> 48"
  shows "\<exists>self. bus_run sample_bus_config [BusFault First sample_bus_fault, BusSent First b, BusSent First b,
    BusGot Second (b[5 := b ! 5 XOR 1]), BusGot Second b] self"
proof -
  let ?x = "b[5 := b ! 5 XOR 1]"
  define s1 where "s1 = (bus_new sample_bus_config)\<lparr>rb_fault_directives := (\<lambda>_. [])(First := [sample_bus_fault])\<rparr>"
  have "enqueue_fault First sample_bus_fault (bus_new sample_bus_config) = (True, s1)"
    by (simp add: s1_def enqueue_fault_def bus_new_def Let_def sample_bus_config_def sample_bus_fault_def valid_config_def valid_depth_def)
  from bus_fault [OF bus_start this] have r1: "bus_run sample_bus_config [BusFault First sample_bus_fault] s1" by simp
  have s1: "rb_config s1 = sample_bus_config" "rb_valid s1" "\<And>e. rb_closed s1 e = False" "\<And>e. rb_connected s1 e"
    "rb_scheduled_events s1 = []" "rb_next_event_ordinal s1 = 0" "rb_current_tick s1 = 0" "rb_inbound s1 = (\<lambda>_. [])"
    "rb_fault_directives s1 First = [sample_bus_fault]"
    by (simp_all add: s1_def bus_new_def Let_def sample_bus_config_def valid_config_def valid_depth_def)
  have c1: "endpoint_connected First s1" using s1 by (simp add: endpoint_connected_def)
  define s2 where "s2 = send_accepted First b (Some sample_bus_fault) 1 0 s1"
  have "send_from First (Some b) s1 = (SendAccepted, s2)"
    using assms s1 c1 by (auto simp: send_from_def Let_def s2_def sample_bus_config_def sample_bus_fault_def)
  from bus_send [OF r1 this] have r2: "bus_run sample_bus_config [BusFault First sample_bus_fault, BusSent First b] s2" by simp
  have s2: "rb_config s2 = sample_bus_config" "rb_valid s2" "\<And>e. rb_closed s2 e = False" "\<And>e. rb_connected s2 e"
    "rb_scheduled_events s2 = []" "rb_next_event_ordinal s2 = 1" "rb_current_tick s2 = 0" "rb_inbound s2 Second = [?x]"
    "rb_fault_directives s2 First = []"
    using s1 send_single [OF s1(5) c1, of 0 b "Some sample_bus_fault"]
    by (simp_all add: s2_def corrupted_def sample_bus_fault_def sample_bus_config_def)
  have c2: "endpoint_connected First s2" using s2 by (simp add: endpoint_connected_def)
  define s3 where "s3 = send_accepted First b None 1 0 s2"
  have "send_from First (Some b) s2 = (SendAccepted, s3)"
    using assms s2 c2 by (auto simp: send_from_def Let_def s3_def sample_bus_config_def)
  from bus_send [OF r2 this] have r3: "bus_run sample_bus_config [BusFault First sample_bus_fault, BusSent First b, BusSent First b] s3" by simp
  have s3: "rb_valid s3" "\<And>e. rb_closed s3 e = False" "\<And>e. rb_connected s3 e" "rb_inbound s3 Second = [?x, b]"
    using s2 send_single [OF s2(5) c2, of 0 b None] by (simp_all add: s3_def corrupted_def sample_bus_config_def)
  obtain s4 where s4: "bus_run sample_bus_config [BusFault First sample_bus_fault, BusSent First b, BusSent First b, BusGot Second ?x] s4"
    "rb_valid s4" "\<And>e. rb_closed s4 e = False" "\<And>e. rb_connected s4 e" "rb_inbound s4 Second = [b]"
    using sample_bus_receive [OF r3 s3] assms(2) by auto
  show ?thesis using sample_bus_receive [OF s4] assms(2) by auto
qed

theorem bus_accounts_for_copies_witness:
  "\<exists>tr self. bus_run sample_bus_config tr self \<and> length (got_by Second tr) = 2 \<and> bus_ok self"
proof -
  obtain self where r: "bus_run sample_bus_config [BusFault First sample_bus_fault, BusSent First (replicate 8 7), BusSent First (replicate 8 7),
    BusGot Second ((replicate 8 7)[5 := replicate 8 7 ! 5 XOR 1]), BusGot Second (replicate 8 7)] self"
    using sample_bus_run [of "replicate 8 7"] by auto
  show ?thesis using bus_accounts_for_copies [OF r] r
    by (intro exI [of _ "[BusFault First sample_bus_fault, BusSent First (replicate 8 7), BusSent First (replicate 8 7),
      BusGot Second ((replicate 8 7)[5 := replicate 8 7 ! 5 XOR 1]), BusGot Second (replicate 8 7)]"] exI [of _ self]) (simp add: got_by_def)
qed

text \<open>C30: Faults of the bus are never mistaken for data. When every accepted send is the encoding of a frame, then whatever is
  dropped, duplicated, delayed or corrupted, a received datagram that decodes to a frame is, byte for byte, a
  datagram the other endpoint sent.\<close>

theorem bus_never_forges:
  assumes "bus_run c tr self" "\<forall>e b. BusSent e b \<in> set tr \<longrightarrow> (\<exists>f. frame_ok (bc_mtu c) f \<and> encode_frame f (bc_mtu c) = Inr b)"
    "BusGot d x \<in> set tr" "decode_frame (Some x) (bc_mtu c) = Inr g"
  shows "BusSent (other_endpoint d) x \<in> set tr \<and> encode_frame g (bc_mtu c) = Inr x"
proof -
  have "\<exists>b. BusSent (other_endpoint d) b \<in> set tr \<and> copy_of b x"
    using bus_run_holds [OF assms(1), where P = "\<lambda>d x. \<exists>b. BusSent (other_endpoint d) b \<in> set tr \<and> copy_of b x"] assms(3) by fastforce
  then obtain b f where b: "BusSent (other_endpoint d) b \<in> set tr" "copy_of b x" "frame_ok (bc_mtu c) f" "frame_layout f = b"
    using assms(2) encode_frame_layout by fastforce
  have g: "frame_ok (bc_mtu c) g" "frame_layout g = x" using assms(4) decode_frame_Inr by blast+
  have "x = b" using b(2) single_byte_corruption [OF b(3) g(1)] b(4) g(2) by (auto simp: copy_of_def)
  then show ?thesis using b(1) g encode_frame_layout by simp
qed

theorem bus_never_forges_witness:
  "\<exists>tr self. bus_run sample_bus_config tr self \<and> BusGot Second (frame_layout sample_frame) \<in> set tr \<and>
     encode_frame sample_frame 48 = Inr (frame_layout sample_frame)"
proof -
  let ?b = "frame_layout sample_frame"
  have enc: "encode_frame sample_frame 48 = Inr ?b" by (rule encode_frame_layout [OF sample_frame_ok])
  have len: "5 < length ?b" "length ?b \<le> 48" using frame_ok_size [OF sample_frame_ok] by auto
  have dec: "decode_frame (Some ?b) 48 = Inr sample_frame" using sample_frame_ok by (simp add: decode_frame_layout)
  obtain self where r: "bus_run sample_bus_config [BusFault First sample_bus_fault, BusSent First ?b, BusSent First ?b,
    BusGot Second (?b[5 := ?b ! 5 XOR 1]), BusGot Second ?b] self" using sample_bus_run [OF len] by blast
  from bus_never_forges [OF r, of Second ?b sample_frame] have "encode_frame sample_frame 48 = Inr ?b"
    using enc dec sample_frame_ok by (auto simp: sample_bus_config_def)
  then show ?thesis using r by (meson list.set_intros)
qed

text \<open>Without fault directives the bus keeps the order. What an endpoint has received, followed by what waits for it, is
  a subsequence of what the other endpoint sent; and when nothing was dropped it is exactly that.\<close>

theorem bus_keeps_order:
  assumes "bus_run c tr self" "list_all (\<lambda>x. \<forall>e f. x \<noteq> BusFault e f) tr"
  shows "subseq (got_by d tr @ rb_inbound self d) (sent_by (other_endpoint d) tr) \<and>
    (bs_inbound_full_drops (rb_statistics self) = 0 \<and> bs_disconnected_drops (rb_statistics self) = 0 \<and>
       length (sent_by First tr) + length (sent_by Second tr) < 2 ^ 64 \<longrightarrow>
     got_by d tr @ rb_inbound self d = sent_by (other_endpoint d) tr)"
proof -
  note p = bus_run_plain [OF assms]
  have sub: "subseq (got_by e tr @ rb_inbound self e) (sent_by (other_endpoint e) tr)" for e using p by blast
  have le: "length (got_by e tr) + length (rb_inbound self e) \<le> length (sent_by (other_endpoint e) tr)" for e
    using list_emb_length [OF sub [of e]] by simp
  have "got_by d tr @ rb_inbound self d = sent_by (other_endpoint d) tr"
    if drops: "bs_inbound_full_drops (rb_statistics self) = 0" "bs_disconnected_drops (rb_statistics self) = 0"
      and small: "length (sent_by First tr) + length (sent_by Second tr) < 2 ^ 64"
  proof -
    define s where "s = length (sent_by First tr) + length (sent_by Second tr)"
    define g where "g = length (got_by First tr) + length (got_by Second tr) + length (rb_inbound self First) + length (rb_inbound self Second)"
    have "g \<le> s" using le [of First] le [of Second] by (simp add: s_def g_def)
    have "bus_balanced self" using bus_run_ok [OF assms(1)] by (simp add: bus_ok_def bus_sound_def)
    then have "(of_nat s :: u64) = of_nat g" using p drops bus_run_counts [OF assms(1)]
      by (simp add: bus_balanced_def copies_made_def copies_gone_def s_def g_def)
    moreover have "unat (of_nat s :: u64) = s" "unat (of_nat g :: u64) = g" using small [folded s_def] \<open>g \<le> s\<close>
      by (simp_all add: unat_of_nat take_bit_nat_eq_self)
    ultimately have "s = g" by metis
    then have "length (got_by d tr @ rb_inbound self d) = length (sent_by (other_endpoint d) tr)"
      using le [of First] le [of Second] by (cases d) (simp_all add: s_def g_def)
    then show ?thesis using sub [of d] subseq_same_length by blast
  qed
  then show ?thesis using sub by blast
qed

theorem bus_keeps_order_witness:
  "\<exists>tr self. bus_run sample_bus_config tr self \<and> sent_by First tr = [replicate 8 7] \<and>
     got_by Second tr @ rb_inbound self Second = [replicate 8 7]"
proof -
  define s1 where "s1 = bus_new sample_bus_config"
  define s2 where "s2 = send_accepted First (replicate 8 7) None 1 0 s1"
  have s1: "rb_scheduled_events s1 = []" "endpoint_connected First s1" "rb_current_tick s1 = 0" "rb_inbound s1 = (\<lambda>_. [])"
    "rb_config s1 = sample_bus_config" "rb_fault_directives s1 First = []" "\<not> rb_closed s1 First" "rb_valid s1" "rb_next_event_ordinal s1 = 0"
    by (simp_all add: s1_def bus_new_def Let_def sample_bus_config_def valid_config_def valid_depth_def endpoint_connected_def)
  have "send_from First (Some (replicate 8 7)) s1 = (SendAccepted, s2)"
    using s1 by (simp add: send_from_def Let_def s2_def sample_bus_config_def)
  from bus_send [OF bus_start [of sample_bus_config, folded s1_def] this] have r: "bus_run sample_bus_config [BusSent First (replicate 8 7)] s2" by simp
  have i: "rb_inbound s2 Second = [replicate 8 7]"
    using send_single(3) [OF s1(1,2), of 0 "replicate 8 7" None Second] s1 by (simp add: s2_def corrupted_def sample_bus_config_def)
  have "subseq (got_by Second [BusSent First (replicate 8 7)] @ rb_inbound s2 Second) (sent_by First [BusSent First (replicate 8 7)])"
    using bus_keeps_order [OF r, of Second] by simp
  then show ?thesis using r i by (intro exI [of _ "[BusSent First (replicate 8 7)]"] exI [of _ s2]) simp
qed

end
