(* ===== verification/Adapter_Radio_Device.thy ===== *)
theory Adapter_Radio_Device
  imports Adapter_Transports Radio_Japan920 "HOL-Library.Multiset"
begin

text \<open>
  Model of \<^verbatim>\<open>src/adapters/radio/linux_cap_lora_1262_radio.cpp\<close>, the driver of the SX1262 chip behind spidev, the GPIO lines and the
  I2C expander that switches the antenna. The kernel's calls are a record of functions over a state of the hardware, so that each of them
  may fail at any point and answer anything; what was done on the buses is kept in a log. The lemmas below describe each call by the frames
  it sent (\<open>talks\<close>, \<open>does\<close>, \<open>sends_only\<close>).
\<close>

unbundle bit_operations_syntax

section \<open>Definitions\<close>

subsection \<open>Commands and registers\<close>

definition kPi4ioDirection :: byte where "kPi4ioDirection = 0x03"
definition kPi4ioOutput :: byte where "kPi4ioOutput = 0x05"
definition kPi4ioHighImpedance :: byte where "kPi4ioHighImpedance = 0x07"
definition kPi4ioDeviceId :: byte where "kPi4ioDeviceId = 0x01"
definition kAntennaSwitchBit :: byte where "kAntennaSwitchBit = 0x01"

definition kSetStandby :: byte where "kSetStandby = 0x80"
definition kSetRx :: byte where "kSetRx = 0x82"
definition kSetTx :: byte where "kSetTx = 0x83"
definition kSetSleep :: byte where "kSetSleep = 0x84"
definition kSetRfFrequency :: byte where "kSetRfFrequency = 0x86"
definition kCalibrate :: byte where "kCalibrate = 0x89"
definition kSetPacketType :: byte where "kSetPacketType = 0x8a"
definition kSetModulationParams :: byte where "kSetModulationParams = 0x8b"
definition kSetPacketParams :: byte where "kSetPacketParams = 0x8c"
definition kSetTxParams :: byte where "kSetTxParams = 0x8e"
definition kSetBufferBaseAddress :: byte where "kSetBufferBaseAddress = 0x8f"
definition kSetPaConfig :: byte where "kSetPaConfig = 0x95"
definition kSetRegulatorMode :: byte where "kSetRegulatorMode = 0x96"
definition kSetDio3TcxoCtrl :: byte where "kSetDio3TcxoCtrl = 0x97"
definition kCalibrateImage :: byte where "kCalibrateImage = 0x98"
definition kSetDioIrqParams :: byte where "kSetDioIrqParams = 0x08"
definition kClearIrqStatus :: byte where "kClearIrqStatus = 0x02"
definition kWriteRegister :: byte where "kWriteRegister = 0x0d"
definition kWriteBuffer :: byte where "kWriteBuffer = 0x0e"
definition kGetIrqStatus :: byte where "kGetIrqStatus = 0x12"
definition kGetRxBufferStatus :: byte where "kGetRxBufferStatus = 0x13"
definition kGetRssiInst :: byte where "kGetRssiInst = 0x15"
definition kReadBuffer :: byte where "kReadBuffer = 0x1e"

lemmas opcode_defs = kSetStandby_def kSetRx_def kSetTx_def kSetSleep_def kSetRfFrequency_def kCalibrate_def kSetPacketType_def
  kSetModulationParams_def kSetPacketParams_def kSetTxParams_def kSetBufferBaseAddress_def kSetPaConfig_def kSetRegulatorMode_def
  kSetDio3TcxoCtrl_def kCalibrateImage_def kSetDioIrqParams_def kClearIrqStatus_def kWriteRegister_def kWriteBuffer_def
  kGetIrqStatus_def kGetRxBufferStatus_def kGetRssiInst_def kReadBuffer_def

definition kIrqTxDone :: u16 where "kIrqTxDone = 0x0001"
definition kIrqRxDone :: u16 where "kIrqRxDone = 0x0002"
definition kIrqPreambleDetected :: u16 where "kIrqPreambleDetected = 0x0004"
definition kIrqHeaderValid :: u16 where "kIrqHeaderValid = 0x0010"
definition kIrqHeaderError :: u16 where "kIrqHeaderError = 0x0020"
definition kIrqCrcError :: u16 where "kIrqCrcError = 0x0040"
definition kIrqTimeout :: u16 where "kIrqTimeout = 0x0200"

definition kReceiveIrqs :: u16 where
  "kReceiveIrqs = kIrqRxDone OR kIrqPreambleDetected OR kIrqHeaderValid OR kIrqHeaderError OR kIrqCrcError OR kIrqTimeout"

definition kTransmitIrqs :: u16 where "kTransmitIrqs = kIrqTxDone OR kIrqTimeout"

definition kLoRaSyncWordRegister :: u16 where "kLoRaSyncWordRegister = 0x0740"
definition kOcpRegister :: u16 where "kOcpRegister = 0x08e7"
definition kTcxoDelayUnits :: u32 where "kTcxoDelayUnits = 320"
definition kTxTimeoutUnits :: u32 where "kTxTimeoutUnits = 320000"
definition kBusyTimeoutMs :: nat where "kBusyTimeoutMs = 100"

subsection \<open>The device and what it is attached to\<close>

record linux_radio_config =
  lrc_spi_device :: bytes
  lrc_gpio_chip :: bytes
  lrc_i2c_device :: bytes
  lrc_reset_gpio :: u32
  lrc_irq_gpio :: u32
  lrc_busy_gpio :: u32
  lrc_spi_speed_hz :: u32
  lrc_listen_before_talk_threshold_dbm :: int
  lrc_antenna_confirmed :: bool
  lrc_profile :: japan920_profile

definition linux_radio_config_valid :: "linux_radio_config \<Rightarrow> bool" where
  "linux_radio_config_valid c \<longleftrightarrow>
     lrc_spi_device c \<noteq> [] \<and> lrc_gpio_chip c \<noteq> [] \<and> lrc_i2c_device c \<noteq> [] \<and> lrc_spi_speed_hz c > 0 \<and>
     lrc_spi_speed_hz c \<le> 10000000 \<and> lrc_reset_gpio c \<noteq> lrc_irq_gpio c \<and> lrc_reset_gpio c \<noteq> lrc_busy_gpio c \<and>
     lrc_irq_gpio c \<noteq> lrc_busy_gpio c \<and> lrc_listen_before_talk_threshold_dbm c \<ge> - 127 \<and>
     lrc_listen_before_talk_threshold_dbm c \<le> - 20 \<and> lrc_antenna_confirmed c \<and> japan920_profile_valid (lrc_profile c)"

text \<open>The kernel's answers, over the state \<open>'h\<close> of the hardware behind it: opening a device, requesting a line, the levels of the
  lines, a transfer on the two buses, a setting of the SPI bus, and the time that went by, in microseconds, since the
  steady clock was last read. \<open>None\<close> or \<open>False\<close> is a failed call.\<close>

datatype spi_setting = SpiMode byte | SpiBitsPerWord byte | SpiMaxSpeedHz u32

record 'h hardware =
  hw_open :: "bytes \<Rightarrow> 'h \<Rightarrow> int \<times> 'h"
  hw_request_gpio :: "int \<Rightarrow> u32 \<Rightarrow> bool \<Rightarrow> bool \<Rightarrow> 'h \<Rightarrow> int \<times> 'h"
  hw_gpio_get :: "int \<Rightarrow> 'h \<Rightarrow> bool option \<times> 'h"
  hw_gpio_set :: "int \<Rightarrow> bool \<Rightarrow> 'h \<Rightarrow> bool \<times> 'h"
  hw_spi :: "int \<Rightarrow> bytes \<Rightarrow> 'h \<Rightarrow> bytes option \<times> 'h"
  hw_spi_set :: "int \<Rightarrow> spi_setting \<Rightarrow> 'h \<Rightarrow> bool \<times> 'h"
  hw_i2c_read :: "int \<Rightarrow> byte \<Rightarrow> 'h \<Rightarrow> byte option \<times> 'h"
  hw_i2c_write :: "int \<Rightarrow> byte \<Rightarrow> byte \<Rightarrow> 'h \<Rightarrow> bool \<times> 'h"
  hw_elapsed :: "'h \<Rightarrow> nat \<times> 'h"

text \<open>What was done on the buses, for the statements below.\<close>

datatype bus_op = SpiDone bytes bytes | I2cWrote byte byte | Opened int | Closed int

record 'h linux_radio =
  lr_config :: linux_radio_config
  lr_spi_descriptor :: int
  lr_i2c_descriptor :: int
  lr_reset_descriptor :: int
  lr_irq_descriptor :: int
  lr_busy_descriptor :: int
  lr_antenna_switch_enabled :: bool
  lr_receiving :: bool
  lr_transmitting :: bool
  lr_initialized :: bool
  lr_closed :: bool
  lr_hw :: 'h
  lr_log :: "bus_op list"

text \<open>Calls one after the other until one fails: \<^verbatim>\<open>!a || !b || \<dots>\<close>.\<close>

fun all_ok :: "('s \<Rightarrow> bool \<times> 's) list \<Rightarrow> 's \<Rightarrow> bool \<times> 's" where
  "all_ok [] s = (True, s)"
| "all_ok (f # fs) s = (case f s of (False, s) \<Rightarrow> (False, s) | (True, s) \<Rightarrow> all_ok fs s)"

definition radio_ready :: "'h linux_radio \<Rightarrow> bool" where
  "radio_ready self \<longleftrightarrow> lr_initialized self \<and> \<not> lr_closed self"

definition gpio_get :: "'h hardware \<Rightarrow> int \<Rightarrow> 'h linux_radio \<Rightarrow> bool option \<times> 'h linux_radio" where
  "gpio_get hw descriptor self = (case hw_gpio_get hw descriptor (lr_hw self) of (r, h) \<Rightarrow> (r, self\<lparr>lr_hw := h\<rparr>))"

definition gpio_set :: "'h hardware \<Rightarrow> int \<Rightarrow> bool \<Rightarrow> 'h linux_radio \<Rightarrow> bool \<times> 'h linux_radio" where
  "gpio_set hw descriptor high self = (case hw_gpio_set hw descriptor high (lr_hw self) of (r, h) \<Rightarrow> (r, self\<lparr>lr_hw := h\<rparr>))"

definition time_passed :: "'h hardware \<Rightarrow> 'h linux_radio \<Rightarrow> nat \<times> 'h linux_radio" where
  "time_passed hw self = (case hw_elapsed hw (lr_hw self) of (t, h) \<Rightarrow> (t, self\<lparr>lr_hw := h\<rparr>))"

text \<open>The wait for the BUSY line, with the time since its start in microseconds; \<^verbatim>\<open>sleep_for\<close> adds at least the 100 it is asked for.\<close>

function busy_loop :: "'h hardware \<Rightarrow> nat \<Rightarrow> 'h linux_radio \<Rightarrow> bool \<times> 'h linux_radio" where
  "busy_loop hw waited self =
     (case gpio_get hw (lr_busy_descriptor self) self of
        (None, self) \<Rightarrow> (False, self)
      | (Some False, self) \<Rightarrow> (True, self)
      | (Some True, self) \<Rightarrow>
          (case time_passed hw self of
             (t, self) \<Rightarrow> if waited + t \<ge> kBusyTimeoutMs * 1000 then (False, self) else busy_loop hw (waited + t + 100) self))"
  by pat_completeness auto
termination
  by (relation "measure (\<lambda>(hw, waited, self). kBusyTimeoutMs * 1000 - waited)") auto

declare busy_loop.simps [simp del]

definition wait_while_busy :: "'h hardware \<Rightarrow> 'h linux_radio \<Rightarrow> bool \<times> 'h linux_radio" where
  "wait_while_busy hw self = busy_loop hw 0 self"

subsection \<open>Transfers\<close>

text \<open>The received bytes fill a buffer of zeros of the size of the transfer.\<close>

definition spi_transfer :: "'h hardware \<Rightarrow> bytes \<Rightarrow> 'h linux_radio \<Rightarrow> bytes option \<times> 'h linux_radio" where
  "spi_transfer hw transmit self =
     (if lr_spi_descriptor self < 0 \<or> length transmit = 0 \<or> length transmit > 2 ^ 32 - 1 then (None, self)
      else case hw_spi hw (lr_spi_descriptor self) transmit (lr_hw self) of
        (None, h) \<Rightarrow> (None, self\<lparr>lr_hw := h\<rparr>)
      | (Some received, h) \<Rightarrow>
          (let received = take (length transmit) (received @ replicate (length transmit) 0)
           in (Some received, self\<lparr>lr_hw := h, lr_log := lr_log self @ [SpiDone transmit received]\<rparr>)))"

definition write_command :: "'h hardware \<Rightarrow> byte \<Rightarrow> bytes \<Rightarrow> 'h linux_radio \<Rightarrow> bool \<times> 'h linux_radio" where
  "write_command hw opcode data self =
     (case wait_while_busy hw self of
        (False, self) \<Rightarrow> (False, self)
      | (True, self) \<Rightarrow>
          if length data > kMaximumDatagramBytes + 4 then (False, self)
          else case spi_transfer hw (opcode # data) self of
            (None, self) \<Rightarrow> (False, self)
          | (Some _, self) \<Rightarrow> if opcode = kSetSleep then (True, self) else wait_while_busy hw self)"

definition read_command :: "'h hardware \<Rightarrow> byte \<Rightarrow> bytes \<Rightarrow> nat \<Rightarrow> 'h linux_radio \<Rightarrow> bytes option \<times> 'h linux_radio" where
  "read_command hw opcode arguments destination_size self =
     (case wait_while_busy hw self of
        (False, self) \<Rightarrow> (None, self)
      | (True, self) \<Rightarrow>
          if destination_size = 0 \<or> length arguments + destination_size + 2 > kMaximumDatagramBytes + 6 then (None, self)
          else let data_offset = length arguments + 2
            in case spi_transfer hw (opcode # arguments @ replicate (destination_size + 1) 0) self of
                 (None, self) \<Rightarrow> (None, self)
               | (Some received, self) \<Rightarrow>
                   (case wait_while_busy hw self of
                      (False, self) \<Rightarrow> (None, self)
                    | (True, self) \<Rightarrow> (Some (take destination_size (drop data_offset received)), self)))"

definition write_register :: "'h hardware \<Rightarrow> u16 \<Rightarrow> bytes \<Rightarrow> 'h linux_radio \<Rightarrow> bool \<times> 'h linux_radio" where
  "write_register hw address data self =
     (if length data = 0 \<or> length data > kMaximumDatagramBytes then (False, self)
      else write_command hw kWriteRegister ([ucast (drop_bit 8 address), ucast (address AND 0xff)] @ data) self)"

definition i2c_read_register :: "'h hardware \<Rightarrow> byte \<Rightarrow> 'h linux_radio \<Rightarrow> byte option \<times> 'h linux_radio" where
  "i2c_read_register hw address self =
     (case hw_i2c_read hw (lr_i2c_descriptor self) address (lr_hw self) of (r, h) \<Rightarrow> (r, self\<lparr>lr_hw := h\<rparr>))"

definition i2c_write_register :: "'h hardware \<Rightarrow> byte \<Rightarrow> byte \<Rightarrow> 'h linux_radio \<Rightarrow> bool \<times> 'h linux_radio" where
  "i2c_write_register hw address data self =
     (case hw_i2c_write hw (lr_i2c_descriptor self) address data (lr_hw self) of
        (r, h) \<Rightarrow> (r, self\<lparr>lr_hw := h, lr_log := lr_log self @ (if r then [I2cWrote address data] else [])\<rparr>))"

definition update_i2c_register :: "'h hardware \<Rightarrow> byte \<Rightarrow> byte \<Rightarrow> byte \<Rightarrow> 'h linux_radio \<Rightarrow> bool \<times> 'h linux_radio" where
  "update_i2c_register hw address set_mask clear_mask self =
     (case i2c_read_register hw address self of
        (None, self) \<Rightarrow> (False, self)
      | (Some r, self) \<Rightarrow> i2c_write_register hw address ((r OR set_mask) AND (NOT clear_mask)) self)"

subsection \<open>The antenna switch and the radio\<close>

definition device_id_present :: "'h hardware \<Rightarrow> 'h linux_radio \<Rightarrow> bool \<times> 'h linux_radio" where
  "device_id_present hw self =
     (case i2c_read_register hw kPi4ioDeviceId self of
        (None, self) \<Rightarrow> (False, self)
      | (Some device_id, self) \<Rightarrow> (device_id \<noteq> 0, self))"

definition set_antenna_switch :: "'h hardware \<Rightarrow> bool \<Rightarrow> 'h linux_radio \<Rightarrow> bool \<times> 'h linux_radio" where
  "set_antenna_switch hw enabled self =
     (if lr_i2c_descriptor self < 0 then (False, self)
      else if enabled
      then (case all_ok
               [device_id_present hw,
                update_i2c_register hw kPi4ioDirection kAntennaSwitchBit 0,
                update_i2c_register hw kPi4ioHighImpedance 0 kAntennaSwitchBit,
                update_i2c_register hw kPi4ioOutput kAntennaSwitchBit 0] self of
             (False, self) \<Rightarrow> (False, self)
           | (True, self) \<Rightarrow> (True, self\<lparr>lr_antenna_switch_enabled := True\<rparr>))
      else (case update_i2c_register hw kPi4ioOutput 0 kAntennaSwitchBit self of
             (result, self) \<Rightarrow> (result, self\<lparr>lr_antenna_switch_enabled := False\<rparr>)))"

definition reset_radio :: "'h hardware \<Rightarrow> 'h linux_radio \<Rightarrow> bool \<times> 'h linux_radio" where
  "reset_radio hw self =
     all_ok [\<lambda>self. gpio_set hw (lr_reset_descriptor self) False self, \<lambda>self. gpio_set hw (lr_reset_descriptor self) True self,
             wait_while_busy hw] self"

definition set_irq_mask :: "'h hardware \<Rightarrow> u16 \<Rightarrow> 'h linux_radio \<Rightarrow> bool \<times> 'h linux_radio" where
  "set_irq_mask hw irqs = write_command hw kSetDioIrqParams
     [ucast (drop_bit 8 irqs), ucast (irqs AND 0xff), ucast (drop_bit 8 irqs), ucast (irqs AND 0xff), 0, 0, 0, 0]"

definition clear_irq :: "'h hardware \<Rightarrow> u16 \<Rightarrow> 'h linux_radio \<Rightarrow> bool \<times> 'h linux_radio" where
  "clear_irq hw irqs = write_command hw kClearIrqStatus [ucast (drop_bit 8 irqs), ucast (irqs AND 0xff)]"

definition read_irq :: "'h hardware \<Rightarrow> 'h linux_radio \<Rightarrow> u16 option \<times> 'h linux_radio" where
  "read_irq hw self =
     (case read_command hw kGetIrqStatus [] 2 self of
        (None, self) \<Rightarrow> (None, self)
      | (Some d, self) \<Rightarrow> (Some (push_bit 8 (ucast (d ! 0)) OR ucast (d ! 1)), self))"

definition set_packet_params :: "'h hardware \<Rightarrow> nat \<Rightarrow> 'h linux_radio \<Rightarrow> bool \<times> 'h linux_radio" where
  "set_packet_params hw payload_size self =
     (if payload_size = 0 \<or> payload_size > kMaximumDatagramBytes then (False, self)
      else let symbols = preamble_symbols (lrc_profile (lr_config self))
        in write_command hw kSetPacketParams
             [ucast (drop_bit 8 symbols), ucast (symbols AND 0xff), 0x00, of_nat payload_size, 0x01, 0x00] self)"

definition start_receive :: "'h hardware \<Rightarrow> 'h linux_radio \<Rightarrow> bool \<times> 'h linux_radio" where
  "start_receive hw self =
     (case all_ok [set_packet_params hw kMaximumDatagramBytes, clear_irq hw 0xffff, set_irq_mask hw kReceiveIrqs,
                   write_command hw kSetRx [0xff, 0xff, 0xff]] self of
        (False, self) \<Rightarrow> (False, self)
      | (True, self) \<Rightarrow> (True, self\<lparr>lr_receiving := True, lr_transmitting := False\<rparr>))"

definition frequency_word :: "u32 \<Rightarrow> u64" where
  "frequency_word frequency = push_bit 25 (ucast frequency) div 32000000"

definition shifted_bytes :: "nat list \<Rightarrow> 'a::len word \<Rightarrow> bytes" where
  "shifted_bytes shifts w = map (\<lambda>n. ucast (drop_bit n w)) shifts"

text \<open>The commands of \<^verbatim>\<open>configure_radio\<close>, in their order.\<close>

definition configure_commands :: "'h hardware \<Rightarrow> japan920_profile \<Rightarrow> ('h linux_radio \<Rightarrow> bool \<times> 'h linux_radio) list" where
  "configure_commands hw p =
     [write_command hw kSetStandby [0x00],
      write_command hw kSetRegulatorMode [0x01],
      write_command hw kSetDio3TcxoCtrl (0x06 # shifted_bytes [16, 8, 0] kTcxoDelayUnits),
      write_command hw kCalibrate [0x7f],
      write_command hw kCalibrateImage [0xe1, 0xe9],
      write_command hw kSetPacketType [0x01],
      write_command hw kSetBufferBaseAddress [0, 0],
      write_command hw kSetRfFrequency (shifted_bytes [24, 16, 8, 0] (frequency_word (frequency_hz p))),
      write_command hw kSetModulationParams
        [spreading_factor p, 0x04, coding_rate_denominator p - 4, if spreading_factor p \<ge> 11 then 1 else 0],
      write_command hw kSetPaConfig [0x04, 0x07, 0x00, 0x01],
      write_command hw kSetTxParams [transmit_power_dbm p, 0x04],
      write_register hw kOcpRegister [0x38],
      write_register hw kLoRaSyncWordRegister [(sync_word p AND 0xf0) OR 0x04, push_bit 4 (sync_word p) OR 0x04],
      start_receive hw]"

definition configure_radio :: "'h hardware \<Rightarrow> 'h linux_radio \<Rightarrow> bool \<times> 'h linux_radio" where
  "configure_radio hw self = all_ok (configure_commands hw (lrc_profile (lr_config self))) self"

subsection \<open>Closing and opening\<close>

text \<open>Closing a descriptor; a second close of it, which \<^verbatim>\<open>EINTR\<close> asks for, has no other effect here.\<close>

definition close_descriptor :: "int \<Rightarrow> 'h linux_radio \<Rightarrow> 'h linux_radio" where
  "close_descriptor descriptor self = (if descriptor < 0 then self else self\<lparr>lr_log := lr_log self @ [Closed descriptor]\<rparr>)"

definition radio_shutdown :: "'h hardware \<Rightarrow> 'h linux_radio \<Rightarrow> 'h linux_radio" where
  "radio_shutdown hw self =
     (if lr_closed self then self
      else let self = (if lr_spi_descriptor self \<ge> 0 \<and> lr_busy_descriptor self \<ge> 0 \<and> lr_initialized self
                       then snd (write_command hw kSetSleep [0x00] self) else self);
               self = (if lr_antenna_switch_enabled self then snd (set_antenna_switch hw False self) else self);
               self = self\<lparr>lr_initialized := False, lr_receiving := False, lr_transmitting := False, lr_closed := True\<rparr>;
               self = (close_descriptor (lr_reset_descriptor self) self)\<lparr>lr_reset_descriptor := - 1\<rparr>;
               self = (close_descriptor (lr_irq_descriptor self) self)\<lparr>lr_irq_descriptor := - 1\<rparr>;
               self = (close_descriptor (lr_busy_descriptor self) self)\<lparr>lr_busy_descriptor := - 1\<rparr>;
               self = (close_descriptor (lr_spi_descriptor self) self)\<lparr>lr_spi_descriptor := - 1\<rparr>
           in (close_descriptor (lr_i2c_descriptor self) self)\<lparr>lr_i2c_descriptor := - 1\<rparr>)"

definition open_device :: "'h hardware \<Rightarrow> bytes \<Rightarrow> 'h linux_radio \<Rightarrow> int \<times> 'h linux_radio" where
  "open_device hw path self =
     (case hw_open hw path (lr_hw self) of (fd, h) \<Rightarrow> (fd, self\<lparr>lr_hw := h, lr_log := lr_log self @ (if fd < 0 then [] else [Opened fd])\<rparr>))"

definition request_gpio :: "'h hardware \<Rightarrow> int \<Rightarrow> u32 \<Rightarrow> bool \<Rightarrow> bool \<Rightarrow> 'h linux_radio \<Rightarrow> int \<times> 'h linux_radio" where
  "request_gpio hw chip offset output initial_high self =
     (case hw_request_gpio hw chip offset output initial_high (lr_hw self) of
        (fd, h) \<Rightarrow> (fd, self\<lparr>lr_hw := h, lr_log := lr_log self @ (if fd < 0 then [] else [Opened fd])\<rparr>))"

definition spi_set :: "'h hardware \<Rightarrow> spi_setting \<Rightarrow> 'h linux_radio \<Rightarrow> bool \<times> 'h linux_radio" where
  "spi_set hw setting self = (case hw_spi_set hw (lr_spi_descriptor self) setting (lr_hw self) of (r, h) \<Rightarrow> (r, self\<lparr>lr_hw := h\<rparr>))"

definition spi_settings :: "linux_radio_config \<Rightarrow> spi_setting list" where
  "spi_settings config = [SpiMode 0, SpiBitsPerWord 8, SpiMaxSpeedHz (lrc_spi_speed_hz config)]"

definition spi_setup :: "'h hardware \<Rightarrow> 'h linux_radio \<Rightarrow> bool \<times> 'h linux_radio" where
  "spi_setup hw self = all_ok (map (spi_set hw) (spi_settings (lr_config self))) self"

definition radio_initialize :: "'h hardware \<Rightarrow> 'h linux_radio \<Rightarrow> 'h linux_radio" where
  "radio_initialize hw self =
     (let c = lr_config self
      in if \<not> linux_radio_config_valid c then radio_shutdown hw self
         else
           let (spi, self) = open_device hw (lrc_spi_device c) self; self = self\<lparr>lr_spi_descriptor := spi\<rparr>;
               (i2c, self) = open_device hw (lrc_i2c_device c) self; self = self\<lparr>lr_i2c_descriptor := i2c\<rparr>;
               (chip, self) = open_device hw (lrc_gpio_chip c) self
           in if spi < 0 \<or> i2c < 0 \<or> chip < 0 then radio_shutdown hw (close_descriptor chip self)
              else
                let (reset, self) = request_gpio hw chip (lrc_reset_gpio c) True True self;
                    self = self\<lparr>lr_reset_descriptor := reset\<rparr>;
                    (irq, self) = request_gpio hw chip (lrc_irq_gpio c) False False self;
                    self = self\<lparr>lr_irq_descriptor := irq\<rparr>;
                    (busy, self) = request_gpio hw chip (lrc_busy_gpio c) False False self;
                    self = self\<lparr>lr_busy_descriptor := busy\<rparr>;
                    self = close_descriptor chip self
                in if reset < 0 \<or> irq < 0 \<or> busy < 0 then radio_shutdown hw self
                   else case all_ok [spi_setup hw, set_antenna_switch hw True, reset_radio hw, configure_radio hw] self of
                     (False, self) \<Rightarrow> radio_shutdown hw self
                   | (True, self) \<Rightarrow> self\<lparr>lr_initialized := True, lr_closed := False\<rparr>)"

definition linux_radio_new :: "'h hardware \<Rightarrow> linux_radio_config \<Rightarrow> 'h \<Rightarrow> 'h linux_radio" where
  "linux_radio_new hw config h =
     radio_initialize hw
       \<lparr>lr_config = config, lr_spi_descriptor = - 1, lr_i2c_descriptor = - 1, lr_reset_descriptor = - 1, lr_irq_descriptor = - 1,
        lr_busy_descriptor = - 1, lr_antenna_switch_enabled = False, lr_receiving = False, lr_transmitting = False,
        lr_initialized = False, lr_closed = False, lr_hw = h, lr_log = []\<rparr>"

subsection \<open>Sending and receiving\<close>

text \<open>The received signal strength in dBm; the division of C truncates towards zero.\<close>

definition rssi_dbm :: "byte \<Rightarrow> int" where
  "rssi_dbm raw = - (uint raw div 2)"

definition try_start_transmit :: "'h hardware \<Rightarrow> bytes option \<Rightarrow> 'h linux_radio \<Rightarrow> radio_start_status \<times> 'h linux_radio" where
  "try_start_transmit hw data self =
     (if \<not> radio_ready self \<or> data = None \<or> length (the data) = 0 \<or> length (the data) > kMaximumDatagramBytes then (StartFailed, self)
      else if lr_transmitting self then (StartBusy, self)
      else case gpio_get hw (lr_irq_descriptor self) self of
        (None, self) \<Rightarrow> (StartFailed, self)
      | (Some irq_high, self) \<Rightarrow>
          (case read_irq hw self of
             (None, self) \<Rightarrow> (StartFailed, self)
           | (Some irq, self) \<Rightarrow>
               if irq_high \<or> irq AND (kIrqPreambleDetected OR kIrqHeaderValid OR kIrqRxDone) \<noteq> 0 then (StartBusy, self)
               else (case read_command hw kGetRssiInst [] 1 self of
                  (None, self) \<Rightarrow> (StartFailed, self)
                | (Some raw, self) \<Rightarrow>
                    if rssi_dbm (raw ! 0) \<ge> lrc_listen_before_talk_threshold_dbm (lr_config self) then (StartBusy, self)
                    else (case all_ok
                        [write_command hw kSetStandby [0x00],
                         set_packet_params hw (length (the data)),
                         write_command hw kWriteBuffer (0 # the data),
                         clear_irq hw 0xffff,
                         set_irq_mask hw kTransmitIrqs,
                         write_command hw kSetTx (shifted_bytes [16, 8, 0] kTxTimeoutUnits)] self of
                      (False, self) \<Rightarrow> (StartFailed, self)
                    | (True, self) \<Rightarrow> (StartStarted, self\<lparr>lr_transmitting := True, lr_receiving := False\<rparr>)))))"

definition poll_answer :: "radio_poll_status \<Rightarrow> nat \<Rightarrow> bytes \<Rightarrow> radio_poll_result" where
  "poll_answer st n b = \<lparr>poll_status = st, poll_size = n, poll_bytes = b\<rparr>"

text \<open>Acknowledging the interrupts and listening again, before an answer.\<close>

definition listen_again :: "'h hardware \<Rightarrow> u16 \<Rightarrow> radio_poll_result \<Rightarrow> 'h linux_radio \<Rightarrow> radio_poll_result \<times> 'h linux_radio" where
  "listen_again hw irq answer self =
     (case all_ok [clear_irq hw irq, start_receive hw] self of
        (False, self) \<Rightarrow> (poll_answer PollFailed 0 [], self)
      | (True, self) \<Rightarrow> (answer, self))"

text \<open>The part of \<^verbatim>\<open>poll\<close> that fetches a packet.\<close>

definition receive_packet :: "'h hardware \<Rightarrow> u16 \<Rightarrow> nat \<Rightarrow> 'h linux_radio \<Rightarrow> radio_poll_result \<times> 'h linux_radio" where
  "receive_packet hw irq destination_capacity self =
     (case read_command hw kGetRxBufferStatus [] 2 self of
        (None, self) \<Rightarrow> (poll_answer PollFailed 0 [], self)
      | (Some status, self) \<Rightarrow>
          let payload_size = unat (status ! 0)
          in if payload_size = 0 \<or> payload_size > destination_capacity
             then listen_again hw irq (poll_answer PollReceived payload_size []) self
             else (case read_command hw kReadBuffer [status ! 1] payload_size self of
                (None, self) \<Rightarrow> (poll_answer PollFailed 0 [], self)
              | (Some payload, self) \<Rightarrow> listen_again hw irq (poll_answer PollReceived payload_size payload) self))"

definition radio_poll :: "'h hardware \<Rightarrow> nat option \<Rightarrow> 'h linux_radio \<Rightarrow> radio_poll_result \<times> 'h linux_radio" where
  "radio_poll hw destination self =
     (if \<not> radio_ready self \<or> destination = None \<or> the destination = 0 then (poll_answer PollFailed 0 [], self)
      else case gpio_get hw (lr_irq_descriptor self) self of
        (None, self) \<Rightarrow> (poll_answer PollFailed 0 [], self)
      | (Some False, self) \<Rightarrow> (poll_answer PollIdle 0 [], self)
      | (Some True, self) \<Rightarrow>
          (case read_irq hw self of
             (None, self) \<Rightarrow> (poll_answer PollFailed 0 [], self)
           | (Some irq, self) \<Rightarrow>
               if irq AND kIrqTimeout \<noteq> 0 \<and> lr_transmitting self then (poll_answer PollFailed 0 [], self)
               else if irq AND kIrqTimeout \<noteq> 0 then listen_again hw irq (poll_answer PollIdle 0 []) self
               else if irq AND kIrqTxDone \<noteq> 0 then listen_again hw irq (poll_answer PollTransmitComplete 0 []) self
               else if irq AND (kIrqHeaderError OR kIrqCrcError) \<noteq> 0 then listen_again hw irq (poll_answer PollIdle 0 []) self
               else if irq AND kIrqRxDone = 0 then (poll_answer PollIdle 0 [], self)
               else receive_packet hw irq (the destination) self))"

section \<open>What the calls do on the buses\<close>

text \<open>A call that only talks to the chip: it changes the hardware, the log and the mode flags. \<open>talks fr d d'\<close> has the frames sent,
  with what came back.\<close>

definition talks :: "(bytes \<times> bytes) list \<Rightarrow> 'h linux_radio \<Rightarrow> 'h linux_radio \<Rightarrow> bool" where
  "talks fr d d' \<longleftrightarrow> (\<exists>h a b. d' = d\<lparr>lr_hw := h, lr_log := lr_log d @ map (\<lambda>(t, r). SpiDone t r) fr, lr_receiving := a, lr_transmitting := b\<rparr>)"

lemma talks_nil: "talks [] d (d\<lparr>lr_hw := h\<rparr>)"
proof -
  have "d\<lparr>lr_hw := h\<rparr> = d\<lparr>lr_hw := h, lr_log := lr_log d @ map (\<lambda>(t, r). SpiDone t r) [], lr_receiving := lr_receiving d, lr_transmitting := lr_transmitting d\<rparr>"
    by simp
  then show ?thesis unfolding talks_def by blast
qed

lemma talks_refl: "talks [] d d"
  using talks_nil [of d "lr_hw d"] by simp

lemma talks_trans: "talks fr d d' \<Longrightarrow> talks fr' d' d'' \<Longrightarrow> talks (fr @ fr') d d''"
  by (auto simp: talks_def) metis

lemma talks_flags: "talks fr d d' \<Longrightarrow> talks fr d (d'\<lparr>lr_receiving := a, lr_transmitting := b\<rparr>)"
  by (auto simp: talks_def) metis

lemma talks_flags':
  assumes "talks fr d d'"
  shows "talks fr d (d'\<lparr>lr_transmitting := b, lr_receiving := a\<rparr>)"
proof -
  have eq: "d'\<lparr>lr_transmitting := b, lr_receiving := a\<rparr> = d'\<lparr>lr_receiving := a, lr_transmitting := b\<rparr>" by simp
  show ?thesis unfolding eq by (rule talks_flags [OF assms])
qed

lemma talks_fields:
  assumes "talks fr d d'"
  shows "lr_config d' = lr_config d" "lr_spi_descriptor d' = lr_spi_descriptor d" "lr_i2c_descriptor d' = lr_i2c_descriptor d"
    "lr_reset_descriptor d' = lr_reset_descriptor d" "lr_irq_descriptor d' = lr_irq_descriptor d"
    "lr_busy_descriptor d' = lr_busy_descriptor d" "lr_antenna_switch_enabled d' = lr_antenna_switch_enabled d"
    "lr_initialized d' = lr_initialized d" "lr_closed d' = lr_closed d"
    "lr_log d' = lr_log d @ map (\<lambda>(t, r). SpiDone t r) fr"
  using assms by (auto simp: talks_def)

lemma gpio_talks: "gpio_get hw fd d = (r, d') \<Longrightarrow> talks [] d d'" "gpio_set hw fd b d = (ok, d') \<Longrightarrow> talks [] d d'"
  "time_passed hw d = (t, d') \<Longrightarrow> talks [] d d'" "spi_set hw x d = (ok, d') \<Longrightarrow> talks [] d d'"
  by (auto simp: gpio_get_def gpio_set_def time_passed_def spi_set_def intro: talks_nil split: prod.splits)

lemma busy_talks: "busy_loop hw waited d = (ok, d') \<Longrightarrow> talks [] d d'"
proof (induction hw waited d rule: busy_loop.induct)
  case (1 hw waited d)
  obtain r d1 where g: "gpio_get hw (lr_busy_descriptor d) d = (r, d1)" by fastforce
  note t1 = gpio_talks(1) [OF g]
  show ?case
  proof (cases "r = Some True")
    case high: True
    obtain t d2 where p: "time_passed hw d1 = (t, d2)" by fastforce
    have t2: "talks [] d d2" using talks_trans [OF t1 gpio_talks(3) [OF p]] by simp
    show ?thesis
    proof (cases "waited + t \<ge> kBusyTimeoutMs * 1000")
      case True
      then show ?thesis using "1.prems" g \<open>r = Some True\<close> p t2 by (subst (asm) busy_loop.simps) simp
    next
      case False
      then have "busy_loop hw (waited + t + 100) d2 = (ok, d')"
        using "1.prems" g \<open>r = Some True\<close> p by (subst (asm) busy_loop.simps) simp
      from "1.IH" [OF g [symmetric] high refl p [symmetric] False this] show ?thesis
        using talks_trans [OF t2] by fastforce
    qed
  next
    case False
    then show ?thesis using "1.prems" g t1 by (subst (asm) busy_loop.simps) (auto split: option.splits bool.splits)
  qed
qed

lemma wait_talks: "wait_while_busy hw d = (ok, d') \<Longrightarrow> talks [] d d'"
  unfolding wait_while_busy_def by (rule busy_talks)

lemma spi_talks:
  assumes "spi_transfer hw t d = (r, d')"
  shows "r = None \<and> talks [] d d' \<or> (\<exists>x. r = Some x \<and> length x = length t \<and> talks [(t, x)] d d')"
proof -
  have "talks [(t, x)] d (d\<lparr>lr_hw := h, lr_log := lr_log d @ [SpiDone t x]\<rparr>)" for x h
  proof -
    have "d\<lparr>lr_hw := h, lr_log := lr_log d @ [SpiDone t x]\<rparr> =
      d\<lparr>lr_hw := h, lr_log := lr_log d @ map (\<lambda>(t, r). SpiDone t r) [(t, x)], lr_receiving := lr_receiving d, lr_transmitting := lr_transmitting d\<rparr>"
      by simp
    then show ?thesis unfolding talks_def by blast
  qed
  then show ?thesis using assms talks_refl [of d] talks_nil [of d]
    by (auto simp: spi_transfer_def Let_def split: if_splits prod.splits option.splits)
qed

lemma write_command_talks:
  assumes "write_command hw op data d = (ok, d')"
  shows "\<not> ok \<and> talks [] d d' \<or> (\<exists>x. talks [(op # data, x)] d d')"
proof -
  obtain b d1 where w: "wait_while_busy hw d = (b, d1)" by fastforce
  note t1 = wait_talks [OF w]
  show ?thesis
  proof (cases "b \<and> length data \<le> kMaximumDatagramBytes + 4")
    case False
    then show ?thesis using assms w t1 by (auto simp: write_command_def split: bool.splits)
  next
    case True
    obtain r d2 where s: "spi_transfer hw (op # data) d1 = (r, d2)" by fastforce
    show ?thesis
    proof (cases r)
      case None
      then have "talks [] d d2" using spi_talks [OF s] talks_trans [OF t1] by fastforce
      then show ?thesis using assms w s True None by (auto simp: write_command_def split: bool.splits)
    next
      case (Some x)
      then have t2: "talks [(op # data, x)] d d2" using spi_talks [OF s] talks_trans [OF t1] by fastforce
      have "d' = d2 \<or> (\<exists>ok. wait_while_busy hw d2 = (ok, d'))" using assms w s True Some by (auto simp: write_command_def split: if_splits)
      then show ?thesis using t2 talks_trans [OF t2 wait_talks] by fastforce
    qed
  qed
qed

lemma read_command_talks:
  assumes "read_command hw op args n d = (r, d')"
  shows "r = None \<and> talks [] d d' \<or> (\<exists>x. talks [(op # args @ replicate (n + 1) 0, x)] d d' \<and> length x = length args + n + 2 \<and>
    (r = None \<or> r = Some (take n (drop (length args + 2) x))))"
proof -
  obtain b d1 where w: "wait_while_busy hw d = (b, d1)" by fastforce
  note t1 = wait_talks [OF w]
  show ?thesis
  proof (cases "b \<and> \<not> (n = 0 \<or> length args + n + 2 > kMaximumDatagramBytes + 6)")
    case False
    then show ?thesis using assms w t1 by (auto simp: read_command_def split: bool.splits if_splits)
  next
    case True
    let ?t = "op # args @ replicate (n + 1) 0"
    obtain r1 d2 where s: "spi_transfer hw ?t d1 = (r1, d2)" by fastforce
    show ?thesis
    proof (cases r1)
      case None
      then have "talks [] d d2" using spi_talks [OF s] talks_trans [OF t1] by fastforce
      then show ?thesis using assms w s True None by (simp add: read_command_def Let_def)
    next
      case (Some x)
      then have t2: "talks [(?t, x)] d d2" "length x = length args + n + 2" using spi_talks [OF s] talks_trans [OF t1] by fastforce+
      obtain b3 d3 where w3: "wait_while_busy hw d2 = (b3, d3)" by fastforce
      have "talks [(?t, x)] d d3" using talks_trans [OF t2(1) wait_talks [OF w3]] by simp
      moreover have "d' = d3" "r = None \<or> r = Some (take n (drop (length args + 2) x))"
        using assms w s True Some w3 by (cases b3; simp add: read_command_def Let_def)+
      ultimately show ?thesis using t2(2) by blast
    qed
  qed
qed

text \<open>\<open>does c f frs\<close>: when the call \<open>f\<close> succeeds it has sent exactly the frames \<open>frs\<close>; \<open>sends_only P f\<close>: whatever happens, it sends only frames
  with \<open>P\<close>.\<close>

definition does :: "linux_radio_config \<Rightarrow> ('h linux_radio \<Rightarrow> bool \<times> 'h linux_radio) \<Rightarrow> bytes list \<Rightarrow> bool" where
  "does c f frs \<longleftrightarrow> (\<forall>d d'. lr_config d = c \<longrightarrow> f d = (True, d') \<longrightarrow> (\<exists>rs. length rs = length frs \<and> talks (zip frs rs) d d'))"

definition sends_only :: "(bytes \<Rightarrow> bool) \<Rightarrow> ('h linux_radio \<Rightarrow> 'a \<times> 'h linux_radio) \<Rightarrow> bool" where
  "sends_only P f \<longleftrightarrow> (\<forall>d x d'. f d = (x, d') \<longrightarrow> (\<exists>fr. talks fr d d' \<and> list_all (P \<circ> fst) fr))"

lemma doesD: "does c f frs \<Longrightarrow> lr_config d = c \<Longrightarrow> f d = (True, d') \<Longrightarrow> \<exists>rs. length rs = length frs \<and> talks (zip frs rs) d d'"
  by (simp add: does_def)

lemma sendsD: "sends_only P f \<Longrightarrow> f d = (x, d') \<Longrightarrow> \<exists>fr. talks fr d d' \<and> list_all (P \<circ> fst) fr"
  by (simp add: sends_only_def)

lemma all_ok_does:
  "list_all2 (does c) fs frss \<Longrightarrow> does c (all_ok fs) (concat frss)"
proof (induction fs frss rule: list_all2_induct)
  case Nil
  show ?case by (auto simp: does_def intro: talks_refl)
next
  case (Cons f fs fr frss)
  show ?case unfolding does_def
  proof (intro allI impI)
    fix d d' assume c: "lr_config d = c" and run: "all_ok (f # fs) d = (True, d')"
    then obtain d1 where f: "f d = (True, d1)" "all_ok fs d1 = (True, d')" by (auto split: prod.splits bool.splits)
    obtain r1 where r1: "length r1 = length fr" "talks (zip fr r1) d d1" using doesD [OF Cons.hyps(1) c f(1)] by blast
    have "lr_config d1 = c" using talks_fields(1) [OF r1(2)] c by simp
    then obtain r2 where r2: "length r2 = length (concat frss)" "talks (zip (concat frss) r2) d1 d'"
      using doesD [OF Cons.IH _ f(2)] by blast
    show "\<exists>rs. length rs = length (concat (fr # frss)) \<and> talks (zip (concat (fr # frss)) rs) d d'"
      using talks_trans [OF r1(2) r2(2)] r1(1) r2(1) by (intro exI [of _ "r1 @ r2"]) simp
  qed
qed

lemma all_ok_sends: "list_all (sends_only P) fs \<Longrightarrow> sends_only P (all_ok fs)"
proof (induction fs)
  case Nil
  show ?case by (auto simp: sends_only_def intro!: exI [of _ "[]"] talks_refl)
next
  case (Cons f fs)
  show ?case unfolding sends_only_def
  proof (intro allI impI)
    fix d x d' assume run: "all_ok (f # fs) d = (x, d')"
    obtain b d1 where f: "f d = (b, d1)" by fastforce
    obtain fr1 where t1: "talks fr1 d d1" "list_all (P \<circ> fst) fr1" using sendsD [of P f, OF _ f] Cons.prems by auto
    show "\<exists>fr. talks fr d d' \<and> list_all (P \<circ> fst) fr"
    proof (cases b)
      case True
      then have run2: "all_ok fs d1 = (x, d')" using run f by simp
      have send2: "sends_only P (all_ok fs)" using Cons by simp
      obtain fr2 where "talks fr2 d1 d'" "list_all (P \<circ> fst) fr2" using sendsD [OF send2 run2] by blast
      then show ?thesis using talks_trans [OF t1(1)] t1(2) by (intro exI [of _ "fr1 @ fr2"]) simp
    next
      case False
      then show ?thesis using run f t1 by auto
    qed
  qed
qed

lemma write_command_does: "does c (write_command hw op data) [op # data]"
  unfolding does_def
proof (intro allI impI)
  fix d d' assume "write_command hw op data d = (True, d')"
  then obtain x where "talks [(op # data, x)] d d'" using write_command_talks by blast
  then show "\<exists>rs. length rs = length [op # data] \<and> talks (zip [op # data] rs) d d'" by (intro exI [of _ "[x]"]) simp
qed

lemma write_command_sends:
  assumes "P (op # data)"
  shows "sends_only P (write_command hw op data)"
  unfolding sends_only_def
proof (intro allI impI)
  fix d ok d' assume "write_command hw op data d = (ok, d')"
  from write_command_talks [OF this] consider "talks [] d d'" | x where "talks [(op # data, x)] d d'" by blast
  then show "\<exists>fr. talks fr d d' \<and> list_all (P \<circ> fst) fr"
  proof cases
    case 1
    then show ?thesis by (intro exI [of _ "[]"]) simp
  next
    case (2 x)
    then show ?thesis using assms by (intro exI [of _ "[(op # data, x)]"]) simp
  qed
qed

lemma read_command_sends:
  assumes "P (op # args @ replicate (n + 1) 0)"
  shows "sends_only P (read_command hw op args n)"
  unfolding sends_only_def
proof (intro allI impI)
  fix d r d' assume "read_command hw op args n d = (r, d')"
  from read_command_talks [OF this] consider "talks [] d d'" | x where "talks [(op # args @ replicate (n + 1) 0, x)] d d'" by blast
  then show "\<exists>fr. talks fr d d' \<and> list_all (P \<circ> fst) fr"
  proof cases
    case 1
    then show ?thesis by (intro exI [of _ "[]"]) simp
  next
    case (2 x)
    then show ?thesis using assms by (intro exI [of _ "[(op # args @ replicate (n + 1) 0, x)]"]) simp
  qed
qed

definition irq_frame :: "u16 \<Rightarrow> bytes" where
  "irq_frame m = [kSetDioIrqParams, ucast (drop_bit 8 m), ucast (m AND 0xff), ucast (drop_bit 8 m), ucast (m AND 0xff), 0, 0, 0, 0]"

definition clear_frame :: "u16 \<Rightarrow> bytes" where
  "clear_frame m = [kClearIrqStatus, ucast (drop_bit 8 m), ucast (m AND 0xff)]"

definition packet_frame :: "linux_radio_config \<Rightarrow> nat \<Rightarrow> bytes" where
  "packet_frame c n =
     [kSetPacketParams, ucast (drop_bit 8 (preamble_symbols (lrc_profile c))), ucast (preamble_symbols (lrc_profile c) AND 0xff),
      0x00, of_nat n, 0x01, 0x00]"

text \<open>The frames that make the chip listen, and the ones that make it transmit.\<close>

definition receive_frames :: "linux_radio_config \<Rightarrow> bytes list" where
  "receive_frames c = [packet_frame c 255, clear_frame 0xffff, irq_frame kReceiveIrqs, [kSetRx, 0xff, 0xff, 0xff]]"

definition transmit_frames :: "linux_radio_config \<Rightarrow> bytes \<Rightarrow> bytes list" where
  "transmit_frames c data =
     [[kSetStandby, 0x00], packet_frame c (length data), kWriteBuffer # 0 # data, clear_frame 0xffff, irq_frame kTransmitIrqs,
      kSetTx # shifted_bytes [16, 8, 0] kTxTimeoutUnits]"

lemma simple_does:
  "does c (set_irq_mask hw m) [irq_frame m]" "does c (clear_irq hw m) [clear_frame m]"
  unfolding set_irq_mask_def clear_irq_def irq_frame_def clear_frame_def by (rule write_command_does)+

lemma set_packet_params_does: "does c (set_packet_params hw n) [packet_frame c n]"
  unfolding does_def
proof (intro allI impI)
  fix d d' assume c: "lr_config d = c" and run: "set_packet_params hw n d = (True, d')"
  then have "write_command hw kSetPacketParams (tl (packet_frame c n)) d = (True, d')"
    by (auto simp: set_packet_params_def Let_def packet_frame_def split: if_splits)
  from doesD [OF write_command_does c this] show "\<exists>rs. length rs = length [packet_frame c n] \<and> talks (zip [packet_frame c n] rs) d d'"
    by (simp add: packet_frame_def)
qed

lemma start_receive_all:
  "start_receive hw d = (ok, d') \<Longrightarrow> \<exists>d1. all_ok [set_packet_params hw kMaximumDatagramBytes, clear_irq hw 0xffff, set_irq_mask hw kReceiveIrqs,
     write_command hw kSetRx [0xff, 0xff, 0xff]] d = (ok, d1) \<and> d' = (if ok then d1\<lparr>lr_receiving := True, lr_transmitting := False\<rparr> else d1)"
  unfolding start_receive_def by (auto split: prod.splits bool.splits)

lemma start_receive_does: "does c (start_receive hw) (receive_frames c)"
  unfolding does_def
proof (intro allI impI)
  fix d d' assume c: "lr_config d = c" and run: "start_receive hw d = (True, d')"
  let ?fs = "[set_packet_params hw kMaximumDatagramBytes, clear_irq hw 0xffff, set_irq_mask hw kReceiveIrqs, write_command hw kSetRx [0xff, 0xff, 0xff]]"
  obtain d1 where d1: "all_ok ?fs d = (True, d1)" "d' = d1\<lparr>lr_receiving := True, lr_transmitting := False\<rparr>"
    using start_receive_all [OF run] by auto
  have "list_all2 (does c) ?fs [[packet_frame c 255], [clear_frame 0xffff], [irq_frame kReceiveIrqs], [[kSetRx, 0xff, 0xff, 0xff]]]"
    using set_packet_params_does [of c hw kMaximumDatagramBytes] by (simp add: simple_does write_command_does)
  from doesD [OF all_ok_does [OF this] c d1(1)] obtain rs where "length rs = length (receive_frames c)" "talks (zip (receive_frames c) rs) d d1"
    by (auto simp: receive_frames_def)
  then show "\<exists>rs. length rs = length (receive_frames c) \<and> talks (zip (receive_frames c) rs) d d'"
    using talks_flags d1(2) by blast
qed

text \<open>A call that sends no command to transmit.\<close>

abbreviation no_tx :: "bytes \<Rightarrow> bool" where
  "no_tx t \<equiv> hd t \<noteq> kSetTx"

lemma quiet_sends:
  "sends_only no_tx (set_irq_mask hw m)" "sends_only no_tx (clear_irq hw m)" "sends_only no_tx (set_packet_params hw n)"
  "op \<noteq> kSetTx \<Longrightarrow> sends_only no_tx (write_command hw op data)" "op \<noteq> kSetTx \<Longrightarrow> sends_only no_tx (read_command hw op args k)"
  "sends_only no_tx (write_register hw a data)"
proof -
  show w: "op \<noteq> kSetTx \<Longrightarrow> sends_only no_tx (write_command hw op data)" for op data by (rule write_command_sends) simp
  show "op \<noteq> kSetTx \<Longrightarrow> sends_only no_tx (read_command hw op args k)" by (rule read_command_sends) simp
  show "sends_only no_tx (set_irq_mask hw m)" "sends_only no_tx (clear_irq hw m)"
    unfolding set_irq_mask_def clear_irq_def by (rule w, simp add: opcode_defs)+
  have stay: "\<exists>fr. talks fr d d \<and> list_all (no_tx \<circ> fst) fr" for d :: "'a linux_radio"
    by (intro exI [of _ "[]"]) (simp add: talks_refl)
  have "\<exists>fr. talks fr d d' \<and> list_all (no_tx \<circ> fst) fr" if "write_command hw op data d = (ok, d')" "op \<noteq> kSetTx" for op data d ok d'
    using sendsD [OF w [OF that(2)] that(1)] .
  then show "sends_only no_tx (set_packet_params hw n)" "sends_only no_tx (write_register hw a data)"
    using stay by (auto simp: sends_only_def set_packet_params_def write_register_def Let_def opcode_defs split: if_splits)
qed

lemma start_receive_sends: "sends_only no_tx (start_receive hw)"
  unfolding sends_only_def
proof (intro allI impI)
  fix d x d' assume "start_receive hw d = (x, d')"
  then obtain d1 where d1: "all_ok [set_packet_params hw kMaximumDatagramBytes, clear_irq hw 0xffff, set_irq_mask hw kReceiveIrqs,
     write_command hw kSetRx [0xff, 0xff, 0xff]] d = (x, d1)" "d' = (if x then d1\<lparr>lr_receiving := True, lr_transmitting := False\<rparr> else d1)"
    using start_receive_all by blast
  have s: "sends_only no_tx (all_ok [set_packet_params hw kMaximumDatagramBytes, clear_irq hw 0xffff, set_irq_mask hw kReceiveIrqs,
     write_command hw kSetRx [0xff, 0xff, 0xff]])"
    by (rule all_ok_sends) (simp add: quiet_sends(1-3), rule quiet_sends, simp add: opcode_defs)
  obtain fr where t: "talks fr d d1" "list_all (no_tx \<circ> fst) fr" using sendsD [OF s d1(1)] by blast
  have "talks fr d d'" unfolding d1(2) by (cases x) (simp_all only: if_True if_False talks_flags t)
  then show "\<exists>fr. talks fr d d' \<and> list_all (no_tx \<circ> fst) fr" using t(2) by blast
qed

lemma configure_sends: "sends_only no_tx (configure_radio hw)"
  unfolding sends_only_def
proof (intro allI impI)
  fix d x d' assume run: "configure_radio hw d = (x, d')"
  have "op \<noteq> kSetTx" if "op \<in> {kSetStandby, kSetRegulatorMode, kSetDio3TcxoCtrl, kCalibrate, kCalibrateImage, kSetPacketType, kSetBufferBaseAddress,
      kSetRfFrequency, kSetModulationParams, kSetPaConfig, kSetTxParams}" for op
    using that by (auto simp: opcode_defs)
  then have w: "sends_only no_tx (write_command hw op data)" if "op \<in> {kSetStandby, kSetRegulatorMode, kSetDio3TcxoCtrl, kCalibrate, kCalibrateImage,
      kSetPacketType, kSetBufferBaseAddress, kSetRfFrequency, kSetModulationParams, kSetPaConfig, kSetTxParams}" for op data
    using that quiet_sends(4) by blast
  have "sends_only no_tx (all_ok (configure_commands hw p))" for p
    by (rule all_ok_sends) (simp add: configure_commands_def w quiet_sends(6) start_receive_sends)
  from sendsD [OF this run [unfolded configure_radio_def]] show "\<exists>fr. talks fr d d' \<and> list_all (no_tx \<circ> fst) fr" .
qed

abbreviation read_frame :: "byte \<Rightarrow> bytes \<Rightarrow> nat \<Rightarrow> bytes" where
  "read_frame op args n \<equiv> op # args @ replicate (n + 1) 0"

text \<open>The interrupts in the answer to their query.\<close>

definition irq_of :: "bytes \<Rightarrow> u16" where
  "irq_of x = push_bit 8 (ucast (x ! 2)) OR ucast (x ! 3)"

lemma read_command_Some:
  assumes "read_command hw op args n d = (Some b, d')"
  shows "\<exists>x. talks [(read_frame op args n, x)] d d' \<and> length x = length args + n + 2 \<and> b = take n (drop (length args + 2) x)"
  using read_command_talks [OF assms] by auto

lemma read_irq_talks:
  assumes "read_irq hw d = (r, d')"
  shows "\<exists>fr. talks fr d d' \<and> list_all (no_tx \<circ> fst) fr"
    "r = Some irq \<Longrightarrow> \<exists>x. talks [(read_frame kGetIrqStatus [] 2, x)] d d' \<and> irq = irq_of x"
proof -
  obtain r1 where r1: "read_command hw kGetIrqStatus [] 2 d = (r1, d')" "r = map_option (\<lambda>b. push_bit 8 (ucast (b ! 0)) OR ucast (b ! 1)) r1"
    using assms by (auto simp: read_irq_def split: prod.splits option.splits)
  have "sends_only no_tx (read_command hw kGetIrqStatus [] 2)" by (rule quiet_sends) (simp add: opcode_defs)
  from sendsD [OF this r1(1)] show "\<exists>fr. talks fr d d' \<and> list_all (no_tx \<circ> fst) fr" .
  assume "r = Some irq"
  then obtain b where b: "r1 = Some b" "irq = push_bit 8 (ucast (b ! 0)) OR ucast (b ! 1)" using r1(2) by auto
  then obtain x where x: "talks [(read_frame kGetIrqStatus [] 2, x)] d d'" "length x = length ([] :: bytes) + 2 + 2"
      "b = take 2 (drop (length ([] :: bytes) + 2) x)"
    using read_command_Some [OF r1(1) [unfolded b(1)]] by blast
  then show "\<exists>x. talks [(read_frame kGetIrqStatus [] 2, x)] d d' \<and> irq = irq_of x"
    using b(2) by (intro exI [of _ x]) (simp add: irq_of_def numeral_2_eq_2 numeral_3_eq_3)
qed

definition transmit_commands :: "'h hardware \<Rightarrow> bytes \<Rightarrow> ('h linux_radio \<Rightarrow> bool \<times> 'h linux_radio) list" where
  "transmit_commands hw data =
     [write_command hw kSetStandby [0x00], set_packet_params hw (length data), write_command hw kWriteBuffer (0 # data),
      clear_irq hw 0xffff, set_irq_mask hw kTransmitIrqs, write_command hw kSetTx (shifted_bytes [16, 8, 0] kTxTimeoutUnits)]"

lemma transmit_does: "does c (all_ok (transmit_commands hw data)) (transmit_frames c data)"
proof -
  have "list_all2 (does c) (transmit_commands hw data)
      [[[kSetStandby, 0x00]], [packet_frame c (length data)], [kWriteBuffer # 0 # data], [clear_frame 0xffff], [irq_frame kTransmitIrqs],
       [kSetTx # shifted_bytes [16, 8, 0] kTxTimeoutUnits]]"
    by (simp add: transmit_commands_def simple_does write_command_does set_packet_params_does)
  from all_ok_does [OF this] show ?thesis by (simp add: transmit_frames_def)
qed

lemma transmit_sends: "sends_only (\<lambda>_. True) (all_ok (transmit_commands hw data))"
proof (rule all_ok_sends)
  have weak: "sends_only no_tx f \<Longrightarrow> sends_only (\<lambda>_. True) f" for f :: "'a linux_radio \<Rightarrow> bool \<times> 'a linux_radio"
    unfolding sends_only_def by (metis (no_types, lifting) comp_apply list_all_iff)
  have w: "sends_only (\<lambda>_. True) (write_command hw op b)" for op b by (rule write_command_sends) simp
  show "list_all (sends_only (\<lambda>_. True)) (transmit_commands hw data)"
    by (simp add: transmit_commands_def w weak [OF quiet_sends(1)] weak [OF quiet_sends(2)] weak [OF quiet_sends(3)])
qed

text \<open>What a transmission starts from: the chip is idle and the channel is quieter than the threshold.\<close>

definition channel_free :: "linux_radio_config \<Rightarrow> bytes \<Rightarrow> bytes \<Rightarrow> bool" where
  "channel_free c irq rssi \<longleftrightarrow>
     irq_of irq AND (kIrqPreambleDetected OR kIrqHeaderValid OR kIrqRxDone) = 0 \<and>
     rssi_dbm (rssi ! 2) < lrc_listen_before_talk_threshold_dbm c"

lemma start_cases:
  assumes "try_start_transmit hw data d = (st, d')"
  obtains (no_tx) fr where "talks fr d d'" "list_all (no_tx \<circ> fst) fr" "st \<noteq> StartStarted"
  | (send) b irq rssi d1 ok d2 where "data = Some b" "radio_ready d" "\<not> lr_transmitting d" "0 < length b" "length b \<le> kMaximumDatagramBytes"
      "talks [(read_frame kGetIrqStatus [] 2, irq), (read_frame kGetRssiInst [] 1, rssi)] d d1" "channel_free (lr_config d) irq rssi"
      "all_ok (transmit_commands hw b) d1 = (ok, d2)" "st = (if ok then StartStarted else StartFailed)"
      "d' = (if ok then d2\<lparr>lr_transmitting := True, lr_receiving := False\<rparr> else d2)"
proof (cases "\<not> radio_ready d \<or> data = None \<or> length (the data) = 0 \<or> length (the data) > kMaximumDatagramBytes \<or> lr_transmitting d")
  case True
  then have "d' = d" "st \<noteq> StartStarted" using assms by (auto simp: try_start_transmit_def split: if_splits)
  then show ?thesis using that(1) [of "[]"] talks_refl [of d] by simp
next
  case False
  then obtain b where b: "data = Some b" by auto
  note go = assms [unfolded try_start_transmit_def]
  obtain g d0 where g: "gpio_get hw (lr_irq_descriptor d) d = (g, d0)" by fastforce
  obtain i d1 where i: "read_irq hw d0 = (i, d1)" by fastforce
  obtain q d2 where q: "read_command hw kGetRssiInst [] 1 d1 = (q, d2)" by fastforce
  have t0: "talks [] d d0" by (rule gpio_talks(1) [OF g])
  obtain fr1 where t1: "talks fr1 d d1" "list_all (no_tx \<circ> fst) fr1"
    using read_irq_talks(1) [OF i] talks_trans [OF t0] by fastforce
  have "sends_only no_tx (read_command hw kGetRssiInst [] 1)" by (rule quiet_sends) (simp add: opcode_defs)
  from sendsD [OF this q] obtain fr2 where t2: "talks (fr1 @ fr2) d d2" "list_all (no_tx \<circ> fst) (fr1 @ fr2)"
    using talks_trans [OF t1(1)] t1(2) by auto
  have c2: "lr_config d2 = lr_config d" by (rule talks_fields [OF t2(1)])
  show ?thesis
  proof (cases "\<exists>irq raw. g = Some False \<and> i = Some irq \<and> irq AND (kIrqPreambleDetected OR kIrqHeaderValid OR kIrqRxDone) = 0 \<and>
      q = Some raw \<and> rssi_dbm (raw ! 0) < lrc_listen_before_talk_threshold_dbm (lr_config d2)")
    case True
    then obtain irq raw where x: "g = Some False" "i = Some irq" "irq AND (kIrqPreambleDetected OR kIrqHeaderValid OR kIrqRxDone) = 0"
      "q = Some raw" "rssi_dbm (raw ! 0) < lrc_listen_before_talk_threshold_dbm (lr_config d2)" by blast
    obtain a where a: "talks [(read_frame kGetIrqStatus [] 2, a)] d d1" "irq = irq_of a"
      using read_irq_talks(2) [OF i x(2)] talks_trans [OF t0] by fastforce
    obtain e where e: "talks [(read_frame kGetRssiInst [] 1, e)] d1 d2" "raw = take 1 (drop (length ([] :: bytes) + 2) e)"
        "length e = length ([] :: bytes) + 1 + 2"
      using read_command_Some [OF q [unfolded x(4)]] by blast
    have f: "channel_free (lr_config d) a e" using x e(2,3) a(2) c2 by (simp add: channel_free_def numeral_2_eq_2)
    have t: "talks [(read_frame kGetIrqStatus [] 2, a), (read_frame kGetRssiInst [] 1, e)] d d2"
      using talks_trans [OF a(1) e(1)] by simp
    obtain ok d3 where r: "all_ok (transmit_commands hw b) d2 = (ok, d3)" by fastforce
    have "st = (if ok then StartStarted else StartFailed)" "d' = (if ok then d3\<lparr>lr_transmitting := True, lr_receiving := False\<rparr> else d3)"
      using go False b g i q x r [unfolded transmit_commands_def] by (cases ok; simp del: all_ok.simps)+
    then show ?thesis using that(2) [OF b _ _ _ _ t f r] False b by simp
  next
    case stop: False
    have "st \<noteq> StartStarted \<and> (d' = d0 \<or> d' = d1 \<or> d' = d2)"
    proof (cases "g = Some False \<or> g = Some True")
      case True
      then show ?thesis using go False b g i q stop
        by (cases i; cases q; auto simp del: all_ok.simps split: if_splits)
    next
      case no: False
      then have "g = None" by (cases g) auto
      then show ?thesis using go False b g by simp
    qed
    then show ?thesis using that(1) t0 t1 t2 by fastforce
  qed
qed

lemma listen_again_sends: "sends_only no_tx (listen_again hw irq answer)"
  unfolding sends_only_def
proof (intro allI impI)
  fix d x d' assume run: "listen_again hw irq answer d = (x, d')"
  have s: "sends_only no_tx (all_ok [clear_irq hw irq, start_receive hw])"
    by (rule all_ok_sends) (simp add: quiet_sends start_receive_sends)
  obtain ok d1 where a: "all_ok [clear_irq hw irq, start_receive hw] d = (ok, d1)" by fastforce
  then have "d' = d1" using run by (auto simp: listen_again_def simp del: all_ok.simps split: bool.splits)
  then show "\<exists>fr. talks fr d d' \<and> list_all (no_tx \<circ> fst) fr" using sendsD [OF s a] by simp
qed

lemma listen_again_answer:
  assumes "listen_again hw irq answer d = (a, d')"
  shows "a = poll_answer PollFailed 0 [] \<or> a = answer \<and> lr_receiving d' \<and> \<not> lr_transmitting d' \<and>
    (\<exists>rs. length rs = length (clear_frame irq # receive_frames (lr_config d)) \<and> talks (zip (clear_frame irq # receive_frames (lr_config d)) rs) d d')"
proof -
  obtain ok d1 where r: "all_ok [clear_irq hw irq, start_receive hw] d = (ok, d1)" by fastforce
  show ?thesis
  proof (cases ok)
    case False
    then show ?thesis using assms r by (simp add: listen_again_def del: all_ok.simps)
  next
    case True
    then have eq: "a = answer" "d' = d1" using assms r by (simp_all add: listen_again_def del: all_ok.simps)
    have "list_all2 (does (lr_config d)) [clear_irq hw irq, start_receive hw] [[clear_frame irq], receive_frames (lr_config d)]"
      by (simp add: simple_does start_receive_does)
    moreover have "all_ok [clear_irq hw irq, start_receive hw] d = (True, d1)" using r True by (simp del: all_ok.simps)
    ultimately have
      "\<exists>rs. length rs = length (clear_frame irq # receive_frames (lr_config d)) \<and> talks (zip (clear_frame irq # receive_frames (lr_config d)) rs) d d'"
      using doesD [OF all_ok_does _ _, of "lr_config d" "[clear_irq hw irq, start_receive hw]" "[[clear_frame irq], receive_frames (lr_config d)]" d d1]
        eq(2) by (simp del: all_ok.simps)
    moreover obtain d2 where "start_receive hw d2 = (True, d1)" using r True by (auto split: prod.splits bool.splits)
    then have "lr_receiving d1 \<and> \<not> lr_transmitting d1" using start_receive_all by fastforce
    ultimately show ?thesis using eq by blast
  qed
qed

text \<open>What a packet that is returned was read with: the chip's answers to the queries of its status and of its buffer.\<close>

definition packet_read :: "'h hardware \<Rightarrow> u16 \<Rightarrow> nat \<Rightarrow> 'h linux_radio \<Rightarrow> radio_poll_result \<Rightarrow> 'h linux_radio \<Rightarrow> bool" where
  "packet_read hw irq n d a d' \<longleftrightarrow>
     (\<exists>status fr rs b. talks ((read_frame kGetRxBufferStatus [] 2, status) # fr @ zip (clear_frame irq # receive_frames (lr_config d)) rs) d d' \<and>
        length rs = 5 \<and> lr_receiving d' \<and> \<not> lr_transmitting d' \<and> a = poll_answer PollReceived (unat (status ! 2)) b \<and>
        (if unat (status ! 2) = 0 \<or> unat (status ! 2) > n then b = [] \<and> fr = []
         else \<exists>payload. fr = [(read_frame kReadBuffer [status ! 3] (unat (status ! 2)), payload)] \<and> b = drop 3 payload \<and>
           length payload = unat (status ! 2) + 3))"

lemma listen_quiet:
  assumes "talks fr d dk" "list_all (no_tx \<circ> fst) fr" "listen_again hw irq ans dk = (a, d')"
  shows "\<exists>fr. talks fr d d' \<and> list_all (no_tx \<circ> fst) fr"
proof -
  obtain fr2 where "talks fr2 dk d'" "list_all (no_tx \<circ> fst) fr2" using sendsD [OF listen_again_sends assms(3)] by blast
  then show ?thesis using talks_trans [OF assms(1)] assms(2) by (intro exI [of _ "fr @ fr2"]) simp
qed

lemma packet_done:
  assumes "talks ((read_frame kGetRxBufferStatus [] 2, status) # fr) d d1"
    "listen_again hw irq (poll_answer PollReceived (unat (status ! 2)) b) d1 = (a, d')" "poll_status a = PollReceived"
    "if unat (status ! 2) = 0 \<or> unat (status ! 2) > n then b = [] \<and> fr = []
     else \<exists>payload. fr = [(read_frame kReadBuffer [status ! 3] (unat (status ! 2)), payload)] \<and> b = drop 3 payload \<and>
       length payload = unat (status ! 2) + 3"
  shows "packet_read hw irq n d a d'"
proof -
  obtain rs where l: "a = poll_answer PollReceived (unat (status ! 2)) b" "lr_receiving d'" "\<not> lr_transmitting d'"
    "length rs = length (clear_frame irq # receive_frames (lr_config d1))" "talks (zip (clear_frame irq # receive_frames (lr_config d1)) rs) d1 d'"
    using listen_again_answer [OF assms(2)] assms(3) by (auto simp: poll_answer_def)
  have "lr_config d1 = lr_config d" by (rule talks_fields(1) [OF assms(1)])
  then show ?thesis unfolding packet_read_def using talks_trans [OF assms(1) l(5)] l assms(4)
    by (intro exI [of _ status] exI [of _ fr] exI [of _ rs] exI [of _ b] conjI) (simp_all add: receive_frames_def)
qed

lemma receive_packet_talks:
  assumes "receive_packet hw irq n d = (a, d')"
  shows "\<exists>fr. talks fr d d' \<and> list_all (no_tx \<circ> fst) fr" "poll_status a = PollReceived \<Longrightarrow> packet_read hw irq n d a d'"
proof -
  have "(\<exists>fr. talks fr d d' \<and> list_all (no_tx \<circ> fst) fr) \<and> (poll_status a = PollReceived \<longrightarrow> packet_read hw irq n d a d')"
  proof (cases "read_command hw kGetRxBufferStatus [] 2 d")
    case (Pair q d2)
    have q: "sends_only no_tx (read_command hw op args k)" if "op \<in> {kGetRxBufferStatus, kReadBuffer}" for op args k
    proof (rule quiet_sends(5))
      show "op \<noteq> kSetTx" using that by (auto simp: opcode_defs)
    qed
    obtain fr2 where t2: "talks fr2 d d2" "list_all (no_tx \<circ> fst) fr2" using sendsD [OF q Pair] by auto
    show ?thesis
    proof (cases q)
      case None
      then have "d' = d2" "poll_status a = PollFailed" using assms Pair by (auto simp: receive_packet_def poll_answer_def)
      then show ?thesis using t2 by auto
    next
      case (Some st)
      obtain y where y: "talks [(read_frame kGetRxBufferStatus [] 2, y)] d d2" "length y = length ([] :: bytes) + 2 + 2"
          "st = take 2 (drop (length ([] :: bytes) + 2) y)"
        using read_command_Some [OF Pair [unfolded Some]] by blast
      have st: "st ! 0 = y ! 2" "st ! 1 = y ! 3" using y(2,3) by (simp_all add: numeral_2_eq_2 numeral_3_eq_3)
      let ?n = "unat (y ! 2)"
      show ?thesis
      proof (cases "?n = 0 \<or> ?n > n")
        case True
        then have l: "listen_again hw irq (poll_answer PollReceived ?n []) d2 = (a, d')"
          using assms Pair Some st by (simp add: receive_packet_def Let_def)
        then show ?thesis using listen_quiet [OF t2 l] packet_done [OF y(1) l, of n] True by auto
      next
        case room: False
        obtain p d3 where p: "read_command hw kReadBuffer [y ! 3] ?n d2 = (p, d3)" by fastforce
        obtain fr3 where t3: "talks (fr2 @ fr3) d d3" "list_all (no_tx \<circ> fst) (fr2 @ fr3)"
          using sendsD [OF q p] talks_trans [OF t2(1)] t2(2) by auto
        show ?thesis
        proof (cases p)
          case None
          then have "d' = d3" "poll_status a = PollFailed"
            using assms Pair Some st room p by (auto simp: receive_packet_def poll_answer_def Let_def)
          then show ?thesis using t3 by auto
        next
          case (Some z)
          obtain w where w: "talks [(read_frame kReadBuffer [y ! 3] ?n, w)] d2 d3" "length w = length [y ! 3] + ?n + 2"
              "z = take ?n (drop (length [y ! 3] + 2) w)"
            using read_command_Some [OF p [unfolded Some]] by blast
          have l: "listen_again hw irq (poll_answer PollReceived ?n (drop 3 w)) d3 = (a, d')"
            using assms Pair \<open>q = Some st\<close> st room p Some w by (simp add: receive_packet_def Let_def numeral_3_eq_3)
          have "talks ((read_frame kGetRxBufferStatus [] 2, y) # [(read_frame kReadBuffer [y ! 3] ?n, w)]) d d3"
            using talks_trans [OF y(1) w(1)] by simp
          from packet_done [OF this l, of n] have "poll_status a = PollReceived \<longrightarrow> packet_read hw irq n d a d'" using room w(2) by simp
          then show ?thesis using listen_quiet [OF t3 l] by blast
        qed
      qed
    qed
  qed
  then show "\<exists>fr. talks fr d d' \<and> list_all (no_tx \<circ> fst) fr" "poll_status a = PollReceived \<Longrightarrow> packet_read hw irq n d a d'" by blast+
qed

text \<open>A poll talks to the chip without asking it to transmit.\<close>

lemma poll_talks:
  assumes "radio_poll hw dest d = (a, d')"
  shows "\<exists>fr. talks fr d d' \<and> list_all (no_tx \<circ> fst) fr"
    "poll_status a = PollReceived \<Longrightarrow> \<exists>n irq d1. dest = Some n \<and> radio_ready d \<and> talks [(read_frame kGetIrqStatus [] 2, irq)] d d1 \<and>
       irq_of irq AND kIrqRxDone \<noteq> 0 \<and> irq_of irq AND (kIrqHeaderError OR kIrqCrcError) = 0 \<and> packet_read hw (irq_of irq) n d1 a d'"
proof -
  obtain g d0 where g: "gpio_get hw (lr_irq_descriptor d) d = (g, d0)" by fastforce
  obtain i d1 where i: "read_irq hw d0 = (i, d1)" by fastforce
  have t0: "talks [] d d0" by (rule gpio_talks(1) [OF g])
  obtain fr1 where t1: "talks fr1 d d1" "list_all (no_tx \<circ> fst) fr1" using read_irq_talks(1) [OF i] talks_trans [OF t0] by fastforce
  consider (stay) "d' = d \<or> d' = d0 \<or> d' = d1" "poll_status a \<noteq> PollReceived"
    | (again) irq ans where "listen_again hw irq ans d1 = (a, d')" "poll_status ans \<noteq> PollReceived"
    | (packet) n irq where "dest = Some n" "radio_ready d" "i = Some irq" "irq AND kIrqRxDone \<noteq> 0"
        "irq AND (kIrqHeaderError OR kIrqCrcError) = 0" "receive_packet hw irq n d1 = (a, d')"
  proof -
    note run = assms [unfolded radio_poll_def]
    show thesis
    proof (cases "\<not> radio_ready d \<or> dest = None \<or> the dest = 0 \<or> g \<noteq> Some True \<or> i = None")
      case True
      then have "(d' = d \<or> d' = d0 \<or> d' = d1) \<and> poll_status a \<noteq> PollReceived"
        using run g i by (auto simp: poll_answer_def split: if_splits option.splits bool.splits)
      then show ?thesis using stay by blast
    next
      case False
      then obtain n irq where x: "dest = Some n" "n \<noteq> 0" "radio_ready d" "g = Some True" "i = Some irq" by auto
      show ?thesis using run g i x packet [of n irq] again [of irq] stay
        by (auto simp: poll_answer_def split: if_splits)
    qed
  qed
  then have "(\<exists>fr. talks fr d d' \<and> list_all (no_tx \<circ> fst) fr) \<and> (poll_status a = PollReceived \<longrightarrow> (\<exists>n irq d1. dest = Some n \<and> radio_ready d \<and>
     talks [(read_frame kGetIrqStatus [] 2, irq)] d d1 \<and> irq_of irq AND kIrqRxDone \<noteq> 0 \<and> irq_of irq AND (kIrqHeaderError OR kIrqCrcError) = 0 \<and>
     packet_read hw (irq_of irq) n d1 a d'))"
  proof cases
    case stay
    then show ?thesis using talks_refl [of d] t0 t1 by (auto intro: exI [of _ "[]"])
  next
    case (again irq ans)
    then show ?thesis using listen_quiet [OF t1 again(1)] listen_again_answer [OF again(1)] by (auto simp: poll_answer_def)
  next
    case (packet n irq)
    obtain x where x: "talks [(read_frame kGetIrqStatus [] 2, x)] d d1" "irq = irq_of x"
      using read_irq_talks(2) [OF i packet(3)] talks_trans [OF t0] by fastforce
    obtain fr2 where "talks fr2 d1 d'" "list_all (no_tx \<circ> fst) fr2" using receive_packet_talks(1) [OF packet(6)] by blast
    then have "\<exists>fr. talks fr d d' \<and> list_all (no_tx \<circ> fst) fr"
      using talks_trans [OF t1(1)] t1(2) by (intro exI [of _ "fr1 @ fr2"]) simp
    moreover note receive_packet_talks(2) [OF packet(6)]
    ultimately show ?thesis using packet x by blast
  qed
  then show "\<exists>fr. talks fr d d' \<and> list_all (no_tx \<circ> fst) fr"
    "poll_status a = PollReceived \<Longrightarrow> \<exists>n irq d1. dest = Some n \<and> radio_ready d \<and> talks [(read_frame kGetIrqStatus [] 2, irq)] d d1 \<and>
       irq_of irq AND kIrqRxDone \<noteq> 0 \<and> irq_of irq AND (kIrqHeaderError OR kIrqCrcError) = 0 \<and> packet_read hw (irq_of irq) n d1 a d'"
    by blast+
qed

end
