(* ===== verification/Adapter_Radio_Laws.thy ===== *)
theory Adapter_Radio_Laws
  imports Adapter_Radio_Device
begin

text \<open>
  The laws of the radio device over whole runs: what is on the bus before a transmission, that the descriptors are released, what a
  transmission sends and what a poll returns, for any behaviour of the hardware. The last sections have a concrete hardware for the
  examples, and the properties.
\<close>

unbundle bit_operations_syntax

abbreviation spi_ops :: "(bytes \<times> bytes) list \<Rightarrow> bus_op list" where
  "spi_ops fr \<equiv> map (\<lambda>(t, r). SpiDone t r) fr"

text \<open>The frames of the configuration, and that a log has all of them, one after the other.\<close>

definition configure_frames :: "linux_radio_config \<Rightarrow> bytes list" where
  "configure_frames c =
     (let p = lrc_profile c
      in [[kSetStandby, 0x00], [kSetRegulatorMode, 0x01], kSetDio3TcxoCtrl # 0x06 # shifted_bytes [16, 8, 0] kTcxoDelayUnits, [kCalibrate, 0x7f],
          [kCalibrateImage, 0xe1, 0xe9], [kSetPacketType, 0x01], [kSetBufferBaseAddress, 0, 0],
          kSetRfFrequency # shifted_bytes [24, 16, 8, 0] (frequency_word (frequency_hz p)),
          [kSetModulationParams, spreading_factor p, 0x04, coding_rate_denominator p - 4, if spreading_factor p \<ge> 11 then 1 else 0],
          [kSetPaConfig, 0x04, 0x07, 0x00, 0x01], [kSetTxParams, transmit_power_dbm p, 0x04], [kWriteRegister, 0x08, 0xe7, 0x38],
          [kWriteRegister, 0x07, 0x40, (sync_word p AND 0xf0) OR 0x04, push_bit 4 (sync_word p) OR 0x04]] @ receive_frames c)"

definition configured :: "linux_radio_config \<Rightarrow> bus_op list \<Rightarrow> bool" where
  "configured c l \<longleftrightarrow> (\<exists>pre rs post. l = pre @ spi_ops (zip (configure_frames c) rs) @ post \<and> length rs = length (configure_frames c))"

lemma configured_append: "configured c l \<Longrightarrow> configured c (l @ m)"
  unfolding configured_def by (metis append_assoc)

lemma write_register_does:
  "does c (write_register hw a b) [kWriteRegister # ucast (drop_bit 8 a) # ucast (a AND 0xff) # b]"
  unfolding does_def
proof (intro allI impI)
  fix d d' assume c: "lr_config d = c" and run: "write_register hw a b d = (True, d')"
  then have "write_command hw kWriteRegister (ucast (drop_bit 8 a) # ucast (a AND 0xff) # b) d = (True, d')"
    by (simp add: write_register_def split: if_splits)
  from doesD [OF write_command_does c this]
  show "\<exists>rs. length rs = length [kWriteRegister # ucast (drop_bit 8 a) # ucast (a AND 0xff) # b] \<and>
    talks (zip [kWriteRegister # ucast (drop_bit 8 a) # ucast (a AND 0xff) # b] rs) d d'" .
qed

lemma configure_does: "does c (all_ok (configure_commands hw (lrc_profile c))) (configure_frames c)"
proof -
  define frs where "frs = (map (\<lambda>t. [t]) (take 13 (configure_frames c)) @ [receive_frames c])"
  have r: "[kWriteRegister, 0x08, 0xe7, 0x38] = kWriteRegister # ucast (drop_bit 8 kOcpRegister) # ucast (kOcpRegister AND 0xff) # [0x38]"
    "[kWriteRegister, 0x07, 0x40, x, y] = kWriteRegister # ucast (drop_bit 8 kLoRaSyncWordRegister) # ucast (kLoRaSyncWordRegister AND 0xff) # [x, y]"
    for x y by (simp_all add: kOcpRegister_def kLoRaSyncWordRegister_def)
  have "list_all2 (does c) (configure_commands hw (lrc_profile c)) frs"
    unfolding frs_def configure_commands_def configure_frames_def Let_def r
    by (simp add: write_command_does write_register_does start_receive_does)
  moreover have "concat frs = configure_frames c" by (simp add: frs_def configure_frames_def Let_def)
  ultimately show ?thesis using all_ok_does by metis
qed

lemma configure_configures:
  assumes "lr_config d = c" "configure_radio hw d = (True, d')"
  shows "configured c (lr_log d')"
proof -
  have "all_ok (configure_commands hw (lrc_profile c)) d = (True, d')" using assms by (simp add: configure_radio_def)
  from doesD [OF configure_does assms(1) this] obtain rs where rs: "length rs = length (configure_frames c)"
    "talks (zip (configure_frames c) rs) d d'" by blast
  show ?thesis unfolding configured_def
    by (rule exI [of _ "lr_log d"], rule exI [of _ rs], rule exI [of _ "[]"]) (simp add: rs(1) talks_fields(10) [OF rs(2)])
qed

section \<open>The antenna and the descriptors\<close>

text \<open>The level of the antenna switch after the operations of a log, and that every command to transmit was given with it on and the whole
  configuration sent.\<close>

fun antenna_step :: "bool \<Rightarrow> bus_op \<Rightarrow> bool" where
  "antenna_step on (I2cWrote a b) = (if a = kPi4ioOutput then b AND kAntennaSwitchBit \<noteq> 0 else on)"
| "antenna_step on _ = on"

definition antenna_on :: "bus_op list \<Rightarrow> bool" where
  "antenna_on l = foldl antenna_step False l"

definition armed :: "linux_radio_config \<Rightarrow> bus_op list \<Rightarrow> bool" where
  "armed c l \<longleftrightarrow> antenna_on l \<and> configured c l"

definition transmits_armed :: "linux_radio_config \<Rightarrow> bus_op list \<Rightarrow> bool" where
  "transmits_armed c l \<longleftrightarrow> (\<forall>pre t r post. l = pre @ SpiDone t r # post \<longrightarrow> hd t = kSetTx \<longrightarrow> armed c pre)"

text \<open>The descriptors opened and closed so far.\<close>

fun opened_fds :: "bus_op list \<Rightarrow> int list" where
  "opened_fds [] = []"
| "opened_fds (Opened fd # l) = fd # opened_fds l"
| "opened_fds (_ # l) = opened_fds l"

fun closed_fds :: "bus_op list \<Rightarrow> int list" where
  "closed_fds [] = []"
| "closed_fds (Closed fd # l) = fd # closed_fds l"
| "closed_fds (_ # l) = closed_fds l"

lemma opened_append [simp]: "opened_fds (l @ m) = opened_fds l @ opened_fds m"
  by (induction l rule: opened_fds.induct) simp_all

lemma closed_append [simp]: "closed_fds (l @ m) = closed_fds l @ closed_fds m"
  by (induction l rule: closed_fds.induct) simp_all

lemma spi_ops_fds [simp]: "opened_fds (spi_ops fr) = []" "closed_fds (spi_ops fr) = []"
  by (induction fr) auto

lemma antenna_on_spi [simp]: "antenna_on (l @ spi_ops fr) = antenna_on l"
proof -
  have "foldl antenna_step s (spi_ops fr) = s" for s by (induction fr) auto
  then show ?thesis by (simp add: antenna_on_def)
qed

lemma antenna_on_snoc [simp]:
  "antenna_on (l @ [I2cWrote a b]) = (if a = kPi4ioOutput then b AND kAntennaSwitchBit \<noteq> 0 else antenna_on l)"
  "antenna_on (l @ [Opened fd]) = antenna_on l" "antenna_on (l @ [Closed fd]) = antenna_on l"
  by (simp_all add: antenna_on_def)

lemma armed_spi: "armed c l \<Longrightarrow> armed c (l @ spi_ops fr)"
  by (simp add: armed_def configured_append)

lemma transmits_snoc:
  "transmits_armed c (l @ [x]) \<longleftrightarrow>
     transmits_armed c l \<and> (case x of SpiDone t r \<Rightarrow> hd t = kSetTx \<longrightarrow> armed c l | _ \<Rightarrow> True)"
proof
  assume a: "transmits_armed c (l @ [x])"
  have "transmits_armed c l" unfolding transmits_armed_def
  proof (intro allI impI)
    fix pre t r post assume "l = pre @ SpiDone t r # post" "hd t = kSetTx"
    then show "armed c pre" using a unfolding transmits_armed_def by (metis append_Cons append_assoc)
  qed
  moreover have "hd t = kSetTx \<longrightarrow> armed c l" if "x = SpiDone t r" for t r
    using a that unfolding transmits_armed_def by blast
  ultimately show "transmits_armed c l \<and> (case x of SpiDone t r \<Rightarrow> hd t = kSetTx \<longrightarrow> armed c l | _ \<Rightarrow> True)"
    by (auto split: bus_op.split)
next
  assume a: "transmits_armed c l \<and> (case x of SpiDone t r \<Rightarrow> hd t = kSetTx \<longrightarrow> armed c l | _ \<Rightarrow> True)"
  show "transmits_armed c (l @ [x])" unfolding transmits_armed_def
  proof (intro allI impI)
    fix pre t r post assume e: "l @ [x] = pre @ SpiDone t r # post" "hd t = kSetTx"
    show "armed c pre"
    proof (cases post rule: rev_cases)
      case Nil
      then show ?thesis using e a by auto
    next
      case (snoc p y)
      then have "l = pre @ SpiDone t r # p" using e(1) by simp
      then show ?thesis using a e(2) unfolding transmits_armed_def by blast
    qed
  qed
qed

lemma transmits_spi:
  "transmits_armed c l \<Longrightarrow> list_all (no_tx \<circ> fst) fr \<or> armed c l \<Longrightarrow> transmits_armed c (l @ spi_ops fr)"
proof (induction fr rule: rev_induct)
  case (snoc x fr)
  obtain t r where x: "x = (t, r)" by (cases x)
  have "transmits_armed c (l @ spi_ops fr)" using snoc by auto
  then have "transmits_armed c ((l @ spi_ops fr) @ [SpiDone t r])"
    unfolding transmits_snoc using snoc.prems x armed_spi [of c l fr] by auto
  then show ?case by (simp add: x)
qed simp

text \<open>Whether a command to transmit was given.\<close>

definition transmitted :: "bus_op list \<Rightarrow> bool" where
  "transmitted l \<longleftrightarrow> (\<exists>t r. SpiDone t r \<in> set l \<and> hd t = kSetTx)"

lemma transmitted_append [simp]: "transmitted (l @ m) \<longleftrightarrow> transmitted l \<or> transmitted m"
  by (auto simp: transmitted_def)

lemma transmitted_spi: "list_all (no_tx \<circ> fst) fr \<Longrightarrow> \<not> transmitted (spi_ops fr)"
  by (auto simp: transmitted_def list_all_iff)

definition held :: "'h linux_radio \<Rightarrow> int list" where
  "held d = filter (\<lambda>fd. 0 \<le> fd) [lr_reset_descriptor d, lr_irq_descriptor d, lr_busy_descriptor d, lr_spi_descriptor d, lr_i2c_descriptor d]"

definition balanced :: "int list \<Rightarrow> 'h linux_radio \<Rightarrow> bool" where
  "balanced extra d \<longleftrightarrow> mset (opened_fds (lr_log d)) = mset (closed_fds (lr_log d)) + mset (held d) + mset extra"

definition radio_inv :: "'h linux_radio \<Rightarrow> bool" where
  "radio_inv d \<longleftrightarrow>
     transmits_armed (lr_config d) (lr_log d) \<and> (lr_antenna_switch_enabled d \<longrightarrow> antenna_on (lr_log d)) \<and>
     (transmitted (lr_log d) \<longrightarrow> linux_radio_config_valid (lr_config d)) \<and>
     (lr_initialized d \<longrightarrow> lr_antenna_switch_enabled d \<and> configured (lr_config d) (lr_log d) \<and> linux_radio_config_valid (lr_config d))"

lemma talks_inv:
  assumes "radio_inv d" "talks fr d d'" "list_all (no_tx \<circ> fst) fr \<or> lr_initialized d"
  shows "radio_inv d'" "balanced ex d' = balanced ex d"
proof -
  note f = talks_fields [OF assms(2)]
  have "armed (lr_config d) (lr_log d)" if "\<not> list_all (no_tx \<circ> fst) fr" using that assms(1,3) by (auto simp: radio_inv_def armed_def)
  then have "transmits_armed (lr_config d) (lr_log d')"
    using assms(1) transmits_spi [of "lr_config d" "lr_log d" fr] by (auto simp: f(10) radio_inv_def)
  moreover have "transmitted (lr_log d') \<longrightarrow> linux_radio_config_valid (lr_config d)"
    using assms(1,3) transmitted_spi [of fr] by (auto simp: f(10) radio_inv_def)
  ultimately show "radio_inv d'" using assms(1) configured_append by (simp add: radio_inv_def f)
  show "balanced ex d' = balanced ex d" by (simp add: balanced_def held_def f)
qed

text \<open>Calls on the I2C bus write registers and nothing else.\<close>

definition i2c_writes :: "(byte \<times> byte) list \<Rightarrow> 'h linux_radio \<Rightarrow> 'h linux_radio \<Rightarrow> bool" where
  "i2c_writes ws d d' \<longleftrightarrow> (\<exists>h. d' = d\<lparr>lr_hw := h, lr_log := lr_log d @ map (\<lambda>(a, b). I2cWrote a b) ws\<rparr>)"

lemma i2c_writes_trans: "i2c_writes ws d d' \<Longrightarrow> i2c_writes ws' d' d'' \<Longrightarrow> i2c_writes (ws @ ws') d d''"
  by (auto simp: i2c_writes_def)

lemma i2c_writes_nil: "i2c_writes [] d (d\<lparr>lr_hw := h\<rparr>)"
proof -
  have "d\<lparr>lr_hw := h\<rparr> = d\<lparr>lr_hw := h, lr_log := lr_log d @ map (\<lambda>(a, b). I2cWrote a b) []\<rparr>" by simp
  then show ?thesis unfolding i2c_writes_def by blast
qed

lemma update_i2c_writes:
  assumes "update_i2c_register hw a s c d = (ok, d')"
  shows "\<exists>ws. i2c_writes ws d d' \<and> (ok \<longrightarrow> (\<exists>r. ws = [(a, (r OR s) AND NOT c)]))"
proof -
  obtain r h where r: "hw_i2c_read hw (lr_i2c_descriptor d) a (lr_hw d) = (r, h)" by fastforce
  show ?thesis
  proof (cases r)
    case None
    then have "\<not> ok" "d' = d\<lparr>lr_hw := h\<rparr>" using assms r by (simp_all add: update_i2c_register_def i2c_read_register_def)
    then show ?thesis using i2c_writes_nil [of d h] by blast
  next
    case (Some x)
    let ?v = "(x OR s) AND NOT c"
    obtain b h2 where w: "hw_i2c_write hw (lr_i2c_descriptor d) a ?v h = (b, h2)" by fastforce
    then have e: "ok = b" "d' = d\<lparr>lr_hw := h2, lr_log := lr_log d @ map (\<lambda>(a, b). I2cWrote a b) (if b then [(a, ?v)] else [])\<rparr>"
      using assms r Some by (auto simp: update_i2c_register_def i2c_read_register_def i2c_write_register_def)
    then have "i2c_writes (if b then [(a, ?v)] else []) d d'" unfolding i2c_writes_def by blast
    then show ?thesis using e(1) by auto
  qed
qed

lemma device_id_writes: "device_id_present hw d = (ok, d') \<Longrightarrow> i2c_writes [] d d'"
  by (auto simp: device_id_present_def i2c_read_register_def intro: i2c_writes_nil split: prod.splits option.splits)

lemma antenna_switch_on:
  assumes "set_antenna_switch hw True d = (ok, d')"
  shows "\<exists>ws d1. i2c_writes ws d d1 \<and> d' = (if ok then d1\<lparr>lr_antenna_switch_enabled := True\<rparr> else d1) \<and> (ok \<longrightarrow> antenna_on (lr_log d1))"
proof (cases "lr_i2c_descriptor d < 0")
  case True
  then show ?thesis using assms i2c_writes_nil [of d "lr_hw d"] by (auto simp: set_antenna_switch_def)
next
  case False
  obtain a d1 where 1: "device_id_present hw d = (a, d1)" by fastforce
  obtain b d2 where 2: "update_i2c_register hw kPi4ioDirection kAntennaSwitchBit 0 d1 = (b, d2)" by fastforce
  obtain c d3 where 3: "update_i2c_register hw kPi4ioHighImpedance 0 kAntennaSwitchBit d2 = (c, d3)" by fastforce
  obtain e d4 where 4: "update_i2c_register hw kPi4ioOutput kAntennaSwitchBit 0 d3 = (e, d4)" by fastforce
  have w1: "i2c_writes [] d d1" by (rule device_id_writes [OF 1])
  obtain ws2 where w2: "i2c_writes ws2 d d2" using update_i2c_writes [OF 2] i2c_writes_trans [OF w1] by fastforce
  obtain ws3 where w3: "i2c_writes ws3 d d3" using update_i2c_writes [OF 3] i2c_writes_trans [OF w2] by fastforce
  obtain ws4 where w4: "i2c_writes ws4 d3 d4" "e \<longrightarrow> (\<exists>r. ws4 = [(kPi4ioOutput, (r OR kAntennaSwitchBit) AND NOT 0)])"
    using update_i2c_writes [OF 4] by blast
  have on: "antenna_on (lr_log d4)" if ok: e
  proof -
    obtain r where "ws4 = [(kPi4ioOutput, (r OR kAntennaSwitchBit) AND NOT 0)]" using w4(2) ok by blast
    moreover have "(r OR 1) AND 1 \<noteq> (0 :: byte)" by (simp add: bit_simps bit_eq_iff) (rule exI [of _ 0], simp)
    ultimately show ?thesis using w4(1) by (auto simp: i2c_writes_def kAntennaSwitchBit_def)
  qed
  have "(if a \<and> b \<and> c \<and> e then d' = d4\<lparr>lr_antenna_switch_enabled := True\<rparr> \<and> ok else \<not> ok \<and> d' \<in> {d1, d2, d3, d4})"
    using assms False 1 2 3 4 by (auto simp: set_antenna_switch_def split: prod.splits bool.splits if_splits)
  then show ?thesis using w1 w2 w3 i2c_writes_trans [OF w3 w4(1)] on by (auto split: if_splits)
qed

lemma antenna_switch_off:
  assumes "set_antenna_switch hw False d = (ok, d')"
  shows "\<exists>ws d1. i2c_writes ws d d1 \<and> (d' = d1 \<or> d' = d1\<lparr>lr_antenna_switch_enabled := False\<rparr>) \<and> (lr_antenna_switch_enabled d' \<longrightarrow> d' = d)"
proof (cases "lr_i2c_descriptor d < 0")
  case True
  then have "d' = d" using assms by (simp add: set_antenna_switch_def)
  then show ?thesis using i2c_writes_nil [of d "lr_hw d"] by auto
next
  case False
  obtain b d1 where u: "update_i2c_register hw kPi4ioOutput 0 kAntennaSwitchBit d = (b, d1)" by fastforce
  then have d': "d' = d1\<lparr>lr_antenna_switch_enabled := False\<rparr>" using assms False by (simp add: set_antenna_switch_def)
  obtain ws where "i2c_writes ws d d1" using update_i2c_writes [OF u] by blast
  then show ?thesis by (intro exI [of _ ws] exI [of _ d1]) (simp add: d')
qed

lemma i2c_ops_fds [simp]: "opened_fds (map (\<lambda>(a, b). I2cWrote a b) ws) = []" "closed_fds (map (\<lambda>(a, b). I2cWrote a b) ws) = []"
  by (induction ws) auto

lemma i2c_keeps:
  assumes "i2c_writes ws d d'"
  shows "transmits_armed (lr_config d) (lr_log d) \<Longrightarrow> transmits_armed (lr_config d') (lr_log d')" "transmitted (lr_log d') = transmitted (lr_log d)"
    "balanced ex d' = balanced ex d" "lr_config d' = lr_config d" "lr_initialized d' = lr_initialized d" "lr_closed d' = lr_closed d"
    "lr_antenna_switch_enabled d' = lr_antenna_switch_enabled d" "held d' = held d"
proof -
  have t: "transmits_armed c (l @ map (\<lambda>(a, b). I2cWrote a b) ws) \<longleftrightarrow> transmits_armed c l" for c l
  proof (induction ws rule: rev_induct)
    case (snoc x ws)
    obtain a b where "x = (a, b)" by (cases x)
    then show ?case using snoc transmits_snoc [of c "l @ map (\<lambda>(a, b). I2cWrote a b) ws" "I2cWrote a b"] by simp
  qed simp
  obtain h where d': "d' = d\<lparr>lr_hw := h, lr_log := lr_log d @ map (\<lambda>(a, b). I2cWrote a b) ws\<rparr>" using assms by (auto simp: i2c_writes_def)
  show "transmits_armed (lr_config d) (lr_log d) \<Longrightarrow> transmits_armed (lr_config d') (lr_log d')" by (simp add: d' t)
  have "\<not> transmitted (map (\<lambda>(a, b). I2cWrote a b) ws)" by (auto simp: transmitted_def)
  then show "transmitted (lr_log d') = transmitted (lr_log d)" by (simp add: d')
  show "balanced ex d' = balanced ex d" "lr_config d' = lr_config d" "lr_initialized d' = lr_initialized d" "lr_closed d' = lr_closed d"
    "lr_antenna_switch_enabled d' = lr_antenna_switch_enabled d" "held d' = held d"
    by (simp_all add: d' balanced_def held_def)
qed

lemma balanced_switch [simp]: "balanced ex (d\<lparr>lr_antenna_switch_enabled := b\<rparr>) = balanced ex d"
  by (simp add: balanced_def held_def)

section \<open>Shutting down\<close>

lemma transmitted_fds [simp]: "\<not> transmitted (map Closed fds)" "\<not> transmitted (map Opened fds)"
  by (auto simp: transmitted_def)

lemma antenna_on_closed [simp]: "antenna_on (l @ map Closed fds) = antenna_on l"
proof (induction fds rule: rev_induct)
  case (snoc x fds)
  then show ?case using antenna_on_snoc(3) [of "l @ map Closed fds" x] by simp
qed simp

lemma closes_log:
  "transmits_armed c (l @ map Closed fds) \<longleftrightarrow> transmits_armed c l"
  "opened_fds (map Closed fds) = []" "closed_fds (map Closed fds) = fds"
proof -
  show "transmits_armed c (l @ map Closed fds) \<longleftrightarrow> transmits_armed c l"
  proof (induction fds rule: rev_induct)
    case (snoc x fds)
    then show ?case using transmits_snoc [of c "l @ map Closed fds" "Closed x"] by simp
  qed simp
  show "opened_fds (map Closed fds) = []" "closed_fds (map Closed fds) = fds" by (induction fds) simp_all
qed

lemma close_descriptor_log: "close_descriptor fd d = d\<lparr>lr_log := lr_log d @ map Closed (filter (\<lambda>fd. 0 \<le> fd) [fd])\<rparr>"
  by (simp add: close_descriptor_def)

lemma held_split:
  "held d = filter (\<lambda>fd. 0 \<le> fd) [lr_reset_descriptor d] @ filter (\<lambda>fd. 0 \<le> fd) [lr_irq_descriptor d] @
     filter (\<lambda>fd. 0 \<le> fd) [lr_busy_descriptor d] @ filter (\<lambda>fd. 0 \<le> fd) [lr_spi_descriptor d] @ filter (\<lambda>fd. 0 \<le> fd) [lr_i2c_descriptor d]"
  by (simp add: held_def)

lemma shutdown_ends:
  assumes "radio_inv d" "balanced ex d" "\<not> lr_closed d"
  shows "radio_inv (radio_shutdown hw d)" "balanced ex (radio_shutdown hw d)" "held (radio_shutdown hw d) = []"
    "lr_closed (radio_shutdown hw d)" "\<not> lr_initialized (radio_shutdown hw d)" "lr_config (radio_shutdown hw d) = lr_config d"
proof -
  define d1 where "d1 = (if lr_spi_descriptor d \<ge> 0 \<and> lr_busy_descriptor d \<ge> 0 \<and> lr_initialized d then snd (write_command hw kSetSleep [0x00] d) else d)"
  define d2 where "d2 = (if lr_antenna_switch_enabled d1 then snd (set_antenna_switch hw False d1) else d1)"
  let ?d = "radio_shutdown hw d"
  have out: "lr_log ?d = lr_log d2 @ map Closed (held d2)" "lr_config ?d = lr_config d2" "held ?d = []" "lr_closed ?d" "\<not> lr_initialized ?d"
    "lr_antenna_switch_enabled ?d = lr_antenna_switch_enabled d2"
    unfolding radio_shutdown_def Let_def d1_def [symmetric] d2_def [symmetric]
    using assms(3) by (simp_all add: close_descriptor_log held_split del: filter.simps)
  have "sends_only no_tx (write_command hw kSetSleep [0x00])" by (rule quiet_sends) (simp add: opcode_defs)
  then have "\<exists>fr. talks fr d (snd (write_command hw kSetSleep [0x00] d)) \<and> list_all (no_tx \<circ> fst) fr" by (rule sendsD) (rule prod.collapse [symmetric])
  then have 1: "radio_inv d1" "balanced ex d1" "lr_config d1 = lr_config d"
    using assms talks_inv [OF assms(1)] talks_fields(1) by (auto simp: d1_def)
  obtain ws e where e: "i2c_writes ws d1 e" "d2 = e \<or> d2 = e\<lparr>lr_antenna_switch_enabled := False\<rparr>" "lr_antenna_switch_enabled d2 \<longrightarrow> d2 = d1"
    using antenna_switch_off [of hw d1 "fst (set_antenna_switch hw False d1)" d2] i2c_writes_nil [of d1 "lr_hw d1"]
    unfolding d2_def by (cases "lr_antenna_switch_enabled d1") auto
  note k = i2c_keeps [OF e(1)]
  have 2: "transmits_armed (lr_config d2) (lr_log d2)" "transmitted (lr_log d2) \<longrightarrow> linux_radio_config_valid (lr_config d2)" "balanced ex d2"
    "lr_config d2 = lr_config d" "lr_antenna_switch_enabled d2 \<longrightarrow> antenna_on (lr_log d2)"
  proof -
      have same: "lr_log d2 = lr_log e" "lr_config d2 = lr_config e" "balanced ex d2 = balanced ex e"
        using e(2) by (elim disjE; simp)+
      have i: "transmits_armed (lr_config d1) (lr_log d1)" "transmitted (lr_log d1) \<longrightarrow> linux_radio_config_valid (lr_config d1)"
        "lr_antenna_switch_enabled d1 \<longrightarrow> antenna_on (lr_log d1)" using 1(1) unfolding radio_inv_def by blast+
      show "transmits_armed (lr_config d2) (lr_log d2)" unfolding same k(4) by (rule k(1) [OF i(1), unfolded k(4)])
      show "transmitted (lr_log d2) \<longrightarrow> linux_radio_config_valid (lr_config d2)" unfolding same k(2,4) by (rule i(2))
      show "balanced ex d2" unfolding same k(3) by (rule 1(2))
      show "lr_config d2 = lr_config d" unfolding same k(4) by (rule 1(3))
      show "lr_antenna_switch_enabled d2 \<longrightarrow> antenna_on (lr_log d2)"
      proof
        assume on: "lr_antenna_switch_enabled d2"
        then have "d2 = d1" using e(3) by blast
        then show "antenna_on (lr_log d2)" using i(3) on by simp
      qed
  qed
  show "radio_inv ?d" using 2 out by (simp add: radio_inv_def closes_log)
  show "balanced ex ?d" using 2(3) out by (simp add: balanced_def closes_log)
  show "held ?d = []" "lr_closed ?d" "\<not> lr_initialized ?d" "lr_config ?d = lr_config d" using out 2 by simp_all
qed

section \<open>Opening\<close>

text \<open>Calls that may open descriptors and nothing else.\<close>

definition opens :: "int list \<Rightarrow> 'h linux_radio \<Rightarrow> 'h linux_radio \<Rightarrow> bool" where
  "opens fds d d' \<longleftrightarrow> (\<exists>h. d' = d\<lparr>lr_hw := h, lr_log := lr_log d @ map Opened fds\<rparr>)"

lemma open_opens:
  "open_device hw path d = (fd, d') \<Longrightarrow> opens (filter (\<lambda>fd. 0 \<le> fd) [fd]) d d'"
  "request_gpio hw chip off out hi d = (fd, d') \<Longrightarrow> opens (filter (\<lambda>fd. 0 \<le> fd) [fd]) d d'"
  by (auto simp: open_device_def request_gpio_def opens_def split: prod.splits)

lemma opened_log:
  "transmits_armed c (l @ map Opened fds) \<longleftrightarrow> transmits_armed c l" "antenna_on (l @ map Opened fds) = antenna_on l"
  "opened_fds (map Opened fds) = fds" "closed_fds (map Opened fds) = []"
proof -
  show "transmits_armed c (l @ map Opened fds) \<longleftrightarrow> transmits_armed c l"
  proof (induction fds rule: rev_induct)
    case (snoc x fds)
    then show ?case using transmits_snoc [of c "l @ map Opened fds" "Opened x"] by simp
  qed simp
  show "antenna_on (l @ map Opened fds) = antenna_on l"
  proof (induction fds rule: rev_induct)
    case (snoc x fds)
    then show ?case using antenna_on_snoc(2) [of "l @ map Opened fds" x] by simp
  qed simp
  show "opened_fds (map Opened fds) = fds" "closed_fds (map Opened fds) = []" by (induction fds) simp_all
qed

definition booting :: "linux_radio_config \<Rightarrow> 'h linux_radio \<Rightarrow> bool" where
  "booting c d \<longleftrightarrow> radio_inv d \<and> lr_config d = c \<and> \<not> lr_closed d \<and> \<not> lr_initialized d"

lemma opens_idle:
  assumes "opens fds d d'" "booting c d" "balanced ex d"
  shows "booting c d'" "balanced (ex @ fds) d'"
proof -
  obtain h where d': "d' = d\<lparr>lr_hw := h, lr_log := lr_log d @ map Opened fds\<rparr>" using assms(1) by (auto simp: opens_def)
  show "booting c d'" using assms(2) by (auto simp: d' booting_def radio_inv_def opened_log)
  show "balanced (ex @ fds) d'" using assms(3) by (simp add: d' balanced_def held_def opened_log)
qed

lemma opens_fields:
  assumes "opens fds d d'"
  shows "lr_spi_descriptor d' = lr_spi_descriptor d" "lr_i2c_descriptor d' = lr_i2c_descriptor d"
    "lr_reset_descriptor d' = lr_reset_descriptor d" "lr_irq_descriptor d' = lr_irq_descriptor d"
    "lr_busy_descriptor d' = lr_busy_descriptor d"
  using assms by (auto simp: opens_def)

lemma idle_fields [simp]:
  "booting c (d\<lparr>lr_spi_descriptor := fd\<rparr>) = booting c d" "booting c (d\<lparr>lr_i2c_descriptor := fd\<rparr>) = booting c d"
  "booting c (d\<lparr>lr_reset_descriptor := fd\<rparr>) = booting c d" "booting c (d\<lparr>lr_irq_descriptor := fd\<rparr>) = booting c d"
  "booting c (d\<lparr>lr_busy_descriptor := fd\<rparr>) = booting c d"
  by (simp_all add: booting_def radio_inv_def)

text \<open>A descriptor that a field takes over is held by the device.\<close>

lemma takes_over:
  assumes "balanced (ex @ filter (\<lambda>fd. 0 \<le> fd) [fd]) d"
  shows "lr_spi_descriptor d < 0 \<Longrightarrow> balanced ex (d\<lparr>lr_spi_descriptor := fd\<rparr>)"
    "lr_i2c_descriptor d < 0 \<Longrightarrow> balanced ex (d\<lparr>lr_i2c_descriptor := fd\<rparr>)"
    "lr_reset_descriptor d < 0 \<Longrightarrow> balanced ex (d\<lparr>lr_reset_descriptor := fd\<rparr>)"
    "lr_irq_descriptor d < 0 \<Longrightarrow> balanced ex (d\<lparr>lr_irq_descriptor := fd\<rparr>)"
    "lr_busy_descriptor d < 0 \<Longrightarrow> balanced ex (d\<lparr>lr_busy_descriptor := fd\<rparr>)"
  using assms by (simp_all add: balanced_def held_def)

lemma closes_idle:
  assumes "booting c d" "balanced (filter (\<lambda>fd. 0 \<le> fd) [fd]) d"
  shows "booting c (close_descriptor fd d)" "balanced [] (close_descriptor fd d)"
proof -
  show "booting c (close_descriptor fd d)" using assms(1) by (auto simp: close_descriptor_log booting_def radio_inv_def closes_log simp del: filter.simps)
  show "balanced [] (close_descriptor fd d)" using assms(2)
    by (simp add: close_descriptor_log balanced_def held_split closes_log del: filter.simps)
qed

lemma sends_idle:
  assumes "sends_only no_tx f" "f d = (x, d')" "booting c d" "balanced ex d"
  shows "booting c d'" "balanced ex d'" "lr_antenna_switch_enabled d' = lr_antenna_switch_enabled d"
proof -
  obtain fr where t: "talks fr d d'" "list_all (no_tx \<circ> fst) fr" using sendsD [OF assms(1,2)] by blast
  have inv: "radio_inv d" using assms(3) by (simp add: booting_def)
  note k = talks_inv [OF inv t(1) disjI1 [OF t(2)]]
  show "booting c d'" using k(1) assms(3) by (simp add: booting_def talks_fields [OF t(1)])
  show "balanced ex d'" using k(2) assms(4) by simp
  show "lr_antenna_switch_enabled d' = lr_antenna_switch_enabled d" by (rule talks_fields [OF t(1)])
qed

lemma setup_sends: "sends_only no_tx (spi_setup hw)" "sends_only no_tx (reset_radio hw)"
proof -
  have gpio: "sends_only no_tx (\<lambda>d. gpio_set hw (lr_reset_descriptor d) b d)" for b
    unfolding sends_only_def using gpio_talks(2) by (intro allI impI exI [of _ "[]"]) auto
  have wait: "sends_only no_tx (wait_while_busy hw)"
    unfolding sends_only_def using wait_talks by (intro allI impI exI [of _ "[]"]) auto
  have "sends_only no_tx (all_ok [\<lambda>d. gpio_set hw (lr_reset_descriptor d) False d, \<lambda>d. gpio_set hw (lr_reset_descriptor d) True d, wait_while_busy hw])"
    by (rule all_ok_sends) (simp add: gpio wait)
  then show "sends_only no_tx (reset_radio hw)" by (simp add: sends_only_def reset_radio_def del: all_ok.simps)
  have spi: "sends_only no_tx (spi_set hw x)" for x
    unfolding sends_only_def using gpio_talks(4) by (intro allI impI exI [of _ "[]"]) auto
  have "sends_only no_tx (all_ok (map (spi_set hw) xs))" for xs by (rule all_ok_sends) (simp add: list_all_iff spi)
  then show "sends_only no_tx (spi_setup hw)" by (simp add: sends_only_def spi_setup_def del: all_ok.simps)
qed

lemma antenna_idle:
  assumes "set_antenna_switch hw True d = (ok, d')" "booting c d" "balanced ex d" "\<not> lr_antenna_switch_enabled d"
  shows "booting c d'" "balanced ex d'" "ok \<longleftrightarrow> lr_antenna_switch_enabled d'"
proof -
  obtain ws d1 where w: "i2c_writes ws d d1" "d' = (if ok then d1\<lparr>lr_antenna_switch_enabled := True\<rparr> else d1)" "ok \<longrightarrow> antenna_on (lr_log d1)"
    using antenna_switch_on [OF assms(1)] by blast
  note k = i2c_keeps [OF w(1)]
  have i: "transmits_armed (lr_config d) (lr_log d)" "transmitted (lr_log d) \<longrightarrow> linux_radio_config_valid (lr_config d)" "lr_config d = c"
    "\<not> lr_closed d" "\<not> lr_initialized d" using assms(2) unfolding booting_def radio_inv_def by blast+
  have "transmits_armed (lr_config d1) (lr_log d1)" by (rule k(1) [OF i(1)])
  then show "booting c d'" using i(2-5) w(2,3) assms(4) by (cases ok) (simp_all add: booting_def radio_inv_def k(2,4-7))
  show "balanced ex d'" using assms(3) w(2) k(3) [of ex] by (cases ok) simp_all
  show "ok \<longleftrightarrow> lr_antenna_switch_enabled d'" using w(2) k(7) assms(4) by simp
qed

definition settled :: "linux_radio_config \<Rightarrow> 'h linux_radio \<Rightarrow> bool" where
  "settled c d \<longleftrightarrow> radio_inv d \<and> balanced [] d \<and> lr_config d = c \<and> (lr_closed d \<longrightarrow> held d = [] \<and> \<not> lr_initialized d) \<and>
     (\<not> lr_closed d \<longrightarrow> lr_initialized d)"

lemma shutdown_settled: "booting c d \<Longrightarrow> balanced [] d \<Longrightarrow> settled c (radio_shutdown hw d)"
  using shutdown_ends [of d "[]" hw] by (simp add: booting_def settled_def)

lemma setup_settled:
  assumes "booting c d" "balanced [] d" "linux_radio_config_valid c" "\<not> lr_antenna_switch_enabled d"
    "all_ok [spi_setup hw, set_antenna_switch hw True, reset_radio hw, configure_radio hw] d = (ok, d')"
  shows "booting c d'" "balanced [] d'" "ok \<Longrightarrow> settled c (d'\<lparr>lr_initialized := True, lr_closed := False\<rparr>)"
proof -
  obtain o1 d1 where 1: "spi_setup hw d = (o1, d1)" by fastforce
  obtain o2 d2 where 2: "set_antenna_switch hw True d1 = (o2, d2)" by fastforce
  obtain o3 d3 where 3: "reset_radio hw d2 = (o3, d3)" by fastforce
  obtain o4 d4 where 4: "configure_radio hw d3 = (o4, d4)" by fastforce
  note i1 = sends_idle [OF setup_sends(1) 1 assms(1,2)]
  have "\<not> lr_antenna_switch_enabled d1" using i1(3) assms(4) by simp
  note i2 = antenna_idle [OF 2 i1(1,2) this]
  note i3 = sends_idle [OF setup_sends(2) 3 i2(1,2)]
  note i4 = sends_idle [OF configure_sends 4 i3(1,2)]
  have d': "d' = (if \<not> o1 then d1 else if \<not> o2 then d2 else if \<not> o3 then d3 else d4)" "ok \<longleftrightarrow> o1 \<and> o2 \<and> o3 \<and> o4"
    using assms(5) 1 2 3 4 by (auto split: bool.splits)
  show "booting c d'" unfolding d'(1) using i1(1) i2(1) i3(1) i4(1) by simp
  show "balanced [] d'" unfolding d'(1) using i1(2) i2(2) i3(2) i4(2) by simp
  assume ok
  then have o: "d' = d4" "lr_antenna_switch_enabled d4" o4 using d' i2(3) i3(3) i4(3) by simp_all
  have "lr_config d3 = c" using i3(1) by (simp add: booting_def)
  from configure_configures [OF this] have conf: "configured c (lr_log d')" using 4 o by simp
  show "settled c (d'\<lparr>lr_initialized := True, lr_closed := False\<rparr>)"
    using o(1,2) conf i4(1,2) assms(3) by (auto simp: settled_def booting_def radio_inv_def balanced_def held_split simp del: filter.simps)
qed

lemma initialize_settled:
  assumes "booting c d" "balanced [] d" "lr_spi_descriptor d = - 1" "lr_i2c_descriptor d = - 1" "lr_reset_descriptor d = - 1"
    "lr_irq_descriptor d = - 1" "lr_busy_descriptor d = - 1" "\<not> lr_antenna_switch_enabled d"
  shows "settled c (radio_initialize hw d)"
proof (cases "linux_radio_config_valid c")
  case False
  then show ?thesis using shutdown_settled [OF assms(1,2)] assms(1) by (simp add: radio_initialize_def booting_def)
next
  case valid: True
  have c: "lr_config d = c" using assms(1) by (simp add: booting_def)
  obtain spi d1 where 1: "open_device hw (lrc_spi_device c) d = (spi, d1)" by fastforce
  let ?d1 = "d1\<lparr>lr_spi_descriptor := spi\<rparr>"
  obtain i2c d2 where 2: "open_device hw (lrc_i2c_device c) ?d1 = (i2c, d2)" by fastforce
  let ?d2 = "d2\<lparr>lr_i2c_descriptor := i2c\<rparr>"
  obtain chip d3 where 3: "open_device hw (lrc_gpio_chip c) ?d2 = (chip, d3)" by fastforce
  note o1 = opens_idle [OF open_opens(1) [OF 1] assms(1,2)] opens_fields [OF open_opens(1) [OF 1]]
  have b1: "booting c ?d1" "balanced [] ?d1" using o1(1) takes_over(1) [of "[]", OF o1(2)] o1(3) assms(3) by simp_all
  note o2 = opens_idle [OF open_opens(1) [OF 2] b1] opens_fields [OF open_opens(1) [OF 2]]
  have b2: "booting c ?d2" "balanced [] ?d2" using o2(1) takes_over(2) [of "[]", OF o2(2)] o2(4) o1(4) assms(4) by simp_all
  note o3 = opens_idle [OF open_opens(1) [OF 3] b2, simplified append_Nil] opens_fields [OF open_opens(1) [OF 3]]
  show ?thesis
  proof (cases "spi < 0 \<or> i2c < 0 \<or> chip < 0")
    case True
    have "settled c (radio_shutdown hw (close_descriptor chip d3))" by (rule shutdown_settled [OF closes_idle [OF o3(1,2)]])
    then show ?thesis using 1 2 3 True valid by (simp add: radio_initialize_def Let_def c)
  next
    case False
    let ?ex = "filter (\<lambda>fd. 0 \<le> fd) [chip]"
    obtain reset d4 where 4: "request_gpio hw chip (lrc_reset_gpio c) True True d3 = (reset, d4)" by fastforce
    let ?d4 = "d4\<lparr>lr_reset_descriptor := reset\<rparr>"
    obtain irq d5 where 5: "request_gpio hw chip (lrc_irq_gpio c) False False ?d4 = (irq, d5)" by fastforce
    let ?d5 = "d5\<lparr>lr_irq_descriptor := irq\<rparr>"
    obtain busy d6 where 6: "request_gpio hw chip (lrc_busy_gpio c) False False ?d5 = (busy, d6)" by fastforce
    let ?d6 = "d6\<lparr>lr_busy_descriptor := busy\<rparr>"
    note o4 = opens_idle [OF open_opens(2) [OF 4] o3(1,2)] opens_fields [OF open_opens(2) [OF 4]]
    have "lr_reset_descriptor d4 < 0" using o4(5) o3(5) o2(5) o1(5) assms(5) by simp
    then have b4: "booting c ?d4" "balanced ?ex ?d4" using o4(1) takes_over(3) [OF o4(2)] by simp_all
    note o5 = opens_idle [OF open_opens(2) [OF 5] b4] opens_fields [OF open_opens(2) [OF 5]]
    have "lr_irq_descriptor d5 < 0" using o5(6) o4(6) o3(6) o2(6) o1(6) assms(6) by simp
    then have b5: "booting c ?d5" "balanced ?ex ?d5" using o5(1) takes_over(4) [OF o5(2)] by simp_all
    note o6 = opens_idle [OF open_opens(2) [OF 6] b5] opens_fields [OF open_opens(2) [OF 6]]
    have "lr_busy_descriptor d6 < 0" using o6(7) o5(7) o4(7) o3(7) o2(7) o1(7) assms(7) by simp
    then have b6: "booting c ?d6" "balanced ?ex ?d6" using o6(1) takes_over(5) [OF o6(2)] by simp_all
    let ?d7 = "close_descriptor chip ?d6"
    note b7 = closes_idle [OF b6]
    have sw: "\<not> lr_antenna_switch_enabled ?d7"
      using assms(8) open_opens(1) [OF 1] open_opens(1) [OF 2] open_opens(1) [OF 3] open_opens(2) [OF 4] open_opens(2) [OF 5] open_opens(2) [OF 6]
      by (auto simp: opens_def close_descriptor_def)
    obtain ok d8 where 8: "all_ok [spi_setup hw, set_antenna_switch hw True, reset_radio hw, configure_radio hw] ?d7 = (ok, d8)" by fastforce
    note s = setup_settled [OF b7 valid sw 8]
    have "radio_initialize hw d = (if reset < 0 \<or> irq < 0 \<or> busy < 0 then radio_shutdown hw ?d7
        else if ok then d8\<lparr>lr_initialized := True, lr_closed := False\<rparr> else radio_shutdown hw d8)"
      using 1 2 3 4 5 6 8 False valid by (simp add: radio_initialize_def Let_def c del: all_ok.simps split: bool.split)
    then show ?thesis using shutdown_settled [OF b7] shutdown_settled [OF s(1,2)] s(3) by simp
  qed
qed

lemma new_settled: "settled c (linux_radio_new hw c h)"
  unfolding linux_radio_new_def
  by (rule initialize_settled) (simp_all add: booting_def radio_inv_def balanced_def held_def transmits_armed_def transmitted_def)

text \<open>The device through a run of the program: made once, then asked to transmit, polled or shut down in any order.\<close>

inductive radio_run :: "'h hardware \<Rightarrow> linux_radio_config \<Rightarrow> 'h \<Rightarrow> 'h linux_radio \<Rightarrow> bool" for hw c h where
  made: "radio_run hw c h (linux_radio_new hw c h)"
| asked: "radio_run hw c h d \<Longrightarrow> try_start_transmit hw data d = (st, d') \<Longrightarrow> radio_run hw c h d'"
| polled: "radio_run hw c h d \<Longrightarrow> radio_poll hw dest d = (a, d') \<Longrightarrow> radio_run hw c h d'"
| shut: "radio_run hw c h d \<Longrightarrow> radio_run hw c h (radio_shutdown hw d)"

lemma talks_settled:
  assumes "settled c d" "talks fr d d'" "list_all (no_tx \<circ> fst) fr \<or> lr_initialized d"
  shows "settled c d'"
proof -
  have "radio_inv d" using assms(1) by (simp add: settled_def)
  note k = talks_inv [OF this assms(2,3)] talks_fields [OF assms(2)]
  have "held d' = held d" by (simp add: held_def k)
  then show ?thesis using assms(1) k(1) k(2) [of "[]"] by (simp add: settled_def k)
qed

lemma start_settled:
  assumes "settled c d" "try_start_transmit hw data d = (st, d')"
  shows "settled c d'"
  using assms(2)
proof (cases rule: start_cases)
  case (no_tx fr)
  then show ?thesis using talks_settled [OF assms(1)] by blast
next
  case (send b irq rssi d1 ok d2)
  have ready: "lr_initialized d" using send(2) by (simp add: radio_ready_def)
  obtain fr where "talks fr d1 d2" using sendsD [OF transmit_sends send(8)] by blast
  from talks_trans [OF send(6) this] obtain fr' where t: "talks fr' d d2" by blast
  have "talks fr' d d'" unfolding send(10) using t talks_flags' [OF t] by simp
  then show ?thesis using talks_settled [OF assms(1)] ready by blast
qed

lemma poll_settled: "settled c d \<Longrightarrow> radio_poll hw dest d = (a, d') \<Longrightarrow> settled c d'"
  using poll_talks(1) talks_settled by blast

lemma run_settled: "radio_run hw c h d \<Longrightarrow> settled c d"
proof (induction rule: radio_run.induct)
  case made
  show ?case by (rule new_settled)
next
  case (asked d data st d')
  then show ?case using start_settled by blast
next
  case (polled d dest a d')
  then show ?case using poll_settled by blast
next
  case (shut d)
  show ?case
  proof (cases "lr_closed d")
    case True
    then have "radio_shutdown hw d = d" by (simp add: radio_shutdown_def)
    then show ?thesis using shut.IH by simp
  next
    case False
    then show ?thesis using shut.IH shutdown_ends [of d "[]" hw] by (simp add: settled_def)
  qed
qed

text \<open>The frequency of the chip: a step of 32 MHz / 2^25.\<close>

lemma frequency_word_nat:
  "unat (frequency_word f) = unat f * 2 ^ 25 div 32000000"
proof -
  have f: "unat f < 2 ^ 32" using unsigned_less [of f] by simp
  have "unat (push_bit 25 (ucast f) :: u64) = unat f * 2 ^ 25"
  proof -
    have "unat f * 2 ^ 25 < 2 ^ 64" using f by simp
    then show ?thesis using f by (simp add: push_bit_eq_mult unat_word_ariths unsigned_ucast_eq take_bit_nat_eq_self)
  qed
  then show ?thesis by (simp add: frequency_word_def unat_div)
qed

definition be_value :: "bytes \<Rightarrow> nat" where
  "be_value b = foldl (\<lambda>n x. n * 256 + unat x) 0 b"

lemma unat_ucast_byte: "unat (ucast (w :: u64) :: byte) = unat w mod 256"
  by (simp add: unsigned_ucast_eq take_bit_eq_mod)

lemma be_value_word:
  fixes w :: u64
  assumes "unat w < 2 ^ 32"
  shows "be_value (shifted_bytes [24, 16, 8, 0] w) = unat w"
proof -
  have d: "unat (drop_bit n w) = unat w div 2 ^ n" for n unfolding unat_drop_bit_eq by (rule drop_bit_eq_div)
  have "be_value (shifted_bytes [24, 16, 8, 0] w) =
    ((unat w div 2 ^ 24 mod 256 * 256 + unat w div 2 ^ 16 mod 256) * 256 + unat w div 2 ^ 8 mod 256) * 256 + unat w mod 256"
    by (simp add: be_value_def shifted_bytes_def unat_ucast_byte d)
  also have "\<dots> = unat w"
  proof -
    have step: "m div 256 * 256 + m mod 256 = m" for m :: nat by simp
    have "unat w div 2 ^ 24 mod 256 = unat w div 2 ^ 24" using assms by simp
    moreover have "unat w div 2 ^ 24 = unat w div 2 ^ 16 div 256" "unat w div 2 ^ 16 = unat w div 2 ^ 8 div 256" "unat w div 2 ^ 8 = unat w div 256"
      by (simp_all flip: div_mult2_eq)
    ultimately show ?thesis by (simp only: step)
  qed
  finally show ?thesis .
qed

lemma frequency_programmed:
  assumes "japan920_profile_valid p"
  shows "be_value (shifted_bytes [24, 16, 8, 0] (frequency_word (frequency_hz p))) = unat (frequency_hz p) * 2 ^ 25 div 32000000"
proof -
  have "frequency_hz p \<le> 923000000 - bandwidth_hz p div 2" "bandwidth_hz p = 125000"
    using assms by (auto simp: japan920_profile_valid_def Let_def)
  then have "unat (frequency_hz p) \<le> 922937500" by (simp add: word_le_nat_alt)
  then have "unat (frequency_word (frequency_hz p)) < 2 ^ 32" by (simp add: frequency_word_nat)
  then show ?thesis by (simp add: be_value_word frequency_word_nat)
qed

section \<open>A device for the examples\<close>

text \<open>Six descriptors from 3 on; the interrupt line is the fifth of them and is high when \<open>irq\<close> is; \<open>packet\<close> is in the buffer.\<close>

definition sample_hw :: "bool \<Rightarrow> bytes \<Rightarrow> int hardware" where
  "sample_hw irq packet =
     \<lparr>hw_open = (\<lambda>_ n. (n + 3, n + 1)),
      hw_request_gpio = (\<lambda>_ _ _ _ n. (n + 3, n + 1)),
      hw_gpio_get = (\<lambda>fd n. (Some (fd = 7 \<and> irq), n)),
      hw_gpio_set = (\<lambda>_ _ n. (True, n)),
      hw_spi = (\<lambda>_ t n. (Some (if hd t = kGetRssiInst then [0, 0, 200] else if hd t = kGetIrqStatus \<and> irq then [0, 0, 0, 2]
        else if hd t = kGetRxBufferStatus then [0, 0, of_nat (length packet), 0] else if hd t = kReadBuffer then [0, 0, 0] @ packet else []), n)),
      hw_spi_set = (\<lambda>_ _ n. (True, n)),
      hw_i2c_read = (\<lambda>_ _ n. (Some 1, n)),
      hw_i2c_write = (\<lambda>_ _ _ n. (True, n)),
      hw_elapsed = (\<lambda>n. (0, n))\<rparr>"

definition sample_radio_config :: linux_radio_config where
  "sample_radio_config =
     \<lparr>lrc_spi_device = [1], lrc_gpio_chip = [2], lrc_i2c_device = [3], lrc_reset_gpio = 1, lrc_irq_gpio = 2, lrc_busy_gpio = 3,
      lrc_spi_speed_hz = 1000000, lrc_listen_before_talk_threshold_dbm = - 80, lrc_antenna_confirmed = True,
      lrc_profile = jp_profile japan920_policy_config_default\<rparr>"

definition sample_state :: "int linux_radio \<Rightarrow> bool" where
  "sample_state d \<longleftrightarrow> lr_spi_descriptor d = 3 \<and> lr_i2c_descriptor d = 4 \<and> lr_irq_descriptor d = 7 \<and> lr_busy_descriptor d = 8 \<and>
     lr_config d = sample_radio_config"

definition sample_works :: "(int linux_radio \<Rightarrow> bool \<times> int linux_radio) \<Rightarrow> bool" where
  "sample_works f \<longleftrightarrow> (\<forall>d. sample_state d \<longrightarrow> (\<exists>d'. f d = (True, d') \<and> sample_state d'))"

lemma sample_hw_simps [simp]:
  "hw_open (sample_hw irq p) path n = (n + 3, n + 1)" "hw_request_gpio (sample_hw irq p) chip off out hi n = (n + 3, n + 1)"
  "hw_gpio_get (sample_hw irq p) fd n = (Some (fd = 7 \<and> irq), n)" "hw_gpio_set (sample_hw irq p) fd b n = (True, n)"
  "hw_spi_set (sample_hw irq p) fd s n = (True, n)" "hw_i2c_read (sample_hw irq p) fd a n = (Some 1, n)"
  "hw_i2c_write (sample_hw irq p) fd a v n = (True, n)"
  by (simp_all add: sample_hw_def)

definition sample_answer :: "bool \<Rightarrow> bytes \<Rightarrow> bytes \<Rightarrow> bytes" where
  "sample_answer irq packet t = take (length t) (the (fst (hw_spi (sample_hw irq packet) 3 t 0)) @ replicate (length t) 0)"

lemma sample_busy: "sample_state d \<Longrightarrow> wait_while_busy (sample_hw irq p) d = (True, d)"
  by (simp add: wait_while_busy_def busy_loop.simps gpio_get_def sample_state_def)

lemma sample_spi:
  assumes "sample_state d" "t \<noteq> []" "length t < 2 ^ 32"
  shows "spi_transfer (sample_hw irq p) t d = (Some (sample_answer irq p t), d\<lparr>lr_log := lr_log d @ [SpiDone t (sample_answer irq p t)]\<rparr>)"
  using assms by (simp add: spi_transfer_def sample_state_def sample_answer_def sample_hw_def Let_def)

lemma sample_log: "sample_state d \<Longrightarrow> sample_state (d\<lparr>lr_log := l\<rparr>)"
  by (simp add: sample_state_def)

lemma sample_write: "length data \<le> 259 \<Longrightarrow> sample_works (write_command (sample_hw irq p) op data)"
  by (simp add: sample_works_def write_command_def sample_busy sample_spi sample_log kMaximumDatagramBytes_def)

lemma sample_read:
  assumes "sample_state d" "n \<noteq> 0" "length args + n \<le> 259"
    "v = take n (drop (length args + 2) (sample_answer irq p (op # args @ replicate (n + 1) 0)))"
  shows "\<exists>d'. read_command (sample_hw irq p) op args n d = (Some v, d') \<and> sample_state d'"
  using assms by (simp add: read_command_def sample_busy sample_spi sample_log kMaximumDatagramBytes_def)

lemma opcodes_distinct:
  "kGetIrqStatus \<noteq> kGetRssiInst" "kGetIrqStatus \<noteq> kGetRxBufferStatus" "kGetIrqStatus \<noteq> kReadBuffer" "kGetRxBufferStatus \<noteq> kGetRssiInst"
  "kGetRxBufferStatus \<noteq> kGetIrqStatus" "kReadBuffer \<noteq> kGetRssiInst" "kReadBuffer \<noteq> kGetIrqStatus" "kReadBuffer \<noteq> kGetRxBufferStatus"
  by (simp_all add: opcode_defs)

lemmas sample_eval = sample_answer_def sample_hw_def opcodes_distinct numeral_3_eq_3 numeral_2_eq_2

lemma sample_all: "list_all sample_works fs \<Longrightarrow> sample_works (all_ok fs)"
proof (induction fs)
  case (Cons f fs)
  show ?case unfolding sample_works_def
  proof (intro allI impI)
    fix d assume "sample_state d"
    then obtain d1 where 1: "f d = (True, d1)" "sample_state d1" using Cons.prems by (auto simp: sample_works_def)
    have "sample_works (all_ok fs)" using Cons by simp
    then obtain d2 where 2: "all_ok fs d1 = (True, d2)" "sample_state d2" using 1(2) by (auto simp: sample_works_def)
    show "\<exists>d'. all_ok (f # fs) d = (True, d') \<and> sample_state d'" using 1 2 by simp
  qed
qed (simp add: sample_works_def)

lemma sample_works_intros:
  "sample_works (spi_setup (sample_hw irq p))" "sample_works (reset_radio (sample_hw irq p))"
  "sample_works (set_irq_mask (sample_hw irq p) m)" "sample_works (clear_irq (sample_hw irq p) m)"
  "0 < n \<Longrightarrow> n \<le> 255 \<Longrightarrow> sample_works (set_packet_params (sample_hw irq p) n)"
  "0 < length b \<Longrightarrow> length b \<le> 255 \<Longrightarrow> sample_works (write_register (sample_hw irq p) a b)"
proof -
  show "sample_works (spi_setup (sample_hw irq p))" 
    by (simp add: sample_works_def spi_setup_def spi_settings_def spi_set_def sample_state_def)
  show "sample_works (reset_radio (sample_hw irq p))"
    by (simp add: sample_works_def reset_radio_def gpio_set_def sample_state_def wait_while_busy_def busy_loop.simps gpio_get_def)
  show "sample_works (set_irq_mask (sample_hw irq p) m)" "sample_works (clear_irq (sample_hw irq p) m)"
    unfolding set_irq_mask_def clear_irq_def by (rule sample_write, simp)+
  show "sample_works (set_packet_params (sample_hw irq p) n)" if "0 < n" "n \<le> 255"
    using sample_write that by (simp add: sample_works_def set_packet_params_def Let_def kMaximumDatagramBytes_def)
  show "sample_works (write_register (sample_hw irq p) a b)" if "0 < length b" "length b \<le> 255"
    using sample_write that by (simp add: sample_works_def write_register_def kMaximumDatagramBytes_def)
qed

lemma sample_receive: "sample_works (start_receive (sample_hw irq p))"
proof -
  have "sample_works (all_ok [set_packet_params (sample_hw irq p) kMaximumDatagramBytes, clear_irq (sample_hw irq p) 0xffff,
     set_irq_mask (sample_hw irq p) kReceiveIrqs, write_command (sample_hw irq p) kSetRx [0xff, 0xff, 0xff]])"
    by (rule sample_all) (simp add: sample_works_intros sample_write kMaximumDatagramBytes_def)
  then show ?thesis unfolding sample_works_def start_receive_def
    by (auto simp del: all_ok.simps simp: sample_state_def split: prod.split bool.split)
qed

lemma sample_antenna: "sample_works (set_antenna_switch (sample_hw irq p) True)"
  by (simp add: sample_works_def set_antenna_switch_def device_id_present_def i2c_read_register_def i2c_write_register_def
      update_i2c_register_def sample_state_def)

lemma sample_configure: "sample_works (configure_radio (sample_hw irq p))"
proof -
  have "sample_works (all_ok (configure_commands (sample_hw irq p) (lrc_profile sample_radio_config)))"
    by (rule sample_all) (simp add: configure_commands_def sample_works_intros sample_write sample_receive shifted_bytes_def)
  then show ?thesis unfolding sample_works_def configure_radio_def by (auto simp: sample_state_def)
qed

lemma sample_config_valid: "linux_radio_config_valid sample_radio_config"
  by (simp add: linux_radio_config_valid_def sample_radio_config_def japan920_policy_config_default_def japan920_profile_default_def japan920_profile_valid_def Let_def)

lemma sample_made:
  "sample_state (linux_radio_new (sample_hw irq p) sample_radio_config 0)" "radio_ready (linux_radio_new (sample_hw irq p) sample_radio_config 0)"
  "\<not> lr_transmitting (linux_radio_new (sample_hw irq p) sample_radio_config 0)"
proof -
  let ?cmds = "[spi_setup (sample_hw irq p), set_antenna_switch (sample_hw irq p) True, reset_radio (sample_hw irq p), configure_radio (sample_hw irq p)]"
  let ?s = "\<lparr>lr_config = sample_radio_config, lr_spi_descriptor = 3, lr_i2c_descriptor = 4, lr_reset_descriptor = 6, lr_irq_descriptor = 7,
    lr_busy_descriptor = 8, lr_antenna_switch_enabled = False, lr_receiving = False, lr_transmitting = False, lr_initialized = False,
    lr_closed = False, lr_hw = 6 :: int, lr_log = [Opened 3, Opened 4, Opened 5, Opened 6, Opened 7, Opened 8, Closed 5]\<rparr>"
  have works: "sample_works (all_ok ?cmds)" by (rule sample_all) (simp add: sample_works_intros sample_antenna sample_configure)
  have s: "sample_state ?s" by (simp add: sample_state_def)
  obtain d where d: "all_ok ?cmds ?s = (True, d)" "sample_state d" using works s unfolding sample_works_def by blast
  have eq: "linux_radio_new (sample_hw irq p) sample_radio_config 0 = d\<lparr>lr_initialized := True, lr_closed := False\<rparr>"
    using d(1) by (simp add: linux_radio_new_def radio_initialize_def Let_def sample_config_valid open_device_def request_gpio_def close_descriptor_def
        del: all_ok.simps)
  show "sample_state (linux_radio_new (sample_hw irq p) sample_radio_config 0)" unfolding eq using d(2) by (simp add: sample_state_def)
  show "radio_ready (linux_radio_new (sample_hw irq p) sample_radio_config 0)" unfolding eq by (simp add: radio_ready_def)
  obtain d1 where "configure_radio (sample_hw irq p) d1 = (True, d)" using d(1) by (auto split: prod.splits bool.splits)
  then obtain d2 where "start_receive (sample_hw irq p) d2 = (True, d)"
    unfolding configure_radio_def configure_commands_def by (auto split: prod.splits bool.splits)
  then have "\<not> lr_transmitting d" using start_receive_all by fastforce
  then show "\<not> lr_transmitting (linux_radio_new (sample_hw irq p) sample_radio_config 0)" unfolding eq by simp
qed

lemma sample_starts:
  "fst (try_start_transmit (sample_hw False []) (Some [1, 2, 3]) (linux_radio_new (sample_hw False []) sample_radio_config 0)) = StartStarted"
proof -
  let ?hw = "sample_hw False []"
  let ?d = "linux_radio_new ?hw sample_radio_config 0"
  note m = sample_made [of False "[]"]
  have g: "gpio_get ?hw (lr_irq_descriptor ?d) ?d = (Some False, ?d)" by (simp add: gpio_get_def)
  have "\<exists>d1. read_command ?hw kGetIrqStatus [] 2 ?d = (Some [0, 0], d1) \<and> sample_state d1"
    by (rule sample_read [OF m(1)]) (simp_all add: sample_eval)
  then obtain d1 where 1: "read_irq ?hw ?d = (Some 0, d1)" "sample_state d1" by (auto simp: read_irq_def)
  have "\<exists>d2. read_command ?hw kGetRssiInst [] 1 d1 = (Some [200], d2) \<and> sample_state d2"
    by (rule sample_read [OF 1(2)]) (simp_all add: sample_eval)
  then obtain d2 where 2: "read_command ?hw kGetRssiInst [] 1 d1 = (Some [200], d2)" "sample_state d2" by blast
  have "sample_works (all_ok (transmit_commands ?hw [1, 2, 3]))"
    by (rule sample_all) (simp add: transmit_commands_def sample_works_intros sample_write shifted_bytes_def)
  then obtain d3 where 3: "all_ok (transmit_commands ?hw [1, 2, 3]) d2 = (True, d3)" using 2(2) unfolding sample_works_def by blast
  have "lr_config d2 = sample_radio_config" using 2(2) by (simp add: sample_state_def)
  then show ?thesis using m g 1 2 3 [unfolded transmit_commands_def]
    by (simp add: try_start_transmit_def rssi_dbm_def kMaximumDatagramBytes_def sample_radio_config_def del: all_ok.simps)
qed

lemma sample_polls:
  "fst (radio_poll (sample_hw True [65, 66]) (Some 255) (linux_radio_new (sample_hw True [65, 66]) sample_radio_config 0)) =
     poll_answer PollReceived 2 [65, 66]"
proof -
  let ?p = "[65, 66] :: bytes"
  let ?hw = "sample_hw True ?p"
  let ?d = "linux_radio_new ?hw sample_radio_config 0"
  note m = sample_made [of True ?p]
  have g: "gpio_get ?hw (lr_irq_descriptor ?d) ?d = (Some True, ?d)" using m(1) by (simp add: gpio_get_def sample_state_def)
  have "\<exists>d1. read_command ?hw kGetIrqStatus [] 2 ?d = (Some [0, 2], d1) \<and> sample_state d1"
    by (rule sample_read [OF m(1)]) (simp_all add: sample_eval)
  then obtain d1 where 1: "read_irq ?hw ?d = (Some 2, d1)" "sample_state d1" by (auto simp: read_irq_def)
  have "\<exists>d2. read_command ?hw kGetRxBufferStatus [] 2 d1 = (Some [2, 0], d2) \<and> sample_state d2"
    by (rule sample_read [OF 1(2)]) (simp_all add: sample_eval)
  then obtain d2 where 2: "read_command ?hw kGetRxBufferStatus [] 2 d1 = (Some [2, 0], d2)" "sample_state d2" by blast
  have "\<exists>d3. read_command ?hw kReadBuffer [0] 2 d2 = (Some ?p, d3) \<and> sample_state d3"
    by (rule sample_read [OF 2(2)]) (simp_all add: sample_eval)
  then obtain d3 where 3: "read_command ?hw kReadBuffer [0] 2 d2 = (Some ?p, d3)" "sample_state d3" by blast
  have "sample_works (all_ok [clear_irq ?hw 2, start_receive ?hw])"
    by (rule sample_all) (simp add: sample_works_intros sample_receive)
  then obtain d4 where 4: "all_ok [clear_irq ?hw 2, start_receive ?hw] d3 = (True, d4)" using 3(2) unfolding sample_works_def by blast
  have 5: "receive_packet ?hw 2 255 d1 = (poll_answer PollReceived 2 ?p, d4)"
    using 2(1) 3(1) 4 by (simp add: receive_packet_def listen_again_def Let_def del: all_ok.simps)
  show ?thesis using m g 1 5
    by (simp add: radio_poll_def kIrqTimeout_def kIrqTxDone_def kIrqHeaderError_def kIrqCrcError_def kIrqRxDone_def)
qed

lemma listen_again_size:
  "listen_again hw irq ans d = (a, d') \<Longrightarrow> poll_size a = 0 \<or> a = ans"
  using listen_again_answer [of hw irq ans d a d'] by (auto simp: poll_answer_def)

lemma receive_packet_size:
  assumes "receive_packet hw irq n d = (a, d')" "poll_status a \<noteq> PollReceived"
  shows "poll_size a = 0"
  using assms listen_again_size
  by (auto simp: receive_packet_def Let_def poll_answer_def split: prod.splits option.splits if_splits) fastforce+

lemma poll_size_idle:
  assumes "radio_poll hw dest d = (a, d')" "poll_status a \<noteq> PollReceived"
  shows "poll_size a = 0"
proof -
  obtain g d0 where g: "gpio_get hw (lr_irq_descriptor d) d = (g, d0)" by fastforce
  obtain i d1 where i: "read_irq hw d0 = (i, d1)" by fastforce
  consider "a \<in> {poll_answer PollFailed 0 [], poll_answer PollIdle 0 []}"
    | irq ans where "listen_again hw irq ans d1 = (a, d')" "poll_size ans = 0"
    | n irq where "receive_packet hw irq n d1 = (a, d')"
  proof (cases "\<not> radio_ready d \<or> dest = None \<or> the dest = 0 \<or> g \<noteq> Some True \<or> i = None")
    case True
    then show ?thesis using that(1) assms(1) g i by (auto simp: radio_poll_def split: if_splits option.splits bool.splits)
  next
    case False
    then obtain n irq where "dest = Some n" "n \<noteq> 0" "radio_ready d" "g = Some True" "i = Some irq" by auto
    then show ?thesis using that(1) that(2) [of irq "poll_answer PollIdle 0 []"] that(2) [of irq "poll_answer PollTransmitComplete 0 []"]
        that(3) [of irq n] assms(1) g i
      by (auto simp: radio_poll_def poll_answer_def split: if_splits)
  qed
  then show ?thesis
  proof cases
    case 1
    then show ?thesis by (auto simp: poll_answer_def)
  next
    case (2 irq ans)
    then show ?thesis using listen_again_size [OF 2(1)] by auto
  next
    case (3 n irq)
    then show ?thesis by (rule receive_packet_size [OF _ assms(2)])
  qed
qed

text \<open>The frames that fetch a packet and make the chip listen again, the last of them the command \<^verbatim>\<open>SetRx\<close>.\<close>

definition packet_frames :: "linux_radio_config \<Rightarrow> bytes \<Rightarrow> bytes \<Rightarrow> bytes list" where
  "packet_frames c irq status =
     [read_frame kGetIrqStatus [] 2, read_frame kGetRxBufferStatus [] 2, read_frame kReadBuffer [status ! 3] (unat (status ! 2)),
      clear_frame (irq_of irq), packet_frame c 255, clear_frame 0xffff, irq_frame kReceiveIrqs, [kSetRx, 0xff, 0xff, 0xff]]"

lemma poll_received:
  assumes "radio_poll hw dest d = (a, d')" "poll_status a = PollReceived"
  shows "\<exists>n irq status fr rs b. dest = Some n \<and> length rs = 5 \<and> irq_of irq AND kIrqRxDone \<noteq> 0 \<and>
    irq_of irq AND (kIrqHeaderError OR kIrqCrcError) = 0 \<and>
    lr_log d' = lr_log d @ spi_ops ([(read_frame kGetIrqStatus [] 2, irq), (read_frame kGetRxBufferStatus [] 2, status)] @ fr @
      zip (clear_frame (irq_of irq) # receive_frames (lr_config d)) rs) \<and> lr_receiving d' \<and> \<not> lr_transmitting d' \<and>
    a = poll_answer PollReceived (unat (status ! 2)) b \<and>
    (if unat (status ! 2) = 0 \<or> unat (status ! 2) > n then b = [] \<and> fr = []
     else \<exists>payload. fr = [(read_frame kReadBuffer [status ! 3] (unat (status ! 2)), payload)] \<and> b = drop 3 payload \<and>
       length payload = unat (status ! 2) + 3)"
proof -
  obtain n irq d1 where p: "dest = Some n" "talks [(read_frame kGetIrqStatus [] 2, irq)] d d1" "irq_of irq AND kIrqRxDone \<noteq> 0"
    "irq_of irq AND (kIrqHeaderError OR kIrqCrcError) = 0" "packet_read hw (irq_of irq) n d1 a d'"
    using poll_talks(2) [OF assms] by blast
  obtain status fr rs b where q:
    "talks ((read_frame kGetRxBufferStatus [] 2, status) # fr @ zip (clear_frame (irq_of irq) # receive_frames (lr_config d1)) rs) d1 d'"
    "length rs = 5" "lr_receiving d'" "\<not> lr_transmitting d'" "a = poll_answer PollReceived (unat (status ! 2)) b"
    "if unat (status ! 2) = 0 \<or> unat (status ! 2) > n then b = [] \<and> fr = []
     else \<exists>payload. fr = [(read_frame kReadBuffer [status ! 3] (unat (status ! 2)), payload)] \<and> b = drop 3 payload \<and>
       length payload = unat (status ! 2) + 3"
    using p(5) unfolding packet_read_def by blast
  have "lr_config d1 = lr_config d" by (rule talks_fields(1) [OF p(2)])
  then have "lr_log d' = lr_log d @ spi_ops ([(read_frame kGetIrqStatus [] 2, irq), (read_frame kGetRxBufferStatus [] 2, status)] @ fr @
      zip (clear_frame (irq_of irq) # receive_frames (lr_config d)) rs)"
    using talks_fields(10) [OF talks_trans [OF p(2) q(1)]] by simp
  then show ?thesis using p(1,3,4) q(2-6)
    by (intro exI [of _ n] exI [of _ irq] exI [of _ status] exI [of _ fr] exI [of _ rs] exI [of _ b] conjI)
qed

lemma started_frames:
  assumes start: "try_start_transmit hw data d = (StartStarted, d')"
  shows "\<exists>b irq rssi rs. data = Some b \<and> 0 < length b \<and> length b \<le> 255 \<and> radio_ready d \<and> \<not> lr_transmitting d \<and>
    channel_free (lr_config d) irq rssi \<and> length rs = 6 \<and> lr_transmitting d' \<and> \<not> lr_receiving d' \<and>
    lr_log d' = lr_log d @ spi_ops
      ([(read_frame kGetIrqStatus [] 2, irq), (read_frame kGetRssiInst [] 1, rssi)] @ zip (transmit_frames (lr_config d) b) rs)"
  using start
proof (cases rule: start_cases)
  case (send b irq rssi d1 ok d2)
  have ok: ok using send(9) by (cases ok) simp_all
  have c: "lr_config d1 = lr_config d" by (rule talks_fields(1) [OF send(6)])
  have "all_ok (transmit_commands hw b) d1 = (True, d2)" using send(8) ok by (simp del: all_ok.simps)
  from doesD [OF transmit_does c this] obtain rs where len: "length rs = length (transmit_frames (lr_config d) b)"
    and rs: "talks (zip (transmit_frames (lr_config d) b) rs) d1 d2" by blast
  have "lr_log d2 = lr_log d @ spi_ops
      ([(read_frame kGetIrqStatus [] 2, irq), (read_frame kGetRssiInst [] 1, rssi)] @ zip (transmit_frames (lr_config d) b) rs)"
    by (rule talks_fields(10) [OF talks_trans [OF send(6) rs]])
  then show ?thesis using send ok len
    by (intro exI [of _ b] exI [of _ irq] exI [of _ rssi] exI [of _ rs]) (simp add: kMaximumDatagramBytes_def transmit_frames_def)
qed simp

lemma frame_sent:
  assumes "i < length frs" "length rs = length frs"
  shows "SpiDone (frs ! i) (rs ! i) \<in> set (spi_ops (zip frs rs))"
proof -
  have "(frs ! i, rs ! i) \<in> set (zip frs rs)" using assms by (auto simp: set_zip)
  then show ?thesis by force
qed

lemma started_transmitted:
  assumes "try_start_transmit hw data d = (StartStarted, d')"
  shows "transmitted (lr_log d')"
proof -
  obtain b irq rssi rs where x: "length rs = 6" "lr_log d' = lr_log d @ spi_ops
      ([(read_frame kGetIrqStatus [] 2, irq), (read_frame kGetRssiInst [] 1, rssi)] @ zip (transmit_frames (lr_config d) b) rs)"
    using started_frames [OF assms] by blast
  have "SpiDone (transmit_frames (lr_config d) b ! 5) (rs ! 5) \<in> set (lr_log d')"
    using frame_sent [of 5 "transmit_frames (lr_config d) b" rs] x(1) unfolding x(2) by (simp add: transmit_frames_def del: set_map)
  moreover have "hd (transmit_frames (lr_config d) b ! 5) = kSetTx" by (simp add: transmit_frames_def)
  ultimately show ?thesis unfolding transmitted_def by blast
qed

section \<open>Properties\<close>

text \<open>C31: in every run of the radio device, whatever the hardware answers, a command to transmit is only sent after the antenna switch has
  been turned on and has stayed on, and after the complete configuration of the chip; the user has confirmed the antenna, the profile is one
  the Japanese band allows, and the frequency the chip was programmed with is that of the profile, to the step of its synthesizer.\<close>

theorem radio_transmits_armed:
  assumes run: "radio_run hw c h d" and sent: "lr_log d = pre @ SpiDone t r # post" and tx: "hd t = kSetTx"
  shows "antenna_on pre \<and> configured c pre \<and> lrc_antenna_confirmed c \<and> japan920_profile_valid (lrc_profile c) \<and>
    hd (configure_frames c ! 7) = kSetRfFrequency \<and>
    be_value (tl (configure_frames c ! 7)) = unat (frequency_hz (lrc_profile c)) * 2 ^ 25 div 32000000"
proof -
  have "settled c d" by (rule run_settled [OF run])
  then have i: "transmits_armed c (lr_log d)" "transmitted (lr_log d) \<longrightarrow> linux_radio_config_valid c" by (auto simp: settled_def radio_inv_def)
  have "transmitted (lr_log d)" unfolding transmitted_def using sent tx by fastforce
  then have v: "lrc_antenna_confirmed c" "japan920_profile_valid (lrc_profile c)" using i(2) by (auto simp: linux_radio_config_valid_def)
  have "armed c pre" using i(1) sent tx unfolding transmits_armed_def by blast
  then show ?thesis using v frequency_programmed [OF v(2)] by (simp add: armed_def configure_frames_def Let_def)
qed

theorem radio_transmits_armed_witness:
  "\<exists>d' pre t r post. radio_run (sample_hw False []) sample_radio_config 0 d' \<and> lr_log d' = pre @ SpiDone t r # post \<and> hd t = kSetTx \<and>
     antenna_on pre \<and> configured sample_radio_config pre"
proof -
  obtain d' where p: "try_start_transmit (sample_hw False []) (Some [1, 2, 3]) (linux_radio_new (sample_hw False []) sample_radio_config 0) = (StartStarted, d')"
    using sample_starts by (metis prod.collapse)
  have run: "radio_run (sample_hw False []) sample_radio_config 0 d'" by (rule asked [OF made p])
  obtain t r where "SpiDone t r \<in> set (lr_log d')" and tx: "hd t = kSetTx" using started_transmitted [OF p] unfolding transmitted_def by blast
  then obtain pre post where split: "lr_log d' = pre @ SpiDone t r # post" by (meson split_list)
  show ?thesis using radio_transmits_armed [OF run split tx] run split tx by blast
qed

text \<open>In every run of the radio device each descriptor that was opened is held by the device or has been closed, each exactly once;
  shutting the device down turns it off for good and leaves none open, also when opening the device has failed half way.\<close>

theorem radio_releases_descriptors:
  assumes run: "radio_run hw c h d"
  shows "mset (opened_fds (lr_log d)) = mset (closed_fds (lr_log d)) + mset (held d) \<and> (lr_closed d \<longleftrightarrow> \<not> lr_initialized d) \<and>
    (lr_closed d \<longrightarrow> held d = []) \<and> lr_closed (radio_shutdown hw d) \<and> held (radio_shutdown hw d) = [] \<and>
    mset (opened_fds (lr_log (radio_shutdown hw d))) = mset (closed_fds (lr_log (radio_shutdown hw d)))"
proof -
  have s: "settled c d" "settled c (radio_shutdown hw d)" by (rule run_settled [OF run], rule run_settled [OF shut [OF run]])
  have "lr_closed (radio_shutdown hw d)"
  proof (cases "lr_closed d")
    case False
    then show ?thesis using s(1) shutdown_ends(4) [of d "[]" hw] by (simp add: settled_def)
  qed (simp add: radio_shutdown_def)
  then show ?thesis using s by (simp add: settled_def balanced_def) blast
qed

theorem radio_releases_descriptors_witness:
  "\<exists>d'. try_start_transmit (sample_hw False []) (Some [1, 2, 3]) (linux_radio_new (sample_hw False []) sample_radio_config 0) = (StartStarted, d') \<and>
     mset (opened_fds (lr_log (radio_shutdown (sample_hw False []) d'))) = mset (closed_fds (lr_log (radio_shutdown (sample_hw False []) d')))"
proof -
  obtain d' where p: "try_start_transmit (sample_hw False []) (Some [1, 2, 3]) (linux_radio_new (sample_hw False []) sample_radio_config 0) = (StartStarted, d')"
    using sample_starts by (metis prod.collapse)
  have "radio_run (sample_hw False []) sample_radio_config 0 d'" by (rule asked [OF made p])
  from radio_releases_descriptors [OF this] p show ?thesis by blast
qed

text \<open>C32: a transmission that starts has found the chip idle and the channel below the threshold, in the two queries it made, and has then sent
  the chip exactly the frames that load the datagram, all of it and unchanged, and start it; it is not started while another one is under way.\<close>

theorem radio_transmission:
  assumes start: "try_start_transmit hw data d = (StartStarted, d')"
  shows "\<exists>b irq rssi rs. data = Some b \<and> 0 < length b \<and> length b \<le> 255 \<and> radio_ready d \<and> \<not> lr_transmitting d \<and>
    channel_free (lr_config d) irq rssi \<and> length rs = 6 \<and> lr_transmitting d' \<and> \<not> lr_receiving d' \<and>
    lr_log d' = lr_log d @ spi_ops
      ([(read_frame kGetIrqStatus [] 2, irq), (read_frame kGetRssiInst [] 1, rssi)] @ zip (transmit_frames (lr_config d) b) rs)"
  by (rule started_frames [OF start])

theorem radio_transmission_witness:
  "\<exists>d'. try_start_transmit (sample_hw False []) (Some [1, 2, 3]) (linux_radio_new (sample_hw False []) sample_radio_config 0) = (StartStarted, d') \<and>
     lr_transmitting d' \<and> (\<exists>x. SpiDone [kWriteBuffer, 0, 1, 2, 3] x \<in> set (lr_log d'))"
proof -
  let ?d = "linux_radio_new (sample_hw False []) sample_radio_config 0"
  obtain d' where p: "try_start_transmit (sample_hw False []) (Some [1, 2, 3]) ?d = (StartStarted, d')"
    using sample_starts by (metis prod.collapse)
  obtain irq rssi rs where x: "length rs = 6" "lr_transmitting d'" "lr_log d' = lr_log ?d @ spi_ops
      ([(read_frame kGetIrqStatus [] 2, irq), (read_frame kGetRssiInst [] 1, rssi)] @ zip (transmit_frames (lr_config ?d) [1, 2, 3]) rs)"
    using radio_transmission [OF p] by auto
  have "SpiDone [kWriteBuffer, 0, 1, 2, 3] (rs ! 2) \<in> set (lr_log d')"
    using frame_sent [of 2 "transmit_frames (lr_config ?d) [1, 2, 3]" rs] x(1) unfolding x(3) by (simp add: transmit_frames_def del: set_map)
  then show ?thesis using p x(2) by blast
qed

text \<open>C33: what a poll with the transport's buffer of 255 bytes returns is well formed in the sense the transport relies on, and a packet it
  returns is the one in the chip's buffer: of the length and at the address the chip reported, after a reception without a header or
  checksum error. The frames \<open>map fst ex\<close> sent to the chip are all of \<open>packet_frames\<close>, in this order and nothing else: the two queries, the
  read of the buffer, the acknowledgement of exactly the interrupts that were reported, and the frames that end with \<^verbatim>\<open>SetRx\<close>, so that
  the chip listens again; \<open>irq\<close>, \<open>status\<close> and \<open>payload\<close> are the chip's answers to the first three.\<close>

theorem radio_delivery:
  assumes poll: "radio_poll hw (Some n) d = (a, d')" and room: "255 \<le> n"
  shows "poll_wf a \<and> (poll_status a = PollReceived \<and> 0 < poll_size a \<longrightarrow>
    (\<exists>irq status payload ex. irq_of irq AND kIrqRxDone \<noteq> 0 \<and> irq_of irq AND (kIrqHeaderError OR kIrqCrcError) = 0 \<and>
       poll_size a = unat (status ! 2) \<and> poll_bytes a = drop 3 payload \<and> length (poll_bytes a) = poll_size a \<and>
       lr_receiving d' \<and> \<not> lr_transmitting d' \<and> lr_log d' = lr_log d @ spi_ops ex \<and>
       map fst ex = packet_frames (lr_config d) irq status \<and> take 3 (map snd ex) = [irq, status, payload] \<and>
       last (map fst ex) = [kSetRx, 0xff, 0xff, 0xff]))"
proof (cases "poll_status a = PollReceived")
  case False
  then show ?thesis using poll_size_idle [OF poll] by (simp add: poll_wf_def)
next
  case True
  obtain irq status fr rs b where p: "irq_of irq AND kIrqRxDone \<noteq> 0" "irq_of irq AND (kIrqHeaderError OR kIrqCrcError) = 0"
    "lr_log d' = lr_log d @ spi_ops ([(read_frame kGetIrqStatus [] 2, irq), (read_frame kGetRxBufferStatus [] 2, status)] @ fr @
      zip (clear_frame (irq_of irq) # receive_frames (lr_config d)) rs)" "lr_receiving d'" "\<not> lr_transmitting d'"
    "a = poll_answer PollReceived (unat (status ! 2)) b" "length rs = 5"
    "if unat (status ! 2) = 0 \<or> unat (status ! 2) > n then b = [] \<and> fr = []
     else \<exists>payload. fr = [(read_frame kReadBuffer [status ! 3] (unat (status ! 2)), payload)] \<and> b = drop 3 payload \<and>
       length payload = unat (status ! 2) + 3"
    using poll_received [OF poll True] by auto
  have "unat (status ! 2) < 2 ^ LENGTH(8)" by (rule unsigned_less)
  then have small: "unat (status ! 2) \<le> 255" by simp
  show ?thesis
  proof (cases "unat (status ! 2) = 0")
    case True
    then show ?thesis using p(6) by (simp add: poll_wf_def poll_answer_def)
  next
    case False
    then obtain payload where f: "fr = [(read_frame kReadBuffer [status ! 3] (unat (status ! 2)), payload)]" "b = drop 3 payload"
      "length payload = unat (status ! 2) + 3" using p(8) small room by auto
    let ?ex = "[(read_frame kGetIrqStatus [] 2, irq), (read_frame kGetRxBufferStatus [] 2, status)] @ fr @
      zip (clear_frame (irq_of irq) # receive_frames (lr_config d)) rs"
    have "map fst ?ex = packet_frames (lr_config d) irq status"
      using p(7) by (simp add: f(1) packet_frames_def receive_frames_def map_fst_zip)
    moreover have "take 3 (map snd ?ex) = [irq, status, payload]" by (simp add: f(1) numeral_3_eq_3)
    moreover have "last (packet_frames (lr_config d) irq status) = [kSetRx, 0xff, 0xff, 0xff]" by (simp add: packet_frames_def)
    ultimately show ?thesis using p(1-6) f(2,3)
      by (intro conjI impI exI [of _ irq] exI [of _ status] exI [of _ payload] exI [of _ ?ex]) (simp_all add: poll_wf_def poll_answer_def)
  qed
qed

theorem radio_delivery_witness:
  "\<exists>d' r. radio_poll (sample_hw True [65, 66]) (Some 255) (linux_radio_new (sample_hw True [65, 66]) sample_radio_config 0) =
     (poll_answer PollReceived 2 [65, 66], d') \<and> poll_wf (poll_answer PollReceived 2 [65, 66]) \<and> lr_receiving d' \<and>
     last (lr_log d') = SpiDone [kSetRx, 0xff, 0xff, 0xff] r"
proof -
  let ?d = "linux_radio_new (sample_hw True [65, 66]) sample_radio_config 0"
  obtain d' where p: "radio_poll (sample_hw True [65, 66]) (Some 255) ?d = (poll_answer PollReceived 2 [65, 66], d')"
    using sample_polls by (metis prod.collapse)
  obtain irq status ex where x: "lr_receiving d'" "lr_log d' = lr_log ?d @ spi_ops ex"
    "map fst ex = packet_frames (lr_config ?d) irq status" "last (map fst ex) = [kSetRx, 0xff, 0xff, 0xff]"
    using radio_delivery [OF p order_refl] by (auto simp: poll_answer_def)
  have "ex \<noteq> []" using x(3) by (auto simp: packet_frames_def)
  then have "last (lr_log d') = SpiDone [kSetRx, 0xff, 0xff, 0xff] (snd (last ex))"
    using x(2,4) by (simp add: last_map case_prod_unfold)
  then show ?thesis using radio_delivery [OF p order_refl] p x(1) by (intro exI [of _ d'] exI [of _ "snd (last ex)"]) simp
qed

end
