(* ===== verification/Spec2Isabelle.thy ===== *)
theory Spec2Isabelle
  imports Platform_Runner Platform_Input Adapter_Radio_Bus Adapter_Radio_Laws
begin

text \<open>
  A verification library for LoRa Messenger, a messenger without servers for a handheld device. Posts travel as
  broadcast datagrams over a LoRa radio or a local network; every device keeps its own identity, timeline and ledger of
  messages already seen in a settings file and an SQLite database. Paths below are relative to the
  repository, whose sources are under \<^verbatim>\<open>src/\<close>.

  \<^bold>\<open>The program.\<close> \<^verbatim>\<open>app/app.cpp\<close> runs the main loop. A key goes through the view model, which calls the messenger's commands; the
  messenger (\<^verbatim>\<open>application/messenger_state.cpp\<close>) owns the identity and the timeline and asks the session to persist
  every change before it takes effect. The session (\<^verbatim>\<open>app/persistent_session.cpp\<close>) keeps the settings file and the
  database. On every turn the radio runtime (\<^verbatim>\<open>app/radio_runtime.cpp\<close>) moves queued posts to the scheduler, which
  fragments them and offers datagrams to a policy and a transport, and feeds received datagrams to the inbound queue, whose
  complete posts the session accepts.

  \<^bold>\<open>Theories, in the order of their imports.\<close>
  \<^item> \<open>Lora_Prelude\<close>: words at the widths of the program, bytes, big-endian integers, saturating arithmetic, limits, the
    shared collections of rewrite rules. \<open>Lora_Interfaces\<close>: the contracts several components share, as locales:
    \<open>bounded_ledger\<close> (a store of distinct keys within a capacity) and \<open>codec\<close> (an encoder whose decoder is strict).
  \<^item> \<open>Core_Text\<close> (\<^verbatim>\<open>core/text.cpp\<close>), \<open>Core_Uuid\<close> (\<^verbatim>\<open>core/uuid.cpp\<close>): UTF-8 validation against the definition by scalar values,
    text rules, UUIDs with parsing, printing and generation.
  \<^item> \<open>Model_Post\<close>, \<open>Model_Timeline\<close> (\<^verbatim>\<open>model/\<close>): identity, validated posts, the timeline with eviction and delivery states.
  \<^item> \<open>Protocol_Post_Codec\<close>, \<open>Protocol_Frame_Codec\<close>, \<open>Protocol_Fragmenter\<close>, \<open>Protocol_Dedupe\<close>, \<open>Protocol_Reassembler\<close>,
    \<open>Protocol_Reassembly\<close>, \<open>Protocol_Ingress\<close> (\<^verbatim>\<open>protocol/\<close>): the two wire formats are interpretations of \<open>codec\<close>; a corrupted byte
    is detected by the checksum; the duplicate ledger; reassembly is sound for any traffic and complete for a post
    whose fragments arrive in time, in any order, among any other frames.
  \<^item> \<open>App_Messenger_State\<close> (\<^verbatim>\<open>application/messenger_state.cpp\<close>): every command as a function from the ports' answers and the state to
    a result, a state and the persist calls made.
  \<^item> \<open>Ports_Radio\<close>, \<open>Radio_Japan920\<close>, \<open>Radio_Lan\<close> (\<^verbatim>\<open>ports/\<close>, \<^verbatim>\<open>adapters/\<close>): the locale \<open>transmit_budget\<close> and its two policies; the airtime
    formula is evaluated in binary64 arithmetic written out on integers.
  \<^item> \<open>App_Scheduler\<close> (\<^verbatim>\<open>application/transmission_scheduler.cpp\<close>): \<open>pump\<close>, \<open>scheduler_enqueue\<close>, \<open>cancel_all\<close>, with runs as an inductive
    relation.
  \<^item> \<open>Adapter_Transports\<close>: both datagram transports over a device whose answers are arguments, under one locale.
    \<open>Adapter_Radio_Device\<close>, \<open>Adapter_Radio_Laws\<close> (\<^verbatim>\<open>adapters/radio/linux_cap_lora_1262_radio.cpp\<close>): the driver of the radio chip over the kernel's calls,
    a record of functions of a state of the hardware, with a log of what was done on the buses; its runs are the
    inductive relation \<open>radio_run\<close>. \<open>Adapter_Radio_Bus\<close> (\<^verbatim>\<open>adapters/transport/simulated_radio_bus.cpp\<close>): the two-endpoint bus with a virtual clock and
    injected faults.
  \<^item> \<open>Storage_History\<close>, \<open>Storage_Sqlite\<close> (\<^verbatim>\<open>adapters/storage/sqlite_history_store.cpp\<close>): which snapshots may be stored, the rows written and read; a write is
    the list of its statements, run in a transaction that the destructor rolls back.
    \<open>Storage_Settings\<close> (\<^verbatim>\<open>settings_json.cpp\<close>): the strict JSON reader and the settings record. \<open>Storage_Atomic\<close>
    (\<^verbatim>\<open>atomic_settings_store.cpp\<close>): the replacement of the file over a file system that may lose power at any moment.
  \<^item> \<open>App_Session\<close>, \<open>App_Runtime\<close>: start-up, recovery, durability, deletion; the pump over session, scheduler and inbound queue.
  \<^item> \<open>View_Text_Editor\<close>, \<open>View_I18n\<close>, \<open>View_Layout\<close>, \<open>View_Model\<close>, \<open>View_Model_Laws\<close> (\<^verbatim>\<open>viewmodel/\<close>): the editor, the translations, the wrapping of long
    posts, every key handler and snapshot, and the locale \<open>messenger_owner\<close> of what the view model relies on.
  \<^item> \<open>App_Shell\<close>, \<open>App_Properties\<close> (\<^verbatim>\<open>app/app.cpp\<close>, \<^verbatim>\<open>app/demo_scenario.cpp\<close>): start, keys, main loop, probes and end. The session is an
    interpretation of \<open>messenger_owner\<close>, and the runs of the whole program are the inductive relation \<open>app_run\<close>.
  \<^item> \<open>Platform_Script\<close>, \<open>Platform_Runner\<close> (\<^verbatim>\<open>platform/app_script_parser.cpp\<close>, \<^verbatim>\<open>platform/app_script.cpp\<close>): the language of the scripts that drive the program, and
    the timer that runs them on it. \<open>Platform_Input\<close> (\<^verbatim>\<open>platform/key_codec.h\<close>, \<^verbatim>\<open>platform/linux_input.cpp\<close>): the codes of keys, the keypad with its
    modifiers and the routing of keys to the program.

  \<^bold>\<open>How state and effects are modelled.\<close> A class is a record of its members, a member function a function that returns the
  record updated. What is outside the sources or is input and output is an argument: the answers of the random source,
  clock, file system, database, socket, radio device and display, one record of answers per operation, so that a theorem
  for all answers covers all failures. Exceptions and error codes are values of sum and option types. Unsigned
  integers keep their width wherever the code computes with them; sizes of containers are natural numbers.

  \<^bold>\<open>What the groups of lemmas show.\<close> For the whole program: stored data survives it, drafts are not lost while it runs, data is removed only
  on confirmation, every state is well formed and every text drawn is valid UTF-8. For storage: the settings
  file is replaced atomically, its format reads back, and the session's view of the disk is implemented by it; the
  history reads back, saves are atomic and counters never move back; a restart recovers what a session showed.
  For the radio: what is reported as broadcast was accepted by the transport, airtime stays within the budget in every window of ticks,
  every message ends, and the datagrams of a post are taken and reported as that post however their arrival and processing interleave. For the protocol: strict formats, detection of corruption, sound and complete
  reassembly. For the messenger: commands are transactions, sequences are never reused. For the devices: the chip
  is told to transmit only with the antenna on, configured, on a free channel and with the datagram it was given; the
  simulated bus forges nothing; scripts parse back, end, and do what a user's keys do; typed text is read back unchanged
  from the keypad and handed to the program key by key.

  \<^bold>\<open>Bounds and termination.\<close> No definition needs fuel beyond what the code has. Loops of the source are structural recursions or
  \<open>function\<close>s with a measure; the wait for the radio chip is measured by the time left to its deadline. The member and element loops of the JSON reader take as many rounds as there are characters left, which
  \<open>json_loops_end\<close> shows to be enough; the processing loop of a pump has the four rounds of the source; the main loop is
  not a function but the steps of \<open>app_run\<close>.

  \<^bold>\<open>Not modelled.\<close> Drawing (\<^verbatim>\<open>view/\<close>), logging, screenshots, fonts and asset search: they call LVGL, spdlog and the file system and keep no
  state the program reads. \<^verbatim>\<open>posix_udp_broadcast_socket.cpp\<close>: system calls on sockets and interfaces, whose answers are the
  arguments of the UDP transport here. Opening, probing and migrating the database inside SQLite. The directories of
  the desktop (\<^verbatim>\<open>xdg_paths.cpp\<close>). Of the radio driver: the lengths of the sleeps after a reset and what the chip does with a frame.
\<close>

end
